(* ===== verification/Cx_Prelude.thy ===== *)
theory Cx_Prelude
  imports Main "HOL-Library.Word"
begin

text \<open>
  The prelude of the CXLoom development: the machine-integer types, the status codes and
  results of \<^verbatim>\<open>include/cxloom/common/status.h\<close>, error-propagating loops, host masks and
  the generic facts about words that the components share.

  Fixed-width C++ integers are words of the same width: \<open>+\<close>, \<open>-\<close> and \<open>*\<close> wrap around as the
  unsigned types do.  A \<^verbatim>\<open>Status\<close> is its code: the message text is only ever printed, no
  branch of the program reads it, so it is left out.  A \<^verbatim>\<open>Result<T>\<close> is a sum, \<open>Inl\<close> the
  status of a failure and \<open>Inr\<close> the value.
\<close>

unbundle bit_operations_syntax

named_theorems cx_word \<open>facts that move word operations of the model to the natural numbers\<close>
named_theorems cx_mask \<open>facts about the host masks of the barrier and of the retirement slot\<close>

section \<open>Machine integers\<close>

type_synonym u8 = "8 word"
type_synonym u16 = "16 word"
type_synonym u32 = "32 word"
type_synonym u64 = "64 word"
type_synonym HostId = u16
type_synonym Version = u64
type_synonym ThreadLocalId = u64

abbreviation UINT32_MAX :: u32 where
  "UINT32_MAX \<equiv> 0xFFFFFFFF"

abbreviation UINT64_MAX :: u64 where
  "UINT64_MAX \<equiv> 0xFFFFFFFFFFFFFFFF"

section \<open>Status codes and results\<close>

datatype StatusCode =
    kOk
  | kInvalidArgument
  | kNotFound
  | kAlreadyExists
  | kUnavailable
  | kFailedPrecondition
  | kUnimplemented
  | kInternal

type_synonym Status = StatusCode
type_synonym 'a Result = "Status + 'a"

text \<open>\<^verbatim>\<open>Result::ok\<close> and \<^verbatim>\<open>Result::status\<close>.\<close>

fun result_ok :: "'a Result \<Rightarrow> bool" where
  "result_ok (Inl _) = False"
| "result_ok (Inr _) = True"

fun result_status :: "'a Result \<Rightarrow> Status" where
  "result_status (Inl e) = e"
| "result_status (Inr _) = kOk"

text \<open>
  A \<^verbatim>\<open>for\<close> loop whose body may return early with an error status: the first failure ends it.
\<close>

fun foldE :: "('a \<Rightarrow> 's \<Rightarrow> 's Result) \<Rightarrow> 'a list \<Rightarrow> 's \<Rightarrow> 's Result" where
  "foldE f [] s = Inr s"
| "foldE f (x # xs) s = (case f x s of Inl e \<Rightarrow> Inl e | Inr s' \<Rightarrow> foldE f xs s')"

section \<open>Loops over hosts and host masks\<close>

text \<open>
  \<^verbatim>\<open>for (HostId host = 0; host < host_count; ++host)\<close> visits these hosts, in this order.
\<close>

definition hosts_below :: "u16 \<Rightarrow> HostId list" where
  "hosts_below n = map of_nat [0..<unat n]"

text \<open>\<^verbatim>\<open>1ULL << host\<close>, and the mask with one bit per host of a world of \<open>n\<close> hosts.\<close>

definition host_bit :: "HostId \<Rightarrow> u64" where
  "host_bit h = push_bit (unat h) 1"

definition all_hosts :: "u16 \<Rightarrow> u64" where
  "all_hosts n = (if n = 64 then UINT64_MAX else push_bit (unat n) 1 - 1)"

section \<open>Generic facts\<close>

lemma unat_bound: "unat (w::'a::len word) < 2 ^ LENGTH('a)"
  by (rule unsigned_less)

lemma unat_u16_bound: "unat (w::u16) < 65536"
  using unat_bound [of w] by simp

lemma unat_u32_bound: "unat (w::u32) < 4294967296"
  using unat_bound [of w] by simp

lemma unat_u64_bound: "unat (w::u64) < 18446744073709551616"
  using unat_bound [of w] by simp

lemma result_status_Inr_iff [simp]: "result_ok r \<longleftrightarrow> (\<exists>x. r = Inr x)"
  by (cases r) auto

lemma foldE_append:
  "foldE f (xs @ ys) s = (case foldE f xs s of Inl e \<Rightarrow> Inl e | Inr s' \<Rightarrow> foldE f ys s')"
  by (induction xs arbitrary: s) (auto split: sum.splits)

lemma foldE_invariant:
  assumes "foldE f xs s = Inr s'" and "P s"
    and "\<And>x s t. x \<in> set xs \<Longrightarrow> P s \<Longrightarrow> f x s = Inr t \<Longrightarrow> P t"
  shows "P s'"
  using assms
proof (induction xs arbitrary: s)
  case (Cons x xs)
  from Cons.prems(1) obtain t where t: "f x s = Inr t" "foldE f xs t = Inr s'"
    by (auto split: sum.splits)
  with Cons.prems(2,3) have "P t" by (meson list.set_intros(1))
  with t(2) show ?case
    by (rule Cons.IH) (use Cons.prems(3) in auto)
qed simp

lemma foldE_total:
  assumes "\<And>x s. x \<in> set xs \<Longrightarrow> f x s = Inr (g x s)"
  shows "foldE f xs s = Inr (fold g xs s)"
  using assms by (induction xs arbitrary: s) auto

lemma unat_of_nat_u16 [cx_word]: "k \<le> unat (n::u16) \<Longrightarrow> unat (of_nat k :: u16) = k"
proof -
  assume "k \<le> unat n"
  then have "k < 2 ^ 16" using unat_u16_bound [of n] by simp
  then show ?thesis by (simp add: unat_of_nat)
qed

lemma set_hosts_below [simp]: "h \<in> set (hosts_below n) \<longleftrightarrow> h < n"
proof
  assume "h \<in> set (hosts_below n)"
  then obtain k where "k < unat n" "h = of_nat k"
    by (auto simp: hosts_below_def)
  then show "h < n"
    by (simp add: word_less_nat_alt unat_of_nat_u16 [of k n])
next
  assume "h < n"
  then have "unat h < unat n" by (simp add: word_less_nat_alt)
  then show "h \<in> set (hosts_below n)"
    by (auto simp: hosts_below_def intro!: image_eqI [of _ _ "unat h"])
qed

lemma distinct_hosts_below [simp]: "distinct (hosts_below n)"
proof -
  have "inj_on (of_nat :: nat \<Rightarrow> u16) (set [0..<unat n])"
    by (rule inj_onI) (metis atLeastLessThan_iff less_imp_le set_upt unat_of_nat_u16)
  then show ?thesis by (simp add: hosts_below_def distinct_map)
qed

lemma length_hosts_below [simp]: "length (hosts_below n) = unat n"
  by (simp add: hosts_below_def)

lemma bit_host_bit [cx_mask]: "h < 64 \<Longrightarrow> bit (host_bit h) k \<longleftrightarrow> k = unat h"
  by (auto simp: host_bit_def word_less_nat_alt bit_exp_iff)

lemma all_hosts_eq_mask: "n \<le> 64 \<Longrightarrow> all_hosts n = mask (unat n)"
proof -
  assume n: "n \<le> 64"
  show ?thesis
  proof (cases "n = 64")
    case True
    then show ?thesis by (simp add: all_hosts_def mask_eq_exp_minus_1)
  next
    case False
    then show ?thesis
      by (simp add: all_hosts_def mask_eq_exp_minus_1 push_bit_eq_mult)
  qed
qed

lemma bit_all_hosts [cx_mask]: "n \<le> 64 \<Longrightarrow> bit (all_hosts n) k \<longleftrightarrow> k < unat n"
proof -
  assume n: "n \<le> 64"
  then have "unat n \<le> 64" by (simp add: word_le_nat_alt)
  then show ?thesis
    by (auto simp: all_hosts_eq_mask [OF n] bit_mask_iff)
qed

text \<open>
  A mask that only carries bits of configured hosts is the full mask exactly when every
  configured host has set its bit.
\<close>

lemma full_mask_iff:
  assumes n: "n \<le> 64" and sub: "\<And>k. bit (m::u64) k \<Longrightarrow> k < unat n"
  shows "m = all_hosts n \<longleftrightarrow> (\<forall>h < n. bit m (unat h))"
proof
  assume "m = all_hosts n"
  then show "\<forall>h < n. bit m (unat h)"
    by (simp add: bit_all_hosts [OF n] word_less_nat_alt)
next
  assume all: "\<forall>h < n. bit m (unat h)"
  have "bit m k \<longleftrightarrow> k < unat n" for k
  proof
    assume k: "k < unat n"
    then have "of_nat k < n"
      by (simp add: word_less_nat_alt unat_of_nat_u16 [of k n])
    then have "bit m (unat (of_nat k :: u16))" using all by blast
    then show "bit m k" using k by (simp add: unat_of_nat_u16 [of k n])
  qed (rule sub)
  then show "m = all_hosts n"
    by (intro bit_eqI) (simp add: bit_all_hosts [OF n])
qed

lemma mask_or_zero_iff [cx_mask]:
  "h < 64 \<Longrightarrow> (m::u64) AND host_bit h \<noteq> 0 \<longleftrightarrow> bit m (unat h)"
proof -
  assume h: "h < 64"
  then have "unat h < 64" by (simp add: word_less_nat_alt)
  then have "(\<exists>k. bit (m AND host_bit h) k) \<longleftrightarrow> bit m (unat h)"
    by (auto simp: bit_and_iff bit_host_bit [OF h])
  moreover have "m AND host_bit h \<noteq> 0 \<longleftrightarrow> (\<exists>k. bit (m AND host_bit h) k)"
    by (metis bit_0_eq bit_eqI bot_apply bot_bool_def)
  ultimately show ?thesis by simp
qed

section \<open>Powers of two\<close>

lemma nat_and_pred_pow2:
  assumes "0 < (a::nat)" and "a AND (a - 1) = 0"
  shows "\<exists>k. a = 2 ^ k"
proof -
  obtain n where n: "2 ^ n \<le> a" "a < 2 ^ (n + 1)"
    using ex_power_ivl1 [of 2 a] assms(1) by auto
  have bits: "bit x n" if "2 ^ n \<le> x" "x < 2 ^ (n + 1)" for x :: nat
  proof -
    have "x div 2 ^ n = 1"
      using that by (intro div_nat_eqI) auto
    then show ?thesis by (simp add: bit_iff_odd)
  qed
  have "a = 2 ^ n"
  proof (rule ccontr)
    assume "a \<noteq> 2 ^ n"
    then have "bit a n" "bit (a - 1) n" using n bits [of a] bits [of "a - 1"] by auto
    then have "bit (a AND (a - 1)) n" by (simp add: bit_and_iff)
    with assms(2) show False by simp
  qed
  then show ?thesis ..
qed

lemma u64_and_pred_pow2:
  assumes "(a::u64) \<noteq> 0" and "a AND (a - 1) = 0"
  shows "\<exists>k < 64. a = 2 ^ k \<and> unat a = 2 ^ k"
proof -
  have pos: "0 < unat a" using assms(1) by (simp add: unat_gt_0)
  have "unat (a AND (a - 1)) = 0" using assms(2) by simp
  moreover have "unat (a - 1) = unat a - 1"
    by (rule unat_minus_one [OF assms(1)])
  ultimately have "unat a AND (unat a - 1) = 0"
    by (simp add: unsigned_and_eq)
  then obtain k where k: "unat a = 2 ^ k"
    using nat_and_pred_pow2 [OF pos] by blast
  then have "(2::nat) ^ k < 2 ^ 64" using unat_u64_bound [of a] by simp
  then have "k < 64" by (rule power_less_imp_less_exp [rotated]) simp
  moreover have "a = of_nat (unat a)" by simp
  ultimately show ?thesis using k by auto
qed

lemma unat_and_not_mask:
  assumes "k < 64"
  shows "unat ((x::u64) AND NOT (2 ^ k - 1)) = unat x div 2 ^ k * 2 ^ k"
proof -
  have "x AND NOT (2 ^ k - 1) = push_bit k (drop_bit k x)"
    by (rule bit_eqI) (auto simp: bit_and_iff bit_not_iff bit_push_bit_iff bit_drop_bit_eq
        mask_eq_exp_minus_1 [symmetric] bit_mask_iff)
  moreover have "unat (push_bit k (drop_bit k x)) = (unat x div 2 ^ k * 2 ^ k) mod 2 ^ 64"
    by (simp only: unsigned_push_bit_eq unat_drop_bit_eq)
      (simp add: take_bit_eq_mod push_bit_eq_mult drop_bit_eq_div)
  ultimately have "unat (x AND NOT (2 ^ k - 1)) = (unat x div 2 ^ k * 2 ^ k) mod 2 ^ 64"
    by (simp only:)
  also have "\<dots> = unat x div 2 ^ k * 2 ^ k"
    proof (rule mod_less)
    show "unat x div 2 ^ k * 2 ^ k < 2 ^ 64"
      by (rule le_less_trans [OF div_times_less_eq_dividend]) (use unat_u64_bound [of x] in simp)
  qed
  finally show ?thesis .
qed

lemma unat_add_no_wrap:
  "unat (a::'a::len word) + unat b < 2 ^ LENGTH('a) \<Longrightarrow> unat (a + b) = unat a + unat b"
  by (simp add: unat_word_ariths)

lemma unat_sub_no_wrap: "b \<le> (a::'a::len word) \<Longrightarrow> unat (a - b) = unat a - unat b"
  by (rule unat_sub) (simp add: word_le_nat_alt)

end
