(* ===== verification/Cx_Common.thy ===== *)
theory Cx_Common
  imports Cx_Prelude
begin

text \<open>
  The common layer: global addresses and thread identifiers
  (\<^verbatim>\<open>include/cxloom/common/types.h\<close>), the message kinds and wire structures
  (\<^verbatim>\<open>messages.h\<close>), the runtime configuration and its validator (\<^verbatim>\<open>config.h\<close>,
  \<^verbatim>\<open>config.cpp\<close>) and the fixed layout of the shared region (\<^verbatim>\<open>layout.h\<close>,
  \<^verbatim>\<open>BuildDefaultLayout\<close> of \<^verbatim>\<open>src/loommem/runtime.cpp\<close>).

  The scheduler's floating-point weights of \<^verbatim>\<open>CxloomConfig\<close> are left out; nothing in the
  modelled components reads them.
\<close>

section \<open>Identifiers\<close>

definition kMaxHosts :: nat where
  "kMaxHosts = 64"

record GlobalPointer =
  region_id :: u32
  gp_offset :: u64

record GlobalThreadId =
  home_host :: HostId
  local_tid :: ThreadLocalId

section \<open>Messages\<close>

datatype MessageKind =
    MsgInvalid
  | CreateReq
  | CreateAck
  | CompleteNotify
  | BarrierArrive
  | BarrierRelease
  | TokenReq
  | TokenGrantMsg
  | TokenRejectMsg
  | TokenCancelMsg
  | TokenCancelAckMsg
  | LoadUpdate
  | MigrateReq
  | MigrateAck
  | FunctionManifest

record MessageHeader =
  kind :: MessageKind
  src_host :: HostId
  dst_host :: HostId
  payload_bytes :: u32

definition default_MessageHeader :: MessageHeader where
  "default_MessageHeader = \<lparr>kind = MsgInvalid, src_host = 0, dst_host = 0, payload_bytes = 0\<rparr>"

section \<open>Configuration\<close>

text \<open>
  \<^verbatim>\<open>PlacementPolicy\<close> is a scoped enumeration, but the C interface casts an arbitrary integer
  to it, so the field is the raw 32-bit value and the validator checks it.
\<close>

definition kMemoryAware :: u32 where
  "kMemoryAware = 0"

definition kRoundRobin :: u32 where
  "kRoundRobin = 1"

definition kLeastLoaded :: u32 where
  "kLeastLoaded = 2"

record CxloomConfig =
  local_host_id :: HostId
  host_count :: u16
  shared_region_bytes :: u64
  coherence_granule_bytes :: u64
  queue_capacity_entries :: u64
  replica_cache_capacity_entries :: u64
  replica_cache_capacity_bytes :: u64
  shared_region_path :: string
  bootstrap_owner :: bool
  create_region_file :: bool
  bootstrap_timeout_ms :: u64
  placement_policy :: u32
  max_running_threads_per_host :: u32
  max_pending_creates_per_host :: u32

definition Validate :: "CxloomConfig \<Rightarrow> Status" where
  "Validate config =
     (if placement_policy config \<noteq> kMemoryAware \<and> placement_policy config \<noteq> kRoundRobin \<and>
         placement_policy config \<noteq> kLeastLoaded then kInvalidArgument
      else if host_count config = 0 then kInvalidArgument
      else if host_count config \<le> local_host_id config then kInvalidArgument
      else if kMaxHosts < unat (host_count config) then kInvalidArgument
      else if shared_region_path config = [] then kInvalidArgument
      else if shared_region_bytes config = 0 then kInvalidArgument
      else if coherence_granule_bytes config = 0 then kInvalidArgument
      else if coherence_granule_bytes config AND (coherence_granule_bytes config - 1) \<noteq> 0 \<or>
              coherence_granule_bytes config < 64 then kInvalidArgument
      else if replica_cache_capacity_entries config = 0 \<or>
              replica_cache_capacity_bytes config = 0 then kInvalidArgument
      else if bootstrap_timeout_ms config = 0 then kInvalidArgument
      else kOk)"

section \<open>Shared region layout\<close>

datatype RegionKind = RkBootstrap | RkAllocator | RkCoherence | RkQueues | RkSharedData

record RegionRange =
  range_kind :: RegionKind
  range_offset :: u64
  range_bytes :: u64

record SharedRegionLayout =
  lay_bootstrap :: RegionRange
  lay_allocator :: RegionRange
  lay_coherence :: RegionRange
  lay_queues :: RegionRange
  lay_shared_data :: RegionRange

definition BuildDefaultLayout :: "u64 \<Rightarrow> SharedRegionLayout" where
  "BuildDefaultLayout total_bytes =
     (let bootstrap_bytes = push_bit 20 1;
          allocator_bytes = push_bit 20 1;
          coherence_bytes = push_bit 20 64;
          queues_bytes = push_bit 20 64;
          shared_data_offset = bootstrap_bytes + allocator_bytes + coherence_bytes + queues_bytes;
          shared_data_bytes = (if shared_data_offset < total_bytes
                               then total_bytes - shared_data_offset else 0)
      in \<lparr>lay_bootstrap = \<lparr>range_kind = RkBootstrap, range_offset = 0, range_bytes = bootstrap_bytes\<rparr>,
          lay_allocator = \<lparr>range_kind = RkAllocator, range_offset = bootstrap_bytes,
                           range_bytes = allocator_bytes\<rparr>,
          lay_coherence = \<lparr>range_kind = RkCoherence,
                           range_offset = bootstrap_bytes + allocator_bytes,
                           range_bytes = coherence_bytes\<rparr>,
          lay_queues = \<lparr>range_kind = RkQueues,
                        range_offset = bootstrap_bytes + allocator_bytes + coherence_bytes,
                        range_bytes = queues_bytes\<rparr>,
          lay_shared_data = \<lparr>range_kind = RkSharedData, range_offset = shared_data_offset,
                             range_bytes = shared_data_bytes\<rparr>\<rparr>)"

definition SameRange :: "RegionRange \<Rightarrow> RegionRange \<Rightarrow> bool" where
  "SameRange lhs rhs \<longleftrightarrow> range_kind lhs = range_kind rhs \<and> range_offset lhs = range_offset rhs \<and>
     range_bytes lhs = range_bytes rhs"

definition SameLayout :: "SharedRegionLayout \<Rightarrow> SharedRegionLayout \<Rightarrow> bool" where
  "SameLayout lhs rhs \<longleftrightarrow>
     SameRange (lay_bootstrap lhs) (lay_bootstrap rhs) \<and>
     SameRange (lay_allocator lhs) (lay_allocator rhs) \<and>
     SameRange (lay_coherence lhs) (lay_coherence rhs) \<and>
     SameRange (lay_queues lhs) (lay_queues rhs) \<and>
     SameRange (lay_shared_data lhs) (lay_shared_data rhs)"

text \<open>The bytes a range occupies, as numbers: the specification side of the layout.\<close>

definition range_set :: "RegionRange \<Rightarrow> nat set" where
  "range_set r = {unat (range_offset r)..<unat (range_offset r) + unat (range_bytes r)}"

definition layout_ranges :: "SharedRegionLayout \<Rightarrow> RegionRange list" where
  "layout_ranges l = [lay_bootstrap l, lay_allocator l, lay_coherence l, lay_queues l, lay_shared_data l]"

text \<open>What a validated configuration guarantees to the components that read it.\<close>

definition config_ok :: "CxloomConfig \<Rightarrow> bool" where
  "config_ok config \<longleftrightarrow>
     placement_policy config \<in> {kMemoryAware, kRoundRobin, kLeastLoaded} \<and>
     local_host_id config < host_count config \<and> unat (host_count config) \<le> kMaxHosts \<and>
     shared_region_path config \<noteq> [] \<and> shared_region_bytes config \<noteq> 0 \<and>
     (\<exists>k. 6 \<le> k \<and> k < 64 \<and> unat (coherence_granule_bytes config) = 2 ^ k) \<and>
     replica_cache_capacity_entries config \<noteq> 0 \<and> replica_cache_capacity_bytes config \<noteq> 0 \<and>
     bootstrap_timeout_ms config \<noteq> 0"

section \<open>Facts\<close>

lemma granule_power_of_two:
  assumes "g AND (g - 1) = (0::u64)" and "64 \<le> g"
  shows "\<exists>k. 6 \<le> k \<and> k < 64 \<and> unat g = 2 ^ k"
proof -
  from assms(2) have "g \<noteq> 0" by auto
  from u64_and_pred_pow2 [OF this assms(1)] obtain k where k: "k < 64" "unat g = 2 ^ k" by blast
  from assms(2) have "2 ^ 6 \<le> unat g" by (simp add: word_le_nat_alt)
  with k(2) have "(2::nat) ^ 6 \<le> 2 ^ k" by simp
  then have "6 \<le> k" by (rule power_le_imp_le_exp [rotated]) simp
  with k show ?thesis by blast
qed

lemma pow2_and_pred: "k < 64 \<Longrightarrow> unat (g::u64) = 2 ^ k \<Longrightarrow> g AND (g - 1) = 0"
proof -
  assume k: "k < 64" and g: "unat g = 2 ^ k"
  have "of_nat (unat g) = (2 ^ k :: u64)" by (simp add: g)
  then have "g = 2 ^ k" by simp
  then have "g AND (g - 1) = push_bit k 1 AND mask k"
    by (simp add: mask_eq_exp_minus_1 push_bit_eq_mult)
  also have "\<dots> = 0" by (rule bit_eqI) (auto simp: bit_and_iff bit_exp_iff bit_mask_iff)
  finally show ?thesis .
qed

text \<open>
  The configuration validator accepts exactly the configurations that name a known
  placement policy, a local host inside a world of at most 64 hosts, a region path and size,
  a coherence granule that is a power of two of at least 64 bytes, and non-zero cache
  capacities and bootstrap timeout.
\<close>

theorem Validate_iff: "Validate config = kOk \<longleftrightarrow> config_ok config"
proof
  assume "Validate config = kOk"
  then have "\<not> (coherence_granule_bytes config AND (coherence_granule_bytes config - 1) \<noteq> 0 \<or>
                coherence_granule_bytes config < 64)"
    and rest: "placement_policy config \<in> {kMemoryAware, kRoundRobin, kLeastLoaded}"
      "local_host_id config < host_count config" "unat (host_count config) \<le> kMaxHosts"
      "shared_region_path config \<noteq> []" "shared_region_bytes config \<noteq> 0"
      "replica_cache_capacity_entries config \<noteq> 0" "replica_cache_capacity_bytes config \<noteq> 0"
      "bootstrap_timeout_ms config \<noteq> 0"
    by (auto simp: Validate_def not_le split: if_splits)
  then have "\<exists>k. 6 \<le> k \<and> k < 64 \<and> unat (coherence_granule_bytes config) = 2 ^ k"
    by (intro granule_power_of_two) auto
  with rest show "config_ok config" by (simp add: config_ok_def)
next
  assume ok: "config_ok config"
  then obtain k where k: "6 \<le> k" "k < 64" "unat (coherence_granule_bytes config) = 2 ^ k"
    by (auto simp: config_ok_def)
  have "coherence_granule_bytes config AND (coherence_granule_bytes config - 1) = 0"
    by (rule pow2_and_pred [OF k(2,3)])
  moreover have "(2::nat) ^ 6 \<le> 2 ^ k" using k(1) by (rule power_increasing) simp
  then have "64 \<le> coherence_granule_bytes config"
    using k(3) by (simp add: word_le_nat_alt)
  moreover then have "coherence_granule_bytes config \<noteq> 0" by auto
  ultimately show "Validate config = kOk"
    using ok by (auto simp: config_ok_def Validate_def)
qed

lemma shared_data_offset_value:
  "range_offset (lay_shared_data (BuildDefaultLayout t)) = 0x8200000"
  by (simp add: BuildDefaultLayout_def Let_def push_bit_eq_mult)

lemma layout_ranges_values:
  "map (\<lambda>r. (unat (range_offset r), unat (range_bytes r))) (layout_ranges (BuildDefaultLayout t)) =
     [(0, 2 ^ 20), (2 ^ 20, 2 ^ 20), (2 ^ 21, 2 ^ 26), (2 ^ 21 + 2 ^ 26, 2 ^ 26),
      (2 ^ 21 + 2 ^ 27, unat t - (2 ^ 21 + 2 ^ 27))]"
proof (cases "0x8200000 < t")
  case True
  then have "unat (t - 0x8200000) = unat t - 0x8200000"
    by (simp add: unat_sub_no_wrap less_imp_le)
  with True show ?thesis
    by (simp add: layout_ranges_def BuildDefaultLayout_def Let_def push_bit_eq_mult)
next
  case False
  then have "unat t - 0x8200000 = 0" by (simp add: word_less_nat_alt)
  with False show ?thesis
    by (simp add: layout_ranges_def BuildDefaultLayout_def Let_def push_bit_eq_mult)
qed

lemma range_set_eq:
  "(unat (range_offset r), unat (range_bytes r)) = (a, b) \<Longrightarrow> range_set r = {a..<a + b}"
  by (simp add: range_set_def)

text \<open>
  The default layout partitions the shared region: for a region large enough to hold the
  fixed parts, the bootstrap, allocator, coherence, queue and data ranges are pairwise
  disjoint and together cover exactly the bytes of the region.
\<close>

theorem BuildDefaultLayout_partition:
  assumes "0x8200000 \<le> total_bytes"
  shows "\<Union> (range_set ` set (layout_ranges (BuildDefaultLayout total_bytes))) = {0..<unat total_bytes} \<and>
    sorted_wrt (\<lambda>a b. a \<inter> b = {}) (map range_set (layout_ranges (BuildDefaultLayout total_bytes)))"
proof -
  let ?l = "BuildDefaultLayout total_bytes"
  have t: "2 ^ 21 + 2 ^ 27 \<le> unat total_bytes"
    using assms by (simp add: word_le_nat_alt)
  have sets: "map range_set (layout_ranges ?l) =
      [{0..<2 ^ 20}, {2 ^ 20..<2 ^ 21}, {2 ^ 21..<2 ^ 21 + 2 ^ 26},
       {2 ^ 21 + 2 ^ 26..<2 ^ 21 + 2 ^ 27}, {2 ^ 21 + 2 ^ 27..<unat total_bytes}]"
    using layout_ranges_values [of total_bytes] t
    by (auto simp: layout_ranges_def range_set_def)
  have "range_set ` set (layout_ranges ?l) = set (map range_set (layout_ranges ?l))" by simp
  then have "\<Union> (range_set ` set (layout_ranges ?l)) = {0..<unat total_bytes}"
    unfolding sets using t by auto
  moreover have "sorted_wrt (\<lambda>a b. a \<inter> b = {}) (map range_set (layout_ranges ?l))"
    unfolding sets by simp
  ultimately show ?thesis ..
qed

text \<open>The default one-gibibyte region satisfies the size condition of the partition theorem.\<close>

theorem BuildDefaultLayout_partition_witness:
  "(0x8200000 :: u64) \<le> 0x40000000 \<and>
   \<Union> (range_set ` set (layout_ranges (BuildDefaultLayout 0x40000000))) = {0..<0x40000000}"
  using BuildDefaultLayout_partition [of "0x40000000"] by simp

lemma SameLayout_iff: "SameLayout l r \<longleftrightarrow> l = r"
  by (cases l, cases r) (auto simp: SameLayout_def SameRange_def)

end
