(* ===== verification/Cx_Visibility.thy ===== *)
theory Cx_Visibility
  imports Cx_Common
begin

text \<open>
  Visibility recipes (\<^verbatim>\<open>src/loommem/visibility.cpp\<close>): the modes and their names, which modes
  a processor supports, and the fences and cache-line operations that publication and
  acquisition issue.  The processor is a parameter, because the code asks it with \<^verbatim>\<open>cpuid\<close> and
  is compiled for one architecture.  The loop over cache lines adds 64 to a machine address and
  can wrap, so it is a partial function: \<open>None\<close> is a loop that does not end.
\<close>

datatype VisibilityMode = kReleaseAcquire | kSequentiallyConsistent | kClflush | kClwb

record Cpu =
  is_x86 :: bool
  has_clwb :: bool

datatype VisEvent =
    ReleaseFence
  | AcquireFence
  | SeqCstFence
  | FlushLine u64
  | WritebackLine u64
  | MFence
  | SFence

definition kCacheLineBytes :: u64 where
  "kCacheLineBytes = 64"

definition ParseVisibilityMode :: "string \<Rightarrow> VisibilityMode Result" where
  "ParseVisibilityMode name =
     (if name = ''release'' then Inr kReleaseAcquire
      else if name = ''seq_cst'' then Inr kSequentiallyConsistent
      else if name = ''clflush'' then Inr kClflush
      else if name = ''clwb'' then Inr kClwb
      else Inl kInvalidArgument)"

fun VisibilityModeName :: "VisibilityMode \<Rightarrow> string" where
  "VisibilityModeName kReleaseAcquire = ''release''"
| "VisibilityModeName kSequentiallyConsistent = ''seq_cst''"
| "VisibilityModeName kClflush = ''clflush''"
| "VisibilityModeName kClwb = ''clwb''"

definition ValidateVisibilityMode :: "Cpu \<Rightarrow> VisibilityMode \<Rightarrow> Status" where
  "ValidateVisibilityMode cpu mode =
     (if is_x86 cpu then
        (if mode = kClwb \<and> \<not> has_clwb cpu then kUnavailable else kOk)
      else (if mode = kClflush \<or> mode = kClwb then kUnavailable else kOk))"

text \<open>The loop of \<^verbatim>\<open>ForEachCacheLine\<close>, from a line to the end of the range.\<close>

partial_function (option) cache_lines_from :: "u64 \<Rightarrow> u64 \<Rightarrow> u64 list option" where
  "cache_lines_from line raw_end =
     (if line < raw_end
      then Option.bind (cache_lines_from (line + kCacheLineBytes) raw_end) (\<lambda>ls. Some (line # ls))
      else Some [])"

definition ForEachCacheLine :: "u64 \<Rightarrow> u64 \<Rightarrow> u64 list option" where
  "ForEachCacheLine address bytes =
     cache_lines_from (address AND NOT (kCacheLineBytes - 1)) (address + bytes)"

definition PublishData :: "Cpu \<Rightarrow> u64 option \<Rightarrow> u64 \<Rightarrow> VisibilityMode \<Rightarrow> (Status \<times> VisEvent list) option" where
  "PublishData cpu address bytes mode =
     (case address of
        None \<Rightarrow> Some (kInvalidArgument, [])
      | Some a \<Rightarrow>
          if bytes = 0 then Some (kInvalidArgument, [])
          else if ValidateVisibilityMode cpu mode \<noteq> kOk
          then Some (ValidateVisibilityMode cpu mode, [])
          else (case mode of
                  kReleaseAcquire \<Rightarrow> Some (kOk, [ReleaseFence])
                | kSequentiallyConsistent \<Rightarrow> Some (kOk, [SeqCstFence])
                | kClflush \<Rightarrow>
                    if is_x86 cpu
                    then map_option (\<lambda>ls. (kOk, map FlushLine ls @ [MFence])) (ForEachCacheLine a bytes)
                    else Some (kOk, [])
                | kClwb \<Rightarrow>
                    if is_x86 cpu
                    then map_option (\<lambda>ls. (kOk, map WritebackLine ls @ [SFence])) (ForEachCacheLine a bytes)
                    else Some (kOk, [])))"

definition AcquireData :: "Cpu \<Rightarrow> u64 option \<Rightarrow> u64 \<Rightarrow> VisibilityMode \<Rightarrow> (Status \<times> VisEvent list) option" where
  "AcquireData cpu address bytes mode =
     (case address of
        None \<Rightarrow> Some (kInvalidArgument, [])
      | Some a \<Rightarrow>
          if bytes = 0 then Some (kInvalidArgument, [])
          else if ValidateVisibilityMode cpu mode \<noteq> kOk
          then Some (ValidateVisibilityMode cpu mode, [])
          else (case mode of
                  kReleaseAcquire \<Rightarrow> Some (kOk, [AcquireFence])
                | kSequentiallyConsistent \<Rightarrow> Some (kOk, [SeqCstFence])
                | _ \<Rightarrow>
                    if is_x86 cpu
                    then map_option (\<lambda>ls. (kOk, map FlushLine ls @ [MFence, AcquireFence]))
                           (ForEachCacheLine a bytes)
                    else Some (kOk, [AcquireFence])))"

text \<open>
  The status both calls return for a non-null address: what callers that only look at the
  status observe.
\<close>

definition visibility_status :: "Cpu \<Rightarrow> u64 \<Rightarrow> VisibilityMode \<Rightarrow> Status" where
  "visibility_status cpu bytes mode =
     (if bytes = 0 then kInvalidArgument else ValidateVisibilityMode cpu mode)"

section \<open>Facts\<close>

text \<open>
  Mode names round-trip: parsing the printed name of a mode gives the mode back, and a name
  that parses is the printed name of the mode it parses to.
\<close>

theorem visibility_name_roundtrip:
  "ParseVisibilityMode name = Inr mode \<longleftrightarrow> name = VisibilityModeName mode"
  by (cases mode) (auto simp: ParseVisibilityMode_def)

lemma visibility_status_release [simp]:
  "bytes \<noteq> 0 \<Longrightarrow> visibility_status cpu bytes kReleaseAcquire = kOk"
  by (simp add: visibility_status_def ValidateVisibilityMode_def)

lemma PublishData_status:
  "PublishData cpu (Some a) bytes mode = Some (st, ev) \<Longrightarrow> st = visibility_status cpu bytes mode"
  by (auto simp: PublishData_def visibility_status_def split: if_splits VisibilityMode.splits)

lemma AcquireData_status:
  "AcquireData cpu (Some a) bytes mode = Some (st, ev) \<Longrightarrow> st = visibility_status cpu bytes mode"
  by (auto simp: AcquireData_def visibility_status_def split: if_splits VisibilityMode.splits)

lemma cache_lines_from_eq:
  assumes "unat raw_end + 64 \<le> 2 ^ 64"
  shows "cache_lines_from line raw_end =
    Some (map (\<lambda>i. line + of_nat (64 * i)) [0..<(unat raw_end - unat line + 63) div 64])"
  using assms
proof (induction "unat raw_end - unat line" arbitrary: line rule: less_induct)
  case less
  show ?case
  proof (cases "line < raw_end")
    case False
    then have "unat raw_end - unat line = 0" by (simp add: word_less_nat_alt)
    then have "(unat raw_end - unat line + 63) div 64 = 0" by simp
    with False show ?thesis by (subst cache_lines_from.simps) simp
  next
    case True
    then have lt: "unat line < unat raw_end" by (simp add: word_less_nat_alt)
    have next_line: "unat (line + kCacheLineBytes) = unat line + 64"
      using lt less.prems by (subst unat_add_no_wrap) (auto simp: kCacheLineBytes_def)
    let ?n = "(unat raw_end - unat (line + kCacheLineBytes) + 63) div 64"
    have count: "(unat raw_end - unat line + 63) div 64 = Suc ?n"
    proof (cases "unat line + 64 \<le> unat raw_end")
      case True
      then have "unat raw_end - unat line + 63 = (unat raw_end - unat (line + kCacheLineBytes) + 63) + 64"
        using next_line by simp
      then show ?thesis by simp
    next
      case False
      then have "unat raw_end - unat (line + kCacheLineBytes) = 0" "unat raw_end - unat line + 63 < 128"
        "64 \<le> unat raw_end - unat line + 63"
        using lt next_line by auto
      then show ?thesis by (simp add: div_nat_eqI)
    qed
    have IH: "cache_lines_from (line + kCacheLineBytes) raw_end =
        Some (map (\<lambda>i. line + kCacheLineBytes + of_nat (64 * i)) [0..<?n])"
      by (rule less.hyps) (use lt next_line less.prems in auto)
    have "map (\<lambda>i. line + of_nat (64 * i)) [0..<Suc ?n] =
        line # map (\<lambda>i. line + kCacheLineBytes + of_nat (64 * i)) [0..<?n]"
      by (simp add: map_upt_Suc kCacheLineBytes_def algebra_simps del: upt_Suc)
    with True IH show ?thesis
      unfolding count by (subst cache_lines_from.simps) (simp only: if_True bind.bind_lunit)
  qed
qed

definition line_bytes :: "u64 \<Rightarrow> nat set" where
  "line_bytes line = {unat line..<unat line + 64}"

text \<open>
  C32. The cache-line loop terminates and covers the requested range: for a non-empty range that
  ends at least one line below the top of the address space it returns 64-byte aligned lines
  that contain every byte of the range, each line meeting the range.
\<close>

theorem ForEachCacheLine_covers:
  assumes "bytes \<noteq> 0" and "unat address + unat bytes + 64 \<le> 2 ^ 64"
  shows "\<exists>ls. ForEachCacheLine address bytes = Some ls \<and>
    (\<forall>l \<in> set ls. 64 dvd unat l \<and> line_bytes l \<inter> {unat address..<unat address + unat bytes} \<noteq> {}) \<and>
    {unat address..<unat address + unat bytes} \<subseteq> (\<Union>l \<in> set ls. line_bytes l)"
proof -
  define b where "b = address AND NOT (kCacheLineBytes - 1)"
  define e where "e = unat address + unat bytes"
  have pos: "0 < unat bytes" using assms(1) by (simp add: unat_gt_0)
  have raw_end: "unat (address + bytes) = e"
    unfolding e_def using assms(2) by (intro unat_add_no_wrap) simp
  have ub: "unat b = unat address div 64 * 64"
    unfolding b_def kCacheLineBytes_def using unat_and_not_mask [of 6 address] by simp
  define n where "n = (e - unat b + 63) div 64"
  have bounds: "unat b \<le> unat address" "unat address < unat b + 64" "unat address < e"
    using ub pos by (auto simp: e_def)
  define ls where "ls = map (\<lambda>i. b + of_nat (64 * i)) [0..<n]"
  have ret: "ForEachCacheLine address bytes = Some ls"
    unfolding ForEachCacheLine_def b_def [symmetric] ls_def n_def
    using cache_lines_from_eq [of "address + bytes" b] assms(2) raw_end by (simp add: e_def)
  have small: "unat b + 64 * i < e" if "i < n" for i
    using that unfolding n_def by (simp add: less_mult_imp_div_less)
  have line: "unat (b + of_nat (64 * i)) = unat b + 64 * i" if "i < n" for i
  proof -
    have "64 * i < 2 ^ 64" using small [OF that] assms(2) by (simp add: e_def)
    then have "unat (of_nat (64 * i) :: u64) = 64 * i"
      by (simp only: unat_of_nat mod_less len_bit0 len_num1) simp
    with small [OF that] assms(2) show ?thesis
      by (subst unat_add_no_wrap) (auto simp: e_def)
  qed
  have aligned: "64 dvd unat b + 64 * i" for i using ub by simp
  have meets: "line_bytes l \<inter> {unat address..<e} \<noteq> {}" "64 dvd unat l" if l: "l \<in> set ls" for l
  proof -
    from l obtain i where i: "i < n" "l = b + of_nat (64 * i)" by (auto simp: ls_def)
    then have "max (unat b + 64 * i) (unat address) \<in> line_bytes l \<inter> {unat address..<e}"
      using small [OF i(1)] line [OF i(1)] bounds by (auto simp: line_bytes_def)
    then show "line_bytes l \<inter> {unat address..<e} \<noteq> {}" by blast
    show "64 dvd unat l" using i line [OF i(1)] aligned by simp
  qed
  have "{unat address..<e} \<subseteq> (\<Union>l \<in> set ls. line_bytes l)"
  proof
    fix x assume x: "x \<in> {unat address..<e}"
    define i where "i = (x - unat b) div 64"
    have x': "unat b + 64 * i \<le> x" "x < unat b + 64 * i + 64"
      using x bounds unfolding i_def by auto
    have "Suc i * 64 \<le> e - unat b + 63"
      using x x' bounds by auto
    then have "i < n"
      unfolding n_def by (simp add: Suc_le_eq [symmetric] less_eq_div_iff_mult_less_eq)
    then have "b + of_nat (64 * i) \<in> set ls" "x \<in> line_bytes (b + of_nat (64 * i))"
      using x' line by (auto simp: ls_def line_bytes_def)
    then show "x \<in> (\<Union>l \<in> set ls. line_bytes l)" by blast
  qed
  with ret meets show ?thesis by (auto simp: e_def)
qed

theorem ForEachCacheLine_covers_witness:
  "\<exists>ls. ForEachCacheLine 100 100 = Some ls \<and>
    (\<forall>l \<in> set ls. 64 dvd unat l \<and> line_bytes l \<inter> {100..<200} \<noteq> {}) \<and>
    {100..<200} \<subseteq> (\<Union>l \<in> set ls. line_bytes l)"
  using ForEachCacheLine_covers [of 100 100] by simp

end
