(* ===== verification/Cx_Channel.thy ===== *)
theory Cx_Channel
  imports Cx_Prelude
begin

text \<open>
  The contract of a bounded first-in first-out channel, as the clients of the shared rings rely
  on it: the poller pops, the token service and the LoomPar progress thread push.  The laws say
  what the two calls do to the sequence of messages in transit; \<open>remaining\<close> is the number of
  sequence numbers left before the 64-bit cursor would wrap.  The ring of \<open>Cx_Queue\<close> is
  an instance.
\<close>

section \<open>Draining a channel into a handler\<close>

text \<open>
  Why the inner loop of \<^verbatim>\<open>QueuePoller::ScanOnce\<close> stopped on one queue: the batch is full, no
  message was available, the pop failed, or the handler failed.
\<close>

datatype DrainEnd = BatchFull | NoMessage | PopFailed Status | HandlerFailed Status

text \<open>
  The loop \<^verbatim>\<open>while (drained < options_.batch_size)\<close>, with the number of messages the batch
  still allows; the result is the number of messages handled, why the loop stopped, and the
  channel and handler state it leaves.
\<close>

fun drain :: "('q \<Rightarrow> Status \<times> 'm option \<times> 'q) \<Rightarrow> ('m \<Rightarrow> 'h \<Rightarrow> Status \<times> 'h) \<Rightarrow>
    nat \<Rightarrow> 'q \<Rightarrow> 'h \<Rightarrow> nat \<times> DrainEnd \<times> 'q \<times> 'h" where
  "drain pop handler 0 q h = (0, BatchFull, q, h)"
| "drain pop handler (Suc n) q h =
     (case pop q of
        (st, popped, q') \<Rightarrow>
          if st \<noteq> kOk then (0, PopFailed st, q', h)
          else (case popped of
                  None \<Rightarrow> (0, NoMessage, q', h)
                | Some m \<Rightarrow>
                    (case handler m h of
                       (hst, h') \<Rightarrow>
                         if hst \<noteq> kOk then (0, HandlerFailed hst, q', h')
                         else (case drain pop handler n q' h' of
                                 (k, r, q'', h'') \<Rightarrow> (Suc k, r, q'', h'')))))"

text \<open>The handler alone, applied to a list of messages until it fails: the specification.\<close>

fun run_handler :: "('m \<Rightarrow> 'h \<Rightarrow> Status \<times> 'h) \<Rightarrow> 'm list \<Rightarrow> 'h \<Rightarrow> nat \<times> Status \<times> 'h" where
  "run_handler handler [] h = (0, kOk, h)"
| "run_handler handler (m # ms) h =
     (case handler m h of
        (st, h') \<Rightarrow> if st \<noteq> kOk then (0, st, h')
                    else (case run_handler handler ms h' of (k, st', h'') \<Rightarrow> (Suc k, st', h'')))"

text \<open>A producer that sends a list of messages, stopping at the first push that is not accepted.\<close>

fun push_list :: "('q \<Rightarrow> 'm \<Rightarrow> Status \<times> 'q) \<Rightarrow> 'q \<Rightarrow> 'm list \<Rightarrow> 'm list \<times> 'q" where
  "push_list push q [] = ([], q)"
| "push_list push q (m # ms) =
     (case push q m of (st, q') \<Rightarrow> if st = kOk then push_list push q' ms else (m # ms, q'))"

section \<open>The contract\<close>

locale fifo_channel =
  fixes wf :: "'q \<Rightarrow> bool"
    and messages :: "'q \<Rightarrow> 'm list"
    and bound :: "'q \<Rightarrow> nat"
    and remaining :: "'q \<Rightarrow> nat"
    and admissible :: "'q \<Rightarrow> 'm \<Rightarrow> bool"
    and push :: "'q \<Rightarrow> 'm \<Rightarrow> Status \<times> 'q"
    and pop :: "'q \<Rightarrow> Status \<times> 'm option \<times> 'q"
  assumes within_bound: "wf q \<Longrightarrow> length (messages q) \<le> bound q"
    and push_room: "wf q \<Longrightarrow> admissible q m \<Longrightarrow> length (messages q) < bound q \<Longrightarrow> 0 < remaining q \<Longrightarrow>
      \<exists>q'. push q m = (kOk, q') \<and> wf q' \<and> messages q' = messages q @ [m] \<and> bound q' = bound q \<and>
           remaining q' = remaining q - 1 \<and> admissible q' = admissible q"
    and push_full: "wf q \<Longrightarrow> admissible q m \<Longrightarrow> length (messages q) = bound q \<Longrightarrow>
      push q m = (kUnavailable, q)"
    and pop_empty: "wf q \<Longrightarrow> messages q = [] \<Longrightarrow> pop q = (kOk, None, q)"
    and pop_message: "wf q \<Longrightarrow> messages q = m # ms \<Longrightarrow>
      \<exists>q'. pop q = (kOk, Some m, q') \<and> wf q' \<and> messages q' = ms \<and> bound q' = bound q \<and>
           remaining q' = remaining q \<and> admissible q' = admissible q"
begin

text \<open>
  Draining delivers the messages in transit in order, never more than the batch: the handler
  sees a prefix, and the channel keeps exactly the messages the handler has not seen.
\<close>

lemma drain_spec:
  assumes "wf q" and "drain pop handler n q h = (k, r, q', h')"
  shows "\<exists>st. run_handler handler (take n (messages q)) h = (k, st, h') \<and> wf q' \<and>
    bound q' = bound q \<and> k \<le> n \<and>
    (st = kOk \<longrightarrow> messages q' = drop k (messages q) \<and>
       r = (if k = n then BatchFull else NoMessage) \<and> k = min n (length (messages q))) \<and>
    (st \<noteq> kOk \<longrightarrow> messages q' = drop (Suc k) (messages q) \<and> r = HandlerFailed st)"
  using assms
proof (induction n arbitrary: q h k r q' h')
  case 0
  then show ?case by simp
next
  case (Suc n)
  show ?case
  proof (cases "messages q")
    case Nil
    then have "pop q = (kOk, None, q)" by (rule pop_empty [OF Suc.prems(1)])
    with Suc.prems Nil show ?thesis by auto
  next
    case (Cons m ms)
    from pop_message [OF Suc.prems(1) Cons] obtain q1
      where q1: "pop q = (kOk, Some m, q1)" "wf q1" "messages q1 = ms" "bound q1 = bound q"
      by blast
    obtain hst h1 where hm: "handler m h = (hst, h1)" by (cases "handler m h")
    show ?thesis
    proof (cases "hst = kOk")
      case False
      with Suc.prems q1 hm Cons show ?thesis by auto
    next
      case True
      obtain k1 r1 q2 h2 where d: "drain pop handler n q1 h1 = (k1, r1, q2, h2)"
        by (cases "drain pop handler n q1 h1")
      from Suc.prems(2) q1 hm True d have res: "k = Suc k1" "r = r1" "q' = q2" "h' = h2" by auto
      from Suc.IH [OF q1(2) d] obtain st where
        st: "run_handler handler (take n ms) h1 = (k1, st, h2)" "wf q2" "bound q2 = bound q1" "k1 \<le> n"
          "st = kOk \<longrightarrow> messages q2 = drop k1 ms \<and> r1 = (if k1 = n then BatchFull else NoMessage) \<and>
             k1 = min n (length ms)"
          "st \<noteq> kOk \<longrightarrow> messages q2 = drop (Suc k1) ms \<and> r1 = HandlerFailed st"
        unfolding q1(3) by blast
      show ?thesis
        using st q1(4) hm True Cons by (intro exI [of _ st]) (auto simp: res)
    qed
  qed
qed

lemma drain_never_fails_to_pop:
  assumes "wf q" and "drain pop handler n q h = (k, r, q', h')"
  shows "r \<noteq> PopFailed e"
  using drain_spec [OF assms] by (auto split: if_splits)

text \<open>
  A producer's list of messages enters the channel in order; what does not fit is handed back
  untouched and nothing is lost or duplicated.
\<close>

lemma push_list_spec:
  assumes "wf q" and "\<forall>m \<in> set ms. admissible q m" and "length ms \<le> remaining q"
    and "push_list push q ms = (rest, q')"
  shows "wf q' \<and> bound q' = bound q \<and>
    messages q' = messages q @ take (bound q - length (messages q)) ms \<and>
    rest = drop (bound q - length (messages q)) ms"
  using assms
proof (induction ms arbitrary: q rest q')
  case Nil
  then show ?case by simp
next
  case (Cons m ms)
  show ?case
  proof (cases "length (messages q) < bound q")
    case True
    from Cons.prems have adm: "admissible q m" "0 < remaining q" by auto
    obtain q1 where q1: "push q m = (kOk, q1)" "wf q1" "messages q1 = messages q @ [m]"
        "bound q1 = bound q" "remaining q1 = remaining q - 1" "admissible q1 = admissible q"
      using push_room [OF Cons.prems(1) adm(1) True adm(2)] by blast
    have "wf q' \<and> bound q' = bound q1 \<and>
        messages q' = messages q1 @ take (bound q1 - length (messages q1)) ms \<and>
        rest = drop (bound q1 - length (messages q1)) ms"
      by (rule Cons.IH) (use Cons.prems q1 in auto)
    moreover obtain j where j: "bound q - length (messages q) = Suc j"
      using True by (metis Suc_diff_Suc)
    moreover from j q1(3,4) have "bound q1 - length (messages q1) = j" by simp
    ultimately show ?thesis
      using q1(3,4) by simp
  next
    case False
    with within_bound [OF Cons.prems(1)] have full: "length (messages q) = bound q" by simp
    with Cons.prems have "push q m = (kUnavailable, q)"
      using push_full [OF Cons.prems(1)] by simp
    with Cons.prems full show ?thesis by simp
  qed
qed

end

end
