(* ===== verification/Cx_Queue.thy ===== *)
theory Cx_Queue
  imports Cx_Visibility Cx_Channel
begin

text \<open>
  The queue region and its single-producer single-consumer rings
  (\<^verbatim>\<open>include/cxloom/loommem/queue.h\<close>, \<^verbatim>\<open>src/loommem/queue.cpp\<close>): sizes and indices of the
  region, formatting, validation and lookup, and the operations of one ring.

  The shared region is a typed store: its header, and the rings keyed by the byte offset at
  which the code constructs them.  A ring is its identity, its two cursors and its slots.  A
  handle (\<^verbatim>\<open>SpscQueue\<close>) is the local host and the visibility mode, next to the ring it points
  to; \<open>None\<close> is the null pointer of an unattached handle.  \<^verbatim>\<open>TryPop\<close>'s output parameters are
  the results of the model.  Whether the atomics are lock free is a parameter of validation.
\<close>

section \<open>Layout\<close>

definition kQueueRegionMagic :: u64 where
  "kQueueRegionMagic = 0x43584c4f4f4d5152"

definition kSpscQueueMagic :: u64 where
  "kSpscQueueMagic = 0x43584c4f4f4d5351"

definition kQueueLayoutVersion :: u32 where
  "kQueueLayoutVersion = 1"

definition kQueuePayloadBytes :: nat where
  "kQueuePayloadBytes = 128"

text \<open>The sizes that the code asserts statically.\<close>

definition sizeof_QueueRegionHeader :: u64 where
  "sizeof_QueueRegionHeader = 64"

definition sizeof_SharedSpscQueueHeader :: u64 where
  "sizeof_SharedSpscQueueHeader = 192"

definition sizeof_SharedSpscQueueSlot :: u64 where
  "sizeof_SharedSpscQueueSlot = 192"

definition sizeof_MessageHeader :: u64 where
  "sizeof_MessageHeader = 12"

record QueueEnvelope =
  env_header :: MessageHeader
  env_payload :: "u8 list"

record QueueRegionHeader =
  qrh_magic :: u64
  qrh_layout_version :: u32
  qrh_header_bytes :: u32
  qrh_host_count :: u16
  qrh_capacity_entries :: u32
  qrh_slot_bytes :: u32
  qrh_queue_header_bytes :: u32
  qrh_queue_stride :: u64
  qrh_queue_count :: u64
  qrh_required_bytes :: u64

record SpscQueueIdentity =
  qid_magic :: u64
  qid_producer :: HostId
  qid_consumer :: HostId
  qid_capacity_entries :: u32
  qid_slot_bytes :: u32

record SharedSpscQueueSlot =
  slot_sequence :: u64
  slot_header :: MessageHeader
  slot_payload :: "u8 list"

record SharedSpscQueue =
  sq_identity :: SpscQueueIdentity
  sq_tail :: u64
  sq_head :: u64
  sq_slots :: "SharedSpscQueueSlot list"

record QueueRegion =
  reg_header :: QueueRegionHeader
  reg_queues :: "u64 \<rightharpoonup> SharedSpscQueue"

record QueueHandle =
  qh_local_host :: HostId
  qh_mode :: VisibilityMode

definition default_slot :: SharedSpscQueueSlot where
  "default_slot = \<lparr>slot_sequence = 0, slot_header = default_MessageHeader,
                   slot_payload = replicate kQueuePayloadBytes 0\<rparr>"

definition QueueCount :: "u16 \<Rightarrow> u64" where
  "QueueCount hosts = ucast hosts * (if hosts = 0 then 0 else ucast hosts - 1)"

definition queue_stride :: "u64 \<Rightarrow> u64" where
  "queue_stride capacity = sizeof_SharedSpscQueueHeader + capacity * sizeof_SharedSpscQueueSlot"

definition RequiredBytes :: "u16 \<Rightarrow> u64 \<Rightarrow> u64 Result" where
  "RequiredBytes hosts capacity =
     (if hosts = 0 \<or> kMaxHosts < unat hosts \<or> capacity = 0 \<or> ucast UINT32_MAX < capacity
      then Inl kInvalidArgument
      else if (UINT64_MAX - sizeof_SharedSpscQueueHeader) div sizeof_SharedSpscQueueSlot < capacity
      then Inl kInvalidArgument
      else let stride = queue_stride capacity; count = QueueCount hosts
           in if count \<noteq> 0 \<and> (UINT64_MAX - sizeof_QueueRegionHeader) div count < stride
              then Inl kInvalidArgument
              else Inr (sizeof_QueueRegionHeader + count * stride))"

definition PairIndex :: "u16 \<Rightarrow> HostId \<Rightarrow> HostId \<Rightarrow> u64 Result" where
  "PairIndex hosts producer consumer =
     (if hosts \<le> producer \<or> hosts \<le> consumer then Inl kInvalidArgument
      else if producer = consumer then Inl kInvalidArgument
      else let consumer_index = (if consumer < producer then ucast consumer else ucast consumer - 1)
           in Inr (ucast producer * (ucast hosts - 1) + consumer_index))"

definition ValidateHeader :: "QueueRegionHeader \<Rightarrow> u64 \<Rightarrow> u16 \<Rightarrow> u64 \<Rightarrow> Status" where
  "ValidateHeader header region_bytes hosts capacity =
     (case RequiredBytes hosts capacity of
        Inl e \<Rightarrow> e
      | Inr required \<Rightarrow>
          if qrh_magic header \<noteq> kQueueRegionMagic \<or>
             qrh_layout_version header \<noteq> kQueueLayoutVersion \<or>
             ucast (qrh_header_bytes header) \<noteq> sizeof_QueueRegionHeader \<or>
             qrh_host_count header \<noteq> hosts \<or>
             ucast (qrh_capacity_entries header) \<noteq> capacity \<or>
             ucast (qrh_slot_bytes header) \<noteq> sizeof_SharedSpscQueueSlot \<or>
             ucast (qrh_queue_header_bytes header) \<noteq> sizeof_SharedSpscQueueHeader \<or>
             qrh_queue_stride header \<noteq> queue_stride capacity \<or>
             qrh_queue_count header \<noteq> QueueCount hosts \<or>
             qrh_required_bytes header \<noteq> required
          then kFailedPrecondition
          else if region_bytes < qrh_required_bytes header then kFailedPrecondition
          else kOk)"

text \<open>The ring constructed for one directed pair, and its byte offset in the region.\<close>

definition fresh_queue :: "HostId \<Rightarrow> HostId \<Rightarrow> u64 \<Rightarrow> SharedSpscQueue" where
  "fresh_queue producer consumer capacity =
     \<lparr>sq_identity = \<lparr>qid_magic = kSpscQueueMagic, qid_producer = producer, qid_consumer = consumer,
                     qid_capacity_entries = ucast capacity,
                     qid_slot_bytes = ucast sizeof_SharedSpscQueueSlot\<rparr>,
      sq_tail = 0, sq_head = 0, sq_slots = replicate (unat capacity) default_slot\<rparr>"

definition queue_offset :: "QueueRegionHeader \<Rightarrow> u64 \<Rightarrow> u64" where
  "queue_offset header index = sizeof_QueueRegionHeader + index * qrh_queue_stride header"

text \<open>The pairs that the nested producer and consumer loops visit.\<close>

definition host_pairs :: "u16 \<Rightarrow> (HostId \<times> HostId) list" where
  "host_pairs hosts = filter (\<lambda>(p, c). p \<noteq> c) (List.product (hosts_below hosts) (hosts_below hosts))"

definition format_pair :: "u16 \<Rightarrow> u64 \<Rightarrow> HostId \<times> HostId \<Rightarrow> QueueRegion \<Rightarrow> QueueRegion Result" where
  "format_pair hosts capacity pc region =
     (case PairIndex hosts (fst pc) (snd pc) of
        Inl e \<Rightarrow> Inl e
      | Inr index \<Rightarrow>
          Inr (region\<lparr>reg_queues := (reg_queues region)
            (queue_offset (reg_header region) index \<mapsto> fresh_queue (fst pc) (snd pc) capacity)\<rparr>))"

definition format_header :: "u16 \<Rightarrow> u64 \<Rightarrow> u64 \<Rightarrow> QueueRegionHeader" where
  "format_header hosts capacity required =
     \<lparr>qrh_magic = kQueueRegionMagic, qrh_layout_version = kQueueLayoutVersion,
      qrh_header_bytes = ucast sizeof_QueueRegionHeader, qrh_host_count = hosts,
      qrh_capacity_entries = ucast capacity, qrh_slot_bytes = ucast sizeof_SharedSpscQueueSlot,
      qrh_queue_header_bytes = ucast sizeof_SharedSpscQueueHeader,
      qrh_queue_stride = queue_stride capacity, qrh_queue_count = QueueCount hosts,
      qrh_required_bytes = required\<rparr>"

text \<open>
  \<^verbatim>\<open>FormatSharedQueueRegion\<close>: the region pointer is \<open>None\<close> when null; clearing the region
  leaves no ring behind.
\<close>

definition FormatSharedQueueRegion ::
  "QueueRegion option \<Rightarrow> u64 \<Rightarrow> u16 \<Rightarrow> u64 \<Rightarrow> QueueRegion Result" where
  "FormatSharedQueueRegion region region_bytes hosts capacity =
     (case region of
        None \<Rightarrow> Inl kInvalidArgument
      | Some _ \<Rightarrow>
          (case RequiredBytes hosts capacity of
             Inl e \<Rightarrow> Inl e
           | Inr required \<Rightarrow>
               if region_bytes < required then Inl kInvalidArgument
               else foldE (format_pair hosts capacity) (host_pairs hosts)
                      \<lparr>reg_header = format_header hosts capacity required, reg_queues = Map.empty\<rparr>))"

definition validate_pair ::
  "bool \<Rightarrow> u16 \<Rightarrow> u64 \<Rightarrow> QueueRegion \<Rightarrow> HostId \<times> HostId \<Rightarrow> unit \<Rightarrow> unit Result" where
  "validate_pair lock_free hosts capacity region pc _ =
     (case PairIndex hosts (fst pc) (snd pc) of
        Inl e \<Rightarrow> Inl e
      | Inr index \<Rightarrow>
          (case reg_queues region (queue_offset (reg_header region) index) of
             None \<Rightarrow> Inl kFailedPrecondition
           | Some queue \<Rightarrow>
               if qid_magic (sq_identity queue) \<noteq> kSpscQueueMagic \<or>
                  qid_producer (sq_identity queue) \<noteq> fst pc \<or>
                  qid_consumer (sq_identity queue) \<noteq> snd pc \<or>
                  ucast (qid_capacity_entries (sq_identity queue)) \<noteq> capacity \<or>
                  ucast (qid_slot_bytes (sq_identity queue)) \<noteq> sizeof_SharedSpscQueueSlot \<or>
                  \<not> lock_free
               then Inl kFailedPrecondition else Inr ()))"

definition ValidateSharedQueueRegion ::
  "bool \<Rightarrow> QueueRegion option \<Rightarrow> u64 \<Rightarrow> u16 \<Rightarrow> u64 \<Rightarrow> Status" where
  "ValidateSharedQueueRegion lock_free region region_bytes hosts capacity =
     (case region of
        None \<Rightarrow> kInvalidArgument
      | Some r \<Rightarrow>
          if region_bytes < sizeof_QueueRegionHeader then kInvalidArgument
          else let header_status = ValidateHeader (reg_header r) region_bytes hosts capacity
               in if header_status \<noteq> kOk then header_status
                  else result_status
                    (foldE (validate_pair lock_free hosts capacity r) (host_pairs hosts) ()))"

definition LocateSharedQueue ::
  "QueueRegion option \<Rightarrow> u64 \<Rightarrow> HostId \<Rightarrow> HostId \<Rightarrow> u64 Result" where
  "LocateSharedQueue region region_bytes producer consumer =
     (case region of
        None \<Rightarrow> Inl kInvalidArgument
      | Some r \<Rightarrow>
          if region_bytes < sizeof_QueueRegionHeader then Inl kInvalidArgument
          else let header_status = ValidateHeader (reg_header r) region_bytes
                     (qrh_host_count (reg_header r)) (ucast (qrh_capacity_entries (reg_header r)))
               in if header_status \<noteq> kOk then Inl header_status
                  else (case PairIndex (qrh_host_count (reg_header r)) producer consumer of
                          Inl e \<Rightarrow> Inl e
                        | Inr index \<Rightarrow>
                            (case reg_queues r (queue_offset (reg_header r) index) of
                               None \<Rightarrow> Inl kFailedPrecondition
                             | Some queue \<Rightarrow>
                                 if qid_magic (sq_identity queue) \<noteq> kSpscQueueMagic \<or>
                                    qid_producer (sq_identity queue) \<noteq> producer \<or>
                                    qid_consumer (sq_identity queue) \<noteq> consumer
                                 then Inl kFailedPrecondition
                                 else Inr (queue_offset (reg_header r) index))))"

section \<open>The ring operations\<close>

definition q_capacity :: "SharedSpscQueue option \<Rightarrow> u64" where
  "q_capacity q = (case q of None \<Rightarrow> 0 | Some s \<Rightarrow> ucast (qid_capacity_entries (sq_identity s)))"

definition q_producer :: "SharedSpscQueue option \<Rightarrow> HostId" where
  "q_producer q = (case q of None \<Rightarrow> 0 | Some s \<Rightarrow> qid_producer (sq_identity s))"

definition q_consumer :: "SharedSpscQueue option \<Rightarrow> HostId" where
  "q_consumer q = (case q of None \<Rightarrow> 0 | Some s \<Rightarrow> qid_consumer (sq_identity s))"

text \<open>\<^verbatim>\<open>slot.header = message.header\<close> and the copy over the front of the slot's payload array.\<close>

definition write_slot :: "QueueEnvelope \<Rightarrow> SharedSpscQueueSlot \<Rightarrow> SharedSpscQueueSlot" where
  "write_slot message slot = slot\<lparr>slot_header := env_header message,
     slot_payload := env_payload message @ drop (length (env_payload message)) (slot_payload slot)\<rparr>"

definition Push :: "Cpu \<Rightarrow> QueueHandle \<Rightarrow> SharedSpscQueue option \<Rightarrow> QueueEnvelope \<Rightarrow>
    Status \<times> SharedSpscQueue option" where
  "Push cpu h q message =
     (case q of
        None \<Rightarrow> (kFailedPrecondition, q)
      | Some s \<Rightarrow>
          if qh_local_host h \<noteq> q_producer q then (kFailedPrecondition, q)
          else if kind (env_header message) = MsgInvalid \<or>
                  src_host (env_header message) \<noteq> q_producer q \<or>
                  dst_host (env_header message) \<noteq> q_consumer q \<or>
                  unat (payload_bytes (env_header message)) \<noteq> length (env_payload message)
          then (kInvalidArgument, q)
          else if kQueuePayloadBytes < length (env_payload message) then (kInvalidArgument, q)
          else if visibility_status cpu 8 (qh_mode h) \<noteq> kOk
          then (visibility_status cpu 8 (qh_mode h), q)
          else let tail = sq_tail s; head = sq_head s in
            if tail < head then (kInternal, q)
            else if q_capacity q \<le> tail - head then (kUnavailable, q)
            else
              let i = unat (tail mod q_capacity q);
                  s1 = s\<lparr>sq_slots := (sq_slots s)[i := write_slot message (sq_slots s ! i)]\<rparr>;
                  payload_status = visibility_status cpu
                    (sizeof_MessageHeader + of_nat (length (env_payload message))) (qh_mode h)
              in if payload_status \<noteq> kOk then (payload_status, Some s1)
              else
                let s2 = s1\<lparr>sq_slots := (sq_slots s1)[i := (sq_slots s1 ! i)\<lparr>slot_sequence := tail + 1\<rparr>]\<rparr>;
                    sequence_status = visibility_status cpu 8 (qh_mode h)
                in if sequence_status \<noteq> kOk then (sequence_status, Some s2)
                   else (visibility_status cpu 8 (qh_mode h), Some (s2\<lparr>sq_tail := tail + 1\<rparr>)))"

definition TryPop :: "Cpu \<Rightarrow> QueueHandle \<Rightarrow> SharedSpscQueue option \<Rightarrow>
    Status \<times> QueueEnvelope option \<times> SharedSpscQueue option" where
  "TryPop cpu h q =
     (case q of
        None \<Rightarrow> (kFailedPrecondition, None, q)
      | Some s \<Rightarrow>
          if qh_local_host h \<noteq> q_consumer q then (kFailedPrecondition, None, q)
          else if visibility_status cpu 8 (qh_mode h) \<noteq> kOk
          then (visibility_status cpu 8 (qh_mode h), None, q)
          else let head = sq_head s; tail = sq_tail s in
            if head = tail then (kOk, None, q)
            else if tail < head \<or> q_capacity q < tail - head then (kInternal, None, q)
            else
              let slot = sq_slots s ! unat (head mod q_capacity q);
                  acquire_status = visibility_status cpu sizeof_SharedSpscQueueSlot (qh_mode h)
              in if acquire_status \<noteq> kOk then (acquire_status, None, q)
              else if slot_sequence slot \<noteq> head + 1 then (kOk, None, q)
              else if kind (slot_header slot) = MsgInvalid \<or>
                      src_host (slot_header slot) \<noteq> q_producer q \<or>
                      dst_host (slot_header slot) \<noteq> q_consumer q \<or>
                      kQueuePayloadBytes < unat (payload_bytes (slot_header slot))
              then (kInternal, None, q)
              else
                let message = \<lparr>env_header = slot_header slot,
                      env_payload = take (unat (payload_bytes (slot_header slot))) (slot_payload slot)\<rparr>;
                    s1 = s\<lparr>sq_head := head + 1\<rparr>;
                    publish_status = visibility_status cpu 8 (qh_mode h)
                in if publish_status \<noteq> kOk then (publish_status, None, Some s1)
                   else (kOk, Some message, Some s1))"

definition Pop :: "Cpu \<Rightarrow> QueueHandle \<Rightarrow> SharedSpscQueue option \<Rightarrow>
    QueueEnvelope Result \<times> SharedSpscQueue option" where
  "Pop cpu h q =
     (case TryPop cpu h q of
        (status, popped, q') \<Rightarrow>
          if status \<noteq> kOk then (Inl status, q')
          else (case popped of None \<Rightarrow> (Inl kUnavailable, q') | Some m \<Rightarrow> (Inr m, q')))"

definition Size :: "Cpu \<Rightarrow> QueueHandle \<Rightarrow> SharedSpscQueue option \<Rightarrow> u64 Result" where
  "Size cpu h q =
     (case q of
        None \<Rightarrow> Inl kFailedPrecondition
      | Some s \<Rightarrow>
          if visibility_status cpu 8 (qh_mode h) \<noteq> kOk then Inl (visibility_status cpu 8 (qh_mode h))
          else if sq_tail s < sq_head s \<or> q_capacity q < sq_tail s - sq_head s then Inl kInternal
          else Inr (sq_tail s - sq_head s))"

definition PublishedSequence :: "SharedSpscQueue \<Rightarrow> u64" where
  "PublishedSequence s = sq_tail s"

definition ConsumedSequence :: "SharedSpscQueue \<Rightarrow> u64" where
  "ConsumedSequence s = sq_head s"

text \<open>\<^verbatim>\<open>AutomaticQueueCapacity\<close> of \<^verbatim>\<open>src/loommem/runtime.cpp\<close>.\<close>

definition AutomaticQueueCapacity :: "u16 \<Rightarrow> u64 \<Rightarrow> u64 Result" where
  "AutomaticQueueCapacity hosts region_bytes =
     (if hosts \<le> 1 then Inr 1
      else let queue_count = ucast hosts * (ucast hosts - 1) :: u64 in
        if region_bytes \<le> sizeof_QueueRegionHeader \<or>
           (region_bytes - sizeof_QueueRegionHeader) div queue_count \<le> sizeof_SharedSpscQueueHeader
        then Inl kInvalidArgument
        else Inr (min (((region_bytes - sizeof_QueueRegionHeader) div queue_count -
                        sizeof_SharedSpscQueueHeader) div sizeof_SharedSpscQueueSlot) 1024))"

section \<open>Specification: a bounded first-in first-out channel\<close>

definition slot_message :: "SharedSpscQueueSlot \<Rightarrow> QueueEnvelope" where
  "slot_message slot = \<lparr>env_header = slot_header slot,
     env_payload = take (unat (payload_bytes (slot_header slot))) (slot_payload slot)\<rparr>"

definition ring_capacity :: "SharedSpscQueue \<Rightarrow> nat" where
  "ring_capacity s = unat (qid_capacity_entries (sq_identity s))"

definition ring_slot :: "SharedSpscQueue \<Rightarrow> nat \<Rightarrow> SharedSpscQueueSlot" where
  "ring_slot s i = sq_slots s ! (i mod ring_capacity s)"

text \<open>The messages in transit, oldest first.\<close>

definition contents :: "SharedSpscQueue \<Rightarrow> QueueEnvelope list" where
  "contents s = map (\<lambda>i. slot_message (ring_slot s i)) [unat (sq_head s)..<unat (sq_tail s)]"

text \<open>A message that the endpoints of a ring may exchange.\<close>

definition valid_message :: "SharedSpscQueue \<Rightarrow> QueueEnvelope \<Rightarrow> bool" where
  "valid_message s m \<longleftrightarrow>
     kind (env_header m) \<noteq> MsgInvalid \<and>
     src_host (env_header m) = qid_producer (sq_identity s) \<and>
     dst_host (env_header m) = qid_consumer (sq_identity s) \<and>
     unat (payload_bytes (env_header m)) = length (env_payload m) \<and>
     length (env_payload m) \<le> kQueuePayloadBytes"

definition live_slot :: "SharedSpscQueue \<Rightarrow> nat \<Rightarrow> bool" where
  "live_slot s i \<longleftrightarrow>
     slot_sequence (ring_slot s i) = of_nat i + 1 \<and>
     valid_message s (slot_message (ring_slot s i)) "

definition queue_wf :: "SharedSpscQueue \<Rightarrow> bool" where
  "queue_wf s \<longleftrightarrow>
     0 < ring_capacity s \<and> length (sq_slots s) = ring_capacity s \<and>
     (\<forall>slot \<in> set (sq_slots s). length (slot_payload slot) = kQueuePayloadBytes) \<and>
     unat (sq_head s) \<le> unat (sq_tail s) \<and>
     unat (sq_tail s) - unat (sq_head s) \<le> ring_capacity s \<and>
     (\<forall>i \<in> {unat (sq_head s)..<unat (sq_tail s)}. live_slot s i)"

text \<open>The producer's and the consumer's handle of a ring.\<close>

definition producer_handle :: "SharedSpscQueue \<Rightarrow> QueueHandle \<Rightarrow> bool" where
  "producer_handle s h \<longleftrightarrow> qh_local_host h = qid_producer (sq_identity s)"

definition consumer_handle :: "SharedSpscQueue \<Rightarrow> QueueHandle \<Rightarrow> bool" where
  "consumer_handle s h \<longleftrightarrow> qh_local_host h = qid_consumer (sq_identity s)"

section \<open>Region arithmetic\<close>

lemma unat_ucast_u32 [simp]: "unat (ucast (x::u32) :: u64) = unat x"
  by (simp add: unsigned_ucast_eq take_bit_nat_eq_self less_le_trans [OF unat_u32_bound])

lemma unat_ucast_u16 [simp]: "unat (ucast (x::u16) :: u64) = unat x"
  by (simp add: unsigned_ucast_eq take_bit_nat_eq_self less_le_trans [OF unat_u16_bound])

lemma unat_ucast_capacity:
  "(c::u64) \<le> ucast UINT32_MAX \<Longrightarrow> unat (ucast c :: u32) = unat c"
  by (simp add: unsigned_ucast_eq take_bit_nat_eq_self word_le_nat_alt)

lemma unat_QueueCount: "unat (QueueCount hosts) = unat hosts * (unat hosts - 1)"
proof (cases "hosts = 0")
  case False
  then have pos: "1 \<le> unat hosts" by (simp add: Suc_le_eq unat_gt_0)
  have "unat (ucast hosts - 1 :: u64) = unat hosts - 1"
    using pos by (subst unat_sub_no_wrap) (auto simp: word_le_nat_alt)
  moreover have "unat hosts * (unat hosts - 1) < 65536 * 65536"
    using unat_u16_bound [of hosts] by (intro mult_strict_mono) auto
  ultimately show ?thesis
    using False by (simp add: QueueCount_def unat_word_ariths)
qed (simp add: QueueCount_def)

definition pair_number :: "nat \<Rightarrow> nat \<Rightarrow> nat \<Rightarrow> nat" where
  "pair_number n p c = p * (n - 1) + (if c < p then c else c - 1)"

lemma pair_number_less:
  assumes "p < n" "c < n" "p \<noteq> c"
  shows "pair_number n p c < n * (n - 1)"
proof -
  have "(if c < p then c else c - 1) < n - 1" using assms by auto
  then have "pair_number n p c < Suc p * (n - 1)" by (simp add: pair_number_def)
  also have "\<dots> \<le> n * (n - 1)" using assms(1) by (intro mult_le_mono) auto
  finally show ?thesis .
qed

lemma pair_number_div_mod:
  assumes "p < n" "c < n" "p \<noteq> c"
  shows "pair_number n p c div (n - 1) = p"
    and "pair_number n p c mod (n - 1) = (if c < p then c else c - 1)"
proof -
  have "(if c < p then c else c - 1) < n - 1" using assms by auto
  then show "pair_number n p c div (n - 1) = p"
    and "pair_number n p c mod (n - 1) = (if c < p then c else c - 1)"
    by (simp_all add: pair_number_def)
qed

lemma pair_number_inject:
  assumes "p < n" "c < n" "p \<noteq> c" "p' < n" "c' < n" "p' \<noteq> c'"
    and eq: "pair_number n p c = pair_number n p' c'"
  shows "p = p' \<and> c = c'"
proof -
  from eq have p: "p = p'"
    using pair_number_div_mod(1) [OF assms(1-3)] pair_number_div_mod(1) [OF assms(4-6)] by simp
  from eq have "(if c < p then c else c - 1) = (if c' < p' then c' else c' - 1)"
    using pair_number_div_mod(2) [OF assms(1-3)] pair_number_div_mod(2) [OF assms(4-6)] by simp
  with p assms(3,6) show ?thesis by (auto split: if_splits)
qed

lemma PairIndex_Inr_iff:
  "PairIndex hosts p c = Inr i \<longleftrightarrow>
     p < hosts \<and> c < hosts \<and> p \<noteq> c \<and> unat i = pair_number (unat hosts) (unat p) (unat c)"
proof (cases "p < hosts \<and> c < hosts \<and> p \<noteq> c")
  case True
  then have lt: "unat p < unat hosts" "unat c < unat hosts" "unat p \<noteq> unat c"
    by (auto simp: word_less_nat_alt word_unat_eq_iff)
  define w where "w = ucast p * (ucast hosts - 1) + (if c < p then ucast c else ucast c - 1 :: u64)"
  have sub: "unat (ucast hosts - 1 :: u64) = unat hosts - 1"
    using lt by (subst unat_sub_no_wrap) (auto simp: word_le_nat_alt)
  have col: "unat (if c < p then ucast c else ucast c - 1 :: u64) =
      (if unat c < unat p then unat c else unat c - 1)"
  proof (cases "c < p")
    case False
    then have "1 \<le> unat c" using lt by (auto simp: word_less_nat_alt)
    then have "unat (ucast c - 1 :: u64) = unat c - 1"
      by (subst unat_sub_no_wrap) (auto simp: word_le_nat_alt)
    with False show ?thesis by (simp add: word_less_nat_alt)
  qed (simp add: word_less_nat_alt)
  have "unat hosts * (unat hosts - 1) < 65536 * 65536"
    using unat_u16_bound [of hosts] by (intro mult_strict_mono) auto
  with pair_number_less [OF lt]
  have small: "pair_number (unat hosts) (unat p) (unat c) < 65536 * 65536" by simp
  then have "unat p * (unat hosts - 1) < 65536 * 65536"
    by (simp add: pair_number_def)
  then have "unat (ucast p * (ucast hosts - 1) :: u64) = unat p * (unat hosts - 1)"
    by (simp add: unat_word_ariths sub)
  then have "unat w = pair_number (unat hosts) (unat p) (unat c)"
    unfolding w_def using small by (subst unat_add_no_wrap) (auto simp: col pair_number_def)
  then have "i = w \<longleftrightarrow> unat i = pair_number (unat hosts) (unat p) (unat c)"
    by (metis word_unat_eq_iff)
  then show ?thesis
    using True by (auto simp: PairIndex_def w_def Let_def)
qed (auto simp: PairIndex_def Let_def not_less)

text \<open>
  The directed host pairs index the rings of the region without gaps or clashes: two pairs
  get the same index only if they are the same pair, and the indices of the pairs of a world
  are exactly the numbers below the ring count.
\<close>

theorem PairIndex_bijection:
  "bij_betw (\<lambda>(p, c). case PairIndex hosts p c of Inr i \<Rightarrow> unat i | Inl _ \<Rightarrow> 0)
     {(p, c). p < hosts \<and> c < hosts \<and> p \<noteq> c} {..<unat (QueueCount hosts)}"
proof -
  let ?S = "{(p, c). p < hosts \<and> c < hosts \<and> p \<noteq> c}"
  let ?f = "\<lambda>(p, c). case PairIndex hosts p c of Inr i \<Rightarrow> unat i | Inl _ \<Rightarrow> (0::nat)"
  let ?n = "unat hosts"
  have f: "?f (p, c) = pair_number ?n (unat p) (unat c)" if "(p, c) \<in> ?S" for p c
  proof -
    from that have "\<not> (hosts \<le> p \<or> hosts \<le> c)" "p \<noteq> c" by (auto simp: not_le)
    then obtain i where i: "PairIndex hosts p c = Inr i" by (auto simp: PairIndex_def Let_def)
    moreover from i have "unat i = pair_number ?n (unat p) (unat c)" by (simp add: PairIndex_Inr_iff)
    ultimately show ?thesis by simp
  qed
  have lt: "unat p < ?n \<and> unat c < ?n \<and> unat p \<noteq> unat c" if "(p, c) \<in> ?S" for p c
    using that by (auto simp: word_less_nat_alt word_unat_eq_iff)
  have inj: "inj_on ?f ?S"
  proof (rule inj_onI)
    fix x y assume xy: "x \<in> ?S" "y \<in> ?S" "?f x = ?f y"
    obtain p c p' c' where [simp]: "x = (p, c)" "y = (p', c')" by (cases x, cases y)
    from xy have "unat p = unat p' \<and> unat c = unat c'"
      using f [of p c] f [of p' c'] lt [of p c] lt [of p' c']
      by (intro pair_number_inject [of "unat p" ?n "unat c" "unat p'" "unat c'"]) auto
    then show "x = y" by (simp add: word_unat_eq_iff)
  qed
  have "?f x < unat (QueueCount hosts)" if x: "x \<in> ?S" for x
  proof -
    obtain p c where [simp]: "x = (p, c)" by (cases x)
    show ?thesis
      using f [of p c] lt [of p c] x pair_number_less [of "unat p" ?n "unat c"]
      by (simp add: unat_QueueCount)
  qed
  then have sub: "?f ` ?S \<subseteq> {..<unat (QueueCount hosts)}" by blast
  have "?S = (set (hosts_below hosts) \<times> set (hosts_below hosts)) - (\<lambda>h. (h, h)) ` set (hosts_below hosts)"
    by auto
  moreover have "card ((\<lambda>h::u16. (h, h)) ` set (hosts_below hosts)) = ?n"
    by (simp add: card_image inj_on_def distinct_card)
  moreover have "card (set (hosts_below hosts)) = ?n" by (simp add: distinct_card)
  ultimately have "card ?S = ?n * ?n - ?n"
    by (simp only:) (subst card_Diff_subset, auto simp: card_cartesian_product)
  then have "card ?S = unat (QueueCount hosts)"
    by (simp add: unat_QueueCount diff_mult_distrib2)
  then have "card (?f ` ?S) = card {..<unat (QueueCount hosts)}"
    by (simp add: card_image [OF inj])
  with sub have "?f ` ?S = {..<unat (QueueCount hosts)}"
    by (intro card_subset_eq) auto
  with inj show ?thesis by (simp add: bij_betw_def)
qed

lemma queue_stride_nat:
  assumes "c \<le> (UINT64_MAX - sizeof_SharedSpscQueueHeader) div sizeof_SharedSpscQueueSlot"
  shows "unat (queue_stride c) = 192 + unat c * 192"
proof -
  have "unat c \<le> unat ((UINT64_MAX - sizeof_SharedSpscQueueHeader) div sizeof_SharedSpscQueueSlot)"
    using assms by (simp add: word_le_nat_alt)
  also have "\<dots> = 18446744073709551423 div 192"
    by (simp add: sizeof_SharedSpscQueueHeader_def sizeof_SharedSpscQueueSlot_def)
  finally have "192 + unat c * 192 < 2 ^ 64" by simp
  then show ?thesis
    by (simp add: queue_stride_def sizeof_SharedSpscQueueHeader_def sizeof_SharedSpscQueueSlot_def
        unat_word_ariths)
qed

lemma RequiredBytes_nat:
  assumes "RequiredBytes hosts capacity = Inr required"
  shows "0 < unat hosts" "unat hosts \<le> kMaxHosts" "0 < unat capacity"
    "capacity \<le> ucast UINT32_MAX"
    "unat (queue_stride capacity) = 192 + unat capacity * 192"
    "unat required = 64 + unat hosts * (unat hosts - 1) * (192 + unat capacity * 192)"
proof -
  let ?count = "QueueCount hosts" and ?stride = "queue_stride capacity"
  from assms have nz: "hosts \<noteq> 0" "unat hosts \<le> kMaxHosts" "capacity \<noteq> 0" "capacity \<le> ucast UINT32_MAX"
    and s: "capacity \<le> (UINT64_MAX - sizeof_SharedSpscQueueHeader) div sizeof_SharedSpscQueueSlot"
    and c: "?count \<noteq> 0 \<Longrightarrow> ?stride \<le> (UINT64_MAX - sizeof_QueueRegionHeader) div ?count"
    and r: "required = sizeof_QueueRegionHeader + ?count * ?stride"
    by (auto simp: RequiredBytes_def Let_def not_less split: if_splits)
  show "0 < unat hosts" "unat hosts \<le> kMaxHosts" "0 < unat capacity" "capacity \<le> ucast UINT32_MAX"
    using nz by (auto simp: unat_gt_0)
  show stride: "unat ?stride = 192 + unat capacity * 192" by (rule queue_stride_nat [OF s])
  have fits: "unat ?count * unat ?stride + 64 \<le> 18446744073709551615"
  proof (cases "?count = 0")
    case False
    then have "unat ?stride \<le> 18446744073709551551 div unat ?count"
      using c by (simp add: word_le_nat_alt unat_div sizeof_QueueRegionHeader_def)
    then have "unat ?stride * unat ?count \<le> 18446744073709551551"
      using False by (simp add: less_eq_div_iff_mult_less_eq unat_gt_0)
    then show ?thesis by (simp add: mult.commute)
  qed simp
  then show "unat required = 64 + unat hosts * (unat hosts - 1) * (192 + unat capacity * 192)"
    by (simp add: r sizeof_QueueRegionHeader_def unat_word_ariths unat_QueueCount stride)
qed

section \<open>Formatting, validation and lookup\<close>

definition pair_index :: "u16 \<Rightarrow> HostId \<times> HostId \<Rightarrow> u64" where
  "pair_index hosts pc = (case PairIndex hosts (fst pc) (snd pc) of Inr i \<Rightarrow> i | Inl _ \<Rightarrow> 0)"

lemma set_host_pairs [simp]:
  "pc \<in> set (host_pairs hosts) \<longleftrightarrow> fst pc < hosts \<and> snd pc < hosts \<and> fst pc \<noteq> snd pc"
  by (cases pc) (auto simp: host_pairs_def)

lemma PairIndex_pair_index:
  assumes "fst pc < hosts" "snd pc < hosts" "fst pc \<noteq> snd pc"
  shows "PairIndex hosts (fst pc) (snd pc) = Inr (pair_index hosts pc)"
    and "unat (pair_index hosts pc) = pair_number (unat hosts) (unat (fst pc)) (unat (snd pc))"
proof -
  have "\<not> (hosts \<le> fst pc \<or> hosts \<le> snd pc)" using assms by (auto simp: not_le)
  then obtain i where i: "PairIndex hosts (fst pc) (snd pc) = Inr i"
    using assms(3) by (auto simp: PairIndex_def Let_def)
  then show "PairIndex hosts (fst pc) (snd pc) = Inr (pair_index hosts pc)"
    by (simp add: pair_index_def)
  with i show "unat (pair_index hosts pc) = pair_number (unat hosts) (unat (fst pc)) (unat (snd pc))"
    using PairIndex_Inr_iff by blast
qed

lemma pair_index_less:
  assumes "pc \<in> set (host_pairs hosts)"
  shows "unat (pair_index hosts pc) < unat hosts * (unat hosts - 1)"
proof -
  from assms have "unat (fst pc) < unat hosts" "unat (snd pc) < unat hosts"
    "unat (fst pc) \<noteq> unat (snd pc)"
    by (auto simp: word_less_nat_alt word_unat_eq_iff)
  from pair_number_less [OF this] show ?thesis
    using assms by (simp add: PairIndex_pair_index(2))
qed

lemma pair_index_inject:
  assumes "pc \<in> set (host_pairs hosts)" "pc' \<in> set (host_pairs hosts)"
    and "pair_index hosts pc = pair_index hosts pc'"
  shows "pc = pc'"
proof -
  have "unat (fst pc) = unat (fst pc') \<and> unat (snd pc) = unat (snd pc')"
  proof (rule pair_number_inject [where n = "unat hosts"])
    show "pair_number (unat hosts) (unat (fst pc)) (unat (snd pc)) =
        pair_number (unat hosts) (unat (fst pc')) (unat (snd pc'))"
      using assms PairIndex_pair_index(2) [of pc hosts] PairIndex_pair_index(2) [of pc' hosts] by simp
  qed (use assms in \<open>auto simp: word_less_nat_alt word_unat_eq_iff\<close>)
  then show ?thesis by (simp add: prod_eq_iff word_unat_eq_iff)
qed

lemma queue_offset_nat:
  assumes "RequiredBytes hosts capacity = Inr required" and "i < unat hosts * (unat hosts - 1)"
    and "unat w = i"
  shows "unat (queue_offset (format_header hosts capacity required) w) =
      64 + i * (192 + unat capacity * 192)"
    and "64 + i * (192 + unat capacity * 192) + (192 + unat capacity * 192) \<le> unat required"
proof -
  note req = RequiredBytes_nat [OF assms(1)]
  have "Suc i * (192 + unat capacity * 192) \<le>
      unat hosts * (unat hosts - 1) * (192 + unat capacity * 192)"
    using assms(2) by (intro mult_le_mono1) simp
  then show fits: "64 + i * (192 + unat capacity * 192) + (192 + unat capacity * 192) \<le> unat required"
    unfolding req(6) by simp
  then show "unat (queue_offset (format_header hosts capacity required) w) =
      64 + i * (192 + unat capacity * 192)"
    using unat_u64_bound [of required] assms(3) req(5)
    by (simp add: queue_offset_def format_header_def sizeof_QueueRegionHeader_def unat_word_ariths)
qed

text \<open>The bytes of the region that the ring of a pair occupies: its header and all its slots.\<close>

definition ring_bytes :: "u16 \<Rightarrow> u64 \<Rightarrow> u64 \<Rightarrow> HostId \<times> HostId \<Rightarrow> nat set" where
  "ring_bytes hosts capacity required pc =
     (let off = unat (queue_offset (format_header hosts capacity required) (pair_index hosts pc))
      in {off..<off + unat (queue_stride capacity)})"

text \<open>
  The rings of a formatted region never overlap each other or the region header, and all of
  them lie inside the required bytes that the code compares with the reserved region.
\<close>

theorem queue_rings_disjoint:
  assumes "RequiredBytes hosts capacity = Inr required"
    and "pc \<in> set (host_pairs hosts)"
  shows "ring_bytes hosts capacity required pc \<subseteq> {64..<unat required} \<and>
    (\<forall>pc' \<in> set (host_pairs hosts). pc' \<noteq> pc \<longrightarrow>
       ring_bytes hosts capacity required pc \<inter> ring_bytes hosts capacity required pc' = {})"
proof -
  let ?st = "192 + unat capacity * 192"
  have eq: "ring_bytes hosts capacity required pc =
      {64 + unat (pair_index hosts pc) * ?st..<64 + unat (pair_index hosts pc) * ?st + ?st}"
    and inside: "64 + unat (pair_index hosts pc) * ?st + ?st \<le> unat required"
    if "pc \<in> set (host_pairs hosts)" for pc
    using queue_offset_nat [OF assms(1) pair_index_less [OF that] refl] RequiredBytes_nat(5) [OF assms(1)]
    by (auto simp: ring_bytes_def Let_def)
  have disj: "ring_bytes hosts capacity required pc \<inter> ring_bytes hosts capacity required pc' = {}"
    if pc': "pc' \<in> set (host_pairs hosts)" "pc' \<noteq> pc" for pc'
  proof -
    let ?i = "unat (pair_index hosts pc)" and ?j = "unat (pair_index hosts pc')"
    have "?i \<noteq> ?j"
      using pair_index_inject [OF assms(2) pc'(1)] pc'(2) by (auto simp: word_unat_eq_iff)
    then consider "Suc ?i \<le> ?j" | "Suc ?j \<le> ?i" by linarith
    then show ?thesis
    proof cases
      case 1
      from mult_le_mono1 [OF 1, of ?st] show ?thesis
        unfolding eq [OF assms(2)] eq [OF pc'(1)] by auto
    next
      case 2
      from mult_le_mono1 [OF 2, of ?st] show ?thesis
        unfolding eq [OF assms(2)] eq [OF pc'(1)] by auto
    qed
  qed
  show ?thesis
    using eq [OF assms(2)] inside [OF assms(2)] disj by auto
qed

theorem queue_rings_disjoint_witness:
  "RequiredBytes 3 4 = Inr 5824 \<and>
   ring_bytes 3 4 5824 (0, 1) \<subseteq> {64..<5824}"
proof -
  have r: "RequiredBytes 3 4 = Inr 5824"
    by (simp add: RequiredBytes_def Let_def kMaxHosts_def queue_stride_def QueueCount_def
        sizeof_SharedSpscQueueHeader_def sizeof_SharedSpscQueueSlot_def sizeof_QueueRegionHeader_def)
  show ?thesis
    using queue_rings_disjoint [OF r, of "(0, 1)"] r by simp
qed

lemma format_fold:
  assumes "\<forall>pc \<in> set xs. pc \<in> set (host_pairs hosts)"
  shows "foldE (format_pair hosts capacity) xs r =
    Inr (r\<lparr>reg_queues := reg_queues r ++
      map_of (map (\<lambda>pc. (queue_offset (reg_header r) (pair_index hosts pc),
                         fresh_queue (fst pc) (snd pc) capacity)) (rev xs))\<rparr>)"
  using assms
proof (induction xs arbitrary: r)
  case (Cons pc xs)
  then have "PairIndex hosts (fst pc) (snd pc) = Inr (pair_index hosts pc)"
    by (intro PairIndex_pair_index) auto
  then show ?case
    using Cons by (simp add: format_pair_def)
qed simp

lemma FormatSharedQueueRegion_eq:
  assumes "RequiredBytes hosts capacity = Inr required" and "required \<le> region_bytes"
  obtains r where "FormatSharedQueueRegion (Some old) region_bytes hosts capacity = Inr r"
    and "reg_header r = format_header hosts capacity required"
    and "\<And>pc. pc \<in> set (host_pairs hosts) \<Longrightarrow>
      reg_queues r (queue_offset (reg_header r) (pair_index hosts pc)) =
        Some (fresh_queue (fst pc) (snd pc) capacity)"
proof -
  let ?h = "format_header hosts capacity required"
  let ?key = "\<lambda>pc. queue_offset ?h (pair_index hosts pc)"
  let ?al = "map (\<lambda>pc. (?key pc, fresh_queue (fst pc) (snd pc) capacity)) (rev (host_pairs hosts))"
  define r where "r = \<lparr>reg_header = ?h, reg_queues = map_of ?al\<rparr>"
  have fmt: "FormatSharedQueueRegion (Some old) region_bytes hosts capacity = Inr r"
    unfolding FormatSharedQueueRegion_def r_def
    using assms format_fold [of "host_pairs hosts" hosts capacity "\<lparr>reg_header = ?h, reg_queues = Map.empty\<rparr>"]
    by (auto simp: not_less)
  have inj: "inj_on ?key (set (host_pairs hosts))"
  proof (rule inj_onI)
    fix x y assume xy: "x \<in> set (host_pairs hosts)" "y \<in> set (host_pairs hosts)" "?key x = ?key y"
    have "0 < 192 + unat capacity * 192" by simp
    moreover have "64 + unat (pair_index hosts x) * (192 + unat capacity * 192) =
        64 + unat (pair_index hosts y) * (192 + unat capacity * 192)"
      using queue_offset_nat(1) [OF assms(1) pair_index_less [OF xy(1)] refl]
        queue_offset_nat(1) [OF assms(1) pair_index_less [OF xy(2)] refl] xy(3) by simp
    ultimately have "unat (pair_index hosts x) = unat (pair_index hosts y)" by simp
    then show "x = y" using pair_index_inject [OF xy(1,2)] by (simp add: word_unat_eq_iff)
  qed
  have "distinct (host_pairs hosts)"
    by (simp add: host_pairs_def distinct_product)
  with inj have dist: "distinct (map fst ?al)"
    by (simp add: distinct_map rev_map [symmetric] o_def)
  have "reg_queues r (queue_offset (reg_header r) (pair_index hosts pc)) =
        Some (fresh_queue (fst pc) (snd pc) capacity)" if "pc \<in> set (host_pairs hosts)" for pc
  proof -
    have "(?key pc, fresh_queue (fst pc) (snd pc) capacity) \<in> set ?al" using that by auto
    then show ?thesis using map_of_eq_Some_iff [OF dist] by (simp add: r_def)
  qed
  with fmt that show ?thesis by (simp add: r_def)
qed

lemma ValidateHeader_format:
  assumes "RequiredBytes hosts capacity = Inr required" and "required \<le> region_bytes"
  shows "ValidateHeader (format_header hosts capacity required) region_bytes hosts capacity = kOk"
proof -
  have "ucast (ucast capacity :: u32) = capacity"
    using RequiredBytes_nat(4) [OF assms(1)]
    by (simp add: word_unat_eq_iff unat_ucast_capacity)
  with assms show ?thesis
    by (auto simp: ValidateHeader_def format_header_def sizeof_QueueRegionHeader_def
        sizeof_SharedSpscQueueSlot_def sizeof_SharedSpscQueueHeader_def not_less)
qed

lemma foldE_unit_ok: "(\<And>x. x \<in> set xs \<Longrightarrow> f x () = Inr ()) \<Longrightarrow> foldE f xs () = Inr ()"
  by (induction xs) auto

lemma fresh_queue_wf:
  assumes "capacity \<noteq> 0" "capacity \<le> ucast UINT32_MAX"
  shows "queue_wf (fresh_queue p c capacity)" "contents (fresh_queue p c capacity) = []"
    "ring_capacity (fresh_queue p c capacity) = unat capacity"
proof -
  have "unat (ucast capacity :: u32) = unat capacity" by (rule unat_ucast_capacity [OF assms(2)])
  moreover have "0 < unat capacity" using assms(1) by (simp add: unat_gt_0)
  ultimately show "queue_wf (fresh_queue p c capacity)" "contents (fresh_queue p c capacity) = []"
    "ring_capacity (fresh_queue p c capacity) = unat capacity"
    by (auto simp: queue_wf_def fresh_queue_def ring_capacity_def contents_def default_slot_def)
qed

lemma queue_region_ready:
  assumes "RequiredBytes hosts capacity = Inr required" and "required \<le> region_bytes"
  shows "\<exists>r. FormatSharedQueueRegion (Some old) region_bytes hosts capacity = Inr r \<and>
    ValidateSharedQueueRegion True (Some r) region_bytes hosts capacity = kOk \<and>
    (\<forall>p c. p < hosts \<and> c < hosts \<and> p \<noteq> c \<longrightarrow>
      (\<exists>off q. LocateSharedQueue (Some r) region_bytes p c = Inr off \<and> reg_queues r off = Some q \<and>
        queue_wf q \<and> contents q = [] \<and> ring_capacity q = unat capacity \<and>
        qid_producer (sq_identity q) = p \<and> qid_consumer (sq_identity q) = c))"
proof -
  obtain r where fmt: "FormatSharedQueueRegion (Some old) region_bytes hosts capacity = Inr r"
    and hd: "reg_header r = format_header hosts capacity required"
    and q: "\<And>pc. pc \<in> set (host_pairs hosts) \<Longrightarrow>
      reg_queues r (queue_offset (reg_header r) (pair_index hosts pc)) =
        Some (fresh_queue (fst pc) (snd pc) capacity)"
    using FormatSharedQueueRegion_eq [OF assms] by blast
  note req = RequiredBytes_nat [OF assms(1)]
  have cap: "capacity \<noteq> 0" "ucast (ucast capacity :: u32) = capacity"
    using req(3,4) by (auto simp: word_unat_eq_iff unat_ucast_capacity)
  have vh: "ValidateHeader (reg_header r) region_bytes hosts capacity = kOk"
    unfolding hd by (rule ValidateHeader_format [OF assms])
  have big: "\<not> region_bytes < sizeof_QueueRegionHeader"
    using assms(2) req(6) by (simp add: word_less_nat_alt word_le_nat_alt sizeof_QueueRegionHeader_def)
  have "validate_pair True hosts capacity r pc () = Inr ()" if "pc \<in> set (host_pairs hosts)" for pc
    using that q [OF that] PairIndex_pair_index(1) [of pc hosts] cap
    by (simp add: validate_pair_def fresh_queue_def sizeof_SharedSpscQueueSlot_def)
  then have "foldE (validate_pair True hosts capacity r) (host_pairs hosts) () = Inr ()"
    by (rule foldE_unit_ok)
  with vh big have "ValidateSharedQueueRegion True (Some r) region_bytes hosts capacity = kOk"
    by (simp add: ValidateSharedQueueRegion_def)
  moreover have "LocateSharedQueue (Some r) region_bytes p c =
        Inr (queue_offset (reg_header r) (pair_index hosts (p, c)))"
      and "reg_queues r (queue_offset (reg_header r) (pair_index hosts (p, c))) =
        Some (fresh_queue p c capacity)"
    if "p < hosts \<and> c < hosts \<and> p \<noteq> c" for p c
  proof -
    have hdr: "qrh_host_count (reg_header r) = hosts" "ucast (qrh_capacity_entries (reg_header r)) = capacity"
      using cap by (auto simp: hd format_header_def)
    show ring: "reg_queues r (queue_offset (reg_header r) (pair_index hosts (p, c))) =
        Some (fresh_queue p c capacity)"
      using q [of "(p, c)"] that by simp
    show "LocateSharedQueue (Some r) region_bytes p c =
        Inr (queue_offset (reg_header r) (pair_index hosts (p, c)))"
      using PairIndex_pair_index(1) [of "(p, c)" hosts] that ring vh big
      by (simp add: LocateSharedQueue_def hdr fresh_queue_def)
  qed
  moreover have "qid_producer (sq_identity (fresh_queue p c capacity)) = p"
    "qid_consumer (sq_identity (fresh_queue p c capacity)) = c" for p c
    by (simp_all add: fresh_queue_def)
  ultimately show ?thesis
    using fmt fresh_queue_wf [OF cap(1) req(4)] by blast
qed

lemma FormatSharedQueueRegion_fits:
  assumes "FormatSharedQueueRegion (Some old) region_bytes hosts capacity = Inr r"
  shows "\<exists>required. RequiredBytes hosts capacity = Inr required \<and> required \<le> region_bytes"
  using assms by (auto simp: FormatSharedQueueRegion_def not_less split: sum.splits if_splits)

text \<open>
  Formatting a queue region that is large enough yields a region that every host accepts:
  validation with the same dimensions succeeds, and looking a directed pair up finds an empty,
  well-formed ring of the requested capacity with that pair's endpoints.
\<close>

theorem format_validate_locate:
  assumes "RequiredBytes hosts capacity = Inr required" and "required \<le> region_bytes"
  shows "\<exists>r. FormatSharedQueueRegion (Some old) region_bytes hosts capacity = Inr r \<and>
    ValidateSharedQueueRegion True (Some r) region_bytes hosts capacity = kOk \<and>
    (\<forall>p c. p < hosts \<and> c < hosts \<and> p \<noteq> c \<longrightarrow>
      (\<exists>off q. LocateSharedQueue (Some r) region_bytes p c = Inr off \<and> reg_queues r off = Some q \<and>
        queue_wf q \<and> contents q = [] \<and> ring_capacity q = unat capacity \<and>
        qid_producer (sq_identity q) = p \<and> qid_consumer (sq_identity q) = c))"
  using assms by (rule queue_region_ready)

theorem format_validate_locate_witness:
  "\<exists>r. FormatSharedQueueRegion (Some \<lparr>reg_header = format_header 1 1 1, reg_queues = Map.empty\<rparr>) 6000 3 4
      = Inr r \<and> ValidateSharedQueueRegion True (Some r) 6000 3 4 = kOk"
proof -
  have "RequiredBytes 3 4 = Inr 5824"
    by (simp add: RequiredBytes_def Let_def kMaxHosts_def queue_stride_def QueueCount_def
        sizeof_SharedSpscQueueHeader_def sizeof_SharedSpscQueueSlot_def sizeof_QueueRegionHeader_def)
  from format_validate_locate [OF this, where region_bytes = 6000 and
      old = "\<lparr>reg_header = format_header 1 1 1, reg_queues = Map.empty\<rparr>"]
  show ?thesis by fastforce
qed

section \<open>The ring refines the channel\<close>

lemma contents_length: "queue_wf s \<Longrightarrow> length (contents s) = unat (sq_tail s) - unat (sq_head s)"
  by (simp add: contents_def)

lemma ring_index_bound: "queue_wf s \<Longrightarrow> i mod ring_capacity s < length (sq_slots s)"
  by (auto simp: queue_wf_def)

lemma q_capacity_Some [simp]: "unat (q_capacity (Some s)) = ring_capacity s"
  by (simp add: q_capacity_def ring_capacity_def)

lemma q_endpoints_Some [simp]:
  "q_producer (Some s) = qid_producer (sq_identity s)"
  "q_consumer (Some s) = qid_consumer (sq_identity s)"
  by (simp_all add: q_producer_def q_consumer_def)

text \<open>Two live positions of the ring less than a capacity apart use different slots.\<close>

lemma ring_positions_distinct:
  assumes "i < j" and "j < i + n"
  shows "(i::nat) mod n \<noteq> j mod n"
proof
  assume "i mod n = j mod n"
  with assms(1) have "n dvd j - i" by (metis less_imp_le mod_eq_dvd_iff_nat)
  with assms show False by (auto dest: dvd_imp_le)
qed

lemma slot_message_write:
  assumes "length (slot_payload slot) = kQueuePayloadBytes"
    and "unat (payload_bytes (env_header m)) = length (env_payload m)"
  shows "slot_message ((write_slot m slot)\<lparr>slot_sequence := v\<rparr>) = m"
  using assms by (simp add: slot_message_def write_slot_def)

definition pushed :: "SharedSpscQueue \<Rightarrow> QueueEnvelope \<Rightarrow> SharedSpscQueue" where
  "pushed s m = (let i = unat (sq_tail s) mod ring_capacity s in
     s\<lparr>sq_slots := (sq_slots s)[i := (write_slot m (sq_slots s ! i))\<lparr>slot_sequence := sq_tail s + 1\<rparr>],
       sq_tail := sq_tail s + 1\<rparr>)"

definition popped :: "SharedSpscQueue \<Rightarrow> SharedSpscQueue" where
  "popped s = s\<lparr>sq_head := sq_head s + 1\<rparr>"

lemma pushed_wf:
  assumes wf: "queue_wf s" and m: "valid_message s m"
    and room: "length (contents s) < ring_capacity s" and seq: "unat (sq_tail s) + 1 < 2 ^ 64"
  shows "queue_wf (pushed s m)" and "contents (pushed s m) = contents s @ [m]"
proof -
  let ?t = "unat (sq_tail s)" and ?h = "unat (sq_head s)" and ?n = "ring_capacity s"
  let ?s = "pushed s m"
  have id: "sq_identity ?s = sq_identity s" "ring_capacity ?s = ?n" "sq_head ?s = sq_head s"
    by (simp_all add: pushed_def Let_def ring_capacity_def)
  have tail: "unat (sq_tail ?s) = Suc ?t"
    using seq by (simp add: pushed_def Let_def unat_word_ariths)
  have slots: "sq_slots ?s = (sq_slots s)[?t mod ?n :=
      (write_slot m (ring_slot s ?t))\<lparr>slot_sequence := sq_tail s + 1\<rparr>]"
    by (simp add: pushed_def Let_def ring_slot_def)
  from wf have n: "0 < ?n" "length (sq_slots s) = ?n" "?h \<le> ?t" "?t - ?h \<le> ?n"
    by (auto simp: queue_wf_def)
  have gap: "?t < ?h + ?n" using room n contents_length [OF wf] by simp
  have old: "ring_slot ?s i = ring_slot s i" if "?h \<le> i" "i < ?t" for i
    using ring_positions_distinct [of i ?t ?n] that gap by (simp add: ring_slot_def slots id)
  have len: "length (slot_payload (ring_slot s ?t)) = kQueuePayloadBytes"
    using wf n by (simp add: queue_wf_def ring_slot_def)
  have new: "slot_message (ring_slot ?s ?t) = m" "slot_sequence (ring_slot ?s ?t) = of_nat ?t + 1"
    using n m len by (simp_all add: ring_slot_def slots id slot_message_write valid_message_def)
  have msg: "valid_message ?s x \<longleftrightarrow> valid_message s x" for x
    by (simp add: valid_message_def id)
  have live: "live_slot ?s i" if "?h \<le> i" "i < Suc ?t" for i
  proof (cases "i = ?t")
    case True
    then show ?thesis using new m by (simp add: live_slot_def msg)
  next
    case False
    then have "i < ?t" using that by simp
    moreover have "live_slot s i" using wf that(1) \<open>i < ?t\<close> by (simp add: queue_wf_def)
    ultimately show ?thesis using old that(1) by (simp add: live_slot_def msg)
  qed
  have payloads: "\<forall>slot \<in> set (sq_slots ?s). length (slot_payload slot) = kQueuePayloadBytes"
  proof
    fix slot assume "slot \<in> set (sq_slots ?s)"
    then have "slot \<in> insert ((write_slot m (ring_slot s ?t))\<lparr>slot_sequence := sq_tail s + 1\<rparr>) (set (sq_slots s))"
      using set_update_subset_insert [THEN subsetD] unfolding slots by fastforce
    then show "length (slot_payload slot) = kQueuePayloadBytes"
      using wf len m by (auto simp: queue_wf_def write_slot_def valid_message_def)
  qed
  show "queue_wf ?s"
    using n live payloads gap by (auto simp: queue_wf_def tail id slots)
  have "contents ?s = map (\<lambda>i. slot_message (ring_slot ?s i)) [?h..<Suc ?t]"
    by (simp add: contents_def tail id)
  also have "\<dots> = map (\<lambda>i. slot_message (ring_slot ?s i)) [?h..<?t] @ [m]"
    using n(3) new by simp
  also have "map (\<lambda>i. slot_message (ring_slot ?s i)) [?h..<?t] = contents s"
    using old by (simp add: contents_def)
  finally show "contents ?s = contents s @ [m]" .
qed

lemma popped_wf:
  assumes wf: "queue_wf s" and c: "contents s = m # ms"
  shows "queue_wf (popped s)" and "contents (popped s) = ms"
    and "slot_message (ring_slot s (unat (sq_head s))) = m"
proof -
  let ?t = "unat (sq_tail s)" and ?h = "unat (sq_head s)"
  have lt: "?h < ?t" using c by (cases "?h < ?t") (auto simp: contents_def)
  then have head: "unat (sq_head s + 1) = Suc ?h"
    using unat_u64_bound [of "sq_tail s"] by (simp add: unat_word_ariths)
  have same: "ring_slot (popped s) i = ring_slot s i" "ring_capacity (popped s) = ring_capacity s"
    "live_slot (popped s) i = live_slot s i" for i
    by (simp_all add: ring_slot_def popped_def ring_capacity_def live_slot_def valid_message_def)
  have split: "[?h..<?t] = ?h # [Suc ?h..<?t]" using lt by (rule upt_conv_Cons)
  show "queue_wf (popped s)"
    using wf lt head same by (auto simp: queue_wf_def popped_def)
  have "contents s = slot_message (ring_slot s ?h) # contents (popped s)"
    by (simp add: contents_def split same head) (simp add: popped_def head)
  then show "contents (popped s) = ms" "slot_message (ring_slot s ?h) = m"
    using c by auto
qed

text \<open>The endpoints' calls on one ring, in the mode the runtime constructs every queue with.\<close>

definition producer_push :: "Cpu \<Rightarrow> SharedSpscQueue \<Rightarrow> QueueEnvelope \<Rightarrow> Status \<times> SharedSpscQueue" where
  "producer_push cpu s m =
     (case Push cpu \<lparr>qh_local_host = qid_producer (sq_identity s), qh_mode = kReleaseAcquire\<rparr> (Some s) m of
        (st, q) \<Rightarrow> (st, case q of None \<Rightarrow> s | Some s' \<Rightarrow> s'))"

definition consumer_pop :: "Cpu \<Rightarrow> SharedSpscQueue \<Rightarrow> Status \<times> QueueEnvelope option \<times> SharedSpscQueue" where
  "consumer_pop cpu s =
     (case TryPop cpu \<lparr>qh_local_host = qid_consumer (sq_identity s), qh_mode = kReleaseAcquire\<rparr> (Some s) of
        (st, m, q) \<Rightarrow> (st, m, case q of None \<Rightarrow> s | Some s' \<Rightarrow> s'))"

definition sequences_left :: "SharedSpscQueue \<Rightarrow> nat" where
  "sequences_left s = 2 ^ 64 - 1 - unat (sq_tail s)"

lemma cursor_distance:
  assumes "queue_wf s"
  shows "unat (sq_tail s - sq_head s) = length (contents s)"
    and "\<not> sq_tail s < sq_head s"
  using assms contents_length [OF assms]
  by (auto simp: queue_wf_def unat_sub_no_wrap word_le_nat_alt word_less_nat_alt)

lemma visibility_status_nonzero:
  "ValidateVisibilityMode cpu mode = kOk \<Longrightarrow> bytes \<noteq> 0 \<Longrightarrow> visibility_status cpu bytes mode = kOk"
  by (simp add: visibility_status_def)

lemma payload_bytes_nonzero:
  "n \<le> kQueuePayloadBytes \<Longrightarrow> sizeof_MessageHeader + of_nat n \<noteq> (0::u64)"
proof -
  assume n: "n \<le> kQueuePayloadBytes"
  then have "unat (sizeof_MessageHeader + of_nat n :: u64) = 12 + n"
    by (simp add: sizeof_MessageHeader_def unat_word_ariths unat_of_nat kQueuePayloadBytes_def)
  then show ?thesis by auto
qed

lemma Push_eq:
  assumes "queue_wf s" and "ValidateVisibilityMode cpu (qh_mode h) = kOk"
  shows "Push cpu h (Some s) m =
    (if \<not> producer_handle s h then (kFailedPrecondition, Some s)
     else if \<not> valid_message s m then (kInvalidArgument, Some s)
     else if length (contents s) = ring_capacity s then (kUnavailable, Some s)
     else (kOk, Some (pushed s m)))"
proof -
  note dist = cursor_distance [OF assms(1)]
  have full: "q_capacity (Some s) \<le> sq_tail s - sq_head s \<longleftrightarrow> ring_capacity s \<le> length (contents s)"
    by (simp add: word_le_nat_alt dist)
  have le: "length (contents s) \<le> ring_capacity s"
    using assms(1) contents_length [OF assms(1)] by (simp add: queue_wf_def)
  have idx: "unat (sq_tail s mod q_capacity (Some s)) = unat (sq_tail s) mod ring_capacity s"
    by (simp add: unat_mod)
  have in_range: "unat (sq_tail s) mod ring_capacity s < length (sq_slots s)"
    by (rule ring_index_bound [OF assms(1)])
  have vis: "visibility_status cpu 8 (qh_mode h) = kOk"
    "valid_message s m \<Longrightarrow>
       visibility_status cpu (sizeof_MessageHeader + of_nat (length (env_payload m))) (qh_mode h) = kOk"
    using assms(2) payload_bytes_nonzero
    by (auto intro!: visibility_status_nonzero simp: valid_message_def)
  show ?thesis
  proof (cases "producer_handle s h \<and> valid_message s m \<and> length (contents s) \<noteq> ring_capacity s")
    case True
    then show ?thesis
      using dist(2) full le vis in_range
      by (simp add: Push_def Let_def idx producer_handle_def pushed_def valid_message_def)
  next
    case False
    then show ?thesis
      using dist(2) full le vis(1)
      by (auto simp: Push_def Let_def producer_handle_def valid_message_def not_le)
  qed
qed

text \<open>
  C28. Pushing refines appending: on a well-formed ring, the producer's push of a message for the
  ring's endpoints appends it when there is room and sequence numbers are left, answers
  Unavailable without touching the ring when it is full, and every push by another host or of a
  message that does not match the endpoints is refused without touching the ring.
\<close>

theorem Push_refines:
  assumes "queue_wf s" and "ValidateVisibilityMode cpu (qh_mode h) = kOk"
    and "unat (sq_tail s) + 1 < 2 ^ 64"
  shows "Push cpu h (Some s) m =
    (if \<not> producer_handle s h then (kFailedPrecondition, Some s)
     else if \<not> valid_message s m then (kInvalidArgument, Some s)
     else if length (contents s) = ring_capacity s then (kUnavailable, Some s)
     else (kOk, Some (pushed s m))) \<and>
    (valid_message s m \<and> length (contents s) < ring_capacity s \<longrightarrow>
       queue_wf (pushed s m) \<and> contents (pushed s m) = contents s @ [m])"
  using Push_eq [OF assms(1,2)] pushed_wf [OF assms(1) _ _ assms(3)] by blast

definition sample_message :: QueueEnvelope where
  "sample_message = \<lparr>env_header = \<lparr>kind = TokenReq, src_host = 0, dst_host = 1, payload_bytes = 2\<rparr>,
     env_payload = [7, 9]\<rparr>"

lemma sample_ring: "queue_wf (fresh_queue 0 1 4)" "contents (fresh_queue 0 1 4) = []"
  by (rule fresh_queue_wf; simp)+

theorem Push_refines_witness:
  "Push \<lparr>is_x86 = True, has_clwb = False\<rparr> \<lparr>qh_local_host = 0, qh_mode = kClflush\<rparr>
     (Some (fresh_queue 0 1 4)) sample_message =
       (kOk, Some (pushed (fresh_queue 0 1 4) sample_message)) \<and>
   contents (pushed (fresh_queue 0 1 4) sample_message) = [sample_message]"
proof -
  have "valid_message (fresh_queue 0 1 4) sample_message" "producer_handle (fresh_queue 0 1 4)
      \<lparr>qh_local_host = 0, qh_mode = kClflush\<rparr>" "ring_capacity (fresh_queue 0 1 4) = 4"
    "unat (sq_tail (fresh_queue 0 1 4)) = 0"
    by (simp_all add: valid_message_def fresh_queue_def sample_message_def kQueuePayloadBytes_def
        producer_handle_def ring_capacity_def)
  then show ?thesis
    using Push_refines [OF sample_ring(1), of "\<lparr>is_x86 = True, has_clwb = False\<rparr>"
        "\<lparr>qh_local_host = 0, qh_mode = kClflush\<rparr>" sample_message]
    by (simp add: ValidateVisibilityMode_def sample_ring(2))
qed

lemma TryPop_eq:
  assumes "queue_wf s" and "ValidateVisibilityMode cpu (qh_mode h) = kOk"
  shows "TryPop cpu h (Some s) =
    (if \<not> consumer_handle s h then (kFailedPrecondition, None, Some s)
     else (case contents s of
             [] \<Rightarrow> (kOk, None, Some s)
           | m # _ \<Rightarrow> (kOk, Some m, Some (popped s))))"
proof (cases "contents s")
  case Nil
  then have "sq_head s = sq_tail s"
    using assms(1) contents_length [OF assms(1)] by (auto simp: queue_wf_def word_unat_eq_iff)
  with Nil show ?thesis
    using assms(2) by (auto simp: TryPop_def Let_def consumer_handle_def visibility_status_nonzero)
next
  case (Cons m ms)
  note pop = popped_wf [OF assms(1) Cons]
  note dist = cursor_distance [OF assms(1)]
  have ne: "sq_head s \<noteq> sq_tail s" using Cons by (auto simp: contents_def)
  have le: "\<not> q_capacity (Some s) < sq_tail s - sq_head s"
    using assms(1) contents_length [OF assms(1)] by (simp add: word_less_nat_alt dist queue_wf_def)
  have lt: "unat (sq_head s) < unat (sq_tail s)"
    using Cons by (cases "unat (sq_head s) < unat (sq_tail s)") (auto simp: contents_def)
  have slot: "sq_slots s ! unat (sq_head s mod q_capacity (Some s)) = ring_slot s (unat (sq_head s))"
    by (simp add: ring_slot_def unat_mod)
  have "live_slot s (unat (sq_head s))" using assms(1) lt by (simp add: queue_wf_def)
  then have live: "slot_sequence (ring_slot s (unat (sq_head s))) = sq_head s + 1"
    "valid_message s m" "slot_message (ring_slot s (unat (sq_head s))) = m"
    using pop(3) by (auto simp: live_slot_def)
  have hdr: "slot_header (ring_slot s (unat (sq_head s))) = env_header m"
    using live(3) by (auto simp: slot_message_def)
  have "TryPop cpu h (Some s) = (kOk, Some m, Some (popped s))" if "consumer_handle s h"
    using that ne le dist(2) live assms(2)
    by (auto simp: TryPop_def Let_def consumer_handle_def visibility_status_nonzero slot hdr
        valid_message_def popped_def slot_message_def sizeof_SharedSpscQueueSlot_def)
  moreover have "TryPop cpu h (Some s) = (kFailedPrecondition, None, Some s)" if "\<not> consumer_handle s h"
    using that by (simp add: TryPop_def consumer_handle_def)
  ultimately show ?thesis using Cons by simp
qed

text \<open>
  C29. Popping refines taking the head: on a well-formed ring the consumer receives the oldest
  message unchanged and the rest stays in order; an empty ring answers Ok without a message, and
  no other host can pop.
\<close>

theorem TryPop_refines:
  assumes "queue_wf s" and "ValidateVisibilityMode cpu (qh_mode h) = kOk"
  shows "TryPop cpu h (Some s) =
    (if \<not> consumer_handle s h then (kFailedPrecondition, None, Some s)
     else (case contents s of
             [] \<Rightarrow> (kOk, None, Some s)
           | m # _ \<Rightarrow> (kOk, Some m, Some (popped s)))) \<and>
    (contents s \<noteq> [] \<longrightarrow> queue_wf (popped s) \<and> contents (popped s) = tl (contents s))"
  using TryPop_eq [OF assms] popped_wf [OF assms(1)] by (cases "contents s") auto

theorem TryPop_refines_witness:
  "TryPop \<lparr>is_x86 = False, has_clwb = False\<rparr> \<lparr>qh_local_host = 1, qh_mode = kReleaseAcquire\<rparr>
     (Some (pushed (fresh_queue 0 1 4) sample_message)) =
     (kOk, Some sample_message, Some (popped (pushed (fresh_queue 0 1 4) sample_message)))"
proof -
  have m: "valid_message (fresh_queue 0 1 4) sample_message"
    and cap: "length (contents (fresh_queue 0 1 4)) < ring_capacity (fresh_queue 0 1 4)"
      "unat (sq_tail (fresh_queue 0 1 4)) + 1 < 2 ^ 64"
    by (simp_all add: valid_message_def fresh_queue_def sample_message_def kQueuePayloadBytes_def
        ring_capacity_def contents_def)
  note wf = pushed_wf [OF sample_ring(1) m cap]
  have "consumer_handle (pushed (fresh_queue 0 1 4) sample_message)
      \<lparr>qh_local_host = 1, qh_mode = kReleaseAcquire\<rparr>"
    by (simp add: consumer_handle_def pushed_def Let_def fresh_queue_def)
  with TryPop_refines [OF wf(1), of "\<lparr>is_x86 = False, has_clwb = False\<rparr>"
      "\<lparr>qh_local_host = 1, qh_mode = kReleaseAcquire\<rparr>"]
  show ?thesis by (simp add: wf(2) sample_ring(2) ValidateVisibilityMode_def)
qed

section \<open>The ring is a bounded first-in first-out channel\<close>

lemma producer_push_eq:
  assumes "queue_wf s" and "valid_message s m"
  shows "producer_push cpu s m =
    (if length (contents s) = ring_capacity s then (kUnavailable, s) else (kOk, pushed s m))"
  using Push_eq [OF assms(1), of cpu
      "\<lparr>qh_local_host = qid_producer (sq_identity s), qh_mode = kReleaseAcquire\<rparr>" m] assms(2)
  by (simp add: producer_push_def producer_handle_def ValidateVisibilityMode_def)

lemma consumer_pop_eq:
  assumes "queue_wf s"
  shows "consumer_pop cpu s =
    (case contents s of [] \<Rightarrow> (kOk, None, s) | m # _ \<Rightarrow> (kOk, Some m, popped s))"
  using TryPop_eq [OF assms, of cpu
      "\<lparr>qh_local_host = qid_consumer (sq_identity s), qh_mode = kReleaseAcquire\<rparr>"]
  by (simp add: consumer_pop_def consumer_handle_def ValidateVisibilityMode_def split: list.splits)

lemma pushed_frame:
  "ring_capacity (pushed s m) = ring_capacity s" "valid_message (pushed s m) = valid_message s"
  "sq_identity (pushed s m) = sq_identity s" "sq_head (pushed s m) = sq_head s"
  by (auto simp: pushed_def Let_def ring_capacity_def valid_message_def)

lemma popped_frame:
  "ring_capacity (popped s) = ring_capacity s" "valid_message (popped s) = valid_message s"
  "sq_identity (popped s) = sq_identity s" "sq_tail (popped s) = sq_tail s"
  by (auto simp: popped_def ring_capacity_def valid_message_def)

interpretation ring: fifo_channel queue_wf contents ring_capacity sequences_left valid_message
  "producer_push cpu" "consumer_pop cpu" for cpu
proof unfold_locales
  fix s m
  assume wf: "queue_wf s"
  show "length (contents s) \<le> ring_capacity s"
    using wf contents_length [OF wf] by (simp add: queue_wf_def)
  assume "valid_message s m"
  note push = producer_push_eq [OF wf this, of cpu]
  show "producer_push cpu s m = (kUnavailable, s)" if "length (contents s) = ring_capacity s"
    using push that by simp
  assume room: "length (contents s) < ring_capacity s" "0 < sequences_left s"
  then have seq: "unat (sq_tail s) + 1 < 2 ^ 64" by (simp add: sequences_left_def)
  then have "unat (sq_tail (pushed s m)) = unat (sq_tail s) + 1"
    by (simp add: pushed_def Let_def unat_word_ariths)
  then have "sequences_left (pushed s m) = sequences_left s - 1" by (simp add: sequences_left_def)
  with push room pushed_wf [OF wf \<open>valid_message s m\<close> room(1) seq]
  show "\<exists>s'. producer_push cpu s m = (kOk, s') \<and> queue_wf s' \<and> contents s' = contents s @ [m] \<and>
      ring_capacity s' = ring_capacity s \<and> sequences_left s' = sequences_left s - 1 \<and>
      valid_message s' = valid_message s"
    by (simp add: pushed_frame)
next
  fix s assume wf: "queue_wf s"
  show "consumer_pop cpu s = (kOk, None, s)" if "contents s = []"
    using consumer_pop_eq [OF wf, of cpu] that by simp
  fix m ms assume c: "contents s = m # ms"
  show "\<exists>s'. consumer_pop cpu s = (kOk, Some m, s') \<and> queue_wf s' \<and> contents s' = ms \<and>
      ring_capacity s' = ring_capacity s \<and> sequences_left s' = sequences_left s \<and>
      valid_message s' = valid_message s"
    using consumer_pop_eq [OF wf, of cpu] c popped_wf [OF wf c]
    by (simp add: popped_frame sequences_left_def)
qed

section \<open>The automatic capacity\<close>

lemma required_nat_fits:
  assumes "hosts \<noteq> 0" "unat hosts \<le> kMaxHosts" "capacity \<noteq> 0" "capacity \<le> 1024"
  shows "\<exists>required. RequiredBytes hosts capacity = Inr required"
proof -
  have c: "unat capacity \<le> 1024" using assms(4) by (simp add: word_le_nat_alt)
  have limit: "capacity \<le> (UINT64_MAX - sizeof_SharedSpscQueueHeader) div sizeof_SharedSpscQueueSlot"
    using c by (simp add: word_le_nat_alt sizeof_SharedSpscQueueHeader_def sizeof_SharedSpscQueueSlot_def)
  have stride: "unat (queue_stride capacity) \<le> 196800"
    using queue_stride_nat [OF limit] c by simp
  have "unat (QueueCount hosts) \<le> 64 * 64"
    unfolding unat_QueueCount using assms(2) by (intro mult_le_mono) (auto simp: kMaxHosts_def)
  then have "196800 * unat (QueueCount hosts) \<le> 18446744073709551551" by simp
  then have "QueueCount hosts \<noteq> 0 \<Longrightarrow> 196800 \<le> 18446744073709551551 div unat (QueueCount hosts)"
    by (simp add: less_eq_div_iff_mult_less_eq unat_gt_0)
  then have "QueueCount hosts \<noteq> 0 \<Longrightarrow>
      queue_stride capacity \<le> (UINT64_MAX - sizeof_QueueRegionHeader) div QueueCount hosts"
    using stride by (simp add: word_le_nat_alt unat_div sizeof_QueueRegionHeader_def)
  moreover have "\<not> ucast UINT32_MAX < capacity"
    using c by (simp add: word_less_nat_alt)
  ultimately show ?thesis
    using assms limit by (auto simp: RequiredBytes_def Let_def not_less)
qed

text \<open>
  The automatic capacity is the largest one up to 1024 that fits: the rings of all directed
  host pairs fit in the region with it, and no larger capacity up to 1024 does.
\<close>

theorem AutomaticQueueCapacity_largest:
  assumes "1 < hosts" and "unat hosts \<le> kMaxHosts"
    and "AutomaticQueueCapacity hosts region_bytes = Inr capacity" and "capacity \<noteq> 0"
  shows "(\<exists>required. RequiredBytes hosts capacity = Inr required \<and> required \<le> region_bytes) \<and>
    (\<forall>c. capacity < c \<and> c \<le> 1024 \<longrightarrow>
       (\<exists>required. RequiredBytes hosts c = Inr required \<and> region_bytes < required))"
proof -
  let ?q = "unat hosts * (unat hosts - 1)" and ?R = "unat region_bytes - 64"
  define k where "k = ?R div ?q"
  have hosts: "1 < unat hosts" "hosts \<noteq> 0" using assms(1) by (auto simp: word_less_nat_alt)
  have q: "unat (ucast hosts * (ucast hosts - 1) :: u64) = ?q"
    using unat_QueueCount [of hosts] hosts(2) by (simp add: QueueCount_def)
  have qpos: "0 < ?q" using hosts(1) by simp
  from assms(1,3) have ok: "\<not> region_bytes \<le> sizeof_QueueRegionHeader"
    "\<not> (region_bytes - sizeof_QueueRegionHeader) div (ucast hosts * (ucast hosts - 1)) \<le> sizeof_SharedSpscQueueHeader"
    and cap: "capacity = min (((region_bytes - sizeof_QueueRegionHeader) div (ucast hosts * (ucast hosts - 1)) -
                        sizeof_SharedSpscQueueHeader) div sizeof_SharedSpscQueueSlot) 1024"
    by (auto simp: AutomaticQueueCapacity_def Let_def not_le split: if_splits)
  have rb: "64 < unat region_bytes" using ok(1) by (simp add: sizeof_QueueRegionHeader_def word_le_nat_alt)
  have sub: "unat (region_bytes - sizeof_QueueRegionHeader) = ?R"
    using rb by (subst unat_sub_no_wrap) (auto simp: sizeof_QueueRegionHeader_def word_le_nat_alt)
  have kk: "unat ((region_bytes - sizeof_QueueRegionHeader) div (ucast hosts * (ucast hosts - 1))) = k"
    by (simp only: unat_div sub q k_def)
  have kbig: "192 < k" using ok(2) kk by (simp add: sizeof_SharedSpscQueueHeader_def word_le_nat_alt)
  have ks: "unat ((region_bytes - sizeof_QueueRegionHeader) div (ucast hosts * (ucast hosts - 1)) -
      sizeof_SharedSpscQueueHeader) = k - 192"
    using kbig kk by (subst unat_sub_no_wrap) (auto simp: sizeof_SharedSpscQueueHeader_def word_le_nat_alt)
  have capn: "unat capacity = min ((k - 192) div 192) 1024"
    unfolding cap min_def using ks
    by (auto simp: word_le_nat_alt unat_div sizeof_SharedSpscQueueSlot_def)
  have le: "capacity \<le> 1024" using capn by (simp add: word_le_nat_alt)
  obtain required where req: "RequiredBytes hosts capacity = Inr required"
    using required_nat_fits [OF hosts(2) assms(2,4) le] by blast
  have "unat capacity * 192 \<le> k - 192"
    using capn by (simp add: min_le_iff_disj)
  then have "192 + unat capacity * 192 \<le> k" using kbig by simp
  then have "?q * (192 + unat capacity * 192) \<le> ?q * k" by (rule mult_le_mono2)
  also have "\<dots> \<le> ?R" unfolding k_def by (metis mult.commute div_times_less_eq_dividend)
  finally have fits: "required \<le> region_bytes"
    using RequiredBytes_nat(6) [OF req] rb by (simp add: word_le_nat_alt)
  have "\<exists>required. RequiredBytes hosts c = Inr required \<and> region_bytes < required"
    if c: "capacity < c" "c \<le> 1024" for c
  proof -
    have cn: "unat capacity < unat c" "unat c \<le> 1024"
      using c by (auto simp: word_le_nat_alt word_less_nat_alt)
    then have "c \<noteq> 0" by auto
    then obtain r where r: "RequiredBytes hosts c = Inr r"
      using required_nat_fits [OF hosts(2) assms(2) _ c(2)] by blast
    have "(k - 192) div 192 < unat c" using capn cn by (auto simp: min_def split: if_splits)
    then have "k - 192 < unat c * 192" by (simp add: div_less_iff_less_mult)
    then have "?R div ?q < 192 + unat c * 192" unfolding k_def [symmetric] by simp
    then have "?R < (192 + unat c * 192) * ?q"
      using qpos by (simp add: div_less_iff_less_mult)
    then have "?R < ?q * (192 + unat c * 192)" by (simp only: mult.commute)
    then have "unat region_bytes < 64 + ?q * (192 + unat c * 192)" by simp
    then have "region_bytes < r"
      unfolding word_less_nat_alt RequiredBytes_nat(6) [OF r] .
    with r show ?thesis by blast
  qed
  with req fits show ?thesis by blast
qed

theorem AutomaticQueueCapacity_largest_witness:
  "AutomaticQueueCapacity 64 0x4000000 = Inr 85 \<and>
   (\<exists>required. RequiredBytes 64 85 = Inr required \<and> required \<le> 0x4000000)"
proof -
  have "AutomaticQueueCapacity 64 0x4000000 = Inr 85"
    by (simp add: AutomaticQueueCapacity_def Let_def sizeof_SharedSpscQueueHeader_def
        sizeof_SharedSpscQueueSlot_def sizeof_QueueRegionHeader_def word_le_nat_alt)
  with AutomaticQueueCapacity_largest [OF _ _ this] show ?thesis
    by (simp add: kMaxHosts_def)
qed

end
