(* ===== verification/Cx_Queue_Steps.thy ===== *)
theory Cx_Queue_Steps
  imports Cx_Queue
begin

text \<open>
  One ring used by its two hosts at the same time (\<^verbatim>\<open>SpscQueue::Push\<close> and \<^verbatim>\<open>SpscQueue::TryPop\<close>
  of \<^verbatim>\<open>src/loommem/queue.cpp\<close>): every load and store of the two operations on the shared ring is a
  step of its own, and the steps of the producer and of the consumer interleave in any order.  A
  step relation with the histories of the messages sent and received states that the ring is a
  first-in first-out channel whatever the interleaving: no message is lost, duplicated, reordered
  or read while half written, and the corruption branches are never taken.

  The interleaving is sequentially consistent: the cursors and the sequence word are stored with
  release and loaded with acquire order, so the plain accesses to a slot are ordered by them.
\<close>

section \<open>The steps\<close>

text \<open>Where each side stands, with the values its call has loaded so far.\<close>

datatype ProducerPc =
    PIdle
  | PTail QueueEnvelope u64
  | PRoom QueueEnvelope u64
  | PHeader QueueEnvelope u64
  | PPayload QueueEnvelope u64
  | PSequence QueueEnvelope u64
  | PCorrupt

datatype ConsumerPc =
    CIdle
  | CHead u64
  | CTail u64
  | CSequence u64
  | CHeader u64 MessageHeader
  | CCopied u64 QueueEnvelope
  | CCorrupt

record RingSystem =
  rs_ring :: SharedSpscQueue
  rs_producer :: ProducerPc
  rs_consumer :: ConsumerPc
  rs_sent :: "QueueEnvelope list"
  rs_received :: "QueueEnvelope list"

text \<open>The slot that a cursor value selects, and a store to it.\<close>

definition slot_at :: "SharedSpscQueue \<Rightarrow> u64 \<Rightarrow> SharedSpscQueueSlot" where
  "slot_at s cursor = sq_slots s ! unat (cursor mod q_capacity (Some s))"

definition store_slot :: "u64 \<Rightarrow> (SharedSpscQueueSlot \<Rightarrow> SharedSpscQueueSlot) \<Rightarrow>
    SharedSpscQueue \<Rightarrow> SharedSpscQueue" where
  "store_slot cursor f s = (let i = unat (cursor mod q_capacity (Some s)) in
     s\<lparr>sq_slots := (sq_slots s)[i := f (sq_slots s ! i)]\<rparr>)"

definition write_header :: "QueueEnvelope \<Rightarrow> SharedSpscQueueSlot \<Rightarrow> SharedSpscQueueSlot" where
  "write_header m slot = slot\<lparr>slot_header := env_header m\<rparr>"

definition write_payload :: "QueueEnvelope \<Rightarrow> SharedSpscQueueSlot \<Rightarrow> SharedSpscQueueSlot" where
  "write_payload m slot = slot\<lparr>slot_payload := env_payload m @
     drop (length (env_payload m)) (slot_payload slot)\<rparr>"

inductive push_step :: "RingSystem \<Rightarrow> RingSystem \<Rightarrow> bool" where
  load_tail: "rs_producer s = PIdle \<Longrightarrow> valid_message (rs_ring s) m \<Longrightarrow>
    push_step s (s\<lparr>rs_producer := PTail m (sq_tail (rs_ring s))\<rparr>)"
| corrupt: "rs_producer s = PTail m tail \<Longrightarrow> tail < sq_head (rs_ring s) \<Longrightarrow>
    push_step s (s\<lparr>rs_producer := PCorrupt\<rparr>)"
| full: "rs_producer s = PTail m tail \<Longrightarrow> \<not> tail < sq_head (rs_ring s) \<Longrightarrow>
    q_capacity (Some (rs_ring s)) \<le> tail - sq_head (rs_ring s) \<Longrightarrow>
    push_step s (s\<lparr>rs_producer := PIdle\<rparr>)"
| load_head: "rs_producer s = PTail m tail \<Longrightarrow> \<not> tail < sq_head (rs_ring s) \<Longrightarrow>
    \<not> q_capacity (Some (rs_ring s)) \<le> tail - sq_head (rs_ring s) \<Longrightarrow>
    push_step s (s\<lparr>rs_producer := PRoom m tail\<rparr>)"
| store_header: "rs_producer s = PRoom m tail \<Longrightarrow>
    push_step s (s\<lparr>rs_ring := store_slot tail (write_header m) (rs_ring s), rs_producer := PHeader m tail\<rparr>)"
| store_payload: "rs_producer s = PHeader m tail \<Longrightarrow>
    push_step s (s\<lparr>rs_ring := store_slot tail (write_payload m) (rs_ring s), rs_producer := PPayload m tail\<rparr>)"
| store_sequence: "rs_producer s = PPayload m tail \<Longrightarrow>
    push_step s (s\<lparr>rs_ring := store_slot tail (slot_sequence_update (\<lambda>_. tail + 1)) (rs_ring s),
      rs_producer := PSequence m tail\<rparr>)"
| store_tail: "rs_producer s = PSequence m tail \<Longrightarrow>
    push_step s (s\<lparr>rs_ring := (rs_ring s)\<lparr>sq_tail := tail + 1\<rparr>, rs_producer := PIdle,
      rs_sent := rs_sent s @ [m]\<rparr>)"

inductive pop_step :: "RingSystem \<Rightarrow> RingSystem \<Rightarrow> bool" where
  load_head: "rs_consumer s = CIdle \<Longrightarrow>
    pop_step s (s\<lparr>rs_consumer := CHead (sq_head (rs_ring s))\<rparr>)"
| empty: "rs_consumer s = CHead head \<Longrightarrow> head = sq_tail (rs_ring s) \<Longrightarrow>
    pop_step s (s\<lparr>rs_consumer := CIdle\<rparr>)"
| cursors_corrupt: "rs_consumer s = CHead head \<Longrightarrow> head \<noteq> sq_tail (rs_ring s) \<Longrightarrow>
    sq_tail (rs_ring s) < head \<or> q_capacity (Some (rs_ring s)) < sq_tail (rs_ring s) - head \<Longrightarrow>
    pop_step s (s\<lparr>rs_consumer := CCorrupt\<rparr>)"
| load_tail: "rs_consumer s = CHead head \<Longrightarrow> head \<noteq> sq_tail (rs_ring s) \<Longrightarrow>
    \<not> (sq_tail (rs_ring s) < head \<or> q_capacity (Some (rs_ring s)) < sq_tail (rs_ring s) - head) \<Longrightarrow>
    pop_step s (s\<lparr>rs_consumer := CTail head\<rparr>)"
| not_published: "rs_consumer s = CTail head \<Longrightarrow> slot_sequence (slot_at (rs_ring s) head) \<noteq> head + 1 \<Longrightarrow>
    pop_step s (s\<lparr>rs_consumer := CIdle\<rparr>)"
| load_sequence: "rs_consumer s = CTail head \<Longrightarrow> slot_sequence (slot_at (rs_ring s) head) = head + 1 \<Longrightarrow>
    pop_step s (s\<lparr>rs_consumer := CSequence head\<rparr>)"
| message_corrupt: "rs_consumer s = CSequence head \<Longrightarrow> hdr = slot_header (slot_at (rs_ring s) head) \<Longrightarrow>
    kind hdr = MsgInvalid \<or> src_host hdr \<noteq> q_producer (Some (rs_ring s)) \<or>
      dst_host hdr \<noteq> q_consumer (Some (rs_ring s)) \<or> kQueuePayloadBytes < unat (payload_bytes hdr) \<Longrightarrow>
    pop_step s (s\<lparr>rs_consumer := CCorrupt\<rparr>)"
| copy_header: "rs_consumer s = CSequence head \<Longrightarrow> hdr = slot_header (slot_at (rs_ring s) head) \<Longrightarrow>
    \<not> (kind hdr = MsgInvalid \<or> src_host hdr \<noteq> q_producer (Some (rs_ring s)) \<or>
      dst_host hdr \<noteq> q_consumer (Some (rs_ring s)) \<or> kQueuePayloadBytes < unat (payload_bytes hdr)) \<Longrightarrow>
    pop_step s (s\<lparr>rs_consumer := CHeader head hdr\<rparr>)"
| copy_payload: "rs_consumer s = CHeader head hdr \<Longrightarrow>
    pop_step s (s\<lparr>rs_consumer := CCopied head \<lparr>env_header = hdr,
      env_payload = take (unat (payload_bytes hdr)) (slot_payload (slot_at (rs_ring s) head))\<rparr>\<rparr>)"
| store_head: "rs_consumer s = CCopied head m \<Longrightarrow>
    pop_step s (s\<lparr>rs_ring := (rs_ring s)\<lparr>sq_head := head + 1\<rparr>, rs_consumer := CIdle,
      rs_received := rs_received s @ [m]\<rparr>)"

definition ring_step :: "RingSystem \<Rightarrow> RingSystem \<Rightarrow> bool" where
  "ring_step s s' \<longleftrightarrow> push_step s s' \<or> pop_step s s'"

text \<open>A freshly formatted ring with both sides idle.\<close>

definition ring_start :: "HostId \<Rightarrow> HostId \<Rightarrow> u64 \<Rightarrow> RingSystem" where
  "ring_start producer consumer capacity =
     \<lparr>rs_ring = fresh_queue producer consumer capacity, rs_producer = PIdle, rs_consumer = CIdle,
      rs_sent = [], rs_received = []\<rparr>"

inductive ring_reach :: "HostId \<Rightarrow> HostId \<Rightarrow> u64 \<Rightarrow> RingSystem \<Rightarrow> bool" for p c n where
  start: "ring_reach p c n (ring_start p c n)"
| step: "ring_reach p c n s \<Longrightarrow> ring_step s s' \<Longrightarrow> ring_reach p c n s'"

section \<open>The invariant\<close>

definition has_room :: "SharedSpscQueue \<Rightarrow> u64 \<Rightarrow> bool" where
  "has_room r tail \<longleftrightarrow> tail = sq_tail r \<and> length (contents r) < ring_capacity r"

fun producer_inv :: "SharedSpscQueue \<Rightarrow> ProducerPc \<Rightarrow> bool" where
  "producer_inv r PIdle = True"
| "producer_inv r (PTail m tail) = (valid_message r m \<and> tail = sq_tail r)"
| "producer_inv r (PRoom m tail) = (valid_message r m \<and> has_room r tail)"
| "producer_inv r (PHeader m tail) = (valid_message r m \<and> has_room r tail \<and>
     slot_header (slot_at r tail) = env_header m)"
| "producer_inv r (PPayload m tail) = (valid_message r m \<and> has_room r tail \<and>
     slot_message (slot_at r tail) = m)"
| "producer_inv r (PSequence m tail) = (valid_message r m \<and> has_room r tail \<and>
     slot_message (slot_at r tail) = m \<and> slot_sequence (slot_at r tail) = tail + 1)"
| "producer_inv r PCorrupt = False"

fun consumer_inv :: "SharedSpscQueue \<Rightarrow> ConsumerPc \<Rightarrow> bool" where
  "consumer_inv r CIdle = True"
| "consumer_inv r (CHead head) = (head = sq_head r)"
| "consumer_inv r (CTail head) = (head = sq_head r \<and> contents r \<noteq> [])"
| "consumer_inv r (CSequence head) = (head = sq_head r \<and> contents r \<noteq> [])"
| "consumer_inv r (CHeader head hdr) = (head = sq_head r \<and> contents r \<noteq> [] \<and>
     hdr = env_header (hd (contents r)))"
| "consumer_inv r (CCopied head m) = (head = sq_head r \<and> contents r \<noteq> [] \<and> m = hd (contents r))"
| "consumer_inv r CCorrupt = False"

definition ring_inv :: "RingSystem \<Rightarrow> bool" where
  "ring_inv s \<longleftrightarrow> queue_wf (rs_ring s) \<and>
     rs_received s @ contents (rs_ring s) = rs_sent s \<and>
     unat (sq_tail (rs_ring s)) = length (rs_sent s) \<and>
     producer_inv (rs_ring s) (rs_producer s) \<and> consumer_inv (rs_ring s) (rs_consumer s)"

lemma slot_at_ring_slot: "slot_at r cursor = ring_slot r (unat cursor)"
  by (simp add: slot_at_def ring_slot_def unat_mod)

lemma store_slot_frame [simp]:
  "sq_tail (store_slot i f r) = sq_tail r" "sq_head (store_slot i f r) = sq_head r"
  "sq_identity (store_slot i f r) = sq_identity r" "ring_capacity (store_slot i f r) = ring_capacity r"
  "valid_message (store_slot i f r) m = valid_message r m"
  by (simp_all add: store_slot_def Let_def ring_capacity_def valid_message_def)

text \<open>A store to the free slot at the tail does not disturb the messages in transit.\<close>

lemma store_free_slot:
  assumes wf: "queue_wf r" and room: "has_room r tail"
    and len: "length (slot_payload (f (slot_at r tail))) = kQueuePayloadBytes"
  shows "queue_wf (store_slot tail f r)" "contents (store_slot tail f r) = contents r"
    "slot_at (store_slot tail f r) tail = f (slot_at r tail)"
proof -
  let ?t = "unat tail" and ?h = "unat (sq_head r)" and ?n = "ring_capacity r" and ?r = "store_slot tail f r"
  have t: "tail = sq_tail r" using room by (simp add: has_room_def)
  have slots: "sq_slots ?r = (sq_slots r)[?t mod ?n := f (slot_at r tail)]"
    by (simp add: store_slot_def Let_def unat_mod slot_at_def)
  from wf t have n: "0 < ?n" "length (sq_slots r) = ?n" "?h \<le> ?t" by (auto simp: queue_wf_def)
  have gap: "?t < ?h + ?n"
    using room n contents_length [OF wf] t by (simp add: has_room_def)
  have old: "ring_slot ?r i = ring_slot r i" if "?h \<le> i" "i < ?t" for i
    using ring_positions_distinct [of i ?t ?n] that gap by (simp add: ring_slot_def slots)
  have payloads: "\<forall>slot \<in> set (sq_slots ?r). length (slot_payload slot) = kQueuePayloadBytes"
    using wf len set_update_subset_insert [of "sq_slots r" "?t mod ?n" "f (slot_at r tail)"]
    unfolding slots queue_wf_def by blast
  have live: "live_slot ?r i \<longleftrightarrow> live_slot r i" if "?h \<le> i" "i < ?t" for i
    using old [OF that] by (simp add: live_slot_def)
  have "length (sq_slots ?r) = ?n" by (simp add: slots n)
  then show "queue_wf ?r"
    using wf payloads live t by (auto simp: queue_wf_def)
  show "contents ?r = contents r"
    using old t by (simp add: contents_def)
  show "slot_at ?r tail = f (slot_at r tail)"
    using n by (simp add: slot_at_ring_slot [of ?r] ring_slot_def slots)
qed

lemma publish_tail:
  assumes wf: "queue_wf r" and room: "has_room r tail" and m: "valid_message r m"
    and slot: "slot_message (slot_at r tail) = m" "slot_sequence (slot_at r tail) = tail + 1"
    and seq: "unat tail + 1 < 2 ^ 64"
  shows "queue_wf (r\<lparr>sq_tail := tail + 1\<rparr>)" "contents (r\<lparr>sq_tail := tail + 1\<rparr>) = contents r @ [m]"
    "unat (tail + 1) = unat (sq_tail r) + 1"
proof -
  let ?r = "r\<lparr>sq_tail := tail + 1\<rparr>"
  have t: "tail = sq_tail r" using room by (simp add: has_room_def)
  have tail: "unat (tail + 1) = Suc (unat tail)" using seq by (simp add: unat_word_ariths)
  then show "unat (tail + 1) = unat (sq_tail r) + 1" using t by simp
  have same: "ring_slot ?r i = ring_slot r i" "ring_capacity ?r = ring_capacity r"
    "valid_message ?r x = valid_message r x" "live_slot ?r i = live_slot r i" for i x
    by (simp_all add: ring_slot_def ring_capacity_def valid_message_def live_slot_def)
  have "live_slot r (unat tail)"
    using slot m by (simp add: live_slot_def slot_at_ring_slot)
  then show "queue_wf ?r"
    using wf room contents_length [OF wf] tail t same
    by (auto simp: queue_wf_def has_room_def less_Suc_eq)
  show "contents ?r = contents r @ [m]"
    using wf slot(1) tail t same by (simp add: contents_def queue_wf_def slot_at_ring_slot)
qed

text \<open>What the consumer finds at the head of a well-formed ring that is not empty.\<close>

lemma head_slot:
  assumes wf: "queue_wf r" and ne: "contents r \<noteq> []"
  shows "slot_message (slot_at r (sq_head r)) = hd (contents r)"
    "slot_sequence (slot_at r (sq_head r)) = sq_head r + 1"
    "valid_message r (hd (contents r))"
    "slot_header (slot_at r (sq_head r)) = env_header (hd (contents r))"
    "take (unat (payload_bytes (env_header (hd (contents r))))) (slot_payload (slot_at r (sq_head r))) =
       env_payload (hd (contents r))"
proof -
  have lt: "unat (sq_head r) < unat (sq_tail r)" using ne by (auto simp: contents_def)
  then have live: "live_slot r (unat (sq_head r))" using wf by (simp add: queue_wf_def)
  have hd: "hd (contents r) = slot_message (ring_slot r (unat (sq_head r)))"
    using lt by (simp add: contents_def upt_conv_Cons)
  show "slot_message (slot_at r (sq_head r)) = hd (contents r)"
    "slot_sequence (slot_at r (sq_head r)) = sq_head r + 1" "valid_message r (hd (contents r))"
    "slot_header (slot_at r (sq_head r)) = env_header (hd (contents r))"
    "take (unat (payload_bytes (env_header (hd (contents r))))) (slot_payload (slot_at r (sq_head r))) =
       env_payload (hd (contents r))"
    using live hd by (simp_all add: live_slot_def slot_at_ring_slot slot_message_def)
qed

lemma head_tail_cursors:
  assumes wf: "queue_wf r"
  shows "sq_head r = sq_tail r \<longleftrightarrow> contents r = []"
    "\<not> sq_tail r < sq_head r" "\<not> q_capacity (Some r) < sq_tail r - sq_head r"
    "q_capacity (Some r) \<le> sq_tail r - sq_head r \<longleftrightarrow> ring_capacity r \<le> length (contents r)"
proof -
  note d = cursor_distance [OF wf] contents_length [OF wf]
  show "sq_head r = sq_tail r \<longleftrightarrow> contents r = []"
    using d(2) wf by (auto simp: contents_def queue_wf_def word_less_nat_alt word_le_nat_alt
        intro: order_antisym)
  show "\<not> sq_tail r < sq_head r" by (rule d(2))
  show "\<not> q_capacity (Some r) < sq_tail r - sq_head r"
    using d wf by (simp add: word_less_nat_alt queue_wf_def)
  show "q_capacity (Some r) \<le> sq_tail r - sq_head r \<longleftrightarrow> ring_capacity r \<le> length (contents r)"
    using d by (simp add: word_le_nat_alt)
qed

lemma consumer_inv_append:
  assumes "consumer_inv r pc" and "sq_head r' = sq_head r" and "contents r' = contents r @ ms"
  shows "consumer_inv r' pc"
  using assms by (cases pc) auto

lemma producer_inv_popped:
  assumes "producer_inv r pc" and "contents r = m # contents (popped r)"
  shows "producer_inv (popped r) pc"
proof -
  have "slot_at (popped r) i = slot_at r i" "valid_message (popped r) x = valid_message r x"
    "sq_tail (popped r) = sq_tail r" "ring_capacity (popped r) = ring_capacity r" for i x
    by (simp_all add: popped_def slot_at_def valid_message_def ring_capacity_def q_capacity_def)
  moreover have "length (contents (popped r)) < length (contents r)" using assms(2) by simp
  ultimately show ?thesis
    using assms(1) by (cases pc) (auto simp: has_room_def)
qed

lemma push_step_inv:
  assumes "push_step s s'" and inv: "ring_inv s" and bound: "length (rs_sent s') < 2 ^ 64"
  shows "ring_inv s'"
proof -
  from inv have wf: "queue_wf (rs_ring s)" and cons: "consumer_inv (rs_ring s) (rs_consumer s)"
    and prod: "producer_inv (rs_ring s) (rs_producer s)"
    by (auto simp: ring_inv_def)
  note keep = consumer_inv_append [OF cons, where ms = "[]"] consumer_inv_append [OF cons]
  have plen: "length (slot_payload (slot_at (rs_ring s) i)) = kQueuePayloadBytes" for i
    using wf ring_index_bound [OF wf, of "unat i"]
    by (auto simp: queue_wf_def slot_at_ring_slot ring_slot_def)
  note cursors = head_tail_cursors [OF wf]
  show ?thesis
    using assms(1)
  proof cases
    case (store_header m tail)
    have "length (slot_payload (write_header m (slot_at (rs_ring s) tail))) = kQueuePayloadBytes"
      by (simp add: write_header_def plen)
    note st = store_free_slot [where f = "write_header m", OF wf _ this]
    show ?thesis
      using inv prod store_header st keep
      by (auto simp: ring_inv_def has_room_def write_header_def)
  next
    case (store_payload m tail)
    have m: "length (env_payload m) \<le> kQueuePayloadBytes"
      "unat (payload_bytes (env_header m)) = length (env_payload m)"
      using prod store_payload by (auto simp: valid_message_def)
    then have "length (slot_payload (write_payload m (slot_at (rs_ring s) tail))) = kQueuePayloadBytes"
      by (simp add: write_payload_def plen)
    note st = store_free_slot [where f = "write_payload m", OF wf _ this]
    show ?thesis
      using inv prod store_payload st keep m
      by (auto simp: ring_inv_def has_room_def write_payload_def slot_message_def)
  next
    case (store_sequence m tail)
    have "length (slot_payload ((slot_at (rs_ring s) tail)\<lparr>slot_sequence := tail + 1\<rparr>)) = kQueuePayloadBytes"
      by (simp add: plen)
    note st = store_free_slot [where f = "slot_sequence_update (\<lambda>_. tail + 1)", OF wf _ this]
    show ?thesis
      using inv prod store_sequence st keep
      by (auto simp: ring_inv_def has_room_def slot_message_def)
  next
    case (store_tail m tail)
    have "unat tail + 1 < 2 ^ 64"
      using inv prod store_tail bound by (auto simp: ring_inv_def has_room_def)
    note pt = publish_tail [OF wf _ _ _ _ this]
    show ?thesis
      using inv prod store_tail pt keep(2) by (auto simp: ring_inv_def)
  qed (use inv prod cursors in \<open>auto simp: ring_inv_def has_room_def\<close>)
qed

lemma pop_step_inv:
  assumes "pop_step s s'" and inv: "ring_inv s"
  shows "ring_inv s'"
proof -
  from inv have wf: "queue_wf (rs_ring s)" and cons: "consumer_inv (rs_ring s) (rs_consumer s)"
    and prod: "producer_inv (rs_ring s) (rs_producer s)"
    by (auto simp: ring_inv_def)
  note cursors = head_tail_cursors [OF wf]
  show ?thesis
    using assms(1)
  proof cases
    case (message_corrupt head hdr)
    then show ?thesis
      using cons head_slot(3,4) [OF wf] by (auto simp: valid_message_def)
  next
    case (copy_header head hdr)
    then show ?thesis
      using inv cons head_slot(4,5) [OF wf] by (auto simp: ring_inv_def)
  next
    case (copy_payload head hdr)
    then show ?thesis
      using inv cons head_slot(4,5) [OF wf] by (auto simp: ring_inv_def)
  next
    case (store_head head m)
    then obtain ms where c: "contents (rs_ring s) = m # ms" and h: "head = sq_head (rs_ring s)"
      using cons by (cases "contents (rs_ring s)") auto
    note p = popped_wf [OF wf c]
    have "producer_inv (popped (rs_ring s)) (rs_producer s)"
      using producer_inv_popped [OF prod] p c by simp
    then show ?thesis
      using inv store_head p c h by (auto simp: ring_inv_def popped_def)
  qed (use inv cons cursors head_slot [OF wf] in \<open>auto simp: ring_inv_def\<close>)
qed

section \<open>The ring as a channel between two hosts\<close>

lemma ring_step_sent: "ring_step s s' \<Longrightarrow> length (rs_sent s) \<le> length (rs_sent s')"
  by (auto simp: ring_step_def elim!: push_step.cases pop_step.cases)

lemma ring_start_inv: "n \<noteq> 0 \<Longrightarrow> n \<le> ucast UINT32_MAX \<Longrightarrow> ring_inv (ring_start p c n)"
  using fresh_queue_wf [of n p c] by (simp add: ring_inv_def ring_start_def) (simp add: fresh_queue_def)

lemma ring_reach_inv:
  assumes "ring_reach p c n s" and "n \<noteq> 0" and "n \<le> ucast UINT32_MAX" and "length (rs_sent s) < 2 ^ 64"
  shows "ring_inv s \<and> ring_capacity (rs_ring s) = unat n"
  using assms
proof (induction rule: ring_reach.induct)
  case start
  then show ?case using ring_start_inv [OF assms(2,3)] fresh_queue_wf(3) [OF assms(2,3)]
    by (simp add: ring_start_def)
next
  case (step s s')
  then have inv: "ring_inv s" "ring_capacity (rs_ring s) = unat n"
    using ring_step_sent [OF step.hyps(2)] by (auto intro: le_less_trans)
  moreover have "ring_capacity (rs_ring s') = ring_capacity (rs_ring s)"
    using step.hyps(2) by (auto simp: ring_step_def ring_capacity_def elim!: push_step.cases pop_step.cases)
  ultimately show ?case
    using step.hyps(2) step.prems push_step_inv pop_step_inv by (auto simp: ring_step_def)
qed

text \<open>
  C9. Whatever the interleaving of the producer's and the consumer's loads and stores, a ring that
  starts freshly formatted is a bounded first-in first-out channel until its 64-bit sequence
  numbers run out: the messages received followed by the messages in transit are exactly the
  messages sent, in order; the capacity is respected; a message the consumer has copied is the
  next one sent, whole; and neither side ever takes a branch that reports corruption.
\<close>

theorem ring_fifo_interleaved:
  assumes "ring_reach p c n s" and "n \<noteq> 0" and "n \<le> ucast UINT32_MAX" and "length (rs_sent s) < 2 ^ 64"
  shows "rs_received s @ contents (rs_ring s) = rs_sent s \<and>
    length (contents (rs_ring s)) \<le> unat n \<and>
    (\<forall>head m. rs_consumer s = CCopied head m \<longrightarrow> m = rs_sent s ! length (rs_received s)) \<and>
    rs_producer s \<noteq> PCorrupt \<and> rs_consumer s \<noteq> CCorrupt"
proof -
  from ring_reach_inv [OF assms] have inv: "ring_inv s" and cap: "ring_capacity (rs_ring s) = unat n" by auto
  have "length (contents (rs_ring s)) \<le> unat n"
    using inv cap contents_length unfolding ring_inv_def queue_wf_def by metis
  moreover have "m = rs_sent s ! length (rs_received s)" if "rs_consumer s = CCopied head m" for head m
    using inv that by (auto simp: ring_inv_def hd_conv_nth nth_append dest!: sym [of _ "rs_sent s"])
  ultimately show ?thesis
    using inv by (auto simp: ring_inv_def)
qed


text \<open>A run of one message through a ring, by the two operations' steps.\<close>

definition sample_sent :: RingSystem where
  "sample_sent = (ring_start 0 1 4)\<lparr>rs_ring := pushed (fresh_queue 0 1 4) sample_message,
     rs_sent := [sample_message]\<rparr>"

lemma sample_push:
  "Push \<lparr>is_x86 = True, has_clwb = False\<rparr> \<lparr>qh_local_host = 0, qh_mode = kReleaseAcquire\<rparr>
     (Some (fresh_queue 0 1 4)) sample_message = (kOk, Some (pushed (fresh_queue 0 1 4) sample_message))"
proof -
  have "valid_message (fresh_queue 0 1 4) sample_message" "ring_capacity (fresh_queue 0 1 4) = 4"
    "qid_producer (sq_identity (fresh_queue 0 1 4)) = 0"
    by (simp_all add: valid_message_def fresh_queue_def sample_message_def kQueuePayloadBytes_def
        ring_capacity_def)
  then show ?thesis
    using Push_eq [OF sample_ring(1), of "\<lparr>is_x86 = True, has_clwb = False\<rparr>"
        "\<lparr>qh_local_host = 0, qh_mode = kReleaseAcquire\<rparr>" sample_message]
    by (simp add: ValidateVisibilityMode_def sample_ring(2) producer_handle_def)
qed

lemma sample_start: "queue_wf (rs_ring (ring_start 0 1 4))" "rs_producer (ring_start 0 1 4) = PIdle"
  "rs_consumer (ring_start 0 1 4) = CIdle" "rs_ring (ring_start 0 1 4) = fresh_queue 0 1 4"
  "rs_sent (ring_start 0 1 4) = []" "rs_received (ring_start 0 1 4) = []"
  by (simp_all add: ring_start_def sample_ring)


lemma ring_reach_steps: "ring_step\<^sup>*\<^sup>* s s' \<Longrightarrow> ring_reach p c n s \<Longrightarrow> ring_reach p c n s'"
  by (induction rule: rtranclp_induct) (auto intro: ring_reach.step)

theorem ring_fifo_interleaved_witness:
  "\<exists>s. ring_reach 0 1 4 s \<and> rs_producer s = PRoom sample_message 0 \<and>
     rs_received s @ contents (rs_ring s) = []"
proof -
  let ?s0 = "ring_start 0 1 4"
  let ?s1 = "?s0\<lparr>rs_producer := PTail sample_message 0\<rparr>"
  let ?s2 = "?s0\<lparr>rs_producer := PRoom sample_message 0\<rparr>"
  have "push_step ?s0 ?s1"
    using push_step.load_tail [of ?s0 sample_message]
    by (simp add: sample_start) (simp add: fresh_queue_def sample_message_def valid_message_def
        kQueuePayloadBytes_def)
  moreover have "push_step ?s1 ?s2"
    using push_step.load_head [of ?s1 sample_message 0]
    by (simp add: sample_start) (simp add: fresh_queue_def q_capacity_def)
  ultimately have reach: "ring_reach 0 1 4 ?s2"
    by (meson ring_reach.start ring_reach.step ring_step_def)
  have "rs_received ?s2 @ contents (rs_ring ?s2) = []"
    using ring_fifo_interleaved [OF reach] by (simp add: sample_start)
  with reach show ?thesis by (intro exI [of _ ?s2]) simp
qed

end
