(* ===== verification/Cx_Poller.thy ===== *)
theory Cx_Poller
  imports Cx_Queue
begin

text \<open>
  The queue poller (\<^verbatim>\<open>include/cxloom/loommem/poller.h\<close>, \<^verbatim>\<open>src/loommem/poller.cpp\<close>): the thread
  that drains a host's inbound rings in bounded batches, round robin, into a message handler.

  The inbound queues are addresses of queue objects (\<open>None\<close> is the null pointer), so that the
  duplicate test of \<^verbatim>\<open>Start\<close> is a test on addresses; the objects live in a store.  The handler and
  the progress callback are arguments of the definitions, functions on a state of their own; an
  exception of the handler is an outcome of its call.  The CPU affinity mask and the result of
  binding the thread are arguments of \<^verbatim>\<open>Start\<close>.  A stop request of another thread is an argument of
  the scan: it says after which queue of the scan the flag is seen cleared.
\<close>

section \<open>State\<close>

record QueuePollerOptions =
  cpu_id :: int
  batch_size :: u64
  spin_rounds :: u32
  yield_rounds :: u32
  idle_sleep_us :: u32

record QueuePollerStats =
  scans :: u64
  empty_scans :: u64
  messages :: u64
  batches :: u64
  yields :: u64
  sleeps :: u64

text \<open>A queue object: the handle's host and mode, and the ring it is attached to.\<close>

record SpscQueueObject =
  qo_handle :: QueueHandle
  qo_ring :: "SharedSpscQueue option"

datatype HandlerOutcome = Returned Status | Threw

record 'h QueuePoller =
  qp_local_host :: HostId
  qp_inbound :: "u64 option list"
  qp_options :: QueuePollerOptions
  qp_queues :: "u64 \<Rightarrow> SpscQueueObject"
  qp_handler_state :: 'h
  qp_worker_joinable :: bool
  qp_running :: bool
  qp_start_gate :: bool
  qp_next_queue :: u64
  qp_bound_cpu :: int
  qp_stats :: QueuePollerStats
  qp_terminal_status :: Status

definition CPU_SETSIZE :: nat where
  "CPU_SETSIZE = 1024"

section \<open>Operations\<close>

definition SelectCpu :: "QueuePollerOptions \<Rightarrow> (nat \<Rightarrow> bool) option \<Rightarrow> int Result" where
  "SelectCpu options affinity =
     (case affinity of
        None \<Rightarrow> Inl kInternal
      | Some allowed \<Rightarrow>
          if 0 \<le> cpu_id options
          then (if int CPU_SETSIZE \<le> cpu_id options \<or> \<not> allowed (nat (cpu_id options))
                then Inl kInvalidArgument else Inr (cpu_id options))
          else (case find allowed [0..<CPU_SETSIZE] of
                  None \<Rightarrow> Inl kFailedPrecondition
                | Some cpu \<Rightarrow> Inr (int cpu)))"

text \<open>The loop of \<^verbatim>\<open>Start\<close> over the inbound queues, with the set of addresses seen so far.\<close>

fun inbound_ok :: "(u64 \<Rightarrow> SpscQueueObject) \<Rightarrow> HostId \<Rightarrow> u64 list \<Rightarrow> u64 option list \<Rightarrow> bool" where
  "inbound_ok queues host seen [] = True"
| "inbound_ok queues host seen (None # qs) = False"
| "inbound_ok queues host seen (Some a # qs) =
     (q_consumer (qo_ring (queues a)) = host \<and> a \<notin> set seen \<and> inbound_ok queues host (a # seen) qs)"

definition zero_stats :: QueuePollerStats where
  "zero_stats = \<lparr>scans = 0, empty_scans = 0, messages = 0, batches = 0, yields = 0, sleeps = 0\<rparr>"

definition Start :: "bool \<Rightarrow> (nat \<Rightarrow> bool) option \<Rightarrow> bool \<Rightarrow> 'h QueuePoller \<Rightarrow> Status \<times> 'h QueuePoller" where
  "Start has_handler affinity bind_ok p =
     (if qp_running p \<or> qp_worker_joinable p then (kAlreadyExists, p)
      else if \<not> has_handler then (kInvalidArgument, p)
      else if qp_inbound p = [] then (kInvalidArgument, p)
      else if batch_size (qp_options p) = 0 then (kInvalidArgument, p)
      else if \<not> inbound_ok (qp_queues p) (qp_local_host p) [] (qp_inbound p) then (kInvalidArgument, p)
      else (case SelectCpu (qp_options p) affinity of
              Inl st \<Rightarrow> (st, p)
            | Inr cpu \<Rightarrow>
                let p1 = p\<lparr>qp_bound_cpu := cpu, qp_terminal_status := kOk, qp_next_queue := 0,
                           qp_stats := zero_stats, qp_start_gate := False, qp_running := True,
                           qp_worker_joinable := True\<rparr>
                in if \<not> bind_ok
                   then (kInternal, p1\<lparr>qp_running := False, qp_start_gate := True,
                                       qp_worker_joinable := False\<rparr>)
                   else (kOk, p1\<lparr>qp_start_gate := True\<rparr>)))"

definition Stop :: "bool \<Rightarrow> 'h QueuePoller \<Rightarrow> Status \<times> 'h QueuePoller" where
  "Stop from_worker p =
     (let p1 = p\<lparr>qp_running := False, qp_start_gate := True\<rparr> in
      if qp_worker_joinable p1
      then (if from_worker then (kFailedPrecondition, p1)
            else (qp_terminal_status p1, p1\<lparr>qp_worker_joinable := False\<rparr>))
      else (qp_terminal_status p1, p1))"

definition RecordTerminalStatus :: "Status \<Rightarrow> 'h QueuePoller \<Rightarrow> 'h QueuePoller" where
  "RecordTerminalStatus status p =
     (if qp_terminal_status p = kOk then p\<lparr>qp_terminal_status := status\<rparr> else p)"

text \<open>The handler call inside the \<^verbatim>\<open>try\<close> block: an exception ends as an internal error.\<close>

definition guarded :: "('m \<Rightarrow> 'h \<Rightarrow> HandlerOutcome \<times> 'h) \<Rightarrow> 'm \<Rightarrow> 'h \<Rightarrow> Status \<times> 'h" where
  "guarded handler m h =
     (case handler m h of (Returned st, h') \<Rightarrow> (st, h') | (Threw, h') \<Rightarrow> (kInternal, h'))"

definition object_pop :: "Cpu \<Rightarrow> SpscQueueObject \<Rightarrow> Status \<times> QueueEnvelope option \<times> SpscQueueObject" where
  "object_pop cpu q =
     (case TryPop cpu (qo_handle q) (qo_ring q) of (st, m, r) \<Rightarrow> (st, m, q\<lparr>qo_ring := r\<rparr>))"

definition count_messages :: "nat \<Rightarrow> 'h QueuePoller \<Rightarrow> 'h QueuePoller" where
  "count_messages k p = p\<lparr>qp_stats := (qp_stats p)\<lparr>messages := messages (qp_stats p) + of_nat k\<rparr>\<rparr>"

definition count_batch :: "'h QueuePoller \<Rightarrow> 'h QueuePoller" where
  "count_batch p = p\<lparr>qp_stats := (qp_stats p)\<lparr>batches := batches (qp_stats p) + 1\<rparr>\<rparr>"

text \<open>
  The body of the scan for the queues still to visit, each with the offset it is visited at.  The
  first component of the result is true when the scan returned from inside the loop.
\<close>

fun scan_queues :: "Cpu \<Rightarrow> (QueueEnvelope \<Rightarrow> 'h \<Rightarrow> HandlerOutcome \<times> 'h) \<Rightarrow> (nat \<Rightarrow> bool) \<Rightarrow>
    (nat \<times> u64) list \<Rightarrow> bool \<Rightarrow> 'h QueuePoller \<Rightarrow> bool \<times> bool \<times> 'h QueuePoller" where
  "scan_queues cpu handler stop [] progressed p = (False, progressed, p)"
| "scan_queues cpu handler stop ((offset, a) # rest) progressed p =
     (case drain (object_pop cpu) (guarded handler) (unat (batch_size (qp_options p)))
             (qp_queues p a) (qp_handler_state p) of
        (k, r, q, h) \<Rightarrow>
          let p1 = count_messages k (p\<lparr>qp_queues := (qp_queues p)(a := q), qp_handler_state := h\<rparr>);
              progressed1 = (progressed \<or> k \<noteq> 0)
          in (case r of
                HandlerFailed st \<Rightarrow> (True, True, (RecordTerminalStatus st p1)\<lparr>qp_running := False\<rparr>)
              | _ \<Rightarrow>
                  let p2 = (case r of
                              PopFailed st \<Rightarrow> (RecordTerminalStatus st p1)\<lparr>qp_running := False\<rparr>
                            | _ \<Rightarrow> p1);
                      p3 = (if k \<noteq> 0 then count_batch p2 else p2);
                      p4 = (if stop offset then p3\<lparr>qp_running := False\<rparr> else p3)
                  in if \<not> qp_running p4 then (False, progressed1, p4)
                     else scan_queues cpu handler stop rest progressed1 p4))"

definition scan_order :: "'h QueuePoller \<Rightarrow> (nat \<times> u64) list" where
  "scan_order p = (let n = length (qp_inbound p) in
     map (\<lambda>offset. (offset, the (qp_inbound p ! ((unat (qp_next_queue p) + offset) mod n)))) [0..<n])"

definition ScanOnce :: "Cpu \<Rightarrow> (QueueEnvelope \<Rightarrow> 'h \<Rightarrow> HandlerOutcome \<times> 'h) \<Rightarrow> (nat \<Rightarrow> bool) \<Rightarrow>
    'h QueuePoller \<Rightarrow> bool \<times> 'h QueuePoller" where
  "ScanOnce cpu handler stop p =
     (case scan_queues cpu handler stop (scan_order p) False p of
        (returned, progressed, p') \<Rightarrow>
          if returned then (True, p')
          else (progressed, p'\<lparr>qp_next_queue := (qp_next_queue p + 1) mod of_nat (length (qp_inbound p))\<rparr>))"

text \<open>What an idle round does: the back-off from spinning over yielding to sleeping.\<close>

definition back_off :: "u64 \<Rightarrow> 'h QueuePoller \<Rightarrow> 'h QueuePoller" where
  "back_off idle_rounds p =
     (if idle_rounds \<le> ucast (spin_rounds (qp_options p)) then p
      else if idle_rounds \<le> ucast (spin_rounds (qp_options p)) + ucast (yield_rounds (qp_options p))
      then p\<lparr>qp_stats := (qp_stats p)\<lparr>yields := yields (qp_stats p) + 1\<rparr>\<rparr>
      else p\<lparr>qp_stats := (qp_stats p)\<lparr>sleeps := sleeps (qp_stats p) + 1\<rparr>\<rparr>)"

text \<open>
  One iteration of the loop of \<^verbatim>\<open>Run\<close> and the loop itself, at most as many rounds as the list of
  stop schedules is long; \<open>None\<close> is a poller constructed without a progress callback.
\<close>

definition poll_round :: "Cpu \<Rightarrow> (QueueEnvelope \<Rightarrow> 'h \<Rightarrow> HandlerOutcome \<times> 'h) \<Rightarrow>
    ('h \<Rightarrow> Status \<times> 'h) option \<Rightarrow> (nat \<Rightarrow> bool) \<Rightarrow> u64 \<times> 'h QueuePoller \<Rightarrow> u64 \<times> 'h QueuePoller" where
  "poll_round cpu handler progress stop idle_p =
     (let (idle, p) = idle_p;
          p0 = p\<lparr>qp_stats := (qp_stats p)\<lparr>scans := scans (qp_stats p) + 1\<rparr>\<rparr>;
          (progressed, p1) = ScanOnce cpu handler stop p0;
          (failed, p2) =
            (case progress of
               None \<Rightarrow> (False, p1)
             | Some f \<Rightarrow>
                 if \<not> qp_running p1 then (False, p1)
                 else (case f (qp_handler_state p1) of
                         (st, h) \<Rightarrow>
                           let p' = p1\<lparr>qp_handler_state := h\<rparr> in
                           if st \<noteq> kOk then (True, (RecordTerminalStatus st p')\<lparr>qp_running := False\<rparr>)
                           else (False, p')))
      in if failed then (idle, p2)
         else if progressed then (0, p2)
         else (idle + 1, back_off (idle + 1)
                 (p2\<lparr>qp_stats := (qp_stats p2)\<lparr>empty_scans := empty_scans (qp_stats p2) + 1\<rparr>\<rparr>)))"

fun Run :: "Cpu \<Rightarrow> (QueueEnvelope \<Rightarrow> 'h \<Rightarrow> HandlerOutcome \<times> 'h) \<Rightarrow> ('h \<Rightarrow> Status \<times> 'h) option \<Rightarrow>
    (nat \<Rightarrow> bool) list \<Rightarrow> u64 \<times> 'h QueuePoller \<Rightarrow> u64 \<times> 'h QueuePoller" where
  "Run cpu handler progress [] idle_p = idle_p"
| "Run cpu handler progress (stop # stops) idle_p =
     (if qp_running (snd idle_p)
      then Run cpu handler progress stops (poll_round cpu handler progress stop idle_p)
      else idle_p)"

section \<open>Inbound queues as channels\<close>

definition object_contents :: "SpscQueueObject \<Rightarrow> QueueEnvelope list" where
  "object_contents q = (case qo_ring q of None \<Rightarrow> [] | Some s \<Rightarrow> contents s)"

text \<open>A queue object of the consuming host, attached to a well-formed ring.\<close>

definition object_wf :: "Cpu \<Rightarrow> SpscQueueObject \<Rightarrow> bool" where
  "object_wf cpu q \<longleftrightarrow>
     (case qo_ring q of
        None \<Rightarrow> False
      | Some s \<Rightarrow> queue_wf s \<and> consumer_handle s (qo_handle q)) \<and>
     ValidateVisibilityMode cpu (qh_mode (qo_handle q)) = kOk"

definition object_capacity :: "SpscQueueObject \<Rightarrow> nat" where
  "object_capacity q = unat (q_capacity (qo_ring q))"

definition object_sequences_left :: "SpscQueueObject \<Rightarrow> nat" where
  "object_sequences_left q = (case qo_ring q of None \<Rightarrow> 0 | Some s \<Rightarrow> sequences_left s)"

definition object_valid_message :: "SpscQueueObject \<Rightarrow> QueueEnvelope \<Rightarrow> bool" where
  "object_valid_message q m \<longleftrightarrow> (case qo_ring q of None \<Rightarrow> False | Some s \<Rightarrow> valid_message s m)"

text \<open>A push to the same ring through the producer's queue object.\<close>

definition object_push :: "Cpu \<Rightarrow> SpscQueueObject \<Rightarrow> QueueEnvelope \<Rightarrow> Status \<times> SpscQueueObject" where
  "object_push cpu q m =
     (case Push cpu \<lparr>qh_local_host = q_producer (qo_ring q), qh_mode = qh_mode (qo_handle q)\<rparr> (qo_ring q) m of
        (st, r) \<Rightarrow> (st, q\<lparr>qo_ring := r\<rparr>))"

lemmas object_defs = object_contents_def object_wf_def object_capacity_def object_sequences_left_def
  object_valid_message_def

lemma object_push_eq:
  assumes "object_wf cpu q" and "object_valid_message q m" and "qo_ring q = Some s"
  shows "object_push cpu q m =
    (if length (contents s) = ring_capacity s then (kUnavailable, q)
     else (kOk, q\<lparr>qo_ring := Some (pushed s m)\<rparr>))"
proof -
  from assms have "queue_wf s" "valid_message s m" "ValidateVisibilityMode cpu (qh_mode (qo_handle q)) = kOk"
    by (simp_all add: object_defs)
  then show ?thesis
    using Push_eq [of s cpu "\<lparr>qh_local_host = qid_producer (sq_identity s), qh_mode = qh_mode (qo_handle q)\<rparr>" m]
      assms(3)
    by (cases q) (simp add: object_push_def producer_handle_def)
qed

lemma object_pop_eq:
  assumes "object_wf cpu q" and "qo_ring q = Some s"
  shows "object_pop cpu q =
    (case contents s of [] \<Rightarrow> (kOk, None, q) | m # _ \<Rightarrow> (kOk, Some m, q\<lparr>qo_ring := Some (popped s)\<rparr>))"
  using TryPop_eq [of s cpu "qo_handle q"] assms
  by (cases q) (auto simp: object_pop_def object_wf_def split: list.splits)

interpretation inbound: fifo_channel "object_wf cpu" object_contents object_capacity object_sequences_left
  object_valid_message "object_push cpu" "object_pop cpu" for cpu
proof unfold_locales
  fix q m
  assume wf: "object_wf cpu q"
  then obtain s where s: "qo_ring q = Some s" "queue_wf s" by (auto simp: object_wf_def split: option.splits)
  show "length (object_contents q) \<le> object_capacity q"
    using ring.within_bound [OF s(2)] s(1) by (simp add: object_defs)
  assume adm: "object_valid_message q m"
  then have vm: "valid_message s m" using s(1) by (simp add: object_valid_message_def)
  note push = object_push_eq [OF wf adm s(1)]
  show "object_push cpu q m = (kUnavailable, q)" if "length (object_contents q) = object_capacity q"
    using push that s(1) by (simp add: object_defs)
  assume room: "length (object_contents q) < object_capacity q" "0 < object_sequences_left q"
  then have room': "length (contents s) < ring_capacity s" "0 < sequences_left s"
    using s(1) by (simp_all add: object_defs)
  then have seq: "unat (sq_tail s) + 1 < 2 ^ 64" by (simp add: sequences_left_def)
  from ring.push_room [OF s(2) vm room', of undefined] producer_push_eq [OF s(2) vm, of undefined] room'(1)
  have pw: "queue_wf (pushed s m)" "contents (pushed s m) = contents s @ [m]"
    "sequences_left (pushed s m) = sequences_left s - 1" by auto
  show "\<exists>q'. object_push cpu q m = (kOk, q') \<and> object_wf cpu q' \<and> object_contents q' = object_contents q @ [m] \<and>
      object_capacity q' = object_capacity q \<and> object_sequences_left q' = object_sequences_left q - 1 \<and>
      object_valid_message q' = object_valid_message q"
    using push room' wf s(1) pw
    by (auto simp: object_defs consumer_handle_def pushed_frame fun_eq_iff)
next
  fix q assume wf: "object_wf cpu q"
  then obtain s where s: "qo_ring q = Some s" "queue_wf s" by (auto simp: object_wf_def split: option.splits)
  note pop = object_pop_eq [OF wf s(1)]
  show "object_pop cpu q = (kOk, None, q)" if "object_contents q = []"
    using pop that s(1) by (simp add: object_contents_def)
  fix m ms assume c: "object_contents q = m # ms"
  then have c': "contents s = m # ms" using s(1) by (simp add: object_contents_def)
  show "\<exists>q'. object_pop cpu q = (kOk, Some m, q') \<and> object_wf cpu q' \<and> object_contents q' = ms \<and>
      object_capacity q' = object_capacity q \<and> object_sequences_left q' = object_sequences_left q \<and>
      object_valid_message q' = object_valid_message q"
    using pop c' popped_wf [OF s(2) c'] wf s(1)
    by (auto simp: object_defs consumer_handle_def popped_frame fun_eq_iff sequences_left_def)
qed

section \<open>One scan\<close>

definition batch_of :: "'h QueuePoller \<Rightarrow> u64 \<Rightarrow> QueueEnvelope list" where
  "batch_of p a = take (unat (batch_size (qp_options p))) (object_contents (qp_queues p a))"

text \<open>The messages a scan that visits these queues offers to the handler, in order.\<close>

definition scan_batch :: "'h QueuePoller \<Rightarrow> (nat \<times> u64) list \<Rightarrow> QueueEnvelope list" where
  "scan_batch p order = concat (map (\<lambda>(_, a). batch_of p a) order)"

text \<open>A poller in the state \<^verbatim>\<open>Start\<close> leaves it in, with inbound queues that validated.\<close>

definition poller_ready :: "Cpu \<Rightarrow> 'h QueuePoller \<Rightarrow> bool" where
  "poller_ready cpu p \<longleftrightarrow> qp_inbound p \<noteq> [] \<and> None \<notin> set (qp_inbound p) \<and> distinct (qp_inbound p) \<and>
     (\<forall>a. Some a \<in> set (qp_inbound p) \<longrightarrow> object_wf cpu (qp_queues p a)) \<and>
     batch_size (qp_options p) \<noteq> 0 \<and> unat (qp_next_queue p) < length (qp_inbound p) \<and>
     length (qp_inbound p) < 2 ^ 64"

lemma run_handler_append:
  "run_handler f (xs @ ys) h =
     (case run_handler f xs h of
        (k, st, h') \<Rightarrow> if st \<noteq> kOk then (k, st, h')
                       else (case run_handler f ys h' of (j, st', h'') \<Rightarrow> (k + j, st', h'')))"
  by (induction xs arbitrary: h) (auto split: prod.splits)

lemma run_handler_length: "run_handler f ms h = (k, kOk, h') \<Longrightarrow> k = length ms"
  by (induction ms arbitrary: h k h') (auto split: prod.splits if_splits)

lemma run_handler_stop: "run_handler f ms h = (k, st, h') \<Longrightarrow> st \<noteq> kOk \<Longrightarrow> k < length ms"
  by (induction ms arbitrary: h k h') (auto split: prod.splits if_splits)

lemma poller_frames [simp]:
  "qp_running (count_messages k p) = qp_running p" "qp_terminal_status (count_messages k p) = qp_terminal_status p"
  "qp_options (count_messages k p) = qp_options p" "qp_queues (count_messages k p) = qp_queues p"
  "qp_handler_state (count_messages k p) = qp_handler_state p" "qp_inbound (count_messages k p) = qp_inbound p"
  "qp_next_queue (count_messages k p) = qp_next_queue p" "qp_local_host (count_messages k p) = qp_local_host p"
  "qp_running (count_batch p) = qp_running p" "qp_terminal_status (count_batch p) = qp_terminal_status p"
  "qp_options (count_batch p) = qp_options p" "qp_queues (count_batch p) = qp_queues p"
  "qp_handler_state (count_batch p) = qp_handler_state p" "qp_inbound (count_batch p) = qp_inbound p"
  "qp_next_queue (count_batch p) = qp_next_queue p" "qp_local_host (count_batch p) = qp_local_host p"
  "qp_options (RecordTerminalStatus st p) = qp_options p" "qp_queues (RecordTerminalStatus st p) = qp_queues p"
  "qp_handler_state (RecordTerminalStatus st p) = qp_handler_state p"
  "qp_inbound (RecordTerminalStatus st p) = qp_inbound p"
  "qp_next_queue (RecordTerminalStatus st p) = qp_next_queue p"
  "qp_stats (RecordTerminalStatus st p) = qp_stats p"
  by (simp_all add: count_messages_def count_batch_def RecordTerminalStatus_def)

text \<open>
  A scan is one run of the handler over the batches of the queues in scan order: what is handled,
  how it ends, and what stays in every queue.
\<close>

definition scanned :: "(QueueEnvelope \<Rightarrow> 'h \<Rightarrow> HandlerOutcome \<times> 'h) \<Rightarrow> Cpu \<Rightarrow> (nat \<times> u64) list \<Rightarrow>
    'h QueuePoller \<Rightarrow> bool \<times> 'h QueuePoller \<Rightarrow> bool" where
  "scanned handler cpu order p rp \<longleftrightarrow>
     (case run_handler (guarded handler) (scan_batch p order) (qp_handler_state p) of
        (k, st, h) \<Rightarrow> case rp of (returned, p') \<Rightarrow>
          qp_handler_state p' = h \<and> returned = (st \<noteq> kOk) \<and> qp_running p' = (st = kOk) \<and>
          qp_terminal_status p' = (if qp_terminal_status p = kOk then st else qp_terminal_status p) \<and>
          messages (qp_stats p') = messages (qp_stats p) + of_nat k \<and>
          (\<forall>a \<in> snd ` set order. object_wf cpu (qp_queues p' a) \<and>
             (\<exists>j \<le> unat (batch_size (qp_options p)).
                object_contents (qp_queues p' a) = drop j (object_contents (qp_queues p a)) \<and>
                (st = kOk \<longrightarrow> j = unat (batch_size (qp_options p))))) \<and>
          (\<forall>a. a \<notin> snd ` set order \<longrightarrow> qp_queues p' a = qp_queues p a) \<and>
          qp_inbound p' = qp_inbound p \<and> qp_options p' = qp_options p \<and>
          qp_next_queue p' = qp_next_queue p)"

lemma scan_queues_scanned:
  assumes "\<forall>a \<in> snd ` set order. object_wf cpu (qp_queues p a)" and "distinct (map snd order)"
    and "qp_running p" and "scan_queues cpu handler (\<lambda>_. False) order progressed p = (returned, b, p')"
  shows "scanned handler cpu order p (returned, p') \<and>
    b = (progressed \<or> returned \<or> scan_batch p order \<noteq> [])"
  using assms
proof (induction order arbitrary: p progressed)
  case Nil
  then show ?case by (simp add: scanned_def scan_batch_def)
next
  case (Cons oa order)
  obtain offset a where oa: "oa = (offset, a)" by (cases oa)
  let ?B = "unat (batch_size (qp_options p))" and ?f = "guarded handler"
  have wfa: "object_wf cpu (qp_queues p a)" using Cons.prems(1) oa by simp
  obtain k r q h where d: "drain (object_pop cpu) ?f ?B (qp_queues p a) (qp_handler_state p) = (k, r, q, h)"
    by (cases "drain (object_pop cpu) ?f ?B (qp_queues p a) (qp_handler_state p)")
  from inbound.drain_spec [OF wfa d] obtain st where
    st: "run_handler ?f (batch_of p a) (qp_handler_state p) = (k, st, h)" "object_wf cpu q" "k \<le> ?B"
      "st = kOk \<longrightarrow> object_contents q = drop k (object_contents (qp_queues p a)) \<and>
         r = (if k = ?B then BatchFull else NoMessage) \<and> k = min ?B (length (object_contents (qp_queues p a)))"
      "st \<noteq> kOk \<longrightarrow> object_contents q = drop (Suc k) (object_contents (qp_queues p a)) \<and> r = HandlerFailed st"
    unfolding batch_of_def by blast
  let ?p1 = "count_messages k (p\<lparr>qp_queues := (qp_queues p)(a := q), qp_handler_state := h\<rparr>)"
  have na: "a \<notin> snd ` set order" using Cons.prems(2) oa by (force simp: image_iff)
  have sb: "scan_batch p ((offset, a) # order) = batch_of p a @ scan_batch p order"
    by (simp add: scan_batch_def)
  show ?case
  proof (cases "st = kOk")
    case False
    have lt: "Suc k \<le> ?B"
      using st(1,3) False run_handler_stop [OF st(1)] by (simp add: batch_of_def)
    have res: "returned" "b" "p' = (RecordTerminalStatus st ?p1)\<lparr>qp_running := False\<rparr>"
      using Cons.prems(4) d st(5) False by (auto simp: oa Let_def)
    have keep: "object_wf cpu (qp_queues p x) \<and> (\<exists>j\<le>?B. object_contents (qp_queues p x) =
        drop j (object_contents (qp_queues p x)))" if "x \<in> snd ` set order" for x
      using Cons.prems(1) that by (auto simp: oa intro!: exI [of _ 0])
    show ?thesis
      unfolding scanned_def oa sb run_handler_append st(1)
      using st(2,5) False lt na keep res(1,2)
      by (auto simp: res(3)) (auto simp: count_messages_def RecordTerminalStatus_def)
  next
    case True
    define p4 where "p4 = (if k \<noteq> 0 then count_batch ?p1 else ?p1)"
    have p4f: "qp_queues p4 = (qp_queues p)(a := q)" "qp_handler_state p4 = h" "qp_options p4 = qp_options p"
      "qp_terminal_status p4 = qp_terminal_status p" "qp_inbound p4 = qp_inbound p"
      "qp_next_queue p4 = qp_next_queue p" "qp_running p4 = qp_running p"
      by (simp_all add: p4_def)
    have step: "scan_queues cpu handler (\<lambda>_. False) order (progressed \<or> k \<noteq> 0) p4 = (returned, b, p')"
      using Cons.prems(3,4) d st(4) True by (auto simp: oa Let_def p4_def split: if_splits)
    have ih: "scanned handler cpu order p4 (returned, p') \<and>
        b = ((progressed \<or> k \<noteq> 0) \<or> returned \<or> scan_batch p4 order \<noteq> [])"
      by (rule Cons.IH [OF _ _ _ step]) (use Cons.prems na in \<open>auto simp: oa p4f\<close>)
    have bat: "scan_batch p4 order = scan_batch p order"
      using na by (force simp: scan_batch_def batch_of_def p4f intro!: arg_cong [where f = concat])
    have k: "k = length (batch_of p a)" by (rule run_handler_length [OF st(1) [unfolded True]])
    have msgs: "messages (qp_stats p4) = messages (qp_stats p) + of_nat k"
      by (simp add: p4_def count_messages_def count_batch_def)
    have qa: "object_contents q = drop ?B (object_contents (qp_queues p a))"
      using st(4) True by (auto simp: min_def)
    obtain j st' h' where rh: "run_handler ?f (scan_batch p order) h = (j, st', h')"
      by (cases "run_handler ?f (scan_batch p order) h")
    have "qp_queues p' a = q" using ih na by (simp add: scanned_def bat p4f rh)
    moreover have "object_wf cpu (qp_queues p' x) \<and> (\<exists>j\<le>?B. object_contents (qp_queues p' x) =
        drop j (object_contents (qp_queues p x)) \<and> (st' = kOk \<longrightarrow> j = ?B))" if "x \<in> snd ` set order" for x
    proof -
      have "x \<noteq> a" using that na by auto
      from ih have "\<forall>x \<in> snd ` set order. object_wf cpu (qp_queues p' x) \<and>
          (\<exists>j\<le>?B. object_contents (qp_queues p' x) = drop j (object_contents (qp_queues p4 x)) \<and>
             (st' = kOk \<longrightarrow> j = ?B))"
        by (simp only: scanned_def bat p4f rh prod.case) blast
      from bspec [OF this that] \<open>x \<noteq> a\<close> show ?thesis by (simp add: p4f)
    qed
    ultimately show ?thesis
      using ih st(1,2) True qa
      unfolding scanned_def oa sb run_handler_append st(1)
      by (simp add: bat p4f rh msgs) (auto simp: k)
  qed
qed

lemma scan_order_addresses:
  assumes "poller_ready cpu p"
  shows "snd ` set (scan_order p) = {a. Some a \<in> set (qp_inbound p)}" "distinct (map snd (scan_order p))"
    "length (scan_order p) = length (qp_inbound p)"
proof -
  let ?n = "length (qp_inbound p)" and ?s = "unat (qp_next_queue p)"
  let ?i = "\<lambda>k. (?s + k) mod ?n"
  from assms have n: "0 < ?n" "?s < ?n" and nn: "None \<notin> set (qp_inbound p)" and d: "distinct (qp_inbound p)"
    by (auto simp: poller_ready_def)
  have inj: "inj_on ?i {0..<?n}"
  proof (rule inj_onI)
    fix x y assume "x \<in> {0..<?n}" "y \<in> {0..<?n}" "?i x = ?i y"
    then show "x = y"
      using ring_positions_distinct [of "?s + x" "?s + y" ?n] ring_positions_distinct [of "?s + y" "?s + x" ?n]
      by (cases x y rule: linorder_cases) auto
  qed
  have "?i ` {0..<?n} \<subseteq> {0..<?n}" using n by auto
  then have im: "?i ` {0..<?n} = {0..<?n}" using inj by (simp add: endo_inj_surj)
  have val: "Some (the (qp_inbound p ! k)) = qp_inbound p ! k" if "k < ?n" for k
    using nn that by (metis nth_mem option.exhaust_sel)
  have "snd ` set (scan_order p) = (\<lambda>k. the (qp_inbound p ! k)) ` (?i ` {0..<?n})"
    by (auto simp: scan_order_def Let_def image_image)
  also have "\<dots> = {a. Some a \<in> set (qp_inbound p)}"
    unfolding im using val by (force simp: in_set_conv_nth image_iff)
  finally show "snd ` set (scan_order p) = {a. Some a \<in> set (qp_inbound p)}" .
  have "inj_on (\<lambda>k. the (qp_inbound p ! k)) {0..<?n}"
    using val d by (intro inj_onI) (metis atLeastLessThan_iff nth_eq_iff_index_eq)
  then have "inj_on (\<lambda>k. the (qp_inbound p ! ?i k)) {0..<?n}"
    using comp_inj_on [OF inj] im by (simp add: comp_def)
  then show "distinct (map snd (scan_order p))"
    by (simp add: scan_order_def Let_def distinct_map comp_def)
  show "length (scan_order p) = ?n" by (simp add: scan_order_def Let_def)
qed

lemma next_queue_step:
  assumes "unat (next::u64) < n" and "n < 2 ^ 64"
  shows "unat ((next + 1) mod of_nat n) = (unat next + 1) mod n" "unat ((next + 1) mod of_nat n) < n"
proof -
  have "unat (next + 1) = unat next + 1" using assms by (simp add: unat_word_ariths)
  moreover have "unat (of_nat n :: u64) = n" using assms(2) by (simp add: unat_of_nat)
  ultimately show "unat ((next + 1) mod of_nat n) = (unat next + 1) mod n" by (simp add: unat_mod)
  then show "unat ((next + 1) mod of_nat n) < n" using assms(1) by simp
qed

lemma ScanOnce_eq:
  assumes ready: "poller_ready cpu p" and run: "qp_running p"
    and scan: "ScanOnce cpu handler (\<lambda>_. False) p = (b, p')"
  shows "\<exists>p1 returned. scanned handler cpu (scan_order p) p (returned, p1) \<and>
    b = (returned \<or> scan_batch p (scan_order p) \<noteq> []) \<and>
    p' = (if returned then p1
          else p1\<lparr>qp_next_queue := (qp_next_queue p + 1) mod of_nat (length (qp_inbound p))\<rparr>)"
proof -
  note ord = scan_order_addresses [OF ready]
  obtain returned b1 p1 where
    s: "scan_queues cpu handler (\<lambda>_. False) (scan_order p) False p = (returned, b1, p1)"
    by (cases "scan_queues cpu handler (\<lambda>_. False) (scan_order p) False p")
  have "scanned handler cpu (scan_order p) p (returned, p1) \<and>
      b1 = (False \<or> returned \<or> scan_batch p (scan_order p) \<noteq> [])"
    by (rule scan_queues_scanned [OF _ ord(2) run s]) (use ready ord(1) in \<open>auto simp: poller_ready_def\<close>)
  then show ?thesis using scan s by (auto simp: ScanOnce_def split: if_splits)
qed

text \<open>
  C30. A scan of the poller delivers, in the round-robin order of the inbound queues, at most one
  batch of the oldest messages of every queue: the handler runs over exactly that sequence and no
  queue loses or reorders the messages left.  When the handler fails or throws, the poller stops at
  that message, keeps the first error as its terminal status and leaves the start queue alone;
  otherwise the next scan starts one queue further.
\<close>

theorem ScanOnce_delivers:
  assumes "poller_ready cpu p" and "qp_running p" and "qp_terminal_status p = kOk"
    and "ScanOnce cpu handler (\<lambda>_. False) p = (b, p')"
    and "run_handler (guarded handler) (scan_batch p (scan_order p)) (qp_handler_state p) = (k, st, h)"
  shows "qp_handler_state p' = h \<and> qp_terminal_status p' = st \<and> qp_running p' = (st = kOk) \<and>
    messages (qp_stats p') = messages (qp_stats p) + of_nat k \<and>
    b = (st \<noteq> kOk \<or> scan_batch p (scan_order p) \<noteq> []) \<and> poller_ready cpu p' \<and>
    unat (qp_next_queue p') = (if st = kOk then (unat (qp_next_queue p) + 1) mod length (qp_inbound p)
                               else unat (qp_next_queue p)) \<and>
    (\<forall>a. Some a \<in> set (qp_inbound p) \<longrightarrow>
       (\<exists>j \<le> unat (batch_size (qp_options p)).
          object_contents (qp_queues p' a) = drop j (object_contents (qp_queues p a)) \<and>
          (st = kOk \<longrightarrow> j = unat (batch_size (qp_options p)))))"
proof -
  note ord = scan_order_addresses [OF assms(1)]
  have lim: "unat (qp_next_queue p) < length (qp_inbound p)" "length (qp_inbound p) < 2 ^ 64"
    using assms(1) by (auto simp: poller_ready_def)
  obtain p1 where sc: "scanned handler cpu (scan_order p) p (st \<noteq> kOk, p1)"
    and b: "b = (st \<noteq> kOk \<or> scan_batch p (scan_order p) \<noteq> [])"
    and p': "p' = (if st \<noteq> kOk then p1
          else p1\<lparr>qp_next_queue := (qp_next_queue p + 1) mod of_nat (length (qp_inbound p))\<rparr>)"
    using ScanOnce_eq [OF assms(1,2,4)] assms(5) by (auto simp: scanned_def)
  have q: "qp_queues p' = qp_queues p1" "qp_inbound p' = qp_inbound p" "qp_options p' = qp_options p"
    using p' sc assms(5) by (auto simp: scanned_def)
  have nq: "unat (qp_next_queue p') = (if st = kOk then (unat (qp_next_queue p) + 1) mod length (qp_inbound p)
                               else unat (qp_next_queue p))"
    using p' sc assms(5) next_queue_step [OF lim] by (auto simp: scanned_def)
  have "poller_ready cpu p'"
    using assms(1) sc assms(5) nq lim ord(1) by (auto simp: poller_ready_def q scanned_def)
  with sc assms(3,5) b nq q ord(1) p' show ?thesis
    by (auto simp: scanned_def)
qed

definition sample_poller :: "QueueEnvelope list QueuePoller" where
  "sample_poller =
     \<lparr>qp_local_host = 1, qp_inbound = [Some 64],
      qp_options = \<lparr>cpu_id = -1, batch_size = 32, spin_rounds = 4096, yield_rounds = 64, idle_sleep_us = 50\<rparr>,
      qp_queues = (\<lambda>_. \<lparr>qo_handle = \<lparr>qh_local_host = 1, qh_mode = kReleaseAcquire\<rparr>,
                       qo_ring = Some (pushed (fresh_queue 0 1 4) sample_message)\<rparr>),
      qp_handler_state = [], qp_worker_joinable = True, qp_running = True, qp_start_gate = True,
      qp_next_queue = 0, qp_bound_cpu = 0, qp_stats = zero_stats, qp_terminal_status = kOk\<rparr>"

text \<open>A handler that records the messages it is given.\<close>

definition sample_handler :: "QueueEnvelope \<Rightarrow> QueueEnvelope list \<Rightarrow> HandlerOutcome \<times> QueueEnvelope list" where
  "sample_handler m seen = (Returned kOk, seen @ [m])"

lemma sample_pushed:
  "queue_wf (pushed (fresh_queue 0 1 4) sample_message)"
  "contents (pushed (fresh_queue 0 1 4) sample_message) = [sample_message]"
  "qid_consumer (sq_identity (pushed (fresh_queue 0 1 4) sample_message)) = 1"
proof -
  have m: "valid_message (fresh_queue 0 1 4) sample_message"
    "length (contents (fresh_queue 0 1 4)) < ring_capacity (fresh_queue 0 1 4)"
    "unat (sq_tail (fresh_queue 0 1 4)) + 1 < 2 ^ 64"
    by (simp_all add: valid_message_def fresh_queue_def sample_message_def kQueuePayloadBytes_def
        ring_capacity_def contents_def)
  show "queue_wf (pushed (fresh_queue 0 1 4) sample_message)"
    "contents (pushed (fresh_queue 0 1 4) sample_message) = [sample_message]"
    using pushed_wf [OF sample_ring(1) m] sample_ring(2) by simp_all
  show "qid_consumer (sq_identity (pushed (fresh_queue 0 1 4) sample_message)) = 1"
    by (simp add: pushed_frame) (simp add: fresh_queue_def)
qed

lemma sample_poller_ready: "poller_ready \<lparr>is_x86 = True, has_clwb = False\<rparr> sample_poller"
  by (simp add: poller_ready_def sample_poller_def object_wf_def sample_pushed consumer_handle_def
      ValidateVisibilityMode_def)

lemma sample_batch: "scan_batch sample_poller (scan_order sample_poller) = [sample_message]"
  by (simp add: scan_batch_def scan_order_def batch_of_def sample_poller_def object_contents_def sample_pushed)

theorem ScanOnce_delivers_witness:
  "\<exists>p'. ScanOnce \<lparr>is_x86 = True, has_clwb = False\<rparr> sample_handler (\<lambda>_. False) sample_poller = (True, p') \<and>
     qp_handler_state p' = [sample_message] \<and> qp_running p' \<and> object_contents (qp_queues p' 64) = []"
proof -
  let ?cpu = "\<lparr>is_x86 = True, has_clwb = False\<rparr>"
  obtain b p' where s: "ScanOnce ?cpu sample_handler (\<lambda>_. False) sample_poller = (b, p')"
    by (cases "ScanOnce ?cpu sample_handler (\<lambda>_. False) sample_poller")
  have h: "run_handler (guarded sample_handler) (scan_batch sample_poller (scan_order sample_poller))
      (qp_handler_state sample_poller) = (1, kOk, [sample_message])"
    by (simp add: sample_batch guarded_def sample_handler_def) (simp add: sample_poller_def)
  have p: "qp_running sample_poller" "qp_terminal_status sample_poller = kOk" "qp_inbound sample_poller = [Some 64]"
    "unat (batch_size (qp_options sample_poller)) = 32" "object_contents (qp_queues sample_poller 64) = [sample_message]"
    by (simp_all add: sample_poller_def object_contents_def sample_pushed)
  show ?thesis
    using ScanOnce_delivers [OF sample_poller_ready p(1,2) s h] p(3-5) s
    by (auto simp: sample_batch)
qed

section \<open>The polling loop\<close>

lemma run_handler_never_fails:
  assumes "\<forall>m h. fst (f m h) = kOk"
  shows "fst (snd (run_handler f ms h)) = kOk"
proof (induction ms arbitrary: h)
  case (Cons m ms)
  obtain h' where "f m h = (kOk, h')" using assms by (metis prod.collapse)
  with Cons.IH [of h'] show ?case by (auto split: prod.splits)
qed simp

lemma scan_drains:
  assumes ready: "poller_ready cpu p" and run: "qp_running p" and ok: "\<forall>m h. fst (guarded handler m h) = kOk"
    and scan: "ScanOnce cpu handler (\<lambda>_. False) p = (b, p')"
  shows "qp_running p' \<and> poller_ready cpu p' \<and> qp_terminal_status p' = qp_terminal_status p \<and>
    qp_inbound p' = qp_inbound p \<and> qp_options p' = qp_options p \<and>
    unat (qp_next_queue p') = (unat (qp_next_queue p) + 1) mod length (qp_inbound p) \<and>
    (\<forall>a. Some a \<in> set (qp_inbound p) \<longrightarrow>
       object_contents (qp_queues p' a) = drop (unat (batch_size (qp_options p))) (object_contents (qp_queues p a)))"
proof -
  note ord = scan_order_addresses [OF ready]
  have lim: "unat (qp_next_queue p) < length (qp_inbound p)" "length (qp_inbound p) < 2 ^ 64"
    using ready by (auto simp: poller_ready_def)
  obtain k st h where rh: "run_handler (guarded handler) (scan_batch p (scan_order p)) (qp_handler_state p) = (k, st, h)"
    by (cases "run_handler (guarded handler) (scan_batch p (scan_order p)) (qp_handler_state p)")
  then have st: "st = kOk" using run_handler_never_fails [OF ok] by (metis fst_conv snd_conv)
  obtain p1 returned where sc: "scanned handler cpu (scan_order p) p (returned, p1)"
    and p1: "p' = (if returned then p1
          else p1\<lparr>qp_next_queue := (qp_next_queue p + 1) mod of_nat (length (qp_inbound p))\<rparr>)"
    using ScanOnce_eq [OF ready run scan] by blast
  have "\<not> returned" using sc rh st by (simp add: scanned_def)
  with p1 have p': "p' = p1\<lparr>qp_next_queue := (qp_next_queue p + 1) mod of_nat (length (qp_inbound p))\<rparr>"
    by simp
  have facts: "qp_running p1" "qp_terminal_status p1 = qp_terminal_status p" "qp_inbound p1 = qp_inbound p"
    "qp_options p1 = qp_options p"
    "\<forall>a \<in> {a. Some a \<in> set (qp_inbound p)}. object_wf cpu (qp_queues p1 a) \<and>
       object_contents (qp_queues p1 a) = drop (unat (batch_size (qp_options p))) (object_contents (qp_queues p a))"
    using sc rh st unfolding ord(1) [symmetric] by (auto simp: scanned_def)
  show ?thesis
    using facts next_queue_step [OF lim] ready by (auto simp: p' poller_ready_def)
qed

lemma poll_round_drains:
  assumes ready: "poller_ready cpu p" and run: "qp_running p" and ok: "\<forall>m h. fst (guarded handler m h) = kOk"
    and round: "poll_round cpu handler None (\<lambda>_. False) (idle, p) = (idle', p')"
  shows "qp_running p' \<and> poller_ready cpu p' \<and> qp_terminal_status p' = qp_terminal_status p \<and>
    qp_inbound p' = qp_inbound p \<and> qp_options p' = qp_options p \<and>
    unat (qp_next_queue p') = (unat (qp_next_queue p) + 1) mod length (qp_inbound p) \<and>
    (\<forall>a. Some a \<in> set (qp_inbound p) \<longrightarrow>
       object_contents (qp_queues p' a) = drop (unat (batch_size (qp_options p))) (object_contents (qp_queues p a)))"
proof -
  let ?p0 = "p\<lparr>qp_stats := (qp_stats p)\<lparr>scans := scans (qp_stats p) + 1\<rparr>\<rparr>"
  obtain b p1 where scan: "ScanOnce cpu handler (\<lambda>_. False) ?p0 = (b, p1)"
    by (cases "ScanOnce cpu handler (\<lambda>_. False) ?p0")
  have p0: "poller_ready cpu ?p0" "qp_running ?p0" using ready run by (simp_all add: poller_ready_def)
  have "\<exists>stats. p' = p1\<lparr>qp_stats := stats\<rparr>"
  proof (cases b)
    case True
    then have "p' = p1\<lparr>qp_stats := qp_stats p1\<rparr>" using round scan by (simp add: poll_round_def Let_def)
    then show ?thesis ..
  next
    case False
    then show ?thesis using round scan by (auto simp: poll_round_def Let_def back_off_def split: if_splits)
  qed
  then show ?thesis
    using scan_drains [OF p0 ok scan] by (auto simp: poller_ready_def)
qed

text \<open>
  The poller starves no queue: with a handler that does not fail and nobody stopping it, every
  round takes one batch from every inbound queue, so after n rounds each queue has lost exactly its
  n oldest batches, the poller still runs, and the start of the scan has moved n queues round.
\<close>

theorem Run_drains_every_queue:
  assumes "poller_ready cpu p" and "qp_running p" and "\<forall>m h. fst (guarded handler m h) = kOk"
    and "Run cpu handler None (replicate n (\<lambda>_. False)) (idle, p) = (idle', p')"
  shows "qp_running p' \<and> qp_terminal_status p' = qp_terminal_status p \<and>
    unat (qp_next_queue p') = (unat (qp_next_queue p) + n) mod length (qp_inbound p) \<and>
    (\<forall>a. Some a \<in> set (qp_inbound p) \<longrightarrow>
       object_contents (qp_queues p' a) = drop (n * unat (batch_size (qp_options p))) (object_contents (qp_queues p a)))"
  using assms
proof (induction n arbitrary: idle p)
  case 0
  then show ?case by (auto simp: poller_ready_def)
next
  case (Suc n)
  obtain i p1 where r: "poll_round cpu handler None (\<lambda>_. False) (idle, p) = (i, p1)"
    by (cases "poll_round cpu handler None (\<lambda>_. False) (idle, p)")
  note d = poll_round_drains [OF Suc.prems(1-3) r]
  have "Run cpu handler None (replicate n (\<lambda>_. False)) (i, p1) = (idle', p')"
    using Suc.prems(2,4) r by simp
  note ih = Suc.IH [OF _ _ Suc.prems(3) this]
  have next_q: "((unat (qp_next_queue p) + 1) mod length (qp_inbound p) + n) mod length (qp_inbound p) =
      (unat (qp_next_queue p) + Suc n) mod length (qp_inbound p)"
    by (simp add: mod_add_left_eq)
  show ?case
    using d ih next_q by (simp add: add.commute)
qed

theorem Run_drains_every_queue_witness:
  "\<exists>idle' p'. Run \<lparr>is_x86 = True, has_clwb = False\<rparr> sample_handler None (replicate 3 (\<lambda>_. False)) (0, sample_poller)
       = (idle', p') \<and> qp_running p' \<and> object_contents (qp_queues p' 64) = []"
proof -
  let ?cpu = "\<lparr>is_x86 = True, has_clwb = False\<rparr>"
  obtain i p' where s: "Run ?cpu sample_handler None (replicate 3 (\<lambda>_. False)) (0, sample_poller) = (i, p')"
    by (cases "Run ?cpu sample_handler None (replicate 3 (\<lambda>_. False)) (0, sample_poller)")
  have p: "qp_running sample_poller" "qp_inbound sample_poller = [Some 64]"
    "unat (batch_size (qp_options sample_poller)) = 32" "object_contents (qp_queues sample_poller 64) = [sample_message]"
    by (simp_all add: sample_poller_def object_contents_def sample_pushed)
  have "\<forall>m h. fst (guarded sample_handler m h) = kOk" by (simp add: guarded_def sample_handler_def)
  from Run_drains_every_queue [OF sample_poller_ready p(1) this s] p(2-4) s
  show ?thesis by auto
qed

lemma inbound_ok_iff:
  "inbound_ok queues host seen qs \<longleftrightarrow> None \<notin> set qs \<and> distinct qs \<and> set qs \<inter> Some ` set seen = {} \<and>
     (\<forall>a. Some a \<in> set qs \<longrightarrow> q_consumer (qo_ring (queues a)) = host)"
  by (induction queues host seen qs rule: inbound_ok.induct) auto

lemma SelectCpu_not_ok: "SelectCpu options affinity \<noteq> Inl kOk"
  by (auto simp: SelectCpu_def split: option.splits)

text \<open>
  Starting the poller succeeds exactly when it is not running, has a handler and a non-empty
  batch, and its inbound queues are non-empty, non-null, pairwise distinct and consumed by this
  host, and the thread can be bound to an allowed CPU; it then runs with cleared counters.  After a
  failed start the poller runs only if it was running before.
\<close>

theorem Start_spec:
  "case Start has_handler affinity bind_ok p of (st, p') \<Rightarrow>
     (st = kOk \<longleftrightarrow> \<not> qp_running p \<and> \<not> qp_worker_joinable p \<and> has_handler \<and> qp_inbound p \<noteq> [] \<and>
        batch_size (qp_options p) \<noteq> 0 \<and> None \<notin> set (qp_inbound p) \<and> distinct (qp_inbound p) \<and>
        (\<forall>a. Some a \<in> set (qp_inbound p) \<longrightarrow> q_consumer (qo_ring (qp_queues p a)) = qp_local_host p) \<and>
        result_ok (SelectCpu (qp_options p) affinity) \<and> bind_ok) \<and>
     (st = kOk \<longrightarrow> qp_running p' \<and> qp_worker_joinable p' \<and> qp_start_gate p' \<and> qp_terminal_status p' = kOk \<and>
        qp_next_queue p' = 0 \<and> qp_stats p' = zero_stats \<and>
        SelectCpu (qp_options p) affinity = Inr (qp_bound_cpu p')) \<and>
     (st \<noteq> kOk \<longrightarrow> qp_running p' = qp_running p \<and> qp_worker_joinable p' = qp_worker_joinable p)"
  by (auto simp: Start_def Let_def inbound_ok_iff SelectCpu_not_ok split: sum.splits)

theorem Start_spec_witness:
  "fst (Start True (Some (\<lambda>cpu. cpu = 3)) True
     (sample_poller\<lparr>qp_running := False, qp_worker_joinable := False\<rparr>)) = kOk"
proof -
  have "result_ok (SelectCpu (qp_options sample_poller) (Some (\<lambda>cpu. cpu = 3)))"
    by (simp add: SelectCpu_def sample_poller_def CPU_SETSIZE_def find_None_iff split: option.splits)
  moreover have "qp_inbound sample_poller = [Some 64]" "qp_local_host sample_poller = 1"
    "batch_size (qp_options sample_poller) = 32" "q_consumer (qo_ring (qp_queues sample_poller 64)) = 1"
    by (simp_all add: sample_poller_def sample_pushed)
  ultimately show ?thesis
    using Start_spec [where has_handler = True and affinity = "Some (\<lambda>cpu. cpu = 3)" and bind_ok = True
        and p = "sample_poller\<lparr>qp_running := False, qp_worker_joinable := False\<rparr>"]
    by (auto split: prod.splits)
qed

end
