(* ===== verification/Cx_Barrier.thy ===== *)
theory Cx_Barrier
  imports Cx_Common
begin

text \<open>
  The cluster barrier (\<^verbatim>\<open>include/cxloom/loompar/barrier.h\<close>, \<^verbatim>\<open>src/loompar/barrier.cpp\<close>): every host
  counts its local participants, reports to host 0 when the last one arrives, and host 0 releases
  the generation when every host has reported.

  One manager per host is a record; its sender only enqueues, so the messages an operation sends
  are a result of it.  \<^verbatim>\<open>Wait\<close> blocks on a condition variable: it is split into the part before the
  wait (\<open>Wait_arrive\<close>) and the part that a waiter runs whenever it is woken (\<open>Wait_wake\<close>).  A manager
  of a world of several hosts has a sender, as \<^verbatim>\<open>Wait\<close> checks before a barrier is used; calling an
  empty \<^verbatim>\<open>std::function\<close> from \<^verbatim>\<open>Handle\<close> is therefore not modelled.

  The second half composes the managers of all hosts with first-in first-out links into a step
  relation, and proves what the barrier promises.
\<close>

section \<open>One host\<close>

record BarrierState =
  barrier_id :: u64
  generation :: u64
  local_participants :: u64
  local_arrivals :: u64

record BarrierEntry =
  bar_state :: BarrierState
  host_arrivals :: u64
  reported :: bool
  broken :: bool

record BarrierManager =
  bm_local_host :: HostId
  bm_host_count :: u16
  bm_has_sender :: bool
  barriers :: "u64 \<rightharpoonup> BarrierEntry"

record BarrierMessage =
  msg_kind :: MessageKind
  msg_dst :: HostId
  msg_id :: u64
  msg_generation :: u64
  msg_failed :: bool

definition fresh_entry :: "u64 \<Rightarrow> BarrierEntry" where
  "fresh_entry bid = \<lparr>bar_state = \<lparr>barrier_id = bid, generation = 0, local_participants = 0, local_arrivals = 0\<rparr>,
     host_arrivals = 0, reported = False, broken = False\<rparr>"

definition Get :: "BarrierManager \<Rightarrow> u64 \<Rightarrow> BarrierEntry" where
  "Get m bid = (case barriers m bid of Some e \<Rightarrow> e | None \<Rightarrow> fresh_entry bid)"

definition put_entry :: "u64 \<Rightarrow> BarrierEntry \<Rightarrow> BarrierManager \<Rightarrow> BarrierManager" where
  "put_entry bid e m = m\<lparr>barriers := (barriers m)(bid \<mapsto> e)\<rparr>"

definition AdvanceLocked :: "BarrierEntry \<Rightarrow> BarrierEntry" where
  "AdvanceLocked e = e\<lparr>bar_state := (bar_state e)\<lparr>generation := generation (bar_state e) + 1, local_arrivals := 0\<rparr>,
     host_arrivals := 0, reported := False\<rparr>"

definition BreakLocked :: "BarrierManager \<Rightarrow> BarrierEntry \<Rightarrow> BarrierEntry \<times> BarrierMessage list" where
  "BreakLocked m e =
     (if broken e then (e, [])
      else (e\<lparr>broken := True\<rparr>,
            map (\<lambda>host. \<lparr>msg_kind = BarrierRelease, msg_dst = host, msg_id = barrier_id (bar_state e),
                         msg_generation = generation (bar_state e), msg_failed = True\<rparr>)
              (filter (\<lambda>host. host \<noteq> bm_local_host m \<and> bm_has_sender m) (hosts_below (bm_host_count m)))))"

definition ArriveLocked :: "BarrierManager \<Rightarrow> BarrierEntry \<Rightarrow> HostId \<Rightarrow> BarrierEntry \<times> BarrierMessage list" where
  "ArriveLocked m e source =
     (let e1 = e\<lparr>host_arrivals := host_arrivals e OR host_bit source\<rparr> in
      if host_arrivals e1 \<noteq> all_hosts (bm_host_count m) then (e1, [])
      else (AdvanceLocked e1,
            map (\<lambda>host. \<lparr>msg_kind = BarrierRelease, msg_dst = host, msg_id = barrier_id (bar_state e),
                         msg_generation = generation (bar_state e), msg_failed = False\<rparr>)
              (filter (\<lambda>host. 1 \<le> host) (hosts_below (bm_host_count m)))))"

text \<open>What a call of \<^verbatim>\<open>Wait\<close> does up to the condition variable: it is refused, or it waits.\<close>

datatype WaitCall = Refused Status | Waiting u64

definition Wait_arrive :: "BarrierManager \<Rightarrow> u64 \<Rightarrow> u64 \<Rightarrow> WaitCall \<times> BarrierManager \<times> BarrierMessage list" where
  "Wait_arrive m bid participants =
     (if participants = 0 then (Refused kInvalidArgument, m, [])
      else if bm_host_count m = 0 \<or> kMaxHosts < unat (bm_host_count m) \<or>
              bm_host_count m \<le> bm_local_host m \<or> (1 < bm_host_count m \<and> \<not> bm_has_sender m)
      then (Refused kFailedPrecondition, m, [])
      else
        let e = Get m bid in
        if broken e then (Refused kFailedPrecondition, put_entry bid e m, [])
        else if local_participants (bar_state e) \<noteq> 0 \<and> local_participants (bar_state e) \<noteq> participants
        then (case BreakLocked m e of (e', msgs) \<Rightarrow> (Refused kInvalidArgument, put_entry bid e' m, msgs))
        else
          let e1 = e\<lparr>bar_state := (bar_state e)\<lparr>local_participants := participants\<rparr>\<rparr> in
          if reported e1
          then (case BreakLocked m e1 of (e', msgs) \<Rightarrow> (Refused kFailedPrecondition, put_entry bid e' m, msgs))
          else
            let g = generation (bar_state e1);
                e2 = e1\<lparr>bar_state := (bar_state e1)\<lparr>local_arrivals := local_arrivals (bar_state e1) + 1\<rparr>\<rparr>
            in if local_arrivals (bar_state e2) \<noteq> participants
               then (Waiting g, put_entry bid e2 m, [])
               else
                 let e3 = e2\<lparr>reported := True\<rparr> in
                 if bm_local_host m = 0
                 then (case ArriveLocked m e3 0 of (e', msgs) \<Rightarrow> (Waiting g, put_entry bid e' m, msgs))
                 else (Waiting g, put_entry bid e3 m,
                       [\<lparr>msg_kind = BarrierArrive, msg_dst = 0, msg_id = bid, msg_generation = g,
                         msg_failed = False\<rparr>]))"

text \<open>The wait's predicate and the return of a waiter of generation \<open>g\<close>; \<open>None\<close> waits on.\<close>

definition Wait_wake :: "BarrierManager \<Rightarrow> u64 \<Rightarrow> u64 \<Rightarrow> Status option" where
  "Wait_wake m bid g =
     (let e = Get m bid in
      if broken e \<or> generation (bar_state e) \<noteq> g
      then Some (if broken e then kFailedPrecondition else kOk)
      else None)"

definition Handle :: "BarrierManager \<Rightarrow> MessageKind \<Rightarrow> HostId \<Rightarrow> u64 \<Rightarrow> u64 \<Rightarrow> bool \<Rightarrow>
    Status \<times> BarrierManager \<times> BarrierMessage list" where
  "Handle m knd source bid g failed =
     (if bm_host_count m \<le> source then (kInvalidArgument, m, [])
      else
        let e = Get m bid; m0 = put_entry bid e m in
        if failed
        then (if knd \<noteq> BarrierRelease then (kInvalidArgument, m0, [])
              else (kOk, put_entry bid (e\<lparr>broken := True\<rparr>) m, []))
        else if broken e \<or> g < generation (bar_state e) then (kOk, m0, [])
        else if g \<noteq> generation (bar_state e)
        then (case BreakLocked m e of (e', msgs) \<Rightarrow> (kOk, put_entry bid e' m, msgs))
        else if knd = BarrierArrive \<and> bm_local_host m = 0 \<and> source \<noteq> 0
        then (case ArriveLocked m e source of (e', msgs) \<Rightarrow> (kOk, put_entry bid e' m, msgs))
        else if knd = BarrierRelease \<and> bm_local_host m \<noteq> 0 \<and> source = 0 \<and> reported e
        then (kOk, put_entry bid (AdvanceLocked e) m, [])
        else (case BreakLocked m e of (e', msgs) \<Rightarrow> (kOk, put_entry bid e' m, msgs)))"

definition Break :: "BarrierManager \<Rightarrow> u64 \<Rightarrow> BarrierManager \<times> BarrierMessage list" where
  "Break m bid = (case BreakLocked m (Get m bid) of (e', msgs) \<Rightarrow> (put_entry bid e' m, msgs))"

definition entry_idle :: "BarrierEntry \<Rightarrow> bool" where
  "entry_idle e \<longleftrightarrow> broken e \<or> host_arrivals e = 0 \<and> local_arrivals (bar_state e) = 0"

text \<open>\<^verbatim>\<open>idle\<close> walks the map: here over a list that enumerates its keys.\<close>

definition barriers_idle :: "BarrierManager \<Rightarrow> u64 list \<Rightarrow> bool" where
  "barriers_idle m ids = list_all (\<lambda>bid. case barriers m bid of None \<Rightarrow> True | Some e \<Rightarrow> entry_idle e) ids"

definition Query :: "BarrierManager \<Rightarrow> u64 \<Rightarrow> BarrierState Result" where
  "Query m bid = (case barriers m bid of None \<Rightarrow> Inl kNotFound | Some e \<Rightarrow> Inr (bar_state e))"

section \<open>The cluster\<close>

text \<open>
  The managers of hosts 0 to n - 1 and the links between them, oldest message first; the last
  component counts the generations host 0 has completed.
\<close>

record BarrierWorld =
  bw_manager :: "HostId \<Rightarrow> BarrierManager"
  bw_link :: "HostId \<Rightarrow> HostId \<Rightarrow> BarrierMessage list"
  bw_rounds :: nat

definition post :: "HostId \<Rightarrow> BarrierMessage list \<Rightarrow> (HostId \<Rightarrow> HostId \<Rightarrow> BarrierMessage list) \<Rightarrow>
    HostId \<Rightarrow> HostId \<Rightarrow> BarrierMessage list" where
  "post src msgs link = (\<lambda>s d. if s = src then link s d @ filter (\<lambda>x. msg_dst x = d) msgs else link s d)"

definition barrier_start :: "u16 \<Rightarrow> BarrierWorld" where
  "barrier_start n = \<lparr>bw_manager = (\<lambda>h. \<lparr>bm_local_host = h, bm_host_count = n, bm_has_sender = True, barriers = Map.empty\<rparr>),
     bw_link = (\<lambda>_ _. []), bw_rounds = 0\<rparr>"

text \<open>Host 0 completed a generation when its generation changed.\<close>

definition rounds_after :: "u64 \<Rightarrow> BarrierWorld \<Rightarrow> HostId \<Rightarrow> BarrierManager \<Rightarrow> nat" where
  "rounds_after bid w h m =
     (if h = 0 \<and> generation (bar_state (Get m bid)) \<noteq> generation (bar_state (Get (bw_manager w h) bid))
      then Suc (bw_rounds w) else bw_rounds w)"

text \<open>
  The steps of one barrier: a thread of a host calls \<^verbatim>\<open>Wait\<close>, with the host's number of participants
  and only while the host has not reported the current generation (the documented use), or a host
  handles the oldest message of a link.
\<close>

inductive barrier_step :: "u16 \<Rightarrow> u64 \<Rightarrow> (HostId \<Rightarrow> u64) \<Rightarrow> BarrierWorld \<Rightarrow> BarrierWorld \<Rightarrow> bool"
  for n bid participants where
  wait: "h < n \<Longrightarrow> \<not> reported (Get (bw_manager w h) bid) \<Longrightarrow>
    Wait_arrive (bw_manager w h) bid (participants h) = (call, m, msgs) \<Longrightarrow>
    barrier_step n bid participants w
      (w\<lparr>bw_manager := (bw_manager w)(h := m), bw_link := post h msgs (bw_link w),
         bw_rounds := rounds_after bid w h m\<rparr>)"
| deliver: "s < n \<Longrightarrow> h < n \<Longrightarrow> bw_link w s h = x # xs \<Longrightarrow>
    Handle (bw_manager w h) (msg_kind x) s (msg_id x) (msg_generation x) (msg_failed x) = (st, m, msgs) \<Longrightarrow>
    barrier_step n bid participants w
      (w\<lparr>bw_manager := (bw_manager w)(h := m),
         bw_link := post h msgs ((bw_link w)(s := (bw_link w s)(h := xs))),
         bw_rounds := rounds_after bid w h m\<rparr>)"

inductive barrier_reach :: "u16 \<Rightarrow> u64 \<Rightarrow> (HostId \<Rightarrow> u64) \<Rightarrow> BarrierWorld \<Rightarrow> bool" for n bid participants where
  start: "barrier_reach n bid participants (barrier_start n)"
| step: "barrier_reach n bid participants w \<Longrightarrow> barrier_step n bid participants w w' \<Longrightarrow>
    barrier_reach n bid participants w'"

section \<open>The invariant\<close>

abbreviation the_arrive :: "u64 \<Rightarrow> u64 \<Rightarrow> BarrierMessage" where
  "the_arrive bid g \<equiv> \<lparr>msg_kind = BarrierArrive, msg_dst = 0, msg_id = bid, msg_generation = g, msg_failed = False\<rparr>"

abbreviation the_release :: "u64 \<Rightarrow> u64 \<Rightarrow> HostId \<Rightarrow> BarrierMessage" where
  "the_release bid g h \<equiv>
     \<lparr>msg_kind = BarrierRelease, msg_dst = h, msg_id = bid, msg_generation = g, msg_failed = False\<rparr>"

abbreviation gen :: "BarrierEntry \<Rightarrow> u64" where
  "gen e \<equiv> generation (bar_state e)"

text \<open>An entry of a host with \<open>k\<close> participants: not broken, and its arrivals counted.\<close>

definition entry_ok :: "u64 \<Rightarrow> u64 \<Rightarrow> BarrierEntry \<Rightarrow> bool" where
  "entry_ok bid k e \<longleftrightarrow> \<not> broken e \<and> barrier_id (bar_state e) = bid \<and>
     (local_participants (bar_state e) = 0 \<or> local_participants (bar_state e) = k) \<and>
     (if reported e then local_arrivals (bar_state e) = k else local_arrivals (bar_state e) < k)"

text \<open>
  Where a host other than the coordinator stands in the coordinator's generation \<open>g\<close>: it counts, its
  report is on the way, its report is counted, or the release of the previous generation is on the
  way to it.
\<close>

definition worker_ok :: "u64 \<Rightarrow> u64 \<Rightarrow> HostId \<Rightarrow> BarrierEntry \<Rightarrow> BarrierMessage list \<Rightarrow> BarrierMessage list \<Rightarrow>
    bool \<Rightarrow> bool" where
  "worker_ok bid g h e up down arrived \<longleftrightarrow> host_arrivals e = 0 \<and>
     (gen e = g \<and> \<not> reported e \<and> up = [] \<and> down = [] \<and> \<not> arrived \<or>
      gen e = g \<and> reported e \<and> up = [the_arrive bid g] \<and> down = [] \<and> \<not> arrived \<or>
      gen e = g \<and> reported e \<and> up = [] \<and> down = [] \<and> arrived \<or>
      unat g = Suc (unat (gen e)) \<and> reported e \<and> up = [] \<and> down = [the_release bid (gen e) h] \<and> \<not> arrived)"

definition coordinator_ok :: "u16 \<Rightarrow> BarrierEntry \<Rightarrow> bool" where
  "coordinator_ok n e \<longleftrightarrow> (reported e \<longleftrightarrow> bit (host_arrivals e) 0) \<and>
     (\<forall>k. bit (host_arrivals e) k \<longrightarrow> k < unat n) \<and> host_arrivals e \<noteq> all_hosts n"

definition barrier_inv :: "u16 \<Rightarrow> u64 \<Rightarrow> (HostId \<Rightarrow> u64) \<Rightarrow> BarrierWorld \<Rightarrow> bool" where
  "barrier_inv n bid participants w \<longleftrightarrow>
     (\<forall>h < n. bm_local_host (bw_manager w h) = h \<and> bm_host_count (bw_manager w h) = n \<and>
        bm_has_sender (bw_manager w h) \<and> entry_ok bid (participants h) (Get (bw_manager w h) bid)) \<and>
     coordinator_ok n (Get (bw_manager w 0) bid) \<and>
     unat (gen (Get (bw_manager w 0) bid)) = bw_rounds w \<and>
     (\<forall>h < n. h \<noteq> 0 \<longrightarrow>
        worker_ok bid (gen (Get (bw_manager w 0) bid)) h (Get (bw_manager w h) bid) (bw_link w h 0) (bw_link w 0 h)
          (bit (host_arrivals (Get (bw_manager w 0) bid)) (unat h))) \<and>
     (\<forall>s h. (s = 0 \<longleftrightarrow> h = 0) \<longrightarrow> bw_link w s h = [])"

lemma Get_put_entry [simp]: "Get (put_entry bid e m) bid = e"
  by (simp add: Get_def put_entry_def)

lemma put_entry_frame [simp]:
  "bm_local_host (put_entry bid e m) = bm_local_host m" "bm_host_count (put_entry bid e m) = bm_host_count m"
  "bm_has_sender (put_entry bid e m) = bm_has_sender m"
  by (simp_all add: put_entry_def)

lemma filter_eq_singleton: "distinct xs \<Longrightarrow> filter (\<lambda>x. x = h) xs = (if h \<in> set xs then [h] else [])"
  by (induction xs) auto

lemma filter_releases:
  "filter (\<lambda>x. msg_dst x = h)
     (map (\<lambda>host. the_release bid g host) (filter (\<lambda>host. 1 \<le> host) (hosts_below n))) =
   (if h \<noteq> 0 \<and> h < n then [the_release bid g h] else [])"
proof -
  have "filter (\<lambda>x. msg_dst x = h)
     (map (\<lambda>host. the_release bid g host) (filter (\<lambda>host. 1 \<le> host) (hosts_below n))) =
     map (\<lambda>host. the_release bid g host) (filter (\<lambda>x. x = h) (filter (\<lambda>host. 1 \<le> host) (hosts_below n)))"
    by (simp add: filter_map comp_def)
  also have "filter (\<lambda>x. x = h) (filter (\<lambda>host. 1 \<le> host) (hosts_below n)) = (if h \<noteq> 0 \<and> h < n then [h] else [])"
    by (subst filter_eq_singleton) (auto simp: word_le_nat_alt unat_gt_0 Suc_le_eq)
  finally show ?thesis by simp
qed

lemma wait_arrive_eq:
  assumes "entry_ok bid k (Get m bid)" and "\<not> reported (Get m bid)" and "bm_host_count m = n" and "unat n \<le> kMaxHosts"
    and "bm_local_host m < n" and "bm_has_sender m"
  shows "Wait_arrive m bid k =
    (let e = Get m bid;
         e2 = e\<lparr>bar_state := (bar_state e)\<lparr>local_participants := k, local_arrivals := local_arrivals (bar_state e) + 1\<rparr>\<rparr>
     in if local_arrivals (bar_state e) + 1 \<noteq> k then (Waiting (gen e), put_entry bid e2 m, [])
        else if bm_local_host m = 0
        then (case ArriveLocked m (e2\<lparr>reported := True\<rparr>) 0 of (e', msgs) \<Rightarrow> (Waiting (gen e), put_entry bid e' m, msgs))
        else (Waiting (gen e), put_entry bid (e2\<lparr>reported := True\<rparr>) m, [the_arrive bid (gen e)]))"
proof -
  have "k \<noteq> 0" "n \<noteq> 0" using assms by (auto simp: entry_ok_def)
  then show ?thesis
    using assms by (auto simp: Wait_arrive_def Let_def entry_ok_def split: prod.splits)
qed

text \<open>The coordinator counts the report of one more host, and releases when it is the last.\<close>

lemma arrive_step:
  assumes n: "0 < n" "n \<le> 64" and s: "s < n" and "bm_host_count m = n" and k: "0 < k"
    and c: "\<not> broken e" "barrier_id (bar_state e) = bid" "local_participants (bar_state e) = 0 \<or> local_participants (bar_state e) = k"
      "if reported e then local_arrivals (bar_state e) = k else local_arrivals (bar_state e) < k"
      "\<forall>j. bit (host_arrivals e) j \<longrightarrow> j < unat n" "reported e \<longleftrightarrow> bit (host_arrivals e) 0 \<or> s = 0"
    and ws: "\<And>h. h \<noteq> 0 \<Longrightarrow> h < n \<Longrightarrow> worker_ok bid (gen e) h (ent h) (up h) (down h) (h = s \<or> bit (host_arrivals e) (unat h))"
    and arrive: "ArriveLocked m e s = (e', msgs)" and lim: "unat (gen e) + 1 < 2 ^ 64"
  shows "entry_ok bid k e' \<and> coordinator_ok n e' \<and> (gen e' = gen e \<or> unat (gen e') = Suc (unat (gen e))) \<and>
    (\<forall>h < n. h \<noteq> 0 \<longrightarrow> worker_ok bid (gen e') h (ent h) (up h) (down h @ filter (\<lambda>x. msg_dst x = h) msgs)
        (bit (host_arrivals e') (unat h))) \<and>
    (\<forall>h. h = 0 \<or> \<not> h < n \<longrightarrow> filter (\<lambda>x. msg_dst x = h) msgs = [])"
proof -
  let ?a = "host_arrivals e OR host_bit s"
  have s64: "s < 64" using s n(2) by (rule less_le_trans)
  have bits: "bit ?a (unat h) \<longleftrightarrow> h = s \<or> bit (host_arrivals e) (unat h)" for h
    by (auto simp: bit_or_iff bit_host_bit [OF s64] word_unat_eq_iff)
  have below: "\<forall>j. bit ?a j \<longrightarrow> j < unat n"
    using c(5) s by (auto simp: bit_or_iff bit_host_bit [OF s64] word_less_nat_alt)
  have zero: "bit ?a 0 \<longleftrightarrow> reported e" using bits [of 0] c(6) by auto
  show ?thesis
  proof (cases "?a = all_hosts n")
    case False
    then have "e' = e\<lparr>host_arrivals := ?a\<rparr>" "msgs = []" using arrive assms(4) by (auto simp: ArriveLocked_def Let_def)
    then show ?thesis
      using c ws zero below False bits by (auto simp: entry_ok_def coordinator_ok_def)
  next
    case True
    then have e': "e' = AdvanceLocked (e\<lparr>host_arrivals := ?a\<rparr>)"
      and msgs: "msgs = map (\<lambda>host. the_release bid (gen e) host) (filter (\<lambda>host. 1 \<le> host) (hosts_below n))"
      using arrive assms(4) c(2) by (auto simp: ArriveLocked_def Let_def)
    have g: "gen e' = gen e + 1" "unat (gen e + 1) = Suc (unat (gen e))"
      using lim by (simp_all add: e' AdvanceLocked_def unat_word_ariths)
    have all: "bit ?a (unat h)" if "h < n" for h
      using True that full_mask_iff [OF n(2), of ?a] below by blast
    have "worker_ok bid (gen e') h (ent h) (up h) (down h @ filter (\<lambda>x. msg_dst x = h) msgs)
        (bit (host_arrivals e') (unat h))" if "h < n" "h \<noteq> 0" for h
    proof -
      have "h = s \<or> bit (host_arrivals e) (unat h)" using all [OF that(1)] bits by blast
      with ws [OF that(2,1)] have "gen (ent h) = gen e" "reported (ent h)" "up h = []" "down h = []"
        "host_arrivals (ent h) = 0" by (auto simp: worker_ok_def)
      then show ?thesis using that g
        by (simp add: worker_ok_def msgs filter_releases e') (simp add: AdvanceLocked_def)
    qed
    moreover have "bit (all_hosts n) 0" using n by (simp add: bit_all_hosts word_less_nat_alt)
    ultimately show ?thesis
      using c k g by (auto simp: entry_ok_def coordinator_ok_def msgs filter_releases e' AdvanceLocked_def)
  qed
qed

text \<open>A world in which the coordinator has just counted host \<open>s\<close>.\<close>

lemma coordinator_arrive_inv:
  assumes n: "0 < n" "n \<le> 64" and s: "s < n" and k: "\<forall>h < n. participants h \<noteq> 0"
    and inv: "barrier_inv n bid participants w" and lim: "bw_rounds w + 1 < 2 ^ 64"
    and e: "gen e = gen (Get (bw_manager w 0) bid)" "host_arrivals e = host_arrivals (Get (bw_manager w 0) bid)"
      "entry_ok bid (participants 0) e" "reported e \<longleftrightarrow> reported (Get (bw_manager w 0) bid) \<or> s = 0"
    and up: "\<And>h. h \<noteq> 0 \<Longrightarrow> h < n \<Longrightarrow>
      worker_ok bid (gen e) h (Get (bw_manager w h) bid) (up h) (bw_link w 0 h) (h = s \<or> bit (host_arrivals e) (unat h))"
    and arrive: "ArriveLocked (bw_manager w 0) e s = (e', msgs)"
    and link: "\<And>h. h \<noteq> 0 \<Longrightarrow> link h 0 = up h" "\<And>h. h \<noteq> 0 \<Longrightarrow> link 0 h = bw_link w 0 h"
      "\<And>a b. (a = 0 \<longleftrightarrow> b = 0) \<Longrightarrow> link a b = []"
  shows "barrier_inv n bid participants
    (w\<lparr>bw_manager := (bw_manager w)(0 := put_entry bid e' (bw_manager w 0)),
       bw_link := post 0 msgs link, bw_rounds := rounds_after bid w 0 (put_entry bid e' (bw_manager w 0))\<rparr>)"
proof -
  let ?ec = "Get (bw_manager w 0) bid"
  from inv have coord: "coordinator_ok n ?ec" and rounds: "unat (gen ?ec) = bw_rounds w"
    and mgr: "\<forall>h < n. bm_local_host (bw_manager w h) = h \<and> bm_host_count (bw_manager w h) = n \<and>
        bm_has_sender (bw_manager w h) \<and> entry_ok bid (participants h) (Get (bw_manager w h) bid)"
    by (auto simp: barrier_inv_def)
  have k0: "0 < participants 0" using k n(1) by (simp add: word_greater_zero_iff)
  have lim': "unat (gen e) + 1 < 2 ^ 64" using lim rounds e(1) by simp
  from arrive_step [OF n s _ k0 _ _ _ _ _ _ up arrive lim'] have
    r: "entry_ok bid (participants 0) e'" "coordinator_ok n e'" "gen e' = gen e \<or> unat (gen e') = Suc (unat (gen e))"
      "\<forall>h < n. h \<noteq> 0 \<longrightarrow> worker_ok bid (gen e') h (Get (bw_manager w h) bid) (up h)
          (bw_link w 0 h @ filter (\<lambda>x. msg_dst x = h) msgs) (bit (host_arrivals e') (unat h))"
      "\<forall>h. h = 0 \<or> \<not> h < n \<longrightarrow> filter (\<lambda>x. msg_dst x = h) msgs = []"
    using mgr n(1) e coord by (auto simp: entry_ok_def coordinator_ok_def)
  have "unat (gen e') = rounds_after bid w 0 (put_entry bid e' (bw_manager w 0))"
    using r(3) rounds e(1) by (auto simp: rounds_after_def)
  then show ?thesis
    using mgr r link by (auto simp: barrier_inv_def post_def)
qed

text \<open>Counting a local arrival concerns no other host.\<close>

lemma local_update_inv:
  assumes inv: "barrier_inv n bid participants w"
    and e: "gen e = gen (Get (bw_manager w h) bid)" "reported e = reported (Get (bw_manager w h) bid)"
      "host_arrivals e = host_arrivals (Get (bw_manager w h) bid)" "entry_ok bid (participants h) e"
  shows "barrier_inv n bid participants
    (w\<lparr>bw_manager := (bw_manager w)(h := put_entry bid e (bw_manager w h)), bw_link := post h [] (bw_link w),
       bw_rounds := rounds_after bid w h (put_entry bid e (bw_manager w h))\<rparr>)"
proof -
  have "post h [] (bw_link w) = bw_link w" by (simp add: post_def fun_eq_iff)
  moreover have "rounds_after bid w h (put_entry bid e (bw_manager w h)) = bw_rounds w"
    by (simp add: rounds_after_def e(1))
  moreover have "worker_ok bid g h e up down a \<longleftrightarrow> worker_ok bid g h (Get (bw_manager w h) bid) up down a"
    "coordinator_ok n e \<longleftrightarrow> coordinator_ok n (Get (bw_manager w h) bid)" for g up down a
    by (simp_all only: worker_ok_def coordinator_ok_def e)
  ultimately show ?thesis
    using inv e(1,3,4) unfolding barrier_inv_def by auto
qed

lemma wait_step_inv:
  assumes n: "0 < n" "n \<le> 64" and k: "\<forall>h < n. participants h \<noteq> 0"
    and inv: "barrier_inv n bid participants w" and lim: "bw_rounds w + 1 < 2 ^ 64"
    and h: "h < n" "\<not> reported (Get (bw_manager w h) bid)"
    and call: "Wait_arrive (bw_manager w h) bid (participants h) = (c, m, msgs)"
  shows "barrier_inv n bid participants
    (w\<lparr>bw_manager := (bw_manager w)(h := m), bw_link := post h msgs (bw_link w),
       bw_rounds := rounds_after bid w h m\<rparr>)"
proof -
  let ?e = "Get (bw_manager w h) bid" and ?ec = "Get (bw_manager w 0) bid"
  let ?e2 = "?e\<lparr>bar_state := (bar_state ?e)\<lparr>local_participants := participants h,
      local_arrivals := local_arrivals (bar_state ?e) + 1\<rparr>\<rparr>"
  from inv h(1) have mgr: "bm_local_host (bw_manager w h) = h" "bm_host_count (bw_manager w h) = n"
    "bm_has_sender (bw_manager w h)" "entry_ok bid (participants h) ?e"
    by (auto simp: barrier_inv_def)
  have n': "unat n \<le> kMaxHosts" using n(2) by (simp add: word_le_nat_alt kMaxHosts_def)
  note eq = wait_arrive_eq [OF mgr(4) h(2) mgr(2) n' _ mgr(3)]
  note call' = call [unfolded eq [unfolded mgr(1), OF h(1)], unfolded Let_def]
  have less: "local_arrivals (bar_state ?e) + 1 = participants h \<or>
      local_arrivals (bar_state ?e) + 1 < participants h"
    using mgr(4) h(2) by (simp add: entry_ok_def) (metis inc_le order_le_less)
  show ?thesis
  proof (cases "local_arrivals (bar_state ?e) + 1 = participants h")
    case False
    then have "m = put_entry bid ?e2 (bw_manager w h)" "msgs = []" using call' by auto
    moreover have "entry_ok bid (participants h) ?e2"
      using less False h(2) mgr(4) by (simp add: entry_ok_def)
    ultimately show ?thesis
      using local_update_inv [OF inv, of ?e2 h] by simp
  next
    case last: True
    show ?thesis
    proof (cases "h = 0")
      case False
      then have m: "m = put_entry bid (?e2\<lparr>reported := True\<rparr>) (bw_manager w h)" and msgs: "msgs = [the_arrive bid (gen ?e)]"
        using call' last mgr(1) by auto
      have "worker_ok bid (gen ?ec) h ?e (bw_link w h 0) (bw_link w 0 h) (bit (host_arrivals ?ec) (unat h))"
        using inv h(1) False by (auto simp: barrier_inv_def)
      then have "worker_ok bid (gen ?ec) h (?e2\<lparr>reported := True\<rparr>) (bw_link w h 0 @ msgs) (bw_link w 0 h)
          (bit (host_arrivals ?ec) (unat h))"
        using h(2) by (auto simp: worker_ok_def msgs)
      then show ?thesis
        using inv last False mgr
        by (auto simp: barrier_inv_def post_def rounds_after_def entry_ok_def m msgs)
    next
      case True
      then obtain e' where arr: "ArriveLocked (bw_manager w 0) (?e2\<lparr>reported := True\<rparr>) 0 = (e', msgs)"
        and m: "m = put_entry bid e' (bw_manager w 0)"
        using call' last mgr(1) by (auto split: prod.splits)
      show ?thesis
        unfolding True m
        by (rule coordinator_arrive_inv [OF n n(1) k inv lim _ _ _ _ _ arr, where up = "\<lambda>h. bw_link w h 0"])
          (use inv mgr True last in \<open>auto simp: barrier_inv_def entry_ok_def\<close>)
    qed
  qed
qed

lemma deliver_step_inv:
  assumes n: "0 < n" "n \<le> 64" and k: "\<forall>h < n. participants h \<noteq> 0"
    and inv: "barrier_inv n bid participants w" and lim: "bw_rounds w + 1 < 2 ^ 64"
    and h: "s < n" "h < n" "bw_link w s h = x # xs"
    and call: "Handle (bw_manager w h) (msg_kind x) s (msg_id x) (msg_generation x) (msg_failed x) = (st, m, msgs)"
  shows "st = kOk \<and> barrier_inv n bid participants
    (w\<lparr>bw_manager := (bw_manager w)(h := m), bw_link := post h msgs ((bw_link w)(s := (bw_link w s)(h := xs))),
       bw_rounds := rounds_after bid w h m\<rparr>)"
proof -
  let ?e = "\<lambda>h. Get (bw_manager w h) bid"
  from inv have wk: "h \<noteq> 0 \<Longrightarrow> h < n \<Longrightarrow> worker_ok bid (gen (?e 0)) h (?e h) (bw_link w h 0) (bw_link w 0 h)
      (bit (host_arrivals (?e 0)) (unat h))" for h
    by (auto simp: barrier_inv_def)
  from inv h(2) have mgr: "bm_local_host (bw_manager w h) = h" "bm_host_count (bw_manager w h) = n"
    "entry_ok bid (participants h) (?e h)"
    by (auto simp: barrier_inv_def)
  have ends: "(s = 0) \<noteq> (h = 0)" using inv h(3) unfolding barrier_inv_def by (metis list.discI)
  show ?thesis
  proof (cases "h = 0")
    case True
    then have s0: "s \<noteq> 0" using ends by simp
    with wk [OF s0 h(1)] h(3) True have x: "x = the_arrive bid (gen (?e 0))" "xs = []" "gen (?e s) = gen (?e 0)"
      "reported (?e s)" "bw_link w 0 s = []" "\<not> bit (host_arrivals (?e 0)) (unat s)" "host_arrivals (?e s) = 0"
      by (auto simp: worker_ok_def)
    have "\<not> n \<le> s" using h(1) by simp
    then obtain e' where arr: "ArriveLocked (bw_manager w 0) (?e 0) s = (e', msgs)"
      and m: "m = put_entry bid e' (bw_manager w 0)" "st = kOk"
      using call mgr x(1) s0 unfolding True
      by (auto simp: Handle_def Let_def entry_ok_def split: prod.splits)
    have "barrier_inv n bid participants
      (w\<lparr>bw_manager := (bw_manager w)(0 := put_entry bid e' (bw_manager w 0)),
         bw_link := post 0 msgs ((bw_link w)(s := (bw_link w s)(0 := []))),
         bw_rounds := rounds_after bid w 0 (put_entry bid e' (bw_manager w 0))\<rparr>)"
    proof (rule coordinator_arrive_inv [OF n h(1) k inv lim _ _ _ _ _ arr, where up = "\<lambda>h. if h = s then [] else bw_link w h 0"])
      fix h assume "h \<noteq> 0" "h < n"
      then show "worker_ok bid (gen (?e 0)) h (?e h) (if h = s then [] else bw_link w h 0) (bw_link w 0 h)
          (h = s \<or> bit (host_arrivals (?e 0)) (unat h))"
        using wk [of h] x by (auto simp: worker_ok_def)
    qed (use inv mgr True s0 in \<open>auto simp: barrier_inv_def\<close>)
    then show ?thesis using m x(2) True by simp
  next
    case False
    then have s0: "s = 0" using ends by simp
    with wk [OF False h(2)] h(3) have x: "x = the_release bid (gen (?e h)) h" "xs = []"
      "unat (gen (?e 0)) = Suc (unat (gen (?e h)))" "reported (?e h)" "bw_link w h 0 = []"
      "\<not> bit (host_arrivals (?e 0)) (unat h)" "host_arrivals (?e h) = 0"
      by (auto simp: worker_ok_def)
    have n0: "n \<noteq> 0" using n(1) by auto
    have nb: "\<not> broken (?e h)" using mgr(3) by (simp add: entry_ok_def)
    have m: "m = put_entry bid (AdvanceLocked (?e h)) (bw_manager w h)" "msgs = []" "st = kOk"
      using call mgr(1,2) nb x(1,4) False s0 n0 by (simp_all add: Handle_def Let_def)
    have g: "gen (?e h) + 1 = gen (?e 0)"
      using x(3) unat_u64_bound [of "gen (?e 0)"] by (simp add: word_unat_eq_iff unat_word_ariths)
    have "0 < participants h" using k h(2) by (simp add: word_greater_zero_iff)
    then have "entry_ok bid (participants h) (AdvanceLocked (?e h))" "worker_ok bid (gen (?e 0)) h (AdvanceLocked (?e h)) [] []
        (bit (host_arrivals (?e 0)) (unat h))"
      using mgr(3) x g by (auto simp: entry_ok_def worker_ok_def AdvanceLocked_def)
    then show ?thesis
      using inv x False s0 by (auto simp: m barrier_inv_def post_def rounds_after_def)
  qed
qed

section \<open>What the barrier promises\<close>

lemma barrier_start_inv:
  assumes "0 < n" "n \<le> 64" and "\<forall>h < n. participants h \<noteq> 0"
  shows "barrier_inv n bid participants (barrier_start n)"
proof -
  have "bit (all_hosts n) 0" using assms(1,2) by (simp add: bit_all_hosts word_less_nat_alt)
  then have "all_hosts n \<noteq> 0" by auto
  then show ?thesis
    using assms(3) by (auto simp: barrier_inv_def barrier_start_def Get_def fresh_entry_def entry_ok_def
        coordinator_ok_def worker_ok_def word_greater_zero_iff)
qed

lemma barrier_reach_inv:
  assumes "barrier_reach n bid participants w" and n: "0 < n" "n \<le> 64"
    and k: "\<forall>h < n. participants h \<noteq> 0" and "bw_rounds w + 1 < 2 ^ 64"
  shows "barrier_inv n bid participants w"
  using assms(1,5)
proof (induction rule: barrier_reach.induct)
  case start
  show ?case by (rule barrier_start_inv [OF n k])
next
  case (step w w')
  have "bw_rounds w \<le> bw_rounds w'"
    using step.hyps(2) by cases (auto simp: rounds_after_def)
  then have lim: "bw_rounds w + 1 < 2 ^ 64" using step.prems by simp
  note inv = step.IH [OF lim]
  from step.hyps(2) show ?case
  proof cases
    case (wait h c m msgs)
    then show ?thesis using wait_step_inv [OF n k inv lim] by simp
  next
    case (deliver s h x xs st m msgs)
    then show ?thesis using deliver_step_inv [OF n k inv lim] by simp
  qed
qed

lemma barrier_inv_generations:
  assumes inv: "barrier_inv n bid participants w" and h: "h < n"
  defines "e \<equiv> Get (bw_manager w h) bid" and "c \<equiv> Get (bw_manager w 0) bid"
  shows "gen e = gen c \<or> unat (gen c) = Suc (unat (gen e)) \<and> reported e"
    and "entry_ok bid (participants h) e"
proof -
  show "entry_ok bid (participants h) e" using inv h by (simp add: barrier_inv_def e_def)
  show "gen e = gen c \<or> unat (gen c) = Suc (unat (gen e)) \<and> reported e"
  proof (cases "h = 0")
    case False
    then have "worker_ok bid (gen c) h e (bw_link w h 0) (bw_link w 0 h) (bit (host_arrivals c) (unat h))"
      using inv h unfolding barrier_inv_def e_def c_def by blast
    then show ?thesis by (auto simp: worker_ok_def)
  qed (simp add: e_def c_def)
qed

text \<open>
  C10. Barrier safety, for a cluster of up to 64 hosts used as documented and any interleaving of
  waits and message deliveries: the barrier never breaks; the generations of two hosts differ by at
  most one; and when a host has moved past a generation, every other host has moved past it too or
  all of its participants have arrived in it.  So no waiter is released early, and a released waiter
  returns success.
\<close>

theorem barrier_safety:
  assumes "barrier_reach n bid participants w" and "0 < n" and "n \<le> 64" and "\<forall>h < n. participants h \<noteq> 0"
    and "bw_rounds w + 1 < 2 ^ 64" and "h < n" and "h' < n"
  defines "e \<equiv> Get (bw_manager w h) bid" and "e' \<equiv> Get (bw_manager w h') bid"
  shows "\<not> broken e \<and> unat (gen e) \<le> unat (gen e') + 1 \<and>
    (\<forall>g. unat g \<le> unat (gen e) \<longrightarrow> Wait_wake (bw_manager w h) bid g \<noteq> None \<longrightarrow>
       Wait_wake (bw_manager w h) bid g = Some kOk \<and>
       (unat g < unat (gen e') \<or>
        gen e' = g \<and> reported e' \<and> local_arrivals (bar_state e') = participants h'))"
proof -
  note inv = barrier_reach_inv [OF assms(1-5)]
  note a = barrier_inv_generations [OF inv assms(6)] and b = barrier_inv_generations [OF inv assms(7)]
  from a(2) have ok: "\<not> broken e" by (simp add: e_def entry_ok_def)
  have near: "unat (gen e) \<le> unat (gen e') + 1" using a(1) b(1) by (auto simp: e_def e'_def)
  have "unat g < unat (gen e') \<or> gen e' = g \<and> reported e' \<and> local_arrivals (bar_state e') = participants h'"
    if "unat g \<le> unat (gen e)" "Wait_wake (bw_manager w h) bid g \<noteq> None" for g
  proof -
    have "gen e \<noteq> g" using that(2) ok by (auto simp: Wait_wake_def Let_def e_def split: if_splits)
    then have less: "unat g < unat (gen e)" using that(1) by (simp add: word_unat_eq_iff)
    show ?thesis
    proof (cases "unat g < unat (gen e')")
      case False
      then have "unat g = unat (gen e')" "unat (gen e) = Suc (unat (gen e'))" using less near by auto
      moreover have "reported e'"
      proof (rule ccontr)
        assume "\<not> reported e'"
        then have "gen e' = gen (Get (bw_manager w 0) bid)" using b(1) by (simp add: e'_def)
        moreover have "unat (gen e) \<le> unat (gen (Get (bw_manager w 0) bid))" using a(1) by (auto simp: e_def)
        ultimately show False using \<open>unat (gen e) = Suc (unat (gen e'))\<close> by simp
      qed
      ultimately show ?thesis using b(2) by (simp add: e'_def entry_ok_def word_unat_eq_iff)
    qed simp
  qed
  moreover have "Wait_wake (bw_manager w h) bid g = Some kOk" if "Wait_wake (bw_manager w h) bid g \<noteq> None" for g
    using that ok by (auto simp: Wait_wake_def Let_def e_def split: if_splits)
  ultimately show ?thesis using ok near by blast
qed

text \<open>
  The barrier does not hang: in a state without messages in flight all hosts are in the same
  generation and at least one of them still waits for a participant, so once the participants of
  every host have arrived there is a message to deliver, or the generation has been released.
\<close>

theorem barrier_quiescent:
  assumes "barrier_reach n bid participants w" and "0 < n" and "n \<le> 64" and "\<forall>h < n. participants h \<noteq> 0"
    and "bw_rounds w + 1 < 2 ^ 64" and "\<forall>s < n. \<forall>h < n. bw_link w s h = []"
  shows "(\<forall>h < n. gen (Get (bw_manager w h) bid) = gen (Get (bw_manager w 0) bid)) \<and>
    (\<exists>h < n. \<not> reported (Get (bw_manager w h) bid) \<and>
       local_arrivals (bar_state (Get (bw_manager w h) bid)) < participants h)"
proof -
  let ?c = "Get (bw_manager w 0) bid"
  note inv = barrier_reach_inv [OF assms(1-5)]
  have wk: "worker_ok bid (gen ?c) h (Get (bw_manager w h) bid) [] [] (bit (host_arrivals ?c) (unat h))"
    if "h < n" "h \<noteq> 0" for h
  proof -
    have "bw_link w h 0 = []" "bw_link w 0 h = []" using assms(2,6) that by auto
    moreover have "worker_ok bid (gen ?c) h (Get (bw_manager w h) bid) (bw_link w h 0) (bw_link w 0 h)
        (bit (host_arrivals ?c) (unat h))"
      using inv that by (simp add: barrier_inv_def)
    ultimately show ?thesis by simp
  qed
  have gens: "\<forall>h < n. gen (Get (bw_manager w h) bid) = gen ?c"
  proof (intro allI impI)
    fix h assume "h < n"
    then show "gen (Get (bw_manager w h) bid) = gen ?c"
      using wk [of h] by (cases "h = 0") (auto simp: worker_ok_def)
  qed
  have coord: "coordinator_ok n ?c" using inv by (simp add: barrier_inv_def)
  then have "\<not> (\<forall>h < n. bit (host_arrivals ?c) (unat h))"
    using full_mask_iff [OF assms(3), of "host_arrivals ?c"] by (auto simp: coordinator_ok_def)
  then obtain h where h: "h < n" "\<not> bit (host_arrivals ?c) (unat h)" by blast
  have "\<not> reported (Get (bw_manager w h) bid)"
    using h wk [OF h(1)] coord by (cases "h = 0") (auto simp: worker_ok_def coordinator_ok_def)
  moreover have "entry_ok bid (participants h) (Get (bw_manager w h) bid)"
    using inv h(1) by (simp add: barrier_inv_def)
  ultimately show ?thesis
    using gens h(1) by (auto simp: entry_ok_def)
qed

theorem barrier_safety_witness:
  "\<exists>w. barrier_reach 1 7 (\<lambda>_. 1) w \<and> gen (Get (bw_manager w 0) 7) = 1 \<and>
     Wait_wake (bw_manager w 0) 7 0 = Some kOk"
proof -
  obtain c m msgs where call: "Wait_arrive (bw_manager (barrier_start 1) 0) 7 1 = (c, m, msgs)"
    by (metis prod_cases3)
  let ?w = "(barrier_start 1)\<lparr>bw_manager := (bw_manager (barrier_start 1))(0 := m),
      bw_link := post 0 msgs (bw_link (barrier_start 1)), bw_rounds := rounds_after 7 (barrier_start 1) 0 m\<rparr>"
  have m: "gen (Get m 7) = 1" "bw_rounds ?w = 1"
    using call by (auto simp: barrier_start_def Wait_arrive_def Get_def fresh_entry_def kMaxHosts_def
        ArriveLocked_def AdvanceLocked_def all_hosts_def host_bit_def put_entry_def Let_def rounds_after_def)
  have "\<not> reported (Get (bw_manager (barrier_start 1) 0) 7)"
    by (simp add: barrier_start_def Get_def fresh_entry_def)
  then have reach: "barrier_reach 1 7 (\<lambda>_. 1) ?w"
    using barrier_reach.step [OF barrier_reach.start barrier_step.wait [of 0 1 "barrier_start 1" 7 "\<lambda>_. 1", OF _ _ call]]
    by simp
  have "Wait_wake m 7 0 \<noteq> None" using m(1) by (simp add: Wait_wake_def Let_def)
  then have "Wait_wake (bw_manager ?w 0) 7 0 = Some kOk"
    using barrier_safety [OF reach, of 0 0] m by simp
  then show ?thesis using reach m(1) by (intro exI [of _ ?w]) simp
qed

theorem barrier_quiescent_witness:
  "\<exists>h < 3. \<not> reported (Get (bw_manager (barrier_start 3) h) 7)"
  using barrier_quiescent [OF barrier_reach.start [of 3 7 "\<lambda>_. 2"]] by (auto simp: barrier_start_def)

lemma Get_put_other: "b \<noteq> bid \<Longrightarrow> Get (put_entry b e m) bid = Get m bid"
  by (simp add: Get_def put_entry_def)

lemma broken_entry_kept: "broken e \<Longrightarrow> broken (fst (BreakLocked m e))"
  by (simp add: BreakLocked_def)

text \<open>
  A broken barrier stays broken: no wait, no message of any barrier and no further break repairs
  it, every later wait on it is refused, every waiter that wakes up on it returns an error, and it
  no longer keeps the manager from being idle.
\<close>

theorem broken_is_sticky:
  assumes "broken (Get m bid)"
  shows "(case Wait_arrive m b k of (c, m', msgs) \<Rightarrow> broken (Get m' bid) \<and> (b = bid \<longrightarrow> (\<exists>st. c = Refused st) \<and> msgs = [])) \<and>
    (case Handle m knd source b g failed of (st, m', msgs) \<Rightarrow> broken (Get m' bid) \<and> (b = bid \<longrightarrow> msgs = [])) \<and>
    broken (Get (fst (Break m b)) bid) \<and> Wait_wake m bid g = Some kFailedPrecondition \<and>
    entry_idle (Get m bid)"
proof -
  have other: "Get (put_entry b x m) bid = (if b = bid then x else Get m bid)" for x
    using Get_put_other by auto
  have "case Wait_arrive m b k of (c, m', msgs) \<Rightarrow> broken (Get m' bid) \<and> (b = bid \<longrightarrow> (\<exists>st. c = Refused st) \<and> msgs = [])"
    using assms by (auto simp: Wait_arrive_def Let_def other split: prod.splits)
  moreover have "case Handle m knd source b g failed of (st, m', msgs) \<Rightarrow> broken (Get m' bid) \<and> (b = bid \<longrightarrow> msgs = [])"
    using assms by (auto simp: Handle_def Let_def other split: prod.splits)
  moreover have "broken (Get (fst (Break m b)) bid)"
    using assms broken_entry_kept [of "Get m bid" m] by (auto simp: Break_def other split: prod.splits)
  ultimately show ?thesis
    using assms by (simp add: Wait_wake_def Let_def entry_idle_def)
qed

theorem broken_is_sticky_witness:
  "broken (Get (fst (Break (bw_manager (barrier_start 2) 0) 7)) 7) \<and>
   fst (Wait_arrive (fst (Break (bw_manager (barrier_start 2) 0) 7)) 7 1) \<noteq> Waiting 0"
proof -
  let ?m = "fst (Break (bw_manager (barrier_start 2) 0) 7)"
  have b: "broken (Get ?m 7)"
    by (simp add: Break_def BreakLocked_def Get_def barrier_start_def fresh_entry_def put_entry_def split: prod.splits)
  then show ?thesis
    using broken_is_sticky [OF b, where b = 7 and k = 1 and g = 0 and knd = BarrierArrive and source = 1 and failed = False]
    by (cases "Wait_arrive ?m 7 1") auto
qed

end
