(* ===== verification/Cx_Migration.thy ===== *)
theory Cx_Migration
  imports Cx_Common
begin

text \<open>
  The home-owned migration protocol (\<^verbatim>\<open>MigrationTransaction\<close> of \<^verbatim>\<open>include/cxloom/loompar/migration.h\<close>):
  which host is the execution owner of a thread, and how that authority moves.  Every operation is a
  function on the transaction; the second half states the protocol as a step relation with a log of
  the events that changed the transaction.
\<close>

section \<open>The transaction\<close>

datatype MigrationPhase = MIdle | MRequested | MQuiesced | MPrepared | MCommitted | MAborted

record MigrationTransaction =
  mt_owner :: HostId
  mt_source :: HostId
  mt_target :: HostId
  mt_hosts :: u16
  mt_epoch :: u64
  mt_execution_epoch :: u64
  mt_phase :: MigrationPhase

definition new_transaction :: "HostId \<Rightarrow> u16 \<Rightarrow> MigrationTransaction" where
  "new_transaction owner hosts = \<lparr>mt_owner = owner, mt_source = 0, mt_target = 0, mt_hosts = hosts,
     mt_epoch = 0, mt_execution_epoch = 0, mt_phase = MIdle\<rparr>"

definition Begin :: "HostId \<Rightarrow> MigrationTransaction \<Rightarrow> u64 Result \<times> MigrationTransaction" where
  "Begin target t =
     (if mt_hosts t \<le> mt_owner t \<or> mt_hosts t \<le> target \<or> target = mt_owner t then (Inl kInvalidArgument, t)
      else if mt_phase t \<noteq> MIdle \<and> mt_phase t \<noteq> MAborted then (Inl kFailedPrecondition, t)
      else if mt_epoch t = UINT64_MAX then (Inl kUnavailable, t)
      else (Inr (mt_epoch t + 1),
            t\<lparr>mt_source := mt_owner t, mt_target := target, mt_phase := MRequested, mt_epoch := mt_epoch t + 1\<rparr>))"

definition Quiesced :: "HostId \<Rightarrow> u64 \<Rightarrow> MigrationTransaction \<Rightarrow> Status \<times> MigrationTransaction" where
  "Quiesced source epoch t =
     (if epoch \<noteq> mt_epoch t \<or> source \<noteq> mt_source t then (kFailedPrecondition, t)
      else if mt_phase t = MQuiesced \<or> mt_phase t = MPrepared then (kOk, t)
      else if mt_phase t \<noteq> MRequested then (kFailedPrecondition, t)
      else (kOk, t\<lparr>mt_phase := MQuiesced\<rparr>))"

definition Prepared :: "HostId \<Rightarrow> u64 \<Rightarrow> MigrationTransaction \<Rightarrow> Status \<times> MigrationTransaction" where
  "Prepared target epoch t =
     (if epoch \<noteq> mt_epoch t \<or> target \<noteq> mt_target t then (kFailedPrecondition, t)
      else if mt_phase t = MPrepared then (kOk, t)
      else if mt_phase t \<noteq> MQuiesced then (kFailedPrecondition, t)
      else (kOk, t\<lparr>mt_phase := MPrepared\<rparr>))"

definition Commit :: "u64 \<Rightarrow> MigrationTransaction \<Rightarrow> Status \<times> MigrationTransaction" where
  "Commit epoch t =
     (if epoch \<noteq> mt_epoch t then (kFailedPrecondition, t)
      else if mt_phase t = MCommitted then (kOk, t)
      else if mt_phase t \<noteq> MPrepared then (kFailedPrecondition, t)
      else (kOk, t\<lparr>mt_owner := mt_target t, mt_execution_epoch := mt_epoch t, mt_phase := MCommitted\<rparr>))"

definition Resumed :: "HostId \<Rightarrow> u64 \<Rightarrow> MigrationTransaction \<Rightarrow> Status \<times> MigrationTransaction" where
  "Resumed target epoch t =
     (if epoch \<noteq> mt_epoch t \<or> target \<noteq> mt_owner t \<or> mt_phase t \<noteq> MCommitted then (kFailedPrecondition, t)
      else (kOk, t\<lparr>mt_phase := MIdle\<rparr>))"

definition Abort :: "u64 \<Rightarrow> MigrationTransaction \<Rightarrow> Status \<times> MigrationTransaction" where
  "Abort epoch t =
     (if epoch \<noteq> mt_epoch t \<or> mt_phase t = MCommitted \<or> mt_phase t = MIdle then (kFailedPrecondition, t)
      else (kOk, t\<lparr>mt_phase := MAborted\<rparr>))"

definition AcceptsCompletion :: "HostId \<Rightarrow> u64 \<Rightarrow> MigrationTransaction \<Rightarrow> bool" where
  "AcceptsCompletion host execution_epoch t \<longleftrightarrow>
     host = mt_owner t \<and> execution_epoch = mt_execution_epoch t \<and>
     (mt_phase t = MIdle \<or> mt_phase t = MRequested \<or> mt_phase t = MAborted \<or> mt_phase t = MCommitted)"

section \<open>The protocol\<close>

text \<open>A call on the transaction, and its effect.\<close>

datatype MigrationCall =
    CBegin HostId
  | CQuiesced HostId u64
  | CPrepared HostId u64
  | CCommit u64
  | CResumed HostId u64
  | CAbort u64

fun apply_call :: "MigrationCall \<Rightarrow> MigrationTransaction \<Rightarrow> Status \<times> MigrationTransaction" where
  "apply_call (CBegin target) t = (case Begin target t of (r, t') \<Rightarrow> (result_status r, t'))"
| "apply_call (CQuiesced source epoch) t = Quiesced source epoch t"
| "apply_call (CPrepared target epoch) t = Prepared target epoch t"
| "apply_call (CCommit epoch) t = Commit epoch t"
| "apply_call (CResumed target epoch) t = Resumed target epoch t"
| "apply_call (CAbort epoch) t = Abort epoch t"

fun call_epoch :: "MigrationCall \<Rightarrow> u64 option" where
  "call_epoch (CBegin _) = None"
| "call_epoch (CQuiesced _ e) = Some e"
| "call_epoch (CPrepared _ e) = Some e"
| "call_epoch (CCommit e) = Some e"
| "call_epoch (CResumed _ e) = Some e"
| "call_epoch (CAbort e) = Some e"

text \<open>
  Runs of the protocol from a new transaction, with the log of the calls that changed it, each with
  the epoch after the call.
\<close>

inductive migration_run :: "HostId \<Rightarrow> u16 \<Rightarrow> MigrationTransaction \<Rightarrow> (MigrationCall \<times> u64) list \<Rightarrow> bool"
  for owner hosts where
  start: "migration_run owner hosts (new_transaction owner hosts) []"
| call: "migration_run owner hosts t log \<Longrightarrow> apply_call c t = (st, t') \<Longrightarrow>
    migration_run owner hosts t' (if t' = t then log else log @ [(c, mt_epoch t')])"

text \<open>What the log of a transaction ends with, phase by phase.\<close>

fun phase_suffix :: "MigrationTransaction \<Rightarrow> (MigrationCall \<times> u64) list" where
  "phase_suffix t =
     (let b = (CBegin (mt_target t), mt_epoch t);
          q = (CQuiesced (mt_source t) (mt_epoch t), mt_epoch t);
          p = (CPrepared (mt_target t) (mt_epoch t), mt_epoch t);
          c = (CCommit (mt_epoch t), mt_epoch t)
      in case mt_phase t of
           MRequested \<Rightarrow> [b] | MQuiesced \<Rightarrow> [b, q] | MPrepared \<Rightarrow> [b, q, p] | MCommitted \<Rightarrow> [b, q, p, c]
         | _ \<Rightarrow> [])"

definition migration_inv :: "MigrationTransaction \<Rightarrow> (MigrationCall \<times> u64) list \<Rightarrow> bool" where
  "migration_inv t log \<longleftrightarrow>
     (\<exists>pre. log = pre @ phase_suffix t) \<and>
     (\<forall>(c, e) \<in> set log. e \<le> mt_epoch t) \<and>
     mt_execution_epoch t \<le> mt_epoch t \<and>
     (mt_phase t \<in> {MRequested, MQuiesced, MPrepared} \<longrightarrow>
        mt_owner t = mt_source t \<and> mt_target t \<noteq> mt_owner t \<and> mt_target t < mt_hosts t \<and>
        mt_execution_epoch t < mt_epoch t) \<and>
     (mt_phase t = MCommitted \<longrightarrow> mt_owner t = mt_target t \<and> mt_execution_epoch t = mt_epoch t) \<and>
     (mt_phase t = MAborted \<longrightarrow> mt_execution_epoch t < mt_epoch t)"

lemmas migration_defs = Begin_def Quiesced_def Prepared_def Commit_def Resumed_def Abort_def

lemma epoch_less_succ: "(e::u64) \<noteq> UINT64_MAX \<Longrightarrow> e < e + 1"
proof -
  assume "e \<noteq> UINT64_MAX"
  then have "unat e \<noteq> unat UINT64_MAX" by (simp only: word_unat_eq_iff not_False_eq_True)
  then have "unat e + 1 < 2 ^ 64" using unat_u64_bound [of e] by simp
  then show ?thesis by (simp add: word_less_nat_alt unat_word_ariths)
qed

lemma begin_inv:
  assumes "migration_inv t log" and "Begin target t = (r, t')" and "t' \<noteq> t"
  shows "migration_inv t' (log @ [(CBegin target, mt_epoch t')])"
proof -
  have b: "t' = t\<lparr>mt_source := mt_owner t, mt_target := target, mt_phase := MRequested, mt_epoch := mt_epoch t + 1\<rparr>"
    "mt_epoch t \<noteq> UINT64_MAX" "target \<noteq> mt_owner t" "target < mt_hosts t"
    using assms(2,3) by (auto simp: Begin_def split: if_splits)
  note less = epoch_less_succ [OF b(2)]
  have "\<forall>(c, e) \<in> set log. e \<le> mt_epoch t + 1" "mt_execution_epoch t < mt_epoch t + 1"
    using assms(1) less by (auto simp: migration_inv_def)
  then show ?thesis using b by (auto simp: migration_inv_def)
qed

text \<open>The other calls leave the epoch alone and change the transaction in one way each.\<close>

lemma changing_call:
  assumes "apply_call c t = (st, t')" and "t' \<noteq> t" and "\<forall>target. c \<noteq> CBegin target"
  shows "mt_phase t = MRequested \<and> c = CQuiesced (mt_source t) (mt_epoch t) \<and> t' = t\<lparr>mt_phase := MQuiesced\<rparr> \<or>
    mt_phase t = MQuiesced \<and> c = CPrepared (mt_target t) (mt_epoch t) \<and> t' = t\<lparr>mt_phase := MPrepared\<rparr> \<or>
    mt_phase t = MPrepared \<and> c = CCommit (mt_epoch t) \<and>
      t' = t\<lparr>mt_owner := mt_target t, mt_execution_epoch := mt_epoch t, mt_phase := MCommitted\<rparr> \<or>
    mt_phase t = MCommitted \<and> c = CResumed (mt_owner t) (mt_epoch t) \<and> t' = t\<lparr>mt_phase := MIdle\<rparr> \<or>
    mt_phase t \<in> {MRequested, MQuiesced, MPrepared, MAborted} \<and> c = CAbort (mt_epoch t) \<and> t' = t\<lparr>mt_phase := MAborted\<rparr>"
  using assms
  by (cases c; cases "mt_phase t") (auto simp: Quiesced_def Prepared_def Commit_def Resumed_def Abort_def split: if_splits)

lemma migration_run_inv: "migration_run owner hosts t log \<Longrightarrow> migration_inv t log"
proof (induction rule: migration_run.induct)
  case start
  show ?case by (simp add: migration_inv_def new_transaction_def)
next
  case (call t log c st t')
  show ?case
  proof (cases "t' = t \<or> (\<exists>target. c = CBegin target)")
    case True
    then show ?thesis
      using call begin_inv [of t log] by (auto split: prod.splits)
  next
    case False
    then have "\<forall>target. c \<noteq> CBegin target" "t' \<noteq> t" by auto
    note ch = changing_call [OF call.hyps(2) this(2,1)]
    show ?thesis
      using ch call.IH \<open>t' \<noteq> t\<close> unfolding migration_inv_def
      by (elim disjE conjE) (simp_all add: Let_def, auto)
  qed
qed

text \<open>
  C14. Execution authority moves only by a complete handover: in any run of the protocol, with
  arbitrary stale, foreign, repeated and reordered messages, a call changes the owner exactly when it
  is the commit of the current epoch after that epoch's own begin, the source's quiescence and the
  target's preparation, with nothing but these four events since the begin; the new owner is the
  target and the old owner is the source.
\<close>

theorem ownership_moves_by_handover:
  assumes "migration_run owner hosts t log" and "apply_call c t = (st, t')" and "mt_owner t' \<noteq> mt_owner t"
  shows "\<exists>pre. log = pre @ [(CBegin (mt_owner t'), mt_epoch t), (CQuiesced (mt_owner t) (mt_epoch t), mt_epoch t),
      (CPrepared (mt_owner t') (mt_epoch t), mt_epoch t)] \<and>
    c = CCommit (mt_epoch t) \<and> st = kOk \<and> mt_owner t' < mt_hosts t \<and> mt_execution_epoch t' = mt_epoch t \<and>
    (\<forall>h e. AcceptsCompletion h e t' \<longrightarrow> h = mt_owner t' \<and> e = mt_epoch t)"
proof -
  have nb: "\<forall>target. c \<noteq> CBegin target" "t' \<noteq> t"
    using assms(2,3) by (auto simp: Begin_def split: if_splits)
  then have c: "mt_phase t = MPrepared" "c = CCommit (mt_epoch t)"
    "t' = t\<lparr>mt_owner := mt_target t, mt_execution_epoch := mt_epoch t, mt_phase := MCommitted\<rparr>"
    using changing_call [OF assms(2) nb(2,1)] assms(3) by auto
  moreover have "st = kOk" using assms(2) c by (auto simp: Commit_def)
  ultimately show ?thesis
    using migration_run_inv [OF assms(1)] by (auto simp: migration_inv_def AcceptsCompletion_def)
qed

text \<open>
  Stale and aborted attempts are harmless: a call that carries another epoch than the current one
  is refused and changes nothing, the epoch never decreases and grows with every accepted begin, and
  an accepted abort leaves the owner and its execution epoch in force, so the completion of the
  thread is still accepted from the owner.
\<close>

theorem stale_calls_refused:
  assumes "migration_run owner hosts t log" and "apply_call c t = (st, t')"
  shows "(\<forall>e. call_epoch c = Some e \<and> e \<noteq> mt_epoch t \<longrightarrow> st = kFailedPrecondition \<and> t' = t) \<and>
    mt_epoch t \<le> mt_epoch t' \<and> (\<forall>target. c = CBegin target \<and> st = kOk \<longrightarrow> mt_epoch t < mt_epoch t') \<and>
    (\<forall>e. c = CAbort e \<and> st = kOk \<longrightarrow> mt_owner t' = mt_owner t \<and>
       mt_execution_epoch t' = mt_execution_epoch t \<and> AcceptsCompletion (mt_owner t) (mt_execution_epoch t) t')"
proof -
  have stale: "\<forall>e. call_epoch c = Some e \<and> e \<noteq> mt_epoch t \<longrightarrow> st = kFailedPrecondition \<and> t' = t"
    using assms(2) by (cases c) (auto simp: Quiesced_def Prepared_def Commit_def Resumed_def Abort_def)
  have "mt_epoch t \<le> mt_epoch t' \<and> (st = kOk \<longrightarrow> mt_epoch t < mt_epoch t')" if "c = CBegin target" for target
    using assms(2) that epoch_less_succ [of "mt_epoch t"] by (auto simp: Begin_def split: if_splits)
  moreover have "mt_epoch t' = mt_epoch t" if "\<forall>target. c \<noteq> CBegin target"
    using changing_call [OF assms(2) _ that] by (cases "t' = t") auto
  ultimately have epochs: "mt_epoch t \<le> mt_epoch t' \<and> (\<forall>target. c = CBegin target \<and> st = kOk \<longrightarrow> mt_epoch t < mt_epoch t')"
    by (cases "\<exists>target. c = CBegin target") auto
  have "mt_owner t' = mt_owner t \<and> mt_execution_epoch t' = mt_execution_epoch t \<and>
      AcceptsCompletion (mt_owner t) (mt_execution_epoch t) t'" if "c = CAbort e" "st = kOk" for e
    using assms(2) that by (auto simp: Abort_def AcceptsCompletion_def split: if_splits)
  with stale epochs show ?thesis by blast
qed

fun run_calls :: "MigrationCall list \<Rightarrow> MigrationTransaction \<Rightarrow> MigrationTransaction" where
  "run_calls [] t = t"
| "run_calls (c # cs) t = run_calls cs (snd (apply_call c t))"

lemma migration_run_calls:
  "migration_run owner hosts t log \<Longrightarrow> \<exists>log'. migration_run owner hosts (run_calls cs t) log'"
proof (induction cs arbitrary: t log)
  case (Cons c cs)
  obtain st t' where "apply_call c t = (st, t')" by (cases "apply_call c t")
  with migration_run.call [OF Cons.prems this] Cons.IH show ?case by auto
qed auto

definition sample_handover :: MigrationTransaction where
  "sample_handover = run_calls [CBegin 2, CQuiesced 0 1, CPrepared 2 1] (new_transaction 0 3)"

lemma sample_handover_value:
  "sample_handover = \<lparr>mt_owner = 0, mt_source = 0, mt_target = 2, mt_hosts = 3, mt_epoch = 1,
     mt_execution_epoch = 0, mt_phase = MPrepared\<rparr>"
  by (simp add: sample_handover_def new_transaction_def Begin_def Quiesced_def Prepared_def)

theorem ownership_moves_by_handover_witness:
  "\<exists>log pre. migration_run 0 3 sample_handover log \<and> mt_owner (snd (Commit 1 sample_handover)) = 2 \<and>
     log = pre @ [(CBegin 2, 1), (CQuiesced 0 1, 1), (CPrepared 2 1, 1)]"
proof -
  obtain log where run: "migration_run 0 3 sample_handover log"
    using migration_run_calls [OF migration_run.start] unfolding sample_handover_def by blast
  have c: "apply_call (CCommit 1) sample_handover = (kOk, snd (Commit 1 sample_handover))"
    "mt_owner (snd (Commit 1 sample_handover)) = 2" "mt_owner sample_handover = 0" "mt_epoch sample_handover = 1"
    by (simp_all add: sample_handover_value Commit_def)
  show ?thesis using ownership_moves_by_handover [OF run c(1)] c run by auto
qed

theorem stale_calls_refused_witness:
  "Commit 9 sample_handover = (kFailedPrecondition, sample_handover)"
proof -
  obtain log where run: "migration_run 0 3 sample_handover log"
    using migration_run_calls [OF migration_run.start] unfolding sample_handover_def by blast
  obtain st t' where c: "apply_call (CCommit 9) sample_handover = (st, t')"
    by (cases "apply_call (CCommit 9) sample_handover")
  from stale_calls_refused [OF run c] have "st = kFailedPrecondition \<and> t' = sample_handover"
    by (simp add: sample_handover_value)
  with c show ?thesis by simp
qed

end
