(* ===== verification/Cx_Threads.thy ===== *)
theory Cx_Threads
  imports Cx_Common
begin

text \<open>
  The thread manager of a host (\<^verbatim>\<open>include/cxloom/loompar/threading.h\<close>, \<^verbatim>\<open>src/loompar/threading.cpp\<close>):
  the records of the threads whose home is this host, their life cycle from allocation to join, the
  ready queue of fibers and the worker loop over it.

  Records are kept by local thread id; the ready queue is a list of ids.  A fiber is represented by
  its presence: what its callback computes is the argument of the worker step (\<open>CallbackRun\<close>), and
  whether it is runnable is an argument of the pick, because both belong to the callback and to the
  context switch of \<^verbatim>\<open>fiber.cpp\<close>.  \<^verbatim>\<open>Join\<close> blocks on a condition variable and is split into the part
  before the wait, the wait's predicate and the part after it.
\<close>

section \<open>State\<close>

datatype ThreadState = TAllocated | TLaunching | TRunning | TCompleted | TJoined

datatype MigrationState = MsPinned | MsRequested | MsQuiesced | MsResumed | MsAborted

record ThreadRecord =
  tr_gtid :: GlobalThreadId
  execution_host :: HostId
  tr_state :: ThreadState
  function_id :: u64
  arg_bytes :: "u8 list"
  exit_code :: u32
  result_value :: u64
  migration_epoch :: u64
  result_bytes :: "u8 list"
  migration_state :: MigrationState
  migration_target :: HostId

record ThreadEntry =
  te_record :: ThreadRecord
  te_fiber :: bool
  te_detached :: bool
  te_worker :: int
  te_exit_code :: u32
  te_result :: u64
  te_joining :: bool
  te_queued :: bool

record ThreadManager =
  tm_local_host :: HostId
  tm_next_tid :: ThreadLocalId
  tm_records :: "ThreadLocalId \<rightharpoonup> ThreadEntry"
  tm_ready :: "ThreadLocalId list"
  tm_executing :: u32

text \<open>The hooks of a launched callback: absent, or what calling them does.\<close>

datatype HookOutcome = HookReturns Status | HookThrows

record CallbackRun =
  cb_acquire :: "HookOutcome option"
  cb_function_throws :: bool
  cb_set_result :: "u64 option"
  cb_result :: "u64 option option"
  cb_result_bytes :: "u8 list option option"
  cb_release :: "HookOutcome option"

datatype FiberOutcome = FiberDone CallbackRun | FiberFailed | FiberYielded

section \<open>Operations\<close>

definition find_home :: "ThreadManager \<Rightarrow> GlobalThreadId \<Rightarrow> ThreadEntry option" where
  "find_home m gtid = (if home_host gtid \<noteq> tm_local_host m then None else tm_records m (local_tid gtid))"

definition put_thread :: "ThreadLocalId \<Rightarrow> ThreadEntry \<Rightarrow> ThreadManager \<Rightarrow> ThreadManager" where
  "put_thread tid e m = m\<lparr>tm_records := (tm_records m)(tid \<mapsto> e)\<rparr>"

definition erase_thread :: "ThreadLocalId \<Rightarrow> ThreadManager \<Rightarrow> ThreadManager" where
  "erase_thread tid m = m\<lparr>tm_records := (tm_records m)(tid := None)\<rparr>"

definition new_manager :: "HostId \<Rightarrow> ThreadManager" where
  "new_manager host = \<lparr>tm_local_host = host, tm_next_tid = 0, tm_records = Map.empty, tm_ready = [], tm_executing = 0\<rparr>"

definition AllocateThread :: "HostId \<Rightarrow> u64 \<Rightarrow> u8 list \<Rightarrow> ThreadManager \<Rightarrow> GlobalThreadId Result \<times> ThreadManager" where
  "AllocateThread host fid args m =
     (let tid = tm_next_tid m;
          gtid = \<lparr>home_host = tm_local_host m, local_tid = tid\<rparr>;
          e = \<lparr>te_record = \<lparr>tr_gtid = gtid, execution_host = host, tr_state = TAllocated, function_id = fid,
                 arg_bytes = args, exit_code = 0, result_value = 0, migration_epoch = 0, result_bytes = [],
                 migration_state = MsPinned, migration_target = host\<rparr>,
               te_fiber = False, te_detached = False, te_worker = -1, te_exit_code = 0, te_result = 0,
               te_joining = False, te_queued = False\<rparr>;
          m1 = m\<lparr>tm_next_tid := tid + 1\<rparr>
      in (Inr gtid, if tm_records m tid = None then put_thread tid e m1 else m1))"

definition set_state :: "ThreadState \<Rightarrow> ThreadEntry \<Rightarrow> ThreadEntry" where
  "set_state s e = e\<lparr>te_record := (te_record e)\<lparr>tr_state := s\<rparr>\<rparr>"

definition MarkLaunching :: "GlobalThreadId \<Rightarrow> ThreadManager \<Rightarrow> Status \<times> ThreadManager" where
  "MarkLaunching gtid m =
     (case find_home m gtid of
        None \<Rightarrow> (kNotFound, m)
      | Some e \<Rightarrow> if tr_state (te_record e) \<noteq> TAllocated then (kFailedPrecondition, m)
                  else (kOk, put_thread (local_tid gtid) (set_state TLaunching e) m))"

definition MarkRunning :: "GlobalThreadId \<Rightarrow> ThreadManager \<Rightarrow> Status \<times> ThreadManager" where
  "MarkRunning gtid m =
     (case find_home m gtid of
        None \<Rightarrow> (kNotFound, m)
      | Some e \<Rightarrow>
          if tr_state (te_record e) = TCompleted then (kOk, m)
          else if tr_state (te_record e) \<noteq> TLaunching \<and> tr_state (te_record e) \<noteq> TRunning
          then (kFailedPrecondition, m)
          else (kOk, put_thread (local_tid gtid) (set_state TRunning e) m))"

definition MarkCompleted :: "GlobalThreadId \<Rightarrow> u32 \<Rightarrow> u64 \<Rightarrow> ThreadManager \<Rightarrow> Status \<times> ThreadManager" where
  "MarkCompleted gtid code v m =
     (case find_home m gtid of
        None \<Rightarrow> (kNotFound, m)
      | Some e \<Rightarrow>
          if tr_state (te_record e) = TCompleted then (kOk, m)
          else if tr_state (te_record e) \<noteq> TLaunching \<and> tr_state (te_record e) \<noteq> TRunning
          then (kFailedPrecondition, m)
          else if te_detached e then (kOk, erase_thread (local_tid gtid) m)
          else (kOk, put_thread (local_tid gtid)
                  (e\<lparr>te_record := (te_record e)\<lparr>exit_code := code, result_value := v, tr_state := TCompleted\<rparr>\<rparr>) m))"

text \<open>
  \<^verbatim>\<open>Launch\<close>; the last argument says whether allocating the fiber succeeds.  The record's argument
  bytes move into the fiber's closure before the allocation can throw.
\<close>

definition Launch :: "GlobalThreadId \<Rightarrow> bool \<Rightarrow> bool \<Rightarrow> ThreadManager \<Rightarrow> Status \<times> ThreadManager" where
  "Launch gtid has_function fiber_ok m =
     (case find_home m gtid of
        None \<Rightarrow> (kNotFound, m)
      | Some e \<Rightarrow>
          if \<not> has_function \<or> tr_state (te_record e) \<noteq> TLaunching then (kFailedPrecondition, m)
          else
            let e1 = e\<lparr>te_record := (te_record e)\<lparr>arg_bytes := []\<rparr>\<rparr> in
            if \<not> fiber_ok
            then (kUnavailable, put_thread (local_tid gtid)
                    (e1\<lparr>te_record := (te_record e1)\<lparr>tr_state := TCompleted, exit_code := -1\<rparr>\<rparr>) m)
            else (kOk, (put_thread (local_tid gtid) ((set_state TRunning e1)\<lparr>te_fiber := True, te_queued := True\<rparr>) m)
                    \<lparr>tm_ready := tm_ready m @ [local_tid gtid]\<rparr>))"

text \<open>
  The closure that \<^verbatim>\<open>Launch\<close> gives the fiber: acquire, the function, the result hooks, release, and
  the exit code they leave in the entry.
\<close>

definition run_callback :: "CallbackRun \<Rightarrow> ThreadEntry \<Rightarrow> ThreadEntry" where
  "run_callback cb e =
     (let acquired = (case cb_acquire cb of None \<Rightarrow> True | Some (HookReturns st) \<Rightarrow> st = kOk | Some HookThrows \<Rightarrow> False);
          e1 = (if acquired then (case cb_set_result cb of None \<Rightarrow> e | Some v \<Rightarrow> e\<lparr>te_result := v\<rparr>) else e);
          ran = (acquired \<and> \<not> cb_function_throws cb);
          e2 = (if ran then (case cb_result cb of Some (Some v) \<Rightarrow> e1\<lparr>te_result := v\<rparr> | _ \<Rightarrow> e1) else e1);
          result_ok' = (ran \<and> cb_result cb \<noteq> Some None);
          e3 = (if result_ok'
                then (case cb_result_bytes cb of
                        Some (Some bs) \<Rightarrow> e2\<lparr>te_record := (te_record e2)\<lparr>result_bytes := bs\<rparr>\<rparr> | _ \<Rightarrow> e2)
                else e2);
          body_ok = (result_ok' \<and> cb_result_bytes cb \<noteq> Some None);
          released = (case cb_release cb of None \<Rightarrow> True | Some (HookReturns st) \<Rightarrow> st = kOk | Some HookThrows \<Rightarrow> False)
      in e3\<lparr>te_exit_code := (if body_ok \<and> released then 0 else -1)\<rparr>)"

text \<open>One iteration of the worker's search: the first candidate of the ready queue, if any.\<close>

definition WorkerPick :: "nat \<Rightarrow> (ThreadLocalId \<Rightarrow> bool) \<Rightarrow> ThreadManager \<Rightarrow> ThreadLocalId option \<times> ThreadManager" where
  "WorkerPick worker runnable m =
     (case find (\<lambda>tid. (case tm_records m tid of None \<Rightarrow> False
                         | Some e \<Rightarrow> te_worker e < 0 \<or> te_worker e = int worker) \<and> runnable tid) (tm_ready m) of
        None \<Rightarrow> (None, m)
      | Some tid \<Rightarrow>
          (case tm_records m tid of
             None \<Rightarrow> (None, m)
           | Some e \<Rightarrow>
               (Some tid, (put_thread tid (e\<lparr>te_worker := int worker, te_queued := False\<rparr>) m)
                  \<lparr>tm_ready := remove1 tid (tm_ready m), tm_executing := tm_executing m + 1\<rparr>)))"

text \<open>The worker after the fiber it picked has left its stack.\<close>

definition WorkerReturn :: "ThreadLocalId \<Rightarrow> FiberOutcome \<Rightarrow> ThreadManager \<Rightarrow> ThreadManager" where
  "WorkerReturn tid outcome m =
     (case tm_records m tid of
        None \<Rightarrow> m
      | Some e \<Rightarrow>
          let finish = (\<lambda>e1. snd (MarkCompleted (tr_gtid (te_record e1)) (te_exit_code e1) (te_result e1)
                (put_thread tid (e1\<lparr>te_fiber := False\<rparr>) (m\<lparr>tm_executing := tm_executing m - 1\<rparr>))))
          in case outcome of
               FiberDone cb \<Rightarrow> finish (run_callback cb e)
             | FiberFailed \<Rightarrow> finish (e\<lparr>te_exit_code := -1\<rparr>)
             | FiberYielded \<Rightarrow>
                 let e1 = (if migration_state (te_record e) = MsQuiesced
                           then e\<lparr>te_record := (te_record e)\<lparr>migration_state := MsResumed\<rparr>\<rparr> else e)
                 in (put_thread tid (e1\<lparr>te_queued := True\<rparr>) m)
                      \<lparr>tm_executing := tm_executing m - 1, tm_ready := tm_ready m @ [tid]\<rparr>)"

definition MigrationSafePoint :: "GlobalThreadId \<Rightarrow> bool \<Rightarrow> ThreadManager \<Rightarrow> Status \<times> ThreadManager" where
  "MigrationSafePoint gtid called_by_fiber m =
     (case find_home m gtid of
        None \<Rightarrow> (kNotFound, m)
      | Some e \<Rightarrow>
          if \<not> called_by_fiber then (kFailedPrecondition, m)
          else (kOk, if migration_state (te_record e) = MsRequested
                     then put_thread (local_tid gtid)
                            (e\<lparr>te_record := (te_record e)\<lparr>migration_state := MsQuiesced\<rparr>\<rparr>) m
                     else m))"

definition RequestMigration :: "GlobalThreadId \<Rightarrow> HostId \<Rightarrow> ThreadManager \<Rightarrow> Status \<times> ThreadManager" where
  "RequestMigration gtid target m =
     (case find_home m gtid of
        None \<Rightarrow> (kNotFound, m)
      | Some e \<Rightarrow>
          if tr_state (te_record e) \<noteq> TRunning \<or> migration_state (te_record e) \<noteq> MsPinned then (kFailedPrecondition, m)
          else (kOk, put_thread (local_tid gtid)
                  (e\<lparr>te_record := (te_record e)\<lparr>migration_target := target,
                       migration_epoch := migration_epoch (te_record e) + 1, migration_state := MsRequested\<rparr>\<rparr>) m))"

text \<open>\<^verbatim>\<open>Join\<close> up to the wait (\<open>None\<close>: it waits), the wait's predicate, and the rest.\<close>

definition Join_begin :: "GlobalThreadId \<Rightarrow> bool \<Rightarrow> ThreadManager \<Rightarrow> Status option \<times> ThreadManager" where
  "Join_begin gtid is_self m =
     (case find_home m gtid of
        None \<Rightarrow> (Some kNotFound, m)
      | Some e \<Rightarrow>
          if is_self then (Some kFailedPrecondition, m)
          else if te_joining e \<or> te_detached e then (Some kFailedPrecondition, m)
          else if tr_state (te_record e) = TAllocated then (Some kFailedPrecondition, m)
          else (None, put_thread (local_tid gtid) (e\<lparr>te_joining := True\<rparr>) m))"

definition Join_wake :: "GlobalThreadId \<Rightarrow> ThreadManager \<Rightarrow> bool" where
  "Join_wake gtid m = (case tm_records m (local_tid gtid) of None \<Rightarrow> False | Some e \<Rightarrow> tr_state (te_record e) = TCompleted)"

definition Join_finish :: "GlobalThreadId \<Rightarrow> HookOutcome option \<Rightarrow> ThreadManager \<Rightarrow> (Status \<times> u64) option \<times> ThreadManager" where
  "Join_finish gtid acquire m =
     (case tm_records m (local_tid gtid) of
        None \<Rightarrow> (None, m)
      | Some e \<Rightarrow>
          let acquire_status = (case acquire of None \<Rightarrow> kOk | Some (HookReturns st) \<Rightarrow> st | Some HookThrows \<Rightarrow> kInternal);
              st = (if acquire_status \<noteq> kOk then acquire_status
                    else if exit_code (te_record e) = 0 then kOk else kInternal)
          in (Some (st, result_value (te_record e)), erase_thread (local_tid gtid) m))"

definition Detach :: "GlobalThreadId \<Rightarrow> ThreadManager \<Rightarrow> Status \<times> ThreadManager" where
  "Detach gtid m =
     (case find_home m gtid of
        None \<Rightarrow> (kNotFound, m)
      | Some e \<Rightarrow>
          if tr_state (te_record e) = TAllocated then (kFailedPrecondition, m)
          else if te_joining e \<or> te_detached e then (kFailedPrecondition, m)
          else if tr_state (te_record e) = TCompleted then (kOk, erase_thread (local_tid gtid) m)
          else (kOk, put_thread (local_tid gtid) (e\<lparr>te_detached := True\<rparr>) m))"

definition Find :: "GlobalThreadId \<Rightarrow> ThreadManager \<Rightarrow> ThreadRecord Result" where
  "Find gtid m = (case find_home m gtid of None \<Rightarrow> Inl kNotFound | Some e \<Rightarrow> Inr (te_record e))"

section \<open>The manager as a state machine\<close>

text \<open>
  The steps of the manager.  A completion from outside (\<^verbatim>\<open>CompleteNotify\<close> or a failed remote launch)
  concerns a thread that does not run here, so it has no fiber; a worker returns a fiber it picked.
\<close>

inductive thread_step :: "ThreadManager \<Rightarrow> ThreadManager \<Rightarrow> bool" where
  allocate: "tm_next_tid m \<noteq> UINT64_MAX \<Longrightarrow> thread_step m (snd (AllocateThread host fid args m))"
| launching: "thread_step m (snd (MarkLaunching gtid m))"
| running: "thread_step m (snd (MarkRunning gtid m))"
| completed: "(\<And>e. find_home m gtid = Some e \<Longrightarrow> \<not> te_fiber e) \<Longrightarrow> thread_step m (snd (MarkCompleted gtid code v m))"
| launch: "thread_step m (snd (Launch gtid has_function fiber_ok m))"
| pick: "thread_step m (snd (WorkerPick worker runnable m))"
| returned: "tm_records m tid = Some e \<Longrightarrow> te_fiber e \<Longrightarrow> \<not> te_queued e \<Longrightarrow> thread_step m (WorkerReturn tid outcome m)"
| safe_point: "thread_step m (snd (MigrationSafePoint gtid called m))"
| migrate: "thread_step m (snd (RequestMigration gtid target m))"
| join_begin: "thread_step m (snd (Join_begin gtid is_self m))"
| join_finish: "tm_records m (local_tid gtid) = Some e \<Longrightarrow> te_joining e \<Longrightarrow> Join_wake gtid m \<Longrightarrow>
    thread_step m (snd (Join_finish gtid acquire m))"
| detach: "thread_step m (snd (Detach gtid m))"

inductive thread_reach :: "HostId \<Rightarrow> ThreadManager \<Rightarrow> bool" for host where
  start: "thread_reach host (new_manager host)"
| step: "thread_reach host m \<Longrightarrow> thread_step m m' \<Longrightarrow> thread_reach host m'"

section \<open>The life cycle\<close>

fun state_rank :: "ThreadState \<Rightarrow> nat" where
  "state_rank TAllocated = 0"
| "state_rank TLaunching = 1"
| "state_rank TRunning = 2"
| "state_rank TCompleted = 3"
| "state_rank TJoined = 4"

definition thread_ok :: "HostId \<Rightarrow> ThreadLocalId \<Rightarrow> ThreadEntry \<Rightarrow> bool" where
  "thread_ok host tid e \<longleftrightarrow>
     tr_gtid (te_record e) = \<lparr>home_host = host, local_tid = tid\<rparr> \<and> tr_state (te_record e) \<noteq> TJoined \<and>
     (te_fiber e \<longrightarrow> tr_state (te_record e) = TRunning) \<and> (te_queued e \<longrightarrow> te_fiber e) \<and>
     \<not> (te_joining e \<and> te_detached e) \<and> (te_joining e \<or> te_detached e \<longrightarrow> tr_state (te_record e) \<noteq> TAllocated)"

definition threads_inv :: "ThreadManager \<Rightarrow> bool" where
  "threads_inv m \<longleftrightarrow>
     (\<forall>tid e. tm_records m tid = Some e \<longrightarrow> thread_ok (tm_local_host m) tid e \<and> tid < tm_next_tid m) \<and>
     distinct (tm_ready m) \<and> (\<forall>tid. tid \<in> set (tm_ready m) \<longleftrightarrow> (\<exists>e. tm_records m tid = Some e \<and> te_queued e))"

text \<open>How an entry may change: the state advances, and a completion is final.\<close>

definition advances :: "ThreadEntry \<Rightarrow> ThreadEntry \<Rightarrow> bool" where
  "advances e e' \<longleftrightarrow> tr_gtid (te_record e') = tr_gtid (te_record e) \<and>
     state_rank (tr_state (te_record e)) \<le> state_rank (tr_state (te_record e')) \<and>
     (te_joining e \<longrightarrow> te_joining e') \<and> (te_detached e \<longrightarrow> te_detached e') \<and>
     (tr_state (te_record e) = TCompleted \<longrightarrow>
        exit_code (te_record e') = exit_code (te_record e) \<and> result_value (te_record e') = result_value (te_record e))"

text \<open>Why an entry may disappear: it is detached, or it is completed and joined or just being detached.\<close>

definition disposable :: "ThreadEntry \<Rightarrow> bool" where
  "disposable e \<longleftrightarrow> te_detached e \<or> tr_state (te_record e) = TCompleted"

text \<open>What a step does to the table: nothing to any entry but at most one, which advances or goes.\<close>

definition table_step :: "ThreadManager \<Rightarrow> ThreadManager \<Rightarrow> bool" where
  "table_step m m' \<longleftrightarrow> threads_inv m' \<and> tm_local_host m' = tm_local_host m \<and> tm_next_tid m \<le> tm_next_tid m' \<and>
     (\<forall>tid. case tm_records m tid of
        None \<Rightarrow> tid < tm_next_tid m \<longrightarrow> tm_records m' tid = None
      | Some e \<Rightarrow> (case tm_records m' tid of None \<Rightarrow> disposable e | Some e' \<Rightarrow> advances e e'))"

lemma advances_refl [simp]: "advances e e"
  by (simp add: advances_def)

lemma table_step_refl: "threads_inv m \<Longrightarrow> table_step m m"
  by (simp add: table_step_def split: option.splits)

lemma table_step_put:
  assumes "threads_inv m" and "tm_records m tid = Some e" and "thread_ok (tm_local_host m) tid e'"
    and "te_queued e' = te_queued e" and "advances e e'"
  shows "table_step m (put_thread tid e' m)"
  using assms by (auto simp: table_step_def threads_inv_def put_thread_def split: option.splits)

lemma table_step_erase:
  assumes "threads_inv m" and "tm_records m tid = Some e" and "\<not> te_queued e" and "disposable e"
  shows "table_step m (erase_thread tid m)"
  using assms by (auto simp: table_step_def threads_inv_def erase_thread_def split: option.splits)

lemma find_home_Some:
  "find_home m gtid = Some e \<longleftrightarrow> home_host gtid = tm_local_host m \<and> tm_records m (local_tid gtid) = Some e"
  by (auto simp: find_home_def)

lemma threads_inv_entry:
  "threads_inv m \<Longrightarrow> tm_records m tid = Some e \<Longrightarrow> thread_ok (tm_local_host m) tid e \<and> tid < tm_next_tid m"
  by (simp add: threads_inv_def)

lemmas entry_simps = thread_ok_def advances_def set_state_def disposable_def

lemma home_entry:
  assumes "threads_inv m" and "find_home m gtid = Some e"
  shows "tm_records m (local_tid gtid) = Some e" "thread_ok (tm_local_host m) (local_tid gtid) e"
  using assms threads_inv_entry by (auto simp: find_home_Some)

lemma MarkLaunching_step: "threads_inv m \<Longrightarrow> table_step m (snd (MarkLaunching gtid m))"
  by (cases "find_home m gtid")
    (auto simp: MarkLaunching_def entry_simps dest: home_entry intro!: table_step_refl table_step_put)

lemma MarkRunning_step: "threads_inv m \<Longrightarrow> table_step m (snd (MarkRunning gtid m))"
  by (cases "find_home m gtid")
    (auto simp: MarkRunning_def entry_simps dest: home_entry intro!: table_step_refl table_step_put)

lemma MigrationSafePoint_step: "threads_inv m \<Longrightarrow> table_step m (snd (MigrationSafePoint gtid called m))"
  by (cases "find_home m gtid")
    (auto simp: MigrationSafePoint_def entry_simps dest: home_entry intro!: table_step_refl table_step_put)

lemma RequestMigration_step: "threads_inv m \<Longrightarrow> table_step m (snd (RequestMigration gtid target m))"
  by (cases "find_home m gtid")
    (auto simp: RequestMigration_def entry_simps dest: home_entry intro!: table_step_refl table_step_put)

lemma Join_begin_step: "threads_inv m \<Longrightarrow> table_step m (snd (Join_begin gtid is_self m))"
  by (cases "find_home m gtid")
    (auto simp: Join_begin_def entry_simps dest: home_entry intro!: table_step_refl table_step_put)

lemma Detach_step: "threads_inv m \<Longrightarrow> table_step m (snd (Detach gtid m))"
  by (cases "find_home m gtid")
    (auto simp: Detach_def entry_simps dest: home_entry intro!: table_step_refl table_step_put table_step_erase)

lemma MarkCompleted_step:
  assumes "threads_inv m" and "\<And>e. find_home m gtid = Some e \<Longrightarrow> \<not> te_fiber e"
  shows "table_step m (snd (MarkCompleted gtid code v m))"
  using assms
  by (cases "find_home m gtid")
    (auto simp: MarkCompleted_def entry_simps dest: home_entry intro!: table_step_refl table_step_put table_step_erase)

lemma table_step_executing: "table_step m m' \<Longrightarrow> table_step m (m'\<lparr>tm_executing := x\<rparr>)"
  unfolding table_step_def threads_inv_def by (elim conjE, intro conjI) (simp_all cong: option.case_cong)

lemma threads_inv_executing: "threads_inv (m\<lparr>tm_executing := x\<rparr>) = threads_inv m"
  by (simp add: threads_inv_def)

lemma table_step_enqueue:
  assumes "threads_inv m" and "tm_records m tid = Some e" and "\<not> te_queued e" and "te_queued e'"
    and "thread_ok (tm_local_host m) tid e'" and "advances e e'"
  shows "table_step m ((put_thread tid e' m)\<lparr>tm_ready := tm_ready m @ [tid]\<rparr>)"
  using assms by (auto simp: table_step_def threads_inv_def put_thread_def split: option.splits)

lemma table_step_dequeue:
  assumes "threads_inv m" and "tm_records m tid = Some e" and "te_queued e" and "\<not> te_queued e'"
    and "thread_ok (tm_local_host m) tid e'" and "advances e e'"
  shows "table_step m ((put_thread tid e' m)\<lparr>tm_ready := remove1 tid (tm_ready m)\<rparr>)"
  using assms by (auto simp: table_step_def threads_inv_def put_thread_def split: option.splits)

lemma Launch_step: "threads_inv m \<Longrightarrow> table_step m (snd (Launch gtid has_function fiber_ok m))"
  by (cases "find_home m gtid")
    (auto simp: Launch_def Let_def entry_simps dest: home_entry intro!: table_step_refl table_step_put table_step_enqueue)

lemma WorkerPick_step:
  assumes inv: "threads_inv m"
  shows "table_step m (snd (WorkerPick worker runnable m))"
proof (cases "fst (WorkerPick worker runnable m)")
  case None
  then have "snd (WorkerPick worker runnable m) = m"
    by (auto simp: WorkerPick_def split: option.splits)
  then show ?thesis using table_step_refl [OF inv] by simp
next
  case (Some tid)
  then obtain e where tid: "tid \<in> set (tm_ready m)" and e: "tm_records m tid = Some e"
    and p: "snd (WorkerPick worker runnable m) =
      ((put_thread tid (e\<lparr>te_worker := int worker, te_queued := False\<rparr>) m)\<lparr>tm_ready := remove1 tid (tm_ready m)\<rparr>)
        \<lparr>tm_executing := tm_executing m + 1\<rparr>"
    by (auto simp: WorkerPick_def find_Some_iff split: option.splits)
  have "te_queued e" using inv tid e by (auto simp: threads_inv_def)
  then show ?thesis
    unfolding p using inv e threads_inv_entry [OF inv e]
    by (intro table_step_executing table_step_dequeue) (auto simp: entry_simps)
qed

lemma run_callback_frame:
  "tr_gtid (te_record (run_callback cb e)) = tr_gtid (te_record e)"
  "tr_state (te_record (run_callback cb e)) = tr_state (te_record e)"
  "te_detached (run_callback cb e) = te_detached e" "te_joining (run_callback cb e) = te_joining e"
  "te_queued (run_callback cb e) = te_queued e"
  by (simp_all add: run_callback_def Let_def split: option.splits)

text \<open>The end of a fiber: the entry is completed, or erased when it is detached.\<close>

lemma finish_step:
  assumes inv: "threads_inv m" and e: "tm_records m tid = Some e" "te_fiber e" "\<not> te_queued e"
    and e1: "tr_gtid (te_record e1) = tr_gtid (te_record e)" "tr_state (te_record e1) = tr_state (te_record e)"
      "te_detached e1 = te_detached e" "te_joining e1 = te_joining e" "te_queued e1 = te_queued e"
  shows "table_step m (snd (MarkCompleted (tr_gtid (te_record e1)) c v
    (put_thread tid (e1\<lparr>te_fiber := False\<rparr>) (m\<lparr>tm_executing := x\<rparr>))))"
proof -
  let ?m = "put_thread tid (e1\<lparr>te_fiber := False\<rparr>) (m\<lparr>tm_executing := x\<rparr>)"
  have ok: "thread_ok (tm_local_host m) tid e" using threads_inv_entry [OF inv e(1)] by simp
  have f: "find_home ?m (tr_gtid (te_record e1)) = Some (e1\<lparr>te_fiber := False\<rparr>)"
    using ok e1(1) by (simp add: find_home_Some put_thread_def thread_ok_def)
  have run: "tr_state (te_record e1) = TRunning" and tid: "local_tid (tr_gtid (te_record e1)) = tid"
    using ok e1 e(2) by (auto simp: thread_ok_def)
  show ?thesis
  proof (cases "te_detached e1")
    case True
    have "snd (MarkCompleted (tr_gtid (te_record e1)) c v ?m) = (erase_thread tid m)\<lparr>tm_executing := x\<rparr>"
      using f run True tid by (simp add: MarkCompleted_def erase_thread_def put_thread_def fun_eq_iff)
    then show ?thesis
      using inv e True e1(3) by (auto intro!: table_step_executing table_step_erase simp: disposable_def)
  next
    case False
    let ?e = "e1\<lparr>te_fiber := False, te_record := (te_record e1)\<lparr>exit_code := c, result_value := v, tr_state := TCompleted\<rparr>\<rparr>"
    have "snd (MarkCompleted (tr_gtid (te_record e1)) c v ?m) = (put_thread tid ?e m)\<lparr>tm_executing := x\<rparr>"
      using f run False tid by (simp add: MarkCompleted_def put_thread_def)
    moreover have "table_step m (put_thread tid ?e m)"
      using ok e1 e run by (intro table_step_put [OF inv e(1)]) (auto simp: thread_ok_def advances_def)
    ultimately show ?thesis by (simp add: table_step_executing)
  qed
qed

lemma WorkerReturn_step:
  assumes inv: "threads_inv m" and e: "tm_records m tid = Some e" "te_fiber e" "\<not> te_queued e"
  shows "table_step m (WorkerReturn tid outcome m)"
proof (cases outcome)
  case (FiberDone cb)
  then show ?thesis
    using finish_step [OF inv e, of "run_callback cb e"] by (simp add: WorkerReturn_def Let_def e run_callback_frame)
next
  case FiberFailed
  then show ?thesis
    using finish_step [OF inv e, of "e\<lparr>te_exit_code := -1\<rparr>"] by (simp add: WorkerReturn_def Let_def e)
next
  case FiberYielded
  let ?e1 = "if migration_state (te_record e) = MsQuiesced
             then e\<lparr>te_record := (te_record e)\<lparr>migration_state := MsResumed\<rparr>\<rparr> else e"
  have "WorkerReturn tid outcome m =
      ((put_thread tid (?e1\<lparr>te_queued := True\<rparr>) m)\<lparr>tm_ready := tm_ready m @ [tid]\<rparr>)\<lparr>tm_executing := tm_executing m - 1\<rparr>"
    using FiberYielded e(1) by (simp add: WorkerReturn_def Let_def)
  then show ?thesis
    using inv e threads_inv_entry [OF inv e(1)]
    by (auto intro!: table_step_executing table_step_enqueue simp: entry_simps)
qed

lemma AllocateThread_step:
  assumes inv: "threads_inv m" and "tm_next_tid m \<noteq> UINT64_MAX"
  shows "table_step m (snd (AllocateThread host fid args m))"
    and "tm_records m (tm_next_tid m) = None"
proof -
  have less: "tm_next_tid m < tm_next_tid m + 1"
  proof -
    have "unat (tm_next_tid m) \<noteq> unat UINT64_MAX" using assms(2) by (simp only: word_unat_eq_iff not_False_eq_True)
    then have "unat (tm_next_tid m) + 1 < 2 ^ 64" using unat_u64_bound [of "tm_next_tid m"] by simp
    then show ?thesis by (simp add: word_less_nat_alt unat_word_ariths)
  qed
  show none: "tm_records m (tm_next_tid m) = None"
    using inv by (cases "tm_records m (tm_next_tid m)") (auto simp: threads_inv_def)
  show "table_step m (snd (AllocateThread host fid args m))"
    using inv less none
    by (auto simp: table_step_def threads_inv_def AllocateThread_def Let_def put_thread_def thread_ok_def
        split: option.splits intro: less_trans less_imp_le)
qed

lemma thread_step_table: "thread_step m m' \<Longrightarrow> threads_inv m \<Longrightarrow> table_step m m'"
proof (induction rule: thread_step.induct)
  case (join_finish m gtid e acquire)
  then have "table_step m (erase_thread (local_tid gtid) m)"
    using threads_inv_entry [OF join_finish.prems join_finish.hyps(1)]
    by (intro table_step_erase) (auto simp: Join_wake_def disposable_def thread_ok_def)
  then show ?case using join_finish by (simp add: Join_finish_def Let_def)
qed (simp_all add: AllocateThread_step MarkLaunching_step MarkRunning_step MarkCompleted_step Launch_step
    WorkerPick_step WorkerReturn_step MigrationSafePoint_step RequestMigration_step Join_begin_step Detach_step)

lemma thread_reach_inv: "thread_reach host m \<Longrightarrow> threads_inv m"
proof (induction rule: thread_reach.induct)
  case start
  show ?case by (simp add: threads_inv_def new_manager_def)
next
  case (step m m')
  then show ?case using thread_step_table by (auto simp: table_step_def)
qed

text \<open>
  C15. The life cycle of a thread, over every reachable state and every step of the manager: the ready
  queue holds exactly the queued fibers, each once, and only running threads have fibers; a
  thread's state only moves forward and a completed thread keeps its first exit code and result; an
  entry goes away only when it is detached or completed; and the id of an entry that is gone is never
  used again.
\<close>

theorem thread_life_cycle:
  assumes "thread_reach host m" and "thread_step m m'"
  shows "distinct (tm_ready m') \<and>
    (\<forall>tid. tid \<in> set (tm_ready m') \<longleftrightarrow> (\<exists>e. tm_records m' tid = Some e \<and> te_queued e)) \<and>
    (\<forall>tid e. tm_records m' tid = Some e \<longrightarrow> (te_queued e \<longrightarrow> te_fiber e) \<and>
       (te_fiber e \<longrightarrow> tr_state (te_record e) = TRunning) \<and> \<not> (te_joining e \<and> te_detached e)) \<and>
    (\<forall>tid e. tm_records m tid = Some e \<longrightarrow>
       (case tm_records m' tid of
          None \<Rightarrow> te_detached e \<or> tr_state (te_record e) = TCompleted
        | Some e' \<Rightarrow> state_rank (tr_state (te_record e)) \<le> state_rank (tr_state (te_record e')) \<and>
            (tr_state (te_record e) = TCompleted \<longrightarrow>
               exit_code (te_record e') = exit_code (te_record e) \<and>
               result_value (te_record e') = result_value (te_record e)))) \<and>
    (\<forall>tid. tm_records m tid = None \<and> tid < tm_next_tid m \<longrightarrow> tm_records m' tid = None)"
proof -
  have t: "table_step m m'" by (rule thread_step_table [OF assms(2) thread_reach_inv [OF assms(1)]])
  then have inv: "threads_inv m'" by (simp add: table_step_def)
  have "case tm_records m' tid of
          None \<Rightarrow> te_detached e \<or> tr_state (te_record e) = TCompleted
        | Some e' \<Rightarrow> state_rank (tr_state (te_record e)) \<le> state_rank (tr_state (te_record e')) \<and>
            (tr_state (te_record e) = TCompleted \<longrightarrow>
               exit_code (te_record e') = exit_code (te_record e) \<and>
               result_value (te_record e') = result_value (te_record e))" if e: "tm_records m tid = Some e" for tid e
  proof -
    from t have "case tm_records m tid of None \<Rightarrow> tid < tm_next_tid m \<longrightarrow> tm_records m' tid = None
        | Some e \<Rightarrow> (case tm_records m' tid of None \<Rightarrow> disposable e | Some e' \<Rightarrow> advances e e')"
      unfolding table_step_def by blast
    with e show ?thesis by (cases "tm_records m' tid") (simp_all add: disposable_def advances_def)
  qed
  moreover have "tm_records m' tid = None" if "tm_records m tid = None" "tid < tm_next_tid m" for tid
  proof -
    from t have "case tm_records m tid of None \<Rightarrow> tid < tm_next_tid m \<longrightarrow> tm_records m' tid = None
        | Some e \<Rightarrow> (case tm_records m' tid of None \<Rightarrow> disposable e | Some e' \<Rightarrow> advances e e')"
      unfolding table_step_def by blast
    with that show ?thesis by simp
  qed
  moreover have "(te_queued e \<longrightarrow> te_fiber e) \<and> (te_fiber e \<longrightarrow> tr_state (te_record e) = TRunning) \<and>
      \<not> (te_joining e \<and> te_detached e)" if "tm_records m' tid = Some e" for tid e
    using inv that by (auto simp: threads_inv_def thread_ok_def)
  ultimately show ?thesis using inv by (simp add: threads_inv_def)
qed

text \<open>A run that allocates, launches and completes one thread.\<close>

definition sample_gtid :: GlobalThreadId where
  "sample_gtid = \<lparr>home_host = 3, local_tid = 0\<rparr>"

definition sample_launched :: ThreadManager where
  "sample_launched = snd (Launch sample_gtid True True (snd (MarkLaunching sample_gtid
     (snd (AllocateThread 3 42 [1, 2] (new_manager 3))))))"

lemma sample_launched_reach: "thread_reach 3 sample_launched"
  unfolding sample_launched_def
  by (intro thread_reach.step [OF _ thread_step.launch] thread_reach.step [OF _ thread_step.launching]
      thread_reach.step [OF thread_reach.start thread_step.allocate]) (simp add: new_manager_def)

lemma sample_launched_ready: "tm_ready sample_launched = [0]" "tm_next_tid sample_launched = 1"
  by (simp_all add: sample_launched_def Launch_def MarkLaunching_def AllocateThread_def new_manager_def
      find_home_def put_thread_def set_state_def sample_gtid_def Let_def)

theorem thread_life_cycle_witness:
  "\<exists>m'. thread_step sample_launched m' \<and> tm_ready m' = [] \<and>
     (\<forall>tid. tid \<in> set (tm_ready m') \<longleftrightarrow> (\<exists>e. tm_records m' tid = Some e \<and> te_queued e))"
proof -
  let ?m = "snd (WorkerPick 0 (\<lambda>_. True) sample_launched)"
  have step: "thread_step sample_launched ?m" by (rule thread_step.pick)
  have "tm_ready ?m = []"
    by (simp add: WorkerPick_def sample_launched_def Launch_def MarkLaunching_def AllocateThread_def new_manager_def
      find_home_def put_thread_def set_state_def sample_gtid_def Let_def)
  with step thread_life_cycle [OF sample_launched_reach step] show ?thesis by blast
qed

section \<open>Completion and join\<close>

text \<open>
  Join reports the first completion: when a completion reaches an active thread that is not
  detached, any later completion and any delayed running acknowledgement succeed without effect,
  the joiner's predicate holds, and the join returns that completion's result, success exactly for
  exit code zero when the acquire hook succeeds, and removes the record, after which the thread is
  unknown.
\<close>

theorem completion_is_final:
  assumes "find_home m gtid = Some e" and "tr_state (te_record e) \<in> {TLaunching, TRunning}" and "\<not> te_detached e"
    and "MarkCompleted gtid code v m = (st, m')"
  shows "st = kOk \<and> MarkCompleted gtid code2 v2 m' = (kOk, m') \<and> MarkRunning gtid m' = (kOk, m') \<and>
    Join_wake gtid m' \<and>
    (\<exists>m''. Join_finish gtid acquire m' =
       (Some (if acquire = Some HookThrows then kInternal
              else case acquire of Some (HookReturns s) \<Rightarrow> if s \<noteq> kOk then s else if code = 0 then kOk else kInternal
                   | _ \<Rightarrow> if code = 0 then kOk else kInternal, v), m'') \<and>
       Find gtid m'' = Inl kNotFound)"
proof -
  have m': "st = kOk" "m' = put_thread (local_tid gtid)
      (e\<lparr>te_record := (te_record e)\<lparr>exit_code := code, result_value := v, tr_state := TCompleted\<rparr>\<rparr>) m"
    using assms by (auto simp: MarkCompleted_def)
  let ?e = "e\<lparr>te_record := (te_record e)\<lparr>exit_code := code, result_value := v, tr_state := TCompleted\<rparr>\<rparr>"
  have f: "find_home m' gtid = Some ?e" "tm_records m' (local_tid gtid) = Some ?e"
    using assms(1) by (auto simp: m' find_home_Some put_thread_def)
  show ?thesis
    using m'(1) f
    by (auto simp: MarkCompleted_def MarkRunning_def Join_wake_def Join_finish_def Let_def Find_def find_home_def
        erase_thread_def split: option.splits HookOutcome.splits)
qed

theorem completion_is_final_witness:
  "Join_wake sample_gtid (snd (MarkCompleted sample_gtid 0 99 sample_launched)) \<and>
   fst (Join_finish sample_gtid None (snd (MarkCompleted sample_gtid 0 99 sample_launched))) = Some (kOk, 99)"
proof -
  obtain e where e: "find_home sample_launched sample_gtid = Some e" "tr_state (te_record e) = TRunning" "\<not> te_detached e"
    by (simp add: sample_launched_def Launch_def MarkLaunching_def AllocateThread_def new_manager_def
      find_home_def put_thread_def set_state_def sample_gtid_def Let_def)
  obtain st m' where c: "MarkCompleted sample_gtid 0 99 sample_launched = (st, m')"
    by (cases "MarkCompleted sample_gtid 0 99 sample_launched")
  show ?thesis
    using completion_is_final [OF e(1) _ e(3) c, where acquire = None and ?code2.0 = 1 and ?v2.0 = 1] e(2) c by auto
qed

end
