(* ===== verification/Cx_Wire.thy ===== *)
theory Cx_Wire
  imports Cx_Prelude
begin

text \<open>
  Byte images of the fixed-layout structures that the hosts copy into message payloads with
  \<^verbatim>\<open>memcpy\<close>.  The hosts are little endian (the manifest exchange rejects a peer that is not), so
  a field of \<open>n\<close> bytes is its \<open>n\<close> low-order bytes first.  The laws are the round trips that the message
  codecs of the other theories rest on.
\<close>

definition le_bytes :: "nat \<Rightarrow> 'a::len word \<Rightarrow> u8 list" where
  "le_bytes n w = map (\<lambda>i. ucast (drop_bit (8 * i) w)) [0..<n]"

fun le_word :: "u8 list \<Rightarrow> 'a::len word" where
  "le_word [] = 0"
| "le_word (b # bs) = ucast b OR push_bit 8 (le_word bs)"

text \<open>The field of \<open>n\<close> bytes at an offset of a payload.\<close>

definition field :: "nat \<Rightarrow> nat \<Rightarrow> u8 list \<Rightarrow> u8 list" where
  "field offset n bs = take n (drop offset bs)"

lemma length_le_bytes [simp]: "length (le_bytes n w) = n"
  by (simp add: le_bytes_def)

lemma bit_le_word:
  "bit (le_word bs :: 'a::len word) k \<longleftrightarrow> k < LENGTH('a) \<and> k div 8 < length bs \<and> bit (bs ! (k div 8)) (k mod 8)"
proof (induction bs arbitrary: k)
  case Nil
  then show ?case by simp
next
  case (Cons b bs)
  show ?case
  proof (cases "k < 8")
    case True
    then show ?thesis by (auto simp: bit_or_iff bit_push_bit_iff bit_ucast_iff)
  next
    case False
    then have d: "k div 8 = Suc ((k - 8) div 8)" "k mod 8 = (k - 8) mod 8"
      by (simp_all add: div_nat_eqI le_div_geq le_mod_geq not_less)
    have "\<not> bit b k" using False bit_imp_le_length [of b k] by auto
    then show ?thesis using False Cons.IH [of "k - 8"] d
      by (auto simp: bit_or_iff bit_push_bit_iff bit_ucast_iff)
  qed
qed

lemma bit_le_bytes:
  "i < n \<Longrightarrow> j < 8 \<Longrightarrow> bit (le_bytes n (w::'a::len word) ! i) j \<longleftrightarrow> bit w (8 * i + j)"
  by (auto simp: le_bytes_def bit_ucast_iff bit_drop_bit_eq)

lemma le_word_le_bytes [simp]:
  assumes "LENGTH('a) \<le> 8 * n"
  shows "le_word (le_bytes n w) = (w::'a::len word)"
proof (rule bit_eqI)
  fix k
  have *: "k div 8 < n" if "bit w k"
  proof -
    have "k < 8 * n" using bit_imp_le_length [OF that] assms by simp
    then show ?thesis by (simp add: less_mult_imp_div_less mult.commute)
  qed
  have "bit (le_word (le_bytes n w) :: 'a word) k \<longleftrightarrow>
      k < LENGTH('a) \<and> k div 8 < n \<and> bit w (8 * (k div 8) + k mod 8)"
    using bit_le_bytes [of "k div 8" n "k mod 8" w] by (auto simp: bit_le_word)
  also have "8 * (k div 8) + k mod 8 = k" by simp
  finally show "bit (le_word (le_bytes n w) :: 'a word) k \<longleftrightarrow> bit w k"
    using * bit_imp_le_length [of w k] by blast
qed

text \<open>Reading a field of a concatenation of fields.\<close>

lemma field_here: "length xs = n \<Longrightarrow> field 0 n (xs @ ys) = xs"
  by (simp add: field_def)

lemma field_skip: "length xs \<le> offset \<Longrightarrow> field offset n (xs @ ys) = field (offset - length xs) n ys"
  by (simp add: field_def)

lemma field_last: "length xs = n \<Longrightarrow> field 0 n xs = xs"
  by (simp add: field_def)

end
