(* ===== verification/Cx_Registry.thy ===== *)
theory Cx_Registry
  imports Cx_Queue Cx_Wire "HOL-Library.List_Lexorder" "HOL-Library.Char_ord"
begin

text \<open>
  Function names and bindings: the process-local registry (\<^verbatim>\<open>FunctionRegistry\<close> of
  \<^verbatim>\<open>src/loompar/threading.cpp\<close>) and the cluster manifest exchange (\<^verbatim>\<open>ClusterFunctionRegistry\<close>,
  \<^verbatim>\<open>src/loompar/cluster_registry.cpp\<close>), by which every host learns that all hosts can run the same
  functions.  A callable is a value of a type parameter (\<open>None\<close> is an empty \<^verbatim>\<open>std::function\<close>).  The
  manifest message is modelled down to its bytes.

  \<^verbatim>\<open>std::sort\<close> by name is \<^verbatim>\<open>sort_key\<close>: names that compare equal are rejected after the sort, so its
  being stable makes no difference to an installed manifest.
\<close>

section \<open>Names\<close>

definition char_byte :: "char \<Rightarrow> u8" where
  "char_byte c = of_nat (of_char c)"

definition byte_char :: "u8 \<Rightarrow> char" where
  "byte_char b = char_of (unat b)"

text \<open>FNV-1a over the bytes of the name.\<close>

definition FunctionId :: "string \<Rightarrow> u64" where
  "FunctionId name = foldl (\<lambda>fid c. (fid XOR ucast (char_byte c)) * 1099511628211) 14695981039346656037 name"

section \<open>The process-local registry\<close>

record 'f FunctionRegistry =
  fr_by_id :: "u64 \<rightharpoonup> 'f"
  fr_by_name :: "string \<rightharpoonup> u64"

text \<open>
  \<open>pointer\<close> is \<^verbatim>\<open>std::function::target<void (*)(void*)>\<close>: the function pointer a callable holds, if any.
\<close>

definition Register :: "('f \<Rightarrow> u64 option) \<Rightarrow> string \<Rightarrow> 'f option \<Rightarrow> 'f FunctionRegistry \<Rightarrow>
    u64 Result \<times> 'f FunctionRegistry" where
  "Register pointer name function r =
     (case function of
        None \<Rightarrow> (Inl kInvalidArgument, r)
      | Some f \<Rightarrow>
          if name = [] then (Inl kInvalidArgument, r)
          else (case fr_by_name r name of
                  Some fid \<Rightarrow>
                    (case fr_by_id r fid of
                       None \<Rightarrow> (Inl kInternal, r)
                     | Some existing \<Rightarrow>
                         (case (pointer existing, pointer f) of
                            (Some p, Some q) \<Rightarrow> if p \<noteq> q then (Inl kAlreadyExists, r) else (Inr fid, r)
                          | _ \<Rightarrow> (Inr fid, r)))
                | None \<Rightarrow>
                    let fid = FunctionId name in
                    if fr_by_id r fid \<noteq> None then (Inl kAlreadyExists, r)
                    else (Inr fid, r\<lparr>fr_by_name := (fr_by_name r)(name \<mapsto> fid),
                                     fr_by_id := (fr_by_id r)(fid \<mapsto> f)\<rparr>)))"

definition Lookup_name :: "string \<Rightarrow> 'f FunctionRegistry \<Rightarrow> u64 Result" where
  "Lookup_name name r = (case fr_by_name r name of None \<Rightarrow> Inl kNotFound | Some fid \<Rightarrow> Inr fid)"

definition Resolve_id :: "u64 \<Rightarrow> 'f FunctionRegistry \<Rightarrow> 'f Result" where
  "Resolve_id fid r = (case fr_by_id r fid of None \<Rightarrow> Inl kNotFound | Some f \<Rightarrow> Inr f)"

section \<open>The manifest message\<close>

definition kManifestMagic :: u32 where
  "kManifestMagic = 0x434c464e"

definition kManifestVersion :: u16 where
  "kManifestVersion = 1"

definition kMaxClusterFunctions :: nat where
  "kMaxClusterFunctions = 256"

definition kMaxClusterFunctionName :: nat where
  "kMaxClusterFunctionName = 63"

definition kMaxClusterArgumentBytes :: u32 where
  "kMaxClusterArgumentBytes = 80"

text \<open>\<^verbatim>\<open>PlatformAbi()\<close> of a little-endian host with 8-byte pointers and sizes.\<close>

definition PlatformAbi :: u32 where
  "PlatformAbi = 1 OR push_bit 8 8 OR push_bit 16 8"

record ManifestWire =
  w_magic :: u32
  w_version :: u16
  w_count :: u16
  w_index :: u32
  w_abi_version :: u32
  w_schema_id :: u64
  w_argument_bytes :: u32
  w_platform_abi :: u32
  w_name :: "u8 list"

definition wire_bytes :: "ManifestWire \<Rightarrow> u8 list" where
  "wire_bytes w = le_bytes 4 (w_magic w) @ le_bytes 2 (w_version w) @ le_bytes 2 (w_count w) @
     le_bytes 4 (w_index w) @ le_bytes 4 (w_abi_version w) @ le_bytes 8 (w_schema_id w) @
     le_bytes 4 (w_argument_bytes w) @ le_bytes 4 (w_platform_abi w) @ w_name w"

definition parse_wire :: "u8 list \<Rightarrow> ManifestWire" where
  "parse_wire bs = \<lparr>w_magic = le_word (field 0 4 bs), w_version = le_word (field 4 2 bs),
     w_count = le_word (field 6 2 bs), w_index = le_word (field 8 4 bs), w_abi_version = le_word (field 12 4 bs),
     w_schema_id = le_word (field 16 8 bs), w_argument_bytes = le_word (field 24 4 bs),
     w_platform_abi = le_word (field 28 4 bs), w_name = field 32 64 bs\<rparr>"

definition sizeof_ManifestWire :: nat where
  "sizeof_ManifestWire = 96"

section \<open>The cluster registry\<close>

record 'f ClusterFunction =
  cf_name :: string
  cf_abi_version :: u32
  cf_argument_bytes :: u32
  cf_schema_id :: u64
  cf_local_identity :: u64
  cf_function :: "'f option"

record Descriptor =
  d_name :: string
  d_abi_version :: u32
  d_argument_bytes :: u32
  d_schema_id :: u64

record Peer =
  peer_seen :: bool
  peer_entries :: "Descriptor option list"

record 'f ClusterFunctionRegistry =
  cr_local :: HostId
  cr_hosts :: u16
  cr_installed :: bool
  cr_ready :: bool
  cr_failure :: Status
  cr_functions :: "'f ClusterFunction list"
  cr_descriptors :: "Descriptor list"
  cr_by_id :: "u64 \<rightharpoonup> nat"
  cr_peers :: "HostId \<Rightarrow> Peer"

definition new_registry :: "HostId \<Rightarrow> u16 \<Rightarrow> 'f ClusterFunctionRegistry" where
  "new_registry local hosts = \<lparr>cr_local = local, cr_hosts = hosts, cr_installed = False, cr_ready = False,
     cr_failure = kOk, cr_functions = [], cr_descriptors = [], cr_by_id = Map.empty,
     cr_peers = (\<lambda>_. \<lparr>peer_seen = False, peer_entries = []\<rparr>)\<rparr>"

definition descriptor_of :: "'f ClusterFunction \<Rightarrow> Descriptor" where
  "descriptor_of f = \<lparr>d_name = cf_name f, d_abi_version = cf_abi_version f,
     d_argument_bytes = cf_argument_bytes f, d_schema_id = cf_schema_id f\<rparr>"

definition function_valid :: "'f ClusterFunction \<Rightarrow> bool" where
  "function_valid f \<longleftrightarrow> \<not> (cf_name f = [] \<or> kMaxClusterFunctionName < length (cf_name f) \<or>
     CHR 0x00 \<in> set (cf_name f) \<or> cf_function f = None \<or> cf_local_identity f = 0 \<or>
     cf_abi_version f = 0 \<or> cf_schema_id f = 0 \<or> kMaxClusterArgumentBytes < cf_argument_bytes f)"

text \<open>The checking loop of \<^verbatim>\<open>Install\<close>: descriptors, ids and identities so far.\<close>

fun scan_functions :: "'f ClusterFunction list \<Rightarrow> Descriptor list \<times> (u64 \<rightharpoonup> nat) \<times> u64 list \<Rightarrow>
    (Descriptor list \<times> (u64 \<rightharpoonup> nat)) Result" where
  "scan_functions [] (ds, ids, idents) = Inr (ds, ids)"
| "scan_functions (f # fs) (ds, ids, idents) =
     (if \<not> function_valid f then Inl kInvalidArgument
      else if ids (FunctionId (cf_name f)) \<noteq> None \<or> cf_local_identity f \<in> set idents then Inl kAlreadyExists
      else scan_functions fs (ds @ [descriptor_of f], ids(FunctionId (cf_name f) \<mapsto> length ds),
                              cf_local_identity f # idents))"

text \<open>The inner and the outer loop of \<^verbatim>\<open>CheckLocked\<close>.\<close>

fun check_entries :: "Descriptor option list \<Rightarrow> Descriptor list \<Rightarrow> bool \<Rightarrow> bool \<times> bool" where
  "check_entries (None # es) (d # ds) complete = check_entries es ds False"
| "check_entries (Some e # es) (d # ds) complete = (if e \<noteq> d then (complete, True) else check_entries es ds complete)"
| "check_entries _ _ complete = (complete, False)"

fun check_peers :: "'f ClusterFunctionRegistry \<Rightarrow> HostId list \<Rightarrow> bool \<Rightarrow> Status \<Rightarrow> bool \<times> Status" where
  "check_peers r [] complete failure = (complete, failure)"
| "check_peers r (h # hs) complete failure =
     (if h = cr_local r then check_peers r hs complete failure
      else if \<not> peer_seen (cr_peers r h) then check_peers r hs False failure
      else if length (peer_entries (cr_peers r h)) \<noteq> length (cr_descriptors r) then (complete, kFailedPrecondition)
      else (case check_entries (peer_entries (cr_peers r h)) (cr_descriptors r) complete of
              (complete', mismatch) \<Rightarrow>
                check_peers r hs complete' (if mismatch then kFailedPrecondition else failure)))"

definition CheckLocked :: "'f ClusterFunctionRegistry \<Rightarrow> 'f ClusterFunctionRegistry" where
  "CheckLocked r =
     (if \<not> cr_installed r \<or> cr_failure r \<noteq> kOk then r
      else (case check_peers r (hosts_below (cr_hosts r)) True kOk of
              (complete, failure) \<Rightarrow> r\<lparr>cr_failure := failure, cr_ready := (failure = kOk \<and> complete)\<rparr>))"

definition manifest_wire :: "Descriptor list \<Rightarrow> nat \<Rightarrow> ManifestWire" where
  "manifest_wire ds i =
     (let w = \<lparr>w_magic = kManifestMagic, w_version = kManifestVersion, w_count = of_nat (length ds), w_index = of_nat i,
               w_abi_version = 0, w_schema_id = 0, w_argument_bytes = 0, w_platform_abi = PlatformAbi,
               w_name = replicate 64 0\<rparr>
      in if ds = [] then w
         else let d = ds ! i; name = map char_byte (d_name d) in
           w\<lparr>w_abi_version := d_abi_version d, w_argument_bytes := d_argument_bytes d, w_schema_id := d_schema_id d,
             w_name := name @ drop (length name) (w_name w)\<rparr>)"

definition manifest_message :: "HostId \<Rightarrow> HostId \<Rightarrow> Descriptor list \<Rightarrow> nat \<Rightarrow> QueueEnvelope" where
  "manifest_message src dst ds i =
     \<lparr>env_header = \<lparr>kind = FunctionManifest, src_host = src, dst_host = dst, payload_bytes = of_nat sizeof_ManifestWire\<rparr>,
      env_payload = wire_bytes (manifest_wire ds i)\<rparr>"

definition manifest_messages :: "HostId \<Rightarrow> u16 \<Rightarrow> Descriptor list \<Rightarrow> QueueEnvelope list" where
  "manifest_messages local hosts ds =
     concat (map (\<lambda>h. if h = local then []
                      else map (manifest_message local h ds) [0..<max 1 (length ds)]) (hosts_below hosts))"

definition Install :: "'f ClusterFunction list \<Rightarrow> 'f ClusterFunctionRegistry \<Rightarrow>
    QueueEnvelope list Result \<times> 'f ClusterFunctionRegistry" where
  "Install functions r =
     (if cr_hosts r = 0 \<or> cr_hosts r \<le> cr_local r \<or> kMaxClusterFunctions < length functions
      then (Inl kInvalidArgument, r)
      else let fs = sort_key cf_name functions in
        case scan_functions fs ([], Map.empty, []) of
          Inl st \<Rightarrow> (Inl st, r)
        | Inr (ds, ids) \<Rightarrow>
            if cr_installed r
            then (if ds \<noteq> cr_descriptors r then (Inl kFailedPrecondition, r)
                  else if map cf_local_identity fs \<noteq> map cf_local_identity (cr_functions r) then (Inl kAlreadyExists, r)
                  else (Inr [], r))
            else (Inr (manifest_messages (cr_local r) (cr_hosts r) ds),
                  CheckLocked (r\<lparr>cr_functions := fs, cr_descriptors := ds, cr_by_id := ids, cr_installed := True\<rparr>)))"

definition reject :: "'f ClusterFunctionRegistry \<Rightarrow> Status \<times> 'f ClusterFunctionRegistry" where
  "reject r = (kInvalidArgument, r\<lparr>cr_ready := False, cr_failure := kFailedPrecondition\<rparr>)"

text \<open>\<^verbatim>\<open>Descriptor{wire.name, ...}\<close>: the name is the C string in the array.\<close>

definition wire_descriptor :: "ManifestWire \<Rightarrow> Descriptor" where
  "wire_descriptor w = \<lparr>d_name = map byte_char (takeWhile (\<lambda>b. b \<noteq> 0) (w_name w)), d_abi_version = w_abi_version w,
     d_argument_bytes = w_argument_bytes w, d_schema_id = w_schema_id w\<rparr>"

definition HandleManifest :: "QueueEnvelope \<Rightarrow> 'f ClusterFunctionRegistry \<Rightarrow> Status \<times> 'f ClusterFunctionRegistry" where
  "HandleManifest m r =
     (let hd = env_header m in
      if kind hd \<noteq> FunctionManifest \<or> dst_host hd \<noteq> cr_local r \<or> cr_hosts r \<le> src_host hd \<or> src_host hd = cr_local r
      then (kInvalidArgument, r)
      else if length (env_payload m) \<noteq> sizeof_ManifestWire \<or> unat (payload_bytes hd) \<noteq> sizeof_ManifestWire then reject r
      else
        let w = parse_wire (env_payload m) in
        if w_magic w \<noteq> kManifestMagic \<or> w_version w \<noteq> kManifestVersion \<or> w_platform_abi w \<noteq> PlatformAbi \<or>
           kMaxClusterFunctions < unat (w_count w) \<or> max 1 (unat (w_count w)) \<le> unat (w_index w) \<or>
           0 \<notin> set (w_name w) then reject r
        else if w_count w \<noteq> 0 \<and> (w_name w ! 0 = 0 \<or> w_abi_version w = 0 \<or> w_schema_id w = 0 \<or>
           kMaxClusterArgumentBytes < w_argument_bytes w) then reject r
        else
          let peer = cr_peers r (src_host hd) in
          if peer_seen peer \<and> length (peer_entries peer) \<noteq> unat (w_count w) then reject r
          else
            let peer1 = (if peer_seen peer then peer
                         else \<lparr>peer_seen = True, peer_entries = replicate (unat (w_count w)) None\<rparr>);
                r1 = r\<lparr>cr_peers := (cr_peers r)(src_host hd := peer1)\<rparr>
            in if w_count w = 0 then (kOk, CheckLocked r1)
               else
                 let d = wire_descriptor w; i = unat (w_index w) in
                 (case peer_entries peer1 ! i of
                    Some e \<Rightarrow>
                      if e \<noteq> d then reject r1
                      else (kOk, CheckLocked r1)
                  | None \<Rightarrow>
                      (kOk, CheckLocked (r1\<lparr>cr_peers := (cr_peers r1)(src_host hd :=
                         peer1\<lparr>peer_entries := (peer_entries peer1)[i := Some d]\<rparr>)\<rparr>))))"

text \<open>\<^verbatim>\<open>Wait\<close>: the checks before the condition variable, and what a waiter returns when it wakes or times out.\<close>

definition WaitManifest :: "u64 \<Rightarrow> 'f ClusterFunctionRegistry \<Rightarrow> Status option" where
  "WaitManifest timeout_ms r =
     (if timeout_ms = 0 \<or> ucast UINT32_MAX < timeout_ms then Some kInvalidArgument
      else if \<not> cr_installed r then Some kFailedPrecondition
      else if cr_ready r \<or> cr_failure r \<noteq> kOk then Some (cr_failure r)
      else None)"

definition Lookup :: "u64 \<Rightarrow> 'f ClusterFunctionRegistry \<Rightarrow> u64 Result" where
  "Lookup identity r =
     (if \<not> cr_installed r then Inl kFailedPrecondition
      else (case find (\<lambda>f. cf_local_identity f = identity) (cr_functions r) of
              None \<Rightarrow> Inl kNotFound | Some f \<Rightarrow> Inr (FunctionId (cf_name f))))"

definition Resolve :: "u64 \<Rightarrow> u64 \<Rightarrow> bool \<Rightarrow> 'f ClusterFunctionRegistry \<Rightarrow> 'f option Result" where
  "Resolve fid bytes require_ready r =
     (if cr_failure r \<noteq> kOk then Inl (cr_failure r)
      else if \<not> cr_installed r \<or> (require_ready \<and> \<not> cr_ready r) then Inl kFailedPrecondition
      else (case cr_by_id r fid of
              None \<Rightarrow> Inl kNotFound
            | Some i \<Rightarrow>
                let f = cr_functions r ! i in
                if bytes \<noteq> ucast (cf_argument_bytes f) then Inl kInvalidArgument else Inr (cf_function f)))"

section \<open>Registration\<close>

text \<open>Ids and names of a registry that is filled by registering only.\<close>

definition registry_wf :: "'f FunctionRegistry \<Rightarrow> bool" where
  "registry_wf r \<longleftrightarrow> (\<forall>name fid. fr_by_name r name = Some fid \<longrightarrow> fid = FunctionId name \<and> fr_by_id r fid \<noteq> None) \<and>
     (\<forall>fid. fr_by_id r fid \<noteq> None \<longrightarrow> (\<exists>name. fr_by_name r name = Some fid))"

text \<open>
  A successful registration binds the name to the hash of its bytes, whatever was registered
  before, and that id to a callable: looking the name up and resolving the id find them, all earlier
  bindings are kept, and a name that is new keeps exactly the callable it was registered with.
\<close>

theorem Register_binds:
  assumes "registry_wf r" and "Register pointer name function r = (Inr fid, r')"
  shows "registry_wf r' \<and> fid = FunctionId name \<and> Lookup_name name r' = Inr fid \<and>
    (\<exists>f. Resolve_id fid r' = Inr f \<and> (fr_by_name r name = None \<longrightarrow> function = Some f)) \<and>
    (\<forall>name2 fid2. Lookup_name name2 r = Inr fid2 \<longrightarrow>
       Lookup_name name2 r' = Inr fid2 \<and> Resolve_id fid2 r' = Resolve_id fid2 r)"
proof (cases "fr_by_name r name")
  case None
  with assms(2) obtain f where f: "function = Some f" "fid = FunctionId name" "fr_by_id r fid = None"
    "r' = r\<lparr>fr_by_name := (fr_by_name r)(name \<mapsto> fid), fr_by_id := (fr_by_id r)(fid \<mapsto> f)\<rparr>"
    by (auto simp: Register_def Let_def split: option.splits if_splits)
  have "registry_wf r'"
    using assms(1) f None unfolding registry_wf_def by (auto simp: fun_upd_apply; metis)
  moreover have "Lookup_name name2 r' = Inr fid2 \<and> Resolve_id fid2 r' = Resolve_id fid2 r"
    if "Lookup_name name2 r = Inr fid2" for name2 fid2
  proof -
    have n2: "fr_by_name r name2 = Some fid2" using that by (simp add: Lookup_name_def split: option.splits)
    then have "fr_by_id r fid2 \<noteq> None" using assms(1) by (simp add: registry_wf_def)
    then have "fid2 \<noteq> fid" using f(3) by auto
    with n2 f None show ?thesis by (auto simp: Lookup_name_def Resolve_id_def)
  qed
  ultimately show ?thesis
    using f by (auto simp: Lookup_name_def Resolve_id_def)
next
  case (Some old)
  with assms have "r' = r" "fid = old" "old = FunctionId name" "fr_by_id r old \<noteq> None"
    by (auto simp: Register_def registry_wf_def split: option.splits if_splits)
  then show ?thesis
    using assms(1) Some by (auto simp: Lookup_name_def Resolve_id_def)
qed

theorem Register_binds_witness:
  "\<exists>r'. Register Some ''work'' (Some 7) \<lparr>fr_by_id = Map.empty, fr_by_name = Map.empty\<rparr> = (Inr (FunctionId ''work''), r') \<and>
     Lookup_name ''work'' r' = Inr (FunctionId ''work'')"
proof -
  let ?r = "\<lparr>fr_by_id = Map.empty, fr_by_name = Map.empty\<rparr> :: u64 FunctionRegistry"
  obtain r' where reg: "Register Some ''work'' (Some 7) ?r = (Inr (FunctionId ''work''), r')"
    by (simp add: Register_def Let_def)
  have "registry_wf ?r" by (simp add: registry_wf_def)
  from Register_binds [OF this reg] reg show ?thesis by blast
qed

section \<open>The manifest codec\<close>

lemma byte_char_byte [simp]: "byte_char (char_byte c) = c"
  by (simp add: byte_char_def char_byte_def unat_of_nat)

lemma char_byte_zero: "char_byte c = 0 \<longleftrightarrow> c = CHR 0x00"
proof
  assume "char_byte c = 0"
  then have "byte_char (char_byte c) = byte_char 0" by simp
  also have "byte_char 0 = CHR 0x00" by (simp add: byte_char_def char_of_def)
  finally show "c = CHR 0x00" by simp
qed (simp add: char_byte_def)

lemma length_wire_bytes: "length (wire_bytes w) = 32 + length (w_name w)"
  by (simp add: wire_bytes_def)

lemma parse_wire_bytes: "length (w_name w) = 64 \<Longrightarrow> parse_wire (wire_bytes w) = w"
  by (simp add: parse_wire_def wire_bytes_def field_here field_skip field_last)

definition descriptor_valid :: "Descriptor \<Rightarrow> bool" where
  "descriptor_valid d \<longleftrightarrow> d_name d \<noteq> [] \<and> length (d_name d) \<le> kMaxClusterFunctionName \<and> CHR 0x00 \<notin> set (d_name d) \<and>
     d_abi_version d \<noteq> 0 \<and> d_schema_id d \<noteq> 0 \<and> d_argument_bytes d \<le> kMaxClusterArgumentBytes"

definition manifest_valid :: "Descriptor list \<Rightarrow> bool" where
  "manifest_valid ds \<longleftrightarrow> list_all descriptor_valid ds \<and> length ds \<le> kMaxClusterFunctions"

lemma manifest_wire_fields:
  assumes "manifest_valid ds" and "i < max 1 (length ds)"
  shows "length (w_name (manifest_wire ds i)) = 64" "0 \<in> set (w_name (manifest_wire ds i))"
    "unat (w_count (manifest_wire ds i)) = length ds" "unat (w_index (manifest_wire ds i)) = i"
    "ds \<noteq> [] \<Longrightarrow> wire_descriptor (manifest_wire ds i) = ds ! i"
    "ds \<noteq> [] \<Longrightarrow> w_name (manifest_wire ds i) ! 0 \<noteq> 0"
proof -
  have small: "length ds < 2 ^ 16" "i < 2 ^ 32" using assms by (auto simp: manifest_valid_def kMaxClusterFunctions_def)
  then show "unat (w_count (manifest_wire ds i)) = length ds" "unat (w_index (manifest_wire ds i)) = i"
    by (auto simp: manifest_wire_def Let_def unat_of_nat)
  have v: "descriptor_valid (ds ! i)" if "ds \<noteq> []"
    using assms that by (cases ds) (auto simp: manifest_valid_def list_all_length)
  show "length (w_name (manifest_wire ds i)) = 64" "0 \<in> set (w_name (manifest_wire ds i))"
    using v by (auto simp: manifest_wire_def Let_def descriptor_valid_def kMaxClusterFunctionName_def)
  assume ne: "ds \<noteq> []"
  have nz: "\<forall>b \<in> set (map char_byte (d_name (ds ! i))). b \<noteq> 0"
    using v [OF ne] by (auto simp: descriptor_valid_def char_byte_zero)
  have len: "length (d_name (ds ! i)) < 64"
    using v [OF ne] by (simp add: descriptor_valid_def kMaxClusterFunctionName_def)
  obtain n where n: "drop (length (d_name (ds ! i))) (replicate 64 (0::u8)) = 0 # replicate n 0"
    using len by (cases "64 - length (d_name (ds ! i))") (simp_all add: drop_replicate)
  have "takeWhile (\<lambda>b. b \<noteq> 0) (map char_byte (d_name (ds ! i)) @ 0 # replicate n 0) = map char_byte (d_name (ds ! i))"
    using nz by (subst takeWhile_append2) auto
  then show "wire_descriptor (manifest_wire ds i) = ds ! i"
    using ne n by (simp add: manifest_wire_def Let_def wire_descriptor_def comp_def)
  show "w_name (manifest_wire ds i) ! 0 \<noteq> 0"
    using ne v [OF ne] by (auto simp: manifest_wire_def Let_def descriptor_valid_def char_byte_zero nth_append
        neq_Nil_conv)
qed

text \<open>
  The manifest codec is lossless: for every valid manifest, the 96 payload bytes that a host sends
  for its entry number i fit a queue slot and decode to that entry, its index and the size of the
  manifest.
\<close>

theorem manifest_roundtrip:
  assumes "manifest_valid ds" and "i < length ds"
  shows "length (env_payload (manifest_message src dst ds i)) = sizeof_ManifestWire \<and>
    sizeof_ManifestWire \<le> kQueuePayloadBytes \<and>
    (let w = parse_wire (env_payload (manifest_message src dst ds i)) in
       wire_descriptor w = ds ! i \<and> unat (w_index w) = i \<and> unat (w_count w) = length ds \<and>
       w_magic w = kManifestMagic \<and> w_version w = kManifestVersion \<and> w_platform_abi w = PlatformAbi)"
proof -
  have i: "i < max 1 (length ds)" and ne: "ds \<noteq> []" using assms(2) by auto
  note f = manifest_wire_fields [OF assms(1) i]
  have "w_magic (manifest_wire ds i) = kManifestMagic" "w_version (manifest_wire ds i) = kManifestVersion"
    "w_platform_abi (manifest_wire ds i) = PlatformAbi"
    by (simp_all add: manifest_wire_def Let_def)
  then show ?thesis
    using f ne by (simp add: manifest_message_def length_wire_bytes sizeof_ManifestWire_def kQueuePayloadBytes_def
        parse_wire_bytes)
qed

definition sample_descriptor :: Descriptor where
  "sample_descriptor = \<lparr>d_name = ''work'', d_abi_version = 1, d_argument_bytes = 16, d_schema_id = 9\<rparr>"

lemma sample_manifest_valid: "manifest_valid [sample_descriptor]"
  by (simp add: manifest_valid_def descriptor_valid_def sample_descriptor_def kMaxClusterFunctionName_def
      kMaxClusterFunctions_def kMaxClusterArgumentBytes_def)

theorem manifest_roundtrip_witness:
  "wire_descriptor (parse_wire (env_payload (manifest_message 0 1 [sample_descriptor] 0))) = sample_descriptor"
  using manifest_roundtrip [OF sample_manifest_valid, of 0 0 1] by (simp add: Let_def)

section \<open>The manifest exchange\<close>

text \<open>
  The registries of all hosts and the manifest messages sent so far.  A host handles any message
  sent to it, any number of times and in any order.
\<close>

record 'f ManifestWorld =
  mw_registry :: "HostId \<Rightarrow> 'f ClusterFunctionRegistry"
  mw_sent :: "QueueEnvelope set"

definition manifest_start :: "u16 \<Rightarrow> 'f ManifestWorld" where
  "manifest_start n = \<lparr>mw_registry = (\<lambda>h. new_registry h n), mw_sent = {}\<rparr>"

inductive manifest_reach :: "u16 \<Rightarrow> 'f ManifestWorld \<Rightarrow> bool" for n where
  start: "manifest_reach n (manifest_start n)"
| install: "manifest_reach n w \<Longrightarrow> h < n \<Longrightarrow> Install functions (mw_registry w h) = (Inr msgs, r) \<Longrightarrow>
    manifest_reach n (w\<lparr>mw_registry := (mw_registry w)(h := r), mw_sent := mw_sent w \<union> set msgs\<rparr>)"
| deliver: "manifest_reach n w \<Longrightarrow> m \<in> mw_sent w \<Longrightarrow> h = dst_host (env_header m) \<Longrightarrow>
    HandleManifest m (mw_registry w h) = (st, r) \<Longrightarrow>
    manifest_reach n (w\<lparr>mw_registry := (mw_registry w)(h := r)\<rparr>)"

definition all_match :: "'f ClusterFunctionRegistry \<Rightarrow> bool" where
  "all_match r \<longleftrightarrow> (\<forall>h < cr_hosts r. h \<noteq> cr_local r \<longrightarrow>
     peer_seen (cr_peers r h) \<and> peer_entries (cr_peers r h) = map Some (cr_descriptors r))"

text \<open>A registry whose functions, descriptors and id table belong together.\<close>

definition installed_ok :: "'f ClusterFunctionRegistry \<Rightarrow> bool" where
  "installed_ok r \<longleftrightarrow> cr_descriptors r = map descriptor_of (cr_functions r) \<and> manifest_valid (cr_descriptors r) \<and>
     (\<forall>i < length (cr_functions r). cr_by_id r (FunctionId (cf_name (cr_functions r ! i))) = Some i)"

definition registry_ok :: "HostId \<Rightarrow> u16 \<Rightarrow> 'f ClusterFunctionRegistry \<Rightarrow> bool" where
  "registry_ok h n r \<longleftrightarrow> cr_local r = h \<and> cr_hosts r = n \<and> (cr_installed r \<longrightarrow> installed_ok r) \<and>
     (cr_ready r \<longrightarrow> cr_installed r \<and> cr_failure r = kOk \<and> all_match r)"

lemma check_entries_True:
  "check_entries es ds c = (True, False) \<Longrightarrow> length es = length ds \<Longrightarrow> c \<and> es = map Some ds"
  by (induction es ds c rule: check_entries.induct) (auto split: if_splits)

lemma check_peers_True:
  assumes "check_peers r hs c f = (True, kOk)"
  shows "c \<and> f = kOk \<and> (\<forall>h \<in> set hs. h \<noteq> cr_local r \<longrightarrow>
    peer_seen (cr_peers r h) \<and> peer_entries (cr_peers r h) = map Some (cr_descriptors r))"
  using assms
proof (induction hs arbitrary: c f)
  case (Cons h hs)
  show ?case
  proof (cases "h = cr_local r")
    case False
    then obtain c' mis where ce: "check_entries (peer_entries (cr_peers r h)) (cr_descriptors r) c = (c', mis)"
      and len: "length (peer_entries (cr_peers r h)) = length (cr_descriptors r)"
      and rest: "check_peers r hs c' (if mis then kFailedPrecondition else f) = (True, kOk)"
      and seen: "peer_seen (cr_peers r h)"
      using Cons.prems Cons.IH [of False f] by (auto split: if_splits prod.splits)
    from Cons.IH [OF rest] have c': "c'" "\<not> mis" "f = kOk" by (auto split: if_splits)
    show ?thesis
      using check_entries_True [OF _ len, of c] ce c' seen Cons.IH [OF rest] by auto
  qed (use Cons in auto)
qed simp

lemma CheckLocked_frame [simp]:
  "cr_local (CheckLocked r) = cr_local r" "cr_hosts (CheckLocked r) = cr_hosts r"
  "cr_installed (CheckLocked r) = cr_installed r" "cr_descriptors (CheckLocked r) = cr_descriptors r"
  "cr_functions (CheckLocked r) = cr_functions r" "cr_by_id (CheckLocked r) = cr_by_id r"
  "cr_peers (CheckLocked r) = cr_peers r"
  by (simp_all add: CheckLocked_def split: prod.splits)

lemma CheckLocked_ready:
  assumes "cr_ready r \<longrightarrow> cr_installed r \<and> cr_failure r = kOk" and "cr_ready (CheckLocked r)"
  shows "cr_installed r \<and> cr_failure (CheckLocked r) = kOk \<and> all_match r"
proof -
  have i: "cr_installed r" "cr_failure r = kOk"
    using assms by (auto simp: CheckLocked_def split: if_splits prod.splits)
  obtain c f where cp: "check_peers r (hosts_below (cr_hosts r)) True kOk = (c, f)" by (cases "check_peers r (hosts_below (cr_hosts r)) True kOk")
  with assms(2) i have "c" "f = kOk" by (auto simp: CheckLocked_def)
  then show ?thesis
    using check_peers_True [of r "hosts_below (cr_hosts r)"] cp i by (auto simp: all_match_def CheckLocked_def)
qed

lemma registry_ok_CheckLocked:
  assumes "cr_local r = h" and "cr_hosts r = n" and "cr_installed r \<longrightarrow> installed_ok r"
    and "cr_ready r \<longrightarrow> cr_installed r \<and> cr_failure r = kOk"
  shows "registry_ok h n (CheckLocked r)"
  using assms CheckLocked_ready [OF assms(4)] by (auto simp: registry_ok_def installed_ok_def all_match_def)

lemma scan_functions_ok:
  assumes "scan_functions fs (ds, ids, idents) = Inr (ds', ids')"
  shows "ds' = ds @ map descriptor_of fs \<and> list_all (\<lambda>f. descriptor_valid (descriptor_of f)) fs \<and>
    (\<forall>x. ids x \<noteq> None \<longrightarrow> ids' x = ids x) \<and>
    (\<forall>i < length fs. ids' (FunctionId (cf_name (fs ! i))) = Some (length ds + i))"
  using assms
proof (induction fs arbitrary: ds ids idents)
  case (Cons f fs)
  then have v: "function_valid f" "ids (FunctionId (cf_name f)) = None"
    and rec: "scan_functions fs (ds @ [descriptor_of f], ids(FunctionId (cf_name f) \<mapsto> length ds), cf_local_identity f # idents)
      = Inr (ds', ids')"
    by (auto split: if_splits)
  note ih = Cons.IH [OF rec]
  have "descriptor_valid (descriptor_of f)"
    using v(1) by (simp add: function_valid_def descriptor_valid_def descriptor_of_def not_less)
  moreover have "ids' x = ids x" if "ids x \<noteq> None" for x
    using ih that v(2) by (metis fun_upd_apply)
  moreover have "ids' (FunctionId (cf_name ((f # fs) ! i))) = Some (length ds + i)" if "i < length (f # fs)" for i
    using ih that by (cases i) auto
  ultimately show ?case using ih by auto
qed simp

lemma Install_effect:
  assumes "registry_ok h n r" and "Install functions r = (Inr msgs, r')"
  shows "registry_ok h n r' \<and> cr_peers r' = cr_peers r \<and> cr_installed r' \<and>
    (cr_installed r \<longrightarrow> cr_descriptors r' = cr_descriptors r \<and> msgs = []) \<and>
    (\<not> cr_installed r \<longrightarrow> msgs = manifest_messages h n (cr_descriptors r'))"
proof -
  let ?fs = "sort_key cf_name functions"
  obtain ds ids where sc: "scan_functions ?fs ([], Map.empty, []) = Inr (ds, ids)"
    and small: "length functions \<le> kMaxClusterFunctions"
    using assms(2) by (auto simp: Install_def Let_def not_less split: if_splits sum.splits)
  show ?thesis
  proof (cases "cr_installed r")
    case True
    then show ?thesis using assms sc by (auto simp: Install_def Let_def split: if_splits)
  next
    case False
    let ?r = "r\<lparr>cr_functions := ?fs, cr_descriptors := ds, cr_by_id := ids, cr_installed := True\<rparr>"
    from scan_functions_ok [OF sc] small have "installed_ok ?r"
      by (simp add: installed_ok_def manifest_valid_def list_all_length)
    moreover have "\<not> cr_ready r" using assms(1) False by (simp add: registry_ok_def)
    ultimately have "registry_ok h n (CheckLocked ?r)"
      using assms(1) by (intro registry_ok_CheckLocked) (auto simp: registry_ok_def)
    then show ?thesis using False assms sc by (auto simp: Install_def Let_def registry_ok_def split: if_splits)
  qed
qed

text \<open>What one host knows of the manifest \<open>ds\<close> of another.\<close>

definition knows :: "Peer \<Rightarrow> Descriptor list \<Rightarrow> bool" where
  "knows peer ds \<longleftrightarrow> length (peer_entries peer) = length ds \<and>
     (\<forall>i < length ds. \<forall>d. peer_entries peer ! i = Some d \<longrightarrow> d = ds ! i)"

lemma Handle_effect:
  assumes ok: "registry_ok h n r" and ds: "manifest_valid ds" "i < max 1 (length ds)"
    and src: "src < n" "src \<noteq> h" and known: "peer_seen (cr_peers r src) \<longrightarrow> knows (cr_peers r src) ds"
    and handle: "HandleManifest (manifest_message src h ds i) r = (st, r')"
  shows "registry_ok h n r' \<and> cr_installed r' = cr_installed r \<and> cr_descriptors r' = cr_descriptors r \<and>
    (\<forall>b. b \<noteq> src \<longrightarrow> cr_peers r' b = cr_peers r b) \<and> knows (cr_peers r' src) ds"
proof -
  let ?w = "manifest_wire ds i"
  note f = manifest_wire_fields [OF ds]
  have local: "cr_local r = h" "cr_hosts r = n" using ok by (simp_all add: registry_ok_def)
  have parse: "parse_wire (env_payload (manifest_message src h ds i)) = ?w"
    by (simp add: manifest_message_def parse_wire_bytes f)
  have hdr: "env_header (manifest_message src h ds i) =
      \<lparr>kind = FunctionManifest, src_host = src, dst_host = h, payload_bytes = 96\<rparr>"
    "length (env_payload (manifest_message src h ds i)) = 96"
    by (simp_all add: manifest_message_def sizeof_ManifestWire_def length_wire_bytes f)
  have w: "w_magic ?w = kManifestMagic" "w_version ?w = kManifestVersion" "w_platform_abi ?w = PlatformAbi"
    by (simp_all add: manifest_wire_def Let_def)
  have count: "w_count ?w = 0 \<longleftrightarrow> ds = []"
    using f(3) by (metis length_0_conv unat_eq_zero)
  have dv: "w_abi_version ?w \<noteq> 0" "w_schema_id ?w \<noteq> 0" "\<not> kMaxClusterArgumentBytes < w_argument_bytes ?w" if "ds \<noteq> []"
  proof -
    have "descriptor_valid (ds ! i)"
      using that ds by (cases ds) (auto simp: manifest_valid_def list_all_length)
    then show "w_abi_version ?w \<noteq> 0" "w_schema_id ?w \<noteq> 0" "\<not> kMaxClusterArgumentBytes < w_argument_bytes ?w"
      using that by (simp_all add: manifest_wire_def Let_def descriptor_valid_def not_less)
  qed
  let ?p = "cr_peers r src"
  define p1 where "p1 = (if peer_seen ?p then ?p else \<lparr>peer_seen = True, peer_entries = replicate (length ds) None\<rparr>)"
  define r1 where "r1 = r\<lparr>cr_peers := (cr_peers r)(src := p1)\<rparr>"
  have k1: "knows p1 ds" using known by (auto simp: p1_def knows_def)
  have len: "peer_seen ?p \<Longrightarrow> length (peer_entries ?p) = length ds" using known by (simp add: knows_def)
  have sizes: "\<not> kMaxClusterFunctions < length ds" "\<not> max 1 (length ds) \<le> i"
    using ds unfolding manifest_valid_def by linarith+
  have step: "HandleManifest (manifest_message src h ds i) r =
      (if ds = [] then (kOk, CheckLocked r1)
       else case peer_entries p1 ! i of
              Some e \<Rightarrow> if e \<noteq> ds ! i then reject r1 else (kOk, CheckLocked r1)
            | None \<Rightarrow> (kOk, CheckLocked (r1\<lparr>cr_peers := (cr_peers r1)(src :=
                 p1\<lparr>peer_entries := (peer_entries p1)[i := Some (ds ! i)]\<rparr>)\<rparr>)))"
  proof -
    have a: "(FunctionManifest \<noteq> FunctionManifest \<or> h \<noteq> cr_local r \<or> cr_hosts r \<le> src \<or> src = cr_local r) = False"
      using src local by auto
    have b: "((96::nat) \<noteq> sizeof_ManifestWire \<or> unat (96::u32) \<noteq> sizeof_ManifestWire) = False"
      by (simp add: sizeof_ManifestWire_def)
    have c: "(w_magic ?w \<noteq> kManifestMagic \<or> w_version ?w \<noteq> kManifestVersion \<or> w_platform_abi ?w \<noteq> PlatformAbi \<or>
        kMaxClusterFunctions < length ds \<or> max 1 (length ds) \<le> i \<or>
        0 \<notin> set (w_name ?w)) = False"
      using w f(2) sizes by blast
    have d: "(ds \<noteq> [] \<and> (w_name ?w ! 0 = 0 \<or> w_abi_version ?w = 0 \<or> w_schema_id ?w = 0 \<or>
        kMaxClusterArgumentBytes < w_argument_bytes ?w)) = False"
      using count dv f(6) by blast
    have e: "(peer_seen ?p \<and> length (peer_entries ?p) \<noteq> length ds) = False" using len by blast
    have g: "ds \<noteq> [] \<Longrightarrow> wire_descriptor ?w = ds ! i" by (rule f(5))
    show ?thesis
      unfolding HandleManifest_def Let_def hdr parse MessageHeader.simps a b if_False c d f(3,4) e count
        p1_def [symmetric] r1_def [symmetric]
      by (rule if_cong) (simp_all add: g cong: option.case_cong)
  qed
  have okr: "registry_ok h n (CheckLocked (r\<lparr>cr_peers := (cr_peers r)(src := q)\<rparr>))" for q
    using ok by (intro registry_ok_CheckLocked) (auto simp: registry_ok_def installed_ok_def)
  have "knows (p1\<lparr>peer_entries := (peer_entries p1)[i := Some (ds ! i)]\<rparr>) ds"
    using k1 by (cases "i < length ds") (auto simp: knows_def nth_list_update list_update_beyond split: if_splits)
  moreover have "peer_entries p1 ! i = Some e \<Longrightarrow> ds \<noteq> [] \<Longrightarrow> e = ds ! i" for e
    using k1 ds(2) by (cases ds) (auto simp: knows_def)
  ultimately show ?thesis
    using handle okr k1 unfolding step
    by (auto simp: r1_def split: if_splits option.splits)
qed

definition manifest_inv :: "u16 \<Rightarrow> 'f ManifestWorld \<Rightarrow> bool" where
  "manifest_inv n w \<longleftrightarrow>
     (\<forall>h < n. registry_ok h n (mw_registry w h)) \<and>
     (\<forall>m \<in> mw_sent w. \<exists>src dst i. src < n \<and> dst < n \<and> src \<noteq> dst \<and> cr_installed (mw_registry w src) \<and>
        i < max 1 (length (cr_descriptors (mw_registry w src))) \<and>
        m = manifest_message src dst (cr_descriptors (mw_registry w src)) i) \<and>
     (\<forall>h < n. \<forall>b < n. b \<noteq> h \<longrightarrow> peer_seen (cr_peers (mw_registry w h) b) \<longrightarrow>
        cr_installed (mw_registry w b) \<and> knows (cr_peers (mw_registry w h) b) (cr_descriptors (mw_registry w b)))"

lemma manifest_messages_elem:
  "m \<in> set (manifest_messages src n ds) \<Longrightarrow>
     \<exists>dst i. dst < n \<and> dst \<noteq> src \<and> i < max 1 (length ds) \<and> m = manifest_message src dst ds i"
proof -
  assume "m \<in> set (manifest_messages src n ds)"
  then obtain dst where dst: "dst < n" "m \<in> set (if dst = src then [] else map (manifest_message src dst ds) [0..<max 1 (length ds)])"
    unfolding manifest_messages_def by auto
  then show ?thesis by (cases "dst = src") (auto intro!: exI [of _ dst])
qed

lemma manifest_reach_inv: "manifest_reach n w \<Longrightarrow> manifest_inv n w"
proof (induction rule: manifest_reach.induct)
  case start
  show ?case by (simp add: manifest_inv_def manifest_start_def new_registry_def registry_ok_def)
next
  case (install w h fs msgs r)
  let ?reg = "mw_registry w"
  have ok: "registry_ok h n (?reg h)" using install by (simp add: manifest_inv_def)
  note e = Install_effect [OF ok install.hyps(3)]
  have keep: "cr_installed (?reg b) \<Longrightarrow> cr_installed ((?reg(h := r)) b) \<and>
      cr_descriptors ((?reg(h := r)) b) = cr_descriptors (?reg b)" for b
    using e by auto
  have peers: "cr_peers ((?reg(h := r)) b) = cr_peers (?reg b)" for b using e by auto
  have sent: "\<exists>src dst i. src < n \<and> dst < n \<and> src \<noteq> dst \<and> cr_installed ((?reg(h := r)) src) \<and>
        i < max 1 (length (cr_descriptors ((?reg(h := r)) src))) \<and>
        m = manifest_message src dst (cr_descriptors ((?reg(h := r)) src)) i" if "m \<in> mw_sent w \<union> set msgs" for m
  proof (cases "m \<in> mw_sent w")
    case True
    then show ?thesis using install.IH keep unfolding manifest_inv_def by metis
  next
    case False
    then have "m \<in> set (manifest_messages h n (cr_descriptors r))" using that e by (cases "cr_installed (?reg h)") auto
    then show ?thesis using manifest_messages_elem e install.hyps(2) by (metis fun_upd_same)
  qed
  have regs: "registry_ok b n ((?reg(h := r)) b)" if "b < n" for b
    using install.IH e that by (simp add: manifest_inv_def)
  have kn: "cr_installed ((?reg(h := r)) b) \<and> knows (cr_peers (?reg a) b) (cr_descriptors ((?reg(h := r)) b))"
    if "a < n" "b < n" "b \<noteq> a" "peer_seen (cr_peers (?reg a) b)" for a b
    using install.IH keep [of b] that unfolding manifest_inv_def by metis
  show ?case
    unfolding manifest_inv_def using regs sent kn by (simp add: peers del: fun_upd_apply)
next
  case (deliver w m h st r)
  then obtain src dst i where m: "src < n" "dst < n" "src \<noteq> dst" "cr_installed (mw_registry w src)"
    "i < max 1 (length (cr_descriptors (mw_registry w src)))"
    "m = manifest_message src dst (cr_descriptors (mw_registry w src)) i"
    unfolding manifest_inv_def by blast
  then have h: "h = dst" using deliver.hyps(3) by (simp add: manifest_message_def)
  let ?ds = "cr_descriptors (mw_registry w src)"
  have ok: "registry_ok h n (mw_registry w h)" using deliver.IH m h by (simp add: manifest_inv_def)
  have valid: "manifest_valid ?ds"
    using deliver.IH m(1,4) by (auto simp: manifest_inv_def registry_ok_def installed_ok_def)
  have known: "peer_seen (cr_peers (mw_registry w h) src) \<longrightarrow> knows (cr_peers (mw_registry w h) src) ?ds"
    using deliver.IH m h by (simp add: manifest_inv_def)
  have msg: "HandleManifest (manifest_message src h ?ds i) (mw_registry w h) = (st, r)"
    using deliver.hyps(4) m(6) h by simp
  note e = Handle_effect [OF ok valid m(5,1) _ known msg]
  have keep: "cr_installed (((mw_registry w)(h := r)) b) = cr_installed (mw_registry w b)"
    "cr_descriptors (((mw_registry w)(h := r)) b) = cr_descriptors (mw_registry w b)" for b
    using e m(3) h by auto
  have regs: "registry_ok b n (((mw_registry w)(h := r)) b)" if "b < n" for b
    using deliver.IH e m(3) h that by (auto simp: manifest_inv_def)
  have kn: "cr_installed (mw_registry w b) \<and> knows (cr_peers (((mw_registry w)(h := r)) a) b) (cr_descriptors (mw_registry w b))"
    if "a < n" "b < n" "b \<noteq> a" "peer_seen (cr_peers (((mw_registry w)(h := r)) a) b)" for a b
    using deliver.IH e m h that by (cases "a = h"; cases "b = src") (auto simp: manifest_inv_def)
  show ?case
    unfolding manifest_inv_def using regs kn deliver.IH
    by (simp add: keep del: fun_upd_apply) (simp add: manifest_inv_def)
qed


text \<open>Two hosts that install the same one-function manifest and exchange it.\<close>

definition sample_function :: "u64 \<Rightarrow> nat ClusterFunction" where
  "sample_function identity = \<lparr>cf_name = ''work'', cf_abi_version = 1, cf_argument_bytes = 16, cf_schema_id = 9,
     cf_local_identity = identity, cf_function = Some 5\<rparr>"


end
