(* ===== verification/Cx_Links.thy ===== *)
theory Cx_Links
  imports Main
begin

text \<open>
  Doubly linked lists threaded through a table of nodes: \<open>nxt\<close> and \<open>prv\<close> read the links of an index,
  \<open>nil\<close> is the null index.  A segment predicate relates the links to the list of indices they thread;
  the two laws at the end are the insertion and the removal of a node anywhere in a list, which is all
  that the extent tables of the allocator do.
\<close>

fun dseg :: "('i \<Rightarrow> 'i) \<Rightarrow> ('i \<Rightarrow> 'i) \<Rightarrow> 'i \<Rightarrow> 'i \<Rightarrow> 'i \<Rightarrow> 'i list \<Rightarrow> 'i \<Rightarrow> 'i \<Rightarrow> bool" where
  "dseg nxt prv nil p h [] q n \<longleftrightarrow> h = n \<and> p = q"
| "dseg nxt prv nil p h (x # xs) q n \<longleftrightarrow> h = x \<and> x \<noteq> nil \<and> prv x = p \<and> dseg nxt prv nil x (nxt x) xs q n"

definition dll :: "('i \<Rightarrow> 'i) \<Rightarrow> ('i \<Rightarrow> 'i) \<Rightarrow> 'i \<Rightarrow> 'i \<Rightarrow> 'i list \<Rightarrow> bool" where
  "dll nxt prv nil h xs \<longleftrightarrow> (\<exists>q. dseg nxt prv nil nil h xs q nil)"

definition first_of :: "'i \<Rightarrow> 'i list \<Rightarrow> 'i" where
  "first_of nil xs = (case xs of [] \<Rightarrow> nil | x # _ \<Rightarrow> x)"

definition last_of :: "'i \<Rightarrow> 'i list \<Rightarrow> 'i" where
  "last_of nil xs = (if xs = [] then nil else last xs)"

lemma first_of_simps [simp]: "first_of nil [] = nil" "first_of nil (x # xs) = x"
  by (simp_all add: first_of_def)

lemma last_of_simps [simp]: "last_of nil [] = nil" "last_of nil (xs @ [x]) = x"
  by (simp_all add: last_of_def)

lemma dseg_append:
  "dseg nxt prv nil p h (xs @ ys) q n \<longleftrightarrow> (\<exists>m k. dseg nxt prv nil p h xs m k \<and> dseg nxt prv nil m k ys q n)"
  by (induction xs arbitrary: p h) auto

lemma dseg_cong:
  "(\<And>x. x \<in> set xs \<Longrightarrow> nxt' x = nxt x \<and> prv' x = prv x) \<Longrightarrow>
     dseg nxt' prv' nil p h xs q n = dseg nxt prv nil p h xs q n"
proof (induction xs arbitrary: p h)
  case (Cons x xs)
  have "nxt' x = nxt x" "prv' x = prv x" using Cons.prems [of x] by simp_all
  with Cons.IH Cons.prems show ?case by simp
qed simp

lemma dll_cong:
  "(\<And>x. x \<in> set xs \<Longrightarrow> nxt' x = nxt x \<and> prv' x = prv x) \<Longrightarrow> dll nxt' prv' nil h xs = dll nxt prv nil h xs"
proof -
  assume "\<And>x. x \<in> set xs \<Longrightarrow> nxt' x = nxt x \<and> prv' x = prv x"
  then have "dseg nxt' prv' nil nil h xs q nil = dseg nxt prv nil nil h xs q nil" for q by (rule dseg_cong)
  then show ?thesis by (simp add: dll_def)
qed

lemma dseg_nil: "dseg nxt prv nil p h xs q n \<Longrightarrow> nil \<notin> set xs"
  by (induction xs arbitrary: p h) auto

lemma dseg_ends:
  "dseg nxt prv nil p h xs q n \<Longrightarrow> xs \<noteq> [] \<Longrightarrow> h = hd xs \<and> q = last xs \<and> prv (hd xs) = p \<and> nxt (last xs) = n"
proof (induction xs arbitrary: p h)
  case (Cons x xs)
  then show ?case by (cases xs) auto
qed simp

lemma dseg_exit:
  assumes "dseg nxt prv nil p h xs q n" and "distinct xs" and "xs \<noteq> []"
    and "\<And>x. x \<in> set xs \<Longrightarrow> nxt' x = (if x = last xs then k else nxt x) \<and> prv' x = prv x"
  shows "dseg nxt' prv' nil p h xs q k"
  using assms
proof (induction xs arbitrary: p h)
  case (Cons x xs)
  show ?case
  proof (cases xs)
    case Nil
    with Cons.prems show ?thesis by auto
  next
    case (Cons y ys)
    then have "x \<noteq> last xs" using Cons.prems(2) Cons by (metis distinct.simps(2) last_in_set list.discI)
    with Cons.prems Cons show ?thesis
      using Cons.IH [of x "nxt x"] by auto
  qed
qed simp

lemma dseg_entry:
  assumes "dseg nxt prv nil p h (x # xs) q n" and "distinct (x # xs)"
    and "\<And>y. y \<in> set (x # xs) \<Longrightarrow> nxt' y = nxt y \<and> prv' y = (if y = x then k else prv y)"
  shows "dseg nxt' prv' nil k h (x # xs) q n"
proof -
  have "dseg nxt' prv' nil x (nxt x) xs q n = dseg nxt prv nil x (nxt x) xs q n"
    using assms(2,3) by (intro dseg_cong) auto
  then show ?thesis using assms by auto
qed

text \<open>The links of a node inside a list.\<close>

lemma dll_links:
  assumes "dll nxt prv nil h (as @ x # bs)"
  shows "nxt x = first_of nil bs" "prv x = last_of nil as" "x \<noteq> nil"
proof -
  from assms obtain q m where a: "dseg nxt prv nil nil h as m x" and m: "prv x = m" "x \<noteq> nil"
    and b: "dseg nxt prv nil x (nxt x) bs q nil"
    by (auto simp: dll_def dseg_append)
  show "x \<noteq> nil" by (rule m(2))
  show "nxt x = first_of nil bs" using b by (cases bs) auto
  show "prv x = last_of nil as"
    using a m(1) dseg_ends [OF a] by (cases as) (auto simp: last_of_def)
qed

lemma dll_head: "dll nxt prv nil h xs \<Longrightarrow> h = first_of nil xs"
  by (cases xs) (auto simp: dll_def)

lemma dll_nil: "dll nxt prv nil h xs \<Longrightarrow> nil \<notin> set xs"
  using dseg_nil by (fastforce simp: dll_def)

lemma dll_remove:
  assumes "dll nxt prv nil h (as @ x # bs)" and d: "distinct (as @ x # bs)"
    and "\<And>y. y \<in> set (as @ bs) \<Longrightarrow> nxt' y = (if as \<noteq> [] \<and> y = last as then nxt x else nxt y)"
    and "\<And>y. y \<in> set (as @ bs) \<Longrightarrow> prv' y = (if bs \<noteq> [] \<and> y = hd bs then prv x else prv y)"
    and "h' = (if as = [] then nxt x else h)"
  shows "dll nxt' prv' nil h' (as @ bs)"
proof -
  from assms(1) obtain q m where a: "dseg nxt prv nil nil h as m x" and m: "prv x = m"
    and b: "dseg nxt prv nil x (nxt x) bs q nil"
    by (auto simp: dll_def dseg_append)
  have as': "dseg nxt' prv' nil nil h' as m (nxt x)"
  proof (cases "as = []")
    case True
    with a assms(5) show ?thesis by simp
  next
    case False
    have nb: "y \<noteq> hd bs" if "bs \<noteq> []" "y \<in> set as" for y using d that by (cases bs) auto
    show ?thesis
    proof (rule dseg_exit [OF _ _ False])
      show "dseg nxt prv nil nil h' as m x" using a assms(5) False by simp
      show "distinct as" using d by simp
      fix y assume "y \<in> set as"
      then show "nxt' y = (if y = last as then nxt x else nxt y) \<and> prv' y = prv y"
        using assms(3) [of y] assms(4) [of y] nb [of y] False by auto
    qed
  qed
  have bs': "\<exists>q'. dseg nxt' prv' nil m (nxt x) bs q' nil"
  proof (cases bs)
    case Nil
    with b show ?thesis by auto
  next
    case (Cons y ys)
    have na: "z \<noteq> last as" if "as \<noteq> []" "z \<in> set bs" for z using d that by (cases as rule: rev_cases) auto
    have "dseg nxt' prv' nil m (nxt x) (y # ys) q nil"
    proof (rule dseg_entry)
      show "dseg nxt prv nil x (nxt x) (y # ys) q nil" using b Cons by simp
      show "distinct (y # ys)" using d Cons by simp
      fix z assume "z \<in> set (y # ys)"
      then show "nxt' z = nxt z \<and> prv' z = (if z = y then m else prv z)"
        using assms(3) [of z] assms(4) [of z] na [of z] Cons m by auto
    qed
    then show ?thesis using Cons by blast
  qed
  with as' show ?thesis by (auto simp: dll_def dseg_append)
qed

lemma dll_insert:
  assumes "dll nxt prv nil h (as @ bs)" and d: "distinct (as @ x # bs)" and x: "x \<noteq> nil"
    and "\<And>y. y \<in> set (as @ x # bs) \<Longrightarrow>
      nxt' y = (if y = x then first_of nil bs else if as \<noteq> [] \<and> y = last as then x else nxt y)"
    and "\<And>y. y \<in> set (as @ x # bs) \<Longrightarrow>
      prv' y = (if y = x then last_of nil as else if bs \<noteq> [] \<and> y = hd bs then x else prv y)"
    and "h' = (if as = [] then x else h)"
  shows "dll nxt' prv' nil h' (as @ x # bs)"
proof -
  from assms(1) obtain q m k where a: "dseg nxt prv nil nil h as m k" and b: "dseg nxt prv nil m k bs q nil"
    by (auto simp: dll_def dseg_append)
  have m: "m = last_of nil as" using a dseg_ends [OF a] by (cases as) (auto simp: last_of_def)
  have k: "k = first_of nil bs" using b by (cases bs) auto
  have as': "dseg nxt' prv' nil nil h' as m x"
  proof (cases "as = []")
    case True
    with a assms(6) show ?thesis by simp
  next
    case False
    have nb: "y \<noteq> hd bs" if "bs \<noteq> []" "y \<in> set as" for y using d that by (cases bs) auto
    show ?thesis
    proof (rule dseg_exit [OF _ _ False])
      show "dseg nxt prv nil nil h' as m k" using a assms(6) False by simp
      show "distinct as" using d by simp
      fix y assume y: "y \<in> set as"
      then have "y \<noteq> x" using d by auto
      with y show "nxt' y = (if y = last as then x else nxt y) \<and> prv' y = prv y"
        using assms(4) [of y] assms(5) [of y] nb [of y] False by auto
    qed
  qed
  have bs': "\<exists>q'. dseg nxt' prv' nil x k bs q' nil"
  proof (cases bs)
    case Nil
    with b show ?thesis by simp
  next
    case (Cons y ys)
    have na: "z \<noteq> last as" if "as \<noteq> []" "z \<in> set bs" for z using d that by (cases as rule: rev_cases) auto
    have "dseg nxt' prv' nil x k (y # ys) q nil"
    proof (rule dseg_entry)
      show "dseg nxt prv nil m k (y # ys) q nil" using b Cons by simp
      show "distinct (y # ys)" using d Cons by simp
      fix z assume z: "z \<in> set (y # ys)"
      then have "z \<noteq> x" using d Cons by auto
      with z show "nxt' z = nxt z \<and> prv' z = (if z = y then x else prv z)"
        using assms(4) [of z] assms(5) [of z] na [of z] Cons by auto
    qed
    then show ?thesis using Cons by blast
  qed
  have "nxt' x = k" "prv' x = m" using assms(4,5) m k by simp_all
  with as' bs' x show ?thesis by (auto simp: dll_def dseg_append)
qed

end
