(* ===== verification/Cx_Extents.thy ===== *)
theory Cx_Extents
  imports Cx_Common Cx_Links "HOL-Library.Multiset"
begin

text \<open>
  The shared extent pools (\<^verbatim>\<open>src/loommem/allocator.cpp\<close>): free extents as nodes of one fixed table,
  threaded on an address-ordered list per pool (for coalescing), on size-class lists with a bitmap
  per pool (for lookup), or on the list of unused nodes.

  The table is a function on 32-bit indices, as the code indexes it; the fields that exist twice,
  for the data and the coherence pool, are functions of the pool.  Two loops follow links and end
  only if the lists do: they take fuel, the number of nodes of the table, and \<open>None\<close> is a walk that
  did not end.  That the fuel is enough on a well-formed header is part of what is proved.
\<close>

section \<open>Data\<close>

datatype Pool = DataPool | CoherencePool

datatype SharedExtentState = kUnused | kFree

record SharedExtentNode =
  en_offset :: u64
  en_bytes :: u64
  en_next :: u32
  en_previous :: u32
  en_bin_next :: u32
  en_bin_previous :: u32
  en_bin :: nat
  en_state :: SharedExtentState

definition kInvalidExtentIndex :: u32 where
  "kInvalidExtentIndex = UINT32_MAX"

definition kMaxSharedExtentNodes :: nat where
  "kMaxSharedExtentNodes = 4096"

definition kTlsfBinCount :: nat where
  "kTlsfBinCount = 64"

definition default_node :: SharedExtentNode where
  "default_node = \<lparr>en_offset = 0, en_bytes = 0, en_next = kInvalidExtentIndex, en_previous = kInvalidExtentIndex,
     en_bin_next = kInvalidExtentIndex, en_bin_previous = kInvalidExtentIndex, en_bin = 0, en_state = kUnused\<rparr>"

text \<open>The part of \<^verbatim>\<open>AllocatorHeader\<close> that manages extents.\<close>

record ExtentTable =
  free_head :: "Pool \<Rightarrow> u32"
  bins :: "Pool \<Rightarrow> nat \<Rightarrow> u32"
  bin_bitmap :: "Pool \<Rightarrow> u64"
  free_extent_node_head :: u32
  extent_nodes :: "u32 \<Rightarrow> SharedExtentNode"

section \<open>Operations\<close>

definition AlignUp :: "u64 \<Rightarrow> u64 \<Rightarrow> u64" where
  "AlignUp v alignment =
     (let safe = max alignment 1 in
      if safe AND (safe - 1) \<noteq> 0 then 0
      else let mask = safe - 1 in
        if UINT64_MAX - mask < v then 0 else (v + mask) AND NOT mask)"

text \<open>\<^verbatim>\<open>63 - __builtin_clzll(bytes)\<close>: the number of the highest bit.\<close>

fun highest_bit :: "nat \<Rightarrow> nat" where
  "highest_bit n = (if n < 2 then 0 else Suc (highest_bit (n div 2)))"

declare highest_bit.simps [simp del]

definition BinForBytes :: "u64 \<Rightarrow> nat" where
  "BinForBytes bytes = (if bytes \<le> 1 then 0 else min (highest_bit (unat bytes)) (kTlsfBinCount - 1))"

definition set_node :: "u32 \<Rightarrow> (SharedExtentNode \<Rightarrow> SharedExtentNode) \<Rightarrow> ExtentTable \<Rightarrow> ExtentTable" where
  "set_node i f t = t\<lparr>extent_nodes := (extent_nodes t)(i := f (extent_nodes t i))\<rparr>"

text \<open>\<^verbatim>\<open>if (i != kInvalidExtentIndex) extent_nodes[i].field = ...\<close>\<close>

definition set_valid :: "u32 \<Rightarrow> (SharedExtentNode \<Rightarrow> SharedExtentNode) \<Rightarrow> ExtentTable \<Rightarrow> ExtentTable" where
  "set_valid i f t = (if i \<noteq> kInvalidExtentIndex then set_node i f t else t)"

definition set_bin :: "Pool \<Rightarrow> nat \<Rightarrow> u32 \<Rightarrow> ExtentTable \<Rightarrow> ExtentTable" where
  "set_bin p b i t = t\<lparr>bins := (bins t)(p := (bins t p)(b := i))\<rparr>"

definition set_head :: "Pool \<Rightarrow> u32 \<Rightarrow> ExtentTable \<Rightarrow> ExtentTable" where
  "set_head p i t = t\<lparr>free_head := (free_head t)(p := i)\<rparr>"

definition InsertBinLocked :: "Pool \<Rightarrow> u32 \<Rightarrow> ExtentTable \<Rightarrow> ExtentTable" where
  "InsertBinLocked p i t =
     (let b = BinForBytes (en_bytes (extent_nodes t i));
          old = bins t p b;
          t1 = set_node i (\<lambda>n. n\<lparr>en_bin := b, en_bin_previous := kInvalidExtentIndex, en_bin_next := old\<rparr>) t;
          t2 = set_valid old (\<lambda>n. n\<lparr>en_bin_previous := i\<rparr>) t1;
          t3 = set_bin p b i t2
      in t3\<lparr>bin_bitmap := (bin_bitmap t3)(p := bin_bitmap t3 p OR push_bit b 1)\<rparr>)"

definition RemoveBinLocked :: "Pool \<Rightarrow> u32 \<Rightarrow> ExtentTable \<Rightarrow> ExtentTable" where
  "RemoveBinLocked p i t =
     (let node = extent_nodes t i; b = en_bin node;
          t1 = (if en_bin_previous node = kInvalidExtentIndex then set_bin p b (en_bin_next node) t
                else set_node (en_bin_previous node) (\<lambda>n. n\<lparr>en_bin_next := en_bin_next node\<rparr>) t);
          t2 = set_valid (en_bin_next node) (\<lambda>n. n\<lparr>en_bin_previous := en_bin_previous node\<rparr>) t1;
          t3 = (if bins t2 p b = kInvalidExtentIndex
                then t2\<lparr>bin_bitmap := (bin_bitmap t2)(p := bin_bitmap t2 p AND NOT (push_bit b 1))\<rparr> else t2)
      in set_node i (\<lambda>n. n\<lparr>en_bin_next := kInvalidExtentIndex, en_bin_previous := kInvalidExtentIndex\<rparr>) t3)"

definition ReserveExtentNodeLocked :: "ExtentTable \<Rightarrow> u32 Result \<times> ExtentTable" where
  "ReserveExtentNodeLocked t =
     (let i = free_extent_node_head t in
      if i = kInvalidExtentIndex then (Inl kUnavailable, t)
      else (Inr i, set_node i (\<lambda>_. default_node) (t\<lparr>free_extent_node_head := en_next (extent_nodes t i)\<rparr>)))"

text \<open>The test that an extent can hold the aligned block (the negation of the loop's \<^verbatim>\<open>continue\<close>).\<close>

definition extent_fits :: "u64 \<Rightarrow> u64 \<Rightarrow> SharedExtentNode \<Rightarrow> bool" where
  "extent_fits bytes alignment node =
     (let a = AlignUp (en_offset node) alignment; e = en_offset node + en_bytes node
      in \<not> (a < en_offset node \<or> e < a \<or> e - a < bytes))"

text \<open>The inner loop: along a size-class list to the first extent that fits.\<close>

fun find_in_bin :: "nat \<Rightarrow> ExtentTable \<Rightarrow> u64 \<Rightarrow> u64 \<Rightarrow> u32 \<Rightarrow> u32 option option" where
  "find_in_bin 0 t bytes alignment i = None"
| "find_in_bin (Suc fuel) t bytes alignment i =
     (if i = kInvalidExtentIndex then Some None
      else if extent_fits bytes alignment (extent_nodes t i) then Some (Some i)
      else find_in_bin fuel t bytes alignment (en_bin_next (extent_nodes t i)))"

text \<open>The outer loop over the size classes from the lowest set bit of the mask.\<close>

fun find_in_bins :: "ExtentTable \<Rightarrow> Pool \<Rightarrow> u64 \<Rightarrow> u64 \<Rightarrow> u64 \<Rightarrow> nat list \<Rightarrow> u32 option option" where
  "find_in_bins t p available bytes alignment [] = Some None"
| "find_in_bins t p available bytes alignment (b # bs) =
     (if \<not> bit available b then find_in_bins t p available bytes alignment bs
      else (case find_in_bin (Suc kMaxSharedExtentNodes) t bytes alignment (bins t p b) of
              None \<Rightarrow> None
            | Some (Some i) \<Rightarrow> Some (Some i)
            | Some None \<Rightarrow> find_in_bins t p available bytes alignment bs))"

definition ctz :: "u64 \<Rightarrow> nat" where
  "ctz w = length (takeWhile (\<lambda>i. \<not> bit w i) [0..<64])"

text \<open>Carving the block out of the extent that was found.\<close>

definition carve :: "Pool \<Rightarrow> u64 \<Rightarrow> u64 \<Rightarrow> u32 \<Rightarrow> ExtentTable \<Rightarrow> u64 Result \<times> ExtentTable" where
  "carve p bytes alignment i t =
     (let node = extent_nodes t i;
          a = AlignUp (en_offset node) alignment;
          prefix = a - en_offset node;
          suffix_offset = a + bytes;
          suffix = en_offset node + en_bytes node - suffix_offset;
          old_next = en_next node;
          t0 = RemoveBinLocked p i t
      in if prefix \<noteq> 0 \<and> suffix \<noteq> 0
         then (case ReserveExtentNodeLocked t0 of
                 (Inl st, t1) \<Rightarrow> (Inl st, InsertBinLocked p i t1)
               | (Inr j, t1) \<Rightarrow>
                   let t2 = set_node j (\<lambda>n. n\<lparr>en_offset := suffix_offset, en_bytes := suffix, en_state := kFree,
                                            en_next := old_next, en_previous := i\<rparr>) t1;
                       t3 = set_valid old_next (\<lambda>n. n\<lparr>en_previous := j\<rparr>) t2;
                       t4 = set_node i (\<lambda>n. n\<lparr>en_bytes := prefix, en_next := j, en_state := kFree\<rparr>) t3
                   in (Inr a, InsertBinLocked p j (InsertBinLocked p i t4)))
         else if prefix \<noteq> 0
         then (Inr a, InsertBinLocked p i (set_node i (\<lambda>n. n\<lparr>en_bytes := prefix\<rparr>) t0))
         else if suffix \<noteq> 0
         then (Inr a, InsertBinLocked p i (set_node i (\<lambda>n. n\<lparr>en_offset := suffix_offset, en_bytes := suffix\<rparr>) t0))
         else
           let prev = en_previous node;
               t1 = (if prev \<noteq> kInvalidExtentIndex then set_node prev (\<lambda>n. n\<lparr>en_next := old_next\<rparr>) t0
                     else set_head p old_next t0);
               t2 = set_valid old_next (\<lambda>n. n\<lparr>en_previous := prev\<rparr>) t1;
               t3 = set_node i (\<lambda>n. n\<lparr>en_state := kUnused, en_next := free_extent_node_head t2\<rparr>) t2
           in (Inr a, t3\<lparr>free_extent_node_head := i\<rparr>))"

definition AllocateExtentLocked :: "Pool \<Rightarrow> u64 \<Rightarrow> u64 \<Rightarrow> ExtentTable \<Rightarrow> (u64 Result \<times> ExtentTable) option" where
  "AllocateExtentLocked p bytes alignment t =
     (let available = bin_bitmap t p AND push_bit (BinForBytes bytes) UINT64_MAX in
      if available = 0 then Some (Inl kUnavailable, t)
      else (case find_in_bins t p available bytes alignment [ctz available..<kTlsfBinCount] of
              None \<Rightarrow> None
            | Some None \<Rightarrow> Some (Inl kUnavailable, t)
            | Some (Some i) \<Rightarrow> Some (carve p bytes alignment i t)))"

text \<open>The walk of \<^verbatim>\<open>FreeExtentLocked\<close> to the gap for an offset: the nodes before and after it.\<close>

fun find_gap :: "nat \<Rightarrow> ExtentTable \<Rightarrow> u64 \<Rightarrow> u32 \<Rightarrow> u32 \<Rightarrow> (u32 \<times> u32) option" where
  "find_gap 0 t offset previous next = None"
| "find_gap (Suc fuel) t offset previous next =
     (if next \<noteq> kInvalidExtentIndex \<and> en_offset (extent_nodes t next) < offset
      then find_gap fuel t offset next (en_next (extent_nodes t next))
      else Some (previous, next))"

definition extent_end :: "ExtentTable \<Rightarrow> u32 \<Rightarrow> u64" where
  "extent_end t i = en_offset (extent_nodes t i) + en_bytes (extent_nodes t i)"

text \<open>Merging the freed extent into its predecessor, and into the successor when they meet.\<close>

definition merge_previous :: "Pool \<Rightarrow> u64 \<Rightarrow> u64 \<Rightarrow> u32 \<Rightarrow> u32 \<Rightarrow> ExtentTable \<Rightarrow> ExtentTable" where
  "merge_previous p offset bytes previous next t =
     (let t1 = set_node previous (\<lambda>n. n\<lparr>en_bytes := en_bytes n + bytes\<rparr>) (RemoveBinLocked p previous t);
          t2 = (if next \<noteq> kInvalidExtentIndex \<and> offset + bytes = en_offset (extent_nodes t1 next)
                then
                  let u0 = RemoveBinLocked p next t1;
                      after = en_next (extent_nodes u0 next);
                      u1 = set_node previous (\<lambda>n. n\<lparr>en_bytes := en_bytes n + en_bytes (extent_nodes u0 next),
                             en_next := after\<rparr>) u0;
                      u2 = set_valid after (\<lambda>n. n\<lparr>en_previous := previous\<rparr>) u1;
                      u3 = set_node next (\<lambda>n. n\<lparr>en_state := kUnused, en_next := free_extent_node_head u2\<rparr>) u2
                  in u3\<lparr>free_extent_node_head := next\<rparr>
                else t1)
      in InsertBinLocked p previous t2)"

definition FreeExtentLocked :: "Pool \<Rightarrow> u64 \<Rightarrow> u64 \<Rightarrow> ExtentTable \<Rightarrow> (Status \<times> ExtentTable) option" where
  "FreeExtentLocked p offset bytes t =
     (if bytes = 0 then Some (kInvalidArgument, t)
      else (case find_gap (Suc kMaxSharedExtentNodes) t offset kInvalidExtentIndex (free_head t p) of
              None \<Rightarrow> None
            | Some (previous, next) \<Rightarrow>
                if previous \<noteq> kInvalidExtentIndex \<and> offset < extent_end t previous \<or>
                   next \<noteq> kInvalidExtentIndex \<and> en_offset (extent_nodes t next) < offset + bytes
                then Some (kFailedPrecondition, t)
                else if previous \<noteq> kInvalidExtentIndex \<and> extent_end t previous = offset
                then Some (kOk, merge_previous p offset bytes previous next t)
                else if next \<noteq> kInvalidExtentIndex \<and> offset + bytes = en_offset (extent_nodes t next)
                then Some (kOk, InsertBinLocked p next
                       (set_node next (\<lambda>n. n\<lparr>en_offset := offset, en_bytes := en_bytes n + bytes\<rparr>)
                          (RemoveBinLocked p next t)))
                else (case ReserveExtentNodeLocked t of
                        (Inl st, t1) \<Rightarrow> Some (st, t1)
                      | (Inr j, t1) \<Rightarrow>
                          let t2 = set_node j (\<lambda>n. n\<lparr>en_offset := offset, en_bytes := bytes, en_next := next,
                                                     en_previous := previous, en_state := kFree\<rparr>) t1;
                              t3 = (if previous \<noteq> kInvalidExtentIndex
                                    then set_node previous (\<lambda>n. n\<lparr>en_next := j\<rparr>) t2 else set_head p j t2);
                              t4 = set_valid next (\<lambda>n. n\<lparr>en_previous := j\<rparr>) t3
                          in Some (kOk, InsertBinLocked p j t4))))"

text \<open>The extents part of \<^verbatim>\<open>FormatSharedAllocator\<close>: one free extent per pool, all other nodes unused.\<close>

definition initial_node :: "u64 \<Rightarrow> u64 \<Rightarrow> SharedExtentNode" where
  "initial_node offset bytes =
     default_node\<lparr>en_offset := offset, en_bytes := bytes, en_state := kFree, en_bin := BinForBytes bytes\<rparr>"

definition unused_node :: "u32 \<Rightarrow> SharedExtentNode" where
  "unused_node i = default_node\<lparr>en_next :=
     (if unat i + 1 < kMaxSharedExtentNodes then i + 1 else kInvalidExtentIndex)\<rparr>"

definition format_extents :: "u64 \<Rightarrow> u64 \<Rightarrow> u64 \<Rightarrow> u64 \<Rightarrow> ExtentTable" where
  "format_extents data_offset data_bytes coherence_offset coherence_bytes =
     \<lparr>free_head = case_Pool 0 1,
      bins = case_Pool ((\<lambda>_. kInvalidExtentIndex)(BinForBytes data_bytes := 0))
                       ((\<lambda>_. kInvalidExtentIndex)(BinForBytes coherence_bytes := 1)),
      bin_bitmap = case_Pool (push_bit (BinForBytes data_bytes) 1) (push_bit (BinForBytes coherence_bytes) 1),
      free_extent_node_head = 2,
      extent_nodes = (\<lambda>i. if i = 0 then initial_node data_offset data_bytes
                          else if i = 1 then initial_node coherence_offset coherence_bytes else unused_node i)\<rparr>"

section \<open>Size-class lists\<close>

abbreviation nil :: u32 where
  "nil \<equiv> kInvalidExtentIndex"

abbreviation node :: "ExtentTable \<Rightarrow> u32 \<Rightarrow> SharedExtentNode" where
  "node t i \<equiv> extent_nodes t i"

text \<open>
  The size classes of a pool thread the nodes of \<open>S\<close>, each on the list of its class, and the bitmap
  marks the classes that are not empty.
\<close>

definition class_ok :: "ExtentTable \<Rightarrow> Pool \<Rightarrow> nat \<Rightarrow> u32 list \<Rightarrow> bool" where
  "class_ok t p b xs \<longleftrightarrow>
     dll (\<lambda>i. en_bin_next (node t i)) (\<lambda>i. en_bin_previous (node t i)) nil (bins t p b) xs \<and> distinct xs \<and>
     (bit (bin_bitmap t p) b \<longleftrightarrow> xs \<noteq> []) \<and>
     (\<forall>x \<in> set xs. en_bin (node t x) = b \<and> BinForBytes (en_bytes (node t x)) = b)"

definition bins_ok :: "ExtentTable \<Rightarrow> Pool \<Rightarrow> (nat \<Rightarrow> u32 list) \<Rightarrow> u32 set \<Rightarrow> bool" where
  "bins_ok t p bs S \<longleftrightarrow> (\<forall>b < kTlsfBinCount. class_ok t p b (bs b)) \<and> (\<Union>b \<in> {..<kTlsfBinCount}. set (bs b)) = S"

text \<open>What the list operations of pool \<open>p\<close> on the nodes \<open>S\<close> leave alone.\<close>

definition bin_frame :: "Pool \<Rightarrow> u32 set \<Rightarrow> ExtentTable \<Rightarrow> ExtentTable \<Rightarrow> bool" where
  "bin_frame p S t t' \<longleftrightarrow> free_head t' = free_head t \<and> free_extent_node_head t' = free_extent_node_head t \<and>
     (\<forall>i. en_offset (node t' i) = en_offset (node t i) \<and> en_bytes (node t' i) = en_bytes (node t i) \<and>
        en_next (node t' i) = en_next (node t i) \<and> en_previous (node t' i) = en_previous (node t i) \<and>
        en_state (node t' i) = en_state (node t i)) \<and>
     (\<forall>i. i \<notin> S \<longrightarrow> node t' i = node t i) \<and>
     (\<forall>q. q \<noteq> p \<longrightarrow> bins t' q = bins t q \<and> bin_bitmap t' q = bin_bitmap t q)"

lemma BinForBytes_less: "BinForBytes bytes < kTlsfBinCount"
  by (simp add: BinForBytes_def kTlsfBinCount_def min_def)

lemma bins_ok_frame:
  assumes "bins_ok t p bs S" and "bins t' p = bins t p" and "bin_bitmap t' p = bin_bitmap t p"
    and "\<And>i. i \<in> S \<Longrightarrow> en_bin_next (node t' i) = en_bin_next (node t i) \<and>
      en_bin_previous (node t' i) = en_bin_previous (node t i) \<and> en_bin (node t' i) = en_bin (node t i) \<and>
      BinForBytes (en_bytes (node t' i)) = BinForBytes (en_bytes (node t i))"
  shows "bins_ok t' p bs S"
proof -
  have "class_ok t' p b (bs b)" if b: "b < kTlsfBinCount" for b
  proof -
    have sub: "i \<in> S" if "i \<in> set (bs b)" for i using assms(1) b that by (auto simp: bins_ok_def)
    have c: "class_ok t p b (bs b)" using assms(1) b by (simp add: bins_ok_def)
    have "dll (\<lambda>i. en_bin_next (node t' i)) (\<lambda>i. en_bin_previous (node t' i)) nil (bins t' p b) (bs b) =
        dll (\<lambda>i. en_bin_next (node t i)) (\<lambda>i. en_bin_previous (node t i)) nil (bins t' p b) (bs b)"
      by (rule dll_cong) (use assms(4) sub in auto)
    then show ?thesis using c assms(2-4) sub unfolding class_ok_def by auto
  qed
  then show ?thesis using assms(1) by (simp add: bins_ok_def)
qed

lemma bins_ok_member:
  assumes "bins_ok t p bs S" and "x \<in> S"
  shows "en_bin (node t x) < kTlsfBinCount" "x \<in> set (bs (en_bin (node t x)))"
    "en_bin (node t x) = BinForBytes (en_bytes (node t x))"
proof -
  from assms obtain b where b: "b < kTlsfBinCount" "x \<in> set (bs b)" by (auto simp: bins_ok_def)
  then have "en_bin (node t x) = b" "BinForBytes (en_bytes (node t x)) = b"
    using assms(1) by (auto simp: bins_ok_def class_ok_def)
  with b show "en_bin (node t x) < kTlsfBinCount" "x \<in> set (bs (en_bin (node t x)))"
    "en_bin (node t x) = BinForBytes (en_bytes (node t x))" by simp_all
qed

lemma class_ok_frame:
  assumes "class_ok t p b xs" and "bins t' p b = bins t p b" and "bit (bin_bitmap t' p) b = bit (bin_bitmap t p) b"
    and "\<And>i. i \<in> set xs \<Longrightarrow> node t' i = node t i"
  shows "class_ok t' p b xs"
proof -
  have "dll (\<lambda>i. en_bin_next (node t' i)) (\<lambda>i. en_bin_previous (node t' i)) nil (bins t p b) xs =
      dll (\<lambda>i. en_bin_next (node t i)) (\<lambda>i. en_bin_previous (node t i)) nil (bins t p b) xs"
    by (rule dll_cong) (use assms(4) in auto)
  then show ?thesis using assms unfolding class_ok_def by auto
qed

lemma node_accessors [simp]:
  "node (set_node i f t) j = (if j = i then f (node t i) else node t j)"
  "node (set_valid i f t) j = (if j = i \<and> i \<noteq> nil then f (node t i) else node t j)"
  "node (set_bin p b k t) j = node t j" "node (set_head p k t) j = node t j"
  by (simp_all add: set_node_def set_valid_def set_bin_def set_head_def)

lemma list_accessors [simp]:
  "bins (set_node i f t) = bins t" "bins (set_valid i f t) = bins t" "bins (set_head p k t) = bins t"
  "bins (set_bin p b k t) = (bins t)(p := (bins t p)(b := k))"
  "bin_bitmap (set_node i f t) = bin_bitmap t" "bin_bitmap (set_valid i f t) = bin_bitmap t"
  "bin_bitmap (set_head p k t) = bin_bitmap t" "bin_bitmap (set_bin p b k t) = bin_bitmap t"
  "free_head (set_node i f t) = free_head t" "free_head (set_valid i f t) = free_head t"
  "free_head (set_bin p b k t) = free_head t" "free_head (set_head p k t) = (free_head t)(p := k)"
  "free_extent_node_head (set_node i f t) = free_extent_node_head t"
  "free_extent_node_head (set_valid i f t) = free_extent_node_head t"
  "free_extent_node_head (set_bin p b k t) = free_extent_node_head t"
  "free_extent_node_head (set_head p k t) = free_extent_node_head t"
  by (simp_all add: set_node_def set_valid_def set_bin_def set_head_def)

text \<open>The nodes that a removal rewrites, in terms of the neighbours in the class list.\<close>

lemma RemoveBin_nodes:
  assumes c: "class_ok t p b (as @ x # cs)" and b: "en_bin (node t x) = b"
  defines "t' \<equiv> RemoveBinLocked p x t"
  shows "node t' i = (if i = x then (node t x)\<lparr>en_bin_next := nil, en_bin_previous := nil\<rparr>
      else (node t i)\<lparr>en_bin_next := (if as \<noteq> [] \<and> i = last as then en_bin_next (node t x) else en_bin_next (node t i)),
             en_bin_previous := (if cs \<noteq> [] \<and> i = hd cs then en_bin_previous (node t x) else en_bin_previous (node t i))\<rparr>)"
    and "bins t' p c = (if c = b \<and> as = [] then first_of nil cs else bins t p c)"
    and "q \<noteq> p \<Longrightarrow> bins t' q = bins t q \<and> bin_bitmap t' q = bin_bitmap t q"
    and "c < 64 \<Longrightarrow> bit (bin_bitmap t' p) c \<longleftrightarrow> bit (bin_bitmap t p) c \<and> \<not> (c = b \<and> as @ cs = [])"
    and "free_head t' = free_head t" "free_extent_node_head t' = free_extent_node_head t"
proof -
  from c have d: "dll (\<lambda>i. en_bin_next (node t i)) (\<lambda>i. en_bin_previous (node t i)) nil (bins t p b) (as @ x # cs)"
    and dist: "distinct (as @ x # cs)" by (auto simp: class_ok_def)
  note links = dll_links [OF d] and nn = dll_nil [OF d]
  have head: "bins t p b = first_of nil (as @ x # cs)" by (rule dll_head [OF d])
  have lastne: "as \<noteq> [] \<Longrightarrow> last as \<noteq> nil" using nn by (metis last_in_set Un_iff set_append)
  have prv: "en_bin_previous (node t x) = nil \<longleftrightarrow> as = []" "as \<noteq> [] \<Longrightarrow> en_bin_previous (node t x) = last as"
    using links(2) lastne by (auto simp: last_of_def)
  have nxt: "en_bin_next (node t x) = nil \<longleftrightarrow> cs = []" "cs \<noteq> [] \<Longrightarrow> en_bin_next (node t x) = hd cs"
    using links(1) nn by (auto simp: first_of_def split: list.splits)
  have hdne: "as \<noteq> [] \<Longrightarrow> bins t p b \<noteq> nil" using head nn by (cases as) auto
  have ne: "as \<noteq> [] \<Longrightarrow> last as \<noteq> x" "cs \<noteq> [] \<Longrightarrow> hd cs \<noteq> x" "as \<noteq> [] \<Longrightarrow> cs \<noteq> [] \<Longrightarrow> last as \<noteq> hd cs" "x \<noteq> nil"
    using dist nn by (cases as rule: rev_cases; cases cs; auto)+
  note defs = t'_def RemoveBinLocked_def Let_def b
  show "node t' i = (if i = x then (node t x)\<lparr>en_bin_next := nil, en_bin_previous := nil\<rparr>
      else (node t i)\<lparr>en_bin_next := (if as \<noteq> [] \<and> i = last as then en_bin_next (node t x) else en_bin_next (node t i)),
             en_bin_previous := (if cs \<noteq> [] \<and> i = hd cs then en_bin_previous (node t x) else en_bin_previous (node t i))\<rparr>)"
    using prv nxt ne by (cases "as = []"; cases "cs = []") (simp_all add: defs)
  show "bins t' p c = (if c = b \<and> as = [] then first_of nil cs else bins t p c)"
    using prv nxt links(1) by (cases "as = []"; cases "cs = []") (simp_all add: defs)
  show "q \<noteq> p \<Longrightarrow> bins t' q = bins t q \<and> bin_bitmap t' q = bin_bitmap t q"
    by (simp add: defs)
  show "c < 64 \<Longrightarrow> bit (bin_bitmap t' p) c \<longleftrightarrow> bit (bin_bitmap t p) c \<and> \<not> (c = b \<and> as @ cs = [])"
    using prv nxt links(1) hdne
    by (cases "as = []"; cases "cs = []") (auto simp: defs bit_and_iff bit_not_iff bit_exp_iff)
  show "free_head t' = free_head t" "free_extent_node_head t' = free_extent_node_head t"
    by (simp_all add: defs)
qed

lemma RemoveBin_ok:
  assumes ok: "bins_ok t p bs S" and x: "x \<in> S"
  shows "\<exists>bs'. bins_ok (RemoveBinLocked p x t) p bs' (S - {x})" and "bin_frame p S t (RemoveBinLocked p x t)"
proof -
  let ?b = "en_bin (node t x)" and ?t = "RemoveBinLocked p x t"
  note m = bins_ok_member [OF ok x]
  from m(2) obtain as cs where split: "bs ?b = as @ x # cs" by (meson split_list)
  have c: "class_ok t p ?b (as @ x # cs)" using ok m(1) split by (metis bins_ok_def)
  note n = RemoveBin_nodes [OF c refl]
  have in_S: "set (as @ x # cs) \<subseteq> S" using ok m(1) split unfolding bins_ok_def by (metis UN_upper lessThan_iff)
  have d: "dll (\<lambda>i. en_bin_next (node t i)) (\<lambda>i. en_bin_previous (node t i)) nil (bins t p ?b) (as @ x # cs)"
    and dist: "distinct (as @ x # cs)" and cls: "\<forall>y \<in> set (as @ x # cs). en_bin (node t y) = ?b \<and> BinForBytes (en_bytes (node t y)) = ?b"
    using c by (auto simp: class_ok_def)
  have "dll (\<lambda>i. en_bin_next (node ?t i)) (\<lambda>i. en_bin_previous (node ?t i)) nil (bins ?t p ?b) (as @ cs)"
  proof (rule dll_remove [OF d dist])
    show "bins ?t p ?b = (if as = [] then en_bin_next (node t x) else bins t p ?b)"
      using n(2) [of ?b] dll_links(1) [OF d] by simp
    fix y assume "y \<in> set (as @ cs)"
    then have "y \<noteq> x" using dist by auto
    then show "en_bin_next (node ?t y) = (if as \<noteq> [] \<and> y = last as then en_bin_next (node t x) else en_bin_next (node t y))"
      "en_bin_previous (node ?t y) = (if cs \<noteq> [] \<and> y = hd cs then en_bin_previous (node t x) else en_bin_previous (node t y))"
      using n(1) [of y] by simp_all
  qed
  moreover have fields: "en_bin (node ?t i) = en_bin (node t i)" "en_bytes (node ?t i) = en_bytes (node t i)" for i
    using n(1) [of i] by (cases "i = x"; simp)+
  moreover have "bit (bin_bitmap ?t p) ?b \<longleftrightarrow> as @ cs \<noteq> []"
    using n(4) [of ?b] m(1) c by (simp add: kTlsfBinCount_def class_ok_def)
  moreover have "\<forall>y \<in> set (as @ cs). en_bin (node t y) = ?b \<and> BinForBytes (en_bytes (node t y)) = ?b" using cls by simp
  ultimately have here: "class_ok ?t p ?b (as @ cs)"
    using dist unfolding class_ok_def fields by simp
  have there: "class_ok ?t p b (bs b)" if "b < kTlsfBinCount" "b \<noteq> ?b" for b
  proof (rule class_ok_frame)
    show co: "class_ok t p b (bs b)" using ok that by (simp add: bins_ok_def)
    show "bins ?t p b = bins t p b" using n(2) that by simp
    show "bit (bin_bitmap ?t p) b = bit (bin_bitmap t p) b" using n(4) that by (simp add: kTlsfBinCount_def)
    fix i assume "i \<in> set (bs b)"
    then have "en_bin (node t i) = b" using co by (simp add: class_ok_def)
    then have "i \<notin> set (as @ x # cs)" using cls that(2) by auto
    then show "node ?t i = node t i" using n(1) [of i] by (auto split: if_splits)
  qed
  let ?bs = "bs(?b := as @ cs)"
  have "(\<Union>b \<in> {..<kTlsfBinCount}. set (?bs b)) = S - {x}"
  proof (intro equalityI subsetI)
    fix y assume "y \<in> (\<Union>b \<in> {..<kTlsfBinCount}. set (?bs b))"
    then obtain b where b: "b < kTlsfBinCount" "y \<in> set (?bs b)" by blast
    show "y \<in> S - {x}"
    proof (cases "b = ?b")
      case True
      then show ?thesis using b in_S dist by auto
    next
      case False
      then have y: "y \<in> set (bs b)" using b(2) by simp
      then have "en_bin (node t y) = b" using ok b(1) by (simp add: bins_ok_def class_ok_def)
      then have "y \<noteq> x" using False by auto
      with y b(1) ok show ?thesis unfolding bins_ok_def by blast
    qed
  next
    fix y assume y: "y \<in> S - {x}"
    then have "en_bin (node t y) < kTlsfBinCount" "y \<in> set (bs (en_bin (node t y)))"
      using bins_ok_member [OF ok] by auto
    moreover have "y \<in> set (?bs (en_bin (node t y)))"
      using calculation(2) y split by (cases "en_bin (node t y) = ?b") auto
    ultimately show "y \<in> (\<Union>b \<in> {..<kTlsfBinCount}. set (?bs b))" by blast
  qed
  then have "bins_ok ?t p ?bs (S - {x})" using here there by (simp add: bins_ok_def)
  then show "\<exists>bs'. bins_ok ?t p bs' (S - {x})" by blast
  show "bin_frame p S t ?t"
  proof -
    have "node ?t i = node t i" if "i \<notin> S" for i
    proof -
      have "i \<notin> set (as @ x # cs)" using that in_S by blast
      then show ?thesis using n(1) [of i] by (auto split: if_splits)
    qed
    then show ?thesis using n by (auto simp: bin_frame_def)
  qed
qed

lemma InsertBin_nodes:
  assumes c: "class_ok t p b xs" and b: "BinForBytes (en_bytes (node t x)) = b" and x: "x \<notin> set xs" "x \<noteq> nil"
  defines "t' \<equiv> InsertBinLocked p x t"
  shows "node t' i = (if i = x then (node t x)\<lparr>en_bin := b, en_bin_previous := nil, en_bin_next := first_of nil xs\<rparr>
      else (node t i)\<lparr>en_bin_previous := (if xs \<noteq> [] \<and> i = hd xs then x else en_bin_previous (node t i))\<rparr>)"
    and "bins t' p c = (if c = b then x else bins t p c)"
    and "q \<noteq> p \<Longrightarrow> bins t' q = bins t q \<and> bin_bitmap t' q = bin_bitmap t q"
    and "c < 64 \<Longrightarrow> bit (bin_bitmap t' p) c \<longleftrightarrow> bit (bin_bitmap t p) c \<or> c = b"
    and "free_head t' = free_head t" "free_extent_node_head t' = free_extent_node_head t"
proof -
  from c have d: "dll (\<lambda>i. en_bin_next (node t i)) (\<lambda>i. en_bin_previous (node t i)) nil (bins t p b) xs"
    by (simp add: class_ok_def)
  have old: "bins t p b = first_of nil xs" by (rule dll_head [OF d])
  have ne: "xs \<noteq> [] \<Longrightarrow> first_of nil xs = hd xs \<and> hd xs \<noteq> nil \<and> hd xs \<noteq> x"
    using dll_nil [OF d] x(1) by (cases xs) auto
  note defs = t'_def InsertBinLocked_def Let_def b old
  show "node t' i = (if i = x then (node t x)\<lparr>en_bin := b, en_bin_previous := nil, en_bin_next := first_of nil xs\<rparr>
      else (node t i)\<lparr>en_bin_previous := (if xs \<noteq> [] \<and> i = hd xs then x else en_bin_previous (node t i))\<rparr>)"
    using ne x(2) by (cases "xs = []") (simp_all add: defs)
  show "bins t' p c = (if c = b then x else bins t p c)" by (simp add: defs)
  show "q \<noteq> p \<Longrightarrow> bins t' q = bins t q \<and> bin_bitmap t' q = bin_bitmap t q" by (simp add: defs)
  show "c < 64 \<Longrightarrow> bit (bin_bitmap t' p) c \<longleftrightarrow> bit (bin_bitmap t p) c \<or> c = b"
    by (auto simp: defs bit_or_iff bit_exp_iff)
  show "free_head t' = free_head t" "free_extent_node_head t' = free_extent_node_head t"
    by (simp_all add: defs)
qed

lemma InsertBin_ok:
  assumes ok: "bins_ok t p bs S" and x: "x \<notin> S" "x \<noteq> nil"
  shows "\<exists>bs'. bins_ok (InsertBinLocked p x t) p bs' (insert x S)" and "bin_frame p (insert x S) t (InsertBinLocked p x t)"
proof -
  define b where "b = BinForBytes (en_bytes (node t x))"
  let ?t = "InsertBinLocked p x t"
  have b: "b < kTlsfBinCount" by (simp add: b_def BinForBytes_less)
  have c: "class_ok t p b (bs b)" using ok b by (simp add: bins_ok_def)
  have in_S: "set (bs b) \<subseteq> S" using ok b unfolding bins_ok_def by blast
  have xb: "x \<notin> set (bs b)" using in_S x by blast
  note n = InsertBin_nodes [OF c b_def [symmetric] xb x(2)]
  have d: "dll (\<lambda>i. en_bin_next (node t i)) (\<lambda>i. en_bin_previous (node t i)) nil (bins t p b) ([] @ bs b)"
    and dist: "distinct ([] @ x # bs b)" using c xb by (auto simp: class_ok_def)
  have "dll (\<lambda>i. en_bin_next (node ?t i)) (\<lambda>i. en_bin_previous (node ?t i)) nil (bins ?t p b) ([] @ x # bs b)"
  proof (rule dll_insert [OF d dist x(2)])
    fix y assume "y \<in> set ([] @ x # bs b)"
    show "en_bin_next (node ?t y) = (if y = x then first_of nil (bs b) else if [] \<noteq> [] \<and> y = last [] then x else en_bin_next (node t y))"
      "en_bin_previous (node ?t y) = (if y = x then last_of nil [] else if bs b \<noteq> [] \<and> y = hd (bs b) then x else en_bin_previous (node t y))"
      using n(1) [of y] by simp_all
  qed (simp add: n(2))
  moreover have fields: "en_bytes (node ?t i) = en_bytes (node t i)" "en_bin (node ?t i) = (if i = x then b else en_bin (node t i))" for i
    using n(1) [of i] by (cases "i = x"; simp)+
  moreover have "bit (bin_bitmap ?t p) b" using n(4) [of b] b by (simp add: kTlsfBinCount_def)
  moreover have "\<forall>y \<in> set (x # bs b). en_bin (node ?t y) = b \<and> BinForBytes (en_bytes (node t y)) = b"
    using c b_def by (auto simp: class_ok_def fields)
  ultimately have here: "class_ok ?t p b (x # bs b)"
    using dist unfolding class_ok_def fields(1) by simp
  have there: "class_ok ?t p c (bs c)" if "c < kTlsfBinCount" "c \<noteq> b" for c
  proof (rule class_ok_frame)
    show co: "class_ok t p c (bs c)" using ok that by (simp add: bins_ok_def)
    show "bins ?t p c = bins t p c" using n(2) that by simp
    show "bit (bin_bitmap ?t p) c = bit (bin_bitmap t p) c" using n(4) that by (simp add: kTlsfBinCount_def)
    fix i assume i: "i \<in> set (bs c)"
    then have "en_bin (node t i) = c" using co by (simp add: class_ok_def)
    then have "i \<notin> set (bs b)" using c that(2) by (auto simp: class_ok_def)
    moreover have "i \<noteq> x" using i that(1) ok x(1) unfolding bins_ok_def by blast
    ultimately show "node ?t i = node t i" using n(1) [of i] by (cases "bs b") auto
  qed
  have "(\<Union>c \<in> {..<kTlsfBinCount}. set ((bs(b := x # bs b)) c)) = insert x (\<Union>c \<in> {..<kTlsfBinCount}. set (bs c))"
    using b by (auto split: if_splits)
  then have "bins_ok ?t p (bs(b := x # bs b)) (insert x S)" using here there ok by (simp add: bins_ok_def)
  then show "\<exists>bs'. bins_ok ?t p bs' (insert x S)" by blast
  show "bin_frame p (insert x S) t ?t"
  proof -
    have "node ?t i = node t i" if "i \<notin> insert x S" for i
    proof -
      have "i \<notin> set (bs b)" "i \<noteq> x" using that in_S by auto
      then show ?thesis using n(1) [of i] by (cases "bs b") auto
    qed
    moreover have "en_offset (node ?t i) = en_offset (node t i)" "en_next (node ?t i) = en_next (node t i)"
      "en_previous (node ?t i) = en_previous (node t i)" "en_state (node ?t i) = en_state (node t i)" for i
      using n(1) [of i] by (cases "i = x"; simp)+
    ultimately show ?thesis using n(3,5,6) fields(1) by (simp add: bin_frame_def)
  qed
qed

section \<open>Well-formed tables\<close>

definition lo :: "ExtentTable \<Rightarrow> u32 \<Rightarrow> nat" where
  "lo t i = unat (en_offset (node t i))"

definition hi :: "ExtentTable \<Rightarrow> u32 \<Rightarrow> nat" where
  "hi t i = unat (en_offset (node t i)) + unat (en_bytes (node t i))"

definition addr_ok :: "ExtentTable \<Rightarrow> Pool \<Rightarrow> u32 list \<Rightarrow> bool" where
  "addr_ok t p xs \<longleftrightarrow> dll (\<lambda>i. en_next (node t i)) (\<lambda>i. en_previous (node t i)) nil (free_head t p) xs"

text \<open>The extents of a pool are non-empty, in address order, and no two of them touch.\<close>

definition extents_ok :: "ExtentTable \<Rightarrow> u32 list \<Rightarrow> bool" where
  "extents_ok t xs \<longleftrightarrow> (\<forall>x \<in> set xs. en_state (node t x) = kFree \<and> lo t x < hi t x \<and> hi t x < 2 ^ 64) \<and>
     sorted_wrt (\<lambda>a b. hi t a < lo t b) xs"

fun chain :: "(u32 \<Rightarrow> u32) \<Rightarrow> u32 \<Rightarrow> u32 list \<Rightarrow> bool" where
  "chain nxt h [] \<longleftrightarrow> h = nil"
| "chain nxt h (x # xs) \<longleftrightarrow> h = x \<and> x \<noteq> nil \<and> chain nxt (nxt x) xs"

definition unused_ok :: "ExtentTable \<Rightarrow> u32 list \<Rightarrow> bool" where
  "unused_ok t us \<longleftrightarrow> chain (\<lambda>i. en_next (node t i)) (free_extent_node_head t) us \<and>
     (\<forall>x \<in> set us. en_state (node t x) = kUnused)"

text \<open>Every node of the table is on exactly one list.\<close>

definition node_parts :: "(Pool \<Rightarrow> u32 list) \<Rightarrow> u32 list \<Rightarrow> bool" where
  "node_parts xs us \<longleftrightarrow> distinct (xs DataPool @ xs CoherencePool @ us) \<and>
     set (xs DataPool @ xs CoherencePool @ us) = {i. unat i < kMaxSharedExtentNodes}"

text \<open>A table in the middle of an operation on pool \<open>p\<close>: the size classes hold the nodes \<open>S\<close>.\<close>

definition mid_ok :: "ExtentTable \<Rightarrow> (Pool \<Rightarrow> u32 list) \<Rightarrow> u32 list \<Rightarrow> Pool \<Rightarrow> u32 set \<Rightarrow> bool" where
  "mid_ok t xs us p S \<longleftrightarrow> (\<forall>q. addr_ok t q (xs q) \<and> extents_ok t (xs q)) \<and> unused_ok t us \<and> node_parts xs us \<and>
     (\<exists>bs. bins_ok t p bs S) \<and> (\<forall>q. q \<noteq> p \<longrightarrow> (\<exists>bs. bins_ok t q bs (set (xs q))))"

definition table_ok :: "ExtentTable \<Rightarrow> (Pool \<Rightarrow> u32 list) \<Rightarrow> u32 list \<Rightarrow> bool" where
  "table_ok t xs us \<longleftrightarrow> (\<forall>q. addr_ok t q (xs q) \<and> extents_ok t (xs q) \<and> (\<exists>bs. bins_ok t q bs (set (xs q)))) \<and>
     unused_ok t us \<and> node_parts xs us"

lemma table_mid: "table_ok t xs us \<longleftrightarrow> mid_ok t xs us p (set (xs p))"
  unfolding table_ok_def mid_ok_def by (metis (full_types))

lemma Pool_cases2: "(p :: Pool) \<noteq> q \<Longrightarrow> r = p \<or> r = q"
  by (cases p; cases q; cases r) auto

lemma node_parts_pool:
  assumes "node_parts xs us"
  shows "distinct (xs p)" "q \<noteq> p \<Longrightarrow> set (xs p) \<inter> set (xs q) = {}" "set (xs p) \<inter> set us = {}" "distinct us"
    "x \<in> set (xs p) \<union> set us \<Longrightarrow> x \<noteq> nil" "length (xs p) \<le> kMaxSharedExtentNodes"
proof -
  show "distinct (xs p)" "q \<noteq> p \<Longrightarrow> set (xs p) \<inter> set (xs q) = {}" "set (xs p) \<inter> set us = {}" "distinct us"
    using assms by (cases p; cases q; auto simp: node_parts_def)+
  show "x \<noteq> nil" if "x \<in> set (xs p) \<union> set us"
  proof -
    have "unat x < kMaxSharedExtentNodes" using assms that by (cases p) (auto simp: node_parts_def)
    then show ?thesis by (auto simp: kMaxSharedExtentNodes_def kInvalidExtentIndex_def)
  qed
  have "card (set (xs p)) \<le> card {i::u32. unat i < kMaxSharedExtentNodes}"
    using assms by (intro card_mono) (cases p; auto simp: node_parts_def)+
  also have "card {i::u32. unat i < kMaxSharedExtentNodes} \<le> kMaxSharedExtentNodes"
  proof -
    have "{i::u32. unat i < kMaxSharedExtentNodes} \<subseteq> of_nat ` {..<kMaxSharedExtentNodes}"
      by (auto simp: image_iff) (metis lessThan_iff of_nat_unat ucast_id)
    then show ?thesis using surj_card_le [of "{..<kMaxSharedExtentNodes}"] by force
  qed
  finally show "length (xs p) \<le> kMaxSharedExtentNodes" using \<open>distinct (xs p)\<close> by (simp add: distinct_card)
qed

lemma bin_frame_simps:
  assumes "bin_frame p S t t'"
  shows "addr_ok t' q xs = addr_ok t q xs" "extents_ok t' xs = extents_ok t xs" "unused_ok t' us = unused_ok t us"
    "lo t' i = lo t i" "hi t' i = hi t i"
  using assms by (simp_all add: bin_frame_def addr_ok_def extents_ok_def unused_ok_def lo_def hi_def)

lemma bin_frame_other:
  assumes "bin_frame p S t t'" and "bins_ok t q bs T" and "q \<noteq> p" and "S \<inter> T = {}"
  shows "bins_ok t' q bs T"
proof (rule bins_ok_frame [OF assms(2)])
  show "bins t' q = bins t q" "bin_bitmap t' q = bin_bitmap t q" using assms(1,3) by (auto simp: bin_frame_def)
  fix i assume "i \<in> T"
  then have "node t' i = node t i" using assms(1,4) by (auto simp: bin_frame_def)
  then show "en_bin_next (node t' i) = en_bin_next (node t i) \<and> en_bin_previous (node t' i) = en_bin_previous (node t i) \<and>
      en_bin (node t' i) = en_bin (node t i) \<and> BinForBytes (en_bytes (node t' i)) = BinForBytes (en_bytes (node t i))"
    by simp
qed

lemma mid_bin_step:
  assumes mid: "mid_ok t xs us p S" and f: "bin_frame p T t t'" and T: "T \<subseteq> set (xs p)" and "\<exists>bs. bins_ok t' p bs S'"
  shows "mid_ok t' xs us p S'"
proof -
  have "\<exists>bs. bins_ok t' q bs (set (xs q))" if "q \<noteq> p" for q
  proof -
    obtain bs where bs: "bins_ok t q bs (set (xs q))" using mid \<open>q \<noteq> p\<close> unfolding mid_ok_def by blast
    have "T \<inter> set (xs q) = {}" using node_parts_pool(2) [of xs us q p] mid that T by (auto simp: mid_ok_def)
    from bin_frame_other [OF f bs that this] show ?thesis by blast
  qed
  then show ?thesis using mid assms(4) by (simp add: mid_ok_def bin_frame_simps [OF f])
qed

lemma mid_RemoveBin:
  assumes "mid_ok t xs us p S" and "x \<in> S" and "S \<subseteq> set (xs p)"
  shows "mid_ok (RemoveBinLocked p x t) xs us p (S - {x})" "bin_frame p S t (RemoveBinLocked p x t)"
proof -
  obtain bs where bs: "bins_ok t p bs S" using assms(1) by (auto simp: mid_ok_def)
  note r = RemoveBin_ok [OF bs assms(2)]
  show "bin_frame p S t (RemoveBinLocked p x t)" by (rule r(2))
  show "mid_ok (RemoveBinLocked p x t) xs us p (S - {x})" by (rule mid_bin_step [OF assms(1) r(2) assms(3) r(1)])
qed

lemma mid_InsertBin:
  assumes "mid_ok t xs us p S" and "x \<notin> S" and "S \<subseteq> set (xs p)" and "x \<in> set (xs p)"
  shows "mid_ok (InsertBinLocked p x t) xs us p (insert x S)" "bin_frame p (insert x S) t (InsertBinLocked p x t)"
proof -
  obtain bs where bs: "bins_ok t p bs S" using assms(1) by (auto simp: mid_ok_def)
  have "x \<noteq> nil" using node_parts_pool(5) [of xs us x p] assms(1,4) by (auto simp: mid_ok_def)
  note r = InsertBin_ok [OF bs assms(2) this]
  show "bin_frame p (insert x S) t (InsertBinLocked p x t)" by (rule r(2))
  show "mid_ok (InsertBinLocked p x t) xs us p (insert x S)"
    by (rule mid_bin_step [OF assms(1) r(2) _ r(1)]) (use assms in auto)
qed

lemma extents_ok_cong:
  assumes "\<And>i. i \<in> set xs \<Longrightarrow> en_offset (node t' i) = en_offset (node t i) \<and> en_bytes (node t' i) = en_bytes (node t i) \<and>
    en_state (node t' i) = en_state (node t i)"
  shows "extents_ok t' xs = extents_ok t xs"
  using assms by (induction xs) (auto simp: extents_ok_def lo_def hi_def)

lemma mid_step:
  assumes mid: "mid_ok t xs us p S" and S: "S \<subseteq> set (xs p)"
    and fixed: "bins t' = bins t" "bin_bitmap t' = bin_bitmap t" "\<And>q. q \<noteq> p \<Longrightarrow> free_head t' q = free_head t q"
    and same: "\<And>i. i \<notin> set (xs p) \<Longrightarrow> i \<notin> set us \<Longrightarrow> node t' i = node t i"
    and kept: "\<And>i. i \<in> S \<Longrightarrow> en_bin_next (node t' i) = en_bin_next (node t i) \<and>
      en_bin_previous (node t' i) = en_bin_previous (node t i) \<and> en_bin (node t' i) = en_bin (node t i) \<and>
      en_bytes (node t' i) = en_bytes (node t i)"
    and new: "addr_ok t' p ys" "extents_ok t' ys" "unused_ok t' us'" "node_parts (xs(p := ys)) us'"
  shows "mid_ok t' (xs(p := ys)) us' p S"
proof -
  have parts: "node_parts xs us" using mid by (simp add: mid_ok_def)
  have other: "addr_ok t' q (xs q) \<and> extents_ok t' (xs q) \<and> (\<exists>bs. bins_ok t' q bs (set (xs q)))" if q: "q \<noteq> p" for q
  proof -
    have n: "node t' i = node t i" if "i \<in> set (xs q)" for i
      using same [of i] node_parts_pool(2) [OF parts q, of] node_parts_pool(3) [OF parts, of q] q that by fastforce
    have "addr_ok t' q (xs q) = addr_ok t q (xs q)"
      unfolding addr_ok_def fixed(3) [OF q] by (rule dll_cong) (simp add: n)
    moreover have "extents_ok t' (xs q) = extents_ok t (xs q)"
      by (rule extents_ok_cong) (simp add: n)
    moreover have "\<exists>bs. bins_ok t' q bs (set (xs q))"
    proof -
      obtain bs where bs: "bins_ok t q bs (set (xs q))" using mid q unfolding mid_ok_def by metis
      have "bins_ok t' q bs (set (xs q))" by (rule bins_ok_frame [OF bs]) (simp_all add: fixed n)
      then show ?thesis by blast
    qed
    ultimately show ?thesis using mid by (simp add: mid_ok_def)
  qed
  obtain bs where bs: "bins_ok t p bs S" using mid by (auto simp: mid_ok_def)
  have "bins_ok t' p bs S" by (rule bins_ok_frame [OF bs]) (use kept in \<open>simp_all add: fixed\<close>)
  with other new show ?thesis by (auto simp: mid_ok_def)
qed

lemma chain_cong: "(\<And>x. x \<in> set xs \<Longrightarrow> nxt' x = nxt x) \<Longrightarrow> chain nxt' h xs = chain nxt h xs"
proof (induction xs arbitrary: h)
  case (Cons x xs)
  then have "nxt' x = nxt x" "\<And>h. chain nxt' h xs = chain nxt h xs" by auto
  then show ?case by simp
qed simp

lemma node_parts_perm:
  assumes "node_parts xs us" and "mset ys + mset vs = mset (xs p) + mset us"
  shows "node_parts (xs(p := ys)) vs"
proof -
  have "mset (xs DataPool @ xs CoherencePool @ us) =
      mset ((xs(p := ys)) DataPool @ (xs(p := ys)) CoherencePool @ vs)"
    using assms(2) by (cases p) (auto simp: add.commute add.left_commute)
  from mset_eq_setD [OF this] mset_eq_imp_distinct_iff [OF this] assms(1) show ?thesis
    by (simp add: node_parts_def)
qed

text \<open>The three changes an operation makes to the address list: none, a new node, a node less.\<close>

lemma mid_resize:
  assumes "mid_ok t xs us p S" and "S \<subseteq> set (xs p)"
    and "bins t' = bins t" "bin_bitmap t' = bin_bitmap t" "free_head t' = free_head t"
      "free_extent_node_head t' = free_extent_node_head t"
    and "\<And>i. i \<noteq> x \<Longrightarrow> node t' i = node t i" "x \<in> set (xs p)" "x \<notin> S"
      "en_next (node t' x) = en_next (node t x)" "en_previous (node t' x) = en_previous (node t x)"
    and "extents_ok t' (xs p)"
  shows "mid_ok t' xs us p S"
proof -
  have parts: "node_parts xs us" using assms(1) by (simp add: mid_ok_def)
  have x: "x \<notin> set us" using node_parts_pool(3) [OF parts, of p] assms(8) by auto
  have links: "en_next (node t' i) = en_next (node t i)" "en_previous (node t' i) = en_previous (node t i)" for i
    using assms(7,10,11) by (cases "i = x"; simp)+
  have "mid_ok t' (xs(p := xs p)) us p S"
  proof (rule mid_step [OF assms(1,2)])
    show "addr_ok t' p (xs p)" using assms(1) by (simp add: mid_ok_def addr_ok_def links assms(5))
    show "unused_ok t' us" using assms(1) x assms(7) unfolding mid_ok_def unused_ok_def links assms(6) by metis
    show "node t' i = node t i" if "i \<notin> set (xs p)" for i using assms(7,8) that by metis
    show "en_bin_next (node t' i) = en_bin_next (node t i) \<and> en_bin_previous (node t' i) = en_bin_previous (node t i) \<and>
        en_bin (node t' i) = en_bin (node t i) \<and> en_bytes (node t' i) = en_bytes (node t i)" if "i \<in> S" for i
      using assms(7,9) that by metis
  qed (use assms(3-5,12) parts in simp_all)
  then show ?thesis by simp
qed

lemma mid_new_node:
  assumes mid: "mid_ok t xs (j # us) p S" and S: "S \<subseteq> set (xs p)" and split: "xs p = as @ cs"
    and fixed: "bins t' = bins t" "bin_bitmap t' = bin_bitmap t"
      "free_head t' = (if as = [] then (free_head t)(p := j) else free_head t)"
      "free_extent_node_head t' = en_next (node t j)"
    and same: "\<And>i. i \<notin> set (xs p) \<Longrightarrow> i \<noteq> j \<Longrightarrow> node t' i = node t i"
    and kept: "\<And>i. i \<in> S \<Longrightarrow> en_bin_next (node t' i) = en_bin_next (node t i) \<and>
      en_bin_previous (node t' i) = en_bin_previous (node t i) \<and> en_bin (node t' i) = en_bin (node t i) \<and>
      en_bytes (node t' i) = en_bytes (node t i)"
    and nxt: "\<And>i. i \<in> set (as @ j # cs) \<Longrightarrow> en_next (node t' i) =
      (if i = j then first_of nil cs else if as \<noteq> [] \<and> i = last as then j else en_next (node t i))"
    and prv: "\<And>i. i \<in> set (as @ j # cs) \<Longrightarrow> en_previous (node t' i) =
      (if i = j then last_of nil as else if cs \<noteq> [] \<and> i = hd cs then j else en_previous (node t i))"
    and ext: "extents_ok t' (as @ j # cs)"
  shows "mid_ok t' (xs(p := as @ j # cs)) us p S"
proof (rule mid_step [OF mid S fixed(1,2)])
  have parts: "node_parts xs (j # us)" using mid by (simp add: mid_ok_def)
  note pp = node_parts_pool [OF parts]
  have dist: "distinct (as @ j # cs)" using pp(1) [of p] pp(3) [of p] split by auto
  have jn: "j \<noteq> nil" using pp(5) [of j p] by simp
  have d: "dll (\<lambda>i. en_next (node t i)) (\<lambda>i. en_previous (node t i)) nil (free_head t p) (as @ cs)"
    using mid by (simp add: mid_ok_def addr_ok_def split [symmetric])
  show "addr_ok t' p (as @ j # cs)" unfolding addr_ok_def
    by (rule dll_insert [OF d dist jn nxt prv]) (simp_all add: fixed(3))
  have n: "node t' i = node t i" if "i \<in> set us" for i
    using same [of i] pp(3) [of p] pp(4) that by auto
  have "unused_ok t (j # us)" using mid by (simp add: mid_ok_def)
  then show "unused_ok t' us"
    using chain_cong [of us "\<lambda>i. en_next (node t' i)" "\<lambda>i. en_next (node t i)"] n by (simp add: unused_ok_def fixed(4))
  show "node_parts (xs(p := as @ j # cs)) us" by (rule node_parts_perm [OF parts]) (simp add: split)
qed (use fixed(3) same kept ext in auto)

lemma mid_drop_node:
  assumes mid: "mid_ok t xs us p S" and S: "S \<subseteq> set (xs p)" and split: "xs p = as @ x # cs"
    and fixed: "bins t' = bins t" "bin_bitmap t' = bin_bitmap t"
      "free_head t' = (if as = [] then (free_head t)(p := en_next (node t x)) else free_head t)"
      "free_extent_node_head t' = x"
    and same: "\<And>i. i \<notin> set (xs p) \<Longrightarrow> node t' i = node t i"
    and kept: "\<And>i. i \<in> S \<Longrightarrow> en_bin_next (node t' i) = en_bin_next (node t i) \<and>
      en_bin_previous (node t' i) = en_bin_previous (node t i) \<and> en_bin (node t' i) = en_bin (node t i) \<and>
      en_bytes (node t' i) = en_bytes (node t i)"
    and x: "en_next (node t' x) = free_extent_node_head t" "en_state (node t' x) = kUnused"
    and nxt: "\<And>i. i \<in> set (as @ cs) \<Longrightarrow> en_next (node t' i) =
      (if as \<noteq> [] \<and> i = last as then en_next (node t x) else en_next (node t i))"
    and prv: "\<And>i. i \<in> set (as @ cs) \<Longrightarrow> en_previous (node t' i) =
      (if cs \<noteq> [] \<and> i = hd cs then en_previous (node t x) else en_previous (node t i))"
    and ext: "extents_ok t' (as @ cs)"
  shows "mid_ok t' (xs(p := as @ cs)) (x # us) p S"
proof (rule mid_step [OF mid S fixed(1,2)])
  have parts: "node_parts xs us" using mid by (simp add: mid_ok_def)
  note pp = node_parts_pool [OF parts]
  have dist: "distinct (as @ x # cs)" using pp(1) [of p] split by simp
  have d: "dll (\<lambda>i. en_next (node t i)) (\<lambda>i. en_previous (node t i)) nil (free_head t p) (as @ x # cs)"
    using mid by (simp add: mid_ok_def addr_ok_def split [symmetric])
  show "addr_ok t' p (as @ cs)" unfolding addr_ok_def
    by (rule dll_remove [OF d dist nxt prv]) (simp_all add: fixed(3))
  have xn: "x \<noteq> nil" using pp(5) [of x p] split by simp
  have n: "node t' i = node t i" if "i \<in> set us" for i
    using same [of i] pp(3) [of p] that by auto
  have "unused_ok t us" using mid by (simp add: mid_ok_def)
  then show "unused_ok t' (x # us)"
    using chain_cong [of us "\<lambda>i. en_next (node t' i)" "\<lambda>i. en_next (node t i)"] n x xn by (simp add: unused_ok_def fixed(4))
  show "node_parts (xs(p := as @ cs)) (x # us)" by (rule node_parts_perm [OF parts]) (simp add: split)
qed (use fixed(3) same kept ext in auto)

end
