(* ===== verification/Cx_Extent_Pool.thy ===== *)
theory Cx_Extent_Pool
  imports Cx_Extents
begin

text \<open>
  What allocation and release of extents do to the set of free addresses of a pool: every operation
  keeps the tables well formed, an allocation removes one aligned block from the set and is refused
  only for a reason, and a release puts the block back.
\<close>

section \<open>Alignment and the search for an extent\<close>

definition align_nat :: "nat \<Rightarrow> nat \<Rightarrow> nat" where
  "align_nat a n = (n + a - 1) div a * a"

lemma align_nat_least:
  assumes "0 < a"
  shows "n \<le> align_nat a n" "a dvd align_nat a n" "align_nat a n < n + a" "a dvd m \<Longrightarrow> n \<le> m \<Longrightarrow> align_nat a n \<le> m"
proof -
  have e: "(n + a - 1) div a * a + (n + a - 1) mod a = n + a - 1" by simp
  have l: "(n + a - 1) mod a < a" using assms by simp
  from e l show "n \<le> align_nat a n" "align_nat a n < n + a" using assms unfolding align_nat_def by linarith+
  show "a dvd align_nat a n" by (simp add: align_nat_def)
  assume "a dvd m" "n \<le> m"
  then obtain c where m: "m = a * c" by blast
  have "n + a - 1 < a * Suc c" using \<open>n \<le> m\<close> m assms by simp
  then have "(n + a - 1) div a < Suc c" using assms by (simp add: div_less_iff_less_mult mult.commute)
  then show "align_nat a n \<le> m" unfolding align_nat_def m by simp
qed

lemma AlignUp_value:
  assumes k: "k < 64" and a: "unat alignment = 2 ^ k"
  shows "unat (AlignUp v alignment) = (if unat v + 2 ^ k - 1 < 2 ^ 64 then align_nat (2 ^ k) (unat v) else 0)"
proof -
  have pos: "(1::nat) \<le> 2 ^ k" by simp
  have le1: "1 \<le> alignment" using a pos by (simp only: word_le_nat_alt unat_1)
  have one: "max alignment 1 = alignment" using le1 by (simp only: max_absorb1)
  have pow: "alignment AND (alignment - 1) = 0" by (rule pow2_and_pred [OF k a])
  have m: "unat (alignment - 1) = 2 ^ k - 1" using unat_sub_no_wrap [OF le1] a by simp
  have "alignment = of_nat (2 ^ k)" by (simp only: a [symmetric] of_nat_unat ucast_id)
  then have word: "alignment = 2 ^ k" by simp
  have c: "UINT64_MAX - (alignment - 1) < v \<longleftrightarrow> \<not> unat v + 2 ^ k - 1 < 2 ^ 64"
  proof -
    have le: "(2::nat) ^ k \<le> 2 ^ 63" using k by (intro power_increasing) auto
    have "unat (UINT64_MAX - (alignment - 1)) = 2 ^ 64 - 1 - (2 ^ k - 1)"
      using m unat_sub_no_wrap [of "alignment - 1" UINT64_MAX] le by (simp add: word_le_nat_alt)
    then show ?thesis using le by (simp add: word_less_nat_alt) linarith
  qed
  show ?thesis
  proof (cases "unat v + 2 ^ k - 1 < 2 ^ 64")
    case False
    then show ?thesis using c by (simp add: AlignUp_def one pow)
  next
    case True
    have sum: "unat (v + (alignment - 1)) = unat v + 2 ^ k - 1"
      using True m pos by (subst unat_add_no_wrap) auto
    have "AlignUp v alignment = (v + (alignment - 1)) AND NOT (alignment - 1)"
      using True c by (simp only: AlignUp_def one pow Let_def if_False simp_thms)
    then show ?thesis using True unat_and_not_mask [OF k, of "v + (alignment - 1)", folded word]
      by (simp only: sum align_nat_def if_True)
  qed
qed

lemma highest_bit_mono: "m \<le> n \<Longrightarrow> highest_bit m \<le> highest_bit n"
proof (induction n arbitrary: m rule: highest_bit.induct)
  case (1 n)
  show ?case
  proof (cases "m < 2")
    case True
    then show ?thesis by (simp add: highest_bit.simps [of m])
  next
    case False
    then have "highest_bit (m div 2) \<le> highest_bit (n div 2)" using 1 by (simp add: div_le_mono)
    then show ?thesis using False 1(2) by (simp add: highest_bit.simps [of m] highest_bit.simps [of n])
  qed
qed

lemma BinForBytes_mono: "a \<le> b \<Longrightarrow> BinForBytes a \<le> BinForBytes b"
proof -
  assume "a \<le> b"
  then have "highest_bit (unat a) \<le> highest_bit (unat b)" by (intro highest_bit_mono) (simp add: word_le_nat_alt)
  with \<open>a \<le> b\<close> show ?thesis by (auto simp: BinForBytes_def)
qed

lemma find_in_bin_eq:
  assumes "dseg (\<lambda>i. en_bin_next (node t i)) (\<lambda>i. en_bin_previous (node t i)) nil q h xs r nil" and "length xs < fuel"
  shows "find_in_bin fuel t bytes alignment h = Some (List.find (\<lambda>i. extent_fits bytes alignment (node t i)) xs)"
  using assms
proof (induction xs arbitrary: q h fuel)
  case Nil
  then show ?case by (cases fuel) auto
next
  case (Cons x xs)
  then obtain f where f: "fuel = Suc f" "length xs < f" by (cases fuel) auto
  have h: "h = x" "x \<noteq> nil" and d: "dseg (\<lambda>i. en_bin_next (node t i)) (\<lambda>i. en_bin_previous (node t i)) nil x (en_bin_next (node t x)) xs r nil"
    using Cons.prems(1) by auto
  show ?case using Cons.IH [OF d f(2)] by (simp add: f(1) h)
qed

lemma find_append: "List.find P (xs @ ys) = (case List.find P xs of None \<Rightarrow> List.find P ys | Some x \<Rightarrow> Some x)"
  by (induction xs) auto

lemma find_in_bins_eq:
  assumes "\<And>b. b \<in> set cs \<Longrightarrow> class_ok t p b (bs b) \<and> length (bs b) \<le> kMaxSharedExtentNodes"
  shows "find_in_bins t p available bytes alignment cs =
    Some (List.find (\<lambda>i. extent_fits bytes alignment (node t i)) (concat (map bs (filter (bit available) cs))))"
  using assms
proof (induction cs)
  case (Cons c cs)
  then have "class_ok t p c (bs c)" "length (bs c) < Suc kMaxSharedExtentNodes" by (auto simp: less_Suc_eq_le)
  then have "find_in_bin (Suc kMaxSharedExtentNodes) t bytes alignment (bins t p c) =
      Some (List.find (\<lambda>i. extent_fits bytes alignment (node t i)) (bs c))"
    by (auto simp: class_ok_def dll_def simp del: find_in_bin.simps intro: find_in_bin_eq)
  with Cons show ?case by (auto simp: find_append split: option.splits simp del: find_in_bin.simps)
qed simp

lemma ctz_le: "bit w i \<Longrightarrow> i < 64 \<Longrightarrow> ctz w \<le> i"
proof (rule ccontr)
  assume w: "bit w i" "i < 64" and "\<not> ctz w \<le> i"
  then have "i < length (takeWhile (\<lambda>i. \<not> bit w i) [0..<64])" by (simp add: ctz_def)
  then have "takeWhile (\<lambda>i. \<not> bit w i) [0..<64] ! i \<in> set (takeWhile (\<lambda>i. \<not> bit w i) [0..<64])"
    and "takeWhile (\<lambda>i. \<not> bit w i) [0..<64] ! i = [0..<64] ! i"
    by (rule nth_mem, rule takeWhile_nth)
  then show False using w set_takeWhileD [of i "\<lambda>i. \<not> bit w i" "[0..<64]"] by simp
qed

lemma UINT64_MAX_minus_1: "UINT64_MAX = - 1"
  by simp

text \<open>The search of the size classes finds an extent that fits whenever the pool has one.\<close>

definition bin_search :: "Pool \<Rightarrow> u64 \<Rightarrow> u64 \<Rightarrow> ExtentTable \<Rightarrow> u32 option option" where
  "bin_search p bytes alignment t =
     (let available = bin_bitmap t p AND push_bit (BinForBytes bytes) UINT64_MAX in
      if available = 0 then Some None
      else find_in_bins t p available bytes alignment [ctz available..<kTlsfBinCount])"

lemma AllocateExtentLocked_search:
  "AllocateExtentLocked p bytes alignment t =
     (case bin_search p bytes alignment t of
        None \<Rightarrow> None
      | Some None \<Rightarrow> Some (Inl kUnavailable, t)
      | Some (Some i) \<Rightarrow> Some (carve p bytes alignment i t))"
  by (simp add: AllocateExtentLocked_def bin_search_def Let_def)

lemma bin_search_ok:
  assumes ok: "bins_ok t p bs S" and S: "card S \<le> kMaxSharedExtentNodes" "finite S"
  obtains i where "bin_search p bytes alignment t = Some (Some i)" "i \<in> S" "extent_fits bytes alignment (node t i)"
  | "bin_search p bytes alignment t = Some None"
    "\<And>i. i \<in> S \<Longrightarrow> bytes \<le> en_bytes (node t i) \<Longrightarrow> \<not> extent_fits bytes alignment (node t i)"
proof -
  let ?av = "bin_bitmap t p AND push_bit (BinForBytes bytes) UINT64_MAX"
  have av: "bit ?av b \<longleftrightarrow> bs b \<noteq> [] \<and> BinForBytes bytes \<le> b" if "b < kTlsfBinCount" for b
    using ok that bit_minus_1_iff [where 'a = u64]
    by (auto simp: bins_ok_def class_ok_def bit_and_iff bit_not_iff bit_mask_iff kTlsfBinCount_def UINT64_MAX_minus_1)
  have big: "\<exists>b. b < kTlsfBinCount \<and> bit ?av b \<and> ctz ?av \<le> b \<and> i \<in> set (bs b)"
    if i: "i \<in> S" "bytes \<le> en_bytes (node t i)" for i
  proof -
    let ?b = "en_bin (node t i)"
    have b: "?b < kTlsfBinCount" "i \<in> set (bs ?b)" using bins_ok_member [OF ok i(1)] by auto
    then have "?b = BinForBytes (en_bytes (node t i))" using ok unfolding bins_ok_def class_ok_def by metis
    then have "bit ?av ?b" using av [OF b(1)] BinForBytes_mono [OF i(2)] b(2) by auto
    then show ?thesis using b ctz_le [of ?av ?b] by (auto simp: kTlsfBinCount_def)
  qed
  have cls: "class_ok t p b (bs b) \<and> length (bs b) \<le> kMaxSharedExtentNodes" if "b \<in> set [ctz ?av..<kTlsfBinCount]" for b
  proof -
    have "class_ok t p b (bs b)" "set (bs b) \<subseteq> S" using ok that by (auto simp: bins_ok_def)
    then show ?thesis using S card_mono [of S "set (bs b)"] by (auto simp: class_ok_def distinct_card)
  qed
  let ?found = "List.find (\<lambda>i. extent_fits bytes alignment (node t i))
    (concat (map bs (filter (bit ?av) [ctz ?av..<kTlsfBinCount])))"
  have s: "bin_search p bytes alignment t = Some ?found" if "?av \<noteq> 0"
    using that find_in_bins_eq [of "[ctz ?av..<kTlsfBinCount]" t p bs, OF cls] by (simp only: bin_search_def Let_def if_False)
  show thesis
  proof (cases "?av = 0")
    case True
    then have "bin_search p bytes alignment t = Some None" by (simp add: bin_search_def)
    then show thesis using big True by (intro that(2)) auto
  next
    case False
    show thesis
    proof (cases ?found)
      case None
      have "\<not> extent_fits bytes alignment (node t i)" if i: "i \<in> S" "bytes \<le> en_bytes (node t i)" for i
      proof -
        have "i \<in> set (concat (map bs (filter (bit ?av) [ctz ?av..<kTlsfBinCount])))" using big [OF i] by auto
        then show ?thesis using None unfolding find_None_iff by blast
      qed
      moreover have "bin_search p bytes alignment t = Some None" using s [OF False] None by simp
      ultimately show thesis by (intro that(2)) auto
    next
      case (Some i)
      then have "extent_fits bytes alignment (node t i)" "i \<in> S"
        using ok by (auto simp: find_Some_iff in_set_conv_nth [symmetric] bins_ok_def dest!: nth_mem)
      then show thesis using s [OF False] Some by (intro that(1)) auto
    qed
  qed
qed

section \<open>Free addresses\<close>

definition free_in :: "ExtentTable \<Rightarrow> u32 list \<Rightarrow> nat set" where
  "free_in t xs = (\<Union>x \<in> set xs. {lo t x..<hi t x})"

lemma free_in_simps [simp]: "free_in t [] = {}" "free_in t (x # xs) = {lo t x..<hi t x} \<union> free_in t xs"
  "free_in t (xs @ ys) = free_in t xs \<union> free_in t ys"
  by (auto simp: free_in_def)

lemma free_in_cong:
  "(\<And>x. x \<in> set xs \<Longrightarrow> lo t' x = lo t x \<and> hi t' x = hi t x) \<Longrightarrow> free_in t' xs = free_in t xs"
  by (simp add: free_in_def)

lemma extents_ok_split:
  "extents_ok t (as @ x # cs) \<longleftrightarrow> extents_ok t as \<and> extents_ok t cs \<and> en_state (node t x) = kFree \<and> lo t x < hi t x \<and>
     hi t x < 2 ^ 64 \<and> (\<forall>a \<in> set as. hi t a < lo t x) \<and> (\<forall>c \<in> set cs. hi t x < lo t c) \<and>
     (\<forall>a \<in> set as. \<forall>c \<in> set cs. hi t a < lo t c)"
  by (auto simp: extents_ok_def sorted_wrt_append)

lemma extents_ok_append:
  "extents_ok t (as @ cs) \<longleftrightarrow> extents_ok t as \<and> extents_ok t cs \<and> (\<forall>a \<in> set as. \<forall>c \<in> set cs. hi t a < lo t c)"
  by (auto simp: extents_ok_def sorted_wrt_append)

lemma free_in_minus:
  assumes "extents_ok t (as @ x # cs)" and "B \<subseteq> {lo t x..<hi t x}"
  shows "free_in t (as @ x # cs) - B = free_in t as \<union> ({lo t x..<hi t x} - B) \<union> free_in t cs"
proof -
  have a: "\<And>y. y \<in> set as \<Longrightarrow> hi t y < lo t x" "\<And>y. y \<in> set cs \<Longrightarrow> hi t x < lo t y"
    using assms(1) by (auto simp: extents_ok_split)
  have "m \<notin> B" if "m \<in> free_in t as \<union> free_in t cs" for m
  proof
    assume "m \<in> B"
    then have m: "lo t x \<le> m" "m < hi t x" using assms(2) by auto
    from that obtain y where "y \<in> set as \<union> set cs" "lo t y \<le> m" "m < hi t y" by (auto simp: free_in_def)
    with a [of y] m show False by force
  qed
  then show ?thesis by auto
qed

definition room :: "nat set \<Rightarrow> u32 list \<Rightarrow> nat \<Rightarrow> nat \<Rightarrow> bool" where
  "room F us a n \<longleftrightarrow> us \<noteq> [] \<or> 0 < a \<and> a - 1 \<in> F \<or> a + n \<in> F"

text \<open>The outcome of a successful allocation of \<open>n\<close> bytes at \<open>a\<close> in pool \<open>p\<close>.\<close>

definition carved :: "Pool \<Rightarrow> nat \<Rightarrow> nat \<Rightarrow> (Pool \<Rightarrow> nat set) \<Rightarrow> nat \<Rightarrow> ExtentTable \<Rightarrow> bool" where
  "carved p a n F spare t' \<longleftrightarrow> (\<exists>xs us. table_ok t' xs us \<and> (\<lambda>q. free_in t' (xs q)) = F(p := F p - {a..<a + n}) \<and>
     room (free_in t' (xs p)) us a n \<and> spare \<le> Suc (length us))"

lemma InsertBin_last:
  assumes "mid_ok t xs us p (set (xs p) - {x})" and "x \<in> set (xs p)"
  shows "table_ok (InsertBinLocked p x t) xs us" "lo (InsertBinLocked p x t) = lo t" "hi (InsertBinLocked p x t) = hi t"
proof -
  note i = mid_InsertBin [OF assms(1) _ _ assms(2)]
  have "insert x (set (xs p) - {x}) = set (xs p)" using assms(2) by blast
  then show "table_ok (InsertBinLocked p x t) xs us" using i(1) by (simp add: table_mid [of _ _ _ p])
  show "lo (InsertBinLocked p x t) = lo t" "hi (InsertBinLocked p x t) = hi t"
    using bin_frame_simps(4,5) [OF i(2)] by auto
qed

lemma RemoveBin_first:
  assumes "table_ok t xs us" and "x \<in> set (xs p)"
  shows "mid_ok (RemoveBinLocked p x t) xs us p (set (xs p) - {x})"
    "lo (RemoveBinLocked p x t) = lo t" "hi (RemoveBinLocked p x t) = hi t"
    "en_offset (node (RemoveBinLocked p x t) i) = en_offset (node t i)"
    "en_bytes (node (RemoveBinLocked p x t) i) = en_bytes (node t i)"
    "en_next (node (RemoveBinLocked p x t) i) = en_next (node t i)"
    "en_previous (node (RemoveBinLocked p x t) i) = en_previous (node t i)"
    "en_state (node (RemoveBinLocked p x t) i) = en_state (node t i)"
    "free_head (RemoveBinLocked p x t) = free_head t"
    "free_extent_node_head (RemoveBinLocked p x t) = free_extent_node_head t"
    "extents_ok (RemoveBinLocked p x t) ys = extents_ok t ys"
proof -
  note r = mid_RemoveBin [of t xs us p "set (xs p)" x, OF _ assms(2)]
  have mid: "mid_ok t xs us p (set (xs p))" using assms(1) by (simp add: table_mid [of _ _ _ p])
  show "mid_ok (RemoveBinLocked p x t) xs us p (set (xs p) - {x})" by (rule r(1) [OF mid]) simp
  have f: "bin_frame p (set (xs p)) t (RemoveBinLocked p x t)" by (rule r(2) [OF mid]) simp
  show "lo (RemoveBinLocked p x t) = lo t" "hi (RemoveBinLocked p x t) = hi t"
    "extents_ok (RemoveBinLocked p x t) ys = extents_ok t ys"
    using bin_frame_simps(2,4,5) [OF f] by auto
  show "en_offset (node (RemoveBinLocked p x t) i) = en_offset (node t i)"
    "en_bytes (node (RemoveBinLocked p x t) i) = en_bytes (node t i)"
    "en_next (node (RemoveBinLocked p x t) i) = en_next (node t i)"
    "en_previous (node (RemoveBinLocked p x t) i) = en_previous (node t i)"
    "en_state (node (RemoveBinLocked p x t) i) = en_state (node t i)"
    "free_head (RemoveBinLocked p x t) = free_head t"
    "free_extent_node_head (RemoveBinLocked p x t) = free_extent_node_head t"
    using f by (simp_all add: bin_frame_def)
qed

text \<open>Shrinking or growing the extent of one node between its neighbours.\<close>

lemma resize_ok:
  assumes ok: "table_ok t xs us" and split: "xs p = as @ x # cs"
    and t': "t' = InsertBinLocked p x (set_node x (\<lambda>n. n\<lparr>en_offset := off, en_bytes := n'\<rparr>) (RemoveBinLocked p x t))"
    and size: "0 < unat n'" "unat off + unat n' < 2 ^ 64"
    and gap: "\<forall>a \<in> set as. hi t a < unat off" "\<forall>c \<in> set cs. unat off + unat n' < lo t c"
  shows "table_ok t' xs us" "free_in t' (xs p) = free_in t as \<union> {unat off..<unat off + unat n'} \<union> free_in t cs"
    "q \<noteq> p \<Longrightarrow> free_in t' (xs q) = free_in t (xs q)"
proof -
  define t1 where "t1 = set_node x (\<lambda>n. n\<lparr>en_offset := off, en_bytes := n'\<rparr>) (RemoveBinLocked p x t)"
  have x: "x \<in> set (xs p)" by (simp add: split)
  note r = RemoveBin_first [OF ok x]
  have parts: "node_parts xs us" using ok by (simp add: table_ok_def)
  have dist: "x \<notin> set as" "x \<notin> set cs" using node_parts_pool(1) [OF parts, of p] split by auto
  have n: "node t1 i = (if i = x then (node (RemoveBinLocked p x t) x)\<lparr>en_offset := off, en_bytes := n'\<rparr> else node (RemoveBinLocked p x t) i)" for i
    by (simp add: t1_def set_node_def)
  have lohi: "lo t1 i = (if i = x then unat off else lo t i)" "hi t1 i = (if i = x then unat off + unat n' else hi t i)" for i
    using n r(4,5) by (simp_all add: lo_def hi_def)
  have "extents_ok t (as @ x # cs)" using ok split by (metis table_ok_def)
  then have old: "extents_ok t as" "extents_ok t cs" "en_state (node t x) = kFree"
    "\<forall>a \<in> set as. \<forall>c \<in> set cs. hi t a < lo t c" unfolding extents_ok_split by auto
  have "extents_ok t1 as = extents_ok t as" "extents_ok t1 cs = extents_ok t cs"
    by (rule extents_ok_cong; use dist in \<open>auto simp: n r(4-8)\<close>)+
  then have e: "extents_ok t1 (xs p)"
    unfolding split extents_ok_split lohi using size old gap dist by (auto simp: n r(8))
  have "mid_ok t1 xs us p (set (xs p) - {x})"
    by (rule mid_resize [OF r(1) _ _ _ _ _ _ x _ _ _ e]) (simp_all add: n, simp_all add: t1_def set_node_def)
  note ins = InsertBin_last [OF this x, folded t1_def t' [unfolded t1_def [symmetric]]]
  show "table_ok t' xs us" by (rule ins(1))
  have "free_in t' as = free_in t as" "free_in t' cs = free_in t cs"
    by (rule free_in_cong; use dist in \<open>auto simp: ins lohi\<close>)+
  then show "free_in t' (xs p) = free_in t as \<union> {unat off..<unat off + unat n'} \<union> free_in t cs"
    by (auto simp: split ins lohi)
  show "free_in t' (xs q) = free_in t (xs q)" if "q \<noteq> p"
  proof (rule free_in_cong)
    fix y assume "y \<in> set (xs q)"
    then have "y \<noteq> x" using node_parts_pool(2) [OF parts that] x by auto
    then show "lo t' y = lo t y \<and> hi t' y = hi t y" by (simp add: ins lohi)
  qed
qed

section \<open>Allocation\<close>

lemma table_links:
  assumes ok: "table_ok t xs us" and split: "xs p = as @ x # cs"
  shows "en_next (node t x) = first_of nil cs" "en_previous (node t x) = last_of nil as" "x \<noteq> nil"
    "distinct (as @ x # cs)" "nil \<notin> set (as @ x # cs)" "extents_ok t (as @ x # cs)" "x \<notin> set us"
proof -
  have d: "dll (\<lambda>i. en_next (node t i)) (\<lambda>i. en_previous (node t i)) nil (free_head t p) (as @ x # cs)"
    using ok split by (metis table_ok_def addr_ok_def)
  show "en_next (node t x) = first_of nil cs" "en_previous (node t x) = last_of nil as" "x \<noteq> nil"
    by (rule dll_links [OF d])+
  show "nil \<notin> set (as @ x # cs)" by (rule dll_nil [OF d])
  have parts: "node_parts xs us" using ok by (simp add: table_ok_def)
  show "distinct (as @ x # cs)" using node_parts_pool(1) [OF parts, of p] by (simp add: split)
  show "x \<notin> set us" using node_parts_pool(3) [OF parts, of p] by (auto simp: split)
  show "extents_ok t (as @ x # cs)" using ok split by (metis table_ok_def)
qed

lemma other_pool:
  assumes "table_ok t xs us" and "q \<noteq> p" and "\<And>y. y \<notin> set (xs p) \<Longrightarrow> y \<notin> set us \<Longrightarrow> lo t' y = lo t y \<and> hi t' y = hi t y"
  shows "free_in t' (xs q) = free_in t (xs q)"
proof (rule free_in_cong, rule assms(3))
  have parts: "node_parts xs us" using assms(1) by (simp add: table_ok_def)
  fix y assume "y \<in> set (xs q)"
  then show "y \<notin> set (xs p)" "y \<notin> set us"
    using node_parts_pool(2) [OF parts assms(2)] node_parts_pool(3) [OF parts, of q] by auto
qed

lemma unlink_nodes:
  assumes ends: "distinct (as @ x # cs)" "nil \<notin> set (as @ x # cs)" "prev = last_of nil as" "next = first_of nil cs"
    and t1: "t1 = (if prev \<noteq> nil then set_node prev (\<lambda>n. n\<lparr>en_next := next\<rparr>) t else set_head p next t)"
    and t2: "t2 = set_valid next (\<lambda>n. n\<lparr>en_previous := prev\<rparr>) t1"
  shows "node t2 i = (node t i)\<lparr>en_next := (if as \<noteq> [] \<and> i = last as then next else en_next (node t i)),
      en_previous := (if cs \<noteq> [] \<and> i = hd cs then prev else en_previous (node t i))\<rparr>"
    and "free_head t2 = (if as = [] then (free_head t)(p := next) else free_head t)"
    and "bins t2 = bins t" "bin_bitmap t2 = bin_bitmap t" "free_extent_node_head t2 = free_extent_node_head t"
proof -
  have prev: "prev = (if as = [] then nil else last as)" "prev \<noteq> nil \<longleftrightarrow> as \<noteq> []"
    using ends(2) by (auto simp: ends(3) last_of_def dest: last_in_set)
  have "next = (if cs = [] then nil else hd cs)" "next \<noteq> nil \<longleftrightarrow> cs \<noteq> []"
    using ends(2) by (cases cs; auto simp: ends(4))+
  note nx = this
  show "node t2 i = (node t i)\<lparr>en_next := (if as \<noteq> [] \<and> i = last as then next else en_next (node t i)),
      en_previous := (if cs \<noteq> [] \<and> i = hd cs then prev else en_previous (node t i))\<rparr>"
    "free_head t2 = (if as = [] then (free_head t)(p := next) else free_head t)"
    using prev nx by (cases "as = []"; cases "cs = []"; simp add: t2 t1 set_node_def set_valid_def set_head_def)+
  show "bins t2 = bins t" "bin_bitmap t2 = bin_bitmap t" "free_extent_node_head t2 = free_extent_node_head t"
    by (simp_all add: t2 t1 set_node_def set_valid_def set_head_def)
qed

lemma carve_exact:
  assumes ok: "table_ok t xs us" and split: "xs p = as @ x # cs"
    and t1: "t1 = (if en_previous (node t x) \<noteq> nil then set_node (en_previous (node t x)) (\<lambda>n. n\<lparr>en_next := en_next (node t x)\<rparr>) (RemoveBinLocked p x t)
                   else set_head p (en_next (node t x)) (RemoveBinLocked p x t))"
    and t2: "t2 = set_valid (en_next (node t x)) (\<lambda>n. n\<lparr>en_previous := en_previous (node t x)\<rparr>) t1"
    and t3: "t3 = set_node x (\<lambda>n. n\<lparr>en_state := kUnused, en_next := free_extent_node_head t2\<rparr>) t2"
  shows "carved p (lo t x) (hi t x - lo t x) (\<lambda>q. free_in t (xs q)) (length us) (t3\<lparr>free_extent_node_head := x\<rparr>)"
proof -
  define t' where "t' = t3\<lparr>free_extent_node_head := x\<rparr>"
  let ?t0 = "RemoveBinLocked p x t"
  have x: "x \<in> set (xs p)" by (simp add: split)
  note r = RemoveBin_first [OF ok x]
  note l = table_links [OF ok split]
  note u = unlink_nodes [OF l(4,5,2,1) t1 t2]
  have n: "node t' i = (if i = x then (node t2 x)\<lparr>en_state := kUnused, en_next := free_extent_node_head t2\<rparr> else node t2 i)" for i
    by (simp add: t'_def t3 set_node_def)
  have lohi: "lo t' i = lo t i" "hi t' i = hi t i" for i using r(4,5) by (simp_all add: lo_def hi_def n u(1))
  have ends: "as \<noteq> [] \<Longrightarrow> last as \<noteq> x" "cs \<noteq> [] \<Longrightarrow> hd cs \<noteq> x" using l(4) by auto
  have e: "extents_ok t (as @ cs)" using l(6) [unfolded extents_ok_split] by (simp add: extents_ok_append)
  have "extents_ok t' (as @ cs) = extents_ok t (as @ cs)"
    by (rule extents_ok_cong) (use l(4) in \<open>auto simp: n u(1) r(4-8)\<close>)
  with e have e': "extents_ok t' (as @ cs)" by simp
  have out: "node t' i = node ?t0 i" if "i \<notin> set (xs p)" for i
  proof -
    have "i \<noteq> x" "(as \<noteq> [] \<and> i = last as) = False" "(cs \<noteq> [] \<and> i = hd cs) = False"
      using that split by auto
    then show ?thesis by (cases "as = []"; cases "cs = []"; simp add: n u(1))
  qed
  have "mid_ok t' (xs(p := as @ cs)) (x # us) p (set (xs p) - {x})"
  proof (rule mid_drop_node [OF r(1) _ split])
    show "bins t' = bins ?t0" "bin_bitmap t' = bin_bitmap ?t0"
      "free_head t' = (if as = [] then (free_head ?t0)(p := en_next (node ?t0 x)) else free_head ?t0)"
      using u(2-4) by (simp_all add: t'_def t3 set_node_def r(6))
    show "en_next (node t' i) = (if as \<noteq> [] \<and> i = last as then en_next (node ?t0 x) else en_next (node ?t0 i))"
      "en_previous (node t' i) = (if cs \<noteq> [] \<and> i = hd cs then en_previous (node ?t0 x) else en_previous (node ?t0 i))"
      if "i \<in> set (as @ cs)" for i
      using that l(4) by (auto simp: n u(1) r(6,7))
  qed (use e' out u(5) r(10) ends in \<open>auto simp: n u(1) t'_def [THEN arg_cong, of free_extent_node_head]\<close>)
  moreover have "set (xs p) - {x} = set ((xs(p := as @ cs)) p)" using l(4) by (auto simp: split)
  ultimately have t: "table_ok t' (xs(p := as @ cs)) (x # us)" by (simp add: table_mid [of _ _ _ p])
  have here: "free_in t (xs p) - {lo t x..<lo t x + (hi t x - lo t x)} = free_in t (as @ cs)"
    using free_in_minus [OF l(6), of "{lo t x..<hi t x}"] l(6) by (auto simp: split extents_ok_split)
  have "(\<lambda>q. free_in t' ((xs(p := as @ cs)) q)) = (\<lambda>q. free_in t (xs q))(p := free_in t (xs p) - {lo t x..<lo t x + (hi t x - lo t x)})"
    unfolding here by (simp add: fun_eq_iff free_in_def lohi)
  with t show ?thesis unfolding carved_def room_def t'_def [symmetric] by (metis list.discI le_SucI length_Cons order_refl)
qed

lemma carve_split:
  assumes ok: "table_ok t xs (j # us)" and split: "xs p = as @ x # cs"
    and pre: "0 < unat prefix" "lo t x + unat prefix = a"
    and suf: "0 < unat suffix" "unat soff = a + n" "unat soff + unat suffix = hi t x" "0 < n"
    and t2: "t2 = set_node j (\<lambda>n. n\<lparr>en_offset := soff, en_bytes := suffix, en_state := kFree,
        en_next := en_next (node t x), en_previous := x\<rparr>) t1"
    and t1: "t1 = set_node j (\<lambda>_. default_node) ((RemoveBinLocked p x t)\<lparr>free_extent_node_head := en_next (node (RemoveBinLocked p x t) j)\<rparr>)"
    and t3: "t3 = set_valid (en_next (node t x)) (\<lambda>n. n\<lparr>en_previous := j\<rparr>) t2"
    and t4: "t4 = set_node x (\<lambda>n. n\<lparr>en_bytes := prefix, en_next := j, en_state := kFree\<rparr>) t3"
  shows "carved p a n (\<lambda>q. free_in t (xs q)) (Suc (length us)) (InsertBinLocked p j (InsertBinLocked p x t4))"
proof -
  let ?t0 = "RemoveBinLocked p x t" and ?ys = "as @ [x] @ j # cs" and ?S = "set (xs p) - {x}"
  have x: "x \<in> set (xs p)" by (simp add: split)
  note r = RemoveBin_first [OF ok x]
  note l = table_links [OF ok split]
  have parts: "node_parts xs (j # us)" using ok by (simp add: table_ok_def)
  have j: "j \<noteq> x" "j \<notin> set (xs p)" "j \<noteq> nil"
    using l(7) node_parts_pool(3) [OF parts, of p] node_parts_pool(5) [OF parts, of j p] by auto
  have next_nil: "first_of nil cs \<noteq> nil \<longleftrightarrow> cs \<noteq> []" "cs \<noteq> [] \<Longrightarrow> first_of nil cs = hd cs" using l(5) by (cases cs; auto)+
  have nj: "node t4 j = default_node\<lparr>en_offset := soff, en_bytes := suffix, en_state := kFree, en_next := first_of nil cs, en_previous := x\<rparr>"
    using j split l(5) by (cases cs) (auto simp: t4 t3 t2 t1 set_node_def set_valid_def l(1))
  have n: "node t4 i = (node ?t0 i)\<lparr>en_bytes := (if i = x then prefix else en_bytes (node ?t0 i)),
      en_next := (if i = x then j else en_next (node ?t0 i)), en_state := (if i = x then kFree else en_state (node ?t0 i)),
      en_previous := (if cs \<noteq> [] \<and> i = hd cs then j else en_previous (node ?t0 i))\<rparr>" if "i \<noteq> j" for i
    using that j next_nil l(4) by (cases cs) (simp_all add: t4 t3 t2 t1 set_node_def set_valid_def l(1))
  have lohi: "lo t4 i = (if i = j then a + n else lo t i)"
    "hi t4 i = (if i = j then hi t x else if i = x then a else hi t i)" for i
    using n [of i] r(4,5) suf pre by (cases "i = j"; cases "i = x"; simp add: lo_def hi_def nj)+
  have heads: "bins t4 = bins ?t0" "bin_bitmap t4 = bin_bitmap ?t0" "free_head t4 = free_head ?t0"
    "free_extent_node_head t4 = en_next (node ?t0 j)"
    by (simp_all add: t4 t3 t2 t1 set_node_def set_valid_def)
  have split': "xs p = (as @ [x]) @ cs" by (simp add: split)
  note old = l(6) [unfolded extents_ok_split]
  have jc: "j \<notin> set as" "j \<notin> set cs" "x \<notin> set as" "x \<notin> set cs" using j l(4) split by auto
  have same: "extents_ok t4 as = extents_ok t as" "extents_ok t4 cs = extents_ok t cs"
    by (rule extents_ok_cong; use jc n in \<open>force simp: r(4-8)\<close>)+
  have less: "a < hi t x" "lo t x < a" "a + n < hi t x" using pre suf by auto
  have "en_state (node t4 x) = kFree" "en_state (node t4 j) = kFree" using n [of x] j by (simp_all add: nj)
  then have e: "extents_ok t4 ((as @ [x]) @ j # cs)"
    using old same less jc j(1) suf(4) unfolding extents_ok_split extents_ok_append [of _ as "[x]"]
    by (fastforce simp: lohi extents_ok_def)
  have "mid_ok t4 (xs(p := (as @ [x]) @ j # cs)) us p ?S"
  proof (rule mid_new_node [OF r(1) _ split' heads(1,2) _ heads(4)])
    show "free_head t4 = (if as @ [x] = [] then (free_head ?t0)(p := j) else free_head ?t0)" by (simp add: heads)
    show "node t4 i = node ?t0 i" if "i \<notin> set (xs p)" "i \<noteq> j" for i
    proof -
      have "i \<noteq> x" "(cs \<noteq> [] \<and> i = hd cs) = False" using that split by auto
      then show ?thesis using n [OF that(2)] by (cases "cs = []") simp_all
    qed
    show "en_next (node t4 i) = (if i = j then first_of nil cs else if as @ [x] \<noteq> [] \<and> i = last (as @ [x]) then j else en_next (node ?t0 i))"
      "en_previous (node t4 i) = (if i = j then last_of nil (as @ [x]) else if cs \<noteq> [] \<and> i = hd cs then j else en_previous (node ?t0 i))" for i
      using n [of i] by (cases "i = j"; simp add: nj)+
    show "en_bin_next (node t4 i) = en_bin_next (node ?t0 i) \<and> en_bin_previous (node t4 i) = en_bin_previous (node ?t0 i) \<and>
        en_bin (node t4 i) = en_bin (node ?t0 i) \<and> en_bytes (node t4 i) = en_bytes (node ?t0 i)" if "i \<in> ?S" for i
    proof -
      have "i \<noteq> j" "i \<noteq> x" using that j(2) by auto
      then show ?thesis using n [of i] by simp
    qed
  qed (use e in auto)
  note m = this
  let ?xs = "xs(p := (as @ [x]) @ j # cs)" and ?t5 = "InsertBinLocked p x t4"
  have S: "?S = set (?xs p) - {j} - {x}" "x \<in> set (?xs p)" "j \<in> set (?xs p)" using jc split j(1) by auto
  note i1 = mid_InsertBin [OF m, of x, unfolded S(1)]
  have S2: "insert x (set (?xs p) - {j} - {x}) = set (?xs p) - {j}" using S(2) j(1) by auto
  have m2: "mid_ok ?t5 ?xs us p (set (?xs p) - {j})" using i1(1) S(2) unfolding S2 by auto
  note i2 = InsertBin_last [OF m2 S(3)]
  have f5: "lo ?t5 = lo t4" "hi ?t5 = hi t4" using bin_frame_simps(4,5) [OF i1(2)] S(2) by auto
  let ?t = "InsertBinLocked p j ?t5"
  have fas: "free_in ?t as = free_in t as" "free_in ?t cs = free_in t cs"
    by (rule free_in_cong; use jc in \<open>auto simp: i2 f5 lohi\<close>)+
  have here: "free_in ?t (?xs p) = free_in t (xs p) - {a..<a + n}"
  proof -
    have B: "{a..<a + n} \<subseteq> {lo t x..<hi t x}" using less by auto
    have D: "{lo t x..<hi t x} - {a..<a + n} = {lo t x..<a} \<union> {a + n..<hi t x}" using less by auto
    have "free_in ?t (?xs p) = free_in t as \<union> ({lo t x..<a} \<union> {a + n..<hi t x}) \<union> free_in t cs"
      using j(1) by (simp add: fas i2 f5 lohi Un_assoc)
    then show ?thesis unfolding split free_in_minus [OF l(6) B] D .
  qed
  have "free_in ?t (xs q) = free_in t (xs q)" if "q \<noteq> p" for q
    by (rule other_pool [OF ok that]) (use x in \<open>auto simp: i2 f5 lohi\<close>)
  then have "(\<lambda>q. free_in ?t (?xs q)) = (\<lambda>q. free_in t (xs q))(p := free_in t (xs p) - {a..<a + n})"
    using here by (auto simp: fun_eq_iff)
  moreover have "a + n \<in> free_in ?t (?xs p)" using less by (auto simp: i2 f5 lohi)
  ultimately show ?thesis using i2(1) unfolding carved_def room_def by blast
qed

lemma end_word: "hi t x < 2 ^ 64 \<Longrightarrow> unat (en_offset (node t x) + en_bytes (node t x)) = hi t x"
  by (subst unat_add_no_wrap) (simp_all add: hi_def)

lemma dvd_gap: "d dvd a \<Longrightarrow> d dvd b \<Longrightarrow> a < b \<Longrightarrow> a + d \<le> (b::nat)"
proof (elim dvdE)
  fix i j assume "a < b" "a = d * i" "b = d * j"
  then have "Suc i \<le> j" by (cases "i < j") auto
  then have "d * Suc i \<le> d * j" by (rule mult_le_mono2)
  then show "a + d \<le> b" using \<open>a = d * i\<close> \<open>b = d * j\<close> by simp
qed

lemma fits_iff:
  assumes k: "k < 64" "unat alignment = 2 ^ k" and h: "hi t x < 2 ^ 64"
  shows "extent_fits bytes alignment (node t x) \<longleftrightarrow> align_nat (2 ^ k) (lo t x) + unat bytes \<le> hi t x"
proof -
  let ?a = "AlignUp (en_offset (node t x)) alignment" and ?e = "en_offset (node t x) + en_bytes (node t x)"
  have e: "unat ?e = hi t x" by (rule end_word [OF h])
  have d: "unat (?e - ?a) = hi t x - unat ?a" if "\<not> ?e < ?a"
    using that e by (subst unat_sub_no_wrap) auto
  have fits: "extent_fits bytes alignment (node t x) \<longleftrightarrow> lo t x \<le> unat ?a \<and> unat ?a + unat bytes \<le> hi t x"
    using d e by (auto simp: extent_fits_def Let_def lo_def word_less_nat_alt)
  have v: "unat ?a = (if lo t x + 2 ^ k - 1 < 2 ^ 64 then align_nat (2 ^ k) (lo t x) else 0)"
    using AlignUp_value [OF k] by (simp add: lo_def)
  have "(2::nat) ^ k dvd 2 ^ 64" using k(1) by (intro le_imp_power_dvd) simp
  show ?thesis
  proof (cases "lo t x + 2 ^ k - 1 < 2 ^ 64")
    case True
    then show ?thesis using fits v align_nat_least(1) [of "2 ^ k" "lo t x"] by simp
  next
    case False
    have "\<not> align_nat (2 ^ k) (lo t x) < 2 ^ 64"
    proof
      assume "align_nat (2 ^ k) (lo t x) < 2 ^ 64"
      moreover have "(2::nat) ^ k dvd align_nat (2 ^ k) (lo t x)" by (simp add: align_nat_least)
      ultimately have "align_nat (2 ^ k) (lo t x) + 2 ^ k \<le> 2 ^ 64"
        using dvd_gap \<open>(2::nat) ^ k dvd 2 ^ 64\<close> by blast
      then show False using False align_nat_least(1) [of "2 ^ k" "lo t x"] by simp
    qed
    moreover have "(2::nat) ^ k < 2 ^ 64" using k(1) by (intro power_strict_increasing) auto
    then have "lo t x \<noteq> 0" using False by (cases "lo t x") auto
    ultimately show ?thesis using fits v h False by auto
  qed
qed

lemma keep_offset: "en_offset n = off \<Longrightarrow> n\<lparr>en_offset := off, en_bytes := b\<rparr> = n\<lparr>en_bytes := b\<rparr>"
  by (cases n) auto

lemma carve_ok:
  assumes ok: "table_ok t xs us" and x: "x \<in> set (xs p)" and b: "0 < unat bytes"
    and k: "k < 64" "unat alignment = 2 ^ k" and fits: "extent_fits bytes alignment (node t x)"
  obtains off t' where "carve p bytes alignment x t = (Inr off, t')" "unat off = align_nat (2 ^ k) (lo t x)"
      "align_nat (2 ^ k) (lo t x) + unat bytes \<le> hi t x"
      "carved p (unat off) (unat bytes) (\<lambda>q. free_in t (xs q)) (length us) t'"
  | t' where "carve p bytes alignment x t = (Inl kUnavailable, t')" "us = []" "table_ok t' xs us" "lo t' = lo t" "hi t' = hi t"
proof -
  let ?off = "en_offset (node t x)" and ?a = "AlignUp (en_offset (node t x)) alignment"
  let ?pre = "?a - ?off" and ?soff = "?a + bytes" and ?suf = "?off + en_bytes (node t x) - (?a + bytes)"
  let ?A = "align_nat (2 ^ k) (lo t x)" and ?t0 = "RemoveBinLocked p x t"
  from x obtain as cs where split: "xs p = as @ x # cs" by (meson split_list)
  note l = table_links [OF ok split] and r = RemoveBin_first [OF ok x]
  note e = l(6) [unfolded extents_ok_split]
  have h: "hi t x < 2 ^ 64" "lo t x < hi t x" using e by auto
  have A: "?A + unat bytes \<le> hi t x" "lo t x \<le> ?A"
    using fits fits_iff [OF k h(1)] align_nat_least(1) [of "2 ^ k" "lo t x"] by auto
  have a: "unat ?a = ?A"
  proof -
    have "lo t x \<le> unat ?a" using fits by (simp add: extent_fits_def Let_def lo_def word_less_nat_alt not_less)
    moreover have "lo t x + 2 ^ k - 1 < 2 ^ 64 \<or> 0 < lo t x"
      using k(1) power_strict_increasing [of k 64 "2::nat"] by (cases "lo t x") auto
    ultimately show ?thesis using AlignUp_value [OF k, of ?off] by (auto simp: lo_def split: if_splits)
  qed
  have pre: "unat ?pre = ?A - lo t x" using a A(2) by (subst unat_sub_no_wrap) (auto simp: lo_def word_le_nat_alt)
  have soff: "unat ?soff = ?A + unat bytes" using a A(1) h(1) by (subst unat_add_no_wrap) auto
  have suf: "unat ?suf = hi t x - (?A + unat bytes)"
    using soff A(1) end_word [OF h(1)] by (subst unat_sub_no_wrap) (auto simp: word_le_nat_alt)
  have zero: "?pre \<noteq> 0 \<longleftrightarrow> lo t x < ?A" "?suf \<noteq> 0 \<longleftrightarrow> ?A + unat bytes < hi t x"
    using pre suf A by (metis unat_gt_0 zero_less_diff)+
  show thesis
  proof (cases "?pre \<noteq> 0 \<and> ?suf \<noteq> 0")
    case True
    show thesis
    proof (cases us)
      case Nil
      then have "free_extent_node_head t = nil" using ok by (simp add: table_ok_def unused_ok_def)
      then have "carve p bytes alignment x t = (Inl kUnavailable, InsertBinLocked p x ?t0)"
        using True by (simp add: carve_def ReserveExtentNodeLocked_def r(10) Let_def)
      moreover note InsertBin_last [OF r(1) x]
      ultimately show thesis using Nil r(2,3) by (intro that(2) [of "InsertBinLocked p x ?t0"]) auto
    next
      case (Cons j vs)
      then have j: "free_extent_node_head t = j" "j \<noteq> nil" using ok by (auto simp: table_ok_def unused_ok_def)
      have c: "carve p bytes alignment x t = (Inr ?a, snd (carve p bytes alignment x t))"
        using True j by (simp add: carve_def ReserveExtentNodeLocked_def r(10) Let_def)
      have "carved p ?A (unat bytes) (\<lambda>q. free_in t (xs q)) (length us) (snd (carve p bytes alignment x t))"
        using True zero pre soff suf A j b unfolding Cons
        by (simp add: carve_def ReserveExtentNodeLocked_def r(10) Let_def)
          (rule carve_split [OF ok [unfolded Cons] split _ _ _ _ _ _ refl refl refl refl]; simp)
      then show thesis using c a A(1) by (intro that(1)) auto
    qed
  next
    case False
    have c: "carve p bytes alignment x t = (Inr ?a, snd (carve p bytes alignment x t))"
      using False by (auto simp: carve_def Let_def)
    have "carved p ?A (unat bytes) (\<lambda>q. free_in t (xs q)) (length us) (snd (carve p bytes alignment x t))"
    proof (cases "?pre \<noteq> 0 \<or> ?suf \<noteq> 0")
      case True
      define o' where "o' = (if ?pre \<noteq> 0 then ?off else ?soff)"
      define n' where "n' = (if ?pre \<noteq> 0 then ?pre else ?suf)"
      define t' where "t' = InsertBinLocked p x (set_node x (\<lambda>n. n\<lparr>en_offset := o', en_bytes := n'\<rparr>) ?t0)"
      have t: "snd (carve p bytes alignment x t) = t'"
        using False True by (auto simp: carve_def Let_def set_node_def keep_offset r(4) t'_def o'_def n'_def)
      have v: "unat o' = (if ?pre \<noteq> 0 then lo t x else ?A + unat bytes)"
        "unat n' = (if ?pre \<noteq> 0 then ?A - lo t x else hi t x - (?A + unat bytes))"
        using soff pre suf by (auto simp: lo_def o'_def n'_def)
      have within: "0 < unat n'" "lo t x \<le> unat o'" "unat o' + unat n' \<le> hi t x"
        using True False A unfolding v unfolding zero by auto
      have gaps: "\<forall>y \<in> set as. hi t y < unat o'" using within e by (meson less_le_trans)
      have gaps': "\<forall>y \<in> set cs. unat o' + unat n' < lo t y" using within e by (meson le_less_trans)
      note rs = resize_ok [OF ok split t'_def within(1) le_less_trans [OF within(3) h(1)] gaps gaps']
      have B: "{?A..<?A + unat bytes} \<subseteq> {lo t x..<hi t x}" using A by auto
      have D: "{lo t x..<hi t x} - {?A..<?A + unat bytes} = {unat o'..<unat o' + unat n'}"
        using True False A unfolding v unfolding zero by auto
      have f: "free_in t' (xs p) = free_in t (xs p) - {?A..<?A + unat bytes}"
        unfolding rs(2) unfolding split free_in_minus [OF l(6) B] D by (rule refl)
      have "(\<lambda>q. free_in t' (xs q)) = (\<lambda>q. free_in t (xs q))(p := free_in t (xs p) - {?A..<?A + unat bytes})"
        using f rs(3) by (auto simp: fun_eq_iff)
      moreover have "room (free_in t' (xs p)) us ?A (unat bytes)"
        unfolding rs(2) room_def using True False A unfolding v unfolding zero by auto
      ultimately show ?thesis unfolding t carved_def using rs(1) le_SucI by blast
    next
      case False
      then have z: "lo t x = ?A" "hi t x - lo t x = unat bytes" using zero A by auto
      note ce = carve_exact [OF ok split refl refl refl]
      show ?thesis using False ce unfolding z(2) [symmetric] z(1) [symmetric] by (simp add: carve_def Let_def)
    qed
    then show thesis using c a A(1) by (intro that(1)) auto
  qed
qed

section \<open>Release\<close>

lemma find_gap_eq:
  assumes "dseg (\<lambda>i. en_next (node t i)) (\<lambda>i. en_previous (node t i)) nil q h xs r nil" and "length xs < fuel"
  shows "find_gap fuel t offset q h =
    Some (if takeWhile (\<lambda>i. en_offset (node t i) < offset) xs = [] then q
          else last (takeWhile (\<lambda>i. en_offset (node t i) < offset) xs),
      first_of nil (dropWhile (\<lambda>i. en_offset (node t i) < offset) xs))"
  using assms
proof (induction xs arbitrary: q h fuel)
  case Nil
  then show ?case by (cases fuel) auto
next
  case (Cons x xs)
  then obtain f where f: "fuel = Suc f" "length xs < f" by (cases fuel) auto
  have h: "h = x" "x \<noteq> nil" and d: "dseg (\<lambda>i. en_next (node t i)) (\<lambda>i. en_previous (node t i)) nil x (en_next (node t x)) xs r nil"
    using Cons.prems(1) by auto
  show ?case using Cons.IH [OF d f(2)] by (simp add: f(1) h)
qed

text \<open>The outcome of a successful release of \<open>n\<close> bytes at \<open>a\<close> into pool \<open>p\<close>.\<close>

definition released :: "Pool \<Rightarrow> nat \<Rightarrow> nat \<Rightarrow> (Pool \<Rightarrow> nat set) \<Rightarrow> nat \<Rightarrow> ExtentTable \<Rightarrow> bool" where
  "released p a n F spare t' \<longleftrightarrow> (\<exists>xs us. table_ok t' xs us \<and> (\<lambda>q. free_in t' (xs q)) = F(p := F p \<union> {a..<a + n}) \<and>
     spare \<le> Suc (length us))"

lemma released_resize:
  assumes ok: "table_ok t xs us" and split: "xs p = as @ x # cs"
    and t': "t' = InsertBinLocked p x (set_node x (\<lambda>n. n\<lparr>en_offset := off, en_bytes := n'\<rparr>) (RemoveBinLocked p x t))"
    and size: "0 < unat n'" "unat off + unat n' < 2 ^ 64"
    and gap: "\<forall>a \<in> set as. hi t a < unat off" "\<forall>c \<in> set cs. unat off + unat n' < lo t c"
    and grow: "{unat off..<unat off + unat n'} = {lo t x..<hi t x} \<union> {a..<a + n}"
  shows "released p a n (\<lambda>q. free_in t (xs q)) (length us) t'"
proof -
  note r = resize_ok [OF ok split t' size gap]
  have "free_in t' (xs p) = free_in t (xs p) \<union> {a..<a + n}" unfolding r(2) grow by (auto simp: split)
  then have "(\<lambda>q. free_in t' (xs q)) = (\<lambda>q. free_in t (xs q))(p := free_in t (xs p) \<union> {a..<a + n})"
    using r(3) by (auto simp: fun_eq_iff)
  then show ?thesis unfolding released_def using r(1) le_SucI by blast
qed

lemma link_nodes:
  assumes ends: "distinct (as @ cs)" "nil \<notin> set (as @ cs)" "j \<notin> set (as @ cs)" "prev = last_of nil as" "next = first_of nil cs"
    and t3: "t3 = (if prev \<noteq> nil then set_node prev (\<lambda>n. n\<lparr>en_next := j\<rparr>) t else set_head p j t)"
    and t4: "t4 = set_valid next (\<lambda>n. n\<lparr>en_previous := j\<rparr>) t3"
  shows "node t4 i = (node t i)\<lparr>en_next := (if as \<noteq> [] \<and> i = last as then j else en_next (node t i)),
      en_previous := (if cs \<noteq> [] \<and> i = hd cs then j else en_previous (node t i))\<rparr>"
    and "free_head t4 = (if as = [] then (free_head t)(p := j) else free_head t)"
    and "bins t4 = bins t" "bin_bitmap t4 = bin_bitmap t" "free_extent_node_head t4 = free_extent_node_head t"
proof -
  have prev: "prev = (if as = [] then nil else last as)" "prev \<noteq> nil \<longleftrightarrow> as \<noteq> []"
    using ends(2) by (auto simp: ends(4) last_of_def dest: last_in_set)
  have nx: "next = (if cs = [] then nil else hd cs)" "next \<noteq> nil \<longleftrightarrow> cs \<noteq> []"
    using ends(2) by (cases cs; auto simp: ends(5))+
  show "node t4 i = (node t i)\<lparr>en_next := (if as \<noteq> [] \<and> i = last as then j else en_next (node t i)),
      en_previous := (if cs \<noteq> [] \<and> i = hd cs then j else en_previous (node t i))\<rparr>"
    "free_head t4 = (if as = [] then (free_head t)(p := j) else free_head t)"
    using prev nx by (cases "as = []"; cases "cs = []"; simp add: t4 t3 set_node_def set_valid_def set_head_def)+
  show "bins t4 = bins t" "bin_bitmap t4 = bin_bitmap t" "free_extent_node_head t4 = free_extent_node_head t"
    by (simp_all add: t4 t3 set_node_def set_valid_def set_head_def)
qed

lemma released_new:
  assumes ok: "table_ok t xs (j # us)" and split: "xs p = as @ cs"
    and t2: "t2 = set_node j (\<lambda>n. n\<lparr>en_offset := offset, en_bytes := bytes, en_next := first_of nil cs,
        en_previous := last_of nil as, en_state := kFree\<rparr>) (set_node j (\<lambda>_. default_node) (t\<lparr>free_extent_node_head := en_next (node t j)\<rparr>))"
    and t3: "t3 = (if last_of nil as \<noteq> nil then set_node (last_of nil as) (\<lambda>n. n\<lparr>en_next := j\<rparr>) t2 else set_head p j t2)"
    and t4: "t4 = set_valid (first_of nil cs) (\<lambda>n. n\<lparr>en_previous := j\<rparr>) t3"
    and size: "0 < unat bytes" "unat offset + unat bytes < 2 ^ 64"
    and gap: "\<forall>a \<in> set as. hi t a < unat offset" "\<forall>c \<in> set cs. unat offset + unat bytes < lo t c"
  shows "released p (unat offset) (unat bytes) (\<lambda>q. free_in t (xs q)) (length (j # us)) (InsertBinLocked p j t4)"
proof -
  let ?xs = "xs(p := as @ j # cs)" and ?t = "InsertBinLocked p j t4"
  have parts: "node_parts xs (j # us)" using ok by (simp add: table_ok_def)
  have d: "dll (\<lambda>i. en_next (node t i)) (\<lambda>i. en_previous (node t i)) nil (free_head t p) (as @ cs)"
    using ok split by (metis table_ok_def addr_ok_def)
  have j: "j \<notin> set as" "j \<notin> set cs" "j \<noteq> nil" "distinct (as @ cs)"
    using node_parts_pool(3) [OF parts, of p] node_parts_pool(5) [OF parts, of j p] node_parts_pool(1) [OF parts, of p] split by auto
  note u = link_nodes [OF j(4) dll_nil [OF d] _ refl refl t3 t4]
  have n2: "node t2 i = (if i = j then default_node\<lparr>en_offset := offset, en_bytes := bytes, en_next := first_of nil cs,
      en_previous := last_of nil as, en_state := kFree\<rparr> else node t i)" for i
    by (simp add: t2 set_node_def)
  have ends: "\<not> (as \<noteq> [] \<and> j = last as)" "\<not> (cs \<noteq> [] \<and> j = hd cs)" using j by auto
  have n: "node t4 i = (node t2 i)\<lparr>en_next := (if as \<noteq> [] \<and> i = last as then j else en_next (node t2 i)),
      en_previous := (if cs \<noteq> [] \<and> i = hd cs then j else en_previous (node t2 i))\<rparr>" for i
    by (rule u(1)) (use j in simp)
  have nj: "node t4 j = default_node\<lparr>en_offset := offset, en_bytes := bytes, en_next := first_of nil cs,
      en_previous := last_of nil as, en_state := kFree\<rparr>"
    using ends by (simp only: n n2 if_True if_False SharedExtentNode.select_convs) (simp add: default_node_def)
  have lohi: "lo t4 i = (if i = j then unat offset else lo t i)" "hi t4 i = (if i = j then unat offset + unat bytes else hi t i)" for i
    by (simp_all add: lo_def hi_def n n2)
  have "extents_ok t (as @ cs)" using ok split by (metis table_ok_def)
  note old = this [unfolded extents_ok_append]
  have "extents_ok t4 as = extents_ok t as" "extents_ok t4 cs = extents_ok t cs"
    by (rule extents_ok_cong; use j in \<open>auto simp: n n2\<close>)+
  then have e: "extents_ok t4 (as @ j # cs)"
    unfolding extents_ok_split lohi using old size gap j by (auto simp: nj)
  have m: "mid_ok t xs (j # us) p (set (xs p))" using ok by (simp add: table_mid [of _ _ _ p])
  have "mid_ok t4 ?xs us p (set (xs p))"
  proof (rule mid_new_node [OF m _ split])
    show "bins t4 = bins t" "bin_bitmap t4 = bin_bitmap t"
      "free_head t4 = (if as = [] then (free_head t)(p := j) else free_head t)"
      "free_extent_node_head t4 = en_next (node t j)"
      using u(2-5) j by (simp_all add: t2 set_node_def)
    show "node t4 i = node t i" if "i \<notin> set (xs p)" "i \<noteq> j" for i
    proof -
      have "\<not> (as \<noteq> [] \<and> i = last as)" "\<not> (cs \<noteq> [] \<and> i = hd cs)" using that split by auto
      then show ?thesis using that(2) by (cases "as = []"; cases "cs = []"; simp add: n n2)
    qed
    show "en_next (node t4 i) = (if i = j then first_of nil cs else if as \<noteq> [] \<and> i = last as then j else en_next (node t i))"
      "en_previous (node t4 i) = (if i = j then last_of nil as else if cs \<noteq> [] \<and> i = hd cs then j else en_previous (node t i))" for i
      by (cases "i = j"; simp add: nj; simp add: n n2)+
  qed (use e j split in \<open>auto simp: n n2\<close>)
  moreover have "set (xs p) = set (?xs p) - {j}" using j split by auto
  ultimately have "mid_ok t4 ?xs us p (set (?xs p) - {j})" by simp
  note i = InsertBin_last [OF this]
  have f: "free_in ?t as = free_in t as" "free_in ?t cs = free_in t cs"
    by (rule free_in_cong; use j in \<open>auto simp: i lohi\<close>)+
  have "free_in ?t (xs q) = free_in t (xs q)" if "q \<noteq> p" for q
    by (rule other_pool [OF ok that]) (auto simp: i lohi)
  then have "(\<lambda>q. free_in ?t (?xs q)) = (\<lambda>q. free_in t (xs q))(p := free_in t (xs p) \<union> {unat offset..<unat offset + unat bytes})"
    by (auto simp: fun_eq_iff f i lohi split)
  then show ?thesis unfolding released_def using i(1) by force
qed

text \<open>Unlinking from a size class does not read or write the byte counts.\<close>

lemma set_node_comm: "(\<And>n. f (g n) = g (f n)) \<Longrightarrow> set_node i f (set_node j g t) = set_node j g (set_node i f t)"
  by (auto simp: set_node_def fun_eq_iff)

lemma RemoveBin_bytes:
  "RemoveBinLocked p i (set_node j (\<lambda>n. n\<lparr>en_bytes := f (en_bytes n)\<rparr>) t) =
     set_node j (\<lambda>n. n\<lparr>en_bytes := f (en_bytes n)\<rparr>) (RemoveBinLocked p i t)"
proof -
  define g :: "SharedExtentNode \<Rightarrow> SharedExtentNode" where "g = (\<lambda>n. n\<lparr>en_bytes := f (en_bytes n)\<rparr>)"
  have fields: "en_bin (node (set_node j g u) k) = en_bin (node u k)" "en_bin_next (node (set_node j g u) k) = en_bin_next (node u k)"
    "en_bin_previous (node (set_node j g u) k) = en_bin_previous (node u k)" "bins (set_node j g u) = bins u"
    "bin_bitmap (set_node j g u) = bin_bitmap u" for k u
    by (simp_all add: set_node_def g_def)
  have comm: "set_node k (\<lambda>n. n\<lparr>en_bin_next := v\<rparr>) (set_node j g u) = set_node j g (set_node k (\<lambda>n. n\<lparr>en_bin_next := v\<rparr>) u)"
    "set_node k (\<lambda>n. n\<lparr>en_bin_next := v, en_bin_previous := w\<rparr>) (set_node j g u) =
      set_node j g (set_node k (\<lambda>n. n\<lparr>en_bin_next := v, en_bin_previous := w\<rparr>) u)"
    "set_valid k (\<lambda>n. n\<lparr>en_bin_previous := v\<rparr>) (set_node j g u) = set_node j g (set_valid k (\<lambda>n. n\<lparr>en_bin_previous := v\<rparr>) u)"
    "set_bin p b v (set_node j g u) = set_node j g (set_bin p b v u)"
    "(set_node j g u)\<lparr>bin_bitmap := m\<rparr> = set_node j g (u\<lparr>bin_bitmap := m\<rparr>)" for k u v w b m
    by (simp_all add: set_valid_def g_def set_node_comm) (simp_all add: set_node_def set_bin_def)
  show ?thesis unfolding g_def [symmetric] RemoveBinLocked_def Let_def fields
    by (simp only: comm fields if_distrib [of "set_node j g", symmetric] if_cancel)
qed

lemma released_merge:
  assumes ok: "table_ok t xs us" and split: "xs p = as @ x # y # cs"
    and t1: "t1 = set_node x (\<lambda>n. n\<lparr>en_bytes := en_bytes n + bytes\<rparr>) (RemoveBinLocked p x t)"
    and u0: "u0 = RemoveBinLocked p y t1"
    and u1: "u1 = set_node x (\<lambda>n. n\<lparr>en_bytes := en_bytes n + en_bytes (node u0 y), en_next := en_next (node u0 y)\<rparr>) u0"
    and u2: "u2 = set_valid (en_next (node u0 y)) (\<lambda>n. n\<lparr>en_previous := x\<rparr>) u1"
    and u3: "u3 = set_node y (\<lambda>n. n\<lparr>en_state := kUnused, en_next := free_extent_node_head u2\<rparr>) u2"
    and meet: "hi t x = a" "a + unat bytes = lo t y"
  shows "released p a (unat bytes) (\<lambda>q. free_in t (xs q)) (length us) (InsertBinLocked p x (u3\<lparr>free_extent_node_head := y\<rparr>))"
proof -
  define r2 where "r2 = RemoveBinLocked p y (RemoveBinLocked p x t)"
  define t' where "t' = u3\<lparr>free_extent_node_head := y\<rparr>"
  let ?S = "set (xs p) - {x} - {y}" and ?xs = "xs(p := (as @ [x]) @ cs)" and ?t = "InsertBinLocked p x t'"
  have x: "x \<in> set (xs p)" and split': "xs p = (as @ [x]) @ y # cs" by (simp_all add: split)
  note l = table_links [OF ok split] and ly = table_links [OF ok split'] and r = RemoveBin_first [OF ok x]
  have y: "y \<in> set (xs p) - {x}" using l(4) by (auto simp: split)
  note rr = mid_RemoveBin [OF r(1) y]
  have m: "mid_ok r2 xs us p ?S" unfolding r2_def by (rule rr(1)) auto
  have fr: "bin_frame p (set (xs p) - {x}) (RemoveBinLocked p x t) r2" unfolding r2_def by (rule rr(2)) auto
  have fields: "en_offset (node r2 i) = en_offset (node t i)" "en_bytes (node r2 i) = en_bytes (node t i)"
    "en_next (node r2 i) = en_next (node t i)" "en_previous (node r2 i) = en_previous (node t i)"
    "en_state (node r2 i) = en_state (node t i)" "free_head r2 = free_head t"
    "free_extent_node_head r2 = free_extent_node_head t" for i
    using fr r(4-10) by (simp_all add: bin_frame_def)
  have u0': "u0 = set_node x (\<lambda>n. n\<lparr>en_bytes := en_bytes n + bytes\<rparr>) r2"
    unfolding u0 t1 r2_def by (rule RemoveBin_bytes)
  have xy: "x \<noteq> y" "x \<notin> set as" "x \<notin> set cs" "y \<notin> set as" "y \<notin> set cs" using l(4) by auto
  have uy: "en_next (node u0 y) = first_of nil cs" "en_bytes (node u0 y) = en_bytes (node t y)"
    using xy(1) ly(1) by (simp_all add: u0' set_node_def fields)
  have nil: "first_of nil cs \<noteq> nil \<longleftrightarrow> cs \<noteq> []" "cs \<noteq> [] \<Longrightarrow> first_of nil cs = hd cs" using l(5) by (cases cs; auto)+
  have n: "node t' i = (if i = y then (node r2 y)\<lparr>en_state := kUnused, en_next := free_extent_node_head t\<rparr>
      else if i = x then (node r2 x)\<lparr>en_bytes := en_bytes (node t x) + bytes + en_bytes (node t y), en_next := first_of nil cs\<rparr>
      else (node r2 i)\<lparr>en_previous := (if cs \<noteq> [] \<and> i = hd cs then x else en_previous (node r2 i))\<rparr>)" for i
    using nil xy by (cases cs) (simp_all add: t'_def u3 u2 u1 u0' set_node_def set_valid_def fields ly(1))
  have heads: "bins t' = bins r2" "bin_bitmap t' = bin_bitmap r2" "free_head t' = free_head r2" "free_extent_node_head t' = y"
    by (simp_all add: t'_def u3 u2 u1 u0' set_node_def set_valid_def)
  note e = ly(6) [unfolded extents_ok_split extents_ok_append [of _ as "[x]"]]
  have hy: "hi t y < 2 ^ 64" "lo t y < hi t y" "lo t x < hi t x" using e by (auto simp: extents_ok_def)
  have width: "unat (en_bytes (node t x) + bytes + en_bytes (node t y)) = hi t y - lo t x"
  proof -
    have s: "unat (en_bytes (node t x)) + unat bytes + unat (en_bytes (node t y)) = hi t y - lo t x"
      using meet hy by (simp add: lo_def hi_def)
    have "unat (en_bytes (node t x) + bytes) = unat (en_bytes (node t x)) + unat bytes"
      using s hy(1) by (intro unat_add_no_wrap) simp
    then show ?thesis using s hy(1) by (subst unat_add_no_wrap) auto
  qed
  have lohi: "lo t' i = lo t i" "hi t' i = (if i = x then hi t y else hi t i)" for i
    using width meet hy xy(1) by (cases "i = y"; cases "i = x"; simp add: lo_def hi_def n fields)+
  have "extents_ok t' as = extents_ok t as" "extents_ok t' cs = extents_ok t cs"
    by (rule extents_ok_cong; use xy in \<open>auto simp: n fields\<close>)+
  moreover have "en_state (node t' x) = kFree" using e xy(1) by (simp add: n fields extents_ok_def)
  ultimately have "extents_ok t' (as @ x # cs)"
    unfolding extents_ok_split lohi using e xy hy meet by (fastforce simp: extents_ok_def)
  then have e': "extents_ok t' ((as @ [x]) @ cs)" by simp
  have "mid_ok t' ?xs (y # us) p ?S"
  proof (rule mid_drop_node [OF m _ split' heads(1,2) _ heads(4)])
    show "free_head t' = (if as @ [x] = [] then (free_head r2)(p := en_next (node r2 y)) else free_head r2)" by (simp add: heads)
    show "node t' i = node r2 i" if "i \<notin> set (xs p)" for i
    proof -
      have "i \<noteq> x" "i \<noteq> y" "\<not> (cs \<noteq> [] \<and> i = hd cs)" using that split by auto
      then show ?thesis by (cases "cs = []") (simp_all add: n)
    qed
    show "en_next (node t' i) = (if as @ [x] \<noteq> [] \<and> i = last (as @ [x]) then en_next (node r2 y) else en_next (node r2 i))"
      "en_previous (node t' i) = (if cs \<noteq> [] \<and> i = hd cs then en_previous (node r2 y) else en_previous (node r2 i))"
      if "i \<in> set ((as @ [x]) @ cs)" for i
    proof -
      have "cs \<noteq> [] \<Longrightarrow> hd cs \<noteq> x" "i \<noteq> y" using that xy by auto
      then show "en_next (node t' i) = (if as @ [x] \<noteq> [] \<and> i = last (as @ [x]) then en_next (node r2 y) else en_next (node r2 i))"
        "en_previous (node t' i) = (if cs \<noteq> [] \<and> i = hd cs then en_previous (node r2 y) else en_previous (node r2 i))"
        by (simp_all add: n fields ly(1,2))
    qed
  qed (use e' xy in \<open>auto simp: n fields\<close>)
  moreover have "?S = set (?xs p) - {x}" using xy split by auto
  ultimately have "mid_ok t' ?xs (y # us) p (set (?xs p) - {x})" by simp
  note i = InsertBin_last [OF this]
  have f: "free_in ?t as = free_in t as" "free_in ?t cs = free_in t cs"
    by (rule free_in_cong; use xy in \<open>auto simp: i lohi\<close>)+
  have mid: "{lo t x..<hi t y} = {lo t x..<hi t x} \<union> {lo t y..<hi t y} \<union> {a..<a + unat bytes}" using meet hy by auto
  have "free_in ?t (xs q) = free_in t (xs q)" if "q \<noteq> p" for q
    by (rule other_pool [OF ok that]) (use x in \<open>auto simp: i lohi\<close>)
  then have "(\<lambda>q. free_in ?t (?xs q)) = (\<lambda>q. free_in t (xs q))(p := free_in t (xs p) \<union> {a..<a + unat bytes})"
    by (simp add: fun_eq_iff f i lohi split mid Un_ac)
  then show ?thesis unfolding released_def t'_def [symmetric] using i(1) by force
qed

end
