(* ===== verification/Cx_Extent_Spec.thy ===== *)
theory Cx_Extent_Spec
  imports Cx_Extent_Pool
begin

text \<open>
  The extent pools as their client sees them: two sets of free addresses.  The first section puts the
  cases of a release together; then the lists of a table are read off its links, which makes the free
  addresses a function of the table, and the operations get their specification over it.
\<close>

section \<open>The cases of a release\<close>

text \<open>The address list around an offset.\<close>

definition gap_at :: "ExtentTable \<Rightarrow> (Pool \<Rightarrow> u32 list) \<Rightarrow> u32 list \<Rightarrow> Pool \<Rightarrow> u64 \<Rightarrow> u64 \<Rightarrow> u32 list \<Rightarrow> u32 list \<Rightarrow> bool" where
  "gap_at t xs us p offset bytes as cs \<longleftrightarrow> table_ok t xs us \<and> xs p = as @ cs \<and>
     (\<forall>a \<in> set as. lo t a < unat offset) \<and> (\<forall>c \<in> set cs. unat offset \<le> lo t c) \<and>
     0 < unat bytes \<and> unat offset + unat bytes < 2 ^ 64"

lemma gap_atD:
  assumes "gap_at t xs us p offset bytes as cs"
  shows "table_ok t xs us" "xs p = as @ cs" "a \<in> set as \<Longrightarrow> lo t a < unat offset" "c \<in> set cs \<Longrightarrow> unat offset \<le> lo t c"
    "0 < unat bytes" "unat offset + unat bytes < 2 ^ 64"
  using assms by (auto simp: gap_at_def)

lemma gap_sorted:
  assumes g: "gap_at t xs us p offset bytes as cs"
  shows "as = as' @ [x] \<Longrightarrow> a \<in> set as' \<Longrightarrow> hi t a < lo t x"
  "cs = y # cs' \<Longrightarrow> c \<in> set cs' \<Longrightarrow> hi t y < lo t c"
  "z \<in> set (as @ cs) \<Longrightarrow> lo t z < hi t z \<and> hi t z < 2 ^ 64"
proof -
  have "extents_ok t (as @ cs)" using gap_atD(1,2) [OF g] by (metis table_ok_def)
  then show "as = as' @ [x] \<Longrightarrow> a \<in> set as' \<Longrightarrow> hi t a < lo t x"
    "cs = y # cs' \<Longrightarrow> c \<in> set cs' \<Longrightarrow> hi t y < lo t c"
    "z \<in> set (as @ cs) \<Longrightarrow> lo t z < hi t z \<and> hi t z < 2 ^ 64"
    by (auto simp: extents_ok_def sorted_wrt_append)
qed

lemma gap_last_hi: "gap_at t xs us p offset bytes as cs \<Longrightarrow> a \<in> set as \<Longrightarrow> hi t a \<le> hi t (last as)"
  using gap_sorted(1,3) by (cases as rule: rev_cases) fastforce+

lemma gap_first_lo: "gap_at t xs us p offset bytes as cs \<Longrightarrow> c \<in> set cs \<Longrightarrow> lo t (hd cs) \<le> lo t c"
  using gap_sorted(2,3) by (cases cs) fastforce+

lemma gap_overlap:
  assumes g: "gap_at t xs us p offset bytes as cs"
  shows "as \<noteq> [] \<and> unat offset < hi t (last as) \<or> cs \<noteq> [] \<and> lo t (hd cs) < unat offset + unat bytes \<longleftrightarrow>
     {unat offset..<unat offset + unat bytes} \<inter> free_in t (xs p) \<noteq> {}"
proof -
  note before = gap_atD(3) [OF g] and after = gap_atD(4) [OF g] and size = gap_atD(5,6) [OF g] and split = gap_atD(2) [OF g]
    and sorted = gap_sorted [OF g] and last_hi = gap_last_hi [OF g] and first_lo = gap_first_lo [OF g]
  show ?thesis
  proof
    assume "as \<noteq> [] \<and> unat offset < hi t (last as) \<or> cs \<noteq> [] \<and> lo t (hd cs) < unat offset + unat bytes"
    then show "{unat offset..<unat offset + unat bytes} \<inter> free_in t (xs p) \<noteq> {}"
    proof
      assume a: "as \<noteq> [] \<and> unat offset < hi t (last as)"
      then have "unat offset \<in> free_in t (xs p)" using before [of "last as"] by (auto simp: split free_in_def intro!: bexI [of _ "last as"])
      then have "unat offset \<in> {unat offset..<unat offset + unat bytes} \<inter> free_in t (xs p)" using size by simp
      then show ?thesis by blast
    next
      assume c: "cs \<noteq> [] \<and> lo t (hd cs) < unat offset + unat bytes"
      then have "lo t (hd cs) \<in> free_in t (xs p)" using sorted(3) [of "hd cs"] by (auto simp: split free_in_def intro!: bexI [of _ "hd cs"])
      then show ?thesis using c after [of "hd cs"] by auto
    qed
  next
    assume "{unat offset..<unat offset + unat bytes} \<inter> free_in t (xs p) \<noteq> {}"
    then obtain m where m: "unat offset \<le> m" "m < unat offset + unat bytes" "m \<in> free_in t (as @ cs)"
      unfolding split by fastforce
    then obtain z where z: "z \<in> set (as @ cs)" "lo t z \<le> m" "m < hi t z"
      unfolding free_in_def by auto
    show "as \<noteq> [] \<and> unat offset < hi t (last as) \<or> cs \<noteq> [] \<and> lo t (hd cs) < unat offset + unat bytes"
    proof (cases "z \<in> set as")
      case True
      then show ?thesis using m z last_hi [of z] by (cases as) auto
    next
      case False
      then show ?thesis using m z first_lo [of z] by (cases cs) auto
    qed
  qed
qed

lemma gap_apart:
  assumes g: "gap_at t xs us p offset bytes as cs" and d: "{unat offset..<unat offset + unat bytes} \<inter> free_in t (xs p) = {}"
  shows "a \<in> set as \<Longrightarrow> hi t a \<le> unat offset" "c \<in> set cs \<Longrightarrow> unat offset + unat bytes \<le> lo t c"
proof -
  note before = gap_atD(3) [OF g] and after = gap_atD(4) [OF g] and size = gap_atD(5,6) [OF g] and split = gap_atD(2) [OF g]
    and sorted = gap_sorted [OF g] and last_hi = gap_last_hi [OF g] and first_lo = gap_first_lo [OF g]
  have no: "as \<noteq> [] \<Longrightarrow> hi t (last as) \<le> unat offset" "cs \<noteq> [] \<Longrightarrow> unat offset + unat bytes \<le> lo t (hd cs)"
    using d gap_overlap [OF g] by (auto simp: not_less)
  show "hi t a \<le> unat offset" if "a \<in> set as" using last_hi [OF that] no(1) that by fastforce
  show "unat offset + unat bytes \<le> lo t c" if "c \<in> set cs" using first_lo [OF that] no(2) that by fastforce
qed

lemma gap_strict:
  assumes g: "gap_at t xs us p offset bytes as cs" and d: "{unat offset..<unat offset + unat bytes} \<inter> free_in t (xs p) = {}"
  shows "a \<in> set as \<Longrightarrow> a \<noteq> last as \<or> hi t (last as) \<noteq> unat offset \<Longrightarrow> hi t a < unat offset"
    "c \<in> set cs \<Longrightarrow> c \<noteq> hd cs \<or> lo t (hd cs) \<noteq> unat offset + unat bytes \<Longrightarrow> unat offset + unat bytes < lo t c"
proof -
  note ap = gap_apart [OF g d] and so = gap_sorted [OF g]
  show "hi t a < unat offset" if a: "a \<in> set as" "a \<noteq> last as \<or> hi t (last as) \<noteq> unat offset"
  proof (cases "a = last as")
    case False
    then obtain bs where "as = bs @ [last as]" "a \<in> set bs" using a(1) by (cases as rule: rev_cases) auto
    moreover have "last as \<in> set as" using a(1) by (intro last_in_set) auto
    ultimately show ?thesis using so(1) gap_atD(3) [OF g, of "last as"] less_trans by blast
  qed (use a ap(1) [of a] in auto)
  show "unat offset + unat bytes < lo t c" if c: "c \<in> set cs" "c \<noteq> hd cs \<or> lo t (hd cs) \<noteq> unat offset + unat bytes"
  proof (cases "c = hd cs")
    case False
    then obtain bs where "cs = hd cs # bs" "c \<in> set bs" using c(1) by (cases cs) auto
    from so(2) [OF this] so(3) [of "hd cs"] ap(2) [of "hd cs"] c(1) show ?thesis by (cases cs) auto
  qed (use c ap(2) [of c] in auto)
qed

lemma gap_adjacent:
  assumes g: "gap_at t xs us p offset bytes as cs" and d: "{unat offset..<unat offset + unat bytes} \<inter> free_in t (xs p) = {}"
  shows "as \<noteq> [] \<and> hi t (last as) = unat offset \<longleftrightarrow> 0 < unat offset \<and> unat offset - 1 \<in> free_in t (xs p)"
    "cs \<noteq> [] \<and> lo t (hd cs) = unat offset + unat bytes \<longleftrightarrow> unat offset + unat bytes \<in> free_in t (xs p)"
proof -
  note before = gap_atD(3) [OF g] and after = gap_atD(4) [OF g] and size = gap_atD(5,6) [OF g] and split = gap_atD(2) [OF g]
    and sorted = gap_sorted [OF g] and last_hi = gap_last_hi [OF g] and first_lo = gap_first_lo [OF g]
  note ap = gap_apart [OF g d]
  show "as \<noteq> [] \<and> hi t (last as) = unat offset \<longleftrightarrow> 0 < unat offset \<and> unat offset - 1 \<in> free_in t (xs p)"
  proof
    assume a: "as \<noteq> [] \<and> hi t (last as) = unat offset"
    then show "0 < unat offset \<and> unat offset - 1 \<in> free_in t (xs p)"
      using before [of "last as"] by (auto simp: split free_in_def intro!: bexI [of _ "last as"])
  next
    assume o: "0 < unat offset \<and> unat offset - 1 \<in> free_in t (xs p)"
    then obtain z where z: "z \<in> set (as @ cs)" "lo t z \<le> unat offset - 1" "unat offset - 1 < hi t z"
      by (auto simp: split free_in_def)
    then have "z \<notin> set cs" using after [of z] o by auto
    then have za: "z \<in> set as" using z by simp
    then have "unat offset \<le> hi t (last as)" using z(3) o last_hi [OF za] by linarith
    then show "as \<noteq> [] \<and> hi t (last as) = unat offset" using za ap(1) [of "last as"] by (cases as) auto
  qed
  show "cs \<noteq> [] \<and> lo t (hd cs) = unat offset + unat bytes \<longleftrightarrow> unat offset + unat bytes \<in> free_in t (xs p)"
  proof
    assume c: "cs \<noteq> [] \<and> lo t (hd cs) = unat offset + unat bytes"
    then have "unat offset + unat bytes < hi t (hd cs)" using sorted(3) [of "hd cs"] by auto
    then show "unat offset + unat bytes \<in> free_in t (xs p)" using c by (auto simp: split free_in_def intro!: bexI [of _ "hd cs"])
  next
    assume "unat offset + unat bytes \<in> free_in t (xs p)"
    then obtain z where z: "z \<in> set (as @ cs)" "lo t z \<le> unat offset + unat bytes" "unat offset + unat bytes < hi t z"
      by (auto simp: split free_in_def)
    then have "z \<notin> set as" using ap(1) [of z] size by auto
    then have zc: "z \<in> set cs" using z by simp
    then have "lo t (hd cs) \<le> unat offset + unat bytes" using z(2) first_lo [OF zc] by linarith
    then show "cs \<noteq> [] \<and> lo t (hd cs) = unat offset + unat bytes" using zc ap(2) [of "hd cs"] by (cases cs) auto
  qed
qed

lemma gap_reads:
  assumes g: "gap_at t xs us p offset bytes as cs"
  shows "last_of nil as \<noteq> nil \<longleftrightarrow> as \<noteq> []" "first_of nil cs \<noteq> nil \<longleftrightarrow> cs \<noteq> []"
    "as \<noteq> [] \<Longrightarrow> last_of nil as = last as" "cs \<noteq> [] \<Longrightarrow> first_of nil cs = hd cs"
    "as \<noteq> [] \<Longrightarrow> unat (extent_end t (last as)) = hi t (last as)"
    "unat (offset + bytes) = unat offset + unat bytes"
proof -
  have "dll (\<lambda>i. en_next (node t i)) (\<lambda>i. en_previous (node t i)) nil (free_head t p) (as @ cs)"
    using gap_atD(1,2) [OF g] by (metis table_ok_def addr_ok_def)
  from dll_nil [OF this] show "last_of nil as \<noteq> nil \<longleftrightarrow> as \<noteq> []" "first_of nil cs \<noteq> nil \<longleftrightarrow> cs \<noteq> []"
    "as \<noteq> [] \<Longrightarrow> last_of nil as = last as" "cs \<noteq> [] \<Longrightarrow> first_of nil cs = hd cs"
    by (cases cs; auto simp: last_of_def dest: last_in_set)+
  show "unat (extent_end t (last as)) = hi t (last as)" if "as \<noteq> []"
    unfolding extent_end_def by (rule end_word) (use gap_sorted(3) [OF g, of "last as"] that in auto)
  show "unat (offset + bytes) = unat offset + unat bytes"
    using gap_atD(6) [OF g] by (intro unat_add_no_wrap) simp
qed

lemma FreeExtentLocked_gap:
  assumes ok: "table_ok t xs us" and size: "0 < unat bytes" "unat offset + unat bytes < 2 ^ 64"
  obtains as cs where "gap_at t xs us p offset bytes as cs"
    "find_gap (Suc kMaxSharedExtentNodes) t offset nil (free_head t p) = Some (last_of nil as, first_of nil cs)"
proof -
  let ?P = "\<lambda>i. en_offset (node t i) < offset"
  let ?as = "takeWhile ?P (xs p)" and ?cs = "dropWhile ?P (xs p)"
  have parts: "node_parts xs us" using ok by (simp add: table_ok_def)
  have "dll (\<lambda>i. en_next (node t i)) (\<lambda>i. en_previous (node t i)) nil (free_head t p) (xs p)"
    using ok by (simp add: table_ok_def addr_ok_def)
  then obtain r where "dseg (\<lambda>i. en_next (node t i)) (\<lambda>i. en_previous (node t i)) nil nil (free_head t p) (xs p) r nil"
    by (auto simp: dll_def)
  from find_gap_eq [OF this] node_parts_pool(6) [OF parts, of p]
  have f: "find_gap (Suc kMaxSharedExtentNodes) t offset nil (free_head t p) = Some (last_of nil ?as, first_of nil ?cs)"
    by (simp add: last_of_def less_Suc_eq_le del: find_gap.simps)
  have "sorted_wrt (\<lambda>a b. hi t a < lo t b) (?as @ ?cs)" "\<forall>x \<in> set (?as @ ?cs). lo t x < hi t x"
    using ok by (simp_all add: table_ok_def extents_ok_def)
  then have "\<forall>c \<in> set ?cs. unat offset \<le> lo t c"
  proof (cases ?cs)
    case Nil
    show ?thesis unfolding Nil by simp
  next
    case (Cons y ys)
    then have "\<not> ?P y" by (metis hd_dropWhile list.sel(1) list.discI)
    then have "unat offset \<le> lo t y" by (simp add: lo_def word_less_nat_alt)
    then show ?thesis using \<open>sorted_wrt _ _\<close> \<open>\<forall>x \<in> set (?as @ ?cs). _ x\<close> unfolding Cons by (fastforce simp: sorted_wrt_append)
  qed
  moreover have "\<forall>a \<in> set ?as. lo t a < unat offset" by (auto dest!: set_takeWhileD simp: lo_def word_less_nat_alt)
  ultimately have "gap_at t xs us p offset bytes ?as ?cs" using ok size by (simp add: gap_at_def)
  with f show thesis by (rule that [rotated])
qed

lemma FreeExtentLocked_cases:
  assumes ok: "table_ok t xs us" and size: "0 < unat bytes" "unat offset + unat bytes < 2 ^ 64"
  shows "{unat offset..<unat offset + unat bytes} \<inter> free_in t (xs p) \<noteq> {} \<Longrightarrow>
      FreeExtentLocked p offset bytes t = Some (kFailedPrecondition, t)"
    and "{unat offset..<unat offset + unat bytes} \<inter> free_in t (xs p) = {} \<Longrightarrow>
      \<not> room (free_in t (xs p)) us (unat offset) (unat bytes) \<Longrightarrow> FreeExtentLocked p offset bytes t = Some (kUnavailable, t)"
    and "{unat offset..<unat offset + unat bytes} \<inter> free_in t (xs p) = {} \<Longrightarrow>
      room (free_in t (xs p)) us (unat offset) (unat bytes) \<Longrightarrow>
      \<exists>t'. FreeExtentLocked p offset bytes t = Some (kOk, t') \<and>
        released p (unat offset) (unat bytes) (\<lambda>q. free_in t (xs q)) (length us) t'"
proof -
  let ?R = "{unat offset..<unat offset + unat bytes}" and ?F = "free_in t (xs p)"
  from FreeExtentLocked_gap [OF ok size] obtain as cs where g: "gap_at t xs us p offset bytes as cs"
    and f: "find_gap (Suc kMaxSharedExtentNodes) t offset nil (free_head t p) = Some (last_of nil as, first_of nil cs)" .
  note r = gap_reads [OF g] and split = gap_atD(2) [OF g]
  have nz: "bytes \<noteq> 0" using size by (metis unat_0 less_irrefl)
  let ?over = "last_of nil as \<noteq> nil \<and> offset < extent_end t (last_of nil as) \<or>
    first_of nil cs \<noteq> nil \<and> en_offset (node t (first_of nil cs)) < offset + bytes"
  have over: "?over \<longleftrightarrow> ?R \<inter> ?F \<noteq> {}"
    unfolding gap_overlap [OF g, symmetric] using r by (cases "as = []"; cases "cs = []") (auto simp: word_less_nat_alt lo_def)
  show "FreeExtentLocked p offset bytes t = Some (kFailedPrecondition, t)" if "?R \<inter> ?F \<noteq> {}"
    using that over nz f by (simp add: FreeExtentLocked_def del: find_gap.simps)
  assume d: "?R \<inter> ?F = {}"
  note st = gap_strict [OF g d] and adj = gap_adjacent [OF g d] and so = gap_sorted [OF g]
  have prev: "last_of nil as \<noteq> nil \<and> extent_end t (last_of nil as) = offset \<longleftrightarrow> as \<noteq> [] \<and> hi t (last as) = unat offset"
    using r by (cases "as = []") (auto simp: word_unat_eq_iff [of "extent_end t (last as)"])
  have nxt: "first_of nil cs \<noteq> nil \<and> offset + bytes = en_offset (node t (first_of nil cs)) \<longleftrightarrow>
      cs \<noteq> [] \<and> lo t (hd cs) = unat offset + unat bytes"
    using r by (cases "cs = []") (auto simp: word_unat_eq_iff [of "offset + bytes"] lo_def)
  let ?prev = "as \<noteq> [] \<and> hi t (last as) = unat offset" and ?next = "cs \<noteq> [] \<and> lo t (hd cs) = unat offset + unat bytes"
  have room: "room ?F us (unat offset) (unat bytes) \<longleftrightarrow> us \<noteq> [] \<or> ?prev \<or> ?next" unfolding room_def adj ..
  have run: "FreeExtentLocked p offset bytes t =
     (if ?prev then Some (kOk, merge_previous p offset bytes (last_of nil as) (first_of nil cs) t)
      else if ?next then Some (kOk, InsertBinLocked p (first_of nil cs)
             (set_node (first_of nil cs) (\<lambda>n. n\<lparr>en_offset := offset, en_bytes := en_bytes n + bytes\<rparr>)
                (RemoveBinLocked p (first_of nil cs) t)))
      else (case ReserveExtentNodeLocked t of
              (Inl st, t1) \<Rightarrow> Some (st, t1)
            | (Inr j, t1) \<Rightarrow>
                let t2 = set_node j (\<lambda>n. n\<lparr>en_offset := offset, en_bytes := bytes, en_next := first_of nil cs,
                                           en_previous := last_of nil as, en_state := kFree\<rparr>) t1;
                    t3 = (if last_of nil as \<noteq> nil
                          then set_node (last_of nil as) (\<lambda>n. n\<lparr>en_next := j\<rparr>) t2 else set_head p j t2);
                    t4 = set_valid (first_of nil cs) (\<lambda>n. n\<lparr>en_previous := j\<rparr>) t3
                in Some (kOk, InsertBinLocked p j t4)))"
    using d nz unfolding FreeExtentLocked_def f option.case prod.case over prev nxt by simp
  show "FreeExtentLocked p offset bytes t = Some (kUnavailable, t)" if "\<not> room ?F us (unat offset) (unat bytes)"
  proof -
    have "us = []" "\<not> ?prev" "\<not> ?next" using that room by auto
    moreover have "free_extent_node_head t = nil" using ok \<open>us = []\<close> by (simp add: table_ok_def unused_ok_def)
    ultimately show ?thesis unfolding run by (simp add: ReserveExtentNodeLocked_def)
  qed
  assume "room ?F us (unat offset) (unat bytes)"
  then consider (prev) ?prev | (nxt) "\<not> ?prev" ?next | (new) j us' where "us = j # us'" "\<not> ?prev" "\<not> ?next"
    unfolding room by (cases us) blast+
  then show "\<exists>t'. FreeExtentLocked p offset bytes t = Some (kOk, t') \<and>
      released p (unat offset) (unat bytes) (\<lambda>q. free_in t (xs q)) (length us) t'"
  proof cases
    case prev
    then obtain as' x where as: "as = as' @ [x]" and x: "hi t x = unat offset" by (cases as rule: rev_cases) auto
    have xx: "x \<in> set (xs p)" "x \<noteq> nil" using r(1,3) by (auto simp: split as)
    show ?thesis
    proof (cases ?next)
      case True
      then obtain y cs' where cs: "cs = y # cs'" and y: "unat offset + unat bytes = lo t y" by (cases cs) auto
      have xy: "x \<noteq> y" using x y size so(3) [of x] as by force
      have "offset + bytes = en_offset (node t y)" "y \<noteq> nil" using True nxt by (simp_all add: cs)
      moreover have "en_offset (node (RemoveBinLocked p x t) y) = en_offset (node t y)" by (rule RemoveBin_first(4) [OF ok xx(1)])
      moreover have "xs p = as' @ x # y # cs'" by (simp add: split as cs)
      note released_merge [OF ok this refl refl refl refl refl x y]
      ultimately show ?thesis using prev xy unfolding run by (simp add: merge_previous_def as cs Let_def set_node_def)
    next
      case False
      have split': "xs p = as' @ x # cs" by (simp add: split as)
      have w: "unat (en_bytes (node t x) + bytes) = unat (en_bytes (node t x)) + unat bytes"
        using x size by (intro unat_add_no_wrap) (simp add: hi_def)
      have keep: "en_offset (node (RemoveBinLocked p x t) x) = en_offset (node t x)"
        "en_bytes (node (RemoveBinLocked p x t) x) = en_bytes (node t x)" by (rule RemoveBin_first(4,5) [OF ok xx(1)])+
      have "released p (unat offset) (unat bytes) (\<lambda>q. free_in t (xs q)) (length us)
        (InsertBinLocked p x (set_node x (\<lambda>n. n\<lparr>en_offset := en_offset (node t x), en_bytes := en_bytes (node t x) + bytes\<rparr>) (RemoveBinLocked p x t)))"
      proof (rule released_resize [OF ok split' refl])
        have e: "unat (en_offset (node t x)) + unat (en_bytes (node t x) + bytes) = unat offset + unat bytes"
          using w x by (simp add: hi_def)
        show "\<forall>c \<in> set cs. unat (en_offset (node t x)) + unat (en_bytes (node t x) + bytes) < lo t c"
          unfolding e using st(2) False by fastforce
      qed (use w x size so(1) [OF as] so(3) [of x] as in \<open>auto simp: hi_def lo_def\<close>)
      moreover have "merge_previous p offset bytes x (first_of nil cs) t =
        InsertBinLocked p x (set_node x (\<lambda>n. n\<lparr>en_bytes := en_bytes n + bytes\<rparr>) (RemoveBinLocked p x t))"
        using False nxt RemoveBin_first(4) [OF ok xx(1), of "first_of nil cs"] r(2,4)
        by (auto simp: merge_previous_def Let_def set_node_def)
      ultimately show ?thesis using prev unfolding run by (simp add: as set_node_def keep keep_offset)
    qed
  next
    case nxt
    then obtain y cs' where cs: "cs = y # cs'" and y: "lo t y = unat offset + unat bytes" by (cases cs) auto
    have w: "unat (en_bytes (node t y) + bytes) = hi t y - unat offset"
      using y so(3) [of y] cs by (subst unat_add_no_wrap) (auto simp: lo_def hi_def)
    have strict: "hi t a < unat offset" if "a \<in> set as" for a
      using that nxt(1) by (intro st(1)) auto
    have "released p (unat offset) (unat bytes) (\<lambda>q. free_in t (xs q)) (length us)
      (InsertBinLocked p y (set_node y (\<lambda>n. n\<lparr>en_offset := offset, en_bytes := en_bytes (node t y) + bytes\<rparr>) (RemoveBinLocked p y t)))"
    proof (rule released_resize [OF ok split [unfolded cs] refl])
      have h: "lo t y < hi t y" "hi t y < 2 ^ 64" using so(3) [of y] cs by auto
      then have e: "unat offset + unat (en_bytes (node t y) + bytes) = hi t y" using w y by simp
      show "0 < unat (en_bytes (node t y) + bytes)" "unat offset + unat (en_bytes (node t y) + bytes) < 2 ^ 64" using e h w y by auto
      show "\<forall>c \<in> set cs'. unat offset + unat (en_bytes (node t y) + bytes) < lo t c" unfolding e using so(2) [OF cs] by blast
      show "{unat offset..<unat offset + unat (en_bytes (node t y) + bytes)} = {lo t y..<hi t y} \<union> {unat offset..<unat offset + unat bytes}"
        unfolding e using h y by auto
    qed (use strict in blast)
    moreover have "en_bytes (node (RemoveBinLocked p y t) y) = en_bytes (node t y)"
      by (rule RemoveBin_first(5) [OF ok]) (simp add: split cs)
    ultimately show ?thesis using nxt unfolding run by (auto simp: cs set_node_def)
  next
    case new
    have j: "free_extent_node_head t = j" "j \<noteq> nil" using ok new(1) by (auto simp: table_ok_def unused_ok_def)
    have strict: "\<forall>a \<in> set as. hi t a < unat offset" "\<forall>c \<in> set cs. unat offset + unat bytes < lo t c"
      using st new(2,3) by fastforce+
    from released_new [OF ok [unfolded new(1)] split refl refl refl size strict] show ?thesis
      using new(2,3) j unfolding run new(1) by (auto simp: ReserveExtentNodeLocked_def Let_def)
  qed
qed

section \<open>The cases of an allocation\<close>

lemma block_in_one:
  assumes "extents_ok t xs" and "0 < n" and "{a..<a + n} \<subseteq> free_in t xs"
  shows "\<exists>x \<in> set xs. lo t x \<le> a \<and> a + n \<le> hi t x"
proof -
  have "a \<in> free_in t xs" using assms by auto
  then obtain x where x: "x \<in> set xs" "lo t x \<le> a" "a < hi t x" by (auto simp: free_in_def)
  have "a + n \<le> hi t x"
  proof (rule ccontr)
    assume "\<not> a + n \<le> hi t x"
    then have "hi t x \<in> free_in t xs" using assms(3) x by auto
    then obtain y where y: "y \<in> set xs" "lo t y \<le> hi t x" "hi t x < hi t y" by (auto simp: free_in_def)
    then have "x \<noteq> y" by auto
    then have "hi t x < lo t y \<or> hi t y < lo t x"
      using assms(1) x(1) y(1) unfolding extents_ok_def sorted_wrt_iff_nth_less in_set_conv_nth
      by (metis linorder_neqE_nat)
    then show False using x y by auto
  qed
  with x show ?thesis by blast
qed

lemma AllocateExtentLocked_cases:
  assumes ok: "table_ok t xs us" and b: "0 < unat bytes" and k: "k < 64" "unat alignment = 2 ^ k"
  obtains off t' where "AllocateExtentLocked p bytes alignment t = Some (Inr off, t')" "2 ^ k dvd unat off"
      "unat off + unat bytes < 2 ^ 64"
      "{unat off..<unat off + unat bytes} \<subseteq> free_in t (xs p)"
      "carved p (unat off) (unat bytes) (\<lambda>q. free_in t (xs q)) (length us) t'"
  | t' where "AllocateExtentLocked p bytes alignment t = Some (Inl kUnavailable, t')" "table_ok t' xs us" "lo t' = lo t" "hi t' = hi t"
      "us = [] \<or> (\<forall>a. 2 ^ k dvd a \<longrightarrow> \<not> {a..<a + unat bytes} \<subseteq> free_in t (xs p))"
proof -
  have parts: "node_parts xs us" and e: "extents_ok t (xs p)" using ok by (simp_all add: table_ok_def)
  obtain bs where bs: "bins_ok t p bs (set (xs p))" using ok unfolding table_ok_def by blast
  have card: "card (set (xs p)) \<le> kMaxSharedExtentNodes"
    using node_parts_pool(6) [OF parts, of p] card_length [of "xs p"] by linarith
  have h: "hi t x < 2 ^ 64" if "x \<in> set (xs p)" for x using e that by (simp add: extents_ok_def)
  show thesis
  proof (rule bin_search_ok [OF bs card, of bytes alignment])
    fix x assume s: "bin_search p bytes alignment t = Some (Some x)" and x: "x \<in> set (xs p)" and f: "extent_fits bytes alignment (node t x)"
    have run: "AllocateExtentLocked p bytes alignment t = Some (carve p bytes alignment x t)"
      by (simp add: AllocateExtentLocked_search s)
    show thesis
    proof (rule carve_ok [OF ok x b k f])
      fix off t' assume c: "carve p bytes alignment x t = (Inr off, t')" and o: "unat off = align_nat (2 ^ k) (lo t x)"
        and i: "align_nat (2 ^ k) (lo t x) + unat bytes \<le> hi t x"
        and d: "carved p (unat off) (unat bytes) (\<lambda>q. free_in t (xs q)) (length us) t'"
      have l: "lo t x \<le> unat off" "2 ^ k dvd unat off" using align_nat_least(1,2) [of "2 ^ k"] o by simp_all
      have "{unat off..<unat off + unat bytes} \<subseteq> {lo t x..<hi t x}" using l(1) i o by auto
      moreover have "{lo t x..<hi t x} \<subseteq> free_in t (xs p)" using x unfolding free_in_def by blast
      ultimately have "{unat off..<unat off + unat bytes} \<subseteq> free_in t (xs p)" by (rule subset_trans)
      moreover note l(2)
      ultimately show thesis using run c d i o h [OF x] by (intro that(1)) auto
    next
      fix t' assume "carve p bytes alignment x t = (Inl kUnavailable, t')" "us = []" "table_ok t' xs us" "lo t' = lo t" "hi t' = hi t"
      then show thesis using run by (intro that(2) [of t']) auto
    qed
  next
    assume s: "bin_search p bytes alignment t = Some None"
      and none: "\<And>x. x \<in> set (xs p) \<Longrightarrow> bytes \<le> en_bytes (node t x) \<Longrightarrow> \<not> extent_fits bytes alignment (node t x)"
    have "\<not> {a..<a + unat bytes} \<subseteq> free_in t (xs p)" if a: "2 ^ k dvd a" for a
    proof
      assume "{a..<a + unat bytes} \<subseteq> free_in t (xs p)"
      from block_in_one [OF e b this] obtain x where x: "x \<in> set (xs p)" "lo t x \<le> a" "a + unat bytes \<le> hi t x" by blast
      then have "bytes \<le> en_bytes (node t x)" by (simp add: word_le_nat_alt lo_def hi_def)
      moreover have "align_nat (2 ^ k) (lo t x) + unat bytes \<le> hi t x"
        using align_nat_least(4) [of "2 ^ k" a "lo t x"] a x by simp
      ultimately show False using none [OF x(1)] fits_iff [OF k h [OF x(1)]] by blast
    qed
    then show thesis using s ok by (intro that(2) [of t]) (auto simp: AllocateExtentLocked_search)
  qed simp
qed

section \<open>The table as two sets of free addresses\<close>

fun follow :: "nat \<Rightarrow> (u32 \<Rightarrow> u32) \<Rightarrow> u32 \<Rightarrow> u32 list" where
  "follow 0 nxt i = []"
| "follow (Suc n) nxt i = (if i = nil then [] else i # follow n nxt (nxt i))"

definition addr_list :: "ExtentTable \<Rightarrow> Pool \<Rightarrow> u32 list" where
  "addr_list t p = follow kMaxSharedExtentNodes (\<lambda>i. en_next (node t i)) (free_head t p)"

definition unused_list :: "ExtentTable \<Rightarrow> u32 list" where
  "unused_list t = follow kMaxSharedExtentNodes (\<lambda>i. en_next (node t i)) (free_extent_node_head t)"

definition extents_wf :: "ExtentTable \<Rightarrow> bool" where
  "extents_wf t \<longleftrightarrow> table_ok t (addr_list t) (unused_list t)"

definition free_addresses :: "ExtentTable \<Rightarrow> Pool \<Rightarrow> nat set" where
  "free_addresses t p = free_in t (addr_list t p)"

definition spare_nodes :: "ExtentTable \<Rightarrow> nat" where
  "spare_nodes t = length (unused_list t)"

lemma follow_dseg: "dseg nxt prv nil q h xs r nil \<Longrightarrow> length xs \<le> n \<Longrightarrow> follow n nxt h = xs"
proof (induction xs arbitrary: q h n)
  case Nil
  then show ?case by (cases n) auto
next
  case (Cons x xs)
  then obtain m where "n = Suc m" "length xs \<le> m" by (cases n) auto
  with Cons.IH [of x "nxt x" m] Cons.prems(1) show ?case by auto
qed

lemma follow_chain: "chain nxt h xs \<Longrightarrow> length xs \<le> n \<Longrightarrow> follow n nxt h = xs"
proof (induction xs arbitrary: h n)
  case Nil
  then show ?case by (cases n) auto
next
  case (Cons x xs)
  then obtain m where "n = Suc m" "length xs \<le> m" by (cases n) auto
  with Cons.IH [of "nxt x" m] Cons.prems(1) show ?case by auto
qed

lemma node_parts_spare: "node_parts xs us \<Longrightarrow> length us \<le> kMaxSharedExtentNodes"
proof -
  assume p: "node_parts xs us"
  have "{i::u32. unat i < kMaxSharedExtentNodes} \<subseteq> of_nat ` {..<kMaxSharedExtentNodes}"
    by (auto simp: image_iff) (metis lessThan_iff of_nat_unat ucast_id)
  then have "card {i::u32. unat i < kMaxSharedExtentNodes} \<le> kMaxSharedExtentNodes"
    using surj_card_le [of "{..<kMaxSharedExtentNodes}"] by force
  moreover have "card (set us) \<le> card {i::u32. unat i < kMaxSharedExtentNodes}"
    using p by (intro card_mono) (auto simp: node_parts_def)
  ultimately show ?thesis using node_parts_pool(4) [OF p] by (simp add: distinct_card)
qed

lemma table_lists:
  assumes "table_ok t xs us"
  shows "addr_list t = xs" "unused_list t = us"
proof -
  have parts: "node_parts xs us" using assms by (simp add: table_ok_def)
  show "addr_list t = xs"
  proof
    fix p
    have "dll (\<lambda>i. en_next (node t i)) (\<lambda>i. en_previous (node t i)) nil (free_head t p) (xs p)"
      using assms by (simp add: table_ok_def addr_ok_def)
    then show "addr_list t p = xs p"
      using follow_dseg node_parts_pool(6) [OF parts, of p] unfolding dll_def addr_list_def by metis
  qed
  show "unused_list t = us"
    using follow_chain node_parts_spare [OF parts] assms unfolding table_ok_def unused_ok_def unused_list_def by metis
qed

lemma extents_wfI: "table_ok t xs us \<Longrightarrow> extents_wf t"
  by (simp add: extents_wf_def table_lists)

lemma carved_wf:
  assumes "carved p a n F s t"
  shows "extents_wf t" "free_addresses t = F(p := F p - {a..<a + n})"
    "0 < spare_nodes t \<or> 0 < a \<and> a - 1 \<in> free_addresses t p \<or> a + n \<in> free_addresses t p" "s \<le> Suc (spare_nodes t)"
proof -
  obtain xs us where ok: "table_ok t xs us" and f: "(\<lambda>q. free_in t (xs q)) = F(p := F p - {a..<a + n})"
    and r: "room (free_in t (xs p)) us a n" "s \<le> Suc (length us)" using assms by (auto simp: carved_def)
  show "extents_wf t" by (rule extents_wfI [OF ok])
  show "free_addresses t = F(p := F p - {a..<a + n})"
    unfolding f [symmetric] by (simp add: fun_eq_iff free_addresses_def table_lists [OF ok])
  show "0 < spare_nodes t \<or> 0 < a \<and> a - 1 \<in> free_addresses t p \<or> a + n \<in> free_addresses t p"
    "s \<le> Suc (spare_nodes t)"
    using r by (simp_all add: room_def free_addresses_def spare_nodes_def table_lists [OF ok])
qed

lemma released_wf:
  assumes "released p a n F s t"
  shows "extents_wf t" "free_addresses t = F(p := F p \<union> {a..<a + n})" "s \<le> Suc (spare_nodes t)"
proof -
  obtain xs us where ok: "table_ok t xs us" and f: "(\<lambda>q. free_in t (xs q)) = F(p := F p \<union> {a..<a + n})"
    and r: "s \<le> Suc (length us)" using assms by (auto simp: released_def)
  show "extents_wf t" by (rule extents_wfI [OF ok])
  show "free_addresses t = F(p := F p \<union> {a..<a + n})"
    unfolding f [symmetric] by (simp add: fun_eq_iff free_addresses_def table_lists [OF ok])
  show "s \<le> Suc (spare_nodes t)" using r by (simp add: spare_nodes_def table_lists [OF ok])
qed

section \<open>The interface of the pools\<close>

definition block :: "u64 \<Rightarrow> u64 \<Rightarrow> nat set" where
  "block offset bytes = {unat offset..<unat offset + unat bytes}"

text \<open>What an allocator relies on, whatever keeps the free extents.\<close>

locale extent_pools =
  fixes wf :: "'t \<Rightarrow> bool" and free :: "'t \<Rightarrow> 'p \<Rightarrow> nat set" and spare :: "'t \<Rightarrow> nat"
    and alloc :: "'p \<Rightarrow> u64 \<Rightarrow> u64 \<Rightarrow> 't \<Rightarrow> (u64 Result \<times> 't) option"
    and release :: "'p \<Rightarrow> u64 \<Rightarrow> u64 \<Rightarrow> 't \<Rightarrow> (Status \<times> 't) option"
  assumes alloc_total: "wf t \<Longrightarrow> bytes \<noteq> 0 \<Longrightarrow> k < 64 \<Longrightarrow> \<exists>r t'. alloc p bytes (2 ^ k) t = Some (r, t') \<and> wf t'"
    and alloc_block: "wf t \<Longrightarrow> bytes \<noteq> 0 \<Longrightarrow> k < 64 \<Longrightarrow> alloc p bytes (2 ^ k) t = Some (Inr off, t') \<Longrightarrow>
      2 ^ k dvd unat off \<and> unat off + unat bytes < 2 ^ 64 \<and> block off bytes \<subseteq> free t p \<and>
      free t' = (free t)(p := free t p - block off bytes) \<and>
      (0 < spare t' \<or> 0 < unat off \<and> unat off - 1 \<in> free t' p \<or> unat off + unat bytes \<in> free t' p) \<and> spare t \<le> Suc (spare t')"
    and alloc_refused: "wf t \<Longrightarrow> bytes \<noteq> 0 \<Longrightarrow> k < 64 \<Longrightarrow> alloc p bytes (2 ^ k) t = Some (Inl st, t') \<Longrightarrow>
      st = kUnavailable \<and> free t' = free t \<and> spare t' = spare t \<and>
      (spare t = 0 \<or> (\<forall>a. 2 ^ k dvd a \<longrightarrow> \<not> {a..<a + unat bytes} \<subseteq> free t p))"
    and release_ok: "wf t \<Longrightarrow> bytes \<noteq> 0 \<Longrightarrow> unat off + unat bytes < 2 ^ 64 \<Longrightarrow> block off bytes \<inter> free t p = {} \<Longrightarrow>
      0 < spare t \<or> 0 < unat off \<and> unat off - 1 \<in> free t p \<or> unat off + unat bytes \<in> free t p \<Longrightarrow>
      \<exists>t'. release p off bytes t = Some (kOk, t') \<and> wf t' \<and>
        free t' = (free t)(p := free t p \<union> block off bytes) \<and> spare t \<le> Suc (spare t')"
begin

text \<open>An allocation can be taken back, also after other requests were refused.\<close>

lemma take_back:
  assumes "wf t" "bytes \<noteq> 0" "k < 64" and a: "alloc p bytes (2 ^ k) t = Some (Inr off, t1)"
    and t2: "wf t2" "free t2 = free t1" "spare t2 = spare t1"
  shows "\<exists>t3. release p off bytes t2 = Some (kOk, t3) \<and> wf t3 \<and> free t3 = free t"
proof -
  from alloc_block [OF assms(1-3) a] have b: "unat off + unat bytes < 2 ^ 64" "block off bytes \<subseteq> free t p"
    "free t1 = (free t)(p := free t p - block off bytes)"
    "0 < spare t1 \<or> 0 < unat off \<and> unat off - 1 \<in> free t1 p \<or> unat off + unat bytes \<in> free t1 p" by auto
  have "block off bytes \<inter> free t2 p = {}" using b(3) t2(2) by auto
  from release_ok [OF t2(1) assms(2) b(1) this] b(4) t2 obtain t3 where
    t3: "release p off bytes t2 = Some (kOk, t3)" "wf t3" "free t3 = (free t2)(p := free t2 p \<union> block off bytes)" by auto
  moreover have "free t3 = free t" unfolding t3(3) t2(2) b(3) using b(2) by (auto simp: fun_eq_iff)
  ultimately show ?thesis by blast
qed

text \<open>With two spare nodes, two blocks can be released one after the other.\<close>

lemma release_two:
  assumes "wf t" "2 \<le> spare t" "p \<noteq> q"
    and "bytes \<noteq> 0" "unat off + unat bytes < 2 ^ 64" "block off bytes \<inter> free t p = {}"
    and "bytes' \<noteq> 0" "unat off' + unat bytes' < 2 ^ 64" "block off' bytes' \<inter> free t q = {}"
  shows "\<exists>t1 t2. release p off bytes t = Some (kOk, t1) \<and> release q off' bytes' t1 = Some (kOk, t2) \<and> wf t2 \<and>
    free t2 = (free t)(p := free t p \<union> block off bytes, q := free t q \<union> block off' bytes')"
proof -
  from release_ok [OF assms(1,4,5,6)] assms(2) obtain t1 where
    t1: "release p off bytes t = Some (kOk, t1)" "wf t1" "free t1 = (free t)(p := free t p \<union> block off bytes)" "spare t \<le> Suc (spare t1)" by auto
  have "block off' bytes' \<inter> free t1 q = {}" "0 < spare t1" using t1 assms(2,3,9) by auto
  from release_ok [OF t1(2) assms(7,8) this(1)] this(2) t1 assms(3) show ?thesis by auto
qed

end

lemma two_pow: "k < 64 \<Longrightarrow> unat (2 ^ k :: u64) = 2 ^ k"
  using unat_of_nat [of "2 ^ k", where 'a = 64] power_strict_increasing [of k 64 "2::nat"] by simp

interpretation pools: extent_pools extents_wf free_addresses spare_nodes AllocateExtentLocked FreeExtentLocked
proof
  fix t :: ExtentTable and bytes :: u64 and k :: nat and p
  assume t: "extents_wf t" and b: "bytes \<noteq> 0" and k: "k < 64"
  have ok: "table_ok t (addr_list t) (unused_list t)" using t by (simp add: extents_wf_def)
  have pos: "0 < unat bytes" using b by (simp add: unat_gt_0)
  note c = AllocateExtentLocked_cases [OF ok pos k two_pow [OF k], of p]
  have F: "(\<lambda>q. free_in t (addr_list t q)) = free_addresses t" by (simp add: fun_eq_iff free_addresses_def)
  show "\<exists>r t'. AllocateExtentLocked p bytes (2 ^ k) t = Some (r, t') \<and> extents_wf t'"
    using c carved_wf(1) extents_wfI by metis
  {
    fix off t' assume r: "AllocateExtentLocked p bytes (2 ^ k) t = Some (Inr off, t')"
    show "2 ^ k dvd unat off \<and> unat off + unat bytes < 2 ^ 64 \<and> block off bytes \<subseteq> free_addresses t p \<and>
        free_addresses t' = (free_addresses t)(p := free_addresses t p - block off bytes) \<and>
        (0 < spare_nodes t' \<or> 0 < unat off \<and> unat off - 1 \<in> free_addresses t' p \<or>
         unat off + unat bytes \<in> free_addresses t' p) \<and> spare_nodes t \<le> Suc (spare_nodes t')"
    proof (rule c)
      fix off2 t2 assume "AllocateExtentLocked p bytes (2 ^ k) t = Some (Inr off2, t2)" and d: "2 ^ k dvd unat off2"
        "unat off2 + unat bytes < 2 ^ 64" "{unat off2..<unat off2 + unat bytes} \<subseteq> free_in t (addr_list t p)"
        and v: "carved p (unat off2) (unat bytes) (\<lambda>q. free_in t (addr_list t q)) (length (unused_list t)) t2"
      then have "off2 = off" "t2 = t'" using r by auto
      with d carved_wf [OF v] show ?thesis unfolding F by (simp add: block_def free_addresses_def [of t p, symmetric] spare_nodes_def [of t])
    qed (use r in auto)
  }
  {
    fix st t' assume r: "AllocateExtentLocked p bytes (2 ^ k) t = Some (Inl st, t')"
    show "st = kUnavailable \<and> free_addresses t' = free_addresses t \<and> spare_nodes t' = spare_nodes t \<and>
        (spare_nodes t = 0 \<or> (\<forall>a. 2 ^ k dvd a \<longrightarrow> \<not> {a..<a + unat bytes} \<subseteq> free_addresses t p))"
    proof (rule c)
      fix t2 assume "AllocateExtentLocked p bytes (2 ^ k) t = Some (Inl kUnavailable, t2)" and o2: "table_ok t2 (addr_list t) (unused_list t)"
        and l: "lo t2 = lo t" "hi t2 = hi t" and n: "unused_list t = [] \<or> (\<forall>a. 2 ^ k dvd a \<longrightarrow> \<not> {a..<a + unat bytes} \<subseteq> free_in t (addr_list t p))"
      then have st: "st = kUnavailable" and t2: "t2 = t'" using r by auto
      have "free_in t' ys = free_in t ys" for ys using l by (simp add: free_in_def t2)
      with st n show ?thesis
        by (simp add: free_addresses_def spare_nodes_def table_lists [OF o2 [unfolded t2]] fun_eq_iff)
    qed (use r in auto)
  }
next
  fix t :: ExtentTable and bytes off :: u64 and p
  assume t: "extents_wf t" and b: "bytes \<noteq> 0"
  have ok: "table_ok t (addr_list t) (unused_list t)" using t by (simp add: extents_wf_def)
  have pos: "0 < unat bytes" using b by (simp add: unat_gt_0)
  have F: "(\<lambda>q. free_in t (addr_list t q)) = free_addresses t" by (simp add: fun_eq_iff free_addresses_def)
  assume bound: "unat off + unat bytes < 2 ^ 64" and d: "block off bytes \<inter> free_addresses t p = {}"
    and r: "0 < spare_nodes t \<or> 0 < unat off \<and> unat off - 1 \<in> free_addresses t p \<or> unat off + unat bytes \<in> free_addresses t p"
  have "room (free_in t (addr_list t p)) (unused_list t) (unat off) (unat bytes)"
    using r by (simp add: room_def spare_nodes_def free_addresses_def)
  from FreeExtentLocked_cases(3) [OF ok pos bound _ this] d obtain t' where
    "FreeExtentLocked p off bytes t = Some (kOk, t')"
    "released p (unat off) (unat bytes) (\<lambda>q. free_in t (addr_list t q)) (length (unused_list t)) t'"
    by (auto simp: block_def free_addresses_def)
  then show "\<exists>t'. FreeExtentLocked p off bytes t = Some (kOk, t') \<and> extents_wf t' \<and>
      free_addresses t' = (free_addresses t)(p := free_addresses t p \<union> block off bytes) \<and> spare_nodes t \<le> Suc (spare_nodes t')"
    using released_wf [of p "unat off" "unat bytes" "\<lambda>q. free_in t (addr_list t q)" "length (unused_list t)" t']
    unfolding F by (simp add: block_def spare_nodes_def free_addresses_def [of t p])
qed

section \<open>The formatted table\<close>

lemma u32_upt:
  assumes "n \<le> kMaxSharedExtentNodes"
  shows "i < n \<Longrightarrow> unat (of_nat i :: u32) = i" and "distinct (map of_nat [m..<n] :: u32 list)"
    "set (map of_nat [m..<n] :: u32 list) = {i. m \<le> unat i \<and> unat i < n}"
proof -
  have u: "unat (of_nat i :: u32) = i" if "i < n" for i
    using assms that by (simp add: kMaxSharedExtentNodes_def unat_of_nat)
  show "unat (of_nat i :: u32) = i" if "i < n" by (rule u [OF that])
  show "distinct (map of_nat [m..<n] :: u32 list)"
    unfolding distinct_map by (auto simp: inj_on_def) (metis u)
  show "set (map of_nat [m..<n] :: u32 list) = {i. m \<le> unat i \<and> unat i < n}"
  proof (intro equalityI subsetI)
    fix x :: u32 assume "x \<in> {i. m \<le> unat i \<and> unat i < n}"
    then have "unat x \<in> set [m..<n]" "x = of_nat (unat x)" by auto
    then show "x \<in> set (map of_nat [m..<n])" by (metis image_eqI set_map)
  qed (auto simp: u)
qed

lemma unused_chain:
  assumes "2 \<le> m" "m \<le> kMaxSharedExtentNodes" and nxt: "\<And>i. i \<noteq> 0 \<Longrightarrow> i \<noteq> 1 \<Longrightarrow> nxt i = en_next (unused_node i)"
  shows "chain nxt (if m = kMaxSharedExtentNodes then nil else of_nat m) (map of_nat [m..<kMaxSharedExtentNodes])"
  using assms(1,2)
proof (induction "kMaxSharedExtentNodes - m" arbitrary: m)
  case 0
  then show ?case by simp
next
  case (Suc d)
  then have m: "m < kMaxSharedExtentNodes" by simp
  note u = u32_upt(1) [OF order_refl m]
  have "(of_nat m :: u32) \<noteq> 0" "(of_nat m :: u32) \<noteq> 1" using u Suc.prems(1) by (auto simp: word_unat_eq_iff)
  then have n: "nxt (of_nat m) = (if Suc m = kMaxSharedExtentNodes then nil else of_nat (Suc m))"
    using m u by (auto simp: nxt unused_node_def default_node_def)
  have "(of_nat m :: u32) \<noteq> nil" using u m by (auto simp: word_unat_eq_iff kInvalidExtentIndex_def kMaxSharedExtentNodes_def)
  with Suc.hyps(1) [of "Suc m"] Suc.hyps(2) Suc.prems m n show ?case by (simp add: upt_conv_Cons)
qed

lemma format_table_ok:
  assumes "0 < unat data_bytes" "unat data_offset + unat data_bytes < 2 ^ 64"
    and "0 < unat coherence_bytes" "unat coherence_offset + unat coherence_bytes < 2 ^ 64"
  shows "table_ok (format_extents data_offset data_bytes coherence_offset coherence_bytes)
    (case_Pool [0] [1]) (map of_nat [2..<kMaxSharedExtentNodes])"
proof -
  let ?t = "format_extents data_offset data_bytes coherence_offset coherence_bytes"
  let ?us = "map of_nat [2..<kMaxSharedExtentNodes] :: u32 list"
  let ?bin = "case_Pool (BinForBytes data_bytes) (BinForBytes coherence_bytes)" and ?x = "case_Pool 0 1 :: Pool \<Rightarrow> u32"
  have n: "node ?t 0 = initial_node data_offset data_bytes" "node ?t 1 = initial_node coherence_offset coherence_bytes"
    "i \<noteq> 0 \<Longrightarrow> i \<noteq> 1 \<Longrightarrow> node ?t i = unused_node i" for i by (simp_all add: format_extents_def)
  have nil: "(0::u32) \<noteq> nil" "(1::u32) \<noteq> nil" by (simp_all add: kInvalidExtentIndex_def)
  have c: "class_ok ?t q b (if b = ?bin q then [?x q] else [])" if "b < kTlsfBinCount" for q b
    using that nil by (cases q) (auto simp: class_ok_def dll_def n initial_node_def default_node_def format_extents_def bit_exp_iff kTlsfBinCount_def)
  have b: "bins_ok ?t q (\<lambda>b. if b = ?bin q then [?x q] else []) {?x q}" for q
  proof -
    have "?bin q < kTlsfBinCount" by (cases q) (simp_all add: BinForBytes_less)
    then have "(\<Union>b \<in> {..<kTlsfBinCount}. set (if b = ?bin q then [?x q] else [])) = {?x q}" by (auto split: if_splits)
    then show ?thesis unfolding bins_ok_def using c by blast
  qed
  have bins: "\<exists>bs. bins_ok ?t q bs (set ((case_Pool [0] [1] :: Pool \<Rightarrow> u32 list) q))" for q
    using b [of q] by (cases q) auto
  have addr: "addr_ok ?t q ((case_Pool [0] [1]) q)" for q
    using nil by (cases q) (auto simp: addr_ok_def dll_def n initial_node_def default_node_def, simp_all add: format_extents_def)
  have ext: "extents_ok ?t ((case_Pool [0] [1]) q)" for q
    using assms by (cases q) (simp_all add: extents_ok_def n lo_def hi_def initial_node_def default_node_def)
  have two: "i \<noteq> 0 \<and> i \<noteq> 1" if "i \<in> set ?us" for i :: u32
    using that u32_upt(3) [OF order_refl, of 2] by auto
  have big: "2 \<le> kMaxSharedExtentNodes" "2 \<noteq> kMaxSharedExtentNodes" by (simp_all add: kMaxSharedExtentNodes_def)
  have "chain (\<lambda>i. en_next (node ?t i)) (of_nat 2) ?us"
    using unused_chain [OF order_refl big(1), of "\<lambda>i. en_next (node ?t i)"] n(3) big(2) by simp
  moreover have "en_state (node ?t i) = kUnused" if "i \<in> set ?us" for i
    using two [OF that] by (simp add: n(3) unused_node_def default_node_def)
  ultimately have "unused_ok ?t ?us" by (simp add: unused_ok_def format_extents_def)
  moreover have "node_parts (case_Pool [0] [1]) ?us"
  proof -
    have "0 < kMaxSharedExtentNodes" "1 < kMaxSharedExtentNodes" by (simp_all add: kMaxSharedExtentNodes_def)
    then have "[0..<kMaxSharedExtentNodes] = 0 # 1 # [2..<kMaxSharedExtentNodes]"
      using upt_conv_Cons [of 0 kMaxSharedExtentNodes] upt_conv_Cons [of 1 kMaxSharedExtentNodes] by (simp add: numeral_2_eq_2)
    then have "[0] @ [1] @ ?us = map of_nat [0..<kMaxSharedExtentNodes]" by simp
    then show ?thesis using u32_upt(2,3) [OF order_refl, of 0] by (simp add: node_parts_def)
  qed
  ultimately show ?thesis unfolding table_ok_def using addr ext bins by blast
qed

lemma format_free:
  assumes "data_bytes \<noteq> 0" "unat data_offset + unat data_bytes < 2 ^ 64"
    and "coherence_bytes \<noteq> 0" "unat coherence_offset + unat coherence_bytes < 2 ^ 64"
    and t: "t = format_extents data_offset data_bytes coherence_offset coherence_bytes"
  shows "extents_wf t" "free_addresses t DataPool = block data_offset data_bytes"
    "free_addresses t CoherencePool = block coherence_offset coherence_bytes" "spare_nodes t = 4094"
proof -
  have ok: "table_ok t (case_Pool [0] [1]) (map of_nat [2..<kMaxSharedExtentNodes])"
    unfolding t using assms(1-4) by (intro format_table_ok) (simp_all add: unat_gt_0)
  show "extents_wf t" by (rule extents_wfI [OF ok])
  show "free_addresses t DataPool = block data_offset data_bytes"
    "free_addresses t CoherencePool = block coherence_offset coherence_bytes"
    unfolding free_addresses_def table_lists(1) [OF ok]
    by (simp_all add: block_def lo_def hi_def t format_extents_def initial_node_def default_node_def)
  show "spare_nodes t = 4094" unfolding spare_nodes_def table_lists(2) [OF ok] length_map length_upt
    by (simp add: kMaxSharedExtentNodes_def)
qed

definition sample_table :: ExtentTable where
  "sample_table = format_extents 0x10000 0x40000 0x1040 0x8000"

lemma sample_table:
  "extents_wf sample_table" "free_addresses sample_table DataPool = block 0x10000 0x40000" "spare_nodes sample_table = 4094"
  using format_free [OF _ _ _ _ sample_table_def] by simp_all

section \<open>Properties\<close>

text \<open>
  After formatting, the extent table is well formed (address lists sorted and separated, size
  classes and bitmaps exact, every node on one list) and its two pools hold exactly the data range and
  the coherence range.
\<close>

theorem format_extents_wf:
  assumes "data_bytes \<noteq> 0" "unat data_offset + unat data_bytes < 2 ^ 64"
    and "coherence_bytes \<noteq> 0" "unat coherence_offset + unat coherence_bytes < 2 ^ 64"
    and "t = format_extents data_offset data_bytes coherence_offset coherence_bytes"
  shows "extents_wf t \<and> free_addresses t DataPool = block data_offset data_bytes \<and>
    free_addresses t CoherencePool = block coherence_offset coherence_bytes \<and> spare_nodes t = 4094"
  using format_free [OF assms] by blast

theorem format_extents_wf_witness:
  "extents_wf (format_extents 0x10000 0x40000 0x1040 0x8000) \<and>
   free_addresses (format_extents 0x10000 0x40000 0x1040 0x8000) DataPool = {65536..<327680}"
  using format_extents_wf [of "0x40000" "0x10000" "0x8000" "0x1040", OF _ _ _ _ refl] by (simp add: block_def)

text \<open>
  C19. On a well-formed table the search for an extent always ends, keeps the table well formed and
  leaves the other pool alone.  It returns an aligned block that was free and is no longer, using at
  most one metadata node, or it refuses with nothing changed; it refuses only when the metadata nodes are used up or when the pool
  has no aligned block of that size at all.
\<close>

theorem AllocateExtentLocked_correct:
  assumes "extents_wf t" and "bytes \<noteq> 0" and "k < 64"
  shows "\<exists>r t'. AllocateExtentLocked p bytes (2 ^ k) t = Some (r, t') \<and> extents_wf t' \<and>
    (case r of
       Inr off \<Rightarrow> 2 ^ k dvd unat off \<and> block off bytes \<subseteq> free_addresses t p \<and>
         free_addresses t' = (free_addresses t)(p := free_addresses t p - block off bytes) \<and> spare_nodes t \<le> Suc (spare_nodes t')
     | Inl st \<Rightarrow> st = kUnavailable \<and> free_addresses t' = free_addresses t \<and>
         (spare_nodes t = 0 \<or> (\<forall>a. 2 ^ k dvd a \<longrightarrow> \<not> {a..<a + unat bytes} \<subseteq> free_addresses t p)))"
proof -
  obtain r t' where r: "AllocateExtentLocked p bytes (2 ^ k) t = Some (r, t')" "extents_wf t'"
    using pools.alloc_total [OF assms] by blast
  show ?thesis
  proof (cases r)
    case (Inl st)
    with r pools.alloc_refused [OF assms, of p st t'] show ?thesis by auto
  next
    case (Inr off)
    with r pools.alloc_block [OF assms, of p off t'] show ?thesis by auto
  qed
qed

theorem AllocateExtentLocked_correct_witness:
  "\<exists>r t'. AllocateExtentLocked DataPool 0x100 (2 ^ 6) sample_table = Some (r, t') \<and> extents_wf t'"
  using AllocateExtentLocked_correct [OF sample_table(1), of "0x100" 6 DataPool] by auto

text \<open>
  C20. A release on a well-formed table always ends, and does exactly one of three things: it refuses a
  block that overlaps the free set, or one that touches no free extent when the metadata nodes are used
  up, with nothing changed; otherwise it adds exactly the block to the pool and the table stays well
  formed, so that neighbouring extents have been merged.
\<close>

theorem FreeExtentLocked_correct:
  assumes "extents_wf t" and "bytes \<noteq> 0" and "unat offset + unat bytes < 2 ^ 64"
  shows "\<exists>st t'. FreeExtentLocked p offset bytes t = Some (st, t') \<and>
    (if block offset bytes \<inter> free_addresses t p \<noteq> {} then st = kFailedPrecondition \<and> t' = t
     else if spare_nodes t = 0 \<and> \<not> (0 < unat offset \<and> unat offset - 1 \<in> free_addresses t p) \<and>
       unat offset + unat bytes \<notin> free_addresses t p then st = kUnavailable \<and> t' = t
     else st = kOk \<and> extents_wf t' \<and> free_addresses t' = (free_addresses t)(p := free_addresses t p \<union> block offset bytes))"
proof -
  have ok: "table_ok t (addr_list t) (unused_list t)" using assms(1) by (simp add: extents_wf_def)
  have pos: "0 < unat bytes" using assms(2) by (simp add: unat_gt_0)
  note c = FreeExtentLocked_cases(1,2) [OF ok pos assms(3), of p]
  have room: "room (free_in t (addr_list t p)) (unused_list t) (unat offset) (unat bytes) \<longleftrightarrow>
      0 < spare_nodes t \<or> 0 < unat offset \<and> unat offset - 1 \<in> free_addresses t p \<or> unat offset + unat bytes \<in> free_addresses t p"
    by (simp add: room_def spare_nodes_def free_addresses_def)
  consider (over) "block offset bytes \<inter> free_addresses t p \<noteq> {}"
    | (none) "block offset bytes \<inter> free_addresses t p = {}" "\<not> room (free_in t (addr_list t p)) (unused_list t) (unat offset) (unat bytes)"
    | (fits) "block offset bytes \<inter> free_addresses t p = {}" "room (free_in t (addr_list t p)) (unused_list t) (unat offset) (unat bytes)"
    by blast
  then show ?thesis
  proof cases
    case over
    then show ?thesis using c(1) by (simp add: block_def free_addresses_def)
  next
    case none
    then have "FreeExtentLocked p offset bytes t = Some (kUnavailable, t)" using c(2) by (simp add: block_def free_addresses_def)
    then show ?thesis using none unfolding room by simp
  next
    case fits
    from pools.release_ok [OF assms fits(1)] fits(2) show ?thesis using fits(1) unfolding room by auto
  qed
qed

theorem FreeExtentLocked_correct_witness:
  "\<exists>t'. FreeExtentLocked DataPool 0x60000 0x200 sample_table = Some (kOk, t') \<and> extents_wf t' \<and>
    free_addresses t' DataPool = {65536..<327680} \<union> {393216..<393728}"
  using FreeExtentLocked_correct [OF sample_table(1), of "0x200" "0x60000" DataPool]
  by (auto simp: sample_table(2,3) block_def)

text \<open>
  Allocation and release are inverse: a block that was allocated can always be released again, even
  if the metadata nodes are used up and other requests were refused in between, and the pools are then
  what they were.
\<close>

theorem extents_allocate_release:
  assumes "extents_wf t" and "bytes \<noteq> 0" and "k < 64" and "AllocateExtentLocked p bytes (2 ^ k) t = Some (Inr off, t1)"
    and "bytes2 \<noteq> 0" and "k2 < 64" and "AllocateExtentLocked q bytes2 (2 ^ k2) t1 = Some (Inl st, t2)"
  shows "\<exists>t3. FreeExtentLocked p off bytes t2 = Some (kOk, t3) \<and> extents_wf t3 \<and> free_addresses t3 = free_addresses t"
proof -
  have "extents_wf t1" using pools.alloc_total [OF assms(1-3), of p] assms(4) by auto
  note r = pools.alloc_refused [OF this assms(5,6,7)] pools.alloc_total [OF this assms(5,6), of q]
  show ?thesis by (rule pools.take_back [OF assms(1-4)]) (use r assms(7) in auto)
qed

lemma sample_coherence: "free_addresses sample_table CoherencePool = {0x1040..<0x9040}"
  using format_free(3) [OF _ _ _ _ sample_table_def] by (simp add: block_def)

lemma sample_requests:
  "\<exists>off t1. AllocateExtentLocked DataPool 0x100 (2 ^ 6) sample_table = Some (Inr off, t1) \<and>
     (\<exists>st t2. AllocateExtentLocked CoherencePool 0x10000 (2 ^ 6) t1 = Some (Inl st, t2))"
proof -
  have six: "(6::nat) < 64" by simp
  obtain r t1 where r: "AllocateExtentLocked DataPool 0x100 (2 ^ 6) sample_table = Some (r, t1)" "extents_wf t1"
    using pools.alloc_total [OF sample_table(1) _ six, of "0x100" DataPool] by auto
  have "{65536..<65536 + unat (0x100 :: u64)} \<subseteq> free_addresses sample_table DataPool"
    by (simp add: sample_table(2) block_def)
  moreover have "(2::nat) ^ 6 dvd 65536" by simp
  ultimately obtain off where off: "r = Inr off"
    using pools.alloc_refused [OF sample_table(1) _ six, of "0x100" DataPool] r(1) sample_table(3)
    by (cases r) (force simp del: power_numeral)+
  have c: "free_addresses t1 CoherencePool = {0x1040..<0x9040}"
    using pools.alloc_block [OF sample_table(1) _ six, of "0x100" DataPool off t1] r off by (simp add: sample_coherence)
  obtain r2 t2 where r2: "AllocateExtentLocked CoherencePool 0x10000 (2 ^ 6) t1 = Some (r2, t2)"
    using pools.alloc_total [OF r(2) _ six, of "0x10000" CoherencePool] by auto
  have "\<exists>st. r2 = Inl st"
  proof (cases r2)
    case (Inr off2)
    then have "{unat off2..<unat off2 + 65536} \<subseteq> {0x1040..<0x9040}"
      using pools.alloc_block [OF r(2) _ six, of "0x10000" CoherencePool off2 t2] r2 c by (simp add: block_def)
    then show ?thesis by auto
  qed auto
  then show ?thesis using r(1) off r2 by blast
qed

theorem extents_allocate_release_witness:
  "\<exists>off t1 st t2 t3. AllocateExtentLocked DataPool 0x100 (2 ^ 6) sample_table = Some (Inr off, t1) \<and>
     AllocateExtentLocked CoherencePool 0x10000 (2 ^ 6) t1 = Some (Inl st, t2) \<and>
     FreeExtentLocked DataPool off 0x100 t2 = Some (kOk, t3) \<and> free_addresses t3 DataPool = {65536..<327680}"
proof -
  obtain off t1 st t2 where a: "AllocateExtentLocked DataPool 0x100 (2 ^ 6) sample_table = Some (Inr off, t1)"
    "AllocateExtentLocked CoherencePool 0x10000 (2 ^ 6) t1 = Some (Inl st, t2)" using sample_requests by blast
  from extents_allocate_release [OF sample_table(1) _ _ a(1) _ _ a(2)] a show ?thesis
    by (auto simp: sample_table(2) block_def)
qed

end
