(* ===== verification/Cx_Allocator.thy ===== *)
theory Cx_Allocator
  imports Cx_Extent_Spec
begin

text \<open>
  The shared allocator (\<^verbatim>\<open>src/loommem/allocator.cpp\<close>, \<^verbatim>\<open>include/cxloom/loommem/allocator.h\<close>): objects in
  the shared data region, each with a descriptor in front of it and coherence metadata in the coherence
  pool, discovery slots, operation pins, and the three-phase retirement that lets a host reclaim an
  object.

  Shared memory is a record: the header, the descriptors by the offset of the object they describe, and
  the coherence block descriptors by their region offset.  The bytes of an object are not part of it.
  Every operation that takes the extent lock or an object lock is one step of the model, so the lock
  words themselves are not fields; the reader counts of the slots are.  Operations that search the extent
  tables return an option, as \<^const>\<open>AllocateExtentLocked\<close> does.
\<close>

section \<open>Data\<close>

definition kAllocatorMagic :: u64 where
  "kAllocatorMagic = 0x43584c4f4f4d414c"

definition kAllocationMagic :: u64 where
  "kAllocationMagic = 0x43584c4f4f4d4f42"

definition kAllocatorLayoutVersion :: u32 where
  "kAllocatorLayoutVersion = 13"

definition kCoherenceRegionMagic :: u64 where
  "kCoherenceRegionMagic = 0x43584c4f4f4d4348"

definition kCoherenceRegionLayoutVersion :: u32 where
  "kCoherenceRegionLayoutVersion = 3"

definition kMaxAllocationSlots :: nat where
  "kMaxAllocationSlots = 2048"

datatype AllocatorState = AllocatorUninitialized | AllocatorInitializing | AllocatorReady | AllocatorFailed

datatype AllocationState = ObjectEmpty | ObjectAllocated | ObjectRetiring

datatype RetirementPhase = kIdle | kClosing | kDraining | kCleaning | kReclaimable

record AllocationInfo =
  ai_gptr :: GlobalPointer
  ai_bytes :: u64
  ai_alignment :: u64
  ai_owner_host :: HostId
  ai_coherence_block_bytes :: u64
  ai_coherence_block_count :: u64
  ai_coherence_metadata_offset :: u64

record AllocationOptions =
  ao_bytes :: u64
  ao_alignment :: u64
  ao_coherence_block_bytes :: u64

record CoherenceBlockDescriptor =
  token_owner :: u32
  cb_version :: u64
  token_epoch :: u64
  writeback_epoch :: u64
  last_writer :: u32
  replica_versions :: "HostId \<Rightarrow> u64"

record CoherenceRegionHeader =
  cr_magic :: u64
  cr_layout_version :: u32
  cr_header_bytes :: u32
  cr_region_offset :: u64
  cr_region_bytes :: u64

record AllocationDescriptor =
  ad_magic :: u64
  ad_state :: AllocationState
  ad_owner_host :: HostId
  ad_object_offset :: u64
  ad_bytes :: u64
  ad_alignment :: u64
  ad_coherence_block_bytes :: u64
  ad_coherence_block_count :: u64
  ad_coherence_metadata_offset :: u64
  ad_data_extent_offset :: u64
  ad_data_extent_bytes :: u64
  ad_coherence_extent_bytes :: u64
  ad_replica_hosts :: u64
  ad_sealed_hosts :: u64
  ad_active_operations :: "HostId \<Rightarrow> u64"

record RetirementSnapshot =
  rs_phase :: RetirementPhase
  rs_object :: GlobalPointer
  rs_sequence :: u64
  rs_coordinator :: HostId
  rs_host_count :: u16

record RetirementControl =
  current :: RetirementSnapshot
  closed :: u64
  drained :: u64
  cleaned :: u64
  watermarks :: "HostId \<Rightarrow> HostId \<Rightarrow> u64"

record AllocationSlot =
  sl_object_offset :: u64
  sl_readers :: u32

record AllocatorHeader =
  ah_magic :: u64
  ah_layout_version :: u32
  ah_header_bytes :: u32
  ah_state :: AllocatorState
  ah_shared_data_offset :: u64
  ah_shared_data_bytes :: u64
  ah_extent_node_capacity :: nat
  extents :: ExtentTable
  retirement :: RetirementControl
  allocations :: "AllocationSlot list"

text \<open>The shared memory the allocators of all hosts work on, and the object of one host.\<close>

record AllocatorMemory =
  header :: AllocatorHeader
  descriptors :: "u64 \<Rightarrow> AllocationDescriptor"
  coherence_blocks :: "u64 \<Rightarrow> CoherenceBlockDescriptor"

record SharedExtentAllocator =
  region_bytes :: u64
  local_host :: HostId
  expected_data_offset :: u64
  expected_data_bytes :: u64
  coherence_header :: "CoherenceRegionHeader option"
  default_block_bytes :: u64
  initialized :: bool

text \<open>Sizes on the supported ABI; \<open>sizeof_AllocatorHeader\<close> is bounded by the source's assertion.\<close>

definition sizeof_AllocationDescriptor :: u64 where
  "sizeof_AllocationDescriptor = 640"

definition sizeof_CoherenceBlockDescriptor :: u64 where
  "sizeof_CoherenceBlockDescriptor = 576"

definition sizeof_CoherenceRegionHeader :: u64 where
  "sizeof_CoherenceRegionHeader = 64"

definition alignof_descriptor :: u64 where
  "alignof_descriptor = 64"

definition default_descriptor :: AllocationDescriptor where
  "default_descriptor = \<lparr>ad_magic = 0, ad_state = ObjectEmpty, ad_owner_host = 0, ad_object_offset = 0, ad_bytes = 0,
     ad_alignment = 0, ad_coherence_block_bytes = 0, ad_coherence_block_count = 0, ad_coherence_metadata_offset = 0,
     ad_data_extent_offset = 0, ad_data_extent_bytes = 0, ad_coherence_extent_bytes = 0, ad_replica_hosts = 0,
     ad_sealed_hosts = 0, ad_active_operations = (\<lambda>_. 0)\<rparr>"

definition default_block :: CoherenceBlockDescriptor where
  "default_block = \<lparr>token_owner = 0, cb_version = 0, token_epoch = 0, writeback_epoch = 0,
     last_writer = of_nat kMaxHosts, replica_versions = (\<lambda>_. 0)\<rparr>"

definition idle_snapshot :: RetirementSnapshot where
  "idle_snapshot = \<lparr>rs_phase = kIdle, rs_object = \<lparr>region_id = 0, gp_offset = 0\<rparr>, rs_sequence = 0, rs_coordinator = 0, rs_host_count = 0\<rparr>"

definition idle_control :: RetirementControl where
  "idle_control = \<lparr>current = idle_snapshot, closed = 0, drained = 0, cleaned = 0, watermarks = (\<lambda>_ _. 0)\<rparr>"

section \<open>Formatting and attaching\<close>

definition FormatSharedAllocator ::
  "u64 \<Rightarrow> u64 \<Rightarrow> u64 \<Rightarrow> u64 \<Rightarrow> u64 \<Rightarrow> u64 \<Rightarrow> AllocatorHeader Result" where
  "FormatSharedAllocator sizeof_AllocatorHeader allocator_region_bytes data_offset data_bytes coherence_offset coherence_bytes =
     (if allocator_region_bytes < sizeof_AllocatorHeader then Inl kInvalidArgument
      else let first = AlignUp (coherence_offset + sizeof_CoherenceRegionHeader) alignof_descriptor in
        if data_bytes \<le> sizeof_AllocationDescriptor \<or> first < coherence_offset \<or> coherence_offset + coherence_bytes \<le> first
        then Inl kInvalidArgument
        else Inr \<lparr>ah_magic = kAllocatorMagic, ah_layout_version = kAllocatorLayoutVersion,
          ah_header_bytes = ucast sizeof_AllocatorHeader, ah_state = AllocatorReady, ah_shared_data_offset = data_offset,
          ah_shared_data_bytes = data_bytes, ah_extent_node_capacity = kMaxSharedExtentNodes,
          extents = format_extents data_offset data_bytes first (coherence_offset + coherence_bytes - first),
          retirement = idle_control,
          allocations = replicate kMaxAllocationSlots \<lparr>sl_object_offset = 0, sl_readers = 0\<rparr>\<rparr>)"

definition FormatCoherenceRegion :: "u64 \<Rightarrow> u64 \<Rightarrow> CoherenceRegionHeader Result" where
  "FormatCoherenceRegion region_offset bytes =
     (if bytes < sizeof_CoherenceRegionHeader + sizeof_CoherenceBlockDescriptor then Inl kInvalidArgument
      else Inr \<lparr>cr_magic = kCoherenceRegionMagic, cr_layout_version = kCoherenceRegionLayoutVersion,
        cr_header_bytes = ucast sizeof_CoherenceRegionHeader, cr_region_offset = region_offset, cr_region_bytes = bytes\<rparr>)"

definition Initialize :: "u64 \<Rightarrow> AllocatorHeader \<Rightarrow> SharedExtentAllocator \<Rightarrow> Status \<times> SharedExtentAllocator" where
  "Initialize sizeof_AllocatorHeader h A =
     (if ah_magic h \<noteq> kAllocatorMagic \<or> ah_layout_version h \<noteq> kAllocatorLayoutVersion \<or>
         ah_header_bytes h \<noteq> ucast sizeof_AllocatorHeader then (kFailedPrecondition, A)
      else if ah_state h \<noteq> AllocatorReady then (kFailedPrecondition, A)
      else if ah_shared_data_offset h \<noteq> expected_data_offset A \<or> ah_shared_data_bytes h \<noteq> expected_data_bytes A \<or>
         region_bytes A < expected_data_offset A \<or> region_bytes A - expected_data_offset A < expected_data_bytes A
      then (kFailedPrecondition, A)
      else if (case coherence_header A of None \<Rightarrow> False | Some c \<Rightarrow>
          cr_magic c \<noteq> kCoherenceRegionMagic \<or> cr_layout_version c \<noteq> kCoherenceRegionLayoutVersion \<or>
          cr_header_bytes c \<noteq> ucast sizeof_CoherenceRegionHeader \<or> region_bytes A < cr_region_offset c \<or>
          region_bytes A - cr_region_offset c < cr_region_bytes c) then (kFailedPrecondition, A)
      else if ah_extent_node_capacity h \<noteq> kMaxSharedExtentNodes \<or>
          kMaxSharedExtentNodes \<le> unat (free_head (extents h) DataPool) \<or>
          kMaxSharedExtentNodes \<le> unat (free_head (extents h) CoherencePool) then (kFailedPrecondition, A)
      else (kOk, A\<lparr>initialized := True\<rparr>))"

section \<open>Slots and descriptors\<close>

definition first_slot :: "(AllocationSlot \<Rightarrow> bool) \<Rightarrow> AllocatorMemory \<Rightarrow> nat option" where
  "first_slot P M = (let ss = allocations (header M) in List.find (\<lambda>i. P (ss ! i)) [0..<length ss])"

definition set_slot :: "nat \<Rightarrow> (AllocationSlot \<Rightarrow> AllocationSlot) \<Rightarrow> AllocatorMemory \<Rightarrow> AllocatorMemory" where
  "set_slot i f M = M\<lparr>header := (header M)\<lparr>allocations := (allocations (header M))[i := f (allocations (header M) ! i)]\<rparr>\<rparr>"

definition set_extents :: "ExtentTable \<Rightarrow> AllocatorMemory \<Rightarrow> AllocatorMemory" where
  "set_extents t M = M\<lparr>header := (header M)\<lparr>extents := t\<rparr>\<rparr>"

definition set_retirement :: "RetirementControl \<Rightarrow> AllocatorMemory \<Rightarrow> AllocatorMemory" where
  "set_retirement r M = M\<lparr>header := (header M)\<lparr>retirement := r\<rparr>\<rparr>"

definition set_descriptor :: "u64 \<Rightarrow> (AllocationDescriptor \<Rightarrow> AllocationDescriptor) \<Rightarrow> AllocatorMemory \<Rightarrow> AllocatorMemory" where
  "set_descriptor off f M = M\<lparr>descriptors := (descriptors M)(off := f (descriptors M off))\<rparr>"

definition FindDescriptorLocked :: "SharedExtentAllocator \<Rightarrow> AllocatorMemory \<Rightarrow> GlobalPointer \<Rightarrow> bool \<Rightarrow> AllocationDescriptor Result" where
  "FindDescriptorLocked A M object allow_retiring =
     (if \<not> initialized A then Inl kFailedPrecondition
      else let e = expected_data_offset A + expected_data_bytes A; off = gp_offset object in
        if region_id object \<noteq> 0 \<or> off < expected_data_offset A + sizeof_AllocationDescriptor \<or> e \<le> off \<or>
           (off - sizeof_AllocationDescriptor) mod alignof_descriptor \<noteq> 0 then Inl kInvalidArgument
        else let d = descriptors M off in
          if ad_state d \<noteq> ObjectAllocated \<and> \<not> (allow_retiring \<and> ad_state d = ObjectRetiring) \<or>
             ad_magic d \<noteq> kAllocationMagic \<or> ad_object_offset d \<noteq> off \<or> ad_bytes d = 0 \<or> e - off < ad_bytes d \<or>
             kMaxHosts \<le> unat (ad_owner_host d) then Inl kNotFound
          else Inr d)"

text \<open>
  The slot search of \<^verbatim>\<open>LockAllocationSlot\<close>: the first slot of the object that admits a reader gains one.
  Inside one step the compare-exchange succeeds and the second look at the offset agrees.
\<close>

definition LockAllocationSlot :: "SharedExtentAllocator \<Rightarrow> AllocatorMemory \<Rightarrow> GlobalPointer \<Rightarrow> nat Result \<times> AllocatorMemory" where
  "LockAllocationSlot A M object =
     (if \<not> initialized A then (Inl kFailedPrecondition, M)
      else if region_id object \<noteq> 0 \<or> gp_offset object = 0 then (Inl kInvalidArgument, M)
      else (case first_slot (\<lambda>s. sl_object_offset s = gp_offset object \<and> sl_readers s \<noteq> UINT32_MAX \<and>
                                 sl_readers s \<noteq> UINT32_MAX - 1) M of
              None \<Rightarrow> (Inl kNotFound, M)
            | Some i \<Rightarrow> (Inr i, set_slot i (\<lambda>s. s\<lparr>sl_readers := sl_readers s + 1\<rparr>) M)))"

definition UnlockSlot :: "nat \<Rightarrow> AllocatorMemory \<Rightarrow> AllocatorMemory" where
  "UnlockSlot i M = set_slot i (\<lambda>s. s\<lparr>sl_readers := sl_readers s - 1\<rparr>) M"

definition Describe :: "SharedExtentAllocator \<Rightarrow> AllocatorMemory \<Rightarrow> GlobalPointer \<Rightarrow> AllocationInfo Result \<times> AllocatorMemory" where
  "Describe A M object =
     (case LockAllocationSlot A M object of
        (Inl st, M1) \<Rightarrow> (Inl st, M1)
      | (Inr i, M1) \<Rightarrow>
          (case FindDescriptorLocked A M1 object False of
             Inl st \<Rightarrow> Inl st
           | Inr d \<Rightarrow> if ad_state d \<noteq> ObjectAllocated then Inl kNotFound
               else Inr \<lparr>ai_gptr = object, ai_bytes = ad_bytes d, ai_alignment = ad_alignment d, ai_owner_host = ad_owner_host d,
                 ai_coherence_block_bytes = ad_coherence_block_bytes d, ai_coherence_block_count = ad_coherence_block_count d,
                 ai_coherence_metadata_offset = ad_coherence_metadata_offset d\<rparr>,
           UnlockSlot i M1))"

definition MutableDescriptor :: "SharedExtentAllocator \<Rightarrow> AllocatorMemory \<Rightarrow> GlobalPointer \<Rightarrow> bool \<Rightarrow> AllocationDescriptor Result \<times> AllocatorMemory" where
  "MutableDescriptor A M object allow_retiring =
     (case LockAllocationSlot A M object of
        (Inl st, M1) \<Rightarrow> (Inl st, M1)
      | (Inr i, M1) \<Rightarrow> (FindDescriptorLocked A M1 object allow_retiring, UnlockSlot i M1))"

definition OwningHost :: "SharedExtentAllocator \<Rightarrow> AllocatorMemory \<Rightarrow> GlobalPointer \<Rightarrow> HostId Result \<times> AllocatorMemory" where
  "OwningHost A M object =
     (case Describe A M object of (Inl st, M1) \<Rightarrow> (Inl st, M1) | (Inr info, M1) \<Rightarrow> (Inr (ai_owner_host info), M1))"

definition AcquireReference :: "SharedExtentAllocator \<Rightarrow> AllocatorMemory \<Rightarrow> GlobalPointer \<Rightarrow> HostId \<Rightarrow> bool \<Rightarrow> u64 Result \<times> AllocatorMemory" where
  "AcquireReference A M object host allow_retiring =
     (if kMaxHosts \<le> unat host then (Inl kInvalidArgument, M)
      else (case LockAllocationSlot A M object of
        (Inl st, M1) \<Rightarrow> (Inl st, M1)
      | (Inr i, M1) \<Rightarrow>
          (case FindDescriptorLocked A M1 object allow_retiring of
             Inl st \<Rightarrow> (Inl st, UnlockSlot i M1)
           | Inr d \<Rightarrow>
               if ad_state d \<noteq> ObjectAllocated \<and> \<not> (allow_retiring \<and> ad_state d = ObjectRetiring)
               then (Inl kFailedPrecondition, UnlockSlot i M1)
               else if ad_sealed_hosts d AND host_bit host \<noteq> 0 then (Inl kFailedPrecondition, UnlockSlot i M1)
               else (Inr (gp_offset object), UnlockSlot i (set_descriptor (gp_offset object)
                      (\<lambda>d. d\<lparr>ad_active_operations := (ad_active_operations d)(host := ad_active_operations d host + 1)\<rparr>) M1)))))"

text \<open>The descriptor pointer a reference holds is the offset of its object.\<close>

definition ReleaseReference :: "AllocatorMemory \<Rightarrow> u64 \<Rightarrow> HostId \<Rightarrow> Status \<times> AllocatorMemory" where
  "ReleaseReference M off host =
     (if kMaxHosts \<le> unat host then (kInvalidArgument, M)
      else if ad_active_operations (descriptors M off) host = 0 then (kFailedPrecondition, M)
      else (kOk, set_descriptor off
             (\<lambda>d. d\<lparr>ad_active_operations := (ad_active_operations d)(host := ad_active_operations d host - 1)\<rparr>) M))"

definition MutableCoherenceBlock :: "SharedExtentAllocator \<Rightarrow> AllocatorMemory \<Rightarrow> GlobalPointer \<Rightarrow> u64 \<Rightarrow> bool \<Rightarrow> u64 Result \<times> AllocatorMemory" where
  "MutableCoherenceBlock A M gptr block_index allow_retiring =
     (case MutableDescriptor A M gptr allow_retiring of
        (Inl st, M1) \<Rightarrow> (Inl st, M1)
      | (Inr d, M1) \<Rightarrow>
          if ad_coherence_block_count d \<le> block_index then (Inl kInvalidArgument, M1)
          else (case coherence_header A of
              None \<Rightarrow> (Inl kFailedPrecondition, M1)
            | Some c \<Rightarrow>
                if ad_coherence_metadata_offset d = 0 then (Inl kFailedPrecondition, M1)
                else let offset = ad_coherence_metadata_offset d + block_index * sizeof_CoherenceBlockDescriptor;
                         e = cr_region_offset c + cr_region_bytes c in
                  if offset < cr_region_offset c \<or> e < offset \<or> e - offset < sizeof_CoherenceBlockDescriptor
                  then (Inl kFailedPrecondition, M1) else (Inr offset, M1)))"

section \<open>Allocation\<close>

definition new_descriptor :: "SharedExtentAllocator \<Rightarrow> AllocationOptions \<Rightarrow> u64 \<Rightarrow> u64 \<Rightarrow> u64 \<Rightarrow> u64 \<Rightarrow> u64 \<Rightarrow> u64 \<Rightarrow> u64 \<Rightarrow> AllocationDescriptor" where
  "new_descriptor A opts block_bytes block_count object_offset data_offset data_bytes coherence_offset coherence_bytes =
     default_descriptor\<lparr>ad_magic := kAllocationMagic, ad_owner_host := local_host A, ad_object_offset := object_offset,
       ad_bytes := ao_bytes opts, ad_alignment := ao_alignment opts, ad_coherence_block_bytes := block_bytes,
       ad_coherence_block_count := block_count, ad_coherence_metadata_offset := coherence_offset,
       ad_data_extent_offset := data_offset, ad_data_extent_bytes := data_bytes,
       ad_coherence_extent_bytes := coherence_bytes, ad_state := ObjectAllocated\<rparr>"

definition fresh_block :: "HostId \<Rightarrow> CoherenceBlockDescriptor" where
  "fresh_block host = default_block\<lparr>token_owner := ucast host, cb_version := 0, token_epoch := 1, writeback_epoch := 0\<rparr>"

text \<open>The loop over \<^verbatim>\<open>blocks[index]\<close>: one descriptor every \<^verbatim>\<open>sizeof\<close> bytes.\<close>

fun write_blocks :: "nat \<Rightarrow> HostId \<Rightarrow> u64 \<Rightarrow> (u64 \<Rightarrow> CoherenceBlockDescriptor) \<Rightarrow> u64 \<Rightarrow> CoherenceBlockDescriptor" where
  "write_blocks 0 host offset bs = bs"
| "write_blocks (Suc n) host offset bs =
     write_blocks n host (offset + sizeof_CoherenceBlockDescriptor) (bs(offset := fresh_block host))"

definition Allocate :: "SharedExtentAllocator \<Rightarrow> AllocatorMemory \<Rightarrow> AllocationOptions \<Rightarrow> (GlobalPointer Result \<times> AllocatorMemory) option" where
  "Allocate A M opts =
     (let bytes = ao_bytes opts; alignment = ao_alignment opts in
      if \<not> initialized A then Some (Inl kFailedPrecondition, M)
      else if bytes = 0 then Some (Inl kInvalidArgument, M)
      else if alignment = 0 \<or> alignment AND (alignment - 1) \<noteq> 0 then Some (Inl kInvalidArgument, M)
      else let block_bytes = (if ao_coherence_block_bytes opts = 0 then default_block_bytes A else ao_coherence_block_bytes opts) in
        if block_bytes < 64 \<or> block_bytes AND (block_bytes - 1) \<noteq> 0 then Some (Inl kInvalidArgument, M)
        else let block_count = 1 + (bytes - 1) div block_bytes in
          if UINT64_MAX div sizeof_CoherenceBlockDescriptor < block_count then Some (Inl kInvalidArgument, M)
          else if coherence_header A = None then Some (Inl kFailedPrecondition, M)
          else if UINT64_MAX - sizeof_AllocationDescriptor - (alignment - 1) < bytes then Some (Inl kInvalidArgument, M)
          else let data_extent_bytes = sizeof_AllocationDescriptor + bytes + alignment - 1;
                   coherence_extent_bytes = block_count * sizeof_CoherenceBlockDescriptor in
            (case first_slot (\<lambda>s. sl_object_offset s = 0 \<and> sl_readers s = 0) M of
               None \<Rightarrow> Some (Inl kUnavailable, M)
             | Some i \<Rightarrow>
                 let M1 = set_slot i (\<lambda>s. s\<lparr>sl_readers := UINT32_MAX\<rparr>) M;
                     free_slot = set_slot i (\<lambda>s. s\<lparr>sl_readers := 0\<rparr>) in
                 (case AllocateExtentLocked DataPool data_extent_bytes alignof_descriptor (extents (header M1)) of
                    None \<Rightarrow> None
                  | Some (Inl st, t1) \<Rightarrow> Some (Inl st, free_slot (set_extents t1 M1))
                  | Some (Inr data_extent, t1) \<Rightarrow>
                      (case AllocateExtentLocked CoherencePool coherence_extent_bytes alignof_descriptor t1 of
                         None \<Rightarrow> None
                       | Some (Inl st, t2) \<Rightarrow>
                           (case FreeExtentLocked DataPool data_extent data_extent_bytes t2 of
                              None \<Rightarrow> None
                            | Some (_, t3) \<Rightarrow> Some (Inl st, free_slot (set_extents t3 M1)))
                       | Some (Inr coherence_extent, t2) \<Rightarrow>
                           let object_offset = AlignUp (data_extent + sizeof_AllocationDescriptor) alignment;
                               d = new_descriptor A opts block_bytes block_count object_offset data_extent data_extent_bytes
                                     coherence_extent coherence_extent_bytes;
                               M2 = (set_descriptor object_offset (\<lambda>_. d) (set_extents t2 M1))
                                      \<lparr>coherence_blocks := write_blocks (unat block_count) (local_host A) coherence_extent (coherence_blocks M1)\<rparr>;
                               M3 = set_slot i (\<lambda>s. s\<lparr>sl_object_offset := object_offset\<rparr>) M2
                           in Some (Inr \<lparr>region_id = 0, gp_offset = object_offset\<rparr>, free_slot M3)))))"

section \<open>Retirement and reclamation\<close>

definition BeginRetire :: "SharedExtentAllocator \<Rightarrow> AllocatorMemory \<Rightarrow> GlobalPointer \<Rightarrow> u16 \<Rightarrow> RetirementSnapshot Result \<times> AllocatorMemory" where
  "BeginRetire A M object hosts =
     (let r = retirement (header M); c = current r in
      if hosts = 0 \<or> kMaxHosts < unat hosts then (Inl kInvalidArgument, M)
      else if rs_phase c \<noteq> kIdle
      then (if rs_object c = object \<and> rs_coordinator c = local_host A then Inr c else Inl kUnavailable, M)
      else (case FindDescriptorLocked A M object False of
              Inl st \<Rightarrow> (Inl st, M)
            | Inr d \<Rightarrow>
                if ad_owner_host d \<noteq> local_host A then (Inl kFailedPrecondition, M)
                else if rs_sequence c = UINT64_MAX then (Inl kUnavailable, M)
                else let c' = \<lparr>rs_phase = kClosing, rs_object = object, rs_sequence = rs_sequence c + 1,
                               rs_coordinator = local_host A, rs_host_count = hosts\<rparr>
                     in (Inr c', set_descriptor (gp_offset object) (\<lambda>d. d\<lparr>ad_state := ObjectRetiring\<rparr>)
                          (set_retirement (r\<lparr>current := c', closed := 0, drained := 0, cleaned := 0\<rparr>) M))))"

definition Retirement :: "AllocatorMemory \<Rightarrow> RetirementSnapshot" where
  "Retirement M = current (retirement (header M))"

definition IsRetiring :: "SharedExtentAllocator \<Rightarrow> AllocatorMemory \<Rightarrow> GlobalPointer \<Rightarrow> bool \<times> AllocatorMemory" where
  "IsRetiring A M object =
     (case LockAllocationSlot A M object of
        (Inl st, M1) \<Rightarrow> (False, M1)
      | (Inr i, M1) \<Rightarrow>
          (case FindDescriptorLocked A M1 object True of Inl st \<Rightarrow> False | Inr d \<Rightarrow> ad_state d = ObjectRetiring, UnlockSlot i M1))"

definition phase_mask :: "RetirementPhase \<Rightarrow> RetirementControl \<Rightarrow> u64" where
  "phase_mask ph r = (if ph = kClosing then closed r else if ph = kDraining then drained r else cleaned r)"

definition RetirementAcknowledged :: "AllocatorMemory \<Rightarrow> RetirementSnapshot \<Rightarrow> HostId \<Rightarrow> bool" where
  "RetirementAcknowledged M t host =
     (let r = retirement (header M) in
      rs_sequence (current r) \<noteq> rs_sequence t \<or> rs_phase (current r) \<noteq> rs_phase t \<or>
      phase_mask (rs_phase t) r AND host_bit host \<noteq> 0)"

definition set_phase :: "RetirementPhase \<Rightarrow> RetirementControl \<Rightarrow> RetirementControl" where
  "set_phase ph r = r\<lparr>current := (current r)\<lparr>rs_phase := ph\<rparr>\<rparr>"

definition AcknowledgeRetirement :: "SharedExtentAllocator \<Rightarrow> AllocatorMemory \<Rightarrow> RetirementSnapshot \<Rightarrow> HostId \<Rightarrow> (HostId \<Rightarrow> u64) \<Rightarrow> Status \<times> AllocatorMemory" where
  "AcknowledgeRetirement A M t host cursors =
     (let r = retirement (header M) in
      if rs_sequence (current r) \<noteq> rs_sequence t \<or> rs_phase (current r) \<noteq> rs_phase t \<or> rs_host_count t \<le> host
      then (kFailedPrecondition, M)
      else let b = host_bit host; all = all_hosts (rs_host_count t) in
        (case rs_phase t of
           kClosing \<Rightarrow>
             (case FindDescriptorLocked A M (rs_object t) True of
                Inl st \<Rightarrow> (st, M)
              | Inr d \<Rightarrow>
                  if ad_active_operations d host \<noteq> 0 then (kUnavailable, M)
                  else let r1 = r\<lparr>watermarks := (watermarks r)(host := cursors), closed := closed r OR b\<rparr>;
                           r2 = (if closed r1 = all then set_phase kDraining r1 else r1)
                       in (kOk, set_retirement r2
                            (set_descriptor (gp_offset (rs_object t)) (\<lambda>d. d\<lparr>ad_sealed_hosts := ad_sealed_hosts d OR b\<rparr>) M)))
         | kDraining \<Rightarrow>
             if \<exists>producer \<in> set (hosts_below (rs_host_count t)). producer \<noteq> host \<and> cursors producer < watermarks r producer host
             then (kUnavailable, M)
             else let r1 = r\<lparr>drained := drained r OR b\<rparr>
                  in (kOk, set_retirement (if drained r1 = all then set_phase kCleaning r1 else r1) M)
         | kCleaning \<Rightarrow>
             let r1 = r\<lparr>cleaned := cleaned r OR b\<rparr>
             in (kOk, set_retirement (if cleaned r1 = all then set_phase kReclaimable r1 else r1) M)
         | _ \<Rightarrow> (kOk, M)))"

definition available_nodes :: "ExtentTable \<Rightarrow> nat \<Rightarrow> nat" where
  "available_nodes t capacity = length (filter (\<lambda>i. en_state (extent_nodes t (of_nat i)) = kUnused) [0..<capacity])"

definition Free :: "SharedExtentAllocator \<Rightarrow> AllocatorMemory \<Rightarrow> GlobalPointer \<Rightarrow> (Status \<times> AllocatorMemory) option" where
  "Free A M gptr =
     (let c = current (retirement (header M)) in
      if rs_phase c \<noteq> kReclaimable \<or> rs_object c \<noteq> gptr \<or> rs_coordinator c \<noteq> local_host A then Some (kFailedPrecondition, M)
      else (case first_slot (\<lambda>s. sl_object_offset s = gp_offset gptr) M of
              None \<Rightarrow> Some (kNotFound, M)
            | Some i \<Rightarrow>
                if sl_readers (allocations (header M) ! i) \<noteq> 0 then Some (kUnavailable, M)
                else let M1 = set_slot i (\<lambda>s. s\<lparr>sl_readers := UINT32_MAX\<rparr>) M;
                         free_slot = set_slot i (\<lambda>s. s\<lparr>sl_readers := 0\<rparr>) in
                  (case FindDescriptorLocked A M1 gptr True of
                     Inl st \<Rightarrow> Some (st, free_slot M1)
                   | Inr d \<Rightarrow>
                       if ad_replica_hosts d \<noteq> 0 then Some (kUnavailable, free_slot M1)
                       else if \<exists>h \<in> set (hosts_below (of_nat kMaxHosts)). ad_active_operations d h \<noteq> 0 then Some (kUnavailable, free_slot M1)
                       else if available_nodes (extents (header M1)) (ah_extent_node_capacity (header M1)) < 2 then Some (kUnavailable, free_slot M1)
                       else (case FreeExtentLocked DataPool (ad_data_extent_offset d) (ad_data_extent_bytes d) (extents (header M1)) of
                               None \<Rightarrow> None
                             | Some (st, t1) \<Rightarrow>
                                 if st \<noteq> kOk then Some (st, free_slot (set_extents t1 M1))
                                 else (case FreeExtentLocked CoherencePool (ad_coherence_metadata_offset d) (ad_coherence_extent_bytes d) t1 of
                                         None \<Rightarrow> None
                                       | Some (st, t2) \<Rightarrow>
                                           let M2 = set_extents t2 M1;
                                               M3 = (if st = kOk
                                                     then set_retirement (set_phase kIdle (retirement (header M2)))
                                                       (set_slot i (\<lambda>s. s\<lparr>sl_object_offset := 0\<rparr>)
                                                         (set_descriptor (gp_offset gptr) (\<lambda>d. d\<lparr>ad_state := ObjectEmpty, ad_magic := 0\<rparr>) M2))
                                                     else M2)
                                           in Some (st, free_slot M3))))))"

end
