(* ===== verification/Cx_Allocator_Heap.thy ===== *)
theory Cx_Allocator_Heap
  imports Cx_Allocator
begin

text \<open>
  The heap invariant of the shared allocator: the discovery slots name the live objects, each live object
  has a descriptor with its blocks, and the free addresses of the two pools together with the blocks of
  the live objects partition the two regions.  Allocation and reclamation keep it.  The proofs use the
  extent tables only through the interface \<^const>\<open>extent_pools\<close>.
\<close>

section \<open>The heap invariant\<close>

definition slots :: "AllocatorMemory \<Rightarrow> AllocationSlot list" where
  "slots M = allocations (header M)"

definition live :: "AllocatorMemory \<Rightarrow> u64 set" where
  "live M = sl_object_offset ` set (slots M) - {0}"

definition data_block :: "AllocationDescriptor \<Rightarrow> nat set" where
  "data_block d = block (ad_data_extent_offset d) (ad_data_extent_bytes d)"

definition coherence_block :: "AllocationDescriptor \<Rightarrow> nat set" where
  "coherence_block d = block (ad_coherence_metadata_offset d) (ad_coherence_extent_bytes d)"

text \<open>A live object and its descriptor lie inside the data block that was allocated for it.\<close>

definition object_ok :: "u64 \<Rightarrow> AllocationDescriptor \<Rightarrow> bool" where
  "object_ok off d \<longleftrightarrow> ad_magic d = kAllocationMagic \<and> ad_state d \<noteq> ObjectEmpty \<and> ad_object_offset d = off \<and> ad_bytes d \<noteq> 0 \<and>
     unat (ad_owner_host d) < kMaxHosts \<and> unat (ad_alignment d) dvd unat off \<and> (unat off - 640) mod 64 = 0 \<and>
     unat (ad_data_extent_offset d) + 640 \<le> unat off \<and>
     unat off + unat (ad_bytes d) \<le> unat (ad_data_extent_offset d) + unat (ad_data_extent_bytes d) \<and>
     unat (ad_data_extent_offset d) + unat (ad_data_extent_bytes d) < 2 ^ 64 \<and> ad_coherence_extent_bytes d \<noteq> 0 \<and>
     unat (ad_coherence_metadata_offset d) + unat (ad_coherence_extent_bytes d) < 2 ^ 64 \<and>
     ad_coherence_block_count d \<noteq> 0 \<and> unat (ad_coherence_extent_bytes d) = unat (ad_coherence_block_count d) * 576 \<and>
     unat (ad_bytes d) \<le> unat (ad_coherence_block_count d) * unat (ad_coherence_block_bytes d)"

definition slots_ok :: "AllocatorMemory \<Rightarrow> bool" where
  "slots_ok M \<longleftrightarrow> (\<forall>s \<in> set (slots M). sl_readers s = 0) \<and>
     (\<forall>i < length (slots M). \<forall>j < length (slots M). sl_object_offset (slots M ! i) = sl_object_offset (slots M ! j) \<longrightarrow>
        sl_object_offset (slots M ! i) \<noteq> 0 \<longrightarrow> i = j)"

text \<open>A family of blocks and the free set share out a region.\<close>

definition shared_out :: "nat set \<Rightarrow> nat set \<Rightarrow> u64 set \<Rightarrow> (u64 \<Rightarrow> nat set) \<Rightarrow> bool" where
  "shared_out R F I B \<longleftrightarrow> R = F \<union> (\<Union>i \<in> I. B i) \<and> (\<forall>i \<in> I. B i \<inter> F = {}) \<and> (\<forall>i \<in> I. \<forall>j \<in> I. i \<noteq> j \<longrightarrow> B i \<inter> B j = {})"

definition heap_ok :: "nat set \<Rightarrow> nat set \<Rightarrow> AllocatorMemory \<Rightarrow> bool" where
  "heap_ok D C M \<longleftrightarrow> extents_wf (extents (header M)) \<and> ah_extent_node_capacity (header M) = kMaxSharedExtentNodes \<and>
     slots_ok M \<and> (\<forall>off \<in> live M. object_ok off (descriptors M off)) \<and>
     (\<forall>off. off \<notin> live M \<longrightarrow> ad_state (descriptors M off) = ObjectEmpty) \<and>
     shared_out D (free_addresses (extents (header M)) DataPool) (live M) (\<lambda>off. data_block (descriptors M off)) \<and>
     shared_out C (free_addresses (extents (header M)) CoherencePool) (live M) (\<lambda>off. coherence_block (descriptors M off))"

lemma shared_out_add:
  assumes "shared_out R F I B" and "b \<subseteq> F" and "i \<notin> I"
  shows "shared_out R (F - b) (insert i I) (B(i := b))"
proof -
  have B: "(B(i := b)) j = B j" if "j \<in> I" for j using that assms(3) by auto
  have "b \<inter> B j = {}" if "j \<in> I" for j using that assms(1,2) by (auto simp: shared_out_def)
  then show ?thesis using assms unfolding shared_out_def by (auto simp: B)
qed

lemma shared_out_drop:
  assumes "shared_out R F I B" and "i \<in> I"
  shows "shared_out R (F \<union> B i) (I - {i}) B"
  using assms unfolding shared_out_def by blast

lemma shared_out_cong: "(\<And>i. i \<in> I \<Longrightarrow> B' i = B i) \<Longrightarrow> shared_out R F I B' = shared_out R F I B"
  by (simp add: shared_out_def)

lemma object_in_block: "object_ok off d \<Longrightarrow> unat off \<in> data_block d"
  using unat_gt_0 [of "ad_bytes d"] by (auto simp: object_ok_def data_block_def block_def)

section \<open>Updates of the memory\<close>

lemma set_simps [simp]:
  "header (set_descriptor off f M) = header M" "coherence_blocks (set_descriptor off f M) = coherence_blocks M"
  "descriptors (set_slot i g M) = descriptors M" "coherence_blocks (set_slot i g M) = coherence_blocks M"
  "descriptors (set_extents t M) = descriptors M" "descriptors (set_retirement r M) = descriptors M"
  "extents (header (set_slot i g M)) = extents (header M)" "retirement (header (set_slot i g M)) = retirement (header M)"
  "ah_extent_node_capacity (header (set_slot i g M)) = ah_extent_node_capacity (header M)"
  "extents (header (set_extents t M)) = t" "retirement (header (set_extents t M)) = retirement (header M)"
  "ah_extent_node_capacity (header (set_extents t M)) = ah_extent_node_capacity (header M)"
  "extents (header (set_retirement r M)) = extents (header M)" "retirement (header (set_retirement r M)) = r"
  "ah_extent_node_capacity (header (set_retirement r M)) = ah_extent_node_capacity (header M)"
  "descriptors (set_descriptor off f M) = (descriptors M)(off := f (descriptors M off))"
  by (simp_all add: set_descriptor_def set_slot_def set_extents_def set_retirement_def)

lemma slots_simps [simp]:
  "slots (set_descriptor off f M) = slots M" "slots (set_extents t M) = slots M" "slots (set_retirement r M) = slots M"
  "slots (set_slot i g M) = (slots M)[i := g (slots M ! i)]" "slots (M\<lparr>coherence_blocks := b\<rparr>) = slots M"
  "slots (M\<lparr>descriptors := ds\<rparr>) = slots M"
  by (simp_all add: slots_def set_descriptor_def set_slot_def set_extents_def set_retirement_def)

lemma live_simps [simp]:
  "live (set_descriptor off f M) = live M" "live (set_extents t M) = live M" "live (set_retirement r M) = live M"
  "live (M\<lparr>coherence_blocks := b\<rparr>) = live M"
  by (simp_all add: live_def)

lemma slots_ok_simps [simp]:
  "slots_ok (set_descriptor off f M) = slots_ok M" "slots_ok (set_extents t M) = slots_ok M"
  "slots_ok (set_retirement r M) = slots_ok M" "slots_ok (M\<lparr>coherence_blocks := b\<rparr>) = slots_ok M"
  by (simp_all add: slots_ok_def)

text \<open>Taking a slot and giving it back.\<close>

lemma set_slot_set_slot: "set_slot i f (set_slot i g M) = set_slot i (f \<circ> g) M" if "i < length (slots M)"
  using that by (simp add: set_slot_def slots_def)

lemma set_slot_commute:
  "set_slot i f (set_extents t M) = set_extents t (set_slot i f M)"
  "set_slot i f (set_descriptor off g M) = set_descriptor off g (set_slot i f M)"
  "set_slot i f (M\<lparr>coherence_blocks := b\<rparr>) = (set_slot i f M)\<lparr>coherence_blocks := b\<rparr>"
  "set_slot i f (set_retirement r M) = set_retirement r (set_slot i f M)"
  by (simp_all add: set_slot_def set_extents_def set_descriptor_def set_retirement_def)

lemma set_descriptor_blocks:
  "set_descriptor off f (M\<lparr>coherence_blocks := b\<rparr>) = (set_descriptor off f M)\<lparr>coherence_blocks := b\<rparr>"
  by (simp add: set_descriptor_def)

lemma set_slot_id: "i < length (slots M) \<Longrightarrow> f (slots M ! i) = slots M ! i \<Longrightarrow> set_slot i f M = M"
  by (simp add: set_slot_def slots_def)

lemma first_slot_Some:
  "first_slot P M = Some i \<Longrightarrow> i < length (slots M) \<and> P (slots M ! i)"
  by (auto simp: first_slot_def slots_def Let_def find_Some_iff)

lemma first_slot_None: "first_slot P M = None \<longleftrightarrow> (\<forall>s \<in> set (slots M). \<not> P s)"
  by (simp add: first_slot_def slots_def Let_def find_None_iff all_set_conv_all_nth)

lemma UnlockSlot_lock:
  assumes "i < length (slots M)"
  shows "UnlockSlot i (set_slot i (\<lambda>s. s\<lparr>sl_readers := sl_readers s + 1\<rparr>) M) = M"
  unfolding UnlockSlot_def using assms by (subst set_slot_set_slot) (auto simp: set_slot_id)

text \<open>Two ways to read the lock of a slot: its outcome, and that unlocking restores the memory.\<close>

lemma LockAllocationSlot_cases:
  obtains st where "LockAllocationSlot A M object = (Inl st, M)" "st \<noteq> kOk"
  | i where "LockAllocationSlot A M object = (Inr i, set_slot i (\<lambda>s. s\<lparr>sl_readers := sl_readers s + 1\<rparr>) M)"
    "initialized A" "region_id object = 0" "gp_offset object \<in> live M" "i < length (slots M)"
proof (cases "initialized A \<and> region_id object = 0 \<and> gp_offset object \<noteq> 0")
  case False
  then show thesis by (intro that(1) [of "if \<not> initialized A then kFailedPrecondition else kInvalidArgument"]) (auto simp: LockAllocationSlot_def)
next
  case True
  let ?P = "\<lambda>s. sl_object_offset s = gp_offset object \<and> sl_readers s \<noteq> UINT32_MAX \<and> sl_readers s \<noteq> UINT32_MAX - 1"
  show thesis
  proof (cases "first_slot ?P M")
    case None
    then show thesis using True by (intro that(1) [of kNotFound]) (auto simp: LockAllocationSlot_def)
  next
    case (Some i)
    have i: "i < length (slots M)" "sl_object_offset (slots M ! i) = gp_offset object" using first_slot_Some [OF Some] by auto
    then have "gp_offset object \<in> live M" using True nth_mem [OF i(1)] by (auto simp: live_def intro!: image_eqI [of _ _ "slots M ! i"])
    then show thesis using True Some i(1) by (intro that(2)) (auto simp: LockAllocationSlot_def)
  qed
qed

lemma LockAllocationSlot_live:
  assumes "initialized A" "region_id object = 0" "gp_offset object \<in> live M" "slots_ok M"
  shows "\<exists>i. LockAllocationSlot A M object = (Inr i, set_slot i (\<lambda>s. s\<lparr>sl_readers := sl_readers s + 1\<rparr>) M) \<and> i < length (slots M)"
proof -
  obtain s where s: "s \<in> set (slots M)" "sl_object_offset s = gp_offset object" "gp_offset object \<noteq> 0"
    using assms(3) by (auto simp: live_def)
  then have "sl_readers s = 0" using assms(4) by (simp add: slots_ok_def)
  then have "first_slot (\<lambda>s. sl_object_offset s = gp_offset object \<and> sl_readers s \<noteq> UINT32_MAX \<and> sl_readers s \<noteq> UINT32_MAX - 1) M \<noteq> None"
    using s by (auto simp: first_slot_None)
  then obtain i where i: "first_slot (\<lambda>s. sl_object_offset s = gp_offset object \<and> sl_readers s \<noteq> UINT32_MAX \<and> sl_readers s \<noteq> UINT32_MAX - 1) M = Some i"
    by blast
  then show ?thesis using assms(1,2) s(3) first_slot_Some [OF i] by (auto simp: LockAllocationSlot_def)
qed

lemma FindDescriptorLocked_cong: "descriptors M' = descriptors M \<Longrightarrow> FindDescriptorLocked A M' g b = FindDescriptorLocked A M g b"
  by (simp add: FindDescriptorLocked_def Let_def)

lemma FindDescriptorLocked_Inr:
  assumes "FindDescriptorLocked A M g b = Inr d"
  shows "d = descriptors M (gp_offset g)" "region_id g = 0" "initialized A" "ad_state d = ObjectAllocated \<or> b \<and> ad_state d = ObjectRetiring"
    "ad_object_offset d = gp_offset g"
  using assms by (auto simp: FindDescriptorLocked_def Let_def split: if_splits)

text \<open>Read-only operations leave the memory as it was.\<close>

lemma read_only:
  "snd (Describe A M g) = M" "snd (MutableDescriptor A M g b) = M" "snd (OwningHost A M g) = M" "snd (IsRetiring A M g) = M"
  "snd (MutableCoherenceBlock A M g n b) = M"
proof -
  show d: "snd (Describe A M g) = M" and m: "snd (MutableDescriptor A M g b) = M" and "snd (IsRetiring A M g) = M"
    by (rule LockAllocationSlot_cases [of A M g]; simp add: Describe_def MutableDescriptor_def IsRetiring_def UnlockSlot_lock)+
  show "snd (OwningHost A M g) = M" using d by (auto simp: OwningHost_def split: prod.splits sum.splits)
  show "snd (MutableCoherenceBlock A M g n b) = M"
    using m by (auto simp: MutableCoherenceBlock_def Let_def split: prod.splits sum.splits option.splits)
qed

section \<open>Allocation\<close>

text \<open>The argument checks of \<^verbatim>\<open>Allocate\<close>, and the sizes that pass them.\<close>

definition block_bytes_of :: "SharedExtentAllocator \<Rightarrow> AllocationOptions \<Rightarrow> u64" where
  "block_bytes_of A opts = (if ao_coherence_block_bytes opts = 0 then default_block_bytes A else ao_coherence_block_bytes opts)"

definition block_count_of :: "SharedExtentAllocator \<Rightarrow> AllocationOptions \<Rightarrow> u64" where
  "block_count_of A opts = 1 + (ao_bytes opts - 1) div block_bytes_of A opts"

definition data_bytes_of :: "AllocationOptions \<Rightarrow> u64" where
  "data_bytes_of opts = sizeof_AllocationDescriptor + ao_bytes opts + ao_alignment opts - 1"

definition coherence_bytes_of :: "SharedExtentAllocator \<Rightarrow> AllocationOptions \<Rightarrow> u64" where
  "coherence_bytes_of A opts = block_count_of A opts * sizeof_CoherenceBlockDescriptor"

definition request_ok :: "SharedExtentAllocator \<Rightarrow> AllocationOptions \<Rightarrow> bool" where
  "request_ok A opts \<longleftrightarrow> initialized A \<and> ao_bytes opts \<noteq> 0 \<and> ao_alignment opts \<noteq> 0 \<and>
     ao_alignment opts AND (ao_alignment opts - 1) = 0 \<and> 64 \<le> block_bytes_of A opts \<and>
     block_bytes_of A opts AND (block_bytes_of A opts - 1) = 0 \<and>
     block_count_of A opts \<le> UINT64_MAX div sizeof_CoherenceBlockDescriptor \<and> coherence_header A \<noteq> None \<and>
     ao_bytes opts \<le> UINT64_MAX - sizeof_AllocationDescriptor - (ao_alignment opts - 1)"

lemma request_values:
  assumes "request_ok A opts"
  obtains k where "k < 64" "ao_alignment opts = 2 ^ k" "unat (ao_alignment opts) = 2 ^ k"
    "unat (data_bytes_of opts) = 640 + unat (ao_bytes opts) + 2 ^ k - 1"
    "data_bytes_of opts \<noteq> 0"
    "block_count_of A opts \<noteq> 0" "unat (coherence_bytes_of A opts) = unat (block_count_of A opts) * 576" "coherence_bytes_of A opts \<noteq> 0"
    "unat (ao_bytes opts) \<le> unat (block_count_of A opts) * unat (block_bytes_of A opts)"
proof -
  let ?b = "unat (ao_bytes opts)" and ?bb = "unat (block_bytes_of A opts)" and ?n = "unat (block_count_of A opts)"
  obtain k where k: "k < 64" "ao_alignment opts = 2 ^ k" "unat (ao_alignment opts) = 2 ^ k"
    using u64_and_pred_pow2 [of "ao_alignment opts"] assms by (auto simp: request_ok_def)
  have le: "(2::nat) ^ k \<le> 2 ^ 63" using k(1) by (intro power_increasing) auto
  have b: "0 < ?b" using assms by (simp add: request_ok_def unat_gt_0)
  have m1: "unat (ao_alignment opts - 1) = 2 ^ k - 1"
    using k(3) unat_sub_no_wrap [of 1 "ao_alignment opts"] by (simp add: word_le_nat_alt)
  have "unat (UINT64_MAX - sizeof_AllocationDescriptor - (ao_alignment opts - 1)) = 2 ^ 64 - 1 - 640 - (2 ^ k - 1)"
    using m1 le unat_sub_no_wrap [of "ao_alignment opts - 1" "UINT64_MAX - sizeof_AllocationDescriptor"]
    by (simp add: word_le_nat_alt sizeof_AllocationDescriptor_def)
  then have small: "?b + 640 + 2 ^ k - 1 < 2 ^ 64"
    using assms le by (simp add: request_ok_def word_le_nat_alt) linarith
  have tight: "?b + 640 < 2 ^ 64" using small by (metis (no_types, lifting) add_diff_assoc add_lessD1 one_le_numeral one_le_power)
  have d1: "unat (sizeof_AllocationDescriptor + ao_bytes opts) = 640 + ?b"
    using tight by (subst unat_add_no_wrap) (auto simp: sizeof_AllocationDescriptor_def)
  have d: "unat (data_bytes_of opts) = 640 + ?b + 2 ^ k - 1"
  proof -
    have e: "data_bytes_of opts = (sizeof_AllocationDescriptor + ao_bytes opts) + (ao_alignment opts - 1)" by (simp add: data_bytes_of_def)
    have one: "(1::nat) \<le> 2 ^ k" by simp
    have "640 + ?b + (2 ^ k - 1) < 2 ^ 64" using one small by linarith
    then have "unat (data_bytes_of opts) = 640 + ?b + (2 ^ k - 1)" unfolding e using d1 m1 by (subst unat_add_no_wrap) simp_all
    then show ?thesis using one by linarith
  qed
  have bb: "64 \<le> ?bb" using assms by (simp add: request_ok_def word_le_nat_alt)
  have b1: "unat (ao_bytes opts - 1) = ?b - 1" using b unat_sub_no_wrap [of 1 "ao_bytes opts"] by (simp add: word_le_nat_alt)
  have q: "unat ((ao_bytes opts - 1) div block_bytes_of A opts) = (?b - 1) div ?bb" by (simp add: unat_div b1)
  have "(?b - 1) div ?bb \<le> (?b - 1) div 64" using bb by (intro div_le_mono2) auto
  then have n: "?n = 1 + (?b - 1) div ?bb"
    unfolding block_count_of_def using q unat_u64_bound [of "ao_bytes opts"] by (subst unat_add_no_wrap) auto
  have "?b \<le> ?n * ?bb"
  proof -
    have "?b - 1 < ((?b - 1) div ?bb + 1) * ?bb" using bb by (metis add.commute dividend_less_times_div le_trans less_le_trans mult.commute plus_1_eq_Suc zero_less_numeral mult_Suc_right)
    then show ?thesis unfolding n using b by (simp add: add.commute)
  qed
  moreover have "?n \<le> 32025597350190193"
    using assms by (simp add: request_ok_def word_le_nat_alt sizeof_CoherenceBlockDescriptor_def)
  then have c: "unat (coherence_bytes_of A opts) = ?n * 576"
    by (simp add: coherence_bytes_of_def sizeof_CoherenceBlockDescriptor_def unat_word_ariths)
  moreover have nz: "block_count_of A opts \<noteq> 0" "coherence_bytes_of A opts \<noteq> 0" using n c by (auto simp: word_unat_eq_iff)
  moreover have "data_bytes_of opts \<noteq> 0" using d b by (auto simp: word_unat_eq_iff)
  ultimately show thesis using k d by (intro that) auto
qed

definition empty_slot :: "AllocationSlot \<Rightarrow> bool" where
  "empty_slot s \<longleftrightarrow> sl_object_offset s = 0 \<and> sl_readers s = 0"

definition finish_allocate ::
  "SharedExtentAllocator \<Rightarrow> AllocationOptions \<Rightarrow> nat \<Rightarrow> u64 \<Rightarrow> u64 \<Rightarrow> ExtentTable \<Rightarrow> AllocatorMemory \<Rightarrow> u64 \<times> AllocatorMemory" where
  "finish_allocate A opts i data_extent coherence_extent t M =
     (let off = AlignUp (data_extent + sizeof_AllocationDescriptor) (ao_alignment opts) in
      (off, set_descriptor off (\<lambda>_. new_descriptor A opts (block_bytes_of A opts) (block_count_of A opts) off data_extent
              (data_bytes_of opts) coherence_extent (coherence_bytes_of A opts))
         ((set_extents t (set_slot i (\<lambda>_. \<lparr>sl_object_offset = off, sl_readers = 0\<rparr>) M))
           \<lparr>coherence_blocks := write_blocks (unat (block_count_of A opts)) (local_host A) coherence_extent (coherence_blocks M)\<rparr>)))"

lemma Allocate_checks:
  "\<not> request_ok A opts \<Longrightarrow> \<exists>st. Allocate A M opts = Some (Inl st, M) \<and> st \<in> {kFailedPrecondition, kInvalidArgument}"
  unfolding Allocate_def Let_def request_ok_def block_count_of_def block_bytes_of_def by (auto simp: not_le)

lemma slot_eq: "(s::AllocationSlot)\<lparr>sl_object_offset := a, sl_readers := b\<rparr> = \<lparr>sl_object_offset = a, sl_readers = b\<rparr>"
  by (cases s) simp

lemma Allocate_run:
  assumes "request_ok A opts"
  shows "Allocate A M opts = (case first_slot empty_slot M of
      None \<Rightarrow> Some (Inl kUnavailable, M)
    | Some i \<Rightarrow> (case AllocateExtentLocked DataPool (data_bytes_of opts) (2 ^ 6) (extents (header M)) of
        None \<Rightarrow> None
      | Some (Inl st, t1) \<Rightarrow> Some (Inl st, set_extents t1 M)
      | Some (Inr de, t1) \<Rightarrow> (case AllocateExtentLocked CoherencePool (coherence_bytes_of A opts) (2 ^ 6) t1 of
          None \<Rightarrow> None
        | Some (Inl st, t2) \<Rightarrow> (case FreeExtentLocked DataPool de (data_bytes_of opts) t2 of
            None \<Rightarrow> None | Some (_, t3) \<Rightarrow> Some (Inl st, set_extents t3 M))
        | Some (Inr ce, t2) \<Rightarrow> (case finish_allocate A opts i de ce t2 M of
            (off, M') \<Rightarrow> Some (Inr \<lparr>region_id = 0, gp_offset = off\<rparr>, M')))))"
proof (cases "first_slot empty_slot M")
  case None
  then show ?thesis using assms unfolding Allocate_def Let_def request_ok_def block_count_of_def block_bytes_of_def empty_slot_def
    by (simp add: not_le [symmetric])
next
  case (Some i)
  have i: "i < length (slots M)" "sl_object_offset (slots M ! i) = 0" "sl_readers (slots M ! i) = 0"
    using first_slot_Some [OF Some] by (auto simp: empty_slot_def)
  have undo: "set_slot i (\<lambda>s. s\<lparr>sl_readers := 0\<rparr>) (set_slot i (\<lambda>s. s\<lparr>sl_readers := UINT32_MAX\<rparr>) M) = M"
    using i by (simp add: set_slot_set_slot set_slot_id)
  have slot: "set_slot i (\<lambda>s. s\<lparr>sl_readers := 0\<rparr>) (set_slot i (\<lambda>s. s\<lparr>sl_object_offset := off\<rparr>) (set_slot i (\<lambda>s. s\<lparr>sl_readers := UINT32_MAX\<rparr>) M)) =
      set_slot i (\<lambda>_. \<lparr>sl_object_offset = off, sl_readers = 0\<rparr>) M" for off
    using i by (simp add: set_slot_def slots_def slot_eq)
  have checks: "(\<not> initialized A) = False" "(ao_bytes opts = 0) = False"
    "(ao_alignment opts = 0 \<or> ao_alignment opts AND (ao_alignment opts - 1) \<noteq> 0) = False"
    "(block_bytes_of A opts < 64 \<or> block_bytes_of A opts AND (block_bytes_of A opts - 1) \<noteq> 0) = False"
    "(UINT64_MAX div sizeof_CoherenceBlockDescriptor < block_count_of A opts) = False" "(coherence_header A = None) = False"
    "(UINT64_MAX - sizeof_AllocationDescriptor - (ao_alignment opts - 1) < ao_bytes opts) = False"
    using assms unfolding request_ok_def not_less [symmetric] by auto
  have a: "alignof_descriptor = 2 ^ 6" by (simp add: alignof_descriptor_def)
  have find: "first_slot (\<lambda>s. sl_object_offset s = 0 \<and> sl_readers s = 0) M = Some i" using Some by (simp add: empty_slot_def [abs_def])
  have "Allocate A M opts = (let M1 = set_slot i (\<lambda>s. s\<lparr>sl_readers := UINT32_MAX\<rparr>) M;
                     free_slot = set_slot i (\<lambda>s. s\<lparr>sl_readers := 0\<rparr>) in
                 (case AllocateExtentLocked DataPool (data_bytes_of opts) alignof_descriptor (extents (header M1)) of
                    None \<Rightarrow> None
                  | Some (Inl st, t1) \<Rightarrow> Some (Inl st, free_slot (set_extents t1 M1))
                  | Some (Inr data_extent, t1) \<Rightarrow>
                      (case AllocateExtentLocked CoherencePool (coherence_bytes_of A opts) alignof_descriptor t1 of
                         None \<Rightarrow> None
                       | Some (Inl st, t2) \<Rightarrow>
                           (case FreeExtentLocked DataPool data_extent (data_bytes_of opts) t2 of
                              None \<Rightarrow> None
                            | Some (_, t3) \<Rightarrow> Some (Inl st, free_slot (set_extents t3 M1)))
                       | Some (Inr coherence_extent, t2) \<Rightarrow>
                           let object_offset = AlignUp (data_extent + sizeof_AllocationDescriptor) (ao_alignment opts);
                               d = new_descriptor A opts (block_bytes_of A opts) (block_count_of A opts) object_offset data_extent (data_bytes_of opts)
                                     coherence_extent (coherence_bytes_of A opts);
                               M2 = (set_descriptor object_offset (\<lambda>_. d) (set_extents t2 M1))
                                      \<lparr>coherence_blocks := write_blocks (unat (block_count_of A opts)) (local_host A) coherence_extent (coherence_blocks M1)\<rparr>;
                               M3 = set_slot i (\<lambda>s. s\<lparr>sl_object_offset := object_offset\<rparr>) M2
                           in Some (Inr \<lparr>region_id = 0, gp_offset = object_offset\<rparr>, free_slot M3))))"
    unfolding Allocate_def Let_def block_bytes_of_def [of A opts, symmetric] block_count_of_def [of A opts, symmetric]
      data_bytes_of_def [of opts, symmetric] coherence_bytes_of_def [of A opts, symmetric]
    by (simp only: checks find if_False option.case)
  also have "\<dots> = (case AllocateExtentLocked DataPool (data_bytes_of opts) (2 ^ 6) (extents (header M)) of
        None \<Rightarrow> None
      | Some (Inl st, t1) \<Rightarrow> Some (Inl st, set_extents t1 M)
      | Some (Inr de, t1) \<Rightarrow> (case AllocateExtentLocked CoherencePool (coherence_bytes_of A opts) (2 ^ 6) t1 of
          None \<Rightarrow> None
        | Some (Inl st, t2) \<Rightarrow> (case FreeExtentLocked DataPool de (data_bytes_of opts) t2 of
            None \<Rightarrow> None | Some (_, t3) \<Rightarrow> Some (Inl st, set_extents t3 M))
        | Some (Inr ce, t2) \<Rightarrow> (case finish_allocate A opts i de ce t2 M of
            (off, M') \<Rightarrow> Some (Inr \<lparr>region_id = 0, gp_offset = off\<rparr>, M'))))"
    unfolding a Let_def finish_allocate_def
    by (simp add: undo set_slot_commute slot set_descriptor_blocks split: option.splits sum.splits)
  finally show ?thesis using Some by simp
qed

lemma heap_set_extents:
  assumes "heap_ok D C M" and "extents_wf t" and "free_addresses t = free_addresses (extents (header M))"
  shows "heap_ok D C (set_extents t M)"
  using assms by (simp add: heap_ok_def)

lemma finish_allocate_ok:
  assumes ok: "heap_ok D C M" and req: "request_ok A opts" and owner: "unat (local_host A) < kMaxHosts"
    and i: "i < length (slots M)" "sl_object_offset (slots M ! i) = 0"
    and de: "64 dvd unat de" "unat de + unat (data_bytes_of opts) < 2 ^ 64"
      "block de (data_bytes_of opts) \<subseteq> free_addresses (extents (header M)) DataPool"
    and ce: "unat ce + unat (coherence_bytes_of A opts) < 2 ^ 64"
      "block ce (coherence_bytes_of A opts) \<subseteq> free_addresses (extents (header M)) CoherencePool"
    and t: "extents_wf t" "free_addresses t = (free_addresses (extents (header M)))
      (DataPool := free_addresses (extents (header M)) DataPool - block de (data_bytes_of opts),
       CoherencePool := free_addresses (extents (header M)) CoherencePool - block ce (coherence_bytes_of A opts))"
    and run: "finish_allocate A opts i de ce t M = (off, M')"
  shows "heap_ok D C M'" "off \<notin> live M" "live M' = insert off (live M)" "object_ok off (descriptors M' off)"
    "descriptors M' = (descriptors M)(off := new_descriptor A opts (block_bytes_of A opts) (block_count_of A opts) off de
        (data_bytes_of opts) ce (coherence_bytes_of A opts))"
    "retirement (header M') = retirement (header M)" "extents (header M') = t"
proof -
  let ?d = "new_descriptor A opts (block_bytes_of A opts) (block_count_of A opts) off de (data_bytes_of opts) ce (coherence_bytes_of A opts)"
  obtain k where k: "k < 64" "ao_alignment opts = 2 ^ k" "unat (ao_alignment opts) = 2 ^ k"
    "unat (data_bytes_of opts) = 640 + unat (ao_bytes opts) + 2 ^ k - 1"
    and c: "block_count_of A opts \<noteq> 0" "unat (coherence_bytes_of A opts) = unat (block_count_of A opts) * 576" "coherence_bytes_of A opts \<noteq> 0"
      "unat (ao_bytes opts) \<le> unat (block_count_of A opts) * unat (block_bytes_of A opts)"
    using request_values [OF req] by metis
  have b: "0 < unat (ao_bytes opts)" using req by (simp add: request_ok_def unat_gt_0)
  have off: "off = AlignUp (de + sizeof_AllocationDescriptor) (ao_alignment opts)"
    and M': "M' = set_descriptor off (\<lambda>_. ?d) ((set_extents t (set_slot i (\<lambda>_. \<lparr>sl_object_offset = off, sl_readers = 0\<rparr>) M))
         \<lparr>coherence_blocks := write_blocks (unat (block_count_of A opts)) (local_host A) ce (coherence_blocks M)\<rparr>)"
    using run by (auto simp: finish_allocate_def Let_def)
  have one: "(1::nat) \<le> 2 ^ k" by simp
  have s: "unat (de + sizeof_AllocationDescriptor) = unat de + 640"
    using de(2) k(4) b one by (subst unat_add_no_wrap) (auto simp: sizeof_AllocationDescriptor_def)
  have o: "unat off = align_nat (2 ^ k) (unat de + 640)"
    unfolding off using AlignUp_value [OF k(1,3), of "de + sizeof_AllocationDescriptor"] s de(2) k(4) b one by auto
  note al = align_nat_least [of "2 ^ k" "unat de + 640"]
  have o1: "unat de + 640 \<le> unat off" "2 ^ k dvd unat off" "unat off < unat de + 640 + 2 ^ k" using al(1-3) o by auto
  have o2: "unat off + unat (ao_bytes opts) \<le> unat de + unat (data_bytes_of opts)" using o1(3) k(4) one by linarith
  have o3: "(unat off - 640) mod 64 = 0"
  proof -
    have "64 dvd unat off"
    proof (cases "6 \<le> k")
      case True
      then have "(2::nat) ^ 6 dvd 2 ^ k" by (rule le_imp_power_dvd)
      then show ?thesis using o1(2) dvd_trans by fastforce
    next
      case False
      then have "(2::nat) ^ k dvd 2 ^ 6" by (intro le_imp_power_dvd) simp
      then have "(2::nat) ^ k dvd unat de + 640" using de(1) by (intro dvd_add) (auto intro: dvd_trans)
      then have "unat off = unat de + 640" using al(4) [of "unat de + 640"] o o1(1) by simp
      then show ?thesis using de(1) by simp
    qed
    then show ?thesis using o1(1) by (simp add: dvd_diff_nat mod_eq_0_iff_dvd)
  qed
  have obj: "object_ok off ?d"
    using o1 o2 o3 de ce c b owner k(3) unfolding object_ok_def
    by (simp add: new_descriptor_def default_descriptor_def unat_gt_0)
  have in_block: "unat off \<in> block de (data_bytes_of opts)" using o1(1) o2 b by (simp add: block_def)
  have old: "\<forall>x \<in> live M. object_ok x (descriptors M x)" "\<forall>x. x \<notin> live M \<longrightarrow> ad_state (descriptors M x) = ObjectEmpty"
    "slots_ok M" "shared_out D (free_addresses (extents (header M)) DataPool) (live M) (\<lambda>x. data_block (descriptors M x))"
    "shared_out C (free_addresses (extents (header M)) CoherencePool) (live M) (\<lambda>x. coherence_block (descriptors M x))"
    using ok by (auto simp: heap_ok_def)
  have "unat off \<in> data_block (descriptors M off)" if "off \<in> live M"
    using old(1) that object_in_block by blast
  then show new: "off \<notin> live M" using old(4) in_block de(3) by (auto simp: shared_out_def)
  have nz: "off \<noteq> 0" using o1(1) by auto
  show live: "live M' = insert off (live M)"
  proof -
    have "set ((slots M)[i := \<lparr>sl_object_offset = off, sl_readers = 0\<rparr>]) = insert \<lparr>sl_object_offset = off, sl_readers = 0\<rparr> (set (take i (slots M)) \<union> set (drop (Suc i) (slots M)))"
      using i(1) by (simp add: upd_conv_take_nth_drop)
    moreover have "set (slots M) = insert (slots M ! i) (set (take i (slots M)) \<union> set (drop (Suc i) (slots M)))"
      using i(1) by (metis id_take_nth_drop Un_insert_right list.simps(15) set_append)
    ultimately show ?thesis using nz i(2) by (auto simp: M' live_def)
  qed
  show descs: "descriptors M' = (descriptors M)(off := ?d)" by (simp add: M')
  show "object_ok off (descriptors M' off)" using obj by (simp add: descs)
  show "retirement (header M') = retirement (header M)" "extents (header M') = t" by (simp_all add: M')
  have free: "free_addresses (extents (header M')) = free_addresses t" "extents_wf (extents (header M'))" using t(1) by (simp_all add: M')
  have "sl_object_offset (slots M ! j) \<noteq> off" if "j < length (slots M)" for j
    using new nz that by (auto simp: live_def)
  then have so: "slots_ok M'" using old(3) i nz unfolding slots_ok_def M'
    by (auto simp: nth_list_update dest!: set_update_subset_insert [THEN subsetD])
  have db: "(\<lambda>x. data_block (descriptors M' x)) = (\<lambda>x. data_block (descriptors M x))(off := block de (data_bytes_of opts))"
    and cb: "(\<lambda>x. coherence_block (descriptors M' x)) = (\<lambda>x. coherence_block (descriptors M x))(off := block ce (coherence_bytes_of A opts))"
    by (auto simp: descs fun_eq_iff data_block_def coherence_block_def new_descriptor_def default_descriptor_def)
  have "shared_out D (free_addresses t DataPool) (live M') (\<lambda>x. data_block (descriptors M' x))"
    "shared_out C (free_addresses t CoherencePool) (live M') (\<lambda>x. coherence_block (descriptors M' x))"
    unfolding live db cb t(2) using shared_out_add [OF old(4) de(3) new] shared_out_add [OF old(5) ce(2) new] by simp_all
  moreover have "ah_extent_node_capacity (header M') = kMaxSharedExtentNodes" using ok by (simp add: M' heap_ok_def)
  ultimately show "heap_ok D C M'" unfolding heap_ok_def using free so old(1,2) obj
    by (auto simp: live descs)
qed

text \<open>The reasons to refuse a valid request: no slot, no metadata nodes, or no block in one of the pools.\<close>

definition no_room :: "u64 \<Rightarrow> u64 \<Rightarrow> AllocatorMemory \<Rightarrow> bool" where
  "no_room data coherence M \<longleftrightarrow> (\<forall>s \<in> set (slots M). \<not> empty_slot s) \<or> spare_nodes (extents (header M)) < 2 \<or>
     (\<forall>a. 64 dvd a \<longrightarrow> \<not> {a..<a + unat data} \<subseteq> free_addresses (extents (header M)) DataPool) \<or>
     (\<forall>a. 64 dvd a \<longrightarrow> \<not> {a..<a + unat coherence} \<subseteq> free_addresses (extents (header M)) CoherencePool)"

lemma Allocate_cases:
  assumes ok: "heap_ok D C M" and req: "request_ok A opts" and owner: "unat (local_host A) < kMaxHosts"
  obtains off M' de ce where "Allocate A M opts = Some (Inr \<lparr>region_id = 0, gp_offset = off\<rparr>, M')" "heap_ok D C M'"
      "off \<notin> live M" "live M' = insert off (live M)" "object_ok off (descriptors M' off)"
      "descriptors M' = (descriptors M)(off := new_descriptor A opts (block_bytes_of A opts) (block_count_of A opts) off de
        (data_bytes_of opts) ce (coherence_bytes_of A opts))" "retirement (header M') = retirement (header M)"
      "spare_nodes (extents (header M)) \<le> spare_nodes (extents (header M')) + 2"
  | t where "Allocate A M opts = Some (Inl kUnavailable, set_extents t M)" "extents_wf t" "free_addresses t = free_addresses (extents (header M))"
      "no_room (data_bytes_of opts) (coherence_bytes_of A opts) M"
proof -
  let ?t = "extents (header M)"
  obtain k where k: "data_bytes_of opts \<noteq> 0" "coherence_bytes_of A opts \<noteq> 0" using request_values [OF req] by metis
  have wf: "extents_wf ?t" using ok by (simp add: heap_ok_def)
  have six: "(6::nat) < 64" by simp
  note run = Allocate_run [OF req, of M]
  show thesis
  proof (cases "first_slot empty_slot M")
    case None
    then have "no_room (data_bytes_of opts) (coherence_bytes_of A opts) M" by (simp add: no_room_def first_slot_None)
    then show thesis using run wf None by (intro that(2) [of ?t]) (simp_all add: set_extents_def)
  next
    case (Some i)
    have i: "i < length (slots M)" "sl_object_offset (slots M ! i) = 0" using first_slot_Some [OF Some] by (auto simp: empty_slot_def)
    obtain r1 t1 where r1: "AllocateExtentLocked DataPool (data_bytes_of opts) (2 ^ 6) ?t = Some (r1, t1)" "extents_wf t1"
      using pools.alloc_total [OF wf k(1) six, of DataPool] by blast
    show thesis
    proof (cases r1)
      case (Inl st)
      from pools.alloc_refused [OF wf k(1) six r1(1) [unfolded this]] show thesis
        using run Some r1 Inl by (intro that(2) [of t1]) (auto simp: no_room_def)
    next
      case (Inr de)
      note d = pools.alloc_block [OF wf k(1) six r1(1) [unfolded Inr]]
      obtain r2 t2 where r2: "AllocateExtentLocked CoherencePool (coherence_bytes_of A opts) (2 ^ 6) t1 = Some (r2, t2)" "extents_wf t2"
        using pools.alloc_total [OF r1(2) k(2) six, of CoherencePool] by blast
      show thesis
      proof (cases r2)
        case (Inl st)
        note e = pools.alloc_refused [OF r1(2) k(2) six r2(1) [unfolded Inl]]
        from pools.take_back [OF wf k(1) six r1(1) [unfolded Inr] r2(2)] e
        obtain t3 where t3: "FreeExtentLocked DataPool de (data_bytes_of opts) t2 = Some (kOk, t3)" "extents_wf t3"
          "free_addresses t3 = free_addresses ?t" by blast
        then show thesis using run Some r1 Inr r2 Inl e d by (intro that(2) [of t3]) (auto simp: no_room_def)
      next
        case ce: (Inr ce)
        note e = pools.alloc_block [OF r1(2) k(2) six r2(1) [unfolded ce]]
        obtain off M' where f: "finish_allocate A opts i de ce t2 M = (off, M')" by (cases "finish_allocate A opts i de ce t2 M")
        have free2: "free_addresses t2 = (free_addresses ?t)
            (DataPool := free_addresses ?t DataPool - block de (data_bytes_of opts),
             CoherencePool := free_addresses ?t CoherencePool - block ce (coherence_bytes_of A opts))"
          using d e by auto
        have "64 dvd unat de" "unat de + unat (data_bytes_of opts) < 2 ^ 64" "block de (data_bytes_of opts) \<subseteq> free_addresses ?t DataPool"
          "unat ce + unat (coherence_bytes_of A opts) < 2 ^ 64" "block ce (coherence_bytes_of A opts) \<subseteq> free_addresses ?t CoherencePool"
          using d e by auto
        note fin = finish_allocate_ok [OF ok req owner i this r2(2) free2 f]
        show thesis using run Some r1 Inr r2 ce f fin d e by (intro that(1) [of off M' de ce]) (simp_all add: le_Suc_eq, linarith)
      qed
    qed
  qed
qed

section \<open>Reclamation\<close>

lemma available_spare:
  assumes "extents_wf t"
  shows "available_nodes t kMaxSharedExtentNodes = spare_nodes t"
proof -
  let ?us = "unused_list t" and ?N = "{i::u32. unat i < kMaxSharedExtentNodes}"
  have ok: "table_ok t (addr_list t) ?us" using assms by (simp add: extents_wf_def)
  then have p: "node_parts (addr_list t) ?us" by (simp add: table_ok_def)
  have free: "en_state (extent_nodes t x) = kFree" if "x \<in> set (addr_list t q)" for x q
    using ok that by (simp add: table_ok_def extents_ok_def)
  have unused: "en_state (extent_nodes t x) = kUnused" if "x \<in> set ?us" for x
    using ok that by (simp add: table_ok_def unused_ok_def)
  have all: "set (addr_list t DataPool @ addr_list t CoherencePool @ ?us) = ?N" using p by (simp add: node_parts_def)
  have sub: "set ?us \<subseteq> ?N" using all by auto
  have us: "{x \<in> ?N. en_state (extent_nodes t x) = kUnused} = set ?us"
  proof (intro equalityI subsetI)
    fix x assume x: "x \<in> {x \<in> ?N. en_state (extent_nodes t x) = kUnused}"
    then have "x \<in> set (addr_list t DataPool @ addr_list t CoherencePool @ ?us)" unfolding all by simp
    then show "x \<in> set ?us" using free [of x] x by auto
  qed (use unused sub in auto)
  let ?js = "filter (\<lambda>i. en_state (extent_nodes t (of_nat i)) = kUnused) [0..<kMaxSharedExtentNodes]"
  have d: "distinct (map of_nat [0..<kMaxSharedExtentNodes] :: u32 list)" by (rule u32_upt(2)) simp
  have "inj_on (of_nat :: nat \<Rightarrow> u32) (set [0..<kMaxSharedExtentNodes])" using d unfolding distinct_map by blast
  then have "inj_on (of_nat :: nat \<Rightarrow> u32) (set ?js)" by (rule inj_on_subset) auto
  then have "length ?js = card ((of_nat :: nat \<Rightarrow> u32) ` set ?js)" using distinct_card [of ?js] by (simp only: card_image distinct_filter distinct_upt)
  also have "(of_nat :: nat \<Rightarrow> u32) ` set ?js = {x \<in> ?N. en_state (extent_nodes t x) = kUnused}"
  proof (intro equalityI subsetI)
    fix x assume "x \<in> {x \<in> ?N. en_state (extent_nodes t x) = kUnused}"
    then have "unat x \<in> set ?js" "x = of_nat (unat x)" by auto
    then show "x \<in> of_nat ` set ?js" by (rule rev_image_eqI)
  qed (auto simp: u32_upt(1) [OF order_refl])
  finally show ?thesis using us node_parts_pool(4) [OF p] by (simp add: available_nodes_def spare_nodes_def distinct_card)
qed

text \<open>The object of a reclamation and what is known when it succeeds.\<close>

definition reclaimed :: "SharedExtentAllocator \<Rightarrow> GlobalPointer \<Rightarrow> AllocatorMemory \<Rightarrow> AllocatorMemory \<Rightarrow> bool" where
  "reclaimed A g M M' \<longleftrightarrow> live M' = live M - {gp_offset g} \<and>
     descriptors M' = (descriptors M)(gp_offset g := (descriptors M (gp_offset g))\<lparr>ad_state := ObjectEmpty, ad_magic := 0\<rparr>) \<and>
     free_addresses (extents (header M')) = (free_addresses (extents (header M)))
       (DataPool := free_addresses (extents (header M)) DataPool \<union> data_block (descriptors M (gp_offset g)),
        CoherencePool := free_addresses (extents (header M)) CoherencePool \<union> coherence_block (descriptors M (gp_offset g))) \<and>
     retirement (header M') = set_phase kIdle (retirement (header M))"

definition may_free :: "SharedExtentAllocator \<Rightarrow> GlobalPointer \<Rightarrow> AllocatorMemory \<Rightarrow> bool" where
  "may_free A g M \<longleftrightarrow> rs_phase (Retirement M) = kReclaimable \<and> rs_object (Retirement M) = g \<and> rs_coordinator (Retirement M) = local_host A \<and>
     gp_offset g \<in> live M \<and> FindDescriptorLocked A M g True = Inr (descriptors M (gp_offset g)) \<and>
     ad_replica_hosts (descriptors M (gp_offset g)) = 0 \<and>
     (\<forall>h. unat h < kMaxHosts \<longrightarrow> ad_active_operations (descriptors M (gp_offset g)) h = 0) \<and>
     2 \<le> spare_nodes (extents (header M))"

lemma image_set_nth: "x \<in> f ` set xs \<longleftrightarrow> (\<exists>j < length xs. f (xs ! j) = x)"
  by (metis image_iff in_set_conv_nth)

lemma FindDescriptorLocked_Inl: "FindDescriptorLocked A M g b = Inl st \<Longrightarrow> st \<noteq> kOk"
  by (auto simp: FindDescriptorLocked_def Let_def split: if_splits)

lemma slot_unused_live:
  assumes "slots_ok M" "i < length (slots M)" "sl_object_offset (slots M ! i) = off" "off \<noteq> 0"
  shows "sl_object_offset ` set ((slots M)[i := \<lparr>sl_object_offset = 0, sl_readers = 0\<rparr>]) - {0} = live M - {off}"
proof -
  let ?ss = "(slots M)[i := \<lparr>sl_object_offset = 0, sl_readers = 0\<rparr>]"
  have "x \<in> sl_object_offset ` set ?ss - {0} \<longleftrightarrow> x \<in> live M - {off}" for x
  proof -
    have "x \<in> sl_object_offset ` set ?ss - {0} \<longleftrightarrow> (\<exists>j < length (slots M). j \<noteq> i \<and> sl_object_offset (slots M ! j) = x \<and> x \<noteq> 0)"
      using assms(2) by (auto simp: image_set_nth nth_list_update split: if_splits)
    also have "\<dots> \<longleftrightarrow> (\<exists>j < length (slots M). sl_object_offset (slots M ! j) = x \<and> x \<noteq> 0 \<and> x \<noteq> off)"
      using assms unfolding slots_ok_def by metis
    also have "\<dots> \<longleftrightarrow> x \<in> live M - {off}" by (auto simp: live_def image_set_nth)
    finally show ?thesis .
  qed
  then show ?thesis by blast
qed

lemma reclaim_ok:
  assumes ok: "heap_ok D C M" and off: "off \<in> live M" and i: "i < length (slots M)" "sl_object_offset (slots M ! i) = off"
    and t: "extents_wf t" "free_addresses t = (free_addresses (extents (header M)))
      (DataPool := free_addresses (extents (header M)) DataPool \<union> data_block (descriptors M off),
       CoherencePool := free_addresses (extents (header M)) CoherencePool \<union> coherence_block (descriptors M off))"
    and M': "extents (header M') = t" "slots M' = (slots M)[i := \<lparr>sl_object_offset = 0, sl_readers = 0\<rparr>]"
      "ah_extent_node_capacity (header M') = ah_extent_node_capacity (header M)"
      "descriptors M' = (descriptors M)(off := (descriptors M off)\<lparr>ad_state := ObjectEmpty, ad_magic := 0\<rparr>)"
  shows "heap_ok D C M'" "live M' = live M - {off}"
proof -
  have so: "slots_ok M" and nz: "off \<noteq> 0" using ok off by (auto simp: heap_ok_def live_def)
  show live: "live M' = live M - {off}" using slot_unused_live [OF so i nz] by (simp add: live_def [of M'] M'(2))
  have so': "slots_ok M'" using so i unfolding slots_ok_def M'(2)
    by (auto simp: nth_list_update dest!: set_update_subset_insert [THEN subsetD] split: if_splits)
  have d: "descriptors M' x = descriptors M x" if "x \<in> live M - {off}" for x using that by (simp add: M'(4))
  have "shared_out D (free_addresses t DataPool) (live M - {off}) (\<lambda>x. data_block (descriptors M x))"
    "shared_out C (free_addresses t CoherencePool) (live M - {off}) (\<lambda>x. coherence_block (descriptors M x))"
    using ok off t(2) shared_out_drop [of D _ "live M" "\<lambda>x. data_block (descriptors M x)"]
      shared_out_drop [of C _ "live M" "\<lambda>x. coherence_block (descriptors M x)"] by (auto simp: heap_ok_def)
  then have "shared_out D (free_addresses t DataPool) (live M') (\<lambda>x. data_block (descriptors M' x))"
    "shared_out C (free_addresses t CoherencePool) (live M') (\<lambda>x. coherence_block (descriptors M' x))"
  proof -
    have "shared_out R F (live M - {off}) (\<lambda>x. data_block (descriptors M' x)) = shared_out R F (live M - {off}) (\<lambda>x. data_block (descriptors M x))"
      "shared_out R F (live M - {off}) (\<lambda>x. coherence_block (descriptors M' x)) = shared_out R F (live M - {off}) (\<lambda>x. coherence_block (descriptors M x))" for R F
      by (rule shared_out_cong; simp add: M'(4))+
    then show "shared_out D (free_addresses t DataPool) (live M') (\<lambda>x. data_block (descriptors M' x))"
      "shared_out C (free_addresses t CoherencePool) (live M') (\<lambda>x. coherence_block (descriptors M' x))"
      using \<open>shared_out D _ _ _\<close> \<open>shared_out C _ _ _\<close> unfolding live by simp_all
  qed
  then show "heap_ok D C M'" using ok t(1) so' unfolding heap_ok_def M'(1,3) live by (auto simp: d, auto simp: M'(4))
qed

lemma Free_cases:
  assumes ok: "heap_ok D C M"
  obtains st where "Free A M g = Some (st, M)" "st \<noteq> kOk" "\<not> may_free A g M"
  | M' where "Free A M g = Some (kOk, M')" "heap_ok D C M'" "may_free A g M" "reclaimed A g M M'"
proof -
  let ?c = "Retirement M" and ?off = "gp_offset g" and ?t = "extents (header M)"
  let ?d = "descriptors M ?off"
  have so: "slots_ok M" and wf: "extents_wf ?t" and cap: "ah_extent_node_capacity (header M) = kMaxSharedExtentNodes"
    using ok by (auto simp: heap_ok_def)
  show thesis
  proof (cases "rs_phase ?c = kReclaimable \<and> rs_object ?c = g \<and> rs_coordinator ?c = local_host A")
    case False
    then show thesis by (intro that(1) [of kFailedPrecondition]) (auto simp: Free_def Retirement_def may_free_def)
  next
    case c: True
    show thesis
    proof (cases "first_slot (\<lambda>s. sl_object_offset s = ?off) M")
      case None
      then have "?off \<notin> live M" by (auto simp: first_slot_None live_def)
      then show thesis using c None by (intro that(1) [of kNotFound]) (auto simp: Free_def Retirement_def may_free_def)
    next
      case (Some i)
      then have i: "i < length (slots M)" "sl_object_offset (slots M ! i) = ?off" using first_slot_Some by auto
      have rd: "sl_readers (slots M ! i) = 0" using so i(1) by (simp add: slots_ok_def)
      define M1 where "M1 = set_slot i (\<lambda>s. s\<lparr>sl_readers := UINT32_MAX\<rparr>) M"
      have undo: "set_slot i (\<lambda>s. s\<lparr>sl_readers := 0\<rparr>) M1 = M"
        using i(1) rd by (simp add: M1_def set_slot_set_slot set_slot_id)
      have find: "FindDescriptorLocked A M1 g True = FindDescriptorLocked A M g True"
        by (rule FindDescriptorLocked_cong) (simp add: M1_def)
      have ext: "extents (header M1) = ?t" "ah_extent_node_capacity (header M1) = kMaxSharedExtentNodes" by (simp_all add: M1_def cap)
      have hosts: "(\<exists>h \<in> set (hosts_below (of_nat kMaxHosts)). ad_active_operations d h \<noteq> 0) \<longleftrightarrow>
          (\<exists>h. unat h < kMaxHosts \<and> ad_active_operations d h \<noteq> 0)" for d
        by (auto simp: kMaxHosts_def word_less_nat_alt)
      have run: "Free A M g = (case FindDescriptorLocked A M g True of
          Inl st \<Rightarrow> Some (st, M)
        | Inr d \<Rightarrow> if ad_replica_hosts d \<noteq> 0 then Some (kUnavailable, M)
            else if \<exists>h. unat h < kMaxHosts \<and> ad_active_operations d h \<noteq> 0 then Some (kUnavailable, M)
            else if spare_nodes ?t < 2 then Some (kUnavailable, M)
            else (case FreeExtentLocked DataPool (ad_data_extent_offset d) (ad_data_extent_bytes d) ?t of
                    None \<Rightarrow> None
                  | Some (st, t1) \<Rightarrow>
                      if st \<noteq> kOk then Some (st, set_slot i (\<lambda>s. s\<lparr>sl_readers := 0\<rparr>) (set_extents t1 M1))
                      else (case FreeExtentLocked CoherencePool (ad_coherence_metadata_offset d) (ad_coherence_extent_bytes d) t1 of
                              None \<Rightarrow> None
                            | Some (st, t2) \<Rightarrow>
                                let M2 = set_extents t2 M1;
                                    M3 = (if st = kOk
                                          then set_retirement (set_phase kIdle (retirement (header M2)))
                                            (set_slot i (\<lambda>s. s\<lparr>sl_object_offset := 0\<rparr>)
                                              (set_descriptor (gp_offset g) (\<lambda>d. d\<lparr>ad_state := ObjectEmpty, ad_magic := 0\<rparr>) M2))
                                          else M2)
                                in Some (st, set_slot i (\<lambda>s. s\<lparr>sl_readers := 0\<rparr>) M3))))"
        using c Some rd
        by (simp only: Free_def Let_def Retirement_def simp_thms if_False option.case slots_def [symmetric] M1_def [symmetric]
            find undo ext hosts available_spare [OF wf] not_less)
      show thesis
      proof (cases "FindDescriptorLocked A M g True")
        case (Inl st)
        then show thesis using run FindDescriptorLocked_Inl [OF Inl] by (intro that(1) [of st]) (auto simp: may_free_def)
      next
        case (Inr d)
        note fd = FindDescriptorLocked_Inr [OF Inr]
        have off: "?off \<in> live M" using fd(1,4) ok unfolding heap_ok_def by (metis AllocationState.distinct(1,3))
        show thesis
        proof (cases "ad_replica_hosts d = 0 \<and> (\<forall>h. unat h < kMaxHosts \<longrightarrow> ad_active_operations d h = 0) \<and> 2 \<le> spare_nodes ?t")
          case False
          then have "Free A M g = Some (kUnavailable, M)" using run Inr by auto
          moreover have "\<not> may_free A g M" using False Inr by (auto simp: may_free_def)
          ultimately show thesis by (intro that(1)) auto
        next
          case can: True
          then have may: "may_free A g M" using c off Inr fd(1) by (simp add: may_free_def)
          have ob: "object_ok ?off ?d" using ok off by (simp add: heap_ok_def)
          have nz: "ad_data_extent_bytes ?d \<noteq> 0" using ob unat_gt_0 [of "ad_bytes ?d"] by (auto simp: object_ok_def)
          have dis: "data_block ?d \<inter> free_addresses ?t DataPool = {}" "coherence_block ?d \<inter> free_addresses ?t CoherencePool = {}"
            using ok off by (auto simp: heap_ok_def shared_out_def)
          have bnd: "unat (ad_data_extent_offset ?d) + unat (ad_data_extent_bytes ?d) < 2 ^ 64" "ad_coherence_extent_bytes ?d \<noteq> 0"
            "unat (ad_coherence_metadata_offset ?d) + unat (ad_coherence_extent_bytes ?d) < 2 ^ 64" using ob by (auto simp: object_ok_def)
          have two: "2 \<le> spare_nodes ?t" using can by simp
          from pools.release_two [OF wf two _ nz bnd(1) dis(1) [unfolded data_block_def] bnd(2,3) dis(2) [unfolded coherence_block_def]]
          obtain t1 t2 where t: "FreeExtentLocked DataPool (ad_data_extent_offset ?d) (ad_data_extent_bytes ?d) ?t = Some (kOk, t1)"
            "FreeExtentLocked CoherencePool (ad_coherence_metadata_offset ?d) (ad_coherence_extent_bytes ?d) t1 = Some (kOk, t2)" "extents_wf t2"
            "free_addresses t2 = (free_addresses ?t)(DataPool := free_addresses ?t DataPool \<union> data_block ?d,
               CoherencePool := free_addresses ?t CoherencePool \<union> coherence_block ?d)"
            by (auto simp: data_block_def coherence_block_def)
          define M' where "M' = set_slot i (\<lambda>s. s\<lparr>sl_readers := 0\<rparr>) (set_retirement (set_phase kIdle (retirement (header (set_extents t2 M1))))
             (set_slot i (\<lambda>s. s\<lparr>sl_object_offset := 0\<rparr>) (set_descriptor ?off (\<lambda>d. d\<lparr>ad_state := ObjectEmpty, ad_magic := 0\<rparr>) (set_extents t2 M1))))"
          have res: "Free A M g = Some (kOk, M')" using run Inr can fd(1) t by (simp add: M'_def)
          have parts: "extents (header M') = t2" "slots M' = (slots M)[i := \<lparr>sl_object_offset = 0, sl_readers = 0\<rparr>]"
            "ah_extent_node_capacity (header M') = ah_extent_node_capacity (header M)"
            "descriptors M' = (descriptors M)(?off := ?d\<lparr>ad_state := ObjectEmpty, ad_magic := 0\<rparr>)"
            using i(1) by (simp_all add: M'_def M1_def slot_eq)
          note rec = reclaim_ok [OF ok off i t(3,4) parts]
          have "reclaimed A g M M'" using rec(2) parts t(4) by (simp add: reclaimed_def M'_def M1_def)
          then show thesis using res rec(1) may by (intro that(2))
        qed
      qed
    qed
  qed
qed

end
