(* ===== verification/Cx_Retirement.thy ===== *)
theory Cx_Retirement
  imports Cx_Allocator_Heap
begin

text \<open>
  The shared allocator as a system: any host, in any order, allocates, pins and unpins objects, retires
  them, acknowledges the phases of a retirement and reclaims.  Every reachable memory keeps the heap
  invariant and the retirement invariant, from which the guarantees of the interface follow.
\<close>

section \<open>Steps\<close>

text \<open>A snapshot a host may hold: one of the current transaction is a copy of it, up to its phase.\<close>

definition snapshot_of :: "RetirementSnapshot \<Rightarrow> AllocatorMemory \<Rightarrow> bool" where
  "snapshot_of t M \<longleftrightarrow> (rs_sequence t = rs_sequence (Retirement M) \<longrightarrow>
     rs_object t = rs_object (Retirement M) \<and> rs_host_count t = rs_host_count (Retirement M))"

text \<open>
  The last two steps are what the rest of the runtime does with this memory: the caches of the hosts
  record which hosts hold a replica, and the token protocol writes the coherence block descriptors.
\<close>

inductive heap_step :: "(HostId \<Rightarrow> SharedExtentAllocator) \<Rightarrow> AllocatorMemory \<Rightarrow> AllocatorMemory \<Rightarrow> bool" for al where
  allocate: "Allocate (al h) M opts = Some (r, M') \<Longrightarrow> heap_step al M M'"
| acquire: "AcquireReference (al h) M g host b = (r, M') \<Longrightarrow> heap_step al M M'"
| release: "ReleaseReference M off host = (st, M') \<Longrightarrow> heap_step al M M'"
| retire: "BeginRetire (al h) M g n = (r, M') \<Longrightarrow> heap_step al M M'"
| acknowledge: "snapshot_of t M \<Longrightarrow> AcknowledgeRetirement (al h) M t host cursors = (st, M') \<Longrightarrow> heap_step al M M'"
| reclaim: "Free (al h) M g = Some (st, M') \<Longrightarrow> heap_step al M M'"
| replicas: "heap_step al M (set_descriptor off (\<lambda>d. d\<lparr>ad_replica_hosts := v\<rparr>) M)"
| blocks: "heap_step al M (M\<lparr>coherence_blocks := bs\<rparr>)"

inductive heap_reach :: "(HostId \<Rightarrow> SharedExtentAllocator) \<Rightarrow> AllocatorMemory \<Rightarrow> AllocatorMemory \<Rightarrow> bool" for al M0 where
  start: "heap_reach al M0 M0"
| step: "heap_reach al M0 M \<Longrightarrow> heap_step al M M' \<Longrightarrow> heap_reach al M0 M'"

inductive_cases heap_stepE: "heap_step al M M'"

section \<open>Invariants\<close>

definition object_at :: "AllocatorMemory \<Rightarrow> AllocationDescriptor" where
  "object_at M = descriptors M (gp_offset (rs_object (Retirement M)))"

text \<open>A sealed host has no operation on the object; objects in normal use have no sealed host.\<close>

definition seals_ok :: "AllocatorMemory \<Rightarrow> bool" where
  "seals_ok M \<longleftrightarrow> (\<forall>off \<in> live M. let d = descriptors M off in
     (\<forall>h. unat h < kMaxHosts \<longrightarrow> bit (ad_sealed_hosts d) (unat h) \<longrightarrow> ad_active_operations d h = 0) \<and>
     (ad_state d = ObjectAllocated \<longrightarrow> ad_sealed_hosts d = 0) \<and>
     (ad_state d = ObjectRetiring \<longleftrightarrow> rs_phase (Retirement M) \<noteq> kIdle \<and> off = gp_offset (rs_object (Retirement M))))"

definition masks_ok :: "AllocatorMemory \<Rightarrow> bool" where
  "masks_ok M \<longleftrightarrow> (let r = retirement (header M); c = current r; n = rs_host_count c in
     rs_phase c \<noteq> kIdle \<longrightarrow>
       gp_offset (rs_object c) \<in> live M \<and> n \<noteq> 0 \<and> n \<le> 64 \<and>
       (\<forall>k. bit (closed r) k \<longrightarrow> k < unat n \<and> bit (ad_sealed_hosts (object_at M)) k) \<and>
       (\<forall>k. bit (drained r) k \<longrightarrow> k < unat n) \<and> (\<forall>k. bit (cleaned r) k \<longrightarrow> k < unat n) \<and>
       (rs_phase c \<in> {kDraining, kCleaning, kReclaimable} \<longrightarrow> closed r = all_hosts n) \<and>
       (rs_phase c \<in> {kCleaning, kReclaimable} \<longrightarrow> drained r = all_hosts n) \<and>
       (rs_phase c = kReclaimable \<longrightarrow> cleaned r = all_hosts n))"

definition retire_ok :: "AllocatorMemory \<Rightarrow> bool" where
  "retire_ok M \<longleftrightarrow> seals_ok M \<and> masks_ok M"

lemma heap_set_descriptor:
  assumes "heap_ok D C M" and "data_block (f (descriptors M off)) = data_block (descriptors M off)"
    and "coherence_block (f (descriptors M off)) = coherence_block (descriptors M off)"
    and "off \<in> live M \<Longrightarrow> object_ok off (f (descriptors M off))"
    and "off \<notin> live M \<Longrightarrow> ad_state (f (descriptors M off)) = ad_state (descriptors M off)"
  shows "heap_ok D C (set_descriptor off f M)"
proof -
  have "(\<lambda>x. data_block (descriptors (set_descriptor off f M) x)) = (\<lambda>x. data_block (descriptors M x))"
    "(\<lambda>x. coherence_block (descriptors (set_descriptor off f M) x)) = (\<lambda>x. coherence_block (descriptors M x))"
    using assms(2,3) by (auto simp: fun_eq_iff)
  then show ?thesis using assms(1,4,5) by (auto simp: heap_ok_def)
qed

lemma heap_set_retirement: "heap_ok D C (set_retirement r M) = heap_ok D C M"
  by (simp add: heap_ok_def)

lemma heap_blocks: "heap_ok D C (M\<lparr>coherence_blocks := bs\<rparr>) = heap_ok D C M"
  by (simp add: heap_ok_def)

lemma object_ok_live: "heap_ok D C M \<Longrightarrow> off \<in> live M \<Longrightarrow> object_ok off (descriptors M off)"
  by (simp add: heap_ok_def)

lemma live_nonempty: "heap_ok D C M \<Longrightarrow> ad_state (descriptors M off) \<noteq> ObjectEmpty \<Longrightarrow> off \<in> live M"
  by (auto simp: heap_ok_def)

section \<open>Every step keeps the invariants\<close>

lemma AcquireReference_cases:
  obtains st where "AcquireReference A M g host b = (Inl st, M)"
  | "AcquireReference A M g host b = (Inr (gp_offset g), set_descriptor (gp_offset g)
      (\<lambda>d. d\<lparr>ad_active_operations := (ad_active_operations d)(host := ad_active_operations d host + 1)\<rparr>) M)"
    "unat host < kMaxHosts" "gp_offset g \<in> live M" "\<not> bit (ad_sealed_hosts (descriptors M (gp_offset g))) (unat host)"
    "ad_state (descriptors M (gp_offset g)) = ObjectAllocated \<or> b \<and> ad_state (descriptors M (gp_offset g)) = ObjectRetiring"
proof (cases "kMaxHosts \<le> unat host")
  case True
  then show thesis by (intro that(1)) (auto simp: AcquireReference_def)
next
  case h: False
  then have h64: "host < 64" by (simp add: kMaxHosts_def word_less_nat_alt)
  show thesis
  proof (cases rule: LockAllocationSlot_cases [of A M g])
    case (1 st)
    then show thesis using h by (intro that(1)) (auto simp: AcquireReference_def)
  next
    case (2 i)
    let ?M1 = "set_slot i (\<lambda>s. s\<lparr>sl_readers := sl_readers s + 1\<rparr>) M"
    have f: "FindDescriptorLocked A ?M1 g b = FindDescriptorLocked A M g b" by (rule FindDescriptorLocked_cong) simp
    have u: "UnlockSlot i ?M1 = M" "UnlockSlot i (set_descriptor off k ?M1) = set_descriptor off k M" for off k
      using UnlockSlot_lock [OF 2(5)] by (simp_all add: UnlockSlot_def set_slot_commute)
    show thesis
    proof (cases "FindDescriptorLocked A M g b")
      case (Inl st)
      then show thesis using 2 h by (intro that(1)) (auto simp: AcquireReference_def f u)
    next
      case (Inr d)
      note fd = FindDescriptorLocked_Inr [OF Inr]
      show thesis
      proof (cases "ad_sealed_hosts d AND host_bit host = 0")
        case False
        then show thesis using 2 h Inr by (intro that(1)) (auto simp: AcquireReference_def f u)
      next
        case True
        then have "\<not> bit (ad_sealed_hosts d) (unat host)" using mask_or_zero_iff [OF h64] by blast
        then show thesis using 2 h Inr True fd by (intro that(2)) (auto simp: AcquireReference_def f u)
      qed
    qed
  qed
qed

lemma retire_frame:
  assumes "retire_ok M" and "retirement (header M') = retirement (header M)" and "live M' = live M"
    and "\<And>off. off \<in> live M \<Longrightarrow> ad_state (descriptors M' off) = ad_state (descriptors M off) \<and>
      ad_sealed_hosts (descriptors M' off) = ad_sealed_hosts (descriptors M off) \<and>
      (\<forall>h. unat h < kMaxHosts \<longrightarrow> bit (ad_sealed_hosts (descriptors M off)) (unat h) \<longrightarrow>
         ad_active_operations (descriptors M off) h = 0 \<longrightarrow> ad_active_operations (descriptors M' off) h = 0)"
  shows "retire_ok M'"
proof -
  have "Retirement M' = Retirement M" by (simp add: Retirement_def assms(2))
  moreover have "rs_phase (Retirement M) \<noteq> kIdle \<Longrightarrow> ad_sealed_hosts (object_at M') = ad_sealed_hosts (object_at M)"
    using assms(1,4) \<open>Retirement M' = Retirement M\<close>
    by (simp add: object_at_def retire_ok_def masks_ok_def Let_def Retirement_def)
  ultimately show ?thesis using assms unfolding retire_ok_def seals_ok_def masks_ok_def Let_def Retirement_def
    by (auto simp: Retirement_def)
qed

definition heap_inv :: "nat set \<Rightarrow> nat set \<Rightarrow> AllocatorMemory \<Rightarrow> bool" where
  "heap_inv D C M \<longleftrightarrow> heap_ok D C M \<and> retire_ok M"

lemma inv_acquire:
  assumes "heap_inv D C M" and "AcquireReference A M g host b = (r, M')"
  shows "heap_inv D C M'"
proof (cases rule: AcquireReference_cases [of A M g host b])
  case (1 st)
  then show ?thesis using assms by simp
next
  case 2
  let ?f = "\<lambda>d. d\<lparr>ad_active_operations := (ad_active_operations d)(host := ad_active_operations d host + 1)\<rparr>"
  have M': "M' = set_descriptor (gp_offset g) ?f M" using 2(1) assms(2) by simp
  have ok: "heap_ok D C M" and ret: "retire_ok M" using assms(1) by (auto simp: heap_inv_def)
  have "heap_ok D C M'" unfolding M'
    by (rule heap_set_descriptor [OF ok])
      (use object_ok_live [OF ok 2(3)] in \<open>simp_all add: data_block_def coherence_block_def object_ok_def\<close>)
  moreover have "retire_ok M'" unfolding M' by (rule retire_frame [OF ret]) (use 2(4) in auto)
  ultimately show ?thesis by (simp add: heap_inv_def)
qed

lemma inv_release:
  assumes "heap_inv D C M" and "ReleaseReference M off host = (st, M')"
  shows "heap_inv D C M'"
proof (cases "kMaxHosts \<le> unat host \<or> ad_active_operations (descriptors M off) host = 0")
  case True
  then show ?thesis using assms by (auto simp: ReleaseReference_def split: if_splits)
next
  case False
  let ?f = "\<lambda>d. d\<lparr>ad_active_operations := (ad_active_operations d)(host := ad_active_operations d host - 1)\<rparr>"
  have M': "M' = set_descriptor off ?f M" using False assms(2) by (simp add: ReleaseReference_def)
  have ok: "heap_ok D C M" and ret: "retire_ok M" using assms(1) by (auto simp: heap_inv_def)
  have "heap_ok D C M'" unfolding M'
    by (rule heap_set_descriptor [OF ok])
      (use object_ok_live [OF ok, of off] in \<open>simp_all add: data_block_def coherence_block_def object_ok_def\<close>)
  moreover have "retire_ok M'" unfolding M' by (rule retire_frame [OF ret]) (use False in auto)
  ultimately show ?thesis by (simp add: heap_inv_def)
qed

lemma inv_replicas: "heap_inv D C M \<Longrightarrow> heap_inv D C (set_descriptor off (\<lambda>d. d\<lparr>ad_replica_hosts := v\<rparr>) M)"
proof -
  assume inv: "heap_inv D C M"
  then have ok: "heap_ok D C M" and ret: "retire_ok M" by (auto simp: heap_inv_def)
  have "heap_ok D C (set_descriptor off (\<lambda>d. d\<lparr>ad_replica_hosts := v\<rparr>) M)"
    by (rule heap_set_descriptor [OF ok])
      (use object_ok_live [OF ok, of off] in \<open>simp_all add: data_block_def coherence_block_def object_ok_def\<close>)
  moreover have "retire_ok (set_descriptor off (\<lambda>d. d\<lparr>ad_replica_hosts := v\<rparr>) M)" by (rule retire_frame [OF ret]) auto
  ultimately show ?thesis by (simp add: heap_inv_def)
qed

lemma inv_allocate:
  assumes "heap_inv D C M" and "unat (local_host A) < kMaxHosts" and "Allocate A M opts = Some (r, M')"
  shows "heap_inv D C M'"
proof (cases "request_ok A opts")
  case False
  then show ?thesis using Allocate_checks [OF False, of M] assms by auto
next
  case True
  have ok: "heap_ok D C M" and ret: "retire_ok M" using assms(1) by (auto simp: heap_inv_def)
  show ?thesis
  proof (cases rule: Allocate_cases [OF ok True assms(2)])
    case (2 t)
    then have M': "M' = set_extents t M" using assms(3) by simp
    have "retire_ok M'" unfolding M' by (rule retire_frame [OF ret]) auto
    then show ?thesis using heap_set_extents [OF ok 2(2,3)] by (simp add: heap_inv_def M')
  next
    case (1 off M2 de ce)
    then have M': "M' = M2" using assms(3) by simp
    have d: "ad_sealed_hosts (descriptors M' off) = 0" "ad_state (descriptors M' off) = ObjectAllocated"
      by (simp_all add: M' 1(6) new_descriptor_def default_descriptor_def)
    have same: "descriptors M' x = descriptors M x" if "x \<in> live M" for x using that 1(3) by (auto simp: M' 1(6))
    have R: "Retirement M' = Retirement M" "retirement (header M') = retirement (header M)" by (simp_all add: Retirement_def M' 1(7))
    have obj: "rs_phase (Retirement M) \<noteq> kIdle \<Longrightarrow> gp_offset (rs_object (Retirement M)) \<in> live M"
      using ret by (simp add: retire_ok_def masks_ok_def Let_def Retirement_def)
    have lv: "live M' = insert off (live M)" using 1(4) by (simp add: M')
    have "seals_ok M'" using ret d obj 1(3) unfolding retire_ok_def seals_ok_def R Let_def lv by (auto simp: same)
    moreover have "masks_ok M'"
    proof (cases "rs_phase (Retirement M) = kIdle")
      case False
      then have "object_at M' = object_at M" using obj same by (simp add: object_at_def R)
      then show ?thesis using ret obj False unfolding retire_ok_def masks_ok_def R Let_def lv by auto
    qed (simp add: masks_ok_def R(2) Let_def Retirement_def)
    ultimately show ?thesis using 1(2) by (simp add: heap_inv_def retire_ok_def M')
  qed
qed

lemma inv_reclaim:
  assumes "heap_inv D C M" and "Free A M g = Some (st, M')"
  shows "heap_inv D C M'"
proof -
  have ok: "heap_ok D C M" and ret: "retire_ok M" using assms(1) by (auto simp: heap_inv_def)
  show ?thesis
  proof (cases rule: Free_cases [OF ok, of A g])
    case (1 st)
    then show ?thesis using assms by simp
  next
    case (2 M2)
    then have M': "M' = M2" using assms(2) by simp
    have c: "rs_phase (Retirement M) = kReclaimable" "rs_object (Retirement M) = g" using 2(3) by (auto simp: may_free_def)
    have rec: "live M' = live M - {gp_offset g}" "retirement (header M') = set_phase kIdle (retirement (header M))"
      and d: "\<And>x. x \<noteq> gp_offset g \<Longrightarrow> descriptors M' x = descriptors M x"
      using 2(4) by (auto simp: reclaimed_def M')
    have idle: "rs_phase (Retirement M') = kIdle" by (simp add: Retirement_def rec(2) set_phase_def)
    have "seals_ok M'" using ret c d unfolding retire_ok_def seals_ok_def Let_def idle rec(1) by auto
    moreover have "masks_ok M'" using idle by (simp add: masks_ok_def Retirement_def Let_def)
    ultimately show ?thesis using 2(2) by (simp add: heap_inv_def retire_ok_def M')
  qed
qed

lemma BeginRetire_cases:
  obtains r where "BeginRetire A M g n = (r, M)"
  | c where "BeginRetire A M g n = (Inr c, set_descriptor (gp_offset g) (\<lambda>d. d\<lparr>ad_state := ObjectRetiring\<rparr>)
        (set_retirement ((retirement (header M))\<lparr>current := c, closed := 0, drained := 0, cleaned := 0\<rparr>) M))"
    "c = \<lparr>rs_phase = kClosing, rs_object = g, rs_sequence = rs_sequence (Retirement M) + 1, rs_coordinator = local_host A, rs_host_count = n\<rparr>"
    "rs_phase (Retirement M) = kIdle" "n \<noteq> 0" "n \<le> 64" "FindDescriptorLocked A M g False = Inr (descriptors M (gp_offset g))"
    "ad_owner_host (descriptors M (gp_offset g)) = local_host A"
proof (cases "n = 0 \<or> kMaxHosts < unat n \<or> rs_phase (Retirement M) \<noteq> kIdle")
  case True
  then show thesis by (intro that(1) [of "fst (BeginRetire A M g n)"]) (auto simp: BeginRetire_def Let_def Retirement_def)
next
  case False
  then have n: "n \<noteq> 0" "n \<le> 64" by (auto simp: kMaxHosts_def word_le_nat_alt)
  show thesis
  proof (cases "FindDescriptorLocked A M g False")
    case (Inl st)
    then show thesis using False by (intro that(1) [of "Inl st"]) (simp add: BeginRetire_def Let_def Retirement_def)
  next
    case (Inr d)
    then have d: "d = descriptors M (gp_offset g)" by (rule FindDescriptorLocked_Inr)
    show thesis
    proof (cases "ad_owner_host d = local_host A \<and> rs_sequence (Retirement M) \<noteq> UINT64_MAX")
      case no: False
      then show thesis using False Inr
        by (intro that(1) [of "Inl (if ad_owner_host d \<noteq> local_host A then kFailedPrecondition else kUnavailable)"])
          (auto simp: BeginRetire_def Let_def Retirement_def)
    next
      case True
      then show thesis using False Inr n d by (intro that(2) [OF _ refl]) (simp_all add: BeginRetire_def Let_def Retirement_def)
    qed
  qed
qed

lemma inv_retire:
  assumes "heap_inv D C M" and "BeginRetire A M g n = (r, M')"
  shows "heap_inv D C M'"
proof (cases rule: BeginRetire_cases [of A M g n])
  case (1 r)
  then show ?thesis using assms by simp
next
  case (2 c)
  let ?R = "(retirement (header M))\<lparr>current := c, closed := 0, drained := 0, cleaned := 0\<rparr>"
  have ok: "heap_ok D C M" and ret: "seals_ok M" using assms(1) by (auto simp: heap_inv_def retire_ok_def)
  have M': "M' = set_descriptor (gp_offset g) (\<lambda>d. d\<lparr>ad_state := ObjectRetiring\<rparr>) (set_retirement ?R M)" using 2(1) assms(2) by simp
  have st: "ad_state (descriptors M (gp_offset g)) = ObjectAllocated" using FindDescriptorLocked_Inr(4) [OF 2(6)] by simp
  then have off: "gp_offset g \<in> live M" by (intro live_nonempty [OF ok]) simp
  have "heap_ok D C (set_retirement ?R M)" using ok by (simp add: heap_set_retirement)
  then have "heap_ok D C M'" unfolding M'
    by (rule heap_set_descriptor)
      (use object_ok_live [OF ok off] off in \<open>simp_all add: data_block_def coherence_block_def object_ok_def\<close>)
  moreover have R: "Retirement M' = c" by (simp add: M' Retirement_def)
  have ds: "descriptors M' = (descriptors M)(gp_offset g := (descriptors M (gp_offset g))\<lparr>ad_state := ObjectRetiring\<rparr>)" "live M' = live M"
    by (simp_all add: M')
  have c: "rs_phase c = kClosing" "rs_object c = g" by (simp_all add: 2(2))
  have "seals_ok M'" using ret off st 2(3) unfolding seals_ok_def R Let_def ds c by auto
  moreover have "masks_ok M'" using off 2(4,5) by (simp add: masks_ok_def M' Let_def 2(2))
  ultimately show ?thesis by (simp add: heap_inv_def retire_ok_def)
qed

lemma bit_or_host: "host < 64 \<Longrightarrow> bit (w OR host_bit host) k \<longleftrightarrow> bit (w::u64) k \<or> k = unat host"
  by (auto simp: bit_or_iff bit_host_bit)

text \<open>An acknowledgement that is accepted and changes something.\<close>

definition ack_masks :: "RetirementPhase \<Rightarrow> HostId \<Rightarrow> u16 \<Rightarrow> RetirementControl \<Rightarrow> RetirementControl" where
  "ack_masks ph host n r =
     (case ph of
        kClosing \<Rightarrow> let r1 = r\<lparr>closed := closed r OR host_bit host\<rparr> in if closed r1 = all_hosts n then set_phase kDraining r1 else r1
      | kDraining \<Rightarrow> let r1 = r\<lparr>drained := drained r OR host_bit host\<rparr> in if drained r1 = all_hosts n then set_phase kCleaning r1 else r1
      | kCleaning \<Rightarrow> let r1 = r\<lparr>cleaned := cleaned r OR host_bit host\<rparr> in if cleaned r1 = all_hosts n then set_phase kReclaimable r1 else r1
      | _ \<Rightarrow> r)"

lemma AcknowledgeRetirement_cases:
  assumes snap: "snapshot_of t M"
  obtains st where "AcknowledgeRetirement A M t host cursors = (st, M)"
  | w where "AcknowledgeRetirement A M t host cursors =
      (kOk, set_retirement (ack_masks kClosing host (rs_host_count (Retirement M)) ((retirement (header M))\<lparr>watermarks := w\<rparr>))
        (set_descriptor (gp_offset (rs_object (Retirement M))) (\<lambda>d. d\<lparr>ad_sealed_hosts := ad_sealed_hosts d OR host_bit host\<rparr>) M))"
      "rs_phase (Retirement M) = kClosing" "host < rs_host_count (Retirement M)" "ad_active_operations (object_at M) host = 0"
  | ph where "AcknowledgeRetirement A M t host cursors =
      (kOk, set_retirement (ack_masks ph host (rs_host_count (Retirement M)) (retirement (header M))) M)"
      "rs_phase (Retirement M) = ph" "ph \<in> {kDraining, kCleaning}" "host < rs_host_count (Retirement M)"
proof (cases "rs_sequence (Retirement M) = rs_sequence t \<and> rs_phase (Retirement M) = rs_phase t \<and> host < rs_host_count t")
  case False
  then show thesis by (intro that(1) [of kFailedPrecondition]) (auto simp: AcknowledgeRetirement_def Let_def Retirement_def not_le)
next
  case True
  then have t: "rs_object t = rs_object (Retirement M)" "rs_host_count t = rs_host_count (Retirement M)" "rs_phase t = rs_phase (Retirement M)"
    and h: "host < rs_host_count (Retirement M)" using snap by (auto simp: snapshot_of_def)
  note d = AcknowledgeRetirement_def Let_def ack_masks_def
  have g: "\<not> (rs_sequence (current (retirement (header M))) \<noteq> rs_sequence t \<or> rs_phase (current (retirement (header M))) \<noteq> rs_phase t \<or> rs_host_count t \<le> host)"
    using True by (auto simp: Retirement_def)
  show thesis
  proof (cases "rs_phase (Retirement M)")
    case kClosing
    show thesis
    proof (cases "FindDescriptorLocked A M (rs_object t) True")
      case (Inl st)
      then show thesis using g kClosing t by (intro that(1) [of st]) (simp add: d)
    next
      case (Inr x)
      have x: "x = object_at M" using FindDescriptorLocked_Inr(1) [OF Inr] t by (simp add: object_at_def)
      show thesis
      proof (cases "ad_active_operations x host = 0")
        case False
        then show thesis using g kClosing t Inr by (intro that(1) [of kUnavailable]) (simp add: d)
      next
        case act: True
        show thesis using g kClosing t Inr act h x
          by (intro that(2) [of "(watermarks (retirement (header M)))(host := cursors)"]) (simp_all add: d set_phase_def)
      qed
    qed
  next
    case kDraining
    show thesis
    proof (cases "\<exists>producer \<in> set (hosts_below (rs_host_count t)). producer \<noteq> host \<and> cursors producer < watermarks (retirement (header M)) producer host")
      case True
      then show thesis using g t kDraining by (intro that(1) [of kUnavailable]) (simp add: d)
    next
      case False
      then show thesis using g t h kDraining by (intro that(3) [of kDraining]) (simp_all add: d)
    qed
  next
    case kCleaning
    then show thesis using g t h by (intro that(3) [of kCleaning]) (simp_all add: d)
  next
    case kIdle
    then show thesis using g t by (intro that(1) [of kOk]) (simp add: d)
  next
    case kReclaimable
    then show thesis using g t by (intro that(1) [of kOk]) (simp add: d)
  qed
qed

lemma inv_acknowledge:
  assumes inv: "heap_inv D C M" and snap: "snapshot_of t M" and run: "AcknowledgeRetirement A M t host cursors = (st, M')"
  shows "heap_inv D C M'"
proof -
  let ?r = "retirement (header M)" and ?n = "rs_host_count (Retirement M)"
  let ?off = "gp_offset (rs_object (Retirement M))"
  have ok: "heap_ok D C M" and seals: "seals_ok M" and masks: "masks_ok M" using inv by (auto simp: heap_inv_def retire_ok_def)
  have cur: "current ?r = Retirement M" by (simp add: Retirement_def)
  show ?thesis
  proof (cases rule: AcknowledgeRetirement_cases [OF snap, of A host cursors])
    case (1 st)
    then show ?thesis using inv run by simp
  next
    case (2 w)
    let ?f = "\<lambda>d. d\<lparr>ad_sealed_hosts := ad_sealed_hosts d OR host_bit host\<rparr>"
    let ?r' = "ack_masks kClosing host ?n (?r\<lparr>watermarks := w\<rparr>)"
    have M': "M' = set_retirement ?r' (set_descriptor ?off ?f M)" using 2(1) run by simp
    have off: "?off \<in> live M" and n: "?n \<le> 64" using masks 2(2) by (auto simp: masks_ok_def Let_def cur)
    have h: "host < 64" using 2(3) n by (rule less_le_trans)
    have retiring: "ad_state (descriptors M ?off) = ObjectRetiring" using seals off 2(2) by (simp add: seals_ok_def Let_def)
    have "heap_ok D C (set_descriptor ?off ?f M)"
      by (rule heap_set_descriptor [OF ok])
        (use object_ok_live [OF ok off] off in \<open>simp_all add: data_block_def coherence_block_def object_ok_def\<close>)
    then have "heap_ok D C M'" by (simp add: M' heap_set_retirement)
    moreover have R: "Retirement M' = (Retirement M)\<lparr>rs_phase := (if closed ?r OR host_bit host = all_hosts ?n then kDraining else kClosing)\<rparr>"
      using 2(2) by (auto simp: M' Retirement_def ack_masks_def Let_def set_phase_def)
    have ds: "descriptors M' = (descriptors M)(?off := ?f (descriptors M ?off))" "live M' = live M" by (simp_all add: M')
    have "seals_ok M'" using seals off retiring 2(2,4) h unfolding seals_ok_def R Let_def ds
      by (auto simp: bit_or_host object_at_def word_unat_eq_iff [symmetric])
    moreover have "masks_ok M'"
    proof -
      have m: "closed (retirement (header M')) = closed ?r OR host_bit host" "drained (retirement (header M')) = drained ?r"
        "cleaned (retirement (header M')) = cleaned ?r" "current (retirement (header M')) = Retirement M'"
        by (simp_all add: M' ack_masks_def Let_def set_phase_def Retirement_def)
      have o: "object_at M' = ?f (object_at M)" by (simp add: object_at_def R ds)
      show ?thesis using masks off n 2(2,3) unfolding masks_ok_def Let_def m o cur R ds
        by (auto simp: bit_or_host [OF h] word_less_nat_alt)
    qed
    ultimately show ?thesis by (simp add: heap_inv_def retire_ok_def)
  next
    case (3 ph)
    have M': "M' = set_retirement (ack_masks ph host ?n ?r) M" using 3(1) run by simp
    have off: "?off \<in> live M" and n: "?n \<le> 64" using masks 3(2,3) by (auto simp: masks_ok_def Let_def cur)
    have h: "host < 64" using 3(4) n by (rule less_le_trans)
    define ph' where "ph' = (if ph = kDraining then if drained ?r OR host_bit host = all_hosts ?n then kCleaning else kDraining
      else if cleaned ?r OR host_bit host = all_hosts ?n then kReclaimable else kCleaning)"
    have R: "Retirement M' = (Retirement M)\<lparr>rs_phase := ph'\<rparr>" "ph' \<noteq> kIdle"
      using 3(2,3) by (auto simp: M' Retirement_def ack_masks_def Let_def set_phase_def ph'_def)
    have p: "ph' = kCleaning \<or> ph' = ph \<or> ph' = kReclaimable \<and> ph = kCleaning"
      "ph = kDraining \<and> ph' = kCleaning \<longrightarrow> drained ?r OR host_bit host = all_hosts ?n" "ph' = kReclaimable \<longrightarrow> cleaned ?r OR host_bit host = all_hosts ?n"
      using 3(3) by (auto simp: ph'_def)
    have ds: "descriptors M' = descriptors M" "live M' = live M" by (simp_all add: M')
    have "heap_ok D C M'" using ok by (simp add: M' heap_set_retirement)
    moreover have "seals_ok M'" using seals R(2) 3(2,3) unfolding seals_ok_def R(1) Let_def ds by auto
    moreover have "masks_ok M'"
    proof -
      have m: "closed (retirement (header M')) = closed ?r"
        "drained (retirement (header M')) = (if ph = kDraining then drained ?r OR host_bit host else drained ?r)"
        "cleaned (retirement (header M')) = (if ph = kCleaning then cleaned ?r OR host_bit host else cleaned ?r)"
        "current (retirement (header M')) = Retirement M'"
        using 3(3) by (auto simp: M' ack_masks_def Let_def set_phase_def Retirement_def)
      have o: "object_at M' = object_at M" by (simp add: object_at_def R ds)
      show ?thesis using masks off n 3(2,3,4) p unfolding masks_ok_def Let_def m o cur R(1) ds
        by (auto simp: bit_or_host [OF h] word_less_nat_alt)
    qed
    ultimately show ?thesis by (simp add: heap_inv_def retire_ok_def)
  qed
qed

section \<open>Reachable memories\<close>

text \<open>The hosts agree on the layout of the shared region, and each allocator carries its own host.\<close>

definition same_layout :: "(HostId \<Rightarrow> SharedExtentAllocator) \<Rightarrow> u64 \<Rightarrow> u64 \<Rightarrow> bool" where
  "same_layout al doff dbytes \<longleftrightarrow> (\<forall>h. initialized (al h) \<and> unat (local_host (al h)) < kMaxHosts \<and>
     expected_data_offset (al h) = doff \<and> expected_data_bytes (al h) = dbytes)"

definition fresh_memory :: "AllocatorHeader \<Rightarrow> AllocatorMemory" where
  "fresh_memory h = \<lparr>header = h, descriptors = (\<lambda>_. default_descriptor), coherence_blocks = (\<lambda>_. default_block)\<rparr>"

definition coherence_first :: "u64 \<Rightarrow> u64" where
  "coherence_first coff = AlignUp (coff + sizeof_CoherenceRegionHeader) alignof_descriptor"

definition coherence_pool :: "u64 \<Rightarrow> u64 \<Rightarrow> nat set" where
  "coherence_pool coff cbytes = {unat (coherence_first coff)..<unat coff + unat cbytes}"

lemma format_fields:
  assumes "FormatSharedAllocator sz region doff dbytes coff cbytes = Inr h"
  shows "640 < unat dbytes" "coherence_first coff < coff + cbytes"
    "extents h = format_extents doff dbytes (coherence_first coff) (coff + cbytes - coherence_first coff)"
    "allocations h = replicate kMaxAllocationSlots \<lparr>sl_object_offset = 0, sl_readers = 0\<rparr>" "retirement h = idle_control"
    "ah_extent_node_capacity h = kMaxSharedExtentNodes"
  using assms by (auto simp: FormatSharedAllocator_def coherence_first_def Let_def sizeof_AllocationDescriptor_def
      word_le_nat_alt word_less_nat_alt split: if_splits)

lemma fresh_inv:
  assumes f: "FormatSharedAllocator sz region doff dbytes coff cbytes = Inr h"
    and data: "unat doff + unat dbytes < 2 ^ 64" and coh: "unat coff + unat cbytes < 2 ^ 64"
  shows "heap_inv (block doff dbytes) (coherence_pool coff cbytes) (fresh_memory h)"
proof -
  let ?first = "coherence_first coff"
  note c = format_fields(1,2) [OF f] and h = format_fields(3-6) [OF f]
  have e: "unat (coff + cbytes) = unat coff + unat cbytes" using coh by (intro unat_add_no_wrap) simp
  have s: "unat (coff + cbytes - ?first) = unat coff + unat cbytes - unat ?first" and lt: "unat ?first < unat coff + unat cbytes"
    using c(2) e unat_sub_no_wrap [of ?first "coff + cbytes"] by (auto simp: word_less_nat_alt word_le_nat_alt)
  have nz: "dbytes \<noteq> 0" "coff + cbytes - ?first \<noteq> 0" using c(1) s lt by (auto simp: word_unat_eq_iff)
  note ff = format_free [OF nz(1) data nz(2) _ h(1)]
  have free: "extents_wf (extents h)" "free_addresses (extents h) DataPool = block doff dbytes"
    "free_addresses (extents h) CoherencePool = coherence_pool coff cbytes"
    using ff s lt coh by (auto simp: block_def coherence_pool_def)
  have "live (fresh_memory h) = {}" "slots_ok (fresh_memory h)"
    by (auto simp: live_def slots_def fresh_memory_def h(2) slots_ok_def nth_replicate)
  then show ?thesis using free h(3,4)
    by (simp add: heap_inv_def heap_ok_def retire_ok_def seals_ok_def masks_ok_def fresh_memory_def shared_out_def
        default_descriptor_def idle_control_def idle_snapshot_def)
qed

lemma step_inv:
  assumes "heap_step al M M'" and "heap_inv D C M" and "\<And>h. unat (local_host (al h)) < kMaxHosts"
  shows "heap_inv D C M'"
  using assms(1)
proof (cases rule: heap_step.cases)
  case (allocate h opts r)
  show ?thesis by (rule inv_allocate [OF assms(2,3) allocate])
next
  case (acquire h g host b r)
  show ?thesis by (rule inv_acquire [OF assms(2) acquire])
next
  case (release off host st)
  show ?thesis by (rule inv_release [OF assms(2) release])
next
  case (retire h g n r)
  show ?thesis by (rule inv_retire [OF assms(2) retire])
next
  case (acknowledge t h host cursors st)
  show ?thesis by (rule inv_acknowledge [OF assms(2) acknowledge])
next
  case (reclaim h g st)
  show ?thesis by (rule inv_reclaim [OF assms(2) reclaim])
next
  case (replicas off v)
  show ?thesis unfolding replicas by (rule inv_replicas [OF assms(2)])
next
  case (blocks bs)
  have "retire_ok M'" unfolding blocks(1) by (rule retire_frame) (use assms(2) in \<open>auto simp: heap_inv_def\<close>)
  then show ?thesis using assms(2) by (simp add: heap_inv_def blocks heap_blocks)
qed

lemma reach_inv:
  assumes "heap_reach al M0 M" and "heap_inv D C M0" and "\<And>h. unat (local_host (al h)) < kMaxHosts"
  shows "heap_inv D C M"
  using assms(1) by (induction rule: heap_reach.induct) (use assms(2,3) step_inv in blast)+

section \<open>Looking up live objects\<close>

lemma block_subset: "block a n \<subseteq> block b m \<Longrightarrow> n \<noteq> 0 \<Longrightarrow> unat b \<le> unat a \<and> unat a + unat n \<le> unat b + unat m"
proof -
  assume s: "block a n \<subseteq> block b m" and "n \<noteq> 0"
  then have "0 < unat n" by (simp add: unat_gt_0)
  then have "unat a \<in> block a n" "unat a + unat n - 1 \<in> block a n" by (auto simp: block_def)
  then have "unat a \<in> block b m" "unat a + unat n - 1 \<in> block b m" using s by blast+
  then show ?thesis by (auto simp: block_def)
qed

lemma find_live:
  assumes ok: "heap_ok (block doff dbytes) C M" and off: "off \<in> live M" and bound: "unat doff + unat dbytes < 2 ^ 64"
    and A: "initialized A" "expected_data_offset A = doff" "expected_data_bytes A = dbytes"
    and st: "ad_state (descriptors M off) = ObjectAllocated \<or> b"
  shows "FindDescriptorLocked A M \<lparr>region_id = 0, gp_offset = off\<rparr> b = Inr (descriptors M off)"
proof -
  let ?d = "descriptors M off"
  have ob: "object_ok off ?d" by (rule object_ok_live [OF ok off])
  have "data_block ?d \<subseteq> block doff dbytes" using ok off by (auto simp: heap_ok_def shared_out_def)
  moreover have nz: "ad_data_extent_bytes ?d \<noteq> 0" using ob unat_gt_0 [of "ad_bytes ?d"] by (auto simp: object_ok_def)
  ultimately have r: "unat doff \<le> unat (ad_data_extent_offset ?d)"
    "unat (ad_data_extent_offset ?d) + unat (ad_data_extent_bytes ?d) \<le> unat doff + unat dbytes"
    unfolding data_block_def by (auto dest: block_subset)
  have o: "unat doff + 640 \<le> unat off" "unat off + unat (ad_bytes ?d) \<le> unat doff + unat dbytes" "0 < unat (ad_bytes ?d)"
    using ob r by (auto simp: object_ok_def unat_gt_0)
  have e: "unat (doff + dbytes) = unat doff + unat dbytes" using bound by (intro unat_add_no_wrap) simp
  have s: "unat (doff + sizeof_AllocationDescriptor) = unat doff + 640"
    using o bound by (subst unat_add_no_wrap) (auto simp: sizeof_AllocationDescriptor_def)
  have "640 \<le> off" using o by (simp add: word_le_nat_alt)
  then have m: "(off - sizeof_AllocationDescriptor) mod alignof_descriptor = 0"
    using ob unat_sub_no_wrap [of 640 off]
    by (simp add: word_unat_eq_iff unat_mod sizeof_AllocationDescriptor_def alignof_descriptor_def object_ok_def)
  have l: "unat (doff + dbytes - off) = unat doff + unat dbytes - unat off"
    using e o unat_sub_no_wrap [of off "doff + dbytes"] by (simp add: word_le_nat_alt)
  have "ad_state ?d = ObjectAllocated \<or> b \<and> ad_state ?d = ObjectRetiring"
    using st ob by (cases "ad_state ?d") (auto simp: object_ok_def)
  then show ?thesis using A o e s m l ob
    by (auto simp: FindDescriptorLocked_def Let_def word_less_nat_alt word_le_nat_alt object_ok_def kMaxHosts_def)
qed

lemma Describe_live:
  assumes ok: "heap_ok (block doff dbytes) C M" and off: "off \<in> live M" and bound: "unat doff + unat dbytes < 2 ^ 64"
    and A: "initialized A" "expected_data_offset A = doff" "expected_data_bytes A = dbytes"
    and st: "ad_state (descriptors M off) = ObjectAllocated"
  shows "Describe A M \<lparr>region_id = 0, gp_offset = off\<rparr> =
    (let d = descriptors M off in
     (Inr \<lparr>ai_gptr = \<lparr>region_id = 0, gp_offset = off\<rparr>, ai_bytes = ad_bytes d, ai_alignment = ad_alignment d, ai_owner_host = ad_owner_host d,
        ai_coherence_block_bytes = ad_coherence_block_bytes d, ai_coherence_block_count = ad_coherence_block_count d,
        ai_coherence_metadata_offset = ad_coherence_metadata_offset d\<rparr>, M))"
proof -
  let ?g = "\<lparr>region_id = 0, gp_offset = off\<rparr>"
  have so: "slots_ok M" using ok by (simp add: heap_ok_def)
  obtain i where i: "LockAllocationSlot A M ?g = (Inr i, set_slot i (\<lambda>s. s\<lparr>sl_readers := sl_readers s + 1\<rparr>) M)" "i < length (slots M)"
    using LockAllocationSlot_live [OF A(1) _ _ so, of ?g] off by auto
  have f: "FindDescriptorLocked A (set_slot i (\<lambda>s. s\<lparr>sl_readers := sl_readers s + 1\<rparr>) M) ?g False = Inr (descriptors M off)"
    using find_live [OF ok off bound A, of False] st by (subst FindDescriptorLocked_cong [of _ M]) simp_all
  show ?thesis using st by (simp add: Describe_def i f UnlockSlot_lock [OF i(2)] Let_def)
qed

section \<open>A run\<close>

text \<open>One host formats a small region, allocates an object, retires it alone and reclaims it.\<close>

definition sample_al :: "HostId \<Rightarrow> SharedExtentAllocator" where
  "sample_al h = \<lparr>region_bytes = 0x100000, local_host = h AND 63, expected_data_offset = 0x10000, expected_data_bytes = 0x40000,
     coherence_header = Some \<lparr>cr_magic = kCoherenceRegionMagic, cr_layout_version = kCoherenceRegionLayoutVersion,
       cr_header_bytes = 64, cr_region_offset = 0x1000, cr_region_bytes = 0x8000\<rparr>,
     default_block_bytes = 4096, initialized = True\<rparr>"

definition sample_header :: AllocatorHeader where
  "sample_header = projr (FormatSharedAllocator 0x3E000 0x40000 0x10000 0x40000 0x1000 0x8000)"

definition sample_opts :: AllocationOptions where
  "sample_opts = \<lparr>ao_bytes = 5000, ao_alignment = 128, ao_coherence_block_bytes = 0\<rparr>"

lemma sample_format: "FormatSharedAllocator 0x3E000 0x40000 0x10000 0x40000 0x1000 0x8000 = Inr sample_header"
  by (simp add: sample_header_def FormatSharedAllocator_def Let_def sizeof_AllocationDescriptor_def sizeof_CoherenceRegionHeader_def
      alignof_descriptor_def AlignUp_def max_def)

lemma sample_layout: "same_layout sample_al 0x10000 0x40000"
proof -
  have "unat (h AND 63) < 64" for h :: HostId
  proof -
    have "h AND 63 \<le> 63" by (rule word_and_le1)
    then show ?thesis by (simp add: word_le_nat_alt)
  qed
  then show ?thesis by (simp add: same_layout_def sample_al_def kMaxHosts_def)
qed

lemma sample_inv: "heap_inv (block 0x10000 0x40000) (coherence_pool 0x1000 0x8000) (fresh_memory sample_header)"
  by (rule fresh_inv [OF sample_format]) simp_all

lemma sample_first: "coherence_first 0x1000 = 0x1040"
  by (simp add: coherence_first_def sizeof_CoherenceRegionHeader_def alignof_descriptor_def AlignUp_def max_def)

lemma sample_request: "request_ok (sample_al 0) sample_opts"
  by (simp add: request_ok_def block_count_of_def block_bytes_of_def sample_opts_def sample_al_def
      sizeof_CoherenceBlockDescriptor_def sizeof_AllocationDescriptor_def)

lemma sample_room: "\<not> no_room (data_bytes_of sample_opts) (coherence_bytes_of (sample_al 0) sample_opts) (fresh_memory sample_header)"
proof -
  let ?M = "fresh_memory sample_header"
  have h: "extents (header ?M) = format_extents 0x10000 0x40000 0x1040 0x7FC0"
    "slots ?M = replicate kMaxAllocationSlots \<lparr>sl_object_offset = 0, sl_readers = 0\<rparr>"
    using format_fields(3,4) [OF sample_format] by (simp_all add: fresh_memory_def slots_def sample_first)
  note f = format_free [OF _ _ _ _ h(1)]
  have free: "free_addresses (extents (header ?M)) DataPool = {0x10000..<0x50000}"
    "free_addresses (extents (header ?M)) CoherencePool = {0x1040..<0x9000}" "spare_nodes (extents (header ?M)) = 4094"
    using f by (simp_all add: block_def)
  have "\<exists>s \<in> set (slots ?M). empty_slot s" by (simp add: h(2) kMaxAllocationSlots_def empty_slot_def)
  moreover have "\<exists>a. 64 dvd a \<and> {a..<a + unat (data_bytes_of sample_opts)} \<subseteq> {0x10000..<0x50000}"
    by (rule exI [of _ "0x10000"]) (simp add: data_bytes_of_def sample_opts_def sizeof_AllocationDescriptor_def)
  moreover have "\<exists>a. 64 dvd a \<and> {a..<a + unat (coherence_bytes_of (sample_al 0) sample_opts)} \<subseteq> {0x1040..<0x9000}"
    by (rule exI [of _ "0x1040"]) (simp add: coherence_bytes_of_def block_count_of_def block_bytes_of_def sample_al_def sample_opts_def
        sizeof_CoherenceBlockDescriptor_def)
  ultimately show ?thesis unfolding no_room_def free by auto
qed

lemma sample_allocated:
  "\<exists>off M. Allocate (sample_al 0) (fresh_memory sample_header) sample_opts = Some (Inr \<lparr>region_id = 0, gp_offset = off\<rparr>, M) \<and>
     live M = {off} \<and> ad_state (descriptors M off) = ObjectAllocated \<and> ad_owner_host (descriptors M off) = 0 \<and>
     ad_replica_hosts (descriptors M off) = 0 \<and> ad_active_operations (descriptors M off) = (\<lambda>_. 0) \<and>
     ad_sealed_hosts (descriptors M off) = 0 \<and> retirement (header M) = idle_control \<and> 2 \<le> spare_nodes (extents (header M))"
proof -
  let ?M = "fresh_memory sample_header"
  have ok: "heap_ok (block 0x10000 0x40000) (coherence_pool 0x1000 0x8000) ?M" using sample_inv by (simp add: heap_inv_def)
  have own: "unat (local_host (sample_al 0)) < kMaxHosts" by (simp add: sample_al_def kMaxHosts_def)
  have h: "slots ?M = replicate kMaxAllocationSlots \<lparr>sl_object_offset = 0, sl_readers = 0\<rparr>" "retirement (header ?M) = idle_control"
    using format_fields [OF sample_format] by (simp_all add: fresh_memory_def slots_def)
  have l: "live ?M = {}" by (auto simp: live_def h(1))
  show ?thesis
  proof (cases rule: Allocate_cases [OF ok sample_request own])
    case (1 off M' de ce)
    have "spare_nodes (extents (header ?M)) = 4094"
      using format_free(4) [OF _ _ _ _ format_fields(3) [OF sample_format]] by (simp add: fresh_memory_def sample_first)
    then have "2 \<le> spare_nodes (extents (header M'))" using 1(8) by simp
    then show ?thesis using 1(1,4,7) h(2) l
      by (intro exI [of _ off] exI [of _ M']) (simp add: 1(6) new_descriptor_def default_descriptor_def sample_al_def)
  next
    case 2
    then show ?thesis using sample_room by blast
  qed
qed

lemma sample_retired:
  "\<exists>M off. heap_reach sample_al (fresh_memory sample_header) M \<and> may_free (sample_al 0) \<lparr>region_id = 0, gp_offset = off\<rparr> M"
proof -
  let ?M0 = "fresh_memory sample_header" and ?A = "sample_al 0" and ?D = "block 0x10000 0x40000" and ?C = "coherence_pool 0x1000 0x8000"
  obtain off M1 where a: "Allocate ?A ?M0 sample_opts = Some (Inr \<lparr>region_id = 0, gp_offset = off\<rparr>, M1)"
    "live M1 = {off}" "ad_state (descriptors M1 off) = ObjectAllocated" "ad_owner_host (descriptors M1 off) = 0"
    "ad_replica_hosts (descriptors M1 off) = 0" "ad_active_operations (descriptors M1 off) = (\<lambda>_. 0)"
    "ad_sealed_hosts (descriptors M1 off) = 0" "retirement (header M1) = idle_control" "2 \<le> spare_nodes (extents (header M1))"
    using sample_allocated by blast
  let ?g = "\<lparr>region_id = 0, gp_offset = off\<rparr>"
  have lay: "initialized ?A" "expected_data_offset ?A = 0x10000" "expected_data_bytes ?A = 0x40000" "local_host ?A = 0"
    by (simp_all add: sample_al_def)
  have hosts: "\<And>h. unat (local_host (sample_al h)) < kMaxHosts" using sample_layout by (simp add: same_layout_def)
  have reach1: "heap_reach sample_al ?M0 M1" using heap_reach.step [OF heap_reach.start heap_step.allocate [where al = sample_al, OF a(1)]] .
  have inv: "heap_inv ?D ?C M" if "heap_reach sample_al ?M0 M" for M by (rule reach_inv [OF that sample_inv hosts])
  have ok1: "heap_ok ?D ?C M1" using inv [OF reach1] by (simp add: heap_inv_def)
  let ?c = "\<lparr>rs_phase = kClosing, rs_object = ?g, rs_sequence = 1, rs_coordinator = 0, rs_host_count = 1\<rparr>"
  define M2 where "M2 = snd (BeginRetire ?A M1 ?g 1)"
  have f1: "FindDescriptorLocked ?A M1 ?g False = Inr (descriptors M1 off)"
    by (rule find_live [OF ok1]) (use a lay in auto)
  have m2: "M2 = set_descriptor off (\<lambda>d. d\<lparr>ad_state := ObjectRetiring\<rparr>) (set_retirement (idle_control\<lparr>current := ?c\<rparr>) M1)"
    using a(4,8) lay by (simp add: M2_def BeginRetire_def f1 kMaxHosts_def idle_control_def idle_snapshot_def Let_def)
  have reach2: "heap_reach sample_al ?M0 M2"
    by (rule heap_reach.step [OF reach1 heap_step.retire [where h = 0 and g = ?g and n = 1 and r = "fst (BeginRetire ?A M1 ?g 1)"]]) (simp add: M2_def)
  have ok2: "heap_ok ?D ?C M2" using inv [OF reach2] by (simp add: heap_inv_def)
  have f2: "FindDescriptorLocked ?A M2 ?g True = Inr (descriptors M2 off)"
    by (rule find_live [OF ok2]) (use a lay m2 in auto)
  have one: "host_bit 0 = 1" "all_hosts 1 = 1" by (simp_all add: host_bit_def all_hosts_def)
  define ack where "ack M = AcknowledgeRetirement ?A M (Retirement M) 0 (\<lambda>_. 0)" for M
  have snap: "snapshot_of (Retirement M) M" for M by (simp add: snapshot_of_def)
  have step: "heap_reach sample_al ?M0 M \<Longrightarrow> heap_reach sample_al ?M0 (snd (ack M))" for M
    by (rule heap_reach.step, assumption) (rule heap_step.acknowledge [OF snap, where h = 0 and host = 0 and cursors = "\<lambda>_. 0" and st = "fst (ack M)"], simp add: ack_def)
  define M3 M4 M5 where "M3 = snd (ack M2)" and "M4 = snd (ack M3)" and "M5 = snd (ack M4)"
  have m3: "retirement (header M3) = idle_control\<lparr>current := ?c\<lparr>rs_phase := kDraining\<rparr>, closed := 1\<rparr>"
    "descriptors M3 off = (descriptors M2 off)\<lparr>ad_sealed_hosts := 1\<rparr>" "live M3 = live M2" "extents (header M3) = extents (header M2)"
    using a(6,7) f2
    by (simp_all add: M3_def ack_def m2 AcknowledgeRetirement_def Retirement_def one set_phase_def idle_control_def Let_def fun_eq_iff)
  have m4: "retirement (header M4) = idle_control\<lparr>current := ?c\<lparr>rs_phase := kCleaning\<rparr>, closed := 1, drained := 1\<rparr>"
    "descriptors M4 = descriptors M3" "live M4 = live M3" "extents (header M4) = extents (header M3)"
    using m3(1) by (simp_all add: M4_def ack_def AcknowledgeRetirement_def Retirement_def one set_phase_def idle_control_def Let_def)
  have m5: "retirement (header M5) = idle_control\<lparr>current := ?c\<lparr>rs_phase := kReclaimable\<rparr>, closed := 1, drained := 1, cleaned := 1\<rparr>"
    "descriptors M5 = descriptors M4" "live M5 = live M4" "extents (header M5) = extents (header M4)"
    using m4(1) by (simp_all add: M5_def ack_def AcknowledgeRetirement_def Retirement_def one set_phase_def idle_control_def Let_def)
  have reach5: "heap_reach sample_al ?M0 M5" unfolding M5_def M4_def M3_def by (intro step reach2)
  have ok5: "heap_ok ?D ?C M5" using inv [OF reach5] by (simp add: heap_inv_def)
  have l5: "off \<in> live M5" using a(2) by (simp add: m5 m4 m3 m2)
  have "FindDescriptorLocked ?A M5 ?g True = Inr (descriptors M5 off)"
    by (rule find_live [OF ok5 l5]) (use lay in auto)
  moreover have "descriptors M5 off = (descriptors M1 off)\<lparr>ad_state := ObjectRetiring, ad_sealed_hosts := 1\<rparr>"
    by (simp add: m5 m4 m3 m2)
  ultimately have "may_free ?A ?g M5" using l5 a lay
    by (simp add: may_free_def Retirement_def m5(1,4) m4(4) m3(4) m2 idle_control_def)
  then show ?thesis using reach5 by blast
qed

section \<open>Properties\<close>

text \<open>
  C2. In every memory the hosts can reach, whatever they allocate, pin, retire and reclaim and in
  whatever order, the free addresses and the blocks of the live objects partition the data region and
  the coherence pool: nothing is lost and nothing is handed out twice.  Every live object lies, aligned
  and with its descriptor, inside its own block.
\<close>

theorem heap_partition:
  assumes "FormatSharedAllocator sz region doff dbytes coff cbytes = Inr h"
    and "unat doff + unat dbytes < 2 ^ 64" and "unat coff + unat cbytes < 2 ^ 64"
    and "same_layout al doff dbytes" and "heap_reach al (fresh_memory h) M"
  shows "shared_out (block doff dbytes) (free_addresses (extents (header M)) DataPool) (live M) (\<lambda>off. data_block (descriptors M off)) \<and>
    shared_out (coherence_pool coff cbytes) (free_addresses (extents (header M)) CoherencePool) (live M) (\<lambda>off. coherence_block (descriptors M off)) \<and>
    (\<forall>off \<in> live M. object_ok off (descriptors M off))"
  using reach_inv [OF assms(5) fresh_inv [OF assms(1-3)]] assms(4) by (simp add: heap_inv_def heap_ok_def same_layout_def)

theorem heap_partition_witness:
  "\<exists>M off. heap_reach sample_al (fresh_memory sample_header) M \<and> live M = {off} \<and> object_ok off (descriptors M off) \<and>
     {65536..<327680} = free_addresses (extents (header M)) DataPool \<union> data_block (descriptors M off)"
proof -
  obtain off M where a: "Allocate (sample_al 0) (fresh_memory sample_header) sample_opts = Some (Inr \<lparr>region_id = 0, gp_offset = off\<rparr>, M)" "live M = {off}"
    using sample_allocated by blast
  have r: "heap_reach sample_al (fresh_memory sample_header) M"
    using heap_reach.step [OF heap_reach.start heap_step.allocate [where al = sample_al, OF a(1)]] .
  show ?thesis using heap_partition [OF sample_format _ _ sample_layout r] a(2) r
    by (intro exI [of _ M] exI [of _ off]) (simp add: shared_out_def block_def)
qed

text \<open>
  C22. Allocation always answers.  A valid request in a reachable memory gets a fresh object: aligned,
  inside the data region, its block disjoint from every live block, the other objects untouched, and any
  host that looks the pointer up reads back exactly what was asked for.  It is refused, with no object
  and no address changed, only when slots, metadata nodes or one of the pools are exhausted.
\<close>

theorem Allocate_correct:
  assumes "FormatSharedAllocator sz region doff dbytes coff cbytes = Inr h"
    and "unat doff + unat dbytes < 2 ^ 64" and "unat coff + unat cbytes < 2 ^ 64"
    and "same_layout al doff dbytes" and "heap_reach al (fresh_memory h) M" and "request_ok (al x) opts"
  shows "\<exists>r M'. Allocate (al x) M opts = Some (r, M') \<and>
    (case r of
       Inr g \<Rightarrow> gp_offset g \<notin> live M \<and> live M' = insert (gp_offset g) (live M) \<and>
         unat (ao_alignment opts) dvd unat (gp_offset g) \<and> block (gp_offset g) (ao_bytes opts) \<subseteq> block doff dbytes \<and>
         (\<forall>off \<in> live M. data_block (descriptors M off) \<inter> block (gp_offset g) (ao_bytes opts) = {} \<and> descriptors M' off = descriptors M off) \<and>
         (\<forall>y. \<exists>info. Describe (al y) M' g = (Inr info, M') \<and> ai_bytes info = ao_bytes opts \<and> ai_alignment info = ao_alignment opts \<and>
            ai_owner_host info = local_host (al x))
     | Inl st \<Rightarrow> st = kUnavailable \<and> live M' = live M \<and> descriptors M' = descriptors M \<and>
         free_addresses (extents (header M')) = free_addresses (extents (header M)) \<and>
         no_room (data_bytes_of opts) (coherence_bytes_of (al x) opts) M)"
proof -
  have own: "unat (local_host (al y)) < kMaxHosts" "initialized (al y)" "expected_data_offset (al y) = doff" "expected_data_bytes (al y) = dbytes" for y
    using assms(4) by (auto simp: same_layout_def)
  have ok: "heap_ok (block doff dbytes) (coherence_pool coff cbytes) M"
    using reach_inv [OF assms(5) fresh_inv [OF assms(1-3)] own(1)] by (simp add: heap_inv_def)
  show ?thesis
  proof (cases rule: Allocate_cases [OF ok assms(6) own(1)])
    case (2 t)
    then show ?thesis by (intro exI [of _ "Inl kUnavailable"] exI [of _ "set_extents t M"]) simp
  next
    case (1 off M' de ce)
    let ?d = "descriptors M' off"
    have d: "ad_state ?d = ObjectAllocated" "ad_bytes ?d = ao_bytes opts" "ad_alignment ?d = ao_alignment opts" "ad_owner_host ?d = local_host (al x)"
      by (simp_all add: 1(6) new_descriptor_def default_descriptor_def)
    have off: "off \<in> live M'" by (simp add: 1(4))
    have inside: "block off (ao_bytes opts) \<subseteq> data_block ?d"
      using 1(5) by (auto simp: object_ok_def block_def data_block_def d)
    have so: "data_block ?d \<subseteq> block doff dbytes" "\<And>y. y \<in> live M \<Longrightarrow> data_block (descriptors M' y) \<inter> data_block ?d = {}"
      using 1(2,3,4) by (auto simp: heap_ok_def shared_out_def)
    have same: "descriptors M' y = descriptors M y" if "y \<in> live M" for y using that 1(3) by (auto simp: 1(6))
    have "\<exists>info. Describe (al y) M' \<lparr>region_id = 0, gp_offset = off\<rparr> = (Inr info, M') \<and> ai_bytes info = ao_bytes opts \<and>
        ai_alignment info = ao_alignment opts \<and> ai_owner_host info = local_host (al x)" for y
      using Describe_live [OF 1(2) off assms(2) own(2-4) d(1), of y] by (simp add: d Let_def)
    moreover have "unat (ao_alignment opts) dvd unat off" using 1(5) by (simp add: object_ok_def d)
    moreover have "data_block (descriptors M y) \<inter> block off (ao_bytes opts) = {}" if "y \<in> live M" for y
      using so(2) [OF that] inside same [OF that] by auto
    ultimately show ?thesis using 1(1,3,4) same inside so(1)
      by (intro exI [of _ "Inr \<lparr>region_id = 0, gp_offset = off\<rparr>"] exI [of _ M']) auto
  qed
qed

theorem Allocate_correct_witness:
  "\<exists>g M'. Allocate (sample_al 0) (fresh_memory sample_header) sample_opts = Some (Inr g, M') \<and> live M' = {gp_offset g} \<and>
     128 dvd unat (gp_offset g) \<and> (\<exists>info. Describe (sample_al 1) M' g = (Inr info, M') \<and> ai_bytes info = 5000)"
proof -
  obtain off M where a: "Allocate (sample_al 0) (fresh_memory sample_header) sample_opts = Some (Inr \<lparr>region_id = 0, gp_offset = off\<rparr>, M)" "live M = {off}"
    using sample_allocated by blast
  show ?thesis using Allocate_correct [OF sample_format _ _ sample_layout heap_reach.start sample_request] a
    by (auto simp: sample_opts_def)
qed

text \<open>
  C3. Reclamation is all or nothing, and never early.  In a reachable memory \<^verbatim>\<open>Free\<close> either changes
  nothing and reports why, or it removes exactly the one object, returns exactly its two blocks and ends
  the transaction; and it succeeds only if every host has acknowledged closing, draining and cleaning, no
  host has an operation or a replica on the object, and the caller coordinates the retirement.
\<close>

theorem Free_correct:
  assumes "FormatSharedAllocator sz region doff dbytes coff cbytes = Inr h"
    and "unat doff + unat dbytes < 2 ^ 64" and "unat coff + unat cbytes < 2 ^ 64"
    and "same_layout al doff dbytes" and "heap_reach al (fresh_memory h) M"
  shows "\<exists>st M'. Free (al x) M g = Some (st, M') \<and>
    (if may_free (al x) g M
     then st = kOk \<and> reclaimed (al x) g M M' \<and>
       (\<forall>y < rs_host_count (Retirement M). bit (closed (retirement (header M))) (unat y) \<and> bit (drained (retirement (header M))) (unat y) \<and>
          bit (cleaned (retirement (header M))) (unat y) \<and> ad_active_operations (descriptors M (gp_offset g)) y = 0)
     else st \<noteq> kOk \<and> M' = M)"
proof -
  have inv: "heap_inv (block doff dbytes) (coherence_pool coff cbytes) M"
    using reach_inv [OF assms(5) fresh_inv [OF assms(1-3)]] assms(4) by (simp add: same_layout_def)
  then have ok: "heap_ok (block doff dbytes) (coherence_pool coff cbytes) M" and m: "masks_ok M" by (auto simp: heap_inv_def retire_ok_def)
  show ?thesis
  proof (cases rule: Free_cases [OF ok, of "al x" g])
    case (1 st)
    then show ?thesis by auto
  next
    case (2 M')
    have p: "rs_phase (Retirement M) = kReclaimable" using 2(3) by (simp add: may_free_def)
    then have n: "rs_host_count (Retirement M) \<le> 64" and all: "closed (retirement (header M)) = all_hosts (rs_host_count (Retirement M))"
      "drained (retirement (header M)) = all_hosts (rs_host_count (Retirement M))" "cleaned (retirement (header M)) = all_hosts (rs_host_count (Retirement M))"
      using m by (auto simp: masks_ok_def Let_def Retirement_def)
    have "unat y < kMaxHosts" if "y < rs_host_count (Retirement M)" for y
      using that n by (simp add: kMaxHosts_def word_less_nat_alt word_le_nat_alt)
    then have "\<forall>y < rs_host_count (Retirement M). bit (closed (retirement (header M))) (unat y) \<and> bit (drained (retirement (header M))) (unat y) \<and>
          bit (cleaned (retirement (header M))) (unat y) \<and> ad_active_operations (descriptors M (gp_offset g)) y = 0"
      using 2(3) unfolding all by (auto simp: bit_all_hosts [OF n] word_less_nat_alt may_free_def)
    then show ?thesis using 2(1,3,4) by auto
  qed
qed

theorem Free_correct_witness:
  "\<exists>M M' off. heap_reach sample_al (fresh_memory sample_header) M \<and> off \<in> live M \<and>
     Free (sample_al 0) M \<lparr>region_id = 0, gp_offset = off\<rparr> = Some (kOk, M') \<and> off \<notin> live M'"
proof -
  obtain M off where M: "heap_reach sample_al (fresh_memory sample_header) M" "may_free (sample_al 0) \<lparr>region_id = 0, gp_offset = off\<rparr> M"
    using sample_retired by blast
  obtain M' where "Free (sample_al 0) M \<lparr>region_id = 0, gp_offset = off\<rparr> = Some (kOk, M')"
    "reclaimed (sample_al 0) \<lparr>region_id = 0, gp_offset = off\<rparr> M M'"
    using Free_correct [OF sample_format _ _ sample_layout M(1), of 0 "\<lparr>region_id = 0, gp_offset = off\<rparr>"] M(2) by auto
  moreover have "off \<in> live M" using M(2) by (simp add: may_free_def)
  ultimately show ?thesis using M(1) by (intro exI [of _ M] exI [of _ M'] exI [of _ off]) (simp add: reclaimed_def)
qed


lemma sample_pinned:
  "\<exists>M off. heap_reach sample_al (fresh_memory sample_header) M \<and> off \<in> live M \<and> ad_active_operations (descriptors M off) 0 = 1"
proof -
  let ?M0 = "fresh_memory sample_header" and ?A = "sample_al 0"
  obtain off M1 where a: "Allocate ?A ?M0 sample_opts = Some (Inr \<lparr>region_id = 0, gp_offset = off\<rparr>, M1)"
    "live M1 = {off}" "ad_state (descriptors M1 off) = ObjectAllocated" "ad_active_operations (descriptors M1 off) = (\<lambda>_. 0)"
    "ad_sealed_hosts (descriptors M1 off) = 0" using sample_allocated by blast
  let ?g = "\<lparr>region_id = 0, gp_offset = off\<rparr>"
  have r: "heap_reach sample_al ?M0 M1" using heap_reach.step [OF heap_reach.start heap_step.allocate [where al = sample_al, OF a(1)]] .
  have hosts: "\<And>h. unat (local_host (sample_al h)) < kMaxHosts" using sample_layout by (simp add: same_layout_def)
  have ok: "heap_ok (block 0x10000 0x40000) (coherence_pool 0x1000 0x8000) M1"
    using reach_inv [OF r sample_inv hosts] by (simp add: heap_inv_def)
  have so: "slots_ok M1" using ok by (simp add: heap_ok_def)
  obtain i where i: "LockAllocationSlot ?A M1 ?g = (Inr i, set_slot i (\<lambda>s. s\<lparr>sl_readers := sl_readers s + 1\<rparr>) M1)" "i < length (slots M1)"
    using LockAllocationSlot_live [of ?A ?g M1] so a(2) by (auto simp: sample_al_def)
  have f: "FindDescriptorLocked ?A M1 ?g False = Inr (descriptors M1 off)"
    by (rule find_live [OF ok]) (use a in \<open>auto simp: sample_al_def\<close>)
  have f1: "FindDescriptorLocked ?A (set_slot i (\<lambda>s. s\<lparr>sl_readers := sl_readers s + 1\<rparr>) M1) ?g False = Inr (descriptors M1 off)"
    using f by (subst FindDescriptorLocked_cong [of _ M1]) simp_all
  have q: "AcquireReference ?A M1 ?g 0 False = (Inr off, set_descriptor off
      (\<lambda>d. d\<lparr>ad_active_operations := (ad_active_operations d)(0 := ad_active_operations d 0 + 1)\<rparr>) M1)"
    using a(3,5) UnlockSlot_lock [OF i(2)]
    by (simp add: AcquireReference_def i(1) f1 kMaxHosts_def UnlockSlot_def set_slot_commute)
  show ?thesis using heap_reach.step [OF r heap_step.acquire [where al = sample_al, OF q]] a(2,4) by fastforce
qed


end
