(* ===== verification/Cx_Token_Wire.thy ===== *)
theory Cx_Token_Wire
  imports Cx_Queue Cx_Wire
begin

text \<open>
  The five messages of the token protocol (\<^verbatim>\<open>include/cxloom/common/messages.h\<close>) and the templates
  \<^verbatim>\<open>Encode\<close> and \<^verbatim>\<open>Decode\<close> of \<^verbatim>\<open>src/loommem/token.cpp\<close>, which copy a message structure into the payload
  of a queue envelope and back.

  A structure's image is the concatenation of its fields on the supported ABI; padding is zero in the
  image and never read.  \<^verbatim>\<open>TokenCompletionReason\<close> has a fixed underlying type, so a payload may carry any
  16-bit value of it.
\<close>

section \<open>Messages\<close>

type_synonym TokenCompletionReason = u16

definition kReasonCancelled :: TokenCompletionReason where
  "kReasonCancelled = 0"

definition kReasonRetiring :: TokenCompletionReason where
  "kReasonRetiring = 1"

definition kReasonInvalidBlock :: TokenCompletionReason where
  "kReasonInvalidBlock = 2"

definition kReasonInvalidMetadata :: TokenCompletionReason where
  "kReasonInvalidMetadata = 3"

definition kReasonTooLate :: TokenCompletionReason where
  "kReasonTooLate = 5"

record TokenRequest =
  rq_header :: MessageHeader
  rq_object :: GlobalPointer
  rq_block_index :: u64
  rq_request_id :: u64
  rq_observed_version :: Version
  rq_requester :: HostId
  rq_activate_coherence_epoch :: bool

record TokenGrant =
  gr_header :: MessageHeader
  gr_object :: GlobalPointer
  gr_block_index :: u64
  gr_request_id :: u64
  gr_new_owner :: HostId
  gr_version :: Version
  gr_token_epoch :: u64
  gr_activate_coherence_epoch :: bool

record TokenReject =
  rj_header :: MessageHeader
  rj_object :: GlobalPointer
  rj_block_index :: u64
  rj_request_id :: u64
  rj_requester :: HostId
  rj_reason :: TokenCompletionReason

record TokenCancel =
  ca_header :: MessageHeader
  ca_object :: GlobalPointer
  ca_block_index :: u64
  ca_request_id :: u64
  ca_requester :: HostId

record TokenCancelAck =
  ak_header :: MessageHeader
  ak_object :: GlobalPointer
  ak_block_index :: u64
  ak_request_id :: u64
  ak_requester :: HostId
  ak_reason :: TokenCompletionReason

section \<open>Byte images\<close>

fun kind_code :: "MessageKind \<Rightarrow> u16" where
  "kind_code MsgInvalid = 0"
| "kind_code CreateReq = 1"
| "kind_code CreateAck = 2"
| "kind_code CompleteNotify = 3"
| "kind_code BarrierArrive = 4"
| "kind_code BarrierRelease = 5"
| "kind_code TokenReq = 6"
| "kind_code TokenGrantMsg = 7"
| "kind_code TokenRejectMsg = 8"
| "kind_code TokenCancelMsg = 9"
| "kind_code TokenCancelAckMsg = 10"
| "kind_code LoadUpdate = 11"
| "kind_code MigrateReq = 12"
| "kind_code MigrateAck = 13"
| "kind_code FunctionManifest = 14"

definition padding :: "nat \<Rightarrow> u8 list" where
  "padding n = replicate n 0"

text \<open>The first 48 bytes of every token message: header, object, block index and request identifier.\<close>

definition prefix_image :: "MessageHeader \<Rightarrow> GlobalPointer \<Rightarrow> u64 \<Rightarrow> u64 \<Rightarrow> u8 list" where
  "prefix_image h p block_index request_id =
     le_bytes 2 (kind_code (kind h)) @ le_bytes 2 (src_host h) @ le_bytes 2 (dst_host h) @ padding 2 @
     le_bytes 4 (payload_bytes h) @ padding 4 @ le_bytes 4 (region_id p) @ padding 4 @ le_bytes 8 (gp_offset p) @
     le_bytes 8 block_index @ le_bytes 8 request_id"

definition TokenRequest_image :: "TokenRequest \<Rightarrow> u8 list" where
  "TokenRequest_image r = prefix_image (rq_header r) (rq_object r) (rq_block_index r) (rq_request_id r) @
     le_bytes 8 (rq_observed_version r) @ le_bytes 2 (rq_requester r) @
     [of_bool (rq_activate_coherence_epoch r)] @ padding 5"

definition TokenGrant_image :: "TokenGrant \<Rightarrow> u8 list" where
  "TokenGrant_image g = prefix_image (gr_header g) (gr_object g) (gr_block_index g) (gr_request_id g) @
     le_bytes 2 (gr_new_owner g) @ padding 6 @ le_bytes 8 (gr_version g) @ le_bytes 8 (gr_token_epoch g) @
     [of_bool (gr_activate_coherence_epoch g)] @ padding 7"

definition TokenReject_image :: "TokenReject \<Rightarrow> u8 list" where
  "TokenReject_image r = prefix_image (rj_header r) (rj_object r) (rj_block_index r) (rj_request_id r) @
     le_bytes 2 (rj_requester r) @ le_bytes 2 (rj_reason r) @ padding 4"

definition TokenCancel_image :: "TokenCancel \<Rightarrow> u8 list" where
  "TokenCancel_image c = prefix_image (ca_header c) (ca_object c) (ca_block_index c) (ca_request_id c) @
     le_bytes 2 (ca_requester c) @ padding 6"

definition TokenCancelAck_image :: "TokenCancelAck \<Rightarrow> u8 list" where
  "TokenCancelAck_image a = prefix_image (ak_header a) (ak_object a) (ak_block_index a) (ak_request_id a) @
     le_bytes 2 (ak_requester a) @ le_bytes 2 (ak_reason a) @ padding 4"

text \<open>
  Reading a structure back.  The kind of the embedded header is given: \<^verbatim>\<open>Decode\<close> compares it with the
  kind of the envelope before it returns the value.
\<close>

definition read_header :: "MessageKind \<Rightarrow> u8 list \<Rightarrow> MessageHeader" where
  "read_header k bs = \<lparr>kind = k, src_host = le_word (field 2 2 bs), dst_host = le_word (field 4 2 bs),
     payload_bytes = le_word (field 8 4 bs)\<rparr>"

definition read_pointer :: "u8 list \<Rightarrow> GlobalPointer" where
  "read_pointer bs = \<lparr>region_id = le_word (field 16 4 bs), gp_offset = le_word (field 24 8 bs)\<rparr>"

definition read_TokenRequest :: "MessageKind \<Rightarrow> u8 list \<Rightarrow> TokenRequest" where
  "read_TokenRequest k bs = \<lparr>rq_header = read_header k bs, rq_object = read_pointer bs,
     rq_block_index = le_word (field 32 8 bs), rq_request_id = le_word (field 40 8 bs),
     rq_observed_version = le_word (field 48 8 bs), rq_requester = le_word (field 56 2 bs),
     rq_activate_coherence_epoch = (field 58 1 bs \<noteq> [0])\<rparr>"

definition read_TokenGrant :: "MessageKind \<Rightarrow> u8 list \<Rightarrow> TokenGrant" where
  "read_TokenGrant k bs = \<lparr>gr_header = read_header k bs, gr_object = read_pointer bs,
     gr_block_index = le_word (field 32 8 bs), gr_request_id = le_word (field 40 8 bs),
     gr_new_owner = le_word (field 48 2 bs), gr_version = le_word (field 56 8 bs),
     gr_token_epoch = le_word (field 64 8 bs), gr_activate_coherence_epoch = (field 72 1 bs \<noteq> [0])\<rparr>"

definition read_TokenReject :: "MessageKind \<Rightarrow> u8 list \<Rightarrow> TokenReject" where
  "read_TokenReject k bs = \<lparr>rj_header = read_header k bs, rj_object = read_pointer bs,
     rj_block_index = le_word (field 32 8 bs), rj_request_id = le_word (field 40 8 bs),
     rj_requester = le_word (field 48 2 bs), rj_reason = le_word (field 50 2 bs)\<rparr>"

definition read_TokenCancel :: "MessageKind \<Rightarrow> u8 list \<Rightarrow> TokenCancel" where
  "read_TokenCancel k bs = \<lparr>ca_header = read_header k bs, ca_object = read_pointer bs,
     ca_block_index = le_word (field 32 8 bs), ca_request_id = le_word (field 40 8 bs),
     ca_requester = le_word (field 48 2 bs)\<rparr>"

definition read_TokenCancelAck :: "MessageKind \<Rightarrow> u8 list \<Rightarrow> TokenCancelAck" where
  "read_TokenCancelAck k bs = \<lparr>ak_header = read_header k bs, ak_object = read_pointer bs,
     ak_block_index = le_word (field 32 8 bs), ak_request_id = le_word (field 40 8 bs),
     ak_requester = le_word (field 48 2 bs), ak_reason = le_word (field 50 2 bs)\<rparr>"

section \<open>Encode and Decode\<close>

definition sizeof_TokenRequest :: nat where
  "sizeof_TokenRequest = 64"

definition sizeof_TokenGrant :: nat where
  "sizeof_TokenGrant = 80"

definition sizeof_TokenReject :: nat where
  "sizeof_TokenReject = 56"

definition sizeof_TokenCancel :: nat where
  "sizeof_TokenCancel = 56"

definition sizeof_TokenCancelAck :: nat where
  "sizeof_TokenCancelAck = 56"

definition Encode :: "('t \<Rightarrow> MessageHeader) \<Rightarrow> ('t \<Rightarrow> u8 list) \<Rightarrow> nat \<Rightarrow> 't \<Rightarrow> QueueEnvelope" where
  "Encode hdr img size_t value = \<lparr>env_header = (hdr value)\<lparr>payload_bytes := of_nat size_t\<rparr>, env_payload = img value\<rparr>"

definition Decode :: "(MessageKind \<Rightarrow> u8 list \<Rightarrow> 't) \<Rightarrow> nat \<Rightarrow> QueueEnvelope \<Rightarrow> MessageKind \<Rightarrow> 't Result" where
  "Decode read size_t envelope k =
     (if kind (env_header envelope) \<noteq> k \<or> payload_bytes (env_header envelope) \<noteq> of_nat size_t \<or>
         length (env_payload envelope) \<noteq> size_t then Inl kInvalidArgument
      else let h = read_header k (env_payload envelope) in
        if le_word (field 0 2 (env_payload envelope)) \<noteq> kind_code (kind (env_header envelope)) \<or>
           src_host h \<noteq> src_host (env_header envelope) \<or> dst_host h \<noteq> dst_host (env_header envelope)
        then Inl kInvalidArgument
        else Inr (read k (env_payload envelope)))"

definition Encode_TokenRequest :: "TokenRequest \<Rightarrow> QueueEnvelope" where
  "Encode_TokenRequest = Encode rq_header TokenRequest_image sizeof_TokenRequest"

definition Encode_TokenGrant :: "TokenGrant \<Rightarrow> QueueEnvelope" where
  "Encode_TokenGrant = Encode gr_header TokenGrant_image sizeof_TokenGrant"

definition Encode_TokenReject :: "TokenReject \<Rightarrow> QueueEnvelope" where
  "Encode_TokenReject = Encode rj_header TokenReject_image sizeof_TokenReject"

definition Encode_TokenCancel :: "TokenCancel \<Rightarrow> QueueEnvelope" where
  "Encode_TokenCancel = Encode ca_header TokenCancel_image sizeof_TokenCancel"

definition Encode_TokenCancelAck :: "TokenCancelAck \<Rightarrow> QueueEnvelope" where
  "Encode_TokenCancelAck = Encode ak_header TokenCancelAck_image sizeof_TokenCancelAck"

definition Decode_TokenRequest :: "QueueEnvelope \<Rightarrow> MessageKind \<Rightarrow> TokenRequest Result" where
  "Decode_TokenRequest = Decode read_TokenRequest sizeof_TokenRequest"

definition Decode_TokenGrant :: "QueueEnvelope \<Rightarrow> MessageKind \<Rightarrow> TokenGrant Result" where
  "Decode_TokenGrant = Decode read_TokenGrant sizeof_TokenGrant"

definition Decode_TokenReject :: "QueueEnvelope \<Rightarrow> MessageKind \<Rightarrow> TokenReject Result" where
  "Decode_TokenReject = Decode read_TokenReject sizeof_TokenReject"

definition Decode_TokenCancel :: "QueueEnvelope \<Rightarrow> MessageKind \<Rightarrow> TokenCancel Result" where
  "Decode_TokenCancel = Decode read_TokenCancel sizeof_TokenCancel"

definition Decode_TokenCancelAck :: "QueueEnvelope \<Rightarrow> MessageKind \<Rightarrow> TokenCancelAck Result" where
  "Decode_TokenCancelAck = Decode read_TokenCancelAck sizeof_TokenCancelAck"

text \<open>The object a token packet is about, read at \<^verbatim>\<open>offsetof(TokenRequest, object)\<close> of any of the five structures.\<close>

definition packet_object :: "QueueEnvelope \<Rightarrow> GlobalPointer" where
  "packet_object envelope = read_pointer (env_payload envelope)"

section \<open>Round trips\<close>

lemma length_padding [simp]: "length (padding n) = n"
  by (simp add: padding_def)

lemma length_prefix_image [simp]: "length (prefix_image h p b r) = 48"
  by (simp add: prefix_image_def)

lemma prefix_fields:
  "le_word (field 0 2 (prefix_image h p b r @ rest)) = kind_code (kind h)"
  "read_header (kind h) (prefix_image h p b r @ rest) = h"
  "read_pointer (prefix_image h p b r @ rest) = p"
  "le_word (field 32 8 (prefix_image h p b r @ rest)) = b"
  "le_word (field 40 8 (prefix_image h p b r @ rest)) = r"
  by (simp_all add: read_header_def read_pointer_def prefix_image_def field_here field_skip)

lemma after_prefix: "48 \<le> n \<Longrightarrow> field n k (prefix_image h p b r @ rest) = field (n - 48) k rest"
  by (simp add: field_skip)

lemma field_byte: "field 0 (Suc 0) (b # bs) = [b]"
  by (simp add: field_def)

lemmas image_defs = TokenRequest_image_def TokenGrant_image_def TokenReject_image_def TokenCancel_image_def
  TokenCancelAck_image_def

lemmas read_defs = read_TokenRequest_def read_TokenGrant_def read_TokenReject_def read_TokenCancel_def
  read_TokenCancelAck_def

lemmas token_sizes = sizeof_TokenRequest_def sizeof_TokenGrant_def sizeof_TokenReject_def sizeof_TokenCancel_def
  sizeof_TokenCancelAck_def

lemmas field_simps_all = prefix_fields after_prefix field_here field_skip field_last field_byte

lemma read_image_TokenRequest: "read_TokenRequest (kind (rq_header x)) (TokenRequest_image x) = x"
  by (cases x) (simp add: image_defs read_defs field_simps_all)

lemma read_image_TokenGrant: "read_TokenGrant (kind (gr_header x)) (TokenGrant_image x) = x"
  by (cases x) (simp add: image_defs read_defs field_simps_all)

lemma read_image_TokenReject: "read_TokenReject (kind (rj_header x)) (TokenReject_image x) = x"
  by (cases x) (simp add: image_defs read_defs field_simps_all)

lemma read_image_TokenCancel: "read_TokenCancel (kind (ca_header x)) (TokenCancel_image x) = x"
  by (cases x) (simp add: image_defs read_defs field_simps_all)

lemma read_image_TokenCancelAck: "read_TokenCancelAck (kind (ak_header x)) (TokenCancelAck_image x) = x"
  by (cases x) (simp add: image_defs read_defs field_simps_all)

text \<open>The shape that every image has, and what decoding an encoded value then gives.\<close>

lemma image_lengths [simp]:
  "length (TokenRequest_image x) = 64" "length (TokenGrant_image g) = 80" "length (TokenReject_image j) = 56"
  "length (TokenCancel_image c) = 56" "length (TokenCancelAck_image a) = 56"
  by (simp_all add: image_defs)

lemma Decode_Encode:
  assumes "img x = prefix_image (hdr x) p b r @ rest" and "length (img x) = n"
    and "read (kind (hdr x)) (img x) = x"
  shows "Decode read n (Encode hdr img n x) k = (if kind (hdr x) = k then Inr x else Inl kInvalidArgument)"
proof (cases "kind (hdr x) = k")
  case True
  then have "read_header k (img x) = hdr x" "le_word (field 0 2 (img x)) = kind_code k" "read k (img x) = x"
    using assms(1) assms(3) prefix_fields(1,2) [of "hdr x" p b r rest] by simp_all
  with True assms(2) show ?thesis by (simp add: Decode_def Encode_def)
qed (simp add: Decode_def Encode_def)

lemma Decode_TokenGrant_Encode:
  "Decode_TokenGrant (Encode_TokenGrant g) k =
     (if kind (gr_header g) = k then Inr g else Inl kInvalidArgument)"
  unfolding Decode_TokenGrant_def Encode_TokenGrant_def
  by (rule Decode_Encode [where img = TokenGrant_image, OF TokenGrant_image_def])
      (simp_all add: token_sizes read_image_TokenGrant)

text \<open>
  C33. The token messages survive the wire: each of the five structures, encoded into a queue envelope and
  decoded with the same type, comes back unchanged under its own kind and is refused under any other kind,
  and the payload fits a ring slot.
\<close>

theorem token_messages_roundtrip:
  "Decode_TokenRequest (Encode_TokenRequest r) k = (if kind (rq_header r) = k then Inr r else Inl kInvalidArgument) \<and>
   Decode_TokenGrant (Encode_TokenGrant g) k = (if kind (gr_header g) = k then Inr g else Inl kInvalidArgument) \<and>
   Decode_TokenReject (Encode_TokenReject j) k = (if kind (rj_header j) = k then Inr j else Inl kInvalidArgument) \<and>
   Decode_TokenCancel (Encode_TokenCancel c) k = (if kind (ca_header c) = k then Inr c else Inl kInvalidArgument) \<and>
   Decode_TokenCancelAck (Encode_TokenCancelAck a) k = (if kind (ak_header a) = k then Inr a else Inl kInvalidArgument) \<and>
   (\<forall>m \<in> {Encode_TokenRequest r, Encode_TokenGrant g, Encode_TokenReject j, Encode_TokenCancel c, Encode_TokenCancelAck a}.
      length (env_payload m) \<le> kQueuePayloadBytes \<and> unat (payload_bytes (env_header m)) = length (env_payload m))"
  unfolding Decode_TokenRequest_def Encode_TokenRequest_def Decode_TokenGrant_def Encode_TokenGrant_def
    Decode_TokenReject_def Encode_TokenReject_def Decode_TokenCancel_def Encode_TokenCancel_def
    Decode_TokenCancelAck_def Encode_TokenCancelAck_def
proof (intro conjI)
  show "Decode read_TokenRequest sizeof_TokenRequest (Encode rq_header TokenRequest_image sizeof_TokenRequest r) k =
      (if kind (rq_header r) = k then Inr r else Inl kInvalidArgument)"
    by (rule Decode_Encode [where img = TokenRequest_image, OF TokenRequest_image_def])
      (simp_all add: token_sizes read_image_TokenRequest)
  show "Decode read_TokenGrant sizeof_TokenGrant (Encode gr_header TokenGrant_image sizeof_TokenGrant g) k =
      (if kind (gr_header g) = k then Inr g else Inl kInvalidArgument)"
    by (rule Decode_Encode [where img = TokenGrant_image, OF TokenGrant_image_def])
      (simp_all add: token_sizes read_image_TokenGrant)
  show "Decode read_TokenReject sizeof_TokenReject (Encode rj_header TokenReject_image sizeof_TokenReject j) k =
      (if kind (rj_header j) = k then Inr j else Inl kInvalidArgument)"
    by (rule Decode_Encode [where img = TokenReject_image, OF TokenReject_image_def])
      (simp_all add: token_sizes read_image_TokenReject)
  show "Decode read_TokenCancel sizeof_TokenCancel (Encode ca_header TokenCancel_image sizeof_TokenCancel c) k =
      (if kind (ca_header c) = k then Inr c else Inl kInvalidArgument)"
    by (rule Decode_Encode [where img = TokenCancel_image, OF TokenCancel_image_def])
      (simp_all add: token_sizes read_image_TokenCancel)
  show "Decode read_TokenCancelAck sizeof_TokenCancelAck (Encode ak_header TokenCancelAck_image sizeof_TokenCancelAck a) k =
      (if kind (ak_header a) = k then Inr a else Inl kInvalidArgument)"
    by (rule Decode_Encode [where img = TokenCancelAck_image, OF TokenCancelAck_image_def])
      (simp_all add: token_sizes read_image_TokenCancelAck)
qed (auto simp: Encode_def image_defs token_sizes kQueuePayloadBytes_def)

text \<open>A bounded quantifier over the five envelopes: an instance with concrete messages.\<close>

theorem token_messages_roundtrip_witness:
  "Decode_TokenCancel (Encode_TokenCancel \<lparr>ca_header = \<lparr>kind = TokenCancelMsg, src_host = 1, dst_host = 0, payload_bytes = 56\<rparr>,
       ca_object = \<lparr>region_id = 0, gp_offset = 0x9000\<rparr>, ca_block_index = 2, ca_request_id = 7, ca_requester = 1\<rparr>) TokenCancelMsg =
     Inr \<lparr>ca_header = \<lparr>kind = TokenCancelMsg, src_host = 1, dst_host = 0, payload_bytes = 56\<rparr>,
       ca_object = \<lparr>region_id = 0, gp_offset = 0x9000\<rparr>, ca_block_index = 2, ca_request_id = 7, ca_requester = 1\<rparr>"
  using token_messages_roundtrip [where k = TokenCancelMsg and c = "\<lparr>ca_header = \<lparr>kind = TokenCancelMsg, src_host = 1, dst_host = 0, payload_bytes = 56\<rparr>,
       ca_object = \<lparr>region_id = 0, gp_offset = 0x9000\<rparr>, ca_block_index = 2, ca_request_id = 7, ca_requester = 1\<rparr>"]
  by simp

text \<open>What the token service uses of the codec.\<close>

lemma Decode_TokenGrant_kind: "Decode_TokenGrant m k = Inr g \<Longrightarrow> kind (env_header m) = k"
  by (auto simp: Decode_TokenGrant_def Decode_def split: if_splits)

lemma encoded_kinds [simp]:
  "kind (env_header (Encode_TokenRequest r)) = kind (rq_header r)"
  "kind (env_header (Encode_TokenGrant g)) = kind (gr_header g)"
  "kind (env_header (Encode_TokenReject j)) = kind (rj_header j)"
  "kind (env_header (Encode_TokenCancel c)) = kind (ca_header c)"
  "kind (env_header (Encode_TokenCancelAck a)) = kind (ak_header a)"
  by (simp_all add: Encode_TokenRequest_def Encode_TokenGrant_def Encode_TokenReject_def Encode_TokenCancel_def
      Encode_TokenCancelAck_def Encode_def)

lemma encoded_object:
  "packet_object (Encode_TokenRequest r) = rq_object r" "packet_object (Encode_TokenGrant g) = gr_object g"
  "packet_object (Encode_TokenReject j) = rj_object j" "packet_object (Encode_TokenCancel c) = ca_object c"
  "packet_object (Encode_TokenCancelAck a) = ak_object a"
  by (simp_all add: packet_object_def Encode_TokenRequest_def Encode_TokenGrant_def Encode_TokenReject_def
      Encode_TokenCancel_def Encode_TokenCancelAck_def Encode_def image_defs prefix_fields)

end
