(* ===== verification/Cx_Token.thy ===== *)
theory Cx_Token
  imports Cx_Token_Wire Cx_Allocator "HOL-Library.AList"
begin

text \<open>
  The token service (\<^verbatim>\<open>src/loommem/token.cpp\<close>, \<^verbatim>\<open>include/cxloom/loommem/token.h\<close>): the protocol by which
  the hosts pass the write token of every coherence block.  One service per host keeps the blocks whose
  token is here, the requests that wait for them, and the waiters of the requests of its own threads.

  Every operation runs under the protocol lock and is one step on the state of one host: the fields of
  the service, the shared allocator memory, and the rings from this host to the others.  A waiter is a
  shared object that a blocked thread still reads after it left the table, so the objects are a heap by
  request identifier next to the table.  A target pins its allocation until the function that built it
  returns; the model takes the pin and drops it at the same places.  Inside a step a compare-exchange
  succeeds and a second load agrees with the first, and token owners are only ever written from host
  identifiers, so the retry of \<^verbatim>\<open>Request\<close> on a changed owner does not arise.
\<close>

section \<open>State\<close>

record TokenRequestHandle =
  rh_object :: GlobalPointer
  rh_block_index :: u64
  rh_request_id :: u64

record TokenLease =
  ls_object :: GlobalPointer
  ls_block_index :: u64
  ls_version :: Version
  ls_token_epoch :: u64

datatype WaiterState = WActive | WCancelling | WGranted | WRejected | WCancelled

record Waiter =
  w_state :: WaiterState
  w_object :: GlobalPointer
  w_granted :: bool
  w_abandoned :: bool
  w_retain_completion :: bool
  w_lease :: TokenLease
  w_completion_status :: Status

record LocalObject =
  lo_available :: bool
  lo_held :: bool
  lo_pending :: "TokenRequest list"

record CoherenceTarget =
  tg_allocation :: u64
  tg_block :: u64
  tg_local_key :: u64

text \<open>What a service is constructed with, and what it keeps.\<close>

record TokenEnv =
  te_local_host :: HostId
  te_allocator :: SharedExtentAllocator
  te_attached :: bool
  te_lock_free :: bool
  te_queue_resolver :: "HostId \<Rightarrow> HostId \<Rightarrow> QueueHandle Result"
  te_mode :: VisibilityMode
  te_cpu :: Cpu

record TokenService =
  next_request_id :: u64
  outbound :: "HostId \<Rightarrow> QueueEnvelope list"
  objects :: "(u64 \<times> LocalObject) list"
  waiters :: "u64 list"
  waiter_heap :: "u64 \<Rightarrow> Waiter"

record TokenState = TokenService +
  mem :: AllocatorMemory
  rings :: "HostId \<Rightarrow> SharedSpscQueue option"

definition default_pointer :: GlobalPointer where
  "default_pointer = \<lparr>region_id = 0, gp_offset = 0\<rparr>"

definition default_waiter :: Waiter where
  "default_waiter = \<lparr>w_state = WActive, w_object = default_pointer, w_granted = False, w_abandoned = False,
     w_retain_completion = False,
     w_lease = \<lparr>ls_object = default_pointer, ls_block_index = 0, ls_version = 0, ls_token_epoch = 0\<rparr>,
     w_completion_status = kOk\<rparr>"

definition default_object :: LocalObject where
  "default_object = \<lparr>lo_available = False, lo_held = False, lo_pending = []\<rparr>"

definition new_service :: TokenService where
  "new_service = \<lparr>next_request_id = 1, outbound = (\<lambda>_. []), objects = [], waiters = [], waiter_heap = (\<lambda>_. default_waiter)\<rparr>"

text \<open>\<^verbatim>\<open>objects_[key]\<close>, which inserts a default entry, and an update of it.\<close>

definition local_object :: "u64 \<Rightarrow> TokenState \<Rightarrow> LocalObject" where
  "local_object k S = (case map_of (objects S) k of None \<Rightarrow> default_object | Some o1 \<Rightarrow> o1)"

definition put_object :: "u64 \<Rightarrow> LocalObject \<Rightarrow> TokenState \<Rightarrow> TokenState" where
  "put_object k o1 S = S\<lparr>objects := AList.update k o1 (objects S)\<rparr>"

definition set_waiter :: "u64 \<Rightarrow> (Waiter \<Rightarrow> Waiter) \<Rightarrow> TokenState \<Rightarrow> TokenState" where
  "set_waiter i f S = S\<lparr>waiter_heap := (waiter_heap S)(i := f (waiter_heap S i))\<rparr>"

definition emplace_waiter :: "u64 \<Rightarrow> Waiter \<Rightarrow> TokenState \<Rightarrow> TokenState" where
  "emplace_waiter i w S = (if i \<in> set (waiters S) then S
     else S\<lparr>waiters := waiters S @ [i], waiter_heap := (waiter_heap S)(i := w)\<rparr>)"

definition erase_waiter :: "u64 \<Rightarrow> TokenState \<Rightarrow> TokenState" where
  "erase_waiter i S = S\<lparr>waiters := filter (\<lambda>j. j \<noteq> i) (waiters S)\<rparr>"

definition block_at :: "u64 \<Rightarrow> TokenState \<Rightarrow> CoherenceBlockDescriptor" where
  "block_at k S = coherence_blocks (mem S) k"

definition set_block :: "u64 \<Rightarrow> (CoherenceBlockDescriptor \<Rightarrow> CoherenceBlockDescriptor) \<Rightarrow> TokenState \<Rightarrow> TokenState" where
  "set_block k f S = S\<lparr>mem := (mem S)\<lparr>coherence_blocks := (coherence_blocks (mem S))(k := f (coherence_blocks (mem S) k))\<rparr>\<rparr>"

definition block_owner :: "u64 \<Rightarrow> TokenState \<Rightarrow> HostId" where
  "block_owner k S = ucast (token_owner (block_at k S))"

definition allocation_live :: "CoherenceTarget \<Rightarrow> TokenState \<Rightarrow> bool" where
  "allocation_live t S \<longleftrightarrow> ad_state (descriptors (mem S) (tg_allocation t)) = ObjectAllocated"

text \<open>\<^verbatim>\<open>PublishData\<close> and \<^verbatim>\<open>AcquireData\<close> of a coherence block descriptor: the status the service looks at.\<close>

definition metadata_visibility :: "TokenEnv \<Rightarrow> Status" where
  "metadata_visibility e = visibility_status (te_cpu e) sizeof_CoherenceBlockDescriptor (te_mode e)"

section \<open>Targets\<close>

definition drop_target :: "TokenEnv \<Rightarrow> CoherenceTarget \<Rightarrow> TokenState \<Rightarrow> TokenState" where
  "drop_target e t S = S\<lparr>mem := snd (ReleaseReference (mem S) (tg_allocation t) (te_local_host e))\<rparr>"

definition Target :: "TokenEnv \<Rightarrow> GlobalPointer \<Rightarrow> u64 \<Rightarrow> bool \<Rightarrow> TokenState \<Rightarrow> CoherenceTarget Result \<times> TokenState" where
  "Target e object block_index allow_retiring S =
     (if \<not> te_attached e then (Inl kFailedPrecondition, S)
      else (case AcquireReference (te_allocator e) (mem S) object (te_local_host e) allow_retiring of
              (Inl st, M1) \<Rightarrow> (Inl st, S\<lparr>mem := M1\<rparr>)
            | (Inr allocation, M1) \<Rightarrow>
                (case MutableCoherenceBlock (te_allocator e) M1 object block_index True of
                   (blk, M2) \<Rightarrow>
                     let unpinned = S\<lparr>mem := snd (ReleaseReference M2 allocation (te_local_host e))\<rparr> in
                     (case blk of
                        Inl st \<Rightarrow> (Inl st, unpinned)
                      | Inr b \<Rightarrow>
                          if \<not> te_lock_free e then (Inl kFailedPrecondition, unpinned)
                          else (Inr \<lparr>tg_allocation = allocation, tg_block = b,
                                     tg_local_key = ad_coherence_metadata_offset (descriptors M2 allocation) +
                                       block_index * sizeof_CoherenceBlockDescriptor\<rparr>, S\<lparr>mem := M2\<rparr>)))))"

section \<open>Sending\<close>

text \<open>The inner loop of \<^verbatim>\<open>ProgressOutbound\<close> on one ring: what it returns, the ring, and what stays queued.\<close>

fun flush_ring :: "Cpu \<Rightarrow> QueueHandle \<Rightarrow> SharedSpscQueue option \<Rightarrow> QueueEnvelope list \<Rightarrow>
    Status \<times> SharedSpscQueue option \<times> QueueEnvelope list" where
  "flush_ring cpu h q [] = (kOk, q, [])"
| "flush_ring cpu h q (m # ms) =
     (case Push cpu h q m of
        (st, q') \<Rightarrow> if st = kUnavailable then (kOk, q', m # ms)
                    else if st \<noteq> kOk then (st, q', m # ms)
                    else flush_ring cpu h q' ms)"

fun progress_hosts :: "TokenEnv \<Rightarrow> HostId list \<Rightarrow> TokenState \<Rightarrow> Status \<times> TokenState" where
  "progress_hosts e [] S = (kOk, S)"
| "progress_hosts e (host # hosts) S =
     (if outbound S host = [] then progress_hosts e hosts S
      else (case te_queue_resolver e (te_local_host e) host of
              Inl st \<Rightarrow> (st, S)
            | Inr h \<Rightarrow>
                (case flush_ring (te_cpu e) h (rings S host) (outbound S host) of
                   (st, q, rest) \<Rightarrow>
                     let S1 = S\<lparr>outbound := (outbound S)(host := rest), rings := (rings S)(host := q)\<rparr>
                     in if st \<noteq> kOk then (st, S1) else progress_hosts e hosts S1)))"

definition ProgressOutbound :: "TokenEnv \<Rightarrow> TokenState \<Rightarrow> Status \<times> TokenState" where
  "ProgressOutbound e S = progress_hosts e (map of_nat [0..<kMaxHosts]) S"

definition EnqueueOutbound :: "TokenEnv \<Rightarrow> HostId \<Rightarrow> QueueEnvelope \<Rightarrow> TokenState \<Rightarrow> Status \<times> TokenState" where
  "EnqueueOutbound e destination envelope S =
     (if kMaxHosts \<le> unat destination then (kInvalidArgument, S)
      else ProgressOutbound e (S\<lparr>outbound := (outbound S)(destination := outbound S destination @ [envelope])\<rparr>))"

definition SendRequest :: "TokenEnv \<Rightarrow> HostId \<Rightarrow> TokenRequest \<Rightarrow> TokenState \<Rightarrow> Status \<times> TokenState" where
  "SendRequest e destination request S =
     EnqueueOutbound e destination (Encode_TokenRequest (request\<lparr>rq_header := (rq_header request)
       \<lparr>src_host := te_local_host e, dst_host := destination, payload_bytes := of_nat sizeof_TokenRequest\<rparr>\<rparr>)) S"

text \<open>The loop that forwards the waiting requests to the new owner.\<close>

fun forward_pending :: "TokenEnv \<Rightarrow> HostId \<Rightarrow> TokenRequest list \<Rightarrow> TokenState \<Rightarrow> Status \<times> TokenState" where
  "forward_pending e destination [] S = (kOk, S)"
| "forward_pending e destination (r # rs) S =
     (case SendRequest e destination r S of
        (st, S1) \<Rightarrow> if st \<noteq> kOk then (st, S1) else forward_pending e destination rs S1)"

section \<open>Rejections and cancellations\<close>

definition HandleReject :: "TokenEnv \<Rightarrow> TokenReject \<Rightarrow> TokenState \<Rightarrow> Status \<times> TokenState" where
  "HandleReject e r S =
     (if rj_requester r \<noteq> te_local_host e \<or> rj_request_id r = 0 then (kInvalidArgument, S)
      else if rj_request_id r \<notin> set (waiters S) then (kOk, S)
      else let w = waiter_heap S (rj_request_id r) in
        if w_state w = WGranted then (kOk, S)
        else let S1 = set_waiter (rj_request_id r)
                   (\<lambda>w. w\<lparr>w_state := (if w_state w = WCancelling then WCancelled else WRejected),
                          w_completion_status := kFailedPrecondition\<rparr>) S
             in (kOk, if w_abandoned w \<and> \<not> w_retain_completion w then erase_waiter (rj_request_id r) S1 else S1))"

definition Reject :: "TokenEnv \<Rightarrow> TokenRequest \<Rightarrow> TokenCompletionReason \<Rightarrow> TokenState \<Rightarrow> Status \<times> TokenState" where
  "Reject e request reason S =
     (let r = \<lparr>rj_header = \<lparr>kind = TokenRejectMsg, src_host = te_local_host e, dst_host = rq_requester request,
                             payload_bytes = of_nat sizeof_TokenReject\<rparr>,
               rj_object = rq_object request, rj_block_index = rq_block_index request,
               rj_request_id = rq_request_id request, rj_requester = rq_requester request, rj_reason = reason\<rparr>
      in if rq_requester request = te_local_host e then HandleReject e r S
         else EnqueueOutbound e (rq_requester request) (Encode_TokenReject r) S)"

definition HandleCancelAck :: "TokenEnv \<Rightarrow> TokenCancelAck \<Rightarrow> TokenState \<Rightarrow> Status \<times> TokenState" where
  "HandleCancelAck e a S =
     (if ak_requester a \<noteq> te_local_host e \<or> ak_request_id a = 0 then (kInvalidArgument, S)
      else if ak_request_id a \<notin> set (waiters S) then (kOk, S)
      else if ak_reason a = kReasonTooLate then (kOk, S)
      else let w = waiter_heap S (ak_request_id a);
               S1 = set_waiter (ak_request_id a) (\<lambda>w. w\<lparr>w_state := WCancelled, w_completion_status := kFailedPrecondition\<rparr>) S
           in (kOk, if w_abandoned w \<and> \<not> w_retain_completion w then erase_waiter (ak_request_id a) S1 else S1))"

definition AcknowledgeCancel :: "TokenEnv \<Rightarrow> TokenCancel \<Rightarrow> TokenCompletionReason \<Rightarrow> TokenState \<Rightarrow> Status \<times> TokenState" where
  "AcknowledgeCancel e c reason S =
     (let a = \<lparr>ak_header = \<lparr>kind = TokenCancelAckMsg, src_host = te_local_host e, dst_host = ca_requester c,
                             payload_bytes = of_nat sizeof_TokenCancelAck\<rparr>,
               ak_object = ca_object c, ak_block_index = ca_block_index c, ak_request_id = ca_request_id c,
               ak_requester = ca_requester c, ak_reason = reason\<rparr>
      in if ca_requester c = te_local_host e then HandleCancelAck e a S
         else EnqueueOutbound e (ca_requester c) (Encode_TokenCancelAck a) S)"

text \<open>\<^verbatim>\<open>pending.erase(it)\<close> at the first request of this identity.\<close>

definition cancels :: "TokenCancel \<Rightarrow> TokenRequest \<Rightarrow> bool" where
  "cancels c r \<longleftrightarrow> rq_requester r = ca_requester c \<and> rq_request_id r = ca_request_id c \<and> rq_block_index r = ca_block_index c"

fun remove_first :: "('x \<Rightarrow> bool) \<Rightarrow> 'x list \<Rightarrow> 'x list" where
  "remove_first P [] = []"
| "remove_first P (x # xs) = (if P x then xs else x # remove_first P xs)"

text \<open>
  A forwarded cancellation goes to the owner, another host, so the branch of \<^verbatim>\<open>SendCancel\<close> that is taken
  here is the one that enqueues.
\<close>

definition HandleCancel :: "TokenEnv \<Rightarrow> TokenCancel \<Rightarrow> TokenState \<Rightarrow> Status \<times> TokenState" where
  "HandleCancel e c S =
     (if kMaxHosts \<le> unat (ca_requester c) \<or> ca_request_id c = 0 then (kInvalidArgument, S)
      else (case Target e (ca_object c) (ca_block_index c) True S of
              (Inl st, S1) \<Rightarrow> AcknowledgeCancel e c kReasonCancelled S1
            | (Inr t, S1) \<Rightarrow>
                let owner = block_owner (tg_block t) S1 in
                if owner \<noteq> te_local_host e
                then (case EnqueueOutbound e owner (Encode_TokenCancel (c\<lparr>ca_header := (ca_header c)
                             \<lparr>src_host := te_local_host e, dst_host := owner\<rparr>\<rparr>)) S1 of
                        (st, S2) \<Rightarrow> (st, drop_target e t S2))
                else let o1 = local_object (tg_local_key t) S1;
                         removed = (\<exists>r \<in> set (lo_pending o1). cancels c r);
                         S2 = put_object (tg_local_key t) (o1\<lparr>lo_pending := remove_first (cancels c) (lo_pending o1)\<rparr>) S1;
                         reason = (if removed \<or> owner \<noteq> ca_requester c then kReasonCancelled else kReasonTooLate)
                     in (case AcknowledgeCancel e c reason S2 of (st, S3) \<Rightarrow> (st, drop_target e t S3))))"

definition SendCancel :: "TokenEnv \<Rightarrow> TokenCancel \<Rightarrow> TokenState \<Rightarrow> Status \<times> TokenState" where
  "SendCancel e c S =
     (if dst_host (ca_header c) = te_local_host e then HandleCancel e c S
      else EnqueueOutbound e (dst_host (ca_header c)) (Encode_TokenCancel c) S)"

section \<open>Granting and releasing\<close>

definition ActivateWriter :: "TokenEnv \<Rightarrow> u64 \<Rightarrow> TokenState \<Rightarrow> Status \<times> TokenState" where
  "ActivateWriter e b S =
     (let epoch = writeback_epoch (block_at b S) in
      if epoch AND 1 \<noteq> 0 then (kFailedPrecondition, S)
      else let S1 = set_block b (\<lambda>c. c\<lparr>writeback_epoch := epoch + 1\<rparr>) S in
        if metadata_visibility e \<noteq> kOk
        then (metadata_visibility e, set_block b (\<lambda>c. c\<lparr>writeback_epoch := epoch\<rparr>) S1)
        else (kOk, S1))"

definition activate_if :: "bool \<Rightarrow> TokenEnv \<Rightarrow> u64 \<Rightarrow> TokenState \<Rightarrow> Status \<times> TokenState" where
  "activate_if activate e b S = (if activate then ActivateWriter e b S else (kOk, S))"

definition current_lease :: "GlobalPointer \<Rightarrow> u64 \<Rightarrow> u64 \<Rightarrow> TokenState \<Rightarrow> TokenLease" where
  "current_lease object block_index b S = \<lparr>ls_object = object, ls_block_index = block_index,
     ls_version = cb_version (block_at b S), ls_token_epoch = token_epoch (block_at b S)\<rparr>"

datatype GrantOutcome = GrantFinished Status | GrantAbandoned TokenLease

text \<open>The critical section that hands a lease to its waiter, which \<^verbatim>\<open>Grant\<close> and \<^verbatim>\<open>HandleGrant\<close> share.\<close>

definition hand_lease :: "u64 \<Rightarrow> TokenLease \<Rightarrow> u64 \<Rightarrow> TokenState \<Rightarrow> GrantOutcome \<times> TokenState" where
  "hand_lease request_id lease k S =
     (if request_id \<notin> set (waiters S) then (GrantFinished kNotFound, S)
      else let S1 = put_object k ((local_object k S)\<lparr>lo_held := True, lo_available := True\<rparr>) S;
               w = waiter_heap S1 request_id in
        if w_abandoned w
        then let S2 = set_waiter request_id (\<lambda>w. w\<lparr>w_state := WCancelled, w_completion_status := kFailedPrecondition\<rparr>) S1
             in (GrantAbandoned lease, if w_retain_completion w then S2 else erase_waiter request_id S2)
        else (GrantFinished kOk,
              set_waiter request_id (\<lambda>w. w\<lparr>w_lease := lease, w_granted := True, w_state := WGranted\<rparr>) S1))"

definition grant_local :: "TokenEnv \<Rightarrow> TokenRequest \<Rightarrow> CoherenceTarget \<Rightarrow> TokenState \<Rightarrow> GrantOutcome \<times> TokenState" where
  "grant_local e request t S =
     (if rq_request_id request \<notin> set (waiters S) then (GrantFinished kNotFound, S)
      else (case activate_if (rq_activate_coherence_epoch request) e (tg_block t) S of
              (st, S1) \<Rightarrow>
                if st \<noteq> kOk then (GrantFinished st, S1)
                else hand_lease (rq_request_id request)
                       (current_lease (rq_object request) (rq_block_index request) (tg_block t) S1) (tg_local_key t) S1))"

definition grant_message :: "TokenEnv \<Rightarrow> TokenRequest \<Rightarrow> CoherenceBlockDescriptor \<Rightarrow> TokenGrant" where
  "grant_message e request b =
     \<lparr>gr_header = \<lparr>kind = TokenGrantMsg, src_host = te_local_host e, dst_host = rq_requester request,
                    payload_bytes = of_nat sizeof_TokenGrant\<rparr>,
      gr_object = rq_object request, gr_block_index = rq_block_index request, gr_request_id = rq_request_id request,
      gr_new_owner = rq_requester request, gr_version = cb_version b, gr_token_epoch = token_epoch b,
      gr_activate_coherence_epoch = rq_activate_coherence_epoch request\<rparr>"

definition grant_remote :: "TokenEnv \<Rightarrow> TokenRequest \<Rightarrow> CoherenceTarget \<Rightarrow> TokenState \<Rightarrow> Status \<times> TokenState" where
  "grant_remote e request t S =
     (let S1 = set_block (tg_block t) (\<lambda>b. b\<lparr>token_epoch := token_epoch b + 1, token_owner := ucast (rq_requester request)\<rparr>) S in
      if metadata_visibility e \<noteq> kOk then (metadata_visibility e, S1)
      else (case EnqueueOutbound e (rq_requester request)
                   (Encode_TokenGrant (grant_message e request (block_at (tg_block t) S1))) S1 of
              (st, S2) \<Rightarrow>
                if st \<noteq> kOk then (st, S2)
                else let o1 = local_object (tg_local_key t) S2;
                         S3 = put_object (tg_local_key t) (o1\<lparr>lo_held := False, lo_available := False, lo_pending := []\<rparr>) S2
                     in (case forward_pending e (rq_requester request) (lo_pending o1) S3 of
                           (forward_status, S4) \<Rightarrow> (if forward_status \<noteq> kOk then forward_status else st, S4))))"

text \<open>\<^verbatim>\<open>Grant\<close> up to the release of a lease whose requester has given up.\<close>

definition grant_begin :: "TokenEnv \<Rightarrow> TokenRequest \<Rightarrow> CoherenceTarget \<Rightarrow> TokenState \<Rightarrow> GrantOutcome \<times> TokenState" where
  "grant_begin e request t S =
     (if \<not> allocation_live t S
      then (GrantFinished kOk, put_object (tg_local_key t) ((local_object (tg_local_key t) S)\<lparr>lo_held := False\<rparr>) S)
      else if rq_requester request = te_local_host e then grant_local e request t S
      else (case grant_remote e request t S of (st, S1) \<Rightarrow> (GrantFinished st, S1)))"

text \<open>\<^verbatim>\<open>Release\<close> up to the choice of the next request; a failure drops the target.\<close>

definition release_begin :: "TokenEnv \<Rightarrow> TokenLease \<Rightarrow> bool \<Rightarrow> TokenState \<Rightarrow> CoherenceTarget Result \<times> TokenState" where
  "release_begin e lease modified S =
     (case Target e (ls_object lease) (ls_block_index lease) True S of
        (Inl st, S1) \<Rightarrow> (Inl st, S1)
      | (Inr t, S1) \<Rightarrow>
          let b = block_at (tg_block t) S1;
              failed = (\<lambda>st S. (Inl st, drop_target e t S)) in
          if token_owner b \<noteq> ucast (te_local_host e) \<or> token_epoch b \<noteq> ls_token_epoch lease
          then failed kFailedPrecondition S1
          else if \<not> lo_held (local_object (tg_local_key t) S1) then failed kFailedPrecondition S1
          else let coherence_epoch = writeback_epoch b;
                   active = (coherence_epoch AND 1 \<noteq> 0);
                   d = descriptors (mem S1) (tg_allocation t);
                   block_offset = ls_block_index lease * ad_coherence_block_bytes d;
                   data_status = visibility_status (te_cpu e)
                     (min (ad_coherence_block_bytes d) (ad_bytes d - block_offset)) (te_mode e) in
            if modified \<and> \<not> active then failed kFailedPrecondition S1
            else if modified \<and> data_status \<noteq> kOk then failed data_status S1
            else let S2 = (if modified
                           then set_block (tg_block t) (\<lambda>b. b\<lparr>last_writer := ucast (te_local_host e), cb_version := cb_version b + 1\<rparr>) S1
                           else S1);
                     S3 = (if active then set_block (tg_block t) (\<lambda>b. b\<lparr>writeback_epoch := coherence_epoch + 1\<rparr>) S2 else S2)
                 in if metadata_visibility e \<noteq> kOk then failed (metadata_visibility e) S3 else (Inr t, S3))"

definition release_next :: "TokenEnv \<Rightarrow> TokenLease \<Rightarrow> CoherenceTarget \<Rightarrow> TokenState \<Rightarrow> TokenRequest option \<times> TokenState" where
  "release_next e lease t S =
     (case IsRetiring (te_allocator e) (mem S) (ls_object lease) of
        (retiring, M) \<Rightarrow>
          let S1 = S\<lparr>mem := M\<rparr>; o1 = local_object (tg_local_key t) S1 in
          if retiring then (None, put_object (tg_local_key t) (o1\<lparr>lo_pending := [], lo_held := False\<rparr>) S1)
          else (case lo_pending o1 of
                  r # rs \<Rightarrow> (Some r, put_object (tg_local_key t) (o1\<lparr>lo_pending := rs\<rparr>) S1)
                | [] \<Rightarrow> (None, put_object (tg_local_key t) (o1\<lparr>lo_held := False\<rparr>) S1)))"

text \<open>
  The two call each other: a grant to a local requester that gave up releases the lease at once, and a
  release grants the next request.  Every round takes a request off a queue, so the recursion ends.
\<close>

definition total_pending :: "TokenState \<Rightarrow> nat" where
  "total_pending S = (\<Sum>p \<leftarrow> objects S. length (lo_pending (snd p)))"

lemma total_pending_frame [simp]:
  "total_pending (S\<lparr>mem := m\<rparr>) = total_pending S"
  "total_pending (set_block k f S) = total_pending S"
  "total_pending (set_waiter i g S) = total_pending S"
  "total_pending (erase_waiter i S) = total_pending S"
  by (simp_all add: total_pending_def set_block_def set_waiter_def erase_waiter_def)

lemma sum_update:
  "(\<Sum>p \<leftarrow> AList.update k v xs. f (snd p)) + (case map_of xs k of None \<Rightarrow> 0 | Some v0 \<Rightarrow> f v0) =
     (\<Sum>p \<leftarrow> xs. f (snd p)) + (f v :: nat)"
  by (induction xs) auto

lemma total_pending_put:
  "total_pending (put_object k o1 S) + length (lo_pending (local_object k S)) =
     total_pending S + length (lo_pending o1)"
  using sum_update [of "\<lambda>o1. length (lo_pending o1)" k o1 "objects S"]
  by (auto simp: total_pending_def put_object_def local_object_def default_object_def split: option.splits)

lemma release_begin_pending: "release_begin e lease modified S = (r, S1) \<Longrightarrow> total_pending S1 = total_pending S"
  by (auto simp: release_begin_def Target_def drop_target_def Let_def split: prod.splits sum.splits if_splits)

lemma release_next_pending:
  assumes "release_next e lease t S = (Some r, S1)"
  shows "total_pending S1 < total_pending S"
proof -
  obtain b M where M: "IsRetiring (te_allocator e) (mem S) (ls_object lease) = (b, M)" by fastforce
  let ?S = "S\<lparr>mem := M\<rparr>" and ?k = "tg_local_key t"
  from assms M obtain rs where p: "lo_pending (local_object ?k ?S) = r # rs"
    and S1: "S1 = put_object ?k ((local_object ?k ?S)\<lparr>lo_pending := rs\<rparr>) ?S"
    by (auto simp: release_next_def Let_def split: if_splits list.splits)
  from total_pending_put [of ?k "(local_object ?k ?S)\<lparr>lo_pending := rs\<rparr>" ?S] p S1 show ?thesis by simp
qed

lemma hand_lease_pending: "hand_lease i l k S = (r, S1) \<Longrightarrow> total_pending S1 = total_pending S"
  using total_pending_put [of k "(local_object k S)\<lparr>lo_held := True, lo_available := True\<rparr>" S]
  by (auto simp: hand_lease_def Let_def split: if_splits)

lemma grant_begin_pending:
  assumes "grant_begin e request t S = (GrantAbandoned lease, S1)"
  shows "total_pending S1 = total_pending S"
  using assms hand_lease_pending
  by (auto simp: grant_begin_def grant_local_def activate_if_def ActivateWriter_def Let_def
      split: prod.splits if_splits)

function Release :: "TokenEnv \<Rightarrow> TokenLease \<Rightarrow> bool \<Rightarrow> TokenState \<Rightarrow> Status \<times> TokenState"
  and Grant :: "TokenEnv \<Rightarrow> TokenRequest \<Rightarrow> CoherenceTarget \<Rightarrow> TokenState \<Rightarrow> Status \<times> TokenState" where
  "Release e lease modified S =
     (case release_begin e lease modified S of
        (Inl st, S1) \<Rightarrow> (st, S1)
      | (Inr t, S1) \<Rightarrow>
          (case release_next e lease t S1 of
             (None, S2) \<Rightarrow> (kOk, drop_target e t S2)
           | (Some r, S2) \<Rightarrow> (case Grant e r t S2 of (st, S3) \<Rightarrow> (st, drop_target e t S3))))"
| "Grant e request t S =
     (case grant_begin e request t S of
        (GrantFinished st, S1) \<Rightarrow> (st, S1)
      | (GrantAbandoned lease, S1) \<Rightarrow> Release e lease False S1)"
  by pat_completeness auto

termination
  by (relation "measure (\<lambda>x. case x of Inl (e, lease, modified, S) \<Rightarrow> 2 * total_pending S
                                   | Inr (e, request, t, S) \<Rightarrow> 2 * total_pending S + 1)")
    (auto dest!: sym [THEN release_begin_pending] sym [THEN release_next_pending] sym [THEN grant_begin_pending])

declare Release.simps [simp del] Grant.simps [simp del]

text \<open>What \<^verbatim>\<open>Grant\<close> and \<^verbatim>\<open>HandleGrant\<close> do with the outcome of the critical section.\<close>

definition settle :: "TokenEnv \<Rightarrow> GrantOutcome \<times> TokenState \<Rightarrow> Status \<times> TokenState" where
  "settle e p = (case p of (GrantFinished st, S1) \<Rightarrow> (st, S1) | (GrantAbandoned lease, S1) \<Rightarrow> Release e lease False S1)"

lemma Grant_settle: "Grant e request t S = settle e (grant_begin e request t S)"
  by (simp add: Grant.simps settle_def)

section \<open>Operations of the application threads\<close>

text \<open>The loop of \<^verbatim>\<open>RegisterAllocation\<close> over the blocks of the object.\<close>

fun register_blocks :: "TokenEnv \<Rightarrow> GlobalPointer \<Rightarrow> u64 list \<Rightarrow> TokenState \<Rightarrow> Status \<times> TokenState" where
  "register_blocks e object [] S = (kOk, S)"
| "register_blocks e object (i # is) S =
     (case Target e object i False S of
        (Inl st, S1) \<Rightarrow> (st, S1)
      | (Inr t, S1) \<Rightarrow>
          if token_owner (block_at (tg_block t) S1) \<noteq> ucast (te_local_host e)
          then (kFailedPrecondition, drop_target e t S1)
          else register_blocks e object is (drop_target e t
                 (put_object (tg_local_key t) ((local_object (tg_local_key t) S1)\<lparr>lo_available := True\<rparr>) S1)))"

definition RegisterAllocation :: "TokenEnv \<Rightarrow> GlobalPointer \<Rightarrow> TokenState \<Rightarrow> Status \<times> TokenState" where
  "RegisterAllocation e object S =
     (case MutableDescriptor (te_allocator e) (mem S) object False of
        (Inl st, M) \<Rightarrow> (st, S\<lparr>mem := M\<rparr>)
      | (Inr d, M) \<Rightarrow> register_blocks e object (map of_nat [0..<unat (ad_coherence_block_count d)]) (S\<lparr>mem := M\<rparr>))"

definition new_request :: "TokenEnv \<Rightarrow> GlobalPointer \<Rightarrow> u64 \<Rightarrow> bool \<Rightarrow> u64 \<Rightarrow> CoherenceBlockDescriptor \<Rightarrow> TokenRequest" where
  "new_request e object block_index activate request_id b =
     \<lparr>rq_header = \<lparr>kind = TokenReq, src_host = te_local_host e, dst_host = ucast (token_owner b),
                    payload_bytes = of_nat sizeof_TokenRequest\<rparr>,
      rq_object = object, rq_block_index = block_index, rq_request_id = request_id,
      rq_observed_version = cb_version b, rq_requester = te_local_host e, rq_activate_coherence_epoch = activate\<rparr>"

definition Request :: "TokenEnv \<Rightarrow> GlobalPointer \<Rightarrow> u64 \<Rightarrow> bool \<Rightarrow> TokenState \<Rightarrow> TokenRequestHandle Result \<times> TokenState" where
  "Request e object block_index activate S =
     (case Target e object block_index False S of
        (Inl st, S1) \<Rightarrow> (Inl st, S1)
      | (Inr t, S1) \<Rightarrow>
          let request_id = next_request_id S1;
              fresh = (request_id \<notin> set (waiters S1));
              S2 = emplace_waiter request_id (default_waiter\<lparr>w_object := object\<rparr>) (S1\<lparr>next_request_id := request_id + 1\<rparr>);
              handle = \<lparr>rh_object = object, rh_block_index = block_index, rh_request_id = request_id\<rparr>;
              b = block_at (tg_block t) S2;
              owner = block_owner (tg_block t) S2;
              request = new_request e object block_index activate request_id b;
              done = (\<lambda>r S. (r, drop_target e t S));
              failed = (\<lambda>st S. (Inl st, drop_target e t (erase_waiter request_id S))) in
          if owner \<noteq> te_local_host e
          then (case SendRequest e owner request S2 of
                  (st, S3) \<Rightarrow> if st \<noteq> kOk then failed st S3 else done (Inr handle) S3)
          else if \<not> allocation_live t S2 then failed kFailedPrecondition S2
          else let o1 = local_object (tg_local_key t) S2 in
            if \<not> lo_available o1 \<or> lo_held o1
            then done (Inr handle) (put_object (tg_local_key t) (o1\<lparr>lo_pending := lo_pending o1 @ [request]\<rparr>) S2)
            else (case activate_if activate e (tg_block t) (put_object (tg_local_key t) (o1\<lparr>lo_held := True\<rparr>) S2) of
                    (st, S3) \<Rightarrow>
                      if st \<noteq> kOk
                      then failed st (put_object (tg_local_key t) ((local_object (tg_local_key t) S3)\<lparr>lo_held := False\<rparr>) S3)
                      else let lease = current_lease object block_index (tg_block t) S3
                           in done (Inr handle) (if fresh
                                then set_waiter request_id (\<lambda>w. w\<lparr>w_lease := lease, w_granted := True, w_state := WGranted\<rparr>) S3
                                else S3)))"

text \<open>
  \<^verbatim>\<open>Wait\<close>, split at its condition variable: the lookup, and what the thread does with the waiter it
  holds once it wakes, by a completion or by the timeout.
\<close>

definition Wait_begin :: "u64 \<Rightarrow> TokenState \<Rightarrow> Status" where
  "Wait_begin request_id S = (if request_id \<in> set (waiters S) then kOk else kNotFound)"

definition waiter_complete :: "Waiter \<Rightarrow> bool" where
  "waiter_complete w \<longleftrightarrow> w_state w = WGranted \<or> w_state w = WRejected \<or> w_state w = WCancelled"

definition Wait_finish :: "u64 \<Rightarrow> TokenState \<Rightarrow> TokenLease Result \<times> TokenState" where
  "Wait_finish request_id S =
     (let w = waiter_heap S request_id in
      if \<not> waiter_complete w then (Inl kUnavailable, S)
      else if w_state w \<noteq> WGranted then (Inl (w_completion_status w), erase_waiter request_id S)
      else (Inr (w_lease w), erase_waiter request_id S))"

definition Cancel :: "TokenEnv \<Rightarrow> TokenRequestHandle \<Rightarrow> TokenState \<Rightarrow> Status \<times> TokenState" where
  "Cancel e handle S =
     (let i = rh_request_id handle; w = waiter_heap S i in
      if i \<notin> set (waiters S) then (kNotFound, S)
      else if w_state w = WRejected \<or> w_state w = WCancelled then (w_completion_status w, erase_waiter i S)
      else if w_state w = WGranted then Release e (w_lease w) False (erase_waiter i S)
      else let S1 = set_waiter i (\<lambda>w. w\<lparr>w_abandoned := True, w_state := WCancelling\<rparr>) S in
        (case IsRetiring (te_allocator e) (mem S1) (rh_object handle) of
           (True, M) \<Rightarrow>
             (kOk, erase_waiter i (set_waiter i (\<lambda>w. w\<lparr>w_state := WCancelled, w_completion_status := kFailedPrecondition\<rparr>)
                     (S1\<lparr>mem := M\<rparr>)))
         | (False, M) \<Rightarrow>
             let cancel_to = (\<lambda>dst. \<lparr>ca_header = \<lparr>kind = TokenCancelMsg, src_host = te_local_host e, dst_host = dst,
                                                       payload_bytes = of_nat sizeof_TokenCancel\<rparr>,
                   ca_object = rh_object handle, ca_block_index = rh_block_index handle, ca_request_id = i,
                   ca_requester = te_local_host e\<rparr>) in
             (case Target e (rh_object handle) (rh_block_index handle) True (S1\<lparr>mem := M\<rparr>) of
                (Inl st, S2) \<Rightarrow> AcknowledgeCancel e (cancel_to (te_local_host e)) kReasonCancelled S2
              | (Inr t, S2) \<Rightarrow>
                  (case SendCancel e (cancel_to (block_owner (tg_block t) S2)) S2 of
                     (st, S3) \<Rightarrow> (st, drop_target e t S3)))))"

text \<open>\<^verbatim>\<open>CancelAndWait\<close>, split the same way: up to the wait, and after it.\<close>

definition CancelAndWait_begin :: "TokenEnv \<Rightarrow> TokenRequestHandle \<Rightarrow> TokenState \<Rightarrow> Status option \<times> TokenState" where
  "CancelAndWait_begin e handle S =
     (let i = rh_request_id handle in
      if i \<notin> set (waiters S) then (Some kNotFound, S)
      else (case Cancel e handle (set_waiter i (\<lambda>w. w\<lparr>w_retain_completion := True\<rparr>) S) of
              (st, S1) \<Rightarrow> if st \<noteq> kOk then (Some st, S1)
                          else if i \<notin> set (waiters S1) then (Some kOk, S1)
                          else (None, S1)))"

definition CancelAndWait_finish :: "TokenEnv \<Rightarrow> u64 \<Rightarrow> TokenState \<Rightarrow> Status \<times> TokenState" where
  "CancelAndWait_finish e i S =
     (let w = waiter_heap S i in
      if \<not> waiter_complete w then (kUnavailable, S)
      else if w_state w = WGranted then Release e (w_lease w) False (erase_waiter i S)
      else (kOk, erase_waiter i S))"

definition BeginWriteback :: "TokenEnv \<Rightarrow> TokenLease \<Rightarrow> TokenState \<Rightarrow> Status \<times> TokenState" where
  "BeginWriteback e lease S =
     (case Target e (ls_object lease) (ls_block_index lease) True S of
        (Inl st, S1) \<Rightarrow> (st, S1)
      | (Inr t, S1) \<Rightarrow>
          let b = block_at (tg_block t) S1 in
          if token_owner b \<noteq> ucast (te_local_host e) \<or> token_epoch b \<noteq> ls_token_epoch lease
          then (kFailedPrecondition, drop_target e t S1)
          else if \<not> lo_held (local_object (tg_local_key t) S1) then (kFailedPrecondition, drop_target e t S1)
          else (case ActivateWriter e (tg_block t) S1 of (st, S2) \<Rightarrow> (st, drop_target e t S2)))"

section \<open>Messages from other hosts\<close>

definition HandleRequest :: "TokenEnv \<Rightarrow> TokenRequest \<Rightarrow> TokenState \<Rightarrow> Status \<times> TokenState" where
  "HandleRequest e request S =
     (if kMaxHosts \<le> unat (rq_requester request) \<or> rq_request_id request = 0 then (kInvalidArgument, S)
      else (case Target e (rq_object request) (rq_block_index request) False S of
              (Inl st, S1) \<Rightarrow> Reject e request (if st = kInvalidArgument then kReasonInvalidBlock else kReasonInvalidMetadata) S1
            | (Inr t, S1) \<Rightarrow>
                let owner = block_owner (tg_block t) S1;
                    leave = (\<lambda>(st, S). (st, drop_target e t S)) in
                if \<not> allocation_live t S1 then leave (Reject e request kReasonRetiring S1)
                else if cb_version (block_at (tg_block t) S1) < rq_observed_version request
                then leave (Reject e request kReasonInvalidMetadata S1)
                else if owner \<noteq> te_local_host e then leave (SendRequest e owner request S1)
                else let o1 = local_object (tg_local_key t) S1 in
                  if \<not> lo_available o1 \<or> lo_held o1
                  then leave (kOk, put_object (tg_local_key t) (o1\<lparr>lo_pending := lo_pending o1 @ [request]\<rparr>) S1)
                  else leave (Grant e request t (put_object (tg_local_key t) (o1\<lparr>lo_held := True\<rparr>) S1))))"

definition HandleGrant :: "TokenEnv \<Rightarrow> TokenGrant \<Rightarrow> TokenState \<Rightarrow> Status \<times> TokenState" where
  "HandleGrant e g S =
     (if gr_new_owner g \<noteq> te_local_host e \<or> gr_request_id g = 0 then (kInvalidArgument, S)
      else (case Target e (gr_object g) (gr_block_index g) False S of
              (Inl st, S1) \<Rightarrow>
                HandleReject e \<lparr>rj_header = \<lparr>kind = TokenRejectMsg, src_host = te_local_host e, dst_host = te_local_host e,
                                              payload_bytes = of_nat sizeof_TokenReject\<rparr>,
                  rj_object = gr_object g, rj_block_index = gr_block_index g, rj_request_id = gr_request_id g,
                  rj_requester = te_local_host e, rj_reason = kReasonRetiring\<rparr> S1
            | (Inr t, S1) \<Rightarrow>
                let b = block_at (tg_block t) S1;
                    leave = (\<lambda>(st, S). (st, drop_target e t S)) in
                if metadata_visibility e \<noteq> kOk then leave (metadata_visibility e, S1)
                else if token_owner b \<noteq> ucast (te_local_host e) \<or> token_epoch b \<noteq> gr_token_epoch g \<or> cb_version b \<noteq> gr_version g
                then leave (kFailedPrecondition, S1)
                else if gr_request_id g \<notin> set (waiters S1) then leave (kNotFound, S1)
                else (case activate_if (gr_activate_coherence_epoch g) e (tg_block t) S1 of
                        (st, S2) \<Rightarrow>
                          if st \<noteq> kOk then leave (st, S2)
                          else leave (settle e (hand_lease (gr_request_id g)
                                 \<lparr>ls_object = gr_object g, ls_block_index = gr_block_index g, ls_version = gr_version g,
                                  ls_token_epoch = gr_token_epoch g\<rparr> (tg_local_key t) S2)))))"

definition HandleMessage :: "TokenEnv \<Rightarrow> QueueEnvelope \<Rightarrow> TokenState \<Rightarrow> Status \<times> TokenState" where
  "HandleMessage e envelope S =
     (if length (env_payload envelope) < 32 then (kInvalidArgument, S)
      else (case IsRetiring (te_allocator e) (mem S) (packet_object envelope) of
              (True, M) \<Rightarrow> (kOk, S\<lparr>mem := M\<rparr>)
            | (False, M) \<Rightarrow>
                let S1 = S\<lparr>mem := M\<rparr>; k = kind (env_header envelope) in
                if k = TokenReq
                then (case Decode_TokenRequest envelope TokenReq of Inl st \<Rightarrow> (st, S1) | Inr r \<Rightarrow> HandleRequest e r S1)
                else if k = TokenGrantMsg
                then (case Decode_TokenGrant envelope TokenGrantMsg of Inl st \<Rightarrow> (st, S1) | Inr g \<Rightarrow> HandleGrant e g S1)
                else if k = TokenRejectMsg
                then (case Decode_TokenReject envelope TokenRejectMsg of Inl st \<Rightarrow> (st, S1) | Inr r \<Rightarrow> HandleReject e r S1)
                else if k = TokenCancelMsg
                then (case Decode_TokenCancel envelope TokenCancelMsg of Inl st \<Rightarrow> (st, S1) | Inr c \<Rightarrow> HandleCancel e c S1)
                else if k = TokenCancelAckMsg
                then (case Decode_TokenCancelAck envelope TokenCancelAckMsg of Inl st \<Rightarrow> (st, S1) | Inr a \<Rightarrow> HandleCancelAck e a S1)
                else (kInvalidArgument, S1)))"

section \<open>Retirement\<close>

definition closing :: "GlobalPointer \<Rightarrow> TokenState \<Rightarrow> u64 list" where
  "closing object S = filter (\<lambda>i. w_object (waiter_heap S i) = object) (waiters S)"

definition unclaimed :: "GlobalPointer \<Rightarrow> TokenState \<Rightarrow> TokenLease list" where
  "unclaimed object S = map (\<lambda>i. w_lease (waiter_heap S i)) (filter (\<lambda>i. w_state (waiter_heap S i) = WGranted) (closing object S))"

definition reject_waiters :: "GlobalPointer \<Rightarrow> TokenState \<Rightarrow> TokenState" where
  "reject_waiters object S = S\<lparr>waiters := filter (\<lambda>i. w_object (waiter_heap S i) \<noteq> object) (waiters S),
     waiter_heap := (\<lambda>i. if i \<in> set (closing object S)
       then (waiter_heap S i)\<lparr>w_state := WRejected, w_completion_status := kFailedPrecondition\<rparr> else waiter_heap S i)\<rparr>"

fun release_unclaimed :: "TokenEnv \<Rightarrow> TokenLease list \<Rightarrow> TokenState \<Rightarrow> bool \<times> TokenState" where
  "release_unclaimed e [] S = (True, S)"
| "release_unclaimed e (l # ls) S =
     (case Release e l False S of (st, S1) \<Rightarrow> if st \<noteq> kOk then (False, S1) else release_unclaimed e ls S1)"

text \<open>The loop over the blocks of a closing object: clears their queues, tells whether one is held.\<close>

fun clear_blocks :: "u64 \<Rightarrow> u64 list \<Rightarrow> TokenState \<Rightarrow> bool \<times> TokenState" where
  "clear_blocks base [] S = (False, S)"
| "clear_blocks base (i # is) S =
     (let k = base + i * sizeof_CoherenceBlockDescriptor in
      case map_of (objects S) k of
        None \<Rightarrow> clear_blocks base is S
      | Some o1 \<Rightarrow> (case clear_blocks base is (put_object k (o1\<lparr>lo_pending := []\<rparr>) S) of
                      (held, S1) \<Rightarrow> (lo_held o1 \<or> held, S1)))"

definition CloseObject :: "TokenEnv \<Rightarrow> GlobalPointer \<Rightarrow> TokenState \<Rightarrow> bool \<times> TokenState" where
  "CloseObject e object S =
     (case release_unclaimed e (unclaimed object S) (reject_waiters object S) of
        (False, S1) \<Rightarrow> (False, S1)
      | (True, S1) \<Rightarrow>
          (case MutableDescriptor (te_allocator e) (mem S1) object True of
             (Inl st, M) \<Rightarrow> (False, S1\<lparr>mem := M\<rparr>)
           | (Inr d, M) \<Rightarrow>
               (case clear_blocks (ad_coherence_metadata_offset d) (map of_nat [0..<unat (ad_coherence_block_count d)]) (S1\<lparr>mem := M\<rparr>) of
                  (held, S2) \<Rightarrow>
                    (\<not> held \<and> ad_active_operations (descriptors (mem S2) (gp_offset object)) (te_local_host e) = 0,
                     S2\<lparr>outbound := (\<lambda>h. filter (\<lambda>m. packet_object m \<noteq> object) (outbound S2 h))\<rparr>))))"

definition ForgetAllocation :: "u64 \<Rightarrow> u64 \<Rightarrow> TokenState \<Rightarrow> TokenState" where
  "ForgetAllocation coherence_metadata_offset block_count S =
     S\<lparr>objects := filter (\<lambda>p. fst p \<notin> (\<lambda>i. coherence_metadata_offset + of_nat i * sizeof_CoherenceBlockDescriptor) ` {0..<unat block_count}) (objects S)\<rparr>"

definition pending_request_count :: "TokenState \<Rightarrow> nat" where
  "pending_request_count S = length (waiters S)"

end
