(* ===== verification/Cx_Token_Local.thy ===== *)
theory Cx_Token_Local
  imports Cx_Token Cx_Allocator_Heap "HOL-Library.Sublist"
begin

text \<open>
  What the token service of one host keeps true, whatever the other hosts do: the invariant of one host
  relative to the grants in flight elsewhere and to the leases its threads hold, and the guarantee it gives
  to the others (it never touches a block whose token it does not own, and sends grants only for blocks it
  owns).  Every operation is shown to keep the invariant and to honour the guarantee; failures of the
  queues, of the visibility recipes and of lookups are all allowed.

  Most effects are \<^emph>\<open>calm\<close>: they move no token.  The few that do (taking a free token, handing a lease to a
  waiter, giving the token back, sending it away) have a lemma each.
\<close>

section \<open>Keys, leases and grants in flight\<close>

text \<open>A block is identified by the region offset of its descriptor; \<open>mo\<close> gives the metadata offset of every object.\<close>

definition block_key :: "(u64 \<Rightarrow> u64) \<Rightarrow> GlobalPointer \<Rightarrow> u64 \<Rightarrow> u64" where
  "block_key mo object block_index = mo (gp_offset object) + block_index * sizeof_CoherenceBlockDescriptor"

abbreviation lease_key :: "(u64 \<Rightarrow> u64) \<Rightarrow> TokenLease \<Rightarrow> u64" where
  "lease_key mo l \<equiv> block_key mo (ls_object l) (ls_block_index l)"

abbreviation request_key :: "(u64 \<Rightarrow> u64) \<Rightarrow> TokenRequest \<Rightarrow> u64" where
  "request_key mo r \<equiv> block_key mo (rq_object r) (rq_block_index r)"

text \<open>A request that may be queued at a block.\<close>

definition wanted :: "(u64 \<Rightarrow> u64) \<Rightarrow> u64 \<Rightarrow> TokenRequest \<Rightarrow> bool" where
  "wanted mo k r \<longleftrightarrow> request_key mo r = k \<and> kind (rq_header r) = TokenReq"

definition metadata_at :: "(u64 \<Rightarrow> u64) \<Rightarrow> AllocatorMemory \<Rightarrow> bool" where
  "metadata_at mo M \<longleftrightarrow> (\<forall>off. ad_coherence_metadata_offset (descriptors M off) = mo off)"

definition held :: "u64 \<Rightarrow> TokenState \<Rightarrow> bool" where
  "held k S = lo_held (local_object k S)"

definition free_token :: "u64 \<Rightarrow> TokenState \<Rightarrow> bool" where
  "free_token k S \<longleftrightarrow> lo_available (local_object k S) \<and> \<not> held k S"

definition queued :: "u64 \<Rightarrow> TokenState \<Rightarrow> TokenRequest set" where
  "queued k S = set (lo_pending (local_object k S))"

definition granted :: "u64 \<Rightarrow> TokenState \<Rightarrow> bool" where
  "granted i S \<longleftrightarrow> i \<in> set (waiters S) \<and> w_state (waiter_heap S i) = WGranted"

abbreviation lease_of :: "u64 \<Rightarrow> TokenState \<Rightarrow> TokenLease" where
  "lease_of i S \<equiv> w_lease (waiter_heap S i)"

definition grant_key :: "(u64 \<Rightarrow> u64) \<Rightarrow> QueueEnvelope \<Rightarrow> u64 option" where
  "grant_key mo m = (case Decode_TokenGrant m TokenGrantMsg of
     Inl _ \<Rightarrow> None | Inr g \<Rightarrow> Some (block_key mo (gr_object g) (gr_block_index g)))"

definition ring_contents :: "SharedSpscQueue option \<Rightarrow> QueueEnvelope list" where
  "ring_contents q = (case q of None \<Rightarrow> [] | Some s \<Rightarrow> contents s)"

definition in_transit :: "HostId \<Rightarrow> TokenState \<Rightarrow> QueueEnvelope list" where
  "in_transit d S = ring_contents (rings S d) @ outbound S d"

text \<open>The blocks whose token travels from this host to \<open>d\<close>, oldest grant first.\<close>

definition flight :: "(u64 \<Rightarrow> u64) \<Rightarrow> HostId \<Rightarrow> TokenState \<Rightarrow> u64 list" where
  "flight mo d S = List.map_filter (grant_key mo) (in_transit d S)"

definition in_flight :: "(u64 \<Rightarrow> u64) \<Rightarrow> u64 \<Rightarrow> TokenState \<Rightarrow> bool" where
  "in_flight mo k S \<longleftrightarrow> (\<exists>d. k \<in> set (flight mo d S))"

section \<open>Rings\<close>

text \<open>
  A ring is well formed, or its 64-bit cursor has wrapped: then it answers Internal and delivers nothing
  more.  Messages may be lost in that way, never duplicated.
\<close>

definition ring_safe :: "SharedSpscQueue option \<Rightarrow> bool" where
  "ring_safe q \<longleftrightarrow> (case q of None \<Rightarrow> True | Some s \<Rightarrow> queue_wf s \<or> sq_tail s < sq_head s)"

lemma dead_ring: "sq_tail s < sq_head s \<Longrightarrow> contents s = []"
  by (simp add: contents_def word_less_nat_alt)

lemma pushed_safe:
  assumes wf: "queue_wf s" and m: "valid_message s m" and room: "length (contents s) < ring_capacity s"
  shows "ring_safe (Some (pushed s m))" and "subseq (contents (pushed s m)) (contents s @ [m])"
proof -
  have "ring_safe (Some (pushed s m)) \<and> subseq (contents (pushed s m)) (contents s @ [m])"
  proof (cases "unat (sq_tail s) + 1 < 2 ^ 64")
    case True
    from pushed_wf [OF wf m room this] show ?thesis by (simp add: ring_safe_def)
  next
    case False
    then have t: "unat (sq_tail s) = 2 ^ 64 - 1" using unat_u64_bound [of "sq_tail s"] by simp
    have "unat (sq_tail s + 1) = 0" by (simp add: unat_word_ariths t)
    then have z: "sq_tail s + 1 = 0" by (simp add: word_unat_eq_iff)
    have "ring_capacity s < 2 ^ 32"
      using unat_u32_bound [of "qid_capacity_entries (sq_identity s)"] by (simp add: ring_capacity_def)
    then have "0 < unat (sq_head s)" using wf t by (auto simp: queue_wf_def)
    then have "sq_tail (pushed s m) < sq_head (pushed s m)"
      by (simp add: pushed_def Let_def z word_less_nat_alt)
    then show ?thesis using dead_ring [of "pushed s m"] by (simp add: ring_safe_def)
  qed
  then show "ring_safe (Some (pushed s m))" and "subseq (contents (pushed s m)) (contents s @ [m])" by auto
qed

lemma Push_safe:
  assumes "ring_safe q" and "Push cpu h q m = (st, q')"
  shows "ring_safe q' \<and> (st = kOk \<longrightarrow> subseq (ring_contents q') (ring_contents q @ [m])) \<and>
    (st \<noteq> kOk \<longrightarrow> q' = q)"
proof (cases q)
  case None
  with assms show ?thesis by (auto simp: Push_def ring_safe_def)
next
  case (Some s)
  show ?thesis
  proof (cases "queue_wf s \<and> ValidateVisibilityMode cpu (qh_mode h) = kOk")
    case True
    then have "(st, q') = (if \<not> producer_handle s h then (kFailedPrecondition, q)
       else if \<not> valid_message s m then (kInvalidArgument, q)
       else if length (contents s) = ring_capacity s then (kUnavailable, q) else (kOk, Some (pushed s m)))"
      using Push_eq [of s cpu h m] assms(2) Some by auto
    moreover have "length (contents s) \<noteq> ring_capacity s \<Longrightarrow> length (contents s) < ring_capacity s"
      using True contents_length [of s] by (simp add: queue_wf_def)
    ultimately show ?thesis
      using assms(1) Some True pushed_safe [of s m] by (auto simp: ring_contents_def split: if_splits)
  next
    case False
    then consider "sq_tail s < sq_head s" | "visibility_status cpu 8 (qh_mode h) \<noteq> kOk"
      using assms(1) Some by (auto simp: ring_safe_def visibility_status_def)
    then have "q' = q \<and> st \<noteq> kOk"
      using assms(2) Some by cases (auto simp: Push_def Let_def split: if_splits)
    with assms(1) show ?thesis by auto
  qed
qed

lemma TryPop_safe:
  assumes "ring_safe q" and "TryPop cpu h q = (st, Some m, q')"
  shows "ring_safe q' \<and> ring_contents q = m # ring_contents q'"
proof (cases q)
  case None
  with assms(2) show ?thesis by (simp add: TryPop_def)
next
  case (Some s)
  from assms(2) Some have v: "visibility_status cpu 8 (qh_mode h) = kOk" "\<not> sq_tail s < sq_head s"
    by (auto simp: TryPop_def Let_def split: if_splits)
  then have wf: "queue_wf s" "ValidateVisibilityMode cpu (qh_mode h) = kOk"
    using assms(1) Some by (auto simp: ring_safe_def visibility_status_def)
  from TryPop_eq [OF wf] assms(2) Some obtain ms where "contents s = m # ms" "q' = Some (popped s)"
    by (auto split: if_splits list.splits)
  with popped_wf [OF wf(1)] Some show ?thesis by (simp add: ring_safe_def ring_contents_def)
qed

section \<open>Calm effects\<close>

definition rings_safe :: "TokenState \<Rightarrow> bool" where
  "rings_safe S \<longleftrightarrow> (\<forall>d. ring_safe (rings S d))"

text \<open>
  From \<open>S\<close> to \<open>S'\<close> no token moves: owners, epochs and the local flags stay, no lease and no grant appears,
  and a request queued at a block is for that block.
\<close>

definition calm :: "(u64 \<Rightarrow> u64) \<Rightarrow> TokenState \<Rightarrow> TokenState \<Rightarrow> bool" where
  "calm mo S S' \<longleftrightarrow>
     (\<forall>off. ad_coherence_metadata_offset (descriptors (mem S') off) = ad_coherence_metadata_offset (descriptors (mem S) off)) \<and>
     (\<forall>k. token_owner (block_at k S') = token_owner (block_at k S) \<and> token_epoch (block_at k S') = token_epoch (block_at k S)) \<and>
     (\<forall>k. held k S' = held k S \<and> free_token k S' = free_token k S) \<and>
     (\<forall>k. \<forall>r \<in> queued k S'. r \<in> queued k S \<or> wanted mo k r) \<and>
     (\<forall>i. granted i S' \<longrightarrow> granted i S \<and> lease_of i S' = lease_of i S) \<and>
     (\<forall>d. subseq (flight mo d S') (flight mo d S)) \<and>
     (rings_safe S \<longrightarrow> rings_safe S') \<and> (distinct (waiters S) \<longrightarrow> distinct (waiters S'))"

lemma calm_refl [simp, intro]: "calm mo S S"
  by (simp add: calm_def)

lemma calm_trans [trans]: "calm mo S S' \<Longrightarrow> calm mo S' S'' \<Longrightarrow> calm mo S S''"
  unfolding calm_def by (intro conjI) (metis subseq_order.trans)+

lemma local_object_frame [simp]:
  "local_object k (S\<lparr>mem := M\<rparr>) = local_object k S"
  "local_object k (S\<lparr>outbound := ob\<rparr>) = local_object k S"
  "local_object k (S\<lparr>rings := rs\<rparr>) = local_object k S"
  "local_object k (S\<lparr>next_request_id := i\<rparr>) = local_object k S"
  "local_object k (set_block b f S) = local_object k S"
  "local_object k (set_waiter i g S) = local_object k S"
  "local_object k (erase_waiter i S) = local_object k S"
  "local_object k (emplace_waiter i w S) = local_object k S"
  by (simp_all add: local_object_def set_block_def set_waiter_def erase_waiter_def emplace_waiter_def)

lemma local_object_put [simp]: "local_object k (put_object k' o1 S) = (if k = k' then o1 else local_object k S)"
  by (simp add: local_object_def put_object_def update_conv')

lemma state_frame [simp]:
  "mem (put_object k o1 S) = mem S" "rings (put_object k o1 S) = rings S" "outbound (put_object k o1 S) = outbound S"
  "waiters (put_object k o1 S) = waiters S" "waiter_heap (put_object k o1 S) = waiter_heap S"
  "mem (set_waiter i g S) = mem S" "rings (set_waiter i g S) = rings S" "outbound (set_waiter i g S) = outbound S"
  "waiters (set_waiter i g S) = waiters S"
  "mem (erase_waiter i S) = mem S" "rings (erase_waiter i S) = rings S" "outbound (erase_waiter i S) = outbound S"
  "waiter_heap (erase_waiter i S) = waiter_heap S"
  "mem (emplace_waiter i w S) = mem S" "rings (emplace_waiter i w S) = rings S" "outbound (emplace_waiter i w S) = outbound S"
  "rings (set_block b f S) = rings S" "outbound (set_block b f S) = outbound S"
  "waiters (set_block b f S) = waiters S" "waiter_heap (set_block b f S) = waiter_heap S"
  "descriptors (mem (set_block b f S)) = descriptors (mem S)"
  "block_at k (S\<lparr>outbound := ob\<rparr>) = block_at k S" "block_at k (S\<lparr>rings := rs\<rparr>) = block_at k S"
  "block_at k (put_object k' o1 S) = block_at k S" "block_at k (set_waiter i g S) = block_at k S"
  "block_at k (erase_waiter i S) = block_at k S" "block_at k (emplace_waiter i w S) = block_at k S"
  "block_at k (S\<lparr>next_request_id := i\<rparr>) = block_at k S"
  "block_at k (set_block b f S) = (if k = b then f (block_at k S) else block_at k S)"
  by (auto simp: put_object_def set_waiter_def erase_waiter_def emplace_waiter_def set_block_def block_at_def)

lemma granted_frame [simp]:
  "granted i (S\<lparr>mem := M\<rparr>) = granted i S" "granted i (S\<lparr>outbound := ob\<rparr>) = granted i S"
  "granted i (S\<lparr>rings := rs\<rparr>) = granted i S" "granted i (S\<lparr>next_request_id := n\<rparr>) = granted i S"
  "granted i (put_object k o1 S) = granted i S" "granted i (set_block b f S) = granted i S"
  "granted i (erase_waiter j S) = (i \<noteq> j \<and> granted i S)"
  by (auto simp: granted_def) (auto simp: erase_waiter_def)

lemma flight_frame [simp]:
  "flight mo d (S\<lparr>mem := M\<rparr>) = flight mo d S" "flight mo d (S\<lparr>next_request_id := n\<rparr>) = flight mo d S"
  "flight mo d (put_object k o1 S) = flight mo d S" "flight mo d (set_block b f S) = flight mo d S"
  "flight mo d (erase_waiter j S) = flight mo d S" "flight mo d (set_waiter j g S) = flight mo d S"
  "flight mo d (emplace_waiter j w S) = flight mo d S"
  by (simp_all add: flight_def in_transit_def)

lemma rings_safe_frame [simp]:
  "rings_safe (S\<lparr>mem := M\<rparr>) = rings_safe S" "rings_safe (S\<lparr>next_request_id := n\<rparr>) = rings_safe S"
  "rings_safe (S\<lparr>outbound := ob\<rparr>) = rings_safe S"
  "rings_safe (put_object k o1 S) = rings_safe S" "rings_safe (set_block b f S) = rings_safe S"
  "rings_safe (erase_waiter j S) = rings_safe S" "rings_safe (set_waiter j g S) = rings_safe S"
  "rings_safe (emplace_waiter j w S) = rings_safe S"
  by (simp_all add: rings_safe_def)

lemmas token_obs = held_def free_token_def queued_def

lemma calm_mem:
  assumes "coherence_blocks M = coherence_blocks (mem S)"
    and "\<And>off. ad_coherence_metadata_offset (descriptors M off) = ad_coherence_metadata_offset (descriptors (mem S) off)"
  shows "calm mo S (S\<lparr>mem := M\<rparr>)"
  using assms by (simp add: calm_def token_obs block_at_def)

lemma calm_erase [simp, intro]: "calm mo S (erase_waiter i S)"
  by (simp add: calm_def token_obs) (simp add: erase_waiter_def)

lemma calm_emplace:
  assumes "w_state w \<noteq> WGranted"
  shows "calm mo S (emplace_waiter i w (S\<lparr>next_request_id := n\<rparr>))"
  using assms by (auto simp: calm_def token_obs granted_def) (auto simp: emplace_waiter_def split: if_splits)

lemma calm_waiter:
  assumes "\<And>w. w_state (g w) = WGranted \<Longrightarrow> w_state w = WGranted \<and> w_lease (g w) = w_lease w"
  shows "calm mo S (set_waiter i g S)"
  using assms by (auto simp: calm_def token_obs granted_def) (auto simp: set_waiter_def split: if_splits)

lemma calm_object:
  assumes "lo_held o1 = held k S" and "lo_available o1 = lo_available (local_object k S) \<or> held k S"
    and "\<And>r. r \<in> set (lo_pending o1) \<Longrightarrow> r \<in> queued k S \<or> wanted mo k r"
  shows "calm mo S (put_object k o1 S)"
  using assms by (auto simp: calm_def token_obs)

lemma calm_block:
  assumes "\<And>c. token_owner (f c) = token_owner c \<and> token_epoch (f c) = token_epoch c"
  shows "calm mo S (set_block b f S)"
  using assms by (simp add: calm_def token_obs)

text \<open>Targets and pins.\<close>

lemma calm_drop [simp, intro]: "calm mo S (drop_target e t S)"
  unfolding drop_target_def by (rule calm_mem) (auto simp: ReleaseReference_def)

lemma AcquireReference_frame:
  assumes "AcquireReference A M object host b = (r, M')"
  shows "coherence_blocks M' = coherence_blocks M \<and>
    ad_coherence_metadata_offset (descriptors M' off) = ad_coherence_metadata_offset (descriptors M off) \<and>
    (\<forall>a. r = Inr a \<longrightarrow> a = gp_offset object)"
  using assms
  by (auto simp: AcquireReference_def LockAllocationSlot_def UnlockSlot_def split: if_splits option.splits sum.splits prod.splits)

lemma MutableCoherenceBlock_offset:
  assumes "fst (MutableCoherenceBlock A M object i b) = Inr k"
  shows "k = ad_coherence_metadata_offset (descriptors M (gp_offset object)) + i * sizeof_CoherenceBlockDescriptor"
proof -
  have "d = descriptors M (gp_offset object)" if "fst (MutableDescriptor A M object b) = Inr d" for d
    using that by (auto simp: MutableDescriptor_def LockAllocationSlot_def FindDescriptorLocked_def Let_def
        split: if_splits option.splits sum.splits prod.splits)
  then show ?thesis using assms
    by (auto simp: MutableCoherenceBlock_def Let_def split: if_splits option.splits sum.splits prod.splits)
qed

lemma calm_Target:
  assumes "Target e object i b S = (r, S')"
  shows "calm mo S S'"
proof (cases "te_attached e")
  case True
  obtain a M1 where a: "AcquireReference (te_allocator e) (mem S) object (te_local_host e) b = (a, M1)" by fastforce
  note frame = AcquireReference_frame [OF a]
  have M2: "snd (MutableCoherenceBlock (te_allocator e) M1 object i True) = M1" by (rule read_only)
  have "calm mo S (S\<lparr>mem := M1\<rparr>)" by (rule calm_mem) (use frame in auto)
  moreover have "calm mo S (S\<lparr>mem := snd (ReleaseReference M1 off (te_local_host e))\<rparr>)" for off
    by (rule calm_mem) (use frame in \<open>auto simp: ReleaseReference_def\<close>)
  ultimately show ?thesis
    using assms True a M2 by (auto simp: Target_def Let_def split: sum.splits prod.splits if_splits)
qed (use assms in \<open>simp add: Target_def\<close>)

lemma Target_key:
  assumes "Target e object i b S = (Inr t, S')" and "metadata_at mo (mem S)"
  shows "tg_local_key t = block_key mo object i \<and> tg_block t = block_key mo object i \<and> tg_allocation t = gp_offset object"
proof -
  obtain a M1 where a: "AcquireReference (te_allocator e) (mem S) object (te_local_host e) b = (Inr a, M1)"
    and m: "fst (MutableCoherenceBlock (te_allocator e) M1 object i True) = Inr (tg_block t)"
    and t: "tg_allocation t = a"
      "tg_local_key t = ad_coherence_metadata_offset (descriptors (snd (MutableCoherenceBlock (te_allocator e) M1 object i True)) a) +
        i * sizeof_CoherenceBlockDescriptor"
    using assms(1) by (auto simp: Target_def Let_def split: sum.splits prod.splits if_splits)
  have M2: "snd (MutableCoherenceBlock (te_allocator e) M1 object i True) = M1" by (rule read_only)
  have "ad_coherence_metadata_offset (descriptors M1 (gp_offset object)) = mo (gp_offset object)"
    using AcquireReference_frame [OF a] assms(2) by (simp add: metadata_at_def)
  then show ?thesis
    using MutableCoherenceBlock_offset [OF m] AcquireReference_frame [OF a] t M2 by (simp add: block_key_def)
qed

section \<open>Sending\<close>

lemma subseq_map_filter: "subseq xs ys \<Longrightarrow> subseq (List.map_filter f xs) (List.map_filter f ys)"
  by (simp add: map_filter_def subseq_map subseq_filter)

lemma map_filter_append: "List.map_filter f (xs @ ys) = List.map_filter f xs @ List.map_filter f ys"
  by (simp add: map_filter_def)

lemma flush_ring_safe:
  "ring_safe q \<Longrightarrow> flush_ring cpu h q ms = (st, q', rest) \<Longrightarrow>
     ring_safe q' \<and> subseq (ring_contents q' @ rest) (ring_contents q @ ms)"
proof (induction ms arbitrary: q)
  case (Cons m ms)
  obtain pst q1 where p: "Push cpu h q m = (pst, q1)" by fastforce
  note P = Push_safe [OF Cons.prems(1) p]
  show ?case
  proof (cases "pst = kOk")
    case True
    with P have q1: "ring_safe q1" "subseq (ring_contents q1) (ring_contents q @ [m])" by auto
    have "ring_safe q' \<and> subseq (ring_contents q' @ rest) (ring_contents q1 @ ms)"
      by (rule Cons.IH [OF q1(1)]) (use Cons.prems(2) p True in simp)
    moreover have "subseq (ring_contents q1 @ ms) ((ring_contents q @ [m]) @ ms)"
      using q1(2) by (rule list_emb_append_mono) simp
    ultimately show ?thesis by (auto intro: subseq_order.trans)
  next
    case False
    with P Cons.prems p show ?thesis by (auto split: if_splits)
  qed
qed simp

lemma calm_progress:
  "rings_safe S \<Longrightarrow> progress_hosts e hs S = (st, S') \<Longrightarrow> calm mo S S'"
proof (induction e hs S arbitrary: S' rule: progress_hosts.induct)
  case (2 e host hosts S)
  show ?case
  proof (cases "outbound S host = [] \<or> (\<exists>s. te_queue_resolver e (te_local_host e) host = Inl s)")
    case True
    with 2 show ?thesis by (auto split: if_splits)
  next
    case False
    then obtain h where h: "te_queue_resolver e (te_local_host e) host = Inr h"
      by (cases "te_queue_resolver e (te_local_host e) host") auto
    obtain fst' q rest where f: "flush_ring (te_cpu e) h (rings S host) (outbound S host) = (fst', q, rest)" by (metis prod_cases3)
    let ?S = "S\<lparr>outbound := (outbound S)(host := rest), rings := (rings S)(host := q)\<rparr>"
    have fl: "ring_safe q \<and> subseq (ring_contents q @ rest) (ring_contents (rings S host) @ outbound S host)"
      by (rule flush_ring_safe [OF _ f]) (use 2(3) in \<open>simp add: rings_safe_def\<close>)
    have safe: "rings_safe ?S" using fl 2(3) by (simp add: rings_safe_def)
    have "subseq (flight mo d ?S) (flight mo d S)" for d
      unfolding flight_def in_transit_def by (rule subseq_map_filter) (use fl in simp)
    then have c: "calm mo S ?S" using safe by (simp add: calm_def token_obs granted_def)
    show ?thesis
    proof (cases "fst' = kOk")
      case True
      have "calm mo ?S S'" by (rule 2(2) [OF _ h f [symmetric]]) (use 2(4) False h f True safe in auto)
      with c show ?thesis by (rule calm_trans)
    next
      case ne: False
      then show ?thesis using c 2(4) False h f by auto
    qed
  qed
qed auto

text \<open>Everything but a grant.\<close>

definition enqueued :: "HostId \<Rightarrow> QueueEnvelope \<Rightarrow> TokenState \<Rightarrow> TokenState" where
  "enqueued d m S = S\<lparr>outbound := (outbound S)(d := outbound S d @ [m])\<rparr>"

lemma enqueued_frame [simp]:
  "mem (enqueued d m S) = mem S" "rings (enqueued d m S) = rings S" "local_object k (enqueued d m S) = local_object k S"
  "granted i (enqueued d m S) = granted i S" "waiter_heap (enqueued d m S) = waiter_heap S"
  "waiters (enqueued d m S) = waiters S"
  "block_at k (enqueued d m S) = block_at k S" "rings_safe (enqueued d m S) = rings_safe S"
  by (simp_all add: enqueued_def)

lemma flight_enqueued:
  "flight mo d (enqueued d' m S) =
     flight mo d S @ (if d = d' then (case grant_key mo m of None \<Rightarrow> [] | Some k \<Rightarrow> [k]) else [])"
  by (auto simp: flight_def in_transit_def enqueued_def map_filter_append map_filter_def split: option.splits)

lemma EnqueueOutbound_split:
  assumes "EnqueueOutbound e d m S = (st, S')"
  shows "S' = S \<and> st = kInvalidArgument \<or> progress_hosts e (map of_nat [0..<kMaxHosts]) (enqueued d m S) = (st, S')"
proof (cases "kMaxHosts \<le> unat d")
  case True
  with assms show ?thesis by (simp add: EnqueueOutbound_def)
next
  case False
  with assms show ?thesis by (simp add: EnqueueOutbound_def ProgressOutbound_def enqueued_def)
qed

lemma calm_enqueue:
  assumes "rings_safe S" and "EnqueueOutbound e d m S = (st, S')" and "kind (env_header m) \<noteq> TokenGrantMsg"
  shows "calm mo S S'"
proof -
  have "grant_key mo m = None"
    using assms(3) by (auto simp: grant_key_def dest: Decode_TokenGrant_kind split: sum.splits)
  then have "calm mo S (enqueued d m S)" by (auto simp: calm_def token_obs flight_enqueued)
  moreover have "calm mo (enqueued d m S) S'" if "progress_hosts e (map of_nat [0..<kMaxHosts]) (enqueued d m S) = (st, S')"
    by (rule calm_progress [OF _ that]) (use assms(1) in simp)
  ultimately show ?thesis using EnqueueOutbound_split [OF assms(2)] calm_trans by blast
qed

lemma calm_safe: "calm mo S S' \<Longrightarrow> rings_safe S \<Longrightarrow> rings_safe S'"
  by (simp add: calm_def)

lemma calm_SendRequest:
  assumes "rings_safe S" and "SendRequest e d r S = (st, S')" and "kind (rq_header r) \<noteq> TokenGrantMsg"
  shows "calm mo S S'"
  by (rule calm_enqueue [OF assms(1) assms(2) [unfolded SendRequest_def]]) (use assms(3) in simp)

lemma calm_forward:
  "rings_safe S \<Longrightarrow> forward_pending e d rs S = (st, S') \<Longrightarrow> \<forall>r \<in> set rs. kind (rq_header r) \<noteq> TokenGrantMsg \<Longrightarrow> calm mo S S'"
proof (induction rs arbitrary: S)
  case (Cons r rs)
  obtain s1 S1 where s: "SendRequest e d r S = (s1, S1)" by fastforce
  have c: "calm mo S S1" by (rule calm_SendRequest [OF Cons.prems(1) s]) (use Cons.prems(3) in simp)
  show ?case
  proof (cases "s1 = kOk")
    case True
    have "calm mo S1 S'"
      by (rule Cons.IH [OF calm_safe [OF c Cons.prems(1)]]) (use Cons.prems s True in auto)
    with c show ?thesis by (rule calm_trans)
  qed (use Cons.prems s c in auto)
qed simp

section \<open>Operations that move no token\<close>

lemma calm_HandleReject: "HandleReject e r S = (st, S') \<Longrightarrow> calm mo S S'"
  by (auto simp: HandleReject_def Let_def split: if_splits intro!: calm_waiter calm_trans [OF calm_waiter calm_erase])

lemma calm_HandleCancelAck: "HandleCancelAck e a S = (st, S') \<Longrightarrow> calm mo S S'"
  by (auto simp: HandleCancelAck_def Let_def split: if_splits intro!: calm_waiter calm_trans [OF calm_waiter calm_erase])

lemma calm_Reject: "rings_safe S \<Longrightarrow> Reject e r reason S = (st, S') \<Longrightarrow> calm mo S S'"
  by (auto simp: Reject_def Let_def split: if_splits dest: calm_HandleReject calm_enqueue)

lemma calm_AcknowledgeCancel: "rings_safe S \<Longrightarrow> AcknowledgeCancel e c reason S = (st, S') \<Longrightarrow> calm mo S S'"
  by (auto simp: AcknowledgeCancel_def Let_def split: if_splits dest: calm_HandleCancelAck calm_enqueue)

lemma set_remove_first: "set (remove_first P xs) \<subseteq> set xs"
  by (induction xs) auto

lemma calm_queue:
  "set rs \<subseteq> queued k S \<Longrightarrow> calm mo S (put_object k ((local_object k S)\<lparr>lo_pending := rs\<rparr>) S)"
  by (rule calm_object) (auto simp: held_def)

text \<open>Sequencing: calm after calm, with the rings still safe in between.\<close>

lemma calm_then: "rings_safe S \<Longrightarrow> calm mo S S1 \<Longrightarrow> (rings_safe S1 \<Longrightarrow> calm mo S1 S') \<Longrightarrow> calm mo S S'"
  using calm_safe calm_trans by blast

lemma calm_then_drop: "calm mo S S' \<Longrightarrow> calm mo S (drop_target e t S')"
  using calm_trans calm_drop by blast

lemma calm_HandleCancel:
  assumes safe: "rings_safe S" and h: "HandleCancel e c S = (st, S')" and c: "kind (ca_header c) = TokenCancelMsg"
  shows "calm mo S S'"
proof (cases "kMaxHosts \<le> unat (ca_requester c) \<or> ca_request_id c = 0")
  case False
  obtain r S1 where t: "Target e (ca_object c) (ca_block_index c) True S = (r, S1)" by fastforce
  from calm_Target [OF t] show ?thesis
  proof (rule calm_then [OF safe])
    assume safe1: "rings_safe S1"
    show "calm mo S1 S'"
    proof (cases r)
      case (Inl s)
      with False t h safe1 show ?thesis by (auto simp: HandleCancel_def intro: calm_AcknowledgeCancel)
    next
      case (Inr t1)
      let ?k = "tg_local_key t1" and ?own = "block_owner (tg_block t1) S1"
      let ?S2 = "put_object ?k ((local_object ?k S1)\<lparr>lo_pending := remove_first (cancels c) (lo_pending (local_object ?k S1))\<rparr>) S1"
      have c2: "calm mo S1 ?S2" using set_remove_first by (intro calm_queue) (fastforce simp: queued_def)
      have ack: "calm mo S1 S3" if "AcknowledgeCancel e c reason ?S2 = (s3, S3)" for reason s3 S3
        by (rule calm_then [OF safe1 c2]) (use that in \<open>auto intro: calm_AcknowledgeCancel\<close>)
      have fwd: "calm mo S1 S3" if "EnqueueOutbound e d (Encode_TokenCancel (c\<lparr>ca_header := h1\<rparr>)) S1 = (s3, S3)"
        "kind h1 = TokenCancelMsg" for d h1 s3 S3
        by (rule calm_enqueue [OF safe1 that(1)]) (use that(2) in simp)
      show ?thesis using False t h Inr c
        by (auto simp: HandleCancel_def Let_def split: prod.splits if_splits intro!: calm_then_drop intro: ack fwd)
    qed
  qed
qed (use h in \<open>auto simp: HandleCancel_def\<close>)

lemma calm_SendCancel:
  "rings_safe S \<Longrightarrow> SendCancel e c S = (st, S') \<Longrightarrow> kind (ca_header c) = TokenCancelMsg \<Longrightarrow> calm mo S S'"
  by (auto simp: SendCancel_def split: if_splits intro: calm_HandleCancel calm_enqueue)

lemma calm_ActivateWriter: "ActivateWriter e b S = (st, S') \<Longrightarrow> calm mo S S'"
  by (auto simp: ActivateWriter_def Let_def split: if_splits intro!: calm_block intro: calm_trans [OF calm_block calm_block])

lemma calm_activate_if: "activate_if a e b S = (st, S') \<Longrightarrow> calm mo S S'"
  by (auto simp: activate_if_def split: if_splits dest: calm_ActivateWriter)

lemma calm_release_begin:
  assumes "release_begin e l m S = (r, S')"
  shows "calm mo S S'"
proof -
  obtain r1 S1 where t: "Target e (ls_object l) (ls_block_index l) True S = (r1, S1)" by fastforce
  let ?f = "\<lambda>b. b\<lparr>last_writer := ucast (te_local_host e), cb_version := cb_version b + 1\<rparr>"
  have v: "calm mo X (set_block b ?f X)" and w: "calm mo X (set_block b (\<lambda>c. c\<lparr>writeback_epoch := n\<rparr>) X)" for b n X
    by (auto intro!: calm_block)
  note vw = calm_trans [OF v w]
  have "calm mo S1 S'"
  proof (cases r1)
    case (Inl s)
    with assms t show ?thesis by (simp add: release_begin_def)
  next
    case (Inr t1)
    show ?thesis using assms t Inr
      by (simp add: release_begin_def Let_def split: if_splits) (auto intro!: calm_then_drop v w vw)
  qed
  with calm_Target [OF t] show ?thesis by (rule calm_trans)
qed

lemma calm_BeginWriteback:
  assumes "BeginWriteback e l S = (st, S')"
  shows "calm mo S S'"
proof -
  obtain r1 S1 where t: "Target e (ls_object l) (ls_block_index l) True S = (r1, S1)" by fastforce
  have "calm mo S1 S'" using assms t
    by (auto simp: BeginWriteback_def Let_def split: sum.splits prod.splits if_splits
        intro!: calm_then_drop intro: calm_ActivateWriter)
  with calm_Target [OF t] show ?thesis by (rule calm_trans)
qed

end
