(* ===== verification/Cx_Token_Inv.thy ===== *)
theory Cx_Token_Inv
  imports Cx_Token_Local
begin

text \<open>
  The invariant of one host of the token protocol, the guarantee it gives the others, and the proof that
  every operation of the service keeps the one and honours the other.
\<close>

section \<open>The invariant of a host\<close>

text \<open>
  \<open>F\<close> are the blocks whose token is in flight from other hosts, \<open>C\<close> the leases that threads of this host
  obtained and have not released.  A token is \<open>here\<close> when this host is the owner and no grant for the block is
  under way anywhere.
\<close>

definition here :: "TokenEnv \<Rightarrow> (u64 \<Rightarrow> u64) \<Rightarrow> u64 set \<Rightarrow> u64 \<Rightarrow> TokenState \<Rightarrow> bool" where
  "here e mo F k S \<longleftrightarrow> token_owner (block_at k S) = ucast (te_local_host e) \<and> k \<notin> F \<and> \<not> in_flight mo k S"

definition leased :: "(u64 \<Rightarrow> u64) \<Rightarrow> TokenLease list \<Rightarrow> u64 \<Rightarrow> TokenState \<Rightarrow> bool" where
  "leased mo C k S \<longleftrightarrow> (\<exists>i. granted i S \<and> lease_key mo (lease_of i S) = k) \<or> k \<in> lease_key mo ` set C"

text \<open>The token is here and no lease on it is out; \<open>loose\<close>: it is also marked as held.\<close>

definition idle :: "TokenEnv \<Rightarrow> (u64 \<Rightarrow> u64) \<Rightarrow> u64 set \<Rightarrow> TokenLease list \<Rightarrow> u64 \<Rightarrow> TokenState \<Rightarrow> bool" where
  "idle e mo F C k S \<longleftrightarrow> here e mo F k S \<and> \<not> leased mo C k S"

definition loose :: "TokenEnv \<Rightarrow> (u64 \<Rightarrow> u64) \<Rightarrow> u64 set \<Rightarrow> TokenLease list \<Rightarrow> u64 \<Rightarrow> TokenState \<Rightarrow> bool" where
  "loose e mo F C k S \<longleftrightarrow> idle e mo F C k S \<and> held k S"

definition lease_ok :: "TokenEnv \<Rightarrow> (u64 \<Rightarrow> u64) \<Rightarrow> u64 set \<Rightarrow> TokenState \<Rightarrow> TokenLease \<Rightarrow> bool" where
  "lease_ok e mo F S l \<longleftrightarrow> held (lease_key mo l) S \<and> here e mo F (lease_key mo l) S \<and>
     token_epoch (block_at (lease_key mo l) S) = ls_token_epoch l"

text \<open>The grants under way: none twice, none that another host also sent.\<close>

definition flights_ok :: "(u64 \<Rightarrow> u64) \<Rightarrow> u64 set \<Rightarrow> TokenState \<Rightarrow> bool" where
  "flights_ok mo F S \<longleftrightarrow> (\<forall>d. distinct (flight mo d S)) \<and>
     (\<forall>d d' k. k \<in> set (flight mo d S) \<longrightarrow> k \<in> set (flight mo d' S) \<longrightarrow> d = d') \<and>
     (\<forall>k. in_flight mo k S \<longrightarrow> k \<notin> F)"

definition token_inv :: "TokenEnv \<Rightarrow> (u64 \<Rightarrow> u64) \<Rightarrow> u64 set \<Rightarrow> TokenLease list \<Rightarrow> TokenState \<Rightarrow> bool" where
  "token_inv e mo F C S \<longleftrightarrow>
     metadata_at mo (mem S) \<and> rings_safe S \<and> flights_ok mo F S \<and>
     (\<forall>k. free_token k S \<longrightarrow> here e mo F k S) \<and>
     (\<forall>k. \<forall>r \<in> queued k S. wanted mo k r) \<and>
     (\<forall>i j. granted i S \<longrightarrow> granted j S \<longrightarrow> lease_key mo (lease_of i S) = lease_key mo (lease_of j S) \<longrightarrow> i = j) \<and>
     (\<forall>i. granted i S \<longrightarrow> lease_key mo (lease_of i S) \<notin> lease_key mo ` set C \<and> lease_ok e mo F S (lease_of i S)) \<and>
     distinct (map (lease_key mo) C) \<and> (\<forall>l \<in> set C. lease_ok e mo F S l) \<and> distinct (waiters S)"

text \<open>What the other hosts may rely on.\<close>

definition polite :: "TokenEnv \<Rightarrow> (u64 \<Rightarrow> u64) \<Rightarrow> TokenState \<Rightarrow> TokenState \<Rightarrow> bool" where
  "polite e mo S S' \<longleftrightarrow>
     (\<forall>k. token_owner (block_at k S) \<noteq> ucast (te_local_host e) \<longrightarrow>
        token_owner (block_at k S') = token_owner (block_at k S) \<and> token_epoch (block_at k S') = token_epoch (block_at k S) \<and>
        (in_flight mo k S' \<longrightarrow> in_flight mo k S))"

definition keeps :: "TokenEnv \<Rightarrow> (u64 \<Rightarrow> u64) \<Rightarrow> u64 set \<Rightarrow> TokenLease list \<Rightarrow> TokenState \<Rightarrow> TokenState \<Rightarrow> bool" where
  "keeps e mo F C S S' \<longleftrightarrow> token_inv e mo F C S' \<and> polite e mo S S'"

lemma polite_refl [simp]: "polite e mo S S"
  by (simp add: polite_def)

lemma polite_trans [trans]: "polite e mo S S' \<Longrightarrow> polite e mo S' S'' \<Longrightarrow> polite e mo S S''"
  by (simp add: polite_def)

lemma keeps_trans [trans]: "polite e mo S S' \<Longrightarrow> keeps e mo F C S' S'' \<Longrightarrow> keeps e mo F C S S''"
  by (auto simp: keeps_def intro: polite_trans)

section \<open>Calm effects keep everything\<close>

lemma subseq_set: "subseq xs ys \<Longrightarrow> set xs \<subseteq> set ys"
  by (metis set_nths_subset subseq_conv_nths)

lemma subseq_distinct: "subseq xs ys \<Longrightarrow> distinct ys \<Longrightarrow> distinct xs"
  by (auto simp: subseq_conv_nths intro: distinct_nthsI)

lemma calmD:
  assumes "calm mo S S'"
  shows "metadata_at mo (mem S) \<Longrightarrow> metadata_at mo (mem S')" "token_owner (block_at k S') = token_owner (block_at k S)"
    "token_epoch (block_at k S') = token_epoch (block_at k S)" "held k S' = held k S" "free_token k S' = free_token k S"
    "r \<in> queued k S' \<Longrightarrow> r \<in> queued k S \<or> wanted mo k r" "granted i S' \<Longrightarrow> granted i S"
    "granted i S' \<Longrightarrow> lease_of i S' = lease_of i S" "subseq (flight mo d S') (flight mo d S)"
    "rings_safe S \<Longrightarrow> rings_safe S'" "distinct (waiters S) \<Longrightarrow> distinct (waiters S')"
  using assms by (simp_all add: calm_def metadata_at_def)

lemma invD:
  assumes "token_inv e mo F C S"
  shows "metadata_at mo (mem S)" "rings_safe S" "flights_ok mo F S" "free_token k S \<Longrightarrow> here e mo F k S"
    "r \<in> queued k S \<Longrightarrow> wanted mo k r"
    "granted i S \<Longrightarrow> granted j S \<Longrightarrow> lease_key mo (lease_of i S) = lease_key mo (lease_of j S) \<Longrightarrow> i = j"
    "granted i S \<Longrightarrow> lease_key mo (lease_of i S) \<notin> lease_key mo ` set C"
    "granted i S \<Longrightarrow> lease_ok e mo F S (lease_of i S)"
    "distinct (map (lease_key mo) C)" "l \<in> set C \<Longrightarrow> lease_ok e mo F S l" "distinct (waiters S)"
  using assms by (simp_all add: token_inv_def)

lemma invI:
  assumes "metadata_at mo (mem S)" "rings_safe S" "flights_ok mo F S" "\<And>k. free_token k S \<Longrightarrow> here e mo F k S"
    "\<And>k r. r \<in> queued k S \<Longrightarrow> wanted mo k r"
    "\<And>i j. granted i S \<Longrightarrow> granted j S \<Longrightarrow> lease_key mo (lease_of i S) = lease_key mo (lease_of j S) \<Longrightarrow> i = j"
    "\<And>i. granted i S \<Longrightarrow> lease_key mo (lease_of i S) \<notin> lease_key mo ` set C"
    "\<And>i. granted i S \<Longrightarrow> lease_ok e mo F S (lease_of i S)"
    "distinct (map (lease_key mo) C)" "\<And>l. l \<in> set C \<Longrightarrow> lease_ok e mo F S l" "distinct (waiters S)"
  shows "token_inv e mo F C S"
  using assms by (simp add: token_inv_def)

lemma calm_in_flight: "calm mo S S' \<Longrightarrow> in_flight mo k S' \<Longrightarrow> in_flight mo k S"
  unfolding in_flight_def using subseq_set [OF calmD(9)] by (meson subsetD)

lemma calm_here: "calm mo S S' \<Longrightarrow> here e mo F k S \<Longrightarrow> here e mo F k S'"
  using calm_in_flight [of mo S S' k] by (auto simp: here_def calmD)

lemma calm_leased: "calm mo S S' \<Longrightarrow> leased mo C k S' \<Longrightarrow> leased mo C k S"
  using calmD(7,8) by (fastforce simp: leased_def)

lemma calm_idle: "calm mo S S' \<Longrightarrow> idle e mo F C k S \<Longrightarrow> idle e mo F C k S'"
  using calm_here [of mo S S' e F k] calm_leased [of mo S S' C k] by (auto simp: idle_def)

lemma calm_loose: "calm mo S S' \<Longrightarrow> loose e mo F C k S \<Longrightarrow> loose e mo F C k S'"
  using calm_idle [of mo S S'] by (auto simp: loose_def calmD)

lemma calm_lease_ok: "calm mo S S' \<Longrightarrow> lease_ok e mo F S l \<Longrightarrow> lease_ok e mo F S' l"
  using calm_here [of mo S S'] by (auto simp: lease_ok_def calmD)

lemma calm_flights:
  assumes c: "calm mo S S'" and f: "flights_ok mo F S"
  shows "flights_ok mo F S'"
  unfolding flights_ok_def
proof (intro conjI allI impI)
  show "distinct (flight mo d S')" for d
    using f subseq_distinct [OF calmD(9) [OF c]] by (simp add: flights_ok_def)
  show "d = d'" if "k \<in> set (flight mo d S')" "k \<in> set (flight mo d' S')" for d d' k
    using f that subseq_set [OF calmD(9) [OF c]] unfolding flights_ok_def by (meson subsetD)
  show "k \<notin> F" if "in_flight mo k S'" for k
    using f calm_in_flight [OF c that] by (simp add: flights_ok_def)
qed

lemma calm_polite: "calm mo S S' \<Longrightarrow> polite e mo S S'"
  using calm_in_flight [of mo S S'] by (simp add: polite_def calmD)

lemma calm_inv:
  assumes c: "calm mo S S'" and inv: "token_inv e mo F C S"
  shows "token_inv e mo F C S'"
proof (rule invI)
  note cD = calmD [OF c] and iD = invD [OF inv]
  show "metadata_at mo (mem S')" by (rule cD(1) [OF iD(1)])
  show "rings_safe S'" by (rule cD(10) [OF iD(2)])
  show "flights_ok mo F S'" by (rule calm_flights [OF c iD(3)])
  show "here e mo F k S'" if "free_token k S'" for k using that iD(4) by (simp add: cD calm_here [OF c])
  show "wanted mo k r" if "r \<in> queued k S'" for k r using cD(6) [OF that] iD(5) by blast
  show "i = j" if "granted i S'" "granted j S'" "lease_key mo (lease_of i S') = lease_key mo (lease_of j S')" for i j
    by (rule iD(6) [OF cD(7) [OF that(1)] cD(7) [OF that(2)] that(3) [unfolded cD(8) [OF that(1)] cD(8) [OF that(2)]]])
  show "lease_key mo (lease_of i S') \<notin> lease_key mo ` set C" if "granted i S'" for i
    unfolding cD(8) [OF that] by (rule iD(7) [OF cD(7) [OF that]])
  show "lease_ok e mo F S' (lease_of i S')" if "granted i S'" for i
    unfolding cD(8) [OF that] by (rule calm_lease_ok [OF c iD(8) [OF cD(7) [OF that]]])
  show "distinct (map (lease_key mo) C)" by (rule iD(9))
  show "lease_ok e mo F S' l" if "l \<in> set C" for l by (rule calm_lease_ok [OF c iD(10) [OF that]])
  show "distinct (waiters S')" by (rule cD(11) [OF iD(11)])
qed

lemma calm_keeps: "calm mo S S' \<Longrightarrow> token_inv e mo F C S \<Longrightarrow> keeps e mo F C S S'"
  by (simp add: keeps_def calm_inv calm_polite)

lemma keeps_then_calm: "keeps e mo F C S S' \<Longrightarrow> calm mo S' S'' \<Longrightarrow> keeps e mo F C S S''"
  using calm_inv [of mo S' S''] calm_polite [of mo S' S''] by (auto simp: keeps_def intro: polite_trans)

lemma calm_then_keeps: "calm mo S S' \<Longrightarrow> keeps e mo F C S' S'' \<Longrightarrow> keeps e mo F C S S''"
  by (rule keeps_trans [OF calm_polite])

section \<open>Moves\<close>

text \<open>Flags of one block; everything else stays.\<close>

lemma put_frame [simp]:
  "here e mo F k (put_object k' o1 S) = here e mo F k S"
  "leased mo C k (put_object k' o1 S) = leased mo C k S"
  "idle e mo F C k (put_object k' o1 S) = idle e mo F C k S"
  "flights_ok mo F (put_object k' o1 S) = flights_ok mo F S"
  "polite e mo S (put_object k' o1 S)"
  "in_flight mo k (put_object k' o1 S) = in_flight mo k S"
  by (simp_all add: here_def leased_def idle_def in_flight_def flights_ok_def polite_def)

text \<open>Setting the flags of a block whose token is here and not leased: it becomes held, or free.\<close>

lemma put_unleased:
  assumes inv: "token_inv e mo F C S" and unl: "leased mo C k S \<Longrightarrow> lo_held o1 = held k S"
    and q: "set (lo_pending o1) \<subseteq> queued k S" and idle: "lo_available o1 \<Longrightarrow> \<not> lo_held o1 \<Longrightarrow> here e mo F k S"
  shows "keeps e mo F C S (put_object k o1 S)"
proof -
  have ne: "lease_key mo (lease_of i S) \<noteq> k \<or> lo_held o1 = held k S" if "granted i S" for i
    using unl that by (auto simp: leased_def)
  have nc: "lease_key mo l \<noteq> k \<or> lo_held o1 = held k S" if "l \<in> set C" for l using unl that by (auto simp: leased_def)
  have ok: "lease_ok e mo F (put_object k o1 S) l = lease_ok e mo F S l"
    if "lease_key mo l \<noteq> k \<or> lo_held o1 = held k S" for l
    using that by (auto simp: lease_ok_def held_def)
  note iD = invD [OF inv]
  have "token_inv e mo F C (put_object k o1 S)"
  proof (rule invI)
    show "here e mo F k' (put_object k o1 S)" if "free_token k' (put_object k o1 S)" for k'
      using that idle iD(4) [of k'] by (cases "k' = k") (simp_all add: free_token_def held_def)
    show "wanted mo k' r" if "r \<in> queued k' (put_object k o1 S)" for k' r
      using that q iD(5) [of r k'] by (cases "k' = k") (auto simp: queued_def)
    show "i = j" if "granted i (put_object k o1 S)" "granted j (put_object k o1 S)"
        "lease_key mo (lease_of i (put_object k o1 S)) = lease_key mo (lease_of j (put_object k o1 S))" for i j
      using iD(6) that by simp
    show "lease_ok e mo F (put_object k o1 S) (lease_of i (put_object k o1 S))" if "granted i (put_object k o1 S)" for i
      using iD(8) ne that ok by simp
    show "lease_ok e mo F (put_object k o1 S) l" if "l \<in> set C" for l using iD(10) nc that ok by simp
  qed (use iD(1,2,3,7,9,11) in simp_all)
  then show ?thesis by (simp add: keeps_def)
qed

lemma put_idle:
  assumes inv: "token_inv e mo F C S" and idle: "idle e mo F C k S" and q: "set (lo_pending o1) \<subseteq> queued k S"
  shows "keeps e mo F C S (put_object k o1 S)"
    and "lo_held o1 \<Longrightarrow> loose e mo F C k (put_object k o1 S)"
proof -
  show "keeps e mo F C S (put_object k o1 S)" by (rule put_unleased [OF inv _ q]) (use idle in \<open>simp_all add: idle_def\<close>)
  show "loose e mo F C k (put_object k o1 S)" if "lo_held o1" using idle that by (simp add: loose_def held_def)
qed

lemma free_idle:
  assumes inv: "token_inv e mo F C S" and f: "free_token k S"
  shows "idle e mo F C k S"
  using invD(8,10) [OF inv] invD(4) [OF inv f] f by (fastforce simp: idle_def leased_def free_token_def lease_ok_def)

lemma loose_idle: "loose e mo F C k S \<Longrightarrow> idle e mo F C k S"
  by (simp add: loose_def)

text \<open>A waiter receives the lease of a block that is held for it.\<close>

lemma grant_waiter:
  assumes inv: "token_inv e mo F C S" and loose: "loose e mo F C k S" and i: "i \<in> set (waiters S)"
    and l: "lease_key mo l = k" "ls_token_epoch l = token_epoch (block_at k S)"
  shows "keeps e mo F C S (set_waiter i (\<lambda>w. w\<lparr>w_lease := l, w_granted := True, w_state := WGranted\<rparr>) S)"
proof -
  let ?S = "set_waiter i (\<lambda>w. w\<lparr>w_lease := l, w_granted := True, w_state := WGranted\<rparr>) S"
  have g: "granted j ?S \<longleftrightarrow> j = i \<or> granted j S" and lo: "lease_of j ?S = (if j = i then l else lease_of j S)" for j
    using i by (auto simp: granted_def set_waiter_def)
  have fr: "here e mo F k' ?S = here e mo F k' S" "held k' ?S = held k' S" "free_token k' ?S = free_token k' S"
    "queued k' ?S = queued k' S" "flights_ok mo F ?S = flights_ok mo F S" "in_flight mo k' ?S = in_flight mo k' S" for k'
    by (simp_all add: here_def token_obs in_flight_def flights_ok_def)
  have ok: "lease_ok e mo F ?S l' = lease_ok e mo F S l'" for l' by (simp add: lease_ok_def fr)
  have new: "lease_ok e mo F S l" using loose l by (auto simp: lease_ok_def loose_def idle_def)
  have other: "lease_key mo (lease_of j S) \<noteq> k" if "granted j S" for j using loose that by (auto simp: loose_def idle_def leased_def)
  have c: "lease_key mo l' \<noteq> k" if "l' \<in> set C" for l' using loose that by (auto simp: loose_def idle_def leased_def)
  note iD = invD [OF inv]
  have "token_inv e mo F C ?S"
  proof (rule invI)
    show "j = j'" if "granted j ?S" "granted j' ?S" "lease_key mo (lease_of j ?S) = lease_key mo (lease_of j' ?S)" for j j'
      using that other [of j] other [of j'] l(1) iD(6) [of j j'] by (auto simp: g lo split: if_splits)
    show "lease_key mo (lease_of j ?S) \<notin> lease_key mo ` set C" if "granted j ?S" for j
      using that c l(1) iD(7) [of j] by (cases "j = i") (force simp: g lo)+
    show "lease_ok e mo F ?S (lease_of j ?S)" if "granted j ?S" for j
      using that new iD(8) [of j] by (auto simp: g lo ok split: if_splits)
  qed (use iD(1-5) iD(9-11) in \<open>simp_all add: fr ok\<close>)
  then show ?thesis by (simp add: keeps_def polite_def fr)
qed

text \<open>The lease of a waiter that leaves the table is loose, and so is one that its thread gives back.\<close>

lemma erase_granted:
  assumes inv: "token_inv e mo F C S" and g: "granted i S"
  shows "token_inv e mo F C (erase_waiter i S)" and "loose e mo F C (lease_key mo (lease_of i S)) (erase_waiter i S)"
proof -
  have c: "calm mo S (erase_waiter i S)" by simp
  show "token_inv e mo F C (erase_waiter i S)" by (rule calm_inv [OF c inv])
  have ok: "lease_ok e mo F S (lease_of i S)" using inv g by (simp add: token_inv_def)
  have "\<not> leased mo C (lease_key mo (lease_of i S)) (erase_waiter i S)"
    using invD(6,7) [OF inv] g by (auto simp: leased_def)
  with calm_lease_ok [OF c ok] show "loose e mo F C (lease_key mo (lease_of i S)) (erase_waiter i S)"
    by (auto simp: lease_ok_def loose_def idle_def)
qed

lemma return_lease:
  assumes inv: "token_inv e mo F C S" and l: "l \<in> set C"
  shows "token_inv e mo F (remove1 l C) S" and "loose e mo F (remove1 l C) (lease_key mo l) S"
proof -
  have d: "distinct (map (lease_key mo) C)" using inv by (simp add: token_inv_def)
  then have dC: "distinct C" and inj: "inj_on (lease_key mo) (set C)" by (auto simp: distinct_map)
  have sub: "set (remove1 l C) = set C - {l}" using dC by simp
  note iD = invD [OF inv]
  have "distinct (map (lease_key mo) (remove1 l C))" using dC inj by (auto simp: distinct_map inj_on_def)
  moreover have "lease_key mo (lease_of i S) \<notin> lease_key mo ` set (remove1 l C)" if "granted i S" for i
    using iD(7) [OF that] sub by auto
  ultimately show "token_inv e mo F (remove1 l C) S"
    by (intro invI) (use iD in \<open>simp_all add: sub\<close>)
  have "lease_key mo l \<notin> lease_key mo ` (set C - {l})" using inj l by (auto simp: inj_on_def)
  moreover have "lease_ok e mo F S l" using inv l by (simp add: token_inv_def)
  ultimately show "loose e mo F (remove1 l C) (lease_key mo l) S"
    using iD(7) l by (auto simp: loose_def idle_def leased_def lease_ok_def sub)
qed

text \<open>A thread takes the lease of its waiter.\<close>

lemma claim_lease:
  assumes inv: "token_inv e mo F C S" and g: "granted i S"
  shows "token_inv e mo F (lease_of i S # C) (erase_waiter i S)"
proof -
  have ok: "lease_ok e mo F (erase_waiter i S) l" if "lease_ok e mo F S l" for l
    using calm_lease_ok [OF calm_erase that] .
  note iD = invD [OF inv] and cD = invD [OF calm_inv [OF calm_erase inv, of i]]
  show ?thesis
  proof (rule invI)
    show "lease_key mo (lease_of j (erase_waiter i S)) \<notin> lease_key mo ` set (lease_of i S # C)"
      if "granted j (erase_waiter i S)" for j
      using that iD(6) [OF _ g, of j] iD(7) [of j] by auto
    show "lease_ok e mo F (erase_waiter i S) l" if "l \<in> set (lease_of i S # C)" for l
      using that ok iD(8) [OF g] iD(10) by auto
    show "distinct (map (lease_key mo) (lease_of i S # C))" using iD(7) [OF g] iD(9) by simp
  qed (use cD in simp_all)
qed

text \<open>The owner changes and the grant leaves: the block is no longer here.\<close>

definition handed_over :: "u64 \<Rightarrow> HostId \<Rightarrow> TokenState \<Rightarrow> TokenState" where
  "handed_over k r S = set_block k (\<lambda>b. b\<lparr>token_epoch := token_epoch b + 1, token_owner := ucast r\<rparr>) S"

lemma hand_over:
  assumes inv: "token_inv e mo F C S" and loose: "loose e mo F C k S" and m: "grant_key mo m = Some k"
  shows "keeps e mo F C S (handed_over k r S)" and "keeps e mo F C S (enqueued r m (handed_over k r S))"
    and "\<not> leased mo C k (enqueued r m (handed_over k r S))"
proof -
  note iD = invD [OF inv]
  let ?S = "handed_over k r S"
  from loose have L: "held k S" "token_owner (block_at k S) = ucast (te_local_host e)" "\<not> leased mo C k S"
    "\<not> in_flight mo k S" "k \<notin> F"
    by (simp_all add: loose_def idle_def here_def)
  have ne: "lease_key mo (lease_of i S) \<noteq> k" if "granted i S" for i using L(3) that by (auto simp: leased_def)
  have nc: "lease_key mo l \<noteq> k" if "l \<in> set C" for l using L(3) that by (auto simp: leased_def)
  have f: "flight mo d (enqueued r m ?S) = flight mo d S @ (if d = r then [k] else [])" for d
    using m by (simp add: flight_enqueued handed_over_def)
  have new: "k \<notin> set (flight mo d S)" for d using L(4) by (simp add: in_flight_def)
  have inf: "in_flight mo k' (enqueued r m ?S) \<Longrightarrow> k' \<noteq> k \<Longrightarrow> in_flight mo k' S" for k'
    by (auto simp: in_flight_def f split: if_splits)
  have "d = d'" if "k' \<in> set (flight mo d (enqueued r m ?S))" "k' \<in> set (flight mo d' (enqueued r m ?S))" for d d' k'
    using that new [of d] new [of d'] iD(3) by (cases "k' = k") (auto simp: f flights_ok_def split: if_splits)
  moreover have "k' \<notin> F" if "in_flight mo k' (enqueued r m ?S)" for k'
    using inf [OF that] L(5) iD(3) by (cases "k' = k") (auto simp: flights_ok_def)
  moreover have "distinct (flight mo d (enqueued r m ?S))" for d using new iD(3) by (simp add: f flights_ok_def)
  ultimately have fl: "flights_ok mo F (enqueued r m ?S)" by (simp add: flights_ok_def)
  have nf: "\<not> free_token k X" if "\<And>k. local_object k X = local_object k S" for X
    using L(1) that by (simp add: free_token_def held_def)
  have A: "token_inv e mo F C X"
    if X: "\<And>k. local_object k X = local_object k S" "flights_ok mo F X" "\<And>k'. in_flight mo k' X \<Longrightarrow> k' \<noteq> k \<Longrightarrow> in_flight mo k' S"
      "\<And>i. granted i X = granted i S" "waiter_heap X = waiter_heap S" "rings_safe X" "descriptors (mem X) = descriptors (mem S)"
      "\<And>k'. k' \<noteq> k \<Longrightarrow> block_at k' X = block_at k' S" "waiters X = waiters S" for X
  proof -
    have h: "here e mo F k' X" if "here e mo F k' S" "k' \<noteq> k" for k' using that X by (auto simp: here_def)
    have ok: "lease_ok e mo F X l" if "lease_ok e mo F S l" "lease_key mo l \<noteq> k" for l
      using that X(1,8) h by (auto simp: lease_ok_def held_def)
    show ?thesis
    proof (rule invI)
      show "here e mo F k' X" if "free_token k' X" for k'
      proof -
        from that nf [OF X(1)] have "k' \<noteq> k" by blast
        with that show ?thesis using X(1) h iD(4) [of k'] by (simp add: free_token_def held_def)
      qed
      show "wanted mo k' r" if "r \<in> queued k' X" for k' r using that X(1) iD(5) by (simp add: queued_def)
      show "i = j" if "granted i X" "granted j X" "lease_key mo (lease_of i X) = lease_key mo (lease_of j X)" for i j
        using that X(4,5) iD(6) by simp
      show "lease_ok e mo F X (lease_of i X)" if "granted i X" for i using that X(4,5) ok ne iD(8) by simp
      show "lease_ok e mo F X l" if "l \<in> set C" for l using that ok nc iD(10) by simp
    qed (use X(2,4,5,6,7,9) iD(1,7,9,11) in \<open>simp_all add: metadata_at_def\<close>)
  qed
  have "token_inv e mo F C ?S"
    by (rule A) (use iD(2,3) in \<open>simp_all add: handed_over_def flights_ok_def in_flight_def\<close>)
  then show "keeps e mo F C S ?S"
    using L(2) by (auto simp: keeps_def polite_def handed_over_def in_flight_def)
  have "token_inv e mo F C (enqueued r m ?S)"
    by (rule A [OF _ fl inf]) (use iD(2) in \<open>simp_all add: handed_over_def\<close>)
  then show "keeps e mo F C S (enqueued r m ?S)"
    using L(2) inf by (auto simp: keeps_def polite_def) (auto simp: handed_over_def)
  show "\<not> leased mo C k (enqueued r m ?S)" using L(3) by (simp add: leased_def handed_over_def)
qed

section \<open>Granting and releasing\<close>

lemma grant_message_key: "grant_key mo (Encode_TokenGrant (grant_message e request b)) = Some (request_key mo request)"
  by (simp add: grant_key_def Decode_TokenGrant_Encode grant_message_def)

lemma grant_remote_keeps:
  assumes inv: "token_inv e mo F C S" and loose: "loose e mo F C (request_key mo request) S"
    and t: "tg_local_key t = request_key mo request" "tg_block t = request_key mo request"
    and g: "grant_remote e request t S = (st, S')"
  shows "keeps e mo F C S S'"
proof -
  let ?k = "request_key mo request" and ?r = "rq_requester request"
  let ?S1 = "handed_over ?k ?r S"
  let ?m = "Encode_TokenGrant (grant_message e request (block_at ?k ?S1))"
  note H = hand_over [OF inv loose grant_message_key [of mo e request "block_at ?k ?S1"], of ?r]
  obtain st2 S2 where E: "EnqueueOutbound e ?r ?m ?S1 = (st2, S2)" by fastforce
  have S2: "keeps e mo F C S S2 \<and> (st2 = kOk \<longrightarrow> \<not> leased mo C ?k S2)"
  proof (cases "S2 = ?S1 \<and> st2 = kInvalidArgument")
    case True
    with H(1) show ?thesis by auto
  next
    case False
    have "rings_safe (enqueued ?r ?m ?S1)" using H(2) invD(2) unfolding keeps_def by blast
    then have c: "calm mo (enqueued ?r ?m ?S1) S2"
      using EnqueueOutbound_split [OF E] False calm_progress by blast
    with H(2,3) show ?thesis using keeps_then_calm calm_leased by blast
  qed
  let ?o = "local_object ?k S2"
  let ?S3 = "put_object ?k (?o\<lparr>lo_held := False, lo_available := False, lo_pending := []\<rparr>) S2"
  have S4: "keeps e mo F C S S4" if "st2 = kOk" "forward_pending e ?r (lo_pending ?o) ?S3 = (s4, S4)" for s4 S4
  proof -
    from S2 that(1) have inv2: "token_inv e mo F C S2" "polite e mo S S2" "\<not> leased mo C ?k S2" by (auto simp: keeps_def)
    have k3: "keeps e mo F C S2 ?S3" by (rule put_unleased [OF inv2(1)]) (use inv2(3) in simp_all)
    have "\<forall>r \<in> set (lo_pending ?o). kind (rq_header r) \<noteq> TokenGrantMsg"
      using invD(5) [OF inv2(1), of _ ?k] by (auto simp: queued_def wanted_def)
    moreover have "rings_safe ?S3" using invD(2) [OF inv2(1)] by simp
    ultimately have "calm mo ?S3 S4" using calm_forward [OF _ that(2)] by blast
    with k3 have "keeps e mo F C S2 S4" by (rule keeps_then_calm)
    with inv2(2) show ?thesis by (rule keeps_trans)
  qed
  have "(st, S') = (if metadata_visibility e \<noteq> kOk then (metadata_visibility e, ?S1)
      else if st2 \<noteq> kOk then (st2, S2)
      else (case forward_pending e ?r (lo_pending ?o) ?S3 of (s4, S4) \<Rightarrow> (if s4 \<noteq> kOk then s4 else st2, S4)))"
    using g E t by (simp add: grant_remote_def handed_over_def Let_def split: prod.splits if_splits)
  then show ?thesis using H(1) S2 S4 by (auto split: if_splits prod.splits)
qed

text \<open>The critical section that hands a lease out.\<close>

definition outcome_ok :: "TokenEnv \<Rightarrow> (u64 \<Rightarrow> u64) \<Rightarrow> u64 set \<Rightarrow> TokenLease list \<Rightarrow> TokenState \<Rightarrow> GrantOutcome \<times> TokenState \<Rightarrow> bool" where
  "outcome_ok e mo F C S p \<longleftrightarrow> (case p of
     (GrantFinished st, S') \<Rightarrow> keeps e mo F C S S'
   | (GrantAbandoned l, S') \<Rightarrow> keeps e mo F C S S' \<and> loose e mo F C (lease_key mo l) S')"

lemma hand_lease_ok:
  assumes inv: "token_inv e mo F C S" and idle: "idle e mo F C k S"
    and l: "lease_key mo l = k" "ls_token_epoch l = token_epoch (block_at k S)"
  shows "outcome_ok e mo F C S (hand_lease i l k S)"
proof (cases "i \<in> set (waiters S)")
  case False
  with inv show ?thesis by (simp add: hand_lease_def outcome_ok_def keeps_def)
next
  case True
  let ?S1 = "put_object k ((local_object k S)\<lparr>lo_held := True, lo_available := True\<rparr>) S"
  let ?w = "waiter_heap S i"
  have k1: "keeps e mo F C S ?S1" and l1: "loose e mo F C k ?S1"
    using put_idle [OF inv idle, of "(local_object k S)\<lparr>lo_held := True, lo_available := True\<rparr>"] by (simp_all add: queued_def)
  then have inv1: "token_inv e mo F C ?S1" and p1: "polite e mo S ?S1" by (simp_all add: keeps_def)
  show ?thesis
  proof (cases "w_abandoned ?w")
    case False
    have "keeps e mo F C ?S1 (set_waiter i (\<lambda>w. w\<lparr>w_lease := l, w_granted := True, w_state := WGranted\<rparr>) ?S1)"
      by (rule grant_waiter [OF inv1 l1]) (use True l in simp_all)
    with p1 have "keeps e mo F C S (set_waiter i (\<lambda>w. w\<lparr>w_lease := l, w_granted := True, w_state := WGranted\<rparr>) ?S1)"
      by (rule keeps_trans)
    then show ?thesis using True False by (simp add: hand_lease_def outcome_ok_def Let_def)
  next
    case ab: True
    let ?S2 = "set_waiter i (\<lambda>w. w\<lparr>w_state := WCancelled, w_completion_status := kFailedPrecondition\<rparr>) ?S1"
    have c2: "calm mo ?S1 ?S2" by (rule calm_waiter) simp
    then have c: "calm mo ?S1 (if w_retain_completion ?w then ?S2 else erase_waiter i ?S2)"
      using calm_trans calm_erase by simp
    show ?thesis
      using keeps_then_calm [OF k1 c] calm_loose [OF c l1] True ab l(1)
      by (simp add: hand_lease_def outcome_ok_def Let_def)
  qed
qed

lemma outcome_calm: "calm mo S S' \<Longrightarrow> outcome_ok e mo F C S' p \<Longrightarrow> outcome_ok e mo F C S p"
  by (auto simp: outcome_ok_def split: prod.splits GrantOutcome.splits intro: calm_then_keeps)

lemma grant_begin_ok:
  assumes inv: "token_inv e mo F C S" and loose: "loose e mo F C (request_key mo request) S"
    and t: "tg_local_key t = request_key mo request" "tg_block t = request_key mo request"
  shows "outcome_ok e mo F C S (grant_begin e request t S)"
proof (cases "allocation_live t S")
  case False
  let ?k = "request_key mo request"
  have "keeps e mo F C S (put_object ?k ((local_object ?k S)\<lparr>lo_held := False\<rparr>) S)"
    by (rule put_idle [OF inv loose_idle [OF loose]]) (simp add: queued_def)
  with False t show ?thesis by (simp add: grant_begin_def outcome_ok_def)
next
  case live: True
  show ?thesis
  proof (cases "rq_requester request = te_local_host e")
    case False
    obtain st S1 where g: "grant_remote e request t S = (st, S1)" by fastforce
    with grant_remote_keeps [OF inv loose t g] live False show ?thesis by (simp add: grant_begin_def outcome_ok_def)
  next
    case True
    obtain st S1 where a: "activate_if (rq_activate_coherence_epoch request) e (tg_block t) S = (st, S1)" by fastforce
    note c = calm_activate_if [OF a, of mo]
    have "outcome_ok e mo F C S1 (hand_lease (rq_request_id request)
        (current_lease (rq_object request) (rq_block_index request) (tg_block t) S1) (request_key mo request) S1)"
      by (rule hand_lease_ok [OF calm_inv [OF c inv] calm_idle [OF c loose_idle [OF loose]]])
        (simp_all add: current_lease_def t)
    from outcome_calm [OF c this] show ?thesis
      using live True a t calm_keeps [OF c inv] inv
      by (auto simp: grant_begin_def grant_local_def outcome_ok_def keeps_def)
  qed
qed

lemma release_begin_key:
  "release_begin e l m S = (Inr t, S') \<Longrightarrow> metadata_at mo (mem S) \<Longrightarrow>
     tg_local_key t = lease_key mo l \<and> tg_block t = lease_key mo l"
  using Target_key [of e "ls_object l" "ls_block_index l" True S t _ mo]
  by (auto simp: release_begin_def Let_def split: prod.splits sum.splits if_splits)

text \<open>
  What \<open>Release\<close> does with the next request keeps the invariant; if there is one it is for this block.
\<close>

lemma release_next_ok:
  assumes inv: "token_inv e mo F C S" and loose: "loose e mo F C k S" and t: "tg_local_key t = k"
    and n: "release_next e l t S = (r, S')"
  shows "keeps e mo F C S S' \<and> (\<forall>q. r = Some q \<longrightarrow> request_key mo q = k \<and> loose e mo F C k S')"
proof -
  obtain b M where M: "IsRetiring (te_allocator e) (mem S) (ls_object l) = (b, M)" by fastforce
  then have M0: "M = mem S" using read_only(4) [of "te_allocator e" "mem S" "ls_object l"] by simp
  let ?o = "local_object k S"
  have drop: "keeps e mo F C S (put_object k (?o\<lparr>lo_pending := [], lo_held := False\<rparr>) S)"
    "keeps e mo F C S (put_object k (?o\<lparr>lo_held := False\<rparr>) S)"
    by (rule put_idle [OF inv loose_idle [OF loose]]; simp add: queued_def)+
  have pop: "calm mo S (put_object k (?o\<lparr>lo_pending := rs\<rparr>) S) \<and> request_key mo q = k" if "lo_pending ?o = q # rs" for q rs
    using that invD(5) [OF inv, of q k] by (auto intro!: calm_queue simp: queued_def wanted_def)
  show ?thesis
    using n M M0 t drop pop calm_keeps [OF _ inv] calm_loose [OF _ loose]
    by (auto simp: release_next_def Let_def split: if_splits list.splits)
qed

lemma Release_Grant_keeps:
  "token_inv e mo F C S \<Longrightarrow> loose e mo F C (lease_key mo lease) S \<Longrightarrow> keeps e mo F C S (snd (Release e lease modified S))"
  "token_inv e mo F C S \<Longrightarrow> loose e mo F C (request_key mo request) S \<Longrightarrow> tg_local_key t = request_key mo request \<Longrightarrow>
     tg_block t = request_key mo request \<Longrightarrow> keeps e mo F C S (snd (Grant e request t S))"
proof (induction e lease modified S and e request t S rule: Release_Grant.induct)
  case (1 e lease modified S)
  obtain r S1 where b: "release_begin e lease modified S = (r, S1)" by fastforce
  note c1 = calm_release_begin [OF b, of mo]
  note inv1 = calm_inv [OF c1 1(2)] and loose1 = calm_loose [OF c1 1(3)]
  show ?case
  proof (cases r)
    case (Inl st)
    with b calm_keeps [OF c1 1(2)] show ?thesis by (simp add: Release.simps)
  next
    case (Inr t)
    with b have t: "tg_local_key t = lease_key mo lease" "tg_block t = lease_key mo lease"
      using release_begin_key invD(1) [OF 1(2)] by blast+
    obtain q S2 where n: "release_next e lease t S1 = (q, S2)" by fastforce
    note R = release_next_ok [OF inv1 loose1 t(1) n]
    from R have k2: "keeps e mo F C S S2" using calm_then_keeps [OF c1] by blast
    show ?thesis
    proof (cases q)
      case None
      with b Inr n keeps_then_calm [OF k2 calm_drop] show ?thesis by (simp add: Release.simps)
    next
      case (Some x)
      with R have x: "request_key mo x = lease_key mo lease" "loose e mo F C (lease_key mo lease) S2" "token_inv e mo F C S2"
        by (auto simp: keeps_def)
      obtain st S3 where g: "Grant e x t S2 = (st, S3)" by fastforce
      have "keeps e mo F C S2 (snd (Grant e x t S2))"
        by (rule 1(1) [OF b [symmetric] Inr n [symmetric] Some x(3)]) (simp_all add: x t)
      with k2 g have "keeps e mo F C S S3" by (auto simp: keeps_def intro: polite_trans)
      from keeps_then_calm [OF this calm_drop] b Inr n Some g show ?thesis by (simp add: Release.simps)
    qed
  qed
next
  case (2 e request t S)
  note O = grant_begin_ok [OF 2(2-5)]
  show ?case
  proof (cases "grant_begin e request t S")
    case (Pair p S1)
    show ?thesis
    proof (cases p)
      case (GrantFinished st)
      with O Pair show ?thesis by (simp add: Grant.simps outcome_ok_def)
    next
      case (GrantAbandoned l)
      with O Pair have A: "keeps e mo F C S S1" "loose e mo F C (lease_key mo l) S1" by (simp_all add: outcome_ok_def)
      then have "keeps e mo F C S1 (snd (Release e l False S1))"
        by (intro 2(1) [OF Pair [symmetric] GrantAbandoned]) (simp_all add: keeps_def)
      with A(1) Pair GrantAbandoned show ?thesis by (auto simp: Grant.simps keeps_def intro: polite_trans)
    qed
  qed
qed

end
