(* ===== verification/Cx_Token_Ops.thy ===== *)
theory Cx_Token_Ops
  imports Cx_Token_Inv
begin

text \<open>
  Every operation of the token service that a thread, the poller or the retirement protocol calls keeps the
  invariant of its host and honours its guarantee.
\<close>

section \<open>Requests\<close>

lemma mem_same [simp]: "(S::TokenState)\<lparr>mem := mem S\<rparr> = S"
  by (cases S) simp

lemma keeps_refl: "token_inv e mo F C S \<Longrightarrow> keeps e mo F C S S"
  by (simp add: keeps_def)

lemma keeps_then: "keeps e mo F C S S' \<Longrightarrow> (token_inv e mo F C S' \<Longrightarrow> keeps e mo F C S' S'') \<Longrightarrow> keeps e mo F C S S''"
  by (auto simp: keeps_def intro: polite_trans)

lemma new_request_wanted: "wanted mo (block_key mo object i) (new_request e object i a n b)"
  by (simp add: wanted_def new_request_def)

lemma enqueue_pending:
  "wanted mo k r \<Longrightarrow> calm mo S (put_object k ((local_object k S)\<lparr>lo_pending := lo_pending (local_object k S) @ [r]\<rparr>) S)"
  by (rule calm_object) (auto simp: held_def queued_def)

text \<open>A request for a free token of this host: the token is taken, the writer activated, the lease handed out.\<close>

lemma take_free:
  assumes inv: "token_inv e mo F C S" and f: "free_token k S"
  shows "keeps e mo F C S (put_object k ((local_object k S)\<lparr>lo_held := True\<rparr>) S)"
    and "loose e mo F C k (put_object k ((local_object k S)\<lparr>lo_held := True\<rparr>) S)"
  using put_idle [OF inv free_idle [OF inv f], of "(local_object k S)\<lparr>lo_held := True\<rparr>"] by (simp_all add: queued_def)

lemma Request_keeps:
  assumes inv: "token_inv e mo F C S" and r: "Request e object i a S = (r, S')"
  shows "keeps e mo F C S S'"
proof -
  obtain x S1 where t: "Target e object i False S = (x, S1)" by fastforce
  note c1 = calm_Target [OF t, of mo]
  show ?thesis
  proof (cases x)
    case (Inl st)
    with r t calm_keeps [OF c1 inv] show ?thesis by (simp add: Request_def)
  next
    case (Inr tg)
    define n where "n = next_request_id S1"
    define S2 where "S2 = emplace_waiter n (default_waiter\<lparr>w_object := object\<rparr>) (S1\<lparr>next_request_id := n + 1\<rparr>)"
    define k where "k = block_key mo object i"
    define q where "q = new_request e object i a n (block_at k S2)"
    have tk: "tg_local_key tg = k" "tg_block tg = k"
      using Target_key [OF t [unfolded Inr] invD(1) [OF inv]] by (simp_all add: k_def)
    have c2: "calm mo S S2"
      using c1 calm_emplace [of "default_waiter\<lparr>w_object := object\<rparr>" mo S1 n "n + 1"]
      by (auto simp: S2_def default_waiter_def intro: calm_trans)
    note inv2 = calm_inv [OF c2 inv]
    have end1: "keeps e mo F C S (drop_target e tg X)" "keeps e mo F C S (drop_target e tg (erase_waiter n X))"
      if "keeps e mo F C S2 X" for X
      using that calm_then_keeps [OF c2] keeps_then_calm calm_drop calm_erase by blast+
    have w: "wanted mo k q" unfolding q_def k_def by (rule new_request_wanted)
    have send: "keeps e mo F C S2 S3" if "SendRequest e d q S2 = (st, S3)" for d st S3
      using calm_SendRequest [OF invD(2) [OF inv2] that, of mo] w calm_keeps [OF _ inv2] by (auto simp: wanted_def)
    have queue: "keeps e mo F C S2 (put_object k ((local_object k S2)\<lparr>lo_pending := lo_pending (local_object k S2) @ [q]\<rparr>) S2)"
      by (rule calm_keeps [OF enqueue_pending [OF w] inv2])
    let ?T = "put_object k ((local_object k S2)\<lparr>lo_held := True\<rparr>) S2"
    have take_ok: "keeps e mo F C S2 S3" "idle e mo F C k S3" "loose e mo F C k S3"
      if "free_token k S2" "activate_if a e k ?T = (st, S3)" for st S3
      using keeps_then_calm [OF take_free(1) [OF inv2 that(1)]] calm_loose [OF _ take_free(2) [OF inv2 that(1)]]
        calm_activate_if [OF that(2), of mo] loose_idle by blast+
    have give_up: "keeps e mo F C S2 (put_object k ((local_object k S3)\<lparr>lo_held := False\<rparr>) S3)"
      if "free_token k S2" "activate_if a e k ?T = (st, S3)" for st S3
      by (rule keeps_then [OF take_ok(1) [OF that]], rule put_idle) (use take_ok(2) [OF that] in \<open>simp_all add: queued_def\<close>)
    have hand: "keeps e mo F C S2 (set_waiter n (\<lambda>w. w\<lparr>w_lease := current_lease object i k S3, w_granted := True, w_state := WGranted\<rparr>) S3)"
      if "free_token k S2" "activate_if a e k ?T = (st, S3)" "n \<notin> set (waiters S1)" for st S3
    proof -
      have "waiters S3 = waiters S2" using that(2)
        by (auto simp: activate_if_def ActivateWriter_def Let_def split: if_splits)
      then have "n \<in> set (waiters S3)" using that(3) by (simp add: S2_def emplace_waiter_def)
      then have "keeps e mo F C S3 (set_waiter n (\<lambda>w. w\<lparr>w_lease := current_lease object i k S3, w_granted := True, w_state := WGranted\<rparr>) S3)"
        using take_ok(1,3) [OF that(1,2)] by (intro grant_waiter) (simp_all add: keeps_def current_lease_def k_def)
      with take_ok(1) [OF that(1,2)] show ?thesis by (auto intro: keeps_then)
    qed
    have live: "keeps e mo F C S S'"
      if "block_owner k S2 = te_local_host e" "allocation_live tg S2"
    proof (cases "lo_available (local_object k S2) \<and> \<not> lo_held (local_object k S2)")
      case True
      then have f: "free_token k S2" by (simp add: free_token_def held_def)
      obtain st S3 where A: "activate_if a e k ?T = (st, S3)" by fastforce
      show ?thesis
        using r t Inr that True A end1 [OF give_up [OF f A]] end1 [OF hand [OF f A]] end1 [OF take_ok(1) [OF f A]]
        by (auto simp: Request_def Let_def tk n_def [symmetric] S2_def [symmetric] split: if_splits)
    next
      case False
      then show ?thesis using r t Inr that end1(1) [OF queue]
        by (auto simp: Request_def Let_def tk n_def [symmetric] S2_def [symmetric] q_def [symmetric] split: if_splits)
    qed
    show ?thesis
    proof (cases "block_owner k S2 = te_local_host e \<and> allocation_live tg S2")
      case True
      then show ?thesis using live by blast
    next
      case False
      obtain st S3 where s: "SendRequest e (block_owner k S2) q S2 = (st, S3)" by fastforce
      show ?thesis
        using r t Inr False s end1 [OF send [OF s]] end1 [OF keeps_refl [OF inv2]]
        by (auto simp: Request_def Let_def tk n_def [symmetric] S2_def [symmetric] q_def [symmetric] split: if_splits)
    qed
  qed
qed

section \<open>Cancelling and releasing\<close>

lemma Cancel_keeps:
  assumes inv: "token_inv e mo F C S" and c: "Cancel e handle S = (st, S')"
  shows "keeps e mo F C S S'"
proof -
  let ?i = "rh_request_id handle"
  define S1 where "S1 = set_waiter ?i (\<lambda>w. w\<lparr>w_abandoned := True, w_state := WCancelling\<rparr>) S"
  have c1: "calm mo S S1" unfolding S1_def by (rule calm_waiter) simp
  note inv1 = calm_inv [OF c1 inv] and safe = invD(2) [OF calm_inv [OF c1 inv]]
  obtain b M where "IsRetiring (te_allocator e) (mem S1) (rh_object handle) = (b, M)" by fastforce
  then have M: "IsRetiring (te_allocator e) (mem S1) (rh_object handle) = (b, mem S1)"
    using read_only(4) [of "te_allocator e" "mem S1" "rh_object handle"] by simp
  have calm_end: "keeps e mo F C S X" if "calm mo S1 X" for X
    by (rule calm_keeps [OF calm_trans [OF c1 that] inv])
  consider "?i \<notin> set (waiters S)" | "?i \<in> set (waiters S)" "w_state (waiter_heap S ?i) \<in> {WRejected, WCancelled}"
    | "granted ?i S" | "?i \<in> set (waiters S)" "w_state (waiter_heap S ?i) \<in> {WActive, WCancelling}"
    using WaiterState.exhaust by (auto simp: granted_def)
  then show ?thesis
  proof cases
    case 1
    with c inv show ?thesis by (auto simp: Cancel_def intro: keeps_refl)
  next
    case 2
    with c show ?thesis by (auto simp: Cancel_def Let_def intro: calm_keeps [OF calm_erase inv])
  next
    case 3
    from Release_Grant_keeps(1) [OF erase_granted [OF inv 3], of False]
    have "keeps e mo F C (erase_waiter ?i S) S'" using 3 c by (auto simp: granted_def Cancel_def Let_def)
    then show ?thesis by (rule calm_then_keeps [OF calm_erase])
  next
    case 4
    then have body: "(st, S') = (case (b, mem S1) of
           (True, M) \<Rightarrow> (kOk, erase_waiter ?i (set_waiter ?i (\<lambda>w. w\<lparr>w_state := WCancelled, w_completion_status := kFailedPrecondition\<rparr>) (S1\<lparr>mem := M\<rparr>)))
         | (False, M) \<Rightarrow>
             let cancel_to = (\<lambda>dst. \<lparr>ca_header = \<lparr>kind = TokenCancelMsg, src_host = te_local_host e, dst_host = dst,
                                                       payload_bytes = of_nat sizeof_TokenCancel\<rparr>,
                   ca_object = rh_object handle, ca_block_index = rh_block_index handle, ca_request_id = ?i,
                   ca_requester = te_local_host e\<rparr>) in
             (case Target e (rh_object handle) (rh_block_index handle) True (S1\<lparr>mem := M\<rparr>) of
                (Inl st, S2) \<Rightarrow> AcknowledgeCancel e (cancel_to (te_local_host e)) kReasonCancelled S2
              | (Inr t, S2) \<Rightarrow>
                  (case SendCancel e (cancel_to (block_owner (tg_block t) S2)) S2 of
                     (st, S3) \<Rightarrow> (st, drop_target e t S3))))"
      using c M unfolding Cancel_def Let_def S1_def by (auto split: if_splits bool.splits)
    obtain x S2 where t: "Target e (rh_object handle) (rh_block_index handle) True S1 = (x, S2)" by fastforce
    note c2 = calm_Target [OF t, of mo]
    show ?thesis
    proof (cases b)
      case True
      have "calm mo S1 (erase_waiter ?i (set_waiter ?i (\<lambda>w. w\<lparr>w_state := WCancelled, w_completion_status := kFailedPrecondition\<rparr>) S1))"
        by (rule calm_trans [OF calm_waiter calm_erase]) simp
      with True body show ?thesis by (auto intro: calm_end)
    next
      case False
      have "calm mo S1 S'"
        by (rule calm_then [OF safe c2])
          (use body False t in \<open>auto simp: Let_def split: sum.splits prod.splits intro!: calm_then_drop intro: calm_AcknowledgeCancel [OF _ sym] calm_SendCancel\<close>)
      then show ?thesis by (rule calm_end)
    qed
  qed
qed

lemma CancelAndWait_begin_keeps:
  assumes inv: "token_inv e mo F C S" and c: "CancelAndWait_begin e handle S = (r, S')"
  shows "keeps e mo F C S S'"
proof -
  let ?S = "set_waiter (rh_request_id handle) (\<lambda>w. w\<lparr>w_retain_completion := True\<rparr>) S"
  have c1: "calm mo S ?S" by (rule calm_waiter) simp
  obtain st S1 where s: "Cancel e handle ?S = (st, S1)" by fastforce
  from calm_then_keeps [OF c1 Cancel_keeps [OF calm_inv [OF c1 inv] s]] show ?thesis
    using c s inv by (auto simp: CancelAndWait_begin_def Let_def intro: keeps_refl split: if_splits)
qed

text \<open>A thread that wakes finds its waiter in the table, or closed by retirement.\<close>

definition waiter_owned :: "u64 \<Rightarrow> TokenState \<Rightarrow> bool" where
  "waiter_owned i S \<longleftrightarrow> i \<in> set (waiters S) \<or> w_state (waiter_heap S i) \<noteq> WGranted"

lemma CancelAndWait_finish_keeps:
  assumes inv: "token_inv e mo F C S" and w: "waiter_owned i S" and c: "CancelAndWait_finish e i S = (st, S')"
  shows "keeps e mo F C S S'"
proof (cases "w_state (waiter_heap S i) = WGranted")
  case True
  with w have g: "granted i S" by (simp add: granted_def waiter_owned_def)
  from Release_Grant_keeps(1) [OF erase_granted [OF inv g], of False] True c
  have "keeps e mo F C (erase_waiter i S) S'" by (simp add: CancelAndWait_finish_def waiter_complete_def Let_def)
  then show ?thesis by (rule calm_then_keeps [OF calm_erase])
next
  case False
  with c inv show ?thesis
    by (auto simp: CancelAndWait_finish_def Let_def intro: keeps_refl calm_keeps [OF calm_erase] split: if_splits)
qed

definition claimed :: "TokenLease Result \<Rightarrow> TokenLease list \<Rightarrow> TokenLease list" where
  "claimed r C = (case r of Inl _ \<Rightarrow> C | Inr l \<Rightarrow> l # C)"

lemma Wait_finish_keeps:
  assumes inv: "token_inv e mo F C S" and w: "waiter_owned i S" and r: "Wait_finish i S = (r, S')"
  shows "keeps e mo F (claimed r C) S S'"
proof (cases "w_state (waiter_heap S i) = WGranted")
  case True
  with w have g: "granted i S" by (simp add: granted_def waiter_owned_def)
  from claim_lease [OF inv g] True r calm_polite [OF calm_erase] show ?thesis
    by (auto simp: Wait_finish_def waiter_complete_def Let_def keeps_def claimed_def)
next
  case False
  with r inv show ?thesis
    by (auto simp: Wait_finish_def Let_def claimed_def intro: keeps_refl calm_keeps [OF calm_erase] split: if_splits)
qed

lemma Release_keeps:
  assumes inv: "token_inv e mo F C S" and l: "l \<in> set C" and r: "Release e l modified S = (st, S')"
  shows "keeps e mo F (remove1 l C) S S'"
  using Release_Grant_keeps(1) [OF return_lease [OF inv l], of modified] r by simp

section \<open>Messages\<close>

lemma HandleRequest_keeps:
  assumes inv: "token_inv e mo F C S" and k: "kind (rq_header request) = TokenReq"
    and h: "HandleRequest e request S = (st, S')"
  shows "keeps e mo F C S S'"
proof (cases "kMaxHosts \<le> unat (rq_requester request) \<or> rq_request_id request = 0")
  case True
  with h inv show ?thesis by (auto simp: HandleRequest_def intro: keeps_refl)
next
  case False
  let ?k = "request_key mo request"
  obtain x S1 where t: "Target e (rq_object request) (rq_block_index request) False S = (x, S1)" by fastforce
  note c1 = calm_Target [OF t, of mo]
  note inv1 = calm_inv [OF c1 inv] and safe1 = invD(2) [OF calm_inv [OF c1 inv]]
  have rej: "keeps e mo F C S1 S2" if "Reject e request reason S1 = (s2, S2)" for reason s2 S2
    by (rule calm_keeps [OF calm_Reject [OF safe1 that] inv1])
  have fwd: "keeps e mo F C S1 S2" if "SendRequest e d request S1 = (s2, S2)" for d s2 S2
    by (rule calm_keeps [OF calm_SendRequest [OF safe1 that] inv1]) (simp add: k)
  let ?o = "local_object ?k S1"
  have queue: "keeps e mo F C S1 (put_object ?k (?o\<lparr>lo_pending := lo_pending ?o @ [request]\<rparr>) S1)"
    by (rule calm_keeps [OF enqueue_pending inv1]) (simp add: wanted_def k)
  have "keeps e mo F C S1 S'"
  proof (cases x)
    case (Inl s)
    with h t False show ?thesis by (auto simp: HandleRequest_def intro: rej)
  next
    case (Inr tg)
    have tk: "tg_local_key tg = ?k" "tg_block tg = ?k"
      using Target_key [OF t [unfolded Inr] invD(1) [OF inv]] by simp_all
    have leave: "keeps e mo F C S1 (drop_target e tg S2)" if "keeps e mo F C S1 S2" for S2
      by (rule keeps_then_calm [OF that calm_drop])
    have grant: "keeps e mo F C S1 S2"
      if "lo_available ?o" "\<not> lo_held ?o" "Grant e request tg (put_object ?k (?o\<lparr>lo_held := True\<rparr>) S1) = (s2, S2)" for s2 S2
    proof (rule keeps_then [OF take_free(1) [OF inv1]])
      show f: "free_token ?k S1" using that by (simp add: free_token_def held_def)
      show "keeps e mo F C (put_object ?k (?o\<lparr>lo_held := True\<rparr>) S1) S2"
        if "token_inv e mo F C (put_object ?k (?o\<lparr>lo_held := True\<rparr>) S1)"
        using Release_Grant_keeps(2) [OF that take_free(2) [OF inv1 f] tk] \<open>Grant e request tg _ = _\<close> by simp
    qed
    show ?thesis
      using h t False Inr queue grant rej fwd
      by (auto simp: HandleRequest_def Let_def tk split: prod.splits if_splits intro!: leave)
  qed
  then show ?thesis by (rule calm_then_keeps [OF c1])
qed

text \<open>
  A grant may only be handled when it is the one for its block: if this host is the owner, the token is not
  leased and no other grant is under way.
\<close>

definition grant_arrives :: "TokenEnv \<Rightarrow> (u64 \<Rightarrow> u64) \<Rightarrow> u64 set \<Rightarrow> TokenLease list \<Rightarrow> u64 \<Rightarrow> TokenState \<Rightarrow> bool" where
  "grant_arrives e mo F C k S \<longleftrightarrow> (token_owner (block_at k S) = ucast (te_local_host e) \<longrightarrow> idle e mo F C k S)"

lemma settle_keeps:
  assumes "outcome_ok e mo F C S p"
  shows "keeps e mo F C S (snd (settle e p))"
proof (cases p)
  case (Pair o1 S1)
  with assms show ?thesis
    using Release_Grant_keeps(1) [of e mo F C S1 _ False]
    by (cases o1) (auto simp: settle_def outcome_ok_def intro: keeps_then)
qed

lemma HandleGrant_keeps:
  assumes inv: "token_inv e mo F C S" and arr: "grant_arrives e mo F C (block_key mo (gr_object g) (gr_block_index g)) S"
    and h: "HandleGrant e g S = (st, S')"
  shows "keeps e mo F C S S'"
proof (cases "gr_new_owner g \<noteq> te_local_host e \<or> gr_request_id g = 0")
  case True
  with h inv show ?thesis by (auto simp: HandleGrant_def intro: keeps_refl)
next
  case False
  let ?k = "block_key mo (gr_object g) (gr_block_index g)"
  let ?l = "\<lparr>ls_object = gr_object g, ls_block_index = gr_block_index g, ls_version = gr_version g, ls_token_epoch = gr_token_epoch g\<rparr>"
  obtain x S1 where t: "Target e (gr_object g) (gr_block_index g) False S = (x, S1)" by fastforce
  note c1 = calm_Target [OF t, of mo]
  note inv1 = calm_inv [OF c1 inv]
  have "keeps e mo F C S1 S'"
  proof (cases x)
    case (Inl s)
    with h t False show ?thesis by (auto simp: HandleGrant_def intro: calm_keeps [OF calm_HandleReject inv1])
  next
    case (Inr tg)
    have tk: "tg_local_key tg = ?k" "tg_block tg = ?k"
      using Target_key [OF t [unfolded Inr] invD(1) [OF inv]] by simp_all
    have leave: "keeps e mo F C S1 (drop_target e tg S2)" if "keeps e mo F C S1 S2" for S2
      by (rule keeps_then_calm [OF that calm_drop])
    have act: "keeps e mo F C S1 S2" if "activate_if b e ?k S1 = (s2, S2)" for b s2 S2
      by (rule calm_keeps [OF calm_activate_if [OF that] inv1])
    have hand: "keeps e mo F C S1 S3"
      if "token_owner (block_at ?k S1) = ucast (te_local_host e)" "token_epoch (block_at ?k S1) = gr_token_epoch g"
        "activate_if b e ?k S1 = (s2, S2)" "settle e (hand_lease (gr_request_id g) ?l ?k S2) = (s3, S3)" for b s2 S2 s3 S3
    proof -
      note c2 = calm_activate_if [OF that(3), of mo]
      have "idle e mo F C ?k S" using arr that(1) calmD(2) [OF c1] by (simp add: grant_arrives_def)
      then have idle: "idle e mo F C ?k S2" using calm_idle [OF c1] calm_idle [OF c2] by blast
      have "outcome_ok e mo F C S2 (hand_lease (gr_request_id g) ?l ?k S2)"
        by (rule hand_lease_ok [OF calm_inv [OF c2 inv1] idle]) (use that(2) calmD(3) [OF c2] in simp_all)
      from settle_keeps [OF outcome_calm [OF c2 this]] that(4) show ?thesis by simp
    qed
    show ?thesis
      using h t False Inr act hand keeps_refl [OF inv1]
      by (auto simp: HandleGrant_def Let_def tk split: prod.splits if_splits intro!: leave)
  qed
  then show ?thesis by (rule calm_then_keeps [OF c1])
qed

lemma decoded_kind:
  "Decode_TokenRequest m TokenReq = Inr r \<Longrightarrow> kind (rq_header r) = TokenReq"
  "Decode_TokenCancel m TokenCancelMsg = Inr c \<Longrightarrow> kind (ca_header c) = TokenCancelMsg"
  by (auto simp: Decode_TokenRequest_def Decode_TokenCancel_def Decode_def read_TokenRequest_def read_TokenCancel_def
      read_header_def Let_def split: if_splits)

lemma HandleMessage_keeps:
  assumes inv: "token_inv e mo F C S" and arr: "\<And>k. grant_key mo m = Some k \<Longrightarrow> grant_arrives e mo F C k S"
    and h: "HandleMessage e m S = (st, S')"
  shows "keeps e mo F C S S'"
proof -
  obtain b M where "IsRetiring (te_allocator e) (mem S) (packet_object m) = (b, M)" by fastforce
  then have M: "IsRetiring (te_allocator e) (mem S) (packet_object m) = (b, mem S)"
    using read_only(4) [of "te_allocator e" "mem S" "packet_object m"] by simp
  have grant: "keeps e mo F C S X" if "Decode_TokenGrant m TokenGrantMsg = Inr g" "HandleGrant e g S = (s, X)" for g s X
    by (rule HandleGrant_keeps [OF inv arr that(2)]) (simp add: grant_key_def that(1))
  have req: "keeps e mo F C S X" if "Decode_TokenRequest m TokenReq = Inr r" "HandleRequest e r S = (s, X)" for r s X
    by (rule HandleRequest_keeps [OF inv decoded_kind(1) [OF that(1)] that(2)])
  have can: "keeps e mo F C S X" if "Decode_TokenCancel m TokenCancelMsg = Inr c" "HandleCancel e c S = (s, X)" for c s X
    by (rule calm_keeps [OF calm_HandleCancel [OF invD(2) [OF inv] that(2) decoded_kind(2) [OF that(1)]] inv])
  have rest: "keeps e mo F C S X" if "HandleReject e r S = (s, X)" for r s X
    by (rule calm_keeps [OF calm_HandleReject [OF that] inv])
  have ack: "keeps e mo F C S X" if "HandleCancelAck e a S = (s, X)" for a s X
    by (rule calm_keeps [OF calm_HandleCancelAck [OF that] inv])
  have self: "keeps e mo F C S S" by (rule keeps_refl [OF inv])
  show ?thesis
  proof (cases "length (env_payload m) < 32 \<or> b")
    case True
    with h M self show ?thesis by (auto simp: HandleMessage_def split: if_splits)
  next
    case False
    then have "HandleMessage e m S = (let k = kind (env_header m) in
                if k = TokenReq
                then (case Decode_TokenRequest m TokenReq of Inl st \<Rightarrow> (st, S) | Inr r \<Rightarrow> HandleRequest e r S)
                else if k = TokenGrantMsg
                then (case Decode_TokenGrant m TokenGrantMsg of Inl st \<Rightarrow> (st, S) | Inr g \<Rightarrow> HandleGrant e g S)
                else if k = TokenRejectMsg
                then (case Decode_TokenReject m TokenRejectMsg of Inl st \<Rightarrow> (st, S) | Inr r \<Rightarrow> HandleReject e r S)
                else if k = TokenCancelMsg
                then (case Decode_TokenCancel m TokenCancelMsg of Inl st \<Rightarrow> (st, S) | Inr c \<Rightarrow> HandleCancel e c S)
                else if k = TokenCancelAckMsg
                then (case Decode_TokenCancelAck m TokenCancelAckMsg of Inl st \<Rightarrow> (st, S) | Inr a \<Rightarrow> HandleCancelAck e a S)
                else (kInvalidArgument, S))"
      using M unfolding HandleMessage_def Let_def mem_same by (simp split: sum.splits)
    with h show ?thesis
      using grant req can rest ack self by (auto simp: Let_def split: if_splits sum.splits)
  qed
qed

section \<open>Retirement and registration\<close>

lemma reject_waiters_ok:
  assumes inv: "token_inv e mo F C S"
  shows "token_inv e mo F (unclaimed object S @ C) (reject_waiters object S)" and "polite e mo S (reject_waiters object S)"
proof -
  let ?S = "reject_waiters object S"
  note iD = invD [OF inv]
  have fr: "mem ?S = mem S" "rings ?S = rings S" "local_object k ?S = local_object k S" "block_at k ?S = block_at k S"
    "flight mo d ?S = flight mo d S" for k d
    by (simp_all add: reject_waiters_def local_object_def block_at_def flight_def in_transit_def)
  have obs: "here e mo F k ?S = here e mo F k S" "held k ?S = held k S" "free_token k ?S = free_token k S"
    "queued k ?S = queued k S" "flights_ok mo F ?S = flights_ok mo F S" "rings_safe ?S = rings_safe S"
    "lease_ok e mo F ?S l = lease_ok e mo F S l" for k l
    by (simp_all add: here_def token_obs in_flight_def flights_ok_def rings_safe_def lease_ok_def fr)
  have g: "granted i ?S \<longleftrightarrow> granted i S \<and> w_object (waiter_heap S i) \<noteq> object" and lo: "lease_of i ?S = lease_of i S" for i
    by (auto simp: granted_def reject_waiters_def closing_def)
  have un: "l \<in> set (unclaimed object S) \<longleftrightarrow> (\<exists>i. granted i S \<and> w_object (waiter_heap S i) = object \<and> l = lease_of i S)" for l
    by (auto simp: unclaimed_def closing_def granted_def)
  have inj: "inj_on (\<lambda>i. lease_key mo (lease_of i S)) {i. granted i S}" using iD(6) by (auto simp: inj_on_def)
  have "distinct (map (lease_key mo) (unclaimed object S))"
    unfolding unclaimed_def closing_def map_map distinct_map
    using iD(11) by (auto intro!: inj_on_subset [OF inj] simp: granted_def o_def)
  then have d: "distinct (map (lease_key mo) (unclaimed object S @ C))" using iD(7,9) un by fastforce
  show "token_inv e mo F (unclaimed object S @ C) ?S"
  proof (rule invI)
    show "lease_key mo (lease_of i ?S) \<notin> lease_key mo ` set (unclaimed object S @ C)" if "granted i ?S" for i
    proof
      assume "lease_key mo (lease_of i ?S) \<in> lease_key mo ` set (unclaimed object S @ C)"
      moreover have "lease_key mo (lease_of i S) \<notin> lease_key mo ` set C" using that iD(7) by (simp add: g)
      ultimately obtain j where "granted j S" "w_object (waiter_heap S j) = object"
        "lease_key mo (lease_of i S) = lease_key mo (lease_of j S)" by (auto simp: lo un)
      then show False using that iD(6) [of i j] by (auto simp: g)
    qed
    show "lease_ok e mo F ?S l" if "l \<in> set (unclaimed object S @ C)" for l
      using that un iD(8,10) by (auto simp: obs)
    show "distinct (waiters ?S)" using iD(11) by (simp add: reject_waiters_def)
    show "i = j" if "granted i ?S" "granted j ?S" "lease_key mo (lease_of i ?S) = lease_key mo (lease_of j ?S)" for i j
      using that iD(6) by (simp add: g lo)
  qed (use iD d in \<open>simp_all add: obs fr g lo\<close>)
  show "polite e mo S ?S" by (simp add: polite_def fr in_flight_def)
qed

lemma release_unclaimed_keeps:
  "token_inv e mo F (ls @ C) S \<Longrightarrow> release_unclaimed e ls S = (ok, S') \<Longrightarrow>
     polite e mo S S' \<and> (\<exists>ls'. token_inv e mo F (ls' @ C) S')"
proof (induction ls arbitrary: S)
  case Nil
  then have "token_inv e mo F ([] @ C) S'" "S' = S" by auto
  then show ?case using polite_refl by blast
next
  case (Cons l ls)
  obtain st S1 where r: "Release e l False S = (st, S1)" by fastforce
  have "keeps e mo F (remove1 l ((l # ls) @ C)) S S1" by (rule Release_keeps [OF Cons.prems(1) _ r]) simp
  then have k: "token_inv e mo F (ls @ C) S1" "polite e mo S S1" by (simp_all add: keeps_def)
  show ?case
  proof (cases "st = kOk")
    case True
    with Cons.IH [OF k(1)] Cons.prems(2) r k(2) show ?thesis by (auto intro: polite_trans)
  next
    case False
    with Cons.prems(2) r k show ?thesis by auto
  qed
qed

text \<open>Leases that are given up without a release stay out of the table: the rest of the invariant remains.\<close>

lemma forget_leases: "token_inv e mo F (ls @ C) S \<Longrightarrow> token_inv e mo F C S"
proof (rule invI)
  assume inv: "token_inv e mo F (ls @ C) S"
  note iD = invD [OF inv]
  show "lease_key mo (lease_of i S) \<notin> lease_key mo ` set C" if "granted i S" for i using iD(7) [OF that] by auto
  show "i = j" if "granted i S" "granted j S" "lease_key mo (lease_of i S) = lease_key mo (lease_of j S)" for i j
    by (rule iD(6) [OF that])
qed (use invD [of e mo F "ls @ C" S] in auto)

lemma calm_clear: "clear_blocks base is S = (b, S') \<Longrightarrow> calm mo S S'"
proof (induction base "is" S arbitrary: b S' rule: clear_blocks.induct)
  case (2 base i "is" S)
  let ?k = "base + i * sizeof_CoherenceBlockDescriptor"
  show ?case
  proof (cases "map_of (objects S) ?k")
    case None
    with 2(1) [OF refl None] 2(3) show ?thesis by (simp add: Let_def)
  next
    case (Some o1)
    then have o1: "local_object ?k S = o1" by (simp add: local_object_def)
    obtain h S1 where c: "clear_blocks base is (put_object ?k (o1\<lparr>lo_pending := []\<rparr>) S) = (h, S1)" by fastforce
    have "calm mo S (put_object ?k (o1\<lparr>lo_pending := []\<rparr>) S)"
      using calm_queue [of "[]" ?k S mo] o1 by simp
    with 2(2) [OF refl Some c] 2(3) Some c show ?thesis by (auto simp: Let_def intro: calm_trans)
  qed
qed simp

lemma CloseObject_keeps:
  assumes inv: "token_inv e mo F C S" and c: "CloseObject e object S = (b, S')"
  shows "keeps e mo F C S S'"
proof -
  obtain ok S1 where r: "release_unclaimed e (unclaimed object S) (reject_waiters object S) = (ok, S1)" by fastforce
  from release_unclaimed_keeps [OF reject_waiters_ok(1) [OF inv] r] obtain ls
    where ls: "polite e mo (reject_waiters object S) S1" "token_inv e mo F (ls @ C) S1" by blast
  then have inv1: "token_inv e mo F C S1" and p1: "polite e mo S S1"
    using forget_leases polite_trans [OF reject_waiters_ok(2) [OF inv]] by blast+
  obtain d where D: "MutableDescriptor (te_allocator e) (mem S1) object True = (d, mem S1)"
    using read_only(2) [of "te_allocator e" "mem S1" object True] by (metis prod.collapse)
  have out: "calm mo X (X\<lparr>outbound := (\<lambda>h. filter P (outbound X h))\<rparr>)" for X P
  proof -
    have "subseq (flight mo d (X\<lparr>outbound := (\<lambda>h. filter P (outbound X h))\<rparr>)) (flight mo d X)" for d
      unfolding flight_def in_transit_def
      by (rule subseq_map_filter) (simp add: list_emb_append_mono subseq_filter_left)
    then show ?thesis by (simp add: calm_def token_obs)
  qed
  have clear: "calm mo S1 (X\<lparr>outbound := (\<lambda>h. filter P (outbound X h))\<rparr>)" if "clear_blocks base is S1 = (h, X)" for base "is" h X P
    by (rule calm_trans [OF calm_clear [OF that] out])
  have "calm mo S1 S'"
  proof (cases "ok \<and> (\<exists>x. d = Inr x)")
    case True
    then obtain x where x: "d = Inr x" by blast
    obtain h X where X: "clear_blocks (ad_coherence_metadata_offset x) (map of_nat [0..<unat (ad_coherence_block_count x)]) S1 = (h, X)"
      by fastforce
    from c r D True x X show ?thesis by (auto simp: CloseObject_def intro: clear [OF X])
  next
    case False
    with c r D show ?thesis by (cases ok; cases d) (auto simp: CloseObject_def)
  qed
  then show ?thesis using calm_keeps [OF _ inv1] keeps_trans [OF p1] by blast
qed

lemma register_blocks_keeps:
  "token_inv e mo F C S \<Longrightarrow> \<forall>i. block_key mo object i \<notin> F \<and> \<not> in_flight mo (block_key mo object i) S \<Longrightarrow>
     register_blocks e object is S = (st, S') \<Longrightarrow> keeps e mo F C S S'"
proof (induction "is" arbitrary: S)
  case Nil
  then show ?case by (auto intro: keeps_refl)
next
  case (Cons i "is")
  let ?k = "block_key mo object i"
  obtain x S1 where t: "Target e object i False S = (x, S1)" by fastforce
  note c1 = calm_Target [OF t, of mo]
  note inv1 = calm_inv [OF c1 Cons.prems(1)]
  show ?case
  proof (cases x)
    case (Inl s)
    with Cons.prems(3) t calm_keeps [OF c1 Cons.prems(1)] show ?thesis by simp
  next
    case (Inr tg)
    have tk: "tg_local_key tg = ?k" "tg_block tg = ?k"
      using Target_key [OF t [unfolded Inr] invD(1) [OF Cons.prems(1)]] by simp_all
    let ?S2 = "put_object ?k ((local_object ?k S1)\<lparr>lo_available := True\<rparr>) S1"
    show ?thesis
    proof (cases "token_owner (block_at ?k S1) = ucast (te_local_host e)")
      case False
      with Cons.prems(3) t Inr tk calm_keeps [OF calm_trans [OF c1 calm_drop] Cons.prems(1)] show ?thesis by auto
    next
      case True
      then have "here e mo F ?k S1"
        using Cons.prems(2) calm_in_flight [OF c1] by (auto simp: here_def)
      then have "keeps e mo F C S1 ?S2"
        by (intro put_unleased [OF inv1]) (simp_all add: held_def queued_def)
      from keeps_then_calm [OF calm_then_keeps [OF c1 this] calm_drop]
      have k3: "keeps e mo F C S (drop_target e tg ?S2)" .
      have nf: "\<not> in_flight mo (block_key mo object j) (drop_target e tg ?S2)" for j
      proof
        assume "in_flight mo (block_key mo object j) (drop_target e tg ?S2)"
        from calm_in_flight [OF calm_drop this] have "in_flight mo (block_key mo object j) S1" by simp
        from calm_in_flight [OF c1 this] Cons.prems(2) show False by blast
      qed
      have "keeps e mo F C (drop_target e tg ?S2) S'"
        by (rule Cons.IH) (use k3 nf Cons.prems(2,3) t Inr tk True in \<open>auto simp: keeps_def\<close>)
      with k3 show ?thesis by (auto intro: keeps_then)
    qed
  qed
qed

lemma RegisterAllocation_keeps:
  assumes inv: "token_inv e mo F C S"
    and fresh: "\<forall>i. block_key mo object i \<notin> F \<and> \<not> in_flight mo (block_key mo object i) S"
    and r: "RegisterAllocation e object S = (st, S')"
  shows "keeps e mo F C S S'"
proof -
  obtain d where D: "MutableDescriptor (te_allocator e) (mem S) object False = (d, mem S)"
    using read_only(2) [of "te_allocator e" "mem S" object False] by (metis prod.collapse)
  show ?thesis
    using r D inv register_blocks_keeps [OF inv fresh]
    by (auto simp: RegisterAllocation_def split: sum.splits intro: keeps_refl)
qed

lemma Progress_keeps:
  "token_inv e mo F C S \<Longrightarrow> ProgressOutbound e S = (st, S') \<Longrightarrow> keeps e mo F C S S'"
  unfolding ProgressOutbound_def using calm_keeps [OF calm_progress] invD(2) by blast

end
