(* ===== verification/Cx_Token_World.thy ===== *)
theory Cx_Token_World
  imports Cx_Token_Ops
begin

text \<open>
  All hosts together: every host has its service and its rings, the memory is shared, and a step is one
  operation of one host or the delivery of the oldest message of a ring.  The hosts' invariants compose by
  their guarantees, and the result is the purpose of the protocol: at any moment at most one thread of the
  cluster holds the write token of a block.

  The run is over a fixed set of allocations: other activity may change the memory, including the start of a
  retirement, but neither the token metadata of the blocks nor where an object keeps it.
\<close>

section \<open>Worlds and steps\<close>

record TokenWorld =
  hosts :: "HostId \<Rightarrow> TokenState"
  claims :: "HostId \<Rightarrow> TokenLease list"

text \<open>A host has reached the state \<open>S\<close>; the others see its writes to the shared memory.\<close>

definition commit :: "HostId \<Rightarrow> TokenState \<Rightarrow> TokenLease list \<Rightarrow> TokenWorld \<Rightarrow> TokenWorld" where
  "commit h S C W = \<lparr>hosts = (\<lambda>h'. if h' = h then S else (hosts W h')\<lparr>mem := mem S\<rparr>), claims = (claims W)(h := C)\<rparr>"

definition offsets :: "TokenWorld \<Rightarrow> u64 \<Rightarrow> u64" where
  "offsets W off = ad_coherence_metadata_offset (descriptors (mem (hosts W 0)) off)"

definition travelling :: "(u64 \<Rightarrow> u64) \<Rightarrow> TokenWorld \<Rightarrow> u64 \<Rightarrow> bool" where
  "travelling mo W k \<longleftrightarrow> (\<exists>h. in_flight mo k (hosts W h))"

definition same_tokens :: "AllocatorMemory \<Rightarrow> AllocatorMemory \<Rightarrow> bool" where
  "same_tokens M M' \<longleftrightarrow>
     (\<forall>k. token_owner (coherence_blocks M' k) = token_owner (coherence_blocks M k) \<and>
          token_epoch (coherence_blocks M' k) = token_epoch (coherence_blocks M k)) \<and>
     (\<forall>off. ad_coherence_metadata_offset (descriptors M' off) = ad_coherence_metadata_offset (descriptors M off))"

text \<open>
  The steps.  A thread releases only a lease that it obtained and has not released; a request handle is used
  by one thread at a time, so a thread that wakes in \<^verbatim>\<open>Wait\<close> finds its waiter where it was unless retirement
  closed it; \<^verbatim>\<open>RegisterAllocation\<close> is called for a new object, whose tokens cannot be under way.
\<close>

inductive token_step :: "(HostId \<Rightarrow> TokenEnv) \<Rightarrow> TokenWorld \<Rightarrow> TokenWorld \<Rightarrow> bool" for E where
  request: "Request (E h) object i a (hosts W h) = (r, S) \<Longrightarrow> token_step E W (commit h S (claims W h) W)"
| wait: "waiter_owned i (hosts W h) \<Longrightarrow> Wait_finish i (hosts W h) = (r, S) \<Longrightarrow>
    token_step E W (commit h S (claimed r (claims W h)) W)"
| cancel: "Cancel (E h) handle (hosts W h) = (st, S) \<Longrightarrow> token_step E W (commit h S (claims W h) W)"
| cancel_begin: "CancelAndWait_begin (E h) handle (hosts W h) = (r, S) \<Longrightarrow> token_step E W (commit h S (claims W h) W)"
| cancel_finish: "waiter_owned i (hosts W h) \<Longrightarrow> CancelAndWait_finish (E h) i (hosts W h) = (st, S) \<Longrightarrow>
    token_step E W (commit h S (claims W h) W)"
| writeback: "BeginWriteback (E h) l (hosts W h) = (st, S) \<Longrightarrow> token_step E W (commit h S (claims W h) W)"
| release: "l \<in> set (claims W h) \<Longrightarrow> Release (E h) l modified (hosts W h) = (st, S) \<Longrightarrow>
    token_step E W (commit h S (remove1 l (claims W h)) W)"
| progress: "ProgressOutbound (E h) (hosts W h) = (st, S) \<Longrightarrow> token_step E W (commit h S (claims W h) W)"
| deliver: "TryPop (te_cpu (E d)) q (rings (hosts W s) d) = (kOk, Some m, r) \<Longrightarrow>
    V = commit s ((hosts W s)\<lparr>rings := (rings (hosts W s))(d := r)\<rparr>) (claims W s) W \<Longrightarrow>
    HandleMessage (E d) m (hosts V d) = (st, S) \<Longrightarrow> token_step E W (commit d S (claims V d) V)"
| close: "CloseObject (E h) object (hosts W h) = (b, S) \<Longrightarrow> token_step E W (commit h S (claims W h) W)"
| register: "\<forall>i. \<not> travelling (offsets W) W (block_key (offsets W) object i) \<Longrightarrow>
    RegisterAllocation (E h) object (hosts W h) = (st, S) \<Longrightarrow> token_step E W (commit h S (claims W h) W)"
| other: "same_tokens (mem (hosts W h)) M \<Longrightarrow> token_step E W (commit h ((hosts W h)\<lparr>mem := M\<rparr>) (claims W h) W)"

text \<open>Hosts that start: nothing registered, nothing requested, empty rings.\<close>

definition start_world :: "TokenWorld \<Rightarrow> bool" where
  "start_world W \<longleftrightarrow>
     (\<forall>h. objects (hosts W h) = [] \<and> waiters (hosts W h) = [] \<and> claims W h = [] \<and> mem (hosts W h) = mem (hosts W 0) \<and>
          (\<forall>d. outbound (hosts W h) d = [] \<and> ring_safe (rings (hosts W h) d) \<and> ring_contents (rings (hosts W h) d) = []))"

inductive token_run :: "(HostId \<Rightarrow> TokenEnv) \<Rightarrow> TokenWorld \<Rightarrow> bool" for E where
  start: "start_world W \<Longrightarrow> token_run E W"
| step: "token_run E W \<Longrightarrow> token_step E W W' \<Longrightarrow> token_run E W'"

inductive_cases token_stepE: "token_step E W W'"

section \<open>The hosts' invariants compose\<close>

definition elsewhere :: "(u64 \<Rightarrow> u64) \<Rightarrow> TokenWorld \<Rightarrow> HostId \<Rightarrow> u64 set" where
  "elsewhere mo W h = {k. \<exists>h'. h' \<noteq> h \<and> in_flight mo k (hosts W h')}"

definition world_inv :: "(HostId \<Rightarrow> TokenEnv) \<Rightarrow> (u64 \<Rightarrow> u64) \<Rightarrow> TokenWorld \<Rightarrow> bool" where
  "world_inv E mo W \<longleftrightarrow> (\<forall>h. token_inv (E h) mo (elsewhere mo W h) (claims W h) (hosts W h) \<and> mem (hosts W h) = mem (hosts W 0))"

definition named_hosts :: "(HostId \<Rightarrow> TokenEnv) \<Rightarrow> bool" where
  "named_hosts E \<longleftrightarrow> (\<forall>h. te_local_host (E h) = h)"

lemma world_invD:
  "world_inv E mo W \<Longrightarrow> token_inv (E h) mo (elsewhere mo W h) (claims W h) (hosts W h)"
  "world_inv E mo W \<Longrightarrow> mem (hosts W h) = mem (hosts W h')"
  unfolding world_inv_def by metis+

lemma owner_inj: "(ucast (h::HostId) :: u32) = ucast h' \<longleftrightarrow> h = h'"
proof
  assume "(ucast h :: u32) = ucast h'"
  then have "unat (ucast h :: u32) = unat (ucast h' :: u32)" by simp
  then show "h = h'" by (simp add: unsigned_ucast_eq take_bit_nat_eq_self less_le_trans [OF unsigned_less] word_unat_eq_iff)
qed simp

text \<open>What one host does under its guarantee, the others survive.\<close>

lemma others_keep:
  assumes E: "named_hosts E" and inv: "world_inv E mo W" and p: "polite (E h) mo (hosts W h) S"
    and S: "token_inv (E h) mo (elsewhere mo W h) C S" and ne: "h' \<noteq> h"
  shows "token_inv (E h') mo (elsewhere mo (commit h S C W) h') (claims W h') ((hosts W h')\<lparr>mem := mem S\<rparr>)"
proof -
  let ?V = "commit h S C W" and ?S = "hosts W h'" and ?X = "(hosts W h')\<lparr>mem := mem S\<rparr>"
  note iD = invD [OF world_invD(1) [OF inv, of h']]
  have mem: "block_at k ?S = block_at k (hosts W h)" for k
    using world_invD(2) [OF inv, of h' h] by (simp add: block_at_def)
  have blk: "block_at k ?X = block_at k S" for k by (simp add: block_at_def)
  have fl: "in_flight mo k (hosts ?V g) = (if g = h then in_flight mo k S else in_flight mo k (hosts W g))" for g k
    by (simp add: commit_def in_flight_def)
  have other: "token_owner (block_at k ?X) = token_owner (block_at k ?S) \<and> token_epoch (block_at k ?X) = token_epoch (block_at k ?S) \<and>
      (in_flight mo k S \<longrightarrow> in_flight mo k (hosts W h))" if "token_owner (block_at k ?S) = ucast h'" for k
    using p that ne owner_inj [of h' h] E by (auto simp: polite_def mem blk named_hosts_def)
  have here: "here (E h') mo (elsewhere mo ?V h') k ?X" if H: "here (E h') mo (elsewhere mo W h') k ?S" for k
  proof -
    from H have own: "token_owner (block_at k ?S) = ucast h'" and nf: "\<not> in_flight mo k ?S" "k \<notin> elsewhere mo W h'"
      using E by (simp_all add: here_def named_hosts_def)
    from nf other [OF own] have "k \<notin> elsewhere mo ?V h'" using ne by (auto simp: elsewhere_def fl split: if_splits)
    with nf own other [OF own] show ?thesis using E by (simp add: here_def in_flight_def named_hosts_def)
  qed
  have ok: "lease_ok (E h') mo (elsewhere mo ?V h') ?X l" if L: "lease_ok (E h') mo (elsewhere mo W h') ?S l" for l
  proof -
    from L have "token_owner (block_at (lease_key mo l) ?S) = ucast h'" using E by (simp add: lease_ok_def here_def named_hosts_def)
    with L other here show ?thesis by (simp add: lease_ok_def held_def)
  qed
  have "flights_ok mo (elsewhere mo ?V h') ?X"
  proof -
    have "k \<notin> elsewhere mo ?V h'" if "in_flight mo k ?S" for k
    proof
      assume "k \<in> elsewhere mo ?V h'"
      then consider "in_flight mo k S" | "k \<in> elsewhere mo W h'" by (auto simp: elsewhere_def fl split: if_splits)
      then show False
      proof cases
        case 1
        moreover have "k \<in> elsewhere mo W h" using that ne by (auto simp: elsewhere_def)
        ultimately show False using invD(3) [OF S] by (simp add: flights_ok_def)
      qed (use iD(3) that in \<open>simp add: flights_ok_def\<close>)
    qed
    then show ?thesis using iD(3) by (simp add: flights_ok_def in_flight_def)
  qed
  then show ?thesis
    by (intro invI) (use iD here ok invD(1) [OF S] in \<open>simp_all add: token_obs\<close>)
qed

lemma compose:
  assumes E: "named_hosts E" and inv: "world_inv E mo W" and k: "keeps (E h) mo (elsewhere mo W h) C (hosts W h) S"
  shows "world_inv E mo (commit h S C W)"
proof -
  from k have S: "token_inv (E h) mo (elsewhere mo W h) C S" and p: "polite (E h) mo (hosts W h) S" by (simp_all add: keeps_def)
  have "elsewhere mo (commit h S C W) h = elsewhere mo W h" by (auto simp: elsewhere_def commit_def in_flight_def)
  then show ?thesis
    using S others_keep [OF E inv p S] by (auto simp: world_inv_def commit_def)
qed

text \<open>Taking a message off a ring: a grant that arrives is the only one for its block, and nobody has a lease on it.\<close>

lemma pop_grant:
  assumes inv: "world_inv E mo W" and p: "TryPop cpu q (rings (hosts W s) d) = (kOk, Some m, r)"
    and V: "V = commit s ((hosts W s)\<lparr>rings := (rings (hosts W s))(d := r)\<rparr>) (claims W s) W" and E: "named_hosts E"
  shows "world_inv E mo V" and "grant_key mo m = Some k \<Longrightarrow> grant_arrives (E g) mo (elsewhere mo V g) (claims V g) k (hosts V g)"
proof -
  let ?S = "hosts W s"
  let ?T = "?S\<lparr>rings := (rings ?S)(d := r)\<rparr>"
  note sD = invD [OF world_invD(1) [OF inv, of s]]
  from TryPop_safe [OF _ p] sD(2) have r: "ring_safe r" "ring_contents (rings ?S d) = m # ring_contents r"
    by (auto simp: rings_safe_def)
  have fl: "flight mo d' ?S = (if d' = d then (case grant_key mo m of None \<Rightarrow> [] | Some k \<Rightarrow> [k]) else []) @ flight mo d' ?T" for d'
    using r(2) by (simp add: flight_def in_transit_def map_filter_def split: option.splits)
  have "subseq (flight mo d' ?T) (flight mo d' ?S)" for d' by (simp add: fl list_emb_append2)
  then have c: "calm mo ?S ?T"
    using r(1) by (simp add: calm_def token_obs granted_def rings_safe_def)
  from compose [OF E inv calm_keeps [OF c world_invD(1) [OF inv]]] show invV: "world_inv E mo V" by (simp add: V)
  have hV: "hosts V g = (if g = s then ?T else hosts W g)" for g
    using world_invD(2) [OF inv, of s g] by (cases "hosts W g") (auto simp: V commit_def)
  assume k: "grant_key mo m = Some k"
  then have k_in: "k \<in> set (flight mo d ?S)" using fl [of d] by simp
  then have trav: "in_flight mo k ?S" by (auto simp: in_flight_def)
  have "distinct (flight mo d ?S)" using sD(3) by (simp add: flights_ok_def)
  then have "k \<notin> set (flight mo d ?T)" using k unfolding fl by simp
  moreover have "k \<notin> set (flight mo d' ?T)" if "d' \<noteq> d" for d'
  proof
    assume "k \<in> set (flight mo d' ?T)"
    then have "k \<in> set (flight mo d' ?S)" using that by (simp add: fl)
    with sD(3) k_in have "d = d'" unfolding flights_ok_def by blast
    with that show False by simp
  qed
  ultimately have gone: "\<not> in_flight mo k ?T" unfolding in_flight_def by metis
  have nowhere: "\<not> in_flight mo k (hosts V g')" for g'
  proof (cases "g' = s")
    case False
    have "k \<notin> elsewhere mo W s" using sD(3) trav by (simp add: flights_ok_def)
    with False show ?thesis by (auto simp: hV elsewhere_def)
  qed (simp add: hV gone)
  have no_here: "\<not> here (E g) mo (elsewhere mo W g) k (hosts W g)"
    using trav by (cases "g = s") (auto simp: here_def elsewhere_def)
  note gD = invD [OF world_invD(1) [OF inv, of g]]
  have "\<not> leased mo (claims W g) k (hosts W g)"
    using no_here gD(8,10) by (auto simp: leased_def lease_ok_def)
  then have "\<not> leased mo (claims V g) k (hosts V g)" by (auto simp: hV leased_def V commit_def)
  then show "grant_arrives (E g) mo (elsewhere mo V g) (claims V g) k (hosts V g)"
    using nowhere by (auto simp: grant_arrives_def idle_def here_def elsewhere_def)
qed

lemma offsets_inv: "world_inv E mo W \<Longrightarrow> offsets W = mo"
  using invD(1) [OF world_invD(1), of E mo W 0] by (auto simp: offsets_def metadata_at_def)

lemma token_step_inv:
  assumes E: "named_hosts E" and step: "token_step E W W'" and inv: "world_inv E mo W"
  shows "world_inv E mo W'"
  using step
proof cases
  case (request h object i a r S)
  then show ?thesis using compose [OF E inv Request_keeps [OF world_invD(1) [OF inv]]] by simp
next
  case (wait i h r S)
  then show ?thesis using compose [OF E inv Wait_finish_keeps [OF world_invD(1) [OF inv]]] by simp
next
  case (cancel h handle st S)
  then show ?thesis using compose [OF E inv Cancel_keeps [OF world_invD(1) [OF inv]]] by simp
next
  case (cancel_begin h handle r S)
  then show ?thesis using compose [OF E inv CancelAndWait_begin_keeps [OF world_invD(1) [OF inv]]] by simp
next
  case (cancel_finish i h st S)
  then show ?thesis using compose [OF E inv CancelAndWait_finish_keeps [OF world_invD(1) [OF inv]]] by simp
next
  case (writeback h l st S)
  then show ?thesis using compose [OF E inv calm_keeps [OF calm_BeginWriteback world_invD(1) [OF inv]]] by simp
next
  case (release l h modified st S)
  then show ?thesis using compose [OF E inv Release_keeps [OF world_invD(1) [OF inv]]] by simp
next
  case (progress h st S)
  then show ?thesis using compose [OF E inv Progress_keeps [OF world_invD(1) [OF inv]]] by simp
next
  case (deliver d q s m r V st S)
  note P = pop_grant [OF inv deliver(2,3) E]
  have "keeps (E d) mo (elsewhere mo V d) (claims V d) (hosts V d) S"
    by (rule HandleMessage_keeps [OF world_invD(1) [OF P(1)] P(2) deliver(4)])
  from compose [OF E P(1) this] deliver(1) show ?thesis by simp
next
  case (close h object b S)
  then show ?thesis using compose [OF E inv CloseObject_keeps [OF world_invD(1) [OF inv]]] by simp
next
  case (register object h st S)
  have "keeps (E h) mo (elsewhere mo W h) (claims W h) (hosts W h) S"
    by (rule RegisterAllocation_keeps [OF world_invD(1) [OF inv] _ register(3)])
      (use register(2) offsets_inv [OF inv] in \<open>auto simp: travelling_def elsewhere_def\<close>)
  from compose [OF E inv this] register(1) show ?thesis by simp
next
  case (other h M)
  then have "calm mo (hosts W h) ((hosts W h)\<lparr>mem := M\<rparr>)"
    by (simp add: calm_def token_obs block_at_def same_tokens_def)
  from compose [OF E inv calm_keeps [OF this world_invD(1) [OF inv]]] other(1) show ?thesis by simp
qed

lemma start_world_inv:
  assumes "start_world W"
  shows "world_inv E (offsets W) W"
proof -
  have no: "flight mo d (hosts W h) = []" for mo d h
    using assms by (simp add: start_world_def flight_def in_transit_def map_filter_def)
  have m: "metadata_at (offsets W) (mem (hosts W h))" for h
    using assms unfolding start_world_def metadata_at_def offsets_def by metis
  have "token_inv (E h) (offsets W) (elsewhere (offsets W) W h) (claims W h) (hosts W h)" for h
    using assms m no
    by (intro invI) (auto simp: start_world_def rings_safe_def flights_ok_def in_flight_def free_token_def queued_def
        local_object_def default_object_def granted_def)
  then show ?thesis using assms by (auto simp: world_inv_def start_world_def)
qed

lemma token_run_inv: "token_run E W \<Longrightarrow> named_hosts E \<Longrightarrow> world_inv E (offsets W) W"
proof (induction rule: token_run.induct)
  case (step W W')
  then have "world_inv E (offsets W) W'" using token_step_inv by blast
  with offsets_inv [OF this] show ?case by simp
qed (rule start_world_inv)

end
