(* ===== verification/Cx_Token_Claims.thy ===== *)
theory Cx_Token_Claims
  imports Cx_Token_World
begin

text \<open>
  The properties of the token protocol: mutual exclusion in every reachable world, what a release publishes,
  what closing an object for retirement leaves behind, and the fate of a grant whose request is gone.
\<close>

section \<open>Mutual exclusion\<close>

text \<open>Who may write a block: a waiter that was granted the token, or a thread that obtained the lease.\<close>

datatype Holder = ByWaiter u64 | ByThread nat

fun holds :: "TokenWorld \<Rightarrow> HostId \<Rightarrow> Holder \<Rightarrow> TokenLease \<Rightarrow> bool" where
  "holds W h (ByWaiter i) l \<longleftrightarrow> granted i (hosts W h) \<and> l = lease_of i (hosts W h)"
| "holds W h (ByThread n) l \<longleftrightarrow> n < length (claims W h) \<and> l = claims W h ! n"

lemma holds_ok:
  assumes "world_inv E mo W" and "holds W h a l"
  shows "lease_ok (E h) mo (elsewhere mo W h) (hosts W h) l"
  using assms(2) invD(8,10) [OF world_invD(1) [OF assms(1), of h]] by (cases a) auto

lemma same_host_holder:
  assumes inv: "world_inv E mo W" and a: "holds W h a l" and b: "holds W h b l'" and k: "lease_key mo l = lease_key mo l'"
  shows "a = b"
proof -
  note iD = invD [OF world_invD(1) [OF inv, of h]]
  have mix: False if "granted i (hosts W h)" "n < length (claims W h)" "lease_key mo (lease_of i (hosts W h)) = lease_key mo (claims W h ! n)" for i n
    using iD(7) [OF that(1)] that(2,3) nth_mem by fastforce
  have idx: "m = n" if "m < length (claims W h)" "n < length (claims W h)" "lease_key mo (claims W h ! m) = lease_key mo (claims W h ! n)" for m n
    using nth_eq_iff_index_eq [OF iD(9), of m n] that by simp
  show ?thesis
  proof (cases a)
    case i: (ByWaiter i)
    show ?thesis using a b k i iD(6) [of i] mix [of i] by (cases b) auto
  next
    case m: (ByThread m)
    show ?thesis using a b k m mix [of _ m] idx [of m] by (cases b) auto
  qed
qed

text \<open>
  C1. Mutual exclusion of the write tokens.  In every reachable world, under every interleaving of the hosts'
  requests, waits, cancellations, releases, writebacks, message deliveries and retirements, and whatever fails
  on the way, two holders of a lease on the same coherence block are the same holder on the same host.
\<close>

theorem token_mutual_exclusion:
  assumes "token_run E W" and "named_hosts E" and "holds W h a l" and "holds W h' a' l'"
    and "lease_key (offsets W) l = lease_key (offsets W) l'"
  shows "h = h' \<and> a = a' \<and> l = l'"
proof -
  have inv: "world_inv E (offsets W) W" by (rule token_run_inv [OF assms(1,2)])
  have own: "token_owner (block_at (lease_key (offsets W) l) (hosts W h)) = ucast h"
    "token_owner (block_at (lease_key (offsets W) l) (hosts W h')) = ucast h'"
    using holds_ok [OF inv assms(3)] holds_ok [OF inv assms(4)] assms(2,5) by (simp_all add: lease_ok_def here_def named_hosts_def)
  then have h: "h = h'" using world_invD(2) [OF inv, of h h'] by (simp add: block_at_def owner_inj)
  have a: "a = a'" by (rule same_host_holder [OF inv assms(3) _ assms(5)]) (use assms(4) h in simp)
  moreover have "l = l'" using assms(3,4) h a by (cases a) auto
  ultimately show ?thesis using h by blast
qed

text \<open>
  C12. A lease is never stale while it is held: in every reachable world the block of a lease that is held is
  owned by the holder's host, its epoch is the epoch of the lease, the service has it marked as held, and no
  grant for it is under way anywhere.
\<close>

theorem held_lease_is_current:
  assumes "token_run E W" and "named_hosts E" and "holds W h a l"
  shows "token_owner (block_at (lease_key (offsets W) l) (hosts W h)) = ucast h \<and>
    token_epoch (block_at (lease_key (offsets W) l) (hosts W h)) = ls_token_epoch l \<and>
    lo_held (local_object (lease_key (offsets W) l) (hosts W h)) \<and> \<not> travelling (offsets W) W (lease_key (offsets W) l)"
proof -
  have inv: "world_inv E (offsets W) W" by (rule token_run_inv [OF assms(1,2)])
  from holds_ok [OF inv assms(3)] show ?thesis
    using assms(2) by (auto simp: lease_ok_def here_def held_def named_hosts_def travelling_def elsewhere_def)
qed

section \<open>Releasing\<close>

lemma AcquireReference_blocks:
  "AcquireReference A M object host b = (r, M') \<Longrightarrow> coherence_blocks M' = coherence_blocks M"
  using AcquireReference_frame by blast

lemma Target_frame:
  assumes "Target e object i b S = (r, S')"
  shows "coherence_blocks (mem S') = coherence_blocks (mem S)" "objects S' = objects S" "waiters S' = waiters S"
    "waiter_heap S' = waiter_heap S" "outbound S' = outbound S"
proof -
  have M2: "snd (MutableCoherenceBlock A M object i True) = M" for A M by (rule read_only)
  then have M3: "MutableCoherenceBlock A M object i True = (x, M') \<Longrightarrow> M' = M" for A M x M' by (metis snd_conv)
  show "coherence_blocks (mem S') = coherence_blocks (mem S)" "objects S' = objects S" "waiters S' = waiters S"
    "waiter_heap S' = waiter_heap S" "outbound S' = outbound S"
    using assms by (auto simp: Target_def Let_def ReleaseReference_def split: prod.splits sum.splits if_splits
        dest!: AcquireReference_blocks M3)
qed

lemma even_inc: "(w::u64) AND 1 \<noteq> 0 \<Longrightarrow> (w + 1) AND 1 = 0"
  by (simp add: and_one_eq even_iff_mod_2_eq_zero [symmetric] odd_iff_mod_2_eq_one [symmetric])


section \<open>Closing an object\<close>

text \<open>The waiters of a host: none appears, and none changes its object.\<close>

definition waiters_shrink :: "TokenState \<Rightarrow> TokenState \<Rightarrow> bool" where
  "waiters_shrink S S' \<longleftrightarrow> set (waiters S') \<subseteq> set (waiters S) \<and> (\<forall>i. w_object (waiter_heap S' i) = w_object (waiter_heap S i))"

lemma shrink_refl [simp]: "waiters_shrink S S"
  by (simp add: waiters_shrink_def)

lemma shrink_trans: "waiters_shrink S S' \<Longrightarrow> waiters_shrink S' S'' \<Longrightarrow> waiters_shrink S S''"
  by (auto simp: waiters_shrink_def)

lemma shrink_same: "waiters S' = waiters S \<Longrightarrow> waiter_heap S' = waiter_heap S \<Longrightarrow> waiters_shrink S S'"
  by (simp add: waiters_shrink_def)

lemma progress_waiters: "progress_hosts e hs S = (st, S') \<Longrightarrow> waiters S' = waiters S \<and> waiter_heap S' = waiter_heap S"
  by (induction e hs S arbitrary: st S' rule: progress_hosts.induct)
    (auto simp: Let_def split: if_splits sum.splits prod.splits)

lemma enqueue_waiters: "EnqueueOutbound e d m S = (st, S') \<Longrightarrow> waiters S' = waiters S \<and> waiter_heap S' = waiter_heap S"
  using EnqueueOutbound_split progress_waiters by fastforce

lemma forward_waiters: "forward_pending e d rs S = (st, S') \<Longrightarrow> waiters S' = waiters S \<and> waiter_heap S' = waiter_heap S"
proof (induction rs arbitrary: S)
  case (Cons r rs)
  obtain s1 S1 where "SendRequest e d r S = (s1, S1)" by fastforce
  with Cons enqueue_waiters [of e d _ S s1 S1] show ?case by (auto simp: SendRequest_def split: if_splits)
qed simp

lemma activate_waiters: "activate_if a e b S = (st, S') \<Longrightarrow> waiters S' = waiters S \<and> waiter_heap S' = waiter_heap S"
  by (auto simp: activate_if_def ActivateWriter_def Let_def split: if_splits)

lemma grant_remote_waiters: "grant_remote e r t S = (st, S') \<Longrightarrow> waiters S' = waiters S \<and> waiter_heap S' = waiter_heap S"
  by (auto simp: grant_remote_def Let_def split: if_splits prod.splits dest!: enqueue_waiters forward_waiters)

lemma hand_lease_shrink: "hand_lease i l k S = (o1, S') \<Longrightarrow> waiters_shrink S S'"
  by (auto simp: hand_lease_def Let_def waiters_shrink_def split: if_splits) (auto simp: set_waiter_def erase_waiter_def split: if_splits)

lemma grant_begin_shrink: "grant_begin e r t S = (o1, S') \<Longrightarrow> waiters_shrink S S'"
  by (auto simp: grant_begin_def grant_local_def split: if_splits prod.splits
      dest!: grant_remote_waiters activate_waiters hand_lease_shrink intro: shrink_same)
    (auto simp: waiters_shrink_def)

lemma Target_waiters: "Target e object i b S = (r, S') \<Longrightarrow> waiters S' = waiters S \<and> waiter_heap S' = waiter_heap S"
  using Target_frame(3,4) by blast

lemma release_begin_shrink: "release_begin e l m S = (r, S') \<Longrightarrow> waiters_shrink S S'"
  by (rule shrink_same)
    (auto simp: release_begin_def Let_def drop_target_def split: prod.splits sum.splits if_splits dest!: Target_waiters)

lemma release_next_shrink: "release_next e l t S = (r, S') \<Longrightarrow> waiters_shrink S S'"
  by (rule shrink_same) (auto simp: release_next_def Let_def split: prod.splits if_splits list.splits)

lemma drop_shrink [simp]: "waiters_shrink S (drop_target e t S') = waiters_shrink S S'"
  by (simp add: waiters_shrink_def drop_target_def)

lemma Release_Grant_shrink:
  "waiters_shrink S (snd (Release e lease modified S))" "waiters_shrink S (snd (Grant e request t S))"
proof (induction e lease modified S and e request t S rule: Release_Grant.induct)
  case (1 e lease modified S)
  show ?case
  proof (cases "release_begin e lease modified S")
    case (Pair r S1)
    note b = release_begin_shrink [OF Pair]
    show ?thesis
    proof (cases r)
      case (Inl st)
      with Pair b show ?thesis by (simp add: Release.simps)
    next
      case (Inr t)
      obtain q S2 where n: "release_next e lease t S1 = (q, S2)" by fastforce
      note s2 = shrink_trans [OF b release_next_shrink [OF n]]
      show ?thesis
      proof (cases q)
        case None
        with Pair Inr n s2 show ?thesis by (simp add: Release.simps)
      next
        case (Some x)
        obtain st S3 where g: "Grant e x t S2 = (st, S3)" by fastforce
        have "waiters_shrink S2 S3" using 1 [OF Pair [symmetric] Inr n [symmetric] Some] g by simp
        with s2 Pair Inr n Some g show ?thesis by (auto simp: Release.simps intro: shrink_trans)
      qed
    qed
  qed
next
  case (2 e request t S)
  show ?case
  proof (cases "grant_begin e request t S")
    case (Pair o1 S1)
    note b = grant_begin_shrink [OF Pair]
    show ?thesis
    proof (cases o1)
      case (GrantAbandoned l)
      from shrink_trans [OF b 2 [OF Pair [symmetric] GrantAbandoned]] Pair GrantAbandoned show ?thesis by (simp add: Grant.simps)
    qed (use Pair b in \<open>simp add: Grant.simps\<close>)
  qed
qed

lemma release_unclaimed_shrink: "release_unclaimed e ls S = (ok, S') \<Longrightarrow> waiters_shrink S S'"
proof (induction ls arbitrary: S)
  case (Cons l ls)
  obtain st S1 where r: "Release e l False S = (st, S1)" by fastforce
  have "waiters_shrink S S1" using Release_Grant_shrink(1) [of S e l False] r by simp
  with Cons r show ?case by (auto split: if_splits intro: shrink_trans)
qed simp

lemma clear_blocks_mem: "clear_blocks base is S = (b, S') \<Longrightarrow> mem S' = mem S"
  by (induction base "is" S arbitrary: b S' rule: clear_blocks.induct) (auto simp: Let_def split: option.splits prod.splits)

lemma clear_blocks_done:
  assumes "clear_blocks base is S = (b, S')"
  shows "waiters S' = waiters S" "waiter_heap S' = waiter_heap S"
    "lo_held (local_object k S') = lo_held (local_object k S)"
    "lo_pending (local_object k S') = (if k \<in> (\<lambda>i. base + i * sizeof_CoherenceBlockDescriptor) ` set is then [] else lo_pending (local_object k S))"
    "b \<longleftrightarrow> (\<exists>i \<in> set is. lo_held (local_object (base + i * sizeof_CoherenceBlockDescriptor) S))"
proof -
  have "waiters S' = waiters S \<and> waiter_heap S' = waiter_heap S \<and> lo_held (local_object k S') = lo_held (local_object k S) \<and>
    lo_pending (local_object k S') = (if k \<in> (\<lambda>i. base + i * sizeof_CoherenceBlockDescriptor) ` set is then [] else lo_pending (local_object k S)) \<and>
    (b \<longleftrightarrow> (\<exists>i \<in> set is. lo_held (local_object (base + i * sizeof_CoherenceBlockDescriptor) S)))"
    using assms
  proof (induction base "is" S arbitrary: b S' rule: clear_blocks.induct)
    case (2 base i "is" S)
    let ?k = "base + i * sizeof_CoherenceBlockDescriptor"
    show ?case
    proof (cases "map_of (objects S) ?k")
      case None
      then have d: "lo_pending (local_object ?k S) = []" "\<not> lo_held (local_object ?k S)"
        by (simp_all add: local_object_def default_object_def)
      from 2(3) None have "clear_blocks base is S = (b, S')" by (simp add: Let_def)
      from 2(1) [OF refl None this] d show ?thesis by (cases "k = ?k") simp_all
    next
      case (Some o1)
      then have o1: "local_object ?k S = o1" by (simp add: local_object_def)
      obtain h S1 where c: "clear_blocks base is (put_object ?k (o1\<lparr>lo_pending := []\<rparr>) S) = (h, S1)" by fastforce
      have flags: "lo_held (local_object k' (put_object ?k (o1\<lparr>lo_pending := []\<rparr>) S)) = lo_held (local_object k' S)" for k'
        using o1 by simp
      from 2(3) Some c have "b = (lo_held o1 \<or> h)" "S' = S1" by (auto simp: Let_def)
      with 2(2) [OF refl Some c, unfolded flags] o1 show ?thesis by (cases "k = ?k") simp_all
    qed
  qed simp
  then show "waiters S' = waiters S" "waiter_heap S' = waiter_heap S"
    "lo_held (local_object k S') = lo_held (local_object k S)"
    "lo_pending (local_object k S') = (if k \<in> (\<lambda>i. base + i * sizeof_CoherenceBlockDescriptor) ` set is then [] else lo_pending (local_object k S))"
    "b \<longleftrightarrow> (\<exists>i \<in> set is. lo_held (local_object (base + i * sizeof_CoherenceBlockDescriptor) S))"
    by blast+
qed

text \<open>
  Closing an object for retirement.  When the service reports an object as closed, no request of a thread of
  this host for it is left, nothing this host has queued for sending is about it, no block of it is held here or
  has a request waiting, and no operation of this host has it pinned.
\<close>

theorem CloseObject_quiesces:
  assumes "CloseObject e object S = (True, S')"
  shows "(\<forall>i \<in> set (waiters S'). w_object (waiter_heap S' i) \<noteq> object) \<and>
    (\<forall>d. \<forall>m \<in> set (outbound S' d). packet_object m \<noteq> object) \<and>
    (\<exists>d. fst (MutableDescriptor (te_allocator e) (mem S') object True) = Inr d \<and>
       ad_active_operations (descriptors (mem S') (gp_offset object)) (te_local_host e) = 0 \<and>
       (\<forall>i < unat (ad_coherence_block_count d).
          lo_pending (local_object (ad_coherence_metadata_offset d + of_nat i * sizeof_CoherenceBlockDescriptor) S') = [] \<and>
          \<not> lo_held (local_object (ad_coherence_metadata_offset d + of_nat i * sizeof_CoherenceBlockDescriptor) S')))"
proof -
  obtain ok S1 where r: "release_unclaimed e (unclaimed object S) (reject_waiters object S) = (ok, S1)" by fastforce
  obtain x where D: "MutableDescriptor (te_allocator e) (mem S1) object True = (x, mem S1)"
    using read_only(2) [of "te_allocator e" "mem S1" object True] by (metis prod.collapse)
  from assms r D obtain d where d: "x = Inr d" and ok by (cases ok; cases x) (auto simp: CloseObject_def)
  obtain h S2 where c: "clear_blocks (ad_coherence_metadata_offset d) (map of_nat [0..<unat (ad_coherence_block_count d)]) S1 = (h, S2)"
    by fastforce
  from assms r D d c \<open>ok\<close> have S': "S' = S2\<lparr>outbound := (\<lambda>h. filter (\<lambda>m. packet_object m \<noteq> object) (outbound S2 h))\<rparr>"
    and h: "\<not> h" "ad_active_operations (descriptors (mem S2) (gp_offset object)) (te_local_host e) = 0"
    by (auto simp: CloseObject_def)
  have m: "mem S2 = mem S1" using c by (rule clear_blocks_mem)
  note cb = clear_blocks_done [OF c]
  have "\<forall>i \<in> set (waiters S'). w_object (waiter_heap S' i) \<noteq> object"
  proof
    fix i assume "i \<in> set (waiters S')"
    then have "i \<in> set (waiters S1)" using cb(1) S' by simp
    moreover note release_unclaimed_shrink [OF r]
    ultimately have "i \<in> set (waiters (reject_waiters object S))"
      "w_object (waiter_heap S1 i) = w_object (waiter_heap (reject_waiters object S) i)"
      by (auto simp: waiters_shrink_def)
    then show "w_object (waiter_heap S' i) \<noteq> object" using cb(2) S' by (auto simp: reject_waiters_def split: if_splits)
  qed
  moreover have "\<forall>d. \<forall>m \<in> set (outbound S' d). packet_object m \<noteq> object" by (simp add: S')
  moreover have "fst (MutableDescriptor (te_allocator e) (mem S') object True) = Inr d" using D d m S' by simp
  moreover have "lo_pending (local_object (ad_coherence_metadata_offset d + of_nat i * sizeof_CoherenceBlockDescriptor) S') = [] \<and>
      \<not> lo_held (local_object (ad_coherence_metadata_offset d + of_nat i * sizeof_CoherenceBlockDescriptor) S')"
    if "i < unat (ad_coherence_block_count d)" for i
  proof -
    have i: "of_nat i \<in> set (map of_nat [0..<unat (ad_coherence_block_count d)])" using that by simp
    let ?k = "ad_coherence_metadata_offset d + of_nat i * sizeof_CoherenceBlockDescriptor"
    have "lo_pending (local_object ?k S2) = []" using cb(4) [of ?k] i by auto
    moreover have "\<not> lo_held (local_object ?k S2)" using cb(3) [of ?k] cb(5) h(1) i by blast
    ultimately show ?thesis by (simp add: S')
  qed
  moreover have "ad_active_operations (descriptors (mem S') (gp_offset object)) (te_local_host e) = 0" using h(2) S' by simp
  ultimately show ?thesis by blast
qed

section \<open>Grants without a request\<close>

text \<open>
  C34. A grant that finds no request is an error and strands the token: when this host is made the owner of a
  block for a request that is no longer in its table, the handler answers NotFound and leaves the local state of
  the block and its metadata as they are, so a block that was not available here stays unavailable although
  this host owns its token.
\<close>

theorem orphan_grant_strands_token:
  assumes "gr_new_owner g = te_local_host e" and "gr_request_id g \<noteq> 0" and "gr_request_id g \<notin> set (waiters S)"
    and "Target e (gr_object g) (gr_block_index g) False S = (Inr t, S1)" and "metadata_visibility e = kOk"
    and "token_owner (block_at (tg_block t) S) = ucast (te_local_host e)"
    and "token_epoch (block_at (tg_block t) S) = gr_token_epoch g" and "cb_version (block_at (tg_block t) S) = gr_version g"
  shows "\<exists>S2. HandleGrant e g S = (kNotFound, S2) \<and> objects S2 = objects S \<and> outbound S2 = outbound S \<and>
    coherence_blocks (mem S2) = coherence_blocks (mem S)"
proof -
  note fr = Target_frame [OF assms(4)]
  have blk: "block_at k S1 = block_at k S" for k by (simp add: block_at_def fr)
  have "HandleGrant e g S = (kNotFound, drop_target e t S1)"
    using assms fr by (simp add: HandleGrant_def Let_def blk)
  moreover have "coherence_blocks (mem (drop_target e t S1)) = coherence_blocks (mem S)"
    using fr(1) by (simp add: drop_target_def ReleaseReference_def)
  ultimately show ?thesis using fr by (simp add: drop_target_def)
qed

section \<open>A run\<close>

text \<open>One object of one block, allocated by host 0, which registers it, requests its token and waits for the lease.\<close>

definition sample_object :: GlobalPointer where
  "sample_object = \<lparr>region_id = 0, gp_offset = 0x1280\<rparr>"

definition sample_memory :: AllocatorMemory where
  "sample_memory = \<lparr>header = \<lparr>ah_magic = kAllocatorMagic, ah_layout_version = kAllocatorLayoutVersion, ah_header_bytes = 0,
      ah_state = AllocatorReady, ah_shared_data_offset = 0x1000, ah_shared_data_bytes = 0x10000,
      ah_extent_node_capacity = 0, extents = format_extents 0x1000 0x10000 0x30000 0x10000, retirement = idle_control,
      allocations = [\<lparr>sl_object_offset = 0x1280, sl_readers = 0\<rparr>]\<rparr>,
    descriptors = (\<lambda>off. if off = 0x1280 then default_descriptor\<lparr>ad_magic := kAllocationMagic, ad_state := ObjectAllocated,
      ad_object_offset := 0x1280, ad_bytes := 64, ad_alignment := 64, ad_coherence_block_bytes := 64,
      ad_coherence_block_count := 1, ad_coherence_metadata_offset := 0x20000\<rparr> else default_descriptor),
    coherence_blocks = (\<lambda>_. fresh_block 0)\<rparr>"

definition sample_env :: "HostId \<Rightarrow> TokenEnv" where
  "sample_env h = \<lparr>te_local_host = h, te_allocator = \<lparr>region_bytes = 0x40000, local_host = h, expected_data_offset = 0x1000,
      expected_data_bytes = 0x10000, coherence_header = Some \<lparr>cr_magic = kCoherenceRegionMagic,
        cr_layout_version = kCoherenceRegionLayoutVersion, cr_header_bytes = 64, cr_region_offset = 0x1f000, cr_region_bytes = 0x10000\<rparr>,
      default_block_bytes = 64, initialized = True\<rparr>,
    te_attached = True, te_lock_free = True, te_queue_resolver = (\<lambda>_ _. Inl kFailedPrecondition), te_mode = kReleaseAcquire,
    te_cpu = \<lparr>is_x86 = True, has_clwb = False\<rparr>\<rparr>"

definition sample_state :: TokenState where
  "sample_state = \<lparr>next_request_id = 1, outbound = (\<lambda>_. []), objects = [], waiters = [], waiter_heap = (\<lambda>_. default_waiter),
     mem = sample_memory, rings = (\<lambda>_. None)\<rparr>"

definition sample_start :: TokenWorld where
  "sample_start = \<lparr>hosts = (\<lambda>_. sample_state), claims = (\<lambda>_. [])\<rparr>"

definition sample_registered :: TokenState where
  "sample_registered = sample_state\<lparr>objects := [(0x20000, \<lparr>lo_available = True, lo_held = False, lo_pending = []\<rparr>)]\<rparr>"

definition sample_lease :: TokenLease where
  "sample_lease = \<lparr>ls_object = sample_object, ls_block_index = 0, ls_version = 0, ls_token_epoch = 1\<rparr>"

definition sample_blocks :: "u64 \<Rightarrow> CoherenceBlockDescriptor" where
  "sample_blocks = (\<lambda>_. fresh_block 0)(0x20000 := (fresh_block 0)\<lparr>writeback_epoch := 1\<rparr>)"

definition sample_requested :: TokenState where
  "sample_requested = sample_registered\<lparr>next_request_id := 2, objects := [(0x20000, \<lparr>lo_available = True, lo_held = True, lo_pending = []\<rparr>)],
     waiters := [1], waiter_heap := (\<lambda>_. default_waiter)(1 := default_waiter\<lparr>w_object := sample_object, w_lease := sample_lease, w_granted := True, w_state := WGranted\<rparr>),
     mem := sample_memory\<lparr>coherence_blocks := sample_blocks\<rparr>\<rparr>"

definition sample_waited :: TokenState where
  "sample_waited = sample_requested\<lparr>waiters := []\<rparr>"

definition sample_pinned :: "(u64 \<Rightarrow> CoherenceBlockDescriptor) \<Rightarrow> AllocatorMemory" where
  "sample_pinned bs = set_descriptor 0x1280 (\<lambda>d. d\<lparr>ad_active_operations := (ad_active_operations d)(0 := 1)\<rparr>)
     (sample_memory\<lparr>coherence_blocks := bs\<rparr>)"

abbreviation sample_tg :: CoherenceTarget where
  "sample_tg \<equiv> \<lparr>tg_allocation = 0x1280, tg_block = 0x20000, tg_local_key = 0x20000\<rparr>"

lemmas sample_defs = sample_memory_def sample_env_def sample_object_def default_descriptor_def kAllocationMagic_def
  sizeof_AllocationDescriptor_def alignof_descriptor_def sizeof_CoherenceBlockDescriptor_def kMaxHosts_def

lemma sample_lock:
  "FindDescriptorLocked (te_allocator (sample_env 0)) (sample_memory\<lparr>coherence_blocks := bs\<rparr>) sample_object b =
     Inr (descriptors sample_memory 0x1280)"
  "FindDescriptorLocked (te_allocator (sample_env 0)) (sample_pinned bs) sample_object b = Inr (descriptors (sample_pinned bs) 0x1280)"
  by (simp_all add: FindDescriptorLocked_def sample_pinned_def set_descriptor_def sample_defs Let_def)

lemma sample_slot:
  assumes "allocations (header M) = [\<lparr>sl_object_offset = 0x1280, sl_readers = 0\<rparr>]"
  shows "LockAllocationSlot (te_allocator (sample_env 0)) M sample_object = (Inr 0, set_slot 0 (\<lambda>s. s\<lparr>sl_readers := sl_readers s + 1\<rparr>) M)"
    and "UnlockSlot 0 (set_slot 0 (\<lambda>s. s\<lparr>sl_readers := sl_readers s + 1\<rparr>) M) = M"
    and "UnlockSlot 0 (set_descriptor off f (set_slot 0 (\<lambda>s. s\<lparr>sl_readers := sl_readers s + 1\<rparr>) M)) = set_descriptor off f M"
proof -
  show "LockAllocationSlot (te_allocator (sample_env 0)) M sample_object = (Inr 0, set_slot 0 (\<lambda>s. s\<lparr>sl_readers := sl_readers s + 1\<rparr>) M)"
    by (simp add: LockAllocationSlot_def first_slot_def assms sample_env_def sample_object_def)
  show u: "UnlockSlot 0 (set_slot 0 (\<lambda>s. s\<lparr>sl_readers := sl_readers s + 1\<rparr>) M) = M"
    by (rule UnlockSlot_lock) (simp add: slots_def assms)
  show "UnlockSlot 0 (set_descriptor off f (set_slot 0 (\<lambda>s. s\<lparr>sl_readers := sl_readers s + 1\<rparr>) M)) = set_descriptor off f M"
    using u by (simp add: UnlockSlot_def set_slot_commute)
qed

lemma sample_header: "allocations (header (sample_memory\<lparr>coherence_blocks := bs\<rparr>)) = [\<lparr>sl_object_offset = 0x1280, sl_readers = 0\<rparr>]"
  "allocations (header (sample_pinned bs)) = [\<lparr>sl_object_offset = 0x1280, sl_readers = 0\<rparr>]"
  by (simp_all add: sample_pinned_def set_descriptor_def sample_memory_def)

lemma sample_descriptor:
  "MutableDescriptor (te_allocator (sample_env 0)) (sample_memory\<lparr>coherence_blocks := bs\<rparr>) sample_object b =
     (Inr (descriptors sample_memory 0x1280), sample_memory\<lparr>coherence_blocks := bs\<rparr>)"
  "MutableDescriptor (te_allocator (sample_env 0)) (sample_pinned bs) sample_object b =
     (Inr (descriptors (sample_pinned bs) 0x1280), sample_pinned bs)"
  using sample_slot [OF sample_header(1)] sample_slot [OF sample_header(2)] sample_lock
    FindDescriptorLocked_cong [of "set_slot 0 g M" M for g M]
  by (simp_all add: MutableDescriptor_def)

lemma sample_target:
  assumes "mem S = sample_memory\<lparr>coherence_blocks := bs\<rparr>"
  shows "Target (sample_env 0) sample_object 0 b S = (Inr sample_tg, S\<lparr>mem := sample_pinned bs\<rparr>)"
proof -
  have a: "AcquireReference (te_allocator (sample_env 0)) (sample_memory\<lparr>coherence_blocks := bs\<rparr>) sample_object 0 b = (Inr 0x1280, sample_pinned bs)"
    using sample_slot [OF sample_header(1)] sample_lock(1) FindDescriptorLocked_cong [of "set_slot 0 g M" M for g M]
    by (simp add: AcquireReference_def sample_pinned_def) (simp add: sample_defs set_descriptor_def)
  have "MutableCoherenceBlock (te_allocator (sample_env 0)) (sample_pinned bs) sample_object 0 True = (Inr 0x20000, sample_pinned bs)"
    by (simp add: MutableCoherenceBlock_def sample_descriptor Let_def) (simp add: sample_pinned_def sample_defs set_descriptor_def)
  with a assms show ?thesis
    by (simp add: Target_def) (simp add: sample_pinned_def sample_defs set_descriptor_def)
qed

lemma sample_drop:
  "mem S = sample_pinned bs \<Longrightarrow> drop_target (sample_env 0) sample_tg S = S\<lparr>mem := sample_memory\<lparr>coherence_blocks := bs\<rparr>\<rparr>"
  by (simp add: drop_target_def ReleaseReference_def sample_pinned_def sample_defs set_descriptor_def fun_eq_iff)

lemma sample_mem: "mem sample_state = sample_memory\<lparr>coherence_blocks := (\<lambda>_. fresh_block 0)\<rparr>"
  "mem sample_registered = sample_memory\<lparr>coherence_blocks := (\<lambda>_. fresh_block 0)\<rparr>"
  "descriptors (sample_pinned bs) 0x1280 = (descriptors sample_memory 0x1280)\<lparr>ad_active_operations := (\<lambda>_. 0)(0 := 1)\<rparr>"
  "coherence_blocks (sample_pinned bs) = bs" "ad_coherence_block_count (descriptors sample_memory 0x1280) = 1"
  "ad_state (descriptors sample_memory 0x1280) = ObjectAllocated" "te_local_host (sample_env h) = h"
  by (simp_all add: sample_state_def sample_registered_def sample_pinned_def set_descriptor_def sample_memory_def
      default_descriptor_def sample_env_def)

lemma sample_fields: "token_owner (fresh_block 0) = 0" "cb_version (fresh_block 0) = 0" "token_epoch (fresh_block 0) = 1"
  "writeback_epoch (fresh_block 0) = 0"
  by (simp_all add: fresh_block_def)

lemma sample_same: "sample_memory\<lparr>coherence_blocks := (\<lambda>_. fresh_block 0)\<rparr> = sample_memory"
  "(sample_pinned bs)\<lparr>coherence_blocks := bs'\<rparr> = sample_pinned bs'" "metadata_visibility (sample_env 0) = kOk"
  by (simp_all add: sample_memory_def sample_pinned_def set_descriptor_def metadata_visibility_def sample_env_def
      visibility_status_def ValidateVisibilityMode_def sizeof_CoherenceBlockDescriptor_def)

lemma sample_register: "RegisterAllocation (sample_env 0) sample_object sample_state = (kOk, sample_registered)"
proof -
  have t: "Target (sample_env 0) sample_object 0 False sample_state = (Inr sample_tg, sample_state\<lparr>mem := sample_pinned (\<lambda>_. fresh_block 0)\<rparr>)"
    by (rule sample_target [OF sample_mem(1)])
  have m: "sample_state\<lparr>mem := sample_memory\<lparr>coherence_blocks := (\<lambda>_. fresh_block 0)\<rparr>\<rparr> = sample_state"
    using sample_mem(1) mem_same [of sample_state] by simp
  show ?thesis
    by (simp add: RegisterAllocation_def sample_mem sample_descriptor m t block_at_def sample_fields sample_drop
        put_object_def local_object_def)
      (simp add: sample_registered_def sample_state_def sample_same default_object_def)
qed

text \<open>The state while the request runs, with the allocation pinned.\<close>

definition sample_during :: "LocalObject \<Rightarrow> Waiter \<Rightarrow> (u64 \<Rightarrow> CoherenceBlockDescriptor) \<Rightarrow> TokenState" where
  "sample_during o1 w bs = \<lparr>next_request_id = 2, outbound = (\<lambda>_. []), objects = [(0x20000, o1)], waiters = [1],
     waiter_heap = (\<lambda>_. default_waiter)(1 := w), mem = sample_pinned bs, rings = (\<lambda>_. None)\<rparr>"

lemma sample_during_simps:
  "put_object 0x20000 o2 (sample_during o1 w bs) = sample_during o2 w bs"
  "local_object 0x20000 (sample_during o1 w bs) = o1"
  "set_waiter 1 f (sample_during o1 w bs) = sample_during o1 (f w) bs"
  "set_block k g (sample_during o1 w bs) = sample_during o1 w (bs(k := g (bs k)))"
  "block_at k (sample_during o1 w bs) = bs k"
  "drop_target (sample_env 0) sample_tg (sample_during o1 w bs) =
     (sample_during o1 w bs)\<lparr>mem := sample_memory\<lparr>coherence_blocks := bs\<rparr>\<rparr>"
  "allocation_live sample_tg (sample_during o1 w bs)"
  by (simp_all add: sample_during_def put_object_def local_object_def set_waiter_def set_block_def block_at_def sample_drop
      sample_mem sample_same allocation_live_def fun_upd_def fun_eq_iff)

lemma sample_requesting:
  "Request (sample_env 0) sample_object 0 True sample_registered =
     (Inr \<lparr>rh_object = sample_object, rh_block_index = 0, rh_request_id = 1\<rparr>, sample_requested)"
proof -
  let ?S1 = "sample_registered\<lparr>mem := sample_pinned (\<lambda>_. fresh_block 0)\<rparr>"
  let ?o = "\<lparr>lo_available = True, lo_held = False, lo_pending = []\<rparr>"
  have t: "Target (sample_env 0) sample_object 0 False sample_registered = (Inr sample_tg, ?S1)"
    by (rule sample_target [OF sample_mem(2)])
  have n: "next_request_id ?S1 = 1" "waiters ?S1 = []" by (simp_all add: sample_registered_def sample_state_def)
  have e: "emplace_waiter 1 w (?S1\<lparr>next_request_id := 1 + 1\<rparr>) = sample_during ?o w (\<lambda>_. fresh_block 0)" for w
    by (simp add: emplace_waiter_def sample_registered_def sample_state_def sample_during_def)
  have ac: "activate_if True (sample_env 0) 0x20000 (sample_during o1 w (\<lambda>_. fresh_block 0)) = (kOk, sample_during o1 w sample_blocks)" for o1 w
    by (simp add: activate_if_def ActivateWriter_def sample_during_simps sample_fields sample_same sample_blocks_def Let_def)
  have own: "block_owner 0x20000 (sample_during o1 w (\<lambda>_. fresh_block 0)) = te_local_host (sample_env 0)" for o1 w
    by (simp add: block_owner_def sample_during_simps sample_fields sample_mem)
  have l: "current_lease sample_object 0 0x20000 (sample_during o1 w sample_blocks) = sample_lease" for o1 w
    by (simp add: current_lease_def sample_during_simps sample_blocks_def sample_fields sample_lease_def)
  show ?thesis
    unfolding Request_def t prod.case sum.case Let_def n e CoherenceTarget.simps
    by (simp add: n e own ac l sample_during_simps)
      (simp add: sample_during_def sample_requested_def sample_registered_def sample_state_def)
qed

lemma sample_wait: "Wait_finish 1 sample_requested = (Inr sample_lease, sample_waited)" "waiter_owned 1 sample_requested"
  by (simp_all add: Wait_finish_def waiter_complete_def erase_waiter_def sample_requested_def sample_waited_def waiter_owned_def)

definition sample_world :: TokenWorld where
  "sample_world = commit 0 sample_waited [sample_lease] (commit 0 sample_requested [] (commit 0 sample_registered [] sample_start))"

lemma sample_run: "token_run sample_env sample_world" "named_hosts sample_env"
proof -
  have s: "token_run sample_env sample_start"
    by (rule token_run.start) (simp add: start_world_def sample_start_def sample_state_def ring_safe_def ring_contents_def)
  have "token_step sample_env sample_start (commit 0 sample_registered (claims sample_start 0) sample_start)"
  proof (rule token_step.register)
    show "RegisterAllocation (sample_env 0) sample_object (hosts sample_start 0) = (kOk, sample_registered)"
      by (simp add: sample_start_def sample_register)
  qed (simp add: sample_start_def travelling_def in_flight_def flight_def in_transit_def sample_state_def ring_contents_def map_filter_def)
  from token_run.step [OF s this] have r: "token_run sample_env (commit 0 sample_registered [] sample_start)"
    by (simp add: sample_start_def)
  let ?W1 = "commit 0 sample_registered [] sample_start"
  have "token_step sample_env ?W1 (commit 0 sample_requested (claims ?W1 0) ?W1)"
    by (rule token_step.request) (simp add: commit_def, rule sample_requesting)
  from token_run.step [OF r this] have q: "token_run sample_env (commit 0 sample_requested [] ?W1)"
    by (simp add: commit_def)
  let ?W2 = "commit 0 sample_requested [] ?W1"
  have "token_step sample_env ?W2 (commit 0 sample_waited (claimed (Inr sample_lease) (claims ?W2 0)) ?W2)"
    by (rule token_step.wait [of 1]) (simp_all add: commit_def sample_wait)
  from token_run.step [OF q this] show "token_run sample_env sample_world"
    by (simp add: commit_def claimed_def sample_world_def)
  show "named_hosts sample_env" by (simp add: named_hosts_def sample_mem)
qed

lemma sample_holds: "holds sample_world 0 (ByThread 0) sample_lease" "claims sample_world 0 = [sample_lease]" "hosts sample_world 0 = sample_waited"
  by (simp_all add: sample_world_def commit_def)

text \<open>In the sample run host 0 holds the lease, so no waiter of host 1 does.\<close>

theorem token_mutual_exclusion_witness:
  "token_run sample_env sample_world \<and> holds sample_world 0 (ByThread 0) sample_lease \<and> \<not> holds sample_world 1 (ByWaiter 1) sample_lease"
  using token_mutual_exclusion [OF sample_run sample_holds(1), of 1 "ByWaiter 1" sample_lease] sample_run(1) sample_holds(1) by auto

theorem held_lease_is_current_witness:
  "token_run sample_env sample_world \<and> \<not> travelling (offsets sample_world) sample_world (lease_key (offsets sample_world) sample_lease)"
  using held_lease_is_current [OF sample_run sample_holds(1)] sample_run(1) by auto


theorem CloseObject_quiesces_witness:
  "CloseObject (sample_env 0) sample_object sample_registered = (True, sample_registered) \<and>
   lo_pending (local_object 0x20000 sample_registered) = []"
proof -
  have r: "reject_waiters sample_object sample_registered = sample_registered" "unclaimed sample_object sample_registered = []"
    by (simp_all add: reject_waiters_def unclaimed_def closing_def sample_registered_def sample_state_def)
  have d: "MutableDescriptor (te_allocator (sample_env 0)) (mem sample_registered) sample_object True =
      (Inr (descriptors sample_memory 0x1280), mem sample_registered)"
    using sample_descriptor(1) sample_mem(2) by simp
  have k: "ad_coherence_metadata_offset (descriptors sample_memory 0x1280) = 0x20000"
    "ad_active_operations (descriptors (mem sample_registered) (gp_offset sample_object)) 0 = 0"
    by (simp_all add: sample_mem sample_defs)
  have c: "clear_blocks 0x20000 [0] sample_registered = (False, sample_registered)"
    by (simp add: sample_registered_def put_object_def)
  have close: "CloseObject (sample_env 0) sample_object sample_registered = (True, sample_registered)"
    by (simp add: CloseObject_def r d sample_mem(5) k c sample_mem(7)) (simp add: sample_registered_def sample_state_def put_object_def sample_defs)
  from CloseObject_quiesces [OF close] d k sample_mem(5) close show ?thesis by auto
qed

theorem orphan_grant_strands_token_witness:
  "\<exists>S2. HandleGrant (sample_env 0) (grant_message (sample_env 1) (new_request (sample_env 0) sample_object 0 True 7 (fresh_block 0)) (fresh_block 0))
     sample_state = (kNotFound, S2) \<and> objects S2 = []"
proof -
  let ?g = "grant_message (sample_env 1) (new_request (sample_env 0) sample_object 0 True 7 (fresh_block 0)) (fresh_block 0)"
  have g: "gr_new_owner ?g = 0" "gr_request_id ?g = 7" "gr_object ?g = sample_object" "gr_block_index ?g = 0"
    "gr_token_epoch ?g = 1" "gr_version ?g = 0"
    by (simp_all add: grant_message_def new_request_def sample_mem sample_fields)
  have s: "waiters sample_state = []" "objects sample_state = []" "block_at k sample_state = fresh_block 0" for k
    by (simp_all add: sample_state_def block_at_def sample_memory_def)
  have t: "Target (sample_env 0) (gr_object ?g) (gr_block_index ?g) False sample_state =
      (Inr sample_tg, sample_state\<lparr>mem := sample_pinned (\<lambda>_. fresh_block 0)\<rparr>)"
    unfolding g by (rule sample_target [OF sample_mem(1)])
  show ?thesis
    using orphan_grant_strands_token [OF _ _ _ t] by (auto simp: g s sample_mem sample_same sample_fields)
qed

end
