(* ===== verification/Cx_Samples.thy ===== *)
theory Cx_Samples
  imports Cx_Retirement
begin

text \<open>
  A small shared memory with one object, on which the properties of the locality queries and of the read cache are
  evaluated.
\<close>

text \<open>One object of 128 bytes in two blocks of 64, seen from host 0.\<close>

definition local_memory :: AllocatorMemory where
  "local_memory = \<lparr>header = \<lparr>ah_magic = kAllocatorMagic, ah_layout_version = 13, ah_header_bytes = 0, ah_state = AllocatorReady,
       ah_shared_data_offset = 0x1000, ah_shared_data_bytes = 0x1000, ah_extent_node_capacity = 0,
       extents = format_extents 0x1000 0x1000 0x20000 0x1000, retirement = idle_control,
       allocations = [\<lparr>sl_object_offset = 0x1280, sl_readers = 0\<rparr>]\<rparr>,
     descriptors = (\<lambda>_. default_descriptor\<lparr>ad_magic := kAllocationMagic, ad_state := ObjectAllocated, ad_object_offset := 0x1280,
       ad_bytes := 128, ad_alignment := 64, ad_coherence_block_bytes := 64, ad_coherence_block_count := 2,
       ad_coherence_metadata_offset := 0x20000, ad_data_extent_offset := 0x1000, ad_data_extent_bytes := 0x400,
       ad_coherence_extent_bytes := 1152\<rparr>),
     coherence_blocks = (\<lambda>_. fresh_block 0)\<rparr>"

definition local_allocator :: SharedExtentAllocator where
  "local_allocator = \<lparr>region_bytes = 0x40000, local_host = 0, expected_data_offset = 0x1000, expected_data_bytes = 0x1000,
     coherence_header = Some \<lparr>cr_magic = kCoherenceRegionMagic, cr_layout_version = 3, cr_header_bytes = 64,
       cr_region_offset = 0x1F000, cr_region_bytes = 0x2000\<rparr>, default_block_bytes = 64, initialized = True\<rparr>"

abbreviation local_gptr :: GlobalPointer where
  "local_gptr \<equiv> \<lparr>region_id = 0, gp_offset = 0x1280\<rparr>"

lemma local_object_ok: "object_ok 0x1280 (descriptors local_memory 0x1280)"
  by (simp add: object_ok_def local_memory_def default_descriptor_def kMaxHosts_def)

lemma local_lock:
  assumes "allocations (header M) = [\<lparr>sl_object_offset = 0x1280, sl_readers = 0\<rparr>]"
  shows "LockAllocationSlot local_allocator M local_gptr = (Inr 0, set_slot 0 (\<lambda>s. s\<lparr>sl_readers := sl_readers s + 1\<rparr>) M)"
    "UnlockSlot 0 (set_slot 0 (\<lambda>s. s\<lparr>sl_readers := sl_readers s + 1\<rparr>) M) = M"
  using assms by (simp_all add: LockAllocationSlot_def first_slot_def local_allocator_def UnlockSlot_lock slots_def)

definition local_pinned :: AllocatorMemory where
  "local_pinned = set_descriptor 0x1280 (\<lambda>d. d\<lparr>ad_active_operations := (ad_active_operations d)(0 := ad_active_operations d 0 + 1)\<rparr>) local_memory"

lemma local_pin: "AcquireReference local_allocator local_memory local_gptr 0 False = (Inr 0x1280, local_pinned)"
proof -
  have f: "FindDescriptorLocked local_allocator (set_slot 0 g local_memory) local_gptr False = Inr (descriptors local_memory 0x1280)" for g
    by (simp add: FindDescriptorLocked_def local_allocator_def local_memory_def set_slot_def default_descriptor_def Let_def
        sizeof_AllocationDescriptor_def alignof_descriptor_def kMaxHosts_def)
  have l: "allocations (header local_memory) = [\<lparr>sl_object_offset = 0x1280, sl_readers = 0\<rparr>]"
    "ad_state (descriptors local_memory 0x1280) = ObjectAllocated" "ad_sealed_hosts (descriptors local_memory 0x1280) = 0"
    by (simp_all add: local_memory_def default_descriptor_def)
  have u: "UnlockSlot 0 (set_descriptor off g (set_slot 0 (\<lambda>s. s\<lparr>sl_readers := sl_readers s + 1\<rparr>) local_memory)) =
      set_descriptor off g local_memory" for off g
    by (simp add: UnlockSlot_def set_slot_def set_descriptor_def local_memory_def)
  show ?thesis
    unfolding AcquireReference_def local_lock(1) [OF l(1)] prod.case f sum.case
    by (simp add: l(2,3) u kMaxHosts_def local_pinned_def)
qed

lemma local_block: "i = 0 \<or> i = 1 \<Longrightarrow> MutableCoherenceBlock local_allocator local_pinned local_gptr i True = (Inr (0x20000 + i * 576), local_pinned)"
proof -
  assume "i = 0 \<or> i = 1"
  have l: "allocations (header local_pinned) = [\<lparr>sl_object_offset = 0x1280, sl_readers = 0\<rparr>]"
    by (simp add: local_pinned_def set_descriptor_def local_memory_def)
  have f: "FindDescriptorLocked local_allocator (set_slot 0 g local_pinned) local_gptr True = Inr (descriptors local_pinned 0x1280)" for g
    by (simp add: FindDescriptorLocked_def local_allocator_def local_pinned_def local_memory_def set_slot_def set_descriptor_def
        default_descriptor_def Let_def sizeof_AllocationDescriptor_def alignof_descriptor_def kMaxHosts_def)
  have d: "ad_coherence_block_count (descriptors local_pinned 0x1280) = 2" "ad_coherence_metadata_offset (descriptors local_pinned 0x1280) = 0x20000"
    "coherence_header local_allocator = Some \<lparr>cr_magic = kCoherenceRegionMagic, cr_layout_version = 3, cr_header_bytes = 64,
       cr_region_offset = 0x1F000, cr_region_bytes = 0x2000\<rparr>"
    by (simp_all add: local_pinned_def local_memory_def set_descriptor_def local_allocator_def)
  show ?thesis
    unfolding MutableCoherenceBlock_def MutableDescriptor_def local_lock [OF l] prod.case f sum.case d option.case Let_def
    using \<open>i = 0 \<or> i = 1\<close> by (auto simp: sizeof_CoherenceBlockDescriptor_def word_le_nat_alt)
qed

end
