(* ===== verification/Cx_Scheduler.thy ===== *)
theory Cx_Scheduler
  imports Complex_Main Cx_Queue Cx_Samples
begin

text \<open>
  Placement of new threads: what a host sees of the locality of an object (\<^verbatim>\<open>QueryLocality\<close> and
  \<^verbatim>\<open>ResolvePreferredHost\<close> of \<^verbatim>\<open>src/loommem/runtime.cpp\<close>), and the scheduler that turns load samples and
  localities into a host (\<^verbatim>\<open>src/loompar/scheduler.cpp\<close>).

  The loads of a coherence block that another host may be changing are an argument: \<open>obs i r\<close> is what the
  \<open>r\<close>-th try at block \<open>i\<close> reads, first the block and last the epoch again.  Floating-point numbers are
  reals; the weight of a working-set entry, which the source checks with \<^verbatim>\<open>isfinite\<close>, is an option with
  \<open>None\<close> for the values that are not finite.
\<close>

section \<open>Data\<close>

text \<open>\<open>AccessOther\<close> stands for a number that is none of the enumerators, which the scheduler refuses.\<close>

datatype MemoryAccess = AccessRead | AccessWrite | AccessReadWrite | AccessOther

record WorkingSetEntry =
  we_object :: GlobalPointer
  we_offset :: u64
  we_bytes :: u64
  we_access :: MemoryAccess
  we_weight :: "real option"

record BlockLocality =
  bl_bytes :: u64
  bl_version :: u64
  bl_token_owner :: HostId
  bl_last_writer :: HostId
  bl_current_replica_hosts :: u64

record ThreadPlacementHint =
  has_explicit_host :: bool
  explicit_host :: HostId
  has_dominant_gptr :: bool
  dominant_gptr :: GlobalPointer
  hint_label :: string
  working_set :: "WorkingSetEntry list"

record ExecutionLoad =
  executing :: u32
  ready :: u32
  blocked :: u32
  workers :: u32

record HostLoadSnapshot =
  host_id :: HostId
  running_threads :: u32
  pending_creates :: u32
  queued_messages :: u32
  sample_sequence :: u64
  sampled_at_ns :: u64
  execution :: ExecutionLoad

record SchedulerConfig = CxloomConfig +
  scheduler_load_half_life_ms :: real
  scheduler_queue_weight :: real
  scheduler_history_weight :: real
  scheduler_remote_locality_penalty :: real

record PlacementScheduler =
  rr_cursor :: u64
  launches :: "HostId \<Rightarrow> u64"
  completions :: "HostId \<Rightarrow> u64"

section \<open>Locality\<close>

text \<open>The 32 tries at one block: an odd epoch or one that moved during the try means another try.\<close>

fun try_sample :: "nat \<Rightarrow> (nat \<Rightarrow> CoherenceBlockDescriptor \<times> u64) \<Rightarrow> nat \<Rightarrow> CoherenceBlockDescriptor option" where
  "try_sample 0 obs r = None"
| "try_sample (Suc k) obs r =
     (case obs r of (b, epoch_after) \<Rightarrow>
        if writeback_epoch b AND 1 \<noteq> 0 then try_sample k obs (Suc r)
        else if writeback_epoch b \<noteq> epoch_after then try_sample k obs (Suc r)
        else Some b)"

definition replica_mask :: "u16 \<Rightarrow> CoherenceBlockDescriptor \<Rightarrow> u64" where
  "replica_mask hosts b =
     fold (\<lambda>host m. if replica_versions b host = cb_version b + 1 then m OR host_bit host else m) (hosts_below hosts) 0"

definition block_sample :: "u16 \<Rightarrow> u64 \<Rightarrow> u64 \<Rightarrow> u64 \<Rightarrow> u64 \<Rightarrow> CoherenceBlockDescriptor \<Rightarrow> BlockLocality" where
  "block_sample hosts offset bytes granule i b =
     \<lparr>bl_bytes = min (offset + bytes) ((i + 1) * granule) - max offset (i * granule), bl_version = cb_version b,
      bl_token_owner = ucast (token_owner b), bl_last_writer = ucast (last_writer b),
      bl_current_replica_hosts = replica_mask hosts b\<rparr>"

fun query_blocks :: "SharedExtentAllocator \<Rightarrow> u16 \<Rightarrow> (u64 \<Rightarrow> nat \<Rightarrow> CoherenceBlockDescriptor \<times> u64) \<Rightarrow> GlobalPointer \<Rightarrow>
    (u64 \<Rightarrow> CoherenceBlockDescriptor \<Rightarrow> BlockLocality) \<Rightarrow> u64 list \<Rightarrow> AllocatorMemory \<Rightarrow> BlockLocality list Result \<times> AllocatorMemory" where
  "query_blocks A hosts obs object mk [] M = (Inr [], M)"
| "query_blocks A hosts obs object mk (i # is) M =
     (case MutableCoherenceBlock A M object i True of
        (Inl st, M1) \<Rightarrow> (Inl st, M1)
      | (Inr _, M1) \<Rightarrow>
          (case try_sample 32 (obs i) 0 of
             None \<Rightarrow> (Inl kUnavailable, M1)
           | Some b \<Rightarrow>
               (case query_blocks A hosts obs object mk is M1 of
                  (Inl st, M2) \<Rightarrow> (Inl st, M2)
                | (Inr samples, M2) \<Rightarrow> (Inr (mk i b # samples), M2))))"

text \<open>\<^verbatim>\<open>for (i = first; i <= last; ++i)\<close>\<close>

definition block_range :: "u64 \<Rightarrow> u64 \<Rightarrow> u64 list" where
  "block_range first_block last_block = map of_nat [unat first_block..<Suc (unat last_block)]"

definition QueryLocality :: "SharedExtentAllocator \<Rightarrow> u16 \<Rightarrow> bool \<Rightarrow> (u64 \<Rightarrow> nat \<Rightarrow> CoherenceBlockDescriptor \<times> u64) \<Rightarrow>
    WorkingSetEntry \<Rightarrow> AllocatorMemory \<Rightarrow> BlockLocality list Result \<times> AllocatorMemory" where
  "QueryLocality A hosts up obs entry M =
     (if \<not> up then (Inl kFailedPrecondition, M)
      else (case AcquireReference A M (we_object entry) (local_host A) False of
              (Inl st, M1) \<Rightarrow> (Inl st, M1)
            | (Inr off, M1) \<Rightarrow>
                let d = descriptors M1 off;
                    leave = (\<lambda>(r, M2). (r, snd (ReleaseReference M2 off (local_host A)))) in
                if ad_bytes d \<le> we_offset entry \<or> ad_bytes d - we_offset entry < we_bytes entry
                then leave (Inl kInvalidArgument, M1)
                else let bytes = (if we_bytes entry \<noteq> 0 then we_bytes entry else ad_bytes d - we_offset entry);
                         granule = ad_coherence_block_bytes d in
                  leave (query_blocks A hosts obs (we_object entry) (block_sample hosts (we_offset entry) bytes granule)
                           (block_range (we_offset entry div granule) ((we_offset entry + bytes - 1) div granule)) M1)))"

text \<open>\<^verbatim>\<open>std::max_element\<close> returns the first of the largest elements.\<close>

fun max_element :: "(HostId \<Rightarrow> u64) \<Rightarrow> HostId list \<Rightarrow> HostId \<Rightarrow> HostId" where
  "max_element f [] best = best"
| "max_element f (h # hs) best = max_element f hs (if f best < f h then h else best)"

definition add_owned :: "u16 \<Rightarrow> BlockLocality \<Rightarrow> (HostId \<Rightarrow> u64) \<Rightarrow> (HostId \<Rightarrow> u64) Result" where
  "add_owned hosts l owned_bytes =
     (if hosts \<le> bl_token_owner l then Inl kFailedPrecondition
      else Inr (owned_bytes(bl_token_owner l := owned_bytes (bl_token_owner l) + bl_bytes l)))"

definition ResolvePreferredHost :: "SharedExtentAllocator \<Rightarrow> u16 \<Rightarrow> bool \<Rightarrow> (u64 \<Rightarrow> nat \<Rightarrow> CoherenceBlockDescriptor \<times> u64) \<Rightarrow>
    GlobalPointer \<Rightarrow> AllocatorMemory \<Rightarrow> HostId Result \<times> AllocatorMemory" where
  "ResolvePreferredHost A hosts up obs gptr M =
     (case QueryLocality A hosts up obs \<lparr>we_object = gptr, we_offset = 0, we_bytes = 0, we_access = AccessRead, we_weight = Some 1\<rparr> M of
        (Inl st, M1) \<Rightarrow> (Inl st, M1)
      | (Inr blocks, M1) \<Rightarrow>
          (case foldE (add_owned hosts) blocks (\<lambda>_. 0) of
             Inl st \<Rightarrow> Inl st
           | Inr owned \<Rightarrow> Inr (max_element owned (hosts_below (of_nat kMaxHosts)) 0), M1))"

section \<open>Host selection\<close>

text \<open>
  The cost of an access to one block from a host: a read is free where a current replica is and cheaper on the
  host that wrote the block last; a write is free on the owner of the token.
\<close>

definition access_cost :: "MemoryAccess \<Rightarrow> BlockLocality \<Rightarrow> HostId \<Rightarrow> real" where
  "access_cost access l host =
     (if access \<noteq> AccessWrite \<and> bl_current_replica_hosts l AND host_bit host = 0
      then if host = bl_last_writer l then 3 / 4 else 1 else 0) +
     (if access \<noteq> AccessRead \<and> host \<noteq> bl_token_owner l then 1 else 0)"

definition add_block :: "u16 \<Rightarrow> MemoryAccess \<Rightarrow> real \<Rightarrow> BlockLocality \<Rightarrow> (HostId \<Rightarrow> real) \<times> real \<Rightarrow> (HostId \<Rightarrow> real) \<times> real" where
  "add_block hosts access w l acc =
     (case acc of (cost, total_weight) \<Rightarrow>
        let weight = w * real (unat (bl_bytes l))
        in (\<lambda>host. if host < hosts then cost host + weight * access_cost access l host else cost host, total_weight + weight))"

definition add_entry :: "u16 \<Rightarrow> (WorkingSetEntry \<Rightarrow> 'm \<Rightarrow> BlockLocality list Result \<times> 'm) option \<Rightarrow> WorkingSetEntry \<Rightarrow>
    ((HostId \<Rightarrow> real) \<times> real) \<times> 'm \<Rightarrow> Status option \<times> ((HostId \<Rightarrow> real) \<times> real) \<times> 'm" where
  "add_entry hosts query entry acc =
     (case acc of (weights, m) \<Rightarrow>
        (case we_weight entry of
           None \<Rightarrow> (Some kInvalidArgument, acc)
         | Some w \<Rightarrow>
             if w \<le> 0 \<or> 1000000 < w \<or> we_access entry = AccessOther then (Some kInvalidArgument, acc)
             else (case query of
                     None \<Rightarrow> (Some kFailedPrecondition, acc)
                   | Some q \<Rightarrow>
                       (case q entry m of
                          (Inl st, m1) \<Rightarrow> (Some st, weights, m1)
                        | (Inr blocks, m1) \<Rightarrow> (None, fold (add_block hosts (we_access entry) w) blocks weights, m1)))))"

fun add_entries :: "u16 \<Rightarrow> (WorkingSetEntry \<Rightarrow> 'm \<Rightarrow> BlockLocality list Result \<times> 'm) option \<Rightarrow> WorkingSetEntry list \<Rightarrow>
    ((HostId \<Rightarrow> real) \<times> real) \<times> 'm \<Rightarrow> Status option \<times> ((HostId \<Rightarrow> real) \<times> real) \<times> 'm" where
  "add_entries hosts query [] acc = (None, acc)"
| "add_entries hosts query (e # es) acc =
     (case add_entry hosts query e acc of
        (Some st, acc1) \<Rightarrow> (Some st, acc1)
      | (None, acc1) \<Rightarrow> add_entries hosts query es acc1)"

definition placement_entries :: "SchedulerConfig \<Rightarrow> ThreadPlacementHint \<Rightarrow> WorkingSetEntry list" where
  "placement_entries c hint =
     (if placement_policy c = kMemoryAware \<and> \<not> has_explicit_host hint
      then if working_set hint = [] \<and> has_dominant_gptr hint
           then [\<lparr>we_object = dominant_gptr hint, we_offset = 0, we_bytes = 0, we_access = AccessReadWrite, we_weight = Some 1\<rparr>]
           else working_set hint
      else [])"

definition eligible :: "SchedulerConfig \<Rightarrow> ThreadPlacementHint \<Rightarrow> HostLoadSnapshot \<Rightarrow> bool" where
  "eligible c hint snapshot \<longleftrightarrow>
     \<not> (has_explicit_host hint \<and> host_id snapshot \<noteq> explicit_host hint) \<and>
     \<not> (max_running_threads_per_host c \<noteq> 0 \<and> max_running_threads_per_host c \<le> running_threads snapshot) \<and>
     \<not> (max_pending_creates_per_host c \<noteq> 0 \<and> max_pending_creates_per_host c \<le> pending_creates snapshot)"

definition unseen_launches :: "PlacementScheduler \<Rightarrow> HostLoadSnapshot \<Rightarrow> u64" where
  "unseen_launches s snapshot =
     (let l = launches s (host_id snapshot); k = completions s (host_id snapshot);
          outstanding = (if k < l then l - k else 0) in
      if workers (execution snapshot) \<noteq> 0
      then if ucast (running_threads snapshot) < outstanding then outstanding - ucast (running_threads snapshot) else 0
      else outstanding)"

definition score :: "SchedulerConfig \<Rightarrow> PlacementScheduler \<Rightarrow> u64 \<Rightarrow> (HostId \<Rightarrow> real) \<times> real \<Rightarrow> HostLoadSnapshot \<Rightarrow> real" where
  "score c s now weights snapshot =
     (let age_ms = (if sampled_at_ns snapshot \<noteq> 0 \<and> sampled_at_ns snapshot < now
                    then real (unat (now - sampled_at_ns snapshot)) / 1000000 else 0);
          freshness = 2 powr (- age_ms / max 1 (scheduler_load_half_life_ms c));
          x = execution snapshot;
          running = (if workers x \<noteq> 0 then real (unat (executing x + ready x)) / real (unat (workers x))
                     else real (unat (running_threads snapshot)) * freshness);
          pending = real (unat (pending_creates snapshot)) * (if workers x \<noteq> 0 then 1 / real (unat (workers x)) else freshness);
          queue = real (unat (queued_messages snapshot)) * scheduler_queue_weight c;
          unseen = real (unat (unseen_launches s snapshot));
          unobserved_load = unseen / (if workers x \<noteq> 0 then real (unat (workers x)) else 1);
          history = unseen * scheduler_history_weight c;
          locality = (if snd weights \<noteq> 0 then scheduler_remote_locality_penalty c * fst weights (host_id snapshot) / snd weights else 0)
      in if placement_policy c = kLeastLoaded then running + pending + unobserved_load
         else running + pending + queue + history + locality)"

definition distance :: "SchedulerConfig \<Rightarrow> u64 \<Rightarrow> HostLoadSnapshot \<Rightarrow> u64" where
  "distance c cursor snapshot =
     (ucast (host_id snapshot) + ucast (host_count c) - cursor mod ucast (host_count c)) mod ucast (host_count c)"

text \<open>The variables of the loop over the load samples; \<open>min_score = None\<close> is infinity.\<close>

record Selection =
  best :: HostId
  min_score :: "real option"
  best_distance :: u64
  any_eligible :: bool

definition select_step :: "SchedulerConfig \<Rightarrow> ThreadPlacementHint \<Rightarrow> u64 \<Rightarrow> (HostLoadSnapshot \<Rightarrow> real) \<Rightarrow> HostLoadSnapshot \<Rightarrow>
    Selection \<Rightarrow> Selection Result" where
  "select_step c hint cursor sc snapshot v =
     (if host_count c \<le> host_id snapshot then Inl kInvalidArgument
      else if \<not> eligible c hint snapshot then Inr v
      else let take_it = (if placement_policy c = kRoundRobin then distance c cursor snapshot < best_distance v
                         else (case min_score v of None \<Rightarrow> True | Some m \<Rightarrow> sc snapshot < m)) in
        Inr (if take_it
             then \<lparr>best = host_id snapshot, min_score = Some (sc snapshot), best_distance = distance c cursor snapshot, any_eligible = True\<rparr>
             else v\<lparr>any_eligible := True\<rparr>))"

definition SelectHost :: "SchedulerConfig \<Rightarrow> (WorkingSetEntry \<Rightarrow> 'm \<Rightarrow> BlockLocality list Result \<times> 'm) option \<Rightarrow> u64 \<Rightarrow>
    ThreadPlacementHint \<Rightarrow> HostLoadSnapshot list \<Rightarrow> bool \<Rightarrow> PlacementScheduler \<times> 'm \<Rightarrow> HostId Result \<times> PlacementScheduler \<times> 'm" where
  "SelectHost c query now hint load_view advance sm =
     (case sm of (s, m) \<Rightarrow>
        if placement_policy c \<noteq> kMemoryAware \<and> placement_policy c \<noteq> kRoundRobin \<and> placement_policy c \<noteq> kLeastLoaded
        then (Inl kInvalidArgument, s, m)
        else if has_explicit_host hint \<and> host_count c \<le> explicit_host hint then (Inl kInvalidArgument, s, m)
        else if load_view = [] then (Inl kFailedPrecondition, s, m)
        else if 256 < length (placement_entries c hint) then (Inl kInvalidArgument, s, m)
        else (case add_entries (host_count c) query (placement_entries c hint) ((\<lambda>_. 0, 0), m) of
                (Some st, _, m1) \<Rightarrow> (Inl st, s, m1)
              | (None, weights, m1) \<Rightarrow>
                  (case foldE (select_step c hint (rr_cursor s) (score c s now weights)) load_view
                     \<lparr>best = host_id (hd load_view), min_score = None, best_distance = UINT64_MAX, any_eligible = False\<rparr> of
                     Inl st \<Rightarrow> (Inl st, s, m1)
                   | Inr v \<Rightarrow>
                       if \<not> any_eligible v then (Inl kUnavailable, s, m1)
                       else (Inr (best v),
                             if advance \<and> \<not> has_explicit_host hint \<and> placement_policy c = kRoundRobin
                             then s\<lparr>rr_cursor := (ucast (best v) + 1) mod ucast (host_count c)\<rparr> else s, m1))))"

definition RecordLaunch :: "HostId \<Rightarrow> PlacementScheduler \<Rightarrow> PlacementScheduler" where
  "RecordLaunch host s = s\<lparr>launches := (launches s)(host := launches s host + 1)\<rparr>"

definition RecordCompletion :: "HostId \<Rightarrow> PlacementScheduler \<Rightarrow> PlacementScheduler" where
  "RecordCompletion host s = s\<lparr>completions := (completions s)(host := completions s host + 1)\<rparr>"

definition launch_count :: "HostId \<Rightarrow> PlacementScheduler \<Rightarrow> u64" where
  "launch_count host s = launches s host"

section \<open>What the loop over the samples chooses\<close>

definition better :: "SchedulerConfig \<Rightarrow> u64 \<Rightarrow> (HostLoadSnapshot \<Rightarrow> real) \<Rightarrow> HostLoadSnapshot \<Rightarrow> HostLoadSnapshot \<Rightarrow> bool" where
  "better c cursor sc x y \<longleftrightarrow>
     (if placement_policy c = kRoundRobin then distance c cursor x \<le> distance c cursor y else sc x \<le> sc y)"

definition chosen :: "SchedulerConfig \<Rightarrow> ThreadPlacementHint \<Rightarrow> u64 \<Rightarrow> (HostLoadSnapshot \<Rightarrow> real) \<Rightarrow> HostLoadSnapshot list \<Rightarrow> Selection \<Rightarrow> bool" where
  "chosen c hint cursor sc xs v \<longleftrightarrow>
     (if any_eligible v
      then \<exists>x \<in> set xs. eligible c hint x \<and> host_id x < host_count c \<and> best v = host_id x \<and> min_score v = Some (sc x) \<and>
             best_distance v = distance c cursor x \<and> (\<forall>y \<in> set xs. eligible c hint y \<longrightarrow> better c cursor sc x y)
      else (\<forall>y \<in> set xs. \<not> eligible c hint y) \<and> min_score v = None \<and> best_distance v = UINT64_MAX)"

lemma distance_less:
  assumes "h < host_count c" and "h = host_id x"
  shows "distance c cursor x < ucast (host_count c)" "distance c cursor x < UINT64_MAX"
proof -
  have "unat (host_count c) \<noteq> 0" using assms(1) by (auto simp: word_less_nat_alt)
  then have n: "(ucast (host_count c) :: u64) \<noteq> 0" by (simp add: unat_eq_zero [symmetric])
  show a: "distance c cursor x < ucast (host_count c)"
    using n by (simp add: distance_def word_mod_less_divisor word_gt_0)
  have "unat (ucast (host_count c) :: u64) < 65536" by (simp add: unat_u16_bound)
  with a show "distance c cursor x < UINT64_MAX" by (simp add: word_less_nat_alt)
qed

lemma select_step_eligible:
  assumes "eligible c hint x" and "host_id x < host_count c"
  shows "select_step c hint cursor sc x v = Inr
     (if if placement_policy c = kRoundRobin then distance c cursor x < best_distance v
         else (case min_score v of None \<Rightarrow> True | Some m \<Rightarrow> sc x < m)
      then \<lparr>best = host_id x, min_score = Some (sc x), best_distance = distance c cursor x, any_eligible = True\<rparr>
      else v\<lparr>any_eligible := True\<rparr>)"
  using assms by (simp add: select_step_def linorder_not_le [symmetric])

lemma select_step_chosen:
  assumes "chosen c hint cursor sc xs v" and "select_step c hint cursor sc x v = Inr w"
  shows "chosen c hint cursor sc (xs @ [x]) w"
proof (cases "eligible c hint x")
  case False
  with assms show ?thesis by (auto simp: select_step_def chosen_def split: if_splits)
next
  case el: True
  with assms(2) have h: "host_id x < host_count c" by (auto simp: select_step_def split: if_splits)
  note less = distance_less [OF h refl, of cursor]
  note step = assms(2) [unfolded select_step_eligible [OF el h]]
  show ?thesis
  proof (cases "any_eligible v")
    case False
    with assms(1) have "\<forall>y \<in> set xs. \<not> eligible c hint y" "min_score v = None" "best_distance v = UINT64_MAX"
      by (auto simp: chosen_def)
    with step el h less show ?thesis by (auto simp: chosen_def better_def split: if_splits)
  next
    case True
    with assms(1) obtain y where y: "y \<in> set xs" "eligible c hint y" "host_id y < host_count c" "best v = host_id y"
      "min_score v = Some (sc y)" "best_distance v = distance c cursor y" "\<forall>z \<in> set xs. eligible c hint z \<longrightarrow> better c cursor sc y z"
      by (auto simp: chosen_def)
    show ?thesis
    proof (cases "better c cursor sc y x")
      case b: True
      then have "w = v" using step y True by (auto simp: better_def split: if_splits)
      then show ?thesis using True y b by (auto simp: chosen_def)
    next
      case b: False
      then have w: "w = \<lparr>best = host_id x, min_score = Some (sc x), best_distance = distance c cursor x, any_eligible = True\<rparr>"
        using step y by (auto simp: better_def split: if_splits)
      have "better c cursor sc x z" if "z \<in> set xs" "eligible c hint z" for z
        using b y(7) that by (fastforce simp: better_def split: if_splits)
      then show ?thesis using el h w by (auto simp: chosen_def better_def)
    qed
  qed
qed

lemma select_chosen:
  assumes "foldE (select_step c hint cursor sc) xs v = Inr w" and "chosen c hint cursor sc ys v"
  shows "chosen c hint cursor sc (ys @ xs) w"
  using assms
proof (induction xs arbitrary: v ys)
  case (Cons x xs)
  from Cons.prems(1) obtain u where u: "select_step c hint cursor sc x v = Inr u" "foldE (select_step c hint cursor sc) xs u = Inr w"
    by (auto split: sum.splits)
  from Cons.IH [OF u(2) select_step_chosen [OF Cons.prems(2) u(1)]] show ?case by simp
qed simp

lemma select_defined:
  assumes "\<forall>x \<in> set xs. host_id x < host_count c"
  shows "\<exists>w. foldE (select_step c hint cursor sc) xs v = Inr w"
  using assms by (induction xs arbitrary: v) (auto simp: select_step_def Let_def)

text \<open>The result of a selection that comes to the loop.\<close>

lemma SelectHost_loop:
  assumes "SelectHost c query now hint load_view advance (s, m) = (Inr h, s', m')"
  obtains weights v where "add_entries (host_count c) query (placement_entries c hint) ((\<lambda>_. 0, 0), m) = (None, weights, m')"
    "any_eligible v" "h = best v" "chosen c hint (rr_cursor s) (score c s now weights) load_view v"
    "s' = (if advance \<and> \<not> has_explicit_host hint \<and> placement_policy c = kRoundRobin
           then s\<lparr>rr_cursor := (ucast h + 1) mod ucast (host_count c)\<rparr> else s)"
proof -
  let ?v0 = "\<lparr>best = host_id (hd load_view), min_score = None, best_distance = UINT64_MAX, any_eligible = False\<rparr>"
  obtain r weights m1 where a: "add_entries (host_count c) query (placement_entries c hint) ((\<lambda>_. 0, 0), m) = (r, weights, m1)"
    by (metis prod_cases3)
  with assms have r: "r = None" by (auto simp: SelectHost_def split: if_splits option.splits)
  from assms a r obtain v where v: "foldE (select_step c hint (rr_cursor s) (score c s now weights)) load_view ?v0 = Inr v"
    "any_eligible v" "h = best v" "m1 = m'"
    "s' = (if advance \<and> \<not> has_explicit_host hint \<and> placement_policy c = kRoundRobin
           then s\<lparr>rr_cursor := (ucast h + 1) mod ucast (host_count c)\<rparr> else s)"
    by (auto simp: SelectHost_def split: if_splits sum.splits)
  have "chosen c hint (rr_cursor s) (score c s now weights) [] ?v0" by (simp add: chosen_def)
  from select_chosen [OF v(1) this] a r v that show thesis by simp
qed

lemma SelectHost_run:
  assumes "placement_policy c = kMemoryAware \<or> placement_policy c = kRoundRobin \<or> placement_policy c = kLeastLoaded"
    and "has_explicit_host hint \<longrightarrow> explicit_host hint < host_count c" and "load_view \<noteq> []"
    and "\<forall>x \<in> set load_view. host_id x < host_count c" and "length (placement_entries c hint) \<le> 256"
    and "add_entries (host_count c) query (placement_entries c hint) ((\<lambda>_. 0, 0), m) = (None, weights, m')"
  obtains v where "chosen c hint (rr_cursor s) (score c s now weights) load_view v"
    "SelectHost c query now hint load_view advance (s, m) =
       (if any_eligible v then (Inr (best v),
          if advance \<and> \<not> has_explicit_host hint \<and> placement_policy c = kRoundRobin
          then s\<lparr>rr_cursor := (ucast (best v) + 1) mod ucast (host_count c)\<rparr> else s, m')
        else (Inl kUnavailable, s, m'))"
proof -
  let ?v0 = "\<lparr>best = host_id (hd load_view), min_score = None, best_distance = UINT64_MAX, any_eligible = False\<rparr>"
  have ch0: "chosen c hint (rr_cursor s) (score c s now weights) [] ?v0" by (simp add: chosen_def)
  obtain v where v: "foldE (select_step c hint (rr_cursor s) (score c s now weights)) load_view ?v0 = Inr v"
    using select_defined [OF assms(4)] by blast
  have "chosen c hint (rr_cursor s) (score c s now weights) load_view v" using select_chosen [OF v ch0] by simp
  then show thesis
    by (rule that) (use assms v in \<open>auto simp: SelectHost_def linorder_not_le\<close>)
qed

section \<open>Properties of the selection\<close>

text \<open>
  C35.  Placement picks the right host.  For a valid policy and hint, samples of configured hosts, and a working
  set whose localities could be read, a selection returns a sampled host that is below its limits (the explicit
  host, if the hint names one) and whose score, or under the round-robin policy whose distance from the cursor, is
  least among all hosts that are below their limits; the cursor moves past the host only under round robin.  It is
  refused with Unavailable exactly when every admissible host is at capacity, and then nothing changes.
\<close>

theorem SelectHost_correct:
  assumes "placement_policy c = kMemoryAware \<or> placement_policy c = kRoundRobin \<or> placement_policy c = kLeastLoaded"
    and "has_explicit_host hint \<longrightarrow> explicit_host hint < host_count c" and "load_view \<noteq> []"
    and "\<forall>x \<in> set load_view. host_id x < host_count c" and "length (placement_entries c hint) \<le> 256"
    and "add_entries (host_count c) query (placement_entries c hint) ((\<lambda>_. 0, 0), m) = (None, weights, m')"
  shows "if \<exists>x \<in> set load_view. eligible c hint x
    then \<exists>x \<in> set load_view. eligible c hint x \<and> host_id x < host_count c \<and>
      (has_explicit_host hint \<longrightarrow> host_id x = explicit_host hint) \<and>
      (\<forall>y \<in> set load_view. eligible c hint y \<longrightarrow>
         (if placement_policy c = kRoundRobin then distance c (rr_cursor s) x \<le> distance c (rr_cursor s) y
          else score c s now weights x \<le> score c s now weights y)) \<and>
      SelectHost c query now hint load_view advance (s, m) = (Inr (host_id x),
        if advance \<and> \<not> has_explicit_host hint \<and> placement_policy c = kRoundRobin
        then s\<lparr>rr_cursor := (ucast (host_id x) + 1) mod ucast (host_count c)\<rparr> else s, m')
    else SelectHost c query now hint load_view advance (s, m) = (Inl kUnavailable, s, m')"
proof -
  obtain v where v: "chosen c hint (rr_cursor s) (score c s now weights) load_view v"
    and r: "SelectHost c query now hint load_view advance (s, m) =
       (if any_eligible v then (Inr (best v),
          if advance \<and> \<not> has_explicit_host hint \<and> placement_policy c = kRoundRobin
          then s\<lparr>rr_cursor := (ucast (best v) + 1) mod ucast (host_count c)\<rparr> else s, m')
        else (Inl kUnavailable, s, m'))"
    by (rule SelectHost_run [OF assms])
  show ?thesis
  proof (cases "any_eligible v")
    case True
    with v obtain x where x: "x \<in> set load_view" "eligible c hint x" "host_id x < host_count c" "best v = host_id x"
      "\<forall>y \<in> set load_view. eligible c hint y \<longrightarrow> better c (rr_cursor s) (score c s now weights) x y"
      by (auto simp: chosen_def)
    then have "has_explicit_host hint \<longrightarrow> host_id x = explicit_host hint" by (auto simp: eligible_def)
    with x True r show ?thesis by (auto simp: better_def)
  next
    case False
    with v r show ?thesis by (auto simp: chosen_def)
  qed
qed

section \<open>Round robin\<close>

lemma distance_value:
  assumes "host_id x < host_count c"
  shows "unat (distance c cursor x) =
    (unat (host_id x) + unat (host_count c) - unat cursor mod unat (host_count c)) mod unat (host_count c)"
proof -
  let ?n = "ucast (host_count c) :: u64" and ?h = "ucast (host_id x) :: u64"
  have n: "0 < unat (host_count c)" using assms by (auto simp: word_less_nat_alt)
  have m: "unat (cursor mod ?n) = unat cursor mod unat (host_count c)" by (simp add: unat_mod)
  have s: "unat (?h + ?n) = unat (host_id x) + unat (host_count c)"
    using unat_u16_bound [of "host_id x"] unat_u16_bound [of "host_count c"] by (subst unat_add_no_wrap) simp_all
  have "cursor mod ?n \<le> ?h + ?n"
    using n by (simp add: word_le_nat_alt m s trans_le_add2 less_imp_le)
  then have "unat (?h + ?n - cursor mod ?n) = unat (host_id x) + unat (host_count c) - unat cursor mod unat (host_count c)"
    by (simp add: unat_sub_no_wrap m s)
  then show ?thesis by (simp add: distance_def unat_mod)
qed

lemma distance_zero:
  assumes "host_id x < host_count c"
  shows "distance c cursor x = 0 \<longleftrightarrow> unat (host_id x) = unat cursor mod unat (host_count c)"
proof -
  let ?h = "unat (host_id x)" and ?n = "unat (host_count c)" and ?k = "unat cursor mod unat (host_count c)"
  have h: "?h < ?n" using assms by (simp add: word_less_nat_alt)
  then have k: "?k < ?n" by simp
  have "(?h + ?n - ?k) mod ?n = 0 \<longleftrightarrow> ?h = ?k"
  proof (cases "?k \<le> ?h")
    case True
    then have "?h + ?n - ?k = (?h - ?k) + ?n" by simp
    moreover have "(?h - ?k) mod ?n = ?h - ?k" using h by simp
    ultimately show ?thesis using True by (metis mod_add_self2 diff_is_0_eq le_antisym order_refl)
  next
    case False
    then have "?h + ?n - ?k < ?n" "0 < ?h + ?n - ?k" using k by linarith+
    then show ?thesis using False by simp
  qed
  then show ?thesis using distance_value [OF assms, of cursor] by (metis unat_eq_zero)
qed

text \<open>Selections one after the other, each with the load samples of its moment.\<close>

fun select_many :: "SchedulerConfig \<Rightarrow> (WorkingSetEntry \<Rightarrow> 'm \<Rightarrow> BlockLocality list Result \<times> 'm) option \<Rightarrow> ThreadPlacementHint \<Rightarrow>
    (u64 \<times> HostLoadSnapshot list) list \<Rightarrow> PlacementScheduler \<times> 'm \<Rightarrow> HostId Result list" where
  "select_many c query hint [] sm = []"
| "select_many c query hint ((now, load_view) # vs) sm =
     (case SelectHost c query now hint load_view True sm of (r, sm1) \<Rightarrow> r # select_many c query hint vs sm1)"

definition open_view :: "SchedulerConfig \<Rightarrow> ThreadPlacementHint \<Rightarrow> HostLoadSnapshot list \<Rightarrow> bool" where
  "open_view c hint load_view \<longleftrightarrow>
     (\<forall>h < host_count c. \<exists>x \<in> set load_view. host_id x = h) \<and> (\<forall>x \<in> set load_view. host_id x < host_count c \<and> eligible c hint x)"

lemma round_robin_step:
  assumes "placement_policy c = kRoundRobin" and "\<not> has_explicit_host hint" and "open_view c hint load_view" and "host_count c \<noteq> 0"
  shows "\<exists>h. SelectHost c query now hint load_view True (s, m) =
      (Inr h, s\<lparr>rr_cursor := (ucast h + 1) mod ucast (host_count c)\<rparr>, m) \<and>
    unat h = unat (rr_cursor s) mod unat (host_count c)"
proof -
  let ?n = "unat (host_count c)"
  have n: "0 < ?n" using assms(4) by (simp add: unat_gt_0)
  define h0 :: HostId where "h0 = of_nat (unat (rr_cursor s) mod ?n)"
  have h0: "unat h0 = unat (rr_cursor s) mod ?n" using n by (simp add: h0_def unat_of_nat_u16 [of _ "host_count c"] less_imp_le)
  then have "h0 < host_count c" using n by (simp add: word_less_nat_alt)
  with assms(3) obtain z where z: "z \<in> set load_view" "host_id z = h0" "eligible c hint z" "host_id z < host_count c"
    by (fastforce simp: open_view_def)
  have e: "placement_entries c hint = []" using assms(1) by (simp add: placement_entries_def kRoundRobin_def kMemoryAware_def)
  have ne: "load_view \<noteq> []" and rng: "\<forall>x \<in> set load_view. host_id x < host_count c"
    using z(1) assms(3) by (auto simp: open_view_def)
  obtain v where v: "chosen c hint (rr_cursor s) (score c s now (\<lambda>_. 0, 0)) load_view v"
    and r: "SelectHost c query now hint load_view True (s, m) =
       (if any_eligible v then (Inr (best v),
          if True \<and> \<not> has_explicit_host hint \<and> placement_policy c = kRoundRobin
          then s\<lparr>rr_cursor := (ucast (best v) + 1) mod ucast (host_count c)\<rparr> else s, m)
        else (Inl kUnavailable, s, m))"
    by (rule SelectHost_run [of c hint load_view query m "(\<lambda>_. 0, 0)" m s now True]) (use assms e ne rng in simp_all)
  have el: "any_eligible v" using v z(1,3) by (auto simp: chosen_def split: if_splits)
  with v obtain x where x: "eligible c hint x" "host_id x < host_count c" "best v = host_id x" "better c (rr_cursor s) (score c s now (\<lambda>_. 0, 0)) x z"
    using z by (auto simp: chosen_def)
  have "distance c (rr_cursor s) z = 0" using distance_zero [OF z(4)] z(2) h0 by simp
  with x(4) assms(1) have "distance c (rr_cursor s) x = 0" by (simp add: better_def)
  then have "unat (host_id x) = unat (rr_cursor s) mod ?n" using distance_zero [OF x(2)] by simp
  with r el x(3) assms(1,2) show ?thesis by simp
qed

lemma select_many_round_robin:
  assumes "placement_policy c = kRoundRobin" and "\<not> has_explicit_host hint" and "host_count c \<noteq> 0"
    and "\<forall>(now, load_view) \<in> set vs. open_view c hint load_view"
  shows "select_many c query hint vs (s, m) = map (\<lambda>k. Inr (of_nat ((unat (rr_cursor s) + k) mod unat (host_count c)))) [0..<length vs]"
  using assms(4)
proof (induction vs arbitrary: s)
  case (Cons v vs)
  let ?n = "unat (host_count c)"
  have n: "0 < ?n" using assms(3) by (simp add: unat_gt_0)
  obtain now load_view where v: "v = (now, load_view)" by force
  with Cons.prems obtain h where h: "SelectHost c query now hint load_view True (s, m) =
      (Inr h, s\<lparr>rr_cursor := (ucast h + 1) mod ucast (host_count c)\<rparr>, m)" "unat h = unat (rr_cursor s) mod ?n"
    using round_robin_step [OF assms(1,2) _ assms(3)] by force
  let ?s = "s\<lparr>rr_cursor := (ucast h + 1) mod ucast (host_count c)\<rparr>"
  have "unat (ucast h + 1 :: u64) = unat h + 1"
    using unat_u16_bound [of h] by (subst unat_add_no_wrap) simp_all
  then have "unat (rr_cursor ?s) = (unat h + 1) mod ?n" by (simp add: unat_mod)
  then have "(unat (rr_cursor ?s) + k) mod ?n = (unat (rr_cursor s) + Suc k) mod ?n" for k
    by (simp add: h(2) mod_simps)
  then have rest: "select_many c query hint vs (?s, m) = map (\<lambda>k. Inr (of_nat ((unat (rr_cursor s) + Suc k) mod ?n))) [0..<length vs]"
    using Cons by simp
  have "h = of_nat (unat (rr_cursor s) mod ?n)" by (simp add: h(2) [symmetric])
  with v h(1) rest show ?case by (simp add: upt_rec [of 0] map_Suc_upt [symmetric] comp_def del: upt_Suc)
qed simp

text \<open>
  C36.  Round robin is fair.  While every configured host has a sample below its limits, consecutive selections
  without an explicit host go round all hosts: as many selections as there are hosts place one thread on each.
\<close>

theorem round_robin_fair:
  assumes "placement_policy c = kRoundRobin" and "\<not> has_explicit_host hint" and "host_count c \<noteq> 0"
    and "\<forall>(now, load_view) \<in> set vs. open_view c hint load_view" and "length vs = unat (host_count c)"
  shows "distinct (select_many c query hint vs (s, m)) \<and> set (select_many c query hint vs (s, m)) = Inr ` {h. h < host_count c}"
proof -
  let ?n = "unat (host_count c)" and ?r = "unat (rr_cursor s)"
  let ?f = "\<lambda>k. (?r + k) mod ?n"
  have n: "0 < ?n" using assms(3) by (simp add: unat_gt_0)
  have le: "i = j" if "i \<le> j" "j < ?n" "?f i = ?f j" for i j
  proof -
    have "?n dvd (?r + j) - (?r + i)" using that mod_eq_dvd_iff_nat [of "?r + i" "?r + j" ?n] by simp
    then have "?n dvd j - i" by simp
    with that(1,2) show ?thesis by (auto dest: dvd_imp_le)
  qed
  then have inj: "inj_on ?f {0..<?n}" by (intro inj_onI) (metis atLeastLessThan_iff nat_le_linear)
  have img: "?f ` {0..<?n} = {0..<?n}"
    using n inj by (intro endo_inj_surj) auto
  have w: "inj_on (of_nat :: nat \<Rightarrow> HostId) {0..<?n}"
    by (rule inj_onI) (metis atLeastLessThan_iff less_imp_le unat_of_nat_u16)
  then have w': "inj_on (of_nat :: nat \<Rightarrow> HostId) (?f ` {0..<?n})" unfolding img .
  have "set (hosts_below (host_count c)) = of_nat ` {0..<?n}" by (simp add: hosts_below_def)
  then have hosts: "of_nat ` {0..<?n} = {h. h < host_count c}" by auto
  have e: "select_many c query hint vs (s, m) = map (\<lambda>k. Inr (of_nat (?f k))) [0..<?n]"
    using select_many_round_robin [OF assms(1-4)] assms(5) by simp
  have "inj_on (\<lambda>k. Inr (of_nat (?f k)) :: HostId Result) {0..<?n}"
    using comp_inj_on [OF comp_inj_on [OF inj w'], of Inr] by (simp add: comp_def)
  moreover have "(\<lambda>k. Inr (of_nat (?f k)) :: HostId Result) ` {0..<?n} = Inr ` of_nat ` ?f ` {0..<?n}"
    by (simp add: image_image)
  ultimately show ?thesis by (simp add: e distinct_map img hosts del: upt_Suc)
qed

section \<open>Locality of a range\<close>

lemma try_sample_quiet:
  "try_sample k obs r = Some b \<Longrightarrow> \<exists>r' < r + k. obs r' = (b, writeback_epoch b) \<and> writeback_epoch b AND 1 = 0"
proof (induction k arbitrary: r)
  case (Suc k)
  obtain b0 e where o: "obs r = (b0, e)" by force
  show ?case
  proof (cases "try_sample k obs (Suc r) = Some b")
    case True
    from Suc.IH [OF this] show ?thesis by simp
  next
    case False
    with Suc.prems o have "b0 = b" "writeback_epoch b AND 1 = 0" "e = writeback_epoch b" by (auto split: if_splits)
    with o show ?thesis by (intro exI [of _ r]) simp
  qed
qed simp

lemma query_blocks_samples:
  assumes "query_blocks A hosts obs object mk is M = (Inr ls, M')"
  shows "list_all2 (\<lambda>i l. \<exists>r < 32. \<exists>b. obs i r = (b, writeback_epoch b) \<and> writeback_epoch b AND 1 = 0 \<and> l = mk i b) is ls"
  using assms
proof (induction "is" arbitrary: ls M)
  case (Cons i "is")
  from Cons.prems obtain b M1 ls1 where b: "try_sample 32 (obs i) 0 = Some b"
    and rest: "query_blocks A hosts obs object mk is M1 = (Inr ls1, M')" "ls = mk i b # ls1"
    by (auto split: prod.splits sum.splits option.splits)
  from try_sample_quiet [OF b] Cons.IH [OF rest(1)] rest(2) show ?case by fastforce
qed simp

lemma span_sum:
  assumes "0 < g" and "a \<le> k" and "a = start div g"
  shows "(\<Sum>i \<leftarrow> [a..<k]. min e ((i + 1) * g) - max start (i * g)) = min e (k * g) - (start :: nat)"
  using assms(2)
proof (induction k rule: dec_induct)
  case base
  have "a * g \<le> start" using assms(3) by simp
  then show ?case by simp
next
  case (step k)
  show ?case
  proof (cases "k = a")
    case True
    then have "k * g \<le> start" using assms(3) by simp
    then show ?thesis using step True by (simp add: max_def min_def)
  next
    case False
    then have "start div g < k" using step assms(3) by simp
    then have "start < k * g" using assms(1) by (simp add: div_less_iff_less_mult)
    then show ?thesis using step by (auto simp: max_def min_def)
  qed
qed

lemma span_sum_all:
  assumes "0 < g" and "start < (e :: nat)"
  shows "(\<Sum>i \<leftarrow> [start div g..<Suc ((e - 1) div g)]. min e ((i + 1) * g) - max start (i * g)) = e - start"
proof -
  have "start div g \<le> Suc ((e - 1) div g)" using assms(2) by (simp add: div_le_mono le_SucI)
  moreover have "e - 1 < Suc ((e - 1) div g) * g" using assms(1) dividend_less_div_times [of g "e - 1"] by (simp add: add.commute)
  then have "e \<le> Suc ((e - 1) div g) * g" by simp
  ultimately show ?thesis using span_sum [OF assms(1) _ refl, of start "Suc ((e - 1) div g)" e] by (simp add: min_def del: upt_Suc)
qed

lemma block_sample_bytes:
  assumes "i \<le> (unat offset + unat bytes - 1) div unat granule" and "bytes \<noteq> 0" and "granule \<noteq> 0"
    and "unat offset + unat bytes + unat granule \<le> 2 ^ 64" and "unat offset div unat granule \<le> i"
  shows "unat (bl_bytes (block_sample hosts offset bytes granule (of_nat i) b)) =
    min (unat offset + unat bytes) ((i + 1) * unat granule) - max (unat offset) (i * unat granule)"
proof -
  let ?o = "unat offset" and ?n = "unat bytes" and ?g = "unat granule"
  have pos: "0 < ?n" "0 < ?g" using assms(2,3) by (simp_all add: unat_gt_0)
  have "i * ?g \<le> ?o + ?n - 1" using assms(1) pos(2) by (metis less_eq_div_iff_mult_less_eq)
  then have ub: "(i + 1) * ?g < 2 ^ 64" "i * ?g < ?o + ?n" using pos assms(4) by simp_all
  have "(i + 1) * 1 \<le> (i + 1) * ?g" using pos(2) by (intro mult_le_mono2) simp
  with ub(1) have i64: "i < 2 ^ 64" "i + 1 < 2 ^ 64" by simp_all
  have i: "unat (of_nat i :: u64) = i" using i64 by (simp add: unat_of_nat)
  have i1: "unat (of_nat i + 1 :: u64) = i + 1" using i64 i by (subst unat_add_no_wrap) simp_all
  have e: "unat (offset + bytes) = ?o + ?n" using assms(4) pos by (subst unat_add_no_wrap) simp_all
  have hi: "unat ((of_nat i + 1) * granule) = (i + 1) * ?g" using ub(1) i1 by (simp add: unat_word_ariths)
  have lo: "unat (of_nat i * granule) = i * ?g" using ub i by (simp add: unat_word_ariths)
  have mx: "unat (max offset (of_nat i * granule)) = max ?o (i * ?g)"
    using lo by (auto simp: max_def word_le_nat_alt)
  have mn: "unat (min (offset + bytes) ((of_nat i + 1) * granule)) = min (?o + ?n) ((i + 1) * ?g)"
    using hi e by (auto simp: min_def word_le_nat_alt)
  have "?o div ?g < i + 1" using assms(5) by simp
  then have "?o < (i + 1) * ?g" using pos(2) by (simp only: div_less_iff_less_mult)
  then have "max offset (of_nat i * granule) \<le> min (offset + bytes) ((of_nat i + 1) * granule)"
    using ub(2) pos by (simp add: word_le_nat_alt mx mn)
  then show ?thesis by (simp add: block_sample_def unat_sub_no_wrap mx mn)
qed

text \<open>
  A locality query accounts for every byte of the range once.  The samples of a query that succeeds are one
  per coherence block of the range, their byte counts add up to the bytes asked for (the rest of the object when
  none were named), and each sample was read while no writeback of the block was under way: its epoch was even and
  had not moved when it was read again.
\<close>

theorem QueryLocality_accounts:
  fixes entry M
  defines "d \<equiv> descriptors M (gp_offset (we_object entry))"
  assumes "QueryLocality A hosts up obs entry M = (Inr ls, M')" and "object_ok (gp_offset (we_object entry)) d"
    and "unat (ad_bytes d) + unat (ad_coherence_block_bytes d) \<le> 2 ^ 64"
  shows "(\<Sum>l \<leftarrow> ls. unat (bl_bytes l)) =
      (if we_bytes entry = 0 then unat (ad_bytes d) - unat (we_offset entry) else unat (we_bytes entry)) \<and>
    (\<forall>l \<in> set ls. \<exists>i. \<exists>r < 32. \<exists>b. obs i r = (b, writeback_epoch b) \<and> writeback_epoch b AND 1 = 0 \<and>
       bl_version l = cb_version b \<and> bl_token_owner l = ucast (token_owner b) \<and> bl_current_replica_hosts l = replica_mask hosts b)"
proof -
  let ?off = "gp_offset (we_object entry)" and ?o = "we_offset entry" and ?g = "ad_coherence_block_bytes d"
  define n where "n = (if we_bytes entry \<noteq> 0 then we_bytes entry else ad_bytes d - ?o)"
  obtain M1 where acq: "AcquireReference A M (we_object entry) (local_host A) False = (Inr ?off, M1)"
    and d: "descriptors M1 ?off = d\<lparr>ad_active_operations := (ad_active_operations d)(local_host A := ad_active_operations d (local_host A) + 1)\<rparr>"
    by (rule AcquireReference_cases [of A M "we_object entry" "local_host A" False])
      (use assms(2) in \<open>auto simp: QueryLocality_def d_def set_descriptor_def split: if_splits\<close>)
  let ?is = "block_range (?o div ?g) ((?o + n - 1) div ?g)"
  from assms(2) acq d have in_range: "\<not> ad_bytes d \<le> ?o" "\<not> ad_bytes d - ?o < we_bytes entry"
    and q: "\<exists>M2. query_blocks A hosts obs (we_object entry) (block_sample hosts ?o n ?g) ?is M1 = (Inr ls, M2)"
    by (auto simp: QueryLocality_def n_def Let_def split: if_splits prod.splits)
  from q have samples: "list_all2 (\<lambda>i l. \<exists>r < 32. \<exists>b. obs i r = (b, writeback_epoch b) \<and> writeback_epoch b AND 1 = 0 \<and>
      l = block_sample hosts ?o n ?g i b) ?is ls" using query_blocks_samples by blast
  have g: "?g \<noteq> 0" using assms(3) unat_gt_0 [of "ad_bytes d"] by (auto simp: object_ok_def)
  have sub: "unat (ad_bytes d - ?o) = unat (ad_bytes d) - unat ?o" using in_range(1) by (simp add: unat_sub_no_wrap)
  then have n0: "n \<noteq> 0" using in_range(1) by (auto simp: n_def)
  have "unat n \<le> unat (ad_bytes d - ?o)" using in_range(2) by (auto simp: n_def word_le_nat_alt [symmetric] linorder_not_less)
  then have ub: "unat ?o + unat n \<le> unat (ad_bytes d)" using in_range(1) sub by (simp add: word_le_nat_alt)
  with assms(4) have fits: "unat ?o + unat n + unat ?g \<le> 2 ^ 64" by simp
  have pos: "0 < unat n" "0 < unat ?g" using n0 g by (simp_all add: unat_gt_0)
  have e: "unat (?o + n) = unat ?o + unat n" using fits pos by (subst unat_add_no_wrap) simp_all
  have "?o + n \<noteq> 0" using e pos by (metis add_is_0 less_numeral_extra(3) unsigned_0)
  then have last: "unat ((?o + n - 1) div ?g) = (unat ?o + unat n - 1) div unat ?g"
    using e by (simp add: unat_div unat_minus_one)
  let ?f = "\<lambda>i. min (unat ?o + unat n) ((i + 1) * unat ?g) - max (unat ?o) (i * unat ?g)"
  let ?ks = "[unat ?o div unat ?g..<Suc ((unat ?o + unat n - 1) div unat ?g)]"
  have "is": "?is = map of_nat ?ks" by (simp only: block_range_def last) (simp add: unat_div del: upt_Suc)
  have len: "length ls = length ?ks" using samples unfolding "is" by (simp add: list_all2_conv_all_nth del: upt_Suc)
  have "unat (bl_bytes (ls ! j)) = ?f (?ks ! j)" if j: "j < length ?ks" for j
  proof -
    obtain b where "ls ! j = block_sample hosts ?o n ?g (of_nat (?ks ! j)) b"
      using samples j unfolding "is" by (auto simp: list_all2_conv_all_nth simp del: upt_Suc)
    moreover have "?ks ! j \<in> set ?ks" using j by (rule nth_mem)
    ultimately show ?thesis using block_sample_bytes [OF _ n0 g fits, of "?ks ! j"] by (simp add: less_Suc_eq_le del: upt_Suc)
  qed
  then have "map (\<lambda>l. unat (bl_bytes l)) ls = map ?f ?ks" using len by (intro nth_equalityI) (simp_all del: upt_Suc)
  then have "(\<Sum>l \<leftarrow> ls. unat (bl_bytes l)) = unat n"
    using span_sum_all [OF pos(2), of "unat ?o" "unat ?o + unat n"] pos by simp
  moreover have "unat n = (if we_bytes entry = 0 then unat (ad_bytes d) - unat ?o else unat (we_bytes entry))"
    by (simp add: n_def sub)
  moreover have "\<exists>i. \<exists>r < 32. \<exists>b. obs i r = (b, writeback_epoch b) \<and> writeback_epoch b AND 1 = 0 \<and>
       bl_version l = cb_version b \<and> bl_token_owner l = ucast (token_owner b) \<and> bl_current_replica_hosts l = replica_mask hosts b"
    if "l \<in> set ls" for l
    using samples that by (force simp: list_all2_conv_all_nth in_set_conv_nth block_sample_def)
  ultimately show ?thesis by simp
qed

section \<open>Concrete inputs\<close>

definition local_entry :: WorkingSetEntry where
  "local_entry = \<lparr>we_object = local_gptr, we_offset = 32, we_bytes = 0, we_access = AccessRead, we_weight = Some 1\<rparr>"

abbreviation local_obs :: "u64 \<Rightarrow> nat \<Rightarrow> CoherenceBlockDescriptor \<times> u64" where
  "local_obs \<equiv> \<lambda>i r. (fresh_block 0, 0)"

lemma local_query: "\<exists>M'. QueryLocality local_allocator 2 True local_obs local_entry local_memory =
    (Inr [block_sample 2 32 96 64 0 (fresh_block 0), block_sample 2 32 96 64 1 (fresh_block 0)], M')"
proof -
  have d: "ad_bytes (descriptors local_pinned 0x1280) = 128" "ad_coherence_block_bytes (descriptors local_pinned 0x1280) = 64"
    by (simp_all add: local_pinned_def local_memory_def set_descriptor_def)
  have t: "try_sample 32 (\<lambda>r. (fresh_block 0, 0)) 0 = Some (fresh_block 0)"
    by (simp add: numeral_eq_Suc fresh_block_def)
  have b: "block_range 0 1 = [0, 1]" by (simp add: block_range_def)
  have h: "local_host local_allocator = 0" by (simp add: local_allocator_def)
  show ?thesis
    unfolding QueryLocality_def local_entry_def h WorkingSetEntry.simps local_pin prod.case sum.case Let_def d
    by (simp add: b local_block t)
qed

theorem QueryLocality_accounts_witness:
  "\<exists>ls M'. QueryLocality local_allocator 2 True local_obs local_entry local_memory = (Inr ls, M') \<and>
     (\<Sum>l \<leftarrow> ls. unat (bl_bytes l)) = 96"
proof -
  obtain ls M' where q: "QueryLocality local_allocator 2 True local_obs local_entry local_memory = (Inr ls, M')"
    using local_query by blast
  have d: "unat (ad_bytes (descriptors local_memory 0x1280)) = 128" "unat (ad_coherence_block_bytes (descriptors local_memory 0x1280)) = 64"
    by (simp_all add: local_memory_def)
  have e: "gp_offset (we_object local_entry) = 0x1280" "we_bytes local_entry = 0" "we_offset local_entry = 32"
    by (simp_all add: local_entry_def)
  show ?thesis
    using QueryLocality_accounts [OF q] q local_object_ok by (auto simp: e d)
qed

text \<open>Two hosts, one busy and one idle; and a round over three hosts.\<close>

definition load_of :: "HostId \<Rightarrow> u32 \<Rightarrow> HostLoadSnapshot" where
  "load_of h n = \<lparr>host_id = h, running_threads = n, pending_creates = 0, queued_messages = 0, sample_sequence = 0, sampled_at_ns = 0,
     execution = \<lparr>executing = n, ready = 0, blocked = 0, workers = 1\<rparr>\<rparr>"

definition placement_config :: "u32 \<Rightarrow> u16 \<Rightarrow> SchedulerConfig" where
  "placement_config policy hosts = \<lparr>local_host_id = 0, host_count = hosts, shared_region_bytes = 1, coherence_granule_bytes = 64,
     queue_capacity_entries = 0, replica_cache_capacity_entries = 1, replica_cache_capacity_bytes = 1, shared_region_path = ''/dev/dax0.0'',
     bootstrap_owner = False, create_region_file = False, bootstrap_timeout_ms = 1, placement_policy = policy,
     max_running_threads_per_host = 8, max_pending_creates_per_host = 0, scheduler_load_half_life_ms = 250,
     scheduler_queue_weight = 1, scheduler_history_weight = 1 / 2, scheduler_remote_locality_penalty = 2\<rparr>"

definition free_hint :: ThreadPlacementHint where
  "free_hint = \<lparr>has_explicit_host = False, explicit_host = 0, has_dominant_gptr = False, dominant_gptr = local_gptr, hint_label = [], working_set = []\<rparr>"

definition new_scheduler :: PlacementScheduler where
  "new_scheduler = \<lparr>rr_cursor = 0, launches = (\<lambda>_. 0), completions = (\<lambda>_. 0)\<rparr>"

theorem SelectHost_correct_witness:
  "SelectHost (placement_config kLeastLoaded 2) None 0 free_hint [load_of 0 3, load_of 1 1] True (new_scheduler, ()) =
     (Inr 1, new_scheduler, ())"
proof -
  let ?c = "placement_config kLeastLoaded 2" and ?v = "[load_of 0 3, load_of 1 1]"
  have p: "placement_policy ?c = kLeastLoaded" "host_count ?c = 2" "kLeastLoaded \<noteq> kRoundRobin" "kLeastLoaded \<noteq> kMemoryAware"
    by (simp_all add: placement_config_def kLeastLoaded_def kRoundRobin_def kMemoryAware_def)
  have e: "placement_entries ?c free_hint = []" by (simp add: placement_entries_def free_hint_def)
  have l: "host_id (load_of h n) = h" for h n by (simp add: load_of_def)
  have fh: "has_explicit_host free_hint = False" by (simp add: free_hint_def)
  have pol: "placement_policy ?c = kMemoryAware \<or> placement_policy ?c = kRoundRobin \<or> placement_policy ?c = kLeastLoaded" by (simp add: p)
  have len: "length (placement_entries ?c free_hint) \<le> 256"
    and add: "add_entries (host_count ?c) None (placement_entries ?c free_hint) ((\<lambda>_. 0, 0), ()) = (None, (\<lambda>_. 0, 0), ())"
    by (simp_all add: e)
  have rg: "\<forall>x \<in> set ?v. host_id x < host_count ?c" by (simp add: l p word_less_nat_alt)
  have el: "\<forall>x \<in> set ?v. eligible ?c free_hint x"
    by (simp add: eligible_def free_hint_def placement_config_def load_of_def word_le_nat_alt)
  have sc: "score ?c new_scheduler 0 (\<lambda>_. 0, 0) (load_of h n) = real (unat n)" for h n
    by (simp add: score_def p(1) load_of_def unseen_launches_def new_scheduler_def)
  have x: "\<exists>x \<in> set ?v. score ?c new_scheduler 0 (\<lambda>_. 0, 0) x \<le> score ?c new_scheduler 0 (\<lambda>_. 0, 0) (load_of 1 1) \<and>
      SelectHost ?c None 0 free_hint ?v True (new_scheduler, ()) = (Inr (host_id x), new_scheduler, ())"
    using SelectHost_correct [OF pol _ _ rg len add, of new_scheduler 0 True] el p(3)
    unfolding fh p(1) by (auto split: if_splits)
  have "load_of 1 1 \<in> set ?v" by simp
  with x show ?thesis by (auto simp: sc l)
qed

theorem round_robin_fair_witness:
  "set (select_many (placement_config kRoundRobin 3) None free_hint
     (replicate 3 (0, [load_of 2 0, load_of 0 0, load_of 1 0])) (new_scheduler, ())) = {Inr 0, Inr 1, Inr 2}"
proof -
  let ?c = "placement_config kRoundRobin 3" and ?v = "[load_of 2 0, load_of 0 0, load_of 1 0]"
  have h: "h = 0 \<or> h = 1 \<or> h = 2" if "h < 3" for h :: HostId
  proof -
    from that have "h \<in> set (hosts_below 3)" by simp
    then show ?thesis by (auto simp: hosts_below_def upt_rec)
  qed
  then have o: "open_view ?c free_hint ?v"
    by (auto simp: open_view_def placement_config_def load_of_def eligible_def free_hint_def)
  have "{h. h < (3 :: HostId)} = {0, 1, 2}" using h by auto
  then show ?thesis
    using round_robin_fair [of ?c free_hint "replicate 3 (0, ?v)" None new_scheduler "()"] o
    by (simp add: placement_config_def free_hint_def)
qed

end
