(* ===== verification/Cx_Replicas.thy ===== *)
theory Cx_Replicas
  imports Cx_Retirement Cx_Visibility "HOL-Library.AList"
begin

text \<open>
  The read cache of a host (\<^verbatim>\<open>src/loommem/runtime.cpp\<close>, \<^verbatim>\<open>EraseReplicaLocked\<close> to \<^verbatim>\<open>CacheReplicaLocked\<close>
  and \<^verbatim>\<open>SynchronizeAcquire\<close>): immutable copies of coherence blocks in two indices, those of the current
  synchronisation interval and the older ones, which have to be validated before they are used again.

  The two hash maps are association lists; the order of a list stands for the unspecified order of iteration.
  A step that would follow an iterator past the end of a map has no result (\<open>None\<close>); the theorems show that
  this never happens.  The operations run under \<^verbatim>\<open>replicas_mutex_\<close> and are one step each.
\<close>

section \<open>Data\<close>

record CachedReplica =
  rp_object_offset :: u64
  rp_block_index :: u64
  rp_version :: Version
  rp_storage :: "u8 list"
  rp_last_access :: u64

record CachedObject =
  co_info :: AllocationInfo
  co_descriptor :: u64
  co_blocks :: u64

datatype Generation = Present | Older

record ReplicaCache =
  replicas :: "(u64 \<times> CachedReplica) list"
  old_replicas :: "(u64 \<times> CachedReplica) list"
  cached_objects :: "u64 \<Rightarrow> CachedObject option"
  cached_replica_bytes :: u64
  replica_access_clock :: u64
  cache_mem :: AllocatorMemory

record ReplicaEnv =
  re_allocator :: SharedExtentAllocator
  re_host :: HostId
  re_capacity_entries :: u64
  re_capacity_bytes :: u64
  re_cpu :: Cpu

fun index_of :: "Generation \<Rightarrow> ReplicaCache \<Rightarrow> (u64 \<times> CachedReplica) list" where
  "index_of Present S = replicas S"
| "index_of Older S = old_replicas S"

fun set_index :: "Generation \<Rightarrow> (u64 \<times> CachedReplica) list \<Rightarrow> ReplicaCache \<Rightarrow> ReplicaCache" where
  "set_index Present xs S = S\<lparr>replicas := xs\<rparr>"
| "set_index Older xs S = S\<lparr>old_replicas := xs\<rparr>"

definition empty_cache :: "AllocatorMemory \<Rightarrow> ReplicaCache" where
  "empty_cache M = \<lparr>replicas = [], old_replicas = [], cached_objects = (\<lambda>_. None), cached_replica_bytes = 0,
     replica_access_clock = 0, cache_mem = M\<rparr>"

section \<open>Operations\<close>

text \<open>The advertisement of a replica in the block descriptor: version plus one, or 0 for none.\<close>

definition advertise :: "ReplicaEnv \<Rightarrow> GlobalPointer \<Rightarrow> u64 \<Rightarrow> u64 \<Rightarrow> ReplicaCache \<Rightarrow> ReplicaCache" where
  "advertise e gptr i v S =
     (case MutableCoherenceBlock (re_allocator e) (cache_mem S) gptr i True of
        (Inl st, M) \<Rightarrow> S\<lparr>cache_mem := M\<rparr>
      | (Inr b, M) \<Rightarrow> S\<lparr>cache_mem := M\<lparr>coherence_blocks := (coherence_blocks M)
          (b := (coherence_blocks M b)\<lparr>replica_versions := (replica_versions (coherence_blocks M b))(re_host e := v)\<rparr>)\<rparr>\<rparr>)"

definition set_member :: "ReplicaEnv \<Rightarrow> u64 \<Rightarrow> (u64 \<Rightarrow> u64) \<Rightarrow> ReplicaCache \<Rightarrow> ReplicaCache" where
  "set_member e off f S = S\<lparr>cache_mem := set_descriptor off (\<lambda>d. d\<lparr>ad_replica_hosts := f (ad_replica_hosts d)\<rparr>) (cache_mem S)\<rparr>"

definition EraseReplicaLocked :: "ReplicaEnv \<Rightarrow> Generation \<Rightarrow> u64 \<Rightarrow> ReplicaCache \<Rightarrow> ReplicaCache option" where
  "EraseReplicaLocked e g k S =
     (case map_of (index_of g S) k of
        None \<Rightarrow> None
      | Some r \<Rightarrow>
          (case cached_objects S (rp_object_offset r) of
             None \<Rightarrow> None
           | Some ob \<Rightarrow>
               let S1 = advertise e (ai_gptr (co_info ob)) (rp_block_index r) 0 S;
                   S2 = set_index g (AList.delete k (index_of g S1))
                          (S1\<lparr>cached_replica_bytes := cached_replica_bytes S1 - of_nat (length (rp_storage r))\<rparr>);
                   left = co_blocks ob - 1 in
               Some (if left = 0
                     then (set_member e (co_descriptor ob) (\<lambda>m. m AND NOT (host_bit (re_host e))) S2)
                       \<lparr>cached_objects := (cached_objects S2)(rp_object_offset r := None)\<rparr>
                     else S2\<lparr>cached_objects := (cached_objects S2)(rp_object_offset r := Some (ob\<lparr>co_blocks := left\<rparr>))\<rparr>)))"

text \<open>The loop over one index erases the entries of the object as it comes to them.\<close>

fun invalidate_index :: "ReplicaEnv \<Rightarrow> u64 \<Rightarrow> Generation \<Rightarrow> (u64 \<times> CachedReplica) list \<Rightarrow> ReplicaCache \<Rightarrow> ReplicaCache option" where
  "invalidate_index e off g [] S = Some S"
| "invalidate_index e off g ((k, r) # xs) S =
     (if rp_object_offset r = off
      then (case EraseReplicaLocked e g k S of None \<Rightarrow> None | Some S1 \<Rightarrow> invalidate_index e off g xs S1)
      else invalidate_index e off g xs S)"

definition InvalidateObjectLocked :: "ReplicaEnv \<Rightarrow> u64 \<Rightarrow> ReplicaCache \<Rightarrow> ReplicaCache option" where
  "InvalidateObjectLocked e off S =
     (case invalidate_index e off Present (index_of Present S) S of
        None \<Rightarrow> None
      | Some S1 \<Rightarrow> invalidate_index e off Older (index_of Older S1) S1)"

definition InvalidateReadCache :: "ReplicaEnv \<Rightarrow> bool \<Rightarrow> GlobalPointer \<Rightarrow> ReplicaCache \<Rightarrow> (Status \<times> ReplicaCache) option" where
  "InvalidateReadCache e up object S =
     (if \<not> up then Some (kFailedPrecondition, S)
      else if region_id object \<noteq> 0 then Some (kInvalidArgument, S)
      else map_option (Pair kOk) (InvalidateObjectLocked e (gp_offset object) S))"

text \<open>The search for the least recently used entry, through both indices; the first of several wins.\<close>

definition entries :: "ReplicaCache \<Rightarrow> (u64 \<times> CachedReplica) list" where
  "entries S = replicas S @ old_replicas S"

fun oldest :: "(Generation \<times> u64 \<times> CachedReplica) list \<Rightarrow> (Generation \<times> u64 \<times> CachedReplica) option \<Rightarrow>
    (Generation \<times> u64 \<times> CachedReplica) option" where
  "oldest [] v = v"
| "oldest (c # cs) v =
     oldest cs (case v of None \<Rightarrow> Some c
                | Some w \<Rightarrow> if rp_last_access (snd (snd c)) < rp_last_access (snd (snd w)) then Some c else v)"

definition victim :: "ReplicaCache \<Rightarrow> (Generation \<times> u64 \<times> CachedReplica) option" where
  "victim S = oldest (map (Pair Present) (replicas S) @ map (Pair Older) (old_replicas S)) None"

definition over_capacity :: "ReplicaEnv \<Rightarrow> ReplicaCache \<Rightarrow> bool" where
  "over_capacity e S \<longleftrightarrow> re_capacity_entries e < of_nat (length (replicas S)) + of_nat (length (old_replicas S)) \<or>
     re_capacity_bytes e < cached_replica_bytes S"

lemma map_of_delete_shorter: "map_of xs k = Some r \<Longrightarrow> length (AList.delete k xs) < length xs"
  unfolding AList.delete_eq by (rule length_filter_less [of "(k, r)"]) (auto dest: map_of_SomeD)

lemma index_simps [simp]:
  "index_of g (advertise e gptr i v S) = index_of g S" "index_of g (set_member e off f S) = index_of g S"
  "index_of g (S\<lparr>cached_objects := c\<rparr>) = index_of g S" "index_of g (S\<lparr>cached_replica_bytes := n\<rparr>) = index_of g S"
  "index_of g (set_index g xs S) = xs" "g \<noteq> g' \<Longrightarrow> index_of g (set_index g' xs S) = index_of g S"
  "index_of g (S\<lparr>replica_access_clock := n\<rparr>) = index_of g S"
  by (cases g; cases g'; simp add: advertise_def set_member_def split: prod.splits sum.splits)+

definition entry_count :: "ReplicaCache \<Rightarrow> nat" where
  "entry_count S = length (index_of Present S) + length (index_of Older S)"

lemma EraseReplicaLocked_index:
  assumes "EraseReplicaLocked e g k S = Some S'"
  shows "index_of g S' = AList.delete k (index_of g S)" "g \<noteq> g' \<Longrightarrow> index_of g' S' = index_of g' S"
    "entry_count S' < entry_count S"
proof -
  obtain r where r: "map_of (index_of g S) k = Some r" using assms by (auto simp: EraseReplicaLocked_def split: option.splits)
  show i: "index_of g S' = AList.delete k (index_of g S)" and o: "g \<noteq> g' \<Longrightarrow> index_of g' S' = index_of g' S" for g'
    using assms by (auto simp: EraseReplicaLocked_def Let_def split: option.splits if_splits)
  show "entry_count S' < entry_count S"
    using i o [of Present] o [of Older] map_of_delete_shorter [OF r] by (cases g) (auto simp: entry_count_def)
qed

function EvictReplicasLocked :: "ReplicaEnv \<Rightarrow> ReplicaCache \<Rightarrow> ReplicaCache option" where
  "EvictReplicasLocked e S =
     (if \<not> over_capacity e S then Some S
      else (case victim S of
              None \<Rightarrow> Some S
            | Some (g, k, r) \<Rightarrow>
                (case EraseReplicaLocked e g k S of
                   None \<Rightarrow> None
                 | Some S1 \<Rightarrow> EvictReplicasLocked e S1)))"
  by pat_completeness auto
termination
  by (relation "measure (\<lambda>(e, S). entry_count S)") (auto dest: EraseReplicaLocked_index(3))

declare EvictReplicasLocked.simps [simp del]

text \<open>Removal of the entry of a block from an index, if it is there.\<close>

definition erase_found :: "ReplicaEnv \<Rightarrow> Generation \<Rightarrow> u64 \<Rightarrow> ReplicaCache \<Rightarrow> ReplicaCache option" where
  "erase_found e g k S = (if map_of (index_of g S) k = None then Some S else EraseReplicaLocked e g k S)"

definition erase_both :: "ReplicaEnv \<Rightarrow> u64 \<Rightarrow> ReplicaCache \<Rightarrow> ReplicaCache option" where
  "erase_both e k S = (case erase_found e Present k S of None \<Rightarrow> None | Some S1 \<Rightarrow> erase_found e Older k S1)"

text \<open>The record of the object is made if it is not there, and counts one more block.\<close>

definition count_block :: "ReplicaEnv \<Rightarrow> AllocationInfo \<Rightarrow> u64 \<Rightarrow> ReplicaCache \<Rightarrow> ReplicaCache" where
  "count_block e info descriptor S =
     (let off = gp_offset (ai_gptr info);
          S1 = (case cached_objects S off of
                  None \<Rightarrow> (set_member e descriptor (\<lambda>m. m OR host_bit (re_host e)) S)
                    \<lparr>cached_objects := (cached_objects S)(off := Some \<lparr>co_info = info, co_descriptor = descriptor, co_blocks = 0\<rparr>)\<rparr>
                | Some _ \<Rightarrow> S)
      in S1\<lparr>cached_objects := (cached_objects S1)(off := map_option (co_blocks_update (\<lambda>n. n + 1)) (cached_objects S1 off))\<rparr>)"

definition new_replica :: "AllocationInfo \<Rightarrow> u64 \<Rightarrow> Version \<Rightarrow> u8 list \<Rightarrow> u64 \<Rightarrow> CachedReplica" where
  "new_replica info i version storage clock = \<lparr>rp_object_offset = gp_offset (ai_gptr info), rp_block_index = i, rp_version = version,
     rp_storage = storage, rp_last_access = clock\<rparr>"

definition CacheReplicaLocked :: "ReplicaEnv \<Rightarrow> u64 \<Rightarrow> AllocationInfo \<Rightarrow> u64 \<Rightarrow> u64 \<Rightarrow> Version \<Rightarrow> u8 list \<Rightarrow> ReplicaCache \<Rightarrow>
    ReplicaCache option" where
  "CacheReplicaLocked e k info descriptor block_index version storage S =
     (case erase_both e k (count_block e info descriptor S) of
        None \<Rightarrow> None
      | Some S1 \<Rightarrow>
          let clock = replica_access_clock S1 + 1;
              S2 = S1\<lparr>cached_replica_bytes := cached_replica_bytes S1 + of_nat (length storage), replica_access_clock := clock,
                      replicas := (k, new_replica info block_index version storage clock) # replicas S1\<rparr>
          in EvictReplicasLocked e (advertise e (ai_gptr info) block_index (version + 1) S2))"

text \<open>\<^verbatim>\<open>while (!index.empty()) EraseReplicaLocked(index, index.begin())\<close>\<close>

fun erase_all :: "ReplicaEnv \<Rightarrow> Generation \<Rightarrow> (u64 \<times> CachedReplica) list \<Rightarrow> ReplicaCache \<Rightarrow> ReplicaCache option" where
  "erase_all e g [] S = Some S"
| "erase_all e g ((k, r) # xs) S = (case EraseReplicaLocked e g k S of None \<Rightarrow> None | Some S1 \<Rightarrow> erase_all e g xs S1)"

text \<open>A hit in the current index makes the entry the most recent one.\<close>

definition touch_replica :: "u64 \<Rightarrow> ReplicaCache \<Rightarrow> ReplicaCache" where
  "touch_replica k S =
     (case map_of (replicas S) k of
        None \<Rightarrow> S
      | Some r \<Rightarrow> let clock = replica_access_clock S + 1
                 in S\<lparr>replica_access_clock := clock, replicas := AList.update k (r\<lparr>rp_last_access := clock\<rparr>) (replicas S)\<rparr>)"

definition SynchronizeAcquire :: "ReplicaEnv \<Rightarrow> bool \<Rightarrow> ReplicaCache \<Rightarrow> (Status \<times> ReplicaCache) option" where
  "SynchronizeAcquire e up S =
     (if \<not> up then Some (kFailedPrecondition, S)
      else map_option (\<lambda>S1. (kOk, S1\<lparr>replicas := old_replicas S1, old_replicas := replicas S1\<rparr>))
             (erase_all e Older (old_replicas S) S))"

definition ClearReplicas :: "ReplicaEnv \<Rightarrow> ReplicaCache \<Rightarrow> ReplicaCache option" where
  "ClearReplicas e S =
     (case erase_all e Present (replicas S) S of
        None \<Rightarrow> None
      | Some S1 \<Rightarrow> map_option (\<lambda>S2. S2\<lparr>cached_replica_bytes := 0, replica_access_clock := 0\<rparr>) (erase_all e Older (old_replicas S1) S1))"

definition cached_replica_count :: "ReplicaCache \<Rightarrow> u64" where
  "cached_replica_count S = of_nat (length (replicas S)) + of_nat (length (old_replicas S))"

section \<open>Accounting\<close>

text \<open>
  The books of the cache: no block is cached twice, the byte count is the size of all copies, an object is on
  record exactly while blocks of it are cached, with their number, and exactly then this host is a member of the
  replica set in the descriptor of the object.  While a block is being replaced its object is counted once more;
  \<open>x\<close> holds what is counted on top.
\<close>

definition blocks_of :: "u64 \<Rightarrow> (u64 \<times> CachedReplica) list \<Rightarrow> nat" where
  "blocks_of off xs = length (filter (\<lambda>p. rp_object_offset (snd p) = off) xs)"

definition bytes_of :: "(u64 \<times> CachedReplica) list \<Rightarrow> nat" where
  "bytes_of xs = (\<Sum>p \<leftarrow> xs. length (rp_storage (snd p)))"

definition is_member :: "ReplicaEnv \<Rightarrow> u64 \<Rightarrow> ReplicaCache \<Rightarrow> bool" where
  "is_member e off S \<longleftrightarrow> bit (ad_replica_hosts (descriptors (cache_mem S) off)) (unat (re_host e))"

definition entry_ok :: "ReplicaEnv \<Rightarrow> (u64 \<Rightarrow> nat) \<Rightarrow> ReplicaCache \<Rightarrow> u64 \<Rightarrow> bool" where
  "entry_ok e x S off \<longleftrightarrow> (case cached_objects S off of
        None \<Rightarrow> blocks_of off (entries S) + x off = 0 \<and> \<not> is_member e off S
      | Some ob \<Rightarrow> unat (co_blocks ob) = blocks_of off (entries S) + x off \<and> 0 < unat (co_blocks ob) \<and> co_descriptor ob = off \<and> is_member e off S)"

definition books :: "ReplicaEnv \<Rightarrow> (u64 \<Rightarrow> nat) \<Rightarrow> ReplicaCache \<Rightarrow> bool" where
  "books e x S \<longleftrightarrow> distinct (map fst (entries S)) \<and> unat (cached_replica_bytes S) = bytes_of (entries S) \<and>
     (\<forall>off. entry_ok e x S off)"

lemma entries_eq: "entries S = index_of Present S @ index_of Older S"
  by (simp add: entries_def)

lemma delete_distinct:
  assumes "distinct (map fst xs)" and "map_of xs k = Some r"
  shows "bytes_of xs = bytes_of (AList.delete k xs) + length (rp_storage r)"
    "blocks_of off xs = blocks_of off (AList.delete k xs) + (if rp_object_offset r = off then 1 else 0)"
proof -
  have "mset xs = add_mset (k, r) (mset (AList.delete k xs))"
    using assms
  proof (induction xs)
    case (Cons p xs)
    show ?case
    proof (cases "fst p = k")
      case True
      then have "AList.delete k xs = xs" using Cons.prems(1) by (intro AList.delete_id) auto
      with True Cons.prems(2) show ?thesis by (cases p) auto
    next
      case False
      with Cons show ?thesis by (cases p) auto
    qed
  qed simp
  then have m: "mset xs = mset ((k, r) # AList.delete k xs)" by simp
  have "bytes_of xs = bytes_of ((k, r) # AList.delete k xs)"
    unfolding bytes_of_def by (simp only: sum_mset_sum_list [symmetric] mset_map m)
  then show "bytes_of xs = bytes_of (AList.delete k xs) + length (rp_storage r)" by (simp add: bytes_of_def)
  have "blocks_of off xs = blocks_of off ((k, r) # AList.delete k xs)"
    unfolding blocks_of_def by (simp only: size_mset [symmetric] mset_filter m)
  then show "blocks_of off xs = blocks_of off (AList.delete k xs) + (if rp_object_offset r = off then 1 else 0)"
    by (simp add: blocks_of_def)
qed

lemma delete_entries:
  assumes "distinct (map fst (entries S))" and "map_of (index_of g S) k = Some r"
    and "index_of g S' = AList.delete k (index_of g S)" and "\<And>g'. g \<noteq> g' \<Longrightarrow> index_of g' S' = index_of g' S"
  shows "entries S' = AList.delete k (entries S)" "map_of (entries S) k = Some r"
proof -
  have k: "k \<in> fst ` set (index_of g S)" using assms(2) by (metis domIff dom_map_of_conv_image_fst option.distinct(1))
  have other: "k \<notin> fst ` set (index_of g' S)" if "g \<noteq> g'" for g'
    using assms(1) k that by (cases g; cases g') (auto simp: entries_eq)
  then have no: "AList.delete k (index_of g' S) = index_of g' S" if "g \<noteq> g'" for g'
    using that by (intro AList.delete_id) auto
  have "AList.delete k (xs @ ys) = AList.delete k xs @ AList.delete k ys" for xs ys :: "(u64 \<times> CachedReplica) list"
    by (simp add: AList.delete_eq)
  then show "entries S' = AList.delete k (entries S)"
    using assms(3) assms(4) [of Present] assms(4) [of Older] no [of Present] no [of Older] by (cases g) (simp_all add: entries_eq)
  show "map_of (entries S) k = Some r"
    using assms(2) other [of Present] by (cases g) (auto simp: entries_eq map_add_Some_iff map_of_eq_None_iff)
qed

lemma advertise_frame [simp]:
  "cached_objects (advertise e gptr i v S) = cached_objects S" "cached_replica_bytes (advertise e gptr i v S) = cached_replica_bytes S"
  "replica_access_clock (advertise e gptr i v S) = replica_access_clock S" "entries (advertise e gptr i v S) = entries S"
  "replicas (advertise e gptr i v S) = replicas S" "old_replicas (advertise e gptr i v S) = old_replicas S"
  "descriptors (cache_mem (advertise e gptr i v S)) = descriptors (cache_mem S)"
proof -
  obtain r M where m: "MutableCoherenceBlock (re_allocator e) (cache_mem S) gptr i True = (r, M)" by force
  then have "M = cache_mem S" using read_only(5) [of "re_allocator e" "cache_mem S" gptr i True] by simp
  then show "descriptors (cache_mem (advertise e gptr i v S)) = descriptors (cache_mem S)"
    using m by (auto simp: advertise_def split: sum.splits)
qed (auto simp: advertise_def entries_def split: prod.splits sum.splits)

lemma advertise_member [simp]: "is_member e off (advertise e gptr i v S) = is_member e off S"
  by (simp add: is_member_def)

lemma member_set [simp]:
  assumes "re_host e < 64"
  shows "is_member e off' (set_member e off (\<lambda>m. m AND NOT (host_bit (re_host e))) S) \<longleftrightarrow> off' \<noteq> off \<and> is_member e off' S"
    "is_member e off' (set_member e off (\<lambda>m. m OR host_bit (re_host e)) S) \<longleftrightarrow> off' = off \<or> is_member e off' S"
  using assms by (auto simp: is_member_def set_member_def set_descriptor_def bit_and_iff bit_or_iff bit_not_iff bit_host_bit word_less_nat_alt)

lemma member_frame [simp]:
  "is_member e off (S\<lparr>cached_objects := c\<rparr>) = is_member e off S" "is_member e off (S\<lparr>cached_replica_bytes := n\<rparr>) = is_member e off S"
  "is_member e off (set_index g xs S) = is_member e off S" "is_member e off (S\<lparr>replica_access_clock := n\<rparr>) = is_member e off S"
  "is_member e off (S\<lparr>replicas := xs\<rparr>) = is_member e off S" "is_member e off (S\<lparr>old_replicas := xs\<rparr>) = is_member e off S"
  by (cases g; simp add: is_member_def)+

lemma set_frame [simp]:
  "cached_objects (set_index g xs S) = cached_objects S" "cached_replica_bytes (set_index g xs S) = cached_replica_bytes S"
  "cached_objects (set_member e off f S) = cached_objects S" "cached_replica_bytes (set_member e off f S) = cached_replica_bytes S"
  "replica_access_clock (set_index g xs S) = replica_access_clock S" "replica_access_clock (set_member e off f S) = replica_access_clock S"
  by (cases g; simp add: set_member_def)+

lemma EraseReplicaLocked_books:
  assumes h: "re_host e < 64" and b: "books e x S" and k: "map_of (index_of g S) k = Some r"
  shows "\<exists>S'. EraseReplicaLocked e g k S = Some S' \<and> books e x S' \<and> entries S' = AList.delete k (entries S) \<and>
    replica_access_clock S' = replica_access_clock S"
proof -
  let ?off = "rp_object_offset r" and ?xs = "entries S"
  have d: "distinct (map fst ?xs)" and bytes: "unat (cached_replica_bytes S) = bytes_of ?xs" using b by (simp_all add: books_def)
  have all: "map_of ?xs k = Some r" using delete_entries(2) [OF d k, of "set_index g (AList.delete k (index_of g S)) S"] by simp
  note del = delete_distinct [OF d all]
  obtain ob where ob: "cached_objects S ?off = Some ob" "unat (co_blocks ob) = blocks_of ?off ?xs + x ?off" "0 < unat (co_blocks ob)"
    "co_descriptor ob = ?off" "is_member e ?off S"
    using b del(2) [of ?off] by (auto simp: books_def entry_ok_def dest!: spec [of _ ?off] split: option.splits)
  then obtain S' where S': "EraseReplicaLocked e g k S = Some S'"
    using k by (simp add: EraseReplicaLocked_def Let_def)
  have ents: "entries S' = AList.delete k ?xs"
    by (rule delete_entries(1) [OF d k]) (use EraseReplicaLocked_index [OF S'] in auto)
  have left: "unat (co_blocks ob - 1) = unat (co_blocks ob) - 1" using ob(3) by (simp add: unat_minus_one unat_gt_0)
  have sz: "unat (of_nat (length (rp_storage r)) :: u64) = length (rp_storage r)"
    using del(1) bytes unat_u64_bound [of "cached_replica_bytes S"] by (simp add: unat_of_nat)
  have by': "unat (cached_replica_bytes S') = bytes_of (entries S')"
  proof -
    have "cached_replica_bytes S' = cached_replica_bytes S - of_nat (length (rp_storage r))"
      using S' k ob(1) by (auto simp: EraseReplicaLocked_def Let_def split: if_splits)
    moreover have "of_nat (length (rp_storage r)) \<le> cached_replica_bytes S" using del(1) bytes sz by (simp add: word_le_nat_alt)
    ultimately show ?thesis using del(1) bytes sz ents by (simp add: unat_sub_no_wrap)
  qed
  have objs: "cached_objects S' off = (if off = ?off then if co_blocks ob - 1 = 0 then None else Some (ob\<lparr>co_blocks := co_blocks ob - 1\<rparr>)
      else cached_objects S off)"
    and mem: "is_member e off S' \<longleftrightarrow> is_member e off S \<and> \<not> (off = ?off \<and> co_blocks ob - 1 = 0)"
    and clock: "replica_access_clock S' = replica_access_clock S" for off
    using S' k ob h by (auto simp: EraseReplicaLocked_def Let_def split: if_splits)
  have "entry_ok e x S' off" for off
  proof (cases "off = ?off")
    case True
    then show ?thesis
      using ob left del(2) [of off] ents objs [of off] mem [of off] by (auto simp: entry_ok_def unat_gt_0 unat_eq_zero [symmetric])
  next
    case False
    then have "cached_objects S' off = cached_objects S off" "is_member e off S' = is_member e off S"
      "blocks_of off (entries S') = blocks_of off ?xs" using objs mem del(2) [of off] ents by auto
    moreover from b have "entry_ok e x S off" by (simp add: books_def)
    ultimately show ?thesis by (simp only: entry_ok_def)
  qed
  moreover have "distinct (map fst (entries S'))" using d ents by (simp add: distinct_delete)
  ultimately show ?thesis using S' by' ents clock by (auto simp: books_def)
qed

section \<open>Eviction\<close>

lemma oldest_least:
  "oldest cs v = None \<longleftrightarrow> cs = [] \<and> v = None"
  "oldest cs v = Some w \<Longrightarrow> (w \<in> set cs \<or> v = Some w) \<and>
     (\<forall>c. c \<in> set cs \<or> v = Some c \<longrightarrow> rp_last_access (snd (snd w)) \<le> rp_last_access (snd (snd c)))"
proof -
  show "oldest cs v = None \<longleftrightarrow> cs = [] \<and> v = None"
    by (induction cs arbitrary: v) (auto split: option.splits)
  show "oldest cs v = Some w \<Longrightarrow> (w \<in> set cs \<or> v = Some w) \<and>
     (\<forall>c. c \<in> set cs \<or> v = Some c \<longrightarrow> rp_last_access (snd (snd w)) \<le> rp_last_access (snd (snd c)))"
  proof (induction cs arbitrary: v)
    case (Cons c cs)
    let ?a = "\<lambda>w. rp_last_access (snd (snd w))"
    let ?v = "case v of None \<Rightarrow> Some c | Some w \<Rightarrow> if ?a c < ?a w then Some c else v"
    have ih: "(w \<in> set cs \<or> ?v = Some w) \<and> (\<forall>c. c \<in> set cs \<or> ?v = Some c \<longrightarrow> ?a w \<le> ?a c)"
      by (rule Cons.IH) (use Cons.prems in simp)
    obtain u where u: "?v = Some u"
    proof (cases v)
      case (Some w)
      then show ?thesis by (cases "?a c < ?a w") (auto intro: that)
    qed (auto intro: that)
    have v: "u = c \<or> v = Some u" "?a u \<le> ?a c" "\<And>w. v = Some w \<Longrightarrow> ?a u \<le> ?a w"
      using u by (cases v; auto split: if_splits)+
    from ih u have w: "w \<in> set cs \<or> u = w" and le: "\<And>c. c \<in> set cs \<Longrightarrow> ?a w \<le> ?a c" "?a w \<le> ?a u"
      unfolding u by blast+
    have "w \<in> set (c # cs) \<or> v = Some w" using w v(1) by auto
    moreover have "?a w \<le> ?a c'" if "c' \<in> set (c # cs) \<or> v = Some c'" for c'
    proof -
      from that consider "c' = c" | "c' \<in> set cs" | "v = Some c'" by auto
      then show ?thesis using le v(2,3) order_trans by cases blast+
    qed
    ultimately show ?case by blast
  qed simp
qed

lemma victim_cases:
  assumes "distinct (map fst (entries S))"
  shows "victim S = None \<longleftrightarrow> entries S = []"
    "victim S = Some (g, k, r) \<Longrightarrow> map_of (index_of g S) k = Some r \<and>
       (\<forall>p \<in> set (entries S). rp_last_access r \<le> rp_last_access (snd p))"
proof -
  show "victim S = None \<longleftrightarrow> entries S = []" by (simp add: victim_def oldest_least(1) entries_def)
  assume "victim S = Some (g, k, r)"
  note o = oldest_least(2) [OF this [unfolded victim_def]]
  have m: "(g, k, r) \<in> set (map (Pair Present) (replicas S) @ map (Pair Older) (old_replicas S))"
    and l: "\<And>c. c \<in> set (map (Pair Present) (replicas S) @ map (Pair Older) (old_replicas S)) \<Longrightarrow> rp_last_access r \<le> rp_last_access (snd (snd c))"
    using o [THEN conjunct1] o [THEN conjunct2, rule_format] by simp_all
  from m have "(k, r) \<in> set (index_of g S)" by (cases g) auto
  moreover have "distinct (map fst (index_of g S))" using assms by (cases g) (auto simp: entries_eq)
  moreover have "rp_last_access r \<le> rp_last_access (snd p)" if "p \<in> set (entries S)" for p
    using that l [of "(Present, p)"] l [of "(Older, p)"] by (auto simp: entries_def)
  ultimately show "map_of (index_of g S) k = Some r \<and> (\<forall>p \<in> set (entries S). rp_last_access r \<le> rp_last_access (snd p))"
    by simp
qed

definition within :: "ReplicaEnv \<Rightarrow> ReplicaCache \<Rightarrow> bool" where
  "within e S \<longleftrightarrow> length (entries S) \<le> unat (re_capacity_entries e) \<and> bytes_of (entries S) \<le> unat (re_capacity_bytes e)"

lemma not_over_capacity:
  assumes "books e x S" and "length (entries S) < 2 ^ 64"
  shows "\<not> over_capacity e S \<longleftrightarrow> within e S"
proof -
  have "unat (of_nat (length (replicas S)) + of_nat (length (old_replicas S)) :: u64) = length (entries S)"
    using assms(2) by (simp add: entries_def of_nat_add [symmetric] unat_of_nat del: of_nat_add)
  then show ?thesis using assms(1) by (auto simp: over_capacity_def within_def books_def word_less_nat_alt)
qed

lemma EvictReplicasLocked_books:
  assumes "re_host e < 64" and "books e x S" and "length (entries S) < 2 ^ 64"
  shows "\<exists>S'. EvictReplicasLocked e S = Some S' \<and> books e x S' \<and> within e S' \<and> set (entries S') \<subseteq> set (entries S) \<and>
    (\<forall>p \<in> set (entries S) - set (entries S'). \<forall>q \<in> set (entries S'). rp_last_access (snd p) \<le> rp_last_access (snd q)) \<and>
    (within e S \<longrightarrow> S' = S) \<and> replica_access_clock S' = replica_access_clock S"
  using assms
proof (induction e S rule: EvictReplicasLocked.induct)
  case (1 e S)
  note fits = not_over_capacity [OF "1.prems"(2,3)]
  show ?case
  proof (cases "over_capacity e S")
    case False
    then show ?thesis using "1.prems" fits by (auto simp: EvictReplicasLocked.simps [of e S])
  next
    case over: True
    have d: "distinct (map fst (entries S))" using "1.prems"(2) by (simp add: books_def)
    have "entries S \<noteq> []" using over fits by (auto simp: within_def bytes_of_def)
    then obtain g k r where v: "victim S = Some (g, k, r)" using victim_cases(1) [OF d] by (metis option.exhaust prod_cases3)
    from victim_cases(2) [OF d v] have k: "map_of (index_of g S) k = Some r"
      and least: "\<forall>p \<in> set (entries S). rp_last_access r \<le> rp_last_access (snd p)" by auto
    obtain S1 where S1: "EraseReplicaLocked e g k S = Some S1" "books e x S1" "entries S1 = AList.delete k (entries S)"
      "replica_access_clock S1 = replica_access_clock S"
      using EraseReplicaLocked_books [OF "1.prems"(1,2) k] by blast
    have len: "length (entries S1) < 2 ^ 64" using "1.prems"(3) S1(3) length_delete_le [of k "entries S"] by simp
    from "1.IH" [OF _ v refl refl S1(1) "1.prems"(1) S1(2) len] over
    obtain S2 where S2: "EvictReplicasLocked e S1 = Some S2" "books e x S2" "within e S2" "set (entries S2) \<subseteq> set (entries S1)"
      "\<forall>p \<in> set (entries S1) - set (entries S2). \<forall>q \<in> set (entries S2). rp_last_access (snd p) \<le> rp_last_access (snd q)"
      "replica_access_clock S2 = replica_access_clock S" using S1(4) by auto
    have sub: "set (entries S1) \<subseteq> set (entries S)" by (auto simp: S1(3) AList.delete_eq)
    have gone: "snd p = r" if "p \<in> set (entries S) - set (entries S1)" for p
    proof -
      from that have "fst p = k" "p \<in> set (entries S)" by (auto simp: S1(3) AList.delete_eq)
      moreover have "map_of (entries S) k = Some r"
        using delete_entries(2) [OF d k, of "set_index g (AList.delete k (index_of g S)) S"] by simp
      ultimately show ?thesis using d by (cases p) (auto simp: map_of_eq_Some_iff)
    qed
    have "rp_last_access (snd p) \<le> rp_last_access (snd q)"
      if "p \<in> set (entries S) - set (entries S2)" "q \<in> set (entries S2)" for p q
      using that gone [of p] least S2(4,5) sub by (cases "p \<in> set (entries S1)") auto
    moreover have "EvictReplicasLocked e S = Some S2" using over v S1(1) S2(1) by (simp add: EvictReplicasLocked.simps [of e S])
    ultimately show ?thesis using S2 sub over fits by auto
  qed
qed

section \<open>Every operation keeps the books\<close>

abbreviation no_extra :: "u64 \<Rightarrow> nat" where
  "no_extra \<equiv> \<lambda>_. 0"

definition cache_ok :: "ReplicaEnv \<Rightarrow> ReplicaCache \<Rightarrow> bool" where
  "cache_ok e S \<longleftrightarrow> books e no_extra S \<and> within e S"

lemma within_delete: "within e S \<Longrightarrow> entries S' = AList.delete k (entries S) \<Longrightarrow> within e S'"
proof -
  assume w: "within e S" and d: "entries S' = AList.delete k (entries S)"
  have "bytes_of (AList.delete k xs) \<le> bytes_of xs" for xs
    by (induction xs) (auto simp: bytes_of_def)
  then show ?thesis using w d length_delete_le [of k "entries S"] le_trans by (fastforce simp: within_def)
qed

lemma erase_ok:
  assumes "re_host e < 64" and "cache_ok e S" and "map_of (index_of g S) k = Some r"
  shows "\<exists>S'. EraseReplicaLocked e g k S = Some S' \<and> cache_ok e S' \<and> entries S' = AList.delete k (entries S)"
  using EraseReplicaLocked_books [OF assms(1) _ assms(3), of no_extra] assms(2) within_delete by (fastforce simp: cache_ok_def)

lemma erase_found_books:
  assumes "re_host e < 64" and "books e x S"
  shows "\<exists>S'. erase_found e g k S = Some S' \<and> books e x S' \<and> index_of g S' = AList.delete k (index_of g S) \<and>
    (\<forall>g'. g \<noteq> g' \<longrightarrow> index_of g' S' = index_of g' S) \<and> replica_access_clock S' = replica_access_clock S"
proof (cases "map_of (index_of g S) k")
  case None
  then have "k \<notin> fst ` set (index_of g S)" by (simp add: map_of_eq_None_iff)
  then show ?thesis using None assms(2) by (simp add: erase_found_def)
next
  case (Some r)
  from EraseReplicaLocked_books [OF assms Some] obtain S' where "EraseReplicaLocked e g k S = Some S'" "books e x S'"
    "replica_access_clock S' = replica_access_clock S" by blast
  with EraseReplicaLocked_index(1,2) [OF this(1)] Some show ?thesis by (auto simp: erase_found_def)
qed

lemma erase_both_books:
  assumes "re_host e < 64" and "books e x S"
  shows "\<exists>S'. erase_both e k S = Some S' \<and> books e x S' \<and> entries S' = AList.delete k (entries S) \<and>
    replicas S' = AList.delete k (replicas S) \<and> replica_access_clock S' = replica_access_clock S"
proof -
  from erase_found_books [OF assms, of Present k] obtain S1 where 1: "erase_found e Present k S = Some S1" "books e x S1"
    "replicas S1 = AList.delete k (replicas S)" "\<forall>g'. Present \<noteq> g' \<longrightarrow> index_of g' S1 = index_of g' S" "replica_access_clock S1 = replica_access_clock S"
    by auto
  from erase_found_books [OF assms(1) 1(2), of Older k] obtain S2 where 2: "erase_found e Older k S1 = Some S2" "books e x S2"
    "old_replicas S2 = AList.delete k (old_replicas S1)" "\<forall>g'. Older \<noteq> g' \<longrightarrow> index_of g' S2 = index_of g' S1" "replica_access_clock S2 = replica_access_clock S1"
    by auto
  have "old_replicas S1 = old_replicas S" "replicas S2 = replicas S1"
    using 1(4) [rule_format, of Older] 2(4) [rule_format, of Present] by auto
  then show ?thesis using 1 2 by (simp add: erase_both_def entries_def AList.delete_eq)
qed

lemma erase_both_ok:
  assumes "re_host e < 64" and "cache_ok e S"
  shows "\<exists>S'. erase_both e k S = Some S' \<and> cache_ok e S' \<and> entries S' = AList.delete k (entries S)"
  using erase_both_books [OF assms(1), of no_extra S k] assms(2) within_delete by (fastforce simp: cache_ok_def)

lemma erase_all_ok:
  assumes "re_host e < 64" and "cache_ok e S" and "set xs \<subseteq> set (index_of g S)" and "distinct (map fst xs)"
  shows "\<exists>S'. erase_all e g xs S = Some S' \<and> cache_ok e S' \<and> entries S' = filter (\<lambda>p. fst p \<notin> fst ` set xs) (entries S) \<and>
      index_of g S' = filter (\<lambda>p. fst p \<notin> fst ` set xs) (index_of g S) \<and> (\<forall>g'. g \<noteq> g' \<longrightarrow> index_of g' S' = index_of g' S)"
proof -
  show "\<exists>S'. erase_all e g xs S = Some S' \<and> cache_ok e S' \<and> entries S' = filter (\<lambda>p. fst p \<notin> fst ` set xs) (entries S) \<and>
      index_of g S' = filter (\<lambda>p. fst p \<notin> fst ` set xs) (index_of g S) \<and> (\<forall>g'. g \<noteq> g' \<longrightarrow> index_of g' S' = index_of g' S)"
    using assms(2-4)
  proof (induction xs arbitrary: S)
    case (Cons p xs)
    obtain k r where p: "p = (k, r)" by force
    have "distinct (map fst (index_of g S))" using Cons.prems(1) by (cases g) (auto simp: cache_ok_def books_def entries_eq)
    then have k: "map_of (index_of g S) k = Some r" using Cons.prems(2) p by simp
    from erase_ok [OF assms(1) Cons.prems(1) k] obtain S1 where S1: "EraseReplicaLocked e g k S = Some S1" "cache_ok e S1"
      "entries S1 = AList.delete k (entries S)" by blast
    note i = EraseReplicaLocked_index(1,2) [OF S1(1)]
    have "set xs \<subseteq> set (index_of g S1)" using Cons.prems(2,3) p i(1) by (force simp: AList.delete_eq)
    from Cons.IH [OF S1(2) this] Cons.prems(3) obtain S2 where S2: "erase_all e g xs S1 = Some S2" "cache_ok e S2"
      "entries S2 = filter (\<lambda>p. fst p \<notin> fst ` set xs) (entries S1)"
      "index_of g S2 = filter (\<lambda>p. fst p \<notin> fst ` set xs) (index_of g S1)" "\<forall>g'. g \<noteq> g' \<longrightarrow> index_of g' S2 = index_of g' S1" by auto
    have f: "filter (\<lambda>p. fst p \<notin> fst ` set xs) (AList.delete k ys) = filter (\<lambda>p. fst p \<notin> fst ` set ((k, r) # xs)) ys" for ys
      by (auto simp: AList.delete_eq intro!: filter_cong)
    show ?case using S1 S2 i f p by auto
  qed simp
qed

lemma invalidate_index_eq:
  "invalidate_index e off g xs S = erase_all e g (filter (\<lambda>p. rp_object_offset (snd p) = off) xs) S"
  by (induction e off g xs S rule: invalidate_index.induct) (auto split: option.splits)

lemma index_distinct: "cache_ok e S \<Longrightarrow> distinct (map fst (index_of g S))"
  by (cases g) (auto simp: cache_ok_def books_def entries_eq)

lemma invalidate_index_ok:
  assumes "re_host e < 64" and "cache_ok e S"
  shows "\<exists>S'. invalidate_index e off g (index_of g S) S = Some S' \<and> cache_ok e S' \<and>
    entries S' = filter (\<lambda>p. fst p \<notin> fst ` {q \<in> set (index_of g S). rp_object_offset (snd q) = off}) (entries S) \<and>
    (\<forall>g'. g \<noteq> g' \<longrightarrow> index_of g' S' = index_of g' S)"
  using erase_all_ok [OF assms, of "filter (\<lambda>p. rp_object_offset (snd p) = off) (index_of g S)" g] index_distinct [OF assms(2), of g]
  by (auto simp: invalidate_index_eq distinct_map_filter)

lemma count_once_more:
  assumes "re_host e < 64" and "books e no_extra S" and "length (entries S) + 1 < 2 ^ 64" and "descriptor = gp_offset (ai_gptr info)"
  defines "off \<equiv> gp_offset (ai_gptr info)" and "S2 \<equiv> count_block e info descriptor S"
  shows "books e (no_extra(off := 1)) S2" "entries S2 = entries S" "replica_access_clock S2 = replica_access_clock S"
proof -
  have ents: "entries S2 = entries S" and clock: "replica_access_clock S2 = replica_access_clock S" and byt: "cached_replica_bytes S2 = cached_replica_bytes S"
    by (simp_all add: S2_def count_block_def entries_def set_member_def Let_def split: option.split)
  have mem: "is_member e o' S2 \<longleftrightarrow> o' = off \<and> cached_objects S off = None \<or> is_member e o' S" for o'
    using assms(1,4) by (auto simp: S2_def count_block_def off_def Let_def split: option.split)
  have ok: "entry_ok e no_extra S o'" for o' using assms(2) by (simp add: books_def)
  have n: "blocks_of off (entries S) \<le> length (entries S)" by (simp add: blocks_of_def)
  have "entry_ok e (no_extra(off := 1)) S2 o'" for o'
  proof (cases "o' = off")
    case False
    then have "cached_objects S2 o' = cached_objects S o'" by (auto simp: S2_def count_block_def off_def [symmetric] Let_def split: option.split)
    with False ok [of o'] mem [of o'] ents show ?thesis by (simp add: entry_ok_def split: option.splits)
  next
    case True
    show ?thesis
    proof (cases "cached_objects S off")
      case None
      then have "cached_objects S2 off = Some \<lparr>co_info = info, co_descriptor = descriptor, co_blocks = 1\<rparr>"
        by (simp add: S2_def count_block_def off_def [symmetric] Let_def)
      with None True ok [of off] mem [of off] ents assms(4) show ?thesis by (simp add: entry_ok_def off_def)
    next
      case (Some ob)
      then have c: "cached_objects S2 off = Some (ob\<lparr>co_blocks := co_blocks ob + 1\<rparr>)" by (simp add: S2_def count_block_def off_def [symmetric] Let_def)
      have u: "unat (co_blocks ob) = blocks_of off (entries S)" using ok [of off] Some by (simp add: entry_ok_def)
      then have "unat (co_blocks ob + 1) = unat (co_blocks ob) + 1"
        using assms(3) n by (subst unat_add_no_wrap) simp_all
      with c u True ok [of off] Some mem [of off] ents show ?thesis by (simp add: entry_ok_def)
    qed
  qed
  then show "books e (no_extra(off := 1)) S2" using assms(2) ents byt by (simp add: books_def)
  show "entries S2 = entries S" "replica_access_clock S2 = replica_access_clock S" by fact+
qed

lemma books_advertise [simp]: "books e x (advertise e gptr i v S) = books e x S"
  unfolding books_def entry_ok_def advertise_frame advertise_member ..

lemma insert_books:
  fixes c :: u64
  assumes "books e (no_extra(off := 1)) S" and "k \<notin> fst ` set (entries S)" and "rp_object_offset r = off"
    and "bytes_of (entries S) + length (rp_storage r) < 2 ^ 64"
  defines "S' \<equiv> S\<lparr>cached_replica_bytes := cached_replica_bytes S + of_nat (length (rp_storage r)), replica_access_clock := c,
      replicas := (k, r) # replicas S\<rparr>"
  shows "books e no_extra S'" "entries S' = (k, r) # entries S"
proof -
  show ents: "entries S' = (k, r) # entries S" by (simp add: S'_def entries_def)
  have "unat (cached_replica_bytes S) = bytes_of (entries S)" using assms(1) by (simp add: books_def)
  then have "unat (cached_replica_bytes S') = bytes_of (entries S')"
    using assms(4) unfolding ents by (simp add: S'_def unat_of_nat bytes_of_def unat_word_ariths)
  moreover have "entry_ok e no_extra S' o'" for o'
  proof -
    have "entry_ok e (no_extra(off := 1)) S o'" using assms(1) by (simp add: books_def)
    moreover have "blocks_of o' (entries S') = blocks_of o' (entries S) + (no_extra(off := 1)) o'"
      using assms(3) by (simp add: ents blocks_of_def)
    moreover have "cached_objects S' = cached_objects S" "is_member e o' S' = is_member e o' S" by (simp_all add: S'_def)
    ultimately show ?thesis unfolding entry_ok_def by (simp only: add_0_right)
  qed
  moreover have "distinct (map fst (entries S'))" using assms(1,2) by (simp add: ents books_def)
  ultimately show "books e no_extra S'" by (simp add: books_def)
qed

lemma CacheReplicaLocked_ok:
  assumes h: "re_host e < 64" and ok: "cache_ok e S" and d: "descriptor = gp_offset (ai_gptr info)"
    and room: "unat (re_capacity_entries e) + 2 < 2 ^ 64" "unat (re_capacity_bytes e) + length storage < 2 ^ 64"
  shows "\<exists>S'. CacheReplicaLocked e k info descriptor i version storage S = Some S' \<and> cache_ok e S' \<and>
    replica_access_clock S' = replica_access_clock S + 1 \<and>
    set (entries S') \<subseteq> insert (k, new_replica info i version storage (replica_access_clock S + 1)) (set (AList.delete k (entries S)))"
proof -
  let ?off = "gp_offset (ai_gptr info)" and ?r = "new_replica info i version storage (replica_access_clock S + 1)"
  let ?S2 = "count_block e info descriptor S"
  have b: "books e no_extra S" and w: "within e S" using ok by (simp_all add: cache_ok_def)
  then have len: "length (entries S) + 2 < 2 ^ 64" and byt: "bytes_of (entries S) + length storage < 2 ^ 64"
    using room by (simp_all add: within_def)
  note S2 = count_once_more [OF h b _ d]
  from erase_both_books [OF h S2(1), of k] len obtain S3 where S3: "erase_both e k ?S2 = Some S3" "books e (no_extra(?off := 1)) S3"
    "entries S3 = AList.delete k (entries S)" "replica_access_clock S3 = replica_access_clock S" using S2(2,3) by auto
  have b3: "bytes_of (entries S3) + length storage < 2 ^ 64"
  proof -
    have "bytes_of (AList.delete k xs) \<le> bytes_of xs" for xs by (induction xs) (auto simp: bytes_of_def)
    then show ?thesis using byt S3(3) by (metis add_le_mono1 le_less_trans)
  qed
  define S4 where "S4 = S3\<lparr>cached_replica_bytes := cached_replica_bytes S3 + of_nat (length (rp_storage ?r)),
      replica_access_clock := replica_access_clock S3 + 1, replicas := (k, ?r) # replicas S3\<rparr>"
  have "k \<notin> fst ` set (entries S3)" unfolding S3(3) by (rule delete_notin_dom)
  from insert_books [OF S3(2) this, of ?r "replica_access_clock S3 + 1"] b3
  have S4: "books e no_extra S4" "entries S4 = (k, ?r) # entries S3" by (simp_all add: S4_def new_replica_def)
  let ?S = "advertise e (ai_gptr info) i (version + 1) S4"
  have "length (entries ?S) < 2 ^ 64" using len S4(2) S3(3) length_delete_le [of k "entries S"] by simp
  with EvictReplicasLocked_books [OF h, of no_extra ?S] S4(1) obtain S5 where S5: "EvictReplicasLocked e ?S = Some S5"
    "books e no_extra S5" "within e S5" "set (entries S5) \<subseteq> set (entries ?S)" "replica_access_clock S5 = replica_access_clock ?S" by auto
  have "CacheReplicaLocked e k info descriptor i version storage S = EvictReplicasLocked e ?S"
    by (simp add: CacheReplicaLocked_def Let_def S3(1,4) S4_def new_replica_def)
  then show ?thesis using S5 S4(2) S3(3,4) by (auto simp: cache_ok_def S4_def new_replica_def)
qed

lemma InvalidateObjectLocked_ok:
  assumes h: "re_host e < 64" and ok: "cache_ok e S"
  shows "\<exists>S'. InvalidateObjectLocked e off S = Some S' \<and> cache_ok e S' \<and>
    set (entries S') = {p \<in> set (entries S). rp_object_offset (snd p) \<noteq> off}"
proof -
  let ?P = "\<lambda>p. rp_object_offset (snd p) = off"
  obtain S1 where S1: "invalidate_index e off Present (index_of Present S) S = Some S1" "cache_ok e S1"
    "entries S1 = filter (\<lambda>p. fst p \<notin> fst ` {q \<in> set (index_of Present S). ?P q}) (entries S)" "index_of Older S1 = index_of Older S"
    using invalidate_index_ok [OF h ok, of off Present] by auto
  obtain S2 where S2: "invalidate_index e off Older (index_of Older S1) S1 = Some S2" "cache_ok e S2"
    "entries S2 = filter (\<lambda>p. fst p \<notin> fst ` {q \<in> set (index_of Older S1). ?P q}) (entries S1)"
    using invalidate_index_ok [OF h S1(2), of off Older] by auto
  have d: "distinct (map fst (entries S))" using ok by (simp add: cache_ok_def books_def)
  have all: "entries S2 = filter (\<lambda>p. fst p \<notin> fst ` {q \<in> set (entries S). ?P q}) (entries S)"
    unfolding S2(3) S1(3,4) filter_filter by (rule filter_cong [OF refl]) (auto simp: entries_eq)
  have "inj_on fst (set (entries S))" using d by (simp add: distinct_map)
  then have "fst p \<in> fst ` {q \<in> set (entries S). ?P q} \<longleftrightarrow> ?P p" if "p \<in> set (entries S)" for p
    using that by (auto dest: inj_onD)
  then have "set (entries S2) = {p \<in> set (entries S). \<not> ?P p}" unfolding all by auto
  then show ?thesis using S1(1) S2(1,2) by (auto simp: InvalidateObjectLocked_def)
qed

lemma cache_ok_cong:
  assumes "cache_ok e S" and "distinct (map fst (entries S')) = distinct (map fst (entries S))" and "bytes_of (entries S') = bytes_of (entries S)"
    and "\<And>off. blocks_of off (entries S') = blocks_of off (entries S)" and "length (entries S') = length (entries S)"
    and "cached_objects S' = cached_objects S" and "cached_replica_bytes S' = cached_replica_bytes S"
    and "\<And>off. is_member e off S' = is_member e off S"
  shows "cache_ok e S'"
proof -
  have "entry_ok e no_extra S' = entry_ok e no_extra S" by (rule ext) (simp only: entry_ok_def assms)
  then show ?thesis using assms by (simp add: cache_ok_def books_def within_def)
qed

lemma swap_ok: "cache_ok e S \<Longrightarrow> cache_ok e (S\<lparr>replicas := old_replicas S, old_replicas := replicas S\<rparr>)"
proof -
  assume ok: "cache_ok e S"
  let ?S = "S\<lparr>replicas := old_replicas S, old_replicas := replicas S\<rparr>"
  show ?thesis
    by (rule cache_ok_cong [OF ok]) (auto simp: entries_def bytes_of_def blocks_of_def)
qed

lemma SynchronizeAcquire_ok:
  assumes h: "re_host e < 64" and ok: "cache_ok e S"
  shows "\<exists>S'. SynchronizeAcquire e True S = Some (kOk, S') \<and> cache_ok e S' \<and> replicas S' = [] \<and> old_replicas S' = replicas S"
proof -
  from erase_all_ok [OF h ok, of "old_replicas S" Older] index_distinct [OF ok, of Older]
  obtain S1 where S1: "erase_all e Older (old_replicas S) S = Some S1" "cache_ok e S1"
    "old_replicas S1 = filter (\<lambda>p. fst p \<notin> fst ` set (old_replicas S)) (old_replicas S)"
    "\<forall>g'. Older \<noteq> g' \<longrightarrow> index_of g' S1 = index_of g' S" by auto
  have "old_replicas S1 = []" unfolding S1(3) by (simp add: filter_empty_conv)
  moreover have "replicas S1 = replicas S" using S1(4) [rule_format, of Present] by simp
  ultimately show ?thesis using S1 swap_ok [OF S1(2)] by (simp add: SynchronizeAcquire_def)
qed

lemma touch_shape:
  assumes "distinct (map fst xs)" and "map_of xs k = Some r" and "rp_object_offset r' = rp_object_offset r" and "rp_storage r' = rp_storage r"
  shows "map (\<lambda>p. (fst p, rp_object_offset (snd p), rp_storage (snd p))) (AList.update k r' xs) =
    map (\<lambda>p. (fst p, rp_object_offset (snd p), rp_storage (snd p))) xs"
  using assms by (induction xs) (auto simp: image_iff dest: map_of_SomeD)

lemma shape_sums:
  assumes "map (\<lambda>p. (fst p, rp_object_offset (snd p), rp_storage (snd p))) xs = map (\<lambda>p. (fst p, rp_object_offset (snd p), rp_storage (snd p))) ys"
  shows "map fst xs = map fst ys" "bytes_of xs = bytes_of ys" "blocks_of off xs = blocks_of off ys" "length xs = length ys"
proof -
  show "map fst xs = map fst ys" using arg_cong [OF assms, of "map fst"] by (simp add: comp_def)
  have "bytes_of zs = sum_list (map (length \<circ> snd \<circ> snd) (map (\<lambda>p. (fst p, rp_object_offset (snd p), rp_storage (snd p))) zs))" for zs
    by (simp add: bytes_of_def comp_def)
  then show "bytes_of xs = bytes_of ys" by (simp only: assms)
  have "blocks_of off zs = length (filter (\<lambda>q. fst (snd q) = off) (map (\<lambda>p. (fst p, rp_object_offset (snd p), rp_storage (snd p))) zs))" for zs
    by (simp add: blocks_of_def filter_map comp_def)
  then show "blocks_of off xs = blocks_of off ys" by (simp only: assms)
  show "length xs = length ys" using arg_cong [OF assms, of length] by simp
qed

lemma touch_replica_ok:
  assumes "cache_ok e S"
  shows "cache_ok e (touch_replica k S)"
proof (cases "map_of (replicas S) k")
  case None
  then show ?thesis using assms by (simp add: touch_replica_def)
next
  case (Some r)
  let ?S = "touch_replica k S" and ?r = "r\<lparr>rp_last_access := replica_access_clock S + 1\<rparr>"
  have d: "distinct (map fst (replicas S))" using index_distinct [OF assms, of Present] by simp
  have "entries ?S = AList.update k ?r (replicas S) @ old_replicas S" using Some by (simp add: touch_replica_def entries_def Let_def)
  then have "map (\<lambda>p. (fst p, rp_object_offset (snd p), rp_storage (snd p))) (entries ?S) =
      map (\<lambda>p. (fst p, rp_object_offset (snd p), rp_storage (snd p))) (entries S)"
    using touch_shape [OF d Some, of ?r] by (simp add: entries_def)
  note sh = shape_sums [OF this]
  show ?thesis
    by (rule cache_ok_cong [OF assms]) (use sh Some in \<open>simp_all add: touch_replica_def Let_def\<close>)
qed

lemma ClearReplicas_ok:
  assumes h: "re_host e < 64" and ok: "cache_ok e S"
  shows "\<exists>S'. ClearReplicas e S = Some S' \<and> entries S' = [] \<and> cache_ok e S'"
proof -
  from erase_all_ok [OF h ok, of "replicas S" Present] index_distinct [OF ok, of Present]
  obtain S1 where S1: "erase_all e Present (replicas S) S = Some S1" "cache_ok e S1"
    "replicas S1 = filter (\<lambda>p. fst p \<notin> fst ` set (replicas S)) (replicas S)" by auto
  then have e1: "replicas S1 = []" by (simp add: filter_empty_conv)
  from erase_all_ok [OF h S1(2), of "old_replicas S1" Older] index_distinct [OF S1(2), of Older]
  obtain S2 where S2: "erase_all e Older (old_replicas S1) S1 = Some S2" "cache_ok e S2"
    "old_replicas S2 = filter (\<lambda>p. fst p \<notin> fst ` set (old_replicas S1)) (old_replicas S1)"
    "\<forall>g'. Older \<noteq> g' \<longrightarrow> index_of g' S2 = index_of g' S1" by auto
  then have e2: "entries S2 = []" using S2(4) [rule_format, of Present] e1 by (simp add: entries_def filter_empty_conv)
  let ?S = "S2\<lparr>cached_replica_bytes := 0, replica_access_clock := 0\<rparr>"
  have "cached_replica_bytes S2 = 0" using S2(2) e2 by (simp add: cache_ok_def books_def bytes_of_def unat_eq_zero)
  then have "cache_ok e ?S" by (intro cache_ok_cong [OF S2(2)]) (simp_all add: entries_def)
  then show ?thesis using S1(1) S2(1) e2 by (auto simp: ClearReplicas_def entries_def)
qed

section \<open>The cache in use\<close>

text \<open>
  What happens to the cache of a host: a fill after a validated read, a hit, the removal of a block after a write,
  an invalidation, an acquire boundary.  Meanwhile the shared memory changes by the work of others, which leave the
  membership bit of this host alone: only this host sets and clears it, and a descriptor is formatted anew only when
  no host is a member.
\<close>

inductive cache_step :: "ReplicaEnv \<Rightarrow> ReplicaCache \<Rightarrow> ReplicaCache \<Rightarrow> bool" for e where
  fill: "unat (re_capacity_bytes e) + length storage < 2 ^ 64 \<Longrightarrow>
    CacheReplicaLocked e k info (gp_offset (ai_gptr info)) i version storage S = Some S' \<Longrightarrow> cache_step e S S'"
| hit: "cache_step e S (touch_replica k S)"
| written: "erase_both e k S = Some S' \<Longrightarrow> cache_step e S S'"
| invalidate: "InvalidateReadCache e up object S = Some (st, S') \<Longrightarrow> cache_step e S S'"
| boundary: "SynchronizeAcquire e up S = Some (st, S') \<Longrightarrow> cache_step e S S'"
| clear: "ClearReplicas e S = Some S' \<Longrightarrow> cache_step e S S'"
| elsewhere: "(\<And>off. is_member e off (S\<lparr>cache_mem := M\<rparr>) = is_member e off S) \<Longrightarrow> cache_step e S (S\<lparr>cache_mem := M\<rparr>)"

inductive cache_reach :: "ReplicaEnv \<Rightarrow> AllocatorMemory \<Rightarrow> ReplicaCache \<Rightarrow> bool" for e M where
  start: "cache_reach e M (empty_cache M)"
| step: "cache_reach e M S \<Longrightarrow> cache_step e S S' \<Longrightarrow> cache_reach e M S'"

lemma InvalidateReadCache_ok:
  assumes "re_host e < 64" and "cache_ok e S"
  shows "\<exists>st S'. InvalidateReadCache e up object S = Some (st, S') \<and> cache_ok e S'"
  using InvalidateObjectLocked_ok [OF assms, of "gp_offset object"] assms(2) by (auto simp: InvalidateReadCache_def)

lemma cache_step_ok:
  assumes h: "re_host e < 64" and cap: "unat (re_capacity_entries e) + 2 < 2 ^ 64" and ok: "cache_ok e S" and st: "cache_step e S S'"
  shows "cache_ok e S'"
  using st
proof cases
  case (fill storage k info i version)
  with CacheReplicaLocked_ok [OF h ok refl cap fill(1), of k info i version] show ?thesis by auto
next
  case hit
  then show ?thesis using touch_replica_ok [OF ok] by simp
next
  case (written k)
  then show ?thesis using erase_both_ok [OF h ok, of k] by auto
next
  case (invalidate up object st)
  then show ?thesis using InvalidateReadCache_ok [OF h ok, of up object] by auto
next
  case (boundary up st)
  then show ?thesis using SynchronizeAcquire_ok [OF h ok] ok by (cases up) (auto simp: SynchronizeAcquire_def)
next
  case clear
  then show ?thesis using ClearReplicas_ok [OF h ok] by auto
next
  case (elsewhere M)
  then show ?thesis by (simp only:) (rule cache_ok_cong [OF ok], simp_all add: entries_def)
qed

lemma cache_reach_ok:
  assumes "cache_reach e M S" and "re_host e < 64" and "unat (re_capacity_entries e) + 2 < 2 ^ 64"
    and "\<And>off. \<not> bit (ad_replica_hosts (descriptors M off)) (unat (re_host e))"
  shows "cache_ok e S"
  using assms(1)
proof induction
  case start
  then show ?case using assms(4)
    by (simp add: empty_cache_def cache_ok_def books_def entry_ok_def within_def entries_def bytes_of_def blocks_of_def is_member_def)
next
  case (step S S')
  then show ?case using cache_step_ok [OF assms(2,3)] by blast
qed

text \<open>
  C8.  The read cache keeps exact books.  Whatever fills, hits, writes, invalidations and boundaries have happened,
  no block is cached twice, the byte counter is the size of the cached copies, both limits of the configuration are
  met, an object is on record exactly while blocks of it are cached, with their exact number, and exactly then the
  host is a member of the replica set in the descriptor.  So an eviction, a removal, an invalidation, a boundary and
  the final clearing never follow an iterator past the end of a map; and an object whose replica set is empty has no
  copies left on this host.
\<close>

theorem replica_cache_books:
  assumes "cache_reach e M S" and "re_host e < 64" and "unat (re_capacity_entries e) + 2 < 2 ^ 64"
    and "\<And>off. \<not> bit (ad_replica_hosts (descriptors M off)) (unat (re_host e))"
  shows "distinct (map fst (replicas S @ old_replicas S)) \<and>
    unat (cached_replica_bytes S) = (\<Sum>p \<leftarrow> replicas S @ old_replicas S. length (rp_storage (snd p))) \<and>
    length (replicas S @ old_replicas S) \<le> unat (re_capacity_entries e) \<and> cached_replica_bytes S \<le> re_capacity_bytes e \<and>
    (\<forall>off. let n = length (filter (\<lambda>p. rp_object_offset (snd p) = off) (replicas S @ old_replicas S)) in
       (cached_objects S off \<noteq> None \<longleftrightarrow> 0 < n) \<and> (\<forall>ob. cached_objects S off = Some ob \<longrightarrow> unat (co_blocks ob) = n) \<and>
       (bit (ad_replica_hosts (descriptors (cache_mem S) off)) (unat (re_host e)) \<longleftrightarrow> 0 < n)) \<and>
    (\<forall>k. erase_both e k S \<noteq> None) \<and> (\<forall>up object. InvalidateReadCache e up object S \<noteq> None) \<and>
    (\<forall>up. SynchronizeAcquire e up S \<noteq> None) \<and> ClearReplicas e S \<noteq> None \<and>
    (\<forall>k info i version storage. unat (re_capacity_bytes e) + length storage < 2 ^ 64 \<longrightarrow>
       CacheReplicaLocked e k info (gp_offset (ai_gptr info)) i version storage S \<noteq> None)"
proof -
  have ok: "cache_ok e S" by (rule cache_reach_ok [OF assms])
  then have b: "books e no_extra S" and w: "within e S" by (simp_all add: cache_ok_def)
  have per: "let n = length (filter (\<lambda>p. rp_object_offset (snd p) = off) (replicas S @ old_replicas S)) in
       (cached_objects S off \<noteq> None \<longleftrightarrow> 0 < n) \<and> (\<forall>ob. cached_objects S off = Some ob \<longrightarrow> unat (co_blocks ob) = n) \<and>
       (bit (ad_replica_hosts (descriptors (cache_mem S) off)) (unat (re_host e)) \<longleftrightarrow> 0 < n)" for off
  proof -
    have "entry_ok e no_extra S off" using b by (simp add: books_def)
    then show ?thesis
      unfolding Let_def entry_ok_def blocks_of_def entries_def is_member_def by (cases "cached_objects S off") (auto simp del: length_greater_0_conv)
  qed
  have "erase_both e k S \<noteq> None" "InvalidateReadCache e up object S \<noteq> None" "ClearReplicas e S \<noteq> None" for k up object
    using erase_both_ok [OF assms(2) ok, of k] InvalidateReadCache_ok [OF assms(2) ok, of up object] ClearReplicas_ok [OF assms(2) ok] by auto
  moreover have "SynchronizeAcquire e up S \<noteq> None" for up
    using SynchronizeAcquire_ok [OF assms(2) ok] by (cases up) (auto simp: SynchronizeAcquire_def)
  moreover have "CacheReplicaLocked e k info (gp_offset (ai_gptr info)) i version storage S \<noteq> None"
    if "unat (re_capacity_bytes e) + length storage < 2 ^ 64" for k info i version storage
    using CacheReplicaLocked_ok [OF assms(2) ok refl assms(3) that, of k info i version] by auto
  moreover have "cached_replica_bytes S \<le> re_capacity_bytes e"
    using b w by (simp add: books_def within_def word_le_nat_alt)
  ultimately show ?thesis
    using b w per unfolding books_def within_def entries_def bytes_of_def by blast
qed

text \<open>
  Eviction ends, and evicts the least recently used.  On books that are in order the loop runs through, keeps
  them in order and ends with both limits met; what it removes was accessed no later than anything it keeps, and it
  removes nothing when the limits are met already.
\<close>

theorem EvictReplicasLocked_lru:
  assumes "books e no_extra S" and "re_host e < 64" and "length (entries S) < 2 ^ 64"
  shows "\<exists>S'. EvictReplicasLocked e S = Some S' \<and> books e no_extra S' \<and>
    length (entries S') \<le> unat (re_capacity_entries e) \<and> cached_replica_bytes S' \<le> re_capacity_bytes e \<and>
    set (entries S') \<subseteq> set (entries S) \<and>
    (\<forall>p \<in> set (entries S) - set (entries S'). \<forall>q \<in> set (entries S'). rp_last_access (snd p) \<le> rp_last_access (snd q)) \<and>
    (\<not> over_capacity e S \<longrightarrow> S' = S)"
proof -
  obtain S' where S': "EvictReplicasLocked e S = Some S'" "books e no_extra S'" "within e S'" "set (entries S') \<subseteq> set (entries S)"
    "\<forall>p \<in> set (entries S) - set (entries S'). \<forall>q \<in> set (entries S'). rp_last_access (snd p) \<le> rp_last_access (snd q)"
    "within e S \<longrightarrow> S' = S"
    using EvictReplicasLocked_books [OF assms(2,1,3)] by blast
  have "cached_replica_bytes S' \<le> re_capacity_bytes e" using S'(2,3) by (simp add: books_def within_def word_le_nat_alt)
  with S' not_over_capacity [OF assms(1,3)] show ?thesis by (auto simp: within_def)
qed

section \<open>Concrete inputs\<close>

definition small_env :: ReplicaEnv where
  "small_env = \<lparr>re_allocator = \<lparr>region_bytes = 0, local_host = 3, expected_data_offset = 0, expected_data_bytes = 0,
     coherence_header = None, default_block_bytes = 64, initialized = False\<rparr>, re_host = 3, re_capacity_entries = 1,
     re_capacity_bytes = 100, re_cpu = \<lparr>is_x86 = True, has_clwb = True\<rparr>\<rparr>"

definition small_memory :: AllocatorMemory where
  "small_memory = fresh_memory sample_header"

definition small_info :: AllocationInfo where
  "small_info = \<lparr>ai_gptr = \<lparr>region_id = 0, gp_offset = 640\<rparr>, ai_bytes = 128, ai_alignment = 64, ai_owner_host = 0,
     ai_coherence_block_bytes = 64, ai_coherence_block_count = 2, ai_coherence_metadata_offset = 4096\<rparr>"

lemma small_bits: "\<not> bit (ad_replica_hosts (descriptors small_memory off)) (unat (re_host small_env))"
  by (simp add: small_memory_def fresh_memory_def default_descriptor_def)

lemma small_room: "re_host small_env < 64" "unat (re_capacity_entries small_env) + 2 < 2 ^ 64"
    "unat (re_capacity_bytes small_env) + length (replicate 64 0) < 2 ^ 64"
  by (simp_all add: small_env_def)

text \<open>A cache with room for one block: one is filled in, and of two the one used longer ago is evicted.\<close>

theorem replica_cache_books_witness:
  "\<exists>S. cache_reach small_env small_memory S \<and> replicas S \<noteq> [] \<and> length (replicas S @ old_replicas S) \<le> 1 \<and>
     unat (cached_replica_bytes S) = (\<Sum>p \<leftarrow> replicas S @ old_replicas S. length (rp_storage (snd p)))"
proof -
  let ?e = small_env and ?k = "4096 :: u64" and ?st = "replicate 64 (0 :: u8)"
  have r0: "cache_reach ?e small_memory (empty_cache small_memory)" by (rule cache_reach.start)
  let ?r = "new_replica small_info 0 5 ?st 1"
  have l: "LockAllocationSlot (re_allocator ?e) M g = (Inl kFailedPrecondition, M)" for M g
    by (simp add: LockAllocationSlot_def small_env_def)
  have ad: "advertise ?e g i v S = S" for g i v S
    by (simp add: advertise_def MutableCoherenceBlock_def MutableDescriptor_def l)
  obtain S where S: "CacheReplicaLocked ?e ?k small_info (gp_offset (ai_gptr small_info)) 0 5 ?st (empty_cache small_memory) = Some S"
      "replicas S = [(?k, ?r)]" "old_replicas S = []"
    by (simp add: CacheReplicaLocked_def erase_both_def erase_found_def count_block_def empty_cache_def set_member_def ad Let_def
        EvictReplicasLocked.simps over_capacity_def) (simp add: small_env_def)
  have "cache_reach ?e small_memory S"
    by (rule cache_reach.step [OF r0 cache_step.fill [OF small_room(3) S(1)]])
  with replica_cache_books [OF this small_room(1,2) small_bits] S(2,3) show ?thesis
    by (intro exI [of _ S]) (simp add: small_env_def)
qed

definition full_cache :: ReplicaCache where
  "full_cache = \<lparr>replicas = [(4096, new_replica small_info 0 5 [1, 2] 7)], old_replicas = [(4672, new_replica small_info 1 6 [3] 9)],
     cached_objects = (\<lambda>_. None)(640 := Some \<lparr>co_info = small_info, co_descriptor = 640, co_blocks = 2\<rparr>),
     cached_replica_bytes = 3, replica_access_clock = 9,
     cache_mem = set_descriptor 640 (\<lambda>d. d\<lparr>ad_replica_hosts := 8\<rparr>) small_memory\<rparr>"

theorem EvictReplicasLocked_lru_witness:
  "\<exists>S'. EvictReplicasLocked small_env full_cache = Some S' \<and> length (entries S') \<le> 1 \<and> set (entries S') \<subseteq> set (entries full_cache)"
proof -
  have ents: "entries full_cache = [(4096, new_replica small_info 0 5 [1, 2] 7), (4672, new_replica small_info 1 6 [3] 9)]"
    by (simp add: full_cache_def entries_def)
  have mem: "is_member small_env off full_cache \<longleftrightarrow> off = 640" for off
    by (simp add: is_member_def full_cache_def set_descriptor_def small_env_def small_memory_def fresh_memory_def default_descriptor_def
        bit_numeral_rec)
  have "entry_ok small_env no_extra full_cache off" for off
    unfolding entry_ok_def mem ents by (simp add: full_cache_def blocks_of_def new_replica_def small_info_def)
  then have "books small_env no_extra full_cache"
    by (simp add: books_def ents bytes_of_def) (simp add: full_cache_def new_replica_def)
  with EvictReplicasLocked_lru [OF this small_room(1)] show ?thesis by (auto simp: ents small_env_def)
qed

end
