(* ===== verification/Cx_Seqlock.thy ===== *)
theory Cx_Seqlock
  imports Cx_Prelude
begin

text \<open>
  A read of one coherence block while writers work on it.  The holder of the write token makes the writeback epoch
  of the block odd before it touches the bytes (\<^verbatim>\<open>BeginWriteback\<close>, \<^verbatim>\<open>ActivateWriter\<close> of
  \<^verbatim>\<open>src/loommem/token.cpp\<close>), stores bytes one at a time, and on release publishes the next version and makes the
  epoch even again (\<^verbatim>\<open>Release\<close>).  A reader (\<^verbatim>\<open>ReadRange\<close> of \<^verbatim>\<open>src/loommem/runtime.cpp\<close>) loads epoch and
  version, copies the bytes without any lock, and loads epoch and version again.

  The two are interleaved load by load and store by store.  That there is one writer at a time is the exclusion the
  token protocol guarantees; the epoch is followed as far as it does not wrap around (\<open>ticks\<close> counts its increments).
\<close>

text \<open>What one try of a reader has loaded.\<close>

record BlockLoad =
  ld_epoch_before :: u64
  ld_version_before :: u64
  ld_bytes :: "u8 list"
  ld_epoch_after :: u64
  ld_version_after :: u64

definition stable :: "BlockLoad \<Rightarrow> bool" where
  "stable a \<longleftrightarrow> \<not> (ld_epoch_before a \<noteq> ld_epoch_after a \<or> ld_epoch_after a AND 1 \<noteq> 0 \<or> ld_version_before a \<noteq> ld_version_after a)"

text \<open>The writer: no write under way; epoch odd, with or without changed bytes; version published.\<close>

datatype WriterPC = WIdle | WActive bool | WPublished

datatype ReaderPC =
    RIdle
  | REpoch u64
  | RCopy u64 u64 "u8 list"
  | REpoch2 u64 u64 "u8 list" u64
  | RDone BlockLoad

record BlockSystem =
  epoch :: u64
  version :: u64
  bytes :: "u8 list"
  writer :: WriterPC
  reader :: ReaderPC
  ticks :: nat
  history :: "u64 \<Rightarrow> u8 list option"

inductive writer_step :: "BlockSystem \<Rightarrow> BlockSystem \<Rightarrow> bool" where
  begin_write: "writer s = WIdle \<Longrightarrow> epoch s AND 1 = 0 \<Longrightarrow> Suc (ticks s) < 2 ^ 64 \<Longrightarrow>
    writer_step s (s\<lparr>epoch := epoch s + 1, ticks := Suc (ticks s), writer := WActive False\<rparr>)"
| store_byte: "writer s = WActive d \<Longrightarrow> i < length (bytes s) \<Longrightarrow>
    writer_step s (s\<lparr>bytes := (bytes s)[i := b], writer := WActive True\<rparr>)"
| publish_version: "writer s = WActive d \<Longrightarrow>
    writer_step s (s\<lparr>version := version s + 1, history := (history s)(version s + 1 \<mapsto> bytes s), writer := WPublished\<rparr>)"
| end_write: "writer s = WPublished \<Longrightarrow> Suc (ticks s) < 2 ^ 64 \<Longrightarrow>
    writer_step s (s\<lparr>epoch := epoch s + 1, ticks := Suc (ticks s), writer := WIdle\<rparr>)"
| end_unmodified: "writer s = WActive False \<Longrightarrow> Suc (ticks s) < 2 ^ 64 \<Longrightarrow>
    writer_step s (s\<lparr>epoch := epoch s + 1, ticks := Suc (ticks s), writer := WIdle\<rparr>)"

inductive reader_step :: "BlockSystem \<Rightarrow> BlockSystem \<Rightarrow> bool" where
  load_epoch: "reader s = RIdle \<Longrightarrow> reader_step s (s\<lparr>reader := REpoch (epoch s)\<rparr>)"
| odd_epoch: "reader s = REpoch e \<Longrightarrow> e AND 1 \<noteq> 0 \<Longrightarrow> reader_step s (s\<lparr>reader := RIdle\<rparr>)"
| load_version: "reader s = REpoch e \<Longrightarrow> e AND 1 = 0 \<Longrightarrow> reader_step s (s\<lparr>reader := RCopy e (version s) []\<rparr>)"
| copy_byte: "reader s = RCopy e v buf \<Longrightarrow> length buf < length (bytes s) \<Longrightarrow>
    reader_step s (s\<lparr>reader := RCopy e v (buf @ [bytes s ! length buf])\<rparr>)"
| reload_epoch: "reader s = RCopy e v buf \<Longrightarrow> length buf = length (bytes s) \<Longrightarrow>
    reader_step s (s\<lparr>reader := REpoch2 e v buf (epoch s)\<rparr>)"
| reload_version: "reader s = REpoch2 e v buf e2 \<Longrightarrow>
    reader_step s (s\<lparr>reader := RDone \<lparr>ld_epoch_before = e, ld_version_before = v, ld_bytes = buf, ld_epoch_after = e2,
      ld_version_after = version s\<rparr>\<rparr>)"
| retry: "reader s = RDone a \<Longrightarrow> reader_step s (s\<lparr>reader := RIdle\<rparr>)"

text \<open>A block as allocation leaves it: version 0, epoch 0, whatever bytes the storage has.\<close>

inductive block_reach :: "u8 list \<Rightarrow> BlockSystem \<Rightarrow> bool" for content where
  start: "block_reach content \<lparr>epoch = 0, version = 0, bytes = content, writer = WIdle, reader = RIdle, ticks = 0, history = [0 \<mapsto> content]\<rparr>"
| writes: "block_reach content s \<Longrightarrow> writer_step s s' \<Longrightarrow> block_reach content s'"
| reads: "block_reach content s \<Longrightarrow> reader_step s s' \<Longrightarrow> block_reach content s'"

section \<open>Invariant\<close>

text \<open>
  A reader that has seen an even epoch has nothing to fear while the epoch is the one it saw: the writer is idle,
  so the version is the one it loaded and the bytes it has copied are those of that version.
\<close>

definition quiet :: "u64 \<Rightarrow> u64 \<Rightarrow> u8 list \<Rightarrow> BlockSystem \<Rightarrow> bool" where
  "quiet e v buf s \<longleftrightarrow> (\<exists>t \<le> ticks s. e = of_nat t \<and> (t = ticks s \<longrightarrow> even t \<longrightarrow> version s = v \<and> buf = take (length buf) (bytes s)))"

definition writer_ok :: "BlockSystem \<Rightarrow> bool" where
  "writer_ok s \<longleftrightarrow> epoch s = of_nat (ticks s) \<and> ticks s < 2 ^ 64 \<and> (even (ticks s) \<longleftrightarrow> writer s = WIdle) \<and>
     2 * unat (version s) \<le> ticks s + (if writer s = WPublished then 1 else 0) \<and>
     (writer s \<noteq> WActive True \<longrightarrow> history s (version s) = Some (bytes s)) \<and> (\<forall>v. history s v \<noteq> None \<longleftrightarrow> v \<le> version s)"

definition reader_ok :: "BlockSystem \<Rightarrow> bool" where
  "reader_ok s \<longleftrightarrow> (case reader s of
     RIdle \<Rightarrow> True
   | REpoch e \<Rightarrow> \<exists>t \<le> ticks s. e = of_nat t
   | RCopy e v buf \<Rightarrow> e AND 1 = 0 \<and> v \<le> version s \<and> length buf \<le> length (bytes s) \<and> quiet e v buf s
   | REpoch2 e v buf e2 \<Rightarrow> v \<le> version s \<and> (e = e2 \<longrightarrow> history s v = Some buf)
   | RDone a \<Rightarrow> stable a \<longrightarrow> history s (ld_version_after a) = Some (ld_bytes a))"

lemma even_epoch: "(of_nat t :: u64) AND 1 = 0 \<longleftrightarrow> even t"
  by (simp add: and_one_eq mod_2_eq_odd)

lemma tick_inj: "t < 2 ^ 64 \<Longrightarrow> u < 2 ^ 64 \<Longrightarrow> (of_nat t :: u64) = of_nat u \<longleftrightarrow> t = u"
  by (simp add: word_of_nat_eq_iff take_bit_nat_eq_self)

lemma version_step:
  assumes "2 * unat (v :: u64) < 2 ^ 64"
  shows "unat (v + 1) = unat v + 1" "w \<le> v \<Longrightarrow> w \<noteq> v + 1" "w \<le> v \<Longrightarrow> w \<le> v + 1" "w \<le> v + 1 \<longleftrightarrow> w \<le> v \<or> w = v + 1"
proof -
  show u: "unat (v + 1) = unat v + 1" using assms by (subst unat_add_no_wrap) simp_all
  show "w \<le> v \<Longrightarrow> w \<noteq> v + 1" "w \<le> v \<Longrightarrow> w \<le> v + 1" using u by (auto simp: word_le_nat_alt)
  show "w \<le> v + 1 \<longleftrightarrow> w \<le> v \<or> w = v + 1" unfolding le_less [of w "v + 1"] using u by (auto simp: word_less_nat_alt word_le_nat_alt)
qed

text \<open>What a step of the writer leaves alone.\<close>

definition writer_frame :: "BlockSystem \<Rightarrow> BlockSystem \<Rightarrow> bool" where
  "writer_frame s s' \<longleftrightarrow> reader s' = reader s \<and> length (bytes s') = length (bytes s) \<and> version s \<le> version s' \<and>
     (\<forall>w \<le> version s. history s' w = history s w) \<and> ticks s \<le> ticks s' \<and> (ticks s' = ticks s \<longrightarrow> odd (ticks s))"

lemma writer_step_ok:
  assumes "writer_step s s'" and "writer_ok s"
  shows "writer_ok s' \<and> writer_frame s s'"
  using assms
proof (induction rule: writer_step.induct)
  case (begin_write s)
  then show ?case by (auto simp: writer_ok_def writer_frame_def)
next
  case (store_byte s d i b)
  then show ?case by (auto simp: writer_ok_def writer_frame_def)
next
  case (publish_version s d)
  then have odd: "odd (ticks s)" and le: "2 * unat (version s) \<le> ticks s" "ticks s < 2 ^ 64" by (auto simp: writer_ok_def)
  then have lt: "2 * unat (version s) < 2 ^ 64" by simp
  note v = version_step [OF lt]
  have "2 * unat (version s) + 1 \<le> ticks s" using odd le by presburger
  then have "2 * unat (version s + 1) \<le> ticks s + 1" by (simp add: v(1))
  moreover have "version s \<le> version s + 1" by (rule v(3)) simp
  ultimately show ?case using publish_version odd v(2,4) by (auto simp: writer_ok_def writer_frame_def)
next
  case (end_write s)
  then show ?case by (auto simp: writer_ok_def writer_frame_def)
next
  case (end_unmodified s)
  then show ?case by (auto simp: writer_ok_def writer_frame_def)
qed

lemma writer_step_reader:
  assumes "writer_ok s" and "reader_ok s" and "writer_frame s s'"
  shows "reader_ok s'"
proof (cases "reader s")
  case (REpoch e)
  then obtain t where "t \<le> ticks s" "e = of_nat t" using assms(2) by (auto simp: reader_ok_def)
  moreover have "reader s' = REpoch e" "ticks s \<le> ticks s'" using REpoch assms(3) by (auto simp: writer_frame_def)
  ultimately show ?thesis by (auto simp: reader_ok_def intro!: exI [of _ t])
next
  case (RCopy e v buf)
  then have r: "e AND 1 = 0" "v \<le> version s" "length buf \<le> length (bytes s)" and q: "quiet e v buf s"
    using assms(2) by (auto simp: reader_ok_def)
  from q obtain t where t: "t \<le> ticks s" "e = of_nat t" by (auto simp: quiet_def)
  have "quiet e v buf s'"
    unfolding quiet_def using t assms(3) by (intro exI [of _ t]) (auto simp: writer_frame_def)
  then show ?thesis using RCopy r assms(3) by (auto simp: reader_ok_def writer_frame_def)
next
  case (REpoch2 e v buf e2)
  then show ?thesis using assms by (auto simp: reader_ok_def writer_frame_def)
next
  case (RDone a)
  have "ld_version_after a \<le> version s" if "stable a"
    using that RDone assms(1,2) by (auto simp: reader_ok_def writer_ok_def)
  then show ?thesis using RDone assms(2,3) by (auto simp: reader_ok_def writer_frame_def)
qed (use assms in \<open>auto simp: reader_ok_def writer_frame_def\<close>)

lemma reader_step_ok:
  assumes "reader_step s s'" and "writer_ok s" and "reader_ok s"
  shows "writer_ok s' \<and> reader_ok s'"
  using assms
proof (induction rule: reader_step.induct)
  case (load_version s e)
  then show ?case by (auto simp: reader_ok_def writer_ok_def quiet_def)
next
  case (copy_byte s e v buf)
  then show ?case by (auto simp: reader_ok_def writer_ok_def quiet_def take_Suc_conv_app_nth)
next
  case (reload_epoch s e v buf)
  then obtain t where t: "t \<le> ticks s" "e = of_nat t" "e AND 1 = 0" "v \<le> version s"
      "t = ticks s \<longrightarrow> even t \<longrightarrow> version s = v \<and> buf = take (length buf) (bytes s)"
    by (auto simp: reader_ok_def quiet_def)
  have w: "epoch s = of_nat (ticks s)" "ticks s < 2 ^ 64" "even (ticks s) \<longleftrightarrow> writer s = WIdle"
      "writer s \<noteq> WActive True \<longrightarrow> history s (version s) = Some (bytes s)"
    using reload_epoch by (auto simp: writer_ok_def)
  have "history s v = Some buf" if "e = epoch s"
  proof -
    have "t = ticks s" using that t(1,2) w(1,2) by (simp add: tick_inj)
    moreover have "even t" using t(2,3) even_epoch by blast
    ultimately show ?thesis using t(5) w(3,4) reload_epoch(2) by auto
  qed
  then show ?case using reload_epoch t(4) by (auto simp: reader_ok_def writer_ok_def)
next
  case (reload_version s e v buf e2)
  then show ?case by (auto simp: reader_ok_def writer_ok_def stable_def)
qed (auto simp: reader_ok_def writer_ok_def)

lemma block_reach_ok: "block_reach content s \<Longrightarrow> writer_ok s \<and> reader_ok s"
proof (induction rule: block_reach.induct)
  case start
  then show ?case by (auto simp: writer_ok_def reader_ok_def)
next
  case (writes s s')
  then show ?case using writer_step_ok writer_step_reader by blast
next
  case (reads s s')
  then show ?case using reader_step_ok by blast
qed

text \<open>
  C4.  A validated read is never torn.  However the loads of a reader and the stores of writers interleave, a try whose
  epochs agree and are even and whose versions agree has copied exactly the bytes that were published under the version it
  reports.
\<close>

theorem stable_read_is_published:
  assumes "block_reach content s" and "reader s = RDone a" and "stable a"
  shows "history s (ld_version_after a) = Some (ld_bytes a) \<and> ld_version_after a \<le> version s"
  using block_reach_ok [OF assms(1)] assms(2,3) by (auto simp: reader_ok_def writer_ok_def)

text \<open>A write of one byte, and a read after it.\<close>

definition written_block :: "ReaderPC \<Rightarrow> BlockSystem" where
  "written_block r = \<lparr>epoch = 2, version = 1, bytes = [9], writer = WIdle, reader = r, ticks = Suc (Suc 0), history = [0 \<mapsto> [5], 1 \<mapsto> [9]]\<rparr>"

lemma written_block_reach: "block_reach [5] (written_block RIdle)"
proof -
  let ?s0 = "\<lparr>epoch = 0, version = 0, bytes = [5], writer = WIdle, reader = RIdle, ticks = 0, history = [0 \<mapsto> [5]]\<rparr>"
  let ?s1 = "?s0\<lparr>epoch := 1, ticks := 1, writer := WActive False\<rparr>"
  let ?s2 = "?s1\<lparr>bytes := [9], writer := WActive True\<rparr>"
  let ?s3 = "?s2\<lparr>version := 1, history := [0 \<mapsto> [5], 1 \<mapsto> [9]], writer := WPublished\<rparr>"
  have "writer_step ?s0 ?s1" using begin_write [of ?s0] by simp
  with block_reach.start have r1: "block_reach [5] ?s1" by (rule block_reach.writes)
  have "writer_step ?s1 ?s2" using store_byte [of ?s1 False 0 9] by simp
  with r1 have r2: "block_reach [5] ?s2" by (rule block_reach.writes)
  have "writer_step ?s2 ?s3" using publish_version [of ?s2 True] by simp
  with r2 have r3: "block_reach [5] ?s3" by (rule block_reach.writes)
  have "writer_step ?s3 (written_block RIdle)" using end_write [of ?s3] by (simp add: written_block_def)
  with r3 show ?thesis by (rule block_reach.writes)
qed

theorem stable_read_is_published_witness:
  "\<exists>s a. block_reach [5] s \<and> reader s = RDone a \<and> stable a \<and> history s (ld_version_after a) = Some (ld_bytes a) \<and> ld_bytes a = [9]"
proof -
  let ?a = "\<lparr>ld_epoch_before = 2, ld_version_before = 1, ld_bytes = [9], ld_epoch_after = 2, ld_version_after = 1\<rparr>"
  have "reader_step (written_block RIdle) (written_block (REpoch 2))"
    using load_epoch [of "written_block RIdle"] by (simp add: written_block_def)
  with written_block_reach have r1: "block_reach [5] (written_block (REpoch 2))" by (rule block_reach.reads)
  have "reader_step (written_block (REpoch 2)) (written_block (RCopy 2 1 []))"
    using load_version [of "written_block (REpoch 2)" 2] by (simp add: written_block_def)
  with r1 have r2: "block_reach [5] (written_block (RCopy 2 1 []))" by (rule block_reach.reads)
  have "reader_step (written_block (RCopy 2 1 [])) (written_block (RCopy 2 1 [9]))"
    using copy_byte [of "written_block (RCopy 2 1 [])" 2 1 "[]"] by (simp add: written_block_def)
  with r2 have r3: "block_reach [5] (written_block (RCopy 2 1 [9]))" by (rule block_reach.reads)
  have "reader_step (written_block (RCopy 2 1 [9])) (written_block (REpoch2 2 1 [9] 2))"
    using reload_epoch [of "written_block (RCopy 2 1 [9])" 2 1 "[9]"] by (simp add: written_block_def)
  with r3 have r4: "block_reach [5] (written_block (REpoch2 2 1 [9] 2))" by (rule block_reach.reads)
  have "reader_step (written_block (REpoch2 2 1 [9] 2)) (written_block (RDone ?a))"
    using reload_version [of "written_block (REpoch2 2 1 [9] 2)" 2 1 "[9]" 2] by (simp add: written_block_def)
  with r4 have r5: "block_reach [5] (written_block (RDone ?a))" by (rule block_reach.reads)
  have st: "stable ?a" "reader (written_block (RDone ?a)) = RDone ?a" by (simp_all add: stable_def written_block_def)
  with stable_read_is_published [OF r5 st(2,1)] r5 show ?thesis
    by (intro exI [of _ "written_block (RDone ?a)"] exI [of _ ?a]) simp
qed

end
