(* ===== verification/Cx_Reads.thy ===== *)
theory Cx_Reads
  imports Cx_Replicas Cx_Seqlock Cx_Samples
begin

text \<open>
  Reads through the cache (\<^verbatim>\<open>ReadRange\<close> of \<^verbatim>\<open>src/loommem/runtime.cpp\<close>): a range of an object is put together
  from the blocks it touches; a block comes from the current index, or is read from shared memory and validated, or is
  an older copy whose version proves to be current.

  The loads of a block that others may be writing are an argument: \<open>loads i\<close> lists what the tries at block \<open>i\<close> read
  until the deadline, in the form of \<^const>\<open>stable\<close>.  \<open>None\<close> is the access past the end of a map that the cache rules
  out.
\<close>

section \<open>The operation\<close>

record ReadSnapshot =
  rd_object :: GlobalPointer
  rd_offset :: u64
  rd_versions :: "Version list"
  rd_storage :: "u8 list"

definition no_info :: AllocationInfo where
  "no_info = \<lparr>ai_gptr = \<lparr>region_id = 0, gp_offset = 0\<rparr>, ai_bytes = 0, ai_alignment = 0, ai_owner_host = 0,
     ai_coherence_block_bytes = 0, ai_coherence_block_count = 0, ai_coherence_metadata_offset = 0\<rparr>"

definition info_of :: "GlobalPointer \<Rightarrow> AllocationDescriptor \<Rightarrow> AllocationInfo" where
  "info_of object d = \<lparr>ai_gptr = object, ai_bytes = ad_bytes d, ai_alignment = ad_alignment d, ai_owner_host = ad_owner_host d,
     ai_coherence_block_bytes = ad_coherence_block_bytes d, ai_coherence_block_count = ad_coherence_block_count d,
     ai_coherence_metadata_offset = ad_coherence_metadata_offset d\<rparr>"

text \<open>The variables that \<^verbatim>\<open>admit\<close> and the loop share: whether the object is pinned, its geometry, the cache.\<close>

record ReadState =
  pinned :: bool
  info :: AllocationInfo
  cache :: ReplicaCache

definition admit :: "ReplicaEnv \<Rightarrow> GlobalPointer \<Rightarrow> ReadState \<Rightarrow> Status \<times> ReadState" where
  "admit e object R =
     (if pinned R then (kOk, R)
      else (case AcquireReference (re_allocator e) (cache_mem (cache R)) object (re_host e) False of
              (Inl st, M) \<Rightarrow> (st, R\<lparr>cache := (cache R)\<lparr>cache_mem := M\<rparr>\<rparr>)
            | (Inr off, M) \<Rightarrow>
                let d = descriptors M off;
                    R1 = R\<lparr>pinned := True, cache := (cache R)\<lparr>cache_mem := M\<rparr>\<rparr> in
                if ai_bytes (info R) \<noteq> 0 \<and>
                   (ai_bytes (info R) \<noteq> ad_bytes d \<or> ai_coherence_block_bytes (info R) \<noteq> ad_coherence_block_bytes d \<or>
                    ai_coherence_metadata_offset (info R) \<noteq> ad_coherence_metadata_offset d)
                then (kUnavailable, R1)
                else (kOk, R1\<lparr>info := info_of object d\<rparr>)))"

text \<open>The loop of tries at one block; the end of the list is the deadline.\<close>

fun read_attempts :: "ReplicaEnv \<Rightarrow> u64 \<Rightarrow> AllocationInfo \<Rightarrow> u64 \<Rightarrow> u64 \<Rightarrow> u64 \<Rightarrow> BlockLoad list \<Rightarrow> ReplicaCache \<Rightarrow>
    ((Version \<times> u8 list) Result \<times> ReplicaCache) option" where
  "read_attempts e k geo descriptor i block_bytes [] S = Some (Inl kUnavailable, S)"
| "read_attempts e k geo descriptor i block_bytes (a # as) S =
     (let metadata_status = visibility_status (re_cpu e) sizeof_CoherenceBlockDescriptor kReleaseAcquire;
          data_status = visibility_status (re_cpu e) block_bytes kReleaseAcquire;
          old = map_of (old_replicas S) k;
          reuse = (\<exists>r. old = Some r \<and> rp_version r = ld_version_before a);
          replica = (if reuse then rp_storage (the old) else ld_bytes a) in
      if metadata_status \<noteq> kOk then Some (Inl metadata_status, S)
      else if ld_epoch_before a AND 1 \<noteq> 0 then read_attempts e k geo descriptor i block_bytes as S
      else if \<not> reuse \<and> data_status \<noteq> kOk then Some (Inl data_status, S)
      else if ld_epoch_before a \<noteq> ld_epoch_after a \<or> ld_epoch_after a AND 1 \<noteq> 0 \<or> ld_version_before a \<noteq> ld_version_after a
      then read_attempts e k geo descriptor i block_bytes as S
      else (case CacheReplicaLocked e k geo descriptor i (ld_version_after a) replica S of
              None \<Rightarrow> None
            | Some S1 \<Rightarrow> Some (Inr (ld_version_after a, replica), S1)))"

definition cache_key :: "AllocationInfo \<Rightarrow> u64 \<Rightarrow> u64" where
  "cache_key geo i = ai_coherence_metadata_offset geo + i * sizeof_CoherenceBlockDescriptor"

definition block_size :: "AllocationInfo \<Rightarrow> u64 \<Rightarrow> u64" where
  "block_size geo i = min (ai_coherence_block_bytes geo) (ai_bytes geo - i * ai_coherence_block_bytes geo)"

text \<open>One block from shared memory.\<close>

definition read_shared :: "ReplicaEnv \<Rightarrow> GlobalPointer \<Rightarrow> BlockLoad list \<Rightarrow> u64 \<Rightarrow> ReadState \<Rightarrow>
    ((Version \<times> u8 list) Result \<times> ReadState) option" where
  "read_shared e object tries i R =
     (case admit e object R of (st, R1) \<Rightarrow>
        if st \<noteq> kOk then Some (Inl st, R1)
        else (case MutableCoherenceBlock (re_allocator e) (cache_mem (cache R1)) object i True of
                (Inl st, M) \<Rightarrow> Some (Inl st, R1\<lparr>cache := (cache R1)\<lparr>cache_mem := M\<rparr>\<rparr>)
              | (Inr b, M) \<Rightarrow>
                  (case read_attempts e (cache_key (info R) i) (info R1) (gp_offset object) i (block_size (info R) i) tries
                      ((cache R1)\<lparr>cache_mem := M\<rparr>) of
                     None \<Rightarrow> None
                   | Some (r, S) \<Rightarrow> Some (r, R1\<lparr>cache := S\<rparr>))))"

text \<open>One block: from the current index, or else from shared memory.\<close>

definition read_block :: "ReplicaEnv \<Rightarrow> GlobalPointer \<Rightarrow> BlockLoad list \<Rightarrow> u64 \<Rightarrow> ReadState \<Rightarrow>
    ((Version \<times> u8 list) Result \<times> ReadState) option" where
  "read_block e object tries i R =
     (let k = cache_key (info R) i in
      case map_of (replicas (cache R)) k of
        None \<Rightarrow> read_shared e object tries i R
      | Some r \<Rightarrow>
          if rp_object_offset r = gp_offset object
          then Some (Inr (rp_version r, rp_storage r), R\<lparr>cache := touch_replica k (cache R)\<rparr>)
          else read_shared e object tries i R)"

text \<open>\<^verbatim>\<open>std::memcpy\<close> into the middle of a vector.\<close>

definition splice :: "nat \<Rightarrow> u8 list \<Rightarrow> u8 list \<Rightarrow> u8 list" where
  "splice pos xs a = take pos a @ xs @ drop (pos + length xs) a"

definition copy_block :: "u64 \<Rightarrow> u64 \<Rightarrow> AllocationInfo \<Rightarrow> u64 \<Rightarrow> u8 list \<Rightarrow> u8 list \<Rightarrow> u8 list" where
  "copy_block offset n geo i replica assembled =
     (let block_start = i * ai_coherence_block_bytes geo;
          copy_begin = max offset block_start;
          copy_end = min (offset + n) (block_start + block_size geo i)
      in splice (unat (copy_begin - offset)) (take (unat (copy_end - copy_begin)) (drop (unat (copy_begin - block_start)) replica)) assembled)"

fun read_blocks :: "ReplicaEnv \<Rightarrow> GlobalPointer \<Rightarrow> u64 \<Rightarrow> u64 \<Rightarrow> (u64 \<Rightarrow> BlockLoad list) \<Rightarrow> u64 list \<Rightarrow> Version list \<times> u8 list \<Rightarrow>
    ReadState \<Rightarrow> ((Version list \<times> u8 list) Result \<times> ReadState) option" where
  "read_blocks e object offset n loads [] acc R = Some (Inr acc, R)"
| "read_blocks e object offset n loads (i # is) acc R =
     (case read_block e object (loads i) i R of
        None \<Rightarrow> None
      | Some (Inl st, R1) \<Rightarrow> Some (Inl st, R1)
      | Some (Inr (v, replica), R1) \<Rightarrow>
          read_blocks e object offset n loads is (fst acc @ [v], copy_block offset n (info R) i replica (snd acc)) R1)"

text \<open>The object is unpinned on every way out.\<close>

definition leave_read :: "ReplicaEnv \<Rightarrow> GlobalPointer \<Rightarrow> ReadState \<Rightarrow> ReplicaCache" where
  "leave_read e object R =
     (if pinned R then (cache R)\<lparr>cache_mem := snd (ReleaseReference (cache_mem (cache R)) (gp_offset object) (re_host e))\<rparr> else cache R)"

definition block_indices :: "u64 \<Rightarrow> u64 \<Rightarrow> u64 \<Rightarrow> u64 list" where
  "block_indices offset n g = map of_nat [unat (offset div g)..<Suc (unat ((offset + n - 1) div g))]"

text \<open>
  The single-block shortcut of the source returns the shared copy itself instead of a vector with the same bytes; a
  snapshot is immutable either way.
\<close>

definition ReadRange :: "ReplicaEnv \<Rightarrow> bool \<Rightarrow> GlobalPointer \<Rightarrow> u64 \<Rightarrow> u64 \<Rightarrow> u64 \<Rightarrow> bool \<Rightarrow> (u64 \<Rightarrow> BlockLoad list) \<Rightarrow> ReplicaCache \<Rightarrow>
    (ReadSnapshot Result \<times> ReplicaCache) option" where
  "ReadRange e up object offset n timeout_ms full_object loads S =
     (if \<not> up \<or> timeout_ms = 0 then Some (Inl kFailedPrecondition, S)
      else if region_id object \<noteq> 0 then Some (Inl kInvalidArgument, S)
      else let geo0 = (case cached_objects S (gp_offset object) of None \<Rightarrow> no_info | Some ob \<Rightarrow> co_info ob);
               R0 = \<lparr>pinned = False, info = geo0, cache = S\<rparr> in
        (case if ai_bytes geo0 = 0 then admit e object R0 else (kOk, R0) of (st, R1) \<Rightarrow>
           if st \<noteq> kOk then Some (Inl st, leave_read e object R1)
           else let m = (if full_object then ai_bytes (info R1) else n) in
             if m = 0 \<or> ai_bytes (info R1) < offset \<or> ai_bytes (info R1) - offset < m
             then Some (Inl kInvalidArgument, leave_read e object R1)
             else (case read_blocks e object offset m loads (block_indices offset m (ai_coherence_block_bytes (info R1)))
                       ([], replicate (unat m) 0) R1 of
                     None \<Rightarrow> None
                   | Some (Inl st, R2) \<Rightarrow> Some (Inl st, leave_read e object R2)
                   | Some (Inr (versions, assembled), R2) \<Rightarrow>
                       Some (Inr \<lparr>rd_object = object, rd_offset = offset, rd_versions = versions, rd_storage = assembled\<rparr>,
                             leave_read e object R2))))"

definition AcquireReadSnapshot where
  "AcquireReadSnapshot e up object timeout_ms loads S = ReadRange e up object 0 0 timeout_ms True loads S"

definition AcquireReadRange where
  "AcquireReadRange e up object offset n timeout_ms loads S = ReadRange e up object offset n timeout_ms False loads S"

section \<open>Copying\<close>

lemma splice_nth:
  assumes "pos + length xs \<le> length a"
  shows "length (splice pos xs a) = length a" "j < pos \<Longrightarrow> splice pos xs a ! j = a ! j"
    "pos \<le> j \<Longrightarrow> j < pos + length xs \<Longrightarrow> splice pos xs a ! j = xs ! (j - pos)"
  using assms by (auto simp: splice_def nth_append min_def)

text \<open>The geometry of a range of an object: it lies inside, and no address wraps around.\<close>

definition range_ok :: "AllocationInfo \<Rightarrow> u64 \<Rightarrow> u64 \<Rightarrow> bool" where
  "range_ok geo offset n \<longleftrightarrow> n \<noteq> 0 \<and> ai_coherence_block_bytes geo \<noteq> 0 \<and> unat offset + unat n \<le> unat (ai_bytes geo) \<and>
     unat (ai_bytes geo) + unat (ai_coherence_block_bytes geo) \<le> 2 ^ 64"

definition touched :: "AllocationInfo \<Rightarrow> u64 \<Rightarrow> u64 \<Rightarrow> nat \<Rightarrow> bool" where
  "touched geo offset n i \<longleftrightarrow> unat offset div unat (ai_coherence_block_bytes geo) \<le> i \<and>
     i \<le> (unat offset + unat n - 1) div unat (ai_coherence_block_bytes geo)"

lemma block_indices_eq:
  assumes "range_ok geo offset n"
  shows "block_indices offset n (ai_coherence_block_bytes geo) =
    map of_nat [unat offset div unat (ai_coherence_block_bytes geo)..<Suc ((unat offset + unat n - 1) div unat (ai_coherence_block_bytes geo))]"
proof -
  have pos: "0 < unat n" "0 < unat (ai_coherence_block_bytes geo)" using assms by (auto simp: range_ok_def unat_gt_0)
  have fits: "unat offset + unat n < 2 ^ 64" using assms pos(2) unfolding range_ok_def by linarith
  have e: "unat (offset + n) = unat offset + unat n" using fits by (subst unat_add_no_wrap) simp_all
  have "offset + n \<noteq> 0" using e pos by (metis add_is_0 less_numeral_extra(3) unsigned_0)
  then have "unat ((offset + n - 1) div ai_coherence_block_bytes geo) = (unat offset + unat n - 1) div unat (ai_coherence_block_bytes geo)"
    using e by (simp add: unat_div unat_minus_one)
  then show ?thesis by (simp only: block_indices_def) (simp add: unat_div del: upt_Suc)
qed

lemma touched_bounds:
  assumes "range_ok geo offset n" and "touched geo offset n i"
  defines "g \<equiv> unat (ai_coherence_block_bytes geo)"
  shows "i * g < unat offset + unat n" "unat offset < (i + 1) * g" "(i + 1) * g < 2 ^ 64" "unat (of_nat i :: u64) = i"
    "unat (of_nat i * ai_coherence_block_bytes geo) = i * g" "unat (block_size geo (of_nat i)) = min g (unat (ai_bytes geo) - i * g)"
proof -
  have r: "0 < unat n" "0 < g" "unat offset + unat n \<le> unat (ai_bytes geo)" "unat (ai_bytes geo) + g \<le> 2 ^ 64"
    using assms(1) by (auto simp: range_ok_def g_def unat_gt_0)
  have "i * g \<le> unat offset + unat n - 1" using assms(2) r(2) by (simp add: touched_def g_def less_eq_div_iff_mult_less_eq)
  then show lt: "i * g < unat offset + unat n" using r(1) by simp
  have "unat offset div g < i + 1" using assms(2) by (simp add: touched_def g_def)
  then show "unat offset < (i + 1) * g" using r(2) by (simp only: div_less_iff_less_mult)
  show top: "(i + 1) * g < 2 ^ 64" using lt r(3,4) by simp
  have "(i + 1) * 1 \<le> (i + 1) * g" using r(2) by (intro mult_le_mono2) simp
  then have "i < 2 ^ 64" using top by simp
  then show i: "unat (of_nat i :: u64) = i" by (simp add: unat_of_nat)
  show m: "unat (of_nat i * ai_coherence_block_bytes geo) = i * g" using top i by (simp add: unat_word_ariths g_def)
  have "unat (ai_bytes geo - of_nat i * ai_coherence_block_bytes geo) = unat (ai_bytes geo) - i * g"
    using lt r(3) m by (subst unat_sub_no_wrap) (simp_all add: word_le_nat_alt)
  then show "unat (block_size geo (of_nat i)) = min g (unat (ai_bytes geo) - i * g)"
    by (auto simp: block_size_def min_def word_le_nat_alt g_def)
qed

lemma copy_block_nth:
  assumes "range_ok geo offset n" and "touched geo offset n i" and "length replica = unat (block_size geo (of_nat i))" and "length a = unat n"
  defines "g \<equiv> unat (ai_coherence_block_bytes geo)"
  shows "length (copy_block offset n geo (of_nat i) replica a) = unat n"
    "j < min (unat offset + unat n) ((i + 1) * g) - unat offset \<Longrightarrow> i * g \<le> unat offset + j \<Longrightarrow>
       copy_block offset n geo (of_nat i) replica a ! j = replica ! (unat offset + j - i * g)"
    "unat offset + j < i * g \<Longrightarrow> copy_block offset n geo (of_nat i) replica a ! j = a ! j"
proof -
  let ?o = "unat offset" and ?n = "unat n" and ?B = "unat (ai_bytes geo)" and ?bs = "of_nat i * ai_coherence_block_bytes geo"
  note t = touched_bounds [OF assms(1,2), folded g_def]
  have r: "0 < ?n" "?o + ?n \<le> ?B" "?B + g \<le> 2 ^ 64" "0 < g" using assms(1) by (auto simp: range_ok_def g_def unat_gt_0)
  let ?cb = "max offset ?bs" and ?ce = "min (offset + n) (?bs + block_size geo (of_nat i))"
  have cb: "unat ?cb = max ?o (i * g)" using t(5) by (auto simp: max_def word_le_nat_alt)
  have s: "unat (offset + n) = ?o + ?n" using r by (subst unat_add_no_wrap) simp_all
  have "i * g + min g (?B - i * g) = min ((i + 1) * g) ?B" using t(1) r(2) by simp
  then have e: "unat (?bs + block_size geo (of_nat i)) = min ((i + 1) * g) ?B"
    using t r by (subst unat_add_no_wrap) (simp_all add: min_def)
  have ce: "unat ?ce = min (?o + ?n) ((i + 1) * g)" using s e r(2) by (auto simp: min_def word_le_nat_alt)
  have le: "max ?o (i * g) \<le> min (?o + ?n) ((i + 1) * g)" using t(1,2) r by simp
  have p: "unat (?cb - offset) = max ?o (i * g) - ?o" using cb by (subst unat_sub_no_wrap) simp_all
  have d: "unat (?cb - ?bs) = max ?o (i * g) - i * g" using cb t(5) by (subst unat_sub_no_wrap) simp_all
  have l: "unat (?ce - ?cb) = min (?o + ?n) ((i + 1) * g) - max ?o (i * g)"
    using cb ce le by (subst unat_sub_no_wrap) (simp_all add: word_le_nat_alt)
  let ?part = "take (min (?o + ?n) ((i + 1) * g) - max ?o (i * g)) (drop (max ?o (i * g) - i * g) replica)"
  have c: "copy_block offset n geo (of_nat i) replica a = splice (max ?o (i * g) - ?o) ?part a"
    by (simp only: copy_block_def Let_def p d l)
  have rl: "min (?o + ?n) ((i + 1) * g) - i * g \<le> length replica" unfolding assms(3) t(6) using r(2) by (simp add: min_def) linarith
  then have dl: "max ?o (i * g) - i * g \<le> length replica" using le by linarith
  have pl: "length ?part = min (?o + ?n) ((i + 1) * g) - max ?o (i * g)" using rl by simp
  have fit: "max ?o (i * g) - ?o + length ?part \<le> length a" unfolding pl using le assms(4) by simp
  note sp = splice_nth [OF fit]
  show "length (copy_block offset n geo (of_nat i) replica a) = ?n" using c sp(1) assms(4) by simp
  show "copy_block offset n geo (of_nat i) replica a ! j = a ! j" if "?o + j < i * g"
    using c sp(2) that by simp
  show "copy_block offset n geo (of_nat i) replica a ! j = replica ! (?o + j - i * g)"
    if j: "j < min (?o + ?n) ((i + 1) * g) - ?o" "i * g \<le> ?o + j"
  proof -
    have a: "max ?o (i * g) - ?o \<le> j" "j < max ?o (i * g) - ?o + length ?part" unfolding pl using j by simp_all
    have "?part ! (j - (max ?o (i * g) - ?o)) = replica ! (?o + j - i * g)"
    proof -
      have "j - (max ?o (i * g) - ?o) < min (?o + ?n) ((i + 1) * g) - max ?o (i * g)" using a pl by linarith
      then have "?part ! (j - (max ?o (i * g) - ?o)) = replica ! (max ?o (i * g) - i * g + (j - (max ?o (i * g) - ?o)))"
        using dl by (simp only: nth_take nth_drop)
      moreover have "max ?o (i * g) - i * g + (j - (max ?o (i * g) - ?o)) = ?o + j - i * g"
        using j(2) by (simp add: max_def)
      ultimately show ?thesis by (simp only:)
    qed
    then show ?thesis unfolding c sp(3) [OF a] .
  qed
qed

section \<open>Copies are of published versions\<close>

text \<open>\<open>C k v\<close> is what was published as version \<open>v\<close> of the block with the metadata at \<open>k\<close>.\<close>

definition copies_ok :: "(u64 \<Rightarrow> Version \<Rightarrow> u8 list) \<Rightarrow> ReplicaCache \<Rightarrow> bool" where
  "copies_ok C S \<longleftrightarrow> (\<forall>p \<in> set (entries S). rp_storage (snd p) = C (fst p) (rp_version (snd p)))"

definition env_ok :: "ReplicaEnv \<Rightarrow> u64 \<Rightarrow> bool" where
  "env_ok e g \<longleftrightarrow> re_host e < 64 \<and> unat (re_capacity_entries e) + 2 < 2 ^ 64 \<and> unat (re_capacity_bytes e) + unat g < 2 ^ 64"

definition sound :: "ReplicaEnv \<Rightarrow> (u64 \<Rightarrow> Version \<Rightarrow> u8 list) \<Rightarrow> ReplicaCache \<Rightarrow> bool" where
  "sound e C S \<longleftrightarrow> cache_ok e S \<and> copies_ok C S"

lemma sound_touch:
  assumes "sound e C S"
  shows "sound e C (touch_replica k S)"
proof (cases "map_of (replicas S) k")
  case None
  then show ?thesis using assms by (simp add: touch_replica_def)
next
  case (Some r)
  let ?r = "r\<lparr>rp_last_access := replica_access_clock S + 1\<rparr>"
  have "set (AList.update k ?r xs) \<subseteq> insert (k, ?r) (set xs)" for xs by (induction xs) auto
  then have "set (entries (touch_replica k S)) \<subseteq> insert (k, ?r) (set (entries S))"
    using Some by (auto simp: touch_replica_def entries_def Let_def)
  moreover have "(k, r) \<in> set (entries S)" using map_of_SomeD [OF Some] by (simp add: entries_def)
  then have "rp_storage ?r = C k (rp_version ?r)" using assms by (auto simp: sound_def copies_ok_def)
  ultimately have "copies_ok C (touch_replica k S)" using assms by (fastforce simp: sound_def copies_ok_def)
  then show ?thesis using assms touch_replica_ok by (simp add: sound_def)
qed

lemma sound_mem:
  assumes "sound e C S" and "\<And>off. ad_replica_hosts (descriptors M off) = ad_replica_hosts (descriptors (cache_mem S) off)"
  shows "sound e C (S\<lparr>cache_mem := M\<rparr>)"
proof -
  have "cache_ok e (S\<lparr>cache_mem := M\<rparr>)"
    by (rule cache_ok_cong [of e S]) (use assms in \<open>simp_all add: sound_def entries_def is_member_def\<close>)
  then show ?thesis using assms(1) by (simp add: sound_def copies_ok_def entries_def)
qed

lemma sound_fill:
  assumes "sound e C S" and "env_ok e g" and "storage = C k v" and "length storage \<le> unat g"
  shows "\<exists>S'. CacheReplicaLocked e k geo (gp_offset (ai_gptr geo)) i v storage S = Some S' \<and> sound e C S'"
proof -
  have room: "unat (re_capacity_bytes e) + length storage < 2 ^ 64" using assms(2,4) by (simp add: env_ok_def)
  obtain S' where S': "CacheReplicaLocked e k geo (gp_offset (ai_gptr geo)) i v storage S = Some S'" "cache_ok e S'"
    "set (entries S') \<subseteq> insert (k, new_replica geo i v storage (replica_access_clock S + 1)) (set (AList.delete k (entries S)))"
    using CacheReplicaLocked_ok [of e S "gp_offset (ai_gptr geo)" geo storage k i v] assms(1,2) room by (auto simp: sound_def env_ok_def)
  have "set (AList.delete k (entries S)) \<subseteq> set (entries S)" by (auto simp: AList.delete_eq)
  then have "copies_ok C S'" using S'(3) assms(1,3) by (fastforce simp: sound_def copies_ok_def new_replica_def)
  then show ?thesis using S'(1,2) by (simp add: sound_def)
qed

lemma read_attempts_sound:
  assumes "sound e C S" and "env_ok e g" and "descriptor = gp_offset (ai_gptr geo)"
    and "\<And>a. a \<in> set tries \<Longrightarrow> stable a \<Longrightarrow> ld_bytes a = C k (ld_version_after a)" and "\<And>v. length (C k v) \<le> unat g"
  shows "\<exists>r S'. read_attempts e k geo descriptor i bb tries S = Some (r, S') \<and> sound e C S' \<and> (\<forall>v st. r = Inr (v, st) \<longrightarrow> st = C k v)"
  using assms(4)
proof (induction tries)
  case (Cons a as)
  note ih = Cons.IH [OF Cons.prems [OF list.set_intros(2)]]
  let ?reuse = "\<exists>r. map_of (old_replicas S) k = Some r \<and> rp_version r = ld_version_before a"
  let ?st = "if ?reuse then rp_storage (the (map_of (old_replicas S) k)) else ld_bytes a"
  show ?case
  proof (cases "visibility_status (re_cpu e) sizeof_CoherenceBlockDescriptor kReleaseAcquire = kOk \<and> ld_epoch_before a AND 1 = 0 \<and>
      (?reuse \<or> visibility_status (re_cpu e) bb kReleaseAcquire = kOk)")
    case False
    then show ?thesis using ih assms(1) by (auto simp: Let_def)
  next
    case ok: True
    show ?thesis
    proof (cases "stable a")
      case False
      then show ?thesis using ih ok by (simp add: stable_def Let_def) blast
    next
      case st: True
      then have v: "ld_version_before a = ld_version_after a" by (simp add: stable_def)
      have c: "?st = C k (ld_version_after a)"
      proof (cases ?reuse)
        case True
        then obtain r where r: "map_of (old_replicas S) k = Some r" "rp_version r = ld_version_before a" by blast
        then have "(k, r) \<in> set (entries S)" by (auto simp: entries_def dest: map_of_SomeD)
        then show ?thesis using r v assms(1) by (auto simp: sound_def copies_ok_def)
      next
        case False
        then show ?thesis unfolding if_not_P [OF False] using Cons.prems [OF _ st] by simp
      qed
      have len: "length ?st \<le> unat g" unfolding c by (rule assms(5))
      obtain S' where S': "CacheReplicaLocked e k geo (gp_offset (ai_gptr geo)) i (ld_version_after a) ?st S = Some S'" "sound e C S'"
        using sound_fill [OF assms(1,2) c len, of geo i] by blast
      have "read_attempts e k geo descriptor i bb (a # as) S = Some (Inr (ld_version_after a, ?st), S')"
        using ok st S'(1) assms(3) by (simp add: stable_def Let_def)
      then show ?thesis using S'(2) c by auto
    qed
  qed
qed (use assms in auto)

definition same_geometry :: "AllocationInfo \<Rightarrow> AllocationInfo \<Rightarrow> bool" where
  "same_geometry a b \<longleftrightarrow> ai_bytes a = ai_bytes b \<and> ai_coherence_block_bytes a = ai_coherence_block_bytes b \<and>
     ai_coherence_metadata_offset a = ai_coherence_metadata_offset b"

lemma same_geometry_eqs:
  assumes "same_geometry a b"
  shows "cache_key a i = cache_key b i" "block_size a i = block_size b i" "copy_block offset n a i replica xs = copy_block offset n b i replica xs"
  using assms by (simp_all add: same_geometry_def cache_key_def block_size_def copy_block_def)

text \<open>What holds between the steps of a read.\<close>

definition reading :: "ReplicaEnv \<Rightarrow> (u64 \<Rightarrow> Version \<Rightarrow> u8 list) \<Rightarrow> GlobalPointer \<Rightarrow> AllocationInfo \<Rightarrow> ReadState \<Rightarrow> bool" where
  "reading e C object geo R \<longleftrightarrow> sound e C (cache R) \<and> same_geometry (info R) geo \<and> ai_bytes geo \<noteq> 0 \<and> (pinned R \<longrightarrow> ai_gptr (info R) = object)"

lemma AcquireReference_replicas:
  assumes "AcquireReference A M g h b = (r, M')"
  shows "ad_replica_hosts (descriptors M' off) = ad_replica_hosts (descriptors M off)" "info_of object (descriptors M' off) = info_of object (descriptors M off)"
    "r = Inr d \<Longrightarrow> d = gp_offset g"
  by (rule AcquireReference_cases [of A M g h b]; use assms in \<open>auto simp: set_descriptor_def info_of_def\<close>)+

lemma AcquireReference_error: "AcquireReference A M g h b = (Inl st, M') \<Longrightarrow> st \<noteq> kOk"
  by (auto simp: AcquireReference_def LockAllocationSlot_def FindDescriptorLocked_def Let_def split: if_splits option.splits sum.splits)

lemma admit_sound:
  assumes "admit e object R = (st, R1)" and "sound e C (cache R)"
  shows "sound e C (cache R1)" "\<not> pinned R \<Longrightarrow> st = kOk \<Longrightarrow> info R1 = info_of object (descriptors (cache_mem (cache R)) (gp_offset object)) \<and> pinned R1"
    "\<not> pinned R \<Longrightarrow> st = kOk \<Longrightarrow> ai_bytes (info R) \<noteq> 0 \<Longrightarrow> same_geometry (info R1) (info R)" "st \<noteq> kOk \<Longrightarrow> info R1 = info R" "pinned R \<Longrightarrow> R1 = R \<and> st = kOk"
proof -
  obtain r M where a: "AcquireReference (re_allocator e) (cache_mem (cache R)) object (re_host e) False = (r, M)" by force
  note f = AcquireReference_replicas [OF a]
  have s: "sound e C ((cache R)\<lparr>cache_mem := M\<rparr>)" by (rule sound_mem [OF assms(2) f(1)])
  show "sound e C (cache R1)"
    using assms a s by (auto simp: admit_def Let_def split: if_splits sum.splits)
  show "info R1 = info_of object (descriptors (cache_mem (cache R)) (gp_offset object)) \<and> pinned R1" if "\<not> pinned R" "st = kOk"
    using assms(1) a that f(2,3) AcquireReference_error [of "re_allocator e"] by (auto simp: admit_def Let_def split: if_splits sum.splits)
  show "same_geometry (info R1) (info R)" if "\<not> pinned R" "st = kOk" "ai_bytes (info R) \<noteq> 0"
    using assms(1) a that AcquireReference_error [of "re_allocator e"]
    by (auto simp: admit_def Let_def same_geometry_def info_of_def split: if_splits sum.splits)
  show "info R1 = info R" if "st \<noteq> kOk"
    using assms(1) a that by (auto simp: admit_def Let_def split: if_splits sum.splits)
  show "R1 = R \<and> st = kOk" if "pinned R" using assms(1) that by (simp add: admit_def)
qed

definition block_read :: "ReplicaEnv \<Rightarrow> (u64 \<Rightarrow> Version \<Rightarrow> u8 list) \<Rightarrow> GlobalPointer \<Rightarrow> AllocationInfo \<Rightarrow> u64 \<Rightarrow>
    ((Version \<times> u8 list) Result \<times> ReadState) option \<Rightarrow> bool" where
  "block_read e C object geo i x \<longleftrightarrow> (\<exists>r R'. x = Some (r, R') \<and> sound e C (cache R') \<and>
     (\<forall>v st. r = Inr (v, st) \<longrightarrow> reading e C object geo R' \<and> st = C (cache_key geo i) v))"

lemma read_shared_sound:
  assumes "reading e C object geo R" and "env_ok e g"
    and "\<And>a. a \<in> set tries \<Longrightarrow> stable a \<Longrightarrow> ld_bytes a = C (cache_key geo i) (ld_version_after a)" and "\<And>v. length (C (cache_key geo i) v) \<le> unat g"
  shows "block_read e C object geo i (read_shared e object tries i R)"
proof -
  have sd: "sound e C (cache R)" and gm: "same_geometry (info R) geo" and nz: "ai_bytes geo \<noteq> 0" using assms(1) by (auto simp: reading_def)
  obtain st R1 where a: "admit e object R = (st, R1)" by force
  note ad = admit_sound [OF a sd]
  show ?thesis
  proof (cases "st = kOk")
    case False
    then show ?thesis using a ad(1) by (simp add: read_shared_def block_read_def)
  next
    case True
    have g1: "same_geometry (info R1) geo" and p1: "ai_gptr (info R1) = object"
      using ad(2,3,5) True assms(1) gm nz by (cases "pinned R"; auto simp: reading_def same_geometry_def info_of_def)+
    obtain r M where m: "MutableCoherenceBlock (re_allocator e) (cache_mem (cache R1)) object i True = (r, M)" by force
    then have M: "M = cache_mem (cache R1)" using read_only(5) [of "re_allocator e" "cache_mem (cache R1)" object i True] by simp
    have s1: "sound e C ((cache R1)\<lparr>cache_mem := M\<rparr>)" by (rule sound_mem [OF ad(1)]) (simp add: M)
    show ?thesis
    proof (cases r)
      case (Inl st')
      then show ?thesis using a True m s1 by (simp add: read_shared_def block_read_def)
    next
      case (Inr b)
      have k: "cache_key (info R) i = cache_key geo i" by (rule same_geometry_eqs [OF gm])
      obtain r2 S2 where r2: "read_attempts e (cache_key geo i) (info R1) (gp_offset object) i (block_size (info R) i) tries ((cache R1)\<lparr>cache_mem := M\<rparr>) = Some (r2, S2)"
        "sound e C S2" "\<forall>v st. r2 = Inr (v, st) \<longrightarrow> st = C (cache_key geo i) v"
        using read_attempts_sound [OF s1 assms(2), of "gp_offset object" "info R1" tries "cache_key geo i" i "block_size (info R) i"] assms(3,4) p1 by blast
      then have "read_shared e object tries i R = Some (r2, R1\<lparr>cache := S2\<rparr>)"
        using a True m Inr by (simp add: read_shared_def k)
      moreover have "reading e C object geo (R1\<lparr>cache := S2\<rparr>)" using r2(2) g1 p1 nz by (simp add: reading_def)
      ultimately show ?thesis using r2 by (auto simp: block_read_def)
    qed
  qed
qed

lemma read_block_sound:
  assumes "reading e C object geo R" and "env_ok e g"
    and "\<And>a. a \<in> set tries \<Longrightarrow> stable a \<Longrightarrow> ld_bytes a = C (cache_key geo i) (ld_version_after a)" and "\<And>v. length (C (cache_key geo i) v) \<le> unat g"
  shows "block_read e C object geo i (read_block e object tries i R)"
proof -
  have sd: "sound e C (cache R)" and gm: "same_geometry (info R) geo" using assms(1) by (auto simp: reading_def)
  note k = same_geometry_eqs(1) [OF gm, of i] and sh = read_shared_sound [OF assms]
  show ?thesis
  proof (cases "\<exists>r. map_of (replicas (cache R)) (cache_key geo i) = Some r \<and> rp_object_offset r = gp_offset object")
    case True
    then obtain r where r: "map_of (replicas (cache R)) (cache_key geo i) = Some r" "rp_object_offset r = gp_offset object" by blast
    then have "(cache_key geo i, r) \<in> set (entries (cache R))" by (auto simp: entries_def dest: map_of_SomeD)
    then have "rp_storage r = C (cache_key geo i) (rp_version r)" using sd by (auto simp: sound_def copies_ok_def)
    moreover have "reading e C object geo (R\<lparr>cache := touch_replica (cache_key geo i) (cache R)\<rparr>)"
      using assms(1) sound_touch [OF sd] by (simp add: reading_def)
    ultimately show ?thesis using r sound_touch [OF sd] by (auto simp: read_block_def k block_read_def Let_def)
  next
    case False
    then have "read_block e object tries i R = read_shared e object tries i R"
      by (auto simp: read_block_def k Let_def split: option.split)
    then show ?thesis using sh by simp
  qed
qed

section \<open>A whole range\<close>

text \<open>The index of a block of the object.\<close>

definition in_object :: "AllocationInfo \<Rightarrow> u64 \<Rightarrow> bool" where
  "in_object geo i \<longleftrightarrow> unat i * unat (ai_coherence_block_bytes geo) < unat (ai_bytes geo)"

definition byte_ok :: "(u64 \<Rightarrow> Version \<Rightarrow> u8 list) \<Rightarrow> AllocationInfo \<Rightarrow> u64 \<Rightarrow> Version list \<Rightarrow> u8 list \<Rightarrow> nat \<Rightarrow> bool" where
  "byte_ok C geo offset versions xs j \<longleftrightarrow>
     (let g = unat (ai_coherence_block_bytes geo); q = (unat offset + j) div g in
      xs ! j = C (cache_key geo (of_nat q)) (versions ! (q - unat offset div g)) ! ((unat offset + j) mod g))"

definition filled :: "(u64 \<Rightarrow> Version \<Rightarrow> u8 list) \<Rightarrow> AllocationInfo \<Rightarrow> u64 \<Rightarrow> u64 \<Rightarrow> nat \<Rightarrow> Version list \<Rightarrow> u8 list \<Rightarrow> bool" where
  "filled C geo offset n i versions xs \<longleftrightarrow> length versions = i - unat offset div unat (ai_coherence_block_bytes geo) \<and> length xs = unat n \<and>
     (\<forall>j < min (unat offset + unat n) (i * unat (ai_coherence_block_bytes geo)) - unat offset. byte_ok C geo offset versions xs j)"

lemma filled_step:
  assumes "range_ok geo offset n" and "touched geo offset n i" and "filled C geo offset n i versions xs"
    and "replica = C (cache_key geo (of_nat i)) v" and "length replica = unat (block_size geo (of_nat i))"
  shows "filled C geo offset n (Suc i) (versions @ [v]) (copy_block offset n geo (of_nat i) replica xs)"
proof -
  let ?g = "unat (ai_coherence_block_bytes geo)" and ?o = "unat offset" and ?ys = "copy_block offset n geo (of_nat i) replica xs"
  have f: "length versions = i - ?o div ?g" "length xs = unat n" using assms(3) by (auto simp: filled_def)
  have first: "?o div ?g \<le> i" using assms(2) by (simp add: touched_def)
  note c = copy_block_nth [OF assms(1,2,5) f(2)]
  have g: "0 < ?g" using assms(1) by (auto simp: range_ok_def unat_gt_0)
  have "byte_ok C geo offset (versions @ [v]) ?ys j" if j: "j < min (?o + unat n) (Suc i * ?g) - ?o" for j
  proof (cases "i * ?g \<le> ?o + j")
    case True
    have "?o + j < Suc i * ?g" using j by simp
    then have q: "(?o + j) div ?g = i" using True by (intro div_nat_eqI) (simp_all add: mult.commute)
    then have m: "(?o + j) mod ?g = ?o + j - i * ?g" by (metis minus_div_mult_eq_mod)
    have "?ys ! j = replica ! (?o + j - i * ?g)" by (rule c(2)) (use j True in simp_all)
    then show ?thesis using f(1) assms(4) by (simp add: byte_ok_def q m Let_def nth_append)
  next
    case False
    then have q: "(?o + j) div ?g < i" using g by (simp add: div_less_iff_less_mult)
    have "?ys ! j = xs ! j" by (rule c(3)) (use False in simp)
    moreover have "byte_ok C geo offset versions xs j" using assms(3) False j by (simp add: filled_def)
    moreover have "?o div ?g \<le> (?o + j) div ?g" by (simp add: div_le_mono)
    then have "(?o + j) div ?g - ?o div ?g < length versions" using q f(1) by linarith
    ultimately show ?thesis by (simp add: byte_ok_def Let_def nth_append)
  qed
  then show ?thesis using f first c(1) by (simp add: filled_def Suc_diff_le)
qed

lemma read_blocks_sound:
  assumes "range_ok geo offset n" and "env_ok e (ai_coherence_block_bytes geo)"
    and "\<And>i a. in_object geo i \<Longrightarrow> a \<in> set (loads i) \<Longrightarrow> stable a \<Longrightarrow> ld_bytes a = C (cache_key geo i) (ld_version_after a)"
    and "\<And>i v. in_object geo i \<Longrightarrow> length (C (cache_key geo i) v) = unat (block_size geo i)"
    and "reading e C object geo R" and "filled C geo offset n i versions xs" and "i \<le> b"
    and "unat offset div unat (ai_coherence_block_bytes geo) \<le> i" and "b \<le> Suc ((unat offset + unat n - 1) div unat (ai_coherence_block_bytes geo))"
  shows "\<exists>r R'. read_blocks e object offset n loads (map of_nat [i..<b]) (versions, xs) R = Some (r, R') \<and> sound e C (cache R') \<and>
    (\<forall>vs ys. r = Inr (vs, ys) \<longrightarrow> filled C geo offset n b vs ys)"
  using assms(5-8)
proof (induction "b - i" arbitrary: i R versions xs)
  case 0
  then show ?case by (auto simp: reading_def)
next
  case (Suc d)
  then have i: "i < b" by simp
  then have t: "touched geo offset n i" using Suc.prems(4) assms(9) by (simp add: touched_def)
  have io: "in_object geo (of_nat i)"
    using touched_bounds(1,4) [OF assms(1) t] assms(1) by (simp add: in_object_def range_ok_def)
  have bs: "length (C (cache_key geo (of_nat i)) v) \<le> unat (ai_coherence_block_bytes geo)" for v
    by (simp add: assms(4) [OF io] block_size_def min_def word_le_nat_alt)
  have "block_read e C object geo (of_nat i) (read_block e object (loads (of_nat i)) (of_nat i) R)"
    by (rule read_block_sound [OF Suc.prems(1) assms(2)]) (use assms(3) [OF io] bs in auto)
  then obtain r R1 where r: "read_block e object (loads (of_nat i)) (of_nat i) R = Some (r, R1)" "sound e C (cache R1)"
    "\<forall>v st. r = Inr (v, st) \<longrightarrow> reading e C object geo R1 \<and> st = C (cache_key geo (of_nat i)) v" by (auto simp: block_read_def)
  have u: "[i..<b] = i # [Suc i..<b]" using i by (simp add: upt_conv_Cons)
  show ?case
  proof (cases r)
    case (Inl st)
    then show ?thesis using r by (simp add: u)
  next
    case (Inr p)
    then obtain v st where p: "r = Inr (v, st)" by (cases p) auto
    with r(3) have R1: "reading e C object geo R1" "st = C (cache_key geo (of_nat i)) v" by auto
    have cp: "copy_block offset n (info R) (of_nat i) st xs = copy_block offset n geo (of_nat i) st xs"
      using Suc.prems(1) same_geometry_eqs(3) by (auto simp: reading_def)
    have fl: "filled C geo offset n (Suc i) (versions @ [v]) (copy_block offset n geo (of_nat i) st xs)"
      by (rule filled_step [OF assms(1) t Suc.prems(2) R1(2)]) (simp add: R1(2) assms(4) [OF io])
    have "d = b - Suc i" using Suc.hyps(2) by simp
    from Suc.hyps(1) [OF this R1(1) fl] i Suc.prems(4) show ?thesis using r(1) p by (simp add: u cp)
  qed
qed

lemma leave_read_sound: "sound e C (cache R) \<Longrightarrow> sound e C (leave_read e object R)"
  by (auto simp: leave_read_def ReleaseReference_def set_descriptor_def intro!: sound_mem)

lemma leave_read_index: "replicas (leave_read e object R) = replicas (cache R)"
  by (simp add: leave_read_def)

text \<open>The start of a read: the geometry comes from the cache, or from the descriptor under a pin.\<close>

definition start_read :: "ReplicaEnv \<Rightarrow> GlobalPointer \<Rightarrow> ReplicaCache \<Rightarrow> Status \<times> ReadState" where
  "start_read e object S =
     (let geo0 = (case cached_objects S (gp_offset object) of None \<Rightarrow> no_info | Some ob \<Rightarrow> co_info ob);
          R0 = \<lparr>pinned = False, info = geo0, cache = S\<rparr>
      in if ai_bytes geo0 = 0 then admit e object R0 else (kOk, R0))"

lemma ReadRange_start:
  "ReadRange e up object offset n timeout_ms full_object loads S =
     (if \<not> up \<or> timeout_ms = 0 then Some (Inl kFailedPrecondition, S)
      else if region_id object \<noteq> 0 then Some (Inl kInvalidArgument, S)
      else (case start_read e object S of (st, R1) \<Rightarrow>
           if st \<noteq> kOk then Some (Inl st, leave_read e object R1)
           else let m = (if full_object then ai_bytes (info R1) else n) in
             if m = 0 \<or> ai_bytes (info R1) < offset \<or> ai_bytes (info R1) - offset < m
             then Some (Inl kInvalidArgument, leave_read e object R1)
             else (case read_blocks e object offset m loads (block_indices offset m (ai_coherence_block_bytes (info R1)))
                       ([], replicate (unat m) 0) R1 of
                     None \<Rightarrow> None
                   | Some (Inl st, R2) \<Rightarrow> Some (Inl st, leave_read e object R2)
                   | Some (Inr (versions, assembled), R2) \<Rightarrow>
                       Some (Inr \<lparr>rd_object = object, rd_offset = offset, rd_versions = versions, rd_storage = assembled\<rparr>,
                             leave_read e object R2))))"
  by (simp add: ReadRange_def start_read_def Let_def)

lemma start_read_sound:
  assumes "start_read e object S = (st, R1)" and "sound e C S" and "ad_bytes (descriptors (cache_mem S) (gp_offset object)) \<noteq> 0"
    and "\<And>ob. cached_objects S (gp_offset object) = Some ob \<Longrightarrow>
      same_geometry (co_info ob) (info_of object (descriptors (cache_mem S) (gp_offset object)))"
  shows "sound e C (cache R1)" "st = kOk \<Longrightarrow> reading e C object (info_of object (descriptors (cache_mem S) (gp_offset object))) R1"
    "replicas (cache R1) = replicas S"
proof -
  define geo0 where "geo0 = (case cached_objects S (gp_offset object) of None \<Rightarrow> no_info | Some ob \<Rightarrow> co_info ob)"
  let ?R0 = "\<lparr>pinned = False, info = geo0, cache = S\<rparr>" and ?geo = "info_of object (descriptors (cache_mem S) (gp_offset object))"
  have st: "(if ai_bytes geo0 = 0 then admit e object ?R0 else (kOk, ?R0)) = (st, R1)"
    using assms(1) unfolding start_read_def geo0_def Let_def .
  have nz: "ai_bytes ?geo \<noteq> 0" using assms(3) by (simp add: info_of_def)
  have sd: "sound e C (cache ?R0)" using assms(2) by simp
  show "sound e C (cache R1)" "st = kOk \<Longrightarrow> reading e C object ?geo R1" "replicas (cache R1) = replicas S"
  proof (atomize (full), cases "ai_bytes geo0 = 0")
    case True
    then have a: "admit e object ?R0 = (st, R1)" using st by simp
    have "replicas (cache R1) = replicas S"
      using a by (auto simp: admit_def Let_def split: prod.splits sum.splits if_splits)
    then show "sound e C (cache R1) \<and> (st = kOk \<longrightarrow> reading e C object ?geo R1) \<and> replicas (cache R1) = replicas S"
      using admit_sound(1,2) [OF a sd] nz by (auto simp: reading_def same_geometry_def info_of_def)
  next
    case False
    then have "st = kOk" "R1 = ?R0" using st by auto
    moreover have "same_geometry geo0 ?geo" using False assms(4) by (auto simp: geo0_def no_info_def split: option.splits)
    ultimately show "sound e C (cache R1) \<and> (st = kOk \<longrightarrow> reading e C object ?geo R1) \<and> replicas (cache R1) = replicas S"
      using assms(2) nz by (simp add: reading_def)
  qed
qed


section \<open>Reads after an acquire boundary\<close>

abbreviation current_keys :: "ReplicaCache \<Rightarrow> u64 set" where
  "current_keys S \<equiv> fst ` set (replicas S)"

lemma erase_keys: "EraseReplicaLocked e g k S = Some S' \<Longrightarrow> current_keys S' \<subseteq> current_keys S"
proof -
  assume a: "EraseReplicaLocked e g k S = Some S'"
  show ?thesis
  proof (cases g)
    case Present
    then have "replicas S' = AList.delete k (replicas S)" using EraseReplicaLocked_index(1) [OF a] by simp
    then show ?thesis by (auto simp: AList.delete_eq)
  next
    case Older
    then have "replicas S' = replicas S" using EraseReplicaLocked_index(2) [OF a, of Present] by simp
    then show ?thesis by simp
  qed
qed

lemma evict_keys: "EvictReplicasLocked e S = Some S' \<Longrightarrow> current_keys S' \<subseteq> current_keys S"
proof (induction e S rule: EvictReplicasLocked.induct)
  case (1 e S)
  consider "\<not> over_capacity e S \<or> victim S = None" | g k r where "over_capacity e S" "victim S = Some (g, k, r)"
    by (cases "victim S") auto
  then show ?case
  proof cases
    case 1
    then have "S' = S" using "1.prems" by (auto simp: EvictReplicasLocked.simps [of e S] split: if_splits)
    then show ?thesis by simp
  next
    case (2 g k r)
    with "1.prems" obtain S1 where S1: "EraseReplicaLocked e g k S = Some S1" "EvictReplicasLocked e S1 = Some S'"
      by (auto simp: EvictReplicasLocked.simps [of e S] split: option.splits)
    from "1.IH" [OF _ 2(2) refl refl S1] erase_keys [OF S1(1)] 2(1) show ?thesis by blast
  qed
qed

lemma erase_found_keys: "erase_found e g k S = Some S' \<Longrightarrow> current_keys S' \<subseteq> current_keys S"
  using erase_keys [of e g k S S'] by (simp add: erase_found_def split: if_splits)

lemma fill_keys:
  assumes "CacheReplicaLocked e k geo d i v st S = Some S'"
  shows "current_keys S' \<subseteq> insert k (current_keys S)"
proof -
  obtain S1 where S1: "erase_both e k (count_block e geo d S) = Some S1"
    using assms by (auto simp: CacheReplicaLocked_def split: option.splits)
  have "replicas (count_block e geo d S) = replicas S" by (simp add: count_block_def set_member_def Let_def split: option.split)
  moreover obtain S0 where S0: "erase_found e Present k (count_block e geo d S) = Some S0" "erase_found e Older k S0 = Some S1"
    using S1 by (auto simp: erase_both_def split: option.splits)
  ultimately have le: "current_keys S1 \<subseteq> current_keys S"
    using order_trans [OF erase_found_keys [OF S0(2)] erase_found_keys [OF S0(1)]] by simp
  let ?clock = "replica_access_clock S1 + 1"
  let ?S2 = "advertise e (ai_gptr geo) i (v + 1) (S1\<lparr>cached_replica_bytes := cached_replica_bytes S1 + of_nat (length st),
      replica_access_clock := ?clock, replicas := (k, new_replica geo i v st ?clock) # replicas S1\<rparr>)"
  have ev: "EvictReplicasLocked e ?S2 = Some S'" using assms S1 by (simp add: CacheReplicaLocked_def Let_def)
  have "current_keys S' \<subseteq> insert k (current_keys S1)" using evict_keys [OF ev] by simp
  also have "\<dots> \<subseteq> insert k (current_keys S)" using le by (rule insert_mono)
  finally show ?thesis .
qed

definition validated :: "BlockLoad list \<Rightarrow> Version \<Rightarrow> bool" where
  "validated tries v \<longleftrightarrow> (\<exists>a \<in> set tries. stable a \<and> v = ld_version_after a)"

lemma attempt_cases:
  assumes "(if A then Some (Inl x, S) else if B then X else if D then Some (Inl y, S) else if E then X
     else (case c of None \<Rightarrow> None | Some S1 \<Rightarrow> Some (Inr (w, rep), S1))) = Some (Inr (v, st), S')"
  shows "X = Some (Inr (v, st), S') \<or> \<not> E \<and> c = Some S' \<and> v = w"
  using assms by (auto split: if_splits option.splits)

lemma read_attempts_validated:
  assumes "read_attempts e k geo d i bb tries S = Some (Inr (v, st), S')"
  shows "validated tries v" "current_keys S' \<subseteq> insert k (current_keys S)"
proof -
  have "validated tries v \<and> current_keys S' \<subseteq> insert k (current_keys S)"
    using assms
  proof (induction tries)
    case (Cons a as)
    from attempt_cases [OF Cons.prems [unfolded read_attempts.simps Let_def]]
    consider "read_attempts e k geo d i bb as S = Some (Inr (v, st), S')"
      | rep where "stable a" "CacheReplicaLocked e k geo d i (ld_version_after a) rep S = Some S'" "v = ld_version_after a"
      unfolding stable_def by blast
    then show ?case
    proof cases
      case 1
      then show ?thesis using Cons.IH by (auto simp: validated_def)
    next
      case 2
      then show ?thesis using fill_keys by (auto simp: validated_def)
    qed
  qed simp
  then show "validated tries v" "current_keys S' \<subseteq> insert k (current_keys S)" by auto
qed

lemma read_block_validated:
  assumes "read_block e object tries i R = Some (Inr (v, st), R')" and "cache_key (info R) i \<notin> current_keys (cache R)"
    and "ai_bytes (info R) \<noteq> 0"
  shows "validated tries v" "current_keys (cache R') \<subseteq> insert (cache_key (info R) i) (current_keys (cache R))"
    "same_geometry (info R') (info R)"
proof -
  have "map_of (replicas (cache R)) (cache_key (info R) i) = None" using assms(2) by (simp add: map_of_eq_None_iff)
  then have sh: "read_shared e object tries i R = Some (Inr (v, st), R')" using assms(1) by (simp add: read_block_def Let_def)
  obtain s R1 where a: "admit e object R = (s, R1)" by force
  obtain r M where m: "MutableCoherenceBlock (re_allocator e) (cache_mem (cache R1)) object i True = (r, M)" by force
  from sh a m have ok: "s = kOk" by (auto simp: read_shared_def split: if_splits)
  from sh a m ok obtain S where att: "read_attempts e (cache_key (info R) i) (info R1) (gp_offset object) i (block_size (info R) i) tries
      ((cache R1)\<lparr>cache_mem := M\<rparr>) = Some (Inr (v, st), S)" and R': "R' = R1\<lparr>cache := S\<rparr>"
    by (auto simp: read_shared_def split: sum.splits option.splits)
  have keep: "replicas (cache R1) = replicas (cache R)" and geo: "same_geometry (info R1) (info R)"
    using a ok assms(3) AcquireReference_error [of "re_allocator e"]
    by (auto simp: admit_def Let_def same_geometry_def info_of_def split: if_splits prod.splits sum.splits)
  show "validated tries v" by (rule read_attempts_validated(1) [OF att])
  show "current_keys (cache R') \<subseteq> insert (cache_key (info R) i) (current_keys (cache R))"
    using read_attempts_validated(2) [OF att] keep R' by simp
  show "same_geometry (info R') (info R)" using geo R' by simp
qed

lemma read_blocks_validated:
  assumes "read_blocks e object offset n loads is acc R = Some (Inr (vs, ys), R')" and "distinct (map (cache_key geo) is)"
    and "\<forall>i \<in> set is. cache_key geo i \<notin> current_keys (cache R)" and "same_geometry (info R) geo" and "ai_bytes geo \<noteq> 0"
  shows "\<exists>ws. vs = fst acc @ ws \<and> list_all2 (\<lambda>i v. validated (loads i) v) is ws"
  using assms
proof (induction "is" arbitrary: acc R)
  case (Cons i "is")
  from Cons.prems(1) obtain v st R1 where b: "read_block e object (loads i) i R = Some (Inr (v, st), R1)"
    and rest: "read_blocks e object offset n loads is (fst acc @ [v], copy_block offset n (info R) i st (snd acc)) R1 = Some (Inr (vs, ys), R')"
    by (auto split: option.splits prod.splits sum.splits)
  have k: "cache_key (info R) i = cache_key geo i" and nz: "ai_bytes (info R) \<noteq> 0"
    using same_geometry_eqs(1) [OF Cons.prems(4)] Cons.prems(4,5) by (auto simp: same_geometry_def)
  have new: "cache_key (info R) i \<notin> current_keys (cache R)" using k Cons.prems(3) by simp
  note r = read_block_validated [OF b new nz]
  have g: "same_geometry (info R1) geo" using r(3) Cons.prems(4) by (simp add: same_geometry_def)
  have "cache_key geo j \<noteq> cache_key geo i" if "j \<in> set is" for j
    using Cons.prems(2) imageI [OF that, of "cache_key geo"] by auto
  moreover have "cache_key geo j \<notin> current_keys (cache R)" if "j \<in> set is" for j using Cons.prems(3) that by simp
  ultimately have "\<forall>j \<in> set is. cache_key geo j \<notin> current_keys (cache R1)"
    using r(2) [unfolded k] by blast
  from Cons.IH [OF rest _ this g Cons.prems(5)] Cons.prems(2) obtain ws where
    "vs = fst acc @ v # ws" "list_all2 (\<lambda>i v. validated (loads i) v) is ws" by auto
  then show ?case using r(1) by (intro exI [of _ "v # ws"]) simp
qed simp

lemma block_keys_distinct:
  assumes "range_ok geo offset n" and "unat (ai_coherence_metadata_offset geo) + unat (ai_coherence_block_count geo) * 576 < 2 ^ 64"
    and "unat (ai_bytes geo) \<le> unat (ai_coherence_block_count geo) * unat (ai_coherence_block_bytes geo)"
  shows "distinct (map (cache_key geo) (block_indices offset n (ai_coherence_block_bytes geo)))"
proof -
  let ?g = "unat (ai_coherence_block_bytes geo)" and ?m = "unat (ai_coherence_metadata_offset geo)"
  let ?is = "[unat offset div ?g..<Suc ((unat offset + unat n - 1) div ?g)]"
  have key: "unat (cache_key geo (of_nat i)) = ?m + i * 576" if "i \<in> set ?is" for i
  proof -
    have t: "touched geo offset n i" using that by (auto simp: touched_def)
    note b = touched_bounds [OF assms(1) t]
    have "unat offset + unat n \<le> unat (ai_bytes geo)" using assms(1) by (simp add: range_ok_def)
    then have "i * ?g < unat (ai_coherence_block_count geo) * ?g" using b(1) assms(3) by linarith
    then have "i < unat (ai_coherence_block_count geo)" by (rule mult_less_cancel2 [THEN iffD1, THEN conjunct2])
    then have "i * 576 \<le> unat (ai_coherence_block_count geo) * 576" by simp
    then have s: "?m + i * 576 < 2 ^ 64" using assms(2) by linarith
    then have "unat (of_nat i * 576 :: u64) = i * 576" using b(4) by (simp add: unat_word_ariths)
    then show ?thesis using s by (simp add: cache_key_def sizeof_CoherenceBlockDescriptor_def unat_word_ariths)
  qed
  have "inj_on (\<lambda>i. cache_key geo (of_nat i)) (set ?is)"
  proof (rule inj_onI)
    fix i j assume ij: "i \<in> set ?is" "j \<in> set ?is" and eq: "cache_key geo (of_nat i) = cache_key geo (of_nat j)"
    have "?m + i * 576 = ?m + j * 576" using key [OF ij(1)] unfolding eq key [OF ij(2)] by (rule sym)
    then show "i = j" by simp
  qed
  then show ?thesis unfolding block_indices_eq [OF assms(1)] by (simp add: distinct_map comp_def del: upt_Suc)
qed

text \<open>
  C37.  An acquire boundary hides nothing.  After \<^verbatim>\<open>SynchronizeAcquire\<close> no copy made before it is served unchecked: each
  version that the next read of an object reports was seen, with an even and unchanged epoch, by a load of that read.
  So a version published before the boundary is never missed.
\<close>

theorem acquire_boundary_validates:
  fixes object S1
  defines "geo \<equiv> info_of object (descriptors (cache_mem S1) (gp_offset object))"
  assumes "cache_ok e S" and "re_host e < 64" and "SynchronizeAcquire e True S = Some (kOk, S1)"
    and "object_ok (gp_offset object) (descriptors (cache_mem S1) (gp_offset object))"
    and "unat (ai_bytes geo) + unat (ai_coherence_block_bytes geo) \<le> 2 ^ 64"
    and "\<And>ob. cached_objects S1 (gp_offset object) = Some ob \<Longrightarrow> same_geometry (co_info ob) geo"
    and "ReadRange e True object offset n timeout_ms full_object loads S1 = Some (Inr snap, S2)"
  shows "list_all2 (\<lambda>i v. \<exists>a \<in> set (loads i). stable a \<and> v = ld_version_after a)
    (block_indices offset (if full_object then ai_bytes geo else n) (ai_coherence_block_bytes geo)) (rd_versions snap)"
proof -
  let ?d = "descriptors (cache_mem S1) (gp_offset object)"
  define m where "m = (if full_object then ai_bytes geo else n)"
  have ok: "cache_ok e S1" and none: "replicas S1 = []" using SynchronizeAcquire_ok [OF assms(3,2)] assms(4) by auto
  have d: "ai_bytes geo \<noteq> 0" "unat (ai_coherence_metadata_offset geo) + unat (ai_coherence_block_count geo) * 576 < 2 ^ 64"
      "unat (ai_bytes geo) \<le> unat (ai_coherence_block_count geo) * unat (ai_coherence_block_bytes geo)"
    using assms(5) by (auto simp: object_ok_def geo_def info_of_def)
  then have g: "ai_coherence_block_bytes geo \<noteq> 0" by (metis mult_0_right le_zero_eq unat_eq_zero unsigned_0)
  obtain C where sd: "sound e C S1" using ok
    by (rule_tac C="\<lambda>k v. case map_of (entries S1) k of None \<Rightarrow> [] | Some r \<Rightarrow> rp_storage r" in that)
      (auto simp: sound_def copies_ok_def cache_ok_def books_def)
  obtain st R1 where st: "start_read e object S1 = (st, R1)" by force
  have nz: "ad_bytes ?d \<noteq> 0" using d(1) by (simp add: geo_def info_of_def)
  note s = start_read_sound [OF st sd nz assms(7) [unfolded geo_def], folded geo_def]
  note rr = assms(8) [unfolded ReadRange_start st prod.case Let_def]
  have stok: "st = kOk" using rr by (auto split: if_splits)
  then have rd: "reading e C object geo R1" using s(2) by blast
  then have gm: "same_geometry (info R1) geo" "ai_bytes (info R1) = ai_bytes geo" "ai_coherence_block_bytes (info R1) = ai_coherence_block_bytes geo"
    by (simp_all add: reading_def same_geometry_def)
  note rr' = rr [unfolded gm(2,3) m_def [symmetric]]
  have m0: "\<not> (m = 0 \<or> ai_bytes geo < offset \<or> ai_bytes geo - offset < m)" using rr' stok by (auto split: if_splits)
  obtain ys R2 where rb: "read_blocks e object offset m loads (block_indices offset m (ai_coherence_block_bytes geo)) ([], replicate (unat m) 0) R1 =
      Some (Inr (rd_versions snap, ys), R2)"
    using rr' stok m0 by (auto split: if_splits option.splits prod.splits sum.splits)
  have le: "offset \<le> ai_bytes geo" "m \<le> ai_bytes geo - offset" "m \<noteq> 0" using m0 by auto
  then have "unat offset + unat m \<le> unat (ai_bytes geo)" by (simp add: word_le_nat_alt unat_sub_no_wrap)
  then have rg: "range_ok geo offset m" using le(3) g assms(6) by (simp add: range_ok_def)
  have free: "\<forall>i \<in> set (block_indices offset m (ai_coherence_block_bytes geo)). cache_key geo i \<notin> current_keys (cache R1)"
    using s(3) none by simp
  from read_blocks_validated [OF rb block_keys_distinct [OF rg d(2,3)] free gm(1) d(1)]
  show ?thesis by (simp add: validated_def m_def)
qed

section \<open>Concrete inputs\<close>

text \<open>An object of three bytes in blocks of two, with both blocks in the current index.\<close>

definition read_memory :: AllocatorMemory where
  "read_memory = set_descriptor 640 (\<lambda>d. d\<lparr>ad_replica_hosts := 8, ad_bytes := 3, ad_coherence_block_bytes := 2,
     ad_coherence_block_count := 2, ad_coherence_metadata_offset := 4096\<rparr>) small_memory"

definition read_info :: AllocationInfo where
  "read_info = \<lparr>ai_gptr = \<lparr>region_id = 0, gp_offset = 640\<rparr>, ai_bytes = 3, ai_alignment = 0, ai_owner_host = 0,
     ai_coherence_block_bytes = 2, ai_coherence_block_count = 2, ai_coherence_metadata_offset = 4096\<rparr>"

definition read_env :: ReplicaEnv where
  "read_env = small_env\<lparr>re_capacity_entries := 4\<rparr>"

definition read_cache :: ReplicaCache where
  "read_cache = \<lparr>replicas = [(4096, new_replica read_info 0 5 [1, 2] 7), (4672, new_replica read_info 1 6 [3] 9)], old_replicas = [],
     cached_objects = (\<lambda>_. None)(640 := Some \<lparr>co_info = read_info, co_descriptor = 640, co_blocks = 2\<rparr>),
     cached_replica_bytes = 3, replica_access_clock = 9, cache_mem = read_memory\<rparr>"

definition read_content :: "u64 \<Rightarrow> Version \<Rightarrow> u8 list" where
  "read_content k v = (if k = 4096 then [1, 2] else [3])"

lemma read_geo: "info_of \<lparr>region_id = 0, gp_offset = 640\<rparr> (descriptors read_memory 640) = read_info"
  by (simp add: info_of_def read_memory_def set_descriptor_def read_info_def small_memory_def fresh_memory_def default_descriptor_def)

lemma read_cache_ok: "cache_ok read_env read_cache" "copies_ok read_content read_cache"
proof -
  have ents: "entries read_cache = [(4096, new_replica read_info 0 5 [1, 2] 7), (4672, new_replica read_info 1 6 [3] 9)]"
    by (simp add: read_cache_def entries_def)
  have mem: "is_member read_env off read_cache \<longleftrightarrow> off = 640" for off
    by (simp add: is_member_def read_cache_def read_memory_def set_descriptor_def read_env_def small_env_def small_memory_def fresh_memory_def
        default_descriptor_def bit_numeral_rec)
  have "entry_ok read_env no_extra read_cache off" for off
    unfolding entry_ok_def mem ents by (simp add: read_cache_def blocks_of_def new_replica_def read_info_def)
  then have "books read_env no_extra read_cache"
    by (simp add: books_def ents bytes_of_def) (simp add: read_cache_def new_replica_def)
  then show "cache_ok read_env read_cache"
    by (simp add: cache_ok_def within_def ents bytes_of_def) (simp add: read_env_def small_env_def new_replica_def)
  show "copies_ok read_content read_cache" by (simp add: copies_ok_def ents read_content_def new_replica_def)
qed

lemma read_in_object: "in_object read_info i \<Longrightarrow> i = 0 \<or> i = 1"
proof -
  assume "in_object read_info i"
  then have "unat i < 2" by (simp add: in_object_def read_info_def)
  then have "unat i = unat (0 :: u64) \<or> unat i = unat (1 :: u64)" by auto
  then show ?thesis by (metis unsigned_word_eqI)
qed


text \<open>A first read of 64 bytes, straight after a boundary.\<close>

definition first_env :: ReplicaEnv where
  "first_env = \<lparr>re_allocator = local_allocator, re_host = 0, re_capacity_entries = 4, re_capacity_bytes = 1024,
     re_cpu = \<lparr>is_x86 = True, has_clwb = True\<rparr>\<rparr>"

definition first_load :: BlockLoad where
  "first_load = \<lparr>ld_epoch_before = 2, ld_version_before = 1, ld_bytes = replicate 64 7, ld_epoch_after = 2, ld_version_after = 1\<rparr>"

lemma first_read:
  "\<exists>snap S2. ReadRange first_env True local_gptr 0 64 1000 False (\<lambda>_. [first_load]) (empty_cache local_memory) = Some (Inr snap, S2)"
proof -
  let ?S = "empty_cache local_memory" and ?geo = "info_of local_gptr (descriptors local_pinned 0x1280)"
  let ?S1 = "?S\<lparr>cache_mem := local_pinned\<rparr>"
  have e: "re_allocator first_env = local_allocator" "re_host first_env = 0" by (simp_all add: first_env_def)
  have m: "cache_mem ?S = local_memory" "cached_objects ?S = (\<lambda>_. None)" "replicas ?S = []" "old_replicas ?S = []" by (simp_all add: empty_cache_def)
  have ad: "admit first_env local_gptr \<lparr>pinned = False, info = no_info, cache = ?S\<rparr> = (kOk, \<lparr>pinned = True, info = ?geo, cache = ?S1\<rparr>)"
    by (simp add: admit_def e m local_pin no_info_def)
  have geo: "ai_bytes ?geo = 128" "ai_coherence_block_bytes ?geo = 64" "gp_offset (ai_gptr ?geo) = 0x1280"
    by (simp_all add: info_of_def local_pinned_def local_memory_def set_descriptor_def)
  have bits: "\<not> bit (ad_replica_hosts (descriptors local_pinned off)) (unat (re_host first_env))" for off
    by (simp add: local_pinned_def local_memory_def set_descriptor_def default_descriptor_def)
  have "?S1 = empty_cache local_pinned" by (simp add: empty_cache_def)
  then have ok: "cache_ok first_env ?S1"
    using cache_reach_ok [OF cache_reach.start _ _ bits] by (simp add: first_env_def)
  obtain S2 where S2: "CacheReplicaLocked first_env (cache_key ?geo 0) ?geo 0x1280 0 1 (replicate 64 7) ?S1 = Some S2"
    using CacheReplicaLocked_ok [OF _ ok, of "0x1280" ?geo "replicate 64 7" "cache_key ?geo 0" 0 1] geo(3) by (auto simp: first_env_def)
  have vis: "visibility_status (re_cpu first_env) n kReleaseAcquire = kOk" if "n \<noteq> 0" for n
    using that by (simp add: visibility_status_release)
  have att: "read_attempts first_env (cache_key ?geo 0) ?geo 0x1280 0 (block_size ?geo 0) [first_load] ?S1 = Some (Inr (1, replicate 64 7), S2)"
    using S2 m by (simp add: first_load_def vis sizeof_CoherenceBlockDescriptor_def block_size_def geo)
  have "read_block first_env local_gptr [first_load] 0 \<lparr>pinned = True, info = ?geo, cache = ?S1\<rparr> =
      Some (Inr (1, replicate 64 7), \<lparr>pinned = True, info = ?geo, cache = S2\<rparr>)"
    using att by (simp add: read_block_def read_shared_def admit_def e m local_block)
  moreover have "block_indices 0 64 64 = [0]" by (simp add: block_indices_def)
  moreover have "ai_bytes no_info = 0" by (simp add: no_info_def)
  ultimately show ?thesis by (simp add: ReadRange_def Let_def m ad geo)
qed

theorem acquire_boundary_validates_witness:
  "\<exists>S1 snap S2. SynchronizeAcquire first_env True (empty_cache local_memory) = Some (kOk, S1) \<and>
     ReadRange first_env True local_gptr 0 64 1000 False (\<lambda>_. [first_load]) S1 = Some (Inr snap, S2) \<and> rd_versions snap = [1]"
proof -
  let ?S = "empty_cache local_memory"
  have sa: "SynchronizeAcquire first_env True ?S = Some (kOk, ?S)" by (simp add: SynchronizeAcquire_def empty_cache_def)
  obtain snap S2 where r: "ReadRange first_env True local_gptr 0 64 1000 False (\<lambda>_. [first_load]) ?S = Some (Inr snap, S2)"
    using first_read by blast
  have bits: "\<not> bit (ad_replica_hosts (descriptors local_memory off)) (unat (re_host first_env))" for off
    by (simp add: local_memory_def default_descriptor_def)
  have ok: "cache_ok first_env ?S" using cache_reach_ok [OF cache_reach.start _ _ bits] by (simp add: first_env_def)
  have m: "cache_mem ?S = local_memory" "cached_objects ?S = (\<lambda>_. None)" by (simp_all add: empty_cache_def)
  have geo: "ai_bytes (info_of local_gptr (descriptors local_memory 0x1280)) = 128"
    "ai_coherence_block_bytes (info_of local_gptr (descriptors local_memory 0x1280)) = 64"
    by (simp_all add: info_of_def local_memory_def)
  have "block_indices 0 64 64 = [0]" by (simp add: block_indices_def)
  then have "rd_versions snap = [1]"
    using acquire_boundary_validates [OF ok _ sa _ _ _ r] local_object_ok by (auto simp: m geo first_env_def first_load_def list_all2_Cons1)
  with sa r show ?thesis by blast
qed

end
