(* ===== verification/Cx_Writes.thy ===== *)
theory Cx_Writes
  imports Cx_Reads Cx_Token_Claims
begin

text \<open>
  Writes (\<^verbatim>\<open>src/loommem/runtime.cpp\<close>): a writer takes the tokens of all blocks of a range, works on a private
  copy, and publishes it block by block when it gives the tokens back; or it stages the copy for the next release
  boundary of its execution context, or drops it.

  The state joins the token service, the read cache and the bytes of the region; the allocator memory that the first
  two share is kept in the token state.  While a call waits, and between its accesses to shared state, other threads
  and hosts go on: \<open>others p\<close> is what they do at the point \<open>p\<close> of the call.  \<open>None\<close> is an access outside a buffer or a
  map.
\<close>

section \<open>State\<close>

record WriteBuffer =
  wb_lease :: TokenLease
  wb_leases :: "TokenLease list"
  wb_offset :: u64
  wb_storage :: "u8 list option"
  wb_guard :: "u64 option"

definition no_lease :: TokenLease where
  "no_lease = \<lparr>ls_object = default_pointer, ls_block_index = 0, ls_version = 0, ls_token_epoch = 0\<rparr>"

definition no_buffer :: WriteBuffer where
  "no_buffer = \<lparr>wb_lease = no_lease, wb_leases = [], wb_offset = 0, wb_storage = None, wb_guard = None\<rparr>"

record WriteEnv =
  we_token :: TokenEnv
  we_cache :: ReplicaEnv
  we_initialized :: bool
  we_host_count :: u16
  we_polling :: bool

record WriteState =
  ws_token :: TokenState
  ws_cache :: ReplicaCache
  ws_bytes :: "u64 \<Rightarrow> u8"
  ws_staged :: "(u64 \<times> WriteBuffer list) list"

datatype Pause = InWait u64 | InCancel u64 | BeforeBlock u64 | Copied u64 | Released u64

definition on_token :: "(TokenState \<Rightarrow> 'r \<times> TokenState) \<Rightarrow> WriteState \<Rightarrow> 'r \<times> WriteState" where
  "on_token f W = (case f (ws_token W) of (r, T) \<Rightarrow> (r, W\<lparr>ws_token := T\<rparr>))"

definition on_memory :: "(AllocatorMemory \<Rightarrow> 'r \<times> AllocatorMemory) \<Rightarrow> WriteState \<Rightarrow> 'r \<times> WriteState" where
  "on_memory f W = (case f (mem (ws_token W)) of (r, M) \<Rightarrow> (r, W\<lparr>ws_token := (ws_token W)\<lparr>mem := M\<rparr>\<rparr>))"

definition cache_view :: "WriteState \<Rightarrow> ReplicaCache" where
  "cache_view W = (ws_cache W)\<lparr>cache_mem := mem (ws_token W)\<rparr>"

definition on_cache :: "(ReplicaCache \<Rightarrow> ReplicaCache option) \<Rightarrow> WriteState \<Rightarrow> WriteState option" where
  "on_cache f W = (case f (cache_view W) of
     None \<Rightarrow> None
   | Some S \<Rightarrow> Some (W\<lparr>ws_cache := S, ws_token := (ws_token W)\<lparr>mem := cache_mem S\<rparr>\<rparr>))"

section \<open>Tokens\<close>

definition RequestWriteToken :: "WriteEnv \<Rightarrow> GlobalPointer \<Rightarrow> u64 \<Rightarrow> WriteState \<Rightarrow> TokenRequestHandle Result \<times> WriteState" where
  "RequestWriteToken e object block_index W =
     (if \<not> we_initialized e then (Inl kFailedPrecondition, W)
      else if 1 < we_host_count e \<and> \<not> we_polling e then (Inl kFailedPrecondition, W)
      else on_token (Request (we_token e) object block_index True) W)"

definition WaitForWriteToken :: "WriteEnv \<Rightarrow> (Pause \<Rightarrow> WriteState \<Rightarrow> WriteState) \<Rightarrow> TokenRequestHandle \<Rightarrow> WriteState \<Rightarrow> TokenLease Result \<times> WriteState" where
  "WaitForWriteToken e others request W =
     (let i = rh_request_id request in
      if \<not> we_initialized e then (Inl kFailedPrecondition, W)
      else if Wait_begin i (ws_token W) \<noteq> kOk then (Inl (Wait_begin i (ws_token W)), W)
      else on_token (Wait_finish i) (others (InWait i) W))"

definition ReleaseWriteToken :: "WriteEnv \<Rightarrow> TokenLease \<Rightarrow> WriteState \<Rightarrow> (Status \<times> WriteState) option" where
  "ReleaseWriteToken e lease W =
     (if \<not> we_initialized e then Some (kFailedPrecondition, W)
      else (case on_token (Release (we_token e) lease True) W of (st, W1) \<Rightarrow>
              if st \<noteq> kOk then Some (st, W1)
              else (case cached_objects (ws_cache W1) (gp_offset (ls_object lease)) of
                      None \<Rightarrow> Some (st, W1)
                    | Some ob \<Rightarrow> map_option (Pair st) (on_cache (erase_both (we_cache e) (cache_key (co_info ob) (ls_block_index lease))) W1))))"

definition CancelWriteTokenRequest :: "WriteEnv \<Rightarrow> TokenRequestHandle \<Rightarrow> WriteState \<Rightarrow> Status \<times> WriteState" where
  "CancelWriteTokenRequest e request W =
     (if \<not> we_initialized e then (kFailedPrecondition, W) else on_token (Cancel (we_token e) request) W)"

definition CancelWriteTokenRequestAndWait :: "WriteEnv \<Rightarrow> (Pause \<Rightarrow> WriteState \<Rightarrow> WriteState) \<Rightarrow> TokenRequestHandle \<Rightarrow> WriteState \<Rightarrow> Status \<times> WriteState" where
  "CancelWriteTokenRequestAndWait e others request W =
     (if \<not> we_initialized e then (kFailedPrecondition, W)
      else (case on_token (CancelAndWait_begin (we_token e) request) W of
              (Some st, W1) \<Rightarrow> (st, W1)
            | (None, W1) \<Rightarrow> on_token (CancelAndWait_finish (we_token e) (rh_request_id request)) (others (InCancel (rh_request_id request)) W1)))"

section \<open>References\<close>

definition AcquireObjectReference :: "WriteEnv \<Rightarrow> GlobalPointer \<Rightarrow> WriteState \<Rightarrow> u64 Result \<times> WriteState" where
  "AcquireObjectReference e object W =
     (if \<not> we_initialized e then (Inl kFailedPrecondition, W)
      else on_memory (\<lambda>M. AcquireReference (re_allocator (we_cache e)) M object (re_host (we_cache e)) False) W)"

definition DescribeSharedAllocation :: "WriteEnv \<Rightarrow> GlobalPointer \<Rightarrow> WriteState \<Rightarrow> AllocationInfo Result \<times> WriteState" where
  "DescribeSharedAllocation e object W =
     (if \<not> we_initialized e then (Inl kFailedPrecondition, W)
      else on_memory (\<lambda>M. Describe (re_allocator (we_cache e)) M object) W)"

text \<open>The deleter of a reference guard.\<close>

definition drop_guard :: "WriteEnv \<Rightarrow> u64 option \<Rightarrow> WriteState \<Rightarrow> WriteState" where
  "drop_guard e guard W = (case guard of None \<Rightarrow> W
     | Some off \<Rightarrow> snd (on_memory (\<lambda>M. ReleaseReference M off (re_host (we_cache e))) W))"

section \<open>Acquiring\<close>

fun release_all :: "WriteEnv \<Rightarrow> TokenLease list \<Rightarrow> WriteState \<Rightarrow> WriteState" where
  "release_all e [] W = W"
| "release_all e (l # ls) W = release_all e ls (snd (on_token (Release (we_token e) l False) W))"

fun acquire_leases :: "WriteEnv \<Rightarrow> (Pause \<Rightarrow> WriteState \<Rightarrow> WriteState) \<Rightarrow> GlobalPointer \<Rightarrow> u64 list \<Rightarrow> TokenLease list \<Rightarrow> WriteState \<Rightarrow>
    TokenLease list Result \<times> WriteState" where
  "acquire_leases e others object [] leases W = (Inr leases, W)"
| "acquire_leases e others object (i # is) leases W =
     (case on_token (Request (we_token e) object i False) W of
        (Inl st, W1) \<Rightarrow> (Inl st, release_all e (rev leases) W1)
      | (Inr request, W1) \<Rightarrow>
          (case WaitForWriteToken e others request W1 of
             (Inl st, W2) \<Rightarrow> (Inl st, release_all e (rev leases) (snd (CancelWriteTokenRequestAndWait e others request W2)))
           | (Inr lease, W2) \<Rightarrow> acquire_leases e others object is (leases @ [lease]) W2))"

definition read_bytes :: "u64 \<Rightarrow> nat \<Rightarrow> (u64 \<Rightarrow> u8) \<Rightarrow> u8 list" where
  "read_bytes a n m = map (\<lambda>j. m (a + of_nat j)) [0..<n]"

definition write_bytes :: "u64 \<Rightarrow> u8 list \<Rightarrow> (u64 \<Rightarrow> u8) \<Rightarrow> u64 \<Rightarrow> u8" where
  "write_bytes a xs m = (\<lambda>p. if unat (p - a) < length xs then xs ! unat (p - a) else m p)"

definition AcquireWriteRange :: "WriteEnv \<Rightarrow> (Pause \<Rightarrow> WriteState \<Rightarrow> WriteState) \<Rightarrow> GlobalPointer \<Rightarrow> u64 \<Rightarrow> u64 \<Rightarrow> u64 \<Rightarrow> WriteState \<Rightarrow>
    WriteBuffer Result \<times> WriteState" where
  "AcquireWriteRange e others object offset n timeout_ms W =
     (if \<not> we_initialized e \<or> timeout_ms = 0 then (Inl kFailedPrecondition, W)
      else (case on_memory (\<lambda>M. AcquireReference (re_allocator (we_cache e)) M object (re_host (we_cache e)) False) W of
              (Inl st, W1) \<Rightarrow> (Inl st, W1)
            | (Inr descriptor, W1) \<Rightarrow>
                let unpinned = (\<lambda>st W. (Inl st, drop_guard e (Some descriptor) W)) in
                (case on_memory (\<lambda>M. Describe (re_allocator (we_cache e)) M object) W1 of
                   (Inl st, W2) \<Rightarrow> unpinned st W2
                 | (Inr allocation, W2) \<Rightarrow>
                     if n = 0 \<or> ai_bytes allocation < offset \<or> ai_bytes allocation - offset < n then unpinned kInvalidArgument W2
                     else (case acquire_leases e others object (block_indices offset n (ai_coherence_block_bytes allocation)) [] W2 of
                             (Inl st, W3) \<Rightarrow> unpinned st W3
                           | (Inr leases, W3) \<Rightarrow>
                               let data_status = visibility_status (re_cpu (we_cache e)) n kReleaseAcquire in
                               if data_status \<noteq> kOk then unpinned data_status (release_all e (rev leases) W3)
                               else (Inr \<lparr>wb_lease = hd leases, wb_leases = leases, wb_offset = offset,
                                          wb_storage = Some (read_bytes (gp_offset object + offset) (unat n) (ws_bytes W3)),
                                          wb_guard = Some descriptor\<rparr>, W3)))))"

definition AcquireWriteBuffer :: "WriteEnv \<Rightarrow> (Pause \<Rightarrow> WriteState \<Rightarrow> WriteState) \<Rightarrow> GlobalPointer \<Rightarrow> u64 \<Rightarrow> WriteState \<Rightarrow>
    WriteBuffer Result \<times> WriteState" where
  "AcquireWriteBuffer e others object timeout_ms W =
     (case AcquireObjectReference e object W of
        (Inl st, W1) \<Rightarrow> (Inl st, W1)
      | (Inr reference, W1) \<Rightarrow>
          (case DescribeSharedAllocation e object W1 of
             (Inl st, W2) \<Rightarrow> (Inl st, drop_guard e (Some reference) W2)
           | (Inr allocation, W2) \<Rightarrow>
               (case AcquireWriteRange e others object 0 (ai_bytes allocation) timeout_ms W2 of
                  (r, W3) \<Rightarrow> (r, drop_guard e (Some reference) W3))))"

section \<open>Publishing\<close>

definition copy_out :: "WriteBuffer \<Rightarrow> AllocationDescriptor \<Rightarrow> u64 \<Rightarrow> (u64 \<Rightarrow> u8) \<Rightarrow> (u64 \<Rightarrow> u8) option" where
  "copy_out wb d block_index m =
     (let storage = the (wb_storage wb);
          block_start = block_index * ad_coherence_block_bytes d;
          block_end = min (ad_bytes d) (block_start + ad_coherence_block_bytes d);
          copy_begin = max (wb_offset wb) block_start;
          copy_end = min (wb_offset wb + of_nat (length storage)) block_end in
      if copy_end < copy_begin \<or> length storage < unat (copy_begin - wb_offset wb) + unat (copy_end - copy_begin) then None
      else Some (write_bytes (gp_offset (ls_object (wb_lease wb)) + copy_begin)
             (take (unat (copy_end - copy_begin)) (drop (unat (copy_begin - wb_offset wb)) storage)) m))"

fun writeback :: "WriteEnv \<Rightarrow> (Pause \<Rightarrow> WriteState \<Rightarrow> WriteState) \<Rightarrow> AllocationDescriptor \<Rightarrow> WriteBuffer \<Rightarrow> TokenLease list \<Rightarrow> WriteState \<Rightarrow>
    (Status \<times> WriteState) option" where
  "writeback e others d wb [] W = Some (kOk, W)"
| "writeback e others d wb (lease # rest) W =
     (let i = ls_block_index lease in
      case on_token (BeginWriteback (we_token e) lease) (others (BeforeBlock i) W) of (begin_status, W1) \<Rightarrow>
        if begin_status \<noteq> kOk then Some (begin_status, release_all e (lease # rest) W1)
        else (case copy_out wb d i (ws_bytes W1) of
                None \<Rightarrow> None
              | Some m \<Rightarrow>
                  (case on_token (Release (we_token e) lease True) (others (Copied i) (W1\<lparr>ws_bytes := m\<rparr>)) of (release_status, W2) \<Rightarrow>
                     (case on_cache (erase_both (we_cache e) (ad_coherence_metadata_offset d + i * sizeof_CoherenceBlockDescriptor))
                         (others (Released i) W2) of
                        None \<Rightarrow> None
                      | Some W3 \<Rightarrow> if release_status \<noteq> kOk then Some (release_status, release_all e rest W3)
                                  else writeback e others d wb rest W3))))"

definition buffer_leases :: "WriteBuffer \<Rightarrow> TokenLease list" where
  "buffer_leases wb = (if wb_leases wb = [] then [wb_lease wb] else wb_leases wb)"

definition ReleaseWriteBuffer :: "WriteEnv \<Rightarrow> (Pause \<Rightarrow> WriteState \<Rightarrow> WriteState) \<Rightarrow> WriteBuffer \<Rightarrow> WriteState \<Rightarrow>
    (Status \<times> WriteBuffer \<times> WriteState) option" where
  "ReleaseWriteBuffer e others wb W =
     (if \<not> we_initialized e \<or> wb_storage wb = None \<or> wb_guard wb = None then Some (kFailedPrecondition, wb, W)
      else (case on_memory (\<lambda>M. MutableDescriptor (re_allocator (we_cache e)) M (ls_object (wb_lease wb)) True) W of
              (Inl st, W1) \<Rightarrow> Some (st, wb, W1)
            | (Inr d, W1) \<Rightarrow>
                if ad_bytes d < wb_offset wb \<or> ad_bytes d - wb_offset wb < of_nat (length (the (wb_storage wb)))
                then Some (kFailedPrecondition, wb, W1)
                else (case writeback e others d wb (buffer_leases wb) W1 of
                        None \<Rightarrow> None
                      | Some (st, W2) \<Rightarrow>
                          if st \<noteq> kOk then Some (st, wb, W2)
                          else Some (kOk, wb\<lparr>wb_guard := None\<rparr>, drop_guard e (wb_guard wb) W2))))"

fun abort_leases :: "WriteEnv \<Rightarrow> TokenLease list \<Rightarrow> Status \<Rightarrow> WriteState \<Rightarrow> Status \<times> WriteState" where
  "abort_leases e [] result W = (result, W)"
| "abort_leases e (l # ls) result W =
     (case on_token (Release (we_token e) l False) W of (st, W1) \<Rightarrow>
        abort_leases e ls (if st \<noteq> kOk \<and> result = kOk then st else result) W1)"

definition AbortWriteBuffer :: "WriteEnv \<Rightarrow> WriteBuffer \<Rightarrow> WriteState \<Rightarrow> Status \<times> WriteBuffer \<times> WriteState" where
  "AbortWriteBuffer e wb W =
     (if \<not> we_initialized e \<or> wb_storage wb = None \<or> wb_guard wb = None then (kFailedPrecondition, wb, W)
      else (case abort_leases e (rev (buffer_leases wb)) kOk W of (st, W1) \<Rightarrow>
              if st \<noteq> kOk then (st, wb, W1) else (st, wb\<lparr>wb_guard := None\<rparr>, drop_guard e (wb_guard wb) W1)))"

section \<open>Staging\<close>

text \<open>\<open>exclusive\<close>: storage and guard of the buffer have no other owner.\<close>

definition StageWriteBuffer :: "WriteEnv \<Rightarrow> u64 \<Rightarrow> bool \<Rightarrow> WriteBuffer \<Rightarrow> WriteState \<Rightarrow> Status \<times> WriteBuffer \<times> WriteState" where
  "StageWriteBuffer e context_id exclusive wb W =
     (if \<not> we_initialized e \<or> wb_storage wb = None \<or> wb_guard wb = None then (kFailedPrecondition, wb, W)
      else if \<not> exclusive then (kFailedPrecondition, wb, W)
      else (kOk, no_buffer,
        W\<lparr>ws_staged := AList.update context_id ((case map_of (ws_staged W) context_id of None \<Rightarrow> [] | Some wbs \<Rightarrow> wbs) @ [wb]) (ws_staged W)\<rparr>))"

definition staged_write_count :: "WriteState \<Rightarrow> nat" where
  "staged_write_count W = (\<Sum>p \<leftarrow> ws_staged W. length (snd p))"

text \<open>The buffers are destroyed at the end of the call, with the pins that are still there.\<close>

fun release_staged :: "WriteEnv \<Rightarrow> (Pause \<Rightarrow> WriteState \<Rightarrow> WriteState) \<Rightarrow> WriteBuffer list \<Rightarrow> Status \<Rightarrow> WriteState \<Rightarrow>
    (Status \<times> WriteBuffer list \<times> WriteState) option" where
  "release_staged e others [] result W = Some (result, [], W)"
| "release_staged e others (wb # wbs) result W =
     (case if result = kOk then ReleaseWriteBuffer e others wb W else Some (result, wb, W) of
        None \<Rightarrow> None
      | Some (st, wb1, W1) \<Rightarrow>
          (case if st \<noteq> kOk then snd (AbortWriteBuffer e wb1 W1) else (wb1, W1) of (wb2, W2) \<Rightarrow>
             (case release_staged e others wbs st W2 of None \<Rightarrow> None | Some (r, ws, W3) \<Rightarrow> Some (r, wb2 # ws, W3))))"

definition SynchronizeRelease :: "WriteEnv \<Rightarrow> (Pause \<Rightarrow> WriteState \<Rightarrow> WriteState) \<Rightarrow> u64 \<Rightarrow> WriteState \<Rightarrow> (Status \<times> WriteState) option" where
  "SynchronizeRelease e others context_id W =
     (if \<not> we_initialized e then Some (kFailedPrecondition, W)
      else (case map_of (ws_staged W) context_id of
              None \<Rightarrow> Some (kOk, W)
            | Some writes \<Rightarrow>
                (case release_staged e others writes kOk (W\<lparr>ws_staged := AList.delete context_id (ws_staged W)\<rparr>) of
                   None \<Rightarrow> None
                 | Some (st, left, W1) \<Rightarrow> Some (st, fold (\<lambda>wb. drop_guard e (wb_guard wb)) left W1))))"

section \<open>What the token service leaves alone\<close>

text \<open>Versions of blocks and the place of their metadata; which hosts have copies.\<close>

definition steady :: "AllocatorMemory \<Rightarrow> AllocatorMemory \<Rightarrow> bool" where
  "steady M M' \<longleftrightarrow> (\<forall>k. cb_version (coherence_blocks M' k) = cb_version (coherence_blocks M k)) \<and>
     (\<forall>off. ad_coherence_metadata_offset (descriptors M' off) = ad_coherence_metadata_offset (descriptors M off))"

definition same_members :: "AllocatorMemory \<Rightarrow> AllocatorMemory \<Rightarrow> bool" where
  "same_members M M' \<longleftrightarrow> (\<forall>off. ad_replica_hosts (descriptors M' off) = ad_replica_hosts (descriptors M off))"

definition untouched :: "TokenState \<Rightarrow> TokenState \<Rightarrow> bool" where
  "untouched S S' \<longleftrightarrow> steady (mem S) (mem S') \<and> same_members (mem S) (mem S')"

lemma steady_refl [simp]: "steady M M" and same_members_refl [simp]: "same_members M M"
  by (simp_all add: steady_def same_members_def)

lemma steady_trans: "steady M M' \<Longrightarrow> steady M' M'' \<Longrightarrow> steady M M''"
  by (simp add: steady_def)

lemma untouched_refl [simp]: "untouched S S"
  by (simp add: untouched_def)

lemma untouched_trans [trans]: "untouched S S' \<Longrightarrow> untouched S' S'' \<Longrightarrow> untouched S S''"
  by (simp add: untouched_def steady_def same_members_def)

lemma untouched_same: "mem S' = mem S \<Longrightarrow> untouched S S'"
  by (simp add: untouched_def)

lemma untouched_block: "(\<And>b. cb_version (f b) = cb_version b) \<Longrightarrow> untouched S (set_block k f S)"
  by (simp add: untouched_def steady_def same_members_def set_block_def)

lemma mem_frame [simp]:
  "mem (put_object k o1 S) = mem S" "mem (set_waiter i g S) = mem S" "mem (erase_waiter i S) = mem S"
  by (simp_all add: put_object_def set_waiter_def erase_waiter_def)

lemma release_reference_untouched: "steady M (snd (ReleaseReference M off h))" "same_members M (snd (ReleaseReference M off h))"
  by (auto simp: ReleaseReference_def steady_def same_members_def)

lemma acquire_reference_untouched:
  assumes "AcquireReference A M object h b = (r, M')"
  shows "steady M M'" "same_members M M'"
  using AcquireReference_frame [OF assms] AcquireReference_replicas [OF assms] by (simp_all add: steady_def same_members_def)

lemma untouched_drop: "untouched S (drop_target e t S)"
  using release_reference_untouched by (simp add: untouched_def drop_target_def)

lemma untouched_Target:
  assumes "Target e object i b S = (r, S')"
  shows "untouched S S'"
proof (cases "te_attached e")
  case True
  obtain a M1 where a: "AcquireReference (te_allocator e) (mem S) object (te_local_host e) b = (a, M1)" by fastforce
  have M2: "snd (MutableCoherenceBlock (te_allocator e) M1 object i True) = M1" by (rule read_only)
  note u = acquire_reference_untouched [OF a]
  have "steady (mem S) (snd (ReleaseReference M1 off (te_local_host e)))" "same_members (mem S) (snd (ReleaseReference M1 off (te_local_host e)))" for off
    using u release_reference_untouched [of M1 off "te_local_host e"] by (simp_all add: steady_def same_members_def)
  then show ?thesis
    using assms True a M2 u by (auto simp: Target_def untouched_def Let_def split: sum.splits prod.splits if_splits)
qed (use assms in \<open>simp add: Target_def\<close>)

lemma progress_mem: "progress_hosts e hs S = (st, S') \<Longrightarrow> mem S' = mem S"
  by (induction e hs S arbitrary: st S' rule: progress_hosts.induct)
    (auto simp: Let_def split: if_splits sum.splits prod.splits)

lemma enqueue_mem: "EnqueueOutbound e d m S = (st, S') \<Longrightarrow> mem S' = mem S"
  by (auto simp: EnqueueOutbound_def ProgressOutbound_def split: if_splits dest!: progress_mem)

lemma forward_mem: "forward_pending e d rs S = (st, S') \<Longrightarrow> mem S' = mem S"
  by (induction e d rs S arbitrary: st S' rule: forward_pending.induct)
    (auto simp: SendRequest_def Let_def split: if_splits prod.splits dest!: enqueue_mem)

lemma untouched_Activate: "ActivateWriter e b S = (st, S') \<Longrightarrow> untouched S S'"
  by (auto simp: ActivateWriter_def Let_def intro: untouched_block untouched_trans [OF untouched_block untouched_block] split: if_splits)

lemma hand_lease_mem: "hand_lease i l k S = (r, S') \<Longrightarrow> mem S' = mem S"
  by (auto simp: hand_lease_def Let_def split: if_splits)

lemma untouched_grant_begin:
  assumes "grant_begin e request t S = (r, S')"
  shows "untouched S S'"
proof -
  have local: "untouched S S'" if "grant_local e request t S = (r, S')"
  proof -
    obtain st S1 where a: "activate_if (rq_activate_coherence_epoch request) e (tg_block t) S = (st, S1)" by fastforce
    have "untouched S S1" using a by (auto simp: activate_if_def intro: untouched_Activate split: if_splits)
    then show ?thesis using that a
      by (auto simp: grant_local_def intro: untouched_same untouched_trans dest!: hand_lease_mem split: if_splits)
  qed
  have remote: "untouched S S1" if "grant_remote e request t S = (st, S1)" for st S1
  proof -
    let ?S = "set_block (tg_block t) (\<lambda>b. b\<lparr>token_epoch := token_epoch b + 1, token_owner := ucast (rq_requester request)\<rparr>) S"
    have "mem S1 = mem ?S"
      using that by (auto simp: grant_remote_def Let_def split: if_splits prod.splits dest!: enqueue_mem forward_mem)
    then have "untouched ?S S1" by (rule untouched_same)
    moreover have "untouched S ?S" by (rule untouched_block) simp
    ultimately show ?thesis using untouched_trans by blast
  qed
  show ?thesis using assms local remote
    by (auto simp: grant_begin_def intro: untouched_same split: if_splits prod.splits)
qed

lemma untouched_release_next:
  assumes "release_next e l t S = (r, S')"
  shows "untouched S S'"
proof -
  have "snd (IsRetiring (te_allocator e) (mem S) (ls_object l)) = mem S" by (rule read_only)
  then show ?thesis using assms
    by (auto simp: release_next_def Let_def intro!: untouched_same split: prod.splits if_splits list.splits)
qed

text \<open>A release makes a new version exactly when it gives back a modified block.\<close>

lemma Target_error: "Target e object i b S = (Inl st, S') \<Longrightarrow> st \<noteq> kOk"
  by (auto simp: Target_def MutableCoherenceBlock_def MutableDescriptor_def LockAllocationSlot_def FindDescriptorLocked_def Let_def
      dest: AcquireReference_error split: prod.splits sum.splits if_splits option.splits)

lemma release_begin_untouched:
  assumes "release_begin e l modified S = (r, S')"
  shows "\<not> modified \<Longrightarrow> untouched S S'"
    and "r = Inl st \<Longrightarrow> st \<noteq> kOk"
proof -
  obtain x S1 where t: "Target e (ls_object l) (ls_block_index l) True S = (x, S1)" by fastforce
  note u = untouched_trans [OF untouched_Target [OF t]]
  have b: "untouched X (drop_target e tg (set_block k (\<lambda>b. b\<lparr>writeback_epoch := w\<rparr>) X))" for X k w tg
    by (rule untouched_trans [OF untouched_block untouched_drop]) simp
  have c: "untouched X (set_block k (\<lambda>b. b\<lparr>writeback_epoch := w\<rparr>) X)" for X k w
    by (rule untouched_block) simp
  show "untouched S S'" if "\<not> modified"
    using assms t that untouched_Target [OF t]
    by (auto simp: release_begin_def Let_def intro: u b c untouched_drop split: sum.splits if_splits)
  show "st \<noteq> kOk" if "r = Inl st"
    using assms t that by (auto simp: release_begin_def Let_def split: sum.splits if_splits dest: Target_error)
qed

lemma Release_Grant_untouched:
  "\<not> modified \<Longrightarrow> untouched S (snd (Release e lease modified S))" "untouched S (snd (Grant e request t S))"
proof (induction e lease modified S and e request t S rule: Release_Grant.induct)
  case (1 e lease modified S)
  obtain r S1 where b: "release_begin e lease modified S = (r, S1)" by fastforce
  note u1 = release_begin_untouched(1) [OF b 1(2)]
  show ?case
  proof (cases r)
    case (Inl st)
    with b u1 show ?thesis by (simp add: Release.simps)
  next
    case (Inr t)
    obtain q S2 where n: "release_next e lease t S1 = (q, S2)" by fastforce
    note u2 = untouched_trans [OF u1 untouched_release_next [OF n]]
    have "untouched S2 (snd (Grant e x t S2))" if "q = Some x" for x using 1(1) [OF b [symmetric] Inr n [symmetric] that] by simp
    then show ?thesis using b Inr n u2
      by (cases q) (auto simp: Release.simps split_def intro: untouched_trans [OF u2] untouched_trans [OF _ untouched_drop] untouched_drop)
  qed
next
  case (2 e request t S)
  obtain r S1 where b: "grant_begin e request t S = (r, S1)" by fastforce
  note u = untouched_grant_begin [OF b]
  show ?case using b u untouched_trans [OF u] 2 [OF b [symmetric]] by (cases r) (auto simp: Grant.simps)
qed

definition bumped :: "u64 \<Rightarrow> TokenState \<Rightarrow> TokenState" where
  "bumped k S = set_block k (\<lambda>b. b\<lparr>cb_version := cb_version b + 1\<rparr>) S"

lemma Release_modified:
  assumes "Release e l True S = (st, S')" and "metadata_at mo (mem S)"
  shows "untouched (bumped (lease_key mo l) S) S' \<or> st \<noteq> kOk \<and> untouched S S'"
proof -
  let ?k = "lease_key mo l" and ?b = "\<lambda>b. b\<lparr>last_writer := ucast (te_local_host e), cb_version := cb_version b + 1\<rparr>"
  obtain r S1 where b: "release_begin e l True S = (r, S1)" by fastforce
  obtain x S0 where t0: "Target e (ls_object l) (ls_block_index l) True S = (x, S0)" by fastforce
  note u0 = untouched_Target [OF t0]
  have k: "tg_block t = ?k" if "x = Inr t" for t using Target_key [OF t0 [unfolded that] assms(2)] by simp
  have bump: "untouched (bumped ?k S) (set_block ?k (\<lambda>c. c\<lparr>writeback_epoch := w\<rparr>) (set_block ?k ?b S0))" for w
    using u0 by (simp add: untouched_def steady_def same_members_def bumped_def set_block_def)
  have u1: "untouched (bumped ?k S) S1 \<or> untouched S S1 \<and> (\<exists>st. r = Inl st)"
    using b t0 k u0 untouched_trans [OF bump untouched_drop] untouched_trans [OF u0 untouched_drop] bump
    by (auto simp: release_begin_def Let_def split: sum.splits if_splits)
  show ?thesis
  proof (cases r)
    case (Inl st')
    then show ?thesis using assms(1) b u1 release_begin_untouched(2) [OF b Inl] by (auto simp: Release.simps)
  next
    case (Inr t)
    then have u1: "untouched (bumped ?k S) S1" using u1 by simp
    obtain q S2 where n: "release_next e l t S1 = (q, S2)" by fastforce
    note u2 = untouched_trans [OF u1 untouched_release_next [OF n]]
    have "untouched S2 (snd (Grant e x t S2))" for x by (rule Release_Grant_untouched(2))
    then have "untouched (bumped ?k S) (snd (Release e l True S))" using b Inr n u2
      by (cases q) (auto simp: Release.simps split_def intro: untouched_trans [OF u2] untouched_trans [OF _ untouched_drop] untouched_drop)
    then show ?thesis using assms(1) by simp
  qed
qed

lemma untouched_BeginWriteback:
  assumes "BeginWriteback e l S = (st, S')"
  shows "untouched S S'"
proof -
  obtain x S1 where t: "Target e (ls_object l) (ls_block_index l) True S = (x, S1)" by fastforce
  note u = untouched_trans [OF untouched_Target [OF t]]
  show ?thesis using assms t untouched_Target [OF t]
    by (auto simp: BeginWriteback_def Let_def intro: u untouched_drop untouched_trans [OF untouched_Activate untouched_drop]
        split: sum.splits if_splits prod.splits)
qed

lemma erase_both_steady:
  assumes "erase_both e k S = Some S'"
  shows "steady (cache_mem S) (cache_mem S')"
proof -
  have adv: "steady (cache_mem S) (cache_mem (advertise e g i v S))" for g i v S
    using read_only(5) [of "re_allocator e" "cache_mem S" g i True]
    by (auto simp: advertise_def steady_def split: prod.splits sum.splits)
  have idx: "cache_mem (set_index g xs S) = cache_mem S" for g xs S by (cases g) auto
  have one: "steady (cache_mem S) (cache_mem S')" if er: "EraseReplicaLocked e g k S = Some S'" for g S S'
  proof -
    obtain r ob where rob: "map_of (index_of g S) k = Some r" "cached_objects S (rp_object_offset r) = Some ob"
      using er by (auto simp: EraseReplicaLocked_def split: option.splits)
    have "cache_mem S' = cache_mem (advertise e (ai_gptr (co_info ob)) (rp_block_index r) 0 S) \<or>
        cache_mem S' = cache_mem (set_member e (co_descriptor ob) (\<lambda>m. m AND NOT (host_bit (re_host e)))
          (advertise e (ai_gptr (co_info ob)) (rp_block_index r) 0 S))"
      using er rob by (auto simp: EraseReplicaLocked_def Let_def idx set_member_def split: if_splits)
    moreover have "steady (cache_mem X) (cache_mem (set_member e off f X))" for X off f
      by (simp add: steady_def set_descriptor_def set_member_def)
    ultimately show ?thesis using adv steady_trans [OF adv] by metis
  qed
  have found: "steady (cache_mem S) (cache_mem S')" if "erase_found e g k S = Some S'" for g S S'
    using that one by (auto simp: erase_found_def split: if_splits)
  show ?thesis using assms found by (auto simp: erase_both_def intro: steady_trans split: option.splits)
qed

section \<open>Copying a buffer out\<close>

definition buffer_object :: "WriteBuffer \<Rightarrow> GlobalPointer" where
  "buffer_object wb = ls_object (wb_lease wb)"

text \<open>The address of byte \<open>j\<close> of a buffer, and the block it lies in.\<close>

definition byte_at :: "WriteBuffer \<Rightarrow> nat \<Rightarrow> u64" where
  "byte_at wb j = gp_offset (buffer_object wb) + wb_offset wb + of_nat j"

definition block_of :: "WriteBuffer \<Rightarrow> AllocationDescriptor \<Rightarrow> nat \<Rightarrow> nat" where
  "block_of wb d j = (unat (wb_offset wb) + j) div unat (ad_coherence_block_bytes d)"

definition buffer_size :: "WriteBuffer \<Rightarrow> nat" where
  "buffer_size wb = length (the (wb_storage wb))"

text \<open>The range of a buffer lies in its object, and neither addresses nor metadata offsets wrap around.\<close>

definition buffer_fits :: "WriteBuffer \<Rightarrow> AllocationDescriptor \<Rightarrow> bool" where
  "buffer_fits wb d \<longleftrightarrow> buffer_size wb < 2 ^ 64 \<and> range_ok (info_of (buffer_object wb) d) (wb_offset wb) (of_nat (buffer_size wb)) \<and>
     unat (gp_offset (buffer_object wb)) + unat (ad_bytes d) \<le> 2 ^ 64 \<and>
     unat (ad_coherence_metadata_offset d) + unat (ad_coherence_block_count d) * 576 < 2 ^ 64 \<and>
     unat (ad_bytes d) \<le> unat (ad_coherence_block_count d) * unat (ad_coherence_block_bytes d)"

definition in_buffer :: "WriteBuffer \<Rightarrow> AllocationDescriptor \<Rightarrow> nat \<Rightarrow> bool" where
  "in_buffer wb d i \<longleftrightarrow> touched (info_of (buffer_object wb) d) (wb_offset wb) (of_nat (buffer_size wb)) i"

lemma buffer_size_word: "buffer_fits wb d \<Longrightarrow> unat (of_nat (buffer_size wb) :: u64) = buffer_size wb"
  by (simp add: buffer_fits_def unat_of_nat)

lemma block_of_iff:
  assumes "0 < unat (ad_coherence_block_bytes d)"
  shows "block_of wb d j = i \<longleftrightarrow> i * unat (ad_coherence_block_bytes d) \<le> unat (wb_offset wb) + j \<and>
    unat (wb_offset wb) + j < (i + 1) * unat (ad_coherence_block_bytes d)"
  using assms div_less_iff_less_mult [OF assms, of "unat (wb_offset wb) + j" "i + 1"] less_eq_div_iff_mult_less_eq [OF assms, of i "unat (wb_offset wb) + j"]
  by (auto simp: block_of_def)

lemma write_bytes_at:
  assumes "x < 2 ^ 64" and "y + length xs < 2 ^ 64"
  shows "write_bytes (a + of_nat y) xs m (a + of_nat x) = (if y \<le> x \<and> x < y + length xs then xs ! (x - y) else m (a + of_nat x))"
proof (cases "y \<le> x")
  case True
  have "(a + of_nat x) - (a + of_nat y) = (of_nat (x - y) :: u64)" using True by (simp add: of_nat_diff)
  moreover have "unat (of_nat (x - y) :: u64) = x - y" using assms(1) by (simp add: unat_of_nat)
  ultimately show ?thesis using True by (auto simp: write_bytes_def)
next
  case False
  let ?w = "(a + of_nat x) - (a + of_nat y) :: u64"
  have w: "?w = of_nat x - of_nat y" by simp
  have "unat (of_nat x :: u64) = x" "unat (of_nat y :: u64) = y" using assms by (simp_all add: unat_of_nat)
  then have "unat ?w = x + 2 ^ 64 - y" unfolding w using False by (simp add: unat_sub_if')
  then have "length xs \<le> unat ?w" using assms(2) False by linarith
  then show ?thesis using False by (simp add: write_bytes_def)
qed

lemma copy_out_block:
  assumes fits: "buffer_fits wb d" and i: "in_buffer wb d i"
  shows "\<exists>m'. copy_out wb d (of_nat i) m = Some m' \<and>
    (\<forall>j < buffer_size wb. m' (byte_at wb j) = (if block_of wb d j = i then the (wb_storage wb) ! j else m (byte_at wb j)))"
proof -
  let ?o = "unat (wb_offset wb)" and ?n = "buffer_size wb" and ?B = "unat (ad_bytes d)" and ?g = "unat (ad_coherence_block_bytes d)"
  let ?bs = "of_nat i * ad_coherence_block_bytes d" and ?xs = "the (wb_storage wb)"
  have n: "unat (of_nat ?n :: u64) = ?n" by (rule buffer_size_word [OF fits])
  have r: "0 < ?n" "0 < ?g" "?o + ?n \<le> ?B" "?B + ?g \<le> 2 ^ 64"
    using fits n by (cases "?n = 0"; auto simp: buffer_fits_def range_ok_def info_of_def unat_gt_0)+
  note t = touched_bounds [of "info_of (buffer_object wb) d" "wb_offset wb" "of_nat ?n" i]
  have t: "i * ?g < ?o + ?n" "?o < (i + 1) * ?g" "(i + 1) * ?g < 2 ^ 64" "unat ?bs = i * ?g"
    using t(1,2,3,5) fits i n by (simp_all add: buffer_fits_def in_buffer_def info_of_def)
  define cb where "cb = max (wb_offset wb) ?bs"
  define ce where "ce = min (wb_offset wb + of_nat ?n) (min (ad_bytes d) (?bs + ad_coherence_block_bytes d))"
  have cb: "unat cb = max ?o (i * ?g)" using t(4) by (auto simp: cb_def max_def word_le_nat_alt)
  have s: "unat (wb_offset wb + of_nat ?n) = ?o + ?n" using r n by (subst unat_add_no_wrap) simp_all
  have e: "unat (?bs + ad_coherence_block_bytes d) = (i + 1) * ?g" using t by (subst unat_add_no_wrap) simp_all
  have ce: "unat ce = min (?o + ?n) ((i + 1) * ?g)" using s e r(3) by (auto simp: ce_def min_def word_le_nat_alt)
  have le: "max ?o (i * ?g) \<le> min (?o + ?n) ((i + 1) * ?g)" using t(1,2) r by simp
  have p: "unat (cb - wb_offset wb) = max ?o (i * ?g) - ?o" using cb by (subst unat_sub_no_wrap) (simp_all add: word_le_nat_alt)
  have l: "unat (ce - cb) = min (?o + ?n) ((i + 1) * ?g) - max ?o (i * ?g)"
    using cb ce le by (subst unat_sub_no_wrap) (simp_all add: word_le_nat_alt)
  let ?part = "take (unat (ce - cb)) (drop (unat (cb - wb_offset wb)) ?xs)"
  have fit: "unat (cb - wb_offset wb) + unat (ce - cb) \<le> length ?xs" unfolding p l using le by (simp add: buffer_size_def [symmetric])
  let ?m = "write_bytes (gp_offset (buffer_object wb) + cb) ?part m"
  have c: "copy_out wb d (of_nat i) m = Some ?m"
    using fit ce cb le by (simp add: copy_out_def Let_def cb_def [symmetric] buffer_size_def [symmetric] ce_def [symmetric]
        buffer_object_def not_less word_le_nat_alt)
  have len: "length ?part = unat (ce - cb)" using fit by simp
  have "?m (byte_at wb j) = (if block_of wb d j = i then ?xs ! j else m (byte_at wb j))" if j: "j < ?n" for j
  proof -
    have a: "gp_offset (buffer_object wb) + cb = gp_offset (buffer_object wb) + of_nat (unat cb)"
      "byte_at wb j = gp_offset (buffer_object wb) + of_nat (?o + j)" by (simp_all add: byte_at_def)
    have b: "?o + j < 2 ^ 64" "unat cb + length ?part < 2 ^ 64" using j r(2,3,4) len cb l le by linarith+
    define top where "top = unat cb + length ?part"
    have "top = min (?o + ?n) ((i + 1) * ?g)" unfolding top_def len using l cb le by linarith
    then have "unat cb \<le> ?o + j \<and> ?o + j < top \<longleftrightarrow> block_of wb d j = i" unfolding block_of_iff [OF r(2)] cb using j by auto
    then have in_block: "unat cb \<le> ?o + j \<and> ?o + j < unat cb + length ?part \<longleftrightarrow> block_of wb d j = i" by (simp only: top_def)
    have "?part ! (?o + j - unat cb) = ?xs ! j" if "unat cb \<le> ?o + j" "?o + j < unat cb + length ?part"
    proof -
      have "?o + j - unat cb < unat (ce - cb)" using that len by linarith
      then have "?part ! (?o + j - unat cb) = ?xs ! (unat (cb - wb_offset wb) + (?o + j - unat cb))"
        using fit by (simp only: nth_take) (subst nth_drop, simp_all)
      moreover have "unat (cb - wb_offset wb) + (?o + j - unat cb) = j" using that(1) p cb by simp
      ultimately show ?thesis by (simp only:)
    qed
    then show ?thesis unfolding a write_bytes_at [OF b] using in_block by auto
  qed
  then show ?thesis using c by blast
qed

section \<open>What a release publishes\<close>

text \<open>A block as others see it: its version, and the bytes of the buffer's range that lie in it.\<close>

definition positions :: "WriteBuffer \<Rightarrow> AllocationDescriptor \<Rightarrow> nat \<Rightarrow> nat list" where
  "positions wb d i = filter (\<lambda>j. block_of wb d j = i) [0..<buffer_size wb]"

definition block_view :: "(u64 \<Rightarrow> u64) \<Rightarrow> AllocationDescriptor \<Rightarrow> WriteBuffer \<Rightarrow> nat \<Rightarrow> WriteState \<Rightarrow> Version \<times> u8 list" where
  "block_view mo d wb i W = (cb_version (block_at (block_key mo (buffer_object wb) (of_nat i)) (ws_token W)),
     map (\<lambda>j. ws_bytes W (byte_at wb j)) (positions wb d i))"

definition new_bytes :: "AllocationDescriptor \<Rightarrow> WriteBuffer \<Rightarrow> nat \<Rightarrow> u8 list" where
  "new_bytes d wb i = map ((!) (the (wb_storage wb))) (positions wb d i)"

definition write_inv :: "(u64 \<Rightarrow> u64) \<Rightarrow> WriteEnv \<Rightarrow> WriteState \<Rightarrow> bool" where
  "write_inv mo e W \<longleftrightarrow> metadata_at mo (mem (ws_token W)) \<and> cache_ok (we_cache e) (cache_view W)"

text \<open>
  What the others owe the writer.  They keep the invariant, they leave the blocks alone whose tokens the writer still
  has at that point, and they may take a published block further, as long as that keeps what \<open>Q\<close> says of it.
\<close>

fun has_token :: "Pause \<Rightarrow> nat \<Rightarrow> bool" where
  "has_token (BeforeBlock i) j \<longleftrightarrow> unat i \<le> j"
| "has_token (Copied i) j \<longleftrightarrow> unat i \<le> j"
| "has_token (Released i) j \<longleftrightarrow> unat i < j"
| "has_token _ j \<longleftrightarrow> False"

definition considerate :: "(u64 \<Rightarrow> u64) \<Rightarrow> WriteEnv \<Rightarrow> AllocationDescriptor \<Rightarrow> WriteBuffer \<Rightarrow> (nat \<Rightarrow> Version \<times> u8 list \<Rightarrow> bool) \<Rightarrow>
    (Pause \<Rightarrow> WriteState \<Rightarrow> WriteState) \<Rightarrow> bool" where
  "considerate mo e d wb Q others \<longleftrightarrow>
     (\<forall>p W. write_inv mo e W \<longrightarrow> write_inv mo e (others p W)) \<and>
     (\<forall>p W i. has_token p i \<longrightarrow> block_view mo d wb i (others p W) = block_view mo d wb i W) \<and>
     (\<forall>p W i. Q i (block_view mo d wb i W) \<longrightarrow> Q i (block_view mo d wb i (others p W)))"

lemma metadata_steady: "steady M M' \<Longrightarrow> metadata_at mo M \<Longrightarrow> metadata_at mo M'"
  by (simp add: steady_def metadata_at_def)

lemma token_write_inv:
  assumes "untouched (ws_token W) T" and "write_inv mo e W"
  shows "write_inv mo e (W\<lparr>ws_token := T\<rparr>)" "block_view mo d wb i (W\<lparr>ws_token := T\<rparr>) = block_view mo d wb i W"
proof -
  have "cache_ok (we_cache e) (cache_view (W\<lparr>ws_token := T\<rparr>))"
    by (rule cache_ok_cong [of _ "cache_view W"])
      (use assms in \<open>simp_all add: write_inv_def cache_view_def entries_def is_member_def untouched_def same_members_def\<close>)
  then show "write_inv mo e (W\<lparr>ws_token := T\<rparr>)" using assms metadata_steady by (auto simp: write_inv_def untouched_def)
  show "block_view mo d wb i (W\<lparr>ws_token := T\<rparr>) = block_view mo d wb i W"
    using assms(1) by (simp add: block_view_def untouched_def steady_def block_at_def)
qed

lemma release_all_view:
  assumes "write_inv mo e W"
  shows "block_view mo d wb i (release_all e ls W) = block_view mo d wb i W"
  using assms
proof (induction ls arbitrary: W)
  case (Cons l ls)
  obtain st T where r: "Release (we_token e) l False (ws_token W) = (st, T)" by fastforce
  have u: "untouched (ws_token W) T" using Release_Grant_untouched(1) [of False "ws_token W" "we_token e" l] r by simp
  show ?case using Cons.IH [OF token_write_inv(1) [OF u Cons.prems]] token_write_inv(2) [OF u Cons.prems] r by (simp add: on_token_def)
qed simp

lemma erase_copies_view:
  assumes "write_inv mo e W" and "re_host (we_cache e) < 64"
  shows "\<exists>W'. on_cache (erase_both (we_cache e) k) W = Some W' \<and> write_inv mo e W' \<and> (\<forall>i. block_view mo d wb i W' = block_view mo d wb i W)"
proof -
  obtain S where S: "erase_both (we_cache e) k (cache_view W) = Some S" "cache_ok (we_cache e) S"
    using erase_both_ok [OF assms(2), of "cache_view W" k] assms(1) by (auto simp: write_inv_def)
  have s: "steady (mem (ws_token W)) (cache_mem S)" using erase_both_steady [OF S(1)] by (simp add: cache_view_def)
  let ?W = "W\<lparr>ws_cache := S, ws_token := (ws_token W)\<lparr>mem := cache_mem S\<rparr>\<rparr>"
  have "write_inv mo e ?W" using S(2) metadata_steady [OF s] assms(1) by (simp add: write_inv_def cache_view_def)
  moreover have "block_view mo d wb i ?W = block_view mo d wb i W" for i using s by (simp add: block_view_def steady_def block_at_def)
  ultimately show ?thesis using S(1) by (simp add: on_cache_def)
qed

lemma block_key_inj:
  assumes "buffer_fits wb d" and "mo (gp_offset (buffer_object wb)) = ad_coherence_metadata_offset d"
    and "in_buffer wb d i" and "in_buffer wb d j" and "i \<noteq> j"
  shows "block_key mo (buffer_object wb) (of_nat i) \<noteq> block_key mo (buffer_object wb) (of_nat j)"
proof -
  let ?geo = "info_of (buffer_object wb) d" and ?n = "of_nat (buffer_size wb) :: u64"
  let ?is = "[unat (wb_offset wb) div unat (ai_coherence_block_bytes ?geo)..<
    Suc ((unat (wb_offset wb) + unat ?n - 1) div unat (ai_coherence_block_bytes ?geo))]"
  have ok: "range_ok ?geo (wb_offset wb) ?n" using assms(1) by (simp add: buffer_fits_def)
  have "distinct (map (cache_key ?geo \<circ> of_nat) ?is)"
    using block_keys_distinct [OF ok] assms(1) block_indices_eq [OF ok] by (simp add: buffer_fits_def info_of_def del: upt_Suc)
  then have "inj_on (cache_key ?geo \<circ> of_nat) (set ?is)" by (simp only: distinct_map)
  moreover have "i \<in> set ?is" "j \<in> set ?is" using assms(3,4) by (simp_all add: in_buffer_def touched_def del: upt_Suc)
  ultimately have "(cache_key ?geo \<circ> of_nat) i \<noteq> (cache_key ?geo \<circ> of_nat) j" using assms(5) inj_on_eq_iff by metis
  then show ?thesis using assms(2) by (simp add: cache_key_def block_key_def info_of_def comp_def)
qed

lemma copied_view:
  assumes "buffer_fits wb d" and "in_buffer wb d i"
  shows "\<exists>m. copy_out wb d (of_nat i) (ws_bytes W) = Some m \<and>
    (\<forall>j. block_view mo d wb j (W\<lparr>ws_bytes := m\<rparr>) = (if j = i then (fst (block_view mo d wb i W), new_bytes d wb i) else block_view mo d wb j W))"
proof -
  obtain m where m: "copy_out wb d (of_nat i) (ws_bytes W) = Some m"
    "\<forall>x < buffer_size wb. m (byte_at wb x) = (if block_of wb d x = i then the (wb_storage wb) ! x else ws_bytes W (byte_at wb x))"
    using copy_out_block [OF assms] by blast
  have "block_view mo d wb j (W\<lparr>ws_bytes := m\<rparr>) = (if j = i then (fst (block_view mo d wb i W), new_bytes d wb i) else block_view mo d wb j W)" for j
    using m(2) by (auto simp: block_view_def new_bytes_def positions_def)
  then show ?thesis using m(1) by blast
qed

text \<open>One block of the loop.\<close>

lemma writeback_block:
  assumes others: "considerate mo e d wb Q others" and fits: "buffer_fits wb d" and i: "in_buffer wb d i"
    and mo: "mo (gp_offset (buffer_object wb)) = ad_coherence_metadata_offset d"
    and l: "ls_object l = buffer_object wb" "ls_block_index l = of_nat i" and inv: "write_inv mo e W" and host: "re_host (we_cache e) < 64"
    and new: "Q i (fst (block_view mo d wb i W) + 1, new_bytes d wb i)"
  shows "\<exists>st W1. st \<noteq> kOk \<and> write_inv mo e W1 \<and> writeback e others d wb (l # rest) W = Some (st, release_all e (l # rest) W1) \<and>
      (\<forall>j \<ge> i. block_view mo d wb j W1 = block_view mo d wb j W) \<and>
      (\<forall>j. Q j (block_view mo d wb j W) \<longrightarrow> Q j (block_view mo d wb j W1))
    \<or> (\<exists>st W1. write_inv mo e W1 \<and>
      writeback e others d wb (l # rest) W = (if st \<noteq> kOk then Some (st, release_all e rest W1) else writeback e others d wb rest W1) \<and>
      (\<forall>j. i < j \<and> in_buffer wb d j \<longrightarrow> block_view mo d wb j W1 = block_view mo d wb j W) \<and>
      (\<forall>j. j < i \<and> in_buffer wb d j \<and> Q j (block_view mo d wb j W) \<longrightarrow> Q j (block_view mo d wb j W1)) \<and>
      (st = kOk \<longrightarrow> Q i (block_view mo d wb i W1)))"
proof -
  let ?v = "block_view mo d wb" and ?k = "block_key mo (buffer_object wb) (of_nat i)"
  have o1: "write_inv mo e (others p X)" if "write_inv mo e X" for p X using others that by (simp add: considerate_def)
  have o2: "?v j (others p X) = ?v j X" if "has_token p j" for p X j using others that by (simp add: considerate_def)
  have o3: "Q j (?v j (others p X))" if "Q j (?v j X)" for p X j using others that by (simp add: considerate_def)
  have ui: "unat (of_nat i :: u64) = i"
    using touched_bounds(4) [of "info_of (buffer_object wb) d" "wb_offset wb" "of_nat (buffer_size wb)" i] fits i
    by (simp add: buffer_fits_def in_buffer_def)
  define W0 where "W0 = others (BeforeBlock (of_nat i)) W"
  have W0: "write_inv mo e W0" "i \<le> j \<Longrightarrow> ?v j W0 = ?v j W" "Q j (?v j W) \<Longrightarrow> Q j (?v j W0)" for j
    using o1 [OF inv] o2 o3 ui by (simp_all add: W0_def)
  obtain st1 T1 where b: "BeginWriteback (we_token e) l (ws_token W0) = (st1, T1)" by fastforce
  define W1 where "W1 = W0\<lparr>ws_token := T1\<rparr>"
  note u1 = token_write_inv [OF untouched_BeginWriteback [OF b] W0(1), folded W1_def]
  have step1: "on_token (BeginWriteback (we_token e) l) W0 = (st1, W1)" by (simp add: on_token_def b W1_def)
  show ?thesis
  proof (cases "st1 = kOk")
    case False
    then have "writeback e others d wb (l # rest) W = Some (st1, release_all e (l # rest) W1)"
      using step1 by (simp add: W0_def l(2) Let_def)
    then show ?thesis using False u1 W0 by (intro disjI1 exI [of _ st1] exI [of _ W1]) simp
  next
    case True
    obtain m where m: "copy_out wb d (of_nat i) (ws_bytes W1) = Some m"
      "\<forall>j. ?v j (W1\<lparr>ws_bytes := m\<rparr>) = (if j = i then (fst (?v i W1), new_bytes d wb i) else ?v j W1)"
      using copied_view [OF fits i] by blast
    define W2 where "W2 = others (Copied (of_nat i)) (W1\<lparr>ws_bytes := m\<rparr>)"
    have "write_inv mo e (W1\<lparr>ws_bytes := m\<rparr>)" using u1(1) by (simp add: write_inv_def cache_view_def)
    then have W2: "write_inv mo e W2" "i \<le> j \<Longrightarrow> ?v j W2 = (if j = i then (fst (?v i W), new_bytes d wb i) else ?v j W)"
      "j \<noteq> i \<Longrightarrow> Q j (?v j W) \<Longrightarrow> Q j (?v j W2)" for j
      using o1 o2 o3 ui m(2) u1(2) W0 by (simp_all add: W2_def)
    obtain st T3 where r: "Release (we_token e) l True (ws_token W2) = (st, T3)" by fastforce
    define W3 where "W3 = W2\<lparr>ws_token := T3\<rparr>"
    have md: "metadata_at mo (mem (ws_token W2))" using W2(1) by (simp add: write_inv_def)
    have rel: "untouched (bumped ?k (ws_token W2)) T3 \<or> st \<noteq> kOk \<and> untouched (ws_token W2) T3"
      using Release_modified [OF r md] by (simp add: l)
    have bump: "write_inv mo e (W2\<lparr>ws_token := bumped ?k (ws_token W2)\<rparr>)"
      using W2(1) cache_ok_cong [of "we_cache e" "cache_view W2" "cache_view (W2\<lparr>ws_token := bumped ?k (ws_token W2)\<rparr>)"]
      by (simp add: write_inv_def bumped_def set_block_def metadata_at_def cache_view_def entries_def is_member_def)
    have ne: "block_key mo (buffer_object wb) (of_nat j) \<noteq> ?k" if "j \<noteq> i" "in_buffer wb d j" for j
      using block_key_inj [where mo = mo, OF fits mo i that(2)] that(1) by metis
    have bv: "?v i (W2\<lparr>ws_token := bumped ?k (ws_token W2)\<rparr>) = (fst (?v i W) + 1, new_bytes d wb i)"
      "j \<noteq> i \<Longrightarrow> in_buffer wb d j \<Longrightarrow> ?v j (W2\<lparr>ws_token := bumped ?k (ws_token W2)\<rparr>) = ?v j W2" for j
      using W2(2) [of i] ne by (auto simp: block_view_def bumped_def set_block_def block_at_def)
    have W3: "write_inv mo e W3" "j \<noteq> i \<Longrightarrow> in_buffer wb d j \<Longrightarrow> ?v j W3 = ?v j W2" "st = kOk \<Longrightarrow> ?v i W3 = (fst (?v i W) + 1, new_bytes d wb i)" for j
      using rel token_write_inv [OF _ bump, of T3] token_write_inv [OF _ W2(1), of T3] bv by (auto simp: W3_def)
    define W4 where "W4 = others (Released (of_nat i)) W3"
    have W4: "write_inv mo e W4" "i < j \<Longrightarrow> ?v j W4 = ?v j W3" "Q j (?v j W3) \<Longrightarrow> Q j (?v j W4)" for j
      using o1 [OF W3(1)] o2 o3 ui by (simp_all add: W4_def)
    obtain W5 where W5: "on_cache (erase_both (we_cache e) (ad_coherence_metadata_offset d + of_nat i * sizeof_CoherenceBlockDescriptor)) W4 = Some W5"
      "write_inv mo e W5" "\<forall>j. ?v j W5 = ?v j W4" using erase_copies_view [OF W4(1) host] by blast
    have "writeback e others d wb (l # rest) W = (if st \<noteq> kOk then Some (st, release_all e rest W5) else writeback e others d wb rest W5)"
      using step1 True m(1) r W5(1) by (simp add: W0_def [symmetric] l(2) Let_def W2_def [symmetric] on_token_def [of "Release _ _ _"] W3_def [symmetric] W4_def [symmetric])
    moreover have "\<forall>j. i < j \<and> in_buffer wb d j \<longrightarrow> ?v j W5 = ?v j W" using W5(3) W4(2) W3(2) W2(2) by simp
    moreover have "\<forall>j. j < i \<and> in_buffer wb d j \<and> Q j (?v j W) \<longrightarrow> Q j (?v j W5)" using W5(3) W4(3) W3(2) W2(3) by simp
    moreover have "st = kOk \<longrightarrow> Q i (?v i W5)" using W5(3) W4(3) W3(3) new by simp
    ultimately show ?thesis using W5(2) by (intro disjI2 exI [of _ st] exI [of _ W5]) simp
  qed
qed

lemma writeback_blocks:
  assumes others: "considerate mo e d wb Q others" and fits: "buffer_fits wb d"
    and mo: "mo (gp_offset (buffer_object wb)) = ad_coherence_metadata_offset d" and host: "re_host (we_cache e) < 64"
    and L: "\<And>i. in_buffer wb d i \<Longrightarrow> ls_object (L i) = buffer_object wb \<and> ls_block_index (L i) = of_nat i"
    and "\<And>i. a \<le> i \<Longrightarrow> i < b \<Longrightarrow> in_buffer wb d i" and "write_inv mo e W"
    and "\<And>i. a \<le> i \<Longrightarrow> i < b \<Longrightarrow> Q i (fst (block_view mo d wb i W) + 1, new_bytes d wb i)"
    and "a \<le> b"
  shows "\<exists>st W' c. writeback e others d wb (map L [a..<b]) W = Some (st, W') \<and> a \<le> c \<and> c \<le> b \<and> (st = kOk \<longrightarrow> c = b) \<and>
    (\<forall>i. a \<le> i \<and> i < c \<longrightarrow> Q i (block_view mo d wb i W')) \<and> (\<forall>i. c < i \<and> i < b \<longrightarrow> block_view mo d wb i W' = block_view mo d wb i W) \<and>
    (\<forall>i. i < a \<and> in_buffer wb d i \<and> Q i (block_view mo d wb i W) \<longrightarrow> Q i (block_view mo d wb i W'))"
  using assms(6-9)
proof (induction "b - a" arbitrary: a W)
  case 0
  then show ?case by (intro exI [of _ kOk] exI [of _ W] exI [of _ b]) auto
next
  case (Suc n)
  let ?v = "block_view mo d wb" and ?ls = "map L [Suc a..<b]"
  have ab: "a < b" using Suc.hyps(2) by simp
  then have up: "map L [a..<b] = L a # ?ls" by (simp add: upt_conv_Cons)
  have a: "in_buffer wb d a" using Suc.prems(1) ab by simp
  note step = writeback_block [OF others fits a mo conjunct1 [OF L [OF a]] conjunct2 [OF L [OF a]] Suc.prems(2) host Suc.prems(3) [OF order_refl ab], of ?ls]
  from step consider (start) st W1 where "st \<noteq> kOk" "write_inv mo e W1" "writeback e others d wb (L a # ?ls) W = Some (st, release_all e (L a # ?ls) W1)"
      "\<forall>j \<ge> a. ?v j W1 = ?v j W" "\<forall>j. Q j (?v j W) \<longrightarrow> Q j (?v j W1)"
    | (block) st W1 where "write_inv mo e W1"
      "writeback e others d wb (L a # ?ls) W = (if st \<noteq> kOk then Some (st, release_all e ?ls W1) else writeback e others d wb ?ls W1)"
      "\<forall>j. a < j \<and> in_buffer wb d j \<longrightarrow> ?v j W1 = ?v j W" "\<forall>j. j < a \<and> in_buffer wb d j \<and> Q j (?v j W) \<longrightarrow> Q j (?v j W1)"
      "st = kOk \<longrightarrow> Q a (?v a W1)"
    by (elim disjE exE conjE) (erule (4) start, erule (4) block)
  then show ?case
  proof cases
    case start
    then show ?thesis using up ab release_all_view [OF start(2), of d wb _ "L a # ?ls"]
      by (intro exI [of _ st] exI [of _ "release_all e (L a # ?ls) W1"] exI [of _ a]) (auto simp del: release_all.simps writeback.simps)
  next
    case block
    show ?thesis
    proof (cases "st = kOk")
      case False
      then show ?thesis using block up ab release_all_view [OF block(1), of d wb _ ?ls] Suc.prems(1)
        by (intro exI [of _ st] exI [of _ "release_all e ?ls W1"] exI [of _ a]) (auto simp del: release_all.simps writeback.simps)
    next
      case True
      have n: "n = b - Suc a" using Suc.hyps(2) by simp
      have new: "Q i (fst (?v i W1) + 1, new_bytes d wb i)" if "Suc a \<le> i" "i < b" for i using block(3) Suc.prems(1,3) that by simp
      from Suc.hyps(1) [OF n _ block(1) new] ab Suc.prems(1) obtain st' W' c
        where w: "writeback e others d wb ?ls W1 = Some (st', W')" "Suc a \<le> c" "c \<le> b" "st' = kOk \<longrightarrow> c = b"
          "\<forall>i. Suc a \<le> i \<and> i < c \<longrightarrow> Q i (?v i W')" "\<forall>i. c < i \<and> i < b \<longrightarrow> ?v i W' = ?v i W1"
          "\<forall>i. i < Suc a \<and> in_buffer wb d i \<and> Q i (?v i W1) \<longrightarrow> Q i (?v i W')" by (auto simp: Suc_le_eq)
      have "Q i (?v i W')" if "a \<le> i" "i < c" for i using w(5,7) block(5) True a that by (cases "i = a") auto
      moreover have "\<forall>i. i < a \<and> in_buffer wb d i \<and> Q i (?v i W) \<longrightarrow> Q i (?v i W')" using w(7) block(4) by simp
      moreover have "\<forall>i. c < i \<and> i < b \<longrightarrow> ?v i W' = ?v i W" using w(2,6) block(3) Suc.prems(1) by simp
      ultimately show ?thesis using w(1-4) block(2) True up by (intro exI [of _ st'] exI [of _ W'] exI [of _ c]) (auto simp del: writeback.simps)
    qed
  qed
qed

lemma MutableDescriptor_at:
  assumes "fst (MutableDescriptor A M object b) = Inr d"
  shows "d = descriptors M (gp_offset object)"
  using assms by (auto simp: MutableDescriptor_def LockAllocationSlot_def FindDescriptorLocked_def Let_def
      split: if_splits option.splits sum.splits prod.splits)

text \<open>
  C6.  What a release of a write buffer publishes, whatever other threads and hosts do meanwhile with blocks whose
  tokens they may use.  The call ends without an access outside its buffers.  When it reports success every block of
  the range has the next version and in it the bytes of the buffer, as long as \<open>Q\<close>, which holds of that version and
  those bytes, is kept by later writers; and the pin is given back.  When it reports a failure the blocks before
  some block \<open>c\<close> are published in full, and the blocks after \<open>c\<close> have their old version and bytes: no block but \<open>c\<close> is
  left half written.
\<close>

theorem ReleaseWriteBuffer_publishes:
  assumes "we_initialized e" and "wb_storage wb = Some xs" and "wb_guard wb = Some off" and "re_host (we_cache e) < 64"
    and "fst (MutableDescriptor (re_allocator (we_cache e)) (mem (ws_token W)) (buffer_object wb) True) = Inr d" and "buffer_fits wb d"
    and "wb_leases wb = map L [block_of wb d 0..<Suc (block_of wb d (length xs - 1))]"
    and "\<And>i. in_buffer wb d i \<Longrightarrow> ls_object (L i) = buffer_object wb \<and> ls_block_index (L i) = of_nat i"
    and "write_inv mo e W" and "considerate mo e d wb Q others"
    and "\<And>i. in_buffer wb d i \<Longrightarrow> Q i (fst (block_view mo d wb i W) + 1, new_bytes d wb i)"
  shows "\<exists>st wb' W' c. ReleaseWriteBuffer e others wb W = Some (st, wb', W') \<and>
    (st = kOk \<longrightarrow> c = Suc (block_of wb d (length xs - 1)) \<and> wb_guard wb' = None) \<and>
    (\<forall>i. in_buffer wb d i \<and> i < c \<longrightarrow> Q i (block_view mo d wb i W')) \<and>
    (\<forall>i. in_buffer wb d i \<and> c < i \<longrightarrow> block_view mo d wb i W' = block_view mo d wb i W)"
proof -
  let ?v = "block_view mo d wb" and ?a = "block_of wb d 0" and ?b = "Suc (block_of wb d (length xs - 1))"
  have n: "buffer_size wb = length xs" "unat (of_nat (length xs) :: u64) = length xs"
    using assms(2) buffer_size_word [OF assms(6)] by (simp_all add: buffer_size_def)
  have range: "0 < length xs" "unat (wb_offset wb) + length xs \<le> unat (ad_bytes d)"
    using assms(6) n by (cases "length xs = 0"; auto simp: buffer_fits_def range_ok_def info_of_def)+
  have inb: "in_buffer wb d i \<longleftrightarrow> ?a \<le> i \<and> i < ?b" for i
    using n range(1) add_diff_assoc [of 1 "length xs" "unat (wb_offset wb)"] by (auto simp: in_buffer_def touched_def block_of_def info_of_def Suc_le_eq less_Suc_eq_le)
  have ab0: "?a \<le> block_of wb d (length xs - 1)" unfolding block_of_def by (intro div_le_mono) simp
  then have ab: "?a \<le> ?b" by simp
  obtain M where md: "MutableDescriptor (re_allocator (we_cache e)) (mem (ws_token W)) (ls_object (wb_lease wb)) True = (Inr d, M)"
    using assms(5) by (cases "MutableDescriptor (re_allocator (we_cache e)) (mem (ws_token W)) (ls_object (wb_lease wb)) True") (simp add: buffer_object_def)
  then have "M = mem (ws_token W)" using read_only(2) by (metis snd_conv)
  with md have find: "on_memory (\<lambda>M. MutableDescriptor (re_allocator (we_cache e)) M (ls_object (wb_lease wb)) True) W = (Inr d, W)"
    by (simp add: on_memory_def)
  have mo: "mo (gp_offset (buffer_object wb)) = ad_coherence_metadata_offset d"
    using MutableDescriptor_at [OF assms(5)] assms(9) by (simp add: write_inv_def metadata_at_def)
  have leases: "buffer_leases wb = map L [?a..<?b]" using assms(7) ab0 by (simp add: buffer_leases_def del: upt_Suc)
  obtain st W1 c where w: "writeback e others d wb (map L [?a..<?b]) W = Some (st, W1)" "?a \<le> c" "c \<le> ?b" "st = kOk \<longrightarrow> c = ?b"
    "\<forall>i. ?a \<le> i \<and> i < c \<longrightarrow> Q i (?v i W1)" "\<forall>i. c < i \<and> i < ?b \<longrightarrow> ?v i W1 = ?v i W"
    using writeback_blocks [where L = L, OF assms(10,6) mo assms(4,8) _ assms(9) _ ab] assms(11) inb by blast
  have "\<not> ad_bytes d < wb_offset wb" "\<not> ad_bytes d - wb_offset wb < of_nat (length xs)"
    using range(2) n(2) by (simp_all add: word_less_nat_alt unat_sub_no_wrap word_le_nat_alt)
  then have run: "ReleaseWriteBuffer e others wb W =
      Some (if st \<noteq> kOk then (st, wb, W1) else (kOk, wb\<lparr>wb_guard := None\<rparr>, drop_guard e (wb_guard wb) W1))"
    using assms(1-3) find leases w(1) by (simp add: ReleaseWriteBuffer_def)
  have "?v i (drop_guard e (wb_guard wb) W1) = ?v i W1" for i
    using release_reference_untouched(1) [of "mem (ws_token W1)" off "re_host (we_cache e)"]
    by (simp add: drop_guard_def assms(3) on_memory_def split_def block_view_def steady_def block_at_def)
  then show ?thesis using run w(4-6) inb by (cases "st = kOk") auto
qed

section \<open>Acquiring is exclusive\<close>

text \<open>
  What the others owe a thread that waits: they keep the token protocol with the leases the thread already has, and
  leave the waiters of its requests to it.
\<close>

definition patient :: "WriteEnv \<Rightarrow> (u64 \<Rightarrow> u64) \<Rightarrow> (Pause \<Rightarrow> WriteState \<Rightarrow> WriteState) \<Rightarrow> bool" where
  "patient e mo others \<longleftrightarrow>
     (\<forall>p W F C mine. token_inv (we_token e) mo F (mine @ C) (ws_token W) \<longrightarrow>
        (\<exists>F C. token_inv (we_token e) mo F (mine @ C) (ws_token (others p W)))) \<and>
     (\<forall>p W i. waiter_owned i (ws_token W) \<longrightarrow> waiter_owned i (ws_token (others p W)))"

lemma acquire_leases_claims:
  assumes "patient e mo others" and "token_inv (we_token e) mo F (rev got @ C) (ws_token W)"
    and "acquire_leases e others object is got W = (Inr leases, W')"
  shows "length leases = length got + length is \<and> (\<exists>F C. token_inv (we_token e) mo F (rev leases @ C) (ws_token W'))"
  using assms(2,3)
proof (induction "is" arbitrary: got F C W)
  case (Cons i "is")
  obtain r W1 where q: "on_token (Request (we_token e) object i False) W = (Inr r, W1)"
    using Cons.prems(2) by (auto split: prod.splits sum.splits)
  obtain l W2 where w: "WaitForWriteToken e others r W1 = (Inr l, W2)"
    using Cons.prems(2) q by (auto split: prod.splits sum.splits)
  have "token_inv (we_token e) mo F (rev got @ C) (ws_token W1)"
    using Request_keeps [OF Cons.prems(1)] q by (auto simp: on_token_def keeps_def split: prod.splits)
  then obtain F2 C2 where inv: "token_inv (we_token e) mo F2 (rev got @ C2) (ws_token (others (InWait (rh_request_id r)) W1))"
    using assms(1) unfolding patient_def by blast
  have in_w: "rh_request_id r \<in> set (waiters (ws_token W1))" and f: "on_token (Wait_finish (rh_request_id r)) (others (InWait (rh_request_id r)) W1) = (Inr l, W2)"
    using w by (auto simp: WaitForWriteToken_def Let_def Wait_begin_def split: if_splits)
  have own: "waiter_owned (rh_request_id r) (ws_token (others (InWait (rh_request_id r)) W1))"
    using assms(1) in_w unfolding patient_def waiter_owned_def by blast
  have "token_inv (we_token e) mo F2 (rev (got @ [l]) @ C2) (ws_token W2)"
    using Wait_finish_keeps [OF inv own] f by (auto simp: on_token_def keeps_def claimed_def split: prod.splits)
  moreover have "acquire_leases e others object is (got @ [l]) W2 = (Inr leases, W')" using Cons.prems(2) q w by simp
  ultimately show ?case using Cons.IH [where got = "got @ [l]"] by fastforce
qed auto


section \<open>A small object is written\<close>

definition write_env :: WriteEnv where
  "write_env = \<lparr>we_token = sample_env 0, we_cache = \<lparr>re_allocator = te_allocator (sample_env 0), re_host = 0, re_capacity_entries = 4,
     re_capacity_bytes = 1000, re_cpu = te_cpu (sample_env 0)\<rparr>, we_initialized = True, we_host_count = 1, we_polling = False\<rparr>"

definition write_state :: "TokenState \<Rightarrow> WriteState" where
  "write_state T = \<lparr>ws_token = T, ws_cache = empty_cache sample_memory, ws_bytes = (\<lambda>_. 0), ws_staged = []\<rparr>"

definition write_buffer :: WriteBuffer where
  "write_buffer = \<lparr>wb_lease = sample_lease, wb_leases = [sample_lease], wb_offset = 0, wb_storage = Some [7, 8], wb_guard = Some 0x1280\<rparr>"

abbreviation nobody :: "Pause \<Rightarrow> WriteState \<Rightarrow> WriteState" where
  "nobody \<equiv> \<lambda>_ W. W"

definition holding_state :: TokenState where
  "holding_state = sample_waited\<lparr>mem := sample_memory\<rparr>"

lemma write_inv_sample:
  assumes "mem T = sample_memory"
  shows "write_inv (\<lambda>off. ad_coherence_metadata_offset (descriptors sample_memory off)) write_env (write_state T)"
proof -
  have "is_member (we_cache write_env) off (cache_view (write_state T)) = False" for off
    using assms by (simp add: is_member_def cache_view_def write_state_def write_env_def sample_memory_def default_descriptor_def)
  then have "cache_ok (we_cache write_env) (cache_view (write_state T))"
    by (simp add: cache_ok_def books_def entry_ok_def within_def) (simp add: cache_view_def write_state_def empty_cache_def entries_def bytes_of_def blocks_of_def)
  then show ?thesis using assms by (simp add: write_inv_def metadata_at_def write_state_def)
qed

theorem ReleaseWriteBuffer_publishes_witness:
  "\<exists>st wb' W'. ReleaseWriteBuffer write_env nobody write_buffer (write_state holding_state) = Some (st, wb', W') \<and>
     (st = kOk \<longrightarrow> ws_bytes W' 0x1280 = 7 \<and> ws_bytes W' 0x1281 = 8)"
proof -
  let ?d = "descriptors sample_memory 0x1280" and ?mo = "\<lambda>off. ad_coherence_metadata_offset (descriptors sample_memory off)"
  let ?W = "write_state holding_state" and ?Q = "\<lambda>i x. i = (0 :: nat) \<longrightarrow> x = (1 :: Version, [7, 8 :: u8])"
  have obj: "buffer_object write_buffer = sample_object" "buffer_size write_buffer = 2" "wb_offset write_buffer = 0"
    by (simp_all add: buffer_object_def write_buffer_def sample_lease_def buffer_size_def)
  have wbf: "wb_storage write_buffer = Some [7, 8]" "wb_guard write_buffer = Some 0x1280" "wb_leases write_buffer = [sample_lease]"
    by (simp_all add: write_buffer_def)
  have d: "ad_bytes ?d = 64" "ad_coherence_block_bytes ?d = 64" "ad_coherence_block_count ?d = 1" "ad_coherence_metadata_offset ?d = 0x20000"
    by (simp_all add: sample_memory_def)
  have blk: "block_of write_buffer ?d j = j div 64" for j by (simp add: block_of_def obj d)
  have inb: "in_buffer write_buffer ?d i \<longleftrightarrow> i = 0" for i by (auto simp: in_buffer_def touched_def obj info_of_def d)
  have fits: "buffer_fits write_buffer ?d" by (simp add: buffer_fits_def obj range_ok_def info_of_def d sample_object_def)
  have pos: "positions write_buffer ?d 0 = [0, 1]" by (simp add: positions_def obj blk upt_rec)
  have m: "mem holding_state = sample_memory" by (simp add: holding_state_def)
  have v: "fst (block_view ?mo ?d write_buffer 0 ?W) + 1 = 1"
    by (simp add: block_view_def write_state_def block_at_def m) (simp add: sample_memory_def fresh_block_def)
  have new: "new_bytes ?d write_buffer 0 = [7, 8]" by (simp add: new_bytes_def pos) (simp add: write_buffer_def)
  have find: "fst (MutableDescriptor (re_allocator (we_cache write_env)) (mem (ws_token ?W)) (buffer_object write_buffer) True) = Inr ?d"
    using sample_descriptor(1) [of "\<lambda>_. fresh_block 0" True] by (simp add: sample_same obj write_env_def write_state_def m)
  have q: "considerate ?mo write_env ?d write_buffer ?Q nobody" by (simp add: considerate_def)
  have "\<exists>st wb' W' c. ReleaseWriteBuffer write_env nobody write_buffer ?W = Some (st, wb', W') \<and>
      (st = kOk \<longrightarrow> c = Suc (block_of write_buffer ?d (length [7, 8 :: u8] - 1)) \<and> wb_guard wb' = None) \<and>
      (\<forall>i. in_buffer write_buffer ?d i \<and> i < c \<longrightarrow> ?Q i (block_view ?mo ?d write_buffer i W')) \<and>
      (\<forall>i. in_buffer write_buffer ?d i \<and> c < i \<longrightarrow> block_view ?mo ?d write_buffer i W' = block_view ?mo ?d write_buffer i ?W)"
    by (rule ReleaseWriteBuffer_publishes [where L = "\<lambda>_. sample_lease" and off = "0x1280", OF _ _ _ _ find fits _ _ write_inv_sample [OF m] q])
      (use v new in \<open>simp_all add: write_env_def wbf blk inb obj sample_lease_def\<close>)
  then obtain st wb' W' c where r: "ReleaseWriteBuffer write_env nobody write_buffer ?W = Some (st, wb', W')"
    "st = kOk \<longrightarrow> block_view ?mo ?d write_buffer 0 W' = (1, [7, 8])" by (auto simp: inb blk)
  have "st = kOk \<Longrightarrow> ws_bytes W' 0x1280 = 7 \<and> ws_bytes W' 0x1281 = 8"
    using r(2) by (simp add: block_view_def pos byte_at_def obj sample_object_def)
  with r(1) show ?thesis by blast
qed

text \<open>The object while a call has pinned it, and while the token service has pinned it once more.\<close>

definition pinned_twice :: AllocatorMemory where
  "pinned_twice = set_descriptor 0x1280 (\<lambda>d. d\<lparr>ad_active_operations := (ad_active_operations d)(0 := 2)\<rparr>) sample_memory"

abbreviation pinned_once :: AllocatorMemory where
  "pinned_once \<equiv> sample_pinned (\<lambda>_. fresh_block 0)"

lemma pin_lock:
  assumes "allocations (header M) = allocations (header sample_memory)" and "descriptors M 0x1280 = (descriptors sample_memory 0x1280)\<lparr>ad_active_operations := f\<rparr>"
  shows "MutableDescriptor (te_allocator (sample_env 0)) M sample_object b = (Inr (descriptors M 0x1280), M)"
    and "AcquireReference (te_allocator (sample_env 0)) M sample_object 0 b =
      (Inr 0x1280, set_descriptor 0x1280 (\<lambda>d. d\<lparr>ad_active_operations := (ad_active_operations d)(0 := ad_active_operations d 0 + 1)\<rparr>) M)"
    and "fst (Describe (te_allocator (sample_env 0)) M sample_object) = Inr (info_of sample_object (descriptors sample_memory 0x1280))"
    and "snd (Describe (te_allocator (sample_env 0)) M sample_object) = M"
proof -
  have a: "allocations (header M) = [\<lparr>sl_object_offset = 0x1280, sl_readers = 0\<rparr>]" using assms(1) by (simp add: sample_memory_def)
  note s = sample_slot [OF a]
  have find: "FindDescriptorLocked (te_allocator (sample_env 0)) (set_slot 0 g M) sample_object b = Inr (descriptors M 0x1280)" for g b
    unfolding FindDescriptorLocked_def by (simp add: Let_def set_slot_def sample_object_def assms(2)) (simp add: sample_defs assms(2))
  show "MutableDescriptor (te_allocator (sample_env 0)) M sample_object b = (Inr (descriptors M 0x1280), M)"
    by (simp add: MutableDescriptor_def s find)
  have live: "ad_state (descriptors M 0x1280) = ObjectAllocated" "ad_sealed_hosts (descriptors M 0x1280) = 0" using assms(2) by (simp_all add: sample_defs)
  have o: "gp_offset sample_object = 0x1280" by (simp add: sample_object_def)
  show "AcquireReference (te_allocator (sample_env 0)) M sample_object 0 b =
      (Inr 0x1280, set_descriptor 0x1280 (\<lambda>d. d\<lparr>ad_active_operations := (ad_active_operations d)(0 := ad_active_operations d 0 + 1)\<rparr>) M)"
    by (simp add: AcquireReference_def s find live o kMaxHosts_def)
  show "fst (Describe (te_allocator (sample_env 0)) M sample_object) = Inr (info_of sample_object (descriptors sample_memory 0x1280))"
    by (simp add: Describe_def s find live info_of_def) (simp add: assms(2))
  show "snd (Describe (te_allocator (sample_env 0)) M sample_object) = M" by (rule read_only)
qed

lemma pin_steps:
  "AcquireReference (te_allocator (sample_env 0)) sample_memory sample_object 0 False = (Inr 0x1280, pinned_once)"
  "Describe (te_allocator (sample_env 0)) pinned_once sample_object = (Inr (info_of sample_object (descriptors sample_memory 0x1280)), pinned_once)"
  "mem S = pinned_once \<Longrightarrow> Target (sample_env 0) sample_object 0 False S = (Inr sample_tg, S\<lparr>mem := pinned_twice\<rparr>)"
  "mem S = pinned_twice \<Longrightarrow> drop_target (sample_env 0) sample_tg S = S\<lparr>mem := pinned_once\<rparr>"
proof -
  have d0: "descriptors sample_memory 0x1280 = (descriptors sample_memory 0x1280)\<lparr>ad_active_operations := (\<lambda>_. 0)\<rparr>"
    by (simp add: sample_memory_def default_descriptor_def)
  have once: "descriptors pinned_once 0x1280 = (descriptors sample_memory 0x1280)\<lparr>ad_active_operations := (\<lambda>_. 0)(0 := 1)\<rparr>" by (rule sample_mem)
  have h: "allocations (header pinned_once) = allocations (header sample_memory)" "allocations (header pinned_twice) = allocations (header sample_memory)"
    by (simp_all add: sample_pinned_def pinned_twice_def set_descriptor_def)
  show "AcquireReference (te_allocator (sample_env 0)) sample_memory sample_object 0 False = (Inr 0x1280, pinned_once)"
    using pin_lock(2) [OF refl d0, of False] by (simp add: sample_pinned_def sample_same set_descriptor_def) (simp add: sample_memory_def default_descriptor_def)
  show "Describe (te_allocator (sample_env 0)) pinned_once sample_object = (Inr (info_of sample_object (descriptors sample_memory 0x1280)), pinned_once)"
    using pin_lock(3,4) [OF h(1) once] by (metis prod.collapse)
  have two: "set_descriptor 0x1280 (\<lambda>d. d\<lparr>ad_active_operations := (ad_active_operations d)(0 := ad_active_operations d 0 + 1)\<rparr>) pinned_once = pinned_twice"
    by (simp add: sample_pinned_def pinned_twice_def set_descriptor_def sample_same fun_eq_iff)
  have dt: "descriptors pinned_twice 0x1280 = (descriptors sample_memory 0x1280)\<lparr>ad_active_operations := (\<lambda>_. 0)(0 := 2)\<rparr>"
    by (simp add: pinned_twice_def set_descriptor_def) (simp add: sample_memory_def default_descriptor_def)
  have "MutableCoherenceBlock (te_allocator (sample_env 0)) pinned_twice sample_object 0 True = (Inr 0x20000, pinned_twice)"
    unfolding MutableCoherenceBlock_def pin_lock(1) [OF h(2) dt] by (simp add: Let_def dt) (simp add: sample_defs)
  then show "Target (sample_env 0) sample_object 0 False S = (Inr sample_tg, S\<lparr>mem := pinned_twice\<rparr>)" if "mem S = pinned_once"
    using that pin_lock(2) [OF h(1) once, of False] two dt by (simp add: Target_def sample_mem(7)) (simp add: sample_defs)
  show "drop_target (sample_env 0) sample_tg S = S\<lparr>mem := pinned_once\<rparr>" if "mem S = pinned_twice"
    using that by (simp add: drop_target_def ReleaseReference_def dt sample_mem(7))
      (simp add: pinned_twice_def sample_pinned_def set_descriptor_def sample_same fun_eq_iff kMaxHosts_def)
qed

definition free_state :: TokenState where
  "free_state = sample_registered\<lparr>mem := pinned_once\<rparr>"

definition taken_state :: TokenState where
  "taken_state = free_state\<lparr>next_request_id := 2, objects := [(0x20000, \<lparr>lo_available = True, lo_held = True, lo_pending = []\<rparr>)],
     waiter_heap := (\<lambda>_. default_waiter)(1 := default_waiter\<lparr>w_object := sample_object, w_lease := sample_lease, w_granted := True, w_state := WGranted\<rparr>)\<rparr>"

lemma take_token:
  "Request (sample_env 0) sample_object 0 False free_state = (Inr \<lparr>rh_object = sample_object, rh_block_index = 0, rh_request_id = 1\<rparr>, taken_state\<lparr>waiters := [1]\<rparr>)"
proof -
  let ?S1 = "free_state\<lparr>mem := pinned_twice\<rparr>"
  define D where "D = (\<lambda>o1 w. \<lparr>next_request_id = 2, outbound = (\<lambda>_. []), objects = [(0x20000 :: u64, o1)], waiters = [1],
     waiter_heap = (\<lambda>_. default_waiter)(1 := w), mem = pinned_twice, rings = (\<lambda>_. None)\<rparr> :: TokenState)"
  have m: "mem free_state = pinned_once" by (simp add: free_state_def)
  note t = pin_steps(3) [OF m]
  have n: "next_request_id ?S1 = 1" "waiters ?S1 = []" by (simp_all add: free_state_def sample_registered_def sample_state_def)
  have e: "emplace_waiter 1 w (?S1\<lparr>next_request_id := 1 + 1\<rparr>) = D \<lparr>lo_available = True, lo_held = False, lo_pending = []\<rparr> w" for w
    by (simp add: emplace_waiter_def free_state_def sample_registered_def sample_state_def D_def)
  have D: "put_object 0x20000 o2 (D o1 w) = D o2 w" "local_object 0x20000 (D o1 w) = o1" "set_waiter 1 f (D o1 w) = D o1 (f w)"
    "block_at k (D o1 w) = fresh_block 0" "drop_target (sample_env 0) sample_tg (D o1 w) = (D o1 w)\<lparr>mem := pinned_once\<rparr>"
    "allocation_live sample_tg (D o1 w)" for o1 o2 w f k
    by (simp_all add: D_def put_object_def local_object_def set_waiter_def block_at_def pin_steps(4) allocation_live_def fun_upd_def fun_eq_iff)
      (simp_all add: pinned_twice_def set_descriptor_def sample_memory_def)
  have own: "block_owner 0x20000 (D o1 w) = te_local_host (sample_env 0)" for o1 w by (simp add: block_owner_def D sample_fields sample_mem)
  have l: "current_lease sample_object 0 0x20000 (D o1 w) = sample_lease" for o1 w by (simp add: current_lease_def D sample_fields sample_lease_def)
  show ?thesis
    unfolding Request_def t prod.case sum.case Let_def n e CoherenceTarget.simps
    by (simp add: n e own activate_if_def l D) (simp add: D_def taken_state_def free_state_def sample_registered_def sample_state_def)
qed

definition sample_buffer :: WriteBuffer where
  "sample_buffer = \<lparr>wb_lease = sample_lease, wb_leases = [sample_lease], wb_offset = 0, wb_storage = Some [0, 0], wb_guard = Some 0x1280\<rparr>"

lemma sample_acquire:
  "AcquireWriteRange write_env nobody sample_object 0 2 1000 (write_state sample_registered) = (Inr sample_buffer, write_state taken_state)"
proof -
  let ?W1 = "write_state free_state" and ?W' = "write_state taken_state"
  have e: "we_token write_env = sample_env 0" "re_allocator (we_cache write_env) = te_allocator (sample_env 0)" "re_host (we_cache write_env) = 0"
    "we_initialized write_env" by (simp_all add: write_env_def)
  have m: "mem sample_registered = sample_memory" using sample_mem(2) sample_same(1) by simp
  have s1: "on_memory (\<lambda>M. AcquireReference (te_allocator (sample_env 0)) M sample_object 0 False) (write_state sample_registered) = (Inr 0x1280, ?W1)"
    by (simp add: on_memory_def write_state_def m pin_steps(1) free_state_def)
  have s2: "on_memory (\<lambda>M. Describe (te_allocator (sample_env 0)) M sample_object) ?W1 = (Inr (info_of sample_object (descriptors sample_memory 0x1280)), ?W1)"
    by (simp add: on_memory_def write_state_def free_state_def pin_steps(2))
  have geo: "ai_bytes (info_of sample_object (descriptors sample_memory 0x1280)) = 64" "ai_coherence_block_bytes (info_of sample_object (descriptors sample_memory 0x1280)) = 64"
    by (simp_all add: info_of_def sample_memory_def)
  have is0: "block_indices 0 2 64 = [0]" by (simp add: block_indices_def)
  have wait: "on_token (Wait_finish 1) (write_state (taken_state\<lparr>waiters := [1]\<rparr>)) = (Inr sample_lease, ?W')" "Wait_begin 1 (taken_state\<lparr>waiters := [1]\<rparr>) = kOk"
    by (simp_all add: on_token_def write_state_def Wait_finish_def waiter_complete_def Wait_begin_def erase_waiter_def taken_state_def)
      (simp add: free_state_def sample_registered_def sample_state_def)
  have acq: "acquire_leases write_env nobody sample_object [0] [] ?W1 = (Inr [sample_lease], ?W')"
    using take_token wait by (simp add: on_token_def [of "Request _ _ _ _"] write_state_def e WaitForWriteToken_def Let_def)
  have vis: "visibility_status (re_cpu (we_cache write_env)) 2 kReleaseAcquire = kOk" by simp
  show ?thesis
    unfolding AcquireWriteRange_def e s1 s2 prod.case sum.case geo is0 acq vis Let_def
    by (simp add: e(4) read_bytes_def write_state_def upt_rec word_less_nat_alt sample_buffer_def)
qed


end
