(* ===== verification/Cx_Region_Mapper.thy ===== *)
theory Cx_Region_Mapper
  imports Cx_Common
begin

text \<open>
  The mapping of the shared region into a process (\<^verbatim>\<open>src/loommem/region_mapper.cpp\<close>).  What the operating
  system answers is an argument; the calls that are made are recorded in order, so that one can see that
  whatever was opened or mapped is closed and unmapped again.
\<close>

section \<open>Operations\<close>

text \<open>
  The answers to the calls of one \<^verbatim>\<open>Map\<close> or \<^verbatim>\<open>Unmap\<close>: the descriptor or a negative number, whether the file is
  a regular one and its size, success flags, and the mapped address.
\<close>

record SystemAnswers =
  os_open :: int
  os_fstat :: "(bool \<times> u64) option"
  os_ftruncate :: bool
  os_mmap :: "u64 option"
  os_munmap :: bool
  os_close :: bool

datatype SystemCall =
    SysOpen string
  | SysFstat int
  | SysFtruncate int u64
  | SysMmap u64 int
  | SysMunmap u64 u64
  | SysClose int

record RegionMapper =
  rm_base :: "u64 option"
  rm_bytes :: u64
  rm_fd :: int
  rm_path :: string
  rm_calls :: "SystemCall list"

definition new_mapper :: RegionMapper where
  "new_mapper = \<lparr>rm_base = None, rm_bytes = 0, rm_fd = - 1, rm_path = [], rm_calls = []\<rparr>"

abbreviation call :: "SystemCall \<Rightarrow> RegionMapper \<Rightarrow> RegionMapper" where
  "call s m \<equiv> m\<lparr>rm_calls := rm_calls m @ [s]\<rparr>"

definition unmap_base :: "SystemAnswers \<Rightarrow> RegionMapper \<Rightarrow> Status \<times> RegionMapper" where
  "unmap_base os m =
     (case rm_base m of
        None \<Rightarrow> (kOk, m)
      | Some a \<Rightarrow> (if os_munmap os then kOk else kUnavailable, (call (SysMunmap a (rm_bytes m)) m)\<lparr>rm_base := None, rm_bytes := 0\<rparr>))"

definition close_fd :: "SystemAnswers \<Rightarrow> Status \<Rightarrow> RegionMapper \<Rightarrow> Status \<times> RegionMapper" where
  "close_fd os status m =
     (if 0 \<le> rm_fd m
      then (if \<not> os_close os \<and> status = kOk then kUnavailable else status, (call (SysClose (rm_fd m)) m)\<lparr>rm_fd := - 1\<rparr>)
      else (status, m))"

definition Unmap :: "SystemAnswers \<Rightarrow> RegionMapper \<Rightarrow> Status \<times> RegionMapper" where
  "Unmap os m =
     (case unmap_base os m of (st1, m1) \<Rightarrow>
        case close_fd os st1 m1 of (st2, m2) \<Rightarrow> (st2, m2\<lparr>rm_path := []\<rparr>))"

text \<open>The file is made large enough, if it is a regular one that is too small.\<close>

definition resize_file :: "SystemAnswers \<Rightarrow> CxloomConfig \<Rightarrow> bool \<times> u64 \<Rightarrow> RegionMapper \<Rightarrow> Status \<times> RegionMapper" where
  "resize_file os c st m =
     (if fst st \<and> snd st < rm_bytes m
      then if \<not> create_region_file c then (kInvalidArgument, m)
           else (if os_ftruncate os then kOk else kUnavailable, call (SysFtruncate (rm_fd m) (rm_bytes m)) m)
      else (kOk, m))"

definition Map :: "SystemAnswers \<Rightarrow> CxloomConfig \<Rightarrow> RegionMapper \<Rightarrow> Status \<times> RegionMapper" where
  "Map os c m =
     (if rm_base m \<noteq> None then (kFailedPrecondition, m)
      else if shared_region_path c = [] then (kInvalidArgument, m)
      else let m1 = (call (SysOpen (shared_region_path c)) m)
             \<lparr>rm_bytes := shared_region_bytes c, rm_path := shared_region_path c, rm_fd := os_open os\<rparr> in
        if os_open os < 0 then (kUnavailable, m1)
        else (case os_fstat os of
                None \<Rightarrow> (kUnavailable, snd (Unmap os (call (SysFstat (rm_fd m1)) m1)))
              | Some st \<Rightarrow>
                  (case resize_file os c st (call (SysFstat (rm_fd m1)) m1) of (status, m2) \<Rightarrow>
                     if status \<noteq> kOk then (status, snd (Unmap os m2))
                     else let m3 = call (SysMmap (rm_bytes m2) (rm_fd m2)) m2 in
                       (case os_mmap os of
                          None \<Rightarrow> (kUnavailable, snd (Unmap os m3))
                        | Some a \<Rightarrow> (kOk, m3\<lparr>rm_base := Some a\<rparr>)))))"

section \<open>Nothing stays open\<close>

text \<open>
  What a process holds after a sequence of calls: the descriptor that is open and the mapping that is in place,
  when the kernel answered \<open>os\<close>.  A sequence that opens twice without closing, or closes or unmaps something it does
  not hold, is not legal.
\<close>

fun holding :: "SystemAnswers \<Rightarrow> SystemCall list \<Rightarrow> int option \<times> u64 option \<Rightarrow> (int option \<times> u64 option) option" where
  "holding os [] h = Some h"
| "holding os (SysOpen p # cs) (fd, a) = (if fd = None then holding os cs (if os_open os < 0 then None else Some (os_open os), a) else None)"
| "holding os (SysFstat n # cs) (fd, a) = (if fd = Some n then holding os cs (fd, a) else None)"
| "holding os (SysFtruncate n b # cs) (fd, a) = (if fd = Some n then holding os cs (fd, a) else None)"
| "holding os (SysMmap b n # cs) (fd, a) = (if fd = Some n \<and> a = None then holding os cs (fd, os_mmap os) else None)"
| "holding os (SysMunmap x b # cs) (fd, a) = (if a = Some x then holding os cs (fd, None) else None)"
| "holding os (SysClose n # cs) (fd, a) = (if fd = Some n then holding os cs (None, a) else None)"

lemma holding_append: "holding os (xs @ ys) h = Option.bind (holding os xs h) (holding os ys)"
  by (induction os xs h rule: holding.induct) auto

text \<open>The fields of the mapper say what the process holds.\<close>

definition mapper_ok :: "SystemAnswers \<Rightarrow> RegionMapper \<Rightarrow> bool" where
  "mapper_ok os m \<longleftrightarrow> holding os (rm_calls m) (None, None) = Some (if 0 \<le> rm_fd m then Some (rm_fd m) else None, rm_base m)"

lemma mapper_call:
  assumes "mapper_ok os m"
  shows "holding os (rm_calls (call s m)) (None, None) = holding os [s] (if 0 \<le> rm_fd m then Some (rm_fd m) else None, rm_base m)"
  using assms by (simp add: mapper_ok_def holding_append)

lemma Unmap_closed:
  assumes "mapper_ok os m" and "Unmap os m = (st, m')"
  shows "mapper_ok os m' \<and> rm_base m' = None \<and> rm_fd m' = (if 0 \<le> rm_fd m then - 1 else rm_fd m)"
proof -
  obtain st1 m1 where u: "unmap_base os m = (st1, m1)" by force
  then have o1: "mapper_ok os m1" "rm_base m1 = None" "rm_fd m1 = rm_fd m"
    using assms(1) mapper_call [OF assms(1)] by (auto simp: unmap_base_def mapper_ok_def split: option.splits)
  obtain st2 m2 where c: "close_fd os st1 m1 = (st2, m2)" by force
  then have "mapper_ok os m2" "rm_base m2 = None" "rm_fd m2 = (if 0 \<le> rm_fd m then - 1 else rm_fd m)"
    using o1 mapper_call [OF o1(1)] by (auto simp: close_fd_def mapper_ok_def split: if_splits)
  with u c assms(2) show ?thesis by (auto simp: Unmap_def mapper_ok_def split: if_splits)
qed

lemma resize_file_frame:
  assumes "mapper_ok os m" and "0 \<le> rm_fd m" and "resize_file os c st m = (status, m')"
  shows "mapper_ok os m'" "rm_base m' = rm_base m" "rm_fd m' = rm_fd m" "rm_bytes m' = rm_bytes m" "rm_path m' = rm_path m"
  using assms mapper_call [OF assms(1)] by (auto simp: resize_file_def mapper_ok_def split: if_splits)

lemma Map_outcome:
  assumes "Map os c new_mapper = (st, m)"
  shows "mapper_ok os m \<and>
    (if st = kOk then rm_base m = os_mmap os \<and> rm_base m \<noteq> None \<and> rm_fd m = os_open os \<and> 0 \<le> rm_fd m \<and> rm_bytes m = shared_region_bytes c \<and>
        mapper_ok os (snd (Unmap os m)) \<and> rm_base (snd (Unmap os m)) = None \<and> rm_fd (snd (Unmap os m)) = - 1
     else rm_base m = None \<and> rm_fd m < 0)"
proof -
  let ?m1 = "(call (SysOpen (shared_region_path c)) new_mapper)
    \<lparr>rm_bytes := shared_region_bytes c, rm_path := shared_region_path c, rm_fd := os_open os\<rparr>"
  have o1: "mapper_ok os ?m1" by (simp add: mapper_ok_def new_mapper_def)
  show ?thesis
  proof (cases "shared_region_path c = [] \<or> os_open os < 0")
    case True
    then show ?thesis using assms o1 by (auto simp: Map_def new_mapper_def mapper_ok_def Let_def split: if_splits)
  next
    case open_ok: False
    let ?m2 = "call (SysFstat (rm_fd ?m1)) ?m1"
    have o2: "mapper_ok os ?m2" "0 \<le> rm_fd ?m2" using open_ok mapper_call [OF o1] by (auto simp: mapper_ok_def new_mapper_def)
    have fail: "?thesis" if "(st, m) = (s, snd (Unmap os m0))" "s \<noteq> kOk" "mapper_ok os m0" "0 \<le> rm_fd m0" for s m0
      using Unmap_closed [OF that(3), of "fst (Unmap os m0)" "snd (Unmap os m0)"] that by simp
    show ?thesis
    proof (cases "os_fstat os")
      case None
      then show ?thesis using assms open_ok o2 by (intro fail [of kUnavailable ?m2]) (auto simp: Map_def new_mapper_def Let_def)
    next
      case (Some fs)
      obtain status m3 where r: "resize_file os c fs ?m2 = (status, m3)" by force
      note f = resize_file_frame [OF o2 r]
      have e: "(st, m) = (if status \<noteq> kOk then (status, snd (Unmap os m3))
          else case os_mmap os of None \<Rightarrow> (kUnavailable, snd (Unmap os (call (SysMmap (rm_bytes m3) (rm_fd m3)) m3)))
            | Some a \<Rightarrow> (kOk, (call (SysMmap (rm_bytes m3) (rm_fd m3)) m3)\<lparr>rm_base := Some a\<rparr>))"
        using assms open_ok Some r by (auto simp: Map_def new_mapper_def Let_def split: if_splits)
      have b3: "rm_base m3 = None" "0 \<le> rm_fd m3" using f(2,3) o2(2) by (simp_all add: new_mapper_def)
      let ?m4 = "call (SysMmap (rm_bytes m3) (rm_fd m3)) m3"
      have h4: "holding os (rm_calls ?m4) (None, None) = Some (Some (rm_fd m3), os_mmap os)"
        using mapper_call [OF f(1)] b3 by simp
      show ?thesis
      proof (cases "status = kOk")
        case False
        then show ?thesis using e b3 f(1) by (intro fail [of status m3]) auto
      next
        case True
        show ?thesis
        proof (cases "os_mmap os")
          case None
          then show ?thesis using e True b3 h4 by (intro fail [of kUnavailable ?m4]) (auto simp: mapper_ok_def)
        next
          case (Some a)
          then have m: "st = kOk" "m = ?m4\<lparr>rm_base := Some a\<rparr>" using e True by simp_all
          then have ok: "mapper_ok os m" using h4 b3 Some by (simp add: mapper_ok_def)
          have "rm_fd m = os_open os" "rm_bytes m = shared_region_bytes c" using m f(3,4) by simp_all
          with m ok Some open_ok Unmap_closed [OF ok, of "fst (Unmap os m)" "snd (Unmap os m)"] show ?thesis by simp
        qed
      qed
    qed
  qed
qed

text \<open>
   Mapping is all or nothing.  From a closed mapper, a call of \<^verbatim>\<open>Map\<close> makes only legal system calls and ends in
  one of two ways: it reports success, with the descriptor open and the whole configured size mapped; or it reports
  a failure and holds neither a descriptor nor a mapping, whichever call failed.  After a success, \<^verbatim>\<open>Unmap\<close> unmaps
  and closes exactly what was mapped and opened.
\<close>

theorem Map_all_or_nothing:
  assumes "Map os c new_mapper = (st, m)"
  shows "mapper_ok os m \<and>
    (if st = kOk then rm_base m = os_mmap os \<and> rm_base m \<noteq> None \<and> rm_fd m = os_open os \<and> 0 \<le> rm_fd m \<and> rm_bytes m = shared_region_bytes c \<and>
        mapper_ok os (snd (Unmap os m)) \<and> rm_base (snd (Unmap os m)) = None \<and> rm_fd (snd (Unmap os m)) = - 1
     else rm_base m = None \<and> rm_fd m < 0)"
  using assms by (rule Map_outcome)

text \<open>A regular file that is too small, which may be created: the size is set, then the file is mapped.\<close>

definition sample_answers :: SystemAnswers where
  "sample_answers = \<lparr>os_open = 3, os_fstat = Some (True, 0), os_ftruncate = True, os_mmap = Some 0x7000, os_munmap = True, os_close = True\<rparr>"

definition sample_config :: CxloomConfig where
  "sample_config = \<lparr>local_host_id = 0, host_count = 1, shared_region_bytes = 0x40000000, coherence_granule_bytes = 4096,
     queue_capacity_entries = 0, replica_cache_capacity_entries = 1024, replica_cache_capacity_bytes = 0x4000000,
     shared_region_path = ''shm'', bootstrap_owner = True, create_region_file = True, bootstrap_timeout_ms = 10000,
     placement_policy = kMemoryAware, max_running_threads_per_host = 0, max_pending_creates_per_host = 0\<rparr>"

theorem Map_all_or_nothing_witness:
  "\<exists>m. Map sample_answers sample_config new_mapper = (kOk, m) \<and> rm_base m = Some 0x7000 \<and>
     rm_calls m = [SysOpen ''shm'', SysFstat 3, SysFtruncate 3 0x40000000, SysMmap 0x40000000 3] \<and>
     rm_fd (snd (Unmap sample_answers m)) = - 1"
proof -
  obtain st m where e: "Map sample_answers sample_config new_mapper = (st, m)" by force
  then have st: "st = kOk" and c: "rm_calls m = [SysOpen ''shm'', SysFstat 3, SysFtruncate 3 0x40000000, SysMmap 0x40000000 3]"
    by (auto simp: Map_def new_mapper_def sample_config_def sample_answers_def Let_def resize_file_def)
  with Map_all_or_nothing [OF e] e show ?thesis by (simp add: sample_answers_def)
qed

end
