(* ===== verification/Cx_Lifecycle.thy ===== *)
theory Cx_Lifecycle
  imports Cx_Writes Cx_Poller Cx_Region_Mapper
begin

text \<open>
  The memory runtime as a whole (\<^verbatim>\<open>src/loommem/runtime.cpp\<close>): allocation and release of shared objects, the driver
  of the retirement transaction that the poller or the freeing thread runs, the start and stop of the poller, and the
  end of the runtime.

  The state joins what the parts keep: tokens, cache and bytes, the inbound rings, the poller, the mapping.  A loop
  with a deadline runs for a number of rounds, the tests of the clock that came out in time; \<open>others i\<close> is what other
  threads and hosts do in round \<open>i\<close>.
\<close>

section \<open>State\<close>

record 'h Runtime =
  rn_config :: CxloomConfig
  rn_layout :: SharedRegionLayout
  rn_token_env :: TokenEnv
  rn_cache_env :: ReplicaEnv
  rn_initialized :: bool
  rn_attached :: bool
  rn_write :: WriteState
  rn_inbound :: "HostId \<Rightarrow> SpscQueueObject"
  rn_poller :: "'h QueuePoller option"
  rn_mapper :: RegionMapper

definition polling :: "'h Runtime \<Rightarrow> bool" where
  "polling rt \<longleftrightarrow> (case rn_poller rt of None \<Rightarrow> False | Some p \<Rightarrow> qp_running p)"

definition env_of :: "'h Runtime \<Rightarrow> WriteEnv" where
  "env_of rt = \<lparr>we_token = rn_token_env rt, we_cache = rn_cache_env rt, we_initialized = rn_initialized rt,
     we_host_count = host_count (rn_config rt), we_polling = polling rt\<rparr>"

abbreviation allocator_of :: "'h Runtime \<Rightarrow> SharedExtentAllocator" where
  "allocator_of rt \<equiv> re_allocator (rn_cache_env rt)"

abbreviation memory :: "'h Runtime \<Rightarrow> AllocatorMemory" where
  "memory rt \<equiv> mem (ws_token (rn_write rt))"

definition set_memory :: "AllocatorMemory \<Rightarrow> 'h Runtime \<Rightarrow> 'h Runtime" where
  "set_memory M rt = rt\<lparr>rn_write := (rn_write rt)\<lparr>ws_token := (ws_token (rn_write rt))\<lparr>mem := M\<rparr>\<rparr>\<rparr>"

definition set_token :: "TokenState \<Rightarrow> 'h Runtime \<Rightarrow> 'h Runtime" where
  "set_token T rt = rt\<lparr>rn_write := (rn_write rt)\<lparr>ws_token := T\<rparr>\<rparr>"

section \<open>Objects\<close>

definition AllocateShared :: "AllocationOptions \<Rightarrow> 'h Runtime \<Rightarrow> (GlobalPointer Result \<times> 'h Runtime) option" where
  "AllocateShared options rt =
     (if \<not> rn_initialized rt then Some (Inl kFailedPrecondition, rt)
      else (case Allocate (allocator_of rt) (memory rt) options of
              None \<Rightarrow> None
            | Some (Inl st, M) \<Rightarrow> Some (Inl st, set_memory M rt)
            | Some (Inr g, M) \<Rightarrow>
                (case RegisterAllocation (rn_token_env rt) g (ws_token (rn_write (set_memory M rt))) of (token_status, T) \<Rightarrow>
                   Some (if token_status \<noteq> kOk then Inl token_status else Inr g, set_token T rt))))"

definition default_options :: "u64 \<Rightarrow> u64 \<Rightarrow> 'h Runtime \<Rightarrow> AllocationOptions" where
  "default_options n alignment rt = \<lparr>ao_bytes = n, ao_alignment = alignment, ao_coherence_block_bytes = coherence_granule_bytes (rn_config rt)\<rparr>"

definition ResolveLocal :: "GlobalPointer \<Rightarrow> 'h Runtime \<Rightarrow> u64 Result" where
  "ResolveLocal gptr rt =
     (let data = lay_shared_data (rn_layout rt) in
      if \<not> rn_initialized rt then Inl kFailedPrecondition
      else if region_id gptr \<noteq> 0 \<or> gp_offset gptr < range_offset data \<or> range_offset data + range_bytes data \<le> gp_offset gptr
      then Inl kInvalidArgument
      else (case fst (DescribeSharedAllocation (env_of rt) gptr (rn_write rt)) of
              Inl st \<Rightarrow> Inl st
            | Inr allocation \<Rightarrow> Inr (the (rm_base (rn_mapper rt)) + gp_offset gptr)))"

definition ResolveOwningHost :: "GlobalPointer \<Rightarrow> 'h Runtime \<Rightarrow> HostId Result" where
  "ResolveOwningHost gptr rt =
     (if \<not> rn_initialized rt then Inl kFailedPrecondition else fst (OwningHost (allocator_of rt) (memory rt) gptr))"

section \<open>Retirement\<close>

definition published_cursors :: "'h Runtime \<Rightarrow> HostId \<Rightarrow> u64" where
  "published_cursors rt host =
     (if host < host_count (rn_config rt) \<and> host \<noteq> local_host_id (rn_config rt)
      then (case rings (ws_token (rn_write rt)) host of None \<Rightarrow> 0 | Some s \<Rightarrow> PublishedSequence s) else 0)"

text \<open>Once the poller runs it has the inbound rings.\<close>

definition inbound_ring :: "'h Runtime \<Rightarrow> HostId \<Rightarrow> SharedSpscQueue option" where
  "inbound_ring rt host = qo_ring (case rn_poller rt of None \<Rightarrow> rn_inbound rt host | Some p \<Rightarrow> qp_queues p (ucast host))"

definition consumed_cursors :: "'h Runtime \<Rightarrow> HostId \<Rightarrow> u64" where
  "consumed_cursors rt host =
     (if host < host_count (rn_config rt) \<and> host \<noteq> local_host_id (rn_config rt)
      then (case inbound_ring rt host of None \<Rightarrow> 0 | Some s \<Rightarrow> ConsumedSequence s) else 0)"

text \<open>The work of one phase on this host: its cursors when it is done, or the status to return.\<close>

definition phase_work :: "RetirementSnapshot \<Rightarrow> 'h Runtime \<Rightarrow> ((HostId \<Rightarrow> u64) Result \<times> 'h Runtime) option" where
  "phase_work t rt =
     (case rs_phase t of
        kClosing \<Rightarrow>
          (case CloseObject (rn_token_env rt) (rs_object t) (ws_token (rn_write rt)) of (is_closed, T) \<Rightarrow>
             Some (if is_closed then Inr (published_cursors (set_token T rt)) else Inl kOk, set_token T rt))
      | kDraining \<Rightarrow> Some (Inr (consumed_cursors rt), rt)
      | kCleaning \<Rightarrow>
          (case MutableDescriptor (allocator_of rt) (memory rt) (rs_object t) True of
             (Inl st, M) \<Rightarrow> Some (Inl st, set_memory M rt)
           | (Inr d, M) \<Rightarrow>
               let T = ForgetAllocation (ad_coherence_metadata_offset d) (ad_coherence_block_count d) (ws_token (rn_write (set_memory M rt))) in
               (case on_cache (InvalidateObjectLocked (rn_cache_env rt) (gp_offset (rs_object t))) (rn_write (set_token T rt)) of
                  None \<Rightarrow> None
                | Some W \<Rightarrow> Some (Inr (\<lambda>_. 0), rt\<lparr>rn_write := W\<rparr>)))
      | _ \<Rightarrow> Some (Inr (\<lambda>_. 0), rt))"

definition ProgressRetirement :: "'h Runtime \<Rightarrow> (Status \<times> 'h Runtime) option" where
  "ProgressRetirement rt =
     (case ProgressOutbound (rn_token_env rt) (ws_token (rn_write rt)) of (out_status, T) \<Rightarrow>
        let rt1 = set_token T rt; t = Retirement (memory rt1); host = local_host_id (rn_config rt1) in
        if out_status \<noteq> kOk then Some (out_status, rt1)
        else if rs_phase t = kIdle \<or> rs_phase t = kReclaimable \<or> RetirementAcknowledged (memory rt1) t host then Some (kOk, rt1)
        else (case phase_work t rt1 of
                None \<Rightarrow> None
              | Some (Inl st, rt2) \<Rightarrow> Some (st, rt2)
              | Some (Inr cursors, rt2) \<Rightarrow>
                  (case AcknowledgeRetirement (allocator_of rt2) (memory rt2) t host cursors of (st, M) \<Rightarrow>
                     Some (if st = kUnavailable then kOk else st, set_memory M rt2))))"

text \<open>One round of the loop of \<^verbatim>\<open>FreeShared\<close>: the status to return, if any, and whether the transaction has begun.\<close>

definition free_round :: "GlobalPointer \<Rightarrow> bool \<Rightarrow> 'h Runtime \<Rightarrow> (Status option \<times> bool \<times> 'h Runtime) option" where
  "free_round gptr began rt =
     (case if began then (None, rt)
           else (case BeginRetire (allocator_of rt) (memory rt) gptr (host_count (rn_config rt)) of
                   (Inl st, M) \<Rightarrow> (Some st, set_memory M rt)
                 | (Inr c, M) \<Rightarrow> (None, set_memory M rt)) of
        (Some st, rt1) \<Rightarrow> Some (if st \<noteq> kUnavailable then Some st else None, False, rt1)
      | (None, rt1) \<Rightarrow>
          (case if host_count (rn_config rt1) = 1 then ProgressRetirement rt1 else Some (kOk, rt1) of
             None \<Rightarrow> None
           | Some (st, rt2) \<Rightarrow>
               if st \<noteq> kOk then Some (Some st, True, rt2)
               else (case if rs_phase (Retirement (memory rt2)) = kReclaimable
                          then Free (allocator_of rt2) (memory rt2) gptr else Some (kUnavailable, memory rt2) of
                       None \<Rightarrow> None
                     | Some (free_status, M) \<Rightarrow>
                         let rt3 = set_memory M rt2 in
                         if free_status \<noteq> kUnavailable then Some (Some free_status, True, rt3)
                         else if rn_poller rt3 \<noteq> None \<and> \<not> polling rt3 then Some (Some kUnavailable, True, rt3)
                         else Some (None, True, rt3))))"

fun free_rounds :: "(nat \<Rightarrow> 'h Runtime \<Rightarrow> 'h Runtime) \<Rightarrow> GlobalPointer \<Rightarrow> nat \<Rightarrow> bool \<Rightarrow> 'h Runtime \<Rightarrow> (Status \<times> 'h Runtime) option" where
  "free_rounds others gptr 0 began rt = Some (kUnavailable, rt)"
| "free_rounds others gptr (Suc n) began rt =
     (case free_round gptr began (others n rt) of
        None \<Rightarrow> None
      | Some (Some st, _, rt1) \<Rightarrow> Some (st, rt1)
      | Some (None, began1, rt1) \<Rightarrow> free_rounds others gptr n began1 rt1)"

definition FreeShared :: "(nat \<Rightarrow> 'h Runtime \<Rightarrow> 'h Runtime) \<Rightarrow> nat \<Rightarrow> bool \<Rightarrow> GlobalPointer \<Rightarrow> 'h Runtime \<Rightarrow> (Status \<times> 'h Runtime) option" where
  "FreeShared others rounds busy gptr rt =
     (if \<not> rn_initialized rt then Some (kFailedPrecondition, rt)
      else if busy then Some (kUnavailable, rt)
      else if 1 < host_count (rn_config rt) \<and> \<not> polling rt then Some (kFailedPrecondition, rt)
      else free_rounds others gptr rounds False rt)"

section \<open>Queues and poller\<close>

definition GetQueue :: "HostId \<Rightarrow> HostId \<Rightarrow> 'h Runtime \<Rightarrow> (HostId \<times> HostId) Result" where
  "GetQueue producer consumer rt =
     (if host_count (rn_config rt) \<le> producer \<or> host_count (rn_config rt) \<le> consumer then Inl kInvalidArgument
      else if producer = consumer then Inl kInvalidArgument else Inr (producer, consumer))"

definition is_token_message :: "MessageKind \<Rightarrow> bool" where
  "is_token_message k \<longleftrightarrow> k = TokenReq \<or> k = TokenGrantMsg \<or> k = TokenRejectMsg \<or> k = TokenCancelMsg \<or> k = TokenCancelAckMsg"

definition dispatch :: "TokenEnv \<Rightarrow> (QueueEnvelope \<Rightarrow> 'a \<Rightarrow> HandlerOutcome \<times> 'a) option \<Rightarrow> QueueEnvelope \<Rightarrow> TokenState option \<times> 'a \<Rightarrow>
    HandlerOutcome \<times> TokenState option \<times> 'a" where
  "dispatch e application message h =
     (if is_token_message (kind (env_header message))
      then (case fst h of
              None \<Rightarrow> (Returned kFailedPrecondition, h)
            | Some T \<Rightarrow> (case HandleMessage e message T of (st, T1) \<Rightarrow> (Returned st, Some T1, snd h)))
      else (case application of
              None \<Rightarrow> (Returned kInvalidArgument, h)
            | Some f \<Rightarrow> (case f message (snd h) of (r, a) \<Rightarrow> (r, fst h, a))))"

definition new_poller :: "HostId \<Rightarrow> HostId list \<Rightarrow> (HostId \<Rightarrow> SpscQueueObject) \<Rightarrow> QueuePollerOptions \<Rightarrow> 'h \<Rightarrow> 'h QueuePoller" where
  "new_poller host producers queues options h =
     \<lparr>qp_local_host = host, qp_inbound = map (Some \<circ> ucast) producers, qp_options = options, qp_queues = (\<lambda>a. queues (ucast a)),
      qp_handler_state = h, qp_worker_joinable = False, qp_running = False, qp_start_gate = False, qp_next_queue = 0, qp_bound_cpu = -1,
      qp_stats = zero_stats, qp_terminal_status = kOk\<rparr>"

definition StartQueuePoller :: "QueuePollerOptions \<Rightarrow> (nat \<Rightarrow> bool) option \<Rightarrow> bool \<Rightarrow> 'h \<Rightarrow> 'h Runtime \<Rightarrow> Status \<times> 'h Runtime" where
  "StartQueuePoller options affinity bind_ok h rt =
     (let c = rn_config rt in
      if \<not> rn_initialized rt then (kFailedPrecondition, rt)
      else if host_count c = 1 then (kOk, rt)
      else if rn_poller rt \<noteq> None then (kAlreadyExists, rt)
      else (case Start True affinity bind_ok
                   (new_poller (local_host_id c) (filter (\<lambda>p. p \<noteq> local_host_id c) (hosts_below (host_count c))) (rn_inbound rt) options h) of
              (st, p) \<Rightarrow> (st, if st \<noteq> kOk then rt else rt\<lparr>rn_poller := Some p\<rparr>)))"

definition StopQueuePoller :: "bool \<Rightarrow> 'h Runtime \<Rightarrow> Status \<times> 'h Runtime" where
  "StopQueuePoller from_worker rt =
     (case rn_poller rt of
        None \<Rightarrow> (kOk, rt)
      | Some p \<Rightarrow> (case Stop from_worker p of (st, p1) \<Rightarrow> (st, rt\<lparr>rn_poller := Some p1\<rparr>)))"

section \<open>The end\<close>

definition reset_service :: "TokenState \<Rightarrow> TokenState" where
  "reset_service T = T\<lparr>next_request_id := next_request_id new_service, outbound := outbound new_service, objects := objects new_service,
     waiters := waiters new_service, waiter_heap := waiter_heap new_service\<rparr>"

definition LoomMemFinalize :: "SystemAnswers \<Rightarrow> bool \<Rightarrow> 'h Runtime \<Rightarrow> (Status \<times> 'h Runtime) option" where
  "LoomMemFinalize os from_worker rt =
     (if rn_initialized rt \<and> rs_phase (Retirement (memory rt)) \<noteq> kIdle then Some (kFailedPrecondition, rt)
      else if staged_write_count (rn_write rt) \<noteq> 0 then Some (kFailedPrecondition, rt)
      else (case StopQueuePoller from_worker (rt\<lparr>rn_initialized := False\<rparr>) of (poller_status, rt1) \<Rightarrow>
              let rt2 = set_token (reset_service (ws_token (rn_write rt1))) (rt1\<lparr>rn_poller := None\<rparr>) in
              (case on_cache (ClearReplicas (rn_cache_env rt2)) (rn_write rt2) of
                 None \<Rightarrow> None
               | Some W \<Rightarrow>
                   (case Unmap os (rn_mapper rt2) of (unmap_status, mapper) \<Rightarrow>
                      Some (if unmap_status \<noteq> kOk then unmap_status else poller_status,
                            rt2\<lparr>rn_write := W, rn_attached := False, rn_mapper := mapper\<rparr>)))))"

section \<open>A runtime without peers\<close>

text \<open>
  A runtime of one host, and the state of a retirement transaction on it.  In a phase the masks of this phase and of
  the later ones are still empty.
\<close>

definition alone :: "'h Runtime \<Rightarrow> bool" where
  "alone rt \<longleftrightarrow> rn_initialized rt \<and> host_count (rn_config rt) = 1 \<and> local_host_id (rn_config rt) = 0 \<and> te_local_host (rn_token_env rt) = 0 \<and>
     te_allocator (rn_token_env rt) = allocator_of rt \<and> re_host (rn_cache_env rt) = 0 \<and> local_host (allocator_of rt) = 0 \<and>
     initialized (allocator_of rt) \<and> unat (expected_data_offset (allocator_of rt)) + unat (expected_data_bytes (allocator_of rt)) < 2 ^ 64 \<and>
     rn_poller rt = None \<and> outbound (ws_token (rn_write rt)) = (\<lambda>_. []) \<and> cache_ok (rn_cache_env rt) (cache_view (rn_write rt))"

definition heap_of :: "nat set \<Rightarrow> 'h Runtime \<Rightarrow> bool" where
  "heap_of C rt \<longleftrightarrow> heap_inv (block (expected_data_offset (allocator_of rt)) (expected_data_bytes (allocator_of rt))) C (memory rt) \<and>
     2 \<le> spare_nodes (extents (header (memory rt)))"

definition unused_object :: "GlobalPointer \<Rightarrow> 'h Runtime \<Rightarrow> bool" where
  "unused_object g rt \<longleftrightarrow> (let d = descriptors (memory rt) (gp_offset g) in
     region_id g = 0 \<and> gp_offset g \<in> live (memory rt) \<and> (\<forall>h. ad_active_operations d h = 0) \<and> (\<forall>k. bit (ad_replica_hosts d) k \<longrightarrow> k = 0))"

definition no_tokens :: "GlobalPointer \<Rightarrow> TokenState \<Rightarrow> bool" where
  "no_tokens g T \<longleftrightarrow> (let d = descriptors (mem T) (gp_offset g) in
     (\<forall>i \<in> set (waiters T). w_object (waiter_heap T i) \<noteq> g) \<and>
     (\<forall>i < unat (ad_coherence_block_count d).
        \<not> lo_held (local_object (ad_coherence_metadata_offset d + of_nat i * sizeof_CoherenceBlockDescriptor) T)))"

definition in_phase :: "RetirementPhase \<Rightarrow> GlobalPointer \<Rightarrow> AllocatorMemory \<Rightarrow> bool" where
  "in_phase ph g M \<longleftrightarrow> (let r = retirement (header M) in
     rs_phase (current r) = ph \<and> rs_object (current r) = g \<and> rs_coordinator (current r) = 0 \<and> rs_host_count (current r) = 1 \<and>
     (ph = kClosing \<longrightarrow> closed r = 0) \<and> (ph \<in> {kClosing, kDraining} \<longrightarrow> drained r = 0) \<and>
     (ph \<in> {kClosing, kDraining, kCleaning} \<longrightarrow> cleaned r = 0))"

definition retiring :: "nat set \<Rightarrow> RetirementPhase \<Rightarrow> GlobalPointer \<Rightarrow> 'h Runtime \<Rightarrow> bool" where
  "retiring C ph g rt \<longleftrightarrow> alone rt \<and> heap_of C rt \<and> unused_object g rt \<and> in_phase ph g (memory rt)"

text \<open>What the driver leaves alone until the object is freed: which objects there are, and where they lie.\<close>

definition same_heap :: "'h Runtime \<Rightarrow> 'h Runtime \<Rightarrow> bool" where
  "same_heap rt rt' \<longleftrightarrow> live (memory rt') = live (memory rt) \<and> extents (header (memory rt')) = extents (header (memory rt)) \<and>
     (\<forall>off. data_block (descriptors (memory rt') off) = data_block (descriptors (memory rt) off) \<and>
        coherence_block (descriptors (memory rt') off) = coherence_block (descriptors (memory rt) off))"

lemma same_heap_trans [trans]: "same_heap a b \<Longrightarrow> same_heap b c \<Longrightarrow> same_heap a c"
  by (simp add: same_heap_def)

lemma runtime_frame [simp]:
  "memory (set_memory M rt) = M" "memory (set_token T rt) = mem T" "rn_config (set_memory M rt) = rn_config rt"
  "rn_config (set_token T rt) = rn_config rt" "rn_cache_env (set_memory M rt) = rn_cache_env rt" "rn_cache_env (set_token T rt) = rn_cache_env rt"
  "rn_token_env (set_memory M rt) = rn_token_env rt" "rn_token_env (set_token T rt) = rn_token_env rt"
  "ws_token (rn_write (set_token T rt)) = T" "ws_token (rn_write (set_memory M rt)) = (ws_token (rn_write rt))\<lparr>mem := M\<rparr>"
  "rn_poller (set_memory M rt) = rn_poller rt" "rn_poller (set_token T rt) = rn_poller rt"
  "rn_initialized (set_memory M rt) = rn_initialized rt" "rn_initialized (set_token T rt) = rn_initialized rt"
  "ws_cache (rn_write (set_memory M rt)) = ws_cache (rn_write rt)" "ws_cache (rn_write (set_token T rt)) = ws_cache (rn_write rt)"
  by (simp_all add: set_memory_def set_token_def)

lemma one_host: "host_bit 0 = 1" "all_hosts 1 = 1" "hosts_below 1 = [0]"
  by (simp_all add: host_bit_def all_hosts_def hosts_below_def)

lemma idle_outbound:
  assumes "outbound T = (\<lambda>_. [])"
  shows "ProgressOutbound e T = (kOk, T)"
proof -
  have "progress_hosts e hs T = (kOk, T)" for hs using assms by (induction hs) simp_all
  then show ?thesis by (simp add: ProgressOutbound_def)
qed

lemma members_cache_ok:
  assumes "cache_ok e (cache_view W)" and "same_members (mem (ws_token W)) (mem T)"
  shows "cache_ok e (cache_view (W\<lparr>ws_token := T\<rparr>))"
  by (rule cache_ok_cong [of _ "cache_view W"]) (use assms in \<open>simp_all add: cache_view_def entries_def is_member_def same_members_def\<close>)

lemma alone_token:
  assumes "alone rt" and "same_members (memory rt) (mem T)" and "outbound T = (\<lambda>_. [])"
  shows "alone (set_token T rt)"
proof -
  have "cache_ok (rn_cache_env rt) (cache_view (rn_write (set_token T rt)))"
    using members_cache_ok [of "rn_cache_env rt" "rn_write rt" T] assms by (simp add: alone_def set_token_def)
  then show ?thesis using assms by (simp add: alone_def)
qed

lemma set_memory_token: "set_memory M rt = set_token ((ws_token (rn_write rt))\<lparr>mem := M\<rparr>) rt"
  by (simp add: set_memory_def set_token_def)

lemma retiring_find:
  assumes "alone rt" and "heap_of C rt" and "region_id g = 0" and "gp_offset g \<in> live (memory rt)"
    and "ad_state (descriptors (memory rt) (gp_offset g)) = ObjectAllocated \<or> b"
  shows "FindDescriptorLocked (allocator_of rt) (memory rt) g b = Inr (descriptors (memory rt) (gp_offset g))"
    "MutableDescriptor (allocator_of rt) (memory rt) g b = (Inr (descriptors (memory rt) (gp_offset g)), memory rt)"
proof -
  let ?A = "allocator_of rt" and ?M = "memory rt"
  have g: "g = \<lparr>region_id = 0, gp_offset = gp_offset g\<rparr>" using assms(3) by simp
  have ok: "heap_ok (block (expected_data_offset ?A) (expected_data_bytes ?A)) C ?M" using assms(2) by (simp add: heap_of_def heap_inv_def)
  have A: "initialized ?A" "unat (expected_data_offset ?A) + unat (expected_data_bytes ?A) < 2 ^ 64" using assms(1) by (simp_all add: alone_def)
  show f: "FindDescriptorLocked ?A ?M g b = Inr (descriptors ?M (gp_offset g))"
    using find_live [OF ok assms(4) A(2,1) refl refl, of b] assms(5) g by simp
  obtain i where i: "LockAllocationSlot ?A ?M g = (Inr i, set_slot i (\<lambda>s. s\<lparr>sl_readers := sl_readers s + 1\<rparr>) ?M)"
    using LockAllocationSlot_live [OF A(1) assms(3,4)] ok by (auto simp: heap_ok_def)
  have "fst (MutableDescriptor ?A ?M g b) = Inr (descriptors ?M (gp_offset g))"
    by (simp add: MutableDescriptor_def i FindDescriptorLocked_cong [of "set_slot i (\<lambda>s. s\<lparr>sl_readers := sl_readers s + 1\<rparr>) ?M" ?M] f)
  then show "MutableDescriptor ?A ?M g b = (Inr (descriptors ?M (gp_offset g)), ?M)"
    using read_only(2) [of ?A ?M g b] by (metis prod.collapse)
qed

text \<open>The transaction begins.\<close>

lemma begin_alone:
  assumes a: "alone rt" and h: "heap_of C rt" and u: "unused_object g rt" and i: "rs_phase (Retirement (memory rt)) = kIdle"
    and s: "rs_sequence (Retirement (memory rt)) \<noteq> UINT64_MAX" and o: "ad_state (descriptors (memory rt) (gp_offset g)) = ObjectAllocated"
      "ad_owner_host (descriptors (memory rt) (gp_offset g)) = 0"
  shows "\<exists>c M. BeginRetire (allocator_of rt) (memory rt) g 1 = (Inr c, M) \<and> retiring C kClosing g (set_memory M rt) \<and>
    same_heap rt (set_memory M rt) \<and> (no_tokens g (ws_token (rn_write rt)) \<longrightarrow> no_tokens g (ws_token (rn_write (set_memory M rt))))"
proof -
  let ?M = "memory rt" and ?r = "retirement (header (memory rt))"
  let ?c = "\<lparr>rs_phase = kClosing, rs_object = g, rs_sequence = rs_sequence (Retirement ?M) + 1, rs_coordinator = 0, rs_host_count = 1\<rparr>"
  let ?M1 = "set_descriptor (gp_offset g) (\<lambda>d. d\<lparr>ad_state := ObjectRetiring\<rparr>)
      (set_retirement (?r\<lparr>current := ?c, closed := 0, drained := 0, cleaned := 0\<rparr>) ?M)"
  have g: "region_id g = 0" "gp_offset g \<in> live ?M" using u by (simp_all add: unused_object_def Let_def)
  have b: "BeginRetire (allocator_of rt) ?M g 1 = (Inr ?c, ?M1)"
    using retiring_find(1) [OF a h g, of False] a i s o by (simp add: BeginRetire_def Let_def Retirement_def alone_def kMaxHosts_def)
  have inv: "heap_of C (set_memory ?M1 rt)" using h inv_retire [OF _ b] by (simp add: heap_of_def)
  have "alone (set_memory ?M1 rt)" unfolding set_memory_token by (rule alone_token [OF a]) (use a in \<open>simp_all add: same_members_def alone_def\<close>)
  moreover have "unused_object g (set_memory ?M1 rt)" using u by (simp add: unused_object_def Let_def)
  moreover have "in_phase kClosing g ?M1" by (simp add: in_phase_def)
  moreover have "same_heap rt (set_memory ?M1 rt)" by (simp add: same_heap_def data_block_def coherence_block_def)
  moreover have "no_tokens g (ws_token (rn_write rt)) \<longrightarrow> no_tokens g (ws_token (rn_write (set_memory ?M1 rt)))" by (simp add: no_tokens_def Let_def)
  ultimately show ?thesis using b inv by (intro exI [of _ ?c] exI [of _ ?M1]) (simp add: retiring_def)
qed

text \<open>The acknowledgement of the only host ends a phase.\<close>

fun next_phase :: "RetirementPhase \<Rightarrow> RetirementPhase" where
  "next_phase kClosing = kDraining"
| "next_phase kDraining = kCleaning"
| "next_phase kCleaning = kReclaimable"
| "next_phase p = p"

lemma acknowledge_alone:
  assumes r: "retiring C ph g rt" and ph: "ph \<in> {kClosing, kDraining, kCleaning}"
  shows "\<exists>M. AcknowledgeRetirement (allocator_of rt) (memory rt) (Retirement (memory rt)) 0 cursors = (kOk, M) \<and>
    retiring C (next_phase ph) g (set_memory M rt) \<and> same_heap rt (set_memory M rt) \<and>
    ad_replica_hosts (descriptors M (gp_offset g)) = ad_replica_hosts (descriptors (memory rt) (gp_offset g))"
proof -
  let ?M = "memory rt" and ?r = "retirement (header (memory rt))"
  have a: "alone rt" and h: "heap_of C rt" and u: "unused_object g rt" and p: "in_phase ph g ?M" using r by (simp_all add: retiring_def)
  have g: "region_id g = 0" "gp_offset g \<in> live ?M" using u by (simp_all add: unused_object_def Let_def)
  have f: "FindDescriptorLocked (allocator_of rt) ?M g True = Inr (descriptors ?M (gp_offset g))" by (rule retiring_find(1) [OF a h g]) simp
  let ?r1 = "case ph of kClosing \<Rightarrow> ?r\<lparr>watermarks := (watermarks ?r)(0 := cursors), closed := 1, current := (current ?r)\<lparr>rs_phase := kDraining\<rparr>\<rparr>
    | kDraining \<Rightarrow> ?r\<lparr>drained := 1, current := (current ?r)\<lparr>rs_phase := kCleaning\<rparr>\<rparr>
    | _ \<Rightarrow> ?r\<lparr>cleaned := 1, current := (current ?r)\<lparr>rs_phase := kReclaimable\<rparr>\<rparr>"
  let ?M1 = "set_retirement ?r1 (if ph = kClosing then set_descriptor (gp_offset g) (\<lambda>d. d\<lparr>ad_sealed_hosts := ad_sealed_hosts d OR 1\<rparr>) ?M else ?M)"
  have k: "AcknowledgeRetirement (allocator_of rt) ?M (Retirement ?M) 0 cursors = (kOk, ?M1)"
  proof -
    have q: "rs_phase (current ?r) = ph" "rs_object (current ?r) = g" "rs_host_count (current ?r) = 1" "ph = kClosing \<Longrightarrow> closed ?r = 0"
      "ph = kDraining \<Longrightarrow> drained ?r = 0" "ph = kCleaning \<Longrightarrow> cleaned ?r = 0" using p by (simp_all add: in_phase_def Let_def)
    have act: "ad_active_operations (descriptors ?M (gp_offset g)) 0 = 0" using u by (simp add: unused_object_def Let_def)
    from ph consider "ph = kClosing" | "ph = kDraining" | "ph = kCleaning" by blast
    then show ?thesis
      by cases (simp_all add: AcknowledgeRetirement_def Retirement_def Let_def q f act one_host set_phase_def)
  qed
  have "snapshot_of (Retirement ?M) ?M" by (simp add: snapshot_of_def)
  then have inv: "heap_of C (set_memory ?M1 rt)" using h inv_acknowledge [OF _ _ k] by (simp add: heap_of_def)
  have "alone (set_memory ?M1 rt)" unfolding set_memory_token by (rule alone_token [OF a]) (use a in \<open>simp_all add: same_members_def alone_def\<close>)
  moreover have "unused_object g (set_memory ?M1 rt)" using u by (simp add: unused_object_def Let_def)
  moreover have "in_phase (next_phase ph) g ?M1" using p ph by (auto simp: in_phase_def Let_def)
  moreover have "same_heap rt (set_memory ?M1 rt)" by (simp add: same_heap_def data_block_def coherence_block_def)
  ultimately show ?thesis using k inv by (intro exI [of _ ?M1]) (simp add: retiring_def)
qed

lemma progress_alone:
  assumes "retiring C ph g rt" and "ph \<in> {kClosing, kDraining, kCleaning}"
  shows "ProgressRetirement rt = (case phase_work (Retirement (memory rt)) rt of
      None \<Rightarrow> None
    | Some (Inl st, rt2) \<Rightarrow> Some (st, rt2)
    | Some (Inr cursors, rt2) \<Rightarrow>
        (case AcknowledgeRetirement (allocator_of rt2) (memory rt2) (Retirement (memory rt)) 0 cursors of (st, M) \<Rightarrow>
           Some (if st = kUnavailable then kOk else st, set_memory M rt2)))"
proof -
  have o: "ProgressOutbound (rn_token_env rt) (ws_token (rn_write rt)) = (kOk, ws_token (rn_write rt))"
    by (rule idle_outbound) (use assms(1) in \<open>simp add: retiring_def alone_def\<close>)
  have t: "set_token (ws_token (rn_write rt)) rt = rt" by (simp add: set_token_def)
  have h: "local_host_id (rn_config rt) = 0" "\<not> (rs_phase (Retirement (memory rt)) = kIdle \<or> rs_phase (Retirement (memory rt)) = kReclaimable \<or>
      RetirementAcknowledged (memory rt) (Retirement (memory rt)) 0)"
    using assms by (auto simp: retiring_def alone_def in_phase_def Let_def Retirement_def RetirementAcknowledged_def phase_mask_def)
  show ?thesis unfolding ProgressRetirement_def o prod.case t Let_def h(1) using h(2) by simp
qed

section \<open>The three phases\<close>

lemma clear_blocks_outbound: "clear_blocks base is S = (b, S') \<Longrightarrow> outbound S' = outbound S"
  by (induction base "is" S arbitrary: b S' rule: clear_blocks.induct) (auto simp: Let_def put_object_def split: option.splits prod.splits)

lemma close_alone:
  assumes r: "retiring C kClosing g rt" and n: "no_tokens g (ws_token (rn_write rt))"
  shows "\<exists>T. CloseObject (rn_token_env rt) g (ws_token (rn_write rt)) = (True, T) \<and> mem T = memory rt \<and> outbound T = (\<lambda>_. [])"
proof -
  let ?T = "ws_token (rn_write rt)" and ?d = "descriptors (memory rt) (gp_offset g)" and ?e = "rn_token_env rt"
  have a: "alone rt" "heap_of C rt" "unused_object g rt" using r by (simp_all add: retiring_def)
  have g: "region_id g = 0" "gp_offset g \<in> live (memory rt)" using a(3) by (simp_all add: unused_object_def Let_def)
  have e: "te_allocator ?e = allocator_of rt" "te_local_host ?e = 0" "outbound ?T = (\<lambda>_. [])" using a(1) by (simp_all add: alone_def)
  have c: "closing g ?T = []" using n by (auto simp: closing_def no_tokens_def Let_def filter_empty_conv)
  then have "reject_waiters g ?T = ?T" using n
    by (simp add: reject_waiters_def no_tokens_def Let_def filter_id_conv)
  moreover have "unclaimed g ?T = []" by (simp add: unclaimed_def c)
  moreover have "MutableDescriptor (allocator_of rt) (memory rt) g True = (Inr ?d, memory rt)" by (rule retiring_find(2) [OF a(1,2) g]) simp
  moreover obtain held S2 where k: "clear_blocks (ad_coherence_metadata_offset ?d) (map of_nat [0..<unat (ad_coherence_block_count ?d)]) ?T = (held, S2)" by fastforce
  moreover have "\<not> held" using clear_blocks_done(5) [OF k] n by (auto simp: no_tokens_def Let_def)
  moreover have "mem S2 = memory rt" by (rule clear_blocks_mem [OF k])
  moreover have "outbound S2 = outbound ?T"
    by (rule clear_blocks_outbound [OF k])
  moreover have "ad_active_operations ?d 0 = 0" using a(3) by (simp add: unused_object_def Let_def)
  ultimately show ?thesis using e by (simp add: CloseObject_def)
qed

text \<open>Dropping copies only clears membership bits.\<close>

definition no_members :: "AllocationDescriptor \<Rightarrow> AllocationDescriptor" where
  "no_members d = d\<lparr>ad_replica_hosts := 0\<rparr>"

definition member_frame :: "AllocatorMemory \<Rightarrow> AllocatorMemory \<Rightarrow> bool" where
  "member_frame M M' \<longleftrightarrow> header M' = header M \<and>
     (\<forall>off. no_members (descriptors M' off) = no_members (descriptors M off) \<and>
        (\<forall>k. bit (ad_replica_hosts (descriptors M' off)) k \<longrightarrow> bit (ad_replica_hosts (descriptors M off)) k))"

lemma member_frame_refl [simp]: "member_frame M M"
  by (simp add: member_frame_def)

lemma member_frame_trans: "member_frame M M' \<Longrightarrow> member_frame M' M'' \<Longrightarrow> member_frame M M''"
  by (simp add: member_frame_def)

lemma member_frame_erase:
  assumes "EraseReplicaLocked e g k S = Some S'"
  shows "member_frame (cache_mem S) (cache_mem S')"
proof -
  have adv: "member_frame (cache_mem S) (cache_mem (advertise e o1 i v S))" for o1 i v S
    using read_only(5) [of "re_allocator e" "cache_mem S" o1 i True] member_frame_refl [of "cache_mem S"]
    by (auto simp: advertise_def member_frame_def split: prod.splits sum.splits)
  have idx: "cache_mem (set_index g xs S) = cache_mem S" for g xs S by (cases g) auto
  obtain r ob where rob: "map_of (index_of g S) k = Some r" "cached_objects S (rp_object_offset r) = Some ob"
    using assms by (auto simp: EraseReplicaLocked_def split: option.splits)
  have c: "cache_mem S' = cache_mem (advertise e (ai_gptr (co_info ob)) (rp_block_index r) 0 S) \<or>
      cache_mem S' = cache_mem (set_member e (co_descriptor ob) (\<lambda>m. m AND NOT (host_bit (re_host e)))
        (advertise e (ai_gptr (co_info ob)) (rp_block_index r) 0 S))"
    using assms rob by (auto simp: EraseReplicaLocked_def Let_def idx set_member_def split: if_splits)
  have "member_frame (cache_mem X) (cache_mem (set_member e off (\<lambda>m. m AND NOT (host_bit (re_host e))) X))" for X off
    by (simp add: member_frame_def set_member_def no_members_def bit_simps)
  then show ?thesis using c adv member_frame_trans [OF adv] by metis
qed

lemma member_frame_index: "invalidate_index e off g xs S = Some S' \<Longrightarrow> member_frame (cache_mem S) (cache_mem S')"
proof (induction xs arbitrary: S)
  case (Cons p xs)
  show ?case
  proof (cases "rp_object_offset (snd p) = off")
    case True
    then obtain S1 where S1: "EraseReplicaLocked e g (fst p) S = Some S1" "invalidate_index e off g xs S1 = Some S'"
      using Cons.prems by (cases p) (auto split: option.splits)
    then show ?thesis using member_frame_trans [OF member_frame_erase [OF S1(1)] Cons.IH [OF S1(2)]] by simp
  next
    case False
    then show ?thesis using Cons by (cases p) auto
  qed
qed simp

lemma member_frame_invalidate: "InvalidateObjectLocked e off S = Some S' \<Longrightarrow> member_frame (cache_mem S) (cache_mem S')"
  by (auto simp: InvalidateObjectLocked_def split: option.splits intro: member_frame_trans dest!: member_frame_index)

lemma member_frame_heap:
  assumes "member_frame M M'"
  shows "heap_inv D C M \<Longrightarrow> heap_inv D C M'" "live M' = live M" "extents (header M') = extents (header M)"
    "data_block (descriptors M' off) = data_block (descriptors M off)" "coherence_block (descriptors M' off) = coherence_block (descriptors M off)"
    "Retirement M' = Retirement M" "ad_active_operations (descriptors M' off) = ad_active_operations (descriptors M off)"
    "bit (ad_replica_hosts (descriptors M' off)) k \<Longrightarrow> bit (ad_replica_hosts (descriptors M off)) k"
    "in_phase ph g M' = in_phase ph g M" "ad_state (descriptors M' off) = ad_state (descriptors M off)"
proof -
  have h: "header M' = header M" using assms by (simp add: member_frame_def)
  have d: "no_members (descriptors M' off) = no_members (descriptors M off)" for off using assms by (simp add: member_frame_def)
  have eqs: "data_block (descriptors M' off) = data_block (descriptors M off)" "coherence_block (descriptors M' off) = coherence_block (descriptors M off)"
    "object_ok off (descriptors M' off) = object_ok off (descriptors M off)" "ad_state (descriptors M' off) = ad_state (descriptors M off)"
    "ad_sealed_hosts (descriptors M' off) = ad_sealed_hosts (descriptors M off)" "ad_active_operations (descriptors M' off) = ad_active_operations (descriptors M off)" for off
    using d [of off] by (cases "descriptors M off"; cases "descriptors M' off"; simp add: no_members_def data_block_def coherence_block_def object_ok_def)+
  show "data_block (descriptors M' off) = data_block (descriptors M off)" "coherence_block (descriptors M' off) = coherence_block (descriptors M off)"
    "ad_active_operations (descriptors M' off) = ad_active_operations (descriptors M off)" "ad_state (descriptors M' off) = ad_state (descriptors M off)" by (rule eqs)+
  show "bit (ad_replica_hosts (descriptors M' off)) k \<Longrightarrow> bit (ad_replica_hosts (descriptors M off)) k" using assms by (simp add: member_frame_def)
  have s: "slots M' = slots M" by (simp add: slots_def h)
  show l: "live M' = live M" by (simp add: live_def s)
  show "extents (header M') = extents (header M)" "Retirement M' = Retirement M" "in_phase ph g M' = in_phase ph g M"
    by (simp_all add: h Retirement_def in_phase_def)
  show "heap_inv D C M'" if "heap_inv D C M"
  proof -
    have "heap_ok D C M'" using that by (simp add: heap_inv_def heap_ok_def h l s slots_ok_def eqs)
    moreover have "retire_ok M'" by (rule retire_frame [of M]) (use that in \<open>simp_all add: heap_inv_def h l eqs\<close>)
    ultimately show ?thesis by (simp add: heap_inv_def)
  qed
qed

lemma clean_alone:
  assumes r: "retiring C kCleaning g rt"
  shows "\<exists>rt2. phase_work (Retirement (memory rt)) rt = Some (Inr (\<lambda>_. 0), rt2) \<and> retiring C kCleaning g rt2 \<and> same_heap rt rt2 \<and>
    ad_replica_hosts (descriptors (memory rt2) (gp_offset g)) = 0 \<and> rn_cache_env rt2 = rn_cache_env rt \<and> Retirement (memory rt2) = Retirement (memory rt)"
proof -
  let ?d = "descriptors (memory rt) (gp_offset g)" and ?off = "gp_offset g"
  have a: "alone rt" "heap_of C rt" "unused_object g rt" "in_phase kCleaning g (memory rt)" using r by (simp_all add: retiring_def)
  have g: "region_id g = 0" "?off \<in> live (memory rt)" using a(3) by (simp_all add: unused_object_def Let_def)
  have md: "MutableDescriptor (allocator_of rt) (memory rt) g True = (Inr ?d, memory rt)" by (rule retiring_find(2) [OF a(1,2) g]) simp
  have ph: "rs_phase (Retirement (memory rt)) = kCleaning" "rs_object (Retirement (memory rt)) = g" using a(4) by (simp_all add: in_phase_def Let_def Retirement_def)
  define T where "T = ForgetAllocation (ad_coherence_metadata_offset ?d) (ad_coherence_block_count ?d) (ws_token (rn_write rt))"
  have T: "mem T = memory rt" "outbound T = (\<lambda>_. [])" using a(1) by (simp_all add: T_def ForgetAllocation_def alone_def)
  have v: "cache_view (rn_write (set_token T rt)) = cache_view (rn_write rt)" by (simp add: cache_view_def T)
  have host: "re_host (rn_cache_env rt) < 64" "re_host (rn_cache_env rt) = 0" using a(1) by (simp_all add: alone_def)
  obtain S where S: "InvalidateObjectLocked (rn_cache_env rt) ?off (cache_view (rn_write rt)) = Some S" "cache_ok (rn_cache_env rt) S"
    "set (entries S) = {p \<in> set (entries (cache_view (rn_write rt))). rp_object_offset (snd p) \<noteq> ?off}"
    using InvalidateObjectLocked_ok [OF host(1), of "cache_view (rn_write rt)" ?off] a(1) by (auto simp: alone_def)
  have f: "member_frame (memory rt) (cache_mem S)" using member_frame_invalidate [OF S(1)] by (simp add: cache_view_def)
  note m = member_frame_heap [OF f]
  define rt2 where "rt2 = rt\<lparr>rn_write := (rn_write (set_token T rt))\<lparr>ws_cache := S, ws_token := T\<lparr>mem := cache_mem S\<rparr>\<rparr>\<rparr>"
  have fr: "memory rt2 = cache_mem S" "rn_cache_env rt2 = rn_cache_env rt" "rn_config rt2 = rn_config rt" "rn_token_env rt2 = rn_token_env rt"
    "rn_poller rt2 = rn_poller rt" "rn_initialized rt2 = rn_initialized rt" "cache_view (rn_write rt2) = S" "outbound (ws_token (rn_write rt2)) = (\<lambda>_. [])"
    by (simp_all add: rt2_def cache_view_def T)
  have "phase_work (Retirement (memory rt)) rt = Some (Inr (\<lambda>_. 0), rt2)"
    unfolding phase_work_def ph RetirementPhase.case md prod.case sum.case Let_def
    by (simp add: T_def [symmetric] set_memory_def on_cache_def) (simp add: T_def [symmetric] v [unfolded set_token_def, simplified] S(1) rt2_def set_token_def)
  moreover have "blocks_of ?off (entries S) = 0" using S(3) by (auto simp: blocks_of_def filter_empty_conv)
  then have "\<not> is_member (rn_cache_env rt) ?off S" using S(2) by (auto simp: cache_ok_def books_def entry_ok_def split: option.splits dest!: spec [of _ ?off])
  then have "\<not> bit (ad_replica_hosts (descriptors (cache_mem S) ?off)) k" for k
    using m(8) [of ?off k] a(3) host(2) by (cases "k = 0") (auto simp: is_member_def unused_object_def Let_def)
  then have z: "ad_replica_hosts (descriptors (cache_mem S) ?off) = 0" by (simp add: bit_eq_iff)
  have "retiring C kCleaning g rt2" using a S(2) m z unfolding retiring_def heap_of_def unused_object_def alone_def Let_def fr by simp
  moreover have "same_heap rt rt2" using m by (simp add: same_heap_def fr)
  ultimately show ?thesis using z m(6) fr(1,2) by (intro exI [of _ rt2]) simp
qed

lemma phase_step:
  assumes r: "retiring C ph g rt" and ph: "ph \<in> {kClosing, kDraining, kCleaning}" and n: "ph = kClosing \<Longrightarrow> no_tokens g (ws_token (rn_write rt))"
  shows "\<exists>rt'. ProgressRetirement rt = Some (kOk, rt') \<and> retiring C (next_phase ph) g rt' \<and> same_heap rt rt' \<and> rn_cache_env rt' = rn_cache_env rt \<and>
    (ph = kCleaning \<longrightarrow> ad_replica_hosts (descriptors (memory rt') (gp_offset g)) = 0)"
proof -
  have o: "rs_object (Retirement (memory rt)) = g" "rs_phase (Retirement (memory rt)) = ph"
    using r by (simp_all add: retiring_def in_phase_def Let_def Retirement_def)
  have "\<exists>cursors rt2. phase_work (Retirement (memory rt)) rt = Some (Inr cursors, rt2) \<and> retiring C ph g rt2 \<and> same_heap rt rt2 \<and>
      rn_cache_env rt2 = rn_cache_env rt \<and> Retirement (memory rt2) = Retirement (memory rt) \<and>
      (ph = kCleaning \<longrightarrow> ad_replica_hosts (descriptors (memory rt2) (gp_offset g)) = 0)"
  proof -
    from ph consider (cl) "ph = kClosing" | (dr) "ph = kDraining" | (cn) "ph = kCleaning" by blast
    then show ?thesis
    proof cases
      case cl
      obtain T where T: "CloseObject (rn_token_env rt) g (ws_token (rn_write rt)) = (True, T)" "mem T = memory rt" "outbound T = (\<lambda>_. [])"
        using close_alone [OF r [unfolded cl] n [OF cl]] by blast
      have "alone (set_token T rt)" by (rule alone_token) (use r T in \<open>simp_all add: retiring_def\<close>)
      then have "retiring C ph g (set_token T rt)" using r T(2) by (simp add: retiring_def heap_of_def unused_object_def Let_def)
      then show ?thesis using T o cl by (simp add: phase_work_def same_heap_def)
    next
      case dr
      then show ?thesis using o r by (simp add: phase_work_def same_heap_def)
    next
      case cn
      obtain rt2 where "phase_work (Retirement (memory rt)) rt = Some (Inr (\<lambda>_. 0), rt2)" "retiring C kCleaning g rt2" "same_heap rt rt2"
        "ad_replica_hosts (descriptors (memory rt2) (gp_offset g)) = 0" "rn_cache_env rt2 = rn_cache_env rt" "Retirement (memory rt2) = Retirement (memory rt)"
        using clean_alone [OF r [unfolded cn]] by blast
      then show ?thesis using cn by (intro exI [of _ "\<lambda>_. 0"] exI [of _ rt2]) simp
    qed
  qed
  then obtain cursors rt2 where w: "phase_work (Retirement (memory rt)) rt = Some (Inr cursors, rt2)" "retiring C ph g rt2" "same_heap rt rt2"
    "rn_cache_env rt2 = rn_cache_env rt" "Retirement (memory rt2) = Retirement (memory rt)"
    "ph = kCleaning \<longrightarrow> ad_replica_hosts (descriptors (memory rt2) (gp_offset g)) = 0" by blast
  obtain M where M: "AcknowledgeRetirement (allocator_of rt2) (memory rt2) (Retirement (memory rt2)) 0 cursors = (kOk, M)"
    "retiring C (next_phase ph) g (set_memory M rt2)" "same_heap rt2 (set_memory M rt2)"
    "ad_replica_hosts (descriptors M (gp_offset g)) = ad_replica_hosts (descriptors (memory rt2) (gp_offset g))"
    using acknowledge_alone [OF w(2) ph] by blast
  have "ProgressRetirement rt = Some (kOk, set_memory M rt2)"
    unfolding progress_alone [OF r ph] w(1) option.case prod.case sum.case using M(1) w(5) by simp
  then show ?thesis using M same_heap_trans [OF w(3) M(3)] w(4,6) by (intro exI [of _ "set_memory M rt2"]) simp
qed

text \<open>
  C23.  On a runtime of one host \<^verbatim>\<open>FreeShared\<close> succeeds: if the caller's host owns the object, nobody has an operation,
  a write token or a request on it, no transaction is under way and the extent table has two spare nodes, three rounds
  before the deadline are enough.  The object is then gone, the addresses of its two blocks are free again, cached
  copies of it are dropped, everything else is where it was, and the retirement control is idle for the next call.
\<close>

theorem FreeShared_alone:
  assumes "alone rt" and "heap_of C rt" and "unused_object g rt" and "no_tokens g (ws_token (rn_write rt))"
    and "rs_phase (Retirement (memory rt)) = kIdle" and "rs_sequence (Retirement (memory rt)) \<noteq> UINT64_MAX"
    and "ad_state (descriptors (memory rt) (gp_offset g)) = ObjectAllocated" and "ad_owner_host (descriptors (memory rt) (gp_offset g)) = 0"
    and "3 \<le> rounds"
  shows "\<exists>rt'. FreeShared (\<lambda>_ r. r) rounds False g rt = Some (kOk, rt') \<and>
    live (memory rt') = live (memory rt) - {gp_offset g} \<and> rs_phase (Retirement (memory rt')) = kIdle \<and>
    free_addresses (extents (header (memory rt'))) DataPool =
      free_addresses (extents (header (memory rt))) DataPool \<union> data_block (descriptors (memory rt) (gp_offset g)) \<and>
    free_addresses (extents (header (memory rt'))) CoherencePool =
      free_addresses (extents (header (memory rt))) CoherencePool \<union> coherence_block (descriptors (memory rt) (gp_offset g)) \<and>
    \<not> is_member (rn_cache_env rt) (gp_offset g) (cache_view (rn_write rt'))"
proof -
  have one: "host_count (rn_config X) = 1" "rn_poller X = None" if "retiring C ph g X" for ph X using that by (simp_all add: retiring_def alone_def)
  obtain c M where b: "BeginRetire (allocator_of rt) (memory rt) g 1 = (Inr c, M)" "retiring C kClosing g (set_memory M rt)"
    "same_heap rt (set_memory M rt)" "no_tokens g (ws_token (rn_write (set_memory M rt)))"
    using begin_alone [OF assms(1-3,5-8)] assms(4) by blast
  define r0 where "r0 = set_memory M rt"
  obtain r1 where r1: "ProgressRetirement r0 = Some (kOk, r1)" "retiring C kDraining g r1" "same_heap r0 r1" "rn_cache_env r1 = rn_cache_env r0"
    using phase_step [OF b(2)] b(4) by (auto simp: r0_def)
  obtain r2 where r2: "ProgressRetirement r1 = Some (kOk, r2)" "retiring C kCleaning g r2" "same_heap r1 r2" "rn_cache_env r2 = rn_cache_env r1"
    using phase_step [OF r1(2)] by auto
  obtain r3 where r3: "ProgressRetirement r2 = Some (kOk, r3)" "retiring C kReclaimable g r3" "same_heap r2 r3" "rn_cache_env r3 = rn_cache_env r2"
    "ad_replica_hosts (descriptors (memory r3) (gp_offset g)) = 0"
    using phase_step [OF r2(2)] by auto
  have sh: "same_heap rt r3" using b(3) r1(3) r2(3) r3(3) unfolding r0_def [symmetric] by (blast intro: same_heap_trans)
  have a3: "alone r3" "heap_of C r3" "unused_object g r3" "in_phase kReclaimable g (memory r3)" using r3(2) by (simp_all add: retiring_def)
  have g: "region_id g = 0" "gp_offset g \<in> live (memory r3)" using a3(3) by (simp_all add: unused_object_def Let_def)
  have ok: "heap_ok (block (expected_data_offset (allocator_of r3)) (expected_data_bytes (allocator_of r3))) C (memory r3)" and sp: "2 \<le> spare_nodes (extents (header (memory r3)))"
    using a3(2) by (simp_all add: heap_of_def heap_inv_def)
  have may: "may_free (allocator_of r3) g (memory r3)"
    using a3 g r3(5) sp retiring_find(1) [OF a3(1,2) g, of True]
    by (simp add: may_free_def in_phase_def Let_def Retirement_def alone_def unused_object_def)
  obtain M' where f: "Free (allocator_of r3) (memory r3) g = Some (kOk, M')" "reclaimed (allocator_of r3) g (memory r3) M'"
    by (rule Free_cases [OF ok, of "allocator_of r3" g]) (use may in auto)
  have e: "rs_phase (Retirement (memory r1)) = kDraining" "rs_phase (Retirement (memory r2)) = kCleaning" "rs_phase (Retirement (memory r3)) = kReclaimable"
    using r1(2) r2(2) r3(2) by (simp_all add: retiring_def in_phase_def Let_def Retirement_def)
  have hc: "host_count (rn_config rt) = 1" "rn_poller rt = None" "rn_initialized rt" using assms(1) by (simp_all add: alone_def)
  have f1: "free_round g False rt = Some (None, True, r1)"
    using hc b(1) one [OF b(2)] r1(1) one [OF r1(2)] e(1) by (simp add: free_round_def r0_def [symmetric] Let_def) (simp add: set_memory_def)
  have f2: "free_round g True r1 = Some (None, True, r2)"
    using one [OF r1(2)] r2(1) one [OF r2(2)] e(2) by (simp add: free_round_def Let_def) (simp add: set_memory_def)
  have f3: "free_round g True r2 = Some (Some kOk, True, set_memory M' r3)"
    using one [OF r2(2)] r3(1) e(3) f(1) by (simp add: free_round_def Let_def)
  obtain m where m: "rounds = Suc (Suc (Suc m))" using assms(9) by (metis Suc_le_D le_Suc_eq numeral_3_eq_3)
  have run: "FreeShared (\<lambda>_ r. r) rounds False g rt = Some (kOk, set_memory M' r3)" using hc f1 f2 f3 by (simp add: FreeShared_def m)
  have "ad_replica_hosts (descriptors M' (gp_offset g)) = 0" using f(2) r3(5) by (simp add: reclaimed_def)
  then have "\<not> is_member (rn_cache_env rt) (gp_offset g) (cache_view (rn_write (set_memory M' r3)))" by (simp add: is_member_def cache_view_def)
  moreover have "live M' = live (memory rt) - {gp_offset g}" "rs_phase (Retirement M') = kIdle"
    "free_addresses (extents (header M')) DataPool = free_addresses (extents (header (memory rt))) DataPool \<union> data_block (descriptors (memory rt) (gp_offset g))"
    "free_addresses (extents (header M')) CoherencePool = free_addresses (extents (header (memory rt))) CoherencePool \<union> coherence_block (descriptors (memory rt) (gp_offset g))"
    using f(2) sh by (simp_all add: reclaimed_def same_heap_def Retirement_def set_phase_def)
  ultimately show ?thesis using run by (intro exI [of _ "set_memory M' r3"]) simp
qed

text \<open>A runtime of one host over the sample allocator of \<open>Cx_Retirement\<close>, with one object that nobody uses.\<close>

definition lone_runtime :: "AllocatorMemory \<Rightarrow> unit Runtime" where
  "lone_runtime M = \<lparr>rn_config = sample_config, rn_layout = BuildDefaultLayout 0x40000000,
     rn_token_env = (sample_env 0)\<lparr>te_allocator := sample_al 0\<rparr>, rn_cache_env = (we_cache write_env)\<lparr>re_allocator := sample_al 0\<rparr>,
     rn_initialized = True, rn_attached = True,
     rn_write = \<lparr>ws_token = sample_state\<lparr>mem := M\<rparr>, ws_cache = empty_cache M, ws_bytes = (\<lambda>_. 0), ws_staged = []\<rparr>,
     rn_inbound = (\<lambda>_. \<lparr>qo_handle = \<lparr>qh_local_host = 0, qh_mode = kReleaseAcquire\<rparr>, qo_ring = None\<rparr>), rn_poller = None, rn_mapper = new_mapper\<rparr>"

lemma lone_object:
  "\<exists>off M. heap_of (coherence_pool 0x1000 0x8000) (lone_runtime M) \<and> live M = {off} \<and> ad_state (descriptors M off) = ObjectAllocated \<and>
     ad_owner_host (descriptors M off) = 0 \<and> ad_active_operations (descriptors M off) = (\<lambda>_. 0) \<and> retirement (header M) = idle_control \<and>
     (\<forall>k. ad_replica_hosts (descriptors M k) = 0)"
proof -
  let ?M = "fresh_memory sample_header"
  have ok: "heap_ok (block 0x10000 0x40000) (coherence_pool 0x1000 0x8000) ?M" using sample_inv by (simp add: heap_inv_def)
  have own: "unat (local_host (sample_al 0)) < kMaxHosts" by (simp add: sample_al_def kMaxHosts_def)
  have h: "retirement (header ?M) = idle_control" "live ?M = {}" "spare_nodes (extents (header ?M)) = 4094"
    using format_fields [OF sample_format] format_free(4) [OF _ _ _ _ format_fields(3) [OF sample_format]]
    by (auto simp: fresh_memory_def slots_def live_def sample_first)
  show ?thesis
  proof (cases rule: Allocate_cases [OF ok sample_request own])
    case (1 off M' de ce)
    have "heap_reach sample_al ?M M'" using heap_reach.step [OF heap_reach.start heap_step.allocate [where al = sample_al, OF 1(1)]] .
    then have inv: "heap_inv (block 0x10000 0x40000) (coherence_pool 0x1000 0x8000) M'"
      by (rule reach_inv [OF _ sample_inv]) (use sample_layout in \<open>simp add: same_layout_def\<close>)
    then have "heap_of (coherence_pool 0x1000 0x8000) (lone_runtime M')" using 1(8) h(3) by (simp add: heap_of_def lone_runtime_def sample_al_def)
    then show ?thesis using 1(4,7) h
      by (intro exI [of _ off] exI [of _ M']) (simp add: 1(6) new_descriptor_def default_descriptor_def sample_al_def fresh_memory_def)
  next
    case 2
    then show ?thesis using sample_room by blast
  qed
qed

lemma lone_alone:
  assumes "\<forall>k. ad_replica_hosts (descriptors M k) = 0"
  shows "alone (lone_runtime M)"
proof -
  let ?rt = "lone_runtime M"
  have "is_member (rn_cache_env ?rt) off (cache_view (rn_write ?rt)) = False" for off
    using assms by (simp add: is_member_def cache_view_def lone_runtime_def)
  then have "cache_ok (rn_cache_env ?rt) (cache_view (rn_write ?rt))"
    by (simp add: cache_ok_def books_def entry_ok_def within_def) (simp add: cache_view_def lone_runtime_def empty_cache_def entries_def bytes_of_def blocks_of_def)
  then show ?thesis by (simp add: alone_def) (simp add: lone_runtime_def sample_config_def sample_env_def write_env_def sample_al_def sample_state_def)
qed

theorem FreeShared_alone_witness:
  "\<exists>M off rt'. FreeShared (\<lambda>_ r. r) 3 False \<lparr>region_id = 0, gp_offset = off\<rparr> (lone_runtime M) = Some (kOk, rt') \<and>
     live M = {off} \<and> live (memory rt') = {}"
proof -
  obtain off M where M: "heap_of (coherence_pool 0x1000 0x8000) (lone_runtime M)" "live M = {off}" "ad_state (descriptors M off) = ObjectAllocated"
    "ad_owner_host (descriptors M off) = 0" "ad_active_operations (descriptors M off) = (\<lambda>_. 0)" "retirement (header M) = idle_control"
    "\<forall>k. ad_replica_hosts (descriptors M k) = 0" using lone_object by blast
  let ?g = "\<lparr>region_id = 0, gp_offset = off\<rparr>"
  have mem: "memory (lone_runtime M) = M" "ws_token (rn_write (lone_runtime M)) = sample_state\<lparr>mem := M\<rparr>" by (simp_all add: lone_runtime_def)
  have "unused_object ?g (lone_runtime M)" using M by (simp add: unused_object_def mem)
  moreover have "no_tokens ?g (ws_token (rn_write (lone_runtime M)))"
    by (simp add: mem no_tokens_def sample_state_def local_object_def default_object_def)
  ultimately obtain rt' where "FreeShared (\<lambda>_ r. r) 3 False ?g (lone_runtime M) = Some (kOk, rt')" "live (memory rt') = live M - {off}"
    using FreeShared_alone [OF lone_alone [OF M(7)] M(1), of ?g 3] M(3,4,6)
    by (fastforce simp: mem Retirement_def idle_control_def idle_snapshot_def)
  then show ?thesis using M(2) by (intro exI [of _ M] exI [of _ off] exI [of _ rt']) simp
qed

lemma no_entries_no_members: "cache_ok e S \<Longrightarrow> entries S = [] \<Longrightarrow> \<not> is_member e off S"
  by (auto simp: cache_ok_def books_def entry_ok_def blocks_of_def dest!: spec [of _ off] split: option.splits)



end
