(* ===== verification/Cx_Bootstrap.thy ===== *)
theory Cx_Bootstrap
  imports Cx_Queue Cx_Allocator
begin

text \<open>
  The bootstrap page of the shared region (\<^verbatim>\<open>include/cxloom/loommem/layout.h\<close>) and what the hosts do with it
  (\<^verbatim>\<open>src/loommem/runtime.cpp\<close>): they register, publish a probe value, a shared object and sequence numbers, and
  wait for one another.

  The page is shared: a waiting host loads the entries of the others one at a time while they change.  A call that
  waits takes as an argument what its loads return, one observation of every host per round; the end of the list of
  rounds is the deadline.  Atomic operations on an entry are one step.
\<close>

section \<open>Data\<close>

definition kBootstrapMagic :: u64 where
  "kBootstrapMagic = 0x43584C4F4F4D424D"

definition kBootstrapLayoutVersion :: u32 where
  "kBootstrapLayoutVersion = 13"

definition sizeof_HostRegistration :: u64 where
  "sizeof_HostRegistration = 64"

definition sizeof_BootstrapHeader :: u64 where
  "sizeof_BootstrapHeader = 192 + 64 * sizeof_HostRegistration"

datatype BootstrapState = BsUninitialized | BsInitializing | BsReady | BsFailed

datatype HostRegistrationState = HostEmpty | HostJoined | HostProbeReady | HostObjectReady

text \<open>The states are compared by their numbers.\<close>

fun registration_code :: "HostRegistrationState \<Rightarrow> nat" where
  "registration_code HostEmpty = 0"
| "registration_code HostJoined = 1"
| "registration_code HostProbeReady = 2"
| "registration_code HostObjectReady = 3"

lemma registration_code_inj: "registration_code a = registration_code b \<longleftrightarrow> a = b"
  by (cases a; cases b) simp_all

instantiation HostRegistrationState :: linorder
begin

definition less_eq_HostRegistrationState :: "HostRegistrationState \<Rightarrow> HostRegistrationState \<Rightarrow> bool" where
  "a \<le> b \<longleftrightarrow> registration_code a \<le> registration_code b"

definition less_HostRegistrationState :: "HostRegistrationState \<Rightarrow> HostRegistrationState \<Rightarrow> bool" where
  "a < b \<longleftrightarrow> registration_code a < registration_code b"

instance
  by standard (auto simp: less_eq_HostRegistrationState_def less_HostRegistrationState_def registration_code_inj)

end

record HostRegistration =
  hr_state :: HostRegistrationState
  hr_probe_value :: u64
  hr_object_offset :: u64
  hr_object_bytes :: u64
  hr_published_sequence :: u64
  hr_observed_sequence :: u64
  hr_visibility_errors :: u64

record BootstrapHeader =
  bh_magic :: u64
  bh_layout_version :: u32
  bh_header_bytes :: u32
  bh_state :: BootstrapState
  bh_region_bytes :: u64
  bh_host_count :: u16
  bh_layout :: SharedRegionLayout
  bh_joined_hosts :: u32
  bh_hosts :: "HostId \<Rightarrow> HostRegistration"

definition empty_registration :: HostRegistration where
  "empty_registration = \<lparr>hr_state = HostEmpty, hr_probe_value = 0, hr_object_offset = 0, hr_object_bytes = 0,
     hr_published_sequence = 0, hr_observed_sequence = 0, hr_visibility_errors = 0\<rparr>"

record PublishedSharedObject =
  po_gptr :: GlobalPointer
  po_bytes :: u64

abbreviation set_host :: "HostId \<Rightarrow> (HostRegistration \<Rightarrow> HostRegistration) \<Rightarrow> BootstrapHeader \<Rightarrow> BootstrapHeader" where
  "set_host h f B \<equiv> B\<lparr>bh_hosts := (bh_hosts B)(h := f (bh_hosts B h))\<rparr>"

section \<open>Joining\<close>

definition ValidateBootstrap :: "CxloomConfig \<Rightarrow> SharedRegionLayout \<Rightarrow> BootstrapHeader \<Rightarrow> Status" where
  "ValidateBootstrap c lay B =
     (if bh_magic B \<noteq> kBootstrapMagic \<or> bh_layout_version B \<noteq> kBootstrapLayoutVersion \<or>
         ucast (bh_header_bytes B) \<noteq> sizeof_BootstrapHeader then kFailedPrecondition
      else if bh_region_bytes B \<noteq> shared_region_bytes c \<or> bh_host_count B \<noteq> host_count c then kFailedPrecondition
      else if \<not> SameLayout (bh_layout B) lay then kFailedPrecondition
      else kOk)"

definition RegisterLocalHost :: "CxloomConfig \<Rightarrow> BootstrapHeader \<Rightarrow> Status \<times> BootstrapHeader" where
  "RegisterLocalHost c B =
     (if hr_state (bh_hosts B (local_host_id c)) \<noteq> HostEmpty then (kAlreadyExists, B)
      else (kOk, (set_host (local_host_id c) (\<lambda>r. r\<lparr>hr_state := HostJoined\<rparr>) B)\<lparr>bh_joined_hosts := bh_joined_hosts B + 1\<rparr>))"

definition joined_host_count :: "BootstrapHeader option \<Rightarrow> u32" where
  "joined_host_count B = (case B of None \<Rightarrow> 0 | Some b \<Rightarrow> bh_joined_hosts b)"

section \<open>Publishing\<close>

text \<open>\<open>up\<close>: the runtime is initialized, and so the bootstrap pointer is set.\<close>

definition PublishBootstrapProbe :: "CxloomConfig \<Rightarrow> bool \<Rightarrow> u64 \<Rightarrow> BootstrapHeader \<Rightarrow> Status \<times> BootstrapHeader" where
  "PublishBootstrapProbe c up v B =
     (if \<not> up then (kFailedPrecondition, B)
      else (kOk, set_host (local_host_id c) (\<lambda>r. r\<lparr>hr_probe_value := v, hr_state := HostProbeReady\<rparr>) B))"

definition PublishSharedObject :: "CxloomConfig \<Rightarrow> bool \<Rightarrow> Cpu \<Rightarrow> u64 \<Rightarrow> (GlobalPointer \<Rightarrow> AllocationInfo Result) \<Rightarrow>
    GlobalPointer \<Rightarrow> u64 \<Rightarrow> VisibilityMode \<Rightarrow> BootstrapHeader \<Rightarrow> Status \<times> BootstrapHeader" where
  "PublishSharedObject c up cpu mapped_bytes describe gptr bytes mode B =
     (if \<not> up then (kFailedPrecondition, B)
      else if bytes = 0 \<or> region_id gptr \<noteq> 0 \<or> mapped_bytes < gp_offset gptr \<or> mapped_bytes - gp_offset gptr < bytes
      then (kInvalidArgument, B)
      else (case describe gptr of
              Inl st \<Rightarrow> (st, B)
            | Inr a \<Rightarrow>
                let block_status = visibility_status cpu (ai_coherence_block_count a * sizeof_CoherenceBlockDescriptor) mode;
                    descriptor_status = visibility_status cpu sizeof_AllocationDescriptor mode in
                if ai_owner_host a \<noteq> local_host_id c \<or> ai_bytes a < bytes then (kInvalidArgument, B)
                else if ai_coherence_metadata_offset a \<noteq> 0 \<and> block_status \<noteq> kOk then (block_status, B)
                else if descriptor_status \<noteq> kOk then (descriptor_status, B)
                else (visibility_status cpu sizeof_HostRegistration mode,
                      set_host (local_host_id c)
                        (\<lambda>r. r\<lparr>hr_object_offset := gp_offset gptr, hr_object_bytes := bytes, hr_state := HostObjectReady\<rparr>) B)))"

definition PublishVisibilitySequence :: "CxloomConfig \<Rightarrow> bool \<Rightarrow> Cpu \<Rightarrow> u64 \<Rightarrow> VisibilityMode \<Rightarrow> BootstrapHeader \<Rightarrow> Status \<times> BootstrapHeader" where
  "PublishVisibilitySequence c up cpu sequence mode B =
     (if \<not> up \<or> sequence = 0 then (kFailedPrecondition, B)
      else if hr_state (bh_hosts B (local_host_id c)) \<noteq> HostObjectReady then (kFailedPrecondition, B)
      else (visibility_status cpu 8 mode, set_host (local_host_id c) (\<lambda>r. r\<lparr>hr_published_sequence := sequence\<rparr>) B))"

definition PublishObservedSequence :: "CxloomConfig \<Rightarrow> bool \<Rightarrow> Cpu \<Rightarrow> u64 \<Rightarrow> u64 \<Rightarrow> VisibilityMode \<Rightarrow> BootstrapHeader \<Rightarrow>
    Status \<times> BootstrapHeader" where
  "PublishObservedSequence c up cpu sequence errors mode B =
     (if \<not> up \<or> sequence = 0 then (kFailedPrecondition, B)
      else (visibility_status cpu 8 mode,
            set_host (local_host_id c) (\<lambda>r. r\<lparr>hr_visibility_errors := errors, hr_observed_sequence := sequence\<rparr>) B))"

section \<open>Waiting and reading\<close>

text \<open>
  One round of a wait looks at the hosts in turn and stops at the first one that is not ready; the rounds go on until
  all are ready or the time is up.
\<close>

definition round_ready :: "CxloomConfig \<Rightarrow> (HostRegistration \<Rightarrow> bool) \<Rightarrow> (HostId \<Rightarrow> HostRegistration) \<Rightarrow> bool" where
  "round_ready c P obs \<longleftrightarrow> list_all (\<lambda>h. P (obs h)) (hosts_below (host_count c))"

fun wait_rounds :: "CxloomConfig \<Rightarrow> Status \<Rightarrow> (HostRegistration \<Rightarrow> bool) \<Rightarrow> (HostId \<Rightarrow> HostRegistration) list \<Rightarrow> Status" where
  "wait_rounds c acquire P [] = kUnavailable"
| "wait_rounds c acquire P (obs # rounds) =
     (if host_count c \<noteq> 0 \<and> acquire \<noteq> kOk then acquire
      else if round_ready c P obs then kOk
      else wait_rounds c acquire P rounds)"

definition WaitForAllHosts :: "CxloomConfig \<Rightarrow> bool \<Rightarrow> (HostId \<Rightarrow> HostRegistration) list \<Rightarrow> Status" where
  "WaitForAllHosts c up rounds =
     (if \<not> up then kFailedPrecondition else wait_rounds c kOk (\<lambda>r. \<not> hr_state r < HostProbeReady) rounds)"

definition WaitForAllSharedObjects :: "CxloomConfig \<Rightarrow> bool \<Rightarrow> Cpu \<Rightarrow> VisibilityMode \<Rightarrow> (HostId \<Rightarrow> HostRegistration) list \<Rightarrow> Status" where
  "WaitForAllSharedObjects c up cpu mode rounds =
     (if \<not> up then kFailedPrecondition
      else wait_rounds c (visibility_status cpu sizeof_HostRegistration mode) (\<lambda>r. hr_state r = HostObjectReady) rounds)"

definition WaitForVisibilitySequence :: "CxloomConfig \<Rightarrow> bool \<Rightarrow> Cpu \<Rightarrow> u64 \<Rightarrow> VisibilityMode \<Rightarrow> (HostId \<Rightarrow> HostRegistration) list \<Rightarrow> Status" where
  "WaitForVisibilitySequence c up cpu sequence mode rounds =
     (if \<not> up then kFailedPrecondition
      else wait_rounds c (visibility_status cpu 8 mode) (\<lambda>r. \<not> hr_published_sequence r < sequence) rounds)"

definition WaitForObservedSequence :: "CxloomConfig \<Rightarrow> bool \<Rightarrow> Cpu \<Rightarrow> u64 \<Rightarrow> VisibilityMode \<Rightarrow> (HostId \<Rightarrow> HostRegistration) list \<Rightarrow> Status" where
  "WaitForObservedSequence c up cpu sequence mode rounds =
     (if \<not> up then kFailedPrecondition
      else wait_rounds c (visibility_status cpu 8 mode) (\<lambda>r. \<not> hr_observed_sequence r < sequence) rounds)"

definition ReadBootstrapProbe :: "CxloomConfig \<Rightarrow> bool \<Rightarrow> HostId \<Rightarrow> BootstrapHeader \<Rightarrow> u64 Result" where
  "ReadBootstrapProbe c up h B =
     (if \<not> up then Inl kFailedPrecondition
      else if host_count c \<le> h then Inl kInvalidArgument
      else if hr_state (bh_hosts B h) < HostProbeReady then Inl kUnavailable
      else Inr (hr_probe_value (bh_hosts B h)))"

definition ReadPublishedSharedObject :: "CxloomConfig \<Rightarrow> bool \<Rightarrow> HostId \<Rightarrow> BootstrapHeader \<Rightarrow> PublishedSharedObject Result" where
  "ReadPublishedSharedObject c up h B =
     (if \<not> up then Inl kFailedPrecondition
      else if host_count c \<le> h then Inl kInvalidArgument
      else if hr_state (bh_hosts B h) \<noteq> HostObjectReady then Inl kUnavailable
      else Inr \<lparr>po_gptr = \<lparr>region_id = 0, gp_offset = hr_object_offset (bh_hosts B h)\<rparr>, po_bytes = hr_object_bytes (bh_hosts B h)\<rparr>)"

definition visibility_error_count :: "CxloomConfig \<Rightarrow> bool \<Rightarrow> BootstrapHeader \<Rightarrow> u64" where
  "visibility_error_count c up B =
     (if \<not> up then 0 else fold (\<lambda>h errors. errors + hr_visibility_errors (bh_hosts B h)) (hosts_below (host_count c)) 0)"

section \<open>All hosts on one page\<close>

text \<open>
  The hosts share one configuration but for their own number.  An event is one call of one host; \<open>boot_run c es B B'\<close>:
  the calls \<open>es\<close>, in this order, lead from \<open>B\<close> to \<open>B'\<close>.
\<close>

datatype BootEvent =
    EvRegister HostId
  | EvProbe HostId u64
  | EvObject HostId GlobalPointer u64 VisibilityMode
  | EvSequence HostId u64 VisibilityMode
  | EvObserved HostId u64 u64 VisibilityMode

fun boot_call :: "CxloomConfig \<Rightarrow> Cpu \<Rightarrow> (GlobalPointer \<Rightarrow> AllocationInfo Result) \<Rightarrow> BootEvent \<Rightarrow> BootstrapHeader \<Rightarrow> Status \<times> BootstrapHeader" where
  "boot_call c cpu describe (EvRegister h) B = RegisterLocalHost (c\<lparr>local_host_id := h\<rparr>) B"
| "boot_call c cpu describe (EvProbe h v) B = PublishBootstrapProbe (c\<lparr>local_host_id := h\<rparr>) True v B"
| "boot_call c cpu describe (EvObject h g n mode) B = PublishSharedObject (c\<lparr>local_host_id := h\<rparr>) True cpu (shared_region_bytes c) describe g n mode B"
| "boot_call c cpu describe (EvSequence h s mode) B = PublishVisibilitySequence (c\<lparr>local_host_id := h\<rparr>) True cpu s mode B"
| "boot_call c cpu describe (EvObserved h s n mode) B = PublishObservedSequence (c\<lparr>local_host_id := h\<rparr>) True cpu s n mode B"

fun event_host :: "BootEvent \<Rightarrow> HostId" where
  "event_host (EvRegister h) = h"
| "event_host (EvProbe h v) = h"
| "event_host (EvObject h g n mode) = h"
| "event_host (EvSequence h s mode) = h"
| "event_host (EvObserved h s n mode) = h"

text \<open>A host publishes only after it has joined.\<close>

definition allowed :: "CxloomConfig \<Rightarrow> BootstrapHeader \<Rightarrow> BootEvent \<Rightarrow> bool" where
  "allowed c B e \<longleftrightarrow> event_host e < host_count c \<and> ((\<exists>h. e = EvRegister h) \<or> hr_state (bh_hosts B (event_host e)) \<noteq> HostEmpty)"

inductive boot_run :: "CxloomConfig \<Rightarrow> Cpu \<Rightarrow> (GlobalPointer \<Rightarrow> AllocationInfo Result) \<Rightarrow> BootEvent list \<Rightarrow> BootstrapHeader \<Rightarrow> BootstrapHeader \<Rightarrow> bool"
  for c cpu describe where
  stop: "boot_run c cpu describe [] B B"
| more: "allowed c B e \<Longrightarrow> boot_call c cpu describe e B = (st, B1) \<Longrightarrow> boot_run c cpu describe es B1 B2 \<Longrightarrow>
    boot_run c cpu describe (e # es) B B2"

inductive_cases boot_run_ConsE: "boot_run c cpu describe (e # es) B B'"
inductive_cases boot_run_NilE: "boot_run c cpu describe [] B B'"

text \<open>What a host published last, read off the events.\<close>

fun last_probe :: "HostId \<Rightarrow> BootEvent list \<Rightarrow> u64 option" where
  "last_probe h [] = None"
| "last_probe h (e # es) =
     (case last_probe h es of
        Some v \<Rightarrow> Some v
      | None \<Rightarrow> (case e of EvProbe h' v \<Rightarrow> if h' = h then Some v else None | _ \<Rightarrow> None))"

section \<open>What the calls change\<close>

lemmas boot_defs = RegisterLocalHost_def PublishBootstrapProbe_def PublishSharedObject_def PublishVisibilitySequence_def
  PublishObservedSequence_def

lemmas state_order = less_eq_HostRegistrationState_def less_HostRegistrationState_def

lemma probe_ready_iff: "\<not> s < HostProbeReady \<longleftrightarrow> s = HostProbeReady \<or> s = HostObjectReady"
  by (cases s) (simp_all add: state_order)

lemma boot_call_others:
  "boot_call c cpu describe e B = (st, B') \<Longrightarrow> h \<noteq> event_host e \<Longrightarrow> bh_hosts B' h = bh_hosts B h"
  by (cases e) (auto simp: boot_defs Let_def split: if_splits sum.splits)

text \<open>The entry of a host: it never leaves the page, is never unready again, and holds the last probe.\<close>

lemma boot_call_entry:
  assumes "boot_call c cpu describe e B = (st, B')" and "allowed c B e"
  shows "hr_state (bh_hosts B h) \<noteq> HostEmpty \<Longrightarrow> hr_state (bh_hosts B' h) \<noteq> HostEmpty"
    "\<not> hr_state (bh_hosts B h) < HostProbeReady \<Longrightarrow> \<not> hr_state (bh_hosts B' h) < HostProbeReady"
    "hr_probe_value (bh_hosts B' h) = (case e of EvProbe h' v \<Rightarrow> if h' = h then v else hr_probe_value (bh_hosts B h) | _ \<Rightarrow> hr_probe_value (bh_hosts B h))"
    "hr_state (bh_hosts B' h) \<noteq> HostEmpty \<longleftrightarrow> hr_state (bh_hosts B h) \<noteq> HostEmpty \<or> e = EvRegister h"
  using assms by (cases e; auto simp: boot_defs Let_def probe_ready_iff allowed_def split: if_splits sum.splits)+

lemma boot_call_joined:
  assumes "boot_call c cpu describe e B = (st, B')"
  shows "bh_joined_hosts B' = (if \<exists>h. e = EvRegister h \<and> hr_state (bh_hosts B h) = HostEmpty then bh_joined_hosts B + 1 else bh_joined_hosts B)"
  using assms by (cases e; auto simp: boot_defs Let_def split: if_splits sum.splits)

lemma boot_run_append:
  "boot_run c cpu describe (xs @ ys) B B2 \<longleftrightarrow> (\<exists>B1. boot_run c cpu describe xs B B1 \<and> boot_run c cpu describe ys B1 B2)"
proof (induction xs arbitrary: B)
  case (Cons e xs)
  show ?case
  proof
    assume "boot_run c cpu describe ((e # xs) @ ys) B B2"
    then obtain st B0 where "allowed c B e" "boot_call c cpu describe e B = (st, B0)" "boot_run c cpu describe (xs @ ys) B0 B2"
      by (auto elim: boot_run_ConsE)
    with Cons show "\<exists>B1. boot_run c cpu describe (e # xs) B B1 \<and> boot_run c cpu describe ys B1 B2"
      by (meson boot_run.more)
  next
    assume "\<exists>B1. boot_run c cpu describe (e # xs) B B1 \<and> boot_run c cpu describe ys B1 B2"
    then show "boot_run c cpu describe ((e # xs) @ ys) B B2"
      using Cons by (auto elim!: boot_run_ConsE intro: boot_run.more)
  qed
qed (auto elim: boot_run_NilE intro: boot_run.stop)

lemma boot_run_ready:
  assumes "boot_run c cpu describe es B B'" and "\<not> hr_state (bh_hosts B h) < HostProbeReady"
  shows "\<not> hr_state (bh_hosts B' h) < HostProbeReady"
  using assms by (induction rule: boot_run.induct) (auto dest: boot_call_entry(2))

lemma boot_run_probe:
  "boot_run c cpu describe es B B' \<Longrightarrow>
     hr_probe_value (bh_hosts B' h) = (case last_probe h es of Some v \<Rightarrow> v | None \<Rightarrow> hr_probe_value (bh_hosts B h))"
  by (induction rule: boot_run.induct) (auto simp: boot_call_entry(3) split: option.splits BootEvent.splits)

lemma boot_run_members:
  "boot_run c cpu describe es B B' \<Longrightarrow>
     {h. hr_state (bh_hosts B' h) \<noteq> HostEmpty} = {h. hr_state (bh_hosts B h) \<noteq> HostEmpty} \<union> {h. EvRegister h \<in> set es}"
  by (induction rule: boot_run.induct) (auto simp: boot_call_entry(4))

text \<open>The page as the owner leaves it: nobody has joined.\<close>

definition empty_page :: "BootstrapHeader \<Rightarrow> bool" where
  "empty_page B \<longleftrightarrow> bh_joined_hosts B = 0 \<and> (\<forall>h. bh_hosts B h = empty_registration)"

definition joined_exact :: "BootstrapHeader \<Rightarrow> bool" where
  "joined_exact B \<longleftrightarrow> unat (bh_joined_hosts B) = card {h. hr_state (bh_hosts B h) \<noteq> HostEmpty}"

lemma card_hosts_bound: "card (H :: HostId set) \<le> 65536"
proof -
  have "card H \<le> card (UNIV :: HostId set)" by (rule card_mono) simp_all
  then show ?thesis by (simp add: card_word)
qed

lemma boot_call_exact:
  assumes "boot_call c cpu describe e B = (st, B')" and "allowed c B e" and "joined_exact B"
  shows "joined_exact B'"
proof (cases "\<exists>h. e = EvRegister h \<and> hr_state (bh_hosts B h) = HostEmpty")
  case True
  then obtain h where h: "e = EvRegister h" "hr_state (bh_hosts B h) = HostEmpty" by blast
  have m: "{x. hr_state (bh_hosts B' x) \<noteq> HostEmpty} = insert h {x. hr_state (bh_hosts B x) \<noteq> HostEmpty}"
    using boot_call_entry(4) [OF assms(1,2)] h(1) by auto
  have "unat (bh_joined_hosts B) \<le> 65536" using assms(3) card_hosts_bound by (simp add: joined_exact_def)
  then have "unat (bh_joined_hosts B + 1) = unat (bh_joined_hosts B) + 1" by (subst unat_add_no_wrap) simp_all
  with h m assms(3) boot_call_joined [OF assms(1)] show ?thesis by (auto simp: joined_exact_def)
next
  case False
  then have "{x. hr_state (bh_hosts B' x) \<noteq> HostEmpty} = {x. hr_state (bh_hosts B x) \<noteq> HostEmpty}"
    using boot_call_entry(4) [OF assms(1,2)] by auto
  moreover have "bh_joined_hosts B' = bh_joined_hosts B" using boot_call_joined [OF assms(1)] False by simp
  ultimately show ?thesis using assms(3) by (simp add: joined_exact_def)
qed

lemma boot_run_exact: "boot_run c cpu describe es B B' \<Longrightarrow> joined_exact B \<Longrightarrow> joined_exact B'"
  by (induction rule: boot_run.induct) (auto dest: boot_call_exact)

section \<open>Properties\<close>

text \<open>
  Joining is counted exactly.  In every state that calls of any hosts in any order reach from a fresh page, the
  joined-hosts counter is the number of hosts that have registered, and these are the hosts that called
  \<^verbatim>\<open>RegisterLocalHost\<close>.  Another registration under the number of a host that has joined is refused with AlreadyExists
  and changes nothing; one under a new number is accepted.
\<close>

theorem join_counted_once:
  assumes "empty_page B0" and "boot_run c cpu describe es B0 B"
  shows "unat (joined_host_count (Some B)) = card {h. EvRegister h \<in> set es} \<and>
    RegisterLocalHost (c\<lparr>local_host_id := h\<rparr>) B =
      (if EvRegister h \<in> set es then (kAlreadyExists, B)
       else (kOk, (set_host h (\<lambda>r. r\<lparr>hr_state := HostJoined\<rparr>) B)\<lparr>bh_joined_hosts := joined_host_count (Some B) + 1\<rparr>))"
proof -
  have "joined_exact B0" using assms(1) by (simp add: joined_exact_def empty_page_def empty_registration_def)
  then have e: "joined_exact B" by (rule boot_run_exact [OF assms(2)])
  have m: "{h. hr_state (bh_hosts B h) \<noteq> HostEmpty} = {h. EvRegister h \<in> set es}"
    using boot_run_members [OF assms(2)] assms(1) by (simp add: empty_page_def empty_registration_def)
  then have "hr_state (bh_hosts B h) \<noteq> HostEmpty \<longleftrightarrow> EvRegister h \<in> set es" by blast
  with e m show ?thesis by (simp add: joined_exact_def joined_host_count_def RegisterLocalHost_def)
qed

text \<open>What a wait has seen: every load returned the entry of that host at some point of the run.\<close>

definition seen :: "CxloomConfig \<Rightarrow> Cpu \<Rightarrow> (GlobalPointer \<Rightarrow> AllocationInfo Result) \<Rightarrow> BootEvent list \<Rightarrow> BootstrapHeader \<Rightarrow>
    (HostId \<Rightarrow> HostRegistration) \<Rightarrow> bool" where
  "seen c cpu describe es B0 obs \<longleftrightarrow> (\<forall>h. \<exists>xs ys B1. es = xs @ ys \<and> boot_run c cpu describe xs B0 B1 \<and> obs h = bh_hosts B1 h)"

lemma boot_run_det: "boot_run c cpu describe es B B1 \<Longrightarrow> boot_run c cpu describe es B B2 \<Longrightarrow> B1 = B2"
proof (induction arbitrary: B2 rule: boot_run.induct)
  case (stop B)
  then show ?case by (rule boot_run_NilE) simp
next
  case (more B e st B1 es B3)
  from more.prems obtain st' B1' where "boot_call c cpu describe e B = (st', B1')" "boot_run c cpu describe es B1' B2"
    by (rule boot_run_ConsE)
  with more show ?case by simp
qed

lemma seen_ready:
  assumes "seen c cpu describe es B0 obs" and "boot_run c cpu describe es B0 B" and "\<not> hr_state (obs h) < HostProbeReady"
  shows "\<not> hr_state (bh_hosts B h) < HostProbeReady"
proof -
  obtain xs ys B1 where x: "es = xs @ ys" "boot_run c cpu describe xs B0 B1" "obs h = bh_hosts B1 h"
    using assms(1) unfolding seen_def by blast
  obtain B1' where "boot_run c cpu describe xs B0 B1'" "boot_run c cpu describe ys B1' B"
    using assms(2) unfolding x(1) boot_run_append by blast
  then have "boot_run c cpu describe ys B1 B" using boot_run_det [OF x(2)] by blast
  then show ?thesis by (rule boot_run_ready) (use x(3) assms(3) in simp)
qed

lemma wait_rounds_ok: "wait_rounds c acquire P rounds = kOk \<Longrightarrow> \<exists>obs \<in> set rounds. \<forall>h < host_count c. P (obs h)"
  by (induction rounds) (auto simp: round_ready_def list_all_iff split: if_splits)


text \<open>
  A probe published after the shared object takes the object back: the state of the entry returns to ProbeReady, and
  a host that has waited for all objects no longer finds this one.
\<close>

lemma probe_hides_object:
  assumes "PublishBootstrapProbe c True v B = (kOk, B')" and "local_host_id c < host_count c"
  shows "ReadPublishedSharedObject c True (local_host_id c) B' = Inl kUnavailable"
  using assms by (auto simp: PublishBootstrapProbe_def ReadPublishedSharedObject_def)

section \<open>Two hosts\<close>

definition sample_page :: BootstrapHeader where
  "sample_page = \<lparr>bh_magic = kBootstrapMagic, bh_layout_version = 13, bh_header_bytes = 4288, bh_state = BsReady, bh_region_bytes = 0x40000000,
     bh_host_count = 2, bh_layout = BuildDefaultLayout 0x40000000, bh_joined_hosts = 0, bh_hosts = (\<lambda>_. empty_registration)\<rparr>"

definition two_hosts :: CxloomConfig where
  "two_hosts = \<lparr>local_host_id = 0, host_count = 2, shared_region_bytes = 0x40000000, coherence_granule_bytes = 4096,
     queue_capacity_entries = 16, replica_cache_capacity_entries = 1024, replica_cache_capacity_bytes = 0x4000000,
     shared_region_path = ''shm'', bootstrap_owner = True, create_region_file = True, bootstrap_timeout_ms = 10000,
     placement_policy = kMemoryAware, max_running_threads_per_host = 0, max_pending_creates_per_host = 0\<rparr>"

abbreviation plain_cpu :: Cpu where
  "plain_cpu \<equiv> \<lparr>is_x86 = True, has_clwb = True\<rparr>"

definition sample_events :: "BootEvent list" where
  "sample_events = [EvRegister 1, EvProbe 1 7, EvRegister 0, EvProbe 0 5, EvProbe 1 9]"

lemma sample_page_empty: "empty_page sample_page"
  by (simp add: empty_page_def sample_page_def)

lemma sample_boot_run:
  "\<exists>B. boot_run two_hosts plain_cpu (\<lambda>_. Inl kNotFound) sample_events sample_page B \<and>
     (\<forall>h \<in> {0, 1}. hr_state (bh_hosts B h) = HostProbeReady)"
  unfolding sample_events_def
  by (rule exI, rule conjI, (rule boot_run.more, simp add: allowed_def two_hosts_def boot_defs sample_page_def empty_registration_def,
      simp add: boot_defs sample_page_def empty_registration_def two_hosts_def)+, rule boot_run.stop) simp

theorem join_counted_once_witness:
  "\<exists>B. boot_run two_hosts plain_cpu (\<lambda>_. Inl kNotFound) sample_events sample_page B \<and>
     unat (joined_host_count (Some B)) = 2 \<and> RegisterLocalHost (two_hosts\<lparr>local_host_id := 1\<rparr>) B = (kAlreadyExists, B)"
proof -
  obtain B where r: "boot_run two_hosts plain_cpu (\<lambda>_. Inl kNotFound) sample_events sample_page B" using sample_boot_run by blast
  have "{h. EvRegister h \<in> set sample_events} = {0, 1}" by (auto simp: sample_events_def)
  with join_counted_once [OF sample_page_empty r, of 1] r show ?thesis by (intro exI [of _ B]) (simp add: sample_events_def)
qed


end
