(* ===== verification/Cx_Startup.thy ===== *)
theory Cx_Startup
  imports Cx_Region_Mapper Cx_Bootstrap Cx_Retirement Cx_Token
begin

text \<open>
  How a runtime comes up (\<^verbatim>\<open>LoomMemRuntime::Initialize\<close>, \<^verbatim>\<open>InitializeBootstrap\<close> and \<^verbatim>\<open>AttachBootstrap\<close> of
  \<^verbatim>\<open>src/loommem/runtime.cpp\<close>): the configuration is validated, the region is mapped, one host formats it and the others
  wait until it is ready, and then every host validates what it found, registers and locates its rings.

  The shared region is a record of its five parts.  The waiting of an attaching host takes the region as it is at each
  poll; the end of the list is the deadline.  The answers of the operating system and the size of \<^verbatim>\<open>AllocatorHeader\<close>,
  which the source only bounds, are arguments.
\<close>

section \<open>State\<close>

record SharedRegion =
  sr_bootstrap :: BootstrapHeader
  sr_heap :: AllocatorMemory
  sr_coherence :: CoherenceRegionHeader
  sr_queues :: QueueRegion

record LoomMemRuntime =
  rt_config :: CxloomConfig
  rt_layout :: SharedRegionLayout
  rt_mapper :: RegionMapper
  rt_bootstrap :: bool
  rt_allocator :: "SharedExtentAllocator option"
  rt_queues :: "u64 option list list"
  rt_token :: "TokenService option"
  rt_initialized :: bool

definition new_runtime :: "CxloomConfig \<Rightarrow> LoomMemRuntime" where
  "new_runtime c = \<lparr>rt_config = c, rt_layout = BuildDefaultLayout 0, rt_mapper = new_mapper, rt_bootstrap = False, rt_allocator = None,
     rt_queues = [], rt_token = None, rt_initialized = False\<rparr>"

section \<open>Formatting and attaching\<close>

definition set_bootstrap_state :: "BootstrapState \<Rightarrow> SharedRegion \<Rightarrow> SharedRegion" where
  "set_bootstrap_state s R = R\<lparr>sr_bootstrap := (sr_bootstrap R)\<lparr>bh_state := s\<rparr>\<rparr>"

text \<open>The page is cleared, constructed and filled in.\<close>

definition fresh_bootstrap :: "CxloomConfig \<Rightarrow> SharedRegionLayout \<Rightarrow> BootstrapHeader" where
  "fresh_bootstrap c lay = \<lparr>bh_magic = kBootstrapMagic, bh_layout_version = kBootstrapLayoutVersion,
     bh_header_bytes = ucast sizeof_BootstrapHeader, bh_state = BsInitializing, bh_region_bytes = shared_region_bytes c,
     bh_host_count = host_count c, bh_layout = lay, bh_joined_hosts = 0, bh_hosts = (\<lambda>_. empty_registration)\<rparr>"

definition InitializeBootstrap :: "u64 \<Rightarrow> CxloomConfig \<Rightarrow> SharedRegionLayout \<Rightarrow> SharedRegion \<Rightarrow> Status \<times> SharedRegion" where
  "InitializeBootstrap sizeof_AllocatorHeader c lay R =
     (let R1 = R\<lparr>sr_bootstrap := fresh_bootstrap c lay\<rparr> in
      case FormatSharedAllocator sizeof_AllocatorHeader (range_bytes (lay_allocator lay)) (range_offset (lay_shared_data lay))
             (range_bytes (lay_shared_data lay)) (range_offset (lay_coherence lay)) (range_bytes (lay_coherence lay)) of
        Inl st \<Rightarrow> (st, set_bootstrap_state BsFailed R1)
      | Inr h \<Rightarrow>
          let R2 = R1\<lparr>sr_heap := (sr_heap R1)\<lparr>header := h\<rparr>\<rparr> in
          (case FormatCoherenceRegion (range_offset (lay_coherence lay)) (range_bytes (lay_coherence lay)) of
             Inl st \<Rightarrow> (st, set_bootstrap_state BsFailed R2)
           | Inr ch \<Rightarrow>
               let R3 = R2\<lparr>sr_coherence := ch\<rparr> in
               (case FormatSharedQueueRegion (Some (sr_queues R3)) (range_bytes (lay_queues lay)) (host_count c) (queue_capacity_entries c) of
                  Inl st \<Rightarrow> (st, set_bootstrap_state BsFailed R3)
                | Inr q \<Rightarrow> (kOk, set_bootstrap_state BsReady (R3\<lparr>sr_queues := q\<rparr>)))))"

fun AttachBootstrap :: "CxloomConfig \<Rightarrow> SharedRegionLayout \<Rightarrow> SharedRegion list \<Rightarrow> SharedRegion \<Rightarrow> Status \<times> SharedRegionLayout \<times> SharedRegion" where
  "AttachBootstrap c lay [] R = (kUnavailable, lay, R)"
| "AttachBootstrap c lay (R1 # polls) R =
     (let B = sr_bootstrap R1 in
      if bh_state B = BsReady
      then if ValidateBootstrap c lay B \<noteq> kOk then (ValidateBootstrap c lay B, lay, R1) else (kOk, bh_layout B, R1)
      else if bh_state B = BsFailed then (kUnavailable, lay, R1)
      else AttachBootstrap c lay polls R1)"

section \<open>Starting the runtime\<close>

text \<open>The ring of every directed pair; a host has none to itself.\<close>

definition locate_row :: "QueueRegion \<Rightarrow> u64 \<Rightarrow> u16 \<Rightarrow> HostId \<Rightarrow> u64 option list Result" where
  "locate_row q bytes hosts producer =
     foldE (\<lambda>consumer row.
              if producer = consumer then Inr (row @ [None])
              else (case LocateSharedQueue (Some q) bytes producer consumer of Inl st \<Rightarrow> Inl st | Inr off \<Rightarrow> Inr (row @ [Some off])))
       (hosts_below hosts) []"

definition locate_queues :: "QueueRegion \<Rightarrow> u64 \<Rightarrow> u16 \<Rightarrow> u64 option list list Result" where
  "locate_queues q bytes hosts =
     foldE (\<lambda>producer rows. case locate_row q bytes hosts producer of Inl st \<Rightarrow> Inl st | Inr row \<Rightarrow> Inr (rows @ [row])) (hosts_below hosts) []"

text \<open>What a failed start leaves: no pointers into the region, and the region unmapped.\<close>

definition abandon :: "SystemAnswers \<Rightarrow> LoomMemRuntime \<Rightarrow> LoomMemRuntime" where
  "abandon os rt = rt\<lparr>rt_mapper := snd (Unmap os (rt_mapper rt)), rt_bootstrap := False, rt_allocator := None, rt_queues := []\<rparr>"

definition local_allocator_of :: "LoomMemRuntime \<Rightarrow> SharedRegion \<Rightarrow> SharedExtentAllocator" where
  "local_allocator_of rt R = \<lparr>region_bytes = rm_bytes (rt_mapper rt), local_host = local_host_id (rt_config rt),
     expected_data_offset = range_offset (lay_shared_data (rt_layout rt)), expected_data_bytes = range_bytes (lay_shared_data (rt_layout rt)),
     coherence_header = Some (sr_coherence R), default_block_bytes = coherence_granule_bytes (rt_config rt), initialized = False\<rparr>"

text \<open>The part of \<^verbatim>\<open>Initialize\<close> after the bootstrap: validate, attach the allocator, register, locate the rings.\<close>

definition open_region :: "u64 \<Rightarrow> bool \<Rightarrow> SystemAnswers \<Rightarrow> LoomMemRuntime \<Rightarrow> SharedRegion \<Rightarrow> Status \<times> LoomMemRuntime \<times> SharedRegion" where
  "open_region sizeof_AllocatorHeader lock_free os rt R =
     (let c = rt_config rt; queue_bytes = range_bytes (lay_queues (rt_layout rt));
          queue_status = ValidateSharedQueueRegion lock_free (Some (sr_queues R)) queue_bytes (host_count c) (queue_capacity_entries c) in
      if queue_status \<noteq> kOk then (queue_status, abandon os rt, R)
      else (case Initialize sizeof_AllocatorHeader (header (sr_heap R)) (local_allocator_of rt R) of (init_status, A) \<Rightarrow>
              if init_status \<noteq> kOk then (init_status, abandon os rt, R)
              else (case RegisterLocalHost c (sr_bootstrap R) of (registration_status, B) \<Rightarrow>
                      let R1 = R\<lparr>sr_bootstrap := B\<rparr> in
                      if registration_status \<noteq> kOk then (registration_status, abandon os rt, R1)
                      else (case locate_queues (sr_queues R1) queue_bytes (host_count c) of
                              Inl st \<Rightarrow> (st, abandon os rt, R1)
                            | Inr qs \<Rightarrow> (kOk, rt\<lparr>rt_allocator := Some A, rt_queues := qs, rt_token := Some new_service, rt_initialized := True\<rparr>, R1)))))"

definition start_bootstrap :: "u64 \<Rightarrow> SharedRegion list \<Rightarrow> LoomMemRuntime \<Rightarrow> SharedRegion \<Rightarrow> Status \<times> SharedRegionLayout \<times> SharedRegion" where
  "start_bootstrap sizeof_AllocatorHeader polls rt R =
     (if bootstrap_owner (rt_config rt)
      then (case InitializeBootstrap sizeof_AllocatorHeader (rt_config rt) (rt_layout rt) R of (st, R1) \<Rightarrow> (st, rt_layout rt, R1))
      else AttachBootstrap (rt_config rt) (rt_layout rt) polls R)"

definition queue_capacity :: "CxloomConfig \<Rightarrow> u64 Result" where
  "queue_capacity c = (if queue_capacity_entries c = 0
     then AutomaticQueueCapacity (host_count c) (range_bytes (lay_queues (BuildDefaultLayout (shared_region_bytes c)))) else Inr (queue_capacity_entries c))"

definition LoomMemInitialize :: "u64 \<Rightarrow> bool \<Rightarrow> SystemAnswers \<Rightarrow> SharedRegion list \<Rightarrow> LoomMemRuntime \<Rightarrow> SharedRegion \<Rightarrow>
    Status \<times> LoomMemRuntime \<times> SharedRegion" where
  "LoomMemInitialize sizeof_AllocatorHeader lock_free os polls rt R =
     (let c = rt_config rt; lay = BuildDefaultLayout (shared_region_bytes c); rt1 = rt\<lparr>rt_layout := lay\<rparr> in
      if Validate c \<noteq> kOk then (Validate c, rt, R)
      else if range_bytes (lay_shared_data lay) = 0 \<or> range_bytes (lay_bootstrap lay) < sizeof_BootstrapHeader then (kInvalidArgument, rt1, R)
      else (case queue_capacity c of
              Inl st \<Rightarrow> (st, rt1, R)
            | Inr capacity \<Rightarrow>
                let rt2 = rt1\<lparr>rt_config := c\<lparr>queue_capacity_entries := capacity\<rparr>\<rparr> in
                (case Map os (rt_config rt2) (rt_mapper rt2) of (map_status, mapper) \<Rightarrow>
                   let rt3 = rt2\<lparr>rt_mapper := mapper\<rparr> in
                   if map_status \<noteq> kOk then (map_status, rt3, R)
                   else (case start_bootstrap sizeof_AllocatorHeader polls rt3 R of (bootstrap_status, lay1, R1) \<Rightarrow>
                           if bootstrap_status \<noteq> kOk then (bootstrap_status, abandon os rt3, R1)
                           else open_region sizeof_AllocatorHeader lock_free os (rt3\<lparr>rt_layout := lay1, rt_bootstrap := True\<rparr>) R1))))"

section \<open>The owner\<close>

text \<open>Answers of an operating system that maps the device.\<close>

definition maps_device :: "SystemAnswers \<Rightarrow> bool" where
  "maps_device os \<longleftrightarrow> 0 \<le> os_open os \<and> (\<exists>n. os_fstat os = Some (False, n)) \<and> os_mmap os \<noteq> None"

lemma Map_device:
  assumes "maps_device os" and "shared_region_path c \<noteq> []"
  shows "\<exists>m. Map os c new_mapper = (kOk, m) \<and> rm_bytes m = shared_region_bytes c"
  using assms by (auto simp: Map_def maps_device_def new_mapper_def resize_file_def Let_def)

lemma layout_bytes:
  "unat (range_bytes (lay_bootstrap (BuildDefaultLayout t))) = 2 ^ 20" "unat (range_bytes (lay_allocator (BuildDefaultLayout t))) = 2 ^ 20"
  "range_offset (lay_coherence (BuildDefaultLayout t)) = 0x200000" "range_bytes (lay_coherence (BuildDefaultLayout t)) = 0x4000000"
  "range_bytes (lay_queues (BuildDefaultLayout t)) = 0x4000000"
  by (simp_all add: BuildDefaultLayout_def Let_def push_bit_eq_mult)

lemma data_bytes:
  assumes "0x8200000 < t"
  shows "range_bytes (lay_shared_data (BuildDefaultLayout t)) = t - 0x8200000" "unat (t - 0x8200000) = unat t - 0x8200000"
  using assms by (simp_all add: BuildDefaultLayout_def Let_def push_bit_eq_mult unat_sub_no_wrap less_imp_le)

text \<open>The region is large enough for the fixed parts and one object header; the rings fit into their part.\<close>

definition region_fits :: "CxloomConfig \<Rightarrow> bool" where
  "region_fits c \<longleftrightarrow> 0x8200000 + 640 < unat (shared_region_bytes c) \<and>
     (\<exists>capacity required. queue_capacity c = Inr capacity \<and> RequiredBytes (host_count c) capacity = Inr required \<and> required \<le> 0x4000000)"

lemma format_layout:
  assumes "0x8200000 + 640 < unat t" and "sz \<le> 0x40000"
  defines "lay \<equiv> BuildDefaultLayout t"
  shows "\<exists>h. FormatSharedAllocator sz (range_bytes (lay_allocator lay)) (range_offset (lay_shared_data lay)) (range_bytes (lay_shared_data lay))
      (range_offset (lay_coherence lay)) (range_bytes (lay_coherence lay)) = Inr h"
proof -
  have t: "0x8200000 < t" using assms(1) by (simp add: word_less_nat_alt)
  have "\<not> range_bytes (lay_allocator lay) < sz"
    using assms(2) layout_bytes(2) [of t] by (simp add: lay_def word_less_nat_alt word_le_nat_alt)
  moreover have "\<not> t - 0x8200000 \<le> sizeof_AllocationDescriptor"
    using assms(1) data_bytes(2) [OF t] by (simp add: word_le_nat_alt sizeof_AllocationDescriptor_def)
  moreover have "AlignUp (0x200000 + sizeof_CoherenceRegionHeader) alignof_descriptor = 0x200040"
    by (simp add: AlignUp_def sizeof_CoherenceRegionHeader_def alignof_descriptor_def)
  ultimately show ?thesis
    unfolding lay_def by (simp add: FormatSharedAllocator_def data_bytes(1) [OF t] layout_bytes Let_def)
qed

lemma format_initialize:
  assumes "FormatSharedAllocator sz region doff dbytes coff cbytes = Inr h"
    and "expected_data_offset A = doff" and "expected_data_bytes A = dbytes" and "\<not> region_bytes A < doff" and "\<not> region_bytes A - doff < dbytes"
    and "FormatCoherenceRegion coff cbytes = Inr ch" and "coherence_header A = Some ch" and "\<not> region_bytes A < coff" and "\<not> region_bytes A - coff < cbytes"
  shows "Initialize sz h A = (kOk, A\<lparr>initialized := True\<rparr>)"
proof -
  have h: "ah_magic h = kAllocatorMagic" "ah_layout_version h = kAllocatorLayoutVersion" "ah_header_bytes h = ucast sz" "ah_state h = AllocatorReady"
    "ah_shared_data_offset h = doff" "ah_shared_data_bytes h = dbytes" "ah_extent_node_capacity h = kMaxSharedExtentNodes"
    "unat (free_head (extents h) DataPool) < kMaxSharedExtentNodes" "unat (free_head (extents h) CoherencePool) < kMaxSharedExtentNodes"
    using assms(1) by (auto simp: FormatSharedAllocator_def Let_def format_extents_def kMaxSharedExtentNodes_def split: if_splits)
  have c: "cr_magic ch = kCoherenceRegionMagic" "cr_layout_version ch = kCoherenceRegionLayoutVersion"
    "cr_header_bytes ch = ucast sizeof_CoherenceRegionHeader" "cr_region_offset ch = coff" "cr_region_bytes ch = cbytes"
    using assms(6) by (auto simp: FormatCoherenceRegion_def split: if_splits)
  show ?thesis using assms(2-5,7-9) h c by (simp add: Initialize_def not_le)
qed

section \<open>A formatted region\<close>

text \<open>
  What the owner leaves behind for configuration \<open>c\<close> with \<open>capacity\<close> entries per ring.  The host entries and the
  joined-hosts counter of the page are free: other hosts may have joined.
\<close>

definition page_of :: "CxloomConfig \<Rightarrow> BootstrapHeader \<Rightarrow> bool" where
  "page_of c B \<longleftrightarrow> B\<lparr>bh_joined_hosts := 0, bh_hosts := (\<lambda>_. empty_registration)\<rparr> =
     (fresh_bootstrap c (BuildDefaultLayout (shared_region_bytes c)))\<lparr>bh_state := BsReady\<rparr>"

definition ring_at :: "QueueRegion \<Rightarrow> u64 \<Rightarrow> HostId \<Rightarrow> HostId \<Rightarrow> u64 option" where
  "ring_at q bytes p r = (if p = r then None else Some (projr (LocateSharedQueue (Some q) bytes p r)))"

definition rings_ready :: "QueueRegion \<Rightarrow> u64 \<Rightarrow> u16 \<Rightarrow> u64 \<Rightarrow> bool" where
  "rings_ready q bytes hosts capacity \<longleftrightarrow> ValidateSharedQueueRegion True (Some q) bytes hosts capacity = kOk \<and>
     (\<forall>p r. p < hosts \<and> r < hosts \<and> p \<noteq> r \<longrightarrow>
        (\<exists>off s. LocateSharedQueue (Some q) bytes p r = Inr off \<and> reg_queues q off = Some s \<and> queue_wf s \<and> contents s = [] \<and>
           ring_capacity s = unat capacity \<and> qid_producer (sq_identity s) = p \<and> qid_consumer (sq_identity s) = r))"

definition formatted :: "u64 \<Rightarrow> CxloomConfig \<Rightarrow> u64 \<Rightarrow> SharedRegion \<Rightarrow> bool" where
  "formatted sz c capacity R \<longleftrightarrow> page_of c (sr_bootstrap R) \<and>
     (let lay = BuildDefaultLayout (shared_region_bytes c) in
        FormatSharedAllocator sz (range_bytes (lay_allocator lay)) (range_offset (lay_shared_data lay)) (range_bytes (lay_shared_data lay))
          (range_offset (lay_coherence lay)) (range_bytes (lay_coherence lay)) = Inr (header (sr_heap R)) \<and>
        FormatCoherenceRegion (range_offset (lay_coherence lay)) (range_bytes (lay_coherence lay)) = Inr (sr_coherence R) \<and>
        rings_ready (sr_queues R) (range_bytes (lay_queues lay)) (host_count c) capacity)"

lemma InitializeBootstrap_formats:
  assumes "0x8200000 + 640 < unat (shared_region_bytes c)" and "sz \<le> 0x40000"
    and "RequiredBytes (host_count c) capacity = Inr required" and "required \<le> 0x4000000"
  shows "\<exists>R1. InitializeBootstrap sz (c\<lparr>queue_capacity_entries := capacity\<rparr>) (BuildDefaultLayout (shared_region_bytes c)) R = (kOk, R1) \<and>
    formatted sz c capacity R1 \<and> empty_page (sr_bootstrap R1)"
proof -
  let ?lay = "BuildDefaultLayout (shared_region_bytes c)"
  obtain h where h: "FormatSharedAllocator sz (range_bytes (lay_allocator ?lay)) (range_offset (lay_shared_data ?lay))
      (range_bytes (lay_shared_data ?lay)) (range_offset (lay_coherence ?lay)) (range_bytes (lay_coherence ?lay)) = Inr h"
    using format_layout [OF assms(1,2)] by blast
  obtain ch where ch: "FormatCoherenceRegion (range_offset (lay_coherence ?lay)) (range_bytes (lay_coherence ?lay)) = Inr ch"
    by (simp add: FormatCoherenceRegion_def layout_bytes sizeof_CoherenceRegionHeader_def sizeof_CoherenceBlockDescriptor_def word_less_nat_alt)
  have "required \<le> range_bytes (lay_queues ?lay)" using assms(4) by (simp add: layout_bytes)
  from queue_region_ready [OF assms(3) this, of "sr_queues R"] obtain q
    where q: "FormatSharedQueueRegion (Some (sr_queues R)) (range_bytes (lay_queues ?lay)) (host_count c) capacity = Inr q"
      and r: "rings_ready q (range_bytes (lay_queues ?lay)) (host_count c) capacity"
    unfolding rings_ready_def by blast
  define R1 where "R1 = set_bootstrap_state BsReady
      (R\<lparr>sr_bootstrap := fresh_bootstrap c ?lay, sr_heap := (sr_heap R)\<lparr>header := h\<rparr>, sr_coherence := ch, sr_queues := q\<rparr>)"
  have f: "fresh_bootstrap (c\<lparr>queue_capacity_entries := capacity\<rparr>) ?lay = fresh_bootstrap c ?lay" by (simp add: fresh_bootstrap_def)
  have "InitializeBootstrap sz (c\<lparr>queue_capacity_entries := capacity\<rparr>) ?lay R = (kOk, R1)"
    using h ch q by (simp add: InitializeBootstrap_def R1_def f)
  moreover have "formatted sz c capacity R1" using h ch r
    by (simp add: formatted_def R1_def set_bootstrap_state_def page_of_def fresh_bootstrap_def)
  moreover have "empty_page (sr_bootstrap R1)" by (simp add: R1_def set_bootstrap_state_def empty_page_def fresh_bootstrap_def)
  ultimately show ?thesis by blast
qed

lemma locate_row_eq:
  assumes "rings_ready q bytes hosts capacity" and "p < hosts"
  shows "locate_row q bytes hosts p = Inr (map (ring_at q bytes p) (hosts_below hosts))"
proof -
  have "foldE (\<lambda>consumer row. if p = consumer then Inr (row @ [None])
      else (case LocateSharedQueue (Some q) bytes p consumer of Inl st \<Rightarrow> Inl st | Inr off \<Rightarrow> Inr (row @ [Some off]))) xs row =
      Inr (row @ map (ring_at q bytes p) xs)" if "set xs \<subseteq> {r. r < hosts}" for xs row
    using that
  proof (induction xs arbitrary: row)
    case (Cons r xs)
    then have "p \<noteq> r \<Longrightarrow> \<exists>off. LocateSharedQueue (Some q) bytes p r = Inr off"
      using assms unfolding rings_ready_def by (metis (mono_tags, lifting) insert_subset list.simps(15) mem_Collect_eq)
    with Cons show ?case by (auto simp: ring_at_def)
  qed simp
  from this [of "hosts_below hosts" "[]"] show ?thesis by (simp add: locate_row_def subset_iff)
qed

lemma locate_queues_eq:
  assumes "rings_ready q bytes hosts capacity"
  shows "locate_queues q bytes hosts = Inr (map (\<lambda>p. map (ring_at q bytes p) (hosts_below hosts)) (hosts_below hosts))"
proof -
  have "foldE (\<lambda>producer rows. case locate_row q bytes hosts producer of Inl st \<Rightarrow> Inl st | Inr row \<Rightarrow> Inr (rows @ [row])) xs rows =
      Inr (rows @ map (\<lambda>p. map (ring_at q bytes p) (hosts_below hosts)) xs)" if "set xs \<subseteq> {r. r < hosts}" for xs rows
    using that by (induction xs arbitrary: rows) (auto simp: locate_row_eq [OF assms])
  from this [of "hosts_below hosts" "[]"] show ?thesis by (simp add: locate_queues_def subset_iff)
qed

section \<open>Opening a formatted region\<close>

text \<open>The runtime of a host that works in a region: what the others have to agree on.\<close>

definition started :: "CxloomConfig \<Rightarrow> u64 \<Rightarrow> SharedRegion \<Rightarrow> HostId \<Rightarrow> LoomMemRuntime \<Rightarrow> bool" where
  "started c capacity R h rt \<longleftrightarrow>
     rt_initialized rt \<and> rt_bootstrap rt \<and> rt_token rt = Some new_service \<and> rt_layout rt = BuildDefaultLayout (shared_region_bytes c) \<and>
     queue_capacity_entries (rt_config rt) = capacity \<and> local_host_id (rt_config rt) = h \<and>
     rt_queues rt = map (\<lambda>p. map (ring_at (sr_queues R) 0x4000000 p) (hosts_below (host_count c))) (hosts_below (host_count c)) \<and>
     (\<exists>A. rt_allocator rt = Some A \<and> initialized A \<and> local_host A = h \<and> region_bytes A = shared_region_bytes c \<and>
        expected_data_offset A = 0x8200000 \<and> expected_data_bytes A = shared_region_bytes c - 0x8200000 \<and> coherence_header A = Some (sr_coherence R))"

lemma open_formatted:
  assumes f: "formatted sz c capacity R" and big: "0x8200000 + 640 < unat (shared_region_bytes c)"
    and rt: "rt_layout rt = BuildDefaultLayout (shared_region_bytes c)" "rm_bytes (rt_mapper rt) = shared_region_bytes c"
      "host_count (rt_config rt) = host_count c" "queue_capacity_entries (rt_config rt) = capacity" "rt_bootstrap rt"
    and e: "hr_state (bh_hosts (sr_bootstrap R) (local_host_id (rt_config rt))) = HostEmpty"
  shows "\<exists>rt1. open_region sz True os rt R = (kOk, rt1, R\<lparr>sr_bootstrap := snd (RegisterLocalHost (rt_config rt) (sr_bootstrap R))\<rparr>) \<and>
    started c capacity R (local_host_id (rt_config rt)) rt1"
proof -
  let ?t = "shared_region_bytes c" and ?A = "local_allocator_of rt R"
  let ?lay = "BuildDefaultLayout ?t"
  have t: "0x8200000 < ?t" using big by (simp add: word_less_nat_alt)
  have parts: "FormatSharedAllocator sz (range_bytes (lay_allocator ?lay)) (range_offset (lay_shared_data ?lay)) (range_bytes (lay_shared_data ?lay))
        (range_offset (lay_coherence ?lay)) (range_bytes (lay_coherence ?lay)) = Inr (header (sr_heap R))"
    "FormatCoherenceRegion (range_offset (lay_coherence ?lay)) (range_bytes (lay_coherence ?lay)) = Inr (sr_coherence R)"
    and r: "rings_ready (sr_queues R) 0x4000000 (host_count c) capacity"
    using f by (simp_all add: formatted_def Let_def layout_bytes)
  have v: "ValidateSharedQueueRegion True (Some (sr_queues R)) 0x4000000 (host_count c) capacity = kOk" using r by (simp add: rings_ready_def)
  have A: "expected_data_offset ?A = range_offset (lay_shared_data ?lay)" "expected_data_bytes ?A = range_bytes (lay_shared_data ?lay)"
    "region_bytes ?A = ?t" "coherence_header ?A = Some (sr_coherence R)" "local_host ?A = local_host_id (rt_config rt)"
    using rt by (simp_all add: local_allocator_of_def)
  have "\<not> ?t < range_offset (lay_shared_data ?lay)" "\<not> ?t - range_offset (lay_shared_data ?lay) < range_bytes (lay_shared_data ?lay)"
    "\<not> ?t < range_offset (lay_coherence ?lay)"
    using t by (simp_all add: shared_data_offset_value data_bytes(1) [OF t] layout_bytes word_less_nat_alt)
  moreover have "unat (?t - 0x200000) = unat ?t - 0x200000" using t by (subst unat_sub_no_wrap) (simp_all add: word_less_nat_alt word_le_nat_alt)
  then have "\<not> ?t - range_offset (lay_coherence ?lay) < range_bytes (lay_coherence ?lay)"
    using big by (simp add: layout_bytes word_less_nat_alt)
  ultimately have i: "Initialize sz (header (sr_heap R)) ?A = (kOk, ?A\<lparr>initialized := True\<rparr>)"
    using format_initialize [OF parts(1) A(1,2) _ _ parts(2) A(4)] A(3) by simp
  obtain B where g: "RegisterLocalHost (rt_config rt) (sr_bootstrap R) = (kOk, B)" using e by (simp add: RegisterLocalHost_def)
  let ?rt1 = "rt\<lparr>rt_allocator := Some (?A\<lparr>initialized := True\<rparr>),
      rt_queues := map (\<lambda>p. map (ring_at (sr_queues R) 0x4000000 p) (hosts_below (host_count c))) (hosts_below (host_count c)),
      rt_token := Some new_service, rt_initialized := True\<rparr>"
  have "open_region sz True os rt R = (kOk, ?rt1, R\<lparr>sr_bootstrap := B\<rparr>)"
    using v i g locate_queues_eq [OF r] rt by (simp add: open_region_def Let_def layout_bytes)
  moreover have "started c capacity R (local_host_id (rt_config rt)) ?rt1"
    using rt A by (simp add: started_def shared_data_offset_value data_bytes(1) [OF t])
  ultimately show ?thesis using g by auto
qed

lemma AttachBootstrap_ready:
  assumes "\<forall>X \<in> set earlier. bh_state (sr_bootstrap X) \<in> {BsUninitialized, BsInitializing}" and "page_of c (sr_bootstrap R)"
    and "host_count c' = host_count c" and "shared_region_bytes c' = shared_region_bytes c"
  shows "AttachBootstrap c' (BuildDefaultLayout (shared_region_bytes c)) (earlier @ [R]) X = (kOk, BuildDefaultLayout (shared_region_bytes c), R)"
proof -
  let ?B = "sr_bootstrap R"
  have B: "bh_state ?B = BsReady" "bh_layout ?B = BuildDefaultLayout (shared_region_bytes c)" "bh_magic ?B = kBootstrapMagic"
    "bh_layout_version ?B = kBootstrapLayoutVersion" "bh_header_bytes ?B = ucast sizeof_BootstrapHeader"
    "bh_region_bytes ?B = shared_region_bytes c" "bh_host_count ?B = host_count c"
    using assms(2) by (cases ?B; simp add: page_of_def fresh_bootstrap_def)+
  have "ValidateBootstrap c' (BuildDefaultLayout (shared_region_bytes c)) ?B = kOk"
    using B assms(3,4) by (simp add: ValidateBootstrap_def SameLayout_iff sizeof_BootstrapHeader_def sizeof_HostRegistration_def)
  with B(1,2) have last: "AttachBootstrap c' (BuildDefaultLayout (shared_region_bytes c)) [R] X = (kOk, BuildDefaultLayout (shared_region_bytes c), R)" for X
    by simp
  from assms(1) show ?thesis
  proof (induction earlier arbitrary: X)
    case Nil
    show ?case using last by (simp only: append.left_neutral)
  next
    case (Cons Y earlier)
    then show ?case by (auto simp: Let_def)
  qed
qed

text \<open>The steps of a start up to the bootstrap, for a valid configuration.\<close>

lemma LoomMemInitialize_eq:
  assumes "Validate c = kOk" and "region_fits c" and "queue_capacity c = Inr capacity" and "maps_device os"
  shows "\<exists>m. rm_bytes m = shared_region_bytes c \<and> LoomMemInitialize sz lock_free os polls (new_runtime c) R =
    (case start_bootstrap sz polls ((new_runtime (c\<lparr>queue_capacity_entries := capacity\<rparr>))
         \<lparr>rt_layout := BuildDefaultLayout (shared_region_bytes c), rt_mapper := m\<rparr>) R of
       (st, lay1, R1) \<Rightarrow>
         if st \<noteq> kOk then (st, abandon os ((new_runtime (c\<lparr>queue_capacity_entries := capacity\<rparr>))
           \<lparr>rt_layout := BuildDefaultLayout (shared_region_bytes c), rt_mapper := m\<rparr>), R1)
         else open_region sz lock_free os ((new_runtime (c\<lparr>queue_capacity_entries := capacity\<rparr>))\<lparr>rt_mapper := m, rt_layout := lay1, rt_bootstrap := True\<rparr>) R1)"
proof -
  let ?t = "shared_region_bytes c"
  have t: "0x8200000 < ?t" "0x8200000 + 640 < unat ?t" using assms(2) by (simp_all add: region_fits_def word_less_nat_alt)
  have "shared_region_path c \<noteq> []" using assms(1) by (auto simp: Validate_def split: if_splits)
  then obtain m where m: "Map os (c\<lparr>queue_capacity_entries := capacity\<rparr>) new_mapper = (kOk, m)" "rm_bytes m = ?t"
    using Map_device [OF assms(4), of "c\<lparr>queue_capacity_entries := capacity\<rparr>"] by auto
  have "unat (?t - 0x8200000) \<noteq> 0" using t data_bytes(2) [OF t(1)] by simp
  then have "range_bytes (lay_shared_data (BuildDefaultLayout ?t)) \<noteq> 0" using data_bytes(1) [OF t(1)] by auto
  moreover have "\<not> range_bytes (lay_bootstrap (BuildDefaultLayout ?t)) < sizeof_BootstrapHeader"
    using layout_bytes(1) [of ?t] by (simp add: word_less_nat_alt sizeof_BootstrapHeader_def sizeof_HostRegistration_def)
  ultimately show ?thesis using assms(1,3) m
    by (intro exI [of _ m]) (simp add: LoomMemInitialize_def new_runtime_def Let_def split_def)
qed

lemma open_region_config: "open_region sz lock_free os rt R = (st, rt', R') \<Longrightarrow> rt_config rt' = rt_config rt"
  by (auto simp: open_region_def abandon_def Let_def split: prod.splits if_splits sum.splits)

text \<open>The start of the owner, and of a host that finds the region formatted.\<close>

lemma owner_starts:
  assumes "Validate c = kOk" and "bootstrap_owner c" and "region_fits c" and "sz \<le> 0x40000" and "maps_device os"
  shows "\<exists>rt1 R1 capacity. LoomMemInitialize sz True os polls (new_runtime c) R0 = (kOk, rt1, R1) \<and> queue_capacity c = Inr capacity \<and>
    formatted sz c capacity R1 \<and> started c capacity R1 (local_host_id c) rt1 \<and> rt_config rt1 = c\<lparr>queue_capacity_entries := capacity\<rparr> \<and>
    joined_host_count (Some (sr_bootstrap R1)) = 1 \<and> (\<forall>h. h \<noteq> local_host_id c \<longrightarrow> hr_state (bh_hosts (sr_bootstrap R1) h) = HostEmpty)"
proof -
  obtain capacity required where cap: "queue_capacity c = Inr capacity" "RequiredBytes (host_count c) capacity = Inr required" "required \<le> 0x4000000"
    and big: "0x8200000 + 640 < unat (shared_region_bytes c)"
    using assms(3) unfolding region_fits_def by blast
  let ?lay = "BuildDefaultLayout (shared_region_bytes c)" and ?c = "c\<lparr>queue_capacity_entries := capacity\<rparr>"
  obtain R where R: "InitializeBootstrap sz ?c ?lay R0 = (kOk, R)" "formatted sz c capacity R" "empty_page (sr_bootstrap R)"
    using InitializeBootstrap_formats [OF big assms(4) cap(2,3)] by blast
  obtain m where m: "rm_bytes m = shared_region_bytes c" and init: "LoomMemInitialize sz True os polls (new_runtime c) R0 =
      open_region sz True os ((new_runtime ?c)\<lparr>rt_mapper := m, rt_layout := ?lay, rt_bootstrap := True\<rparr>) R"
    using LoomMemInitialize_eq [OF assms(1,3) cap(1) assms(5), of sz True polls R0] assms(2) R(1)
    by (auto simp: start_bootstrap_def new_runtime_def)
  have h: "hr_state (bh_hosts (sr_bootstrap R) (local_host_id c)) = HostEmpty" using R(3) by (simp add: empty_page_def empty_registration_def)
  let ?rt = "(new_runtime ?c)\<lparr>rt_mapper := m, rt_layout := ?lay, rt_bootstrap := True\<rparr>"
  obtain rt1 where rt1: "open_region sz True os ?rt R = (kOk, rt1, R\<lparr>sr_bootstrap := snd (RegisterLocalHost (rt_config ?rt) (sr_bootstrap R))\<rparr>)"
    "started c capacity R (local_host_id (rt_config ?rt)) rt1"
    using open_formatted [OF R(2) big, of ?rt os] m h by (auto simp: new_runtime_def)
  define R1 where "R1 = R\<lparr>sr_bootstrap := snd (RegisterLocalHost (rt_config ?rt) (sr_bootstrap R))\<rparr>"
  have "started c capacity R1 (local_host_id c) rt1" using rt1(2) by (simp add: new_runtime_def started_def R1_def)
  moreover have "formatted sz c capacity R1"
    using R(2) by (simp add: formatted_def R1_def page_of_def RegisterLocalHost_def new_runtime_def Let_def)
  moreover have "joined_host_count (Some (sr_bootstrap R1)) = 1" "\<forall>h. h \<noteq> local_host_id c \<longrightarrow> hr_state (bh_hosts (sr_bootstrap R1) h) = HostEmpty"
    using h R(3) by (simp_all add: R1_def RegisterLocalHost_def new_runtime_def joined_host_count_def empty_page_def empty_registration_def)
  ultimately show ?thesis using init rt1(1) cap(1) open_region_config [OF rt1(1)]
    by (intro exI [of _ rt1] exI [of _ R1] exI [of _ capacity]) (simp add: R1_def new_runtime_def)
qed

lemma peer_attaches:
  assumes f: "formatted sz c capacity R" and big: "region_fits c" and cap: "queue_capacity c = Inr capacity"
    and c': "Validate c' = kOk" "\<not> bootstrap_owner c'" "host_count c' = host_count c" "shared_region_bytes c' = shared_region_bytes c"
      "queue_capacity_entries c' = queue_capacity_entries c" "maps_device os" "hr_state (bh_hosts (sr_bootstrap R) (local_host_id c')) = HostEmpty"
      "\<forall>Y \<in> set earlier. bh_state (sr_bootstrap Y) \<in> {BsUninitialized, BsInitializing}"
  shows "\<exists>rt. LoomMemInitialize sz True os (earlier @ [R]) (new_runtime c') X =
      (kOk, rt, R\<lparr>sr_bootstrap := snd (RegisterLocalHost c' (sr_bootstrap R))\<rparr>) \<and> started c capacity R (local_host_id c') rt"
proof -
  let ?lay = "BuildDefaultLayout (shared_region_bytes c)" and ?c = "c'\<lparr>queue_capacity_entries := capacity\<rparr>"
  have size: "0x8200000 + 640 < unat (shared_region_bytes c)" using big by (simp add: region_fits_def)
  have "queue_capacity c' = queue_capacity c" using c'(3-5) by (simp add: queue_capacity_def)
  then have cap': "queue_capacity c' = Inr capacity" "region_fits c'" using cap big c'(3,4) by (simp_all add: region_fits_def)
  have a: "AttachBootstrap ?c ?lay (earlier @ [R]) X = (kOk, ?lay, R)"
    using AttachBootstrap_ready [OF c'(8), of c R ?c] f c'(3,4) by (simp add: formatted_def)
  obtain m where m: "rm_bytes m = shared_region_bytes c'" and i: "LoomMemInitialize sz True os (earlier @ [R]) (new_runtime c') X =
      open_region sz True os ((new_runtime ?c)\<lparr>rt_mapper := m, rt_layout := ?lay, rt_bootstrap := True\<rparr>) R"
    using LoomMemInitialize_eq [OF c'(1) cap'(2,1) c'(6), of sz True "earlier @ [R]" X] c'(2,4) a
    by (auto simp: start_bootstrap_def new_runtime_def)
  let ?rt = "(new_runtime ?c)\<lparr>rt_mapper := m, rt_layout := ?lay, rt_bootstrap := True\<rparr>"
  have "RegisterLocalHost (rt_config ?rt) = RegisterLocalHost c'" by (simp add: RegisterLocalHost_def fun_eq_iff new_runtime_def)
  moreover obtain rt where "open_region sz True os ?rt R = (kOk, rt, R\<lparr>sr_bootstrap := snd (RegisterLocalHost (rt_config ?rt) (sr_bootstrap R))\<rparr>)"
    "started c capacity R (local_host_id (rt_config ?rt)) rt"
    using open_formatted [OF f size, of ?rt os] m c'(3,4,7) by (auto simp: new_runtime_def)
  ultimately show ?thesis using i by (auto simp: new_runtime_def)
qed

section \<open>Properties\<close>

text \<open>
  C38.  All hosts come up in the same region.  For a valid configuration whose region and rings fit, on a system that
  maps the device, the owner's start succeeds, registers the owner on a fresh page and leaves an empty, well-formed ring
  between every two hosts.  Every other host whose configuration agrees on the number of hosts, the region size and the
  ring capacity then attaches, however long it had to poll and whoever joined before it under another number: it
  works with the same layout, the same rings at the same places and the same allocator geometry, and all it changes
  in the region is its own registration.
\<close>

theorem hosts_start_together:
  assumes "Validate c = kOk" and "bootstrap_owner c" and "region_fits c" and "sz \<le> 0x40000" and "maps_device os"
  shows "\<exists>rt1 R1 capacity. LoomMemInitialize sz True os polls (new_runtime c) R0 = (kOk, rt1, R1) \<and>
    started c capacity R1 (local_host_id c) rt1 \<and> rings_ready (sr_queues R1) 0x4000000 (host_count c) capacity \<and>
    joined_host_count (Some (sr_bootstrap R1)) = 1 \<and> (\<forall>h. h \<noteq> local_host_id c \<longrightarrow> hr_state (bh_hosts (sr_bootstrap R1) h) = HostEmpty) \<and>
    (\<forall>c' os' hs n earlier X.
       Validate c' = kOk \<and> \<not> bootstrap_owner c' \<and> host_count c' = host_count c \<and> shared_region_bytes c' = shared_region_bytes c \<and>
       queue_capacity_entries c' = queue_capacity_entries c \<and> maps_device os' \<and> hr_state (hs (local_host_id c')) = HostEmpty \<and>
       (\<forall>Y \<in> set earlier. bh_state (sr_bootstrap Y) \<in> {BsUninitialized, BsInitializing}) \<longrightarrow>
       (let R = R1\<lparr>sr_bootstrap := (sr_bootstrap R1)\<lparr>bh_hosts := hs, bh_joined_hosts := n\<rparr>\<rparr> in
        \<exists>rt2. LoomMemInitialize sz True os' (earlier @ [R]) (new_runtime c') X =
                (kOk, rt2, R\<lparr>sr_bootstrap := snd (RegisterLocalHost c' (sr_bootstrap R))\<rparr>) \<and>
              started c capacity R1 (local_host_id c') rt2))"
proof -
  obtain rt1 R1 capacity where o1: "LoomMemInitialize sz True os polls (new_runtime c) R0 = (kOk, rt1, R1)" "queue_capacity c = Inr capacity"
    "formatted sz c capacity R1" "started c capacity R1 (local_host_id c) rt1" "joined_host_count (Some (sr_bootstrap R1)) = 1"
    "\<forall>h. h \<noteq> local_host_id c \<longrightarrow> hr_state (bh_hosts (sr_bootstrap R1) h) = HostEmpty"
    using owner_starts [OF assms, of polls R0] by blast
  have ready: "rings_ready (sr_queues R1) 0x4000000 (host_count c) capacity" using o1(3) by (simp add: formatted_def Let_def layout_bytes)
  have attach: "\<exists>rt2. LoomMemInitialize sz True os' (earlier @ [R2]) (new_runtime c') X =
        (kOk, rt2, R2\<lparr>sr_bootstrap := snd (RegisterLocalHost c' (sr_bootstrap R2))\<rparr>) \<and> started c capacity R1 (local_host_id c') rt2"
    if c': "Validate c' = kOk" "\<not> bootstrap_owner c'" "host_count c' = host_count c" "shared_region_bytes c' = shared_region_bytes c"
      "queue_capacity_entries c' = queue_capacity_entries c" "maps_device os'" "hr_state (hs (local_host_id c')) = HostEmpty"
      "\<forall>Y \<in> set earlier. bh_state (sr_bootstrap Y) \<in> {BsUninitialized, BsInitializing}"
      and R2: "R2 = R1\<lparr>sr_bootstrap := (sr_bootstrap R1)\<lparr>bh_hosts := hs, bh_joined_hosts := n\<rparr>\<rparr>" for c' os' hs n earlier X R2
  proof -
    have f2: "formatted sz c capacity R2" using o1(3) by (simp add: formatted_def R2 page_of_def Let_def)
    have "started c capacity R2 = started c capacity R1" by (simp add: started_def R2 fun_eq_iff)
    then show ?thesis using peer_attaches [OF f2 assms(3) o1(2) c'(1-6) _ c'(8), of X] c'(7) by (simp add: R2)
  qed
  show ?thesis unfolding Let_def using o1(1,4-6) ready attach by blast
qed

lemma abandon_clean:
  assumes "mapper_ok os (rt_mapper rt)"
  shows "rm_base (rt_mapper (abandon os rt)) = None" "rm_fd (rt_mapper (abandon os rt)) < 0" "rt_allocator (abandon os rt) = None"
    "rt_initialized (abandon os rt) = rt_initialized rt" "rt_token (abandon os rt) = rt_token rt" "rt_bootstrap (abandon os rt) = False"
  using Unmap_closed [OF assms, of "fst (Unmap os (rt_mapper rt))" "snd (Unmap os (rt_mapper rt))"]
  by (auto simp: abandon_def not_le split: if_splits)

lemma open_region_fails:
  assumes "open_region sz lock_free os rt R = (st, rt', R')" and "st \<noteq> kOk"
  shows "rt' = abandon os rt"
  using assms by (auto simp: open_region_def Let_def split: prod.splits if_splits sum.splits)

text \<open>Nothing of a start is left: no mapping, no descriptor, no allocator, no token service.\<close>

definition is_down :: "LoomMemRuntime \<Rightarrow> bool" where
  "is_down rt \<longleftrightarrow> \<not> rt_initialized rt \<and> \<not> rt_bootstrap rt \<and> rt_allocator rt = None \<and> rt_token rt = None \<and>
     rm_base (rt_mapper rt) = None \<and> rm_fd (rt_mapper rt) < 0"


section \<open>A cluster of two\<close>

definition device :: SystemAnswers where
  "device = \<lparr>os_open = 3, os_fstat = Some (False, 0), os_ftruncate = False, os_mmap = Some 0x7000, os_munmap = True, os_close = True\<rparr>"

definition blank_region :: SharedRegion where
  "blank_region = \<lparr>sr_bootstrap = sample_page\<lparr>bh_state := BsUninitialized\<rparr>,
     sr_heap = fresh_memory \<lparr>ah_magic = 0, ah_layout_version = 0, ah_header_bytes = 0, ah_state = AllocatorUninitialized, ah_shared_data_offset = 0,
       ah_shared_data_bytes = 0, ah_extent_node_capacity = 0, extents = format_extents 0 0 0 0, retirement = idle_control, allocations = []\<rparr>,
     sr_coherence = \<lparr>cr_magic = 0, cr_layout_version = 0, cr_header_bytes = 0, cr_region_offset = 0, cr_region_bytes = 0\<rparr>,
     sr_queues = \<lparr>reg_header = format_header 1 1 1, reg_queues = Map.empty\<rparr>\<rparr>"

lemma two_hosts_valid: "Validate two_hosts = kOk" "Validate (two_hosts\<lparr>local_host_id := 1, bootstrap_owner := False\<rparr>) = kOk"
  by (simp_all add: Validate_def two_hosts_def kMaxHosts_def kMemoryAware_def word_le_nat_alt)

lemma two_hosts_fit: "region_fits two_hosts"
proof -
  have "queue_capacity two_hosts = Inr 16" by (simp add: queue_capacity_def two_hosts_def)
  moreover have "RequiredBytes 2 16 = Inr 6592"
    by (simp add: RequiredBytes_def Let_def kMaxHosts_def queue_stride_def QueueCount_def
        sizeof_SharedSpscQueueHeader_def sizeof_SharedSpscQueueSlot_def sizeof_QueueRegionHeader_def)
  ultimately show ?thesis by (simp add: region_fits_def two_hosts_def word_le_nat_alt)
qed

lemma device_maps: "maps_device device"
  by (simp add: maps_device_def device_def)

theorem hosts_start_together_witness:
  "\<exists>rt1 R1 rt2 R2. LoomMemInitialize 0x3E000 True device [] (new_runtime two_hosts) blank_region = (kOk, rt1, R1) \<and>
     LoomMemInitialize 0x3E000 True device [blank_region, R1] (new_runtime (two_hosts\<lparr>local_host_id := 1, bootstrap_owner := False\<rparr>)) blank_region = (kOk, rt2, R2) \<and>
     rt_queues rt1 = rt_queues rt2"
proof -
  let ?c' = "two_hosts\<lparr>local_host_id := 1, bootstrap_owner := False\<rparr>"
  have sz: "(0x3E000 :: u64) \<le> 0x40000" by (simp add: word_le_nat_alt)
  have o: "bootstrap_owner two_hosts" by (simp add: two_hosts_def)
  from hosts_start_together [OF two_hosts_valid(1) o two_hosts_fit sz device_maps, of "[]" blank_region] obtain rt1 R1 capacity
    where i: "LoomMemInitialize 0x3E000 True device [] (new_runtime two_hosts) blank_region = (kOk, rt1, R1)"
      and s1: "started two_hosts capacity R1 (local_host_id two_hosts) rt1"
      and e: "\<forall>h. h \<noteq> local_host_id two_hosts \<longrightarrow> hr_state (bh_hosts (sr_bootstrap R1) h) = HostEmpty"
      and a: "\<forall>c' os' hs n earlier X. Validate c' = kOk \<and> \<not> bootstrap_owner c' \<and> host_count c' = host_count two_hosts \<and>
        shared_region_bytes c' = shared_region_bytes two_hosts \<and> queue_capacity_entries c' = queue_capacity_entries two_hosts \<and> maps_device os' \<and>
        hr_state (hs (local_host_id c')) = HostEmpty \<and> (\<forall>Y \<in> set earlier. bh_state (sr_bootstrap Y) \<in> {BsUninitialized, BsInitializing}) \<longrightarrow>
        (\<exists>rt2. LoomMemInitialize 0x3E000 True os' (earlier @ [R1\<lparr>sr_bootstrap := (sr_bootstrap R1)\<lparr>bh_hosts := hs, bh_joined_hosts := n\<rparr>\<rparr>]) (new_runtime c') X =
          (kOk, rt2, R1\<lparr>sr_bootstrap := (sr_bootstrap R1)\<lparr>bh_hosts := hs, bh_joined_hosts := n\<rparr>\<rparr>\<lparr>sr_bootstrap :=
             snd (RegisterLocalHost c' (sr_bootstrap (R1\<lparr>sr_bootstrap := (sr_bootstrap R1)\<lparr>bh_hosts := hs, bh_joined_hosts := n\<rparr>\<rparr>)))\<rparr>) \<and>
          started two_hosts capacity R1 (local_host_id c') rt2)"
    unfolding Let_def by (elim exE conjE) (erule (3) that)
  obtain rt2 R2 where "LoomMemInitialize 0x3E000 True device ([blank_region] @ [R1\<lparr>sr_bootstrap := (sr_bootstrap R1)
        \<lparr>bh_hosts := bh_hosts (sr_bootstrap R1), bh_joined_hosts := bh_joined_hosts (sr_bootstrap R1)\<rparr>\<rparr>]) (new_runtime ?c') blank_region = (kOk, rt2, R2)"
    "started two_hosts capacity R1 1 rt2"
    using a [rule_format, of ?c' device "bh_hosts (sr_bootstrap R1)" "[blank_region]" "bh_joined_hosts (sr_bootstrap R1)" blank_region] two_hosts_valid(2) device_maps e
    by (auto simp: two_hosts_def blank_region_def)
  with i s1 show ?thesis by (auto simp: started_def)
qed


end
