(* ===== verification/Cx_Views.thy ===== *)
theory Cx_Views
  imports Cx_Lifecycle Cx_Startup
begin

text \<open>
  The C++ interface (\<^verbatim>\<open>include/cxloom/loommem.h\<close>, \<^verbatim>\<open>src/api/loommem.cpp\<close>): a context that owns a memory runtime, and
  write views, each of which owns a write buffer and keeps the context alive while it is active.

  A client program is a context and its named variables of type \<^verbatim>\<open>WriteView\<close>; a variable that is not listed holds no
  implementation.  The implementation of the context lives as long as somebody refers to it; \<open>api_alive\<close> says that it
  does, and the state of the runtime at its end is kept.  As in \<open>Cx_Lifecycle\<close>, what other threads and hosts do while a
  call waits is an argument, and so are the answers of the operating system.
\<close>

section \<open>State\<close>

datatype ViewState = VActive | VCommitted | VAborted | VStaged

record ViewImpl =
  vi_context :: bool
  vi_buffer :: WriteBuffer
  vi_state :: ViewState

record 'h ContextImpl =
  ci_runtime :: "'h Runtime"
  ci_active :: bool

record 'h Api =
  api_owned :: bool
  api_alive :: bool
  api_impl :: "'h ContextImpl"
  api_views :: "(nat \<times> ViewImpl) list"

abbreviation runtime_of :: "'h Api \<Rightarrow> 'h Runtime" where
  "runtime_of a \<equiv> ci_runtime (api_impl a)"

definition set_runtime :: "'h Runtime \<Rightarrow> 'h Api \<Rightarrow> 'h Api" where
  "set_runtime rt a = a\<lparr>api_impl := (api_impl a)\<lparr>ci_runtime := rt\<rparr>\<rparr>"

definition set_write :: "WriteState \<Rightarrow> 'h Api \<Rightarrow> 'h Api" where
  "set_write W a = set_runtime ((runtime_of a)\<lparr>rn_write := W\<rparr>) a"

definition set_view :: "nat \<Rightarrow> ViewImpl \<Rightarrow> 'h Api \<Rightarrow> 'h Api" where
  "set_view v vi a = a\<lparr>api_views := AList.update v vi (api_views a)\<rparr>"

text \<open>The owners of the implementation: the context, and the views that hold it.\<close>

definition use_count :: "'h Api \<Rightarrow> nat" where
  "use_count a = of_bool (api_owned a) + length (filter (\<lambda>p. vi_context (snd p)) (api_views a))"

text \<open>The destructor of \<^verbatim>\<open>Context::Impl\<close>, run when its last owner goes.\<close>

definition collect :: "SystemAnswers \<Rightarrow> 'h Api \<Rightarrow> 'h Api option" where
  "collect os a =
     (if \<not> api_alive a \<or> use_count a \<noteq> 0 then Some a
      else if \<not> ci_active (api_impl a) then Some (a\<lparr>api_alive := False\<rparr>)
      else (case LoomMemFinalize os False (snd (StopQueuePoller False (runtime_of a))) of
              None \<Rightarrow> None
            | Some (_, rt) \<Rightarrow> Some (set_runtime rt (a\<lparr>api_alive := False\<rparr>))))"

section \<open>Views\<close>

definition active_view :: "nat \<Rightarrow> 'h Api \<Rightarrow> ViewImpl option" where
  "active_view v a = (case map_of (api_views a) v of
     None \<Rightarrow> None | Some vi \<Rightarrow> if vi_state vi \<noteq> VActive then None else Some vi)"

definition view_data :: "nat \<Rightarrow> 'h Api \<Rightarrow> u8 list option" where
  "view_data v a = (case active_view v a of None \<Rightarrow> None | Some vi \<Rightarrow> wb_storage (vi_buffer vi))"

definition view_size :: "nat \<Rightarrow> 'h Api \<Rightarrow> nat" where
  "view_size v a = (case active_view v a of None \<Rightarrow> 0
     | Some vi \<Rightarrow> (case wb_storage (vi_buffer vi) of None \<Rightarrow> 0 | Some bs \<Rightarrow> length bs))"

text \<open>A view that a call has ended: it lets go of the context.\<close>

definition end_view :: "SystemAnswers \<Rightarrow> nat \<Rightarrow> ViewState \<Rightarrow> Status \<Rightarrow> ViewImpl \<Rightarrow> WriteBuffer \<Rightarrow> WriteState \<Rightarrow> 'h Api \<Rightarrow> (Status \<times> 'h Api) option" where
  "end_view os v s st vi wb W a =
     (if st \<noteq> kOk then Some (st, set_view v (vi\<lparr>vi_buffer := wb\<rparr>) (set_write W a))
      else map_option (Pair st) (collect os (set_view v \<lparr>vi_context = False, vi_buffer = wb, vi_state = s\<rparr> (set_write W a))))"

definition view_Commit :: "SystemAnswers \<Rightarrow> (Pause \<Rightarrow> WriteState \<Rightarrow> WriteState) \<Rightarrow> nat \<Rightarrow> 'h Api \<Rightarrow> (Status \<times> 'h Api) option" where
  "view_Commit os others v a =
     (case active_view v a of
        None \<Rightarrow> Some (kFailedPrecondition, a)
      | Some vi \<Rightarrow>
          (case ReleaseWriteBuffer (env_of (runtime_of a)) others (vi_buffer vi) (rn_write (runtime_of a)) of
             None \<Rightarrow> None
           | Some (st, wb, W) \<Rightarrow> end_view os v VCommitted st vi wb W a))"

definition view_Abort :: "SystemAnswers \<Rightarrow> nat \<Rightarrow> 'h Api \<Rightarrow> (Status \<times> 'h Api) option" where
  "view_Abort os v a =
     (case active_view v a of
        None \<Rightarrow> Some (kFailedPrecondition, a)
      | Some vi \<Rightarrow>
          (case AbortWriteBuffer (env_of (runtime_of a)) (vi_buffer vi) (rn_write (runtime_of a)) of
             (st, wb, W) \<Rightarrow> end_view os v VAborted st vi wb W a))"

text \<open>The view is the only owner of its buffer.\<close>

definition view_Stage :: "SystemAnswers \<Rightarrow> u64 \<Rightarrow> nat \<Rightarrow> 'h Api \<Rightarrow> (Status \<times> 'h Api) option" where
  "view_Stage os context_id v a =
     (case active_view v a of
        None \<Rightarrow> Some (kFailedPrecondition, a)
      | Some vi \<Rightarrow>
          (case StageWriteBuffer (env_of (runtime_of a)) context_id True (vi_buffer vi) (rn_write (runtime_of a)) of
             (st, wb, W) \<Rightarrow> end_view os v VStaged st vi wb W a))"

text \<open>
  The destructor of \<^verbatim>\<open>WriteView::Impl\<close>: an active view aborts; then its members go, first the buffer with a pin that is
  still there, then the reference to the context.
\<close>

definition abandon_buffer :: "ViewImpl \<Rightarrow> 'h Api \<Rightarrow> 'h Api" where
  "abandon_buffer vi a =
     (let e = env_of (runtime_of a); W = rn_write (runtime_of a) in
      case if vi_state vi = VActive \<and> vi_context vi then snd (AbortWriteBuffer e (vi_buffer vi) W) else (vi_buffer vi, W) of
        (wb, W1) \<Rightarrow> set_write (drop_guard e (wb_guard wb) W1) a)"

definition destroy_view :: "SystemAnswers \<Rightarrow> nat \<Rightarrow> 'h Api \<Rightarrow> 'h Api option" where
  "destroy_view os v a =
     (case map_of (api_views a) v of
        None \<Rightarrow> Some a
      | Some vi \<Rightarrow> collect os ((abandon_buffer vi a)\<lparr>api_views := AList.delete v (api_views a)\<rparr>))"

text \<open>\<^verbatim>\<open>x = std::move(y)\<close>: the implementation of \<open>x\<close> is replaced, and destroyed, by that of \<open>y\<close>.\<close>

definition move_view :: "SystemAnswers \<Rightarrow> nat \<Rightarrow> nat \<Rightarrow> 'h Api \<Rightarrow> 'h Api option" where
  "move_view os x y a =
     (if x = y then Some a
      else (case map_of (api_views a) y of
              None \<Rightarrow> destroy_view os x a
            | Some vi \<Rightarrow>
                let a1 = a\<lparr>api_views := AList.update x vi (AList.delete y (api_views a))\<rparr> in
                (case map_of (api_views a) x of
                   None \<Rightarrow> Some a1
                 | Some old \<Rightarrow> collect os (abandon_buffer old a1))))"

text \<open>The client writes through the pointer of a view.\<close>

definition view_store :: "nat \<Rightarrow> u8 list \<Rightarrow> 'h Api \<Rightarrow> 'h Api" where
  "view_store v bs a =
     (case active_view v a of
        None \<Rightarrow> a
      | Some vi \<Rightarrow>
          if length bs = view_size v a \<and> wb_storage (vi_buffer vi) \<noteq> None
          then set_view v (vi\<lparr>vi_buffer := (vi_buffer vi)\<lparr>wb_storage := Some bs\<rparr>\<rparr>) a else a)"

section \<open>Contexts\<close>

text \<open>
  The runtime that \<^verbatim>\<open>Initialize\<close> has brought up, in the form the other operations use: a new token service over the
  region's allocator, an empty cache, and the rings of the region, to and from this host.
\<close>

definition ring_of :: "LoomMemRuntime \<Rightarrow> SharedRegion \<Rightarrow> HostId \<Rightarrow> HostId \<Rightarrow> SharedSpscQueue option" where
  "ring_of R S producer consumer = (case rt_queues R ! unat producer ! unat consumer of None \<Rightarrow> None | Some off \<Rightarrow> reg_queues (sr_queues S) off)"

definition running_state :: "Cpu \<Rightarrow> bool \<Rightarrow> (u64 \<Rightarrow> u8) \<Rightarrow> LoomMemRuntime \<Rightarrow> SharedRegion \<Rightarrow> 'h Runtime" where
  "running_state cpu lock_free data R S =
     (let c = rt_config R; self = local_host_id c; A = the (rt_allocator R);
          handle = \<lparr>qh_local_host = self, qh_mode = kReleaseAcquire\<rparr>; service = new_service in
      \<lparr>rn_config = c, rn_layout = rt_layout R,
       rn_token_env = \<lparr>te_local_host = self, te_allocator = A, te_attached = True, te_lock_free = lock_free,
         te_queue_resolver = (\<lambda>p q. if host_count c \<le> p \<or> host_count c \<le> q \<or> p = q then Inl kInvalidArgument else Inr handle),
         te_mode = kReleaseAcquire, te_cpu = cpu\<rparr>,
       rn_cache_env = \<lparr>re_allocator = A, re_host = self, re_capacity_entries = replica_cache_capacity_entries c,
         re_capacity_bytes = replica_cache_capacity_bytes c, re_cpu = cpu\<rparr>,
       rn_initialized = rt_initialized R, rn_attached = rt_bootstrap R,
       rn_write = \<lparr>ws_token = \<lparr>next_request_id = next_request_id service, outbound = outbound service, objects = objects service,
           waiters = waiters service, waiter_heap = waiter_heap service, mem = sr_heap S, rings = ring_of R S self\<rparr>,
         ws_cache = empty_cache (sr_heap S), ws_bytes = data, ws_staged = []\<rparr>,
       rn_inbound = (\<lambda>p. \<lparr>qo_handle = handle, qo_ring = ring_of R S p self\<rparr>), rn_poller = None, rn_mapper = rt_mapper R\<rparr>)"

definition clInit :: "u64 \<Rightarrow> bool \<Rightarrow> Cpu \<Rightarrow> SystemAnswers \<Rightarrow> (nat \<Rightarrow> bool) option \<Rightarrow> bool \<Rightarrow> SharedRegion list \<Rightarrow> (u64 \<Rightarrow> u8) \<Rightarrow> QueuePollerOptions \<Rightarrow> 'h \<Rightarrow>
    CxloomConfig \<Rightarrow> SharedRegion \<Rightarrow> ('h Api Result \<times> SharedRegion) option" where
  "clInit sizeof_AllocatorHeader lock_free cpu os affinity bind_ok polls data options h c S =
     (case LoomMemInitialize sizeof_AllocatorHeader lock_free os polls (new_runtime c) S of (st, R, S1) \<Rightarrow>
        if st \<noteq> kOk then Some (Inl st, S1)
        else (case StartQueuePoller options affinity bind_ok h (running_state cpu lock_free data R S1) of (poller, rt) \<Rightarrow>
                if poller \<noteq> kOk
                then (case LoomMemFinalize os False rt of None \<Rightarrow> None | Some _ \<Rightarrow> Some (Inl poller, S1))
                else Some (Inr \<lparr>api_owned = True, api_alive = True, api_impl = \<lparr>ci_runtime = rt, ci_active = True\<rparr>, api_views = []\<rparr>, S1)))"

definition clDestroy :: "SystemAnswers \<Rightarrow> 'h Api \<Rightarrow> (Status \<times> 'h Api) option" where
  "clDestroy os a =
     (if \<not> api_owned a then Some (kInvalidArgument, a)
      else if use_count a \<noteq> 1 then Some (kFailedPrecondition, a)
      else if \<not> ci_active (api_impl a) then Some (kFailedPrecondition, a)
      else (case LoomMemFinalize os False (runtime_of a) of
              None \<Rightarrow> None
            | Some (finalize, rt) \<Rightarrow>
                let a1 = set_runtime rt a in
                if finalize \<noteq> kOk then Some (finalize, a1)
                else map_option (Pair kOk) (collect os (a1\<lparr>api_impl := (api_impl a1)\<lparr>ci_active := False\<rparr>, api_owned := False\<rparr>))))"

text \<open>A context that goes without \<^verbatim>\<open>clDestroy\<close>.\<close>

definition destroy_context :: "SystemAnswers \<Rightarrow> 'h Api \<Rightarrow> 'h Api option" where
  "destroy_context os a = collect os (a\<lparr>api_owned := False\<rparr>)"

definition clAlloc :: "AllocationOptions \<Rightarrow> 'h Api \<Rightarrow> (GlobalPointer Result \<times> 'h Api) option" where
  "clAlloc options a =
     (if \<not> ci_active (api_impl a) then Some (Inl kFailedPrecondition, a)
      else map_option (\<lambda>(r, rt). (r, set_runtime rt a)) (AllocateShared options (runtime_of a)))"

definition clAlloc_bytes :: "u64 \<Rightarrow> u64 \<Rightarrow> 'h Api \<Rightarrow> (GlobalPointer Result \<times> 'h Api) option" where
  "clAlloc_bytes n alignment a = clAlloc (default_options n alignment (runtime_of a)) a"

text \<open>A read view owns its copy and outlives everything else: it is its bytes.\<close>

definition on_read :: "(ReplicaEnv \<Rightarrow> bool \<Rightarrow> ReplicaCache \<Rightarrow> ('r \<times> ReplicaCache) option) \<Rightarrow> 'h Api \<Rightarrow> ('r \<times> 'h Api) option" where
  "on_read f a =
     (let rt = runtime_of a; W = rn_write rt in
      case f (rn_cache_env rt) (rn_initialized rt) (cache_view W) of
        None \<Rightarrow> None
      | Some (r, S) \<Rightarrow> Some (r, set_write (W\<lparr>ws_cache := S, ws_token := (ws_token W)\<lparr>mem := cache_mem S\<rparr>\<rparr>) a))"

definition clRead :: "GlobalPointer \<Rightarrow> u64 \<Rightarrow> (u64 \<Rightarrow> BlockLoad list) \<Rightarrow> 'h Api \<Rightarrow> (u8 list Result \<times> 'h Api) option" where
  "clRead object timeout_ms loads a =
     (if \<not> ci_active (api_impl a) then Some (Inl kFailedPrecondition, a)
      else map_option (\<lambda>(r, b). (map_sum id rd_storage r, b)) (on_read (\<lambda>e up. AcquireReadSnapshot e up object timeout_ms loads) a))"

definition clReadRange :: "GlobalPointer \<Rightarrow> u64 \<Rightarrow> u64 \<Rightarrow> u64 \<Rightarrow> (u64 \<Rightarrow> BlockLoad list) \<Rightarrow> 'h Api \<Rightarrow> (u8 list Result \<times> 'h Api) option" where
  "clReadRange object offset n timeout_ms loads a =
     (if \<not> ci_active (api_impl a) then Some (Inl kFailedPrecondition, a)
      else map_option (\<lambda>(r, b). (map_sum id rd_storage r, b)) (on_read (\<lambda>e up. AcquireReadRange e up object offset n timeout_ms loads) a))"

definition clInvalidate :: "GlobalPointer \<Rightarrow> 'h Api \<Rightarrow> (Status \<times> 'h Api) option" where
  "clInvalidate object a =
     (if \<not> ci_active (api_impl a) then Some (kFailedPrecondition, a) else on_read (\<lambda>e up. InvalidateReadCache e up object) a)"

definition clSynchronizeRelease :: "(Pause \<Rightarrow> WriteState \<Rightarrow> WriteState) \<Rightarrow> u64 \<Rightarrow> 'h Api \<Rightarrow> (Status \<times> 'h Api) option" where
  "clSynchronizeRelease others context_id a =
     (if \<not> ci_active (api_impl a) then Some (kFailedPrecondition, a)
      else map_option (\<lambda>(st, W). (st, set_write W a)) (SynchronizeRelease (env_of (runtime_of a)) others context_id (rn_write (runtime_of a))))"

definition clSynchronizeAcquire :: "'h Api \<Rightarrow> (Status \<times> 'h Api) option" where
  "clSynchronizeAcquire a =
     (if \<not> ci_active (api_impl a) then Some (kFailedPrecondition, a) else on_read SynchronizeAcquire a)"

text \<open>The result of a write call initializes the variable \<open>v\<close>.\<close>

definition new_view :: "nat \<Rightarrow> WriteBuffer Result \<times> WriteState \<Rightarrow> 'h Api \<Rightarrow> Status \<times> 'h Api" where
  "new_view v r a = (case r of
      (Inl st, W) \<Rightarrow> (st, set_write W a)
    | (Inr wb, W) \<Rightarrow> (kOk, set_view v \<lparr>vi_context = True, vi_buffer = wb, vi_state = VActive\<rparr> (set_write W a)))"

definition clWrite :: "(Pause \<Rightarrow> WriteState \<Rightarrow> WriteState) \<Rightarrow> nat \<Rightarrow> GlobalPointer \<Rightarrow> u64 \<Rightarrow> 'h Api \<Rightarrow> Status \<times> 'h Api" where
  "clWrite others v object timeout_ms a =
     (if \<not> ci_active (api_impl a) then (kFailedPrecondition, a)
      else new_view v (AcquireWriteBuffer (env_of (runtime_of a)) others object timeout_ms (rn_write (runtime_of a))) a)"

definition clWriteRange :: "(Pause \<Rightarrow> WriteState \<Rightarrow> WriteState) \<Rightarrow> nat \<Rightarrow> GlobalPointer \<Rightarrow> u64 \<Rightarrow> u64 \<Rightarrow> u64 \<Rightarrow> 'h Api \<Rightarrow> Status \<times> 'h Api" where
  "clWriteRange others v object offset n timeout_ms a =
     (if \<not> ci_active (api_impl a) then (kFailedPrecondition, a)
      else new_view v (AcquireWriteRange (env_of (runtime_of a)) others object offset n timeout_ms (rn_write (runtime_of a))) a)"

definition clFree :: "(nat \<Rightarrow> 'h Runtime \<Rightarrow> 'h Runtime) \<Rightarrow> nat \<Rightarrow> bool \<Rightarrow> GlobalPointer \<Rightarrow> 'h Api \<Rightarrow> (Status \<times> 'h Api) option" where
  "clFree others rounds busy object a =
     (if \<not> ci_active (api_impl a) then Some (kFailedPrecondition, a)
      else map_option (\<lambda>(st, rt). (st, set_runtime rt a)) (FreeShared others rounds busy object (runtime_of a)))"

section \<open>Client programs\<close>

text \<open>
  What a program with one context may do, and what happens around it: \<open>elsewhere\<close> is any change of the runtime by its
  other calls, by its poller and by other hosts.  A call on the context needs the context; a write call initializes a
  variable that is free.
\<close>

inductive api_step :: "SystemAnswers \<Rightarrow> 'h Api \<Rightarrow> 'h Api \<Rightarrow> bool" for os where
  commit: "view_Commit os others v a = Some (st, a') \<Longrightarrow> api_step os a a'"
| abort: "view_Abort os v a = Some (st, a') \<Longrightarrow> api_step os a a'"
| stage: "view_Stage os context_id v a = Some (st, a') \<Longrightarrow> api_step os a a'"
| destroy: "destroy_view os v a = Some a' \<Longrightarrow> api_step os a a'"
| move: "move_view os x y a = Some a' \<Longrightarrow> api_step os a a'"
| store: "api_step os a (view_store v bs a)"
| drop: "destroy_context os a = Some a' \<Longrightarrow> api_step os a a'"
| quit: "clDestroy os a = Some (st, a') \<Longrightarrow> api_step os a a'"
| alloc: "api_owned a \<Longrightarrow> clAlloc options a = Some (r, a') \<Longrightarrow> api_step os a a'"
| read: "api_owned a \<Longrightarrow> clRead object timeout_ms loads a = Some (bs, a') \<Longrightarrow> api_step os a a'"
| read_range: "api_owned a \<Longrightarrow> clReadRange object offset n timeout_ms loads a = Some (bs, a') \<Longrightarrow> api_step os a a'"
| invalidate: "api_owned a \<Longrightarrow> clInvalidate object a = Some (st, a') \<Longrightarrow> api_step os a a'"
| release: "api_owned a \<Longrightarrow> clSynchronizeRelease others context_id a = Some (st, a') \<Longrightarrow> api_step os a a'"
| acquire: "api_owned a \<Longrightarrow> clSynchronizeAcquire a = Some (st, a') \<Longrightarrow> api_step os a a'"
| write_object: "api_owned a \<Longrightarrow> map_of (api_views a) v = None \<Longrightarrow> api_step os a (snd (clWrite others v object timeout_ms a))"
| write_range: "api_owned a \<Longrightarrow> map_of (api_views a) v = None \<Longrightarrow> api_step os a (snd (clWriteRange others v object offset n timeout_ms a))"
| free: "api_owned a \<Longrightarrow> clFree around rounds busy object a = Some (st, a') \<Longrightarrow> api_step os a a'"
| elsewhere: "api_step os a (set_runtime rt a)"

inductive api_reach :: "SystemAnswers \<Rightarrow> 'h Api \<Rightarrow> bool" for os where
  init: "clInit header_size lock_free cpu os affinity bind_ok polls data options h c S = Some (Inr a, S') \<Longrightarrow> api_reach os a"
| step: "api_reach os a \<Longrightarrow> api_step os a a' \<Longrightarrow> api_reach os a'"

definition view_ok :: "ViewImpl \<Rightarrow> bool" where
  "view_ok vi \<longleftrightarrow> (vi_context vi \<longleftrightarrow> vi_state vi = VActive) \<and>
     (if vi_state vi = VActive then wb_storage (vi_buffer vi) \<noteq> None \<and> wb_guard (vi_buffer vi) \<noteq> None else wb_guard (vi_buffer vi) = None)"

definition api_sound :: "'h Api \<Rightarrow> bool" where
  "api_sound a \<longleftrightarrow> distinct (map fst (api_views a)) \<and> (\<forall>p \<in> set (api_views a). view_ok (snd p)) \<and>
     (use_count a \<noteq> 0 \<longrightarrow> api_alive a) \<and> (api_owned a \<longrightarrow> ci_active (api_impl a))"

definition api_ok :: "'h Api \<Rightarrow> bool" where
  "api_ok a \<longleftrightarrow> api_sound a \<and> (api_alive a \<longrightarrow> use_count a \<noteq> 0)"

lemma set_runtime_frame [simp]:
  "api_views (set_runtime rt a) = api_views a" "api_owned (set_runtime rt a) = api_owned a" "api_alive (set_runtime rt a) = api_alive a"
  "ci_active (api_impl (set_runtime rt a)) = ci_active (api_impl a)" "runtime_of (set_runtime rt a) = rt"
  "use_count (set_runtime rt a) = use_count a"
  "api_views (set_write W a) = api_views a" "api_owned (set_write W a) = api_owned a" "api_alive (set_write W a) = api_alive a"
  "ci_active (api_impl (set_write W a)) = ci_active (api_impl a)" "use_count (set_write W a) = use_count a"
  by (simp_all add: set_runtime_def set_write_def use_count_def)

lemma api_ok_runtime [simp]: "api_ok (set_runtime rt a) = api_ok a" "api_ok (set_write W a) = api_ok a"
  by (simp_all add: api_ok_def api_sound_def)

lemma collect_ok:
  assumes "api_sound a" and "collect os a = Some a'"
  shows "api_ok a'" and "api_views a' = api_views a" and "api_owned a' = api_owned a"
  using assms by (auto simp: collect_def api_ok_def api_sound_def use_count_def split: if_splits option.splits)

lemma map_of_ok: "\<forall>p \<in> set xs. view_ok (snd p) \<Longrightarrow> map_of xs v = Some vi \<Longrightarrow> view_ok vi"
  by (auto dest!: map_of_SomeD)

text \<open>The number of views that hold the context, when one of them is replaced or goes.\<close>

abbreviation holders :: "(nat \<times> ViewImpl) list \<Rightarrow> nat" where
  "holders xs \<equiv> length (filter (\<lambda>p. vi_context (snd p)) xs)"

lemma holders_update:
  assumes "map_of xs v = Some vi" and "vi_context vi' \<longrightarrow> vi_context vi"
  shows "holders (AList.update v vi' xs) \<le> holders xs"
  using assms by (induction xs) auto

lemma holders_delete: "holders (AList.delete v xs) \<le> holders xs"
  by (induction xs) auto

lemma holders_move:
  assumes "map_of xs y = Some vi"
  shows "holders (AList.update x vi (AList.delete y xs)) \<le> holders xs"
proof -
  have d: "holders (AList.delete y xs) + of_bool (vi_context vi) \<le> holders xs"
    using assms by (induction xs) (auto intro: holders_delete le_SucI)
  have "holders (AList.update x vi ys) \<le> holders ys + of_bool (vi_context vi)" for ys by (induction ys) auto
  from this [of "AList.delete y xs"] d show ?thesis by linarith
qed

lemma ok_update:
  assumes "\<forall>p \<in> set xs. view_ok (snd p)" and "view_ok vi"
  shows "\<forall>p \<in> set (AList.update v vi xs). view_ok (snd p)"
  using assms by (induction xs) auto

lemma ok_delete: "\<forall>p \<in> set xs. view_ok (snd p) \<Longrightarrow> \<forall>p \<in> set (AList.delete v xs). view_ok (snd p)"
  by (auto simp: AList.delete_eq)

lemma api_ok_views:
  assumes "api_ok a"
  shows "distinct (map fst (api_views a))" and "\<forall>p \<in> set (api_views a). view_ok (snd p)"
  using assms by (simp_all add: api_ok_def api_sound_def)

text \<open>A change of the views that adds no holder, with the names still distinct.\<close>

lemma sound_views:
  assumes "api_ok a" and "distinct (map fst xs)" and "\<forall>p \<in> set xs. view_ok (snd p)" and "holders xs \<le> holders (api_views a)"
  shows "api_sound (a\<lparr>api_views := xs\<rparr>)"
  using assms by (auto simp: api_ok_def api_sound_def use_count_def)

lemma MutableDescriptor_error:
  assumes "on_memory (\<lambda>M. MutableDescriptor A M object b) W = (Inl st, W')"
  shows "st \<noteq> kOk"
  using assms by (auto simp: on_memory_def MutableDescriptor_def LockAllocationSlot_def FindDescriptorLocked_def Let_def
      split: if_splits prod.splits sum.splits option.splits)

lemma ReleaseWriteBuffer_owner:
  assumes "ReleaseWriteBuffer e others wb W = Some (st, wb', W')"
  shows "if st = kOk then wb_guard wb' = None else wb' = wb"
  using assms by (auto simp: ReleaseWriteBuffer_def dest: MutableDescriptor_error split: if_splits prod.splits sum.splits option.splits)

lemma AbortWriteBuffer_owner:
  assumes "AbortWriteBuffer e wb W = (st, wb', W')"
  shows "if st = kOk then wb_guard wb' = None else wb' = wb"
  using assms by (auto simp: AbortWriteBuffer_def split: if_splits prod.splits)

lemma StageWriteBuffer_owner:
  assumes "StageWriteBuffer e c x wb W = (st, wb', W')"
  shows "if st = kOk then wb_guard wb' = None else wb' = wb"
  using assms by (auto simp: StageWriteBuffer_def no_buffer_def split: if_splits)

lemma AcquireWriteRange_owner:
  assumes "AcquireWriteRange e others object offset n t W = (Inr wb, W')"
  shows "wb_storage wb \<noteq> None \<and> wb_guard wb \<noteq> None"
  using assms by (auto simp: AcquireWriteRange_def Let_def split: if_splits prod.splits sum.splits)

lemma AcquireWriteBuffer_owner:
  assumes "AcquireWriteBuffer e others object t W = (Inr wb, W')"
  shows "wb_storage wb \<noteq> None \<and> wb_guard wb \<noteq> None"
  using assms AcquireWriteRange_owner by (fastforce simp: AcquireWriteBuffer_def split: prod.splits sum.splits)

section \<open>The views are well typed\<close>

lemma active_view_ok:
  assumes "api_ok a" and "active_view v a = Some vi"
  shows "map_of (api_views a) v = Some vi" "view_ok vi" "vi_state vi = VActive" "vi_context vi"
  using assms map_of_ok [of "api_views a" v vi] by (auto simp: active_view_def api_ok_def api_sound_def view_ok_def split: option.splits if_splits)

lemma set_view_ok:
  assumes "api_ok a" and "map_of (api_views a) v = Some vi" and "view_ok vi'" and "vi_context vi' \<longrightarrow> vi_context vi"
  shows "api_sound (set_view v vi' a)"
  unfolding set_view_def using api_ok_views [OF assms(1)] holders_update [OF assms(2,4)]
  by (intro sound_views [OF assms(1)] distinct_update ok_update assms(3))

lemma set_view_same:
  assumes "api_ok a" and "map_of (api_views a) v = Some vi" and "view_ok vi'" and "vi_context vi' = vi_context vi"
  shows "api_ok (set_view v vi' a)"
proof -
  have "holders (AList.update v vi' xs) = holders xs" if "map_of xs v = Some vi" for xs using that assms(4) by (induction xs) auto
  then have "use_count (set_view v vi' a) = use_count a" using assms(2) by (simp add: use_count_def set_view_def)
  moreover have "api_alive (set_view v vi' a) = api_alive a" by (simp add: set_view_def)
  ultimately show ?thesis using set_view_ok [OF assms(1-3)] assms(1,4) by (simp add: api_ok_def)
qed

lemma end_view_ok:
  assumes "api_ok a" and "active_view v a = Some vi" and "if st = kOk then wb_guard wb = None else wb = vi_buffer vi" and "s \<noteq> VActive"
    and "end_view os v s st vi wb W a = Some (st', a')"
  shows "api_ok a'"
proof -
  note av = active_view_ok [OF assms(1,2)]
  have ok: "api_ok (set_write W a)" "map_of (api_views (set_write W a)) v = Some vi" using assms(1) av(1) by simp_all
  show ?thesis
  proof (cases "st = kOk")
    case True
    have "api_sound (set_view v \<lparr>vi_context = False, vi_buffer = wb, vi_state = s\<rparr> (set_write W a))"
      by (rule set_view_ok [OF ok]) (use True assms(3,4) in \<open>simp_all add: view_ok_def\<close>)
    then show ?thesis using collect_ok(1) assms(5) True by (auto simp: end_view_def)
  next
    case False
    then have "a' = set_view v vi (set_write W a)" using assms(3,5) by (simp add: end_view_def)
    then show ?thesis using set_view_same [OF ok av(2)] by simp
  qed
qed

lemma destroy_view_ok:
  assumes "api_ok a" and "destroy_view os v a = Some a'"
  shows "api_ok a'"
proof (cases "map_of (api_views a) v")
  case (Some vi)
  have ok: "api_ok (abandon_buffer vi a)" "api_views (abandon_buffer vi a) = api_views a"
    using assms(1) by (simp_all add: abandon_buffer_def Let_def split_def)
  have "api_sound ((abandon_buffer vi a)\<lparr>api_views := AList.delete v (api_views a)\<rparr>)"
    unfolding ok(2) [symmetric] using api_ok_views [OF ok(1)] holders_delete
    by (intro sound_views [OF ok(1)] distinct_delete ok_delete)
  then show ?thesis using collect_ok(1) assms(2) Some by (simp add: destroy_view_def)
qed (use assms in \<open>simp add: destroy_view_def\<close>)

lemma move_view_ok:
  assumes "api_ok a" and "move_view os x y a = Some a'"
  shows "api_ok a'"
proof (cases "x = y \<or> map_of (api_views a) y = None")
  case True
  then show ?thesis using assms destroy_view_ok [OF assms(1)] by (auto simp: move_view_def split: if_splits)
next
  case False
  then obtain vi where y: "x \<noteq> y" "map_of (api_views a) y = Some vi" by auto
  define a1 where "a1 = a\<lparr>api_views := AList.update x vi (AList.delete y (api_views a))\<rparr>"
  have av: "api_views a1 = AList.update x vi (AList.delete y (api_views a))" by (simp add: a1_def)
  have vs: "distinct (map fst (api_views a1))" "\<forall>p \<in> set (api_views a1). view_ok (snd p)"
    unfolding av using api_ok_views [OF assms(1)] map_of_ok [OF api_ok_views(2) [OF assms(1)] y(2)]
    by (blast intro: distinct_update distinct_delete ok_update [rule_format] ok_delete [rule_format])+
  have sound: "api_sound a1"
    using sound_views [OF assms(1) vs] holders_move [OF y(2), of x] unfolding av by (simp add: a1_def)
  show ?thesis
  proof (cases "map_of (api_views a) x")
    case None
    have h: "holders (AList.update x vi xs) = holders xs + of_bool (vi_context vi)" if "map_of xs x = None" for xs using that by (induction xs) auto
    have d: "holders xs = holders (AList.delete y xs) + of_bool (vi_context vi)" if "distinct (map fst xs)" "map_of xs y = Some vi" for xs
      using that by (induction xs) (auto simp: delete_id)
    have "map_of (AList.delete y (api_views a)) x = None" using None y(1) by (simp add: delete_conv')
    then have "holders (api_views a1) = holders (api_views a)" using h d y(2) assms(1) by (simp add: a1_def api_ok_def api_sound_def)
    then have "use_count a1 = use_count a" by (simp add: use_count_def a1_def)
    then have "api_ok a1" using sound assms(1) by (simp add: api_ok_def a1_def)
    then show ?thesis using assms(2) y None by (simp add: move_view_def a1_def)
  next
    case (Some old)
    have "api_sound (abandon_buffer old a1)" using sound by (simp add: abandon_buffer_def Let_def split_def api_sound_def)
    then show ?thesis using collect_ok(1) assms(2) y Some by (simp add: move_view_def Let_def a1_def)
  qed
qed

lemma new_view_ok:
  assumes "api_ok a" and "api_owned a" and "map_of (api_views a) v = None"
    and "\<And>wb W. r = (Inr wb, W) \<Longrightarrow> wb_storage wb \<noteq> None \<and> wb_guard wb \<noteq> None"
  shows "api_ok (snd (new_view v r a))"
proof (cases r)
  case (Pair x W)
  show ?thesis
  proof (cases x)
    case (Inr wb)
    let ?vi = "\<lparr>vi_context = True, vi_buffer = wb, vi_state = VActive\<rparr>"
    have "snd (new_view v r a) = set_view v ?vi (set_write W a)" by (simp add: new_view_def Pair Inr)
    moreover have "view_ok ?vi" using assms(4) Pair Inr by (simp add: view_ok_def)
    ultimately show ?thesis using api_ok_views [OF assms(1)] assms(1,2)
      by (simp add: api_ok_def api_sound_def set_view_def use_count_def distinct_update ok_update)
  qed (use assms(1) in \<open>simp add: new_view_def Pair\<close>)
qed

lemma clDestroy_cases:
  assumes "api_ok a" and "clDestroy os a = Some (st, a')"
  shows "api_ok a' \<and> (st = kOk \<longrightarrow> \<not> api_alive a' \<and> \<not> api_owned a' \<and> api_views a' = api_views a \<and> holders (api_views a) = 0)"
proof (cases "api_owned a \<and> use_count a = 1 \<and> ci_active (api_impl a)")
  case False
  then show ?thesis using assms by (auto simp: clDestroy_def split: if_splits)
next
  case True
  then obtain fin rt where f: "LoomMemFinalize os False (runtime_of a) = Some (fin, rt)" using assms(2) by (auto simp: clDestroy_def split: option.splits)
  show ?thesis
  proof (cases "fin = kOk")
    case False
    then show ?thesis using True f assms by (auto simp: clDestroy_def)
  next
    case ok: True
    define a1 where "a1 = set_runtime rt a"
    define a2 where "a2 = a1\<lparr>api_impl := (api_impl a1)\<lparr>ci_active := False\<rparr>, api_owned := False\<rparr>"
    have h: "holders (api_views a) = 0" using True by (auto simp: use_count_def)
    have a2: "api_views a2 = api_views a" "\<not> api_owned a2" "\<not> ci_active (api_impl a2)" by (simp_all add: a2_def a1_def)
    then have "use_count a2 = 0" using h by (simp add: use_count_def)
    then have "collect os a2 = Some (a2\<lparr>api_alive := False\<rparr>)" using a2 by (auto simp: collect_def)
    then have "st = kOk" "a' = a2\<lparr>api_alive := False\<rparr>" using assms(2) True f ok by (simp_all add: clDestroy_def Let_def a1_def a2_def)
    moreover have "api_ok (a2\<lparr>api_alive := False\<rparr>)"
      using api_ok_views [OF assms(1)] a2 h by (simp add: api_ok_def api_sound_def use_count_def)
    ultimately show ?thesis using a2 h by simp
  qed
qed

lemma api_step_ok:
  assumes "api_step os a a'" and "api_ok a"
  shows "api_ok a'"
  using assms
proof (cases rule: api_step.cases)
  case (commit others v st)
  then obtain vi st1 wb W where "active_view v a = None \<and> a' = a \<or> active_view v a = Some vi \<and>
      ReleaseWriteBuffer (env_of (runtime_of a)) others (vi_buffer vi) (rn_write (runtime_of a)) = Some (st1, wb, W) \<and>
      end_view os v VCommitted st1 vi wb W a = Some (st, a')"
    by (auto simp: view_Commit_def split: option.splits)
  then show ?thesis using assms(2) end_view_ok [OF assms(2) _ ReleaseWriteBuffer_owner] by blast
next
  case (abort v st)
  then show ?thesis using assms(2) end_view_ok [OF assms(2) _ AbortWriteBuffer_owner] by (fastforce simp: view_Abort_def split: option.splits prod.splits)
next
  case (stage c v st)
  then show ?thesis using assms(2) end_view_ok [OF assms(2) _ StageWriteBuffer_owner] by (fastforce simp: view_Stage_def split: option.splits prod.splits)
next
  case (destroy v)
  then show ?thesis using destroy_view_ok [OF assms(2)] by blast
next
  case (move x y)
  then show ?thesis using move_view_ok [OF assms(2)] by blast
next
  case (store v bs)
  show ?thesis
  proof (cases "active_view v a")
    case (Some vi)
    note av = active_view_ok [OF assms(2) Some]
    show ?thesis using store Some assms(2) av set_view_same [OF assms(2) av(1), of "vi\<lparr>vi_buffer := (vi_buffer vi)\<lparr>wb_storage := Some bs\<rparr>\<rparr>"]
      by (simp add: view_store_def view_ok_def)
  qed (use store assms(2) in \<open>simp add: view_store_def\<close>)
next
  case drop
  have "api_sound (a\<lparr>api_owned := False\<rparr>)" using assms(2) by (simp add: api_ok_def api_sound_def use_count_def split: if_splits)
  then show ?thesis using collect_ok(1) drop by (auto simp: destroy_context_def)
next
  case (quit st)
  then show ?thesis using clDestroy_cases [OF assms(2)] by blast
next
  case (write_object v others object timeout_ms)
  then show ?thesis using assms(2) new_view_ok [OF assms(2)] AcquireWriteBuffer_owner by (simp add: clWrite_def)
next
  case (write_range v others object offset n timeout_ms)
  then show ?thesis using assms(2) new_view_ok [OF assms(2)] AcquireWriteRange_owner by (simp add: clWriteRange_def)
qed (auto simp: clAlloc_def clRead_def clReadRange_def clInvalidate_def clSynchronizeRelease_def clSynchronizeAcquire_def clFree_def on_read_def Let_def
    split: if_splits option.splits)

lemma api_reach_ok: "api_reach os a \<Longrightarrow> api_ok a"
proof (induction rule: api_reach.induct)
  case init
  then show ?case by (auto simp: clInit_def api_ok_def api_sound_def use_count_def split: if_splits prod.splits option.splits)
qed (rule api_step_ok)

text \<open>
  C27. Write views are used as their state allows.  In every state a client program can reach, an active view keeps the
  context alive and owns storage and a pin on its object; a view that has been committed, aborted or staged holds
  neither context nor pin, shows no bytes, and every further call on it is refused and changes nothing.  \<^verbatim>\<open>clDestroy\<close>
  refuses while a view is active, and when it succeeds no view is active, the runtime is down and its state is gone.
\<close>

theorem views_typed:
  assumes "api_reach os a"
  shows "(\<forall>v vi. map_of (api_views a) v = Some vi \<longrightarrow>
      (if vi_state vi = VActive
       then api_alive a \<and> vi_context vi \<and> view_data v a \<noteq> None \<and> wb_guard (vi_buffer vi) \<noteq> None \<and>
         (api_owned a \<longrightarrow> clDestroy os a = Some (kFailedPrecondition, a))
       else \<not> vi_context vi \<and> wb_guard (vi_buffer vi) = None \<and> view_data v a = None \<and> view_size v a = 0 \<and>
         view_Commit os others v a = Some (kFailedPrecondition, a) \<and> view_Abort os v a = Some (kFailedPrecondition, a) \<and>
         view_Stage os context_id v a = Some (kFailedPrecondition, a))) \<and>
    (\<forall>a'. clDestroy os a = Some (kOk, a') \<longrightarrow> \<not> api_alive a' \<and> \<not> api_owned a' \<and>
       (\<forall>v vi. map_of (api_views a') v = Some vi \<longrightarrow> vi_state vi \<noteq> VActive))"
proof (intro conjI allI impI)
  have ok: "api_ok a" using assms by (rule api_reach_ok)
  fix v vi assume v: "map_of (api_views a) v = Some vi"
  then have vok: "view_ok vi" using map_of_ok [OF api_ok_views(2) [OF ok]] by blast
  have h: "0 < holders (api_views a)" if "vi_context vi" using map_of_SomeD [OF v] that by (force simp: filter_empty_conv)
  show "if vi_state vi = VActive
       then api_alive a \<and> vi_context vi \<and> view_data v a \<noteq> None \<and> wb_guard (vi_buffer vi) \<noteq> None \<and>
         (api_owned a \<longrightarrow> clDestroy os a = Some (kFailedPrecondition, a))
       else \<not> vi_context vi \<and> wb_guard (vi_buffer vi) = None \<and> view_data v a = None \<and> view_size v a = 0 \<and>
         view_Commit os others v a = Some (kFailedPrecondition, a) \<and> view_Abort os v a = Some (kFailedPrecondition, a) \<and>
         view_Stage os context_id v a = Some (kFailedPrecondition, a)"
  proof (cases "vi_state vi = VActive")
    case True
    then show ?thesis using ok vok h v by (auto simp: view_ok_def api_ok_def api_sound_def use_count_def clDestroy_def view_data_def active_view_def)
  next
    case False
    then have "active_view v a = None" using v by (simp add: active_view_def)
    then show ?thesis using False vok by (simp add: view_ok_def view_data_def view_size_def view_Commit_def view_Abort_def view_Stage_def)
  qed
next
  have ok: "api_ok a" using assms by (rule api_reach_ok)
  fix a' assume d: "clDestroy os a = Some (kOk, a')"
  note c = clDestroy_cases [OF ok d]
  show "\<not> api_alive a'" "\<not> api_owned a'" using c by simp_all
  fix v vi assume "map_of (api_views a') v = Some vi"
  then show "vi_state vi \<noteq> VActive" using c api_ok_views(2) [of a'] by (auto simp: filter_empty_conv view_ok_def dest!: map_of_SomeD)
qed

text \<open>A program on one host that has opened a view.\<close>

definition one_host :: CxloomConfig where
  "one_host = two_hosts\<lparr>host_count := 1\<rparr>"

abbreviation spin_only :: QueuePollerOptions where
  "spin_only \<equiv> \<lparr>cpu_id = -1, batch_size = 32, spin_rounds = 0, yield_rounds = 0, idle_sleep_us = 0\<rparr>"

definition sample_program :: "unit Runtime \<Rightarrow> unit Api" where
  "sample_program rt = set_view 7 \<lparr>vi_context = True, vi_buffer = sample_buffer, vi_state = VActive\<rparr>
     \<lparr>api_owned = True, api_alive = True, api_impl = \<lparr>ci_runtime = rt\<lparr>rn_write := write_state taken_state\<rparr>, ci_active = True\<rparr>, api_views = []\<rparr>"

lemma one_host_starts:
  "\<exists>a S. clInit 0x3E000 True plain_cpu device None True [] (\<lambda>_. 0) spin_only () one_host blank_region = Some (Inr a, S) \<and>
     api_owned a \<and> api_alive a \<and> ci_active (api_impl a) \<and> api_views a = []"
proof -
  have v: "Validate one_host = kOk" "bootstrap_owner one_host"
    by (simp_all add: Validate_def one_host_def two_hosts_def kMaxHosts_def kMemoryAware_def word_le_nat_alt)
  have q: "queue_capacity one_host = Inr 16" by (simp add: queue_capacity_def one_host_def two_hosts_def)
  moreover have "\<exists>r. RequiredBytes 1 16 = Inr r \<and> r \<le> 0x4000000"
    by (simp add: RequiredBytes_def Let_def kMaxHosts_def queue_stride_def QueueCount_def
        sizeof_SharedSpscQueueHeader_def sizeof_SharedSpscQueueSlot_def sizeof_QueueRegionHeader_def)
  ultimately have f: "region_fits one_host" by (simp add: region_fits_def one_host_def two_hosts_def)
  obtain rt1 R1 capacity where i: "LoomMemInitialize 0x3E000 True device [] (new_runtime one_host) blank_region = (kOk, rt1, R1)"
    "Cx_Startup.started one_host capacity R1 (local_host_id one_host) rt1" "rt_config rt1 = one_host\<lparr>queue_capacity_entries := capacity\<rparr>"
    using owner_starts [OF v f _ device_maps, of "0x3E000" "[]" blank_region] by (auto simp: word_le_nat_alt)
  define rt :: "unit Runtime" where "rt = running_state plain_cpu True (\<lambda>_. 0) rt1 R1"
  have "rn_initialized rt" "host_count (rn_config rt) = 1"
    using i(2,3) by (simp_all add: rt_def running_state_def Let_def Cx_Startup.started_def one_host_def)
  then have "StartQueuePoller spin_only None True () rt = (kOk, rt)" by (simp add: StartQueuePoller_def Let_def)
  then show ?thesis using i(1) by (simp add: clInit_def rt_def)
qed

theorem views_typed_witness:
  "\<exists>a rt. api_reach device a \<and> a = sample_program rt \<and> view_data 7 a = Some [0, 0] \<and> clDestroy device a = Some (kFailedPrecondition, a)"
proof -
  obtain a0 S where a0: "clInit 0x3E000 True plain_cpu device None True [] (\<lambda>_. 0) spin_only () one_host blank_region = Some (Inr a0, S)"
    "api_owned a0" "api_alive a0" "ci_active (api_impl a0)" "api_views a0 = []" using one_host_starts by blast
  define rt where "rt = (lone_runtime sample_memory)\<lparr>rn_token_env := we_token write_env, rn_cache_env := we_cache write_env, rn_write := write_state sample_registered\<rparr>"
  let ?a1 = "set_runtime rt a0"
  have r1: "api_reach device ?a1" by (rule api_reach.step [OF api_reach.init [OF a0(1)] api_step.elsewhere])
  have e: "env_of rt = write_env" by (simp add: env_of_def rt_def lone_runtime_def polling_def write_env_def sample_config_def)
  have w: "rn_write rt = write_state sample_registered" by (simp add: rt_def)
  have "clWriteRange nobody 7 sample_object 0 2 1000 ?a1 = (kOk, sample_program rt)"
    using a0 by (simp add: clWriteRange_def e w sample_acquire new_view_def) (simp add: sample_program_def set_view_def set_write_def set_runtime_def)
  then have r: "api_reach device (sample_program rt)"
    using api_reach.step [OF r1 api_step.write_range, of 7 nobody sample_object 0 2 1000] a0 by simp
  have "map_of (api_views (sample_program rt)) 7 = Some \<lparr>vi_context = True, vi_buffer = sample_buffer, vi_state = VActive\<rparr>" "api_owned (sample_program rt)"
    by (simp_all add: sample_program_def set_view_def)
  then have "clDestroy device (sample_program rt) = Some (kFailedPrecondition, sample_program rt)"
    using views_typed [OF r, of nobody 0] by (auto split: if_splits)
  then show ?thesis using r by (intro exI [of _ "sample_program rt"] exI [of _ rt])
      (simp add: view_data_def active_view_def sample_program_def set_view_def sample_buffer_def)
qed

end
