(* ===== verification/Cx_Par_Wire.thy ===== *)
theory Cx_Par_Wire
  imports Cx_Queue Cx_Wire Cx_Scheduler Cx_Threads Cx_Registry Cx_Token_Wire
begin

text \<open>
  The messages of LoomPar (\<^verbatim>\<open>src/loompar/runtime.cpp\<close>): thread requests and completions, barrier arrivals and releases,
  load samples, and the migration messages of \<^verbatim>\<open>include/cxloom/common/messages.h\<close>.  Each structure is copied into the
  payload of an envelope; a thread message carries the argument bytes behind it.  Images and fields are as in \<open>Cx_Wire\<close>.
\<close>

section \<open>Structures\<close>

definition kWireMagic :: u32 where
  "kWireMagic = 0x43584c50"

definition kWireVersion :: u16 where
  "kWireVersion = 1"

definition kLoadWireVersion :: u16 where
  "kLoadWireVersion = 2"

record BarrierWire =
  bw_magic :: u32
  bw_version :: u16
  bw_id :: u64
  bw_generation :: u64
  bw_failed :: u64

record LoadWire =
  lw_magic :: u32
  lw_version :: u16
  lw_running :: u32
  lw_pending :: u32
  lw_queued :: u32
  lw_sequence :: u64
  lw_sampled_at_ns :: u64
  lw_execution :: ExecutionLoad

record ThreadWire =
  tw_magic :: u32
  tw_version :: u16
  tw_reserved :: u16
  tw_tid :: u64
  tw_function :: u64
  tw_code :: u32
  tw_home :: u16
  tw_argument_bytes :: u16
  tw_result_value :: u64
  tw_migration_epoch :: u64

record MigrationRequest =
  mq_src :: HostId
  mq_gtid :: GlobalThreadId
  mq_target :: HostId
  mq_epoch :: u64

record MigrationAckWire =
  ma_header :: MessageHeader
  ma_gtid :: GlobalThreadId
  ma_target :: HostId
  ma_epoch :: u64
  ma_status :: u32

definition sizeof_BarrierWire :: nat where
  "sizeof_BarrierWire = 32"

definition sizeof_LoadWire :: nat where
  "sizeof_LoadWire = 56"

definition sizeof_ThreadWire :: nat where
  "sizeof_ThreadWire = 48"

definition sizeof_MigrationRequest :: nat where
  "sizeof_MigrationRequest = 48"

definition sizeof_MigrationAck :: nat where
  "sizeof_MigrationAck = 56"

section \<open>Images\<close>

definition BarrierWire_image :: "BarrierWire \<Rightarrow> u8 list" where
  "BarrierWire_image w = le_bytes 4 (bw_magic w) @ le_bytes 2 (bw_version w) @ padding 2 @ le_bytes 8 (bw_id w) @
     le_bytes 8 (bw_generation w) @ le_bytes 8 (bw_failed w)"

definition read_BarrierWire :: "u8 list \<Rightarrow> BarrierWire" where
  "read_BarrierWire bs = \<lparr>bw_magic = le_word (field 0 4 bs), bw_version = le_word (field 4 2 bs), bw_id = le_word (field 8 8 bs),
     bw_generation = le_word (field 16 8 bs), bw_failed = le_word (field 24 8 bs)\<rparr>"

definition LoadWire_image :: "LoadWire \<Rightarrow> u8 list" where
  "LoadWire_image w = le_bytes 4 (lw_magic w) @ le_bytes 2 (lw_version w) @ padding 2 @ le_bytes 4 (lw_running w) @ le_bytes 4 (lw_pending w) @
     le_bytes 4 (lw_queued w) @ padding 4 @ le_bytes 8 (lw_sequence w) @ le_bytes 8 (lw_sampled_at_ns w) @
     le_bytes 4 (executing (lw_execution w)) @ le_bytes 4 (ready (lw_execution w)) @ le_bytes 4 (blocked (lw_execution w)) @
     le_bytes 4 (workers (lw_execution w))"

definition read_LoadWire :: "u8 list \<Rightarrow> LoadWire" where
  "read_LoadWire bs = \<lparr>lw_magic = le_word (field 0 4 bs), lw_version = le_word (field 4 2 bs), lw_running = le_word (field 8 4 bs),
     lw_pending = le_word (field 12 4 bs), lw_queued = le_word (field 16 4 bs), lw_sequence = le_word (field 24 8 bs),
     lw_sampled_at_ns = le_word (field 32 8 bs),
     lw_execution = \<lparr>executing = le_word (field 40 4 bs), ready = le_word (field 44 4 bs), blocked = le_word (field 48 4 bs),
       workers = le_word (field 52 4 bs)\<rparr>\<rparr>"

definition ThreadWire_image :: "ThreadWire \<Rightarrow> u8 list" where
  "ThreadWire_image w = le_bytes 4 (tw_magic w) @ le_bytes 2 (tw_version w) @ le_bytes 2 (tw_reserved w) @ le_bytes 8 (tw_tid w) @
     le_bytes 8 (tw_function w) @ le_bytes 4 (tw_code w) @ le_bytes 2 (tw_home w) @ le_bytes 2 (tw_argument_bytes w) @
     le_bytes 8 (tw_result_value w) @ le_bytes 8 (tw_migration_epoch w)"

definition read_ThreadWire :: "u8 list \<Rightarrow> ThreadWire" where
  "read_ThreadWire bs = \<lparr>tw_magic = le_word (field 0 4 bs), tw_version = le_word (field 4 2 bs), tw_reserved = le_word (field 6 2 bs),
     tw_tid = le_word (field 8 8 bs), tw_function = le_word (field 16 8 bs), tw_code = le_word (field 24 4 bs), tw_home = le_word (field 28 2 bs),
     tw_argument_bytes = le_word (field 30 2 bs), tw_result_value = le_word (field 32 8 bs), tw_migration_epoch = le_word (field 40 8 bs)\<rparr>"

text \<open>The request behind its header, of which the handler uses the source host; the acknowledgement as a whole.\<close>

definition read_MigrationRequest :: "u8 list \<Rightarrow> MigrationRequest" where
  "read_MigrationRequest bs = \<lparr>mq_src = le_word (field 2 2 bs), mq_gtid = \<lparr>home_host = le_word (field 16 2 bs), local_tid = le_word (field 24 8 bs)\<rparr>,
     mq_target = le_word (field 32 2 bs), mq_epoch = le_word (field 40 8 bs)\<rparr>"

definition MigrationAck_image :: "MigrationAckWire \<Rightarrow> u8 list" where
  "MigrationAck_image a = le_bytes 2 (kind_code (kind (ma_header a))) @ le_bytes 2 (src_host (ma_header a)) @ le_bytes 2 (dst_host (ma_header a)) @ padding 2 @
     le_bytes 4 (payload_bytes (ma_header a)) @ padding 4 @ le_bytes 2 (home_host (ma_gtid a)) @ padding 6 @ le_bytes 8 (local_tid (ma_gtid a)) @
     le_bytes 2 (ma_target a) @ padding 6 @ le_bytes 8 (ma_epoch a) @ le_bytes 4 (ma_status a) @ padding 4"

section \<open>Encoding\<close>

definition EncodeBarrier :: "MessageKind \<Rightarrow> HostId \<Rightarrow> HostId \<Rightarrow> u64 \<Rightarrow> u64 \<Rightarrow> bool \<Rightarrow> QueueEnvelope" where
  "EncodeBarrier knd source destination bid g failed =
     \<lparr>env_header = \<lparr>kind = knd, src_host = source, dst_host = destination, payload_bytes = of_nat sizeof_BarrierWire\<rparr>,
      env_payload = BarrierWire_image \<lparr>bw_magic = kWireMagic, bw_version = kWireVersion, bw_id = bid, bw_generation = g, bw_failed = of_bool failed\<rparr>\<rparr>"

definition EncodeLoad :: "HostId \<Rightarrow> HostId \<Rightarrow> u32 \<Rightarrow> u32 \<Rightarrow> u32 \<Rightarrow> u64 \<Rightarrow> u64 \<Rightarrow> ExecutionLoad \<Rightarrow> QueueEnvelope" where
  "EncodeLoad source destination running pending queued seq sampled_at load =
     \<lparr>env_header = \<lparr>kind = LoadUpdate, src_host = source, dst_host = destination, payload_bytes = of_nat sizeof_LoadWire\<rparr>,
      env_payload = LoadWire_image \<lparr>lw_magic = kWireMagic, lw_version = kLoadWireVersion, lw_running = running, lw_pending = pending,
        lw_queued = queued, lw_sequence = seq, lw_sampled_at_ns = sampled_at, lw_execution = load\<rparr>\<rparr>"

definition thread_wire :: "GlobalThreadId \<Rightarrow> u64 \<Rightarrow> u32 \<Rightarrow> u8 list \<Rightarrow> u64 \<Rightarrow> u64 \<Rightarrow> bool \<Rightarrow> ThreadWire" where
  "thread_wire g fid code args result epoch cluster =
     \<lparr>tw_magic = kWireMagic, tw_version = kWireVersion, tw_reserved = of_bool cluster, tw_tid = local_tid g, tw_function = fid, tw_code = code,
      tw_home = home_host g, tw_argument_bytes = of_nat (length args), tw_result_value = result, tw_migration_epoch = epoch\<rparr>"

definition EncodeThread :: "MessageKind \<Rightarrow> HostId \<Rightarrow> HostId \<Rightarrow> GlobalThreadId \<Rightarrow> u64 \<Rightarrow> u32 \<Rightarrow> u8 list \<Rightarrow> u64 \<Rightarrow> u64 \<Rightarrow> bool \<Rightarrow> QueueEnvelope" where
  "EncodeThread knd source destination g fid code args result epoch cluster =
     \<lparr>env_header = \<lparr>kind = knd, src_host = source, dst_host = destination, payload_bytes = of_nat (sizeof_ThreadWire + length args)\<rparr>,
      env_payload = ThreadWire_image (thread_wire g fid code args result epoch cluster) @ args\<rparr>"

definition encode_migration_ack :: "HostId \<Rightarrow> MigrationRequest \<Rightarrow> QueueEnvelope" where
  "encode_migration_ack self request =
     (let hd = \<lparr>kind = MigrateAck, src_host = self, dst_host = mq_src request, payload_bytes = of_nat sizeof_MigrationAck\<rparr> in
      \<lparr>env_header = hd, env_payload = MigrationAck_image \<lparr>ma_header = hd, ma_gtid = mq_gtid request, ma_target = self,
         ma_epoch = mq_epoch request, ma_status = 6\<rparr>\<rparr>)"

section \<open>Decoding\<close>

definition wire_gtid :: "ThreadWire \<Rightarrow> GlobalThreadId" where
  "wire_gtid w = \<lparr>home_host = tw_home w, local_tid = tw_tid w\<rparr>"

text \<open>The checks of \<^verbatim>\<open>HandleMessage\<close> on a thread message.\<close>

definition DecodeThread :: "HostId \<Rightarrow> u16 \<Rightarrow> QueueEnvelope \<Rightarrow> ThreadWire option" where
  "DecodeThread self hosts m =
     (let hd = env_header m; n = length (env_payload m); w = read_ThreadWire (env_payload m) in
      if dst_host hd \<noteq> self \<or> hosts \<le> src_host hd \<or> n < sizeof_ThreadWire then None
      else if tw_magic w \<noteq> kWireMagic \<or> tw_version w \<noteq> kWireVersion then None
      else if 1 < tw_reserved w \<or> unat (payload_bytes hd) \<noteq> n \<or> n \<noteq> sizeof_ThreadWire + unat (tw_argument_bytes w) then None
      else Some w)"

definition DecodeBarrier :: "HostId \<Rightarrow> QueueEnvelope \<Rightarrow> BarrierWire option" where
  "DecodeBarrier self m =
     (let hd = env_header m; w = read_BarrierWire (env_payload m) in
      if dst_host hd \<noteq> self \<or> length (env_payload m) \<noteq> sizeof_BarrierWire \<or> payload_bytes hd \<noteq> of_nat sizeof_BarrierWire then None
      else if bw_magic w \<noteq> kWireMagic \<or> bw_version w \<noteq> kWireVersion then None
      else if 1 < bw_failed w then None
      else Some w)"

definition DecodeLoad :: "HostId \<Rightarrow> u16 \<Rightarrow> QueueEnvelope \<Rightarrow> LoadWire option" where
  "DecodeLoad self hosts m =
     (let hd = env_header m; w = read_LoadWire (env_payload m) in
      if dst_host hd \<noteq> self \<or> length (env_payload m) \<noteq> sizeof_LoadWire \<or> hosts \<le> src_host hd then None
      else if lw_magic w \<noteq> kWireMagic \<or> lw_version w \<noteq> kLoadWireVersion then None
      else Some w)"

section \<open>Round trips\<close>

lemma length_images [simp]:
  "length (BarrierWire_image b) = sizeof_BarrierWire" "length (LoadWire_image l) = sizeof_LoadWire" "length (ThreadWire_image t) = sizeof_ThreadWire"
  by (simp_all add: BarrierWire_image_def LoadWire_image_def ThreadWire_image_def sizeof_BarrierWire_def sizeof_LoadWire_def sizeof_ThreadWire_def)

lemma read_images [simp]:
  "read_BarrierWire (BarrierWire_image b) = b" "read_LoadWire (LoadWire_image l) = l" "read_ThreadWire (ThreadWire_image t @ args) = t"
  by (simp_all add: read_BarrierWire_def BarrierWire_image_def read_LoadWire_def LoadWire_image_def read_ThreadWire_def ThreadWire_image_def
      field_here field_skip field_last)

lemma DecodeBarrier_Encode [simp]:
  "DecodeBarrier h (EncodeBarrier knd s d bid g failed) =
     (if h = d then Some \<lparr>bw_magic = kWireMagic, bw_version = kWireVersion, bw_id = bid, bw_generation = g, bw_failed = of_bool failed\<rparr> else None)"
  by (simp add: DecodeBarrier_def EncodeBarrier_def Let_def)

lemma DecodeLoad_Encode [simp]:
  "DecodeLoad h n (EncodeLoad s d running pending queued sq t x) =
     (if h = d \<and> s < n then Some \<lparr>lw_magic = kWireMagic, lw_version = kLoadWireVersion, lw_running = running, lw_pending = pending,
        lw_queued = queued, lw_sequence = sq, lw_sampled_at_ns = t, lw_execution = x\<rparr> else None)"
  by (auto simp: DecodeLoad_def EncodeLoad_def Let_def)

lemma DecodeThread_Encode [simp]:
  assumes "length args < 2 ^ 16"
  shows "DecodeThread h n (EncodeThread knd s d g fid code args result epoch cluster) =
     (if h = d \<and> s < n then Some (thread_wire g fid code args result epoch cluster) else None)"
proof -
  have "unat (of_nat (sizeof_ThreadWire + length args) :: u32) = sizeof_ThreadWire + length args"
    using assms by (simp only: unat_of_nat) (simp add: sizeof_ThreadWire_def)
  moreover have "unat (of_nat (length args) :: u16) = length args" using assms by (simp add: unat_of_nat)
  ultimately show ?thesis by (auto simp: DecodeThread_def EncodeThread_def Let_def thread_wire_def)
qed

lemma encoded_args: "drop sizeof_ThreadWire (env_payload (EncodeThread knd s d g fid code args result epoch cluster)) = args"
  by (simp add: EncodeThread_def)

lemma encoded_header [simp]:
  "env_header (EncodeThread knd s d g fid code args result epoch cluster) =
     \<lparr>kind = knd, src_host = s, dst_host = d, payload_bytes = of_nat (sizeof_ThreadWire + length args)\<rparr>"
  by (simp add: EncodeThread_def)

lemma wire_gtid_wire [simp]: "wire_gtid (thread_wire g fid code args result epoch cluster) = g"
  by (simp add: wire_gtid_def thread_wire_def)

end
