(* ===== verification/Cx_Par_Runtime.thy ===== *)
theory Cx_Par_Runtime
  imports Cx_Par_Wire Cx_Barrier Cx_Lifecycle
begin

text \<open>
  The thread runtime of a host (\<^verbatim>\<open>include/cxloom/loompar/runtime.h\<close>, \<^verbatim>\<open>src/loompar/runtime.cpp\<close>): creation of threads
  here and on other hosts, the handler of incoming messages, the progress thread that reports completions and sends what
  is queued, load samples, barriers, start and end.

  The runtime joins the thread manager of the threads whose home is this host, the manager of the executions it does for
  others, the registries, the scheduler and the barriers of the other theories.  LoomMem is used through the calls of
  \<open>MemoryCalls\<close>, which \<open>loommem_calls\<close> gives by the operations of \<open>Cx_Lifecycle\<close>, \<open>Cx_Writes\<close> and \<open>Cx_Replicas\<close>.  A call
  that blocks is split at the wait.  \<open>Moment\<close> is what a call reads from outside: the clock, the calling context, whether
  a fiber can be allocated, which fibers are runnable, how full the rings are.
\<close>

section \<open>State\<close>

record 'm MemoryCalls =
  mc_query :: "WorkingSetEntry \<Rightarrow> 'm \<Rightarrow> BlockLocality list Result \<times> 'm"
  mc_release :: "u64 \<Rightarrow> 'm \<Rightarrow> (Status \<times> 'm) option"
  mc_acquire :: "'m \<Rightarrow> (Status \<times> 'm) option"
  mc_staged :: "'m \<Rightarrow> nat"
  mc_start_poller :: "'m \<Rightarrow> Status \<times> 'm"
  mc_stop_poller :: "'m \<Rightarrow> Status \<times> 'm"

record Moment =
  mo_now :: u64
  mo_context :: u64
  mo_fiber_ok :: bool
  mo_workers :: u32
  mo_runnable :: "ThreadLocalId \<Rightarrow> bool"
  mo_exec_runnable :: "ThreadLocalId \<Rightarrow> bool"
  mo_queued :: "HostId \<Rightarrow> u64 Result"

record ('f, 'm) ParRuntime =
  pr_config :: SchedulerConfig
  pr_memory :: 'm
  pr_executions :: ThreadManager
  pr_remote_executions :: "(GlobalThreadId \<times> GlobalThreadId) list"
  pr_outgoing :: "QueueEnvelope list"
  pr_progress :: bool
  pr_stopping :: bool
  pr_threads :: ThreadManager
  pr_functions :: "'f FunctionRegistry"
  pr_cluster :: "'f ClusterFunctionRegistry"
  pr_manifest_calls :: u64
  pr_scheduler :: PlacementScheduler
  pr_barriers :: BarrierManager
  pr_active_barriers :: u64
  pr_running :: u32
  pr_pending :: u32
  pr_load_sequence :: u64
  pr_remote_load :: "HostId \<Rightarrow> HostLoadSnapshot"
  pr_initialized :: bool

abbreviation self :: "('f, 'm) ParRuntime \<Rightarrow> HostId" where
  "self rt \<equiv> local_host_id (pr_config rt)"

abbreviation peers :: "('f, 'm) ParRuntime \<Rightarrow> HostId list" where
  "peers rt \<equiv> hosts_below (host_count (pr_config rt))"

definition no_load :: ExecutionLoad where
  "no_load = \<lparr>executing = 0, ready = 0, blocked = 0, workers = 0\<rparr>"

definition no_snapshot :: "HostId \<Rightarrow> HostLoadSnapshot" where
  "no_snapshot host = \<lparr>host_id = host, running_threads = 0, pending_creates = 0, queued_messages = 0, sample_sequence = 0,
     sampled_at_ns = 0, execution = no_load\<rparr>"

definition new_par :: "SchedulerConfig \<Rightarrow> 'm \<Rightarrow> ('f, 'm) ParRuntime" where
  "new_par c mm = \<lparr>pr_config = c, pr_memory = mm, pr_executions = new_manager (local_host_id c), pr_remote_executions = [], pr_outgoing = [],
     pr_progress = False, pr_stopping = False, pr_threads = new_manager (local_host_id c), pr_functions = \<lparr>fr_by_id = Map.empty, fr_by_name = Map.empty\<rparr>,
     pr_cluster = new_registry (local_host_id c) (host_count c), pr_manifest_calls = 0,
     pr_scheduler = \<lparr>rr_cursor = 0, launches = (\<lambda>_. 0), completions = (\<lambda>_. 0)\<rparr>,
     pr_barriers = \<lparr>bm_local_host = local_host_id c, bm_host_count = host_count c, bm_has_sender = True, barriers = Map.empty\<rparr>,
     pr_active_barriers = 0, pr_running = 0, pr_pending = 0, pr_load_sequence = 0, pr_remote_load = no_snapshot, pr_initialized = False\<rparr>"

text \<open>LoomMem, as the runtime calls it; the placement of a thread asks for the locality of its working set.\<close>

definition on_boundary :: "(ReplicaEnv \<Rightarrow> bool \<Rightarrow> ReplicaCache \<Rightarrow> (Status \<times> ReplicaCache) option) \<Rightarrow> 'h Runtime \<Rightarrow> (Status \<times> 'h Runtime) option" where
  "on_boundary f rt =
     (let W = rn_write rt in
      case f (rn_cache_env rt) (rn_initialized rt) (cache_view W) of
        None \<Rightarrow> None
      | Some (st, S) \<Rightarrow> Some (st, rt\<lparr>rn_write := W\<lparr>ws_cache := S, ws_token := (ws_token W)\<lparr>mem := cache_mem S\<rparr>\<rparr>\<rparr>))"

definition loommem_calls :: "(u64 \<Rightarrow> nat \<Rightarrow> CoherenceBlockDescriptor \<times> u64) \<Rightarrow> (Pause \<Rightarrow> WriteState \<Rightarrow> WriteState) \<Rightarrow> QueuePollerOptions \<Rightarrow>
    (nat \<Rightarrow> bool) option \<Rightarrow> bool \<Rightarrow> 'h \<Rightarrow> 'h Runtime MemoryCalls" where
  "loommem_calls obs others options affinity bind_ok h =
     \<lparr>mc_query = (\<lambda>entry rt. case QueryLocality (allocator_of rt) (host_count (rn_config rt)) (rn_initialized rt) obs entry (memory rt) of
         (r, M) \<Rightarrow> (r, set_memory M rt)),
      mc_release = (\<lambda>context_id rt. map_option (\<lambda>(st, W). (st, rt\<lparr>rn_write := W\<rparr>)) (SynchronizeRelease (env_of rt) others context_id (rn_write rt))),
      mc_acquire = on_boundary SynchronizeAcquire,
      mc_staged = (\<lambda>rt. staged_write_count (rn_write rt)),
      mc_start_poller = StartQueuePoller options affinity bind_ok h,
      mc_stop_poller = StopQueuePoller False\<rparr>"

section \<open>Messages and load\<close>

text \<open>A load sample replaces the one that still waits for the same host.\<close>

definition replaces :: "QueueEnvelope \<Rightarrow> QueueEnvelope \<Rightarrow> bool" where
  "replaces m pending \<longleftrightarrow> kind (env_header pending) = LoadUpdate \<and> dst_host (env_header pending) = dst_host (env_header m)"

fun replace_first :: "QueueEnvelope \<Rightarrow> QueueEnvelope list \<Rightarrow> QueueEnvelope list option" where
  "replace_first m [] = None"
| "replace_first m (p # ps) = (if replaces m p then Some (m # ps) else map_option ((#) p) (replace_first m ps))"

definition Enqueue :: "QueueEnvelope \<Rightarrow> ('f, 'm) ParRuntime \<Rightarrow> ('f, 'm) ParRuntime" where
  "Enqueue m rt = rt\<lparr>pr_outgoing :=
     (if kind (env_header m) = LoadUpdate
      then (case replace_first m (pr_outgoing rt) of Some out \<Rightarrow> out | None \<Rightarrow> pr_outgoing rt @ [m])
      else pr_outgoing rt @ [m])\<rparr>"

definition send_barrier :: "BarrierMessage list \<Rightarrow> ('f, 'm) ParRuntime \<Rightarrow> ('f, 'm) ParRuntime" where
  "send_barrier msgs rt = fold (\<lambda>b. Enqueue (EncodeBarrier (msg_kind b) (self rt) (msg_dst b) (msg_id b) (msg_generation b) (msg_failed b))) msgs rt"

definition ReserveExecution :: "HostId \<Rightarrow> ('f, 'm) ParRuntime \<Rightarrow> Status \<times> ('f, 'm) ParRuntime" where
  "ReserveExecution host rt =
     (let limit = max_running_threads_per_host (pr_config rt) in
      if host \<noteq> self rt then (kInvalidArgument, rt)
      else if limit \<noteq> 0 \<and> limit \<le> pr_running rt then (kUnavailable, rt)
      else (kOk, rt\<lparr>pr_running := pr_running rt + 1\<rparr>))"

definition ReleaseExecution :: "HostId \<Rightarrow> ('f, 'm) ParRuntime \<Rightarrow> ('f, 'm) ParRuntime" where
  "ReleaseExecution host rt = (if host = self rt then rt\<lparr>pr_running := pr_running rt - 1\<rparr> else rt)"

definition manager_load :: "u32 \<Rightarrow> (ThreadLocalId \<Rightarrow> bool) \<Rightarrow> ThreadManager \<Rightarrow> ExecutionLoad" where
  "manager_load n runnable m =
     \<lparr>executing = tm_executing m, ready = of_nat (length (filter runnable (tm_ready m))),
      blocked = of_nat (length (filter (\<lambda>t. \<not> runnable t) (tm_ready m))), workers = n\<rparr>"

definition SampleExecutionLoad :: "Moment \<Rightarrow> ('f, 'm) ParRuntime \<Rightarrow> ExecutionLoad" where
  "SampleExecutionLoad x rt =
     (let load = manager_load (mo_workers x) (mo_runnable x) (pr_threads rt); remote = manager_load (mo_workers x) (mo_exec_runnable x) (pr_executions rt) in
      \<lparr>executing = executing load + executing remote, ready = ready load + ready remote, blocked = blocked load + blocked remote,
       workers = workers load + workers remote\<rparr>)"

definition PublishLoad :: "Moment \<Rightarrow> HostId \<Rightarrow> ('f, 'm) ParRuntime \<Rightarrow> ('f, 'm) ParRuntime" where
  "PublishLoad x destination rt =
     (if destination = self rt \<or> host_count (pr_config rt) = 1 then rt
      else let queued = (case mo_queued x destination of Inr n \<Rightarrow> ucast n | Inl _ \<Rightarrow> 0) in
        Enqueue (EncodeLoad (self rt) destination (pr_running rt) (pr_pending rt) queued (pr_load_sequence rt + 1) (mo_now x) (SampleExecutionLoad x rt))
          (rt\<lparr>pr_load_sequence := pr_load_sequence rt + 1\<rparr>))"

definition publish_all :: "Moment \<Rightarrow> ('f, 'm) ParRuntime \<Rightarrow> ('f, 'm) ParRuntime" where
  "publish_all x rt = fold (PublishLoad x) (peers rt) rt"

definition BuildLocalLoadView :: "Moment \<Rightarrow> ('f, 'm) ParRuntime \<Rightarrow> HostLoadSnapshot list" where
  "BuildLocalLoadView x rt =
     map (\<lambda>host. if host = self rt
                 then \<lparr>host_id = host, running_threads = pr_running rt, pending_creates = pr_pending rt, queued_messages = 0,
                       sample_sequence = pr_load_sequence rt, sampled_at_ns = 0, execution = SampleExecutionLoad x rt\<rparr>
                 else pr_remote_load rt host) (peers rt)"

section \<open>Creating threads\<close>

definition on_scheduler :: "(PlacementScheduler \<Rightarrow> PlacementScheduler) \<Rightarrow> ('f, 'm) ParRuntime \<Rightarrow> ('f, 'm) ParRuntime" where
  "on_scheduler f rt = rt\<lparr>pr_scheduler := f (pr_scheduler rt)\<rparr>"

definition on_threads :: "(ThreadManager \<Rightarrow> 'r \<times> ThreadManager) \<Rightarrow> ('f, 'm) ParRuntime \<Rightarrow> 'r \<times> ('f, 'm) ParRuntime" where
  "on_threads f rt = (case f (pr_threads rt) of (r, m) \<Rightarrow> (r, rt\<lparr>pr_threads := m\<rparr>))"

definition select_host :: "'m MemoryCalls \<Rightarrow> Moment \<Rightarrow> ThreadPlacementHint \<Rightarrow> bool \<Rightarrow> ('f, 'm) ParRuntime \<Rightarrow> HostId Result \<times> ('f, 'm) ParRuntime" where
  "select_host mc x hint advance rt =
     (case SelectHost (pr_config rt) (Some (mc_query mc)) (mo_now x) hint (BuildLocalLoadView x rt) advance (pr_scheduler rt, pr_memory rt) of
        (r, s, mm) \<Rightarrow> (r, rt\<lparr>pr_scheduler := s, pr_memory := mm\<rparr>))"

text \<open>A thread that was not launched is completed with an error and joined at once.\<close>

definition discard_thread :: "GlobalThreadId \<Rightarrow> ('f, 'm) ParRuntime \<Rightarrow> ('f, 'm) ParRuntime" where
  "discard_thread g rt =
     (let m = snd (Join_begin g False (pr_threads rt)) in rt\<lparr>pr_threads := if Join_wake g m then snd (Join_finish g None m) else m\<rparr>)"

definition launch_here :: "Moment \<Rightarrow> GlobalThreadId \<Rightarrow> 'f option \<Rightarrow> ('f, 'm) ParRuntime \<Rightarrow> GlobalThreadId Result \<times> ('f, 'm) ParRuntime" where
  "launch_here x g function rt =
     (case ReserveExecution (self rt) rt of (reserve, rt1) \<Rightarrow>
        if reserve \<noteq> kOk then (Inl reserve, discard_thread g (snd (on_threads (MarkCompleted g (-2) 0) rt1)))
        else (case on_threads (Launch g (function \<noteq> None) (mo_fiber_ok x)) (on_scheduler (RecordLaunch (self rt)) rt1) of (st, rt2) \<Rightarrow>
                if st \<noteq> kOk then (Inl st, discard_thread g (ReleaseExecution (self rt) rt2)) else (Inr g, rt2)))"

definition launch_there :: "Moment \<Rightarrow> GlobalThreadId \<Rightarrow> HostId \<Rightarrow> u64 \<Rightarrow> u8 list \<Rightarrow> bool \<Rightarrow> ('f, 'm) ParRuntime \<Rightarrow> GlobalThreadId Result \<times> ('f, 'm) ParRuntime" where
  "launch_there x g target fid args cluster rt =
     (let limit = max_pending_creates_per_host (pr_config rt) in
      if limit \<noteq> 0 \<and> limit \<le> pr_pending rt
      then (Inl kUnavailable, discard_thread g (snd (on_threads (MarkCompleted g (-3) 0) rt)))
      else (Inr g, Enqueue (EncodeThread CreateReq (self rt) target g fid 0 args 0 0 cluster)
                     (publish_all x (on_scheduler (RecordLaunch target) (rt\<lparr>pr_pending := pr_pending rt + 1\<rparr>)))))"

definition too_long :: "HostId \<Rightarrow> u8 list \<Rightarrow> ('f, 'm) ParRuntime \<Rightarrow> bool" where
  "too_long target args rt \<longleftrightarrow> target \<noteq> self rt \<and> kQueuePayloadBytes - sizeof_ThreadWire < length args"

definition LaunchThread :: "'m MemoryCalls \<Rightarrow> Moment \<Rightarrow> u64 \<Rightarrow> 'f option \<Rightarrow> u8 list \<Rightarrow> ThreadPlacementHint \<Rightarrow> bool \<Rightarrow> ('f, 'm) ParRuntime \<Rightarrow>
    (GlobalThreadId Result \<times> ('f, 'm) ParRuntime) option" where
  "LaunchThread mc x fid function args hint cluster rt =
     (case select_host mc x hint False rt of
        (Inl st, rt1) \<Rightarrow> Some (Inl st, rt1)
      | (Inr target, rt1) \<Rightarrow>
          if host_count (pr_config rt1) \<le> target \<or> too_long target args rt1 then Some (Inl kInvalidArgument, rt1)
          else (case mc_release mc (mo_context x) (pr_memory rt1) of
                  None \<Rightarrow> None
                | Some (published, mm) \<Rightarrow>
                    let rt2 = rt1\<lparr>pr_memory := mm\<rparr> in
                    if published \<noteq> kOk then Some (Inl published, rt2)
                    else (case select_host mc x hint True rt2 of
                            (Inl st, rt3) \<Rightarrow> Some (Inl st, rt3)
                          | (Inr target1, rt3) \<Rightarrow>
                              if too_long target1 args rt3 then Some (Inl kInvalidArgument, rt3)
                              else (case on_threads (AllocateThread target1 fid args) rt3 of
                                      (Inl st, rt4) \<Rightarrow> Some (Inl st, rt4)
                                    | (Inr g, rt4) \<Rightarrow>
                                        let rt5 = snd (on_threads (MarkLaunching g) rt4) in
                                        Some (if target1 = self rt5 then launch_here x g function rt5
                                              else launch_there x g target1 fid args cluster rt5)))))"

definition RegisterFunction :: "('f \<Rightarrow> u64 option) \<Rightarrow> string \<Rightarrow> 'f option \<Rightarrow> ('f, 'm) ParRuntime \<Rightarrow> u64 Result \<times> ('f, 'm) ParRuntime" where
  "RegisterFunction pointer name function rt =
     (if \<not> pr_initialized rt then (Inl kFailedPrecondition, rt)
      else (case Register pointer name function (pr_functions rt) of (r, fr) \<Rightarrow> (r, rt\<lparr>pr_functions := fr\<rparr>)))"

definition CreateThread :: "'m MemoryCalls \<Rightarrow> Moment \<Rightarrow> string \<Rightarrow> u8 list \<Rightarrow> ThreadPlacementHint \<Rightarrow> ('f, 'm) ParRuntime \<Rightarrow>
    (GlobalThreadId Result \<times> ('f, 'm) ParRuntime) option" where
  "CreateThread mc x name args hint rt =
     (if \<not> pr_initialized rt then Some (Inl kFailedPrecondition, rt)
      else (case Lookup_name name (pr_functions rt) of
              Inl st \<Rightarrow> Some (Inl st, rt)
            | Inr fid \<Rightarrow>
                (case Resolve_id fid (pr_functions rt) of
                   Inl st \<Rightarrow> Some (Inl st, rt)
                 | Inr f \<Rightarrow> LaunchThread mc x fid (Some f) args hint False rt)))"

text \<open>The two calls that wait for the manifest of the cluster, up to the wait and after it.\<close>

definition RegisterClusterFunctions_begin :: "'f ClusterFunction list \<Rightarrow> u64 \<Rightarrow> ('f, 'm) ParRuntime \<Rightarrow> Status option \<times> ('f, 'm) ParRuntime" where
  "RegisterClusterFunctions_begin functions timeout_ms rt =
     (if timeout_ms = 0 \<or> ucast UINT32_MAX < timeout_ms then (Some kInvalidArgument, rt)
      else if \<not> pr_initialized rt then (Some kFailedPrecondition, rt)
      else (case Install functions (pr_cluster rt) of
              (Inl st, cr) \<Rightarrow> (Some st, rt\<lparr>pr_cluster := cr\<rparr>)
            | (Inr msgs, cr) \<Rightarrow>
                let rt1 = fold Enqueue msgs (rt\<lparr>pr_cluster := cr\<rparr>) in (None, rt1\<lparr>pr_manifest_calls := pr_manifest_calls rt1 + 1\<rparr>)))"

definition RegisterClusterFunctions_finish :: "u64 \<Rightarrow> bool \<Rightarrow> ('f, 'm) ParRuntime \<Rightarrow> Status option \<times> ('f, 'm) ParRuntime" where
  "RegisterClusterFunctions_finish timeout_ms timed_out rt =
     (case WaitManifest timeout_ms (pr_cluster rt) of
        Some st \<Rightarrow> (Some st, rt\<lparr>pr_manifest_calls := pr_manifest_calls rt - 1\<rparr>)
      | None \<Rightarrow> if timed_out then (Some kUnavailable, rt\<lparr>pr_manifest_calls := pr_manifest_calls rt - 1\<rparr>) else (None, rt))"

definition CreateRegisteredThread_begin :: "u64 \<Rightarrow> ('f, 'm) ParRuntime \<Rightarrow> u64 Result \<times> ('f, 'm) ParRuntime" where
  "CreateRegisteredThread_begin identity rt =
     (if \<not> pr_initialized rt then (Inl kFailedPrecondition, rt)
      else (case Lookup identity (pr_cluster rt) of
              Inl st \<Rightarrow> (Inl st, rt)
            | Inr fid \<Rightarrow> (Inr fid, rt\<lparr>pr_manifest_calls := pr_manifest_calls rt + 1\<rparr>)))"

definition leave_manifest :: "('f, 'm) ParRuntime \<Rightarrow> ('f, 'm) ParRuntime" where
  "leave_manifest rt = rt\<lparr>pr_manifest_calls := pr_manifest_calls rt - 1\<rparr>"

definition CreateRegisteredThread_finish :: "'m MemoryCalls \<Rightarrow> Moment \<Rightarrow> u64 \<Rightarrow> Status \<Rightarrow> u8 list \<Rightarrow> ThreadPlacementHint \<Rightarrow> ('f, 'm) ParRuntime \<Rightarrow>
    (GlobalThreadId Result \<times> ('f, 'm) ParRuntime) option" where
  "CreateRegisteredThread_finish mc x fid waited args hint rt =
     (if waited \<noteq> kOk then Some (Inl waited, leave_manifest rt)
      else (case Resolve fid (of_nat (length args)) True (pr_cluster rt) of
              Inl st \<Rightarrow> Some (Inl st, leave_manifest rt)
            | Inr function \<Rightarrow> map_option (\<lambda>(r, rt1). (r, leave_manifest rt1)) (LaunchThread mc x fid function args hint True rt)))"

section \<open>Waiting for threads\<close>

definition JoinThread_begin :: "GlobalThreadId \<Rightarrow> bool \<Rightarrow> ('f, 'm) ParRuntime \<Rightarrow> Status option \<times> ('f, 'm) ParRuntime" where
  "JoinThread_begin g is_self rt = (if \<not> pr_initialized rt then (Some kFailedPrecondition, rt) else on_threads (Join_begin g is_self) rt)"

definition JoinThread_finish :: "'m MemoryCalls \<Rightarrow> GlobalThreadId \<Rightarrow> ('f, 'm) ParRuntime \<Rightarrow> ((Status \<times> u64) option \<times> ('f, 'm) ParRuntime) option" where
  "JoinThread_finish mc g rt =
     (if \<not> Join_wake g (pr_threads rt) then Some (None, rt)
      else (case mc_acquire mc (pr_memory rt) of
              None \<Rightarrow> None
            | Some (st, mm) \<Rightarrow> Some (on_threads (Join_finish g (Some (HookReturns st))) (rt\<lparr>pr_memory := mm\<rparr>))))"

definition DetachThread :: "GlobalThreadId \<Rightarrow> ('f, 'm) ParRuntime \<Rightarrow> Status \<times> ('f, 'm) ParRuntime" where
  "DetachThread g rt = (if \<not> pr_initialized rt then (kFailedPrecondition, rt) else on_threads (Detach g) rt)"

text \<open>
  A worker after a fiber of a home thread has left its stack: the callback that \<^verbatim>\<open>LaunchThread\<close> gave to \<^verbatim>\<open>Launch\<close> runs,
  then the thread is completed.  The threads this host executes for others have no such callback.
\<close>

definition on_complete :: "Moment \<Rightarrow> ('f, 'm) ParRuntime \<Rightarrow> ('f, 'm) ParRuntime" where
  "on_complete x rt = publish_all x (on_scheduler (RecordCompletion (self rt)) (ReleaseExecution (self rt) rt))"

definition worker_return :: "Moment \<Rightarrow> ThreadLocalId \<Rightarrow> FiberOutcome \<Rightarrow> ('f, 'm) ParRuntime \<Rightarrow> ('f, 'm) ParRuntime" where
  "worker_return x tid outcome rt =
     (let rt1 = rt\<lparr>pr_threads := WorkerReturn tid outcome (pr_threads rt)\<rparr> in
      case outcome of FiberYielded \<Rightarrow> rt1 | _ \<Rightarrow> on_complete x rt1)"

definition execution_return :: "ThreadLocalId \<Rightarrow> FiberOutcome \<Rightarrow> ('f, 'm) ParRuntime \<Rightarrow> ('f, 'm) ParRuntime" where
  "execution_return tid outcome rt = rt\<lparr>pr_executions := WorkerReturn tid outcome (pr_executions rt)\<rparr>"

section \<open>Incoming messages\<close>

definition handle_migration :: "QueueEnvelope \<Rightarrow> ('f, 'm) ParRuntime \<Rightarrow> Status \<times> ('f, 'm) ParRuntime" where
  "handle_migration m rt =
     (if dst_host (env_header m) \<noteq> self rt \<or> length (env_payload m) \<noteq> sizeof_MigrationRequest then (kInvalidArgument, rt)
      else (kOk, Enqueue (encode_migration_ack (self rt) (read_MigrationRequest (env_payload m))) rt))"

definition handle_migration_ack :: "QueueEnvelope \<Rightarrow> ('f, 'm) ParRuntime \<Rightarrow> Status \<times> ('f, 'm) ParRuntime" where
  "handle_migration_ack m rt =
     (if dst_host (env_header m) \<noteq> self rt \<or> length (env_payload m) \<noteq> sizeof_MigrationAck then (kInvalidArgument, rt) else (kOk, rt))"

definition handle_load :: "Moment \<Rightarrow> QueueEnvelope \<Rightarrow> ('f, 'm) ParRuntime \<Rightarrow> Status \<times> ('f, 'm) ParRuntime" where
  "handle_load x m rt =
     (case DecodeLoad (self rt) (host_count (pr_config rt)) m of
        None \<Rightarrow> (kInvalidArgument, rt)
      | Some w \<Rightarrow>
          let src = src_host (env_header m) in
          if lw_sequence w < sample_sequence (pr_remote_load rt src) then (kOk, rt)
          else (kOk, rt\<lparr>pr_remote_load := (pr_remote_load rt)(src := \<lparr>host_id = src, running_threads = lw_running w, pending_creates = lw_pending w,
                  queued_messages = lw_queued w, sample_sequence = lw_sequence w, sampled_at_ns = mo_now x, execution = lw_execution w\<rparr>)\<rparr>))"

definition handle_barrier :: "QueueEnvelope \<Rightarrow> ('f, 'm) ParRuntime \<Rightarrow> Status \<times> ('f, 'm) ParRuntime" where
  "handle_barrier m rt =
     (case DecodeBarrier (self rt) m of
        None \<Rightarrow> (kInvalidArgument, rt)
      | Some w \<Rightarrow>
          (case Handle (pr_barriers rt) (kind (env_header m)) (src_host (env_header m)) (bw_id w) (bw_generation w) (bw_failed w \<noteq> 0) of
             (st, bm, msgs) \<Rightarrow> (st, send_barrier msgs (rt\<lparr>pr_barriers := bm\<rparr>))))"

text \<open>The answer to a request that cannot be run here.\<close>

definition refuse_create :: "GlobalThreadId \<Rightarrow> u32 \<Rightarrow> ('f, 'm) ParRuntime \<Rightarrow> Status \<times> ('f, 'm) ParRuntime" where
  "refuse_create g code rt = (kOk, Enqueue (EncodeThread CompleteNotify (self rt) (home_host g) g 0 code [] 0 0 False) rt)"

definition resolve_create :: "ThreadWire \<Rightarrow> ('f, 'm) ParRuntime \<Rightarrow> 'f option Result" where
  "resolve_create w rt =
     (if tw_reserved w = 1 then Resolve (tw_function w) (ucast (tw_argument_bytes w)) False (pr_cluster rt)
      else map_sum id Some (Resolve_id (tw_function w) (pr_functions rt)))"

definition run_create :: "Moment \<Rightarrow> GlobalThreadId \<Rightarrow> u64 \<Rightarrow> 'f option \<Rightarrow> u8 list \<Rightarrow> ('f, 'm) ParRuntime \<Rightarrow> Status \<times> ('f, 'm) ParRuntime" where
  "run_create x g fid function args rt =
     (case AllocateThread (self rt) fid args (pr_executions rt) of
        (Inl st, m) \<Rightarrow> (st, ReleaseExecution (self rt) (rt\<lparr>pr_executions := m\<rparr>))
      | (Inr local, m) \<Rightarrow>
          (case Launch local (function \<noteq> None) (mo_fiber_ok x) (snd (MarkLaunching local m)) of (st, m1) \<Rightarrow>
             (kOk, rt\<lparr>pr_executions := m1, pr_remote_executions := pr_remote_executions rt @ [(g, local)],
                      pr_outgoing := pr_outgoing rt @ (if st = kOk then [EncodeThread CreateAck (self rt) (home_host g) g 0 0 [] 0 0 False] else [])\<rparr>)))"

definition handle_create :: "Moment \<Rightarrow> QueueEnvelope \<Rightarrow> ThreadWire \<Rightarrow> ('f, 'm) ParRuntime \<Rightarrow> Status \<times> ('f, 'm) ParRuntime" where
  "handle_create x m w rt =
     (let g = wire_gtid w in
      if home_host g \<noteq> src_host (env_header m) then (kInvalidArgument, rt)
      else if \<exists>r \<in> set (pr_remote_executions rt). fst r = g then (kOk, rt)
      else (case resolve_create w rt of
              Inl _ \<Rightarrow> refuse_create g (-1) rt
            | Inr function \<Rightarrow>
                (case ReserveExecution (self rt) rt of (reserve, rt1) \<Rightarrow>
                   if reserve \<noteq> kOk then refuse_create g (-2) rt1
                   else run_create x g (tw_function w) function (drop sizeof_ThreadWire (env_payload m)) rt1)))"

definition if_found :: "Status \<Rightarrow> Status" where
  "if_found st = (if st = kNotFound then kOk else st)"

definition handle_completion :: "Moment \<Rightarrow> QueueEnvelope \<Rightarrow> ThreadWire \<Rightarrow> ThreadRecord \<Rightarrow> ('f, 'm) ParRuntime \<Rightarrow> Status \<times> ('f, 'm) ParRuntime" where
  "handle_completion x m w r rt =
     (if migration_epoch r \<noteq> tw_migration_epoch w then (kOk, rt)
      else if tr_state r = TCompleted then (kOk, rt)
      else (case on_threads (MarkCompleted (wire_gtid w) (tw_code w) (tw_result_value w))
                  (publish_all x (on_scheduler (RecordCompletion (src_host (env_header m))) (rt\<lparr>pr_pending := pr_pending rt - 1\<rparr>))) of
              (st, rt1) \<Rightarrow> (if_found st, rt1)))"

definition handle_ack :: "ThreadWire \<Rightarrow> ThreadRecord \<Rightarrow> ('f, 'm) ParRuntime \<Rightarrow> Status \<times> ('f, 'm) ParRuntime" where
  "handle_ack w r rt =
     (if tr_state r = TCompleted then (kOk, rt)
      else (case on_threads (MarkRunning (wire_gtid w)) rt of (st, rt1) \<Rightarrow> (if_found st, rt1)))"

definition handle_thread :: "Moment \<Rightarrow> QueueEnvelope \<Rightarrow> ('f, 'm) ParRuntime \<Rightarrow> Status \<times> ('f, 'm) ParRuntime" where
  "handle_thread x m rt =
     (case DecodeThread (self rt) (host_count (pr_config rt)) m of
        None \<Rightarrow> (kInvalidArgument, rt)
      | Some w \<Rightarrow>
          if kind (env_header m) = CreateReq then handle_create x m w rt
          else (case Find (wire_gtid w) (pr_threads rt) of
                  Inl _ \<Rightarrow> (kOk, rt)
                | Inr r \<Rightarrow>
                    if execution_host r \<noteq> src_host (env_header m) then (kInvalidArgument, rt)
                    else if kind (env_header m) = CreateAck then handle_ack w r rt
                    else if kind (env_header m) = CompleteNotify then handle_completion x m w r rt
                    else (kInvalidArgument, rt)))"

definition ParHandleMessage :: "Moment \<Rightarrow> QueueEnvelope \<Rightarrow> ('f, 'm) ParRuntime \<Rightarrow> Status \<times> ('f, 'm) ParRuntime" where
  "ParHandleMessage x m rt =
     (let k = kind (env_header m) in
      if k = FunctionManifest then (case HandleManifest m (pr_cluster rt) of (st, cr) \<Rightarrow> (st, rt\<lparr>pr_cluster := cr\<rparr>))
      else if k = MigrateReq then handle_migration m rt
      else if k = MigrateAck then handle_migration_ack m rt
      else if k = LoadUpdate then handle_load x m rt
      else if k = BarrierArrive \<or> k = BarrierRelease then handle_barrier m rt
      else handle_thread x m rt)"

section \<open>The progress thread\<close>

text \<open>Completed executions are joined and reported to their homes.\<close>

definition report_completion :: "GlobalThreadId \<times> GlobalThreadId \<Rightarrow> ThreadRecord \<Rightarrow> ('f, 'm) ParRuntime \<Rightarrow> ('f, 'm) ParRuntime" where
  "report_completion p r rt =
     (let m = snd (Join_begin (snd p) False (pr_executions rt));
          rt1 = ReleaseExecution (self rt) (rt\<lparr>pr_executions := if Join_wake (snd p) m then snd (Join_finish (snd p) None m) else m\<rparr>) in
      rt1\<lparr>pr_outgoing := pr_outgoing rt1 @ [EncodeThread CompleteNotify (self rt) (home_host (fst p)) (fst p) 0 (exit_code r) [] (result_value r) (migration_epoch r) False]\<rparr>)"

fun report_completions :: "(GlobalThreadId \<times> GlobalThreadId) list \<Rightarrow> ('f, 'm) ParRuntime \<Rightarrow> bool \<times> (GlobalThreadId \<times> GlobalThreadId) list \<times> ('f, 'm) ParRuntime" where
  "report_completions [] rt = (False, [], rt)"
| "report_completions (p # ps) rt =
     (case Find (snd p) (pr_executions rt) of
        Inr r \<Rightarrow> if tr_state r = TCompleted
                  then (case report_completions ps (report_completion p r rt) of (_, rest, rt1) \<Rightarrow> (True, rest, rt1))
                  else (case report_completions ps rt of (changed, rest, rt1) \<Rightarrow> (changed, p # rest, rt1))
      | Inl _ \<Rightarrow> (case report_completions ps rt of (changed, rest, rt1) \<Rightarrow> (changed, p # rest, rt1)))"

text \<open>
  Every message that was queued is tried once on the ring to its destination; \<open>push\<close> is the push of a ring and \<open>rs\<close>
  are the rings from this host.
\<close>

fun try_outgoing :: "('q \<Rightarrow> QueueEnvelope \<Rightarrow> Status \<times> 'q) \<Rightarrow> HostId \<Rightarrow> u16 \<Rightarrow> nat \<Rightarrow> QueueEnvelope list \<Rightarrow> (HostId \<Rightarrow> 'q) \<Rightarrow> QueueEnvelope list \<times> (HostId \<Rightarrow> 'q)" where
  "try_outgoing push s hn 0 out rs = (out, rs)"
| "try_outgoing push s hn (Suc n) [] rs = ([], rs)"
| "try_outgoing push s hn (Suc n) (m # out) rs =
     (let d = dst_host (env_header m) in
      if hn \<le> s \<or> hn \<le> d \<or> s = d then try_outgoing push s hn n (out @ [m]) rs
      else (case push (rs d) m of (st, q) \<Rightarrow>
              try_outgoing push s hn n (if st = kOk then out else out @ [m]) (rs(d := q))))"

definition Progress_round :: "('q \<Rightarrow> QueueEnvelope \<Rightarrow> Status \<times> 'q) \<Rightarrow> Moment \<Rightarrow> bool \<Rightarrow> (HostId \<Rightarrow> 'q) \<times> ('f, 'm) ParRuntime \<Rightarrow> (HostId \<Rightarrow> 'q) \<times> ('f, 'm) ParRuntime" where
  "Progress_round push x sample_due w =
     (case w of (rs, rt) \<Rightarrow>
        (case report_completions (pr_remote_executions rt) rt of (load_changed, rest, rt1) \<Rightarrow>
           (case try_outgoing push (self rt1) (host_count (pr_config rt1)) (length (pr_outgoing rt1)) (pr_outgoing rt1) rs of (out, rs1) \<Rightarrow>
              let rt2 = rt1\<lparr>pr_remote_executions := rest, pr_outgoing := out\<rparr> in
              (rs1, if load_changed \<or> sample_due then publish_all x rt2 else rt2))))"

section \<open>Barriers\<close>

definition leave_barrier :: "('f, 'm) ParRuntime \<Rightarrow> ('f, 'm) ParRuntime" where
  "leave_barrier rt = rt\<lparr>pr_active_barriers := pr_active_barriers rt - 1\<rparr>"

definition break_barrier :: "u64 \<Rightarrow> ('f, 'm) ParRuntime \<Rightarrow> ('f, 'm) ParRuntime" where
  "break_barrier bid rt = (case Break (pr_barriers rt) bid of (bm, msgs) \<Rightarrow> send_barrier msgs (rt\<lparr>pr_barriers := bm\<rparr>))"

definition Barrier_begin :: "'m MemoryCalls \<Rightarrow> Moment \<Rightarrow> u64 \<Rightarrow> u64 \<Rightarrow> ('f, 'm) ParRuntime \<Rightarrow> (WaitCall \<times> ('f, 'm) ParRuntime) option" where
  "Barrier_begin mc x bid participants rt =
     (if \<not> pr_initialized rt then Some (Refused kFailedPrecondition, rt)
      else if participants = 0 then Some (Refused kInvalidArgument, rt)
      else let rt1 = rt\<lparr>pr_active_barriers := pr_active_barriers rt + 1\<rparr> in
        (case mc_release mc (mo_context x) (pr_memory rt1) of
           None \<Rightarrow> None
         | Some (st, mm) \<Rightarrow>
             let rt2 = rt1\<lparr>pr_memory := mm\<rparr> in
             if st \<noteq> kOk then Some (Refused st, leave_barrier (break_barrier bid rt2))
             else (case Wait_arrive (pr_barriers rt2) bid participants of (wc, bm, msgs) \<Rightarrow>
                     let rt3 = send_barrier msgs (rt2\<lparr>pr_barriers := bm\<rparr>) in
                     Some (wc, case wc of Refused _ \<Rightarrow> leave_barrier rt3 | Waiting _ \<Rightarrow> rt3))))"

definition Barrier_finish :: "'m MemoryCalls \<Rightarrow> u64 \<Rightarrow> u64 \<Rightarrow> ('f, 'm) ParRuntime \<Rightarrow> (Status option \<times> ('f, 'm) ParRuntime) option" where
  "Barrier_finish mc bid g rt =
     (case Wait_wake (pr_barriers rt) bid g of
        None \<Rightarrow> Some (None, rt)
      | Some st \<Rightarrow>
          if st \<noteq> kOk then Some (Some st, leave_barrier rt)
          else (case mc_acquire mc (pr_memory rt) of
                  None \<Rightarrow> None
                | Some (st1, mm) \<Rightarrow>
                    let rt1 = rt\<lparr>pr_memory := mm\<rparr> in
                    Some (Some st1, leave_barrier (if st1 \<noteq> kOk then break_barrier bid rt1 else rt1))))"

section \<open>Start and end\<close>

definition ParInitialize :: "'m MemoryCalls \<Rightarrow> bool \<Rightarrow> ('f, 'm) ParRuntime \<Rightarrow> Status \<times> ('f, 'm) ParRuntime" where
  "ParInitialize mc can_start rt =
     (let c = pr_config rt;
          up = (\<lambda>r. (kOk, r\<lparr>pr_remote_load := (\<lambda>h. if h < host_count c then no_snapshot h else pr_remote_load r h), pr_initialized := True\<rparr>)) in
      if pr_initialized rt then (kAlreadyExists, rt)
      else if host_count c = 0 \<or> host_count c \<le> local_host_id c then (kInvalidArgument, rt)
      else if host_count c \<le> 1 then up rt
      else (case mc_start_poller mc (pr_memory rt) of (st, mm) \<Rightarrow>
              let rt1 = rt\<lparr>pr_memory := mm\<rparr> in
              if st \<noteq> kOk then (st, rt1)
              else if \<not> can_start then (kUnavailable, rt1\<lparr>pr_stopping := False, pr_memory := snd (mc_stop_poller mc mm)\<rparr>)
              else up (rt1\<lparr>pr_stopping := False, pr_progress := True\<rparr>)))"

definition drop_samples :: "('f, 'm) ParRuntime \<Rightarrow> ('f, 'm) ParRuntime" where
  "drop_samples rt = rt\<lparr>pr_outgoing := filter (\<lambda>m. kind (env_header m) \<noteq> LoadUpdate) (pr_outgoing rt)\<rparr>"

text \<open>The wait for the queue to drain; \<open>others i\<close> is what the progress thread and the poller do in round \<open>i\<close>.\<close>

fun drain_rounds :: "(nat \<Rightarrow> ('f, 'm) ParRuntime \<Rightarrow> ('f, 'm) ParRuntime) \<Rightarrow> nat \<Rightarrow> ('f, 'm) ParRuntime \<Rightarrow> bool \<times> ('f, 'm) ParRuntime" where
  "drain_rounds others n rt =
     (let rt1 = drop_samples rt in
      if pr_outgoing rt1 = [] then (True, rt1)
      else case n of 0 \<Rightarrow> (False, rt1) | Suc k \<Rightarrow> drain_rounds others k (others k rt1))"

definition ParFinalize :: "'m MemoryCalls \<Rightarrow> (nat \<Rightarrow> ('f, 'm) ParRuntime \<Rightarrow> ('f, 'm) ParRuntime) \<Rightarrow> nat \<Rightarrow> u64 list \<Rightarrow> ('f, 'm) ParRuntime \<Rightarrow> Status \<times> ('f, 'm) ParRuntime" where
  "ParFinalize mc others rounds barrier_ids rt =
     (if \<not> pr_initialized rt then (kOk, rt)
      else if pr_manifest_calls rt \<noteq> 0 then (kFailedPrecondition, rt)
      else if pr_active_barriers rt \<noteq> 0 \<or> \<not> barriers_idle (pr_barriers rt) barrier_ids \<or> mc_staged mc (pr_memory rt) \<noteq> 0 then (kFailedPrecondition, rt)
      else (case drain_rounds others rounds rt of (drained_all, rt1) \<Rightarrow>
              if \<not> drained_all then (kFailedPrecondition, rt1)
              else let rt2 = drop_samples rt1 in
                if tm_records (pr_threads rt2) \<noteq> Map.empty \<or> pr_remote_executions rt2 \<noteq> [] \<or> pr_outgoing rt2 \<noteq> [] then (kFailedPrecondition, rt2)
                else if 1 < host_count (pr_config rt2)
                then (case mc_stop_poller mc (pr_memory rt2) of (st, mm) \<Rightarrow>
                        let rt3 = rt2\<lparr>pr_memory := mm, pr_stopping := True, pr_progress := False\<rparr> in
                        (st, if st \<noteq> kOk then rt3 else rt3\<lparr>pr_initialized := False\<rparr>))
                else (kOk, rt2\<lparr>pr_initialized := False\<rparr>)))"

definition par_destroy :: "'m MemoryCalls \<Rightarrow> ('f, 'm) ParRuntime \<Rightarrow> ('f, 'm) ParRuntime" where
  "par_destroy mc rt =
     (let rt1 = rt\<lparr>pr_stopping := True, pr_progress := False\<rparr> in
      if pr_initialized rt1 \<and> 1 < host_count (pr_config rt1) then rt1\<lparr>pr_memory := snd (mc_stop_poller mc (pr_memory rt1))\<rparr> else rt1)"

end
