(* ===== verification/Cx_Par_Local.thy ===== *)
theory Cx_Par_Local
  imports Cx_Par_Runtime
begin

text \<open>
  What the operations of the thread manager do to the threads that count against the limits of a host: the home threads
  that are away on other hosts, and the threads that have a fiber here.
\<close>

section \<open>The records of a manager\<close>

definition far :: "HostId \<Rightarrow> ThreadEntry option \<Rightarrow> bool" where
  "far host r = (case r of None \<Rightarrow> False
     | Some e \<Rightarrow> tr_state (te_record e) \<in> {TLaunching, TRunning} \<and> execution_host (te_record e) \<noteq> host)"

definition fibered :: "ThreadEntry option \<Rightarrow> bool" where
  "fibered r = (case r of None \<Rightarrow> False | Some e \<Rightarrow> te_fiber e)"

definition away :: "ThreadManager \<Rightarrow> ThreadLocalId set" where
  "away m = {t. far (tm_local_host m) (tm_records m t)}"

definition fibers :: "ThreadManager \<Rightarrow> ThreadLocalId set" where
  "fibers m = {t. fibered (tm_records m t)}"

text \<open>Between the calls of the runtime no thread is merely allocated, and a fiber runs a thread that is executed here.\<close>

definition settled :: "HostId \<Rightarrow> ThreadEntry \<Rightarrow> bool" where
  "settled host e \<longleftrightarrow> tr_state (te_record e) \<noteq> TAllocated \<and> (te_fiber e \<longrightarrow> execution_host (te_record e) = host)"

definition tame :: "ThreadManager \<Rightarrow> bool" where
  "tame m \<longleftrightarrow> threads_inv m \<and> finite (dom (tm_records m)) \<and> (\<forall>t e. tm_records m t = Some e \<longrightarrow> settled (tm_local_host m) e)"

definition quiet :: "ThreadManager \<Rightarrow> ThreadManager \<Rightarrow> bool" where
  "quiet m m' \<longleftrightarrow> tame m' \<and> tm_local_host m' = tm_local_host m \<and> away m' = away m \<and> fibers m' = fibers m"

lemma far_simps [simp]: "\<not> far host None" "\<not> fibered None" "fibered (Some e) = te_fiber e"
  "far host (Some e) \<longleftrightarrow> tr_state (te_record e) \<in> {TLaunching, TRunning} \<and> execution_host (te_record e) \<noteq> host"
  by (simp_all add: far_def fibered_def)

lemma tame_inv: "tame m \<Longrightarrow> threads_inv m"
  by (simp add: tame_def)

lemma tame_new: "tame (new_manager host)" "away (new_manager host) = {}" "fibers (new_manager host) = {}"
  by (simp_all add: tame_def threads_inv_def new_manager_def away_def fibers_def)

lemma no_records: "tm_records m = Map.empty \<Longrightarrow> away m = {} \<and> fibers m = {}"
  by (simp add: away_def fibers_def)

lemma tame_finite:
  assumes "tame m"
  shows "finite (away m)" "finite (fibers m)"
proof -
  have d: "finite (dom (tm_records m))" using assms by (simp add: tame_def)
  have "t \<in> dom (tm_records m)" if "far (tm_local_host m) (tm_records m t) \<or> fibered (tm_records m t)" for t
    using that by (cases "tm_records m t") auto
  then have "away m \<subseteq> dom (tm_records m)" "fibers m \<subseteq> dom (tm_records m)" unfolding away_def fibers_def by blast+
  then show "finite (away m)" "finite (fibers m)" using d by (auto intro: finite_subset)
qed

lemma quiet_refl: "tame m \<Longrightarrow> quiet m m"
  by (simp add: quiet_def)

lemma quiet_trans: "quiet m m' \<Longrightarrow> quiet m' m'' \<Longrightarrow> quiet m m''"
  by (simp add: quiet_def)

text \<open>One record changes, and the invariant is kept.\<close>

lemma tame_update:
  assumes "tame m" and "table_step m m'" and "tm_records m' = (tm_records m)(t := r)" and "\<And>e. r = Some e \<Longrightarrow> settled (tm_local_host m) e"
  shows "tame m'" and "tm_local_host m' = tm_local_host m"
    and "away m' = (if far (tm_local_host m) r then insert t (away m) else away m - {t})"
    and "fibers m' = (if fibered r then insert t (fibers m) else fibers m - {t})"
proof -
  have inv: "threads_inv m'" "tm_local_host m' = tm_local_host m" using assms(2) by (simp_all add: table_step_def)
  have "dom (tm_records m') \<subseteq> insert t (dom (tm_records m))" using assms(3) by (auto split: if_splits)
  then have "finite (dom (tm_records m'))" using assms(1) finite_subset by (auto simp: tame_def)
  then show "tame m'" using assms inv by (auto simp: tame_def)
  show "tm_local_host m' = tm_local_host m" by (rule inv(2))
  show "away m' = (if far (tm_local_host m) r then insert t (away m) else away m - {t})"
    "fibers m' = (if fibered r then insert t (fibers m) else fibers m - {t})"
    by (auto simp: away_def fibers_def inv(2) assms(3) split: if_splits)
qed

lemma quiet_update:
  assumes "tame m" and "table_step m m'" and "tm_records m' = (tm_records m)(t := r)" and "far (tm_local_host m) r = far (tm_local_host m) (tm_records m t)"
    and "fibered r = fibered (tm_records m t)" and "\<And>e. r = Some e \<Longrightarrow> settled (tm_local_host m) e"
  shows "quiet m m'"
  using tame_update [OF assms(1-3,6)] assms(4,5) by (auto simp: quiet_def away_def fibers_def split: if_splits)

lemma tame_entry:
  assumes "tame m" and "tm_records m t = Some e"
  shows "thread_ok (tm_local_host m) t e" "settled (tm_local_host m) e"
  using assms threads_inv_entry by (auto simp: tame_def)

section \<open>Operations of the manager\<close>

lemma MarkRunning_quiet:
  assumes "tame m"
  shows "quiet m (snd (MarkRunning g m))"
proof (cases "snd (MarkRunning g m) = m")
  case False
  then obtain e where e: "find_home m g = Some e" "tr_state (te_record e) = TLaunching \<or> tr_state (te_record e) = TRunning"
    "snd (MarkRunning g m) = put_thread (local_tid g) (set_state TRunning e) m"
    by (auto simp: MarkRunning_def split: option.splits if_splits)
  then have r: "tm_records m (local_tid g) = Some e" by (simp add: find_home_Some)
  show ?thesis
    by (rule quiet_update [OF assms MarkRunning_step [OF tame_inv [OF assms]], where t = "local_tid g" and r = "Some (set_state TRunning e)"])
      (use e r tame_entry [OF assms r] in \<open>auto simp: put_thread_def set_state_def settled_def\<close>)
qed (simp add: quiet_refl [OF assms])

lemma Join_begin_quiet:
  assumes "tame m"
  shows "quiet m (snd (Join_begin g is_self m))"
proof (cases "snd (Join_begin g is_self m) = m")
  case False
  then obtain e where e: "find_home m g = Some e" "snd (Join_begin g is_self m) = put_thread (local_tid g) (e\<lparr>te_joining := True\<rparr>) m"
    by (auto simp: Join_begin_def split: option.splits if_splits)
  then have r: "tm_records m (local_tid g) = Some e" by (simp add: find_home_Some)
  show ?thesis
    by (rule quiet_update [OF assms Join_begin_step [OF tame_inv [OF assms]], where t = "local_tid g" and r = "Some (e\<lparr>te_joining := True\<rparr>)"])
      (use e r tame_entry [OF assms r] in \<open>auto simp: put_thread_def settled_def\<close>)
qed (simp add: quiet_refl [OF assms])

text \<open>A thread that is joined has completed.\<close>

lemma Join_finish_quiet:
  assumes "tame m" and "Join_wake g m"
  shows "quiet m (snd (Join_finish g acquire m))"
proof -
  obtain e where e: "tm_records m (local_tid g) = Some e" "tr_state (te_record e) = TCompleted"
    using assms(2) by (auto simp: Join_wake_def split: option.splits)
  have ok: "thread_ok (tm_local_host m) (local_tid g) e" by (rule tame_entry(1) [OF assms(1) e(1)])
  have m': "snd (Join_finish g acquire m) = erase_thread (local_tid g) m" by (simp add: Join_finish_def e(1) Let_def)
  have "table_step m (erase_thread (local_tid g) m)"
    by (rule table_step_erase [OF tame_inv [OF assms(1)] e(1)]) (use ok e(2) in \<open>auto simp: thread_ok_def disposable_def\<close>)
  then show ?thesis unfolding m'
    by (rule quiet_update [OF assms(1), where t = "local_tid g" and r = None]) (use ok e in \<open>auto simp: erase_thread_def thread_ok_def\<close>)
qed

lemma Detach_quiet:
  assumes "tame m"
  shows "quiet m (snd (Detach g m))"
proof (cases "snd (Detach g m) = m")
  case False
  then obtain e where e: "find_home m g = Some e" "(snd (Detach g m) = erase_thread (local_tid g) m \<and> tr_state (te_record e) = TCompleted) \<or>
      snd (Detach g m) = put_thread (local_tid g) (e\<lparr>te_detached := True\<rparr>) m"
    by (auto simp: Detach_def split: option.splits if_splits)
  then have r: "tm_records m (local_tid g) = Some e" by (simp add: find_home_Some)
  note ok = tame_entry [OF assms r]
  from e(2) show ?thesis
  proof
    assume a: "snd (Detach g m) = erase_thread (local_tid g) m \<and> tr_state (te_record e) = TCompleted"
    show ?thesis
      by (rule quiet_update [OF assms Detach_step [OF tame_inv [OF assms]], where t = "local_tid g" and r = None])
        (use a r ok in \<open>auto simp: erase_thread_def thread_ok_def\<close>)
  next
    assume a: "snd (Detach g m) = put_thread (local_tid g) (e\<lparr>te_detached := True\<rparr>) m"
    show ?thesis
      by (rule quiet_update [OF assms Detach_step [OF tame_inv [OF assms]], where t = "local_tid g" and r = "Some (e\<lparr>te_detached := True\<rparr>)"])
        (use a r ok in \<open>auto simp: put_thread_def settled_def\<close>)
  qed
qed (simp add: quiet_refl [OF assms])

lemma WorkerPick_quiet:
  assumes "tame m"
  shows "quiet m (snd (WorkerPick k runnable m))"
proof (cases "snd (WorkerPick k runnable m) = m")
  case False
  then obtain t e where e: "tm_records m t = Some e" "tm_records (snd (WorkerPick k runnable m)) = (tm_records m)(t \<mapsto> e\<lparr>te_worker := int k, te_queued := False\<rparr>)"
    by (auto simp: WorkerPick_def put_thread_def split: option.splits)
  show ?thesis
    by (rule quiet_update [OF assms WorkerPick_step [OF tame_inv [OF assms]] e(2)]) (use e tame_entry [OF assms e(1)] in \<open>auto simp: settled_def\<close>)
qed (simp add: quiet_refl [OF assms])

section \<open>The end of a thread\<close>

text \<open>A fiber that yields changes nothing here; one that ends takes its thread off the manager.\<close>

lemma WorkerReturn_yield:
  assumes "tame m" and e: "tm_records m t = Some e" "te_fiber e" "\<not> te_queued e"
  shows "quiet m (WorkerReturn t FiberYielded m)"
proof -
  let ?e1 = "if migration_state (te_record e) = MsQuiesced then e\<lparr>te_record := (te_record e)\<lparr>migration_state := MsResumed\<rparr>\<rparr> else e"
  have r: "tm_records (WorkerReturn t FiberYielded m) = (tm_records m)(t \<mapsto> ?e1\<lparr>te_queued := True\<rparr>)"
    by (simp add: WorkerReturn_def e Let_def put_thread_def)
  show ?thesis
    by (rule quiet_update [OF assms(1) WorkerReturn_step [OF tame_inv [OF assms(1)] e] r]) (use e tame_entry [OF assms(1) e(1)] in \<open>auto simp: settled_def\<close>)
qed


lemma RequestMigration_quiet:
  assumes "tame m"
  shows "quiet m (snd (RequestMigration g target m))"
proof (cases "snd (RequestMigration g target m) = m")
  case False
  then obtain e where e: "find_home m g = Some e" "snd (RequestMigration g target m) = put_thread (local_tid g)
      (e\<lparr>te_record := (te_record e)\<lparr>migration_target := target, migration_epoch := migration_epoch (te_record e) + 1, migration_state := MsRequested\<rparr>\<rparr>) m"
    by (auto simp: RequestMigration_def split: option.splits if_splits)
  then have r: "tm_records m (local_tid g) = Some e" by (simp add: find_home_Some)
  show ?thesis
    by (rule quiet_update [OF assms RequestMigration_step [OF tame_inv [OF assms]], where t = "local_tid g"
          and r = "Some (e\<lparr>te_record := (te_record e)\<lparr>migration_target := target, migration_epoch := migration_epoch (te_record e) + 1, migration_state := MsRequested\<rparr>\<rparr>)"])
      (use e r tame_entry [OF assms r] in \<open>auto simp: put_thread_def settled_def\<close>)
qed (simp add: quiet_refl [OF assms])

lemma MigrationSafePoint_quiet:
  assumes "tame m"
  shows "quiet m (snd (MigrationSafePoint g called m))"
proof (cases "snd (MigrationSafePoint g called m) = m")
  case False
  then obtain e where e: "find_home m g = Some e"
    "snd (MigrationSafePoint g called m) = put_thread (local_tid g) (e\<lparr>te_record := (te_record e)\<lparr>migration_state := MsQuiesced\<rparr>\<rparr>) m"
    by (auto simp: MigrationSafePoint_def split: option.splits if_splits)
  then have r: "tm_records m (local_tid g) = Some e" by (simp add: find_home_Some)
  show ?thesis
    by (rule quiet_update [OF assms MigrationSafePoint_step [OF tame_inv [OF assms]], where t = "local_tid g"
          and r = "Some (e\<lparr>te_record := (te_record e)\<lparr>migration_state := MsQuiesced\<rparr>\<rparr>)"])
      (use e r tame_entry [OF assms r] in \<open>auto simp: put_thread_def settled_def\<close>)
qed (simp add: quiet_refl [OF assms])

lemma run_callback_host: "execution_host (te_record (run_callback cb e)) = execution_host (te_record e)"
  by (simp add: run_callback_def Let_def split: option.splits)

lemma WorkerReturn_end:
  assumes "tame m" and e: "tm_records m t = Some e" "te_fiber e" "\<not> te_queued e" and "outcome \<noteq> FiberYielded"
  shows "tame (WorkerReturn t outcome m)" "tm_local_host (WorkerReturn t outcome m) = tm_local_host m"
    "away (WorkerReturn t outcome m) = away m" "fibers (WorkerReturn t outcome m) = fibers m - {t}"
proof -
  define e1 where "e1 = (case outcome of FiberDone cb \<Rightarrow> run_callback cb e | _ \<Rightarrow> e\<lparr>te_exit_code := -1\<rparr>)"
  have ok: "thread_ok (tm_local_host m) t e" "settled (tm_local_host m) e" using tame_entry [OF assms(1) e(1)] by auto
  have f: "tr_gtid (te_record e1) = tr_gtid (te_record e)" "tr_state (te_record e1) = tr_state (te_record e)" "te_detached e1 = te_detached e"
    "execution_host (te_record e1) = tm_local_host m"
    using ok e by (auto simp: e1_def run_callback_frame run_callback_host settled_def split: FiberOutcome.splits)
  have g: "tr_gtid (te_record e) = \<lparr>home_host = tm_local_host m, local_tid = t\<rparr>" "tr_state (te_record e) = TRunning" using ok e by (simp_all add: thread_ok_def)
  define r where "r = (if te_detached e then None
    else Some (e1\<lparr>te_fiber := False, te_record := (te_record e1)\<lparr>exit_code := te_exit_code e1, result_value := te_result e1, tr_state := TCompleted\<rparr>\<rparr>))"
  have w: "WorkerReturn t outcome m = snd (MarkCompleted (tr_gtid (te_record e1)) (te_exit_code e1) (te_result e1)
      (put_thread t (e1\<lparr>te_fiber := False\<rparr>) (m\<lparr>tm_executing := tm_executing m - 1\<rparr>)))"
    using e(1) assms(5) by (auto simp: WorkerReturn_def Let_def e1_def split: FiberOutcome.splits)
  have rec: "tm_records (WorkerReturn t outcome m) = (tm_records m)(t := r)"
    unfolding w using f g by (simp add: MarkCompleted_def find_home_def put_thread_def erase_thread_def r_def)
  have s: "\<And>d. r = Some d \<Longrightarrow> settled (tm_local_host m) d" by (auto simp: r_def settled_def split: if_splits)
  note u = tame_update [OF assms(1) WorkerReturn_step [OF tame_inv [OF assms(1)] e] rec s]
  have "t \<notin> away m" using e ok(2) by (simp add: away_def settled_def)
  then show "tame (WorkerReturn t outcome m)" "tm_local_host (WorkerReturn t outcome m) = tm_local_host m"
    "away (WorkerReturn t outcome m) = away m" "fibers (WorkerReturn t outcome m) = fibers m - {t}"
    using u by (auto simp: r_def split: if_splits)
qed

text \<open>The home learns that a thread that does not run here has ended.\<close>

lemma MarkCompleted_outside:
  assumes "tame m" and e: "tm_records m t = Some e" "tr_state (te_record e) = TLaunching \<or> tr_state (te_record e) = TRunning" "\<not> te_fiber e"
    and g: "home_host g = tm_local_host m" "local_tid g = t"
  shows "fst (MarkCompleted g code v m) = kOk" "tame (snd (MarkCompleted g code v m))" "tm_local_host (snd (MarkCompleted g code v m)) = tm_local_host m"
    "away (snd (MarkCompleted g code v m)) = away m - {t}" "fibers (snd (MarkCompleted g code v m)) = fibers m"
    "tm_records (snd (MarkCompleted g code v m)) = (tm_records m)(t := if te_detached e then None
       else Some (e\<lparr>te_record := (te_record e)\<lparr>exit_code := code, result_value := v, tr_state := TCompleted\<rparr>\<rparr>))"
proof -
  let ?m = "snd (MarkCompleted g code v m)"
  define r where "r = (if te_detached e then None else Some (e\<lparr>te_record := (te_record e)\<lparr>exit_code := code, result_value := v, tr_state := TCompleted\<rparr>\<rparr>))"
  have home: "find_home m g = Some e" using e g by (simp add: find_home_def)
  have rec: "tm_records ?m = (tm_records m)(t := r)" "fst (MarkCompleted g code v m) = kOk"
    using e(2) g(2) by (auto simp: MarkCompleted_def home put_thread_def erase_thread_def r_def)
  have step: "table_step m ?m" by (rule MarkCompleted_step [OF tame_inv [OF assms(1)]]) (use home e(3) in simp)
  have s: "\<And>d. r = Some d \<Longrightarrow> settled (tm_local_host m) d" using tame_entry(2) [OF assms(1) e(1)] by (auto simp: r_def settled_def split: if_splits)
  note u = tame_update [OF assms(1) step rec(1) s]
  have "t \<notin> fibers m" using e by (simp add: fibers_def)
  then show "tame ?m" "tm_local_host ?m = tm_local_host m" "away ?m = away m - {t}" "fibers ?m = fibers m"
    using u e(3) by (auto simp: r_def split: if_splits)
  show "fst (MarkCompleted g code v m) = kOk" by (rule rec(2))
  show "tm_records ?m = (tm_records m)(t := if te_detached e then None
       else Some (e\<lparr>te_record := (te_record e)\<lparr>exit_code := code, result_value := v, tr_state := TCompleted\<rparr>\<rparr>))"
    using rec(1) by (simp add: r_def)
qed

section \<open>The start of a thread\<close>

text \<open>The two calls that enter a thread, which the runtime makes one after the other.\<close>

definition entered :: "HostId \<Rightarrow> u64 \<Rightarrow> u8 list \<Rightarrow> ThreadManager \<Rightarrow> GlobalThreadId \<times> ThreadManager" where
  "entered host fid args m =
     (let g = \<lparr>home_host = tm_local_host m, local_tid = tm_next_tid m\<rparr> in (g, snd (MarkLaunching g (snd (AllocateThread host fid args m)))))"

lemma AllocateThread_gtid: "fst (AllocateThread host fid args m) = Inr \<lparr>home_host = tm_local_host m, local_tid = tm_next_tid m\<rparr>"
  by (simp add: AllocateThread_def Let_def)

lemma entered_ok:
  assumes "tame m" and "tm_next_tid m \<noteq> UINT64_MAX" and "entered host fid args m = (g, m')"
  obtains e where "tm_records m' (local_tid g) = Some e" "tr_state (te_record e) = TLaunching" "execution_host (te_record e) = host"
    "\<not> te_fiber e" "\<not> te_detached e" "\<not> te_joining e" "home_host g = tm_local_host m'" "tame m'" "tm_local_host m' = tm_local_host m"
    "away m' = (if host = tm_local_host m then away m else insert (local_tid g) (away m))" "fibers m' = fibers m"
    "local_tid g \<notin> away m" "local_tid g \<notin> fibers m"
proof -
  let ?t = "tm_next_tid m" and ?m1 = "snd (AllocateThread host fid args m)"
  note a = AllocateThread_step [OF tame_inv [OF assms(1)] assms(2)]
  have g: "g = \<lparr>home_host = tm_local_host m, local_tid = ?t\<rparr>" "m' = snd (MarkLaunching g ?m1)" using assms(3) by (auto simp: entered_def Let_def)
  obtain e0 where e0: "tm_records ?m1 ?t = Some e0" "tr_state (te_record e0) = TAllocated" "execution_host (te_record e0) = host"
    "\<not> te_fiber e0" "\<not> te_detached e0" "\<not> te_joining e0" "tm_records ?m1 = (tm_records m)(?t \<mapsto> e0)" "tm_local_host ?m1 = tm_local_host m"
    using a(2) by (simp add: AllocateThread_def Let_def put_thread_def)
  define e where "e = set_state TLaunching e0"
  have m': "m' = put_thread ?t e ?m1" using e0 by (simp add: g MarkLaunching_def find_home_def e_def)
  have rec: "tm_records m' = (tm_records m)(?t \<mapsto> e)" using e0(7) by (simp add: m' put_thread_def)
  have inv: "threads_inv ?m1" using a(1) by (simp add: table_step_def)
  have t2: "table_step ?m1 m'" unfolding g(2) by (rule MarkLaunching_step [OF inv])
  have tame': "tame m'"
    using t2 rec e0 assms(1) by (auto simp: tame_def table_step_def settled_def e_def set_state_def)
  have local: "tm_local_host m' = tm_local_host m" using t2 e0(8) by (simp add: table_step_def)
  have e: "tr_state (te_record e) = TLaunching" "execution_host (te_record e) = host" "\<not> te_fiber e" "\<not> te_detached e" "\<not> te_joining e"
    using e0 by (simp_all add: e_def set_state_def)
  have out: "?t \<notin> away m" "?t \<notin> fibers m" using a(2) by (simp_all add: away_def fibers_def)
  have aw: "away m' = (if host = tm_local_host m then away m else insert ?t (away m))" "fibers m' = fibers m"
    using e a(2) by (auto simp: away_def fibers_def local rec)
  show ?thesis by (rule that [of e]) (use rec e tame' local aw out in \<open>simp_all add: g\<close>)
qed

text \<open>A launch here adds a fiber when it succeeds and nothing when it does not.\<close>

lemma Launch_here:
  assumes "tame m" and e: "tm_records m (local_tid g) = Some e" "tr_state (te_record e) = TLaunching" "execution_host (te_record e) = tm_local_host m"
    and g: "home_host g = tm_local_host m"
  shows "fst (Launch g f ok m) = kOk \<Longrightarrow> tame (snd (Launch g f ok m)) \<and> tm_local_host (snd (Launch g f ok m)) = tm_local_host m \<and>
      away (snd (Launch g f ok m)) = away m \<and> fibers (snd (Launch g f ok m)) = insert (local_tid g) (fibers m)"
    and "fst (Launch g f ok m) \<noteq> kOk \<Longrightarrow> quiet m (snd (Launch g f ok m))"
    and "local_tid g \<notin> fibers m"
proof -
  let ?m = "snd (Launch g f ok m)" and ?t = "local_tid g"
  have home: "find_home m g = Some e" using e g by (simp add: find_home_def)
  have nf: "\<not> te_fiber e" using tame_entry(1) [OF assms(1) e(1)] e(2) by (auto simp: thread_ok_def)
  show nt: "?t \<notin> fibers m" using nf e by (simp add: fibers_def)
  have na: "?t \<notin> away m" using e by (simp add: away_def)
  have step: "table_step m ?m" by (rule Launch_step [OF tame_inv [OF assms(1)]])
  show "quiet m ?m" if fail: "fst (Launch g f ok m) \<noteq> kOk"
  proof (cases f)
    case False
    then have "?m = m" by (simp add: Launch_def home)
    then show ?thesis by (simp add: quiet_refl [OF assms(1)])
  next
    case True
    with fail have "tm_records ?m = (tm_records m)(?t \<mapsto> e\<lparr>te_record := (te_record e)\<lparr>arg_bytes := [], tr_state := TCompleted, exit_code := -1\<rparr>\<rparr>)"
      using e by (auto simp: Launch_def home Let_def put_thread_def split: if_splits)
    then show ?thesis by (rule quiet_update [OF assms(1) step]) (use e nf in \<open>auto simp: settled_def\<close>)
  qed
  show "tame ?m \<and> tm_local_host ?m = tm_local_host m \<and> away ?m = away m \<and> fibers ?m = insert ?t (fibers m)" if launched: "fst (Launch g f ok m) = kOk"
  proof -
    have f: "f" "ok" using launched e by (auto simp: Launch_def home Let_def split: if_splits)
    define e1 where "e1 = (set_state TRunning (e\<lparr>te_record := (te_record e)\<lparr>arg_bytes := []\<rparr>\<rparr>))\<lparr>te_fiber := True, te_queued := True\<rparr>"
    have rec: "tm_records ?m = (tm_records m)(?t \<mapsto> e1)" using e f by (simp add: Launch_def home Let_def put_thread_def e1_def)
    have s: "\<And>d. Some e1 = Some d \<Longrightarrow> settled (tm_local_host m) d" using e by (simp add: settled_def e1_def set_state_def)
    show ?thesis using tame_update [OF assms(1) step rec s] e na by (auto simp: e1_def set_state_def)
  qed
qed

text \<open>A join that does not wait, as the runtime does it for the threads it gives up and for the executions it has reported.\<close>

definition joined_now :: "GlobalThreadId \<Rightarrow> ThreadManager \<Rightarrow> ThreadManager" where
  "joined_now g m = (let m1 = snd (Join_begin g False m) in if Join_wake g m1 then snd (Join_finish g None m1) else m1)"

lemma joined_now_quiet:
  assumes "tame m"
  shows "quiet m (joined_now g m)"
proof -
  note q = Join_begin_quiet [OF assms, of g False]
  then have t: "tame (snd (Join_begin g False m))" by (simp add: quiet_def)
  show ?thesis using q quiet_trans [OF q Join_finish_quiet [OF t]] by (simp add: joined_now_def Let_def)
qed

end
