(* ===== verification/Cx_Par_Limits.thy ===== *)
theory Cx_Par_Limits
  imports Cx_Par_Local
begin

text \<open>
  The limits of a host (\<^verbatim>\<open>src/loompar/runtime.cpp\<close>): how many threads may run on it and how many of its threads may be
  away.  Both are kept by counters that creation, completion, the progress thread and the message handler change; the
  counters are shown to be exact and the limits to hold in every reachable state, whatever messages arrive.
\<close>

section \<open>Counters\<close>

definition counted :: "u32 \<Rightarrow> u32 \<Rightarrow> nat \<Rightarrow> bool" where
  "counted limit w n \<longleftrightarrow> w = of_nat n \<and> (limit \<noteq> 0 \<longrightarrow> n \<le> unat limit)"

lemma counted_more:
  assumes "counted limit w n" and "\<not> (limit \<noteq> 0 \<and> limit \<le> w)"
  shows "counted limit (w + 1) (Suc n)"
proof -
  have "Suc n \<le> unat limit" if l: "limit \<noteq> 0"
  proof -
    have "n \<le> unat limit" "w < limit" using assms l by (auto simp: counted_def)
    moreover from this have "n < 2 ^ 32" using unat_u32_bound [of limit] by simp
    then have "unat w = n" using assms(1) by (simp add: counted_def unat_of_nat take_bit_nat_eq_self)
    ultimately show ?thesis by (simp add: word_less_nat_alt)
  qed
  then show ?thesis using assms(1) by (simp add: counted_def add.commute)
qed

lemma counted_less: "counted limit w (Suc n) \<Longrightarrow> counted limit (w - 1) n"
  by (auto simp: counted_def)

section \<open>The invariant\<close>

definition par_ok :: "('f, 'm) ParRuntime \<Rightarrow> bool" where
  "par_ok rt \<longleftrightarrow>
     tame (pr_threads rt) \<and> tm_local_host (pr_threads rt) = self rt \<and>
     tame (pr_executions rt) \<and> tm_local_host (pr_executions rt) = self rt \<and>
     fibers (pr_executions rt) \<subseteq> (\<lambda>p. local_tid (snd p)) ` set (pr_remote_executions rt) \<and>
     counted (max_running_threads_per_host (pr_config rt)) (pr_running rt) (card (fibers (pr_threads rt)) + length (pr_remote_executions rt)) \<and>
     counted (max_pending_creates_per_host (pr_config rt)) (pr_pending rt) (card (away (pr_threads rt)))"

text \<open>The part of the state the invariant speaks of; the operations that leave it alone need no more argument.\<close>

definition shape :: "('f, 'm) ParRuntime \<Rightarrow> SchedulerConfig \<times> ThreadManager \<times> ThreadManager \<times> (GlobalThreadId \<times> GlobalThreadId) list \<times> u32 \<times> u32" where
  "shape rt = (pr_config rt, pr_threads rt, pr_executions rt, pr_remote_executions rt, pr_running rt, pr_pending rt)"

lemma shape_eq:
  assumes "shape rt = shape rt'"
  shows "pr_config rt = pr_config rt'" "pr_threads rt = pr_threads rt'" "pr_executions rt = pr_executions rt'"
    "pr_remote_executions rt = pr_remote_executions rt'" "pr_running rt = pr_running rt'" "pr_pending rt = pr_pending rt'"
  using assms by (simp_all add: shape_def)

lemma par_ok_shape: "shape rt = shape rt' \<Longrightarrow> par_ok rt = par_ok rt'"
  using shape_eq [of rt rt'] unfolding par_ok_def by metis

lemma shape_fields [simp]:
  "shape (rt\<lparr>pr_memory := a\<rparr>) = shape rt" "shape (rt\<lparr>pr_outgoing := b\<rparr>) = shape rt" "shape (rt\<lparr>pr_progress := c\<rparr>) = shape rt"
  "shape (rt\<lparr>pr_stopping := d\<rparr>) = shape rt" "shape (rt\<lparr>pr_functions := f\<rparr>) = shape rt" "shape (rt\<lparr>pr_cluster := k\<rparr>) = shape rt"
  "shape (rt\<lparr>pr_manifest_calls := n\<rparr>) = shape rt" "shape (rt\<lparr>pr_scheduler := s\<rparr>) = shape rt" "shape (rt\<lparr>pr_barriers := u\<rparr>) = shape rt"
  "shape (rt\<lparr>pr_active_barriers := v\<rparr>) = shape rt" "shape (rt\<lparr>pr_load_sequence := q\<rparr>) = shape rt" "shape (rt\<lparr>pr_remote_load := l\<rparr>) = shape rt"
  "shape (rt\<lparr>pr_initialized := i\<rparr>) = shape rt"
  by (simp_all add: shape_def)

lemma shape_fold: "(\<And>a s. a \<in> set xs \<Longrightarrow> shape (f a s) = shape s) \<Longrightarrow> shape (fold f xs rt) = shape rt"
  by (induction xs arbitrary: rt) simp_all

lemma shape_messages [simp]:
  "shape (Enqueue m rt) = shape rt" "shape (send_barrier bs rt) = shape rt" "shape (PublishLoad x d rt) = shape rt" "shape (publish_all x rt) = shape rt"
proof -
  show e: "shape (Enqueue m s) = shape s" for m and s :: "('a, 'b) ParRuntime" by (simp add: Enqueue_def)
  show "shape (send_barrier bs rt) = shape rt" unfolding send_barrier_def by (rule shape_fold) (rule e)
  show p: "shape (PublishLoad x d s) = shape s" for d and s :: "('a, 'b) ParRuntime" by (simp add: PublishLoad_def e Let_def)
  show "shape (publish_all x rt) = shape rt" unfolding publish_all_def by (rule shape_fold) (rule p)
qed

lemma shape_others [simp]:
  "shape (on_scheduler f rt) = shape rt" "shape (leave_barrier rt) = shape rt" "shape (break_barrier bid rt) = shape rt"
  "shape (leave_manifest rt) = shape rt" "shape (drop_samples rt) = shape rt" "shape (snd (select_host mc x hint advance rt)) = shape rt"
  by (simp_all add: on_scheduler_def leave_barrier_def break_barrier_def leave_manifest_def drop_samples_def select_host_def split: prod.splits)

lemma par_ok_threads: "par_ok rt \<Longrightarrow> quiet (pr_threads rt) m \<Longrightarrow> par_ok (rt\<lparr>pr_threads := m\<rparr>)"
  by (simp add: par_ok_def quiet_def)

lemma par_ok_executions: "par_ok rt \<Longrightarrow> quiet (pr_executions rt) m \<Longrightarrow> par_ok (rt\<lparr>pr_executions := m\<rparr>)"
  by (simp add: par_ok_def quiet_def)

lemma par_ok_on_threads: "par_ok rt \<Longrightarrow> quiet (pr_threads rt) (snd (f (pr_threads rt))) \<Longrightarrow> par_ok (snd (on_threads f rt))"
  by (auto simp: on_threads_def par_ok_threads split: prod.splits)

lemma par_ok_parts:
  assumes "par_ok rt"
  shows "tame (pr_threads rt)" "tm_local_host (pr_threads rt) = self rt" "tame (pr_executions rt)" "tm_local_host (pr_executions rt) = self rt"
  using assms by (simp_all add: par_ok_def)

lemma par_ok_call: "par_ok rt \<Longrightarrow> (\<And>m. tame m \<Longrightarrow> quiet m (snd (f m))) \<Longrightarrow> par_ok (snd (on_threads f rt))"
  by (rule par_ok_on_threads) (simp_all add: par_ok_parts(1))

lemma par_ok_new: "par_ok (new_par c mm)"
  by (simp add: par_ok_def new_par_def tame_new counted_def) (simp add: new_manager_def)

lemma discard_thread_ok: "par_ok rt \<Longrightarrow> par_ok (discard_thread g rt)"
  using joined_now_quiet [of "pr_threads rt" g] par_ok_parts(1) [of rt]
  by (simp add: discard_thread_def Let_def joined_now_def par_ok_threads if_distrib)

section \<open>Creation\<close>

lemma launch_here_ok:
  assumes ok: "par_ok rt" and room: "tm_next_tid (pr_threads rt) \<noteq> UINT64_MAX" and g: "entered (self rt) fid args (pr_threads rt) = (g, m')"
  shows "par_ok (snd (launch_here x g f (rt\<lparr>pr_threads := m'\<rparr>)))"
proof -
  let ?rt = "rt\<lparr>pr_threads := m'\<rparr>" and ?l = "max_running_threads_per_host (pr_config rt)"
  note p = par_ok_parts [OF ok]
  obtain e where e: "tm_records m' (local_tid g) = Some e" "tr_state (te_record e) = TLaunching" "execution_host (te_record e) = tm_local_host m'"
    "\<not> te_fiber e" "home_host g = tm_local_host m'" "tame m'" "tm_local_host m' = self rt" "away m' = away (pr_threads rt)" "fibers m' = fibers (pr_threads rt)"
    "local_tid g \<notin> away (pr_threads rt)"
    by (rule entered_ok [OF p(1) room g]) (use p(2) in auto)
  have q: "quiet (pr_threads rt) m'" using e p by (simp add: quiet_def)
  then have ok1: "par_ok ?rt" by (rule par_ok_threads [OF ok])
  show ?thesis
  proof (cases "?l \<noteq> 0 \<and> ?l \<le> pr_running rt")
    case True
    have "quiet m' (snd (MarkCompleted g (- 2) 0 m'))"
      using MarkCompleted_outside [OF e(6,1) _ e(4,5) refl, of "- 2" 0] e(2,8,10) by (simp add: quiet_def)
    then have "par_ok (snd (on_threads (MarkCompleted g (-2) 0) ?rt))" by (intro par_ok_on_threads [OF ok1]) simp
    then show ?thesis using True by (simp add: launch_here_def ReserveExecution_def Let_def discard_thread_ok)
  next
    case False
    let ?L = "Launch g (f \<noteq> None) (mo_fiber_ok x) m'" and ?rt1 = "on_scheduler (RecordLaunch (self rt)) (?rt\<lparr>pr_running := pr_running rt + 1\<rparr>)"
    have here: "snd (launch_here x g f ?rt) = (if fst ?L \<noteq> kOk then discard_thread g (ReleaseExecution (self rt) (?rt1\<lparr>pr_threads := snd ?L\<rparr>)) else ?rt1\<lparr>pr_threads := snd ?L\<rparr>)"
      using False by (auto simp: launch_here_def ReserveExecution_def Let_def on_threads_def on_scheduler_def split: prod.splits)
    note launch = Launch_here [OF e(6,1,2,3,5)]
    show ?thesis
    proof (cases "fst ?L = kOk")
      case True
      note l = launch(1) [OF True] launch(3)
      have c: "counted ?l (pr_running rt + 1) (Suc (card (fibers (pr_threads rt)) + length (pr_remote_executions rt)))"
        by (rule counted_more) (use ok False in \<open>auto simp: par_ok_def\<close>)
      have "card (fibers (snd ?L)) = Suc (card (fibers (pr_threads rt)))" using l e(9) tame_finite(2) [OF p(1)] by simp
      then have "par_ok (?rt1\<lparr>pr_threads := snd ?L\<rparr>)" using ok l c e(7,8) by (simp add: par_ok_def on_scheduler_def)
      then show ?thesis using here True by simp
    next
      case False
      have "par_ok (?rt\<lparr>pr_threads := snd ?L\<rparr>)" by (rule par_ok_threads [OF ok1]) (use launch(2) [OF False] in simp)
      then have "par_ok (ReleaseExecution (self rt) (?rt1\<lparr>pr_threads := snd ?L\<rparr>))"
        by (subst par_ok_shape [where rt' = "?rt\<lparr>pr_threads := snd ?L\<rparr>"]) (simp_all add: shape_def ReleaseExecution_def on_scheduler_def)
      then show ?thesis using here False by (simp add: discard_thread_ok)
    qed
  qed
qed

lemma launch_there_ok:
  assumes ok: "par_ok rt" and room: "tm_next_tid (pr_threads rt) \<noteq> UINT64_MAX" and g: "entered target fid args (pr_threads rt) = (g, m')" and "target \<noteq> self rt"
  shows "par_ok (snd (launch_there x g target fid args cluster (rt\<lparr>pr_threads := m'\<rparr>)))"
proof -
  let ?rt = "rt\<lparr>pr_threads := m'\<rparr>" and ?l = "max_pending_creates_per_host (pr_config rt)"
  note p = par_ok_parts [OF ok]
  obtain e where e: "tm_records m' (local_tid g) = Some e" "tr_state (te_record e) = TLaunching"
    "\<not> te_fiber e" "home_host g = tm_local_host m'" "tame m'" "tm_local_host m' = self rt" "away m' = insert (local_tid g) (away (pr_threads rt))"
    "fibers m' = fibers (pr_threads rt)" "local_tid g \<notin> away (pr_threads rt)"
    by (rule entered_ok [OF p(1) room g]) (use p(2) assms(4) in auto)
  show ?thesis
  proof (cases "?l \<noteq> 0 \<and> ?l \<le> pr_pending rt")
    case True
    have "quiet (pr_threads rt) (snd (MarkCompleted g (- 3) 0 m'))"
      using MarkCompleted_outside [OF e(5,1) _ e(3,4) refl, of "- 3" 0] e p(2) by (simp add: quiet_def)
    then have "par_ok (rt\<lparr>pr_threads := snd (MarkCompleted g (- 3) 0 m')\<rparr>)" by (rule par_ok_threads [OF ok])
    then have "par_ok (snd (on_threads (MarkCompleted g (-3) 0) ?rt))" by (auto simp: on_threads_def split: prod.splits)
    then show ?thesis using True by (simp add: launch_there_def Let_def discard_thread_ok)
  next
    case False
    have c: "counted ?l (pr_pending rt + 1) (Suc (card (away (pr_threads rt))))" by (rule counted_more) (use ok False in \<open>auto simp: par_ok_def\<close>)
    have "card (away m') = Suc (card (away (pr_threads rt)))" using e tame_finite(1) [OF p(1)] by simp
    then have "par_ok (?rt\<lparr>pr_pending := pr_pending rt + 1\<rparr>)" using ok c e by (simp add: par_ok_def)
    moreover have "shape (snd (launch_there x g target fid args cluster ?rt)) = shape (?rt\<lparr>pr_pending := pr_pending rt + 1\<rparr>)"
      using False by (auto simp: launch_there_def Let_def)
    ultimately show ?thesis using par_ok_shape by blast
  qed
qed

lemma entered_on_threads:
  "on_threads (AllocateThread target fid args) rt = (Inr g, rt1) \<Longrightarrow>
     entered target fid args (pr_threads rt) = (g, pr_threads (snd (on_threads (MarkLaunching g) rt1))) \<and>
     snd (on_threads (MarkLaunching g) rt1) = rt\<lparr>pr_threads := pr_threads (snd (on_threads (MarkLaunching g) rt1))\<rparr>"
  using AllocateThread_gtid [of target fid args "pr_threads rt"]
  by (auto simp: entered_def on_threads_def Let_def split: prod.splits)

lemma LaunchThread_ok:
  assumes ok: "par_ok rt" and room: "tm_next_tid (pr_threads rt) \<noteq> UINT64_MAX" and l: "LaunchThread mc x fid f args hint cluster rt = Some (r, rt')"
  shows "par_ok rt'"
proof -
  have keep: "par_ok s" if "shape s = shape rt" for s using ok that par_ok_shape by blast
  obtain a rt1 where s1: "select_host mc x hint False rt = (a, rt1)" by fastforce
  have h1: "shape rt1 = shape rt" using shape_others(6) [of mc x hint False rt] by (simp add: s1)
  show ?thesis
  proof (cases "\<exists>s. rt' = s \<and> shape s = shape rt")
    case True
    then show ?thesis using keep by blast
  next
    case False
    then obtain target where t: "a = Inr target" "\<not> (host_count (pr_config rt1) \<le> target \<or> too_long target args rt1)"
      using l h1 by (auto simp: LaunchThread_def s1 split: sum.splits if_splits)
    then obtain mm where mm: "mc_release mc (mo_context x) (pr_memory rt1) = Some (kOk, mm)"
      using l h1 False by (auto simp: LaunchThread_def s1 Let_def split: option.splits prod.splits if_splits)
    let ?rt2 = "rt1\<lparr>pr_memory := mm\<rparr>"
    obtain b rt3 where s2: "select_host mc x hint True ?rt2 = (b, rt3)" by fastforce
    have h3: "shape rt3 = shape rt" using shape_others(6) [of mc x hint True ?rt2] h1 by (simp add: s2)
    have l3: "LaunchThread mc x fid f args hint cluster rt = (case b of Inl st \<Rightarrow> Some (Inl st, rt3) | Inr target1 \<Rightarrow>
        if too_long target1 args rt3 then Some (Inl kInvalidArgument, rt3)
        else (case on_threads (AllocateThread target1 fid args) rt3 of (Inl st, rt4) \<Rightarrow> Some (Inl st, rt4)
          | (Inr g, rt4) \<Rightarrow> let rt5 = snd (on_threads (MarkLaunching g) rt4) in
              Some (if target1 = self rt5 then launch_here x g f rt5 else launch_there x g target1 fid args cluster rt5)))"
      unfolding LaunchThread_def s1 t(1) prod.case sum.case if_not_P [OF t(2)] mm option.case Let_def s2 by simp
    then obtain target1 where t1: "b = Inr target1" "\<not> too_long target1 args rt3"
      using l h3 False by (auto split: sum.splits if_splits)
    obtain g rt4 where al: "on_threads (AllocateThread target1 fid args) rt3 = (Inr g, rt4)"
      using AllocateThread_gtid [of target1 fid args "pr_threads rt3"]
      by (cases "AllocateThread target1 fid args (pr_threads rt3)") (simp add: on_threads_def)
    obtain m where en: "entered target1 fid args (pr_threads rt3) = (g, m)" and e5: "snd (on_threads (MarkLaunching g) rt4) = rt3\<lparr>pr_threads := m\<rparr>"
      using entered_on_threads [OF al] by blast
    have rt': "rt' = snd (if target1 = self rt3 then launch_here x g f (rt3\<lparr>pr_threads := m\<rparr>) else launch_there x g target1 fid args cluster (rt3\<lparr>pr_threads := m\<rparr>))"
      using l unfolding l3 t1(1) sum.case if_not_P [OF t1(2)] al prod.case Let_def e5 by auto
    have ok3: "par_ok rt3" by (rule keep [OF h3])
    have room3: "tm_next_tid (pr_threads rt3) \<noteq> UINT64_MAX" using room shape_eq(2) [OF h3] by simp
    show ?thesis
    proof (cases "target1 = self rt3")
      case True
      show ?thesis unfolding rt' if_P [OF True] by (rule launch_here_ok [OF ok3 room3]) (use en True in auto)
    next
      case False
      show ?thesis unfolding rt' if_not_P [OF False] by (rule launch_there_ok [OF ok3 room3 _ False]) (use en in auto)
    qed
  qed
qed

section \<open>Completion\<close>

lemma worker_return_ok:
  assumes ok: "par_ok rt" and e: "tm_records (pr_threads rt) t = Some e" "te_fiber e" "\<not> te_queued e"
  shows "par_ok (worker_return x t outcome rt)"
proof (cases "outcome = FiberYielded")
  case True
  then show ?thesis using par_ok_threads [OF ok WorkerReturn_yield [OF par_ok_parts(1) [OF ok] e]] by (simp add: worker_return_def Let_def)
next
  case False
  let ?m = "WorkerReturn t outcome (pr_threads rt)" and ?l = "max_running_threads_per_host (pr_config rt)"
  note p = par_ok_parts [OF ok]
  note w = WorkerReturn_end [OF p(1) e False]
  have "t \<in> fibers (pr_threads rt)" using e by (simp add: fibers_def)
  then have c: "card (fibers (pr_threads rt)) = Suc (card (fibers ?m))" unfolding w(4) by (rule card.remove [OF tame_finite(2) [OF p(1)]])
  have "counted ?l (pr_running rt) (Suc (card (fibers ?m) + length (pr_remote_executions rt)))" using ok by (simp add: par_ok_def c)
  then have "par_ok (rt\<lparr>pr_threads := ?m, pr_running := pr_running rt - 1\<rparr>)" using ok w(1-3) counted_less by (simp add: par_ok_def)
  moreover have "worker_return x t outcome rt = on_complete x (rt\<lparr>pr_threads := ?m\<rparr>)"
    using False by (cases outcome) (simp_all add: worker_return_def Let_def)
  moreover have "shape (on_complete x (rt\<lparr>pr_threads := ?m\<rparr>)) = shape (rt\<lparr>pr_threads := ?m, pr_running := pr_running rt - 1\<rparr>)"
    by (simp add: on_complete_def ReleaseExecution_def)
  ultimately show ?thesis using par_ok_shape by metis
qed

lemma execution_return_ok:
  assumes ok: "par_ok rt" and e: "tm_records (pr_executions rt) t = Some e" "te_fiber e" "\<not> te_queued e"
  shows "par_ok (execution_return t outcome rt)"
proof (cases "outcome = FiberYielded")
  case True
  then show ?thesis using par_ok_executions [OF ok WorkerReturn_yield [OF par_ok_parts(3) [OF ok] e]] by (simp add: execution_return_def)
next
  case False
  show ?thesis using ok WorkerReturn_end [OF par_ok_parts(3) [OF ok] e False] by (auto simp: par_ok_def execution_return_def)
qed

text \<open>A completion from another host ends a thread that was away, and only such a thread.\<close>

lemma handle_completion_ok:
  assumes ok: "par_ok rt" and f: "Find (wire_gtid w) (pr_threads rt) = Inr r" and x: "execution_host r = src_host (env_header m)" "src_host (env_header m) \<noteq> self rt"
  shows "par_ok (snd (handle_completion y m w r rt))"
proof (cases "migration_epoch r \<noteq> tw_migration_epoch w \<or> tr_state r = TCompleted")
  case True
  then show ?thesis using ok by (auto simp: handle_completion_def)
next
  case False
  note p = par_ok_parts [OF ok]
  let ?g = "wire_gtid w" and ?T = "pr_threads rt"
  obtain e where e: "find_home ?T ?g = Some e" "te_record e = r" using f by (auto simp: Find_def split: option.splits)
  have h: "home_host ?g = tm_local_host ?T" "tm_records ?T (local_tid ?g) = Some e" using e(1) by (simp_all add: find_home_Some)
  note en = tame_entry [OF p(1) h(2)]
  have st: "tr_state (te_record e) = TLaunching \<or> tr_state (te_record e) = TRunning"
    using en False e(2) by (cases "tr_state r") (auto simp: thread_ok_def settled_def)
  have nf: "\<not> te_fiber e" using en(2) x e(2) p(2) by (auto simp: settled_def)
  let ?m = "snd (MarkCompleted ?g (tw_code w) (tw_result_value w) ?T)"
  note mc = MarkCompleted_outside [OF p(1) h(2) st nf h(1) refl, of "tw_code w" "tw_result_value w"]
  have "local_tid ?g \<in> away ?T" using h st x e(2) p(2) by (auto simp: away_def)
  then have "card (away ?T) = Suc (card (away ?m))" unfolding mc(4) by (rule card.remove [OF tame_finite(1) [OF p(1)]])
  then have "counted (max_pending_creates_per_host (pr_config rt)) (pr_pending rt) (Suc (card (away ?m)))" using ok by (simp add: par_ok_def)
  then have "par_ok (rt\<lparr>pr_threads := ?m, pr_pending := pr_pending rt - 1\<rparr>)"
    using ok mc(2,3,5) counted_less by (simp add: par_ok_def)
  moreover have "shape (snd (handle_completion y m w r rt)) = shape (rt\<lparr>pr_threads := ?m, pr_pending := pr_pending rt - 1\<rparr>)"
  proof -
    let ?s = "publish_all y (on_scheduler (RecordCompletion (src_host (env_header m))) (rt\<lparr>pr_pending := pr_pending rt - 1\<rparr>))"
    have s: "shape ?s = shape (rt\<lparr>pr_pending := pr_pending rt - 1\<rparr>)" by simp
    have hc: "snd (handle_completion y m w r rt) = ?s\<lparr>pr_threads := snd (MarkCompleted ?g (tw_code w) (tw_result_value w) (pr_threads ?s))\<rparr>"
      using False by (simp add: handle_completion_def on_threads_def split: prod.splits)
    show ?thesis unfolding hc using shape_eq [OF s] by (simp add: shape_def)
  qed
  ultimately show ?thesis using par_ok_shape by blast
qed

section \<open>Executions for other hosts\<close>

lemma run_create_ok:
  assumes ok: "par_ok rt" and room: "tm_next_tid (pr_executions rt) \<noteq> UINT64_MAX"
    and free: "\<not> (max_running_threads_per_host (pr_config rt) \<noteq> 0 \<and> max_running_threads_per_host (pr_config rt) \<le> pr_running rt)"
  shows "par_ok (snd (run_create x g fid f args (rt\<lparr>pr_running := pr_running rt + 1\<rparr>)))"
proof -
  let ?E = "pr_executions rt" and ?l = "max_running_threads_per_host (pr_config rt)"
  note p = par_ok_parts [OF ok]
  obtain h m' where en: "entered (self rt) fid args ?E = (h, m')" by fastforce
  obtain e where e: "tm_records m' (local_tid h) = Some e" "tr_state (te_record e) = TLaunching" "execution_host (te_record e) = tm_local_host m'"
    "home_host h = tm_local_host m'" "tame m'" "tm_local_host m' = self rt" "fibers m' = fibers ?E"
    by (rule entered_ok [OF p(3) room en]) (use p(4) in auto)
  let ?L = "Launch h (f \<noteq> None) (mo_fiber_ok x) m'"
  note launch = Launch_here [OF e(5,1,2,3,4)]
  have L: "tame (snd ?L)" "tm_local_host (snd ?L) = self rt" "fibers (snd ?L) \<subseteq> insert (local_tid h) (fibers ?E)"
    using launch(1,2) [of "f \<noteq> None" "mo_fiber_ok x"] e(6,7) by (cases "fst ?L = kOk"; auto simp: quiet_def)+
  obtain q m1 where al: "AllocateThread (self rt) fid args ?E = (q, m1)" by fastforce
  have q: "q = Inr h" "m' = snd (MarkLaunching h m1)" using en AllocateThread_gtid [of "self rt" fid args ?E] by (auto simp: entered_def Let_def al)
  have c: "counted ?l (pr_running rt + 1) (Suc (card (fibers (pr_threads rt)) + length (pr_remote_executions rt)))"
    by (rule counted_more) (use ok free in \<open>auto simp: par_ok_def\<close>)
  have "par_ok (rt\<lparr>pr_running := pr_running rt + 1, pr_executions := snd ?L, pr_remote_executions := pr_remote_executions rt @ [(g, h)]\<rparr>)"
    using ok L c by (auto simp: par_ok_def)
  moreover have "shape (snd (run_create x g fid f args (rt\<lparr>pr_running := pr_running rt + 1\<rparr>))) =
      shape (rt\<lparr>pr_running := pr_running rt + 1, pr_executions := snd ?L, pr_remote_executions := pr_remote_executions rt @ [(g, h)]\<rparr>)"
    by (simp add: run_create_def al q shape_def split: prod.splits)
  ultimately show ?thesis using par_ok_shape by blast
qed

lemma handle_create_ok:
  assumes ok: "par_ok rt" and room: "tm_next_tid (pr_executions rt) \<noteq> UINT64_MAX"
  shows "par_ok (snd (handle_create x m w rt))"
proof -
  have refuse: "par_ok (snd (refuse_create g code rt))" for g code
    using ok par_ok_shape [of "snd (refuse_create g code rt)" rt] by (simp add: refuse_create_def)
  show ?thesis using ok refuse run_create_ok [OF ok room] by (auto simp: handle_create_def Let_def ReserveExecution_def split: sum.splits)
qed

lemma report_completion_ok:
  assumes ok: "par_ok (rt\<lparr>pr_remote_executions := pre @ p # ps\<rparr>)" and f: "Find (snd p) (pr_executions rt) = Inr r" "tr_state r = TCompleted"
  shows "par_ok ((report_completion p r rt)\<lparr>pr_remote_executions := pre @ ps\<rparr>)"
proof -
  let ?m = "joined_now (snd p) (pr_executions rt)"
  have t: "tame (pr_executions rt)" using par_ok_parts(3) [OF ok] by simp
  note q = joined_now_quiet [OF t, of "snd p"]
  obtain e where e: "tm_records (pr_executions rt) (local_tid (snd p)) = Some e" "te_record e = r"
    using f(1) by (auto simp: Find_def find_home_Some split: option.splits)
  have "local_tid (snd p) \<notin> fibers (pr_executions rt)"
    using tame_entry(1) [OF t e(1)] e f(2) by (auto simp: fibers_def thread_ok_def)
  then have s: "fibers (pr_executions rt) \<subseteq> (\<lambda>p. local_tid (snd p)) ` set (pre @ ps)" using ok by (auto simp: par_ok_def)
  have "counted (max_running_threads_per_host (pr_config rt)) (pr_running rt) (Suc (card (fibers (pr_threads rt)) + length (pre @ ps)))"
    using ok by (simp add: par_ok_def)
  then have "par_ok (rt\<lparr>pr_executions := ?m, pr_running := pr_running rt - 1, pr_remote_executions := pre @ ps\<rparr>)"
    using ok q s counted_less unfolding par_ok_def quiet_def by simp
  moreover have "shape ((report_completion p r rt)\<lparr>pr_remote_executions := pre @ ps\<rparr>) =
      shape (rt\<lparr>pr_executions := ?m, pr_running := pr_running rt - 1, pr_remote_executions := pre @ ps\<rparr>)"
    by (simp add: report_completion_def Let_def ReleaseExecution_def joined_now_def shape_def)
  ultimately show ?thesis using par_ok_shape by blast
qed

lemma report_completions_ok:
  "par_ok (rt\<lparr>pr_remote_executions := pre @ ps\<rparr>) \<Longrightarrow> report_completions ps rt = (c, rest, rt') \<Longrightarrow> par_ok (rt'\<lparr>pr_remote_executions := pre @ rest\<rparr>)"
proof (induction ps rt arbitrary: pre c rest rt' rule: report_completions.induct)
  case (2 p ps rt)
  show ?case
  proof (cases "\<exists>r. Find (snd p) (pr_executions rt) = Inr r \<and> tr_state r = TCompleted")
    case True
    then obtain r where r: "Find (snd p) (pr_executions rt) = Inr r" "tr_state r = TCompleted" by blast
    obtain c1 where "report_completions ps (report_completion p r rt) = (c1, rest, rt')" using 2(5) r by (auto split: prod.splits)
    then show ?thesis using 2(2) [OF r report_completion_ok [OF 2(4) r]] by blast
  next
    case False
    then obtain rest1 where s: "report_completions ps rt = (c, rest1, rt')" "rest = p # rest1" using 2(5) by (auto split: sum.splits prod.splits if_splits)
    have k: "par_ok (rt\<lparr>pr_remote_executions := (pre @ [p]) @ ps\<rparr>)" using 2(4) by simp
    have "par_ok (rt'\<lparr>pr_remote_executions := (pre @ [p]) @ rest1\<rparr>)"
    proof (cases "Find (snd p) (pr_executions rt)")
      case (Inl st)
      show ?thesis by (rule 2(1) [OF Inl k s(1)])
    next
      case (Inr r)
      show ?thesis by (rule 2(3) [OF Inr _ k s(1)]) (use False Inr in auto)
    qed
    then show ?thesis using s(2) by simp
  qed
qed simp

lemma Progress_round_ok:
  assumes "par_ok rt"
  shows "par_ok (snd (Progress_round push x sample_due (rs, rt)))"
proof -
  obtain c rest rt1 where r: "report_completions (pr_remote_executions rt) rt = (c, rest, rt1)" by (metis prod_cases3)
  obtain out rs1 where o1: "try_outgoing push (self rt1) (host_count (pr_config rt1)) (length (pr_outgoing rt1)) (pr_outgoing rt1) rs = (out, rs1)" by fastforce
  have "par_ok (rt1\<lparr>pr_remote_executions := rest\<rparr>)" using report_completions_ok [where pre = "[]", OF _ r] assms by simp
  moreover have "shape (snd (Progress_round push x sample_due (rs, rt))) = shape (rt1\<lparr>pr_remote_executions := rest\<rparr>)"
    by (simp add: Progress_round_def r o1 Let_def)
  ultimately show ?thesis using par_ok_shape by blast
qed

section \<open>Messages\<close>

lemma handle_thread_ok:
  assumes ok: "par_ok rt" and room: "tm_next_tid (pr_executions rt) \<noteq> UINT64_MAX" and src: "src_host (env_header m) \<noteq> self rt"
  shows "par_ok (snd (handle_thread x m rt))"
proof (cases "DecodeThread (self rt) (host_count (pr_config rt)) m")
  case (Some w)
  have ack: "par_ok (snd (handle_ack w r rt))" for r
    using ok par_ok_call [OF ok MarkRunning_quiet [where g = "wire_gtid w"]] by (auto simp: handle_ack_def split: prod.splits)
  show ?thesis
  proof (cases "Find (wire_gtid w) (pr_threads rt)")
    case (Inl st)
    then show ?thesis using handle_create_ok [OF ok room] ok by (simp add: handle_thread_def Some)
  next
    case (Inr r)
    then show ?thesis
      using handle_create_ok [OF ok room] ok ack handle_completion_ok [OF ok Inr _ src] by (simp add: handle_thread_def Some)
  qed
qed (simp add: handle_thread_def ok)

lemma ParHandleMessage_ok:
  assumes ok: "par_ok rt" and room: "tm_next_tid (pr_executions rt) \<noteq> UINT64_MAX" and src: "src_host (env_header m) \<noteq> self rt"
  shows "par_ok (snd (ParHandleMessage x m rt))"
proof -
  have "shape (snd (case HandleManifest m (pr_cluster rt) of (st, cr) \<Rightarrow> (st, rt\<lparr>pr_cluster := cr\<rparr>))) = shape rt" by (simp split: prod.splits)
  moreover have "shape (snd (handle_migration m rt)) = shape rt" "shape (snd (handle_migration_ack m rt)) = shape rt"
    by (simp_all add: handle_migration_def handle_migration_ack_def)
  moreover have "shape (snd (handle_load x m rt)) = shape rt" by (simp add: handle_load_def Let_def split: option.splits)
  moreover have "shape (snd (handle_barrier m rt)) = shape rt" by (simp add: handle_barrier_def split: option.splits prod.splits)
  ultimately show ?thesis
    using par_ok_shape ok handle_thread_ok [OF assms] unfolding ParHandleMessage_def Let_def by (auto split: if_splits)
qed

section \<open>The host as a state machine\<close>

text \<open>
  Every call, every worker, the progress thread and every message another host may send, in any order.  The hypotheses
  are that thread ids have not run out, that a message comes from another host, and that a worker returns a fiber it has
  picked.  \<open>finalize\<close> is one look at the queue; the rounds of its wait are \<open>drain\<close> between other steps.
\<close>

inductive par_step :: "'m MemoryCalls \<Rightarrow> ('q \<Rightarrow> QueueEnvelope \<Rightarrow> Status \<times> 'q) \<Rightarrow> ('f, 'm) ParRuntime \<Rightarrow> ('f, 'm) ParRuntime \<Rightarrow> bool" for mc push where
  initialize: "par_step mc push rt (snd (ParInitialize mc can_start rt))"
| register: "par_step mc push rt (snd (RegisterFunction pointer name fn rt))"
| create: "tm_next_tid (pr_threads rt) \<noteq> UINT64_MAX \<Longrightarrow> CreateThread mc x name args hint rt = Some (r, rt') \<Longrightarrow> par_step mc push rt rt'"
| manifest_begin: "par_step mc push rt (snd (RegisterClusterFunctions_begin fs timeout_ms rt))"
| manifest_finish: "par_step mc push rt (snd (RegisterClusterFunctions_finish timeout_ms timed_out rt))"
| registered_begin: "par_step mc push rt (snd (CreateRegisteredThread_begin identity rt))"
| registered_finish: "tm_next_tid (pr_threads rt) \<noteq> UINT64_MAX \<Longrightarrow>
    CreateRegisteredThread_finish mc x fid waited args hint rt = Some (r, rt') \<Longrightarrow> par_step mc push rt rt'"
| join_begin: "par_step mc push rt (snd (JoinThread_begin g is_self rt))"
| join_finish: "JoinThread_finish mc g rt = Some (j, rt') \<Longrightarrow> par_step mc push rt rt'"
| detach: "par_step mc push rt (snd (DetachThread g rt))"
| migrate: "par_step mc push rt (snd (on_threads (RequestMigration g target) rt))"
| safe_point: "par_step mc push rt (snd (on_threads (MigrationSafePoint g called) rt))"
| pick: "par_step mc push rt (snd (on_threads (WorkerPick k runnable) rt))"
| return: "tm_records (pr_threads rt) t = Some e \<Longrightarrow> te_fiber e \<Longrightarrow> \<not> te_queued e \<Longrightarrow> par_step mc push rt (worker_return x t outcome rt)"
| exec_pick: "par_step mc push rt (rt\<lparr>pr_executions := snd (WorkerPick k runnable (pr_executions rt))\<rparr>)"
| exec_return: "tm_records (pr_executions rt) t = Some e \<Longrightarrow> te_fiber e \<Longrightarrow> \<not> te_queued e \<Longrightarrow> par_step mc push rt (execution_return t outcome rt)"
| message: "tm_next_tid (pr_executions rt) \<noteq> UINT64_MAX \<Longrightarrow> src_host (env_header m) \<noteq> self rt \<Longrightarrow> par_step mc push rt (snd (ParHandleMessage x m rt))"
| progress: "par_step mc push rt (snd (Progress_round push x sample_due (rs, rt)))"
| barrier_begin: "Barrier_begin mc x bid participants rt = Some (wc, rt') \<Longrightarrow> par_step mc push rt rt'"
| barrier_finish: "Barrier_finish mc bid gn rt = Some (b, rt') \<Longrightarrow> par_step mc push rt rt'"
| drain: "par_step mc push rt (drop_samples rt)"
| finalize: "par_step mc push rt (snd (ParFinalize mc others 0 ids rt))"

inductive par_reach :: "'m MemoryCalls \<Rightarrow> ('q \<Rightarrow> QueueEnvelope \<Rightarrow> Status \<times> 'q) \<Rightarrow> SchedulerConfig \<Rightarrow> ('f, 'm) ParRuntime \<Rightarrow> bool" for mc push c where
  start: "par_reach mc push c (new_par c mm)"
| step: "par_reach mc push c rt \<Longrightarrow> par_step mc push rt rt' \<Longrightarrow> par_reach mc push c rt'"

lemma ParFinalize_shape: "shape (snd (ParFinalize mc others 0 ids rt)) = shape rt"
  by (simp add: ParFinalize_def Let_def split: prod.splits)

lemma par_step_ok:
  assumes "par_step mc push rt rt'" and "par_ok rt"
  shows "par_ok rt'"
  using assms
proof (induction rule: par_step.induct)
  case (initialize rt can_start)
  have "shape (snd (ParInitialize mc can_start rt)) = shape rt" by (simp add: ParInitialize_def Let_def split: prod.splits)
  then show ?case using initialize par_ok_shape by blast
next
  case (register rt pointer name fn)
  have "shape (snd (RegisterFunction pointer name fn rt)) = shape rt" by (simp add: RegisterFunction_def split: prod.splits)
  then show ?case using register par_ok_shape by blast
next
  case (create rt x name args hint r rt')
  then show ?case using LaunchThread_ok [OF create.prems create.hyps(1)] by (auto simp: CreateThread_def split: if_splits sum.splits)
next
  case (manifest_begin rt fs timeout_ms)
  have f: "shape (fold Enqueue msgs s) = shape s" for msgs and s :: "('c, 'a) ParRuntime" by (rule shape_fold) simp
  have "shape (snd (RegisterClusterFunctions_begin fs timeout_ms rt)) = shape rt"
    by (simp add: RegisterClusterFunctions_begin_def Let_def f split: prod.splits sum.splits)
  then show ?case using manifest_begin par_ok_shape by blast
next
  case (manifest_finish rt timeout_ms timed_out)
  have "shape (snd (RegisterClusterFunctions_finish timeout_ms timed_out rt)) = shape rt"
    by (simp add: RegisterClusterFunctions_finish_def split: option.splits)
  then show ?case using manifest_finish par_ok_shape by blast
next
  case (registered_begin rt identity)
  have "shape (snd (CreateRegisteredThread_begin identity rt)) = shape rt" by (simp add: CreateRegisteredThread_begin_def split: sum.splits)
  then show ?case using registered_begin par_ok_shape by blast
next
  case (registered_finish rt x fid waited args hint r rt')
  have l: "par_ok (leave_manifest s)" if "par_ok s" for s :: "('c, 'a) ParRuntime" using that par_ok_shape [of "leave_manifest s" s] by simp
  show ?case using registered_finish.hyps(2) l registered_finish.prems LaunchThread_ok [OF registered_finish.prems registered_finish.hyps(1)]
    by (auto simp: CreateRegisteredThread_finish_def split: if_splits sum.splits)
next
  case (join_begin rt g is_self)
  then show ?case using par_ok_call [OF _ Join_begin_quiet] by (auto simp: JoinThread_begin_def)
next
  case (join_finish g rt j rt')
  show ?case
  proof (cases "Join_wake g (pr_threads rt)")
    case True
    then obtain st mm where rt': "rt' = snd (on_threads (Join_finish g (Some (HookReturns st))) (rt\<lparr>pr_memory := mm\<rparr>))"
      using join_finish.hyps by (auto simp: JoinThread_finish_def split: option.splits) (metis snd_conv)
    have "par_ok (rt\<lparr>pr_memory := mm\<rparr>)" using join_finish.prems par_ok_shape [of "rt\<lparr>pr_memory := mm\<rparr>" rt] by simp
    then show ?thesis unfolding rt' by (rule par_ok_on_threads) (use Join_finish_quiet [OF par_ok_parts(1) [OF join_finish.prems] True] in simp)
  qed (use join_finish in \<open>auto simp: JoinThread_finish_def\<close>)
next
  case (detach rt g)
  then show ?case using par_ok_call [OF _ Detach_quiet] by (auto simp: DetachThread_def)
next
  case (migrate rt g target)
  show ?case by (rule par_ok_call [OF migrate RequestMigration_quiet])
next
  case (safe_point rt g called)
  show ?case by (rule par_ok_call [OF safe_point MigrationSafePoint_quiet])
next
  case (pick rt k runnable)
  show ?case by (rule par_ok_call [OF pick WorkerPick_quiet])
next
  case (exec_pick rt k runnable)
  show ?case by (rule par_ok_executions [OF exec_pick WorkerPick_quiet [OF par_ok_parts(3) [OF exec_pick]]])
next
  case (barrier_begin x bid participants rt wc rt')
  have "shape rt' = shape rt"
    using barrier_begin.hyps by (auto simp: Barrier_begin_def Let_def split: if_splits option.splits prod.splits WaitCall.splits)
  then show ?case using barrier_begin.prems par_ok_shape by blast
next
  case (barrier_finish bid gn rt b rt')
  have "shape rt' = shape rt"
    using barrier_finish.hyps by (auto simp: Barrier_finish_def Let_def split: if_splits option.splits prod.splits)
  then show ?case using barrier_finish.prems par_ok_shape by blast
next
  case (drain rt)
  then show ?case using par_ok_shape [of "drop_samples rt" rt] by simp
next
  case (finalize rt others ids)
  then show ?case using par_ok_shape [OF ParFinalize_shape] by blast
qed (simp_all add: worker_return_ok execution_return_ok ParHandleMessage_ok Progress_round_ok)

lemma par_reach_ok: "par_reach mc push c rt \<Longrightarrow> par_ok rt"
  by (induction rule: par_reach.induct) (simp_all add: par_ok_new par_step_ok)

text \<open>
  C16. The limits of a host hold in every state it can reach, whatever calls it gets, whatever other hosts send it and in
  whatever order its workers, its progress thread and its poller run.  The counter of running threads is exact: the home
  threads that have a fiber here and the executions for other hosts that have not been reported.  The counter of pending
  creates is exact: the home threads that are away.  So no more fibers exist than the limit of running threads allows,
  and no more threads are away than the limit of pending creates allows.
\<close>

theorem admission_limits:
  assumes "par_reach mc push c rt"
  shows "pr_running rt = of_nat (card (fibers (pr_threads rt)) + length (pr_remote_executions rt)) \<and>
    pr_pending rt = of_nat (card (away (pr_threads rt))) \<and>
    (max_running_threads_per_host (pr_config rt) \<noteq> 0 \<longrightarrow>
       card (fibers (pr_threads rt)) + card (fibers (pr_executions rt)) \<le> unat (max_running_threads_per_host (pr_config rt))) \<and>
    (max_pending_creates_per_host (pr_config rt) \<noteq> 0 \<longrightarrow> card (away (pr_threads rt)) \<le> unat (max_pending_creates_per_host (pr_config rt)))"
proof -
  have ok: "par_ok rt" by (rule par_reach_ok [OF assms])
  have "card (fibers (pr_executions rt)) \<le> card ((\<lambda>p. local_tid (snd p)) ` set (pr_remote_executions rt))"
    by (rule card_mono) (use ok in \<open>auto simp: par_ok_def\<close>)
  also have "\<dots> \<le> length (pr_remote_executions rt)" using card_image_le [of "set (pr_remote_executions rt)"] card_length by (metis List.finite_set le_trans)
  finally show ?thesis using ok by (auto simp: par_ok_def counted_def)
qed

text \<open>A host of two that may run one thread: it starts, registers a function and is asked by the other host to run it.\<close>

definition sample_hosts :: SchedulerConfig where
  "sample_hosts = \<lparr>local_host_id = 0, host_count = 2, shared_region_bytes = 0x40000000, coherence_granule_bytes = 4096,
     queue_capacity_entries = 0, replica_cache_capacity_entries = 1024, replica_cache_capacity_bytes = 0x4000000,
     shared_region_path = ''shm'', bootstrap_owner = True, create_region_file = True, bootstrap_timeout_ms = 10000,
     placement_policy = kMemoryAware, max_running_threads_per_host = 1, max_pending_creates_per_host = 1,
     scheduler_load_half_life_ms = 1, scheduler_queue_weight = 1, scheduler_history_weight = 1, scheduler_remote_locality_penalty = 1\<rparr>"

definition idle_memory :: "unit MemoryCalls" where
  "idle_memory = \<lparr>mc_query = (\<lambda>_ mm. (Inr [], mm)), mc_release = (\<lambda>_ mm. Some (kOk, mm)), mc_acquire = (\<lambda>mm. Some (kOk, mm)),
     mc_staged = (\<lambda>_. 0), mc_start_poller = (\<lambda>mm. (kOk, mm)), mc_stop_poller = (\<lambda>mm. (kOk, mm))\<rparr>"

definition sample_moment :: Moment where
  "sample_moment = \<lparr>mo_now = 5, mo_context = 0, mo_fiber_ok = True, mo_workers = 1, mo_runnable = (\<lambda>_. True), mo_exec_runnable = (\<lambda>_. True),
     mo_queued = (\<lambda>_. Inr 0)\<rparr>"

definition accept_all :: "QueueEnvelope list \<Rightarrow> QueueEnvelope \<Rightarrow> Status \<times> QueueEnvelope list" where
  "accept_all q m = (kOk, q @ [m])"

definition sample_ready :: "(unit, unit) ParRuntime" where
  "sample_ready = snd (RegisterFunction (\<lambda>_. None) ''f'' (Some ()) (snd (ParInitialize idle_memory True (new_par sample_hosts ()))))"

definition sample_request :: QueueEnvelope where
  "sample_request = EncodeThread CreateReq 1 0 \<lparr>home_host = 1, local_tid = 7\<rparr> (FunctionId ''f'') 0 [1, 2] 0 0 False"

definition sample_busy :: "(unit, unit) ParRuntime" where
  "sample_busy = snd (ParHandleMessage sample_moment sample_request sample_ready)"

lemma sample_ready_fields:
  "pr_config sample_ready = sample_hosts" "pr_executions sample_ready = new_manager 0" "pr_threads sample_ready = new_manager 0"
  "pr_remote_executions sample_ready = []" "pr_running sample_ready = 0" "pr_initialized sample_ready" "pr_outgoing sample_ready = []"
  "Resolve_id (FunctionId ''f'') (pr_functions sample_ready) = Inr ()"
  by (simp_all add: sample_ready_def ParInitialize_def new_par_def sample_hosts_def idle_memory_def RegisterFunction_def Register_def Let_def Resolve_id_def)

lemma thread_wire_fields [simp]:
  "tw_code (thread_wire g fid code args v n cluster) = code" "tw_result_value (thread_wire g fid code args v n cluster) = v"
  "tw_migration_epoch (thread_wire g fid code args v n cluster) = n" "tw_function (thread_wire g fid code args v n cluster) = fid"
  "tw_reserved (thread_wire g fid code args v n cluster) = of_bool cluster"
  by (simp_all add: thread_wire_def)

lemma sample_busy_fields:
  "pr_remote_executions sample_busy = [(\<lparr>home_host = 1, local_tid = 7\<rparr>, \<lparr>home_host = 0, local_tid = 0\<rparr>)]" "pr_running sample_busy = 1"
  "fibers (pr_executions sample_busy) = {0}" "pr_config sample_busy = sample_hosts"
proof -
  have d: "DecodeThread 0 2 sample_request = Some (thread_wire \<lparr>home_host = 1, local_tid = 7\<rparr> (FunctionId ''f'') 0 [1, 2] 0 0 False)"
    by (simp add: sample_request_def)
  have k: "kind (env_header sample_request) = CreateReq" "src_host (env_header sample_request) = 1" by (simp_all add: sample_request_def)
  have h: "local_host_id sample_hosts = 0" "host_count sample_hosts = 2" "max_running_threads_per_host sample_hosts = 1"
    by (simp_all add: sample_hosts_def)
  have rv: "ReserveExecution 0 sample_ready = (kOk, sample_ready\<lparr>pr_running := 1\<rparr>)"
    by (simp add: ReserveExecution_def Let_def sample_ready_fields h)
  have b: "sample_busy = snd (run_create sample_moment \<lparr>home_host = 1, local_tid = 7\<rparr> (FunctionId ''f'') (Some ())
      (drop sizeof_ThreadWire (env_payload sample_request)) (sample_ready\<lparr>pr_running := 1\<rparr>))"
    by (simp add: sample_busy_def ParHandleMessage_def k handle_thread_def h d handle_create_def Let_def sample_ready_fields resolve_create_def rv)
  note run = b run_create_def AllocateThread_def MarkLaunching_def Launch_def Let_def find_home_def put_thread_def set_state_def
    new_manager_def sample_ready_fields sample_moment_def h
  show "pr_remote_executions sample_busy = [(\<lparr>home_host = 1, local_tid = 7\<rparr>, \<lparr>home_host = 0, local_tid = 0\<rparr>)]" "pr_running sample_busy = 1"
    "fibers (pr_executions sample_busy) = {0}" "pr_config sample_busy = sample_hosts"
    by (auto simp: run fibers_def fibered_def sample_hosts_def split: option.splits if_splits)
qed

lemma sample_busy_reach: "par_reach idle_memory accept_all sample_hosts sample_busy"
proof -
  have "par_reach idle_memory accept_all sample_hosts sample_ready"
    unfolding sample_ready_def by (rule par_reach.step [OF par_reach.step [OF par_reach.start par_step.initialize] par_step.register])
  then show ?thesis
    unfolding sample_busy_def
    by (rule par_reach.step [OF _ par_step.message]) (simp_all add: sample_ready_fields sample_request_def sample_hosts_def new_manager_def)
qed

theorem admission_limits_witness:
  "pr_running sample_busy = 1 \<and> fibers (pr_executions sample_busy) = {0} \<and>
   card (fibers (pr_threads sample_busy)) + card (fibers (pr_executions sample_busy)) \<le> unat (max_running_threads_per_host (pr_config sample_busy))"
proof -
  have "max_running_threads_per_host (pr_config sample_busy) \<noteq> 0" by (simp add: sample_busy_fields sample_hosts_def)
  then show ?thesis using admission_limits [OF sample_busy_reach] sample_busy_fields(2,3) by blast
qed

section \<open>The end of the runtime\<close>

lemma drain_rounds_ok:
  assumes others: "\<And>i s. (par_step mc push)\<^sup>*\<^sup>* s (others i s)"
  shows "par_ok rt \<Longrightarrow> drain_rounds others n rt = (d, rt') \<Longrightarrow> par_ok rt'"
proof (induction n arbitrary: rt)
  case 0
  then show ?case using par_ok_shape [of "drop_samples rt" rt] by (auto simp: Let_def split: if_splits)
next
  case (Suc n)
  have ok: "par_ok (drop_samples rt)" using Suc.prems(1) par_ok_shape [of "drop_samples rt" rt] by simp
  have "par_ok s'" if "(par_step mc push)\<^sup>*\<^sup>* s s'" "par_ok s" for s s' using that by (induction rule: rtranclp_induct) (simp_all add: par_step_ok)
  then have "par_ok (others n (drop_samples rt))" using others ok by blast
  then show ?case using Suc ok by (auto simp: Let_def split: if_splits)
qed



section \<open>A completion travels home\<close>

lemma publish_all_threads: "pr_threads (publish_all x rt) = pr_threads rt" "pr_pending (publish_all x rt) = pr_pending rt" "pr_config (publish_all x rt) = pr_config rt"
  using shape_eq [OF shape_messages(4) [of x rt]] by simp_all


text \<open>Host 0 waits for a thread that host 1 has run, with result 99.\<close>

definition sample_away :: "(unit, unit) ParRuntime" where
  "sample_away = (new_par sample_hosts ())\<lparr>pr_threads := snd (entered 1 5 [] (new_manager 0)), pr_pending := 1\<rparr>"

definition sample_worker :: "(unit, unit) ParRuntime" where
  "sample_worker = new_par (sample_hosts\<lparr>local_host_id := 1\<rparr>) ()"

definition sample_result :: ThreadRecord where
  "sample_result = \<lparr>tr_gtid = \<lparr>home_host = 1, local_tid = 0\<rparr>, execution_host = 1, tr_state = TCompleted, function_id = 5, arg_bytes = [], exit_code = 0,
     result_value = 99, migration_epoch = 0, result_bytes = [], migration_state = MsPinned, migration_target = 1\<rparr>"


end
