(* ===== verification/Cx_Sync.thy ===== *)
theory Cx_Sync
  imports Cx_Par_Runtime
begin

text \<open>
  The mutex and the condition variable of the C interface (\<^verbatim>\<open>src/api/cxloom_mem.cpp\<close>) and the waiter queue under them
  (\<^verbatim>\<open>include/cxloom/common/condition.h\<close>).

  A mutex is a flag of the host, and across hosts also the write buffer of a shared object, held while the mutex is held.
  A shared condition is three words of a shared object, changed under its write buffer: a bit for every waiter, and the
  bits of the waiters that have been notified.  LoomMem is used through \<open>SyncCalls\<close>, which \<open>loommem_sync\<close> gives by the
  operations of the other theories; a call that blocks is split at the wait.  Null handles, which every call refuses
  first, are not kept.
\<close>

unbundle bit_operations_syntax

section \<open>The waiter queue\<close>

record ExecutionWaitState =
  wt_id :: u64
  wt_ready :: bool
  wt_deadline :: u64

type_synonym Waiters = "ExecutionWaitState list"

definition cv_enter :: "u64 \<Rightarrow> u64 \<Rightarrow> Waiters \<Rightarrow> Waiters" where
  "cv_enter i deadline ws = ws @ [\<lparr>wt_id = i, wt_ready = False, wt_deadline = deadline\<rparr>]"

text \<open>The clock is read once for every waiter that is not ready: \<open>now j\<close> is the value read for the \<open>j\<close>-th of the queue.\<close>

fun cv_notify :: "bool \<Rightarrow> (nat \<Rightarrow> u64) \<Rightarrow> Waiters \<Rightarrow> Waiters" where
  "cv_notify all now [] = []"
| "cv_notify all now (w # ws) =
     (if wt_ready w \<or> wt_deadline w \<le> now 0 then w # cv_notify all (\<lambda>j. now (Suc j)) ws
      else w\<lparr>wt_ready := True\<rparr> # (if all then cv_notify all (\<lambda>j. now (Suc j)) ws else ws))"

definition cv_leave :: "u64 \<Rightarrow> Waiters \<Rightarrow> bool \<times> Waiters" where
  "cv_leave i ws = (case find (\<lambda>w. wt_id w = i) ws of None \<Rightarrow> (False, ws) | Some w \<Rightarrow> (wt_ready w, remove1 w ws))"

lemma cv_notify_ids: "map wt_id (cv_notify every now ws) = map wt_id ws"
  by (induction every now ws rule: cv_notify.induct) simp_all

text \<open>A notification of one makes at most one more waiter ready, and one exactly when somebody can be notified.\<close>

lemma cv_notify_one:
  "length (filter wt_ready (cv_notify False (\<lambda>_. now) ws)) =
     length (filter wt_ready ws) + (if \<exists>w\<in>set ws. \<not> wt_ready w \<and> now < wt_deadline w then 1 else 0)"
  by (induction ws) (auto simp: not_le)

text \<open>A notification of all leaves nobody behind whose deadline has not passed.\<close>

lemma cv_notify_all: "w \<in> set (cv_notify True (\<lambda>_. now) ws) \<Longrightarrow> now < wt_deadline w \<Longrightarrow> wt_ready w"
  by (induction ws) (auto simp: not_le split: if_splits)

section \<open>The mutex\<close>

record 'm SyncCalls =
  sy_acquire_buffer :: "GlobalPointer \<Rightarrow> u64 \<Rightarrow> 'm \<Rightarrow> WriteBuffer Result \<times> 'm"
  sy_release_buffer :: "WriteBuffer \<Rightarrow> 'm \<Rightarrow> (Status \<times> WriteBuffer \<times> 'm) option"
  sy_acquire :: "'m \<Rightarrow> (Status \<times> 'm) option"
  sy_release :: "u64 \<Rightarrow> 'm \<Rightarrow> (Status \<times> 'm) option"
  sy_free :: "GlobalPointer \<Rightarrow> 'm \<Rightarrow> (Status \<times> 'm) option"

definition loommem_sync :: "(Pause \<Rightarrow> WriteState \<Rightarrow> WriteState) \<Rightarrow> (nat \<Rightarrow> 'h Runtime \<Rightarrow> 'h Runtime) \<Rightarrow> nat \<Rightarrow> bool \<Rightarrow> 'h Runtime SyncCalls" where
  "loommem_sync others between rounds busy =
     \<lparr>sy_acquire_buffer = (\<lambda>object timeout_ms rt.
        case AcquireWriteBuffer (env_of rt) others object timeout_ms (rn_write rt) of (r, W) \<Rightarrow> (r, rt\<lparr>rn_write := W\<rparr>)),
      sy_release_buffer = (\<lambda>wb rt. map_option (\<lambda>(st, wb1, W). (st, wb1, rt\<lparr>rn_write := W\<rparr>)) (ReleaseWriteBuffer (env_of rt) others wb (rn_write rt))),
      sy_acquire = on_boundary SynchronizeAcquire,
      sy_release = (\<lambda>ctx rt. map_option (\<lambda>(st, W). (st, rt\<lparr>rn_write := W\<rparr>)) (SynchronizeRelease (env_of rt) others ctx (rn_write rt))),
      sy_free = FreeShared between rounds busy\<rparr>"

record ClMutex =
  mx_object :: GlobalPointer
  mx_distributed :: bool
  mx_owns_object :: bool
  mx_locked :: bool
  mx_owner :: u64
  mx_waiters :: u64
  mx_lease :: "WriteBuffer option"

definition new_mutex :: "GlobalPointer option \<Rightarrow> bool \<Rightarrow> ClMutex" where
  "new_mutex object owns = \<lparr>mx_object = (case object of Some g \<Rightarrow> g | None \<Rightarrow> default_pointer), mx_distributed = (object \<noteq> None), mx_owns_object = owns,
     mx_locked = False, mx_owner = 0, mx_waiters = 0, mx_lease = None\<rparr>"

text \<open>\<^verbatim>\<open>LockMutex\<close> up to the wait, after it, one try for the write buffer, and the end.\<close>

datatype LockCall = LockRefused Status | LockTaken | LockWaits

definition take_mutex :: "u64 \<Rightarrow> ClMutex \<Rightarrow> ClMutex" where
  "take_mutex ctx mx = mx\<lparr>mx_locked := True, mx_owner := ctx\<rparr>"

definition LockMutex_begin :: "bool \<Rightarrow> u64 \<Rightarrow> ClMutex \<Rightarrow> LockCall \<times> ClMutex" where
  "LockMutex_begin attempt ctx mx =
     (if mx_locked mx \<and> mx_owner mx = ctx then (LockRefused (if attempt then kUnavailable else kFailedPrecondition), mx)
      else if attempt \<and> mx_locked mx then (LockRefused kUnavailable, mx)
      else if mx_locked mx then (LockWaits, mx\<lparr>mx_waiters := mx_waiters mx + 1\<rparr>)
      else (LockTaken, take_mutex ctx mx))"

definition LockMutex_wake :: "u64 \<Rightarrow> ClMutex \<Rightarrow> ClMutex option" where
  "LockMutex_wake ctx mx = (if mx_locked mx then None else Some (take_mutex ctx (mx\<lparr>mx_waiters := mx_waiters mx - 1\<rparr>)))"

definition LockMutex_lease :: "'m SyncCalls \<Rightarrow> bool \<Rightarrow> ClMutex \<times> 'm \<Rightarrow> Status option \<times> ClMutex \<times> 'm" where
  "LockMutex_lease sy attempt s =
     (case s of (mx, mm) \<Rightarrow>
        if \<not> mx_distributed mx then (Some kOk, mx, mm)
        else (case sy_acquire_buffer sy (mx_object mx) (if attempt then 1 else 10000) mm of
                (Inr wb, mm1) \<Rightarrow> (Some kOk, mx\<lparr>mx_lease := Some wb\<rparr>, mm1)
              | (Inl st, mm1) \<Rightarrow> (if attempt \<or> st \<noteq> kUnavailable then Some st else None, mx, mm1)))"

definition open_mutex :: "ClMutex \<Rightarrow> ClMutex" where
  "open_mutex mx = mx\<lparr>mx_locked := False, mx_owner := 0\<rparr>"

definition LockMutex_finish :: "'m SyncCalls \<Rightarrow> Status \<Rightarrow> ClMutex \<times> 'm \<Rightarrow> (Status \<times> ClMutex \<times> 'm) option" where
  "LockMutex_finish sy status s =
     (case s of (mx, mm) \<Rightarrow>
        (case (if status = kOk then sy_acquire sy mm else Some (status, mm)) of
           None \<Rightarrow> None
         | Some (st, mm1) \<Rightarrow>
             if st = kOk then Some (kOk, mx, mm1)
             else (case mx_lease mx of
                     None \<Rightarrow> Some (st, open_mutex mx, mm1)
                   | Some wb \<Rightarrow> map_option (\<lambda>(_, _, mm2). (st, open_mutex (mx\<lparr>mx_lease := None\<rparr>), mm2)) (sy_release_buffer sy wb mm1))))"

definition mutex_unlock :: "'m SyncCalls \<Rightarrow> u64 \<Rightarrow> ClMutex \<times> 'm \<Rightarrow> (Status \<times> ClMutex \<times> 'm) option" where
  "mutex_unlock sy ctx s =
     (case s of (mx, mm) \<Rightarrow>
        if \<not> mx_locked mx \<or> mx_owner mx \<noteq> ctx then Some (kFailedPrecondition, mx, mm)
        else (case sy_release sy ctx mm of
                None \<Rightarrow> None
              | Some (st, mm1) \<Rightarrow>
                  if st \<noteq> kOk then Some (st, mx, mm1)
                  else if mx_distributed mx
                  then (case mx_lease mx of
                          None \<Rightarrow> None
                        | Some wb \<Rightarrow>
                            (case sy_release_buffer sy wb mm1 of
                               None \<Rightarrow> None
                             | Some (st1, wb1, mm2) \<Rightarrow>
                                 if st1 \<noteq> kOk then Some (st1, mx\<lparr>mx_lease := Some wb1\<rparr>, mm2)
                                 else Some (kOk, open_mutex (mx\<lparr>mx_lease := None\<rparr>), mm2)))
                  else Some (kOk, open_mutex mx, mm1)))"

definition mutex_destroy :: "'m SyncCalls \<Rightarrow> ClMutex \<times> 'm \<Rightarrow> (Status \<times> 'm) option" where
  "mutex_destroy sy s =
     (case s of (mx, mm) \<Rightarrow>
        if mx_locked mx \<or> mx_waiters mx \<noteq> 0 then Some (kFailedPrecondition, mm)
        else if mx_distributed mx \<and> mx_owns_object mx then sy_free sy (mx_object mx) mm
        else Some (kOk, mm))"

section \<open>The condition\<close>

definition kMutexMagic :: u64 where
  "kMutexMagic = 0x434c4d5554455831"

definition kConditionMagic :: u64 where
  "kConditionMagic = 0x434c434f4e443031"

record SharedCondition =
  sc_magic :: u64
  sc_waiting :: u64
  sc_ready :: u64

definition new_condition :: SharedCondition where
  "new_condition = \<lparr>sc_magic = kConditionMagic, sc_waiting = 0, sc_ready = 0\<rparr>"

definition lowest_bit :: "u64 \<Rightarrow> u64" where
  "lowest_bit w = w AND (NOT w + 1)"

definition register_waiter :: "SharedCondition \<Rightarrow> (Status \<times> u64) \<times> SharedCondition" where
  "register_waiter s =
     (let free = NOT (sc_waiting s) in
      if free = 0 then ((kUnavailable, 0), s)
      else let b = lowest_bit free in ((kOk, b), s\<lparr>sc_waiting := sc_waiting s OR b, sc_ready := sc_ready s AND NOT b\<rparr>))"

definition forget_waiter :: "u64 \<Rightarrow> SharedCondition \<Rightarrow> SharedCondition" where
  "forget_waiter b s = s\<lparr>sc_waiting := sc_waiting s AND NOT b, sc_ready := sc_ready s AND NOT b\<rparr>"

definition notify_shared :: "bool \<Rightarrow> SharedCondition \<Rightarrow> SharedCondition" where
  "notify_shared all s =
     (let pending = sc_waiting s AND NOT (sc_ready s) in s\<lparr>sc_ready := sc_ready s OR (if all then pending else lowest_bit pending)\<rparr>)"

definition SharedCondition_image :: "SharedCondition \<Rightarrow> u8 list" where
  "SharedCondition_image s = le_bytes 8 (sc_magic s) @ le_bytes 8 (sc_waiting s) @ le_bytes 8 (sc_ready s)"

definition read_SharedCondition :: "u8 list \<Rightarrow> SharedCondition" where
  "read_SharedCondition bs = \<lparr>sc_magic = le_word (field 0 8 bs), sc_waiting = le_word (field 8 8 bs), sc_ready = le_word (field 16 8 bs)\<rparr>"

text \<open>One try of the loop of \<^verbatim>\<open>ChangeCondition\<close>; \<open>Some None\<close> is a pause and another try.\<close>

definition ChangeCondition :: "'m SyncCalls \<Rightarrow> GlobalPointer \<Rightarrow> (SharedCondition \<Rightarrow> 'r \<times> SharedCondition) \<Rightarrow> 'm \<Rightarrow> ((Status \<times> 'r option) option \<times> 'm) option" where
  "ChangeCondition sy object change mm =
     (case sy_acquire_buffer sy object 10000 mm of
        (Inl st, mm1) \<Rightarrow> Some (if st \<noteq> kUnavailable then Some (st, None) else None, mm1)
      | (Inr wb, mm1) \<Rightarrow>
          (case wb_storage wb of
             None \<Rightarrow> None
           | Some bs \<Rightarrow>
               if length bs < 24 then None
               else (case change (read_SharedCondition bs) of (r, s) \<Rightarrow>
                       map_option (\<lambda>(st, _, mm2). (Some (st, Some r), mm2))
                         (sy_release_buffer sy (wb\<lparr>wb_storage := Some (SharedCondition_image s @ drop 24 bs)\<rparr>) mm1))))"

text \<open>One round of the wait: the acquire, the read, the deadline; \<open>None\<close> is a pause and another round.\<close>

definition poll_condition :: "Status \<Rightarrow> SharedCondition Result \<Rightarrow> u64 \<Rightarrow> bool \<Rightarrow> Status option" where
  "poll_condition acquired observed b expired =
     (if acquired \<noteq> kOk then Some acquired
      else (case observed of
              Inr s \<Rightarrow> if sc_ready s AND b \<noteq> 0 then Some kOk else if expired then Some kUnavailable else None
            | Inl st \<Rightarrow> if st \<noteq> kUnavailable then Some st else if expired then Some kUnavailable else None))"

section \<open>The lowest bit\<close>

text \<open>\<open>one k\<close> is the word whose only bit is \<open>k\<close>.\<close>

definition one :: "nat \<Rightarrow> u64" where
  "one k = push_bit k 1"

lemma bit_one: "k < 64 \<Longrightarrow> bit (one k) j \<longleftrightarrow> j = k"
  by (auto simp: one_def bit_exp_iff)

lemma one_inj: "k < 64 \<Longrightarrow> j < 64 \<Longrightarrow> one k = one j \<longleftrightarrow> k = j"
  using bit_one by metis

lemma one_nonzero: "k < 64 \<Longrightarrow> one k \<noteq> 0"
  using bit_one [of k k] by auto

lemma and_one: "k < 64 \<Longrightarrow> w AND one k \<noteq> 0 \<longleftrightarrow> bit w k"
proof -
  assume k: "k < 64"
  have "bit (w AND one k) j \<longleftrightarrow> j = k \<and> bit w k" for j using bit_one [OF k] by (auto simp: bit_and_iff)
  then show ?thesis by (metis bit_0_eq bot_apply bot_bool_def bit_word_eqI)
qed

lemma odd_lowest:
  fixes v :: u64
  assumes "odd v"
  shows "v AND (NOT v + 1) = 1"
proof -
  have "NOT v AND 1 = 0" using assms by (simp only: and_one_eq even_iff_mod_2_eq_zero [symmetric] even_not_iff not_False_eq_True)
  then have "NOT v + 1 = NOT v OR 1" by (rule disjunctive_add_eq_or)
  then have "v AND (NOT v + 1) = v AND 1" by (simp add: bit.conj_disj_distrib)
  then show ?thesis using assms by (simp add: and_one_eq odd_iff_mod_2_eq_one)
qed

lemma lowest_bit_one:
  assumes "w \<noteq> 0"
  obtains k where "k < 64" "lowest_bit w = one k" "bit w k" "\<And>j. bit w j \<Longrightarrow> k \<le> j"
proof -
  define k where "k = (LEAST j. bit w j)"
  have ex: "\<exists>j. bit w j" using assms by (metis bit_word_eqI bit_0_eq bot_apply bot_bool_def)
  then have b: "bit w k" unfolding k_def by (rule LeastI_ex)
  have least: "k \<le> j" if "bit w j" for j unfolding k_def using that by (rule Least_le)
  have k64: "k < 64" using b bit_imp_le_length [OF b] by simp
  define v where "v = drop_bit k w"
  have odd: "odd v" using b by (simp add: v_def bit_iff_odd_drop_bit)
  have w: "w = push_bit k v"
  proof (rule bit_word_eqI)
    fix j assume "j < LENGTH(64)"
    then show "bit w j = bit (push_bit k v) j" using least [of j] by (auto simp: v_def bit_push_bit_iff bit_drop_bit_eq not_le)
  qed
  have neg: "NOT u + 1 = - u" for u :: u64 by (simp only: minus_eq_not_plus_1)
  have m: "- w = push_bit k (- v)" unfolding w by (simp add: push_bit_eq_mult)
  have "lowest_bit w = w AND - w" unfolding lowest_bit_def neg ..
  also have "\<dots> = push_bit k v AND push_bit k (- v)" unfolding m by (subst w) (rule refl)
  also have "\<dots> = push_bit k (v AND (NOT v + 1))" unfolding neg push_bit_and ..
  finally have "lowest_bit w = push_bit k (v AND (NOT v + 1))" .
  then have "lowest_bit w = one k" using odd_lowest [OF odd] by (simp add: one_def)
  then show thesis using that b least k64 by blast
qed

section \<open>The condition as a state machine\<close>

text \<open>
  The waiters of all hosts on one shared condition, each with the bit it was given.  Every change is one step, because it
  is made under the write buffer of the object; a waiter leaves when it has seen its bit or has given up.
\<close>

type_synonym CondState = "SharedCondition \<times> (u64 \<rightharpoonup> u64)"

inductive cond_step :: "CondState \<Rightarrow> CondState \<Rightarrow> bool" where
  enter: "W i = None \<Longrightarrow> register_waiter s = ((kOk, b), s') \<Longrightarrow> cond_step (s, W) (s', W(i \<mapsto> b))"
| notify: "cond_step (s, W) (notify_shared every s, W)"
| leave: "W i = Some b \<Longrightarrow> cond_step (s, W) (forget_waiter b s, W(i := None))"

inductive cond_reach :: "CondState \<Rightarrow> bool" where
  start: "cond_reach (new_condition, Map.empty)"
| step: "cond_reach a \<Longrightarrow> cond_step a b \<Longrightarrow> cond_reach b"

text \<open>What a condition variable promises: who waits, and who of them has been notified.\<close>

inductive cond_spec :: "u64 set \<times> u64 set \<Rightarrow> u64 set \<times> u64 set \<Rightarrow> bool" where
  spec_enter: "i \<notin> A \<Longrightarrow> cond_spec (A, R) (insert i A, R)"
| spec_signal: "i \<in> A - R \<Longrightarrow> cond_spec (A, R) (A, insert i R)"
| spec_signal_none: "A = R \<Longrightarrow> cond_spec (A, R) (A, R)"
| spec_broadcast: "cond_spec (A, R) (A, A)"
| spec_leave: "i \<in> A \<Longrightarrow> cond_spec (A, R) (A - {i}, R - {i})"

definition cond_abs :: "CondState \<Rightarrow> u64 set \<times> u64 set" where
  "cond_abs c = (dom (snd c), {i. \<exists>b. snd c i = Some b \<and> sc_ready (fst c) AND b \<noteq> 0})"

definition cond_inv :: "CondState \<Rightarrow> bool" where
  "cond_inv c \<longleftrightarrow>
     (\<forall>i b. snd c i = Some b \<longrightarrow> (\<exists>k<64. b = one k \<and> bit (sc_waiting (fst c)) k)) \<and>
     (\<forall>k<64. bit (sc_waiting (fst c)) k \<longrightarrow> (\<exists>i. snd c i = Some (one k))) \<and>
     (\<forall>i j b. snd c i = Some b \<longrightarrow> snd c j = Some b \<longrightarrow> i = j) \<and>
     (\<forall>k<64. bit (sc_ready (fst c)) k \<longrightarrow> bit (sc_waiting (fst c)) k)"

lemma register_waiter_ok:
  assumes "register_waiter s = ((kOk, b), s')"
  obtains k where "k < 64" "b = one k" "\<not> bit (sc_waiting s) k"
    "\<And>j. j < 64 \<Longrightarrow> bit (sc_waiting s') j \<longleftrightarrow> bit (sc_waiting s) j \<or> j = k"
    "\<And>j. j < 64 \<Longrightarrow> bit (sc_ready s') j \<longleftrightarrow> bit (sc_ready s) j \<and> j \<noteq> k"
proof -
  have nz: "NOT (sc_waiting s) \<noteq> 0" using assms by (auto simp: register_waiter_def Let_def split: if_splits)
  obtain k where k: "k < 64" "lowest_bit (NOT (sc_waiting s)) = one k" "bit (NOT (sc_waiting s)) k" by (rule lowest_bit_one [OF nz])
  have s': "b = one k" "s' = s\<lparr>sc_waiting := sc_waiting s OR one k, sc_ready := sc_ready s AND NOT (one k)\<rparr>"
    using assms nz k(2) by (auto simp: register_waiter_def Let_def)
  show thesis
    by (rule that [OF k(1) s'(1)]) (use k in \<open>auto simp: s' bit_or_iff bit_and_iff bit_not_iff bit_one\<close>)
qed

lemma register_waiter_full: "fst (fst (register_waiter s)) \<noteq> kOk \<longleftrightarrow> (\<forall>k<64. bit (sc_waiting s) k)"
proof -
  have "NOT (sc_waiting s) = 0 \<longleftrightarrow> (\<forall>k<64. bit (sc_waiting s) k)"
    by (auto simp: bit_eq_iff bit_not_iff possible_bit_def)
  then show ?thesis by (auto simp: register_waiter_def Let_def)
qed

lemma notify_one_bit:
  assumes "sc_waiting s AND NOT (sc_ready s) \<noteq> 0"
  obtains k where "k < 64" "bit (sc_waiting s) k" "\<not> bit (sc_ready s) k" "notify_shared False s = s\<lparr>sc_ready := sc_ready s OR one k\<rparr>"
proof -
  obtain k where "k < 64" "lowest_bit (sc_waiting s AND NOT (sc_ready s)) = one k" "bit (sc_waiting s AND NOT (sc_ready s)) k" by (rule lowest_bit_one [OF assms])
  then show thesis using that by (auto simp: notify_shared_def Let_def bit_and_iff bit_not_iff)
qed

lemma cond_inv_parts:
  assumes "cond_inv (s, W)"
  shows "W i = Some b \<Longrightarrow> \<exists>k<64. b = one k \<and> bit (sc_waiting s) k"
    and "k < 64 \<Longrightarrow> bit (sc_waiting s) k \<Longrightarrow> \<exists>i. W i = Some (one k)"
    and "W i = Some b \<Longrightarrow> W j = Some b \<Longrightarrow> i = j"
    and "k < 64 \<Longrightarrow> bit (sc_ready s) k \<Longrightarrow> bit (sc_waiting s) k"
  using assms unfolding cond_inv_def fst_conv snd_conv by blast+

lemma cond_abs_bits:
  assumes "cond_inv (s, W)"
  shows "cond_abs (s, W) = (dom W, {i. \<exists>k<64. W i = Some (one k) \<and> bit (sc_ready s) k})"
proof -
  have "(\<exists>b. W i = Some b \<and> sc_ready s AND b \<noteq> 0) \<longleftrightarrow> (\<exists>k<64. W i = Some (one k) \<and> bit (sc_ready s) k)" for i
    using cond_inv_parts(1) [OF assms, of i] and_one by metis
  then show ?thesis by (simp add: cond_abs_def)
qed

lemma enter_inv:
  assumes inv: "cond_inv (s, W)" and i: "W i = None" and r: "register_waiter s = ((kOk, b), s')"
  shows "cond_inv (s', W(i \<mapsto> b)) \<and> cond_abs (s', W(i \<mapsto> b)) = (insert i (dom W), snd (cond_abs (s, W)))"
proof -
  obtain k where k: "k < 64" "b = one k" "\<not> bit (sc_waiting s) k"
    and w: "\<And>j. j < 64 \<Longrightarrow> bit (sc_waiting s') j \<longleftrightarrow> bit (sc_waiting s) j \<or> j = k"
    and y: "\<And>j. j < 64 \<Longrightarrow> bit (sc_ready s') j \<longleftrightarrow> bit (sc_ready s) j \<and> j \<noteq> k"
    by (rule register_waiter_ok [OF r]) blast
  note p = cond_inv_parts [OF inv]
  have fresh: "W j \<noteq> Some (one k)" for j using p(1) [of j "one k"] k one_inj by blast
  have inv': "cond_inv (s', W(i \<mapsto> b))"
    unfolding cond_inv_def fst_conv snd_conv
  proof (intro conjI allI impI)
    fix j c assume "(W(i \<mapsto> b)) j = Some c"
    then show "\<exists>k<64. c = one k \<and> bit (sc_waiting s') k" using p(1) [of j c] k(1,2) w by (auto split: if_splits)
  next
    fix j assume "j < 64" "bit (sc_waiting s') j"
    then show "\<exists>i'. (W(i \<mapsto> b)) i' = Some (one j)" using p(2) [of j] k(2) w i by (metis fun_upd_apply option.distinct(1))
  next
    fix j l c assume "(W(i \<mapsto> b)) j = Some c" "(W(i \<mapsto> b)) l = Some c"
    then show "j = l" using p(3) [of j c l] fresh k(2) by (auto split: if_splits)
  next
    fix j assume "j < 64" "bit (sc_ready s') j"
    then show "bit (sc_waiting s') j" using p(4) w y by blast
  qed
  have "(\<exists>l<64. (W(i \<mapsto> b)) j = Some (one l) \<and> bit (sc_ready s') l) \<longleftrightarrow> (\<exists>l<64. W j = Some (one l) \<and> bit (sc_ready s) l)" for j
    using y k(1,2) fresh one_inj i by (auto simp: fun_upd_apply)
  then show ?thesis using inv' by (simp add: cond_abs_bits [OF inv'] cond_abs_bits [OF inv])
qed

lemma leave_inv:
  assumes inv: "cond_inv (s, W)" and i: "W i = Some b"
  shows "cond_inv (forget_waiter b s, W(i := None)) \<and>
    cond_abs (forget_waiter b s, W(i := None)) = (dom W - {i}, snd (cond_abs (s, W)) - {i})"
proof -
  note p = cond_inv_parts [OF inv]
  obtain k where k: "k < 64" "b = one k" using p(1) [OF i] by blast
  have w: "bit (sc_waiting (forget_waiter b s)) j \<longleftrightarrow> bit (sc_waiting s) j \<and> j \<noteq> k"
    and y: "bit (sc_ready (forget_waiter b s)) j \<longleftrightarrow> bit (sc_ready s) j \<and> j \<noteq> k" if "j < 64" for j
    using that k by (auto simp: forget_waiter_def bit_and_iff bit_not_iff bit_one)
  have other: "W j = Some (one l) \<Longrightarrow> l < 64 \<Longrightarrow> j \<noteq> i \<longleftrightarrow> l \<noteq> k" for j l using p(3) [of j "one l" i] i k one_inj by auto
  have inv': "cond_inv (forget_waiter b s, W(i := None))"
    unfolding cond_inv_def fst_conv snd_conv
  proof (intro conjI allI impI)
    fix j c assume c: "(W(i := None)) j = Some c"
    then have "W j = Some c" "j \<noteq> i" by (auto split: if_splits)
    then show "\<exists>k<64. c = one k \<and> bit (sc_waiting (forget_waiter b s)) k" using p(1) [of j c] w other by blast
  next
    fix j assume j: "j < 64" "bit (sc_waiting (forget_waiter b s)) j"
    then obtain l where "W l = Some (one j)" using p(2) w by blast
    then show "\<exists>i'. (W(i := None)) i' = Some (one j)" using other [of l j] j w by (metis fun_upd_apply)
  next
    fix j l c assume "(W(i := None)) j = Some c" "(W(i := None)) l = Some c"
    then show "j = l" using p(3) [of j c l] by (auto split: if_splits)
  next
    fix j assume "j < 64" "bit (sc_ready (forget_waiter b s)) j"
    then show "bit (sc_waiting (forget_waiter b s)) j" using p(4) w y by blast
  qed
  have "(\<exists>l<64. (W(i := None)) j = Some (one l) \<and> bit (sc_ready (forget_waiter b s)) l) \<longleftrightarrow> (\<exists>l<64. W j = Some (one l) \<and> bit (sc_ready s) l) \<and> j \<noteq> i" for j
    using y other [of j] by (auto simp: fun_upd_apply)
  then have "{j. \<exists>l<64. (W(i := None)) j = Some (one l) \<and> bit (sc_ready (forget_waiter b s)) l} = {j. \<exists>l<64. W j = Some (one l) \<and> bit (sc_ready s) l} - {i}"
    by blast
  then show ?thesis using inv' by (simp add: cond_abs_bits [OF inv'] cond_abs_bits [OF inv])
qed

lemma notify_inv:
  assumes inv: "cond_inv (s, W)"
  shows "cond_inv (notify_shared every s, W)"
proof -
  note p = cond_inv_parts [OF inv]
  have w: "sc_waiting (notify_shared every s) = sc_waiting s" by (simp add: notify_shared_def Let_def)
  have low: "bit (lowest_bit v) j \<Longrightarrow> bit v j" for v j by (simp add: lowest_bit_def bit_and_iff)
  have y: "bit (sc_ready (notify_shared every s)) j \<Longrightarrow> bit (sc_ready s) j \<or> bit (sc_waiting s) j" for j
    using low [of "sc_waiting s AND NOT (sc_ready s)" j] by (auto simp: notify_shared_def Let_def bit_or_iff bit_and_iff split: if_splits)
  show ?thesis unfolding cond_inv_def fst_conv snd_conv w using p y by blast
qed

lemma notify_spec:
  assumes inv: "cond_inv (s, W)"
  shows "cond_spec (cond_abs (s, W)) (cond_abs (notify_shared every s, W))"
proof -
  note p = cond_inv_parts [OF inv] and abs = cond_abs_bits [OF inv] cond_abs_bits [OF notify_inv [OF inv]]
  let ?R = "{i. \<exists>k<64. W i = Some (one k) \<and> bit (sc_ready s) k}"
  have sub: "?R \<subseteq> dom W" by auto
  show ?thesis
  proof (cases every)
    case True
    have "bit (sc_ready (notify_shared every s)) k" if "W i = Some (one k)" "k < 64" for i k
      using p(1) [OF that(1)] that(2) one_inj True by (auto simp: notify_shared_def Let_def bit_or_iff bit_and_iff bit_not_iff)
    then have "{i. \<exists>k<64. W i = Some (one k) \<and> bit (sc_ready (notify_shared every s)) k} = dom W" using p(1) by fastforce
    then show ?thesis unfolding abs by (simp add: spec_broadcast)
  next
    case False
    show ?thesis
    proof (cases "sc_waiting s AND NOT (sc_ready s) = 0")
      case True
      then have same: "notify_shared every s = s" using False by (simp add: notify_shared_def Let_def lowest_bit_def)
      have "bit (sc_ready s) k" if "bit (sc_waiting s) k" "k < 64" for k
      proof -
        have "\<not> bit (sc_waiting s AND NOT (sc_ready s)) k" unfolding True by simp
        then show ?thesis using that by (simp add: bit_and_iff bit_not_iff)
      qed
      then have "dom W = ?R" using p(1) by fastforce
      then show ?thesis unfolding same abs(1) by (rule spec_signal_none)
    next
      case nz: False
      obtain k where k: "k < 64" "bit (sc_waiting s) k" "\<not> bit (sc_ready s) k" "notify_shared False s = s\<lparr>sc_ready := sc_ready s OR one k\<rparr>"
        by (rule notify_one_bit [OF nz])
      obtain i where i: "W i = Some (one k)" using p(2) k(1,2) by blast
      have y: "bit (sc_ready (notify_shared every s)) j \<longleftrightarrow> bit (sc_ready s) j \<or> j = k" for j
        using False k(1,4) by (simp add: bit_or_iff bit_one)
      have "{j. \<exists>l<64. W j = Some (one l) \<and> bit (sc_ready (notify_shared every s)) l} = insert i ?R"
        using i k(1) p(3) by (auto simp: y)
      moreover have "i \<in> dom W - ?R" using i k one_inj by auto
      ultimately show ?thesis unfolding abs by (simp add: spec_signal)
    qed
  qed
qed

lemma cond_step_sim: "cond_step a b \<Longrightarrow> cond_inv a \<Longrightarrow> cond_inv b \<and> cond_spec (cond_abs a) (cond_abs b)"
proof (induction rule: cond_step.induct)
  case (enter W i s b s')
  have a: "cond_abs (s, W) = (dom W, snd (cond_abs (s, W)))" by (simp add: cond_abs_def)
  have "cond_spec (dom W, snd (cond_abs (s, W))) (insert i (dom W), snd (cond_abs (s, W)))" by (rule spec_enter) (use enter in auto)
  then show ?case using enter_inv [OF enter.prems enter.hyps] a by simp
next
  case (notify s W every)
  then show ?case using notify_inv notify_spec by blast
next
  case (leave W i b s)
  have a: "cond_abs (s, W) = (dom W, snd (cond_abs (s, W)))" by (simp add: cond_abs_def)
  have "cond_spec (dom W, snd (cond_abs (s, W))) (dom W - {i}, snd (cond_abs (s, W)) - {i})" by (rule spec_leave) (use leave in auto)
  then show ?case using leave_inv [OF leave.prems leave.hyps] a by simp
qed

lemma cond_reach_inv: "cond_reach c \<Longrightarrow> cond_inv c"
proof (induction rule: cond_reach.induct)
  case start
  show ?case by (simp add: cond_inv_def new_condition_def)
qed (use cond_step_sim in blast)



section \<open>The mutex as a state machine\<close>

text \<open>
  The contexts of a host at one mutex.  Context ids start at 1.  What other calls do to LoomMem in between is \<open>memory\<close>.
\<close>

datatype MutexPc = MIdle | MWaiting | MLeasing bool | MFinishing Status | MHeld

inductive mutex_step :: "'m SyncCalls \<Rightarrow> ClMutex \<times> 'm \<times> (u64 \<Rightarrow> MutexPc) \<Rightarrow> ClMutex \<times> 'm \<times> (u64 \<Rightarrow> MutexPc) \<Rightarrow> bool" for sy where
  refused: "LockMutex_begin attempt c mx = (LockRefused st, mx') \<Longrightarrow> mutex_step sy (mx, mm, pc) (mx', mm, pc)"
| taken: "pc c = MIdle \<Longrightarrow> c \<noteq> 0 \<Longrightarrow> LockMutex_begin attempt c mx = (LockTaken, mx') \<Longrightarrow> mutex_step sy (mx, mm, pc) (mx', mm, pc(c := MLeasing attempt))"
| waits: "pc c = MIdle \<Longrightarrow> c \<noteq> 0 \<Longrightarrow> LockMutex_begin attempt c mx = (LockWaits, mx') \<Longrightarrow> mutex_step sy (mx, mm, pc) (mx', mm, pc(c := MWaiting))"
| wakes: "pc c = MWaiting \<Longrightarrow> LockMutex_wake c mx = Some mx' \<Longrightarrow> mutex_step sy (mx, mm, pc) (mx', mm, pc(c := MLeasing False))"
| lease: "pc c = MLeasing attempt \<Longrightarrow> LockMutex_lease sy attempt (mx, mm) = (r, mx', mm') \<Longrightarrow>
    mutex_step sy (mx, mm, pc) (mx', mm', pc(c := case r of None \<Rightarrow> MLeasing attempt | Some st \<Rightarrow> MFinishing st))"
| finish: "pc c = MFinishing st0 \<Longrightarrow> LockMutex_finish sy st0 (mx, mm) = Some (st, mx', mm') \<Longrightarrow>
    mutex_step sy (mx, mm, pc) (mx', mm', pc(c := if st = kOk then MHeld else MIdle))"
| unlock: "pc c \<in> {MIdle, MHeld} \<Longrightarrow> mutex_unlock sy c (mx, mm) = Some (st, mx', mm') \<Longrightarrow>
    mutex_step sy (mx, mm, pc) (mx', mm', pc(c := if st = kOk then MIdle else pc c))"
| memory: "mutex_step sy (mx, mm, pc) (mx, mm', pc)"

inductive mutex_reach :: "'m SyncCalls \<Rightarrow> ClMutex \<times> 'm \<times> (u64 \<Rightarrow> MutexPc) \<Rightarrow> bool" for sy where
  start: "mutex_reach sy (new_mutex object owns, mm, \<lambda>_. MIdle)"
| step: "mutex_reach sy a \<Longrightarrow> mutex_step sy a b \<Longrightarrow> mutex_reach sy b"

definition inside :: "MutexPc \<Rightarrow> bool" where
  "inside p \<longleftrightarrow> p \<noteq> MIdle \<and> p \<noteq> MWaiting"

definition mutex_inv :: "ClMutex \<times> 'm \<times> (u64 \<Rightarrow> MutexPc) \<Rightarrow> bool" where
  "mutex_inv a = (case a of (mx, mm, pc) \<Rightarrow>
     (\<forall>c. inside (pc c) \<longleftrightarrow> mx_locked mx \<and> mx_owner mx = c) \<and>
     mx_waiters mx = of_nat (card {c. pc c = MWaiting}) \<and> pc 0 \<noteq> MWaiting \<and>
     (\<forall>c. mx_distributed mx \<and> (pc c = MHeld \<or> pc c = MFinishing kOk) \<longrightarrow> mx_lease mx \<noteq> None))"

lemma inside_simps [simp]: "\<not> inside MIdle" "\<not> inside MWaiting" "inside (MLeasing a)" "inside (MFinishing st)" "inside MHeld"
  by (simp_all add: inside_def)

lemma waiting_update:
  fixes pc :: "u64 \<Rightarrow> MutexPc"
  shows "p \<noteq> MWaiting \<Longrightarrow> pc c \<noteq> MWaiting \<Longrightarrow> {d. (pc(c := p)) d = MWaiting} = {d. pc d = MWaiting}"
    and "p \<noteq> MWaiting \<Longrightarrow> pc c = MWaiting \<Longrightarrow> card {d. pc d = MWaiting} = Suc (card {d. (pc(c := p)) d = MWaiting})"
    and "pc c \<noteq> MWaiting \<Longrightarrow> card {d. (pc(c := MWaiting)) d = MWaiting} = Suc (card {d. pc d = MWaiting})"
proof -
  show "p \<noteq> MWaiting \<Longrightarrow> pc c \<noteq> MWaiting \<Longrightarrow> {d. (pc(c := p)) d = MWaiting} = {d. pc d = MWaiting}" by auto
  assume "p \<noteq> MWaiting" "pc c = MWaiting"
  then have "{d. (pc(c := p)) d = MWaiting} = {d. pc d = MWaiting} - {c}" "c \<in> {d. pc d = MWaiting}" by auto
  then show "card {d. pc d = MWaiting} = Suc (card {d. (pc(c := p)) d = MWaiting})" using card.remove [of "{d. pc d = MWaiting}" c] finite by metis
next
  assume "pc c \<noteq> MWaiting"
  then have "{d. (pc(c := MWaiting)) d = MWaiting} = insert c {d. pc d = MWaiting}" "c \<notin> {d. pc d = MWaiting}" by auto
  then show "card {d. (pc(c := MWaiting)) d = MWaiting} = Suc (card {d. pc d = MWaiting})" by simp
qed

text \<open>What the operations do to the flag, to the count of waiters and to the write buffer.\<close>

definition errors_named :: "'m SyncCalls \<Rightarrow> bool" where
  "errors_named sy \<longleftrightarrow> (\<forall>object timeout_ms mm. fst (sy_acquire_buffer sy object timeout_ms mm) \<noteq> Inl kOk)"

lemma LockMutex_lease_effect:
  assumes "LockMutex_lease sy attempt (mx, mm) = (r, mx', mm')" and "errors_named sy"
  shows "mx_locked mx' = mx_locked mx" "mx_owner mx' = mx_owner mx" "mx_waiters mx' = mx_waiters mx" "mx_distributed mx' = mx_distributed mx"
    "r = Some kOk \<Longrightarrow> mx_distributed mx \<Longrightarrow> mx_lease mx' \<noteq> None"
proof -
  have "fst (sy_acquire_buffer sy (mx_object mx) t mm) \<noteq> Inl kOk" for t using assms(2) by (simp add: errors_named_def)
  note e = this [of 1] this [of 10000]
  show "mx_locked mx' = mx_locked mx" "mx_owner mx' = mx_owner mx" "mx_waiters mx' = mx_waiters mx" "mx_distributed mx' = mx_distributed mx"
    "r = Some kOk \<Longrightarrow> mx_distributed mx \<Longrightarrow> mx_lease mx' \<noteq> None"
    using assms(1) e by (auto simp: LockMutex_lease_def split: if_splits prod.splits sum.splits)
qed

lemma LockMutex_finish_effect:
  assumes "LockMutex_finish sy st0 (mx, mm) = Some (st, mx', mm')"
  shows "st = kOk \<Longrightarrow> mx' = mx \<and> st0 = kOk" "st \<noteq> kOk \<Longrightarrow> \<not> mx_locked mx'" "mx_waiters mx' = mx_waiters mx" "mx_distributed mx' = mx_distributed mx"
  using assms by (auto simp: LockMutex_finish_def open_mutex_def split: if_splits option.splits prod.splits)

lemma mutex_unlock_effect:
  assumes "mutex_unlock sy c (mx, mm) = Some (st, mx', mm')"
  shows "st = kOk \<Longrightarrow> mx_locked mx \<and> mx_owner mx = c \<and> \<not> mx_locked mx'"
    "st \<noteq> kOk \<Longrightarrow> mx_locked mx' = mx_locked mx \<and> mx_owner mx' = mx_owner mx \<and> (mx_lease mx \<noteq> None \<longrightarrow> mx_lease mx' \<noteq> None)"
    "mx_waiters mx' = mx_waiters mx" "mx_distributed mx' = mx_distributed mx"
  using assms by (auto simp: mutex_unlock_def open_mutex_def split: if_splits option.splits prod.splits)

text \<open>The context inside the mutex moves on, or leaves it open.\<close>

lemma mutex_inv_inside:
  assumes inv: "mutex_inv (mx, mm, pc)" and c: "inside (pc c)" and p: "p \<noteq> MWaiting"
    and keep: "mx_waiters mx' = mx_waiters mx" "mx_distributed mx' = mx_distributed mx"
    and flag: "if inside p then mx_locked mx' = mx_locked mx \<and> mx_owner mx' = mx_owner mx else \<not> mx_locked mx'"
    and lease: "p = MHeld \<or> p = MFinishing kOk \<Longrightarrow> mx_distributed mx \<Longrightarrow> mx_lease mx' \<noteq> None"
  shows "mutex_inv (mx', mm', pc(c := p))"
proof -
  have own: "inside (pc d) \<longleftrightarrow> mx_locked mx \<and> mx_owner mx = d" for d using inv by (simp add: mutex_inv_def)
  have other: "\<not> inside (pc d)" if "d \<noteq> c" for d using own [of d] own [of c] c that by auto
  have held: "pc d \<noteq> MHeld \<and> pc d \<noteq> MFinishing kOk" if "d \<noteq> c" for d using other [OF that] by auto
  have "inside ((pc(c := p)) d) \<longleftrightarrow> mx_locked mx' \<and> mx_owner mx' = d" for d
    using own [of c] c flag other [of d] by (cases "inside p") (auto simp: fun_upd_apply)
  moreover have "{d. (pc(c := p)) d = MWaiting} = {d. pc d = MWaiting}" by (rule waiting_update(1)) (use p c in auto)
  moreover have "(pc(c := p)) 0 \<noteq> MWaiting" using inv p by (auto simp: mutex_inv_def)
  moreover have "mx_lease mx' \<noteq> None" if "mx_distributed mx'" "(pc(c := p)) d = MHeld \<or> (pc(c := p)) d = MFinishing kOk" for d
    using that held [of d] lease keep(2) by (auto split: if_splits)
  moreover have "mx_waiters mx' = of_nat (card {d. pc d = MWaiting})" using inv keep(1) by (simp add: mutex_inv_def)
  ultimately show ?thesis unfolding mutex_inv_def prod.case by metis
qed

lemma mutex_step_inv:
  assumes "mutex_step sy a b" and "errors_named sy" and "mutex_inv a"
  shows "mutex_inv b"
  using assms(1,3)
proof (induction rule: mutex_step.induct)
  case (refused attempt c mx st mx' mm pc)
  then show ?case by (auto simp: LockMutex_begin_def split: if_splits)
next
  case (taken pc c attempt mx mx' mm)
  then have "\<not> mx_locked mx" "mx' = take_mutex c mx" by (auto simp: LockMutex_begin_def split: if_splits)
  then show ?case using taken.hyps(1) taken.prems waiting_update(1) [of "MLeasing attempt" pc c]
    by (auto simp: mutex_inv_def take_mutex_def)
next
  case (waits pc c attempt mx mx' mm)
  then have "mx' = mx\<lparr>mx_waiters := mx_waiters mx + 1\<rparr>" by (auto simp: LockMutex_begin_def split: if_splits)
  moreover have "card {d. (pc(c := MWaiting)) d = MWaiting} = Suc (card {d. pc d = MWaiting})" by (rule waiting_update(3)) (simp add: waits.hyps(1))
  moreover have "\<not> (mx_locked mx \<and> mx_owner mx = c)" using waits.prems waits.hyps(1) unfolding mutex_inv_def prod.case by (metis inside_simps(1))
  ultimately show ?case using waits.prems waits.hyps(2) unfolding mutex_inv_def prod.case by (elim conjE, intro conjI allI) (auto simp: fun_upd_apply)
next
  case (wakes pc c mx mx' mm)
  then have "\<not> mx_locked mx" "mx' = take_mutex c (mx\<lparr>mx_waiters := mx_waiters mx - 1\<rparr>)" by (auto simp: LockMutex_wake_def split: if_splits)
  moreover have "card {d. pc d = MWaiting} = Suc (card {d. (pc(c := MLeasing False)) d = MWaiting})" by (rule waiting_update(2)) (simp_all add: wakes.hyps(1))
  ultimately show ?case using wakes.prems unfolding mutex_inv_def prod.case take_mutex_def by (elim conjE, intro conjI allI) (auto simp: fun_upd_apply)
next
  case (lease pc c attempt mx mm r mx' mm')
  show ?case
    by (rule mutex_inv_inside [OF lease.prems]) (use lease.hyps(1) LockMutex_lease_effect [OF lease.hyps(2) assms(2)] in \<open>auto split: option.splits\<close>)
next
  case (finish pc c st0 mx mm st mx' mm')
  have held: "mx_lease mx \<noteq> None" if "st = kOk" "mx_distributed mx"
    using finish.prems finish.hyps(1) LockMutex_finish_effect(1) [OF finish.hyps(2) that(1)] that(2) unfolding mutex_inv_def prod.case by blast
  show ?case
    by (rule mutex_inv_inside [OF finish.prems])
      (use finish.hyps(1) LockMutex_finish_effect [OF finish.hyps(2)] held in \<open>auto split: if_splits\<close>)
next
  case (unlock pc c mx mm st mx' mm')
  note e = mutex_unlock_effect [OF unlock.hyps(2)]
  show ?case
  proof (cases "st = kOk")
    case True
    then have "inside (pc c)" using unlock.prems e(1) unfolding mutex_inv_def prod.case by blast
    then show ?thesis by (rule mutex_inv_inside [OF unlock.prems]) (use True e in auto)
  next
    case False
    then have "pc(c := if st = kOk then MIdle else pc c) = pc" by auto
    then show ?thesis using unlock.prems e(2) [OF False] e(3,4) unfolding mutex_inv_def prod.case by auto
  qed
next
  case (memory mx mm pc mm')
  then show ?case by (simp add: mutex_inv_def)
qed

lemma mutex_reach_inv: "mutex_reach sy a \<Longrightarrow> errors_named sy \<Longrightarrow> mutex_inv a"
proof (induction rule: mutex_reach.induct)
  case (start object owns mm)
  show ?case by (simp add: mutex_inv_def new_mutex_def)
next
  case (step a b)
  then show ?case using mutex_step_inv by blast
qed


text \<open>A shared mutex, taken by context 7.\<close>

definition granting_memory :: "unit SyncCalls" where
  "granting_memory = \<lparr>sy_acquire_buffer = (\<lambda>_ _ mm. (Inr no_buffer, mm)), sy_release_buffer = (\<lambda>wb mm. Some (kOk, wb, mm)),
     sy_acquire = (\<lambda>mm. Some (kOk, mm)), sy_release = (\<lambda>_ mm. Some (kOk, mm)), sy_free = (\<lambda>_ mm. Some (kOk, mm))\<rparr>"


end
