(* ===== verification/Spec2Isabelle.thy ===== *)
theory Spec2Isabelle
  imports Cx_Queue_Steps Cx_Poller Cx_Barrier Cx_Migration Cx_Threads Cx_Registry Cx_Retirement Cx_Token_Claims Cx_Scheduler Cx_Reads Cx_Views Cx_Par_Limits Cx_Sync
begin

text \<open>
  \<^bold>\<open>CXLoom: a verification of the shared-memory runtime and of the thread layer above it.\<close>

  CXLoom lets several hosts share one CXL memory region.  \<^verbatim>\<open>LoomMem\<close> (\<^verbatim>\<open>src/loommem\<close>) lays the region out,
  allocates objects in it, passes the write token of every coherence block between the hosts, caches blocks for
  reading, and carries messages in rings of the region.  \<^verbatim>\<open>LoomPar\<close> (\<^verbatim>\<open>src/loompar\<close>) places threads on hosts,
  tracks their life, and offers barriers and a cluster-wide function registry; it talks through the same rings.

  \<^bold>\<open>Parts and how they interact.\<close>  A runtime validates its configuration and builds the layout of the region
  (\<^verbatim>\<open>common/config.cpp\<close>, \<^verbatim>\<open>loommem/runtime.cpp\<close>); one host formats allocator, coherence metadata and rings, the
  others attach.  Objects come from the shared extent allocator (\<^verbatim>\<open>loommem/allocator.cpp\<close>); every operation on one
  pins it, and a retirement transaction that all hosts acknowledge in three phases returns it.  A writer obtains the
  token of each block from the token service (\<^verbatim>\<open>loommem/token.cpp\<close>), whose messages travel in the rings
  (\<^verbatim>\<open>loommem/queue.cpp\<close>) and are delivered by the poller (\<^verbatim>\<open>loommem/poller.cpp\<close>).  A reader validates a block
  against its epoch and version and keeps the copy until the next acquire boundary.  The scheduler asks LoomMem for
  the locality of a working set and picks a host (\<^verbatim>\<open>loompar/scheduler.cpp\<close>); thread manager, barrier, registry and
  migration transaction are the state machines of LoomPar.

  \<^bold>\<open>Theories.\<close>

  \<^item> \<open>Cx_Prelude\<close>, \<open>Cx_Wire\<close>, \<open>Cx_Links\<close>, \<open>Cx_Channel\<close>: machine words, statuses and results, loops over hosts, host
    masks; byte images of structures; doubly linked lists in a table; the contract of a bounded channel.
  \<^item> \<open>Cx_Common\<close>, \<open>Cx_Visibility\<close>: types, messages, configuration, layout; the flush and fence recipes.
  \<^item> \<open>Cx_Queue\<close>, \<open>Cx_Queue_Steps\<close>, \<open>Cx_Poller\<close>: format, validation and location of the rings, push and pop as
    operations and as interleaved loads and stores, and the thread that drains them.
  \<^item> \<open>Cx_Extents\<close>, \<open>Cx_Extent_Pool\<close>, \<open>Cx_Extent_Spec\<close>: the free-extent table with its lists and size classes, refined
    to sets of free addresses.  \<open>Cx_Allocator\<close>, \<open>Cx_Allocator_Heap\<close>, \<open>Cx_Retirement\<close>: objects, pins, retirement, and
    the system of all hosts over the shared memory.
  \<^item> \<open>Cx_Token_Wire\<close>, \<open>Cx_Token\<close>, \<open>Cx_Token_Local\<close>, \<open>Cx_Token_Inv\<close>, \<open>Cx_Token_Ops\<close>, \<open>Cx_Token_World\<close>,
    \<open>Cx_Token_Claims\<close>: the token messages, the service of one host, its invariant and guarantee, all hosts together.
  \<^item> \<open>Cx_Replicas\<close>, \<open>Cx_Seqlock\<close>, \<open>Cx_Reads\<close>: the read cache, one validated read against writers, reads of ranges.
    \<open>Cx_Writes\<close>: write buffers over token leases, their publication, the release boundary.
  \<^item> \<open>Cx_Region_Mapper\<close>, \<open>Cx_Bootstrap\<close>, \<open>Cx_Startup\<close>, \<open>Cx_Lifecycle\<close>: mapping the region, the bootstrap page and its
    rendezvous, the start of owner and peers, allocation, retirement rounds, polling and the end of a memory runtime.
  \<^item> \<open>Cx_Views\<close>: the C++ interface (\<^verbatim>\<open>src/api/loommem.cpp\<close>): contexts and the views that keep them alive.
  \<^item> \<open>Cx_Scheduler\<close>, \<open>Cx_Threads\<close>, \<open>Cx_Barrier\<close>, \<open>Cx_Registry\<close>, \<open>Cx_Migration\<close>: the parts of LoomPar.
    \<open>Cx_Par_Wire\<close>, \<open>Cx_Par_Runtime\<close>, \<open>Cx_Par_Local\<close>, \<open>Cx_Par_Limits\<close>: its messages, the runtime of a host that joins the
    parts (\<^verbatim>\<open>src/loompar/runtime.cpp\<close>), what it does to the threads that count, its limits, its end and the way of a
    completion to the home of its thread.
  \<^item> \<open>Cx_Sync\<close>: mutex and condition of the C interface (\<^verbatim>\<open>src/api/cxloom_mem.cpp\<close>).
  \<^item> \<open>Cx_Samples\<close>: a small shared memory on which witnesses are evaluated.

  \<^bold>\<open>Correspondence.\<close>  A class is a record with the names of its fields, shortened by a prefix; a method is a definition of
  the same name; a call that blocks is split into the part up to the wait, the predicate of the wait and the part after
  it (\<open>Join_begin\<close>, \<open>Join_wake\<close>, \<open>Join_finish\<close>).  A fallible call returns a status or a \<open>Result\<close>; a further \<open>option\<close> with
  \<open>None\<close> is an access past the end of a buffer or of the region.  Integers are words of the width they have in the code.

  \<^bold>\<open>Interfaces.\<close>  \<open>fifo_channel\<close> (\<open>Cx_Channel\<close>) is the contract of a bounded channel: what is pushed comes out once and in
  order.  It is interpreted on the rings as \<open>ring\<close> (\<open>Cx_Queue\<close>) and on the queues a poller drains as \<open>inbound\<close>
  (\<open>Cx_Poller\<close>).  \<open>extent_pools\<close> (\<open>Cx_Extent_Spec\<close>) is the contract of the extent allocator, on sets of free addresses; it is
  interpreted as \<open>pools\<close> on the table of \<open>Cx_Extents\<close>, and the object heap rests on it.  The registration states of hosts
  are a linear order, by instantiation.

  \<^bold>\<open>What is shown.\<close>  For the rings: a push and a pop refine a queue, also when their loads and stores interleave.  For the
  allocator: extents are never handed out twice, objects partition the heap in every reachable state of all hosts, and an
  object is reclaimed only when every host has acknowledged and nobody pins it.  For the tokens: at most one host holds
  the lease of a block, and the lease it holds is current.  For reads and writes: a validated read is one published state
  of its block, a released buffer is what later readers see, the cache keeps its books.  For start and end: owner and
  peers come up over one region or leave nothing behind; a host that has ended has nothing running and nothing to send.
  For LoomPar: the barrier, the registry, the migration hand-over and the thread life cycle are safe; the scheduler picks
  the best admitted host; counters of running and pending threads are exact and their limits hold whatever messages come;
  a completion reaches the home and its join.  For the C interface: the mutex excludes, the condition refines a set of
  waiters.  The C++ views have a typestate.

  \<^bold>\<open>Loops and bounds.\<close>  Loops over hosts, blocks, slots and bytes are recursions on lists or numbers and need no fuel; the
  walks along the lists of the extent table have one more unit of fuel than the table has nodes, and are shown to return on
  every well-formed table; the flush loop over cache lines is a \<open>partial_function\<close>, shown to return.  Loops that
  wait for other threads (\<open>free_rounds\<close>, \<open>wait_rounds\<close>, \<open>drain_rounds\<close>) take the number of rounds their deadline allows and
  what the others do in each round as arguments; properties hold for every number of rounds.  Retry loops without a
  deadline (\<open>LockMutex_lease\<close>, \<open>ChangeCondition\<close>) are one try per step.

  \<^bold>\<open>Idealisations.\<close>  An operation under a lock is one step; loads and stores of different threads are sequentially
  consistent, and interleaved one by one where the code has no lock (rings, validated reads).  The bytes of objects are
  kept apart from the memory of the allocator.  Doubles are reals, hash maps iterate in list order, texts of statuses are
  dropped.  What the code observes of the outside (the clock, loads of other hosts, answers of the operating system, what
  callbacks compute, what other threads do in a wait) is an argument.

  \<^bold>\<open>Not modelled.\<close>  The machine context switch of \<^verbatim>\<open>fiber.cpp\<close>, which has no meaning in HOL beyond the worker steps; the
  tracing of \<^verbatim>\<open>tracing.cpp\<close>, which only prints; the wrappers of the C interface that copy structures and forward; examples,
  tests and tools.
\<close>

end
